(* ===== verification/Prelude.thy ===== *)
theory Prelude
  imports Complex_Main "HOL-Library.AList"
begin

text \<open>
  Shared vocabulary of the development: the types that stand for Python's data, the
  insertion-ordered dictionaries (\<open>dict\<close>, \<open>collections.OrderedDict\<close>) as association lists
  with their lemmas, substring search and lower-casing as the error classifier uses them,
  and the locales from which the components get their "every run of operations keeps the
  invariant" lemmas.
\<close>

section \<open>Numbers, results, collections of facts\<close>

text \<open>
  Python's \<open>float\<close> is read as an exact real number and \<open>int\<close> as an unbounded integer.
  A clock reading is a real number of seconds.
\<close>

type_synonym time = real

named_theorems od_simps \<open>rewrite rules for insertion-ordered dictionaries\<close>

lemma Inl_Inr_cases [case_names Inl Inr]:
  "(\<And>e. r = Inl e \<Longrightarrow> P) \<Longrightarrow> (\<And>x. r = Inr x \<Longrightarrow> P) \<Longrightarrow> P"
  by (cases r) auto

text \<open>
  Python values as parsed YAML documents and attribute reads deliver them. \<open>PNonFinite\<close> is a
  float that is infinite or not a number; a mapping keeps its order and has string keys.
\<close>

datatype pyval =
    PNone
  | PBool bool
  | PInt int
  | PFloat real
  | PNonFinite
  | PStr string
  | PList "pyval list"
  | PDict "(string \<times> pyval) list"

text \<open>Python's truth value, negated: what \<open>x or default\<close> replaces.\<close>

fun falsy :: "pyval \<Rightarrow> bool" where
  "falsy PNone = True"
| "falsy (PBool b) = (\<not> b)"
| "falsy (PInt n) = (n = 0)"
| "falsy (PFloat r) = (r = 0)"
| "falsy PNonFinite = False"
| "falsy (PStr s) = (s = [])"
| "falsy (PList xs) = (xs = [])"
| "falsy (PDict d) = (d = [])"

text \<open>
  A finite positive number that is not a boolean. \<open>math.isfinite\<close> raises \<open>OverflowError\<close> for an
  integer that does not fit a float, which the code reads as invalid.
\<close>

fun finite_positive :: "pyval \<Rightarrow> real option" where
  "finite_positive (PInt n) = (if 0 < n \<and> n < 2 ^ 1024 - 2 ^ 970 then Some (of_int n) else None)"
| "finite_positive (PFloat r) = (if 0 < r then Some r else None)"
| "finite_positive _ = None"

section \<open>Insertion-ordered dictionaries\<close>

text \<open>
  \<open>d[k] = v\<close> keeps the position of a key that is present and appends a new one, which is
  what \<open>AList.update\<close> does; \<open>del d[k]\<close> and \<open>d.pop(k, None)\<close> are \<open>AList.delete\<close>.
\<close>

type_synonym ('k, 'v) odict = "('k \<times> 'v) list"

abbreviation od_get :: "('k, 'v) odict \<Rightarrow> 'k \<Rightarrow> 'v option" where
  "od_get d k \<equiv> map_of d k"

abbreviation od_keys :: "('k, 'v) odict \<Rightarrow> 'k list" where
  "od_keys d \<equiv> map fst d"

abbreviation od_wf :: "('k, 'v) odict \<Rightarrow> bool" where
  "od_wf d \<equiv> distinct (map fst d)"

definition od_has :: "('k, 'v) odict \<Rightarrow> 'k \<Rightarrow> bool" where
  "od_has d k \<longleftrightarrow> map_of d k \<noteq> None"

definition od_set :: "'k \<Rightarrow> 'v \<Rightarrow> ('k, 'v) odict \<Rightarrow> ('k, 'v) odict" where
  "od_set k v d = AList.update k v d"

definition od_pop :: "'k \<Rightarrow> ('k, 'v) odict \<Rightarrow> ('k, 'v) odict" where
  "od_pop k d = AList.delete k d"

text \<open>\<open>OrderedDict.move_to_end(k)\<close>, only ever called on a key that is present.\<close>

definition od_move_to_end :: "'k \<Rightarrow> ('k, 'v) odict \<Rightarrow> ('k, 'v) odict" where
  "od_move_to_end k d =
     (case map_of d k of None \<Rightarrow> d | Some v \<Rightarrow> AList.delete k d @ [(k, v)])"

text \<open>\<open>while len(d) > n: d.popitem(last=False)\<close>: the oldest entries go first.\<close>

fun od_evict :: "nat \<Rightarrow> ('k, 'v) odict \<Rightarrow> ('k, 'v) odict" where
  "od_evict n [] = []"
| "od_evict n (x # xs) = (if length (x # xs) > n then od_evict n xs else x # xs)"

text \<open>Deleting every entry that a predicate selects, as \<open>for k in [...]: del d[k]\<close> does.\<close>

definition od_drop_where :: "('k \<Rightarrow> 'v \<Rightarrow> bool) \<Rightarrow> ('k, 'v) odict \<Rightarrow> ('k, 'v) odict" where
  "od_drop_where p d = filter (\<lambda>(k, v). \<not> p k v) d"

text \<open>In-place mutation of the value behind a key (the object is shared, the key stays put).\<close>

definition od_map_at :: "'k \<Rightarrow> ('v \<Rightarrow> 'v) \<Rightarrow> ('k, 'v) odict \<Rightarrow> ('k, 'v) odict" where
  "od_map_at k f d = (case map_of d k of None \<Rightarrow> d | Some v \<Rightarrow> AList.update k (f v) d)"

lemma od_get_set [simp, od_simps]: "map_of (od_set k v d) = (map_of d)(k \<mapsto> v)"
  by (simp add: od_set_def update_conv')

lemma od_get_pop [simp, od_simps]: "map_of (od_pop k d) = (map_of d)(k := None)"
  by (simp add: od_pop_def delete_conv')

lemma od_get_move [simp, od_simps]: "map_of (od_move_to_end k d) = map_of d"
  by (auto simp: od_move_to_end_def delete_conv' map_add_def fun_eq_iff split: option.splits)

lemma od_get_map_at [simp, od_simps]:
  "map_of (od_map_at k f d) = (map_of d)(k := map_option f (map_of d k))"
  by (auto simp: od_map_at_def update_conv' split: option.splits)

lemma od_keys_set [od_simps]:
  "od_keys (od_set k v d) = (if k \<in> set (od_keys d) then od_keys d else od_keys d @ [k])"
  by (simp add: od_set_def update_keys)

lemma od_keys_map_at [simp, od_simps]: "od_keys (od_map_at k f d) = od_keys d"
proof (cases "map_of d k")
  case None
  then show ?thesis by (simp add: od_map_at_def)
next
  case (Some v)
  then have "k \<in> set (od_keys d)"
    by (metis domI dom_map_of_conv_image_fst list.set_map)
  with Some show ?thesis by (simp add: od_map_at_def update_keys)
qed

lemma od_keys_pop [simp, od_simps]: "od_keys (od_pop k d) = removeAll k (od_keys d)"
  by (simp add: od_pop_def delete_keys)

lemma od_keys_move:
  "od_keys (od_move_to_end k d) =
     (if k \<in> set (od_keys d) then removeAll k (od_keys d) @ [k] else od_keys d)"
  by (auto simp: od_move_to_end_def delete_keys map_of_eq_None_iff rev_image_eqI
      dest: map_of_SomeD split: option.splits)

text \<open>The key set, in the form the simplifier normalises it to.\<close>

lemma fst_set_keys: "fst ` set d = set (od_keys d)"
  by simp

lemma fst_set_od_set [simp]: "fst ` set (od_set k v d) = insert k (fst ` set d)"
  by (auto simp only: fst_set_keys od_keys_set set_append list.set split: if_splits)

lemma fst_set_od_pop [simp]: "fst ` set (od_pop k d) = fst ` set d - {k}"
  by (simp only: fst_set_keys od_keys_pop set_removeAll)

lemma fst_set_od_map_at [simp]: "fst ` set (od_map_at k f d) = fst ` set d"
  by (simp only: fst_set_keys od_keys_map_at)

lemma fst_set_od_move [simp]: "fst ` set (od_move_to_end k d) = fst ` set d"
  by (auto simp only: fst_set_keys od_keys_move set_append set_removeAll list.set split: if_splits)

lemma od_wf_set [simp, intro]: "od_wf d \<Longrightarrow> od_wf (od_set k v d)"
  by (simp add: od_set_def distinct_update)

lemma od_wf_pop [simp, intro]: "od_wf d \<Longrightarrow> od_wf (od_pop k d)"
  by (simp add: od_pop_def distinct_delete)

declare distinct_removeAll [simp]

lemma od_wf_move [simp, intro]: "od_wf d \<Longrightarrow> od_wf (od_move_to_end k d)"
  by (simp add: od_keys_move)

lemma od_wf_drop_where [simp, intro]: "od_wf d \<Longrightarrow> od_wf (od_drop_where p d)"
  by (simp add: od_drop_where_def distinct_map_filter)

lemma length_od_set:
  "length (od_set k v d) = (if k \<in> set (od_keys d) then length d else Suc (length d))"
proof -
  have "length (od_set k v d) = length (od_keys (od_set k v d))" by simp
  also have "\<dots> = (if k \<in> set (od_keys d) then length d else Suc (length d))"
    unfolding od_keys_set by simp
  finally show ?thesis .
qed

lemma length_od_map_at [simp]: "length (od_map_at k f d) = length d"
proof -
  have "length (od_map_at k f d) = length (od_keys (od_map_at k f d))"
    by (simp del: od_keys_map_at)
  then show ?thesis by simp
qed

lemma length_od_pop_le: "length (od_pop k d) \<le> length d"
  by (simp add: od_pop_def length_delete_le)

lemma length_od_drop_where_le: "length (od_drop_where p d) \<le> length d"
  by (simp add: od_drop_where_def)

lemma length_removeAll_distinct:
  "distinct xs \<Longrightarrow> x \<in> set xs \<Longrightarrow> Suc (length (removeAll x xs)) = length xs"
  by (induction xs) (auto simp: removeAll_id)

lemma length_remove1_int:
  "x \<in> set xs \<Longrightarrow> int (length (remove1 x xs)) = int (length xs) - 1"
  by (induction xs) auto

lemma length_od_move [simp]: "od_wf d \<Longrightarrow> length (od_move_to_end k d) = length d"
proof -
  assume wf: "od_wf d"
  have "length (od_move_to_end k d) = length (od_keys (od_move_to_end k d))" by simp
  also have "\<dots> = length (od_keys d)"
    unfolding od_keys_move using wf length_removeAll_distinct [of "od_keys d" k] by auto
  finally show ?thesis by simp
qed

lemma od_evict_drop: "od_evict n d = drop (length d - n) d"
proof (induction d)
  case Nil
  then show ?case by simp
next
  case (Cons x xs)
  show ?case
  proof (cases "length (x # xs) > n")
    case True
    then have "length (x # xs) - n = Suc (length xs - n)" by auto
    with True Cons show ?thesis by simp
  next
    case False
    then show ?thesis by simp
  qed
qed

lemma length_od_evict [simp]: "length (od_evict n d) = min n (length d)"
  by (simp add: od_evict_drop)

lemma od_evict_id [simp]: "length d \<le> n \<Longrightarrow> od_evict n d = d"
  by (simp add: od_evict_drop)

lemma od_wf_drop: "od_wf d \<Longrightarrow> od_wf (drop n d)"
  by (simp add: drop_map [symmetric])

lemma od_wf_evict [simp, intro]: "od_wf d \<Longrightarrow> od_wf (od_evict n d)"
  by (simp add: od_evict_drop od_wf_drop)

lemma set_od_evict: "set (od_evict n d) \<subseteq> set d"
  by (simp add: od_evict_drop set_drop_subset)

lemma od_move_last: "map_of d k = Some v \<Longrightarrow> last (od_move_to_end k d) = (k, v)"
  by (simp add: od_move_to_end_def)

lemma od_get_in_set: "od_wf d \<Longrightarrow> (k, v) \<in> set d \<longleftrightarrow> map_of d k = Some v"
  by simp

lemma od_get_drop_where:
  "od_wf d \<Longrightarrow> map_of (od_drop_where p d) k =
     (case map_of d k of None \<Rightarrow> None | Some v \<Rightarrow> if p k v then None else Some v)"
proof (induction d)
  case Nil
  then show ?case by (simp add: od_drop_where_def)
next
  case (Cons x xs)
  obtain k' v' where x: "x = (k', v')" by (cases x)
  from Cons have IH: "map_of (od_drop_where p xs) k =
     (case map_of xs k of None \<Rightarrow> None | Some v \<Rightarrow> if p k v then None else Some v)"
    by simp
  have "k' = k \<Longrightarrow> map_of xs k = None"
    using Cons.prems x by (simp add: map_of_eq_None_iff)
  then show ?case
    using IH x by (auto simp: od_drop_where_def)
qed

text \<open>\<open>d.update(e)\<close>.\<close>

definition od_update :: "('k, 'v) odict \<Rightarrow> ('k, 'v) odict \<Rightarrow> ('k, 'v) odict" where
  "od_update d e = fold (\<lambda>(k, v). od_set k v) e d"

lemma od_get_update:
  "od_wf e \<Longrightarrow> map_of (od_update d e) k = (case map_of e k of Some v \<Rightarrow> Some v | None \<Rightarrow> map_of d k)"
proof (induction e arbitrary: d)
  case Nil
  then show ?case by (simp add: od_update_def)
next
  case (Cons x e)
  obtain k' v where x: "x = (k', v)" by (cases x)
  have "map_of e k' = None" using Cons.prems x by (simp add: map_of_eq_None_iff)
  moreover have "od_update d (x # e) = od_update (od_set k' v d) e" by (simp add: od_update_def x)
  ultimately show ?case using Cons by (auto simp: x split: option.splits)
qed

lemma od_get_drop_keys: "map_of (od_drop_where (\<lambda>n _. P n) d) k = (if P k then None else map_of d k)"
  by (induction d) (auto simp: od_drop_where_def)

lemma od_set_new: "map_of d k = None \<Longrightarrow> od_set k v d = d @ [(k, v)]"
  unfolding od_set_def by (induction d) (auto split: if_splits)

lemma sum_od_map_at:
  fixes h :: "'k \<times> 'v \<Rightarrow> 'n::ab_group_add"
  shows "map_of d k = Some v \<Longrightarrow>
    sum_list (map h (od_map_at k g d)) = sum_list (map h d) + (h (k, g v) - h (k, v))"
proof (induction d)
  case Nil
  then show ?case by simp
next
  case (Cons x d)
  obtain k' v' where x: "x = (k', v')" by (cases x)
  show ?case
  proof (cases "k' = k")
    case True
    then show ?thesis using Cons.prems by (simp add: x od_map_at_def)
  next
    case False
    then have "od_map_at k g (x # d) = x # od_map_at k g d"
      using Cons.prems by (simp add: x od_map_at_def)
    then show ?thesis using Cons False by (simp add: x)
  qed
qed

lemma set_od_setD: "x \<in> set (od_set k v d) \<Longrightarrow> x = (k, v) \<or> x \<in> set d"
  unfolding od_set_def by (induction d) (auto split: if_splits)

lemma set_od_popD: "x \<in> set (od_pop k d) \<Longrightarrow> x \<in> set d"
  unfolding od_pop_def by (induction d) (auto split: if_splits)

lemma snd_set_od_set: "snd ` set (od_set k v d) \<subseteq> insert v (snd ` set d)"
  unfolding od_set_def by (induction d) auto

lemma od_has_iff [simp]: "od_has d k \<longleftrightarrow> k \<in> set (od_keys d)"
  by (simp add: od_has_def map_of_eq_None_iff)

section \<open>Strings\<close>

text \<open>ASCII lower-casing (\<open>str.lower\<close>) and \<open>needle in haystack\<close>.\<close>

definition lower_char :: "char \<Rightarrow> char" where
  "lower_char c = (let n = (of_char c :: nat) in if 65 \<le> n \<and> n \<le> 90 then char_of (n + 32) else c)"

definition str_lower :: "string \<Rightarrow> string" where
  "str_lower s = map lower_char s"

fun str_in :: "string \<Rightarrow> string \<Rightarrow> bool" where
  "str_in n [] = (n = [])"
| "str_in n (x # xs) = (take (length n) (x # xs) = n \<or> str_in n xs)"

lemma str_in_iff: "str_in n s \<longleftrightarrow> (\<exists>a b. s = a @ n @ b)"
proof (induction s)
  case Nil
  then show ?case by simp
next
  case (Cons x xs)
  have "take (length n) (x # xs) = n \<longleftrightarrow> (\<exists>b. x # xs = n @ b)"
    by (metis append_eq_conv_conj append_take_drop_id)
  moreover have "(\<exists>a b. x # xs = a @ n @ b) \<longleftrightarrow>
      (\<exists>b. x # xs = n @ b) \<or> (\<exists>a b. xs = a @ n @ b)"
    by (metis append_Cons append_Nil list.exhaust list.inject)
  ultimately show ?case using Cons by simp
qed

text \<open>\<open>s.strip()\<close>.\<close>

definition is_space :: "char \<Rightarrow> bool" where
  "is_space c \<longleftrightarrow> c \<in> set [CHR 0x20, CHR 0x09, CHR 0x0A, CHR 0x0B, CHR 0x0C, CHR 0x0D,
     CHR 0x1C, CHR 0x1D, CHR 0x1E, CHR 0x1F]"

definition strip :: "string \<Rightarrow> string" where
  "strip s = rev (dropWhile is_space (rev (dropWhile is_space s)))"

text \<open>\<open>sep.join(xs)\<close> and \<open>str(n)\<close> of a natural number.\<close>

fun intercalate :: "'a list \<Rightarrow> 'a list list \<Rightarrow> 'a list" where
  "intercalate sep [] = []"
| "intercalate sep [x] = x"
| "intercalate sep (x # xs) = x @ sep @ intercalate sep xs"

fun show_nat :: "nat \<Rightarrow> string" where
  "show_nat n = (if n < 10 then [char_of (48 + n)] else show_nat (n div 10) @ [char_of (48 + n mod 10)])"

declare show_nat.simps [simp del]

text \<open>A list of results, all of which must be there.\<close>

fun all_some :: "'a option list \<Rightarrow> 'a list option" where
  "all_some [] = Some []"
| "all_some (None # xs) = None"
| "all_some (Some x # xs) = map_option (Cons x) (all_some xs)"

lemma all_some_Some: "all_some xs = Some ys \<Longrightarrow> xs = map Some ys"
  by (induction xs arbitrary: ys rule: all_some.induct) auto

text \<open>\<open>s.split(c)\<close>, \<open>s.partition(c)\<close> without the separator, and \<open>s.split()\<close>.\<close>

fun split_on :: "char \<Rightarrow> string \<Rightarrow> string list" where
  "split_on c [] = [[]]"
| "split_on c (x # xs) =
     (if x = c then [] # split_on c xs
      else case split_on c xs of [] \<Rightarrow> [[x]] | w # ws \<Rightarrow> (x # w) # ws)"

fun partition_on :: "char \<Rightarrow> string \<Rightarrow> string \<times> string" where
  "partition_on c [] = ([], [])"
| "partition_on c (x # xs) =
     (if x = c then ([], xs) else case partition_on c xs of (a, b) \<Rightarrow> (x # a, b))"

fun split_spaces :: "string \<Rightarrow> string list" where
  "split_spaces [] = [[]]"
| "split_spaces (x # xs) =
     (if is_space x then [] # split_spaces xs
      else case split_spaces xs of [] \<Rightarrow> [[x]] | w # ws \<Rightarrow> (x # w) # ws)"

definition str_words :: "string \<Rightarrow> string list" where
  "str_words s = filter (\<lambda>w. w \<noteq> []) (split_spaces s)"

text \<open>\<open>int(s)\<close>: a sign, then digits that may be grouped by single underscores.\<close>

definition digit_value :: "char \<Rightarrow> int option" where
  "digit_value c = (let n = (of_char c :: int) in if 48 \<le> n \<and> n \<le> 57 then Some (n - 48) else None)"

fun digits_value :: "bool \<Rightarrow> int \<Rightarrow> string \<Rightarrow> int option" where
  "digits_value after acc [] = (if after then Some acc else None)"
| "digits_value after acc (c # cs) =
     (case digit_value c of
        Some d \<Rightarrow> digits_value True (10 * acc + d) cs
      | None \<Rightarrow> (if c = CHR ''_'' \<and> after then digits_value False acc cs else None))"

definition py_int :: "string \<Rightarrow> int option" where
  "py_int s =
     (case strip s of
        [] \<Rightarrow> None
      | c # cs \<Rightarrow>
          (if c = CHR ''-'' then map_option uminus (digits_value False 0 cs)
           else if c = CHR ''+'' then digits_value False 0 cs else digits_value False 0 (c # cs)))"

section \<open>Runs of operations\<close>

text \<open>
  A component is a state and a set of operations on it; a client calls them in any order.
  Each operation is a value of an operation type with the clock reading and the arguments
  of the call, and a run is the fold of the operations over the state. An invariant that
  every permitted operation keeps holds after every run of permitted operations.
\<close>

locale op_system =
  fixes step :: "'op \<Rightarrow> 's \<Rightarrow> 's"
    and ok :: "'op \<Rightarrow> bool"
    and inv :: "'s \<Rightarrow> bool"
  assumes inv_step: "ok op \<Longrightarrow> inv s \<Longrightarrow> inv (step op s)"
begin

lemma inv_run: "list_all ok ops \<Longrightarrow> inv s \<Longrightarrow> inv (fold step ops s)"
  by (induction ops arbitrary: s) (auto intro: inv_step)

lemma inv_run_all: "(\<And>op. ok op) \<Longrightarrow> inv s \<Longrightarrow> inv (fold step ops s)"
  by (induction ops arbitrary: s) (auto intro: inv_step)

end

text \<open>A system with a quantity that no operation lowers: no run lowers it either.\<close>

locale monotone_op_system = op_system +
  fixes m :: "'b \<Rightarrow> 'm::order"
  assumes m_step: "ok op \<Longrightarrow> inv s \<Longrightarrow> m s \<le> m (step op s)"
begin

lemma m_run: "list_all ok ops \<Longrightarrow> inv s \<Longrightarrow> m s \<le> m (fold step ops s)"
proof (induction ops arbitrary: s)
  case Nil
  then show ?case by simp
next
  case (Cons op ops)
  then have "m s \<le> m (step op s)" by (auto intro: m_step)
  also have "\<dots> \<le> m (fold step ops (step op s))"
    using Cons by (auto intro: inv_step)
  finally show ?case by simp
qed

end

text \<open>
  A run of operations with what each answers, and a condition on each operation in the state it is applied in.
\<close>

fun run_answers :: "('op \<Rightarrow> 's \<Rightarrow> 's) \<Rightarrow> ('op \<Rightarrow> 's \<Rightarrow> 'answer) \<Rightarrow> 'op list \<Rightarrow> 's \<Rightarrow> 'answer list" where
  "run_answers step answer [] s = []"
| "run_answers step answer (op # ops) s = answer op s # run_answers step answer ops (step op s)"

fun all_along :: "('op \<Rightarrow> 's \<Rightarrow> 's) \<Rightarrow> ('op \<Rightarrow> 's \<Rightarrow> bool) \<Rightarrow> 'op list \<Rightarrow> 's \<Rightarrow> bool" where
  "all_along step fits [] s = True"
| "all_along step fits (op # ops) s = (fits op s \<and> all_along step fits ops (step op s))"

text \<open>
  Refinement of one operation system by another through an abstraction function: on every run whose operations
  fit the abstract states, the abstract run simulates the concrete one and gives the same answers.
\<close>

locale answering_refinement = op_system +
  fixes astep :: "'a \<Rightarrow> 'abs \<Rightarrow> 'abs"
    and abs :: "'b \<Rightarrow> 'abs"
    and fits :: "'a \<Rightarrow> 'abs \<Rightarrow> bool"
    and answer :: "'a \<Rightarrow> 'b \<Rightarrow> 'answer"
    and aanswer :: "'a \<Rightarrow> 'abs \<Rightarrow> 'answer"
  assumes abs_step: "ok op \<Longrightarrow> inv s \<Longrightarrow> fits op (abs s) \<Longrightarrow> abs (step op s) = astep op (abs s)"
    and abs_answer: "ok op \<Longrightarrow> inv s \<Longrightarrow> fits op (abs s) \<Longrightarrow> answer op s = aanswer op (abs s)"
begin

lemma abs_run:
  "list_all ok ops \<Longrightarrow> inv s \<Longrightarrow> all_along astep fits ops (abs s) \<Longrightarrow> abs (fold step ops s) = fold astep ops (abs s)"
  by (induction ops arbitrary: s) (simp_all add: abs_step inv_step)

lemma answers_run:
  "list_all ok ops \<Longrightarrow> inv s \<Longrightarrow> all_along astep fits ops (abs s) \<Longrightarrow>
   run_answers step answer ops s = run_answers astep aanswer ops (abs s)"
  by (induction ops arbitrary: s) (simp_all add: abs_step abs_answer inv_step)

end

end
