(* ===== verification/Errors.thy ===== *)
theory Errors
  imports Prelude
begin

text \<open>
  \<open>src/coreai/errors.py\<close>: the classifier every retry, failover and circuit-breaker decision
  rests on. An exception is either one of the gateway's own classes or an object raised by a
  provider SDK, of which the classifier reads the class names along the MRO, a few
  attributes, the HTTP response and the message text.
\<close>

section \<open>Error kinds and what is decided from them\<close>

datatype error_kind =
    RATE_LIMIT | OVERLOADED | SERVER_ERROR | TIMEOUT | CONNECTION | AUTH | QUOTA
  | BAD_REQUEST | DEADLINE | CIRCUIT_OPEN | UNKNOWN

fun kind_value :: "error_kind \<Rightarrow> string" where
  "kind_value RATE_LIMIT = ''rate_limit''"
| "kind_value OVERLOADED = ''overloaded''"
| "kind_value SERVER_ERROR = ''server_error''"
| "kind_value TIMEOUT = ''timeout''"
| "kind_value CONNECTION = ''connection''"
| "kind_value AUTH = ''auth''"
| "kind_value QUOTA = ''quota''"
| "kind_value BAD_REQUEST = ''bad_request''"
| "kind_value DEADLINE = ''deadline''"
| "kind_value CIRCUIT_OPEN = ''circuit_open''"
| "kind_value UNKNOWN = ''unknown''"

definition RETRYABLE :: "error_kind set" where
  "RETRYABLE = {RATE_LIMIT, OVERLOADED, SERVER_ERROR, TIMEOUT, CONNECTION}"

definition FAILOVER :: "error_kind set" where
  "FAILOVER = RETRYABLE \<union> {AUTH, QUOTA, CIRCUIT_OPEN}"

definition BREAKER_COUNTED :: "error_kind set" where
  "BREAKER_COUNTED = RETRYABLE \<union> {AUTH, QUOTA}"

record error_info =
  ei_kind :: error_kind
  ei_status :: "int option"
  ei_retry_after :: "real option"

definition retryable :: "error_info \<Rightarrow> bool" where
  "retryable i \<longleftrightarrow> ei_kind i \<in> RETRYABLE"

definition failover :: "error_info \<Rightarrow> bool" where
  "failover i \<longleftrightarrow> ei_kind i \<in> FAILOVER"

definition counts_against_breaker :: "error_info \<Rightarrow> bool" where
  "counts_against_breaker i \<longleftrightarrow> ei_kind i \<in> BREAKER_COUNTED"

lemmas decision_defs = retryable_def failover_def counts_against_breaker_def
  RETRYABLE_def FAILOVER_def BREAKER_COUNTED_def

section \<open>Exceptions\<close>

text \<open>
  A header is given by what Python's \<open>float\<close> and \<open>email.utils.parsedate_to_datetime\<close> make of
  its text: a number, an HTTP date (as seconds since the epoch), or neither.
\<close>

datatype header_value = HFloat real | HDate time | HBad

record http_response =
  rs_status :: pyval
  rs_headers :: "(string, header_value) odict option"

record sdk_exn =
  se_mro :: "string list"
  se_is_timeout :: bool
  se_is_connection :: bool
  se_attrs :: "(string, pyval) odict"
  se_response :: "http_response option"
  se_message :: string

text \<open>
  The exception classes of \<open>errors.py\<close> that a provider call can end with, and any other
  exception object.
\<close>

datatype exn =
    DeadlineExceeded
  | CircuitOpenError string "real option"
  | RateLimited string "real option"
  | ProviderTimeout string real
  | ProviderError sdk_exn

definition http_status :: "pyval \<Rightarrow> int option" where
  "http_status v = (case v of PInt n \<Rightarrow> if 100 \<le> n \<and> n \<le> 599 then Some n else None | _ \<Rightarrow> None)"

definition attr_of :: "sdk_exn \<Rightarrow> string \<Rightarrow> pyval" where
  "attr_of e a = (case map_of (se_attrs e) a of None \<Rightarrow> PNone | Some v \<Rightarrow> v)"

text \<open>\<open>_status_of\<close>: three attributes in order, then the response's status code.\<close>

fun first_status :: "sdk_exn \<Rightarrow> string list \<Rightarrow> int option" where
  "first_status e [] = None"
| "first_status e (a # as) =
     (case http_status (attr_of e a) of Some s \<Rightarrow> Some s | None \<Rightarrow> first_status e as)"

definition sdk_status_of :: "sdk_exn \<Rightarrow> int option" where
  "sdk_status_of e =
     (case first_status e [''status_code'', ''status'', ''code''] of
        Some s \<Rightarrow> Some s
      | None \<Rightarrow> (case se_response e of None \<Rightarrow> None | Some r \<Rightarrow> http_status (rs_status r)))"

fun status_of :: "exn \<Rightarrow> int option" where
  "status_of (ProviderError e) = sdk_status_of e"
| "status_of _ = None"

text \<open>
  \<open>_retry_after_of\<close>: an explicit attribute, else the \<open>retry-after-ms\<close> header, else
  \<open>retry-after\<close> in seconds or as a date. Python's \<open>bool\<close> is an \<open>int\<close>, so \<open>True\<close> reads as 1.
\<close>

definition explicit_retry_after :: "pyval \<Rightarrow> real option" where
  "explicit_retry_after v =
     (case v of
        PInt n \<Rightarrow> if 0 \<le> n then Some (of_int n) else None
      | PFloat x \<Rightarrow> if 0 \<le> x then Some x else None
      | PBool b \<Rightarrow> Some (if b then 1 else 0)
      | _ \<Rightarrow> None)"

definition header_retry_after :: "time \<Rightarrow> (string, header_value) odict \<Rightarrow> real option" where
  "header_retry_after now hs =
     (case map_of hs ''retry-after-ms'' of
        Some (HFloat ms) \<Rightarrow> Some (max 0 (ms / 1000))
      | Some _ \<Rightarrow> None
      | None \<Rightarrow>
          (case map_of hs ''retry-after'' of
             None \<Rightarrow> None
           | Some (HFloat s) \<Rightarrow> Some (max 0 s)
           | Some (HDate t) \<Rightarrow> Some (max 0 (t - now))
           | Some HBad \<Rightarrow> None))"

definition sdk_retry_after_of :: "time \<Rightarrow> sdk_exn \<Rightarrow> real option" where
  "sdk_retry_after_of now e =
     (case explicit_retry_after (attr_of e ''retry_after'') of
        Some s \<Rightarrow> Some s
      | None \<Rightarrow>
          (case se_response e of
             None \<Rightarrow> None
           | Some r \<Rightarrow> (case rs_headers r of None \<Rightarrow> None | Some hs \<Rightarrow> header_retry_after now hs)))"

section \<open>Classification\<close>

definition QUOTA_HINTS :: "string list" where
  "QUOTA_HINTS =
     [''insufficient_quota'', ''exceeded your current quota'', ''billing'', ''credit balance'']"

text \<open>\<open>any(h in message for h in hints)\<close>.\<close>

definition any_in :: "string list \<Rightarrow> string \<Rightarrow> bool" where
  "any_in hints message \<longleftrightarrow> list_ex (\<lambda>h. str_in h message) hints"

definition quota_hinted :: "string \<Rightarrow> bool" where
  "quota_hinted message \<longleftrightarrow> any_in QUOTA_HINTS message"

text \<open>Whether a 429 or 402 is about money rather than rate.\<close>

definition is_quota :: "sdk_exn \<Rightarrow> int \<Rightarrow> string \<Rightarrow> bool" where
  "is_quota e s message \<longleftrightarrow>
     s = 402 \<or> quota_hinted message \<or> attr_of e ''code'' = PStr ''insufficient_quota''"

definition kind_of_status :: "sdk_exn \<Rightarrow> int \<Rightarrow> string \<Rightarrow> error_kind" where
  "kind_of_status e s message =
     (if s = 429 \<or> s = 402 then (if is_quota e s message then QUOTA else RATE_LIMIT)
      else if s \<in> {503, 529} then OVERLOADED
      else if s = 408 then TIMEOUT
      else if s \<ge> 500 then SERVER_ERROR
      else if s \<in> {401, 403} then AUTH
      else if 400 \<le> s \<and> s < 500 then BAD_REQUEST
      else UNKNOWN)"

definition name_has :: "sdk_exn \<Rightarrow> string \<Rightarrow> bool" where
  "name_has e n \<longleftrightarrow> (\<exists>c \<in> set (se_mro e). str_in n (str_lower c))"

definition classify_sdk :: "time \<Rightarrow> sdk_exn \<Rightarrow> error_info" where
  "classify_sdk now e =
     (let retry = sdk_retry_after_of now e; message = str_lower (se_message e) in
      case sdk_status_of e of
        Some s \<Rightarrow>
          \<lparr>ei_kind = kind_of_status e s message, ei_status = Some s, ei_retry_after = retry\<rparr>
      | None \<Rightarrow>
          (if se_is_timeout e \<or> name_has e ''timeout'' then
             \<lparr>ei_kind = TIMEOUT, ei_status = None, ei_retry_after = retry\<rparr>
           else if se_is_connection e \<or> name_has e ''connect'' then
             \<lparr>ei_kind = CONNECTION, ei_status = None, ei_retry_after = retry\<rparr>
           else if str_in ''overloaded'' message then
             \<lparr>ei_kind = OVERLOADED, ei_status = None, ei_retry_after = retry\<rparr>
           else if quota_hinted message then
             \<lparr>ei_kind = QUOTA, ei_status = None, ei_retry_after = None\<rparr>
           else if any_in [''rate limit'', ''429'', ''too many requests''] message then
             \<lparr>ei_kind = RATE_LIMIT, ei_status = None, ei_retry_after = retry\<rparr>
           else if any_in [''timeout'', ''timed out''] message then
             \<lparr>ei_kind = TIMEOUT, ei_status = None, ei_retry_after = retry\<rparr>
           else if str_in ''connection'' message then
             \<lparr>ei_kind = CONNECTION, ei_status = None, ei_retry_after = retry\<rparr>
           else \<lparr>ei_kind = UNKNOWN, ei_status = None, ei_retry_after = retry\<rparr>))"

text \<open>
  \<open>ProviderTimeout\<close> is a subclass of \<open>TimeoutError\<close> with neither a status nor a
  \<open>retry_after\<close> attribute, so it takes the type branch.
\<close>

fun classify :: "time \<Rightarrow> exn \<Rightarrow> error_info" where
  "classify now DeadlineExceeded =
     \<lparr>ei_kind = DEADLINE, ei_status = None, ei_retry_after = None\<rparr>"
| "classify now (CircuitOpenError p ra) =
     \<lparr>ei_kind = CIRCUIT_OPEN, ei_status = None, ei_retry_after = ra\<rparr>"
| "classify now (RateLimited p ra) =
     \<lparr>ei_kind = RATE_LIMIT, ei_status = None, ei_retry_after = ra\<rparr>"
| "classify now (ProviderTimeout p s) =
     \<lparr>ei_kind = TIMEOUT, ei_status = None, ei_retry_after = None\<rparr>"
| "classify now (ProviderError e) = classify_sdk now e"

section \<open>What the classifier guarantees\<close>

lemma decision_chain:
  "(retryable i \<longrightarrow> counts_against_breaker i) \<and> (counts_against_breaker i \<longrightarrow> failover i)"
  by (auto simp: decision_defs)

lemma kind_of_status_retryable:
  assumes "100 \<le> s" "s \<le> 599"
  shows "kind_of_status e s m \<in> RETRYABLE \<longleftrightarrow>
    s = 408 \<or> 500 \<le> s \<or> (s = 429 \<and> \<not> is_quota e s m)"
  using assms by (auto simp: kind_of_status_def RETRYABLE_def is_quota_def)

lemma kind_of_status_failover:
  assumes "100 \<le> s" "s \<le> 599"
  shows "kind_of_status e s m \<in> FAILOVER \<longleftrightarrow> s \<in> {401, 402, 403, 408, 429} \<or> 500 \<le> s"
  using assms by (auto simp: kind_of_status_def FAILOVER_def RETRYABLE_def is_quota_def)

lemma http_status_range: "http_status v = Some s \<Longrightarrow> 100 \<le> s \<and> s \<le> 599"
  by (auto simp: http_status_def split: pyval.splits if_splits)

lemma first_status_range: "first_status e as = Some s \<Longrightarrow> 100 \<le> s \<and> s \<le> 599"
  by (induction as) (auto split: option.splits dest: http_status_range)

lemma sdk_status_range: "sdk_status_of e = Some s \<Longrightarrow> 100 \<le> s \<and> s \<le> 599"
  by (auto simp: sdk_status_of_def split: option.splits
      dest: first_status_range http_status_range)

lemma explicit_retry_after_nonneg: "explicit_retry_after v = Some r \<Longrightarrow> 0 \<le> r"
  by (auto simp: explicit_retry_after_def split: pyval.splits if_splits)

lemma header_retry_after_nonneg: "header_retry_after now hs = Some r \<Longrightarrow> 0 \<le> r"
  by (auto simp: header_retry_after_def split: option.splits header_value.splits)

lemma sdk_retry_after_nonneg: "sdk_retry_after_of now e = Some r \<Longrightarrow> 0 \<le> r"
  by (auto simp: sdk_retry_after_of_def split: option.splits
      dest: explicit_retry_after_nonneg header_retry_after_nonneg)

lemma classify_sdk_retry_after:
  "ei_retry_after (classify_sdk now e) = Some r \<Longrightarrow> 0 \<le> r"
  by (auto simp: classify_sdk_def Let_def split: option.splits if_splits
      dest: sdk_retry_after_nonneg)

lemma classify_sdk_status: "ei_status (classify_sdk now e) = sdk_status_of e"
  by (auto simp: classify_sdk_def Let_def split: option.splits)

lemma classify_sdk_kind_no_internal:
  "ei_kind (classify_sdk now e) \<notin> {DEADLINE, CIRCUIT_OPEN}"
  by (auto simp: classify_sdk_def kind_of_status_def Let_def split: option.splits)

lemma classify_retry_after_nonneg:
  assumes "ei_retry_after (classify now x) = Some r" and "retryable (classify now x)"
    and "\<And>p q. x = RateLimited p (Some q) \<Longrightarrow> 0 \<le> q"
  shows "0 \<le> r"
  using assms by (cases x) (auto simp: decision_defs dest: classify_sdk_retry_after)

lemma classify_status: "ei_status (classify now x) = status_of x"
  by (cases x) (auto simp: classify_sdk_status)

text \<open>An example exception: an Anthropic-style 529 with a \<open>retry-after\<close> header.\<close>

definition overloaded_529 :: sdk_exn where
  "overloaded_529 =
     \<lparr>se_mro = [''InternalServerError'', ''APIStatusError'', ''Exception''],
      se_is_timeout = False, se_is_connection = False,
      se_attrs = [(''status_code'', PInt 529)],
      se_response = Some \<lparr>rs_status = PInt 529, rs_headers = Some [(''retry-after'', HFloat 2)]\<rparr>,
      se_message = ''Overloaded''\<rparr>"

lemma overloaded_529_facts [simp]:
  "sdk_status_of overloaded_529 = Some 529"
  "sdk_retry_after_of now overloaded_529 = Some 2"
  by (simp_all add: overloaded_529_def sdk_status_of_def attr_of_def http_status_def
      sdk_retry_after_of_def explicit_retry_after_def header_retry_after_def)

section \<open>Properties\<close>

text \<open>
  An exception that carries an HTTP status is retried exactly for 408, for a 429 that is
  not about quota, and for every 5xx, and it moves a request to another provider exactly for
  401, 402, 403, 408, 429 and every 5xx: a bad request (400, 404, 413, 422) is neither
  retried nor failed over.
\<close>

theorem classify_by_status:
  assumes "sdk_status_of e = Some s"
  shows "(retryable (classify now (ProviderError e)) \<longleftrightarrow>
            s = 408 \<or> 500 \<le> s \<or> (s = 429 \<and> \<not> is_quota e s (str_lower (se_message e))))
       \<and> (failover (classify now (ProviderError e)) \<longleftrightarrow>
            s \<in> {401, 402, 403, 408, 429} \<or> 500 \<le> s)"
  using assms sdk_status_range [OF assms]
    kind_of_status_retryable [of s e] kind_of_status_failover [of s e]
  by (simp add: classify_sdk_def Let_def retryable_def failover_def)

theorem classify_by_status_witness:
  "retryable (classify 0 (ProviderError overloaded_529)) \<and>
   failover (classify 0 (ProviderError overloaded_529))"
  using classify_by_status [of overloaded_529 529 0] by simp

end
