(* ===== verification/Circuit_Breaker.thy ===== *)
theory Circuit_Breaker
  imports Prelude
begin

text \<open>
  \<open>src/coreai/circuit_breaker.py\<close>: the per-provider circuit breaker. Every synchronous method
  reads the injected clock at one instant, the \<open>now\<close> argument. Calls of the \<open>on_change\<close>
  callback are recorded in \<open>cb_changes\<close>, oldest first; a callback that raises is swallowed by
  the code, so it has no other effect.
\<close>

section \<open>State\<close>

datatype circuit_state = CLOSED | OPEN | HALF_OPEN

record breaker =
  cb_name :: string
  cb_threshold :: int
  cb_reset_timeout :: real
  cb_half_open_max :: int
  cb_has_on_change :: bool
  cb_state :: circuit_state
  cb_failures :: int
  cb_opened_at :: time
  cb_probes :: int
  cb_total_opened :: int
  cb_changes :: "(string \<times> string) list"

text \<open>The constructor; \<open>Inl\<close> is the \<open>ValueError\<close>.\<close>

definition breaker_new :: "string \<Rightarrow> int \<Rightarrow> real \<Rightarrow> int \<Rightarrow> bool \<Rightarrow> string + breaker" where
  "breaker_new name threshold reset half_open has_cb =
     (if threshold < 1 then Inl ''failure_threshold must be at least 1''
      else Inr \<lparr>cb_name = name, cb_threshold = threshold, cb_reset_timeout = reset,
                cb_half_open_max = half_open, cb_has_on_change = has_cb, cb_state = CLOSED,
                cb_failures = 0, cb_opened_at = 0, cb_probes = 0, cb_total_opened = 0,
                cb_changes = []\<rparr>)"

section \<open>Operations\<close>

text \<open>
  The \<open>state\<close> property. Reading it moves an open breaker whose timeout has passed to
  half-open, so a read is a state change.
\<close>

definition refresh :: "time \<Rightarrow> breaker \<Rightarrow> breaker" where
  "refresh now b =
     (if cb_state b = OPEN \<and> now - cb_opened_at b \<ge> cb_reset_timeout b
      then b\<lparr>cb_state := HALF_OPEN, cb_probes := 0\<rparr> else b)"

definition would_allow :: "time \<Rightarrow> breaker \<Rightarrow> bool \<times> breaker" where
  "would_allow now b =
     (let b = refresh now b in
      case cb_state b of
        CLOSED \<Rightarrow> (True, b)
      | HALF_OPEN \<Rightarrow> (cb_probes b < cb_half_open_max b, b)
      | OPEN \<Rightarrow> (False, b))"

definition allow :: "time \<Rightarrow> breaker \<Rightarrow> bool \<times> breaker" where
  "allow now b =
     (let b = refresh now b in
      case cb_state b of
        CLOSED \<Rightarrow> (True, b)
      | HALF_OPEN \<Rightarrow>
          (if cb_probes b < cb_half_open_max b then (True, b\<lparr>cb_probes := cb_probes b + 1\<rparr>)
           else (False, b))
      | OPEN \<Rightarrow> (False, b))"

definition changed :: "string \<Rightarrow> breaker \<Rightarrow> breaker" where
  "changed new b =
     (if cb_has_on_change b then b\<lparr>cb_changes := cb_changes b @ [(cb_name b, new)]\<rparr> else b)"

definition open_circuit :: "time \<Rightarrow> breaker \<Rightarrow> breaker" where
  "open_circuit now b =
     changed ''open''
       (b\<lparr>cb_state := OPEN, cb_opened_at := now, cb_probes := 0,
          cb_total_opened := cb_total_opened b + 1\<rparr>)"

definition record_success :: "time \<Rightarrow> breaker \<Rightarrow> breaker" where
  "record_success now b =
     (let b = refresh now b; st = cb_state b in
      if st = OPEN then b
      else
        let b = (if st = HALF_OPEN then b\<lparr>cb_probes := max 0 (cb_probes b - 1)\<rparr> else b);
            b = b\<lparr>cb_state := CLOSED, cb_failures := 0\<rparr>
        in if st = HALF_OPEN then changed ''closed'' b else b)"

definition record_failure :: "time \<Rightarrow> breaker \<Rightarrow> breaker" where
  "record_failure now b =
     (let b = refresh now b; st = cb_state b in
      if st = OPEN then b
      else if st = HALF_OPEN then open_circuit now (b\<lparr>cb_probes := max 0 (cb_probes b - 1)\<rparr>)
      else
        let b = b\<lparr>cb_failures := cb_failures b + 1\<rparr>
        in if cb_failures b \<ge> cb_threshold b then open_circuit now b else b)"

text \<open>\<open>release\<close> reads the stored state, not the refreshed one, and so does \<open>retry_after\<close>.\<close>

definition release :: "breaker \<Rightarrow> breaker" where
  "release b =
     (if cb_state b = HALF_OPEN then b\<lparr>cb_probes := max 0 (cb_probes b - 1)\<rparr> else b)"

definition retry_after :: "time \<Rightarrow> breaker \<Rightarrow> real option" where
  "retry_after now b =
     (if cb_state b \<noteq> OPEN then None
      else Some (max 0 (cb_reset_timeout b - (now - cb_opened_at b))))"

record breaker_snapshot =
  sn_state :: circuit_state
  sn_consecutive_failures :: int
  sn_times_opened :: int
  sn_retry_after :: "real option"

definition snapshot :: "time \<Rightarrow> breaker \<Rightarrow> breaker_snapshot \<times> breaker" where
  "snapshot now b =
     (let b = refresh now b in
      (\<lparr>sn_state = cb_state b, sn_consecutive_failures = cb_failures b,
        sn_times_opened = cb_total_opened b, sn_retry_after = retry_after now b\<rparr>, b))"

lemmas breaker_defs = refresh_def would_allow_def allow_def changed_def open_circuit_def
  record_success_def record_failure_def release_def snapshot_def Let_def

section \<open>Runs and the invariant\<close>

datatype breaker_op =
    BrPeek time | BrAllow time | BrSuccess time | BrFailure time | BrRelease | BrSnapshot time

fun breaker_step :: "breaker_op \<Rightarrow> breaker \<Rightarrow> breaker" where
  "breaker_step (BrPeek t) b = snd (would_allow t b)"
| "breaker_step (BrAllow t) b = snd (allow t b)"
| "breaker_step (BrSuccess t) b = record_success t b"
| "breaker_step (BrFailure t) b = record_failure t b"
| "breaker_step BrRelease b = release b"
| "breaker_step (BrSnapshot t) b = snd (snapshot t b)"

text \<open>
  What the code keeps true: probes never exceed the half-open limit, a closed breaker is
  below its threshold, and any other breaker holds exactly the threshold and has been opened.
\<close>

definition breaker_inv :: "breaker \<Rightarrow> bool" where
  "breaker_inv b \<longleftrightarrow>
     1 \<le> cb_threshold b \<and> 0 \<le> cb_half_open_max b
   \<and> 0 \<le> cb_probes b \<and> cb_probes b \<le> cb_half_open_max b
   \<and> (cb_state b = CLOSED \<longrightarrow> 0 \<le> cb_failures b \<and> cb_failures b < cb_threshold b)
   \<and> (cb_state b \<noteq> CLOSED \<longrightarrow> cb_failures b = cb_threshold b \<and> 1 \<le> cb_total_opened b)
   \<and> 0 \<le> cb_total_opened b"

lemma breaker_inv_new:
  "breaker_new n k r h c = Inr b \<Longrightarrow> 0 \<le> h \<Longrightarrow> breaker_inv b"
  by (auto simp: breaker_new_def breaker_inv_def split: if_splits)

lemma breaker_inv_refresh [simp, intro]: "breaker_inv b \<Longrightarrow> breaker_inv (refresh now b)"
  by (auto simp: breaker_inv_def refresh_def)

lemma breaker_inv_step: "breaker_inv b \<Longrightarrow> breaker_inv (breaker_step op b)"
  by (cases op; cases "cb_state b")
     (auto simp: breaker_inv_def breaker_defs split: circuit_state.splits if_splits)

interpretation breaker_runs: monotone_op_system breaker_step "\<lambda>_. True" breaker_inv cb_total_opened
proof unfold_locales
  fix op b
  assume "breaker_inv b"
  then show "breaker_inv (breaker_step op b)" by (rule breaker_inv_step)
  show "cb_total_opened b \<le> cb_total_opened (breaker_step op b)"
    by (cases op; cases "cb_state b") (auto simp: breaker_defs split: circuit_state.splits)
qed

section \<open>The abstract breaker\<close>

text \<open>
  The contract of the module docstring as a three-mode machine: closed with a count of
  consecutive failures, open since an instant, or half-open with probes in flight. Its
  configuration is a triple (threshold, reset timeout, probe limit), and it counts how often
  it opened. A success closes it from half-open only when a probe is in flight, as the comment
  in \<open>record_success\<close> asks; one failure reopens it.
\<close>

datatype mode = MClosed int | MOpen time | MHalf int

record spec_breaker =
  sb_config :: "int \<times> real \<times> int"
  sb_mode :: mode
  sb_opened :: int

definition spec_tick :: "time \<Rightarrow> spec_breaker \<Rightarrow> spec_breaker" where
  "spec_tick t s =
     (case (sb_config s, sb_mode s) of
        ((k, r, h), MOpen t0) \<Rightarrow> if r \<le> t - t0 then s\<lparr>sb_mode := MHalf 0\<rparr> else s
      | _ \<Rightarrow> s)"

definition spec_admits :: "spec_breaker \<Rightarrow> bool" where
  "spec_admits s =
     (case (sb_config s, sb_mode s) of
        (_, MClosed n) \<Rightarrow> True
      | (_, MOpen t0) \<Rightarrow> False
      | ((k, r, h), MHalf p) \<Rightarrow> p < h)"

definition spec_admit :: "spec_breaker \<Rightarrow> spec_breaker" where
  "spec_admit s =
     (case sb_mode s of MHalf p \<Rightarrow> if spec_admits s then s\<lparr>sb_mode := MHalf (p + 1)\<rparr> else s | _ \<Rightarrow> s)"

definition spec_success :: "spec_breaker \<Rightarrow> spec_breaker" where
  "spec_success s =
     (case sb_mode s of
        MClosed n \<Rightarrow> s\<lparr>sb_mode := MClosed 0\<rparr>
      | MOpen t0 \<Rightarrow> s
      | MHalf p \<Rightarrow> if 0 < p then s\<lparr>sb_mode := MClosed 0\<rparr> else s)"

definition spec_failure :: "time \<Rightarrow> spec_breaker \<Rightarrow> spec_breaker" where
  "spec_failure t s =
     (let opened = s\<lparr>sb_mode := MOpen t, sb_opened := sb_opened s + 1\<rparr>
      in case (sb_config s, sb_mode s) of
           ((k, r, h), MClosed n) \<Rightarrow> if k \<le> n + 1 then opened else s\<lparr>sb_mode := MClosed (n + 1)\<rparr>
         | (_, MOpen t0) \<Rightarrow> s
         | (_, MHalf p) \<Rightarrow> opened)"

definition spec_release :: "spec_breaker \<Rightarrow> spec_breaker" where
  "spec_release s = (case sb_mode s of MHalf p \<Rightarrow> s\<lparr>sb_mode := MHalf (max 0 (p - 1))\<rparr> | _ \<Rightarrow> s)"

fun spec_step :: "breaker_op \<Rightarrow> spec_breaker \<Rightarrow> spec_breaker" where
  "spec_step (BrPeek t) s = spec_tick t s"
| "spec_step (BrAllow t) s = spec_admit (spec_tick t s)"
| "spec_step (BrSuccess t) s = spec_success (spec_tick t s)"
| "spec_step (BrFailure t) s = spec_failure t (spec_tick t s)"
| "spec_step BrRelease s = spec_release s"
| "spec_step (BrSnapshot t) s = spec_tick t s"

text \<open>What a caller is told: nothing, whether the call is admitted, or a snapshot.\<close>

datatype breaker_answer = Silent | Admits bool | Shows breaker_snapshot

fun breaker_reply :: "breaker_op \<Rightarrow> breaker \<Rightarrow> breaker_answer" where
  "breaker_reply (BrPeek t) b = Admits (fst (would_allow t b))"
| "breaker_reply (BrAllow t) b = Admits (fst (allow t b))"
| "breaker_reply (BrSnapshot t) b = Shows (fst (snapshot t b))"
| "breaker_reply _ b = Silent"

definition spec_shows :: "time \<Rightarrow> spec_breaker \<Rightarrow> breaker_snapshot" where
  "spec_shows t s =
     (case (sb_config s, sb_mode s) of
        (_, MClosed n) \<Rightarrow> \<lparr>sn_state = CLOSED, sn_consecutive_failures = n, sn_times_opened = sb_opened s, sn_retry_after = None\<rparr>
      | ((k, r, h), MOpen t0) \<Rightarrow>
          \<lparr>sn_state = OPEN, sn_consecutive_failures = k, sn_times_opened = sb_opened s, sn_retry_after = Some (t0 + r - t)\<rparr>
      | ((k, r, h), MHalf p) \<Rightarrow>
          \<lparr>sn_state = HALF_OPEN, sn_consecutive_failures = k, sn_times_opened = sb_opened s, sn_retry_after = None\<rparr>)"

fun spec_answer :: "breaker_op \<Rightarrow> spec_breaker \<Rightarrow> breaker_answer" where
  "spec_answer (BrPeek t) s = Admits (spec_admits (spec_tick t s))"
| "spec_answer (BrAllow t) s = Admits (spec_admits (spec_tick t s))"
| "spec_answer (BrSnapshot t) s = Shows (spec_shows t (spec_tick t s))"
| "spec_answer _ s = Silent"

text \<open>A success without a probe: an answer of a call from before the circuit opened, reported after the reset timeout.\<close>

fun stale_success :: "breaker_op \<Rightarrow> spec_breaker \<Rightarrow> bool" where
  "stale_success (BrSuccess t) s = (case sb_mode (spec_tick t s) of MHalf p \<Rightarrow> p \<le> 0 | _ \<Rightarrow> False)"
| "stale_success _ s = False"

definition breaker_abs :: "breaker \<Rightarrow> spec_breaker" where
  "breaker_abs b =
     \<lparr>sb_config = (cb_threshold b, cb_reset_timeout b, cb_half_open_max b),
      sb_mode = (case cb_state b of
        CLOSED \<Rightarrow> MClosed (cb_failures b)
      | OPEN \<Rightarrow> MOpen (cb_opened_at b)
      | HALF_OPEN \<Rightarrow> MHalf (cb_probes b)),
      sb_opened = cb_total_opened b\<rparr>"

lemmas spec_breaker_defs = spec_tick_def spec_admits_def spec_admit_def spec_success_def spec_failure_def
  spec_release_def spec_shows_def

lemma breaker_abs_step:
  "breaker_inv b \<Longrightarrow>
   (breaker_abs (breaker_step op b) = spec_step op (breaker_abs b)) = (\<not> stale_success op (breaker_abs b))"
  by (cases op; cases "cb_state b")
     (auto simp: breaker_abs_def breaker_inv_def breaker_defs spec_breaker_defs split: if_splits)

lemma breaker_abs_answer:
  "breaker_inv b \<Longrightarrow> breaker_reply op b = spec_answer op (breaker_abs b)"
  by (cases op; cases "cb_state b")
     (auto simp: breaker_abs_def breaker_inv_def breaker_defs spec_breaker_defs retry_after_def)

interpretation breaker_refines:
  answering_refinement breaker_step "\<lambda>_. True" breaker_inv spec_step breaker_abs
    "\<lambda>op s. \<not> stale_success op s" breaker_reply spec_answer
  by unfold_locales (simp_all add: breaker_abs_step breaker_abs_answer)

section \<open>The gate interface the router relies on\<close>

text \<open>
  A call is admitted by \<open>admit\<close> and ends with one of three settlements; \<open>slots\<close> counts what is
  held. A settled admission leaves no slot behind, whichever settlement ends it.
\<close>

locale gate =
  fixes admit :: "time \<Rightarrow> 'g \<Rightarrow> bool \<times> 'g"
    and good :: "time \<Rightarrow> 'g \<Rightarrow> 'g"
    and bad :: "time \<Rightarrow> 'g \<Rightarrow> 'g"
    and handback :: "'g \<Rightarrow> 'g"
    and slots :: "'g \<Rightarrow> int"
    and gate_inv :: "'g \<Rightarrow> bool"
  assumes slots_nonneg: "gate_inv g \<Longrightarrow> 0 \<le> slots g"
    and admit_inv: "gate_inv g \<Longrightarrow> gate_inv (snd (admit t g))"
    and good_inv: "gate_inv g \<Longrightarrow> gate_inv (good t g)"
    and bad_inv: "gate_inv g \<Longrightarrow> gate_inv (bad t g)"
    and handback_inv: "gate_inv g \<Longrightarrow> gate_inv (handback g)"
    and admit_slots: "gate_inv g \<Longrightarrow> slots (snd (admit t g)) \<le> slots g + 1"
    and refuse_slots: "gate_inv g \<Longrightarrow> \<not> fst (admit t g) \<Longrightarrow> slots (snd (admit t g)) \<le> slots g"
    and good_slots: "gate_inv g \<Longrightarrow> slots (good t g) \<le> max 0 (slots g - 1)"
    and bad_slots: "gate_inv g \<Longrightarrow> slots (bad t g) \<le> max 0 (slots g - 1)"
    and handback_slots: "gate_inv g \<Longrightarrow> slots (handback g) \<le> max 0 (slots g - 1)"
begin

lemma admit_settle_slots:
  assumes "gate_inv g" and "g' = good t' (snd (admit t g)) \<or> g' = bad t' (snd (admit t g))
    \<or> g' = handback (snd (admit t g))"
  shows "slots g' \<le> slots g"
proof -
  have h: "gate_inv (snd (admit t g))" "slots (snd (admit t g)) \<le> slots g + 1"
    using assms(1) by (auto intro: admit_inv admit_slots)
  from assms(2) have "slots g' \<le> max 0 (slots (snd (admit t g)) - 1)"
    using good_slots [OF h(1), of t'] bad_slots [OF h(1), of t'] handback_slots [OF h(1)] by auto
  also have "\<dots> \<le> slots g" using h(2) slots_nonneg [OF assms(1)] by auto
  finally show ?thesis .
qed

end

definition held_probes :: "breaker \<Rightarrow> int" where
  "held_probes b = (if cb_state b = HALF_OPEN then cb_probes b else 0)"

interpretation breaker_gate:
  gate allow record_success record_failure release held_probes breaker_inv
proof unfold_locales
  fix b t
  assume inv: "breaker_inv b"
  show "breaker_inv (snd (allow t b))" using breaker_inv_step [OF inv, of "BrAllow t"] by simp
  show "breaker_inv (record_success t b)" using breaker_inv_step [OF inv, of "BrSuccess t"] by simp
  show "breaker_inv (record_failure t b)" using breaker_inv_step [OF inv, of "BrFailure t"] by simp
  show "breaker_inv (release b)" using breaker_inv_step [OF inv, of BrRelease] by simp
qed (auto simp: held_probes_def breaker_inv_def breaker_defs split: circuit_state.splits if_splits)

section \<open>The open window and recovery\<close>

fun op_time :: "breaker_op \<Rightarrow> time option" where
  "op_time (BrPeek t) = Some t"
| "op_time (BrAllow t) = Some t"
| "op_time (BrSuccess t) = Some t"
| "op_time (BrFailure t) = Some t"
| "op_time BrRelease = None"
| "op_time (BrSnapshot t) = Some t"

definition before :: "time \<Rightarrow> breaker_op \<Rightarrow> bool" where
  "before t op = (case op_time op of None \<Rightarrow> True | Some t' \<Rightarrow> t' < t)"

text \<open>While its window runs an open breaker is frozen: no operation changes it.\<close>

lemma open_window_step:
  "before (cb_opened_at b + cb_reset_timeout b) op \<Longrightarrow> cb_state b = OPEN \<Longrightarrow> breaker_step op b = b"
  by (cases op) (auto simp: before_def breaker_defs)

interpretation open_window: op_system breaker_step
  "before (cb_opened_at b0 + cb_reset_timeout b0)" "\<lambda>b. b = b0 \<and> cb_state b0 = OPEN"
  for b0 :: breaker
  by unfold_locales (auto simp: open_window_step)

lemma fold_failures_closed:
  "cb_state b = CLOSED \<Longrightarrow> cb_failures b + int (length ts) < cb_threshold b \<Longrightarrow>
   fold record_failure ts b = b\<lparr>cb_failures := cb_failures b + int (length ts)\<rparr>"
proof (induction ts arbitrary: b)
  case Nil
  then show ?case by simp
next
  case (Cons t ts)
  have step: "record_failure t b = b\<lparr>cb_failures := cb_failures b + 1\<rparr>"
    using Cons.prems by (simp add: breaker_defs)
  have "fold record_failure ts (b\<lparr>cb_failures := cb_failures b + 1\<rparr>) =
     (b\<lparr>cb_failures := cb_failures b + 1\<rparr>)\<lparr>cb_failures :=
        cb_failures (b\<lparr>cb_failures := cb_failures b + 1\<rparr>) + int (length ts)\<rparr>"
    using Cons.prems by (intro Cons.IH) simp_all
  with step show ?case by (simp add: add.assoc)
qed

lemma fold_failures_open:
  "cb_state b = OPEN \<Longrightarrow> \<forall>t \<in> set ts. t < cb_opened_at b + cb_reset_timeout b \<Longrightarrow>
   fold record_failure ts b = b"
  by (induction ts) (auto simp: breaker_defs)

text \<open>
  A run of consecutive failures opens the breaker at exactly the threshold-th of them, and
  the later ones do not extend the window.
\<close>

lemma failures_open_at_threshold:
  assumes "cb_state b = CLOSED" "cb_failures b = 0"
    and "int (length early) + 1 = cb_threshold b"
    and "\<forall>t' \<in> set late. t' < t + cb_reset_timeout b"
  shows "cb_state (fold record_failure (early @ t # late) b) = OPEN
       \<and> cb_opened_at (fold record_failure (early @ t # late) b) = t"
proof -
  let ?b1 = "fold record_failure early b"
  have b1: "?b1 = b\<lparr>cb_failures := int (length early)\<rparr>"
    using fold_failures_closed [of b early] assms by simp
  let ?b2 = "record_failure t ?b1"
  have b2: "cb_state ?b2 = OPEN" "cb_opened_at ?b2 = t" "cb_reset_timeout ?b2 = cb_reset_timeout b"
    using assms b1 by (simp_all add: breaker_defs)
  have "fold record_failure late ?b2 = ?b2"
    using b2 assms(4) by (intro fold_failures_open) simp_all
  with b2 show ?thesis by simp
qed

section \<open>Properties\<close>

definition sample_breaker :: breaker where
  "sample_breaker =
     \<lparr>cb_name = ''openai'', cb_threshold = 2, cb_reset_timeout = 30, cb_half_open_max = 1,
      cb_has_on_change = True, cb_state = CLOSED, cb_failures = 0, cb_opened_at = 0,
      cb_probes = 0, cb_total_opened = 0, cb_changes = []\<rparr>"

lemma sample_breaker_inv [simp]: "breaker_inv sample_breaker"
  by (simp add: breaker_inv_def sample_breaker_def)

text \<open>
  In every run of operations from a well-formed breaker, the probes in flight stay
  between 0 and the half-open limit, a closed breaker is strictly below its failure
  threshold, and a breaker that is not closed holds exactly the threshold and has been
  opened before.
\<close>

theorem breaker_run_invariant:
  assumes "breaker_inv b"
  shows "breaker_inv (fold breaker_step ops b)"
  using assms by (rule breaker_runs.inv_run_all [OF TrueI])

theorem breaker_run_invariant_witness:
  "breaker_inv (fold breaker_step [BrFailure 1, BrFailure 2, BrAllow 40, BrSuccess 41] sample_breaker)"
  using breaker_run_invariant [OF sample_breaker_inv] .


text \<open>A circuit that opens, refuses a call, admits a probe at 40 and closes on its success.\<close>

definition recovery_ops :: "breaker_op list" where
  "recovery_ops = [BrFailure 1, BrFailure 2, BrAllow 10, BrAllow 40, BrAllow 41, BrSuccess 42, BrAllow 43]"


text \<open>
  C4. An open breaker admits no call before its reset timeout has passed, whatever
  operations (late successes, late failures, releases) happen in between; the first call
  after the timeout is admitted as a probe, its failure reopens the breaker for a fresh
  window and its success closes it with a zero failure count.
\<close>

theorem open_window_and_recovery:
  assumes "cb_state b = OPEN"
    and "list_all (before (cb_opened_at b + cb_reset_timeout b)) ops"
    and "now < cb_opened_at b + cb_reset_timeout b"
    and "cb_opened_at b + cb_reset_timeout b \<le> later"
    and "1 \<le> cb_half_open_max b"
  shows "\<not> fst (allow now (fold breaker_step ops b))
       \<and> fst (allow later (fold breaker_step ops b))
       \<and> cb_state (record_failure t (snd (allow later (fold breaker_step ops b)))) = OPEN
       \<and> cb_opened_at (record_failure t (snd (allow later (fold breaker_step ops b)))) = t
       \<and> cb_state (record_success t (snd (allow later (fold breaker_step ops b)))) = CLOSED
       \<and> cb_failures (record_success t (snd (allow later (fold breaker_step ops b)))) = 0"
proof -
  have "fold breaker_step ops b = b"
    using open_window.inv_run [of b ops b] assms(1,2) by simp
  with assms show ?thesis by (auto simp: breaker_defs)
qed

definition opened_breaker :: breaker where
  "opened_breaker = sample_breaker\<lparr>cb_state := OPEN, cb_failures := 2, cb_opened_at := 10,
     cb_total_opened := 1\<rparr>"

theorem open_window_and_recovery_witness:
  "\<not> fst (allow 39 (fold breaker_step [BrSuccess 12, BrFailure 20, BrRelease] opened_breaker))
   \<and> fst (allow 40 (fold breaker_step [BrSuccess 12, BrFailure 20, BrRelease] opened_breaker))"
  using open_window_and_recovery
    [of opened_breaker "[BrSuccess 12, BrFailure 20, BrRelease]" 39 40]
  by (simp add: opened_breaker_def sample_breaker_def before_def)

text \<open>
  Consecutive failures open a closed breaker at exactly the threshold-th failure: one
  fewer leaves it closed, and failures reported later within the window neither reopen it
  nor move the instant from which the window is counted.
\<close>

theorem breaker_opens_at_threshold:
  assumes "cb_state b = CLOSED" "cb_failures b = 0"
    and "int (length early) + 1 = cb_threshold b"
    and "\<forall>t' \<in> set late. t' < t + cb_reset_timeout b"
  shows "cb_state (fold record_failure early b) = CLOSED
       \<and> cb_state (fold record_failure (early @ t # late) b) = OPEN
       \<and> cb_opened_at (fold record_failure (early @ t # late) b) = t"
  using failures_open_at_threshold [OF assms] fold_failures_closed [of b early] assms by simp

theorem breaker_opens_at_threshold_witness:
  "cb_state (fold record_failure [1] sample_breaker) = CLOSED
   \<and> cb_state (fold record_failure ([1] @ 2 # [3, 31]) sample_breaker) = OPEN
   \<and> cb_opened_at (fold record_failure ([1] @ 2 # [3, 31]) sample_breaker) = 2"
  using breaker_opens_at_threshold [of sample_breaker "[1]" "[3, 31]" 2]
  by (simp add: sample_breaker_def)

text \<open>
  A success reported after the reset timeout closes the breaker although no probe was
  ever admitted: a late answer of a call that was admitted before the circuit opened is
  enough, contrary to the comment that only a half-open probe may close it.
\<close>

theorem stale_success_closes:
  assumes "cb_state b = OPEN" and "cb_opened_at b + cb_reset_timeout b \<le> now"
  shows "cb_probes (refresh now b) = 0 \<and> cb_state (record_success now b) = CLOSED"
  using assms by (auto simp: breaker_defs)

theorem stale_success_closes_witness:
  "cb_probes (refresh 40 opened_breaker) = 0
   \<and> cb_state (record_success 40 opened_breaker) = CLOSED"
  using stale_success_closes [of opened_breaker 40]
  by (simp add: opened_breaker_def sample_breaker_def)

end
