(* ===== verification/Async.thy ===== *)
theory Async
  imports Errors
begin

text \<open>
  How the development reads \<open>async\<close> code. Between two awaits a coroutine runs alone, so each
  stretch is a function on the state; what happens during an await (time passing, a provider
  answering, other requests running) is an environment function on a world of any type.
  An awaited call returns a value, raises an \<open>Exception\<close>, or is cancelled
  (\<open>asyncio.CancelledError\<close>, a \<open>BaseException\<close> that \<open>except Exception\<close> does not catch).
\<close>

section \<open>Outcomes and environments\<close>

datatype 'a outcome = Ret 'a | Exc exn | Cancel

fun is_ret :: "'a outcome \<Rightarrow> bool" where
  "is_ret (Ret x) = True"
| "is_ret _ = False"

text \<open>
  The monotonic clock, the wall clock (for HTTP dates), \<open>asyncio.sleep\<close> and \<open>random.random\<close>,
  all of them read from and acting on the world.
\<close>

record 'w env =
  clk :: "'w \<Rightarrow> time"
  wall :: "'w \<Rightarrow> time"
  slp :: "real \<Rightarrow> 'w \<Rightarrow> unit outcome \<times> 'w"
  rnd :: "'w \<Rightarrow> real \<times> 'w"

section \<open>A scripted world\<close>

text \<open>
  A concrete world on which runs are evaluated: a clock, the outcomes the next calls will
  have (each with the seconds it takes), the sleeps taken so far as pairs of start and
  length, and the number of calls made. Sleeping advances the clock by exactly the length;
  the random source always yields one half.
\<close>

record 'a sim =
  sim_now :: time
  sim_script :: "('a outcome \<times> real) list"
  sim_sleeps :: "(time \<times> real) list"
  sim_calls :: nat

definition sim_env :: "'a sim env" where
  "sim_env = \<lparr>clk = sim_now, wall = sim_now,
     slp = (\<lambda>d w. (Ret (), w\<lparr>sim_now := sim_now w + d,
                          sim_sleeps := sim_sleeps w @ [(sim_now w, d)]\<rparr>)),
     rnd = (\<lambda>w. (1 / 2, w))\<rparr>"

definition sim_call :: "'a sim \<Rightarrow> 'a outcome \<times> 'a sim" where
  "sim_call w =
     (case sim_script w of
        [] \<Rightarrow> (Cancel, w\<lparr>sim_calls := Suc (sim_calls w)\<rparr>)
      | (r, d) # rest \<Rightarrow>
          (r, w\<lparr>sim_now := sim_now w + d, sim_script := rest, sim_calls := Suc (sim_calls w)\<rparr>))"

lemma sim_env_simps [simp]:
  "clk sim_env = sim_now" "wall sim_env = sim_now"
  "slp sim_env d w = (Ret (), w\<lparr>sim_now := sim_now w + d,
     sim_sleeps := sim_sleeps w @ [(sim_now w, d)]\<rparr>)"
  "rnd sim_env w = (1 / 2, w)"
  by (simp_all add: sim_env_def)

end
