(* ===== verification/Deadlines.thy ===== *)
theory Deadlines
  imports Async
begin

text \<open>
  \<open>src/coreai/deadline.py\<close>: the request-wide time budget, shared by every retry and failover
  attempt of one request. A deadline is the instant at which it ends, or none.
\<close>

type_synonym deadline = "time option"

definition new_deadline :: "real option \<Rightarrow> time \<Rightarrow> deadline" where
  "new_deadline seconds now = (case seconds of None \<Rightarrow> None | Some s \<Rightarrow> Some (now + s))"

definition remaining :: "deadline \<Rightarrow> time \<Rightarrow> real option" where
  "remaining d now = (case d of None \<Rightarrow> None | Some e \<Rightarrow> Some (max 0 (e - now)))"

definition expired :: "deadline \<Rightarrow> time \<Rightarrow> bool" where
  "expired d now = (case d of None \<Rightarrow> False | Some e \<Rightarrow> now \<ge> e)"

text \<open>\<open>check\<close> raises \<open>DeadlineExceeded\<close>.\<close>

definition deadline_check :: "deadline \<Rightarrow> time \<Rightarrow> exn + unit" where
  "deadline_check d now = (if expired d now then Inl DeadlineExceeded else Inr ())"

text \<open>The smaller of a timeout and the time remaining; \<open>None\<close> is unlimited in both places.\<close>

definition clamp :: "deadline \<Rightarrow> time \<Rightarrow> real option \<Rightarrow> real option" where
  "clamp d now seconds =
     (case remaining d now of
        None \<Rightarrow> seconds
      | Some r \<Rightarrow> (case seconds of None \<Rightarrow> Some r | Some s \<Rightarrow> Some (min s r)))"

lemma remaining_nonneg: "remaining d now = Some r \<Longrightarrow> 0 \<le> r"
  by (auto simp: remaining_def split: option.splits)

lemma expired_iff: "expired d now \<longleftrightarrow> remaining d now = Some 0"
  by (auto simp: expired_def remaining_def max_def split: option.splits)

lemma clamp_le: "clamp d now (Some s) = Some c \<Longrightarrow> c \<le> s"
  by (auto simp: clamp_def split: option.splits)

lemma clamp_within:
  "d = Some e \<Longrightarrow> now \<le> e \<Longrightarrow> clamp d now s = Some c \<Longrightarrow> now + c \<le> e"
  by (auto simp: clamp_def remaining_def split: option.splits)

lemma clamp_zero: "0 < s \<Longrightarrow> clamp d now (Some s) = Some c \<Longrightarrow> (c \<le> 0 \<longleftrightarrow> expired d now)"
  by (auto simp: clamp_def remaining_def expired_def split: option.splits)

end
