(* ===== verification/Retry.thy ===== *)
theory Retry
  imports Deadlines
begin

text \<open>
  \<open>src/coreai/retry.py\<close>: retry with exponential backoff, jitter, Retry-After and a request
  deadline. The call being retried, the sleep and the random source are environment
  functions; the loop is a recursion on the attempt number that stops at \<open>max_attempts\<close>.
\<close>

section \<open>Predicates and the wait\<close>

definition should_retry :: "time \<Rightarrow> exn \<Rightarrow> bool" where
  "should_retry now e = retryable (classify now e)"

definition is_rate_limit_error :: "time \<Rightarrow> exn \<Rightarrow> bool" where
  "is_rate_limit_error now e \<longleftrightarrow> ei_kind (classify now e) \<in> {RATE_LIMIT, QUOTA}"

definition is_timeout_error :: "time \<Rightarrow> exn \<Rightarrow> bool" where
  "is_timeout_error now e \<longleftrightarrow> ei_kind (classify now e) \<in> {TIMEOUT, CONNECTION}"

text \<open>The keyword arguments of \<open>run_with_retry\<close> that are plain values.\<close>

record retry_params =
  rp_max_attempts :: int
  rp_base_wait :: real
  rp_max_wait :: real
  rp_exponential_base :: real
  rp_jitter :: bool

text \<open>
  Seconds to wait before retry number \<open>attempt\<close>, or \<open>None\<close> when the provider asks for more
  than \<open>max_wait\<close>. The random source is read only when there is jitter to add.
\<close>

definition compute_wait ::
  "'w env \<Rightarrow> retry_params \<Rightarrow> int \<Rightarrow> error_info \<Rightarrow> 'w \<Rightarrow> real option \<times> 'w" where
  "compute_wait E P attempt info w =
     (case ei_retry_after info of
        Some ra \<Rightarrow> (if ra \<le> rp_max_wait P then Some ra else None, w)
      | None \<Rightarrow>
          (let backoff = min (rp_base_wait P * rp_exponential_base P ^ nat (attempt - 1))
                             (rp_max_wait P)
           in if rp_jitter P
              then (let (u, w) = rnd E w in (Some (backoff / 2 + u * backoff / 2), w))
              else (Some backoff, w)))"

section \<open>The retry loop\<close>

type_synonym 'w on_retry = "int \<Rightarrow> exn \<Rightarrow> error_info \<Rightarrow> real \<Rightarrow> 'w \<Rightarrow> 'w"

definition deadline_blocks :: "deadline option \<Rightarrow> time \<Rightarrow> real \<Rightarrow> bool" where
  "deadline_blocks dl now wait =
     (case dl of
        None \<Rightarrow> False
      | Some d \<Rightarrow> (case remaining d now of None \<Rightarrow> False | Some r \<Rightarrow> wait \<ge> r))"

function retry_loop ::
  "'w env \<Rightarrow> retry_params \<Rightarrow> deadline option \<Rightarrow> 'w on_retry option \<Rightarrow>
   ('w \<Rightarrow> 'a outcome \<times> 'w) \<Rightarrow> int \<Rightarrow> 'w \<Rightarrow> 'a outcome \<times> 'w" where
  "retry_loop E P dl on_retry func attempt w =
     (case func w of
        (Ret x, w) \<Rightarrow> (Ret x, w)
      | (Cancel, w) \<Rightarrow> (Cancel, w)
      | (Exc e, w) \<Rightarrow>
          (let info = classify (wall E w) e in
           if \<not> retryable info \<or> attempt \<ge> rp_max_attempts P then (Exc e, w)
           else
             (case compute_wait E P attempt info w of
                (None, w) \<Rightarrow> (Exc e, w)
              | (Some wait, w) \<Rightarrow>
                  (if deadline_blocks dl (clk E w) wait then (Exc e, w)
                   else
                     let w = (case on_retry of None \<Rightarrow> w | Some f \<Rightarrow> f attempt e info wait w) in
                     case slp E wait w of
                       (Ret _, w) \<Rightarrow> retry_loop E P dl on_retry func (attempt + 1) w
                     | (Exc e', w) \<Rightarrow> (Exc e', w)
                     | (Cancel, w) \<Rightarrow> (Cancel, w)))))"
  by pat_completeness auto
termination
  by (relation "measure (\<lambda>(E, P, dl, on_retry, func, attempt, w). nat (rp_max_attempts P - attempt))")
     auto

declare retry_loop.simps [simp del]

definition run_with_retry ::
  "'w env \<Rightarrow> retry_params \<Rightarrow> deadline option \<Rightarrow> 'w on_retry option \<Rightarrow>
   ('w \<Rightarrow> 'a outcome \<times> 'w) \<Rightarrow> 'w \<Rightarrow> 'a outcome \<times> 'w" where
  "run_with_retry E P dl on_retry func w = retry_loop E P dl on_retry func 1 w"

definition retry_with_backoff ::
  "'w env \<Rightarrow> int \<Rightarrow> real \<Rightarrow> real \<Rightarrow> ('w \<Rightarrow> 'a outcome \<times> 'w) \<Rightarrow> 'w \<Rightarrow> 'a outcome \<times> 'w" where
  "retry_with_backoff E attempts base max_wait func w =
     run_with_retry E
       \<lparr>rp_max_attempts = attempts, rp_base_wait = base, rp_max_wait = max_wait,
        rp_exponential_base = 2, rp_jitter = True\<rparr> None None func w"

section \<open>The retry manager\<close>

record retry_config =
  rc_max_attempts :: int
  rc_initial_wait_seconds :: real
  rc_max_wait_seconds :: real
  rc_exponential_base :: real
  rc_jitter :: bool

record retry_manager =
  rm_config :: retry_config
  rm_total_retries :: int
  rm_total_failures :: int
  rm_retries_by_kind :: "(string, int) odict"
  rm_retries_by_status :: "(int, int) odict"

text \<open>\<open>counter[k] += 1\<close> on a \<open>collections.Counter\<close>.\<close>

definition bump :: "'k \<Rightarrow> ('k, int) odict \<Rightarrow> ('k, int) odict" where
  "bump k d = od_set k ((case od_get d k of None \<Rightarrow> 0 | Some n \<Rightarrow> n) + 1) d"

definition note_retry :: "exn \<Rightarrow> error_info \<Rightarrow> retry_manager \<Rightarrow> retry_manager" where
  "note_retry e info m =
     m\<lparr>rm_total_retries := rm_total_retries m + 1,
       rm_retries_by_kind := bump (kind_value (ei_kind info)) (rm_retries_by_kind m),
       rm_retries_by_status :=
         (case status_of e of None \<Rightarrow> rm_retries_by_status m
          | Some s \<Rightarrow> bump s (rm_retries_by_status m))\<rparr>"

text \<open>
  \<open>RetryManager.execute\<close>. The manager lives in the world; \<open>upd\<close> applies a function to it.
  \<open>max_attempts or config\<close> also replaces an explicit 0.
\<close>

definition retry_execute ::
  "'w env \<Rightarrow> ((retry_manager \<Rightarrow> retry_manager) \<Rightarrow> 'w \<Rightarrow> 'w) \<Rightarrow> retry_config \<Rightarrow> deadline option \<Rightarrow>
   int option \<Rightarrow> ('w \<Rightarrow> 'a outcome \<times> 'w) \<Rightarrow> 'w \<Rightarrow> 'a outcome \<times> 'w" where
  "retry_execute E upd cfg dl attempts func w =
     (let P = \<lparr>rp_max_attempts = (case attempts of
                   None \<Rightarrow> rc_max_attempts cfg
                 | Some n \<Rightarrow> if n = 0 then rc_max_attempts cfg else n),
               rp_base_wait = rc_initial_wait_seconds cfg, rp_max_wait = rc_max_wait_seconds cfg,
               rp_exponential_base = rc_exponential_base cfg, rp_jitter = rc_jitter cfg\<rparr> in
      case run_with_retry E P dl (Some (\<lambda>n e info wait. upd (note_retry e info))) func w of
        (Exc e, w) \<Rightarrow>
          (Exc e, upd (\<lambda>m. m\<lparr>rm_total_failures := rm_total_failures m + 1\<rparr>) w)
      | r \<Rightarrow> r)"

section \<open>Bounds on the wait\<close>

lemma compute_wait_le_max:
  assumes "compute_wait E P n info w = (Some d, w')"
    and "0 \<le> rp_base_wait P" "0 \<le> rp_exponential_base P" "0 \<le> rp_max_wait P"
    and "\<And>w. 0 \<le> fst (rnd E w) \<and> fst (rnd E w) \<le> 1"
    and "\<And>ra. ei_retry_after info = Some ra \<Longrightarrow> 0 \<le> ra"
  shows "0 \<le> d \<and> d \<le> rp_max_wait P"
proof (cases "ei_retry_after info")
  case (Some ra)
  with assms show ?thesis by (auto simp: compute_wait_def split: if_splits)
next
  case None
  define b where "b = min (rp_base_wait P * rp_exponential_base P ^ nat (n - 1)) (rp_max_wait P)"
  have b: "0 \<le> b" "b \<le> rp_max_wait P" using assms by (simp_all add: b_def)
  obtain u w'' where u: "rnd E w = (u, w'')" by (cases "rnd E w")
  have u01: "0 \<le> u" "u \<le> 1" using assms(5) [of w] u by simp_all
  from None assms(1) u have d: "d = b \<or> d = b / 2 + u * b / 2"
    by (auto simp: compute_wait_def b_def Let_def split: if_splits)
  moreover have "0 \<le> u * b" "u * b \<le> b" using b u01 by (simp_all add: mult_left_le_one_le)
  ultimately show ?thesis using b by auto
qed

section \<open>The loop: invariants and call counts\<close>

lemma attempt_induct:
  fixes k :: int
  assumes step: "\<And>n w. (\<And>w'. n < k \<Longrightarrow> Q (n + 1) w') \<Longrightarrow> Q n w"
  shows "Q n w"
proof (induction "nat (k - n)" arbitrary: n w rule: less_induct)
  case less
  show ?case by (rule step) (rule less, simp)
qed

lemma compute_wait_inv:
  "(\<And>w. I w \<Longrightarrow> I (snd (rnd E w))) \<Longrightarrow> I w \<Longrightarrow> I (snd (compute_wait E P n info w))"
  by (auto simp: compute_wait_def Let_def split: option.splits prod.splits)
     (metis snd_conv)

text \<open>
  One turn of the loop: either it stops with the exception of this call, or all four guards
  let it note the retry, sleep and go on to the next attempt.
\<close>

definition goes_on ::
  "'w env \<Rightarrow> retry_params \<Rightarrow> deadline option \<Rightarrow> int \<Rightarrow> exn \<Rightarrow> 'w \<Rightarrow> real option \<times> 'w \<Rightarrow> bool" where
  "goes_on E P dl n e w1 r \<longleftrightarrow>
     retryable (classify (wall E w1) e) \<and> n < rp_max_attempts P
   \<and> fst r \<noteq> None \<and> \<not> deadline_blocks dl (clk E (snd r)) (the (fst r))"

lemma retry_loop_stop:
  assumes "func w = (Exc e, w1)" "compute_wait E P n (classify (wall E w1) e) w1 = (wt, w2)"
    and "\<not> goes_on E P dl n e w1 (wt, w2)"
  shows "retry_loop E P dl on_retry func n w \<in> {(Exc e, w1), (Exc e, w2)}"
  using assms by (subst retry_loop.simps) (auto simp: goes_on_def Let_def split: option.splits)

lemma retry_loop_go:
  assumes "func w = (Exc e, w1)" "compute_wait E P n (classify (wall E w1) e) w1 = (Some d, w2)"
    and "goes_on E P dl n e w1 (Some d, w2)"
    and "w3 = (case on_retry of None \<Rightarrow> w2 | Some f \<Rightarrow> f n e (classify (wall E w1) e) d w2)"
    and "slp E d w3 = (s, w4)"
  shows "retry_loop E P dl on_retry func n w =
     (case s of Ret _ \<Rightarrow> retry_loop E P dl on_retry func (n + 1) w4
              | Exc e' \<Rightarrow> (Exc e', w4) | Cancel \<Rightarrow> (Cancel, w4))"
  using assms by (subst retry_loop.simps) (auto simp: goes_on_def Let_def split: outcome.splits)

lemma retry_loop_done:
  "func w = (r, w1) \<Longrightarrow> (\<And>e. r \<noteq> Exc e) \<Longrightarrow> retry_loop E P dl on_retry func n w = (r, w1)"
  by (subst retry_loop.simps) (auto split: outcome.splits)

text \<open>
  An invariant of the world that the call, the random source and the retry note keep, and
  that a sleep keeps when it is between 0 and \<open>max_wait\<close> and ends before the deadline, holds
  after the loop: no sleep is ever outside these bounds.
\<close>

lemma retry_loop_invariant:
  assumes P: "0 \<le> rp_base_wait P" "0 \<le> rp_exponential_base P" "0 \<le> rp_max_wait P"
    and rnd01: "\<And>w. 0 \<le> fst (rnd E w) \<and> fst (rnd E w) \<le> 1"
    and inv_rnd: "\<And>w. I w \<Longrightarrow> I (snd (rnd E w))"
    and inv_func: "\<And>w. I w \<Longrightarrow> I (snd (func w))"
    and inv_note: "\<And>f n e i d w. on_retry = Some f \<Longrightarrow> I w \<Longrightarrow> clk E (f n e i d w) = clk E w \<and> I (f n e i d w)"
    and inv_slp: "\<And>d w. I w \<Longrightarrow> 0 \<le> d \<Longrightarrow> d \<le> rp_max_wait P \<Longrightarrow>
        \<not> deadline_blocks dl (clk E w) d \<Longrightarrow> I (snd (slp E d w))"
    and ra: "\<And>w p q. I w \<Longrightarrow> fst (func w) = Exc (RateLimited p (Some q)) \<Longrightarrow> 0 \<le> q"
  shows "I w \<Longrightarrow> I (snd (retry_loop E P dl on_retry func n w))"
proof (induction n w rule: attempt_induct [where k = "rp_max_attempts P"])
  case (1 n w)
  obtain r w1 where func: "func w = (r, w1)" by (cases "func w")
  have I1: "I w1" using inv_func [OF "1.prems"] func by simp
  show ?case
  proof (cases r)
    case (Exc e)
    note func = func [unfolded Exc]
    obtain wt w2 where wt: "compute_wait E P n (classify (wall E w1) e) w1 = (wt, w2)"
      by (cases "compute_wait E P n (classify (wall E w1) e) w1")
    have I2: "I w2" using compute_wait_inv [of I E w1 P n, OF inv_rnd I1] wt by (metis snd_conv)
    show ?thesis
    proof (cases "goes_on E P dl n e w1 (wt, w2)")
      case False
      from retry_loop_stop [where on_retry = on_retry and func = func and w = w, OF func wt this]
      show ?thesis using I1 I2 by auto
    next
      case go: True
      then obtain d where d: "wt = Some d" by (auto simp: goes_on_def)
      note wt = wt [unfolded d] and go = go [unfolded d]
      define w3 where "w3 = (case on_retry of None \<Rightarrow> w2 | Some f \<Rightarrow> f n e (classify (wall E w1) e) d w2)"
      have w3: "clk E w3 = clk E w2" "I w3"
        using inv_note I2 by (auto simp: w3_def split: option.splits)
      have "0 \<le> d \<and> d \<le> rp_max_wait P"
        by (rule compute_wait_le_max [OF wt P rnd01])
           (use classify_retry_after_nonneg [of "wall E w1" e] go ra [OF "1.prems"] func in
             \<open>auto simp: goes_on_def\<close>)
      then have I4: "I (snd (slp E d w3))"
        using inv_slp [OF w3(2)] go w3(1) by (simp add: goes_on_def)
      obtain s w4 where s: "slp E d w3 = (s, w4)" by (cases "slp E d w3")
      have "n < rp_max_attempts P" using go by (simp add: goes_on_def)
      with "1.IH" I4 s have "I (snd (retry_loop E P dl on_retry func (n + 1) w4))" by simp
      then show ?thesis
        using I4 s by (simp add: retry_loop_go [where func = func and w = w, OF func wt go w3_def s] split: outcome.splits)
    qed
  qed (use I1 func in \<open>simp_all add: retry_loop_done\<close>)
qed

text \<open>An invariant of the call, the sleep, the random source and the callback is one of the run.\<close>

lemma retry_loop_keeps:
  assumes "\<And>w. I w \<Longrightarrow> I (snd (func w))" "\<And>w. I w \<Longrightarrow> I (snd (rnd E w))"
    and "\<And>d w. I w \<Longrightarrow> I (snd (slp E d w))"
    and "\<And>f n e i d w. on_retry = Some f \<Longrightarrow> I w \<Longrightarrow> I (f n e i d w)"
  shows "I w \<Longrightarrow> I (snd (retry_loop E P dl on_retry func n w))"
proof (induction n w rule: attempt_induct [where k = "rp_max_attempts P"])
  case (1 n w)
  obtain r w1 where func: "func w = (r, w1)" by (cases "func w")
  have I1: "I w1" using assms(1) [OF "1.prems"] func by simp
  show ?case
  proof (cases r)
    case (Exc e)
    note func = func [unfolded Exc]
    obtain wt w2 where wt: "compute_wait E P n (classify (wall E w1) e) w1 = (wt, w2)"
      by (cases "compute_wait E P n (classify (wall E w1) e) w1")
    have I2: "I w2" using compute_wait_inv [where I = I and E = E, OF assms(2) I1, of P n "classify (wall E w1) e"] wt by simp
    show ?thesis
    proof (cases "goes_on E P dl n e w1 (wt, w2)")
      case False
      from retry_loop_stop [where on_retry = on_retry and func = func and w = w, OF func wt this]
      show ?thesis using I1 I2 by auto
    next
      case go: True
      then obtain d where d: "wt = Some d" by (auto simp: goes_on_def)
      note wt = wt [unfolded d] and go = go [unfolded d]
      define w3 where "w3 = (case on_retry of None \<Rightarrow> w2 | Some f \<Rightarrow> f n e (classify (wall E w1) e) d w2)"
      have I3: "I w3" using assms(4) I2 by (auto simp: w3_def split: option.splits)
      obtain s w4 where s: "slp E d w3 = (s, w4)" by (cases "slp E d w3")
      have I4: "I w4" using assms(3) [OF I3, of d] s by simp
      have n: "n < rp_max_attempts P" using go by (simp add: goes_on_def)
      show ?thesis
        using "1.IH" [OF n I4] I4 unfolding retry_loop_go [where func = func and w = w, OF func wt go w3_def s]
        by (cases s) auto
    qed
  qed (use I1 func in \<open>simp_all add: retry_loop_done\<close>)
qed

lemma retry_execute_keeps:
  assumes "\<And>w. I w \<Longrightarrow> I (snd (func w))" "\<And>w. I w \<Longrightarrow> I (snd (rnd E w))"
    and "\<And>d w. I w \<Longrightarrow> I (snd (slp E d w))" "\<And>f w. I w \<Longrightarrow> I (upd f w)"
  shows "I w \<Longrightarrow> I (snd (retry_execute E upd cfg dl attempts func w))"
proof -
  define P where "P = \<lparr>rp_max_attempts = (case attempts of
                   None \<Rightarrow> rc_max_attempts cfg
                 | Some n \<Rightarrow> if n = 0 then rc_max_attempts cfg else n),
               rp_base_wait = rc_initial_wait_seconds cfg, rp_max_wait = rc_max_wait_seconds cfg,
               rp_exponential_base = rc_exponential_base cfg, rp_jitter = rc_jitter cfg\<rparr>"
  assume I: "I w"
  obtain r w1 where r: "run_with_retry E P dl (Some (\<lambda>n e info wait. upd (note_retry e info))) func w = (r, w1)"
    by (cases "run_with_retry E P dl (Some (\<lambda>n e info wait. upd (note_retry e info))) func w")
  have "I (snd (retry_loop E P dl (Some (\<lambda>n e info wait. upd (note_retry e info))) func 1 w))"
    by (rule retry_loop_keeps) (use assms I in auto)
  then have "I w1" using r by (simp add: run_with_retry_def)
  then show ?thesis
    using r assms(4) unfolding retry_execute_def Let_def P_def [symmetric] by (cases r) simp_all
qed

text \<open>At least one call is made, and at most \<open>max_attempts\<close> of them.\<close>

lemma retry_loop_calls:
  fixes c :: "'w \<Rightarrow> nat"
  assumes "\<And>w. c (snd (func w)) = Suc (c w)" "\<And>w. c (snd (rnd E w)) = c w"
    and "\<And>d w. c (snd (slp E d w)) = c w"
    and "\<And>f n e i d w. on_retry = Some f \<Longrightarrow> c (f n e i d w) = c w"
  shows "Suc (c w) \<le> c (snd (retry_loop E P dl on_retry func n w))
       \<and> c (snd (retry_loop E P dl on_retry func n w)) \<le> c w + max 1 (nat (rp_max_attempts P - n + 1))"
proof (induction n w rule: attempt_induct [where k = "rp_max_attempts P"])
  case (1 n w)
  obtain r w1 where func: "func w = (r, w1)" by (cases "func w")
  have c1: "c w1 = Suc (c w)" using assms(1) [of w] func by simp
  show ?case
  proof (cases r)
    case (Exc e)
    note func = func [unfolded Exc]
    obtain wt w2 where wt: "compute_wait E P n (classify (wall E w1) e) w1 = (wt, w2)"
      by (cases "compute_wait E P n (classify (wall E w1) e) w1")
    have c2: "c w2 = Suc (c w)"
      using compute_wait_inv [of "\<lambda>v. c v = Suc (c w)" E w1 P n "classify (wall E w1) e"]
        wt c1 assms(2) by (metis snd_conv)
    show ?thesis
    proof (cases "goes_on E P dl n e w1 (wt, w2)")
      case False
      from retry_loop_stop [where on_retry = on_retry and func = func and w = w, OF func wt this]
      show ?thesis using c1 c2 by auto
    next
      case go: True
      then obtain d where d: "wt = Some d" by (auto simp: goes_on_def)
      note wt = wt [unfolded d] and go = go [unfolded d]
      define w3 where "w3 = (case on_retry of None \<Rightarrow> w2 | Some f \<Rightarrow> f n e (classify (wall E w1) e) d w2)"
      have c3: "c w3 = Suc (c w)" using assms(4) c2 by (auto simp: w3_def split: option.splits)
      obtain s w4 where s: "slp E d w3 = (s, w4)" by (cases "slp E d w3")
      have c4: "c w4 = Suc (c w)" using assms(3) [of d w3] s c3 by simp
      have n: "n < rp_max_attempts P" using go by (simp add: goes_on_def)
      note IH = "1.IH" [OF n, of w4]
      show ?thesis
        using IH c4 n unfolding retry_loop_go [where func = func and w = w, OF func wt go w3_def s] by (cases s) auto
    qed
  qed (use c1 func in \<open>simp_all add: retry_loop_done\<close>)
qed

lemma retry_loop_no_retry:
  assumes "func w = (Exc e, w')" and "\<not> retryable (classify (wall E w') e)"
  shows "retry_loop E P dl on_retry func n w = (Exc e, w')"
  using assms by (subst retry_loop.simps) simp

section \<open>Properties\<close>

text \<open>
  \<open>run_with_retry\<close> calls the function at least once and at most \<open>max_attempts\<close> times (a
  limit below one still makes the first call), for every function that counts its calls in
  the world and whatever it answers; and an error that is not retryable ends the run with
  that error after the first call, with no sleep.
\<close>

theorem retry_call_bounds:
  fixes c :: "'w \<Rightarrow> nat"
  assumes "\<And>w. c (snd (func w)) = Suc (c w)" "\<And>w. c (snd (rnd E w)) = c w"
    and "\<And>d w. c (snd (slp E d w)) = c w"
  shows "c w < c (snd (run_with_retry E P dl None func w))
       \<and> c (snd (run_with_retry E P dl None func w)) \<le> c w + max 1 (nat (rp_max_attempts P))
       \<and> (\<forall>e w'. func w = (Exc e, w') \<longrightarrow> \<not> should_retry (wall E w') e \<longrightarrow>
            run_with_retry E P dl None func w = (Exc e, w'))"
proof -
  have "Suc (c w) \<le> c (snd (retry_loop E P dl None func 1 w))
     \<and> c (snd (retry_loop E P dl None func 1 w)) \<le> c w + max 1 (nat (rp_max_attempts P - 1 + 1))"
    by (rule retry_loop_calls) (use assms in auto)
  moreover have "\<forall>e w'. func w = (Exc e, w') \<longrightarrow> \<not> should_retry (wall E w') e \<longrightarrow>
            run_with_retry E P dl None func w = (Exc e, w')"
    by (simp add: run_with_retry_def should_retry_def retry_loop_no_retry)
  ultimately show ?thesis by (simp add: run_with_retry_def)
qed

definition default_params :: retry_params where
  "default_params = \<lparr>rp_max_attempts = 3, rp_base_wait = 1, rp_max_wait = 30,
     rp_exponential_base = 2, rp_jitter = True\<rparr>"

definition three_overloads :: "nat sim" where
  "three_overloads = \<lparr>sim_now = 0,
     sim_script = [(Exc (ProviderError overloaded_529), 1), (Exc (ProviderTimeout ''p'' 60), 60),
                   (Ret 7, 1), (Ret 8, 1)], sim_sleeps = [], sim_calls = 0\<rparr>"

lemma sim_calls_step: "sim_calls (snd (sim_call w)) = Suc (sim_calls w)"
  by (auto simp: sim_call_def split: list.splits prod.splits)

theorem retry_call_bounds_witness:
  "sim_calls (snd (run_with_retry sim_env default_params None None sim_call three_overloads)) \<le> 3"
  using retry_call_bounds [of sim_calls sim_call sim_env three_overloads default_params None]
  by (simp add: sim_calls_step default_params_def three_overloads_def)

text \<open>
  Every sleep of a retry run lasts between 0 and \<open>max_wait\<close> seconds and, when the request
  has a deadline, ends strictly before it: the run never waits past the deadline, whatever
  \<open>Retry-After\<close> values the provider sends.
\<close>

fun sane_outcome :: "'a outcome \<Rightarrow> bool" where
  "sane_outcome (Exc (RateLimited p (Some q))) = (0 \<le> q)"
| "sane_outcome _ = True"

definition sane_script :: "('a outcome \<times> real) list \<Rightarrow> bool" where
  "sane_script s = list_all (\<lambda>(r, d). sane_outcome r) s"

definition sleeps_within :: "real \<Rightarrow> deadline option \<Rightarrow> (time \<times> real) list \<Rightarrow> bool" where
  "sleeps_within m dl xs \<longleftrightarrow>
     (\<forall>(t, d) \<in> set xs. 0 \<le> d \<and> d \<le> m \<and> (\<forall>e. dl = Some (Some e) \<longrightarrow> t + d < e))"

theorem retry_sleeps_within:
  assumes "0 \<le> rp_base_wait P" "0 \<le> rp_exponential_base P" "0 \<le> rp_max_wait P"
    and "sim_sleeps w = []" "sane_script (sim_script w)"
  shows "sleeps_within (rp_max_wait P) dl
           (sim_sleeps (snd (run_with_retry sim_env P dl None sim_call w)))"
proof -
  let ?I = "\<lambda>w :: 'a sim. sleeps_within (rp_max_wait P) dl (sim_sleeps w) \<and> sane_script (sim_script w)"
  have "?I (snd (retry_loop sim_env P dl None sim_call 1 w))"
  proof (rule retry_loop_invariant [where I = ?I])
    show "?I w" using assms by (simp add: sleeps_within_def)
    show "?I (snd (sim_call w'))" if "?I w'" for w' :: "'a sim"
      using that by (auto simp: sim_call_def sane_script_def split: list.splits prod.splits)
    show "?I (snd (slp sim_env d w'))"
      if "?I w'" "0 \<le> d" "d \<le> rp_max_wait P" "\<not> deadline_blocks dl (clk sim_env w') d"
      for d and w' :: "'a sim"
      using that
      by (auto simp: sleeps_within_def deadline_blocks_def remaining_def max_def split: option.splits if_splits)
    show "0 \<le> q" if "?I w'" "fst (sim_call w') = Exc (RateLimited p (Some q))" for w' :: "'a sim" and p q
      using that by (auto simp: sim_call_def sane_script_def split: list.splits prod.splits)
  qed (use assms in auto)
  then show ?thesis by (simp add: run_with_retry_def)
qed

theorem retry_sleeps_within_witness:
  "sleeps_within 30 (Some (Some 65))
     (sim_sleeps (snd (run_with_retry sim_env default_params (Some (Some 65)) None sim_call three_overloads)))"
  using retry_sleeps_within [of default_params three_overloads "Some (Some 65)"]
  by (simp add: default_params_def three_overloads_def sane_script_def)

end
