(* ===== verification/Limiter.thy ===== *)
theory Limiter
  imports Async
begin

text \<open>
  \<open>src/coreai/limiter.py\<close>: token buckets, the per-provider limiter (a concurrency semaphore and
  two buckets) and the registry of limiters. The semaphore is its counter. \<open>acquire\<close> is
  split at its awaits: every stretch between two awaits is one function, the whole call
  composes them with environment functions for the two awaits, and the step relation
  interleaves the stretches of any number of tasks.
\<close>

section \<open>Configuration\<close>

record rate_config =
  rl_requests_per_minute :: int
  rl_tokens_per_minute :: int
  rl_concurrent_requests :: int

fun positive_int :: "pyval \<Rightarrow> int option" where
  "positive_int (PInt n) = (if n < 1 then None else Some n)"
| "positive_int _ = None"

text \<open>The dataclass with its \<open>__post_init__\<close>; the first offending field is named.\<close>

definition rate_config_new :: "pyval \<Rightarrow> pyval \<Rightarrow> pyval \<Rightarrow> string + rate_config" where
  "rate_config_new rpm tpm conc =
     (case positive_int rpm of
        None \<Rightarrow> Inl ''requests_per_minute must be a positive integer''
      | Some r \<Rightarrow>
          (case positive_int tpm of
             None \<Rightarrow> Inl ''tokens_per_minute must be a positive integer''
           | Some t \<Rightarrow>
               (case positive_int conc of
                  None \<Rightarrow> Inl ''concurrent_requests must be a positive integer''
                | Some c \<Rightarrow> Inr \<lparr>rl_requests_per_minute = r, rl_tokens_per_minute = t,
                                 rl_concurrent_requests = c\<rparr>)))"

definition default_rate_config :: rate_config where
  "default_rate_config = \<lparr>rl_requests_per_minute = 100, rl_tokens_per_minute = 90000,
     rl_concurrent_requests = 10\<rparr>"

section \<open>Token buckets\<close>

record token_bucket =
  tb_capacity :: real
  tb_refill_rate :: real
  tb_tokens :: real
  tb_last_refill :: time

definition bucket_new :: "real \<Rightarrow> real \<Rightarrow> time \<Rightarrow> token_bucket" where
  "bucket_new capacity rate now =
     \<lparr>tb_capacity = capacity, tb_refill_rate = rate, tb_tokens = capacity, tb_last_refill = now\<rparr>"

definition refill :: "time \<Rightarrow> token_bucket \<Rightarrow> token_bucket" where
  "refill now b =
     (let elapsed = now - tb_last_refill b;
          to_add = elapsed * tb_refill_rate b
      in b\<lparr>tb_tokens := min (tb_capacity b) (tb_tokens b + to_add), tb_last_refill := now\<rparr>)"

definition consume :: "time \<Rightarrow> real \<Rightarrow> token_bucket \<Rightarrow> bool \<times> token_bucket" where
  "consume now n b =
     (let b = refill now b in
      if tb_tokens b \<ge> n then (True, b\<lparr>tb_tokens := tb_tokens b - n\<rparr>) else (False, b))"

definition reserve :: "time \<Rightarrow> real \<Rightarrow> token_bucket \<Rightarrow> real \<times> token_bucket" where
  "reserve now n b =
     (let b = refill now b;
          b = b\<lparr>tb_tokens := tb_tokens b - min n (tb_capacity b)\<rparr>
      in if tb_tokens b \<ge> 0 then (0, b) else (- tb_tokens b / tb_refill_rate b, b))"

definition refund :: "real \<Rightarrow> token_bucket \<Rightarrow> token_bucket" where
  "refund n b = b\<lparr>tb_tokens := min (tb_capacity b) (tb_tokens b + min n (tb_capacity b))\<rparr>"

definition wait_until_available :: "time \<Rightarrow> real \<Rightarrow> token_bucket \<Rightarrow> real \<times> token_bucket" where
  "wait_until_available now n b =
     (let b = refill now b in
      if tb_tokens b \<ge> n then (0, b\<lparr>tb_tokens := tb_tokens b - n\<rparr>)
      else ((n - tb_tokens b) / tb_refill_rate b, b))"

lemmas bucket_defs = refill_def consume_def reserve_def refund_def wait_until_available_def Let_def

definition bucket_inv :: "token_bucket \<Rightarrow> bool" where
  "bucket_inv b \<longleftrightarrow> 0 < tb_capacity b \<and> 0 < tb_refill_rate b \<and> tb_tokens b \<le> tb_capacity b"

lemma refill_params [simp]:
  "tb_capacity (refill now b) = tb_capacity b" "tb_refill_rate (refill now b) = tb_refill_rate b"
  "tb_last_refill (refill now b) = now"
  by (simp_all add: refill_def Let_def)

lemma bucket_inv_refill [simp, intro]: "bucket_inv b \<Longrightarrow> bucket_inv (refill now b)"
  by (simp add: bucket_inv_def bucket_defs)

lemma bucket_inv_reserve [intro]: "bucket_inv b \<Longrightarrow> 0 \<le> n \<Longrightarrow> bucket_inv (snd (reserve now n b))"
  by (auto simp: bucket_inv_def bucket_defs min_def)

lemma bucket_inv_refund [intro]: "bucket_inv b \<Longrightarrow> bucket_inv (refund n b)"
  by (simp add: bucket_inv_def bucket_defs)

lemma reserve_wait_nonneg: "bucket_inv b \<Longrightarrow> 0 \<le> fst (reserve now n b)"
  by (auto simp: bucket_inv_def bucket_defs zero_le_divide_iff)

text \<open>A reservation given back in the same instant leaves the refilled bucket.\<close>

lemma refund_reserve:
  assumes "bucket_inv b"
  shows "refund n (snd (reserve now n b)) = refill now b"
proof -
  have "tb_tokens (refill now b) \<le> tb_capacity (refill now b)"
    by (simp add: bucket_defs)
  then show ?thesis by (simp add: reserve_def refund_def Let_def)
qed

text \<open>Once the returned wait has passed, the reservation is covered.\<close>

lemma reserve_covered:
  assumes "bucket_inv b"
  shows "0 \<le> tb_tokens (refill (now + fst (reserve now n b)) (snd (reserve now n b)))"
proof -
  let ?b = "snd (reserve now n b)"
  have rate: "0 < tb_refill_rate b" "0 < tb_capacity b" using assms by (simp_all add: bucket_inv_def)
  have b: "tb_refill_rate ?b = tb_refill_rate b" "tb_last_refill ?b = now"
    "tb_capacity ?b = tb_capacity b"
    by (simp_all add: bucket_defs)
  have "fst (reserve now n b) = (if 0 \<le> tb_tokens ?b then 0 else - tb_tokens ?b / tb_refill_rate b)"
    by (simp add: reserve_def Let_def minus_divide_left [symmetric] diff_divide_distrib)
  then show ?thesis using rate b by (auto simp: refill_def)
qed

section \<open>The rate bound\<close>

text \<open>
  Runs of bucket operations. \<open>TbRefuse\<close> is a reservation that is given back in the same instant because its
  wait does not fit into the caller's budget. \<open>start_times\<close> lists when each operation lets its caller go on and for
  how many tokens: a reservation at the end of the wait it returned, a consumption at once if it succeeded. The
  refund of a caller that is cancelled while it sleeps is not among the operations.
\<close>

datatype bucket_op = TbReserve time real | TbRefuse time real | TbConsume time real | TbAwait time real

fun bucket_step :: "bucket_op \<Rightarrow> token_bucket \<Rightarrow> token_bucket" where
  "bucket_step (TbReserve t n) b = snd (reserve t n b)"
| "bucket_step (TbRefuse t n) b = refund n (snd (reserve t n b))"
| "bucket_step (TbConsume t n) b = snd (consume t n b)"
| "bucket_step (TbAwait t n) b = snd (wait_until_available t n b)"

fun start_of :: "bucket_op \<Rightarrow> token_bucket \<Rightarrow> (time \<times> real) list" where
  "start_of (TbReserve t n) b = [(t + fst (reserve t n b), min n (tb_capacity b))]"
| "start_of (TbRefuse t n) b = []"
| "start_of (TbConsume t n) b = (if fst (consume t n b) then [(t, n)] else [])"
| "start_of (TbAwait t n) b = (if fst (wait_until_available t n b) = 0 then [(t, n)] else [])"

fun start_times :: "bucket_op list \<Rightarrow> token_bucket \<Rightarrow> (time \<times> real) list" where
  "start_times [] b = []"
| "start_times (op # ops) b = start_of op b @ start_times ops (bucket_step op b)"

fun bucket_op_ok :: "bucket_op \<Rightarrow> token_bucket \<Rightarrow> bool" where
  "bucket_op_ok (TbReserve t n) b = (0 \<le> n \<and> tb_last_refill b \<le> t)"
| "bucket_op_ok (TbRefuse t n) b = (0 \<le> n \<and> tb_last_refill b \<le> t)"
| "bucket_op_ok (TbConsume t n) b = (0 \<le> n \<and> tb_last_refill b \<le> t)"
| "bucket_op_ok (TbAwait t n) b = (0 \<le> n \<and> tb_last_refill b \<le> t)"

definition started_within :: "time \<Rightarrow> time \<Rightarrow> (time \<times> real) list \<Rightarrow> real" where
  "started_within a z ss = sum_list (map snd (filter (\<lambda>(s, n). a \<le> s \<and> s \<le> z) ss))"

lemma started_within_simps [simp]:
  "started_within a z [] = 0"
  "started_within a z ((s, n) # ss) = (if a \<le> s \<and> s \<le> z then n else 0) + started_within a z ss"
  "started_within a z (xs @ ys) = started_within a z xs + started_within a z ys"
  by (simp_all add: started_within_def)

text \<open>What a bucket can still let go until \<open>z\<close>.\<close>

definition allowance :: "time \<Rightarrow> token_bucket \<Rightarrow> real" where
  "allowance z b = tb_tokens b + tb_refill_rate b * (z - tb_last_refill b)"

lemma bucket_step_params [simp]:
  "tb_capacity (bucket_step op b) = tb_capacity b"
  "tb_refill_rate (bucket_step op b) = tb_refill_rate b"
  by (cases op; simp add: bucket_defs)+

lemma bucket_inv_step:
  "bucket_inv b \<Longrightarrow> bucket_op_ok op b \<Longrightarrow> bucket_inv (bucket_step op b)"
  by (cases op) (auto simp: bucket_inv_def bucket_defs min_def)

text \<open>
  One operation: it takes what it lets go out of the allowance; a caller that may go on by \<open>z\<close> leaves an allowance
  that is not negative; and from its start on, no more than a full bucket is there.
\<close>

lemma start_of_cases:
  assumes "bucket_inv b" "bucket_op_ok op b"
  obtains (none) "start_of op b = []" "allowance z (bucket_step op b) \<le> allowance z b"
  | (start) s n where "start_of op b = [(s, n)]" "0 \<le> n" "n \<le> tb_capacity b"
      "n + allowance z (bucket_step op b) \<le> allowance z b"
      "s \<le> z \<Longrightarrow> 0 \<le> allowance z (bucket_step op b)"
      "n + allowance z (bucket_step op b) \<le> tb_capacity b + tb_refill_rate b * (z - s)"
proof -
  have inv: "0 < tb_refill_rate b" "0 < tb_capacity b" "tb_tokens b \<le> tb_capacity b"
    using assms(1) by (simp_all add: bucket_inv_def)
  let ?r = "tb_refill_rate b"
  have refill: "tb_tokens (refill t b) \<le> tb_capacity b" "tb_tokens (refill t b) \<le> tb_tokens b + ?r * (t - tb_last_refill b)" for t
    by (auto simp: refill_def Let_def mult.commute)
  have zero: "allowance z (refill t b) \<le> allowance z b" for t
    using refill(2) [of t] by (simp add: allowance_def algebra_simps)
  have taken: "n + allowance z (refill t b\<lparr>tb_tokens := tb_tokens (refill t b) - n\<rparr>) \<le> allowance z b" for t n
    using zero [of t] by (simp add: allowance_def)
  have at_once: thesis
    if "start_of op b = [(t, n)]" "bucket_step op b = refill t b\<lparr>tb_tokens := tb_tokens (refill t b) - n\<rparr>"
      "n \<le> tb_tokens (refill t b)" "0 \<le> n" for t n
  proof (rule start [OF that(1,4)])
    show "n \<le> tb_capacity b" using that(3) refill(1) [of t] by simp
    show "n + allowance z (bucket_step op b) \<le> allowance z b" using taken that(2) by simp
    show "0 \<le> allowance z (bucket_step op b)" if "t \<le> z"
      using \<open>n \<le> tb_tokens (refill t b)\<close> \<open>bucket_step op b = _\<close> inv that by (simp add: allowance_def)
    show "n + allowance z (bucket_step op b) \<le> tb_capacity b + ?r * (z - t)"
      using that(2) refill(1) [of t] by (simp add: allowance_def)
  qed
  show thesis
  proof (cases op)
    case (TbReserve t n)
    define m where "m = min n (tb_capacity b)"
    let ?b = "refill t b\<lparr>tb_tokens := tb_tokens (refill t b) - m\<rparr>"
    have step: "bucket_step op b = ?b" by (simp add: TbReserve reserve_def m_def Let_def)
    have m: "0 \<le> m" "m \<le> tb_capacity b" using assms inv by (auto simp: m_def TbReserve)
    show thesis
    proof (cases "m \<le> tb_tokens (refill t b)")
      case True
      show thesis by (rule at_once [OF _ step True m(1)])
        (use True in \<open>simp add: TbReserve reserve_def m_def [symmetric] Let_def\<close>)
    next
      case False
      define s where "s = t + (m - tb_tokens (refill t b)) / ?r"
      have go: "start_of op b = [(s, m)]"
        using False by (simp add: TbReserve reserve_def m_def [symmetric] Let_def s_def)
      have s: "allowance z ?b = ?r * (z - s)"
        using inv by (simp add: allowance_def s_def field_simps)
      show thesis
      proof (rule start [OF go m])
        show "m + allowance z (bucket_step op b) \<le> allowance z b" using taken step by simp
        show "0 \<le> allowance z (bucket_step op b)" if "s \<le> z" using that inv s step by simp
        show "m + allowance z (bucket_step op b) \<le> tb_capacity b + ?r * (z - s)" using s step m by simp
      qed
    qed
  next
    case (TbRefuse t n)
    then show thesis using none zero refund_reserve [OF assms(1)] by simp
  next
    case (TbConsume t n)
    show thesis
    proof (cases "n \<le> tb_tokens (refill t b)")
      case True
      then show thesis using assms by (intro at_once [of t n]) (simp_all add: TbConsume consume_def Let_def)
    next
      case False
      then show thesis using zero by (intro none) (simp_all add: TbConsume consume_def Let_def)
    qed
  next
    case (TbAwait t n)
    show thesis
    proof (cases "n \<le> tb_tokens (refill t b)")
      case True
      then show thesis using assms by (intro at_once [of t n]) (simp_all add: TbAwait wait_until_available_def Let_def)
    next
      case False
      then show thesis using zero inv by (intro none) (simp_all add: TbAwait wait_until_available_def Let_def)
    qed
  qed
qed

lemma started_by:
  "bucket_inv b \<Longrightarrow> all_along bucket_step bucket_op_ok ops b \<Longrightarrow>
   started_within a z (start_times ops b) \<le> max 0 (allowance z b)"
proof (induction ops arbitrary: b)
  case (Cons op ops)
  let ?b = "bucket_step op b"
  have IH: "started_within a z (start_times ops ?b) \<le> max 0 (allowance z ?b)"
    using Cons.prems bucket_inv_step by (intro Cons.IH) simp_all
  from Cons.prems have ok: "bucket_inv b" "bucket_op_ok op b" by simp_all
  from ok show ?case
  proof (cases rule: start_of_cases [where z = z])
    case none
    then show ?thesis using IH by simp
  next
    case (start s n)
    then show ?thesis using IH by (cases "a \<le> s \<and> s \<le> z") auto
  qed
qed simp

lemma started_between:
  "bucket_inv b \<Longrightarrow> all_along bucket_step bucket_op_ok ops b \<Longrightarrow> a \<le> z \<Longrightarrow>
   started_within a z (start_times ops b) \<le> tb_capacity b + tb_refill_rate b * (z - a)"
proof (induction ops arbitrary: b)
  case Nil
  then show ?case by (simp add: bucket_inv_def)
next
  case (Cons op ops)
  let ?b = "bucket_step op b"
  have inv: "bucket_inv ?b" "all_along bucket_step bucket_op_ok ops ?b" using Cons.prems bucket_inv_step by simp_all
  have IH: "started_within a z (start_times ops ?b) \<le> tb_capacity b + tb_refill_rate b * (z - a)"
    using Cons.IH [OF inv Cons.prems(3)] by simp
  from Cons.prems have ok: "bucket_inv b" "bucket_op_ok op b" by simp_all
  from ok show ?case
  proof (cases rule: start_of_cases [where z = z])
    case none
    then show ?thesis using IH by simp
  next
    case (start s n)
    show ?thesis
    proof (cases "a \<le> s \<and> s \<le> z")
      case True
      have "tb_refill_rate b * (z - s) \<le> tb_refill_rate b * (z - a)"
        using True ok(1) by (intro mult_left_mono) (simp_all add: bucket_inv_def)
      then show ?thesis using started_by [OF inv, of a z] start True by simp
    qed (use start IH in auto)
  qed
qed

section \<open>The provider limiter\<close>

record limiter =
  lm_name :: string
  lm_config :: rate_config
  lm_request_bucket :: token_bucket
  lm_token_bucket :: token_bucket
  lm_slots :: int
  lm_active_requests :: int
  lm_total_requests :: int
  lm_total_waits :: real
  lm_total_rejected :: int

definition limiter_new :: "string \<Rightarrow> rate_config \<Rightarrow> time \<Rightarrow> limiter" where
  "limiter_new name cfg now =
     \<lparr>lm_name = name, lm_config = cfg,
      lm_request_bucket = bucket_new (of_int (rl_requests_per_minute cfg))
                            (of_int (rl_requests_per_minute cfg) / 60) now,
      lm_token_bucket = bucket_new (of_int (rl_tokens_per_minute cfg))
                          (of_int (rl_tokens_per_minute cfg) / 60) now,
      lm_slots = rl_concurrent_requests cfg, lm_active_requests = 0, lm_total_requests = 0,
      lm_total_waits = 0, lm_total_rejected = 0\<rparr>"

text \<open>\<open>left()\<close>: what remains of the caller's patience.\<close>

definition time_left :: "real option \<Rightarrow> time \<Rightarrow> time \<Rightarrow> real option" where
  "time_left max_wait started now =
     (case max_wait of None \<Rightarrow> None | Some m \<Rightarrow> Some (max 0 (m - (now - started))))"

definition slots_locked :: "limiter \<Rightarrow> bool" where
  "slots_locked L \<longleftrightarrow> lm_slots L \<le> 0"

definition take_slot :: "limiter \<Rightarrow> limiter" where
  "take_slot L = L\<lparr>lm_slots := lm_slots L - 1\<rparr>"

definition free_slot :: "limiter \<Rightarrow> limiter" where
  "free_slot L = L\<lparr>lm_slots := lm_slots L + 1\<rparr>"

definition count_rejected :: "limiter \<Rightarrow> limiter" where
  "count_rejected L = L\<lparr>lm_total_rejected := lm_total_rejected L + 1\<rparr>"

text \<open>The \<open>except BaseException\<close> branch once both reservations were made.\<close>

definition give_up :: "int \<Rightarrow> limiter \<Rightarrow> limiter" where
  "give_up est L =
     free_slot (L\<lparr>lm_request_bucket := refund 1 (lm_request_bucket L),
                  lm_token_bucket := refund (of_int est) (lm_token_bucket L)\<rparr>)"

text \<open>
  With the slot in hand: reserve in both buckets; refuse, giving everything back, when the
  wait does not fit in the budget, else say how long to sleep.
\<close>

definition reserve_both :: "time \<Rightarrow> int \<Rightarrow> real option \<Rightarrow> limiter \<Rightarrow> (exn + real) \<times> limiter" where
  "reserve_both now est budget L =
     (let (req_wait, rb) = reserve now 1 (lm_request_bucket L);
          (tok_wait, tb) = reserve now (of_int est) (lm_token_bucket L);
          L = L\<lparr>lm_request_bucket := rb, lm_token_bucket := tb\<rparr>;
          wait = max req_wait tok_wait
      in if (case budget of None \<Rightarrow> False | Some b \<Rightarrow> wait > b)
         then (Inl (RateLimited (lm_name L) (Some wait)), give_up est (count_rejected L))
         else (Inr wait, L))"

definition admit_request :: "time \<Rightarrow> time \<Rightarrow> limiter \<Rightarrow> real \<times> limiter" where
  "admit_request started now L =
     (now - started,
      L\<lparr>lm_active_requests := lm_active_requests L + 1,
        lm_total_requests := lm_total_requests L + 1,
        lm_total_waits := lm_total_waits L + (now - started)\<rparr>)"

text \<open>\<open>release\<close>: a release without a matching admission is ignored.\<close>

definition limiter_release :: "limiter \<Rightarrow> limiter" where
  "limiter_release L =
     (if lm_active_requests L > 0
      then free_slot (L\<lparr>lm_active_requests := lm_active_requests L - 1\<rparr>) else L)"

text \<open>
  \<open>acquire\<close> once the slot is held: reserve, sleep for the reservation, count the request.
  \<open>await_sleep\<close> is that sleep: how it ended, the time after, and the state other tasks left.
\<close>

definition hold_slot ::
  "(real \<Rightarrow> limiter \<Rightarrow> unit outcome \<times> time \<times> limiter) \<Rightarrow>
   time \<Rightarrow> int \<Rightarrow> real option \<Rightarrow> time \<Rightarrow> limiter \<Rightarrow> real outcome \<times> time \<times> limiter" where
  "hold_slot await_sleep started est max_wait now L =
     (case reserve_both now est (time_left max_wait started now) L of
        (Inl e, L) \<Rightarrow> (Exc e, now, L)
      | (Inr wait, L) \<Rightarrow>
          (if wait > 0 then
             (case await_sleep wait L of
                (Ret _, now, L) \<Rightarrow>
                  (case admit_request started now L of (waited, L) \<Rightarrow> (Ret waited, now, L))
              | (Exc e, now, L) \<Rightarrow> (Exc e, now, give_up est L)
              | (Cancel, now, L) \<Rightarrow> (Cancel, now, give_up est L))
           else (case admit_request started now L of (waited, L) \<Rightarrow> (Ret waited, now, L))))"

text \<open>
  The whole of \<open>acquire\<close>. \<open>await_slot\<close> is \<open>wait_for(self._slots.acquire(), timeout)\<close>: whether a
  slot was handed over before the timeout (or the task was cancelled), the time after, and
  the state other tasks left.
\<close>

definition limiter_acquire ::
  "(real option \<Rightarrow> limiter \<Rightarrow> bool outcome \<times> time \<times> limiter) \<Rightarrow>
   (real \<Rightarrow> limiter \<Rightarrow> unit outcome \<times> time \<times> limiter) \<Rightarrow>
   time \<Rightarrow> int \<Rightarrow> real option \<Rightarrow> limiter \<Rightarrow> real outcome \<times> time \<times> limiter" where
  "limiter_acquire await_slot await_sleep started est max_wait L =
     (let left_now = time_left max_wait started started in
      if (case left_now of None \<Rightarrow> False | Some b \<Rightarrow> b \<le> 0)
      then (if slots_locked L
            then (Exc (RateLimited (lm_name L) None), started, count_rejected L)
            else hold_slot await_sleep started est max_wait started (take_slot L))
      else
        (case await_slot left_now L of
           (Ret got, now, L) \<Rightarrow>
             (if got then hold_slot await_sleep started est max_wait now (take_slot L)
              else (Exc (RateLimited (lm_name L) None), now, count_rejected L))
         | (Exc e, now, L) \<Rightarrow> (Exc e, now, L)
         | (Cancel, now, L) \<Rightarrow> (Cancel, now, L)))"

text \<open>A successful acquire counts one active request, any other outcome none.\<close>

definition counts_one :: "int \<Rightarrow> real outcome \<times> time \<times> limiter \<Rightarrow> bool" where
  "counts_one k res = (case res of (r, t, L) \<Rightarrow> lm_active_requests L = k + (if is_ret r then 1 else 0))"

lemma hold_slot_active:
  assumes "\<And>t L. lm_active_requests (snd (snd (sl t L))) = lm_active_requests L"
  shows "counts_one (lm_active_requests L) (hold_slot sl started est mw now L)"
proof -
  obtain x M where m: "reserve_both now est (time_left mw started now) L = (x, M)"
    by (cases "reserve_both now est (time_left mw started now) L")
  have M: "lm_active_requests M = lm_active_requests L"
    using m by (auto simp: reserve_both_def Let_def give_up_def free_slot_def count_rejected_def
        split: prod.splits if_splits)
  show ?thesis
  proof (cases x)
    case (Inl e)
    then show ?thesis using m M by (simp add: hold_slot_def counts_one_def)
  next
    case (Inr wait)
    obtain r t M2 where s: "sl wait M = (r, t, M2)" by (metis prod_cases3)
    have "lm_active_requests M2 = lm_active_requests L" using assms [of wait M] s M by simp
    then show ?thesis using m M Inr s
      by (cases r) (simp_all add: hold_slot_def counts_one_def admit_request_def give_up_def free_slot_def)
  qed
qed

lemma limiter_acquire_active:
  assumes "\<And>t L. lm_active_requests (snd (snd (aw t L))) = lm_active_requests L"
    and "\<And>t L. lm_active_requests (snd (snd (sl t L))) = lm_active_requests L"
  shows "counts_one (lm_active_requests L) (limiter_acquire aw sl started est mw L)"
proof -
  note h = hold_slot_active [where sl = sl, OF assms(2)]
  have take: "lm_active_requests (take_slot M) = lm_active_requests M" for M by (simp add: take_slot_def)
  obtain g t M where aw: "aw (time_left mw started started) L = (g, t, M)" by (metis prod_cases3)
  have "lm_active_requests M = lm_active_requests L" using assms(1) [of "time_left mw started started" L] aw by simp
  then show ?thesis
    using h [of "take_slot L"] h [of "take_slot M"] aw
    unfolding limiter_acquire_def Let_def take
    by (cases g) (auto simp: counts_one_def count_rejected_def)
qed

section \<open>Interleaved tasks\<close>

text \<open>
  Any number of tasks share one limiter. \<open>ls_sleeping\<close> holds the token estimates of the
  tasks that own a slot and sleep for their reservation.
\<close>

record limiter_sys =
  ls_limiter :: limiter
  ls_sleeping :: "int list"

inductive limiter_step :: "limiter_sys \<Rightarrow> limiter_sys \<Rightarrow> bool" where
  no_slot: "limiter_step s (s\<lparr>ls_limiter := count_rejected (ls_limiter s)\<rparr>)"
| refused: "\<not> slots_locked (ls_limiter s) \<Longrightarrow> 0 \<le> est \<Longrightarrow>
     reserve_both now est budget (take_slot (ls_limiter s)) = (Inl e, L) \<Longrightarrow>
     limiter_step s (s\<lparr>ls_limiter := L\<rparr>)"
| reserved: "\<not> slots_locked (ls_limiter s) \<Longrightarrow> 0 \<le> est \<Longrightarrow>
     reserve_both now est budget (take_slot (ls_limiter s)) = (Inr wait, L) \<Longrightarrow>
     limiter_step s (s\<lparr>ls_limiter := L, ls_sleeping := est # ls_sleeping s\<rparr>)"
| admitted: "est \<in> set (ls_sleeping s) \<Longrightarrow>
     limiter_step s (s\<lparr>ls_limiter := snd (admit_request started now (ls_limiter s)),
                       ls_sleeping := remove1 est (ls_sleeping s)\<rparr>)"
| abandoned: "est \<in> set (ls_sleeping s) \<Longrightarrow>
     limiter_step s (s\<lparr>ls_limiter := give_up est (ls_limiter s),
                       ls_sleeping := remove1 est (ls_sleeping s)\<rparr>)"
| released: "limiter_step s (s\<lparr>ls_limiter := limiter_release (ls_limiter s)\<rparr>)"

inductive limiter_reachable :: "limiter_sys \<Rightarrow> limiter_sys \<Rightarrow> bool" for s0 where
  lr_start: "limiter_reachable s0 s0"
| lr_step: "limiter_reachable s0 s \<Longrightarrow> limiter_step s t \<Longrightarrow> limiter_reachable s0 t"

text \<open>Every slot is free, owned by a sleeping task, or owned by an admitted request.\<close>

definition limiter_inv :: "limiter_sys \<Rightarrow> bool" where
  "limiter_inv s \<longleftrightarrow>
     (let L = ls_limiter s in
        0 \<le> lm_slots L \<and> 0 \<le> lm_active_requests L
      \<and> lm_slots L + int (length (ls_sleeping s)) + lm_active_requests L
          = rl_concurrent_requests (lm_config L)
      \<and> bucket_inv (lm_request_bucket L) \<and> bucket_inv (lm_token_bucket L))"

lemmas limiter_part_defs = take_slot_def free_slot_def count_rejected_def give_up_def
  admit_request_def limiter_release_def slots_locked_def

lemma limiter_inv_new:
  assumes "1 \<le> rl_requests_per_minute cfg" "1 \<le> rl_tokens_per_minute cfg"
    and "1 \<le> rl_concurrent_requests cfg"
  shows "limiter_inv \<lparr>ls_limiter = limiter_new n cfg now, ls_sleeping = []\<rparr>"
  using assms by (simp add: limiter_inv_def limiter_new_def bucket_new_def bucket_inv_def)

lemma reserve_both_inl:
  assumes "reserve_both now est budget L = (Inl e, L')"
    and "bucket_inv (lm_request_bucket L)" "bucket_inv (lm_token_bucket L)"
  shows "L' = free_slot (count_rejected
     (L\<lparr>lm_request_bucket := refill now (lm_request_bucket L),
        lm_token_bucket := refill now (lm_token_bucket L)\<rparr>))"
  using assms refund_reserve [of "lm_request_bucket L" 1 now]
    refund_reserve [of "lm_token_bucket L" "of_int est" now]
  by (auto simp: reserve_both_def Let_def give_up_def free_slot_def count_rejected_def
      split: prod.splits if_splits)

lemma reserve_both_inr:
  assumes "reserve_both now est budget L = (Inr wait, L')"
  shows "L' = L\<lparr>lm_request_bucket := snd (reserve now 1 (lm_request_bucket L)),
                lm_token_bucket := snd (reserve now (of_int est) (lm_token_bucket L))\<rparr>"
  using assms by (auto simp: reserve_both_def Let_def split: prod.splits if_splits)

lemma limiter_inv_step: "limiter_step s t \<Longrightarrow> limiter_inv s \<Longrightarrow> limiter_inv t"
proof (induction rule: limiter_step.induct)
  case (refused s est now budget e L)
  then show ?case
    using reserve_both_inl [OF refused(3)] by (auto simp: limiter_inv_def limiter_part_defs Let_def)
next
  case (reserved s est now budget wait L)
  then show ?case
    using reserve_both_inr [OF reserved(3)]
    by (auto simp: limiter_inv_def limiter_part_defs Let_def)
next
  case (admitted est s started now)
  then show ?case
    by (auto simp: limiter_inv_def limiter_part_defs Let_def length_remove1_int)
next
  case (abandoned est s)
  then show ?case
    by (auto simp: limiter_inv_def limiter_part_defs Let_def length_remove1_int)
qed (auto simp: limiter_inv_def limiter_part_defs Let_def)

lemma limiter_config_step:
  "limiter_step s t \<Longrightarrow> lm_config (ls_limiter t) = lm_config (ls_limiter s)"
  by (induction rule: limiter_step.induct)
     (auto simp: limiter_part_defs reserve_both_def Let_def split: prod.splits if_splits)

lemma limiter_reachable_inv:
  "limiter_reachable s0 s \<Longrightarrow> limiter_inv s0 \<Longrightarrow>
   limiter_inv s \<and> lm_config (ls_limiter s) = lm_config (ls_limiter s0)"
  by (induction rule: limiter_reachable.induct)
     (auto intro: limiter_inv_step simp: limiter_config_step)

section \<open>The registry of limiters\<close>

type_synonym global_limiter = "(string, limiter) odict"

definition register_provider :: "string \<Rightarrow> rate_config \<Rightarrow> time \<Rightarrow> global_limiter \<Rightarrow> global_limiter" where
  "register_provider name cfg now G = od_set name (limiter_new name cfg now) G"

definition get_limiter :: "global_limiter \<Rightarrow> string \<Rightarrow> limiter option" where
  "get_limiter G provider = od_get G provider"

definition global_acquire ::
  "(real option \<Rightarrow> limiter \<Rightarrow> bool outcome \<times> time \<times> limiter) \<Rightarrow>
   (real \<Rightarrow> limiter \<Rightarrow> unit outcome \<times> time \<times> limiter) \<Rightarrow>
   time \<Rightarrow> string \<Rightarrow> int \<Rightarrow> real option \<Rightarrow> global_limiter \<Rightarrow> real outcome \<times> time \<times> global_limiter" where
  "global_acquire await_slot await_sleep now provider est max_wait G =
     (case get_limiter G provider of
        None \<Rightarrow> (Ret 0, now, G)
      | Some L \<Rightarrow>
          (case limiter_acquire await_slot await_sleep now est max_wait L of
             (r, now, L) \<Rightarrow> (r, now, od_set provider L G)))"

definition global_release :: "string \<Rightarrow> global_limiter \<Rightarrow> global_limiter" where
  "global_release provider G = od_map_at provider limiter_release G"

section \<open>Properties\<close>

text \<open>
  C9. A token bucket enforces its rate in every window: over any run of reservations, refused reservations,
  consumptions and non-blocking waits, what is let go between two instants (a reservation at the end of the
  wait it was told, a consumption at once) is at most one full bucket plus the refill rate times the length of
  the window. The clock does not go back, and no sleeping caller is refunded during the run.
\<close>

theorem bucket_rate_bound:
  assumes "bucket_inv b" and "all_along bucket_step bucket_op_ok ops b" and "a \<le> z"
  shows "started_within a z (start_times ops b) \<le> tb_capacity b + tb_refill_rate b * (z - a)"
  using assms by (rule started_between)

definition sample_bucket :: token_bucket where
  "sample_bucket = \<lparr>tb_capacity = 10, tb_refill_rate = 1, tb_tokens = 10, tb_last_refill = 0\<rparr>"

theorem bucket_rate_bound_witness:
  "start_times [TbConsume 0 8, TbConsume 1 8, TbReserve 2 6, TbReserve 3 5] sample_bucket = [(0, 8), (4, 6), (9, 5)]
   \<and> started_within 4 9 (start_times [TbConsume 0 8, TbConsume 1 8, TbReserve 2 6, TbReserve 3 5] sample_bucket) \<le> 15"
proof -
  have "started_within 4 9 (start_times [TbConsume 0 8, TbConsume 1 8, TbReserve 2 6, TbReserve 3 5] sample_bucket)
     \<le> tb_capacity sample_bucket + tb_refill_rate sample_bucket * (9 - 4)"
    by (rule bucket_rate_bound) (simp_all add: sample_bucket_def bucket_inv_def bucket_defs)
  then show ?thesis by (simp add: sample_bucket_def bucket_defs)
qed

text \<open>
  A reservation is honest: waiting the returned time is enough for the balance to be
  covered again, and a refused or abandoned reservation that is refunded at once leaves
  exactly the refilled bucket, so nothing is consumed.
\<close>

theorem reserve_wait_and_refund:
  assumes "bucket_inv b"
  shows "0 \<le> tb_tokens (refill (now + fst (reserve now n b)) (snd (reserve now n b)))
       \<and> refund n (snd (reserve now n b)) = refill now b"
  using assms by (simp add: reserve_covered refund_reserve)

theorem reserve_wait_and_refund_witness:
  "fst (reserve 1 25 (sample_bucket\<lparr>tb_tokens := - 3\<rparr>)) = 12
   \<and> 0 \<le> tb_tokens (refill (1 + fst (reserve 1 25 (sample_bucket\<lparr>tb_tokens := - 3\<rparr>)))
          (snd (reserve 1 25 (sample_bucket\<lparr>tb_tokens := - 3\<rparr>))))"
  using reserve_wait_and_refund [of "sample_bucket\<lparr>tb_tokens := - 3\<rparr>" 1 25]
  by (simp add: sample_bucket_def bucket_inv_def bucket_defs)

text \<open>
  C11. However the tasks that share a limiter interleave (waiting, being refused, sleeping,
  being cancelled, releasing twice), the number of admitted requests never exceeds the
  configured concurrency and the semaphore never holds more than its initial slots.
\<close>

theorem limiter_concurrency_bound:
  assumes "1 \<le> rl_requests_per_minute cfg" "1 \<le> rl_tokens_per_minute cfg"
    and "1 \<le> rl_concurrent_requests cfg"
    and "limiter_reachable \<lparr>ls_limiter = limiter_new n cfg now, ls_sleeping = []\<rparr> s"
  shows "0 \<le> lm_active_requests (ls_limiter s)
       \<and> lm_active_requests (ls_limiter s) \<le> rl_concurrent_requests cfg
       \<and> 0 \<le> lm_slots (ls_limiter s) \<and> lm_slots (ls_limiter s) \<le> rl_concurrent_requests cfg"
  using limiter_reachable_inv [OF assms(4) limiter_inv_new [OF assms(1-3)]]
  by (auto simp: limiter_inv_def limiter_new_def Let_def)

definition one_admitted :: limiter where
  "one_admitted = snd (admit_request 0 0 (snd (reserve_both 0 1000 None
     (take_slot (limiter_new ''p'' default_rate_config 0)))))"

theorem limiter_concurrency_bound_witness:
  "lm_active_requests one_admitted = 1 \<and> lm_slots one_admitted = 9 \<and> lm_slots one_admitted \<le> 10"
proof -
  let ?s = "\<lparr>ls_limiter = limiter_new ''p'' default_rate_config 0, ls_sleeping = []\<rparr>"
  obtain r L where rL: "reserve_both 0 1000 None (take_slot (limiter_new ''p'' default_rate_config 0)) = (r, L)"
    by fastforce
  then obtain wait where r: "r = Inr wait"
    by (auto simp: reserve_both_def Let_def split: prod.splits)
  have "limiter_step ?s (?s\<lparr>ls_limiter := L, ls_sleeping := [1000]\<rparr>)"
    using reserved [of ?s 1000 0 None wait L] rL r
    by (simp add: slots_locked_def limiter_new_def default_rate_config_def)
  moreover have "limiter_step (?s\<lparr>ls_limiter := L, ls_sleeping := [1000]\<rparr>)
     \<lparr>ls_limiter = one_admitted, ls_sleeping = []\<rparr>"
    using admitted [of 1000 "?s\<lparr>ls_limiter := L, ls_sleeping := [1000]\<rparr>" 0 0] rL
    by (simp add: one_admitted_def)
  ultimately have "limiter_reachable ?s \<lparr>ls_limiter = one_admitted, ls_sleeping = []\<rparr>"
    by (blast intro: limiter_reachable.intros)
  from limiter_concurrency_bound [OF _ _ _ this]
  have "lm_slots one_admitted \<le> 10" by (simp add: default_rate_config_def)
  moreover have "lm_active_requests one_admitted = 1 \<and> lm_slots one_admitted = 9"
    using reserve_both_inr [OF rL [unfolded r]] rL
    by (simp add: one_admitted_def limiter_part_defs limiter_new_def default_rate_config_def)
  ultimately show ?thesis by simp
qed

end
