(* ===== verification/Health.thy ===== *)
theory Health
  imports Prelude
begin

text \<open>
  \<open>src/coreai/health.py\<close>: the time-decayed success rate of a provider over a bounded window of
  recent outcomes, with one pseudo-success. A \<open>deque(maxlen=n)\<close> is a list that drops its
  oldest elements; Python's float power is \<open>powr\<close>.
\<close>

record health_tracker =
  ht_half_life :: real
  ht_max_events :: nat
  ht_events :: "(time \<times> bool) list"

definition health_new :: "real \<Rightarrow> nat \<Rightarrow> string + health_tracker" where
  "health_new half_life max_events =
     (if half_life \<le> 0 then Inl ''half_life_seconds must be positive''
      else Inr \<lparr>ht_half_life = half_life, ht_max_events = max_events, ht_events = []\<rparr>)"

definition health_record :: "time \<Rightarrow> bool \<Rightarrow> health_tracker \<Rightarrow> health_tracker" where
  "health_record now ok h =
     (let es = ht_events h @ [(now, ok)]
      in h\<lparr>ht_events := drop (length es - ht_max_events h) es\<rparr>)"

definition decay :: "real \<Rightarrow> time \<Rightarrow> time \<Rightarrow> real" where
  "decay half_life now t = (1 / 2) powr (max 0 (now - t) / half_life)"

text \<open>The loop of \<open>score\<close>, over the pair (good, tot).\<close>

fun health_sums :: "real \<Rightarrow> time \<Rightarrow> (time \<times> bool) list \<Rightarrow> real \<times> real \<Rightarrow> real \<times> real" where
  "health_sums hl now [] acc = acc"
| "health_sums hl now ((t, ok) # es) (good, tot) =
     (let w = decay hl now t
      in health_sums hl now es (if ok then good + w else good, tot + w))"

definition health_score :: "time \<Rightarrow> health_tracker \<Rightarrow> real" where
  "health_score now h =
     (let (good, tot) = health_sums (ht_half_life h) now (ht_events h) (1, 1) in good / tot)"

definition sample_count :: "health_tracker \<Rightarrow> nat" where
  "sample_count h = length (ht_events h)"

lemma decay_pos: "0 < decay hl now t"
  by (simp add: decay_def)

lemma decay_le_1: "0 < hl \<Longrightarrow> decay hl now t \<le> 1"
  by (simp add: decay_def powr_le1)

lemma health_sums_bounds:
  "0 < good \<Longrightarrow> good \<le> tot \<Longrightarrow> health_sums hl now es (good, tot) = (g, t) \<Longrightarrow>
   good \<le> g \<and> g \<le> t"
proof (induction es arbitrary: good tot)
  case Nil
  then show ?case by simp
next
  case (Cons e es)
  obtain s ok where e: "e = (s, ok)" by (cases e)
  define w where "w = decay hl now s"
  have w: "0 < w" by (simp add: w_def decay_pos)
  define good' where "good' = (if ok then good + w else good)"
  have "health_sums hl now es (good', tot + w) = (g, t)"
    using Cons.prems(3) unfolding e w_def good'_def by (simp add: Let_def)
  then have "good' \<le> g \<and> g \<le> t"
    using Cons.IH [of good' "tot + w"] Cons.prems w by (simp add: good'_def split: if_splits)
  with w show ?case by (auto simp: good'_def split: if_splits)
qed

lemma health_sums_all_ok:
  "\<forall>(t, ok) \<in> set es. ok \<Longrightarrow> health_sums hl now es (x, x) = (g, t) \<Longrightarrow> g = t"
  by (induction es arbitrary: x) (auto simp: Let_def)

lemma health_score_bounds: "0 < health_score now h \<and> health_score now h \<le> 1"
proof -
  obtain g t where gt: "health_sums (ht_half_life h) now (ht_events h) (1, 1) = (g, t)"
    by fastforce
  then have "1 \<le> g \<and> g \<le> t"
    using health_sums_bounds [of 1 1 "ht_half_life h" now "ht_events h" g t] by simp
  then show ?thesis using gt by (simp add: health_score_def)
qed

lemma health_score_no_failures:
  assumes "\<forall>(t, ok) \<in> set (ht_events h). ok"
  shows "health_score now h = 1"
proof -
  obtain g t where gt: "health_sums (ht_half_life h) now (ht_events h) (1, 1) = (g, t)"
    by fastforce
  moreover have "1 \<le> g \<and> g \<le> t"
    using health_sums_bounds [of 1 1 "ht_half_life h" now "ht_events h" g t] gt by simp
  ultimately show ?thesis
    using health_sums_all_ok [OF assms, of "ht_half_life h" now 1 g t]
    by (simp add: health_score_def)
qed

lemma health_window: "length (ht_events h) \<le> ht_max_events h \<Longrightarrow>
    length (ht_events (health_record now ok h)) \<le> ht_max_events h"
  by (simp add: health_record_def Let_def)

end
