(* ===== verification/Drain.thy ===== *)
theory Drain
  imports Async
begin

text \<open>
  \<open>src/coreai/drain.py\<close>: the controller behind the kill switch and the ASGI middleware that
  refuses new requests while the gateway drains. The \<open>asyncio.Event\<close> is a flag.
\<close>

section \<open>The controller\<close>

record drain =
  dr_accepting :: bool
  dr_in_flight :: int
  dr_idle :: bool
  dr_started_at :: "time option"

definition drain_new :: drain where
  "drain_new = \<lparr>dr_accepting = True, dr_in_flight = 0, dr_idle = True, dr_started_at = None\<rparr>"

definition begin_drain :: "time \<Rightarrow> drain \<Rightarrow> drain" where
  "begin_drain now d =
     (if dr_accepting d then d\<lparr>dr_accepting := False, dr_started_at := Some now\<rparr> else d)"

definition resume_drain :: "drain \<Rightarrow> drain" where
  "resume_drain d = d\<lparr>dr_accepting := True, dr_started_at := None\<rparr>"

definition enter :: "drain \<Rightarrow> drain" where
  "enter d = d\<lparr>dr_in_flight := dr_in_flight d + 1, dr_idle := False\<rparr>"

definition leave :: "drain \<Rightarrow> drain" where
  "leave d =
     (let n = max 0 (dr_in_flight d - 1);
          d = d\<lparr>dr_in_flight := n\<rparr>
      in if n = 0 then d\<lparr>dr_idle := True\<rparr> else d)"

text \<open>
  \<open>wait_idle\<close>: \<open>wait_for\<close> on the event. A set event is returned at once; otherwise the
  environment says whether it was set before the timeout, and what state it left.
\<close>

definition wait_idle :: "(real \<Rightarrow> drain \<Rightarrow> bool \<times> drain) \<Rightarrow> real \<Rightarrow> drain \<Rightarrow> bool \<times> drain" where
  "wait_idle await timeout d = (if dr_idle d then (True, d) else await (max 0 timeout) d)"

lemmas drain_defs = drain_new_def begin_drain_def resume_drain_def enter_def leave_def Let_def

section \<open>The middleware\<close>

definition ALWAYS_ALLOWED :: "string list" where
  "ALWAYS_ALLOWED = [''/health'', ''/healthz'', ''/readyz'', ''/v1/admin/'']"

fun starts_with :: "string \<Rightarrow> string list \<Rightarrow> bool" where
  "starts_with s [] = False"
| "starts_with s (p # ps) = (take (length p) s = p \<or> starts_with s ps)"

datatype response = Refused nat int   \<comment> \<open>HTTP status and the retry-after header\<close>
  | Handled "unit outcome"            \<comment> \<open>the wrapped application ran and ended like this\<close>

text \<open>
  One call of the middleware. \<open>app\<close> is the wrapped application: it runs on the shared state,
  which other requests may change meanwhile. \<open>leave\<close> is in a \<open>finally\<close>, so it follows every
  outcome.
\<close>

definition drain_middleware ::
  "string list \<Rightarrow> int \<Rightarrow> (drain \<Rightarrow> unit outcome \<times> drain) \<Rightarrow> bool \<Rightarrow> string \<Rightarrow> drain \<Rightarrow> response \<times> drain" where
  "drain_middleware allowed retry_after app is_http path d =
     (if \<not> is_http then (let (r, d) = app d in (Handled r, d))
      else if \<not> dr_accepting d \<and> \<not> starts_with path allowed then (Refused 503 retry_after, d)
      else let (r, d) = app (enter d) in (Handled r, leave d))"

section \<open>The in-flight count\<close>

datatype drain_op = DrBegin time | DrResume | DrEnter | DrLeave

fun drain_step :: "drain_op \<Rightarrow> drain \<Rightarrow> drain" where
  "drain_step (DrBegin t) d = begin_drain t d"
| "drain_step DrResume d = resume_drain d"
| "drain_step DrEnter d = enter d"
| "drain_step DrLeave d = leave d"

definition drain_inv :: "drain \<Rightarrow> bool" where
  "drain_inv d \<longleftrightarrow> 0 \<le> dr_in_flight d \<and> (dr_idle d \<longleftrightarrow> dr_in_flight d = 0)
     \<and> (dr_accepting d \<longleftrightarrow> dr_started_at d = None)"

lemma drain_inv_new [simp]: "drain_inv drain_new"
  by (simp add: drain_inv_def drain_defs)

interpretation drain_runs: op_system drain_step "\<lambda>_. True" drain_inv
proof unfold_locales
  fix op d
  assume "drain_inv d"
  then show "drain_inv (drain_step op d)"
    by (cases op) (auto simp: drain_inv_def drain_defs max_def split: if_splits)
qed

text \<open>The number of requests in a run that have entered and not yet left.\<close>

fun open_requests :: "int \<Rightarrow> drain_op list \<Rightarrow> int" where
  "open_requests n [] = n"
| "open_requests n (DrEnter # ops) = open_requests (n + 1) ops"
| "open_requests n (DrLeave # ops) = open_requests (n - 1) ops"
| "open_requests n (op # ops) = open_requests n ops"

fun balanced :: "int \<Rightarrow> drain_op list \<Rightarrow> bool" where
  "balanced n [] = True"
| "balanced n (DrEnter # ops) = balanced (n + 1) ops"
| "balanced n (DrLeave # ops) = (0 < n \<and> balanced (n - 1) ops)"
| "balanced n (op # ops) = balanced n ops"

lemma drain_counts:
  "balanced (dr_in_flight d) ops \<Longrightarrow> 0 \<le> dr_in_flight d \<Longrightarrow>
   dr_in_flight (fold drain_step ops d) = open_requests (dr_in_flight d) ops"
proof (induction ops arbitrary: d)
  case Nil
  then show ?case by simp
next
  case (Cons op ops)
  have "dr_in_flight (drain_step op d) = open_requests (dr_in_flight d) [op]"
    using Cons.prems by (cases op) (auto simp: drain_defs)
  then show ?case
    using Cons.IH [of "drain_step op d"] Cons.prems by (cases op) auto
qed

section \<open>Properties\<close>

text \<open>
  Draining is precise. In every run in which each leave has a matching enter, the
  in-flight count is the number of requests that entered and have not left, and the idle
  event is set exactly when that number is zero, so \<open>wait_idle\<close> answers at once exactly then;
  and while the gateway does not accept traffic, a request outside the allowed prefixes is
  refused with 503 without touching the state.
\<close>

theorem drain_precise:
  assumes "drain_inv d" and "balanced (dr_in_flight d) ops"
  shows "dr_in_flight (fold drain_step ops d) = open_requests (dr_in_flight d) ops
       \<and> (dr_idle (fold drain_step ops d) \<longleftrightarrow> open_requests (dr_in_flight d) ops = 0)
       \<and> (\<not> dr_accepting (fold drain_step ops d) \<longrightarrow> \<not> starts_with path allowed \<longrightarrow>
            drain_middleware allowed ra app True path (fold drain_step ops d) =
              (Refused 503 ra, fold drain_step ops d))"
proof -
  have "drain_inv (fold drain_step ops d)"
    using drain_runs.inv_run_all [OF TrueI assms(1)] .
  moreover have "dr_in_flight (fold drain_step ops d) = open_requests (dr_in_flight d) ops"
    using drain_counts assms by (simp add: drain_inv_def)
  ultimately show ?thesis by (simp add: drain_inv_def drain_middleware_def)
qed

theorem drain_precise_witness:
  "dr_in_flight (fold drain_step [DrEnter, DrEnter, DrBegin 5, DrLeave] drain_new) = 1
   \<and> \<not> dr_idle (fold drain_step [DrEnter, DrEnter, DrBegin 5, DrLeave] drain_new)"
  using drain_precise [OF drain_inv_new, of "[DrEnter, DrEnter, DrBegin 5, DrLeave]"]
  by (simp add: drain_new_def)

text \<open>
  The middleware never leaks an in-flight request: whatever the wrapped application does
  (returns, raises, is cancelled), if it leaves the count of the other requests as it found
  it then the count after the call is the count before.
\<close>

theorem middleware_restores_in_flight:
  assumes "drain_inv d" and "\<And>d. dr_in_flight (snd (app d)) = dr_in_flight d"
  shows "dr_in_flight (snd (drain_middleware allowed ra app is_http path d)) = dr_in_flight d"
proof -
  have "dr_in_flight (snd (app (enter d))) = dr_in_flight d + 1"
    by (simp add: assms(2) enter_def)
  then show ?thesis
    using assms(1) assms(2) [of d]
    by (auto simp: drain_middleware_def drain_inv_def leave_def Let_def case_prod_unfold)
qed

theorem middleware_restores_in_flight_witness:
  "dr_in_flight (snd (drain_middleware ALWAYS_ALLOWED 30 (\<lambda>d. (Cancel, begin_drain 7 d)) True
     ''/v1/completions'' drain_new)) = 0"
  using middleware_restores_in_flight [OF drain_inv_new, of "\<lambda>d. (Cancel, begin_drain 7 d)"]
  by (simp add: begin_drain_def drain_new_def)

end
