(* ===== verification/Cache.thy ===== *)
theory Cache
  imports Prelude
begin

text \<open>
  \<open>src/coreai/cache.py\<close>: the in-memory LRU cache with expiry (\<open>MemoryCache\<close>), the backend
  interface (\<open>CacheBackend\<close>) as a locale, and the response cache on top of it. Values are
  immutable in the model, which is what the deep copies achieve in the code.
\<close>

section \<open>The memory cache\<close>

record 'v memory_cache =
  mc_max_entries :: nat
  mc_store :: "(string, 'v \<times> time) odict"
  mc_evictions :: nat

fun memory_cache_new :: "pyval \<Rightarrow> string + 'v memory_cache" where
  "memory_cache_new (PInt n) =
     (if n < 1 then Inl ''max_entries must be a positive integer''
      else Inr \<lparr>mc_max_entries = nat n, mc_store = [], mc_evictions = 0\<rparr>)"
| "memory_cache_new _ = Inl ''max_entries must be a positive integer''"

text \<open>\<open>_validate_ttl\<close>.\<close>

fun validate_ttl :: "pyval \<Rightarrow> string + nat" where
  "validate_ttl (PInt n) =
     (if n < 0 then Inl ''ttl_seconds must be a non-negative integer'' else Inr (nat n))"
| "validate_ttl _ = Inl ''ttl_seconds must be a non-negative integer''"

definition cache_get :: "time \<Rightarrow> string \<Rightarrow> 'v memory_cache \<Rightarrow> 'v option \<times> 'v memory_cache" where
  "cache_get now k c =
     (case od_get (mc_store c) k of
        None \<Rightarrow> (None, c)
      | Some (v, expiry) \<Rightarrow>
          (if now \<ge> expiry then (None, c\<lparr>mc_store := od_pop k (mc_store c)\<rparr>)
           else (Some v, c\<lparr>mc_store := od_move_to_end k (mc_store c)\<rparr>)))"

definition purge_expired :: "time \<Rightarrow> 'v memory_cache \<Rightarrow> nat \<times> 'v memory_cache" where
  "purge_expired now c =
     (let s = od_drop_where (\<lambda>k (v, expiry). now \<ge> expiry) (mc_store c)
      in (length (mc_store c) - length s, c\<lparr>mc_store := s\<rparr>))"

text \<open>\<open>while len(store) > max_entries: popitem(last=False); evictions += 1\<close>.\<close>

definition evict_over :: "'v memory_cache \<Rightarrow> 'v memory_cache" where
  "evict_over c =
     c\<lparr>mc_store := od_evict (mc_max_entries c) (mc_store c),
       mc_evictions := mc_evictions c + (length (mc_store c) - mc_max_entries c)\<rparr>"

definition cache_set ::
  "time \<Rightarrow> string \<Rightarrow> 'v \<Rightarrow> pyval \<Rightarrow> 'v memory_cache \<Rightarrow> string + 'v memory_cache" where
  "cache_set now k v ttl c =
     (case validate_ttl ttl of
        Inl e \<Rightarrow> Inl e
      | Inr n \<Rightarrow>
          (if n = 0 then Inr (c\<lparr>mc_store := od_pop k (mc_store c)\<rparr>)
           else
             let expiry = now + real n;
                 c = c\<lparr>mc_store := od_move_to_end k (od_set k (v, expiry) (mc_store c))\<rparr>;
                 c = (if length (mc_store c) > mc_max_entries c then snd (purge_expired now c) else c)
             in Inr (evict_over c)))"

definition cache_delete :: "string \<Rightarrow> 'v memory_cache \<Rightarrow> 'v memory_cache" where
  "cache_delete k c = c\<lparr>mc_store := od_pop k (mc_store c)\<rparr>"

definition cache_clear :: "'v memory_cache \<Rightarrow> 'v memory_cache" where
  "cache_clear c = c\<lparr>mc_store := []\<rparr>"

section \<open>Size and order\<close>

definition cache_inv :: "'v memory_cache \<Rightarrow> bool" where
  "cache_inv c \<longleftrightarrow> 1 \<le> mc_max_entries c \<and> od_wf (mc_store c)
     \<and> length (mc_store c) \<le> mc_max_entries c"

lemma cache_inv_get: "cache_inv c \<Longrightarrow> cache_inv (snd (cache_get now k c))"
  by (auto simp: cache_inv_def cache_get_def split: option.splits
      intro: order_trans [OF length_od_pop_le])

lemma purge_facts:
  assumes "od_wf (mc_store c)"
  shows "od_wf (mc_store (snd (purge_expired now c)))"
    "length (mc_store (snd (purge_expired now c))) \<le> length (mc_store c)"
    "mc_max_entries (snd (purge_expired now c)) = mc_max_entries c"
  using assms by (auto simp: purge_expired_def Let_def length_od_drop_where_le)

lemma cache_inv_set: "cache_inv c \<Longrightarrow> cache_set now k v ttl c = Inr c' \<Longrightarrow> cache_inv c'"
  by (auto simp: cache_inv_def cache_set_def evict_over_def Let_def purge_facts
      split: sum.splits if_splits intro: order_trans [OF length_od_pop_le])

lemma cache_inv_delete: "cache_inv c \<Longrightarrow> cache_inv (cache_delete k c)"
  by (auto simp: cache_inv_def cache_delete_def intro: order_trans [OF length_od_pop_le])

lemma cache_inv_clear: "cache_inv c \<Longrightarrow> cache_inv (cache_clear c)"
  by (simp add: cache_inv_def cache_clear_def)

section \<open>What a reader sees\<close>

text \<open>The value a read at an instant would return.\<close>

definition cache_view :: "time \<Rightarrow> 'v memory_cache \<Rightarrow> string \<Rightarrow> 'v option" where
  "cache_view now c k =
     (case od_get (mc_store c) k of
        None \<Rightarrow> None | Some (v, expiry) \<Rightarrow> if now \<ge> expiry then None else Some v)"

lemma cache_get_view: "fst (cache_get now k c) = cache_view now c k"
  by (simp add: cache_get_def cache_view_def split: option.splits)

lemma cache_get_keeps: "now \<le> t \<Longrightarrow> cache_view t (snd (cache_get now k c)) = cache_view t c"
  by (auto simp: cache_get_def cache_view_def fun_eq_iff split: option.splits)

lemma od_get_evict:
  assumes "od_wf d"
  shows "od_get (od_evict n d) k = (if k \<in> set (od_keys (od_evict n d)) then od_get d k else None)"
proof (cases "k \<in> set (od_keys (od_evict n d))")
  case True
  then obtain v where v: "(k, v) \<in> set (od_evict n d)" by auto
  then have "(k, v) \<in> set d" using set_od_evict by blast
  then have "od_get d k = Some v" using assms by simp
  moreover have "od_get (od_evict n d) k = Some v" using v assms by simp
  ultimately show ?thesis using True by simp
next
  case False
  then show ?thesis by (simp add: map_of_eq_None_iff)
qed

lemma last_survives_evict: "1 \<le> n \<Longrightarrow> d \<noteq> [] \<Longrightarrow> last d \<in> set (od_evict n d)"
proof -
  assume n: "1 \<le> n" and d: "d \<noteq> []"
  then have "length d - n < length d" by (cases d) auto
  then have "drop (length d - n) d \<noteq> []" "last (drop (length d - n) d) = last d" by simp_all
  then show ?thesis using last_in_set [of "drop (length d - n) d"] by (simp add: od_evict_drop)
qed

lemma last_filter: "xs \<noteq> [] \<Longrightarrow> P (last xs) \<Longrightarrow> filter P xs \<noteq> [] \<and> last (filter P xs) = last xs"
  by (induction xs rule: rev_induct) auto

text \<open>
  After a write with a positive time to live the written key is the last one, is not
  expired, and so survives both the purge and the eviction.
\<close>

lemma cache_set_store:
  assumes "cache_inv c" "cache_set now k v (PInt n) c = Inr c'" "0 < n"
  shows "od_get (mc_store c') k = Some (v, now + of_int n)"
    and "k' \<noteq> k \<Longrightarrow> od_get (mc_store c') k' = None \<or> od_get (mc_store c') k' = od_get (mc_store c) k'"
proof -
  define d where "d = od_move_to_end k (od_set k (v, now + of_int n) (mc_store c))"
  define d' where "d' = (if length d > mc_max_entries c
     then od_drop_where (\<lambda>k (v, expiry). now \<ge> expiry) d else d)"
  have c': "mc_store c' = od_evict (mc_max_entries c) d'"
    using assms(2,3) by (auto simp: cache_set_def purge_expired_def evict_over_def d_def d'_def Let_def)
  have wf: "od_wf d" "od_wf d'" using assms(1) by (auto simp: d_def d'_def cache_inv_def)
  have lst: "d \<noteq> []" "last d = (k, v, now + of_int n)"
    using od_move_last [of "od_set k (v, now + of_int n) (mc_store c)" k "(v, now + of_int n)"]
    by (auto simp: d_def od_move_to_end_def)
  then have lst': "d' \<noteq> []" "last d' = (k, v, now + of_int n)"
    using last_filter [of d "\<lambda>(k, v, expiry). \<not> now \<ge> expiry"] assms(3)
    by (auto simp: d'_def od_drop_where_def case_prod_unfold)
  then have "(k, v, now + of_int n) \<in> set (mc_store c')"
    using last_survives_evict [of "mc_max_entries c" d'] assms(1) by (simp add: c' cache_inv_def)
  then show "od_get (mc_store c') k = Some (v, now + of_int n)"
    using wf by (simp add: c')
  assume k': "k' \<noteq> k"
  have "od_get d' k' = None \<or> od_get d' k' = od_get d k'"
    using od_get_drop_where [OF wf(1)] by (auto simp: d'_def split: option.splits if_splits)
  moreover have "od_get d k' = od_get (mc_store c) k'" using k' by (simp add: d_def)
  moreover have "od_get (mc_store c') k' = None \<or> od_get (mc_store c') k' = od_get d' k'"
    unfolding c' od_get_evict [OF wf(2)] by simp
  ultimately show "od_get (mc_store c') k' = None \<or> od_get (mc_store c') k' = od_get (mc_store c) k'"
    by auto
qed

section \<open>The backend interface and its client\<close>

text \<open>
  What a cache backend promises: reads return the view, a read changes no later view, a
  write is visible until it expires, and every other operation only removes entries. \<open>put\<close> is
  a write with a positive time to live, \<open>del\<close> a delete.
\<close>

locale cache_backend =
  fixes get :: "time \<Rightarrow> string \<Rightarrow> 's \<Rightarrow> 'v option \<times> 's"
    and put :: "time \<Rightarrow> string \<Rightarrow> 'v \<Rightarrow> nat \<Rightarrow> 's \<Rightarrow> 's"
    and del :: "string \<Rightarrow> 's \<Rightarrow> 's"
    and view :: "time \<Rightarrow> 's \<Rightarrow> string \<Rightarrow> 'v option"
    and invar :: "'s \<Rightarrow> bool"
  assumes get_view: "invar s \<Longrightarrow> fst (get t k s) = view t s k"
    and get_keeps: "invar s \<Longrightarrow> t \<le> t' \<Longrightarrow> view t' (snd (get t k s)) = view t' s"
    and get_inv: "invar s \<Longrightarrow> invar (snd (get t k s))"
    and put_same: "invar s \<Longrightarrow> 0 < n \<Longrightarrow>
        view t' (put t k v n s) k = (if t' \<ge> t + real n then None else Some v)"
    and put_other: "invar s \<Longrightarrow> 0 < n \<Longrightarrow> k' \<noteq> k \<Longrightarrow>
        view t' (put t k v n s) k' = None \<or> view t' (put t k v n s) k' = view t' s k'"
    and put_inv: "invar s \<Longrightarrow> 0 < n \<Longrightarrow> invar (put t k v n s)"
    and del_view: "invar s \<Longrightarrow> view t' (del k s) = (view t' s)(k := None)"
    and del_inv: "invar s \<Longrightarrow> invar (del k s)"

text \<open>The history of a key: the last write, unless a delete followed it.\<close>

datatype 'v cache_op = CGet time string | CPut time string 'v nat | CDel string

fun last_write :: "string \<Rightarrow> ('v \<times> time) option \<Rightarrow> 'v cache_op list \<Rightarrow> ('v \<times> time) option" where
  "last_write k acc [] = acc"
| "last_write k acc (CGet t k' # ops) = last_write k acc ops"
| "last_write k acc (CPut t k' v n # ops) =
     last_write k (if k' = k then Some (v, t + real n) else acc) ops"
| "last_write k acc (CDel k' # ops) = last_write k (if k' = k then None else acc) ops"

fun ops_before :: "time \<Rightarrow> 'v cache_op list \<Rightarrow> bool" where
  "ops_before t [] = True"
| "ops_before t (CGet t' k # ops) = (t' \<le> t \<and> ops_before t ops)"
| "ops_before t (CPut t' k v n # ops) = (0 < n \<and> ops_before t ops)"
| "ops_before t (CDel k # ops) = ops_before t ops"

context cache_backend
begin

primrec do_op :: "'v cache_op \<Rightarrow> 's \<Rightarrow> 's" where
  "do_op (CGet t k) s = snd (get t k s)"
| "do_op (CPut t k v n) s = put t k v n s"
| "do_op (CDel k) s = del k s"

lemma view_fresh:
  "invar s \<Longrightarrow> ops_before t ops \<Longrightarrow>
   (\<And>v. view t s k = Some v \<Longrightarrow> \<exists>e. acc = Some (v, e) \<and> t < e) \<Longrightarrow>
   view t (fold do_op ops s) k = Some v \<Longrightarrow>
   \<exists>e. last_write k acc ops = Some (v, e) \<and> t < e"
proof (induction ops arbitrary: s acc)
  case Nil
  then show ?case by simp
next
  case (Cons op ops)
  note prems = Cons.prems
  show ?case
  proof (cases op)
    case (CGet t' k')
    show ?thesis
      using Cons.IH [of "do_op op s" acc] prems
      by (simp add: CGet get_inv get_keeps)
  next
    case (CPut t' k' v' n)
    have "\<exists>e. (if k' = k then Some (v', t' + real n) else acc) = Some (u, e) \<and> t < e"
      if "view t (do_op op s) k = Some u" for u
      using that prems put_same [of s n t t' k' v'] put_other [of s n k k' t t' v']
      by (auto simp: CPut split: if_splits)
    then show ?thesis
      using Cons.IH [of "do_op op s" "if k' = k then Some (v', t' + real n) else acc"] prems
      by (simp add: CPut put_inv)
  next
    case (CDel k')
    have "\<exists>e. (if k' = k then None else acc) = Some (u, e) \<and> t < e"
      if "view t (do_op op s) k = Some u" for u
      using that prems del_view [of s t k'] by (auto simp: CDel split: if_splits)
    then show ?thesis
      using Cons.IH [of "do_op op s" "if k' = k then None else acc"] prems
      by (simp add: CDel del_inv)
  qed
qed

end

definition memory_put :: "time \<Rightarrow> string \<Rightarrow> 'v \<Rightarrow> nat \<Rightarrow> 'v memory_cache \<Rightarrow> 'v memory_cache" where
  "memory_put t k v n c = (case cache_set t k v (PInt (int n)) c of Inl _ \<Rightarrow> c | Inr c \<Rightarrow> c)"

lemma memory_put_set: "cache_set t k v (PInt (int n)) c = Inr (memory_put t k v n c)"
  by (auto simp: memory_put_def cache_set_def Let_def)

interpretation memory_backend: cache_backend cache_get memory_put cache_delete cache_view cache_inv
proof unfold_locales
  fix c :: "'a memory_cache" and t t' :: time and k k' and v :: 'a and n :: nat
  assume inv: "cache_inv c"
  show "fst (cache_get t k c) = cache_view t c k" by (rule cache_get_view)
  show "cache_inv (snd (cache_get t k c))" using inv by (rule cache_inv_get)
  show "cache_inv (cache_delete k c)" using inv by (rule cache_inv_delete)
  show "cache_view t' (cache_delete k c) = (cache_view t' c)(k := None)"
    by (auto simp: cache_view_def cache_delete_def fun_eq_iff)
  show "t \<le> t' \<Longrightarrow> cache_view t' (snd (cache_get t k c)) = cache_view t' c"
    by (rule cache_get_keeps)
  assume n: "0 < n"
  show "cache_inv (memory_put t k v n c)" using cache_inv_set [OF inv memory_put_set] .
  have st: "od_get (mc_store (memory_put t k v n c)) k = Some (v, t + real n)"
    "k' \<noteq> k \<Longrightarrow> od_get (mc_store (memory_put t k v n c)) k' = None
       \<or> od_get (mc_store (memory_put t k v n c)) k' = od_get (mc_store c) k'"
    using cache_set_store(1) [OF inv memory_put_set [of t k v n c]]
      cache_set_store(2) [OF inv memory_put_set [of t k v n c], of k'] n
    by simp_all
  show "cache_view t' (memory_put t k v n c) k = (if t' \<ge> t + real n then None else Some v)"
    using st(1) by (simp add: cache_view_def)
  show "k' \<noteq> k \<Longrightarrow> cache_view t' (memory_put t k v n c) k' = None
     \<or> cache_view t' (memory_put t k v n c) k' = cache_view t' c k'"
    using st(2) by (auto simp: cache_view_def)
qed

section \<open>The response cache\<close>

text \<open>
  The key of a request. \<open>digest\<close> stands for the SHA-256 hex digest of the canonical JSON of
  messages and options.
\<close>

definition make_key :: "('m \<Rightarrow> 'o \<Rightarrow> string) \<Rightarrow> string \<Rightarrow> string \<Rightarrow> 'm \<Rightarrow> 'o \<Rightarrow> string" where
  "make_key digest provider model msgs options =
     ''cache:'' @ provider @ '':'' @ model @ '':'' @ digest msgs options"

record 'v response_cache =
  rca_backend :: "'v memory_cache"
  rca_hits :: nat
  rca_misses :: nat

text \<open>
  \<open>truthy\<close> is Python's truth value of the stored dict: an empty one is returned but counted
  as a miss.
\<close>

definition response_get ::
  "('v \<Rightarrow> bool) \<Rightarrow> time \<Rightarrow> string \<Rightarrow> 'v response_cache \<Rightarrow> 'v option \<times> 'v response_cache" where
  "response_get truthy now key rc =
     (let (r, b) = cache_get now key (rca_backend rc);
          rc = rc\<lparr>rca_backend := b\<rparr>
      in (r, if (case r of None \<Rightarrow> False | Some v \<Rightarrow> truthy v)
             then rc\<lparr>rca_hits := rca_hits rc + 1\<rparr> else rc\<lparr>rca_misses := rca_misses rc + 1\<rparr>))"

definition response_set ::
  "time \<Rightarrow> string \<Rightarrow> 'v \<Rightarrow> pyval \<Rightarrow> 'v response_cache \<Rightarrow> string + 'v response_cache" where
  "response_set now key v ttl rc =
     (case cache_set now key v ttl (rca_backend rc) of
        Inl e \<Rightarrow> Inl e | Inr b \<Rightarrow> Inr (rc\<lparr>rca_backend := b\<rparr>))"

definition response_delete :: "string \<Rightarrow> 'v response_cache \<Rightarrow> 'v response_cache" where
  "response_delete key rc = rc\<lparr>rca_backend := cache_delete key (rca_backend rc)\<rparr>"

definition response_clear :: "'v response_cache \<Rightarrow> 'v response_cache" where
  "response_clear rc = rc\<lparr>rca_backend := cache_clear (rca_backend rc), rca_hits := 0, rca_misses := 0\<rparr>"

definition hit_rate_percent :: "'v response_cache \<Rightarrow> real" where
  "hit_rate_percent rc =
     (let tot = rca_hits rc + rca_misses rc
      in if tot > 0 then real (rca_hits rc) / real tot * 100 else 0)"

lemma hit_rate_bounds: "0 \<le> hit_rate_percent rc \<and> hit_rate_percent rc \<le> 100"
  by (auto simp: hit_rate_percent_def Let_def divide_le_eq)

lemma append_colon_unique:
  "a @ c # x = b @ c # y \<Longrightarrow> c \<notin> set a \<Longrightarrow> c \<notin> set b \<Longrightarrow> a = b \<and> x = y"
proof (induction a arbitrary: b)
  case Nil
  then show ?case by (cases b) auto
next
  case (Cons u us)
  then show ?case by (cases b) auto
qed

lemma append_colon_unique_right:
  assumes "x @ c # a = y @ c # b" "c \<notin> set a" "c \<notin> set b"
  shows "x = y \<and> a = b"
proof -
  have "rev a @ c # rev x = rev b @ c # rev y"
    using arg_cong [OF assms(1), of rev] by simp
  from append_colon_unique [OF this] assms(2,3) show ?thesis by simp
qed

section \<open>Properties\<close>

text \<open>
  A cached answer is fresh. After any history of reads, writes and deletes, a read at an
  instant not before the reads of the history returns a value only if that value is the last
  one written under exactly that key, was not deleted since and has not expired.
\<close>

theorem cache_read_is_last_write:
  assumes "cache_inv c" "mc_store c = []" "ops_before t ops"
    and "fst (cache_get t k (fold memory_backend.do_op ops c)) = Some v"
  shows "\<exists>e. last_write k None ops = Some (v, e) \<and> t < e"
proof -
  have "cache_view t (fold memory_backend.do_op ops c) k = Some v"
    using assms(4) by (simp add: cache_get_view)
  moreover have "\<And>v. cache_view t c k = Some v \<Longrightarrow> \<exists>e. None = Some (v, e) \<and> t < e"
    using assms(2) by (simp add: cache_view_def)
  ultimately show ?thesis
    using memory_backend.view_fresh [where s = c and acc = None, OF assms(1,3)] by blast
qed

definition empty_cache :: "nat \<Rightarrow> nat memory_cache" where
  "empty_cache n = \<lparr>mc_max_entries = n, mc_store = [], mc_evictions = 0\<rparr>"

lemma empty_cache_simps [simp]:
  "mc_store (empty_cache n) = []" "1 \<le> n \<Longrightarrow> cache_inv (empty_cache n)"
  by (simp_all add: empty_cache_def cache_inv_def)

theorem cache_read_is_last_write_witness:
  "\<exists>e. last_write ''a'' None [CPut 0 ''a'' (1 :: nat) 10, CPut 1 ''a'' 2 10, CGet 2 ''a''] = Some (2, e) \<and> 5 < e"
  by (rule cache_read_is_last_write
        [of "empty_cache 2" 5 "[CPut 0 ''a'' 1 10, CPut 1 ''a'' 2 10, CGet 2 ''a'']" "''a''" 2])
     (simp_all add: empty_cache_def cache_inv_def memory_put_def cache_set_def cache_get_def evict_over_def
       od_set_def od_move_to_end_def)

text \<open>
  The cache is bounded and keeps the newest: every accepted write leaves at most
  \<open>max_entries\<close> entries, and an entry written with a positive time to live can be read back at
  once and until it expires, however full the cache was.
\<close>

theorem cache_write_bounded_and_visible:
  assumes "cache_inv c" "cache_set now k v (PInt n) c = Inr c'" "0 < n"
  shows "length (mc_store c') \<le> mc_max_entries c'
       \<and> cache_view t c' k = (if t \<ge> now + of_int n then None else Some v)"
  using cache_inv_set [OF assms(1,2)] cache_set_store(1) [OF assms]
  by (simp add: cache_inv_def cache_view_def)

theorem cache_write_bounded_and_visible_witness:
  "cache_view 9 (memory_put 0 ''b'' 5 10 (memory_put 0 ''a'' 4 10 (empty_cache 1))) ''b'' = Some 5"
  using cache_write_bounded_and_visible
    [OF _ memory_put_set [of 0 "''b''" 5 10 "memory_put 0 ''a'' 4 10 (empty_cache 1)"], of 9]
    cache_inv_set [OF _ memory_put_set [of 0 "''a''" 4 10 "empty_cache 1"]]
  by simp

text \<open>
  Two requests share a cache entry only when provider, model and digest agree: with
  provider names and digests free of colons (the key store admits only letters, digits,
  dash and underscore in a name, a digest is hexadecimal) the key determines all three, even
  for model names that contain colons.
\<close>

theorem cache_key_injective:
  assumes "make_key digest p m ms os = make_key digest p' m' ms' os'"
    and "CHR '':'' \<notin> set p" "CHR '':'' \<notin> set p'"
    and "CHR '':'' \<notin> set (digest ms os)" "CHR '':'' \<notin> set (digest ms' os')"
  shows "p = p' \<and> m = m' \<and> digest ms os = digest ms' os'"
proof -
  have "p @ CHR '':'' # (m @ CHR '':'' # digest ms os) =
        p' @ CHR '':'' # (m' @ CHR '':'' # digest ms' os')"
    using assms(1) by (simp add: make_key_def)
  from append_colon_unique [OF this assms(2,3)]
  have "p = p'" "m @ CHR '':'' # digest ms os = m' @ CHR '':'' # digest ms' os'" by auto
  with append_colon_unique_right [OF this(2) assms(4,5)] show ?thesis by simp
qed

theorem cache_key_injective_witness:
  "make_key (\<lambda>(m :: nat) (x :: nat). ''0f'') ''ollama'' ''llama3:8b'' 1 2
     = make_key (\<lambda>m x. ''0f'') ''ollama'' ''llama3:8b'' 3 4
   \<and> ''llama3:8b'' = ''llama3:8b''"
  using cache_key_injective
    [of "\<lambda>(m :: nat) (x :: nat). ''0f''" "''ollama''" "''llama3:8b''" 1 2 "''ollama''" "''llama3:8b''" 3 4]
  by (simp add: make_key_def)

end
