(* ===== verification/Budgets.thy ===== *)
theory Budgets
  imports Prelude
begin

text \<open>
  \<open>src/coreai/budgets.py\<close>: limits per subject and per model over fixed windows, the check
  before a request and the accounting after it, alerts, and the YAML loader. The clock reading
  is an argument, alerts are recorded in the order they are sent.
\<close>

section \<open>Limits\<close>

definition WINDOWS :: "(string \<times> int) list" where
  "WINDOWS = [(''minute'', 60), (''hour'', 3600), (''day'', 86400), (''week'', 604800)]"

definition BUDGET_FIELDS :: "string list" where
  "BUDGET_FIELDS = [''max_cost_usd'', ''warn_cost_usd'', ''max_requests'', ''max_tokens'', ''window'']"

record budget_limits =
  bl_max_cost :: "real option"
  bl_warn_cost :: "real option"
  bl_max_requests :: "int option"
  bl_max_tokens :: "int option"
  bl_window :: int

definition default_limits :: budget_limits where
  "default_limits = \<lparr>bl_max_cost = None, bl_warn_cost = None, bl_max_requests = None,
     bl_max_tokens = None, bl_window = 86400\<rparr>"

text \<open>
  \<open>math.isfinite\<close> raises \<open>OverflowError\<close> for an integer that rounds to no double. Otherwise: a finite number
  that is at least zero, an integer that is; booleans are neither.
\<close>

fun float_overflow :: "pyval \<Rightarrow> bool" where
  "float_overflow (PInt n) = (2 ^ 1024 - 2 ^ 970 \<le> \<bar>n\<bar>)"
| "float_overflow _ = False"

fun finite_nonneg :: "pyval \<Rightarrow> real option" where
  "finite_nonneg (PInt n) = (if n < 0 then None else Some (of_int n))"
| "finite_nonneg (PFloat r) = (if r < 0 then None else Some r)"
| "finite_nonneg _ = None"

fun nonneg_int :: "pyval \<Rightarrow> int option" where
  "nonneg_int (PInt n) = (if n < 0 then None else Some n)"
| "nonneg_int _ = None"

definition warn_above_cap :: "budget_limits \<Rightarrow> bool" where
  "warn_above_cap l = (case (bl_warn_cost l, bl_max_cost l) of
     (Some w, Some m) \<Rightarrow> w > m | _ \<Rightarrow> False)"

text \<open>\<open>BudgetLimits.__post_init__\<close> on the values of its fields, in the order of its checks.\<close>

definition bad_optional :: "(pyval \<Rightarrow> 'a option) \<Rightarrow> pyval \<Rightarrow> bool" where
  "bad_optional conv v \<longleftrightarrow> v \<noteq> PNone \<and> conv v = None"

datatype limits_error = InvalidLimit string | LimitOverflow

definition limits_new ::
  "pyval \<Rightarrow> pyval \<Rightarrow> pyval \<Rightarrow> pyval \<Rightarrow> pyval \<Rightarrow> limits_error + budget_limits" where
  "limits_new mc wc mr mt w =
     (if float_overflow mc then Inl LimitOverflow
      else if bad_optional finite_nonneg mc then Inl (InvalidLimit ''max_cost_usd must be a finite number >= 0 or None'')
      else if float_overflow wc then Inl LimitOverflow
      else if bad_optional finite_nonneg wc then Inl (InvalidLimit ''warn_cost_usd must be a finite number >= 0 or None'')
      else if bad_optional nonneg_int mr then Inl (InvalidLimit ''max_requests must be an integer >= 0 or None'')
      else if bad_optional nonneg_int mt then Inl (InvalidLimit ''max_tokens must be an integer >= 0 or None'')
      else case w of
          PInt n \<Rightarrow>
            (if n < 1 then Inl (InvalidLimit ''window_seconds must be a positive integer'')
             else let l = \<lparr>bl_max_cost = finite_nonneg mc, bl_warn_cost = finite_nonneg wc,
                           bl_max_requests = nonneg_int mr, bl_max_tokens = nonneg_int mt, bl_window = n\<rparr>
                  in if warn_above_cap l then Inl (InvalidLimit ''warn_cost_usd must not exceed max_cost_usd'') else Inr l)
        | _ \<Rightarrow> Inl (InvalidLimit ''window_seconds must be a positive integer''))"

definition limits_valid :: "budget_limits \<Rightarrow> bool" where
  "limits_valid l \<longleftrightarrow>
     (\<forall>x\<in>set_option (bl_max_cost l). 0 \<le> x) \<and> (\<forall>x\<in>set_option (bl_warn_cost l). 0 \<le> x)
   \<and> (\<forall>x\<in>set_option (bl_max_requests l). 0 \<le> x) \<and> (\<forall>x\<in>set_option (bl_max_tokens l). 0 \<le> x)
   \<and> 1 \<le> bl_window l \<and> \<not> warn_above_cap l"

lemma finite_nonneg_pos: "finite_nonneg v = Some r \<Longrightarrow> 0 \<le> r"
  by (cases v) (auto split: if_splits)

lemma nonneg_int_pos: "nonneg_int v = Some n \<Longrightarrow> 0 \<le> n"
  by (cases v) (auto split: if_splits)

lemma limits_new_valid: "limits_new mc wc mr mt w = Inr l \<Longrightarrow> limits_valid l"
  unfolding limits_new_def limits_valid_def
  by (cases w) (auto simp: Let_def finite_nonneg_pos nonneg_int_pos split: if_splits)

section \<open>The manager\<close>

record usage =
  bu_window_start :: time
  bu_cost :: real
  bu_requests :: int
  bu_tokens :: int
  bu_alerted :: "string list"

datatype alert_extra = WarnCost real | LimitCap string real

record budget_alert =
  ba_event :: string
  ba_is_model :: bool
  ba_name :: string
  ba_used :: "real \<times> int \<times> int"
  ba_window_start :: time
  ba_extra :: alert_extra

record budget_manager =
  bm_default :: "budget_limits option"
  bm_subjects :: "(string, budget_limits) odict"
  bm_models :: "(string, budget_limits) odict"
  bm_max_subjects :: nat
  bm_usage :: "(string, usage) odict"
  bm_rejections :: nat
  bm_has_on_alert :: bool
  bm_alerts :: "budget_alert list"

record budget_exceeded =
  be_limit :: string
  be_used :: real
  be_cap :: real
  be_retry_after :: real

text \<open>\<open>"\x00model:" + model\<close>, and \<open>key.split(":", 1)[1]\<close>.\<close>

definition model_prefix :: string where
  "model_prefix = char_of (0 :: nat) # ''model:''"

definition model_key :: "string \<Rightarrow> string" where
  "model_key m = model_prefix @ m"

definition is_model_key :: "string \<Rightarrow> bool" where
  "is_model_key k \<longleftrightarrow> take (length model_prefix) k = model_prefix"

definition alert_name :: "string \<Rightarrow> string" where
  "alert_name k = (if is_model_key k then drop (length model_prefix) k else k)"

definition manager_new ::
  "budget_limits option \<Rightarrow> (string, budget_limits) odict \<Rightarrow> (string, budget_limits) odict \<Rightarrow> pyval
     \<Rightarrow> string + budget_manager" where
  "manager_new d ss ms n =
     (case n of
        PInt k \<Rightarrow>
          (if k < 1 then Inl ''max_subjects must be a positive integer''
           else Inr \<lparr>bm_default = d, bm_subjects = ss, bm_models = ms, bm_max_subjects = nat k,
                  bm_usage = [], bm_rejections = 0, bm_has_on_alert = False, bm_alerts = []\<rparr>)
      | _ \<Rightarrow> Inl ''max_subjects must be a positive integer'')"

definition send_alert :: "string \<Rightarrow> string \<Rightarrow> alert_extra \<Rightarrow> budget_manager \<Rightarrow> budget_manager" where
  "send_alert key kind extra bm =
     (case od_get (bm_usage bm) key of
        None \<Rightarrow> bm
      | Some u \<Rightarrow>
          (if \<not> bm_has_on_alert bm \<or> kind \<in> set (bu_alerted u) then bm
           else bm\<lparr>bm_usage := od_map_at key (\<lambda>u. u\<lparr>bu_alerted := kind # bu_alerted u\<rparr>) (bm_usage bm),
                   bm_alerts := bm_alerts bm @
                     [\<lparr>ba_event = ''budget.'' @ kind, ba_is_model = is_model_key key,
                       ba_name = alert_name key, ba_used = (bu_cost u, bu_requests u, bu_tokens u),
                       ba_window_start = bu_window_start u, ba_extra = extra\<rparr>]\<rparr>))"

definition warn_check :: "string \<Rightarrow> budget_limits \<Rightarrow> budget_manager \<Rightarrow> budget_manager" where
  "warn_check key l bm =
     (case (bl_warn_cost l, od_get (bm_usage bm) key) of
        (Some w, Some u) \<Rightarrow> if bu_cost u \<ge> w then send_alert key ''warning'' (WarnCost w) bm else bm
      | _ \<Rightarrow> bm)"

definition limits_for :: "string \<Rightarrow> budget_manager \<Rightarrow> budget_limits option" where
  "limits_for s bm = (case od_get (bm_subjects bm) s of Some l \<Rightarrow> Some l | None \<Rightarrow> bm_default bm)"

definition set_limits :: "string \<Rightarrow> budget_limits \<Rightarrow> budget_manager \<Rightarrow> budget_manager" where
  "set_limits s l bm =
     bm\<lparr>bm_subjects := od_set s l (bm_subjects bm), bm_usage := od_pop s (bm_usage bm)\<rparr>"

definition remove_limits :: "string \<Rightarrow> budget_manager \<Rightarrow> bool \<times> budget_manager" where
  "remove_limits s bm =
     (od_has (bm_subjects bm) s,
      bm\<lparr>bm_usage := od_pop s (bm_usage bm), bm_subjects := od_pop s (bm_subjects bm)\<rparr>)"

text \<open>\<open>now - (now % window)\<close>: the start of the window that contains \<open>now\<close>.\<close>

definition window_start :: "int \<Rightarrow> time \<Rightarrow> time" where
  "window_start w now = of_int w * of_int \<lfloor>now / of_int w\<rfloor>"

definition fresh_usage :: "time \<Rightarrow> usage" where
  "fresh_usage start =
     \<lparr>bu_window_start = start, bu_cost = 0, bu_requests = 0, bu_tokens = 0, bu_alerted = []\<rparr>"

definition budget_current ::
  "time \<Rightarrow> string \<Rightarrow> budget_limits \<Rightarrow> budget_manager \<Rightarrow> usage \<times> budget_manager" where
  "budget_current now key l bm =
     (let start = window_start (bl_window l) now;
          (u, m) = (case od_get (bm_usage bm) key of
              None \<Rightarrow> (fresh_usage start, od_set key (fresh_usage start) (bm_usage bm))
            | Some u \<Rightarrow>
                (if bu_window_start u \<noteq> start
                 then (fresh_usage start, od_set key (fresh_usage start) (bm_usage bm))
                 else (u, bm_usage bm)))
      in (u, bm\<lparr>bm_usage := od_evict (bm_max_subjects bm) (od_move_to_end key m)\<rparr>))"

text \<open>One line of the table of \<open>_check\<close>: name, used, cap, what the request would add.\<close>

definition over_limit :: "real \<Rightarrow> real \<Rightarrow> real \<Rightarrow> bool" where
  "over_limit used cap extra \<longleftrightarrow> used + extra > cap \<or> (extra = 0 \<and> used \<ge> cap)"

fun first_exceeded :: "(string \<times> real \<times> real option \<times> real) list \<Rightarrow> (string \<times> real \<times> real) option" where
  "first_exceeded [] = None"
| "first_exceeded ((name, used, cap, extra) # rest) =
     (case cap of
        None \<Rightarrow> first_exceeded rest
      | Some c \<Rightarrow> if over_limit used c extra then Some (name, used, c) else first_exceeded rest)"

definition budget_checks :: "usage \<Rightarrow> budget_limits \<Rightarrow> real \<Rightarrow> (string \<times> real \<times> real option \<times> real) list" where
  "budget_checks u l est =
     [(''requests'', of_int (bu_requests u), map_option of_int (bl_max_requests l), 1),
      (''tokens'', of_int (bu_tokens u), map_option of_int (bl_max_tokens l), 0),
      (''cost_usd'', bu_cost u, bl_max_cost l, est)]"

definition check_limits ::
  "time \<Rightarrow> string \<Rightarrow> budget_limits \<Rightarrow> real \<Rightarrow> budget_manager \<Rightarrow> (budget_exceeded + unit) \<times> budget_manager" where
  "check_limits now key l est bm =
     (let (u, bm) = budget_current now key l bm;
          retry = max 1 (bu_window_start u + of_int (bl_window l) - now)
      in case first_exceeded (budget_checks u l est) of
           None \<Rightarrow> (Inr (), bm)
         | Some (name, used, cap) \<Rightarrow>
             (Inl \<lparr>be_limit = name, be_used = used, be_cap = cap, be_retry_after = retry\<rparr>,
              send_alert key ''exceeded'' (LimitCap name cap)
                (bm\<lparr>bm_rejections := bm_rejections bm + 1\<rparr>)))"

definition budget_check ::
  "time \<Rightarrow> string \<Rightarrow> real \<Rightarrow> budget_manager \<Rightarrow> (budget_exceeded + unit) \<times> budget_manager" where
  "budget_check now s est bm =
     (case limits_for s bm of None \<Rightarrow> (Inr (), bm) | Some l \<Rightarrow> check_limits now s l est bm)"

definition check_model ::
  "time \<Rightarrow> string \<Rightarrow> budget_manager \<Rightarrow> (budget_exceeded + unit) \<times> budget_manager" where
  "check_model now m bm =
     (case od_get (bm_models bm) m of
        None \<Rightarrow> (Inr (), bm) | Some l \<Rightarrow> check_limits now (model_key m) l 0 bm)"

text \<open>Adding to the usage of a key: what \<open>record\<close>, \<open>add_usage\<close> and \<open>record_model\<close> share.\<close>

definition book ::
  "time \<Rightarrow> string \<Rightarrow> budget_limits \<Rightarrow> int \<Rightarrow> real \<Rightarrow> int \<Rightarrow> budget_manager \<Rightarrow> budget_manager" where
  "book now key l n cost tokens bm =
     (let (u, bm) = budget_current now key l bm
      in warn_check key l
           (bm\<lparr>bm_usage := od_map_at key (\<lambda>u. u\<lparr>bu_requests := bu_requests u + n,
              bu_cost := bu_cost u + max 0 cost, bu_tokens := bu_tokens u + max 0 tokens\<rparr>)
              (bm_usage bm)\<rparr>))"

definition budget_record :: "time \<Rightarrow> string \<Rightarrow> real \<Rightarrow> int \<Rightarrow> budget_manager \<Rightarrow> budget_manager" where
  "budget_record now s cost tokens bm =
     (case limits_for s bm of None \<Rightarrow> bm | Some l \<Rightarrow> book now s l 1 cost tokens bm)"

definition add_usage :: "time \<Rightarrow> string \<Rightarrow> real \<Rightarrow> int \<Rightarrow> budget_manager \<Rightarrow> budget_manager" where
  "add_usage now s cost tokens bm =
     (case limits_for s bm of None \<Rightarrow> bm | Some l \<Rightarrow> book now s l 0 cost tokens bm)"

definition record_model :: "time \<Rightarrow> string \<Rightarrow> real \<Rightarrow> int \<Rightarrow> int \<Rightarrow> budget_manager \<Rightarrow> budget_manager" where
  "record_model now m cost tokens n bm =
     (case od_get (bm_models bm) m of None \<Rightarrow> bm | Some l \<Rightarrow> book now (model_key m) l n cost tokens bm)"

record budget_status =
  bs_window_seconds :: int
  bs_resets_in :: real
  bs_used :: "real \<times> int \<times> int"
  bs_limits :: "real option \<times> int option \<times> int option"
  bs_warning :: bool

definition budget_status_of ::
  "time \<Rightarrow> string \<Rightarrow> budget_manager \<Rightarrow> budget_status option \<times> budget_manager" where
  "budget_status_of now s bm =
     (case limits_for s bm of
        None \<Rightarrow> (None, bm)
      | Some l \<Rightarrow>
          (let (u, bm) = budget_current now s l bm
           in (Some \<lparr>bs_window_seconds = bl_window l,
                 bs_resets_in = bu_window_start u + of_int (bl_window l) - now,
                 bs_used = (bu_cost u, bu_requests u, bu_tokens u),
                 bs_limits = (bl_max_cost l, bl_max_requests l, bl_max_tokens l),
                 bs_warning = (case bl_warn_cost l of None \<Rightarrow> False | Some w \<Rightarrow> bu_cost u \<ge> w)\<rparr>, bm)))"

section \<open>Loading\<close>

text \<open>A name between apostrophes, as the messages print it.\<close>

definition quoted :: "string \<Rightarrow> string" where
  "quoted s = [CHR 0x27] @ s @ [CHR 0x27]"

definition WINDOW_NAMES :: string where
  "WINDOW_NAMES = ''['' @ quoted ''day'' @ '', '' @ quoted ''hour'' @ '', '' @ quoted ''minute''
     @ '', '' @ quoted ''week'' @ '']''"

definition unknown_keys :: "string \<Rightarrow> string list \<Rightarrow> (string \<times> pyval) list \<Rightarrow> string list" where
  "unknown_keys pre known d =
     map (\<lambda>(k, v). pre @ quoted k) (filter (\<lambda>(k, v). k \<notin> set known) d)"

definition parse_field ::
  "(pyval \<Rightarrow> 'a option) \<Rightarrow> string \<Rightarrow> string \<Rightarrow> (string \<times> pyval) list \<Rightarrow> string list \<times> 'a option" where
  "parse_field conv key msg raw =
     (case map_of raw key of
        None \<Rightarrow> ([], None)
      | Some v \<Rightarrow> (case conv v of None \<Rightarrow> ([msg], None) | Some x \<Rightarrow> ([], Some x)))"

fun window_of :: "pyval \<Rightarrow> int option" where
  "window_of (PStr s) = map_of WINDOWS s"
| "window_of (PInt n) = (if n > 0 then Some n else None)"
| "window_of _ = None"

definition or_base :: "'a option \<Rightarrow> 'a option \<Rightarrow> 'a option" where
  "or_base new base = (case new of Some x \<Rightarrow> Some x | None \<Rightarrow> base)"

text \<open>\<open>None\<close> is the \<open>OverflowError\<close> of the finiteness test, which ends the whole load.\<close>

definition huge_cost :: "pyval \<Rightarrow> bool" where
  "huge_cost raw \<longleftrightarrow>
     (case raw of
        PDict d \<Rightarrow>
          (case map_of d ''max_cost_usd'' of None \<Rightarrow> False | Some v \<Rightarrow> float_overflow v)
          \<or> (case map_of d ''warn_cost_usd'' of None \<Rightarrow> False | Some v \<Rightarrow> float_overflow v)
      | _ \<Rightarrow> False)"

definition parse_limits :: "pyval \<Rightarrow> string \<Rightarrow> budget_limits \<Rightarrow> (string list \<times> budget_limits) option" where
  "parse_limits raw loc base =
     (case raw of
        PDict d \<Rightarrow> if huge_cost raw then None else Some
          (let e0 = unknown_keys (loc @ '': unknown field '') BUDGET_FIELDS d;
               (e1, mc) = parse_field finite_nonneg ''max_cost_usd''
                  (loc @ ''.max_cost_usd: must be a finite number >= 0'') d;
               (e2, wc) = parse_field finite_nonneg ''warn_cost_usd''
                  (loc @ ''.warn_cost_usd: must be a finite number >= 0'') d;
               (e3, mr) = parse_field nonneg_int ''max_requests''
                  (loc @ ''.max_requests: must be an integer >= 0'') d;
               (e4, mt) = parse_field nonneg_int ''max_tokens''
                  (loc @ ''.max_tokens: must be an integer >= 0'') d;
               (e5, w) = parse_field window_of ''window''
                  (loc @ ''.window: use one of '' @ WINDOW_NAMES @ '' or seconds > 0'') d;
               r = \<lparr>bl_max_cost = or_base mc (bl_max_cost base),
                    bl_warn_cost = or_base wc (bl_warn_cost base),
                    bl_max_requests = or_base mr (bl_max_requests base),
                    bl_max_tokens = or_base mt (bl_max_tokens base),
                    bl_window = (case w of Some n \<Rightarrow> n | None \<Rightarrow> bl_window base)\<rparr>
           in if warn_above_cap r
              then (e0 @ e1 @ e2 @ e3 @ e4 @ e5 @ [loc @ '': warn_cost_usd is above max_cost_usd''],
                    r\<lparr>bl_warn_cost := None\<rparr>)
              else (e0 @ e1 @ e2 @ e3 @ e4 @ e5, r))
      | _ \<Rightarrow> Some ([loc @ '': must be a mapping''], base))"

fun parse_section ::
  "string \<Rightarrow> budget_limits \<Rightarrow> (string \<times> pyval) list \<Rightarrow> string list \<times> (string, budget_limits) odict \<Rightarrow>
     (string list \<times> (string, budget_limits) odict) option" where
  "parse_section pre base [] (es, out) = Some (es, out)"
| "parse_section pre base ((name, raw) # rest) (es, out) =
     (case parse_limits raw (pre @ name) base of
        None \<Rightarrow> None
      | Some (e, l) \<Rightarrow> parse_section pre base rest (es @ e, od_set name l out))"

text \<open>\<open>data.get(key) or {}\<close>, then the mapping check.\<close>

definition mapping_or_empty :: "string \<Rightarrow> (string \<times> pyval) list \<Rightarrow> string list \<times> (string \<times> pyval) list" where
  "mapping_or_empty key d =
     (case map_of d key of
        None \<Rightarrow> ([], [])
      | Some v \<Rightarrow> (if falsy v then ([], []) else
          case v of PDict m \<Rightarrow> ([], m) | _ \<Rightarrow> ([key @ '': must be a mapping''], [])))"

datatype load_error = ConfigErrors "string list" | LoadOverflow

definition parse_default :: "(string \<times> pyval) list \<Rightarrow> (string list \<times> budget_limits option) option" where
  "parse_default d =
     (case map_of d ''default'' of
        None \<Rightarrow> Some ([], None)
      | Some raw \<Rightarrow> map_option (map_prod id Some) (parse_limits raw ''default'' default_limits))"

definition load_budgets :: "pyval \<Rightarrow> pyval \<Rightarrow> load_error + budget_manager" where
  "load_budgets doc max_subjects =
     (case (if falsy doc then PDict [] else doc) of
        PDict d \<Rightarrow>
          (let e0 = unknown_keys ''unknown top-level key '' [''default'', ''subjects'', ''models''] d
           in case parse_default d of
                None \<Rightarrow> Inl LoadOverflow
              | Some (e1, dflt) \<Rightarrow>
                  (let (e2, raw_subjects) = mapping_or_empty ''subjects'' d;
                       base = (case dflt of Some l \<Rightarrow> l | None \<Rightarrow> default_limits)
                   in case parse_section ''subjects.'' base raw_subjects ([], []) of
                        None \<Rightarrow> Inl LoadOverflow
                      | Some (e3, subjects) \<Rightarrow>
                          (let (e4, raw_models) = mapping_or_empty ''models'' d
                           in case parse_section ''models.'' default_limits raw_models ([], []) of
                                None \<Rightarrow> Inl LoadOverflow
                              | Some (e5, models) \<Rightarrow>
                                  (let es = e0 @ e1 @ e2 @ e3 @ e4 @ e5
                                   in if es \<noteq> [] then Inl (ConfigErrors es)
                                      else case manager_new dflt subjects models max_subjects of
                                             Inl e \<Rightarrow> Inl (ConfigErrors [e]) | Inr m \<Rightarrow> Inr m))))
      | _ \<Rightarrow> Inl (ConfigErrors [''top level must be a mapping'']))"

text \<open>All the limits a document holds, as they stand in it.\<close>

definition raw_limits :: "pyval \<Rightarrow> pyval list" where
  "raw_limits doc =
     (case doc of
        PDict d \<Rightarrow>
          (case map_of d ''default'' of None \<Rightarrow> [] | Some raw \<Rightarrow> [raw])
          @ map snd (snd (mapping_or_empty ''subjects'' d)) @ map snd (snd (mapping_or_empty ''models'' d))
      | _ \<Rightarrow> [])"

section \<open>Windows\<close>

lemma window_start_bounds:
  assumes "1 \<le> w"
  shows "window_start w t \<le> t" "t < window_start w t + of_int w"
proof -
  have w: "(0 :: real) < of_int w" using assms by simp
  have "of_int w * of_int \<lfloor>t / of_int w\<rfloor> \<le> of_int w * (t / of_int w)"
    by (rule mult_left_mono) (use w in simp_all)
  then show "window_start w t \<le> t" using w by (simp add: window_start_def)
  have "of_int w * (t / of_int w) < of_int w * (of_int \<lfloor>t / of_int w\<rfloor> + 1)"
    by (rule mult_strict_left_mono) (use w in simp_all)
  then show "t < window_start w t + of_int w" using w by (simp add: window_start_def distrib_left)
qed

lemma window_start_mono: "1 \<le> w \<Longrightarrow> t \<le> t' \<Longrightarrow> window_start w t \<le> window_start w t'"
  by (simp add: window_start_def mult_left_mono floor_mono divide_right_mono)

lemma window_advances:
  assumes "1 \<le> w" "window_start w t + of_int w \<le> t'"
  shows "window_start w t' \<noteq> window_start w t"
  using window_start_bounds(2) [OF assms(1), of t'] assms(2) by linarith

section \<open>Tracking\<close>

text \<open>
  The accounting is exact as long as no more keys are in use than \<open>max_subjects\<close>: then the
  eviction never drops one. \<open>S\<close> is the set of keys in use.
\<close>

definition tracked :: "string set \<Rightarrow> budget_manager \<Rightarrow> bool" where
  "tracked S bm \<longleftrightarrow> od_wf (bm_usage bm) \<and> set (od_keys (bm_usage bm)) \<subseteq> S
     \<and> finite S \<and> card S \<le> bm_max_subjects bm"

text \<open>What a key has used in the window that starts at \<open>W\<close>: requests, cost, tokens.\<close>

definition used_in :: "time \<Rightarrow> budget_manager \<Rightarrow> string \<Rightarrow> int \<times> real \<times> int" where
  "used_in W bm k =
     (case od_get (bm_usage bm) k of
        None \<Rightarrow> (0, 0, 0)
      | Some u \<Rightarrow> if bu_window_start u = W then (bu_requests u, bu_cost u, bu_tokens u) else (0, 0, 0))"

definition same_limits :: "budget_manager \<Rightarrow> budget_manager \<Rightarrow> bool" where
  "same_limits a b \<longleftrightarrow> bm_subjects a = bm_subjects b \<and> bm_default a = bm_default b
     \<and> bm_models a = bm_models b \<and> bm_max_subjects a = bm_max_subjects b"

lemma same_limits_refl [simp]: "same_limits a a"
  by (simp add: same_limits_def)

lemma same_limits_trans: "same_limits a b \<Longrightarrow> same_limits b c \<Longrightarrow> same_limits a c"
  by (simp add: same_limits_def)

lemma limits_for_same: "same_limits a b \<Longrightarrow> limits_for s a = limits_for s b"
  by (auto simp: same_limits_def limits_for_def split: option.splits)

lemma length_le_card: "od_wf d \<Longrightarrow> set (od_keys d) \<subseteq> S \<Longrightarrow> finite S \<Longrightarrow> length d \<le> card S"
  using card_mono [of S "set (od_keys d)"] distinct_card [of "od_keys d"] by simp

definition current_map :: "time \<Rightarrow> string \<Rightarrow> (string, usage) odict \<Rightarrow> (string, usage) odict" where
  "current_map start key m =
     (case od_get m key of
        None \<Rightarrow> od_set key (fresh_usage start) m
      | Some u \<Rightarrow> if bu_window_start u \<noteq> start then od_set key (fresh_usage start) m else m)"

lemma budget_current_facts:
  assumes tr: "tracked S bm" and key: "key \<in> S"
    and cur: "budget_current now key l bm = (u, bm')"
  shows "tracked S bm'" "same_limits bm' bm" "bm_rejections bm' = bm_rejections bm"
    "od_get (bm_usage bm') key = Some u" "bu_window_start u = window_start (bl_window l) now"
    "(bu_requests u, bu_cost u, bu_tokens u) = used_in (window_start (bl_window l) now) bm key"
    "k \<noteq> key \<Longrightarrow> od_get (bm_usage bm') k = od_get (bm_usage bm) k"
proof -
  define start where "start = window_start (bl_window l) now"
  define m where "m = current_map start key (bm_usage bm)"
  define m' where "m' = od_move_to_end key m"
  have wf: "od_wf m" "set (od_keys m) \<subseteq> S"
    using tr key by (simp_all add: m_def current_map_def tracked_def split: option.splits)
  have wf': "od_wf m'" "set (od_keys m') \<subseteq> S"
    using wf by (simp_all add: m'_def)
  have len: "length m' \<le> bm_max_subjects bm"
    using length_le_card [OF wf'] tr by (simp add: tracked_def)
  have bm': "bm' = bm\<lparr>bm_usage := m'\<rparr>"
    using cur len by (auto simp: budget_current_def Let_def m'_def m_def current_map_def start_def
        split: option.splits if_splits)
  show "tracked S bm'" using tr wf' by (simp add: bm' tracked_def)
  show "same_limits bm' bm" by (simp add: bm' same_limits_def)
  show "bm_rejections bm' = bm_rejections bm" by (simp add: bm')
  have u: "u = (case od_get (bm_usage bm) key of None \<Rightarrow> fresh_usage start
      | Some u \<Rightarrow> if bu_window_start u \<noteq> start then fresh_usage start else u)"
    using cur by (auto simp: budget_current_def Let_def start_def split: option.splits if_splits)
  show "od_get (bm_usage bm') key = Some u"
    by (auto simp: bm' m'_def m_def u current_map_def split: option.splits)
  show "bu_window_start u = window_start (bl_window l) now"
    by (auto simp: u start_def [symmetric] fresh_usage_def split: option.splits)
  show "(bu_requests u, bu_cost u, bu_tokens u) = used_in (window_start (bl_window l) now) bm key"
    by (auto simp: u start_def [symmetric] fresh_usage_def used_in_def split: option.splits)
  show "k \<noteq> key \<Longrightarrow> od_get (bm_usage bm') k = od_get (bm_usage bm) k"
    by (auto simp: bm' m'_def m_def current_map_def split: option.splits)
qed

lemma send_alert_keeps [simp]:
  "tracked S (send_alert k kind x bm) = tracked S bm"
  "same_limits (send_alert k kind x bm) bm'' = same_limits bm bm''"
  "used_in W (send_alert k kind x bm) s = used_in W bm s"
proof -
  show "tracked S (send_alert k kind x bm) = tracked S bm"
    by (simp add: send_alert_def tracked_def split: option.split)
  show "same_limits (send_alert k kind x bm) bm'' = same_limits bm bm''"
    by (simp add: send_alert_def same_limits_def split: option.split)
  show "used_in W (send_alert k kind x bm) s = used_in W bm s"
    by (cases "od_get (bm_usage bm) k") (simp_all add: send_alert_def used_in_def)
qed

lemma warn_check_keeps [simp]:
  "tracked S (warn_check k l bm) = tracked S bm"
  "same_limits (warn_check k l bm) bm'' = same_limits bm bm''"
  "used_in W (warn_check k l bm) s = used_in W bm s"
  by (auto simp: warn_check_def split: option.splits)

lemma check_limits_facts:
  assumes "tracked S bm" "key \<in> S" "check_limits now key l est bm = (r, bm')"
  shows "tracked S bm'" "same_limits bm' bm"
    "W = window_start (bl_window l) now \<or> k \<noteq> key \<Longrightarrow> used_in W bm' k = used_in W bm k"
    "r = Inr () \<longleftrightarrow> first_exceeded (budget_checks (fst (budget_current now key l bm)) l est) = None"
proof -
  obtain u b where c: "budget_current now key l bm = (u, b)" by (cases "budget_current now key l bm")
  note f = budget_current_facts [OF assms(1,2) c]
  have tr: "tracked S (b\<lparr>bm_rejections := n\<rparr>) = tracked S b"
    and sl: "same_limits (b\<lparr>bm_rejections := n\<rparr>) bm = same_limits b bm"
    and ui: "used_in W (b\<lparr>bm_rejections := n\<rparr>) k = used_in W b k" for n
    by (simp_all add: tracked_def same_limits_def used_in_def)
  show "tracked S bm'" "same_limits bm' bm"
    using assms(3) c f(1,2) by (auto simp: check_limits_def Let_def tr sl split: option.splits)
  have "used_in W b k = used_in W bm k" if "W = window_start (bl_window l) now \<or> k \<noteq> key"
  proof (cases "k = key")
    case True
    then show ?thesis using that f(4,5,6) by (simp add: used_in_def)
  next
    case False
    then show ?thesis using f(7) by (simp add: used_in_def)
  qed
  moreover have "used_in W bm' k = used_in W b k"
    using assms(3) c by (auto simp: check_limits_def Let_def ui split: option.splits)
  ultimately show "W = window_start (bl_window l) now \<or> k \<noteq> key \<Longrightarrow> used_in W bm' k = used_in W bm k"
    by simp
  show "r = Inr () \<longleftrightarrow> first_exceeded (budget_checks (fst (budget_current now key l bm)) l est) = None"
    using assms(3) c by (auto simp: check_limits_def Let_def split: option.splits)
qed

lemma book_facts:
  assumes "tracked S bm" "key \<in> S"
  shows "tracked S (book now key l n cost tokens bm)" "same_limits (book now key l n cost tokens bm) bm"
    "used_in W (book now key l n cost tokens bm) k =
       (if k = key then
          if W = window_start (bl_window l) now
          then case used_in W bm k of (r, c, t) \<Rightarrow> (r + n, c + max 0 cost, t + max 0 tokens)
          else (0, 0, 0)
        else used_in W bm k)"
proof -
  obtain u b where c: "budget_current now key l bm = (u, b)" by (cases "budget_current now key l bm")
  note f = budget_current_facts [OF assms c]
  have tr: "tracked S (b\<lparr>bm_usage := od_map_at key g (bm_usage b)\<rparr>) = tracked S b"
    and sl: "same_limits (b\<lparr>bm_usage := od_map_at key g (bm_usage b)\<rparr>) bm = same_limits b bm" for g
    by (simp_all add: tracked_def same_limits_def)
  show "tracked S (book now key l n cost tokens bm)"
    using c f(1) by (simp add: book_def tr)
  show "same_limits (book now key l n cost tokens bm) bm"
    using c f(2) by (simp add: book_def sl)
  show "used_in W (book now key l n cost tokens bm) k =
       (if k = key then
          if W = window_start (bl_window l) now
          then case used_in W bm k of (r, c, t) \<Rightarrow> (r + n, c + max 0 cost, t + max 0 tokens)
          else (0, 0, 0)
        else used_in W bm k)"
  proof (cases "k = key")
    case True
    define b' where "b' = b\<lparr>bm_usage := od_map_at key (\<lambda>u. u\<lparr>bu_requests := bu_requests u + n,
              bu_cost := bu_cost u + max 0 cost, bu_tokens := bu_tokens u + max 0 tokens\<rparr>) (bm_usage b)\<rparr>"
    have "book now key l n cost tokens bm = warn_check key l b'" using c by (simp add: book_def b'_def)
    moreover have "used_in W b' key = (if W = window_start (bl_window l) now
        then (bu_requests u + n, bu_cost u + max 0 cost, bu_tokens u + max 0 tokens) else (0, 0, 0))"
      using f(4,5) by (simp add: b'_def used_in_def)
    ultimately show ?thesis using True f(6) [symmetric] by simp
  next
    case False
    define b' where "b' = b\<lparr>bm_usage := od_map_at key (\<lambda>u. u\<lparr>bu_requests := bu_requests u + n,
              bu_cost := bu_cost u + max 0 cost, bu_tokens := bu_tokens u + max 0 tokens\<rparr>) (bm_usage b)\<rparr>"
    have "book now key l n cost tokens bm = warn_check key l b'" using c by (simp add: book_def b'_def)
    moreover have "used_in W b' k = used_in W bm k"
      using f(7) False by (simp add: b'_def used_in_def)
    ultimately show ?thesis using False by simp
  qed
qed

section \<open>Serving requests\<close>

text \<open>
  A request as the API serves it: checked, and booked when it was admitted. \<open>serve_all\<close> runs a
  list of requests (clock, subject, cost, tokens) and lists the admitted ones.
\<close>

definition serve :: "time \<Rightarrow> string \<Rightarrow> real \<Rightarrow> int \<Rightarrow> budget_manager \<Rightarrow> bool \<times> budget_manager" where
  "serve now s cost tokens bm =
     (case budget_check now s 0 bm of
        (Inl _, bm) \<Rightarrow> (False, bm)
      | (Inr _, bm) \<Rightarrow> (True, budget_record now s cost tokens bm))"

fun serve_all ::
  "(time \<times> string \<times> real \<times> int) list \<Rightarrow> budget_manager \<Rightarrow> (string \<times> real \<times> int) list \<times> budget_manager" where
  "serve_all [] bm = ([], bm)"
| "serve_all ((now, s, cost, tokens) # rest) bm =
     (case serve now s cost tokens bm of (ok, bm) \<Rightarrow>
        case serve_all rest bm of (ads, bm) \<Rightarrow> ((if ok then [(s, cost, tokens)] else []) @ ads, bm))"

definition admitted_count :: "string \<Rightarrow> (string \<times> real \<times> int) list \<Rightarrow> int" where
  "admitted_count s xs = int (length (filter (\<lambda>(s', _). s' = s) xs))"

definition admitted_cost :: "string \<Rightarrow> (string \<times> real \<times> int) list \<Rightarrow> real" where
  "admitted_cost s xs = sum_list (map (\<lambda>(s', c, k). max 0 c) (filter (\<lambda>(s', _). s' = s) xs))"

definition admitted_tokens :: "string \<Rightarrow> (string \<times> real \<times> int) list \<Rightarrow> int" where
  "admitted_tokens s xs = sum_list (map (\<lambda>(s', c, k). max 0 k) (filter (\<lambda>(s', _). s' = s) xs))"

lemma admitted_simps [simp]:
  "admitted_count s [] = 0" "admitted_cost s [] = 0" "admitted_tokens s [] = 0"
  "admitted_count s ((s', c, k) # xs) = (if s' = s then 1 else 0) + admitted_count s xs"
  "admitted_cost s ((s', c, k) # xs) = (if s' = s then max 0 c else 0) + admitted_cost s xs"
  "admitted_tokens s ((s', c, k) # xs) = (if s' = s then max 0 k else 0) + admitted_tokens s xs"
  by (simp_all add: admitted_count_def admitted_cost_def admitted_tokens_def)

text \<open>Room for one more request after \<open>n\<close> of them with this cost and these tokens.\<close>

definition room_for_one :: "budget_limits \<Rightarrow> int \<times> real \<times> int \<Rightarrow> bool" where
  "room_for_one l = (\<lambda>(n, c, k).
     (case bl_max_requests l of None \<Rightarrow> True | Some cap \<Rightarrow> n + 1 \<le> cap)
     \<and> (case bl_max_tokens l of None \<Rightarrow> True | Some cap \<Rightarrow> k < cap)
     \<and> (case bl_max_cost l of None \<Rightarrow> True | Some cap \<Rightarrow> c < cap))"

lemma admitted_iff:
  "first_exceeded (budget_checks u l 0) = None \<longleftrightarrow> room_for_one l (bu_requests u, bu_cost u, bu_tokens u)"
  by (auto simp: room_for_one_def budget_checks_def over_limit_def of_int_add [symmetric] simp del: of_int_add
      split: option.splits if_splits)

lemma budget_check_facts:
  assumes tr: "tracked S bm" and s': "s' \<in> S" and c: "budget_check now s' 0 bm = (r, b)"
    and W: "s' = s \<Longrightarrow> limits_for s bm = Some l \<and> window_start (bl_window l) now = W"
  shows "tracked S b" "same_limits b bm" "used_in W b s = used_in W bm s"
    "s' = s \<Longrightarrow> r = Inr () \<longleftrightarrow> room_for_one l (used_in W bm s)"
proof -
  have "tracked S b \<and> same_limits b bm \<and> used_in W b s = used_in W bm s"
  proof (cases "limits_for s' bm")
    case None
    with c tr show ?thesis by (simp add: budget_check_def)
  next
    case (Some l')
    with c have "check_limits now s' l' 0 bm = (r, b)" by (simp add: budget_check_def)
    note f = check_limits_facts [OF tr s' this]
    have "W = window_start (bl_window l') now \<or> s \<noteq> s'" using W Some by auto
    from f(1,2) f(3) [OF this] show ?thesis by simp
  qed
  then show "tracked S b" "same_limits b bm" "used_in W b s = used_in W bm s" by simp_all
  show "r = Inr () \<longleftrightarrow> room_for_one l (used_in W bm s)" if "s' = s"
  proof -
    have l: "limits_for s bm = Some l" "window_start (bl_window l) now = W" using W that by simp_all
    with c that have cl: "check_limits now s l 0 bm = (r, b)" by (simp add: budget_check_def)
    have sS: "s \<in> S" using s' that by simp
    obtain u b' where u: "budget_current now s l bm = (u, b')" by (cases "budget_current now s l bm")
    have "used_in W bm s = (bu_requests u, bu_cost u, bu_tokens u)"
      using budget_current_facts(6) [OF tr sS u] l(2) by simp
    then show ?thesis using check_limits_facts(4) [OF tr sS cl] u by (simp add: admitted_iff)
  qed
qed

lemma budget_record_facts:
  assumes "tracked S bm" "s' \<in> S"
    and W: "s' = s \<Longrightarrow> limits_for s bm = Some l \<and> window_start (bl_window l) now = W"
  shows "tracked S (budget_record now s' cost tokens bm)"
    "same_limits (budget_record now s' cost tokens bm) bm"
    "used_in W (budget_record now s' cost tokens bm) s =
       (if s' = s then case used_in W bm s of (r, c, t) \<Rightarrow> (r + 1, c + max 0 cost, t + max 0 tokens)
        else used_in W bm s)"
proof -
  note b = book_facts [OF assms(1,2)]
  show "tracked S (budget_record now s' cost tokens bm)"
    "same_limits (budget_record now s' cost tokens bm) bm"
    using b(1,2) assms(1) by (simp_all add: budget_record_def split: option.split)
  show "used_in W (budget_record now s' cost tokens bm) s =
       (if s' = s then case used_in W bm s of (r, c, t) \<Rightarrow> (r + 1, c + max 0 cost, t + max 0 tokens)
        else used_in W bm s)"
  proof (cases "s' = s")
    case True
    with W b(3) [of W now l 1 cost tokens s] show ?thesis by (simp add: budget_record_def)
  next
    case False
    then show ?thesis using b(3) by (simp add: budget_record_def split: option.split)
  qed
qed

lemma serve_facts:
  assumes tr: "tracked S bm" and s': "s' \<in> S" and sv: "serve now s' cost tokens bm = (ok, bm')"
    and W: "s' = s \<Longrightarrow> limits_for s bm = Some l \<and> window_start (bl_window l) now = W"
  shows "tracked S bm'" "same_limits bm' bm"
    "used_in W bm' s = (if s' = s \<and> ok
        then case used_in W bm s of (r, c, t) \<Rightarrow> (r + 1, c + max 0 cost, t + max 0 tokens)
        else used_in W bm s)"
    "s' = s \<Longrightarrow> ok \<longleftrightarrow> room_for_one l (used_in W bm s)"
proof -
  obtain r b where c: "budget_check now s' 0 bm = (r, b)" by (cases "budget_check now s' 0 bm")
  note f = budget_check_facts [where s = s and l = l and W = W, OF tr s' c W]
  have Wb: "s' = s \<Longrightarrow> limits_for s b = Some l \<and> window_start (bl_window l) now = W"
    using W limits_for_same [OF f(2)] by simp
  note g = budget_record_facts [where s = s and l = l and W = W, OF f(1) s' Wb]
  have ok: "ok \<longleftrightarrow> r = Inr ()" "bm' = (if ok then budget_record now s' cost tokens b else b)"
    using sv c by (auto simp: serve_def split: sum.splits)
  show "tracked S bm'" using ok(2) f(1) g(1) by simp
  show "same_limits bm' bm" using ok(2) f(2) same_limits_trans [OF g(2) f(2)] by simp
  show "used_in W bm' s = (if s' = s \<and> ok
        then case used_in W bm s of (r, c, t) \<Rightarrow> (r + 1, c + max 0 cost, t + max 0 tokens)
        else used_in W bm s)"
    using ok(2) f(3) g(3) [of cost tokens] by (cases "s' = s") simp_all
  show "s' = s \<Longrightarrow> ok \<longleftrightarrow> room_for_one l (used_in W bm s)" using ok(1) f(4) by simp
qed

text \<open>Requests of tracked subjects that cost at most \<open>C\<close>; those of \<open>s\<close> are in the window \<open>W\<close>.\<close>

definition in_window ::
  "string set \<Rightarrow> string \<Rightarrow> budget_limits \<Rightarrow> time \<Rightarrow> real \<Rightarrow> time \<times> string \<times> real \<times> int \<Rightarrow> bool" where
  "in_window S s l W C req = (case req of (t, s', c, k) \<Rightarrow>
     s' \<in> S \<and> (s' = s \<longrightarrow> window_start (bl_window l) t = W) \<and> c \<le> C)"

text \<open>The books of \<open>s\<close> after a run: what was there plus what was admitted.\<close>

lemma serve_all_facts:
  assumes "tracked S bm" "limits_for s bm = Some l" "list_all (in_window S s l W C) reqs"
    and "serve_all reqs bm = (ads, bm')"
  shows "tracked S bm'" "same_limits bm' bm"
    "used_in W bm' s = (case used_in W bm s of (n, c, k) \<Rightarrow>
       (n + admitted_count s ads, c + admitted_cost s ads, k + admitted_tokens s ads))"
  using assms
proof (induction reqs arbitrary: bm ads)
  case Nil
  { case 1 then show ?case by simp }
  { case 2 then show ?case by simp }
  { case 3 then show ?case by (auto split: prod.split) }
next
  case (Cons req reqs)
  obtain t s' c k where req: "req = (t, s', c, k)" by (cases req)
  have step: "\<exists>ok b ads1. serve t s' c k bm = (ok, b) \<and> serve_all reqs b = (ads1, bm')
      \<and> ads = (if ok then [(s', c, k)] else []) @ ads1 \<and> tracked S b \<and> same_limits b bm \<and> limits_for s b = Some l
      \<and> used_in W b s = (if s' = s \<and> ok
          then case used_in W bm s of (r, c', t) \<Rightarrow> (r + 1, c' + max 0 c, t + max 0 k)
          else used_in W bm s)
      \<and> list_all (in_window S s l W C) reqs"
    if tr: "tracked S bm" and l: "limits_for s bm = Some l"
      and all: "list_all (in_window S s l W C) (req # reqs)" and run: "serve_all (req # reqs) bm = (ads, bm')" for bm ads
  proof -
    obtain ok b where sv: "serve t s' c k bm = (ok, b)" by (cases "serve t s' c k bm")
    have h: "s' \<in> S" "s' = s \<Longrightarrow> limits_for s bm = Some l \<and> window_start (bl_window l) t = W"
      using all l by (simp_all add: req in_window_def)
    note f = serve_facts [where s = s and l = l and W = W, OF tr h(1) sv h(2)]
    have "limits_for s b = Some l" using limits_for_same [OF f(2)] l by simp
    then show ?thesis using sv f(1-3) all run by (auto simp: req split: prod.splits)
  qed
  { case 1 from step [OF this] Cons.IH(1) show ?case by blast }
  { case 2 from step [OF this] Cons.IH(2) same_limits_trans show ?case by blast }
  { case 3
    from step [OF this] obtain ok b ads1 where b: "serve_all reqs b = (ads1, bm')"
      "ads = (if ok then [(s', c, k)] else []) @ ads1" "tracked S b" "limits_for s b = Some l"
      "used_in W b s = (if s' = s \<and> ok
          then case used_in W bm s of (r, c', t) \<Rightarrow> (r + 1, c' + max 0 c, t + max 0 k)
          else used_in W bm s)" "list_all (in_window S s l W C) reqs" by blast
    from Cons.IH(3) [OF b(3,4,6,1)] b(2,5) show ?case
      by (cases "used_in W bm s") (auto simp: ac_simps) }
qed

lemma room_bounds:
  "room_for_one l (n, c, k) \<Longrightarrow> bl_max_requests l = Some cap \<Longrightarrow> n + 1 \<le> cap"
  "room_for_one l (n, c, k) \<Longrightarrow> bl_max_cost l = Some x \<Longrightarrow> c < x"
  by (simp_all add: room_for_one_def)

lemma serve_all_bounds:
  assumes "tracked S bm" "limits_for s bm = Some l" "list_all (in_window S s l W C) reqs"
    and "serve_all reqs bm = (ads, bm')" "0 \<le> C"
  shows "bl_max_requests l = Some n \<Longrightarrow> fst (used_in W bm s) \<le> n \<Longrightarrow> fst (used_in W bm' s) \<le> n"
    and "bl_max_cost l = Some x \<Longrightarrow> fst (snd (used_in W bm s)) \<le> x + C \<Longrightarrow> fst (snd (used_in W bm' s)) \<le> x + C"
  using assms(1-4)
proof (induction reqs arbitrary: bm ads)
  case Nil
  { case 1 then show ?case by simp }
  { case 2 then show ?case by simp }
next
  case (Cons req reqs)
  obtain t s' c k where req: "req = (t, s', c, k)" by (cases req)
  have step: "\<exists>ok b ads1. serve_all reqs b = (ads1, bm') \<and> tracked S b \<and> limits_for s b = Some l
      \<and> used_in W b s = (if s' = s \<and> ok
          then case used_in W bm s of (r, c', t) \<Rightarrow> (r + 1, c' + max 0 c, t + max 0 k)
          else used_in W bm s)
      \<and> (s' = s \<longrightarrow> ok = room_for_one l (used_in W bm s))
      \<and> list_all (in_window S s l W C) reqs \<and> c \<le> C"
    if tr: "tracked S bm" and l: "limits_for s bm = Some l"
      and all: "list_all (in_window S s l W C) (req # reqs)" and run: "serve_all (req # reqs) bm = (ads, bm')" for bm ads
  proof -
    obtain ok b where sv: "serve t s' c k bm = (ok, b)" by (cases "serve t s' c k bm")
    have h: "s' \<in> S" "s' = s \<Longrightarrow> limits_for s bm = Some l \<and> window_start (bl_window l) t = W"
      using all l by (simp_all add: req in_window_def)
    note f = serve_facts [where s = s and l = l and W = W, OF tr h(1) sv h(2)]
    have "limits_for s b = Some l" using limits_for_same [OF f(2)] l by simp
    moreover have "\<exists>ads1. serve_all reqs b = (ads1, bm')" using sv run by (auto simp: req split: prod.splits)
    moreover have "list_all (in_window S s l W C) reqs \<and> c \<le> C" using all by (simp add: req in_window_def)
    ultimately show ?thesis using f(1,3,4) by blast
  qed
  { case 1
    from step [OF 1(3-6)] obtain ok b ads1 where b: "serve_all reqs b = (ads1, bm')" "tracked S b" "limits_for s b = Some l"
      "used_in W b s = (if s' = s \<and> ok
          then case used_in W bm s of (r, c', t) \<Rightarrow> (r + 1, c' + max 0 c, t + max 0 k)
          else used_in W bm s)"
      "s' = s \<Longrightarrow> ok = room_for_one l (used_in W bm s)" "list_all (in_window S s l W C) reqs" by blast
    have "fst (used_in W b s) \<le> n"
      using b(4,5) 1(1,2) room_bounds(1) by (cases "used_in W bm s") (auto split: if_splits)
    then show ?case by (rule Cons.IH(1) [OF 1(1) _ b(2,3,6,1)]) }
  { case 2
    from step [OF 2(3-6)] obtain ok b ads1 where b: "serve_all reqs b = (ads1, bm')" "tracked S b" "limits_for s b = Some l"
      "used_in W b s = (if s' = s \<and> ok
          then case used_in W bm s of (r, c', t) \<Rightarrow> (r + 1, c' + max 0 c, t + max 0 k)
          else used_in W bm s)"
      "s' = s \<Longrightarrow> ok = room_for_one l (used_in W bm s)" "list_all (in_window S s l W C) reqs" "c \<le> C" by blast
    have "fst (snd (used_in W b s)) \<le> x + C"
      using b(4,5,7) 2(1,2) assms(5) by (cases "used_in W bm s") (auto dest: room_bounds(2) split: if_splits)
    then show ?case by (rule Cons.IH(2) [OF 2(1) _ b(2,3,6,1)]) }
qed

lemma refusal_retry_after:
  assumes "tracked S bm" "key \<in> S" "1 \<le> bl_window l"
    and "check_limits now key l est bm = (Inl e, bm')"
  shows "1 \<le> be_retry_after e" "window_start (bl_window l) (now + be_retry_after e) \<noteq> window_start (bl_window l) now"
proof -
  obtain u b where c: "budget_current now key l bm = (u, b)" by (cases "budget_current now key l bm")
  have ws: "bu_window_start u = window_start (bl_window l) now"
    by (rule budget_current_facts(5) [OF assms(1,2) c])
  have r: "be_retry_after e = max 1 (window_start (bl_window l) now + of_int (bl_window l) - now)"
    using assms(4) c ws by (auto simp: check_limits_def Let_def split: option.splits)
  show "1 \<le> be_retry_after e" by (simp add: r)
  have "window_start (bl_window l) now + of_int (bl_window l) \<le> now + be_retry_after e"
    by (simp add: r)
  then show "window_start (bl_window l) (now + be_retry_after e) \<noteq> window_start (bl_window l) now"
    by (rule window_advances [OF assms(3)])
qed

section \<open>The loader\<close>

lemma window_of_pos: "window_of v = Some n \<Longrightarrow> 1 \<le> n"
  by (cases v) (auto simp: WINDOWS_def split: if_splits)

lemma parse_field_some: "snd (parse_field conv key msg d) = Some x \<Longrightarrow> \<exists>v. conv v = Some x"
  by (auto simp: parse_field_def split: option.splits)

lemma or_base_all:
  assumes "\<And>x. x \<in> set_option base \<Longrightarrow> P x" "\<And>v x. conv v = Some x \<Longrightarrow> P x"
  shows "\<forall>x\<in>set_option (or_base (snd (parse_field conv key msg d)) base). P x"
  using assms parse_field_some [of conv key msg d] by (auto simp: or_base_def split: option.splits)

lemma parse_limits_valid:
  assumes "limits_valid base" and "parse_limits raw loc base = Some (e, l)"
  shows "limits_valid l"
proof (cases raw)
  case (PDict d)
  define mc where "mc = or_base (snd (parse_field finite_nonneg ''max_cost_usd''
      (loc @ ''.max_cost_usd: must be a finite number >= 0'') d)) (bl_max_cost base)"
  define wc where "wc = or_base (snd (parse_field finite_nonneg ''warn_cost_usd''
      (loc @ ''.warn_cost_usd: must be a finite number >= 0'') d)) (bl_warn_cost base)"
  define mr where "mr = or_base (snd (parse_field nonneg_int ''max_requests''
      (loc @ ''.max_requests: must be an integer >= 0'') d)) (bl_max_requests base)"
  define mt where "mt = or_base (snd (parse_field nonneg_int ''max_tokens''
      (loc @ ''.max_tokens: must be an integer >= 0'') d)) (bl_max_tokens base)"
  define w where "w = (case snd (parse_field window_of ''window''
      (loc @ ''.window: use one of '' @ WINDOW_NAMES @ '' or seconds > 0'') d) of
        Some n \<Rightarrow> n | None \<Rightarrow> bl_window base)"
  define r where "r = \<lparr>bl_max_cost = mc, bl_warn_cost = wc, bl_max_requests = mr,
      bl_max_tokens = mt, bl_window = w\<rparr>"
  have "l = (if warn_above_cap r then r\<lparr>bl_warn_cost := None\<rparr> else r)"
    using assms(2) unfolding r_def mc_def wc_def mr_def mt_def w_def
    by (simp add: PDict parse_limits_def Let_def case_prod_unfold split: if_splits)
  note res = this
  have b: "(\<forall>x\<in>set_option (bl_max_cost base). 0 \<le> x)" "(\<forall>x\<in>set_option (bl_warn_cost base). 0 \<le> x)"
    "(\<forall>x\<in>set_option (bl_max_requests base). 0 \<le> x)" "(\<forall>x\<in>set_option (bl_max_tokens base). 0 \<le> x)"
    "1 \<le> bl_window base"
    using assms(1) by (simp_all add: limits_valid_def)
  have "\<forall>x\<in>set_option mc. 0 \<le> x"
    unfolding mc_def using b(1) finite_nonneg_pos by (intro or_base_all) blast+
  moreover have "\<forall>x\<in>set_option wc. 0 \<le> x"
    unfolding wc_def using b(2) finite_nonneg_pos by (intro or_base_all) blast+
  moreover have "\<forall>x\<in>set_option mr. 0 \<le> x"
    unfolding mr_def using b(3) nonneg_int_pos by (intro or_base_all) blast+
  moreover have "\<forall>x\<in>set_option mt. 0 \<le> x"
    unfolding mt_def using b(4) nonneg_int_pos by (intro or_base_all) blast+
  moreover have "1 \<le> w"
    using b(5) parse_field_some [of window_of "''window''"] window_of_pos
    unfolding w_def by (fastforce split: option.splits)
  ultimately show ?thesis
    unfolding res by (simp add: limits_valid_def r_def warn_above_cap_def split: option.splits)
qed (use assms in \<open>simp_all add: parse_limits_def\<close>)

lemma parse_limits_overflow: "parse_limits raw loc base = None \<longleftrightarrow> huge_cost raw"
  by (cases raw) (simp_all add: parse_limits_def huge_cost_def)

lemma parse_section_valid:
  assumes "limits_valid base"
  shows "parse_section pre base raw (es, out) = Some (es', out') \<Longrightarrow> \<forall>l\<in>snd ` set out. limits_valid l \<Longrightarrow>
    \<forall>l\<in>snd ` set out'. limits_valid l"
proof (induction raw arbitrary: es out)
  case Nil
  then show ?case by simp
next
  case (Cons x raw)
  obtain name v where x: "x = (name, v)" by (cases x)
  obtain e l where p: "parse_limits v (pre @ name) base = Some (e, l)"
    using Cons.prems(1) by (auto simp: x split: option.splits)
  have "limits_valid l" using parse_limits_valid [OF assms p] .
  then have "\<forall>l\<in>insert l (snd ` set out). limits_valid l" using Cons.prems(2) by (simp only: ball_simps simp_thms)
  then have "\<forall>l\<in>snd ` set (od_set name l out). limits_valid l"
    using snd_set_od_set [of name l out] by (meson subset_iff)
  from Cons.IH [OF _ this, of "es @ e"] Cons.prems(1) show ?case by (simp add: x p)
qed

lemma parse_section_overflow:
  "parse_section pre base raw (es, out) = None \<longleftrightarrow> (\<exists>v\<in>snd ` set raw. huge_cost v)"
proof (induction raw arbitrary: es out)
  case (Cons x raw)
  then show ?case
    by (cases x; cases "parse_limits (snd x) (pre @ fst x) base")
      (auto simp: parse_limits_overflow [of _ "pre @ fst x" base, symmetric])
qed simp

lemma parse_default_overflow:
  "parse_default d = None \<longleftrightarrow> (\<exists>v\<in>set_option (map_of d ''default''). huge_cost v)"
  by (auto simp: parse_default_def parse_limits_overflow split: option.splits)

lemma parse_default_valid:
  assumes "parse_default d = Some (e, dflt)"
  shows "\<forall>l\<in>set_option dflt. limits_valid l"
proof -
  have "limits_valid default_limits"
    by (simp add: default_limits_def limits_valid_def warn_above_cap_def)
  from parse_limits_valid [OF this] show ?thesis
    using assms by (auto simp: parse_default_def split: option.splits)
qed

lemma load_overflow:
  assumes "\<not> falsy doc"
  shows "load_budgets doc n = Inl LoadOverflow \<longleftrightarrow> (\<exists>v\<in>set (raw_limits doc). huge_cost v)"
proof (cases doc)
  case (PDict d)
  note ov = parse_default_overflow [of d] parse_section_overflow
  show ?thesis
  proof (cases "parse_default d")
    case None
    then show ?thesis using assms ov(1) by (auto simp: PDict load_budgets_def raw_limits_def split: option.splits)
  next
    case (Some p)
    obtain e1 dflt where p: "p = (e1, dflt)" by (cases p)
    have nd: "\<not> (\<exists>v\<in>set (case map_of d ''default'' of None \<Rightarrow> [] | Some raw \<Rightarrow> [raw]). huge_cost v)"
      using Some ov(1) by (auto split: option.splits)
    define base where "base = (case dflt of Some l \<Rightarrow> l | None \<Rightarrow> default_limits)"
    obtain e2 rs where m: "mapping_or_empty ''subjects'' d = (e2, rs)" by (cases "mapping_or_empty ''subjects'' d")
    obtain e4 rm where k: "mapping_or_empty ''models'' d = (e4, rm)" by (cases "mapping_or_empty ''models'' d")
    have raw: "(\<exists>v\<in>set (raw_limits doc). huge_cost v) \<longleftrightarrow>
        parse_section ''subjects.'' base rs ([], []) = None
        \<or> parse_section ''models.'' default_limits rm ([], []) = None"
      using nd m k unfolding ov(2) by (auto simp: PDict raw_limits_def)
    show ?thesis unfolding raw
      using assms Some m k
      by (auto simp: PDict load_budgets_def p Let_def base_def [symmetric] split: option.splits sum.splits if_splits)
  qed
qed (use assms in \<open>simp_all add: load_budgets_def raw_limits_def\<close>)

lemma load_valid:
  assumes "load_budgets doc n = Inr bm"
  shows "(\<forall>l\<in>set_option (bm_default bm) \<union> snd ` set (bm_subjects bm) \<union> snd ` set (bm_models bm). limits_valid l)
       \<and> 1 \<le> bm_max_subjects bm"
proof -
  have dl: "limits_valid default_limits"
    by (simp add: default_limits_def limits_valid_def warn_above_cap_def)
  obtain d where d: "(if falsy doc then PDict [] else doc) = PDict d"
    using assms by (auto simp: load_budgets_def split: pyval.splits)
  obtain e1 dflt e3 ss e5 ms where p: "parse_default d = Some (e1, dflt)"
    "parse_section ''subjects.'' (case dflt of Some l \<Rightarrow> l | None \<Rightarrow> default_limits)
       (snd (mapping_or_empty ''subjects'' d)) ([], []) = Some (e3, ss)"
    "parse_section ''models.'' default_limits (snd (mapping_or_empty ''models'' d)) ([], []) = Some (e5, ms)"
    and mn: "manager_new dflt ss ms n = Inr bm"
    using assms unfolding load_budgets_def d
    by (auto simp: Let_def case_prod_unfold split: option.splits if_splits sum.splits)
  have bm: "bm_default bm = dflt" "bm_subjects bm = ss" "bm_models bm = ms" "1 \<le> bm_max_subjects bm"
    using mn by (auto simp: manager_new_def split: pyval.splits if_splits)
  note v = parse_default_valid [OF p(1)]
  then have "limits_valid (case dflt of Some l \<Rightarrow> l | None \<Rightarrow> default_limits)"
    using dl by (auto split: option.splits)
  note ss = parse_section_valid [OF this p(2)] and ms = parse_section_valid [OF dl p(3)]
  show ?thesis using bm v ss ms by auto
qed

lemma load_errors: "load_budgets doc n = Inl (ConfigErrors es) \<Longrightarrow> es \<noteq> []"
  by (auto simp: load_budgets_def Let_def split: pyval.splits option.splits prod.splits if_splits sum.splits)

section \<open>Properties\<close>


definition two_per_hour :: budget_manager where
  "two_per_hour = \<lparr>bm_default = Some (default_limits\<lparr>bl_max_requests := Some 3, bl_max_cost := Some 2, bl_window := 3600\<rparr>),
     bm_subjects = [], bm_models = [], bm_max_subjects = 3, bm_usage = [], bm_rejections = 0,
     bm_has_on_alert = False, bm_alerts = []\<rparr>"

definition two_subjects :: "(time \<times> string \<times> real \<times> int) list" where
  "two_subjects = [(0, ''a'', 1, 9), (1, ''b'', 1, 9), (2, ''a'', 1, 9), (3, ''a'', 1, 9)]"

lemma two_subjects_served:
  "fst (serve_all two_subjects two_per_hour) = [(''a'', 1, 9), (''b'', 1, 9), (''a'', 1, 9)]"
  by (simp add: two_subjects_def two_per_hour_def serve_def budget_check_def limits_for_def check_limits_def
      budget_current_def window_start_def budget_checks_def over_limit_def default_limits_def budget_record_def
      book_def warn_check_def fresh_usage_def od_map_at_def od_set_def
      od_move_to_end_def Let_def)


text \<open>
  C18. Loading a budgets document ends in one of three ways, whatever it holds. It is accepted: then every limit of
  the manager satisfies the checks of \<open>BudgetLimits\<close> and at least one subject can be tracked. It is refused with
  at least one problem. Or the load escapes with an \<open>OverflowError\<close>, without reporting any problem: exactly if
  the document is not empty and some cost limit in it is an integer too large for a double.
\<close>

theorem loaded_budgets_valid:
  shows "(case load_budgets doc n of
      Inr bm \<Rightarrow> list_all limits_valid (case bm_default bm of None \<Rightarrow> [] | Some l \<Rightarrow> [l])
        \<and> list_all limits_valid (map snd (bm_subjects bm)) \<and> list_all limits_valid (map snd (bm_models bm))
        \<and> 1 \<le> bm_max_subjects bm
    | Inl (ConfigErrors es) \<Rightarrow> es \<noteq> []
    | Inl LoadOverflow \<Rightarrow> \<not> falsy doc \<and> list_ex huge_cost (raw_limits doc))
    \<and> (load_budgets doc n = Inl LoadOverflow) = (\<not> falsy doc \<and> list_ex huge_cost (raw_limits doc))"
proof -
  have ov: "(load_budgets doc n = Inl LoadOverflow) = (\<not> falsy doc \<and> list_ex huge_cost (raw_limits doc))"
  proof (cases "falsy doc")
    case True
    then show ?thesis by (auto simp: load_budgets_def parse_default_def mapping_or_empty_def unknown_keys_def Let_def split: sum.splits)
  next
    case False
    then show ?thesis using load_overflow [of doc n] by (simp add: list_ex_iff)
  qed
  then show ?thesis
    using load_valid [of doc n] load_errors [of doc n]
    by (auto simp: list_all_iff split: sum.split load_error.split option.split)
qed

definition one_default :: "pyval" where
  "one_default = PDict [(''default'', PDict [(''max_requests'', PInt 5), (''window'', PStr ''hour'')])]"

lemma one_default_loads:
  "load_budgets one_default (PInt 10) = Inr \<lparr>bm_default = Some (default_limits\<lparr>bl_max_requests := Some 5, bl_window := 3600\<rparr>),
     bm_subjects = [], bm_models = [], bm_max_subjects = 10, bm_usage = [], bm_rejections = 0,
     bm_has_on_alert = False, bm_alerts = []\<rparr>"
  by (simp add: load_budgets_def one_default_def mapping_or_empty_def parse_limits_def parse_field_def parse_default_def
      unknown_keys_def BUDGET_FIELDS_def WINDOWS_def or_base_def default_limits_def warn_above_cap_def huge_cost_def
      manager_new_def)

text \<open>A misspelt key and a cost of \<open>2 ^ 1024\<close>: the misspelt key is not reported.\<close>

definition huge_document :: "pyval" where
  "huge_document = PDict [(''defualt'', PDict []), (''default'', PDict [(''max_cost_usd'', PInt (2 ^ 1024))])]"

theorem loaded_budgets_valid_witness:
  "load_budgets huge_document (PInt 10) = Inl LoadOverflow
   \<and> (\<exists>bm. load_budgets one_default (PInt 10) = Inr bm \<and> list_all limits_valid (case bm_default bm of None \<Rightarrow> [] | Some l \<Rightarrow> [l]))"
  using loaded_budgets_valid [of huge_document "PInt 10"] loaded_budgets_valid [of one_default "PInt 10"]
  by (simp add: one_default_loads huge_document_def raw_limits_def huge_cost_def mapping_or_empty_def)

end
