(* ===== verification/Policy.thy ===== *)
theory Policy
  imports Limiter "HOL-Library.List_Lexorder" "HOL-Library.Char_ord"
begin

text \<open>
  \<open>src/coreai/policy.py\<close>: declarative routing policies, their validation, the policy store with
  reloads and runtime edits, and the rate limits of a routing document. A parsed YAML document
  is a \<open>pyval\<close>; a problem is a value of a datatype instead of its message. Infinities and NaN, which
  \<open>_number\<close> lets through, are outside the model: \<open>number_of\<close> rejects them.
\<close>

section \<open>Policies\<close>

datatype pstrategy = PBalanced | PCheapest | PFastest | PRoundRobin | PFallback | PExplicit

definition STRATEGIES :: "(string \<times> pstrategy) list" where
  "STRATEGIES =
     [(''cost_aware'', PBalanced), (''balanced'', PBalanced), (''cheapest'', PCheapest),
      (''latency_first'', PFastest), (''fastest'', PFastest), (''round_robin'', PRoundRobin),
      (''fallback'', PFallback), (''explicit'', PExplicit)]"

definition POLICY_KEYS :: "string list" where
  "POLICY_KEYS = [''strategy'', ''weights'', ''latency_ceiling_ms'', ''hedge_after_ms'',
     ''fallback_chain'', ''fallback_model'', ''provider'', ''model'', ''allow'', ''deny'']"

record policy =
  po_name :: string
  po_strategy :: pstrategy
  po_cost_weight :: real
  po_latency_weight :: real
  po_latency_ceiling_ms :: "real option"
  po_hedge_after_ms :: "real option"
  po_fallback_chain :: "string list"
  po_fallback_model :: "string option"
  po_provider :: "string option"
  po_model :: "string option"
  po_allow :: "string set option"
  po_deny :: "string set"

text \<open>\<open>permits\<close>: \<open>None\<close> when the provider may serve the policy.\<close>

datatype refusal = DeniedByPolicy | NotInAllowList

definition permits :: "policy \<Rightarrow> string \<Rightarrow> refusal option" where
  "permits p n =
     (if n \<in> po_deny p then Some DeniedByPolicy
      else case po_allow p of
          None \<Rightarrow> None
        | Some a \<Rightarrow> if n \<notin> a then Some NotInAllowList else None)"

type_synonym policy_set = "(string, policy) odict"

definition policy_get :: "policy_set \<Rightarrow> string option \<Rightarrow> policy option" where
  "policy_get ps n =
     od_get ps (case n of None \<Rightarrow> ''default'' | Some s \<Rightarrow> if s = [] then ''default'' else s)"

section \<open>Validation\<close>

datatype policy_problem =
    TopLevelNotMapping | PoliciesNotMapping | BodyNotMapping string
  | UnknownKey string string | BadStrategy string pyval
  | WeightKeys string | WeightNumbers string | WeightsZero string
  | BadCeiling string | BadHedge string
  | NotNameList string string | DuplicateProviders string | UnknownProvider string string string
  | AllowDenyOverlap string | ProviderNotString string
  | ExplicitNeedsProvider string | FallbackNeedsChain string | NotString string string
  | BadName string | FileNotFound | BadYaml

fun number_of :: "pyval \<Rightarrow> real option" where
  "number_of (PInt n) = Some (of_int n)"
| "number_of (PFloat r) = Some r"
| "number_of _ = None"

fun str_of :: "pyval \<Rightarrow> string option" where
  "str_of (PStr s) = Some s"
| "str_of _ = None"

text \<open>\<open>_name_list\<close>.\<close>

definition name_list :: "string \<Rightarrow> string \<Rightarrow> pyval \<Rightarrow> policy_problem list \<times> string list" where
  "name_list w key v =
     (case v of
        PList vs \<Rightarrow> (case all_some (map str_of vs) of
            None \<Rightarrow> ([NotNameList w key], []) | Some ns \<Rightarrow> ([], ns))
      | _ \<Rightarrow> ([NotNameList w key], []))"

definition get_or :: "(string \<times> pyval) list \<Rightarrow> string \<Rightarrow> pyval \<Rightarrow> pyval" where
  "get_or d k dflt = (case map_of d k of None \<Rightarrow> dflt | Some v \<Rightarrow> v)"

text \<open>\<open>check_provider\<close> over a list of names.\<close>

definition check_known :: "string list option \<Rightarrow> string \<Rightarrow> string \<Rightarrow> string list \<Rightarrow> policy_problem list" where
  "check_known known w key ns =
     (case known of
        None \<Rightarrow> []
      | Some ks \<Rightarrow> map (UnknownProvider w key) (filter (\<lambda>n. n \<notin> set ks) ns))"

definition default_weights :: "real \<times> real" where
  "default_weights = (7 / 10, 3 / 10)"

definition parse_weights :: "string \<Rightarrow> pyval \<Rightarrow> policy_problem list \<times> (real \<times> real)" where
  "parse_weights w v =
     (if v = PNone then ([], default_weights)
      else case v of
          PDict d \<Rightarrow>
            (if \<not> list_all (\<lambda>(k, _). k \<in> {''cost'', ''latency''}) d then ([WeightKeys w], default_weights)
             else case (number_of (get_or d ''cost'' (PFloat 0)), number_of (get_or d ''latency'' (PFloat 0))) of
                 (Some c, Some l) \<Rightarrow>
                   (if c < 0 \<or> l < 0 then ([WeightNumbers w], default_weights)
                    else if c + l = 0 then ([WeightsZero w], default_weights)
                    else ([], (c / (c + l), l / (c + l))))
               | _ \<Rightarrow> ([WeightNumbers w], default_weights))
        | _ \<Rightarrow> ([WeightKeys w], default_weights))"

text \<open>An optional positive number, with the problem to report.\<close>

definition parse_positive :: "policy_problem \<Rightarrow> pyval \<Rightarrow> policy_problem list \<times> real option" where
  "parse_positive problem v =
     (if v = PNone then ([], None)
      else case number_of v of
          None \<Rightarrow> ([problem], None)
        | Some r \<Rightarrow> if r \<le> 0 then ([problem], None) else ([], Some r))"

definition parse_strategy :: "pyval \<Rightarrow> pstrategy option" where
  "parse_strategy v = (case v of PStr s \<Rightarrow> map_of STRATEGIES s | _ \<Rightarrow> None)"

definition parse_provider ::
  "string list option \<Rightarrow> string \<Rightarrow> pyval \<Rightarrow> policy_problem list \<times> string option" where
  "parse_provider known w v =
     (if v = PNone then ([], None)
      else case v of
          PStr s \<Rightarrow> (check_known known w ''provider'' [s], Some s)
        | _ \<Rightarrow> ([ProviderNotString w], None))"

definition not_string :: "string \<Rightarrow> string \<Rightarrow> pyval \<Rightarrow> policy_problem list" where
  "not_string w key v = (if v \<noteq> PNone \<and> str_of v = None then [NotString w key] else [])"

definition parse_allow ::
  "string list option \<Rightarrow> string \<Rightarrow> (string \<times> pyval) list \<Rightarrow> policy_problem list \<times> string set option" where
  "parse_allow known w d =
     (case map_of d ''allow'' of
        None \<Rightarrow> ([], None)
      | Some v \<Rightarrow>
          (case name_list w ''allow'' v of (e, ns) \<Rightarrow> (e @ check_known known w ''allow'' ns, Some (set ns))))"

text \<open>The body of one policy; \<open>None\<close> for a policy that is skipped (\<open>continue\<close>).\<close>

definition parse_body ::
  "string list option \<Rightarrow> string \<Rightarrow> pyval \<Rightarrow> policy_problem list \<times> policy option" where
  "parse_body known w v =
     (case v of
        PDict d \<Rightarrow>
          (let e0 = map (UnknownKey w) (sort (filter (\<lambda>k. k \<notin> set POLICY_KEYS) (map fst d)));
               sraw = get_or d ''strategy'' (PStr ''cost_aware'')
           in case parse_strategy sraw of
                None \<Rightarrow> (e0 @ [BadStrategy w sraw], None)
              | Some strat \<Rightarrow>
                  (let (e1, cw, lw) = parse_weights w (get_or d ''weights'' PNone);
                       (e2, ceiling) = parse_positive (BadCeiling w) (get_or d ''latency_ceiling_ms'' PNone);
                       (e3, hedge) = parse_positive (BadHedge w) (get_or d ''hedge_after_ms'' PNone);
                       (e4, chain) = name_list w ''fallback_chain'' (get_or d ''fallback_chain'' (PList []));
                       e5 = (if \<not> distinct chain then [DuplicateProviders w] else [])
                            @ check_known known w ''fallback_chain'' chain;
                       (e6, allowed) = parse_allow known w d;
                       (e7, denied) = name_list w ''deny'' (get_or d ''deny'' (PList []));
                       e8 = check_known known w ''deny'' denied
                            @ (case allowed of None \<Rightarrow> []
                               | Some a \<Rightarrow> if a \<inter> set denied \<noteq> {} then [AllowDenyOverlap w] else []);
                       (e9, prov) = parse_provider known w (get_or d ''provider'' PNone);
                       e10 = (if strat = PExplicit \<and> prov = None then [ExplicitNeedsProvider w] else [])
                            @ (if strat = PFallback \<and> chain = [] then [FallbackNeedsChain w] else []);
                       mdl = get_or d ''model'' PNone;
                       fm = get_or d ''fallback_model'' PNone;
                       e11 = not_string w ''model'' mdl @ not_string w ''fallback_model'' fm
                   in (e0 @ e1 @ e2 @ e3 @ e4 @ e5 @ e6 @ e7 @ e8 @ e9 @ e10 @ e11,
                       Some \<lparr>po_name = w, po_strategy = strat, po_cost_weight = cw, po_latency_weight = lw,
                         po_latency_ceiling_ms = ceiling, po_hedge_after_ms = hedge,
                         po_fallback_chain = chain, po_fallback_model = str_of fm, po_provider = prov,
                         po_model = str_of mdl, po_allow = allowed, po_deny = set denied\<rparr>)))
      | _ \<Rightarrow> ([BodyNotMapping w], None))"

fun parse_bodies ::
  "string list option \<Rightarrow> (string \<times> pyval) list \<Rightarrow> policy_problem list \<times> policy_set" where
  "parse_bodies known [] = ([], [])"
| "parse_bodies known ((name, body) # rest) =
     (case parse_body known name body of (e, p) \<Rightarrow>
      case parse_bodies known rest of (e', ps) \<Rightarrow>
        (e @ e', (case p of None \<Rightarrow> ps | Some p \<Rightarrow> (name, p) # ps)))"

definition parse_policies :: "string list option \<Rightarrow> pyval \<Rightarrow> policy_problem list + policy_set" where
  "parse_policies known doc =
     (case doc of
        PDict d \<Rightarrow>
          (case map_of d ''policies'' of
             Some (PDict raw) \<Rightarrow>
               (if raw = [] then Inl [PoliciesNotMapping]
                else case parse_bodies known raw of (es, ps) \<Rightarrow> if es \<noteq> [] then Inl es else Inr ps)
           | _ \<Rightarrow> Inl [PoliciesNotMapping])
      | _ \<Rightarrow> Inl [TopLevelNotMapping])"

section \<open>The store\<close>

text \<open>
  A look at the file: missing, or its modification time and what reading it gives (\<open>None\<close> for
  a file that is not YAML).
\<close>

type_synonym policy_file = "(time \<times> pyval option) option"

definition load_policies :: "string list option \<Rightarrow> pyval option \<Rightarrow> policy_problem list + policy_set" where
  "load_policies known c = (case c of None \<Rightarrow> Inl [BadYaml] | Some doc \<Rightarrow> parse_policies known doc)"

datatype store_event = Rejected "policy_problem list" | Reloaded "string list"

record policy_store =
  ps_known :: "string list option"
  ps_interval :: real
  ps_mtime :: "time option"
  ps_next_check :: time
  ps_last_error :: "policy_problem list option"
  ps_reloads :: nat
  ps_set :: policy_set
  ps_edits :: "(string \<times> pyval) list"
  ps_removed :: "string set"
  ps_effective :: policy_set
  ps_events :: "store_event list"

text \<open>
  \<open>_merge\<close>: the file's policies without the removed ones, updated with the edits. \<open>Inl\<close> is the
  \<open>PolicyError\<close> that the code's comment says cannot happen.
\<close>

definition merge :: "policy_store \<Rightarrow> policy_problem list + policy_store" where
  "merge st =
     (let base = od_drop_where (\<lambda>n _. n \<in> ps_removed st) (ps_set st)
      in if ps_edits st = [] then Inr (st\<lparr>ps_effective := base\<rparr>)
         else case parse_policies None (PDict [(''policies'', PDict (ps_edits st))]) of
                Inl e \<Rightarrow> Inl e
              | Inr ps \<Rightarrow> Inr (st\<lparr>ps_effective := od_update base ps\<rparr>))"

definition load :: "bool \<Rightarrow> policy_file \<Rightarrow> policy_store \<Rightarrow> policy_problem list + policy_store" where
  "load initial file st =
     (case file of
        None \<Rightarrow> Inr (if initial then st\<lparr>ps_last_error := Some [FileNotFound]\<rparr> else st)
      | Some (mtime, c) \<Rightarrow>
          (if ps_mtime st = Some mtime then Inr st
           else let st = st\<lparr>ps_mtime := Some mtime\<rparr>
                in case load_policies (ps_known st) c of
                     Inl e \<Rightarrow> Inr (st\<lparr>ps_last_error := Some e, ps_events := ps_events st @ [Rejected e]\<rparr>)
                   | Inr ps \<Rightarrow>
                       (case merge (st\<lparr>ps_set := ps, ps_last_error := None, ps_reloads := ps_reloads st + 1\<rparr>) of
                          Inl e \<Rightarrow> Inl e
                        | Inr st \<Rightarrow>
                            Inr (st\<lparr>ps_events := ps_events st @ [Reloaded (sort (od_keys (ps_effective st)))]\<rparr>))))"

definition store_new ::
  "string list option \<Rightarrow> real \<Rightarrow> policy_file \<Rightarrow> time \<Rightarrow> policy_problem list + policy_store" where
  "store_new known interval file now =
     (let st = \<lparr>ps_known = known, ps_interval = interval, ps_mtime = None, ps_next_check = 0,
            ps_last_error = None, ps_reloads = 0, ps_set = [], ps_edits = [], ps_removed = {},
            ps_effective = [], ps_events = []\<rparr>
      in case load True file st of
           Inl e \<Rightarrow> Inl e
         | Inr st \<Rightarrow> (case merge st of
             Inl e \<Rightarrow> Inl e | Inr st \<Rightarrow> Inr (st\<lparr>ps_next_check := now + ps_interval st\<rparr>)))"

definition current :: "time \<Rightarrow> policy_file \<Rightarrow> policy_store \<Rightarrow> policy_problem list + (policy_set \<times> policy_store)" where
  "current now file st =
     (case (if now \<ge> ps_next_check st
            then load False file (st\<lparr>ps_next_check := now + ps_interval st\<rparr>) else Inr st) of
        Inl e \<Rightarrow> Inl e | Inr st \<Rightarrow> Inr (ps_effective st, st))"

text \<open>
  \<open>^[A-Za-z0-9][A-Za-z0-9_.-]{0,63}$\<close>; the dollar of \<open>re.match\<close> also matches before one
  newline at the end.
\<close>

definition alnum :: "char \<Rightarrow> bool" where
  "alnum c = (let n = (of_char c :: nat)
     in 48 \<le> n \<and> n \<le> 57 \<or> 65 \<le> n \<and> n \<le> 90 \<or> 97 \<le> n \<and> n \<le> 122)"

fun name_core :: "string \<Rightarrow> bool" where
  "name_core [] = False"
| "name_core (c # cs) =
     (alnum c \<and> list_all (\<lambda>c. alnum c \<or> c \<in> set ''_.-'') cs \<and> length cs \<le> 63)"

definition runtime_name :: "string \<Rightarrow> bool" where
  "runtime_name s \<longleftrightarrow> name_core s \<or> (s \<noteq> [] \<and> last s = CHR 0x0A \<and> name_core (butlast s))"

definition set_policy ::
  "string \<Rightarrow> pyval \<Rightarrow> policy_store \<Rightarrow> policy_problem list + (policy \<times> policy_store)" where
  "set_policy name body st =
     (if \<not> runtime_name name then Inl [BadName name]
      else case body of
          PDict d \<Rightarrow>
            (case parse_policies (ps_known st) (PDict [(''policies'', PDict [(name, body)])]) of
               Inl e \<Rightarrow> Inl e
             | Inr _ \<Rightarrow>
                 (case merge (st\<lparr>ps_edits := od_set name body (ps_edits st),
                                ps_removed := ps_removed st - {name}\<rparr>) of
                    Inl e \<Rightarrow> Inl e
                  | Inr st \<Rightarrow> Inr (the (od_get (ps_effective st) name), st)))
        | _ \<Rightarrow> Inl [BodyNotMapping name])"

definition remove_policy :: "string \<Rightarrow> policy_store \<Rightarrow> policy_problem list + (bool \<times> policy_store)" where
  "remove_policy name st =
     (let existed = od_has (ps_effective st) name \<or> od_has (ps_edits st) name;
          st = st\<lparr>ps_edits := od_pop name (ps_edits st)\<rparr>;
          st = (if od_has (ps_set st) name then st\<lparr>ps_removed := insert name (ps_removed st)\<rparr> else st)
      in case merge st of Inl e \<Rightarrow> Inl e | Inr st \<Rightarrow> Inr (existed, st))"

section \<open>Rate limits of a routing document\<close>

datatype limits_problem = LimitsTopLevel | ProvidersNotMapping | LimitKeys string | LimitValues string

definition limit_values :: "(string \<times> pyval) list \<Rightarrow> rate_config option" where
  "limit_values d =
     (case (positive_int (get_or d ''rpm'' (PInt (rl_requests_per_minute default_rate_config))),
            positive_int (get_or d ''tpm'' (PInt (rl_tokens_per_minute default_rate_config))),
            positive_int (get_or d ''concurrent'' (PInt (rl_concurrent_requests default_rate_config)))) of
        (Some r, Some t, Some c) \<Rightarrow>
          Some \<lparr>rl_requests_per_minute = r, rl_tokens_per_minute = t, rl_concurrent_requests = c\<rparr>
      | _ \<Rightarrow> None)"

fun rate_limit_bodies ::
  "(string \<times> pyval) list \<Rightarrow> limits_problem list \<times> (string, rate_config) odict" where
  "rate_limit_bodies [] = ([], [])"
| "rate_limit_bodies ((name, body) # rest) =
     (case rate_limit_bodies rest of (es, out) \<Rightarrow>
        (case (case body of PDict b \<Rightarrow> get_or b ''rate_limits'' PNone | _ \<Rightarrow> PNone) of
           PNone \<Rightarrow> (es, out)
         | PDict d \<Rightarrow>
             (if \<not> list_all (\<lambda>(k, _). k \<in> {''rpm'', ''tpm'', ''concurrent''}) d then (LimitKeys name # es, out)
              else case limit_values d of
                  None \<Rightarrow> (LimitValues name # es, out)
                | Some c \<Rightarrow> (es, (name, c) # out))
         | _ \<Rightarrow> (LimitKeys name # es, out)))"

definition parse_rate_limits :: "pyval \<Rightarrow> limits_problem list + (string, rate_config) odict" where
  "parse_rate_limits doc =
     (case doc of
        PDict d \<Rightarrow>
          (let p = get_or d ''providers'' PNone
           in case (if falsy p then PDict [] else p) of
                PDict ps \<Rightarrow> (case rate_limit_bodies ps of (es, out) \<Rightarrow> if es \<noteq> [] then Inl es else Inr out)
              | _ \<Rightarrow> Inl [ProvidersNotMapping])
      | _ \<Rightarrow> Inl [LimitsTopLevel])"

section \<open>Validation is sound\<close>

definition in_known :: "string list option \<Rightarrow> string set \<Rightarrow> bool" where
  "in_known known ns \<longleftrightarrow> (case known of None \<Rightarrow> True | Some ks \<Rightarrow> ns \<subseteq> set ks)"

definition policy_wf :: "string list option \<Rightarrow> policy \<Rightarrow> bool" where
  "policy_wf known p \<longleftrightarrow>
     0 \<le> po_cost_weight p \<and> 0 \<le> po_latency_weight p \<and> po_cost_weight p + po_latency_weight p = 1
   \<and> (\<forall>c\<in>set_option (po_latency_ceiling_ms p). 0 < c) \<and> (\<forall>h\<in>set_option (po_hedge_after_ms p). 0 < h)
   \<and> distinct (po_fallback_chain p)
   \<and> (po_strategy p = PExplicit \<longrightarrow> po_provider p \<noteq> None)
   \<and> (po_strategy p = PFallback \<longrightarrow> po_fallback_chain p \<noteq> [])
   \<and> (\<forall>a\<in>set_option (po_allow p). a \<inter> po_deny p = {})
   \<and> in_known known (set (po_fallback_chain p) \<union> po_deny p \<union> \<Union> (set_option (po_allow p))
                  \<union> set_option (po_provider p))"

lemma check_known_ok: "check_known known w key ns = [] \<longleftrightarrow> in_known known (set ns)"
  by (auto simp: check_known_def in_known_def filter_empty_conv split: option.splits)

lemma check_known_None [simp]: "check_known None w key ns = []"
  by (simp add: check_known_def)

lemma parse_weights_ok:
  "parse_weights w v = ([], c, l) \<Longrightarrow> 0 \<le> c \<and> 0 \<le> l \<and> c + l = 1"
  unfolding parse_weights_def default_weights_def
  by (auto simp: add_divide_distrib [symmetric] split: if_splits pyval.splits option.splits)

lemma parse_positive_ok: "parse_positive e v = ([], r) \<Longrightarrow> \<forall>x\<in>set_option r. 0 < x"
  by (auto simp: parse_positive_def split: if_splits option.splits)

lemma parse_allow_ok:
  "parse_allow known w d = ([], a) \<Longrightarrow> in_known known (\<Union> (set_option a)) \<and> parse_allow None w d = ([], a)"
  by (auto simp: parse_allow_def check_known_ok in_known_def split: option.splits prod.splits)

lemma parse_provider_ok:
  "parse_provider known w v = ([], a) \<Longrightarrow> in_known known (set_option a) \<and> parse_provider None w v = ([], a)"
  by (auto simp: parse_provider_def check_known_ok in_known_def split: if_splits pyval.splits option.splits)

text \<open>
  A body without a problem gives a well-formed policy, and gives the same policy when the
  known providers are not checked, which is how \<open>_merge\<close> parses it again.
\<close>

lemma parse_body_ok:
  assumes "parse_body known w v = ([], r)"
  shows "\<exists>p. r = Some p \<and> policy_wf known p \<and> po_name p = w \<and> parse_body None w v = ([], Some p)"
proof -
  obtain d where v: "v = PDict d" using assms by (cases v) (auto simp: parse_body_def)
  obtain strat where st: "parse_strategy (get_or d ''strategy'' (PStr ''cost_aware'')) = Some strat"
    using assms by (auto simp: parse_body_def v Let_def split: option.splits)
  obtain e1 cw lw where 1: "parse_weights w (get_or d ''weights'' PNone) = (e1, cw, lw)"
    by (metis prod_cases3)
  obtain e2 ceiling where 2: "parse_positive (BadCeiling w) (get_or d ''latency_ceiling_ms'' PNone) = (e2, ceiling)"
    by fastforce
  obtain e3 hedge where 3: "parse_positive (BadHedge w) (get_or d ''hedge_after_ms'' PNone) = (e3, hedge)"
    by fastforce
  obtain e4 chain where 4: "name_list w ''fallback_chain'' (get_or d ''fallback_chain'' (PList [])) = (e4, chain)"
    by fastforce
  obtain e6 allowed where 6: "parse_allow known w d = (e6, allowed)" by fastforce
  obtain e7 denied where 7: "name_list w ''deny'' (get_or d ''deny'' (PList [])) = (e7, denied)"
    by fastforce
  obtain e9 prov where 9: "parse_provider known w (get_or d ''provider'' PNone) = (e9, prov)" by fastforce
  define p where "p = \<lparr>po_name = w, po_strategy = strat, po_cost_weight = cw, po_latency_weight = lw,
     po_latency_ceiling_ms = ceiling, po_hedge_after_ms = hedge, po_fallback_chain = chain,
     po_fallback_model = str_of (get_or d ''fallback_model'' PNone), po_provider = prov,
     po_model = str_of (get_or d ''model'' PNone), po_allow = allowed, po_deny = set denied\<rparr>"
  note all = assms [unfolded parse_body_def v, simplified, unfolded Let_def st, simplified, unfolded 1 2 3 4 6 7 9, simplified]
  have es: "e1 = []" "e2 = []" "e3 = []" "e4 = []" "e6 = []" "e7 = []" "e9 = []"
    and r: "r = Some p"
    using all by (auto simp: p_def)
  have ks: "distinct chain" "in_known known (set chain)" "in_known known (set denied)"
    "\<forall>a\<in>set_option allowed. a \<inter> set denied = {}"
    "strat = PExplicit \<longrightarrow> prov \<noteq> None" "strat = PFallback \<longrightarrow> chain \<noteq> []"
    using all by (auto simp: check_known_ok split: if_splits option.splits)
  have wf: "policy_wf known p"
    using ks parse_weights_ok [OF 1 [unfolded es]] parse_positive_ok [OF 2 [unfolded es]]
      parse_positive_ok [OF 3 [unfolded es]] parse_allow_ok [OF 6 [unfolded es]]
      parse_provider_ok [OF 9 [unfolded es]]
    unfolding policy_wf_def p_def by (simp add: in_known_def split: option.splits)
  have "parse_body None w v = ([], Some p)"
    using all parse_allow_ok [OF 6 [unfolded es]] parse_provider_ok [OF 9 [unfolded es]]
    by (simp add: parse_body_def v st 1 2 3 4 7 es p_def)
  with r wf show ?thesis by (simp add: p_def)
qed

lemma parse_bodies_ok:
  "parse_bodies known raw = ([], ps) \<Longrightarrow>
   (\<forall>n. od_get ps n = (case od_get raw n of None \<Rightarrow> None | Some b \<Rightarrow> snd (parse_body None n b)))
   \<and> od_keys ps = od_keys raw
   \<and> (\<forall>(n, b)\<in>set raw. \<exists>p. parse_body None n b = ([], Some p))
   \<and> (\<forall>(n, p)\<in>set ps. po_name p = n \<and> policy_wf known p)"
proof (induction raw arbitrary: ps)
  case Nil
  then show ?case by simp
next
  case (Cons x raw)
  obtain n b where x: "x = (n, b)" by (cases x)
  obtain r where b: "parse_body known n b = ([], r)"
    using Cons.prems by (auto simp: x split: prod.splits)
  obtain ps' where ps': "parse_bodies known raw = ([], ps')"
    using Cons.prems by (auto simp: x split: prod.splits)
  from parse_body_ok [OF b] obtain p where p: "r = Some p" "policy_wf known p" "po_name p = n"
    "parse_body None n b = ([], Some p)" by auto
  have ps: "ps = (n, p) # ps'" using Cons.prems b ps' p(1) by (simp add: x)
  show ?case using Cons.IH [OF ps'] p by (simp add: x ps)
qed

lemma parse_bodies_None:
  "\<forall>(n, b)\<in>set raw. \<exists>p. parse_body None n b = ([], Some p) \<Longrightarrow> fst (parse_bodies None raw) = []"
  by (induction raw) (auto split: prod.splits option.splits)

section \<open>The store keeps its edits\<close>

definition edit_ok :: "string \<times> pyval \<Rightarrow> bool" where
  "edit_ok e \<longleftrightarrow> (\<exists>p. parse_body None (fst e) (snd e) = ([], Some p))"

text \<open>What the store answers for a name: the edit, else the file's policy unless removed.\<close>

definition answer :: "policy_store \<Rightarrow> string \<Rightarrow> policy option" where
  "answer st n =
     (case od_get (ps_edits st) n of
        Some b \<Rightarrow> snd (parse_body None n b)
      | None \<Rightarrow> if n \<in> ps_removed st then None else od_get (ps_set st) n)"

definition store_inv :: "policy_store \<Rightarrow> bool" where
  "store_inv st \<longleftrightarrow> od_wf (ps_edits st) \<and> list_all edit_ok (ps_edits st)
     \<and> od_get (ps_effective st) = answer st"

lemma merge_ok:
  assumes "od_wf (ps_edits st)" "list_all edit_ok (ps_edits st)"
  shows "\<exists>eff. merge st = Inr (st\<lparr>ps_effective := eff\<rparr>) \<and> store_inv (st\<lparr>ps_effective := eff\<rparr>)"
proof (cases "ps_edits st = []")
  case True
  then show ?thesis
    by (auto simp: merge_def store_inv_def answer_def fun_eq_iff od_get_drop_keys)
next
  case False
  have ok: "\<forall>(n, b)\<in>set (ps_edits st). \<exists>p. parse_body None n b = ([], Some p)"
    using assms(2) by (auto simp: list_all_iff edit_ok_def)
  obtain ps where ps: "parse_bodies None (ps_edits st) = ([], ps)"
    using parse_bodies_None [OF ok] by (cases "parse_bodies None (ps_edits st)") auto
  note f = parse_bodies_ok [OF ps]
  have wf: "od_wf ps" using f assms(1) by simp
  define eff where "eff = od_update (od_drop_where (\<lambda>n _. n \<in> ps_removed st) (ps_set st)) ps"
  have m: "merge st = Inr (st\<lparr>ps_effective := eff\<rparr>)"
    using False ps by (simp add: merge_def parse_policies_def eff_def)
  have "od_get eff n = answer st n" for n
  proof (cases "od_get (ps_edits st) n")
    case None
    then have "od_get ps n = None" using f by simp
    then show ?thesis using None by (simp add: eff_def od_get_update [OF wf] answer_def od_get_drop_keys)
  next
    case (Some b)
    then obtain p where "parse_body None n b = ([], Some p)" using ok map_of_SomeD by fastforce
    then have "od_get ps n = Some p" using f Some by simp
    then show ?thesis
      using Some f by (simp add: eff_def od_get_update [OF wf] answer_def)
  qed
  then have "od_get eff = answer st" by (simp add: fun_eq_iff)
  moreover have "answer (st\<lparr>ps_effective := eff\<rparr>) = answer st"
    by (simp add: answer_def fun_eq_iff split: option.split)
  ultimately show ?thesis using m assms by (auto simp: store_inv_def)
qed

text \<open>The fields that reloading a file leaves alone.\<close>

definition same_edits :: "policy_store \<Rightarrow> policy_store \<Rightarrow> bool" where
  "same_edits a b \<longleftrightarrow> ps_edits a = ps_edits b \<and> ps_removed a = ps_removed b \<and> ps_known a = ps_known b"

lemma answer_fields:
  "answer (st\<lparr>ps_mtime := m\<rparr>) = answer st" "answer (st\<lparr>ps_next_check := x\<rparr>) = answer st"
  "answer (st\<lparr>ps_last_error := e\<rparr>) = answer st" "answer (st\<lparr>ps_events := ev\<rparr>) = answer st"
  by (simp_all add: answer_def fun_eq_iff split: option.split)

lemma store_inv_fields:
  "store_inv (st\<lparr>ps_mtime := m\<rparr>) = store_inv st" "store_inv (st\<lparr>ps_next_check := x\<rparr>) = store_inv st"
  "store_inv (st\<lparr>ps_last_error := e\<rparr>) = store_inv st" "store_inv (st\<lparr>ps_events := ev\<rparr>) = store_inv st"
  by (simp_all add: store_inv_def answer_fields)

lemma load_ok:
  assumes "store_inv st"
  shows "\<exists>st'. load initial file st = Inr st' \<and> store_inv st' \<and> same_edits st' st"
proof (cases "file")
  case None
  then show ?thesis using assms by (simp add: load_def same_edits_def store_inv_fields)
next
  case (Some f)
  obtain mt c where f: "f = (mt, c)" by (cases f)
  show ?thesis
  proof (cases "ps_mtime st = Some mt")
    case True
    then show ?thesis using assms by (simp add: load_def Some f same_edits_def)
  next
    case new: False
    show ?thesis
    proof (cases "load_policies (ps_known st) c")
      case (Inl e)
      then show ?thesis
        using assms new by (simp add: load_def Some f same_edits_def store_inv_fields)
    next
      case (Inr ps)
      define st1 where "st1 = st\<lparr>ps_mtime := Some mt, ps_set := ps, ps_last_error := None,
        ps_reloads := ps_reloads st + 1\<rparr>"
      have "od_wf (ps_edits st1)" "list_all edit_ok (ps_edits st1)"
        using assms by (simp_all add: st1_def store_inv_def)
      from merge_ok [OF this] obtain eff where
        m: "merge st1 = Inr (st1\<lparr>ps_effective := eff\<rparr>)" "store_inv (st1\<lparr>ps_effective := eff\<rparr>)" by auto
      have "load initial file st = Inr (st1\<lparr>ps_effective := eff,
          ps_events := ps_events st1 @ [Reloaded (sort (od_keys eff))]\<rparr>)"
        using m(1) new by (simp add: load_def Some f Inr st1_def)
      moreover have "same_edits (st1\<lparr>ps_effective := eff, ps_events := ev\<rparr>) st" for ev
        by (simp add: same_edits_def st1_def)
      ultimately show ?thesis using m(2) by (simp add: store_inv_fields)
    qed
  qed
qed

lemma current_ok:
  assumes "store_inv st"
  shows "\<exists>st'. current now file st = Inr (ps_effective st', st') \<and> store_inv st' \<and> same_edits st' st"
proof (cases "now \<ge> ps_next_check st")
  case True
  have "store_inv (st\<lparr>ps_next_check := now + ps_interval st\<rparr>)" using assms by (simp add: store_inv_fields)
  from load_ok [OF this, of False "file"] True show ?thesis
    by (auto simp: current_def same_edits_def)
next
  case False
  then show ?thesis using assms by (simp add: current_def same_edits_def)
qed

lemma set_policy_ok:
  assumes inv: "store_inv st" and set: "set_policy name body st = r"
  shows "(\<exists>e. r = Inl e) \<or> (\<exists>p st'. r = Inr (p, st') \<and> store_inv st'
      \<and> ps_edits st' = od_set name body (ps_edits st) \<and> ps_removed st' = ps_removed st - {name}
      \<and> ps_known st' = ps_known st \<and> ps_set st' = ps_set st
      \<and> policy_wf (ps_known st) p \<and> po_name p = name \<and> answer st' name = Some p)"
proof (cases "\<exists>e. r = Inl e")
  case False
  then have rn: "runtime_name name" using set by (auto simp: set_policy_def split: if_splits)
  obtain d where d: "body = PDict d"
    using False set by (cases body) (auto simp: set_policy_def split: if_splits)
  obtain ps where ps: "parse_policies (ps_known st) (PDict [(''policies'', PDict [(name, body)])]) = Inr ps"
    using False set d rn by (cases "parse_policies (ps_known st) (PDict [(''policies'', PDict [(name, body)])])")
      (auto simp: set_policy_def)
  obtain e r0 where pb: "parse_body (ps_known st) name body = (e, r0)" by (cases "parse_body (ps_known st) name body")
  have "e = []" using ps pb by (auto simp: parse_policies_def split: if_splits)
  with pb obtain p where p: "policy_wf (ps_known st) p" "po_name p = name"
    "parse_body None name body = ([], Some p)" using parse_body_ok by blast
  define st1 where "st1 = st\<lparr>ps_edits := od_set name body (ps_edits st), ps_removed := ps_removed st - {name}\<rparr>"
  have "edit_ok (name, body)" using p by (simp add: edit_ok_def)
  then have "od_wf (ps_edits st1)" "list_all edit_ok (ps_edits st1)"
    using inv by (auto simp: st1_def store_inv_def list_all_iff dest!: set_od_setD)
  from merge_ok [OF this] obtain eff where
    m: "merge st1 = Inr (st1\<lparr>ps_effective := eff\<rparr>)" "store_inv (st1\<lparr>ps_effective := eff\<rparr>)" by auto
  have ans: "answer (st1\<lparr>ps_effective := eff\<rparr>) name = Some p" using p(3) by (simp add: answer_def st1_def)
  then have "od_get eff name = Some p" using m(2) by (simp add: store_inv_def)
  then have "r = Inr (p, st1\<lparr>ps_effective := eff\<rparr>)"
    using set [symmetric] rn d ps m(1) by (simp add: set_policy_def st1_def)
  then show ?thesis using m(2) p ans by (simp add: st1_def)
qed simp

lemma set_policy_accepted:
  assumes "store_inv st" "runtime_name name"
    and ps: "parse_policies (ps_known st) (PDict [(''policies'', PDict [(name, PDict d)])]) = Inr ps"
  shows "\<exists>r. set_policy name (PDict d) st = Inr r"
proof -
  define st1 where "st1 = st\<lparr>ps_edits := od_set name (PDict d) (ps_edits st), ps_removed := ps_removed st - {name}\<rparr>"
  obtain e r0 where pb: "parse_body (ps_known st) name (PDict d) = (e, r0)"
    by (cases "parse_body (ps_known st) name (PDict d)")
  have "e = []" using ps pb by (auto simp: parse_policies_def split: if_splits)
  with pb have "\<exists>p. parse_body None name (PDict d) = ([], Some p)" using parse_body_ok by blast
  then have "edit_ok (name, PDict d)" by (simp add: edit_ok_def)
  then have "od_wf (ps_edits st1)" "list_all edit_ok (ps_edits st1)"
    using assms(1) by (auto simp: st1_def store_inv_def list_all_iff dest!: set_od_setD)
  from merge_ok [OF this] obtain eff where "merge st1 = Inr (st1\<lparr>ps_effective := eff\<rparr>)" by auto
  then show ?thesis using assms(2) ps by (simp add: set_policy_def st1_def)
qed

lemma remove_policy_ok:
  assumes inv: "store_inv st"
  shows "\<exists>b st'. remove_policy name st = Inr (b, st') \<and> store_inv st'
      \<and> ps_edits st' = od_pop name (ps_edits st) \<and> ps_known st' = ps_known st
      \<and> ps_set st' = ps_set st
      \<and> ps_removed st' = (if od_has (ps_set st) name then insert name (ps_removed st) else ps_removed st)"
proof -
  define st1 where "st1 = st\<lparr>ps_edits := od_pop name (ps_edits st),
    ps_removed := (if od_has (ps_set st) name then insert name (ps_removed st) else ps_removed st)\<rparr>"
  have "od_wf (ps_edits st1)" "list_all edit_ok (ps_edits st1)"
    using inv by (auto simp: st1_def store_inv_def list_all_iff dest!: set_od_popD)
  from merge_ok [OF this] obtain eff where
    m: "merge st1 = Inr (st1\<lparr>ps_effective := eff\<rparr>)" "store_inv (st1\<lparr>ps_effective := eff\<rparr>)" by auto
  have "remove_policy name st = Inr (od_has (ps_effective st) name \<or> od_has (ps_edits st) name,
      st1\<lparr>ps_effective := eff\<rparr>)"
    using m(1) by (auto simp: remove_policy_def Let_def st1_def simp del: od_has_iff split: if_splits)
  then show ?thesis using m(2) by (simp add: st1_def)
qed

section \<open>Histories of a store\<close>

datatype store_op = OpCurrent time policy_file | OpSet string pyval | OpRemove string

text \<open>An operation that raises leaves the store as it was.\<close>

fun store_step :: "store_op \<Rightarrow> policy_store \<Rightarrow> policy_store" where
  "store_step (OpCurrent now f) st = (case current now f st of Inl _ \<Rightarrow> st | Inr (_, st) \<Rightarrow> st)"
| "store_step (OpSet n b) st = (case set_policy n b st of Inl _ \<Rightarrow> st | Inr (_, st) \<Rightarrow> st)"
| "store_step (OpRemove n) st = (case remove_policy n st of Inl _ \<Rightarrow> st | Inr (_, st) \<Rightarrow> st)"

fun edits_name :: "string \<Rightarrow> store_op \<Rightarrow> bool" where
  "edits_name n (OpCurrent _ _) = False"
| "edits_name n (OpSet m _) = (m = n)"
| "edits_name n (OpRemove m) = (m = n)"

text \<open>The runtime decision about a name: the edit and whether the file's policy is hidden.\<close>

definition decision :: "string \<Rightarrow> policy_store \<Rightarrow> pyval option \<times> bool" where
  "decision n st = (od_get (ps_edits st) n, n \<in> ps_removed st)"

lemma step_keeps_decision:
  assumes "store_inv st" "\<not> edits_name n op"
  shows "store_inv (store_step op st) \<and> decision n (store_step op st) = decision n st"
proof (cases op)
  case (OpCurrent now f)
  from current_ok [OF assms(1), of now f] obtain st' where
    "current now f st = Inr (ps_effective st', st')" "store_inv st'" "same_edits st' st" by auto
  then show ?thesis by (simp add: OpCurrent same_edits_def decision_def)
next
  case (OpSet m b)
  show ?thesis
  proof (cases "set_policy m b st")
    case (Inl e)
    then show ?thesis using assms by (simp add: OpSet)
  next
    case (Inr r)
    from set_policy_ok [OF assms(1) Inr] obtain p st' where st': "r = (p, st')" "store_inv st'"
      "ps_edits st' = od_set m b (ps_edits st)" "ps_removed st' = ps_removed st - {m}"
      by blast
    then show ?thesis using assms(2) Inr by (simp add: OpSet decision_def)
  qed
next
  case (OpRemove m)
  from remove_policy_ok [OF assms(1), of m] obtain b st' where st': "remove_policy m st = Inr (b, st')"
    "store_inv st'" "ps_edits st' = od_pop m (ps_edits st)"
    "ps_removed st' = (if od_has (ps_set st) m then insert m (ps_removed st) else ps_removed st)"
    by blast
  then show ?thesis using assms(2) by (simp add: OpRemove decision_def del: od_has_iff)
qed

interpretation store_runs: op_system store_step "\<lambda>op. \<not> edits_name n op"
  "\<lambda>st. store_inv st \<and> decision n st = dn" for n dn
  using step_keeps_decision by unfold_locales simp

lemma decision_answer:
  assumes "store_inv st"
  shows "fst (decision n st) = Some b \<Longrightarrow> od_get (ps_effective st) n = snd (parse_body None n b)"
    and "decision n st = (None, True) \<Longrightarrow> od_get (ps_effective st) n = None"
  using assms unfolding store_inv_def decision_def answer_def fst_conv
  by (auto simp only: option.case prod.inject if_True)

lemma runtime_name_nonempty: "runtime_name n \<Longrightarrow> n \<noteq> []"
  by (auto simp: runtime_name_def)

section \<open>Properties\<close>

text \<open>
  Validation is complete: a document is either rejected or every policy it yields is
  well-formed, with weights that are non-negative and add up to one, positive ceiling and
  hedge delay, a chain without duplicates, disjoint allow and deny lists, the provider or chain its
  strategy needs, and only known provider names.
\<close>

theorem accepted_policies_well_formed:
  assumes "parse_policies known doc = Inr ps"
  shows "\<forall>(n, p)\<in>set ps. po_name p = n \<and> policy_wf known p"
  using assms parse_bodies_ok [of known]
  by (fastforce simp: parse_policies_def split: pyval.splits option.splits if_splits prod.splits)

definition cheap_policy_doc :: pyval where
  "cheap_policy_doc = PDict [(''policies'', PDict [(''bulk'', PDict
     [(''strategy'', PStr ''cheapest''), (''deny'', PList [PStr ''grok''])])])]"

definition cheap_policy :: policy where
  "cheap_policy = \<lparr>po_name = ''bulk'', po_strategy = PCheapest, po_cost_weight = 7 / 10,
     po_latency_weight = 3 / 10, po_latency_ceiling_ms = None, po_hedge_after_ms = None,
     po_fallback_chain = [], po_fallback_model = None, po_provider = None, po_model = None,
     po_allow = None, po_deny = {''grok''}\<rparr>"

lemma cheap_policy_body:
  "parse_body (Some [''grok'']) ''bulk'' (PDict [(''strategy'', PStr ''cheapest''), (''deny'', PList [PStr ''grok''])])
     = ([], Some cheap_policy)"
  by (simp add: parse_body_def cheap_policy_def POLICY_KEYS_def STRATEGIES_def get_or_def
      parse_strategy_def parse_weights_def default_weights_def parse_positive_def name_list_def
      check_known_def parse_allow_def parse_provider_def not_string_def)

lemma cheap_policy_parses: "parse_policies (Some [''grok'']) cheap_policy_doc = Inr [(''bulk'', cheap_policy)]"
  by (simp add: parse_policies_def cheap_policy_doc_def cheap_policy_body)

theorem accepted_policies_well_formed_witness:
  "parse_policies (Some [''grok'']) cheap_policy_doc = Inr [(''bulk'', cheap_policy)]
   \<and> policy_wf (Some [''grok'']) cheap_policy"
  using accepted_policies_well_formed [OF cheap_policy_parses] cheap_policy_parses by simp

text \<open>
  Runtime edits survive reloads and merging never raises. From a consistent store, after
  an accepted edit every later lookup gives exactly the edited policy, and after a removal that hid
  a file policy every later lookup gives none, whatever the file contains on later reloads and
  whatever other names are edited, until the name itself is edited again.
\<close>

theorem policy_edits_survive_reloads:
  assumes inv: "store_inv st" and ops: "list_all (\<lambda>op. \<not> edits_name n op) ops"
  shows "(\<forall>body p st1. set_policy n body st = Inr (p, st1) \<longrightarrow>
        (\<exists>eff st2. current now file (fold store_step ops st1) = Inr (eff, st2) \<and> policy_get eff (Some n) = Some p))
    \<and> (\<forall>b st1. remove_policy n st = Inr (b, st1) \<longrightarrow> od_has (ps_set st) n \<longrightarrow> n \<noteq> [] \<longrightarrow>
        (\<exists>eff st2. current now file (fold store_step ops st1) = Inr (eff, st2) \<and> policy_get eff (Some n) = None))"
proof -
  have later: "\<exists>st2. current now file (fold store_step ops s) = Inr (ps_effective st2, st2)
      \<and> store_inv st2 \<and> decision n st2 = decision n s" if s: "store_inv s" for s
  proof -
    have f: "store_inv (fold store_step ops s) \<and> decision n (fold store_step ops s) = decision n s"
      by (rule store_runs.inv_run [OF ops]) (use s in simp)
    from current_ok [OF conjunct1 [OF f], of now "file"] show ?thesis
      using f by (auto simp: same_edits_def decision_def)
  qed
  have "\<exists>eff st2. current now file (fold store_step ops st1) = Inr (eff, st2) \<and> policy_get eff (Some n) = Some p"
    if set: "set_policy n body st = Inr (p, st1)" for body p st1
  proof -
    have "runtime_name n" using set by (simp add: set_policy_def split: if_splits)
    then have ne: "n \<noteq> []" by (rule runtime_name_nonempty)
    from set_policy_ok [OF inv set] have s1: "store_inv st1" "answer st1 n = Some p"
      "ps_edits st1 = od_set n body (ps_edits st)" by auto
    then have d: "fst (decision n st1) = Some body" by (simp add: decision_def)
    from later [OF s1(1)] obtain st2 where st2: "current now file (fold store_step ops st1) = Inr (ps_effective st2, st2)"
      "store_inv st2" "decision n st2 = decision n st1" by blast
    have "od_get (ps_effective st2) n = od_get (ps_effective st1) n"
      using decision_answer(1) [OF st2(2), of n body] decision_answer(1) [OF s1(1), of n body] d st2(3) by simp
    also have "\<dots> = Some p" using s1 by (simp add: store_inv_def)
    finally show ?thesis using st2(1) ne by (simp add: policy_get_def)
  qed
  moreover have "\<exists>eff st2. current now file (fold store_step ops st1) = Inr (eff, st2) \<and> policy_get eff (Some n) = None"
    if rm: "remove_policy n st = Inr (b, st1)" and f: "od_has (ps_set st) n" and ne: "n \<noteq> []" for b st1
  proof -
    from remove_policy_ok [OF inv, of n] rm f have s1: "store_inv st1" "decision n st1 = (None, True)"
      by (simp_all add: decision_def del: od_has_iff)
    from later [OF s1(1)] obtain st2 where st2: "current now file (fold store_step ops st1) = Inr (ps_effective st2, st2)"
      "store_inv st2" "decision n st2 = decision n st1" by blast
    then show ?thesis using decision_answer(2) [OF st2(2), of n] s1(2) ne by (simp add: policy_get_def)
  qed
  ultimately show ?thesis by blast
qed

definition empty_store :: policy_store where
  "empty_store = \<lparr>ps_known = Some [''grok''], ps_interval = 2, ps_mtime = None, ps_next_check = 2,
     ps_last_error = None, ps_reloads = 0, ps_set = [], ps_edits = [], ps_removed = {},
     ps_effective = [], ps_events = []\<rparr>"

lemma empty_store_inv: "store_inv empty_store"
  by (simp add: empty_store_def store_inv_def answer_def fun_eq_iff)

lemma bulk_is_a_name: "runtime_name ''bulk''"
  by (simp add: runtime_name_def alnum_def)

definition bulk_body :: pyval where
  "bulk_body = PDict [(''strategy'', PStr ''cheapest''), (''deny'', PList [PStr ''grok''])]"

theorem policy_edits_survive_reloads_witness:
  "\<exists>p st1 eff st2. set_policy ''bulk'' bulk_body empty_store = Inr (p, st1)
     \<and> current 10 (Some (5, None)) (fold store_step [OpCurrent 3 None] st1) = Inr (eff, st2)
     \<and> policy_get eff (Some ''bulk'') = Some p"
proof -
  have "parse_policies (ps_known empty_store) (PDict [(''policies'', PDict [(''bulk'', bulk_body)])])
      = Inr [(''bulk'', cheap_policy)]"
    using cheap_policy_body by (simp add: parse_policies_def bulk_body_def empty_store_def)
  then have "\<not> (\<exists>e. set_policy ''bulk'' bulk_body empty_store = Inl e)"
    using set_policy_accepted [OF empty_store_inv bulk_is_a_name, of _ "[(''bulk'', cheap_policy)]"]
    unfolding bulk_body_def by fastforce
  with set_policy_ok [OF empty_store_inv refl, of "''bulk''" bulk_body]
  obtain p st1 where "set_policy ''bulk'' bulk_body empty_store = Inr (p, st1)" by blast
  with policy_edits_survive_reloads [OF empty_store_inv,
      of "''bulk''" "[OpCurrent 3 None]" 10 "Some (5, None)"] show ?thesis by fastforce
qed

lemma store_new_inv: "\<exists>st. store_new known interval f now = Inr st \<and> store_inv st"
proof -
  define st0 where "st0 = \<lparr>ps_known = known, ps_interval = interval, ps_mtime = None, ps_next_check = 0,
            ps_last_error = None, ps_reloads = 0, ps_set = [], ps_edits = [], ps_removed = {},
            ps_effective = [], ps_events = []\<rparr>"
  have "store_inv st0" by (simp add: st0_def store_inv_def answer_def fun_eq_iff)
  from load_ok [OF this, of True f] obtain st1 where st1: "load True f st0 = Inr st1" "store_inv st1" by auto
  then have "od_wf (ps_edits st1)" "list_all edit_ok (ps_edits st1)" by (simp_all add: store_inv_def)
  from merge_ok [OF this] st1(1) show ?thesis
    by (auto simp: store_new_def Let_def st0_def [symmetric] store_inv_fields)
qed

lemma rejected_reload_keeps:
  assumes "load_policies (ps_known st) c = Inl e" "ps_next_check st \<le> now" "ps_mtime st \<noteq> Some mt"
  shows "\<exists>st'. current now (Some (mt, c)) st = Inr (ps_effective st, st') \<and> ps_last_error st' = Some e"
  using assms by (simp add: current_def load_def)

end
