(* ===== verification/Messages.thy ===== *)
theory Messages
  imports Prelude
begin

text \<open>
  \<open>src/providers/base.py\<close>: messages, requests and responses, the checks on a conversation, the
  normalisation of system prompts, tool calls and images into the OpenAI wire format, and the
  usage record of a stream.
\<close>

section \<open>Data\<close>

record tool_call =
  tc_id :: string
  tc_name :: string
  tc_arguments :: "string option"

text \<open>An image is a dict with a \<open>url\<close>, or with \<open>media_type\<close> and \<open>data\<close>.\<close>

record image =
  im_url :: "string option"
  im_media_type :: string
  im_data :: string

record message =
  ms_role :: string
  ms_content :: string
  ms_tool_calls :: "tool_call list"
  ms_tool_call_id :: "string option"
  ms_images :: "image list"

record stream_usage =
  su_input_tokens :: int
  su_output_tokens :: int
  su_model :: string
  su_reported :: bool
  su_estimated :: bool
  su_completed :: bool
  su_cost_usd :: real
  su_provider :: string
  su_opened_model :: string

definition stream_usage_new :: stream_usage where
  "stream_usage_new = \<lparr>su_input_tokens = 0, su_output_tokens = 0, su_model = [], su_reported = False,
     su_estimated = False, su_completed = False, su_cost_usd = 0, su_provider = [], su_opened_model = []\<rparr>"

text \<open>\<open>_count\<close>: \<open>int\<close> truncates, which is the floor for a number that is not negative.\<close>

fun token_count :: "pyval \<Rightarrow> int option" where
  "token_count (PInt n) = (if n \<ge> 0 then Some n else None)"
| "token_count (PFloat r) = (if r \<ge> 0 then Some \<lfloor>r\<rfloor> else None)"
| "token_count _ = None"

definition report :: "pyval \<Rightarrow> pyval \<Rightarrow> pyval \<Rightarrow> stream_usage \<Rightarrow> stream_usage" where
  "report i o' model u =
     (case (token_count i, token_count o') of
        (None, None) \<Rightarrow> u
      | (ci, co) \<Rightarrow>
          u\<lparr>su_input_tokens := (case ci of Some n \<Rightarrow> n | None \<Rightarrow> su_input_tokens u),
            su_output_tokens := (case co of Some n \<Rightarrow> n | None \<Rightarrow> su_output_tokens u),
            su_model := (case model of PStr m \<Rightarrow> if m \<noteq> [] then m else su_model u | _ \<Rightarrow> su_model u),
            su_reported := True\<rparr>)"

record request =
  rq_messages :: "message list"
  rq_model :: "string option"
  rq_max_tokens :: int
  rq_temperature :: real
  rq_stream :: bool
  rq_system_prompt :: "string option"
  rq_metadata :: "(string \<times> pyval) list"
  rq_tools :: "pyval list"
  rq_tool_choice :: pyval
  rq_response_format :: pyval

definition cacheable :: "request \<Rightarrow> bool" where
  "cacheable r \<longleftrightarrow> rq_tools r = [] \<and>
     \<not> list_ex (\<lambda>m. ms_tool_calls m \<noteq> [] \<or> ms_images m \<noteq> [] \<or> ms_role m = ''tool'') (rq_messages r)"

record completion =
  co_content :: string
  co_model :: string
  co_provider :: string
  co_input_tokens :: int
  co_output_tokens :: int
  co_cost_usd :: real
  co_latency_ms :: real
  co_cached :: bool
  co_failed_over_from :: "string list option"
  co_hedged :: bool
  co_original_cost_usd :: "real option"
  co_tool_calls :: "tool_call list"

section \<open>Checking a conversation\<close>

definition VALID_ROLES :: "string list" where
  "VALID_ROLES = [''system'', ''user'', ''assistant'', ''tool'']"

definition is_role :: "string \<Rightarrow> message \<Rightarrow> bool" where
  "is_role r m \<longleftrightarrow> ms_role m = r"

datatype conversation_error =
    NoMessages | InvalidRole string | OnlySystem | FirstNotUser | LastNotUserOrTool | ToolWithoutId

text \<open>\<open>not m.tool_call_id\<close>: missing or empty.\<close>

definition blank :: "string option \<Rightarrow> bool" where
  "blank s \<longleftrightarrow> s = None \<or> s = Some []"

definition non_system :: "message list \<Rightarrow> message list" where
  "non_system ms = filter (\<lambda>m. \<not> is_role ''system'' m) ms"

definition validate_conversation :: "message list \<Rightarrow> conversation_error + unit" where
  "validate_conversation ms =
     (if ms = [] then Inl NoMessages
      else case filter (\<lambda>m. ms_role m \<notin> set VALID_ROLES) ms of
          m # _ \<Rightarrow> Inl (InvalidRole (ms_role m))
        | [] \<Rightarrow>
            (let rest = non_system ms
             in if rest = [] then Inl OnlySystem
                else if \<not> is_role ''user'' (hd rest) then Inl FirstNotUser
                else if \<not> is_role ''user'' (last rest) \<and> \<not> is_role ''tool'' (last rest) then Inl LastNotUserOrTool
                else if list_ex (\<lambda>m. is_role ''tool'' m \<and> blank (ms_tool_call_id m)) rest then Inl ToolWithoutId
                else Inr ()))"

section \<open>System prompts\<close>

text \<open>\<open>"\n\n".join(parts) or None\<close>.\<close>

fun joined :: "string list \<Rightarrow> string" where
  "joined [] = []"
| "joined [p] = p"
| "joined (p # q # ps) = p @ [CHR 0x0A, CHR 0x0A] @ joined (q # ps)"

definition text_or_none :: "string \<Rightarrow> string option" where
  "text_or_none s = (if s = [] then None else Some s)"

definition option_parts :: "string option \<Rightarrow> string list" where
  "option_parts s = (case s of None \<Rightarrow> [] | Some p \<Rightarrow> if p = [] then [] else [p])"

fun split_loop :: "message list \<Rightarrow> string list \<Rightarrow> message list \<Rightarrow> string list \<times> message list" where
  "split_loop [] parts rest = (parts, rest)"
| "split_loop (m # ms) parts rest =
     (if is_role ''system'' m
      then split_loop ms (if ms_content m \<noteq> [] then parts @ [ms_content m] else parts) rest
      else split_loop ms parts (rest @ [m]))"

definition split_system :: "request \<Rightarrow> string option \<times> message list" where
  "split_system r =
     (case split_loop (rq_messages r) (option_parts (rq_system_prompt r)) [] of
        (parts, rest) \<Rightarrow> (text_or_none (joined parts), rest))"

definition request_images :: "request \<Rightarrow> image list" where
  "request_images r = concat (map ms_images (rq_messages r))"

section \<open>The OpenAI wire format\<close>

datatype wire_part = TextPart string | ImagePart string

datatype wire_message =
    WSystem string
  | WTool "string option" string
  | WAssistant "string option" "(string \<times> string \<times> string) list"
  | WParts string "wire_part list"
  | WPlain string string

fun wire_role :: "wire_message \<Rightarrow> string" where
  "wire_role (WSystem _) = ''system''"
| "wire_role (WTool _ _) = ''tool''"
| "wire_role (WAssistant _ _) = ''assistant''"
| "wire_role (WParts r _) = r"
| "wire_role (WPlain r _) = r"

definition image_url :: "image \<Rightarrow> string" where
  "image_url i =
     (case option_parts (im_url i) of
        u # _ \<Rightarrow> u
      | [] \<Rightarrow> ''data:'' @ im_media_type i @ '';base64,'' @ im_data i)"

definition wire_call :: "tool_call \<Rightarrow> string \<times> string \<times> string" where
  "wire_call c = (tc_id c, tc_name c,
     (case option_parts (tc_arguments c) of a # _ \<Rightarrow> a | [] \<Rightarrow> ''{}''))"

definition wire_of :: "message \<Rightarrow> wire_message" where
  "wire_of m =
     (if is_role ''tool'' m then WTool (ms_tool_call_id m) (ms_content m)
      else if is_role ''assistant'' m \<and> ms_tool_calls m \<noteq> []
      then WAssistant (text_or_none (ms_content m)) (map wire_call (ms_tool_calls m))
      else if ms_images m \<noteq> []
      then WParts (ms_role m)
             ((if ms_content m \<noteq> [] then [TextPart (ms_content m)] else [])
              @ map (ImagePart \<circ> image_url) (ms_images m))
      else WPlain (ms_role m) (ms_content m))"

definition openai_messages :: "request \<Rightarrow> string option \<Rightarrow> wire_message list" where
  "openai_messages r extra =
     (case split_system r of
        (system, rest) \<Rightarrow>
          (let system = text_or_none (joined (option_parts system @ option_parts extra))
           in (case system of None \<Rightarrow> [] | Some s \<Rightarrow> [WSystem s]) @ map wire_of rest))"

section \<open>Tools and finish reasons\<close>

definition dict_get :: "pyval \<Rightarrow> string \<Rightarrow> pyval" where
  "dict_get v k = (case v of PDict d \<Rightarrow> (case map_of d k of Some x \<Rightarrow> x | None \<Rightarrow> PNone) | _ \<Rightarrow> PNone)"

definition or_else :: "pyval \<Rightarrow> pyval \<Rightarrow> pyval" where
  "or_else v dflt = (if falsy v then dflt else v)"

definition has_key :: "pyval \<Rightarrow> string \<Rightarrow> pyval \<Rightarrow> pyval" where
  "has_key v k dflt = (case v of PDict d \<Rightarrow> (case map_of d k of Some x \<Rightarrow> x | None \<Rightarrow> dflt) | _ \<Rightarrow> dflt)"

text \<open>\<open>tool_specs\<close> over tools that are dicts: name, description, parameters.\<close>

definition tool_specs :: "request \<Rightarrow> (pyval \<times> pyval \<times> pyval) list" where
  "tool_specs r =
     map (\<lambda>t. let fn = or_else (dict_get t ''function'') (PDict [])
              in (has_key fn ''name'' (PStr []), has_key fn ''description'' (PStr []),
                  or_else (dict_get fn ''parameters'')
                    (PDict [(''type'', PStr ''object''), (''properties'', PDict [])])))
       (rq_tools r)"

definition forced_tool_name :: "pyval \<Rightarrow> pyval" where
  "forced_tool_name choice =
     (case choice of PDict _ \<Rightarrow> dict_get (or_else (dict_get choice ''function'') (PDict [])) ''name'' | _ \<Rightarrow> PNone)"

text \<open>\<open>parse_arguments\<close>; \<open>loads\<close> is \<open>json.loads\<close>, \<open>None\<close> when it raises.\<close>

definition parse_arguments :: "(string \<Rightarrow> pyval option) \<Rightarrow> pyval \<Rightarrow> (string \<times> pyval) list" where
  "parse_arguments loads raw =
     (case raw of
        PDict d \<Rightarrow> d
      | _ \<Rightarrow>
          (if falsy raw then []
           else case raw of
               PStr s \<Rightarrow> (case loads s of Some (PDict d) \<Rightarrow> d | _ \<Rightarrow> [])
             | _ \<Rightarrow> []))"

definition normalize_finish_reason :: "string option \<Rightarrow> string option" where
  "normalize_finish_reason raw =
     (case raw of
        None \<Rightarrow> None
      | Some s \<Rightarrow>
          (let r = str_lower s
           in if r \<in> set [''tool_calls'', ''tool_use'', ''function_call''] then Some ''tool_calls''
              else if r \<in> set [''length'', ''max_tokens'', ''max_output_tokens''] then Some ''length''
              else if r \<in> set [''content_filter'', ''safety'', ''refusal'', ''recitation'', ''blocklist'']
              then Some ''content_filter''
              else Some ''stop''))"

section \<open>Facts\<close>

lemma split_loop_spec:
  "split_loop ms parts rest =
     (parts @ filter (\<lambda>c. c \<noteq> []) (map ms_content (filter (is_role ''system'') ms)), rest @ non_system ms)"
  by (induction ms arbitrary: parts rest) (simp_all add: non_system_def)

lemma split_system_rest: "snd (split_system r) = non_system (rq_messages r)"
  by (simp add: split_system_def split_loop_spec)

lemma joined_empty: "\<forall>p\<in>set ps. p \<noteq> [] \<Longrightarrow> joined ps = [] \<longleftrightarrow> ps = []"
  by (induction ps rule: joined.induct) auto

lemma wire_role_of: "wire_role (wire_of m) = ms_role m"
  by (simp add: wire_of_def is_role_def)

lemma validate_conversation_iff:
  "validate_conversation ms = Inr () \<longleftrightarrow>
     (\<forall>m\<in>set ms. ms_role m \<in> set VALID_ROLES) \<and> non_system ms \<noteq> []
   \<and> is_role ''user'' (hd (non_system ms))
   \<and> (is_role ''user'' (last (non_system ms)) \<or> is_role ''tool'' (last (non_system ms)))
   \<and> (\<forall>m\<in>set (non_system ms). is_role ''tool'' m \<longrightarrow> \<not> blank (ms_tool_call_id m))"
  unfolding validate_conversation_def
  by (auto simp: Let_def list_ex_iff non_system_def filter_empty_conv
      split: list.splits if_splits dest!: filter_eq_ConsD)

lemma token_count_nonneg: "token_count v = Some n \<Longrightarrow> 0 \<le> n"
  by (cases v) (auto split: if_splits)

lemma report_nonneg:
  "0 \<le> su_input_tokens u \<Longrightarrow> 0 \<le> su_output_tokens u \<Longrightarrow>
   0 \<le> su_input_tokens (report i out m u) \<and> 0 \<le> su_output_tokens (report i out m u)"
  by (auto simp: report_def token_count_nonneg split: option.splits)

section \<open>Reading the wire format back\<close>

text \<open>What a receiver of the OpenAI format reads in a message: role, text, tool calls, the call a result answers, images.\<close>

fun read_part :: "wire_part \<Rightarrow> string \<times> image list" where
  "read_part (TextPart t) = (t, [])"
| "read_part (ImagePart u) = ([], [\<lparr>im_url = Some u, im_media_type = [], im_data = []\<rparr>])"

fun read_wire :: "wire_message \<Rightarrow> message" where
  "read_wire (WSystem s) = \<lparr>ms_role = ''system'', ms_content = s, ms_tool_calls = [], ms_tool_call_id = None, ms_images = []\<rparr>"
| "read_wire (WTool i c) = \<lparr>ms_role = ''tool'', ms_content = c, ms_tool_calls = [], ms_tool_call_id = i, ms_images = []\<rparr>"
| "read_wire (WAssistant c cs) = \<lparr>ms_role = ''assistant'', ms_content = (case c of None \<Rightarrow> [] | Some t \<Rightarrow> t),
     ms_tool_calls = map (\<lambda>(i, n, a). \<lparr>tc_id = i, tc_name = n, tc_arguments = Some a\<rparr>) cs,
     ms_tool_call_id = None, ms_images = []\<rparr>"
| "read_wire (WParts r ps) = \<lparr>ms_role = r, ms_content = concat (map (fst \<circ> read_part) ps), ms_tool_calls = [],
     ms_tool_call_id = None, ms_images = concat (map (snd \<circ> read_part) ps)\<rparr>"
| "read_wire (WPlain r c) = \<lparr>ms_role = r, ms_content = c, ms_tool_calls = [], ms_tool_call_id = None, ms_images = []\<rparr>"

text \<open>Missing arguments are an empty object, and an image is its URL, a data URL if it is inline.\<close>

definition with_arguments :: "tool_call \<Rightarrow> tool_call" where
  "with_arguments c = (if blank (tc_arguments c) then c\<lparr>tc_arguments := Some ''{}''\<rparr> else c)"

definition as_url :: "image \<Rightarrow> image" where
  "as_url i = \<lparr>im_url = Some (if blank (im_url i) then ''data:'' @ im_media_type i @ '';base64,'' @ im_data i
     else the (im_url i)), im_media_type = [], im_data = []\<rparr>"

definition spelled_out :: "message \<Rightarrow> message" where
  "spelled_out m = m\<lparr>ms_tool_calls := map with_arguments (ms_tool_calls m), ms_images := map as_url (ms_images m)\<rparr>"

text \<open>The shapes of messages that the request converters and the tool loops build.\<close>

definition well_shaped :: "message \<Rightarrow> bool" where
  "well_shaped m \<longleftrightarrow>
     (if ms_role m = ''tool'' then ms_tool_calls m = [] \<and> ms_images m = []
      else ms_tool_call_id m = None
        \<and> (if ms_role m = ''assistant'' then ms_tool_calls m = [] \<or> ms_images m = [] else ms_tool_calls m = []))"

lemma read_image: "read_part (ImagePart (image_url i)) = ([], [as_url i])"
  by (auto simp: image_url_def as_url_def option_parts_def blank_def split: option.split)

lemma read_images:
  "concat (map (fst \<circ> read_part) (map (ImagePart \<circ> image_url) is)) = []"
  "concat (map (snd \<circ> read_part) (map (ImagePart \<circ> image_url) is)) = map as_url is"
  by (induction "is") (simp_all add: read_image del: read_part.simps)

lemma read_calls:
  "map (\<lambda>(i, n, a). \<lparr>tc_id = i, tc_name = n, tc_arguments = Some a\<rparr>) (map wire_call cs) = map with_arguments cs"
  by (induction cs) (auto simp: wire_call_def with_arguments_def option_parts_def blank_def split: option.split)

lemma read_wire_of: "well_shaped m \<Longrightarrow> read_wire (wire_of m) = spelled_out m"
  by (cases m)
    (auto simp: wire_of_def well_shaped_def spelled_out_def is_role_def read_images read_calls text_or_none_def
      simp del: map_map split: if_splits)

lemma joined_append: "ps \<noteq> [] \<Longrightarrow> qs \<noteq> [] \<Longrightarrow> joined (ps @ qs) = joined ps @ [CHR 0x0A, CHR 0x0A] @ joined qs"
proof (induction ps rule: joined.induct)
  case (2 p)
  then show ?case by (cases qs) simp_all
qed simp_all

lemma joined_lines:
  "ps \<noteq> [] \<Longrightarrow> joined ps = concat (map (\<lambda>p. p @ [CHR 0x0A, CHR 0x0A]) (butlast ps)) @ last ps"
  by (induction ps rule: joined.induct) simp_all

lemma joined_twice:
  assumes "\<forall>p\<in>set ps. p \<noteq> []" "\<forall>p\<in>set qs. p \<noteq> []"
  shows "joined (option_parts (text_or_none (joined ps)) @ qs) = joined (ps @ qs)"
  using joined_empty [OF assms(1)]
  by (cases "ps = []"; cases qs) (simp_all add: text_or_none_def option_parts_def joined_append)

text \<open>All system prompts of a request in the order in which they are sent.\<close>

definition system_prompts :: "request \<Rightarrow> string option \<Rightarrow> string list" where
  "system_prompts r extra =
     filter (\<lambda>p. p \<noteq> [])
       ((case rq_system_prompt r of None \<Rightarrow> [] | Some p \<Rightarrow> [p])
        @ map ms_content (filter (\<lambda>m. ms_role m = ''system'') (rq_messages r))
        @ (case extra of None \<Rightarrow> [] | Some p \<Rightarrow> [p]))"

lemma openai_messages_form:
  "openai_messages r extra =
     (if system_prompts r extra = [] then [] else [WSystem (joined (system_prompts r extra))])
     @ map wire_of (non_system (rq_messages r))"
proof -
  define ps where "ps = option_parts (rq_system_prompt r) @ filter (\<lambda>c. c \<noteq> []) (map ms_content (filter (is_role ''system'') (rq_messages r)))"
  have ne: "\<forall>p\<in>set ps. p \<noteq> []" "\<forall>p\<in>set (option_parts extra). p \<noteq> []"
    by (auto simp: ps_def option_parts_def split: option.splits if_splits)
  have sp: "system_prompts r extra = ps @ option_parts extra"
    by (auto simp: system_prompts_def ps_def option_parts_def is_role_def [abs_def] split: option.split)
  have e: "joined (ps @ option_parts extra) = [] \<longleftrightarrow> ps @ option_parts extra = []"
    using ne by (intro joined_empty) auto
  have "split_system r = (text_or_none (joined ps), non_system (rq_messages r))"
    by (simp add: split_system_def split_loop_spec ps_def)
  then show ?thesis
    using joined_twice [OF ne] e by (simp add: openai_messages_def sp text_or_none_def [of "joined (ps @ _)"])
qed

section \<open>Properties\<close>

text \<open>
  C21. The wire conversation is the given one: for a conversation that passes validation and whose messages have
  the shapes the library builds, the messages sent are one system message in front that holds every
  system prompt that is not empty (the request's, those of the system messages, the adapter's) once and in order,
  absent only if there are none, followed by the other messages: a receiver reads back each
  of them, in order, with its role, text, tool calls with their ids and arguments, the id of the call
  it answers and its images. The first of them is from the user, the last from the user or a tool, and every tool result
  names the call it answers.
\<close>

theorem wire_conversation_faithful:
  assumes "validate_conversation (rq_messages r) = Inr ()" and "list_all well_shaped (rq_messages r)"
  shows "\<exists>sys rest. openai_messages r extra = sys @ rest
     \<and> sys = (if system_prompts r extra = [] then []
         else [WSystem (concat (map (\<lambda>p. p @ [CHR 0x0A, CHR 0x0A]) (butlast (system_prompts r extra)))
               @ last (system_prompts r extra))])
     \<and> map read_wire rest = map spelled_out (filter (\<lambda>m. ms_role m \<noteq> ''system'') (rq_messages r))
     \<and> rest \<noteq> [] \<and> wire_role (hd rest) = ''user'' \<and> wire_role (last rest) \<in> {''user'', ''tool''}
     \<and> (\<forall>i c. WTool i c \<in> set rest \<longrightarrow> \<not> blank i)"
proof (intro exI conjI)
  define rest where "rest = non_system (rq_messages r)"
  have v: "rest \<noteq> []" "is_role ''user'' (hd rest)" "is_role ''user'' (last rest) \<or> is_role ''tool'' (last rest)"
    "\<forall>m\<in>set rest. is_role ''tool'' m \<longrightarrow> \<not> blank (ms_tool_call_id m)"
    using assms(1) by (simp_all add: validate_conversation_iff rest_def)
  show "openai_messages r extra =
      (if system_prompts r extra = [] then []
         else [WSystem (concat (map (\<lambda>p. p @ [CHR 0x0A, CHR 0x0A]) (butlast (system_prompts r extra)))
               @ last (system_prompts r extra))]) @ map wire_of rest"
    by (simp add: openai_messages_form joined_lines rest_def)
  show "map read_wire (map wire_of rest) = map spelled_out (filter (\<lambda>m. ms_role m \<noteq> ''system'') (rq_messages r))"
    using assms(2) by (auto simp: rest_def non_system_def is_role_def list_all_iff read_wire_of)
  show "map wire_of rest \<noteq> []" "wire_role (hd (map wire_of rest)) = ''user''"
    "wire_role (last (map wire_of rest)) \<in> {''user'', ''tool''}"
    using v by (auto simp: hd_map last_map wire_role_of is_role_def)
  show "\<forall>i c. WTool i c \<in> set (map wire_of rest) \<longrightarrow> \<not> blank i"
  proof (intro allI impI)
    fix i c
    assume "WTool i c \<in> set (map wire_of rest)"
    then obtain m where m: "m \<in> set rest" "wire_of m = WTool i c" by auto
    then have "is_role ''tool'' m" "ms_tool_call_id m = i" by (auto simp: wire_of_def split: if_splits)
    then show "\<not> blank i" using v(4) m(1) by blast
  qed
qed (rule refl)

definition plain_message :: "string \<Rightarrow> string \<Rightarrow> message" where
  "plain_message r c = \<lparr>ms_role = r, ms_content = c, ms_tool_calls = [], ms_tool_call_id = None, ms_images = []\<rparr>"

definition plain_request :: request where
  "plain_request = \<lparr>rq_messages = [plain_message ''system'' ''be brief'', plain_message ''user'' ''hi''],
     rq_model = None, rq_max_tokens = 1024, rq_temperature = 7 / 10, rq_stream = False,
     rq_system_prompt = None, rq_metadata = [], rq_tools = [], rq_tool_choice = PNone,
     rq_response_format = PNone\<rparr>"

lemma plain_request_valid: "validate_conversation (rq_messages plain_request) = Inr ()"
  by (simp add: plain_request_def plain_message_def validate_conversation_def VALID_ROLES_def
      non_system_def is_role_def)

text \<open>Two system prompts, a question with an inline image, a call and its result.\<close>

definition tool_conversation :: request where
  "tool_conversation = plain_request\<lparr>rq_system_prompt := Some ''be kind'', rq_messages :=
     [plain_message ''system'' ''be brief'',
      (plain_message ''user'' ''hi'')\<lparr>ms_images := [\<lparr>im_url = None, im_media_type = ''image/png'', im_data = ''QQ''\<rparr>]\<rparr>,
      (plain_message ''assistant'' [])\<lparr>ms_tool_calls := [\<lparr>tc_id = ''c1'', tc_name = ''look'', tc_arguments = None\<rparr>]\<rparr>,
      (plain_message ''tool'' ''a cat'')\<lparr>ms_tool_call_id := Some ''c1''\<rparr>]\<rparr>"

theorem wire_conversation_faithful_witness:
  "\<exists>rest. openai_messages tool_conversation None = WSystem (''be kind'' @ [CHR 0x0A, CHR 0x0A] @ ''be brief'') # rest
     \<and> map ms_content (map read_wire rest) = [''hi'', [], ''a cat'']
     \<and> map (map tc_id \<circ> ms_tool_calls) (map read_wire rest) = [[], [''c1''], []]"
proof -
  have v: "validate_conversation (rq_messages tool_conversation) = Inr ()"
    by (simp add: tool_conversation_def plain_message_def validate_conversation_def VALID_ROLES_def
        non_system_def is_role_def blank_def)
  have s: "list_all well_shaped (rq_messages tool_conversation)"
    by (simp add: tool_conversation_def plain_message_def well_shaped_def)
  have p: "system_prompts tool_conversation None = [''be kind'', ''be brief'']"
    by (simp add: tool_conversation_def plain_message_def system_prompts_def)
  from wire_conversation_faithful [OF v s, of None] obtain rest where
    r: "openai_messages tool_conversation None = [WSystem (''be kind'' @ [CHR 0x0A, CHR 0x0A] @ ''be brief'')] @ rest"
    "map read_wire rest = map spelled_out (filter (\<lambda>m. ms_role m \<noteq> ''system'') (rq_messages tool_conversation))"
    unfolding p by auto
  have "map ms_content (map read_wire rest) = [''hi'', [], ''a cat'']"
    "map (map tc_id \<circ> ms_tool_calls) (map read_wire rest) = [[], [''c1''], []]"
    unfolding r(2) by (simp_all add: tool_conversation_def plain_message_def spelled_out_def with_arguments_def)
  with r(1) show ?thesis by (intro exI [of _ rest] conjI) simp_all
qed

end
