(* ===== verification/Router_State.thy ===== *)
theory Router_State
  imports Circuit_Breaker Retry Limiter Health Cache Policy Messages
begin

text \<open>
  \<open>src/coreai/router.py\<close>, first part: the configuration and its environment variables, the
  router's state, the accounting of successes, errors, latencies and tokens, provider changes
  at runtime, and model aliases.
\<close>

section \<open>Configuration\<close>

datatype routing_strategy = CHEAPEST | FASTEST | BALANCED | ROUND_ROBIN | FALLBACK

record routing_config =
  cf_strategy :: routing_strategy
  cf_enable_cache :: bool
  cf_cache_ttl_seconds :: int
  cf_enable_retry :: bool
  cf_max_retry_attempts :: int
  cf_cost_weight :: real
  cf_latency_weight :: real
  cf_enable_failover :: bool
  cf_request_timeout_seconds :: real
  cf_provider_timeouts :: "(string, real) odict"
  cf_deadline_seconds :: "real option"
  cf_max_attempts_before_failover :: int
  cf_retry_initial_wait_seconds :: real
  cf_retry_max_wait_seconds :: real
  cf_circuit_failure_threshold :: int
  cf_circuit_reset_seconds :: real
  cf_cache_max_entries :: int
  cf_health_weight :: real
  cf_health_half_life_seconds :: real
  cf_hedge_after_seconds :: "real option"
  cf_rate_limits :: "(string, rate_config) odict"

definition default_config :: routing_config where
  "default_config = \<lparr>cf_strategy = BALANCED, cf_enable_cache = True, cf_cache_ttl_seconds = 3600,
     cf_enable_retry = True, cf_max_retry_attempts = 3, cf_cost_weight = 7 / 10,
     cf_latency_weight = 3 / 10, cf_enable_failover = True, cf_request_timeout_seconds = 60,
     cf_provider_timeouts = [], cf_deadline_seconds = Some 120,
     cf_max_attempts_before_failover = 2, cf_retry_initial_wait_seconds = 1,
     cf_retry_max_wait_seconds = 30, cf_circuit_failure_threshold = 5, cf_circuit_reset_seconds = 30,
     cf_cache_max_entries = 1000, cf_health_weight = 1 / 2, cf_health_half_life_seconds = 60,
     cf_hedge_after_seconds = None, cf_rate_limits = []\<rparr>"

definition DEFAULT_PROVIDER_TIMEOUTS :: "(string, real) odict" where
  "DEFAULT_PROVIDER_TIMEOUTS = [(''deepseek'', 120)]"

text \<open>
  \<open>RoutingConfig.__init__\<close> on its arguments, given as a configuration whose timeouts and weights
  are not yet merged and normalised.
\<close>

definition routing_config_new :: "routing_config \<Rightarrow> string + routing_config" where
  "routing_config_new c =
     (case cf_hedge_after_seconds c of
        Some h \<Rightarrow> (if h \<le> 0 then Inl ''hedge_after_seconds must be positive or None''
                   else if cf_cost_weight c + cf_latency_weight c = 0 then Inl ''division by zero''
                   else Inr (c\<lparr>cf_provider_timeouts := od_update DEFAULT_PROVIDER_TIMEOUTS (cf_provider_timeouts c),
                         cf_cost_weight := cf_cost_weight c / (cf_cost_weight c + cf_latency_weight c),
                         cf_latency_weight := cf_latency_weight c / (cf_cost_weight c + cf_latency_weight c)\<rparr>))
      | None \<Rightarrow> (if cf_cost_weight c + cf_latency_weight c = 0 then Inl ''division by zero''
                 else Inr (c\<lparr>cf_provider_timeouts := od_update DEFAULT_PROVIDER_TIMEOUTS (cf_provider_timeouts c),
                       cf_cost_weight := cf_cost_weight c / (cf_cost_weight c + cf_latency_weight c),
                       cf_latency_weight := cf_latency_weight c / (cf_cost_weight c + cf_latency_weight c)\<rparr>)))"

section \<open>Environment variables\<close>

text \<open>
  \<open>read(name, cast)\<close>: missing and blank variables are skipped, a value that does not convert is
  an error that names the variable. \<open>to_float\<close> and \<open>to_int\<close> stand for Python's constructors.
\<close>

definition env_read ::
  "(string \<Rightarrow> string option) \<Rightarrow> string \<Rightarrow> (string \<Rightarrow> 'a option) \<Rightarrow> string + 'a option" where
  "env_read env name cast =
     (case env name of
        None \<Rightarrow> Inr None
      | Some raw \<Rightarrow>
          (if strip raw = [] then Inr None
           else case cast (strip raw) of None \<Rightarrow> Inl name | Some v \<Rightarrow> Inr (Some v)))"

definition env_flag :: "string \<Rightarrow> bool option" where
  "env_flag raw =
     (let v = str_lower raw
      in if v \<in> set [''1'', ''true'', ''yes'', ''on''] then Some True
         else if v \<in> set [''0'', ''false'', ''no'', ''off''] then Some False else None)"

fun timeout_items :: "(string \<Rightarrow> real option) \<Rightarrow> string list \<Rightarrow> (string, real) odict \<Rightarrow> (string, real) odict option" where
  "timeout_items to_float [] acc = Some acc"
| "timeout_items to_float (item # items) acc =
     (if strip item = [] then timeout_items to_float items acc
      else case partition_on (CHR ''='') item of
          (name, seconds) \<Rightarrow>
            (if strip name = [] \<or> strip seconds = [] then None
             else case to_float seconds of
                 None \<Rightarrow> None
               | Some r \<Rightarrow> timeout_items to_float items (od_set (strip name) r acc)))"

definition env_timeouts :: "(string \<Rightarrow> real option) \<Rightarrow> string \<Rightarrow> (string, real) odict option" where
  "env_timeouts to_float raw = timeout_items to_float (split_on (CHR '','') raw) []"

definition apply_read :: "(string + 'a option) \<Rightarrow> ('a \<Rightarrow> 'c \<Rightarrow> 'c) \<Rightarrow> string + 'c \<Rightarrow> string + 'c" where
  "apply_read r f acc =
     (case acc of
        Inl e \<Rightarrow> Inl e
      | Inr c \<Rightarrow> (case r of Inl e \<Rightarrow> Inl e | Inr None \<Rightarrow> Inr c | Inr (Some v) \<Rightarrow> Inr (f v c)))"

text \<open>
  \<open>from_env\<close>, with the keyword overrides as a function on the collected arguments. The error is
  the name of the offending variable, or the constructor's message.
\<close>

definition from_env ::
  "(string \<Rightarrow> real option) \<Rightarrow> (string \<Rightarrow> int option) \<Rightarrow> (string \<Rightarrow> string option) \<Rightarrow>
   (routing_config \<Rightarrow> routing_config) \<Rightarrow> string + routing_config" where
  "from_env to_float to_int env overrides =
     (let c = Inr default_config;
          c = apply_read (env_read env ''REQUEST_TIMEOUT_SECONDS'' to_float)
                (\<lambda>v c. c\<lparr>cf_request_timeout_seconds := v\<rparr>) c;
          c = apply_read (env_read env ''MAX_ATTEMPTS_BEFORE_FAILOVER'' to_int)
                (\<lambda>v c. c\<lparr>cf_max_attempts_before_failover := v\<rparr>) c;
          c = apply_read (env_read env ''CIRCUIT_FAILURE_THRESHOLD'' to_int)
                (\<lambda>v c. c\<lparr>cf_circuit_failure_threshold := v\<rparr>) c;
          c = apply_read (env_read env ''CIRCUIT_RESET_SECONDS'' to_float)
                (\<lambda>v c. c\<lparr>cf_circuit_reset_seconds := v\<rparr>) c;
          c = apply_read (env_read env ''CACHE_MAX_ENTRIES'' to_int)
                (\<lambda>v c. c\<lparr>cf_cache_max_entries := v\<rparr>) c;
          c = apply_read (env_read env ''ENABLE_FAILOVER'' env_flag)
                (\<lambda>v c. c\<lparr>cf_enable_failover := v\<rparr>) c;
          c = apply_read (env_read env ''PROVIDER_TIMEOUTS'' (env_timeouts to_float))
                (\<lambda>v c. c\<lparr>cf_provider_timeouts := v\<rparr>) c;
          raw = (case env ''REQUEST_DEADLINE_SECONDS'' of None \<Rightarrow> [] | Some s \<Rightarrow> s);
          c = (if str_lower (strip raw) = ''none''
               then (case c of Inl e \<Rightarrow> Inl e | Inr c \<Rightarrow> Inr (c\<lparr>cf_deadline_seconds := None\<rparr>))
               else apply_read (env_read env ''REQUEST_DEADLINE_SECONDS'' to_float)
                (\<lambda>v c. c\<lparr>cf_deadline_seconds := Some v\<rparr>) c)
      in case c of Inl e \<Rightarrow> Inl e | Inr c \<Rightarrow> routing_config_new (overrides c))"

section \<open>Providers and models\<close>

text \<open>
  What the router reads of a provider object; \<open>pv_capability_problem\<close> is the optional hook, and
  \<open>pv_estimate_cost\<close> the price estimate from input tokens, output tokens and model.
\<close>

record provider =
  pv_default_model :: string
  pv_is_local :: bool
  pv_models :: "string list"
  pv_supports_vision :: bool
  pv_supports_tools :: bool
  pv_supports_embeddings :: bool
  pv_estimate_cost :: "int \<Rightarrow> int \<Rightarrow> string \<Rightarrow> real"
  pv_capability_problem :: "(request \<Rightarrow> string option) option"

record model_profile =
  mp_model_id :: string
  mp_provider :: string
  mp_context_window :: int
  mp_max_output_tokens :: int
  mp_vision :: bool
  mp_supports_streaming :: bool
  mp_supports_function_calling :: bool

definition fits_context :: "model_profile \<Rightarrow> int \<Rightarrow> bool" where
  "fits_context m n \<longleftrightarrow> n \<le> mp_context_window m"

text \<open>The registry: the catalogue by model name, and the default model of a provider.\<close>

record model_registry =
  mr_catalogue :: "(string, model_profile) odict"
  mr_defaults :: "(string, string) odict"

definition registry_get :: "model_registry \<Rightarrow> string \<Rightarrow> model_profile option" where
  "registry_get R m = od_get (mr_catalogue R) m"

text \<open>\<open>default_for\<close>; \<open>None\<close> is the \<open>KeyError\<close>.\<close>

definition default_for :: "model_registry \<Rightarrow> string \<Rightarrow> model_profile option" where
  "default_for R p =
     (case od_get (mr_defaults R) p of
        None \<Rightarrow> None | Some m \<Rightarrow> if m = [] then None else registry_get R m)"

section \<open>The router's state\<close>

record provider_stats =
  st_requests :: int
  st_errors :: int
  st_total_cost :: real
  st_latency_history :: "real list"
  st_error_kinds :: "(string, int) odict"
  st_error_statuses :: "(int, int) odict"

definition stats_new :: provider_stats where
  "stats_new = \<lparr>st_requests = 0, st_errors = 0, st_total_cost = 0, st_latency_history = [],
     st_error_kinds = [], st_error_statuses = []\<rparr>"

definition LATENCY_BUCKETS_MS :: "real list" where
  "LATENCY_BUCKETS_MS = [50, 100, 250, 500, 1000, 2500, 5000, 10000, 30000]"

definition MAX_MODELS_PER_PROVIDER :: nat where
  "MAX_MODELS_PER_PROVIDER = 50"

definition LATENCY_HISTORY_SIZE :: nat where
  "LATENCY_HISTORY_SIZE = 20"

record model_entry =
  me_requests :: int
  me_input_tokens :: int
  me_output_tokens :: int
  me_latency_sum_ms :: real
  me_latency_buckets :: "nat list"

definition entry_new :: model_entry where
  "entry_new = \<lparr>me_requests = 0, me_input_tokens = 0, me_output_tokens = 0, me_latency_sum_ms = 0,
     me_latency_buckets = replicate (length LATENCY_BUCKETS_MS + 1) 0\<rparr>"

record router =
  ro_providers :: "(string, provider) odict"
  ro_config :: routing_config
  ro_registry :: model_registry
  ro_policy_rr :: "(string, nat) odict"
  ro_aliases :: "(string, string) odict"
  ro_model_aliases :: "(string, string) odict"
  ro_cache :: "completion response_cache option"
  ro_retry :: "retry_manager option"
  ro_limiter :: global_limiter
  ro_breakers :: "(string, breaker) odict"
  ro_failover_count :: int
  ro_hedge_count :: int
  ro_hedge_wins :: int
  ro_health :: "(string, health_tracker) odict"
  ro_request_count :: int
  ro_rr_index :: nat
  ro_model_stats :: "(string \<times> string, model_entry) odict"
  ro_streams_estimated :: "(string, int) odict"
  ro_provider_stats :: "(string, provider_stats) odict"

definition DEFAULT_ALIASES :: "(string, string) odict" where
  "DEFAULT_ALIASES = [(''fast'', ''low_latency''), (''cheap'', ''bulk''), (''best'', ''high_quality'')]"

definition rate_limit_for :: "routing_config \<Rightarrow> string \<Rightarrow> rate_config" where
  "rate_limit_for c n = (case od_get (cf_rate_limits c) n of Some r \<Rightarrow> r | None \<Rightarrow> default_rate_config)"

definition config_breaker :: "routing_config \<Rightarrow> string \<Rightarrow> string + breaker" where
  "config_breaker c n = breaker_new n (cf_circuit_failure_threshold c) (cf_circuit_reset_seconds c) 1 True"

definition config_health :: "routing_config \<Rightarrow> string + health_tracker" where
  "config_health c = health_new (cf_health_half_life_seconds c) 200"

text \<open>\<open>set_provider\<close>: swap the object behind a name, or add it with fresh state.\<close>

definition set_provider :: "time \<Rightarrow> string \<Rightarrow> provider \<Rightarrow> router \<Rightarrow> string + router" where
  "set_provider now n p r =
     (let c = ro_config r; known = od_has (ro_providers r) n;
          r = r\<lparr>ro_providers := od_set n p (ro_providers r)\<rparr>
      in if known then Inr r
         else
           case config_breaker c n of
             Inl e \<Rightarrow> Inl e
           | Inr b \<Rightarrow>
               (case config_health c of
                  Inl e \<Rightarrow> Inl e
                | Inr h \<Rightarrow>
                    Inr (r\<lparr>ro_limiter := register_provider n (rate_limit_for c n) now (ro_limiter r),
                      ro_breakers := od_set n b (ro_breakers r),
                      ro_health := od_set n h (ro_health r),
                      ro_provider_stats := od_set n stats_new (ro_provider_stats r)\<rparr>)))"

definition drop_provider :: "string \<Rightarrow> router \<Rightarrow> router" where
  "drop_provider n r =
     r\<lparr>ro_providers := od_pop n (ro_providers r), ro_limiter := od_pop n (ro_limiter r),
       ro_breakers := od_pop n (ro_breakers r), ro_health := od_pop n (ro_health r),
       ro_provider_stats := od_pop n (ro_provider_stats r)\<rparr>"

text \<open>The constructor: the tables are built from the given providers in order.\<close>

fun add_providers :: "time \<Rightarrow> (string, provider) odict \<Rightarrow> router \<Rightarrow> string + router" where
  "add_providers now [] r = Inr r"
| "add_providers now ((n, p) # ps) r =
     (case set_provider now n p r of Inl e \<Rightarrow> Inl e | Inr r \<Rightarrow> add_providers now ps r)"

definition router_new ::
  "routing_config \<Rightarrow> model_registry \<Rightarrow> (string, provider) odict \<Rightarrow> time \<Rightarrow> string + router" where
  "router_new c R ps now =
     (case (if cf_enable_cache c then map_sum id Some (memory_cache_new (PInt (cf_cache_max_entries c)))
            else Inr None) of
        Inl e \<Rightarrow> Inl e
      | Inr mc \<Rightarrow>
          add_providers now ps
            \<lparr>ro_providers = [], ro_config = c, ro_registry = R, ro_policy_rr = [],
             ro_aliases = DEFAULT_ALIASES, ro_model_aliases = [],
             ro_cache = map_option (\<lambda>m. \<lparr>rca_backend = m, rca_hits = 0, rca_misses = 0\<rparr>) mc,
             ro_retry = (if cf_enable_retry c
                then Some \<lparr>rm_config = \<lparr>rc_max_attempts = cf_max_retry_attempts c,
                         rc_initial_wait_seconds = cf_retry_initial_wait_seconds c,
                         rc_max_wait_seconds = cf_retry_max_wait_seconds c,
                         rc_exponential_base = 2, rc_jitter = True\<rparr>,
                       rm_total_retries = 0, rm_total_failures = 0, rm_retries_by_kind = [],
                       rm_retries_by_status = []\<rparr>
                else None),
             ro_limiter = [], ro_breakers = [], ro_failover_count = 0, ro_hedge_count = 0,
             ro_hedge_wins = 0, ro_health = [], ro_request_count = 0, ro_rr_index = 0,
             ro_model_stats = [], ro_streams_estimated = [], ro_provider_stats = []\<rparr>)"

section \<open>Accounting\<close>

text \<open>
  \<open>_model_entry\<close>: the key under which a model is counted, \<open>other\<close> beyond the cap, and the table
  with that entry present.
\<close>

definition known_models :: "string \<Rightarrow> (string \<times> string, model_entry) odict \<Rightarrow> nat" where
  "known_models n ms = length (filter (\<lambda>(p, m). p = n) (od_keys ms))"

definition model_entry_key ::
  "string \<Rightarrow> string \<Rightarrow> (string \<times> string, model_entry) odict \<Rightarrow>
     (string \<times> string) \<times> (string \<times> string, model_entry) odict" where
  "model_entry_key n m ms =
     (case od_get ms (n, m) of
        Some _ \<Rightarrow> ((n, m), ms)
      | None \<Rightarrow>
          (let key = (if known_models n ms \<ge> MAX_MODELS_PER_PROVIDER then (n, ''other'') else (n, m))
           in case od_get ms key of
                Some _ \<Rightarrow> (key, ms)
              | None \<Rightarrow> (key, od_set key entry_new ms)))"

fun bucket_index :: "real \<Rightarrow> real list \<Rightarrow> nat" where
  "bucket_index l [] = 0"
| "bucket_index l (b # bs) = (if l \<le> b then 0 else Suc (bucket_index l bs))"

definition count_usage :: "real option \<Rightarrow> int \<Rightarrow> int \<Rightarrow> model_entry \<Rightarrow> model_entry" where
  "count_usage latency i out e =
     (let e = e\<lparr>me_requests := me_requests e + 1, me_input_tokens := me_input_tokens e + max 0 i,
                me_output_tokens := me_output_tokens e + max 0 out\<rparr>
      in case latency of
           None \<Rightarrow> e
         | Some l \<Rightarrow>
             (let k = bucket_index l LATENCY_BUCKETS_MS; bs = me_latency_buckets e
              in e\<lparr>me_latency_sum_ms := me_latency_sum_ms e + l,
                   me_latency_buckets := bs[k := Suc (bs ! k)]\<rparr>))"

definition record_usage :: "string \<Rightarrow> string \<Rightarrow> real option \<Rightarrow> int \<Rightarrow> int \<Rightarrow> router \<Rightarrow> router" where
  "record_usage n model latency i out r =
     (case model_entry_key n (if model = [] then ''unknown'' else model) (ro_model_stats r) of
        (key, ms) \<Rightarrow> r\<lparr>ro_model_stats := od_map_at key (count_usage latency i out) ms\<rparr>)"

definition note_success :: "time \<Rightarrow> string \<Rightarrow> real \<Rightarrow> real \<Rightarrow> router \<Rightarrow> router" where
  "note_success now n cost latency r =
     r\<lparr>ro_health := od_map_at n (health_record now True) (ro_health r),
       ro_provider_stats := od_map_at n (\<lambda>s.
         let h = st_latency_history s @ [latency]
         in s\<lparr>st_requests := st_requests s + 1, st_total_cost := st_total_cost s + cost,
              st_latency_history := (if length h > LATENCY_HISTORY_SIZE then tl h else h)\<rparr>)
         (ro_provider_stats r)\<rparr>"

definition note_error :: "time \<Rightarrow> string \<Rightarrow> error_kind \<Rightarrow> int option \<Rightarrow> router \<Rightarrow> router" where
  "note_error now n kind status r =
     r\<lparr>ro_health := (if kind \<noteq> BAD_REQUEST then od_map_at n (health_record now False) (ro_health r)
                     else ro_health r),
       ro_provider_stats := od_map_at n (\<lambda>s.
         s\<lparr>st_errors := st_errors s + 1,
           st_error_kinds := bump (kind_value kind) (st_error_kinds s),
           st_error_statuses := (case status of None \<Rightarrow> st_error_statuses s
                                 | Some k \<Rightarrow> bump k (st_error_statuses s))\<rparr>)
         (ro_provider_stats r)\<rparr>"

definition count_local_rate_limit :: "string \<Rightarrow> router \<Rightarrow> router" where
  "count_local_rate_limit n r =
     r\<lparr>ro_provider_stats := od_map_at n (\<lambda>s. s\<lparr>st_error_kinds := bump ''local_rate_limit'' (st_error_kinds s)\<rparr>)
         (ro_provider_stats r)\<rparr>"

definition latency_history :: "router \<Rightarrow> string \<Rightarrow> real list" where
  "latency_history r n =
     (case od_get (ro_provider_stats r) n of None \<Rightarrow> [] | Some s \<Rightarrow> st_latency_history s)"

definition p50_latency :: "router \<Rightarrow> string \<Rightarrow> real option" where
  "p50_latency r n =
     (let h = latency_history r n in if h = [] then None else Some (sort h ! (length h div 2)))"

text \<open>\<open>_soonest_retry_after\<close>: the smallest wait of an open breaker.\<close>

definition soonest_retry_after :: "time \<Rightarrow> router \<Rightarrow> real option" where
  "soonest_retry_after now r =
     (case List.map_filter (retry_after now \<circ> snd) (ro_breakers r) of
        [] \<Rightarrow> None | w # ws \<Rightarrow> Some (foldl min w ws))"

section \<open>Aliases\<close>

definition add_model_alias :: "string \<Rightarrow> string \<Rightarrow> router \<Rightarrow> string + router" where
  "add_model_alias a m r =
     (if registry_get (ro_registry r) a \<noteq> None \<or> od_has (ro_aliases r) a
      then Inl ''alias is already a model or policy alias''
      else if registry_get (ro_registry r) m = None then Inl ''unknown model''
      else Inr (r\<lparr>ro_model_aliases := od_set a m (ro_model_aliases r)\<rparr>))"

definition or_empty :: "string option \<Rightarrow> string" where
  "or_empty s = (case s of None \<Rightarrow> [] | Some x \<Rightarrow> x)"

text \<open>\<open>pset\<close> is what \<open>policies.current()\<close> answers, \<open>None\<close> without a store.\<close>

definition alias_policy :: "policy_set option \<Rightarrow> router \<Rightarrow> string option \<Rightarrow> string option" where
  "alias_policy pset r model =
     (case pset of
        None \<Rightarrow> None
      | Some ps \<Rightarrow>
          (if or_empty model = [] then None
           else case od_get (ro_aliases r) (or_empty model) of
               None \<Rightarrow> None
             | Some target \<Rightarrow> if policy_get ps (Some target) = None then None else Some target))"

definition resolve_alias :: "policy_set option \<Rightarrow> router \<Rightarrow> request \<Rightarrow> request" where
  "resolve_alias pset r q =
     (if registry_get (ro_registry r) (or_empty (rq_model q)) \<noteq> None then q
      else case od_get (ro_model_aliases r) (or_empty (rq_model q)) of
          Some target \<Rightarrow>
            q\<lparr>rq_metadata := od_set ''model_alias'' (PStr (or_empty (rq_model q))) (rq_metadata q),
              rq_model := Some target\<rparr>
        | None \<Rightarrow>
            (case alias_policy pset r (rq_model q) of
               None \<Rightarrow> q
             | Some policy \<Rightarrow>
                 q\<lparr>rq_metadata := od_set ''alias'' (PStr (or_empty (rq_model q)))
                     (od_set ''policy'' (PStr policy) (rq_metadata q)),
                   rq_model := None\<rparr>))"

text \<open>\<open>_owner_of\<close>: the catalogue, else the first local server that lists the model.\<close>

definition owner_of :: "router \<Rightarrow> string option \<Rightarrow> string option" where
  "owner_of r model =
     (if or_empty model = [] then None
      else case registry_get (ro_registry r) (or_empty model) of
          Some p \<Rightarrow> Some (mp_provider p)
        | None \<Rightarrow>
            (case filter (\<lambda>(n, p). pv_is_local p \<and> or_empty model \<in> set (pv_models p)) (ro_providers r) of
               [] \<Rightarrow> None | (n, _) # _ \<Rightarrow> Some n))"

section \<open>Usage is bounded and complete\<close>

definition models_bounded :: "(string \<times> string, model_entry) odict \<Rightarrow> bool" where
  "models_bounded ms \<longleftrightarrow> (\<forall>n. known_models n ms \<le> MAX_MODELS_PER_PROVIDER
     \<or> (known_models n ms = Suc MAX_MODELS_PER_PROVIDER \<and> od_get ms (n, ''other'') \<noteq> None))"

lemma known_models_map_at [simp]: "known_models n (od_map_at key f ms) = known_models n ms"
  by (simp add: known_models_def)

lemma known_models_new:
  "od_get ms key = None \<Longrightarrow>
   known_models n (od_set key e ms) = known_models n ms + (if fst key = n then 1 else 0)"
  by (cases key) (simp add: known_models_def od_set_new)

lemma model_entry_key_facts:
  assumes "models_bounded ms" "model_entry_key n m ms = (key, ms')"
  shows "models_bounded ms'" "fst key = n"
    and "od_get ms' key \<noteq> None"
    and "(od_get ms key \<noteq> None \<and> ms' = ms) \<or> (od_get ms key = None \<and> ms' = od_set key entry_new ms)"
proof -
  show "fst key = n" "od_get ms' key \<noteq> None"
    "(od_get ms key \<noteq> None \<and> ms' = ms) \<or> (od_get ms key = None \<and> ms' = od_set key entry_new ms)"
    using assms(2) by (auto simp: model_entry_key_def Let_def split: option.splits if_splits)
  show "models_bounded ms'"
  proof (cases "od_get ms key")
    case (Some e)
    then show ?thesis using assms by (auto simp: model_entry_key_def Let_def split: option.splits if_splits)
  next
    case None
    then have ms': "ms' = od_set key entry_new ms"
      and key: "key = (if known_models n ms \<ge> MAX_MODELS_PER_PROVIDER then (n, ''other'') else (n, m))"
      using assms(2) by (auto simp: model_entry_key_def Let_def split: option.splits if_splits)
    show ?thesis unfolding models_bounded_def
    proof
      fix p
      from assms(1) have b: "known_models p ms \<le> MAX_MODELS_PER_PROVIDER
          \<or> (known_models p ms = Suc MAX_MODELS_PER_PROVIDER \<and> od_get ms (p, ''other'') \<noteq> None)"
        by (simp add: models_bounded_def)
      show "known_models p ms' \<le> MAX_MODELS_PER_PROVIDER
          \<or> (known_models p ms' = Suc MAX_MODELS_PER_PROVIDER \<and> od_get ms' (p, ''other'') \<noteq> None)"
      proof (cases "p = n")
        case False
        then have "known_models p ms' = known_models p ms"
          using None by (simp add: ms' known_models_new key)
        then show ?thesis using b None by (auto simp: ms')
      next
        case True
        show ?thesis
        proof (cases "known_models n ms \<ge> MAX_MODELS_PER_PROVIDER")
          case True
          then have "key = (n, ''other'')" by (simp add: key)
          then show ?thesis
            using b \<open>p = n\<close> None True by (auto simp: ms' known_models_new)
        next
          case False
          then show ?thesis using \<open>p = n\<close> None by (simp add: ms' known_models_new key)
        qed
      qed
    qed
  qed
qed

text \<open>A quantity of the entries of one provider, added up.\<close>

definition provider_sum ::
  "(model_entry \<Rightarrow> int) \<Rightarrow> string \<Rightarrow> (string \<times> string, model_entry) odict \<Rightarrow> int" where
  "provider_sum f n ms = sum_list (map (\<lambda>((p, m), e). if p = n then f e else 0) ms)"

lemma provider_sum_map_at:
  assumes "od_get ms key = Some e"
  shows "provider_sum f n (od_map_at key g ms) = provider_sum f n ms + (if fst key = n then f (g e) - f e else 0)"
  unfolding provider_sum_def using sum_od_map_at [OF assms, of "\<lambda>((p, m), e). if p = n then f e else 0" g]
  by (simp add: case_prod_unfold)

lemma provider_sum_new:
  "od_get ms key = None \<Longrightarrow> f entry_new = 0 \<Longrightarrow> provider_sum f n (od_set key entry_new ms) = provider_sum f n ms"
  by (simp add: provider_sum_def od_set_new case_prod_unfold)

definition calls_of :: "string \<Rightarrow> (string \<times> string \<times> real option \<times> int \<times> int) list \<Rightarrow> int" where
  "calls_of n us = int (length (filter (\<lambda>u. fst u = n) us))"

definition output_of :: "string \<Rightarrow> (string \<times> string \<times> real option \<times> int \<times> int) list \<Rightarrow> int" where
  "output_of n us = sum_list (map (\<lambda>(p, m, l, i, out). if p = n then max 0 out else 0) us)"

definition record_all :: "(string \<times> string \<times> real option \<times> int \<times> int) list \<Rightarrow> router \<Rightarrow> router" where
  "record_all us r = fold (\<lambda>(n, m, l, i, out). record_usage n m l i out) us r"

lemma record_usage_facts:
  assumes "models_bounded (ro_model_stats r)"
  shows "models_bounded (ro_model_stats (record_usage n m l i out r))"
    and "provider_sum me_requests p (ro_model_stats (record_usage n m l i out r))
      = provider_sum me_requests p (ro_model_stats r) + (if n = p then 1 else 0)"
    and "provider_sum me_output_tokens p (ro_model_stats (record_usage n m l i out r))
      = provider_sum me_output_tokens p (ro_model_stats r) + (if n = p then max 0 out else 0)"
proof -
  obtain key ms where k: "model_entry_key n (if m = [] then ''unknown'' else m) (ro_model_stats r) = (key, ms)"
    by (cases "model_entry_key n (if m = [] then ''unknown'' else m) (ro_model_stats r)")
  note f = model_entry_key_facts [OF assms k]
  obtain e where e: "od_get ms key = Some e" using f(3) by auto
  have r: "ro_model_stats (record_usage n m l i out r) = od_map_at key (count_usage l i out) ms"
    using k by (simp add: record_usage_def)
  have z: "me_requests entry_new = 0" "me_output_tokens entry_new = 0" by (simp_all add: entry_new_def)
  have cu: "me_requests (count_usage l i out e) = me_requests e + 1"
    "me_output_tokens (count_usage l i out e) = me_output_tokens e + max 0 out"
    by (simp_all add: count_usage_def Let_def split: option.split)
  show "models_bounded (ro_model_stats (record_usage n m l i out r))"
    using f(1) unfolding r models_bounded_def by (simp del: fun_upd_apply) (auto simp: e)
  have eq: "provider_sum g p ms = provider_sum g p (ro_model_stats r)" if "g entry_new = 0" for g
    using f(4) provider_sum_new [where f = g and n = p and key = key, OF _ that] by auto
  show "provider_sum me_requests p (ro_model_stats (record_usage n m l i out r))
      = provider_sum me_requests p (ro_model_stats r) + (if n = p then 1 else 0)"
    "provider_sum me_output_tokens p (ro_model_stats (record_usage n m l i out r))
      = provider_sum me_output_tokens p (ro_model_stats r) + (if n = p then max 0 out else 0)"
    unfolding r provider_sum_map_at [OF e] using eq [of me_requests] eq [of me_output_tokens] z f(2) cu by simp_all
qed

lemma record_all_facts:
  "models_bounded (ro_model_stats r) \<Longrightarrow>
     models_bounded (ro_model_stats (record_all us r))
   \<and> provider_sum me_requests p (ro_model_stats (record_all us r))
      = provider_sum me_requests p (ro_model_stats r) + calls_of p us
   \<and> provider_sum me_output_tokens p (ro_model_stats (record_all us r))
      = provider_sum me_output_tokens p (ro_model_stats r) + output_of p us"
proof (induction us arbitrary: r)
  case Nil
  then show ?case by (simp add: record_all_def calls_of_def output_of_def)
next
  case (Cons u us)
  obtain n m l i out where u: "u = (n, m, l, i, out)" by (metis prod_cases5)
  have step: "record_all (u # us) r = record_all us (record_usage n m l i out r)"
    by (simp add: record_all_def u)
  note f = record_usage_facts [where n = n and m = m and l = l and i = i and out = out, OF Cons.prems]
  have c: "calls_of p (u # us) = calls_of p us + (if n = p then 1 else 0)"
    "output_of p (u # us) = output_of p us + (if n = p then max 0 out else 0)"
    by (simp_all add: calls_of_def output_of_def u)
  show ?case
    unfolding step c using Cons.IH [OF f(1)] f(2,3) by simp
qed

section \<open>Properties\<close>

text \<open>
  Usage accounting is bounded and loses nothing: whatever model names clients use, the
  per-model table keeps at most 51 entries for a provider, and the requests and output
  tokens of its entries add up to those of all the calls recorded for that provider.
\<close>

theorem model_usage_bounded_and_complete:
  assumes "ro_model_stats r = []"
  shows "known_models p (ro_model_stats (record_all us r)) \<le> 51
     \<and> provider_sum me_requests p (ro_model_stats (record_all us r)) = calls_of p us
     \<and> provider_sum me_output_tokens p (ro_model_stats (record_all us r)) = output_of p us"
proof -
  have b: "models_bounded (ro_model_stats r)" by (simp add: assms models_bounded_def known_models_def)
  have z: "provider_sum f p (ro_model_stats r) = 0" for f by (simp add: assms provider_sum_def)
  note f = record_all_facts [OF b, of us p]
  have "known_models p (ro_model_stats (record_all us r)) \<le> 51"
    using f unfolding models_bounded_def MAX_MODELS_PER_PROVIDER_def by (fastforce dest: spec [of _ p])
  then show ?thesis using f z by simp
qed

definition fresh_router :: router where
  "fresh_router = \<lparr>ro_providers = [], ro_config = default_config,
     ro_registry = \<lparr>mr_catalogue = [], mr_defaults = []\<rparr>, ro_policy_rr = [], ro_aliases = DEFAULT_ALIASES,
     ro_model_aliases = [], ro_cache = None, ro_retry = None, ro_limiter = [], ro_breakers = [],
     ro_failover_count = 0, ro_hedge_count = 0, ro_hedge_wins = 0, ro_health = [], ro_request_count = 0,
     ro_rr_index = 0, ro_model_stats = [], ro_streams_estimated = [], ro_provider_stats = []\<rparr>"

theorem model_usage_bounded_and_complete_witness:
  "provider_sum me_output_tokens ''a''
     (ro_model_stats (record_all [(''a'', ''m'', Some 70, 10, 20), (''b'', [], None, 1, 2),
        (''a'', ''n'', None, 5, 7)] fresh_router)) = 27"
  using model_usage_bounded_and_complete [of fresh_router "''a''"
    "[(''a'', ''m'', Some 70, 10, 20), (''b'', [], None, 1, 2), (''a'', ''n'', None, 5, 7)]"]
  by (simp add: fresh_router_def output_of_def)

end
