(* ===== verification/Router_Plan.thy ===== *)
theory Router_Plan
  imports Router_State Budgets
begin

text \<open>
  \<open>src/coreai/router.py\<close>, second part: choosing providers. The selection strategies, the
  failover order, declarative policies, privacy and difficulty, the capability screen and the
  dry run \<open>explain\<close>. One planning call reads the clock once; \<open>pset\<close> is what the policy store
  answers and \<open>bg\<close> what the model budget gate answers during it. A name missing from one of
  the router's tables, a \<open>KeyError\<close> in the code, cannot occur: the tables share their keys.
\<close>

section \<open>Estimates\<close>

definition IMAGE_CHARS :: int where
  "IMAGE_CHARS = 4000"

definition estimate_tokens :: "request \<Rightarrow> int" where
  "estimate_tokens q =
     max 100 ((sum_list (map (int \<circ> length \<circ> ms_content) (rq_messages q))
        + int (length (or_empty (rq_system_prompt q)))
        + IMAGE_CHARS * int (length (request_images q))) div 4)"

definition estimate_output_tokens :: "request \<Rightarrow> int \<Rightarrow> int" where
  "estimate_output_tokens q fallback = (if rq_max_tokens q \<noteq> 0 then rq_max_tokens q else fallback)"

definition model_or_default :: "provider \<Rightarrow> string option \<Rightarrow> string" where
  "model_or_default p m = (if or_empty m = [] then pv_default_model p else or_empty m)"

definition cost_estimate :: "router \<Rightarrow> request \<Rightarrow> string \<Rightarrow> real" where
  "cost_estimate r q n =
     (case od_get (ro_providers r) n of
        None \<Rightarrow> 0
      | Some p \<Rightarrow> pv_estimate_cost p (estimate_tokens q) (estimate_output_tokens q (estimate_tokens q))
                    (model_or_default p (rq_model q)))"

definition health_of :: "time \<Rightarrow> router \<Rightarrow> string \<Rightarrow> real" where
  "health_of now r n = (case od_get (ro_health r) n of None \<Rightarrow> 0 | Some h \<Rightarrow> health_score now h)"

section \<open>Selection\<close>

text \<open>
  The scan \<open>best, best_cost = available[0], inf; for name in available: if cost < best_cost: ...\<close>;
  \<open>None\<close> is the initial infinity.
\<close>

fun scan_best :: "(string \<Rightarrow> real) \<Rightarrow> string \<Rightarrow> real option \<Rightarrow> string list \<Rightarrow> string" where
  "scan_best f best bc [] = best"
| "scan_best f best bc (n # ns) =
     (if (case bc of None \<Rightarrow> True | Some c \<Rightarrow> f n < c) then scan_best f n (Some (f n)) ns
      else scan_best f best bc ns)"

definition select_cheapest :: "router \<Rightarrow> request \<Rightarrow> string list \<Rightarrow> string" where
  "select_cheapest r q available = scan_best (cost_estimate r q) (hd available) None available"

definition MIN_SAMPLES :: nat where
  "MIN_SAMPLES = 3"

definition p50_of :: "router \<Rightarrow> string \<Rightarrow> real" where
  "p50_of r n = (let h = latency_history r n in sort h ! (length h div 2))"

definition select_fastest :: "router \<Rightarrow> string list \<Rightarrow> string \<times> router" where
  "select_fastest r available =
     (let under = filter (\<lambda>n. length (latency_history r n) < MIN_SAMPLES) available
      in if under \<noteq> []
         then (under ! (ro_rr_index r mod length under), r\<lparr>ro_rr_index := ro_rr_index r + 1\<rparr>)
         else (scan_best (p50_of r) (hd available) None available, r))"

definition max_or_one :: "real list \<Rightarrow> real" where
  "max_or_one xs = (let m = foldl max (hd xs) (tl xs) in if m = 0 then 1 else m)"

definition raw_latency :: "router \<Rightarrow> string \<Rightarrow> real" where
  "raw_latency r n = (if latency_history r n \<noteq> [] then p50_of r n else 500)"

definition balanced_score ::
  "time \<Rightarrow> router \<Rightarrow> request \<Rightarrow> string list \<Rightarrow> (real \<times> real) option \<Rightarrow> string \<Rightarrow> real" where
  "balanced_score now r q available weights n =
     (let (cw, lw) = (case weights of Some w \<Rightarrow> w
                      | None \<Rightarrow> (cf_cost_weight (ro_config r), cf_latency_weight (ro_config r)))
      in cw * cost_estimate r q n / max_or_one (map (cost_estimate r q) available)
       + lw * raw_latency r n / max_or_one (map (raw_latency r) available)
       + cf_health_weight (ro_config r) * (1 - health_of now r n))"

definition select_balanced :: "time \<Rightarrow> router \<Rightarrow> request \<Rightarrow> string list \<Rightarrow> string" where
  "select_balanced now r q available =
     scan_best (balanced_score now r q available None) (hd available) None available"

definition select_round_robin :: "router \<Rightarrow> string list \<Rightarrow> string \<times> router" where
  "select_round_robin r available =
     (available ! (ro_rr_index r mod length available), r\<lparr>ro_rr_index := ro_rr_index r + 1\<rparr>)"

text \<open>\<open>_select_provider\<close>, called with at least one name.\<close>

definition select_provider :: "time \<Rightarrow> request \<Rightarrow> string list \<Rightarrow> router \<Rightarrow> string \<times> router" where
  "select_provider now q available r =
     (case cf_strategy (ro_config r) of
        CHEAPEST \<Rightarrow> (select_cheapest r q available, r)
      | FASTEST \<Rightarrow> select_fastest r available
      | BALANCED \<Rightarrow> (select_balanced now r q available, r)
      | ROUND_ROBIN \<Rightarrow> select_round_robin r available
      | FALLBACK \<Rightarrow> (hd available, r))"

definition failover_order :: "time \<Rightarrow> router \<Rightarrow> request \<Rightarrow> string list \<Rightarrow> string list" where
  "failover_order now r q names =
     (if cf_strategy (ro_config r) = FALLBACK \<or> length names < 2 then names
      else sort_key (balanced_score now r q names None) names)"

section \<open>Errors and the health of breakers\<close>

datatype model_problem =
    ProviderNoImages | StreamNoTools | ProviderNoTools | HookProblem string
  | ModelNoImages | ModelNoTools | ContextExceeded int int | OutputExceeded int int | ModelNoStream

datatype plan_error =
    ProviderUnavailable string
  | BadConversation conversation_error
  | ModelBelongsTo string string
  | ModelNeeds string
  | PolicyDenies string refusal
  | AllProvidersUnavailable "(string \<times> error_kind) list" "real option"
  | PolicyPermitsNone string
  | UnknownPolicy pyval
  | PrivateNoLocal
  | NotServable model_problem
  | OverBudget budget_exceeded
  | NothingCanServe

text \<open>
  \<open>self.breakers[n].would_allow()\<close> for each name in order; asking refreshes the breaker.
\<close>

definition ask_breaker :: "time \<Rightarrow> string \<Rightarrow> router \<Rightarrow> bool \<times> router" where
  "ask_breaker now n r =
     (case od_get (ro_breakers r) n of
        None \<Rightarrow> (False, r)
      | Some b \<Rightarrow> (case would_allow now b of
          (ok, b) \<Rightarrow> (ok, r\<lparr>ro_breakers := od_set n b (ro_breakers r)\<rparr>)))"

fun healthy_names :: "time \<Rightarrow> string list \<Rightarrow> router \<Rightarrow> string list \<times> router" where
  "healthy_names now [] r = ([], r)"
| "healthy_names now (n # ns) r =
     (case ask_breaker now n r of
        (ok, r) \<Rightarrow> (case healthy_names now ns r of
          (hs, r) \<Rightarrow> ((if ok then n # hs else hs), r)))"

definition all_open :: "time \<Rightarrow> string list \<Rightarrow> router \<Rightarrow> plan_error" where
  "all_open now names r =
     AllProvidersUnavailable (map (\<lambda>n. (n, CIRCUIT_OPEN)) names) (soonest_retry_after now r)"

section \<open>Policies\<close>

text \<open>\<open>metadata["policy"]\<close>, or the policy called \<open>default\<close>; an explicit name must exist.\<close>

definition policy_for ::
  "policy_set option \<Rightarrow> request \<Rightarrow> string option \<Rightarrow> plan_error + policy option" where
  "policy_for pset q name =
     (case pset of
        None \<Rightarrow> Inr None
      | Some ps \<Rightarrow>
          (let v = (if or_empty name \<noteq> [] then PStr (or_empty name) else get_or (rq_metadata q) ''policy'' PNone)
           in if falsy v then Inr (policy_get ps None)
              else case v of
                  PStr s \<Rightarrow> (case policy_get ps (Some s) of None \<Rightarrow> Inl (UnknownPolicy v) | Some p \<Rightarrow> Inr (Some p))
                | _ \<Rightarrow> Inl (UnknownPolicy v)))"

datatype exclusion = Refused refusal | NotInChain | CircuitIsOpen

definition chain_excludes :: "policy \<Rightarrow> string \<Rightarrow> bool" where
  "chain_excludes p n \<longleftrightarrow>
     po_strategy p \<in> {PFallback, PExplicit}
   \<and> (po_fallback_chain p \<noteq> [] \<or> po_strategy p = PExplicit)
   \<and> Some n \<noteq> po_provider p \<and> n \<notin> set (po_fallback_chain p)"

fun screen_policy ::
  "time \<Rightarrow> policy \<Rightarrow> string list \<Rightarrow> router \<Rightarrow> (string \<times> exclusion option) list \<times> router" where
  "screen_policy now p [] r = ([], r)"
| "screen_policy now p (n # ns) r =
     (case permits p n of
        Some why \<Rightarrow> map_prod (Cons (n, Some (Refused why))) id (screen_policy now p ns r)
      | None \<Rightarrow>
          (if chain_excludes p n then map_prod (Cons (n, Some NotInChain)) id (screen_policy now p ns r)
           else case ask_breaker now n r of
               (ok, r) \<Rightarrow> map_prod (Cons (n, if ok then None else Some CircuitIsOpen)) id
                            (screen_policy now p ns r)))"

definition eligible_of :: "(string \<times> exclusion option) list \<Rightarrow> string list" where
  "eligible_of st = map fst (filter (\<lambda>(n, e). e = None) st)"

definition blocked_of :: "(string \<times> exclusion option) list \<Rightarrow> string list" where
  "blocked_of st = map fst (filter (\<lambda>(n, e). e = Some CircuitIsOpen) st)"

text \<open>\<open>self._p50_latency(n) or default\<close>: a latency of zero also gives the default.\<close>

definition p50_or :: "real \<Rightarrow> router \<Rightarrow> string \<Rightarrow> real" where
  "p50_or d r n = (case p50_latency r n of None \<Rightarrow> d | Some l \<Rightarrow> if l = 0 then d else l)"

definition apply_ceiling :: "router \<Rightarrow> policy \<Rightarrow> string list \<Rightarrow> string list" where
  "apply_ceiling r p ordered =
     (case po_latency_ceiling_ms p of
        None \<Rightarrow> ordered
      | Some c \<Rightarrow>
          (let inside = filter (\<lambda>n. p50_or 0 r n \<le> c) ordered
           in inside @ filter (\<lambda>n. n \<notin> set inside) ordered))"

definition policy_rotation :: "router \<Rightarrow> policy \<Rightarrow> nat" where
  "policy_rotation r p = (case od_get (ro_policy_rr r) (po_name p) of None \<Rightarrow> 0 | Some k \<Rightarrow> k)"

definition rank_for_policy :: "time \<Rightarrow> router \<Rightarrow> request \<Rightarrow> policy \<Rightarrow> string list \<Rightarrow> string list" where
  "rank_for_policy now r q p eligible =
     (case po_strategy p of
        PFallback \<Rightarrow> filter (\<lambda>n. n \<in> set eligible) (po_fallback_chain p)
      | PRoundRobin \<Rightarrow>
          (let k = policy_rotation r p mod length eligible in drop k eligible @ take k eligible)
      | PFastest \<Rightarrow> apply_ceiling r p (sort_key (p50_or 500 r) eligible)
      | PCheapest \<Rightarrow> apply_ceiling r p (sort_key (balanced_score now r q eligible (Some (1, 0))) eligible)
      | _ \<Rightarrow> apply_ceiling r p
               (sort_key (balanced_score now r q eligible (Some (po_cost_weight p, po_latency_weight p))) eligible))"

definition pinned_first :: "policy \<Rightarrow> string list \<Rightarrow> string list \<Rightarrow> string list" where
  "pinned_first p eligible ranked =
     (let pinned = or_empty (po_provider p)
      in if pinned \<in> set eligible
         then (if pinned \<noteq> [] then [pinned] else []) @ filter (\<lambda>n. n \<noteq> pinned) ranked
         else ranked)"

definition follow_chain :: "policy \<Rightarrow> string list \<Rightarrow> string list \<Rightarrow> string list" where
  "follow_chain p eligible ranked =
     (if po_fallback_chain p \<noteq> [] \<and> po_strategy p \<noteq> PFallback
      then take 1 ranked @
           filter (\<lambda>n. n \<notin> set (take 1 ranked)) (filter (\<lambda>n. n \<in> set eligible) (po_fallback_chain p))
      else ranked)"

definition truthy_name :: "string option \<Rightarrow> bool" where
  "truthy_name s \<longleftrightarrow> or_empty s \<noteq> []"

definition owner_first :: "router \<Rightarrow> policy \<Rightarrow> string list \<Rightarrow> string list \<Rightarrow> string list" where
  "owner_first r p order eligible =
     (if po_strategy p \<notin> {PExplicit, PFallback} \<and> truthy_name (po_model p)
      then (case owner_of r (po_model p) of
              None \<Rightarrow> order
            | Some owner \<Rightarrow> if owner \<in> set eligible then owner # filter (\<lambda>n. n \<noteq> owner) order else order)
      else order)"

definition apply_policy_models :: "router \<Rightarrow> policy \<Rightarrow> string list \<Rightarrow> string list \<Rightarrow> string list" where
  "apply_policy_models r p order eligible =
     (let order = owner_first r p order eligible
      in if truthy_name (po_fallback_model p) \<and> cf_enable_failover (ro_config r) \<and> order \<noteq> []
         then (case owner_of r (po_fallback_model p) of
                 None \<Rightarrow> order
               | Some owner \<Rightarrow>
                   (if owner \<in> set eligible \<and>
                       (owner = hd order \<or> po_strategy p \<notin> {PExplicit, PFallback})
                    then [hd order, owner] @ filter (\<lambda>n. n \<noteq> owner) (tl order)
                    else order))
         else order)"

definition policy_models :: "router \<Rightarrow> policy \<Rightarrow> string list \<Rightarrow> string option list" where
  "policy_models r p order =
     map (\<lambda>(i, n).
        let wanted = (if i = 0 then po_model p else po_fallback_model p)
        in if truthy_name wanted \<and> owner_of r wanted \<in> {None, Some n} then wanted else None)
       (enumerate 0 order)"

definition plan_with_policy ::
  "time \<Rightarrow> request \<Rightarrow> policy \<Rightarrow> bool \<Rightarrow> router \<Rightarrow>
     (plan_error + string list \<times> (string \<times> exclusion option) list) \<times> router" where
  "plan_with_policy now q p advance r =
     (case screen_policy now p (od_keys (ro_providers r)) r of
        (st, r) \<Rightarrow>
          (let eligible = eligible_of st in
           if eligible = []
           then ((if blocked_of st \<noteq> []
                  then Inl (all_open now (blocked_of st) r)
                  else Inl (PolicyPermitsNone (po_name p))), r)
           else
             (let ranked = rank_for_policy now r q p eligible;
                  ranked = (if po_strategy p = PExplicit then pinned_first p eligible ranked else ranked);
                  order = follow_chain p eligible ranked;
                  r = (if advance \<and> po_strategy p = PRoundRobin
                       then r\<lparr>ro_policy_rr := od_set (po_name p) (policy_rotation r p + 1) (ro_policy_rr r)\<rparr>
                       else r);
                  order = (if rq_model q = None then apply_policy_models r p order eligible else order);
                  order = (if rq_model q \<noteq> None \<or> \<not> cf_enable_failover (ro_config r)
                           then take 1 order else order)
              in (Inr (order, st), r))))"

section \<open>Planning\<close>

definition ordered_candidates :: "time \<Rightarrow> request \<Rightarrow> string list \<Rightarrow> router \<Rightarrow> string list \<times> router" where
  "ordered_candidates now q healthy r =
     (case select_provider now q healthy r of
        (primary, r) \<Rightarrow>
          (if \<not> cf_enable_failover (ro_config r) \<or> rq_model q \<noteq> None then ([primary], r)
           else (primary # failover_order now r q (filter (\<lambda>n. n \<noteq> primary) healthy), r)))"

definition plan_any ::
  "time \<Rightarrow> policy_set option \<Rightarrow> request \<Rightarrow> string option \<Rightarrow> router \<Rightarrow>
     (plan_error + (string \<times> string option) list) \<times> router" where
  "plan_any now pset q preferred r =
     (let owner = owner_of r (rq_model q) in
      case preferred of
        Some pref \<Rightarrow>
          (case owner of
             Some o' \<Rightarrow> (if o' \<noteq> pref then (Inl (ModelBelongsTo o' pref), r) else (Inr [(pref, rq_model q)], r))
           | None \<Rightarrow> (Inr [(pref, rq_model q)], r))
      | None \<Rightarrow>
          (case policy_for pset q None of
             Inl e \<Rightarrow> (Inl e, r)
           | Inr policy \<Rightarrow>
               (case owner of
                  Some o' \<Rightarrow>
                    (if \<not> od_has (ro_providers r) o' then (Inl (ModelNeeds o'), r)
                     else case (case policy of None \<Rightarrow> None | Some p \<Rightarrow> permits p o') of
                         Some why \<Rightarrow> (Inl (PolicyDenies o' why), r)
                       | None \<Rightarrow>
                           (case ask_breaker now o' r of
                              (ok, r) \<Rightarrow> (if \<not> ok then (Inl (all_open now [o'] r), r)
                                          else (Inr [(o', rq_model q)], r))))
                | None \<Rightarrow>
                    (case policy of
                       Some p \<Rightarrow>
                         (case plan_with_policy now q p True r of
                            (Inl e, r) \<Rightarrow> (Inl e, r)
                          | (Inr (order, _), r) \<Rightarrow>
                              (if rq_model q \<noteq> None then (Inr (map (\<lambda>n. (n, rq_model q)) order), r)
                               else (Inr (zip order (policy_models r p order)), r)))
                     | None \<Rightarrow>
                         (case healthy_names now (od_keys (ro_providers r)) r of
                            (healthy, r) \<Rightarrow>
                              (if healthy = [] then (Inl (all_open now (od_keys (ro_providers r)) r), r)
                               else case ordered_candidates now q healthy r of
                                   (order, r) \<Rightarrow>
                                     (if \<not> cf_enable_failover (ro_config r) \<or> rq_model q \<noteq> None
                                      then (Inr (map (\<lambda>n. (n, rq_model q)) order), r)
                                      else (Inr (map (\<lambda>n. (n, None)) order), r))))))))"

definition is_local :: "router \<Rightarrow> string \<Rightarrow> bool" where
  "is_local r n = (case od_get (ro_providers r) n of None \<Rightarrow> False | Some p \<Rightarrow> pv_is_local p)"

definition apply_difficulty ::
  "router \<Rightarrow> (string \<times> string option) list \<Rightarrow> pyval \<Rightarrow> (string \<times> string option) list" where
  "apply_difficulty r pairs d =
     (if d = PStr ''easy'' \<or> d = PStr ''hard''
      then let first = filter (\<lambda>(n, m). is_local r n = (d = PStr ''easy'')) pairs
           in first @ filter (\<lambda>x. x \<notin> set first) pairs
      else pairs)"

definition is_private :: "request \<Rightarrow> bool" where
  "is_private q \<longleftrightarrow> \<not> falsy (get_or (rq_metadata q) ''private'' PNone)"

definition plan ::
  "time \<Rightarrow> policy_set option \<Rightarrow> request \<Rightarrow> string option \<Rightarrow> router \<Rightarrow>
     (plan_error + (string \<times> string option) list) \<times> router" where
  "plan now pset q preferred r =
     (case plan_any now pset q preferred r of
        (Inl e, r) \<Rightarrow> (Inl e, r)
      | (Inr pairs, r) \<Rightarrow>
          (if \<not> is_private q
           then (Inr (if preferred = None \<and> length pairs > 1
                      then apply_difficulty r pairs (get_or (rq_metadata q) ''difficulty'' PNone)
                      else pairs), r)
           else let kept = filter (\<lambda>(n, m). is_local r n) pairs
                in ((if kept = [] then Inl PrivateNoLocal else Inr kept), r)))"

section \<open>The capability screen\<close>

definition resolve_profile :: "router \<Rightarrow> string \<Rightarrow> string option \<Rightarrow> model_profile option" where
  "resolve_profile r n model =
     (if or_empty model \<noteq> [] then registry_get (ro_registry r) (or_empty model)
      else default_for (ro_registry r) n)"

definition profile_problem :: "model_profile \<Rightarrow> request \<Rightarrow> model_problem option" where
  "profile_problem m q =
     (if request_images q \<noteq> [] \<and> \<not> mp_vision m then Some ModelNoImages
      else if rq_tools q \<noteq> [] \<and> \<not> mp_supports_function_calling m then Some ModelNoTools
      else if \<not> fits_context m (estimate_tokens q + rq_max_tokens q)
      then Some (ContextExceeded (estimate_tokens q + rq_max_tokens q) (mp_context_window m))
      else if mp_max_output_tokens m \<noteq> 0 \<and> rq_max_tokens q > mp_max_output_tokens m
      then Some (OutputExceeded (rq_max_tokens q) (mp_max_output_tokens m))
      else if rq_stream q \<and> \<not> mp_supports_streaming m then Some ModelNoStream
      else None)"

definition model_problem :: "router \<Rightarrow> request \<Rightarrow> string \<Rightarrow> model_problem option" where
  "model_problem r q n =
     (case od_get (ro_providers r) n of
        None \<Rightarrow> None
      | Some p \<Rightarrow>
          (if request_images q \<noteq> [] \<and> \<not> pv_supports_vision p then Some ProviderNoImages
           else if rq_tools q \<noteq> [] \<and> rq_stream q then Some StreamNoTools
           else if rq_tools q \<noteq> [] \<and> \<not> pv_supports_tools p then Some ProviderNoTools
           else case (case pv_capability_problem p of None \<Rightarrow> None | Some hook \<Rightarrow> hook q) of
               Some s \<Rightarrow> Some (HookProblem s)
             | None \<Rightarrow> (case resolve_profile r n (rq_model q) of
                 None \<Rightarrow> None | Some m \<Rightarrow> profile_problem m q)))"

type_synonym budget_gate = "(string \<Rightarrow> budget_exceeded option) option"

definition admit_model :: "budget_gate \<Rightarrow> router \<Rightarrow> request \<Rightarrow> string \<Rightarrow> budget_exceeded option" where
  "admit_model bg r q n =
     (case bg of
        None \<Rightarrow> None
      | Some g \<Rightarrow> (case od_get (ro_providers r) n of
          None \<Rightarrow> None | Some p \<Rightarrow> g (model_or_default p (rq_model q))))"

text \<open>
  The loop of \<open>_screen\<close>: \<open>strict\<close> for a pinned or single candidate, whose problem is raised; the
  accumulators are the first problem and the first budget refusal.
\<close>

fun screen_loop ::
  "budget_gate \<Rightarrow> router \<Rightarrow> request \<Rightarrow> bool \<Rightarrow> (string \<times> string option) list \<Rightarrow>
   (string \<times> request) list \<Rightarrow> model_problem option \<Rightarrow> budget_exceeded option \<Rightarrow>
   plan_error + (string \<times> request) list" where
  "screen_loop bg r q strict [] keep problem budget =
     (if keep \<noteq> [] then Inr keep
      else case budget of
          Some b \<Rightarrow> Inl (OverBudget b)
        | None \<Rightarrow> (case problem of Some p \<Rightarrow> Inl (NotServable p) | None \<Rightarrow> Inl NothingCanServe))"
| "screen_loop bg r q strict ((n, m) # rest) keep problem budget =
     (let req = q\<lparr>rq_model := m\<rparr> in
      case model_problem r req n of
        Some p \<Rightarrow>
          (if strict then Inl (NotServable p)
           else screen_loop bg r q strict rest keep
                  (case problem of None \<Rightarrow> Some p | Some _ \<Rightarrow> problem) budget)
      | None \<Rightarrow>
          (case admit_model bg r req n of
             Some b \<Rightarrow>
               (if strict then Inl (OverBudget b)
                else screen_loop bg r q strict rest keep problem
                       (case budget of None \<Rightarrow> Some b | Some _ \<Rightarrow> budget))
           | None \<Rightarrow> screen_loop bg r q strict rest (keep @ [(n, req)]) problem budget))"

definition screen ::
  "time \<Rightarrow> policy_set option \<Rightarrow> budget_gate \<Rightarrow> request \<Rightarrow> string option \<Rightarrow> router \<Rightarrow>
     (plan_error + (string \<times> request) list) \<times> router" where
  "screen now pset bg q preferred r =
     (case plan now pset q preferred r of
        (Inl e, r) \<Rightarrow> (Inl e, r)
      | (Inr pairs, r) \<Rightarrow>
          (screen_loop bg r q (preferred \<noteq> None \<or> rq_model q \<noteq> None \<or> length pairs = 1) pairs [] None None, r))"

text \<open>\<open>can_offer_tools\<close>: planning errors count as yes; planning moves the routing state.\<close>

fun mentions_tools :: "model_problem \<Rightarrow> bool" where
  "mentions_tools ProviderNoTools = True"
| "mentions_tools ModelNoTools = True"
| "mentions_tools (HookProblem s) = str_in ''tool calling'' s"
| "mentions_tools _ = False"

definition can_offer_tools ::
  "time \<Rightarrow> policy_set option \<Rightarrow> request \<Rightarrow> string option \<Rightarrow> router \<Rightarrow> bool \<times> router" where
  "can_offer_tools now pset q preferred r =
     (let probe = q\<lparr>rq_tools := (if rq_tools q \<noteq> [] then rq_tools q
                      else [PDict [(''type'', PStr ''function'')]]), rq_stream := False\<rparr>
      in case plan now pset probe preferred r of
           (Inl _, r) \<Rightarrow> (True, r)
         | (Inr pairs, r) \<Rightarrow>
             (list_ex (\<lambda>(n, m). case model_problem r probe n of
                 None \<Rightarrow> True | Some p \<Rightarrow> \<not> mentions_tools p) pairs, r))"

section \<open>The dry run\<close>

datatype explained =
    ExplainPinned string
  | ExplainStrategy "string list" "string list"
  | ExplainPolicy policy "string list" "(string \<times> exclusion option) list"

fun explained_order :: "explained \<Rightarrow> string list" where
  "explained_order (ExplainPinned n) = [n]"
| "explained_order (ExplainStrategy order _) = order"
| "explained_order (ExplainPolicy _ order _) = order"

text \<open>\<open>_candidates_no_side_effects\<close>: the selection with the rotation counter put back.\<close>

definition candidates_no_side_effects :: "time \<Rightarrow> request \<Rightarrow> string list \<Rightarrow> router \<Rightarrow> string list \<times> router" where
  "candidates_no_side_effects now q healthy r =
     (let saved = ro_rr_index r in
      case select_provider now q healthy r of
        (primary, r) \<Rightarrow>
          (let r = r\<lparr>ro_rr_index := saved\<rparr> in
           if \<not> cf_enable_failover (ro_config r) \<or> rq_model q \<noteq> None then ([primary], r)
           else (primary # failover_order now r q (filter (\<lambda>n. n \<noteq> primary) healthy), r)))"

definition explain ::
  "time \<Rightarrow> policy_set option \<Rightarrow> request \<Rightarrow> string option \<Rightarrow> string option \<Rightarrow> router \<Rightarrow>
     (plan_error + explained) \<times> router" where
  "explain now pset q policy_name preferred r =
     (case preferred of
        Some n \<Rightarrow>
          (if \<not> od_has (ro_providers r) n then (Inl (ProviderUnavailable n), r)
           else (Inr (ExplainPinned n), r))
      | None \<Rightarrow>
          (case policy_for pset q policy_name of
             Inl e \<Rightarrow> (Inl e, r)
           | Inr None \<Rightarrow>
               (case healthy_names now (od_keys (ro_providers r)) r of
                  (healthy, r) \<Rightarrow>
                    (if healthy = [] then (Inl (all_open now (od_keys (ro_providers r)) r), r)
                     else case candidates_no_side_effects now q healthy r of
                         (order, r) \<Rightarrow> (Inr (ExplainStrategy order healthy), r)))
           | Inr (Some p) \<Rightarrow>
               (case plan_with_policy now q p False r of
                  (Inl e, r) \<Rightarrow> (Inl e, r)
                | (Inr (order, st), r) \<Rightarrow> (Inr (ExplainPolicy p order st), r))))"

section \<open>What planning may change\<close>

text \<open>Planning refreshes breakers and moves the two rotation counters, nothing else.\<close>

definition refreshed :: "time \<Rightarrow> (string, breaker) odict \<Rightarrow> (string, breaker) odict \<Rightarrow> bool" where
  "refreshed now bs bs' \<longleftrightarrow>
     (\<forall>n. od_get bs' n = od_get bs n \<or> od_get bs' n = map_option (refresh now) (od_get bs n))"

definition planned_from :: "time \<Rightarrow> router \<Rightarrow> router \<Rightarrow> bool" where
  "planned_from now r r' \<longleftrightarrow>
     (\<exists>bs i rr. r' = r\<lparr>ro_breakers := bs, ro_rr_index := i, ro_policy_rr := rr\<rparr>
        \<and> refreshed now (ro_breakers r) bs)"

lemma refresh_idem: "refresh now (refresh now b) = refresh now b"
  by (simp add: refresh_def)

lemma refreshed_refl [simp]: "refreshed now bs bs"
  by (simp add: refreshed_def)

lemma refreshed_trans:
  assumes "refreshed now a b" "refreshed now b c"
  shows "refreshed now a c"
  unfolding refreshed_def
proof
  fix n
  have "od_get b n = od_get a n \<or> od_get b n = map_option (refresh now) (od_get a n)"
    "od_get c n = od_get b n \<or> od_get c n = map_option (refresh now) (od_get b n)"
    using assms by (simp_all add: refreshed_def)
  then show "od_get c n = od_get a n \<or> od_get c n = map_option (refresh now) (od_get a n)"
    by (cases "od_get a n") (auto simp: refresh_idem)
qed

lemma planned_refl [simp, intro]: "planned_from now r r"
  unfolding planned_from_def
  by (intro exI [of _ "ro_breakers r"] exI [of _ "ro_rr_index r"] exI [of _ "ro_policy_rr r"]) simp

lemma planned_trans: "planned_from now a b \<Longrightarrow> planned_from now b c \<Longrightarrow> planned_from now a c"
proof -
  assume "planned_from now a b" "planned_from now b c"
  then obtain bs i rr bs' i' rr' where "b = a\<lparr>ro_breakers := bs, ro_rr_index := i, ro_policy_rr := rr\<rparr>"
    "refreshed now (ro_breakers a) bs" "c = b\<lparr>ro_breakers := bs', ro_rr_index := i', ro_policy_rr := rr'\<rparr>"
    "refreshed now (ro_breakers b) bs'"
    unfolding planned_from_def by blast
  then show "planned_from now a c"
    unfolding planned_from_def
    by (intro exI [of _ bs'] exI [of _ i'] exI [of _ rr']) (auto intro: refreshed_trans)
qed

lemma planned_fields:
  assumes "planned_from now r r'"
  shows "ro_providers r' = ro_providers r" "ro_config r' = ro_config r" "ro_registry r' = ro_registry r"
    "ro_provider_stats r' = ro_provider_stats r" "ro_health r' = ro_health r"
    "ro_limiter r' = ro_limiter r" "refreshed now (ro_breakers r) (ro_breakers r')"
  using assms by (auto simp: planned_from_def)

lemma planned_same:
  assumes "planned_from now r r'"
  shows "is_local r' = is_local r" "owner_of r' = owner_of r" "cost_estimate r' = cost_estimate r"
    "latency_history r' = latency_history r" "health_of now r' = health_of now r"
  unfolding fun_eq_iff is_local_def owner_of_def cost_estimate_def latency_history_def health_of_def
    planned_fields [OF assms] by simp_all

definition ready :: "time \<Rightarrow> router \<Rightarrow> string \<Rightarrow> bool" where
  "ready now r n = (case od_get (ro_breakers r) n of None \<Rightarrow> False | Some b \<Rightarrow> fst (would_allow now b))"

lemma would_allow_refresh:
  "snd (would_allow now b) = refresh now b" "fst (would_allow now (refresh now b)) = fst (would_allow now b)"
  by (simp_all add: would_allow_def Let_def refresh_idem split: circuit_state.split)

lemma ask_breaker_facts:
  assumes "ask_breaker now n r = (ok, r')"
  shows "ok = ready now r n" "ready now r' = ready now r" "planned_from now r r'"
    "ro_rr_index r' = ro_rr_index r" "ro_policy_rr r' = ro_policy_rr r"
proof -
  have "ok = ready now r n \<and> ready now r' = ready now r \<and> planned_from now r r'
      \<and> ro_rr_index r' = ro_rr_index r \<and> ro_policy_rr r' = ro_policy_rr r"
  proof (cases "od_get (ro_breakers r) n")
    case None
    then show ?thesis using assms by (simp add: ask_breaker_def ready_def)
  next
    case (Some b)
    have r': "r' = r\<lparr>ro_breakers := od_set n (refresh now b) (ro_breakers r)\<rparr>" "ok = fst (would_allow now b)"
      using assms would_allow_refresh(1) [of now b]
      by (auto simp: ask_breaker_def Some split: prod.splits)
    have "ready now r' = ready now r"
      by (simp add: fun_eq_iff ready_def r' Some would_allow_refresh)
    moreover have "planned_from now r r'" unfolding planned_from_def r'
      by (intro exI [of _ "od_set n (refresh now b) (ro_breakers r)"] exI [of _ "ro_rr_index r"]
          exI [of _ "ro_policy_rr r"]) (simp add: refreshed_def Some)
    ultimately show ?thesis by (simp add: r' ready_def Some)
  qed
  then show "ok = ready now r n" "ready now r' = ready now r" "planned_from now r r'"
    "ro_rr_index r' = ro_rr_index r" "ro_policy_rr r' = ro_policy_rr r" by simp_all
qed

lemma healthy_names_facts:
  "healthy_names now ns r = (hs, r') \<Longrightarrow>
     hs = filter (ready now r) ns \<and> ready now r' = ready now r \<and> planned_from now r r'
   \<and> ro_rr_index r' = ro_rr_index r \<and> ro_policy_rr r' = ro_policy_rr r"
proof (induction ns arbitrary: r hs r')
  case Nil
  then show ?case by simp
next
  case (Cons n ns)
  obtain ok r1 where a: "ask_breaker now n r = (ok, r1)" by (cases "ask_breaker now n r")
  obtain hs1 r2 where h: "healthy_names now ns r1 = (hs1, r2)" by (cases "healthy_names now ns r1")
  note f = ask_breaker_facts [OF a]
  show ?case
    using Cons.IH [OF h] Cons.prems a h f planned_trans [OF f(3)] by auto
qed

definition policy_status :: "time \<Rightarrow> policy \<Rightarrow> router \<Rightarrow> string \<Rightarrow> exclusion option" where
  "policy_status now p r n =
     (case permits p n of
        Some why \<Rightarrow> Some (Refused why)
      | None \<Rightarrow> if chain_excludes p n then Some NotInChain
                else if ready now r n then None else Some CircuitIsOpen)"

lemma screen_policy_facts:
  "screen_policy now p ns r = (st, r') \<Longrightarrow>
     st = map (\<lambda>n. (n, policy_status now p r n)) ns \<and> ready now r' = ready now r \<and> planned_from now r r'
   \<and> ro_rr_index r' = ro_rr_index r \<and> ro_policy_rr r' = ro_policy_rr r"
proof (induction ns arbitrary: r st r')
  case Nil
  then show ?case by simp
next
  case (Cons n ns)
  show ?case
  proof (cases "permits p n = None \<and> \<not> chain_excludes p n")
    case False
    obtain st1 r1 where s: "screen_policy now p ns r = (st1, r1)" by (cases "screen_policy now p ns r")
    show ?thesis using Cons.IH [OF s] Cons.prems s False
      by (auto simp: policy_status_def split: option.splits)
  next
    case True
    obtain ok r1 where a: "ask_breaker now n r = (ok, r1)" by (cases "ask_breaker now n r")
    obtain st1 r2 where s: "screen_policy now p ns r1 = (st1, r2)" by (cases "screen_policy now p ns r1")
    note f = ask_breaker_facts [OF a]
    have "policy_status now p r1 = policy_status now p r" by (simp add: policy_status_def fun_eq_iff f(2))
    then show ?thesis using Cons.IH [OF s] Cons.prems s True a f planned_trans [OF f(3)]
      by (auto simp: policy_status_def)
  qed
qed

lemma eligible_facts:
  assumes "st = map (\<lambda>n. (n, policy_status now p r n)) ns"
  shows "eligible_of st = filter (\<lambda>n. policy_status now p r n = None) ns"
  unfolding assms eligible_of_def by (induction ns) auto

lemma policy_status_None:
  "policy_status now p r n = None \<longleftrightarrow> permits p n = None \<and> \<not> chain_excludes p n \<and> ready now r n"
  by (auto simp: policy_status_def split: option.splits)

text \<open>
  The providers a policy's chain leaves: the chain of a \<open>fallback\<close> or \<open>explicit\<close> policy and its pinned provider.
  A \<open>fallback\<close> policy without a chain leaves all.
\<close>

definition within_chain :: "policy \<Rightarrow> string \<Rightarrow> bool" where
  "within_chain p n \<longleftrightarrow>
     (case po_strategy p of
        PFallback \<Rightarrow> po_fallback_chain p = [] \<or> n \<in> set (po_fallback_chain p) \<or> po_provider p = Some n
      | PExplicit \<Rightarrow> n \<in> set (po_fallback_chain p) \<or> po_provider p = Some n
      | _ \<Rightarrow> True)"

lemma within_chain_iff: "within_chain p n \<longleftrightarrow> \<not> chain_excludes p n"
  by (cases "po_strategy p") (auto simp: within_chain_def chain_excludes_def)

section \<open>Orders stay within the eligible providers\<close>

lemma apply_ceiling_set [simp]: "set (apply_ceiling r p xs) = set xs"
  by (auto simp: apply_ceiling_def Let_def split: option.splits)

lemma rotate_set: "k \<le> length xs \<Longrightarrow> set (drop k xs @ take k xs) = set xs"
  by (metis Un_commute append_take_drop_id set_append)

lemma rank_subset: "set (rank_for_policy now r q p eligible) \<subseteq> set eligible"
  by (auto simp: rank_for_policy_def Let_def dest: in_set_dropD in_set_takeD split: pstrategy.splits)

lemma pinned_subset: "set ranked \<subseteq> set eligible \<Longrightarrow> set (pinned_first p eligible ranked) \<subseteq> set eligible"
  by (auto simp: pinned_first_def Let_def)

lemma follow_chain_subset: "set ranked \<subseteq> set eligible \<Longrightarrow> set (follow_chain p eligible ranked) \<subseteq> set eligible"
  by (auto simp: follow_chain_def dest: in_set_takeD)

lemma owner_first_subset: "set order \<subseteq> set eligible \<Longrightarrow> set (owner_first r p order eligible) \<subseteq> set eligible"
  by (auto simp: owner_first_def split: option.splits)

lemma policy_models_subset:
  assumes "set order \<subseteq> set eligible"
  shows "set (apply_policy_models r p order eligible) \<subseteq> set eligible"
proof -
  define o1 where "o1 = owner_first r p order eligible"
  have s: "set o1 \<subseteq> set eligible" using owner_first_subset [OF assms] by (simp add: o1_def)
  show ?thesis
  proof (cases "o1 = []")
    case True
    then show ?thesis by (simp add: apply_policy_models_def Let_def o1_def [symmetric])
  next
    case False
    then have "hd o1 \<in> set eligible" "set (tl o1) \<subseteq> set eligible"
      using s by (auto dest: list.set_sel)
    then show ?thesis
      using s by (auto simp: apply_policy_models_def Let_def o1_def [symmetric] split: option.splits)
  qed
qed

lemma plan_with_policy_facts:
  assumes "plan_with_policy now q p advance r = (res, r')"
  shows "planned_from now r r'" "ro_rr_index r' = ro_rr_index r"
    "\<not> advance \<Longrightarrow> ro_policy_rr r' = ro_policy_rr r"
    "res = Inr (order, st) \<Longrightarrow>
      set order \<subseteq> {n \<in> set (od_keys (ro_providers r)). permits p n = None \<and> within_chain p n \<and> ready now r n}"
    "fst (plan_with_policy now q p advance' r) = res"
proof -
  obtain st0 r0 where s: "screen_policy now p (od_keys (ro_providers r)) r = (st0, r0)"
    by (cases "screen_policy now p (od_keys (ro_providers r)) r")
  from screen_policy_facts [OF s] have f: "st0 = map (\<lambda>n. (n, policy_status now p r n)) (od_keys (ro_providers r))"
    "planned_from now r r0" "ro_rr_index r0 = ro_rr_index r" "ro_policy_rr r0 = ro_policy_rr r" by auto
  define eligible where "eligible = eligible_of st0"
  have el: "set eligible = {n \<in> set (od_keys (ro_providers r)). permits p n = None \<and> \<not> chain_excludes p n \<and> ready now r n}"
    unfolding eligible_def eligible_facts [OF f(1)] by (auto simp: policy_status_None)
  define adv where "adv = (\<lambda>b rr. if b \<and> po_strategy p = PRoundRobin
     then rr\<lparr>ro_policy_rr := od_set (po_name p) (policy_rotation rr p + 1) (ro_policy_rr rr)\<rparr> else rr)"
  define ranked where "ranked = (if po_strategy p = PExplicit
     then pinned_first p eligible (rank_for_policy now r0 q p eligible) else rank_for_policy now r0 q p eligible)"
  define o1 where "o1 = follow_chain p eligible ranked"
  define o2 where "o2 = (\<lambda>b. if rq_model q = None then apply_policy_models (adv b r0) p o1 eligible else o1)"
  define o3 where "o3 = (\<lambda>b. if rq_model q \<noteq> None \<or> \<not> cf_enable_failover (ro_config (adv b r0)) then take 1 (o2 b) else o2 b)"
  have pl: "planned_from now r0 (adv b r0)" for b
    unfolding planned_from_def adv_def
    by (intro exI [of _ "ro_breakers r0"] exI [of _ "ro_rr_index r0"]
        exI [of _ "ro_policy_rr (adv b r0)"]) (simp add: adv_def)
  have same: "o3 b = o3 b'" for b b'
    unfolding o3_def o2_def apply_policy_models_def owner_first_def Let_def
      planned_same(2) [OF pl] planned_fields(2) [OF pl] ..
  have eq: "plan_with_policy now q p b r =
      (if eligible = [] then (if blocked_of st0 \<noteq> [] then Inl (all_open now (blocked_of st0) r0)
          else Inl (PolicyPermitsNone (po_name p)), r0)
       else (Inr (o3 b, st0), adv b r0))" for b
    by (simp add: plan_with_policy_def s eligible_def [symmetric] Let_def o3_def o2_def o1_def ranked_def adv_def)
  show "planned_from now r r'" using assms eq f(2) planned_trans [OF f(2) pl] by (auto split: if_splits)
  show "ro_rr_index r' = ro_rr_index r" using assms eq f(3) by (auto simp: adv_def split: if_splits)
  show "\<not> advance \<Longrightarrow> ro_policy_rr r' = ro_policy_rr r" using assms eq f(4) by (auto simp: adv_def split: if_splits)
  show "fst (plan_with_policy now q p advance' r) = res"
    using assms eq same [of advance' advance] by (auto split: if_splits)
  have "set ranked \<subseteq> set eligible"
    unfolding ranked_def using rank_subset pinned_subset [OF rank_subset] by auto
  then have "set o1 \<subseteq> set eligible" unfolding o1_def by (rule follow_chain_subset)
  then have "set (o2 b) \<subseteq> set eligible" for b unfolding o2_def using policy_models_subset by auto
  then have sub: "set (o3 advance) \<subseteq> set eligible" unfolding o3_def by (auto dest: in_set_takeD)
  show "set order \<subseteq> {n \<in> set (od_keys (ro_providers r)). permits p n = None \<and> within_chain p n \<and> ready now r n}"
    if "res = Inr (order, st)"
  proof -
    have "order = o3 advance" using that assms eq by (auto split: if_splits)
    then show ?thesis using sub el by (auto simp: within_chain_iff)
  qed
qed

section \<open>Plans\<close>

lemma select_provider_planned: "planned_from now r (snd (select_provider now q av r))"
proof -
  have "planned_from now r (r\<lparr>ro_rr_index := i\<rparr>)" for i
    unfolding planned_from_def
    by (intro exI [of _ "ro_breakers r"] exI [of _ i] exI [of _ "ro_policy_rr r"]) simp
  then show ?thesis
    by (auto simp: select_provider_def select_fastest_def select_round_robin_def Let_def
        split: routing_strategy.split)
qed

lemma scan_best_in: "set ns \<subseteq> S \<Longrightarrow> best \<in> S \<Longrightarrow> scan_best f best bc ns \<in> S"
  by (induction ns arbitrary: best bc) auto

lemma scan_best_min:
  "bc = Some (f best) \<Longrightarrow> f (scan_best f best bc ns) \<le> f best
     \<and> (\<forall>n\<in>set ns. f (scan_best f best bc ns) \<le> f n)"
proof (induction ns arbitrary: best bc)
  case Nil
  then show ?case by simp
next
  case (Cons n ns)
  show ?case
  proof (cases "f n < f best")
    case True
    then show ?thesis using Cons.IH [of "Some (f n)" n] Cons.prems by auto
  next
    case False
    then show ?thesis using Cons.IH [of bc best] Cons.prems by auto
  qed
qed

lemma scan_best_arg_min:
  assumes "av \<noteq> []"
  shows "scan_best f (hd av) None av \<in> set av \<and> (\<forall>n\<in>set av. f (scan_best f (hd av) None av) \<le> f n)"
  using assms scan_best_min [of "Some (f (hd av))" f "hd av" "tl av"]
    scan_best_in [of "tl av" "set av" "hd av" f "Some (f (hd av))"]
  by (cases av) auto

lemma select_provider_in:
  assumes "av \<noteq> []"
  shows "fst (select_provider now q av r) \<in> set av"
proof -
  have nth: "xs ! (i mod length xs) \<in> set xs" if "xs \<noteq> []" for xs :: "string list" and i
    using that by (simp add: nth_mem)
  have "set (filter P av) \<subseteq> set av" for P by auto
  then show ?thesis
    using assms nth scan_best_arg_min [OF assms]
    by (auto simp: select_provider_def select_cheapest_def select_fastest_def select_balanced_def
        select_round_robin_def Let_def split: routing_strategy.split) (meson filter_is_subset nth subsetD)
qed

lemma ordered_candidates_facts:
  assumes "ordered_candidates now q healthy r = (order, r')" "healthy \<noteq> []"
  shows "set order \<subseteq> set healthy" "planned_from now r r'" "ro_policy_rr r' = ro_policy_rr r" "order \<noteq> []"
proof -
  obtain n r1 where s: "select_provider now q healthy r = (n, r1)" by (cases "select_provider now q healthy r")
  have n: "n \<in> set healthy" using select_provider_in [OF assms(2), of now q r] s by simp
  have p: "planned_from now r r1" using select_provider_planned [of now r q healthy] s by simp
  have rr: "ro_policy_rr r1 = ro_policy_rr r" using s
    by (auto simp: select_provider_def select_fastest_def select_round_robin_def Let_def
        split: routing_strategy.splits if_splits)
  show "set order \<subseteq> set healthy" "planned_from now r r'" "ro_policy_rr r' = ro_policy_rr r" "order \<noteq> []"
    using assms(1) s n p rr by (auto simp: ordered_candidates_def failover_order_def split: if_splits)
qed

lemma plan_any_planned: "plan_any now pset q preferred r = (res, r') \<Longrightarrow> planned_from now r r'"
  unfolding plan_any_def Let_def
  by (auto split: option.splits sum.splits prod.splits if_splits list.splits
      dest!: ask_breaker_facts(3) plan_with_policy_facts(1) healthy_names_facts
        dest: ordered_candidates_facts(2) planned_trans)

text \<open>The screen only drops candidates, and a candidate's request differs only in its model.\<close>

definition usable ::
  "budget_gate \<Rightarrow> router \<Rightarrow> request \<Rightarrow> (string \<times> string option) set \<Rightarrow> string \<times> request \<Rightarrow> bool" where
  "usable bg r q S c \<longleftrightarrow>
     (\<exists>m. (fst c, m) \<in> S \<and> snd c = q\<lparr>rq_model := m\<rparr>)
   \<and> model_problem r (snd c) (fst c) = None \<and> admit_model bg r (snd c) (fst c) = None"

lemma screen_loop_keeps:
  "screen_loop bg r q strict pairs keep pr bu = Inr out \<Longrightarrow> list_all (usable bg r q S) keep \<Longrightarrow>
   set pairs \<subseteq> S \<Longrightarrow> out \<noteq> [] \<and> list_all (usable bg r q S) out"
proof (induction pairs arbitrary: keep pr bu)
  case Nil
  then show ?case by (simp split: if_splits option.splits)
next
  case (Cons x pairs)
  obtain n m where x: "x = (n, m)" by (cases x)
  show ?case
  proof (cases "model_problem r (q\<lparr>rq_model := m\<rparr>) n")
    case (Some p)
    then show ?thesis using Cons.IH Cons.prems by (simp add: x Let_def split: if_splits)
  next
    case np: None
    show ?thesis
    proof (cases "admit_model bg r (q\<lparr>rq_model := m\<rparr>) n")
      case (Some b)
      then show ?thesis using Cons.IH Cons.prems np by (simp add: x Let_def split: if_splits)
    next
      case None
      have "usable bg r q S (n, q\<lparr>rq_model := m\<rparr>)"
        using Cons.prems(3) None np by (auto simp: usable_def x)
      moreover have "screen_loop bg r q strict pairs (keep @ [(n, q\<lparr>rq_model := m\<rparr>)]) pr bu = Inr out"
        using Cons.prems(1) None np by (simp add: x Let_def)
      ultimately show ?thesis using Cons.IH Cons.prems(2,3) by (simp add: x)
    qed
  qed
qed

lemma screen_facts:
  assumes "screen now pset bg q preferred r = (Inr cands, r')"
  shows "\<exists>pairs. plan now pset q preferred r = (Inr pairs, r') \<and> cands \<noteq> []
    \<and> list_all (usable bg r' q (set pairs)) cands"
proof -
  obtain pairs where p: "plan now pset q preferred r = (Inr pairs, r')"
    and l: "screen_loop bg r' q (preferred \<noteq> None \<or> rq_model q \<noteq> None \<or> length pairs = 1) pairs [] None None = Inr cands"
    using assms by (auto simp: screen_def split: prod.splits sum.splits)
  from screen_loop_keeps [OF l, of "set pairs"] p show ?thesis by simp
qed

lemma apply_difficulty_set [simp]: "set (apply_difficulty r pairs d) = set pairs"
  by (auto simp: apply_difficulty_def Let_def)

lemma plan_facts:
  assumes "plan now pset q preferred r = (Inr pairs, r')"
  shows "\<exists>all. plan_any now pset q preferred r = (Inr all, r') \<and> set pairs \<subseteq> set all"
    and "is_private q \<Longrightarrow> \<forall>(n, m)\<in>set pairs. is_local r n"
proof -
  obtain all r1 where a: "plan_any now pset q preferred r = (Inr all, r1)"
    using assms by (auto simp: plan_def split: prod.splits sum.splits)
  have r1: "r1 = r'" using assms a by (auto simp: plan_def Let_def split: if_splits)
  show "\<exists>all. plan_any now pset q preferred r = (Inr all, r') \<and> set pairs \<subseteq> set all"
    using assms a r1 by (auto simp: plan_def Let_def split: if_splits)
  show "is_private q \<Longrightarrow> \<forall>(n, m)\<in>set pairs. is_local r n"
    using assms a planned_same(1) [OF plan_any_planned [OF a]] by (auto simp: plan_def Let_def split: if_splits)
qed

lemma no_side_effects:
  assumes "ordered_candidates now q hs r = (order, r1)" "candidates_no_side_effects now q hs r = (order', r2)" "hs \<noteq> []"
  shows "order' = order" "ro_rr_index r2 = ro_rr_index r" "ro_policy_rr r2 = ro_policy_rr r"
proof -
  obtain primary rs where s: "select_provider now q hs r = (primary, rs)" by (cases "select_provider now q hs r")
  have "planned_from now rs (rs\<lparr>ro_rr_index := i\<rparr>)" for i
    unfolding planned_from_def
    by (intro exI [of _ "ro_breakers rs"] exI [of _ i] exI [of _ "ro_policy_rr rs"]) simp
  from planned_same [OF this] planned_fields(2) [OF this]
  have "failover_order now (rs\<lparr>ro_rr_index := i\<rparr>) q ns = failover_order now rs q ns" for i ns
    unfolding failover_order_def balanced_score_def [abs_def] raw_latency_def [abs_def] p50_of_def [abs_def] by (simp cong: if_cong)
  then show "order' = order" "ro_rr_index r2 = ro_rr_index r"
    using assms(1,2) s by (auto simp: ordered_candidates_def candidates_no_side_effects_def Let_def split: if_splits)
  have "ro_policy_rr rs = ro_policy_rr r2"
    using assms(2) s by (auto simp: candidates_no_side_effects_def Let_def split: if_splits)
  moreover have "ro_policy_rr rs = ro_policy_rr r1"
    using assms(1) s by (auto simp: ordered_candidates_def split: if_splits)
  ultimately show "ro_policy_rr r2 = ro_policy_rr r" using ordered_candidates_facts(3) [OF assms(1,3)] by simp
qed

text \<open>What the policy in force asks of a candidate; the chain is not consulted for the owner of an explicit model.\<close>

definition policy_candidate :: "time \<Rightarrow> policy \<Rightarrow> router \<Rightarrow> request \<Rightarrow> string \<Rightarrow> bool" where
  "policy_candidate now p r q n \<longleftrightarrow>
     permits p n = None \<and> ready now r n \<and> n \<in> set (od_keys (ro_providers r))
   \<and> (case owner_of r (rq_model q) of None \<Rightarrow> within_chain p n | Some o' \<Rightarrow> n = o')"

lemma plan_any_policy:
  assumes "plan_any now pset q None r = (Inr pairs, r')" "policy_for pset q None = Inr (Some p)"
  shows "\<forall>(n, m)\<in>set pairs. policy_candidate now p r q n"
proof (cases "owner_of r (rq_model q)")
  case (Some own)
  obtain ok r1 where a: "ask_breaker now own r = (ok, r1)" by (cases "ask_breaker now own r")
  have reg: "od_has (ro_providers r) own"
    using assms Some by (simp add: plan_any_def del: od_has_iff split: if_splits)
  have per: "permits p own = None"
    using assms Some reg by (cases "permits p own") (simp_all add: plan_any_def del: od_has_iff)
  have "ok \<and> pairs = [(own, rq_model q)]"
    using assms Some reg per a by (cases ok) (simp_all add: plan_any_def del: od_has_iff)
  then show ?thesis using ask_breaker_facts(1) [OF a] per reg Some by (simp add: policy_candidate_def)
next
  case None
  obtain res r1 where pw: "plan_with_policy now q p True r = (res, r1)"
    by (cases "plan_with_policy now q p True r")
  obtain order st where res: "res = Inr (order, st)"
    using assms None pw by (cases res) (auto simp: plan_any_def)
  have "pairs = (if rq_model q \<noteq> None then map (\<lambda>n. (n, rq_model q)) order else zip order (policy_models r1 p order))"
  proof -
    have "plan_any now pset q None r = (if rq_model q \<noteq> None then (Inr (map (\<lambda>n. (n, rq_model q)) order), r1)
        else (Inr (zip order (policy_models r1 p order)), r1))"
      using assms(2) None pw res by (simp add: plan_any_def)
    with assms(1) show ?thesis by (cases "rq_model q = None") auto
  qed
  then have "fst ` set pairs \<subseteq> set order" by (auto dest: set_zip_leftD)
  also have "set order \<subseteq> {n. policy_candidate now p r q n}"
    using plan_with_policy_facts(4) [OF pw res] None by (auto simp: policy_candidate_def)
  finally show ?thesis by auto
qed

lemma screen_planned:
  assumes "screen now pset bg q preferred r = (res, r')"
  shows "planned_from now r r'"
proof -
  obtain x r1 where a: "plan_any now pset q preferred r = (x, r1)" by (cases "plan_any now pset q preferred r")
  have "snd (plan now pset q preferred r) = r1"
    using a by (cases x) (simp_all add: plan_def Let_def)
  then have "r' = r1"
    using assms by (cases "plan now pset q preferred r"; cases "fst (plan now pset q preferred r)")
      (auto simp: screen_def)
  then show ?thesis using plan_any_planned [OF a] by simp
qed

section \<open>Properties\<close>

text \<open>
  C23. Private requests stay local: whatever the policy, the pinned provider, the model and the
  state of the breakers, every candidate of a request tagged private is a local server, and
  the request sent to it differs from the given one in nothing but its model.
\<close>

theorem private_requests_stay_local:
  assumes "is_private q" "screen now pset bg q preferred r = (Inr cands, r')"
  shows "cands \<noteq> [] \<and> (\<forall>(n, req)\<in>set cands. is_local r n \<and> (\<exists>m. req = q\<lparr>rq_model := m\<rparr>))"
proof -
  from screen_facts [OF assms(2)] obtain pairs where p: "plan now pset q preferred r = (Inr pairs, r')"
    "cands \<noteq> []" "list_all (usable bg r' q (set pairs)) cands" by blast
  from plan_facts(2) [OF p(1) assms(1)] p(2,3) show ?thesis by (fastforce simp: list_all_iff usable_def)
qed

definition sample_provider :: "bool \<Rightarrow> provider" where
  "sample_provider loc = \<lparr>pv_default_model = ''m'', pv_is_local = loc, pv_models = [''m''],
     pv_supports_vision = False, pv_supports_tools = False, pv_supports_embeddings = False,
     pv_estimate_cost = (\<lambda>i out m. 1), pv_capability_problem = None\<rparr>"

definition closed_breaker :: breaker where
  "closed_breaker = \<lparr>cb_name = [], cb_threshold = 5, cb_reset_timeout = 30, cb_half_open_max = 1,
     cb_has_on_change = False, cb_state = CLOSED, cb_failures = 0, cb_opened_at = 0, cb_probes = 0,
     cb_total_opened = 0, cb_changes = []\<rparr>"

definition two_providers :: router where
  "two_providers = fresh_router\<lparr>ro_config := default_config\<lparr>cf_strategy := FALLBACK\<rparr>,
     ro_providers := [(''cloud'', sample_provider False), (''box'', sample_provider True)],
     ro_breakers := [(''cloud'', closed_breaker), (''box'', closed_breaker)]\<rparr>"

lemmas sample_defs = sample_provider_def closed_breaker_def two_providers_def fresh_router_def
  default_config_def plain_request_def plain_message_def

lemmas planning_defs = screen_def plan_def plan_any_def owner_of_def or_empty_def policy_for_def get_or_def
  ask_breaker_def breaker_defs ordered_candidates_def select_provider_def failover_order_def
  is_private_def is_local_def model_problem_def request_images_def resolve_profile_def default_for_def
  admit_model_def registry_get_def od_set_def apply_difficulty_def

definition private_request :: request where
  "private_request = plain_request\<lparr>rq_metadata := [(''private'', PBool True)]\<rparr>"

lemma private_screen:
  "\<exists>r'. screen 0 None None private_request None two_providers = (Inr [(''box'', private_request)], r')"
  by (simp add: planning_defs sample_defs private_request_def)

theorem private_requests_stay_local_witness:
  "\<exists>r'. screen 0 None None private_request None two_providers = (Inr [(''box'', private_request)], r')
     \<and> is_local two_providers ''box''"
proof -
  obtain r' where r': "screen 0 None None private_request None two_providers = (Inr [(''box'', private_request)], r')"
    using private_screen by blast
  have "is_private private_request" by (simp add: private_request_def is_private_def get_or_def)
  from private_requests_stay_local [OF this r'] r' show ?thesis by auto
qed

text \<open>
  C24. Automatic routing obeys the policy and the breakers: every candidate of a request that pins no provider is
  registered, is permitted by the policy in force and had a breaker that would allow it, and nothing keeps it from
  serving the request (images, tools, context window, output limit, streaming, model budget). For a
  request without a model that a provider owns, every candidate also stands in the chain of a \<open>fallback\<close> or
  \<open>explicit\<close> policy or is its pinned provider; for a request with one, the only candidate is the owner, and the
  chain is not consulted.
\<close>

theorem candidates_obey_policy:
  assumes "policy_for pset q None = Inr (Some p)" "screen now pset bg q None r = (Inr cands, r')"
  shows "list_all (\<lambda>(n, req). permits p n = None \<and> ready now r n \<and> n \<in> set (od_keys (ro_providers r))
       \<and> (case owner_of r (rq_model q) of None \<Rightarrow> within_chain p n | Some o' \<Rightarrow> n = o')
       \<and> model_problem r' req n = None \<and> admit_model bg r' req n = None) cands"
proof -
  from screen_facts [OF assms(2)] obtain pairs where p: "plan now pset q None r = (Inr pairs, r')"
    "list_all (usable bg r' q (set pairs)) cands" by blast
  from plan_facts(1) [OF p(1)] obtain all where a: "plan_any now pset q None r = (Inr all, r')"
    "set pairs \<subseteq> set all" by blast
  from plan_any_policy [OF a(1) assms(1)] a(2) p(2) show ?thesis
    by (fastforce simp: list_all_iff usable_def policy_candidate_def)
qed

definition local_only :: policy where
  "local_only = cheap_policy\<lparr>po_name := ''default'', po_strategy := PFallback, po_fallback_chain := [''box'', ''cloud''],
     po_deny := {''cloud''}\<rparr>"

lemma policy_screen:
  "\<exists>r'. screen 0 (Some [(''default'', local_only)]) None plain_request None two_providers
     = (Inr [(''box'', plain_request)], r')"
  by (simp add: planning_defs sample_defs policy_get_def local_only_def cheap_policy_def plan_with_policy_def
      permits_def chain_excludes_def eligible_of_def blocked_of_def rank_for_policy_def follow_chain_def
      apply_policy_models_def owner_first_def truthy_name_def policy_models_def)

theorem candidates_obey_policy_witness:
  "permits local_only ''box'' = None \<and> ready 0 two_providers ''box'' \<and> within_chain local_only ''box''"
proof -
  obtain r' where r': "screen 0 (Some [(''default'', local_only)]) None plain_request None two_providers
     = (Inr [(''box'', plain_request)], r')"
    using policy_screen by blast
  have "policy_for (Some [(''default'', local_only)]) plain_request None = Inr (Some local_only)"
    by (simp add: policy_for_def or_empty_def get_or_def plain_request_def policy_get_def)
  moreover have "owner_of two_providers (rq_model plain_request) = None"
    by (simp add: owner_of_def or_empty_def plain_request_def)
  ultimately show ?thesis using candidates_obey_policy [OF _ r'] by simp
qed

text \<open>
  C25. The dry run tells the truth within its limits: for a request whose model no provider owns (no model
  at all, or an uncatalogued one), without a privacy or difficulty tag, that pins no provider and names no policy of its own,
  \<open>explain\<close> names exactly the providers, in the order, that routing would plan, fails with the same error when
  planning fails, and moves no rotation counter.
\<close>

theorem explain_matches_plan:
  assumes "owner_of r (rq_model q) = None" "\<not> is_private q" "get_or (rq_metadata q) ''difficulty'' PNone = PNone"
  shows "(case (fst (plan now pset q None r), fst (explain now pset q None None r)) of
      (Inr pairs, Inr x) \<Rightarrow> explained_order x = map fst pairs
    | (Inl e, Inl e') \<Rightarrow> e = e' | _ \<Rightarrow> False)
    \<and> ro_rr_index (snd (explain now pset q None None r)) = ro_rr_index r
    \<and> ro_policy_rr (snd (explain now pset q None None r)) = ro_policy_rr r"
proof -
  note own = assms(1)
  have diff: "apply_difficulty r' pairs PNone = pairs" for r' pairs by (simp add: apply_difficulty_def)
  show ?thesis
  proof (cases "policy_for pset q None")
    case (Inl e)
    then show ?thesis using own by (simp add: plan_def plan_any_def explain_def)
  next
    case (Inr pol)
    show ?thesis
    proof (cases pol)
      case None
      obtain hs r1 where h: "healthy_names now (od_keys (ro_providers r)) r = (hs, r1)"
        by (cases "healthy_names now (od_keys (ro_providers r)) r")
      have rr: "ro_rr_index r1 = ro_rr_index r" "ro_policy_rr r1 = ro_policy_rr r"
        using healthy_names_facts [OF h] by auto
      show ?thesis
      proof (cases "hs = []")
        case True
        then show ?thesis using own Inr None h rr by (simp add: plan_def plan_any_def explain_def)
      next
        case False
        obtain order r2 where o': "ordered_candidates now q hs r1 = (order, r2)"
          by (cases "ordered_candidates now q hs r1")
        obtain order' r3 where n: "candidates_no_side_effects now q hs r1 = (order', r3)"
          by (cases "candidates_no_side_effects now q hs r1")
        note ns = no_side_effects [OF o' n False]
        show ?thesis using own Inr None h False o' n ns rr assms
          by (simp add: plan_def plan_any_def explain_def diff o_def)
      qed
    next
      case (Some p)
      obtain res r1 where a: "plan_with_policy now q p True r = (res, r1)"
        by (cases "plan_with_policy now q p True r")
      obtain res' r2 where b: "plan_with_policy now q p False r = (res', r2)"
        by (cases "plan_with_policy now q p False r")
      have eq: "res' = res" using plan_with_policy_facts(5) [OF a, of False] b by simp
      have rr: "ro_rr_index r2 = ro_rr_index r" "ro_policy_rr r2 = ro_policy_rr r"
        using plan_with_policy_facts(2,3) [OF b] by simp_all
      show ?thesis
      proof (cases res)
        case (Inl e)
        then show ?thesis using own \<open>policy_for pset q None = Inr pol\<close> Some a b eq rr
          by (simp add: plan_def plan_any_def explain_def)
      next
        case (Inr os)
        obtain order st where os: "os = (order, st)" by (cases os)
        have len: "length (policy_models r1 p order) = length order" by (simp add: policy_models_def)
        show ?thesis using own \<open>policy_for pset q None = Inr pol\<close> Some a b eq rr Inr os assms len
          by (cases "rq_model q = None") (simp_all add: plan_def plan_any_def explain_def diff o_def)
      qed
    qed
  qed
qed

theorem explain_matches_plan_witness:
  "case (fst (plan 0 None plain_request None two_providers), fst (explain 0 None plain_request None None two_providers)) of
      (Inr pairs, Inr x) \<Rightarrow> explained_order x = map fst pairs
    | (Inl e, Inl e') \<Rightarrow> e = e' | _ \<Rightarrow> False"
  using explain_matches_plan [of two_providers plain_request 0 None]
  by (simp add: plain_request_def is_private_def get_or_def owner_of_def or_empty_def)

text \<open>
  The dry run does not apply the privacy tag: it would send this private request to the cloud
  provider first, while routing plans the local server only.
\<close>

lemma explain_ignores_privacy:
  "fst (explain 0 None private_request None None two_providers) = Inr (ExplainStrategy [''cloud'', ''box''] [''cloud'', ''box''])
   \<and> fst (plan 0 None private_request None two_providers) = Inr [(''box'', None)]"
  by (simp add: explain_def candidates_no_side_effects_def planning_defs sample_defs private_request_def)

end
