(* ===== verification/Router_Call.thy ===== *)
theory Router_Call
  imports Router_Plan
begin

text \<open>
  \<open>src/coreai/router.py\<close>, third part: calling a provider (admission, timeout, retries, breaker
  accounting), routing with cache and failover, and embeddings. The world holds the router and
  whatever is outside it; every await is a function on the world, so other requests may act on
  the router meanwhile. Where hedging is on and there is a partner to hedge with, \<open>route\<close> ends
  in the result \<open>Hedging\<close>; the theory \<open>Router_Hedge\<close> goes on from there.
\<close>

section \<open>The world\<close>

record 'x world =
  wd_router :: router
  wd_ext :: 'x

text \<open>
  \<open>re_complete n q t\<close> is \<open>wait_for(provider.complete(q), t)\<close>, \<open>re_embed n t\<close> is
  \<open>wait_for(provider.embed(..), t)\<close> with vectors, tokens and model; \<open>re_slot\<close> and \<open>re_wait\<close> are the
  limiter's awaits and \<open>re_pass\<close> what else happened until the given instant; \<open>re_policies\<close> and
  \<open>re_budget\<close> are the policy set and budget gate read at an instant; \<open>re_digest\<close> is the cache digest.
\<close>

record 'x renv =
  re_env :: "'x world env"
  re_complete :: "string \<Rightarrow> request \<Rightarrow> real \<Rightarrow> 'x world \<Rightarrow> completion outcome \<times> 'x world"
  re_embed :: "string \<Rightarrow> real \<Rightarrow> 'x world \<Rightarrow> (real list list \<times> int \<times> string) outcome \<times> 'x world"
  re_slot :: "string \<Rightarrow> 'x world \<Rightarrow> real option \<Rightarrow> limiter \<Rightarrow> bool outcome \<times> time \<times> limiter"
  re_wait :: "string \<Rightarrow> 'x world \<Rightarrow> real \<Rightarrow> limiter \<Rightarrow> unit outcome \<times> time \<times> limiter"
  re_pass :: "time \<Rightarrow> 'x world \<Rightarrow> 'x world"
  re_policies :: "'x world \<Rightarrow> policy_set option"
  re_budget :: "'x world \<Rightarrow> budget_gate"
  re_digest :: "(string \<times> string) list \<Rightarrow> string option \<times> real \<times> int \<times> pyval \<Rightarrow> string"

definition now_of :: "'x renv \<Rightarrow> 'x world \<Rightarrow> time" where
  "now_of E w = clk (re_env E) w"

definition wall_of :: "'x renv \<Rightarrow> 'x world \<Rightarrow> time" where
  "wall_of E w = wall (re_env E) w"

definition on_router :: "(router \<Rightarrow> router) \<Rightarrow> 'x world \<Rightarrow> 'x world" where
  "on_router f w = w\<lparr>wd_router := f (wd_router w)\<rparr>"

definition on_breaker :: "string \<Rightarrow> (breaker \<Rightarrow> breaker) \<Rightarrow> 'x world \<Rightarrow> 'x world" where
  "on_breaker n f = on_router (\<lambda>r. r\<lparr>ro_breakers := od_map_at n f (ro_breakers r)\<rparr>)"

definition release_slot :: "string \<Rightarrow> 'x world \<Rightarrow> 'x world" where
  "release_slot n = on_router (\<lambda>r. r\<lparr>ro_limiter := global_release n (ro_limiter r)\<rparr>)"

definition timeout_for :: "router \<Rightarrow> string \<Rightarrow> real" where
  "timeout_for r n =
     (case od_get (cf_provider_timeouts (ro_config r)) n of
        Some t \<Rightarrow> t | None \<Rightarrow> cf_request_timeout_seconds (ro_config r))"

section \<open>Calling a provider\<close>

text \<open>\<open>breaker.allow()\<close>.\<close>

definition enter_breaker :: "'x renv \<Rightarrow> string \<Rightarrow> 'x world \<Rightarrow> bool \<times> 'x world" where
  "enter_breaker E n w =
     (case od_get (ro_breakers (wd_router w)) n of
        None \<Rightarrow> (False, w)
      | Some b \<Rightarrow> (case allow (now_of E w) b of (ok, b') \<Rightarrow> (ok, on_breaker n (\<lambda>_. b') w)))"

definition breaker_retry_after :: "'x renv \<Rightarrow> string \<Rightarrow> 'x world \<Rightarrow> real option" where
  "breaker_retry_after E n w =
     (case od_get (ro_breakers (wd_router w)) n of None \<Rightarrow> None | Some b \<Rightarrow> retry_after (now_of E w) b)"

text \<open>\<open>_admit\<close>: on any failure the probe slot goes back.\<close>

fun is_rate_limited :: "exn \<Rightarrow> bool" where
  "is_rate_limited (RateLimited _ _) = True"
| "is_rate_limited _ = False"

definition admit_call :: "'x renv \<Rightarrow> string \<Rightarrow> request \<Rightarrow> deadline \<Rightarrow> 'x world \<Rightarrow> unit outcome \<times> 'x world" where
  "admit_call E n q dl w =
     (case global_acquire (re_slot E n w) (re_wait E n w) (now_of E w) n (estimate_tokens q)
             (remaining dl (now_of E w)) (ro_limiter (wd_router w)) of
        (res, now', G) \<Rightarrow>
          (let w = re_pass E now' (on_router (\<lambda>r. r\<lparr>ro_limiter := G\<rparr>) w)
           in case res of
                Ret _ \<Rightarrow> (Ret (), w)
              | Exc e \<Rightarrow>
                  (let w = (if is_rate_limited e then on_router (count_local_rate_limit n) w else w)
                   in (Exc e, on_breaker n release w))
              | Cancel \<Rightarrow> (Cancel, on_breaker n release w)))"

text \<open>\<open>asyncio.TimeoutError\<close> is \<open>TimeoutError\<close>.\<close>

fun is_timeout :: "exn \<Rightarrow> bool" where
  "is_timeout DeadlineExceeded = True"
| "is_timeout (ProviderTimeout _ _) = True"
| "is_timeout (ProviderError e) = se_is_timeout e"
| "is_timeout _ = False"

definition one_call ::
  "'x renv \<Rightarrow> string \<Rightarrow> request \<Rightarrow> deadline \<Rightarrow> real \<Rightarrow> 'x world \<Rightarrow> completion outcome \<times> 'x world" where
  "one_call E n q dl timeout w =
     (let seconds = (case clamp dl (now_of E w) (Some timeout) of Some s \<Rightarrow> s | None \<Rightarrow> timeout)
      in if seconds \<le> 0 then (Exc DeadlineExceeded, w)
         else case re_complete E n q seconds w of
             (Exc e, w) \<Rightarrow>
               (if is_timeout e
                then (if expired dl (now_of E w) then (Exc DeadlineExceeded, w)
                      else (Exc (ProviderTimeout n seconds), w))
                else (Exc e, w))
           | res \<Rightarrow> res)"

definition on_retry_manager :: "(retry_manager \<Rightarrow> retry_manager) \<Rightarrow> 'x world \<Rightarrow> 'x world" where
  "on_retry_manager f = on_router (\<lambda>r. r\<lparr>ro_retry := map_option f (ro_retry r)\<rparr>)"

text \<open>The accounting after the call, with the release of the limiter's slot in \<open>finally\<close>.\<close>

definition settle :: "'x renv \<Rightarrow> string \<Rightarrow> 'a outcome \<Rightarrow> 'x world \<Rightarrow> 'x world" where
  "settle E n res w =
     (case res of
        Ret _ \<Rightarrow> on_breaker n (record_success (now_of E w)) w
      | Cancel \<Rightarrow> on_breaker n release w
      | Exc e \<Rightarrow>
          (let info = classify (wall_of E w) e;
               w' = on_router (note_error (now_of E w) n (ei_kind info) (status_of e)) w
           in if counts_against_breaker info then on_breaker n (record_failure (now_of E w)) w'
              else on_breaker n release w'))"

text \<open>One call, or the retry manager around it when retries are on.\<close>

definition try_call ::
  "'x renv \<Rightarrow> string \<Rightarrow> request \<Rightarrow> deadline \<Rightarrow> int \<Rightarrow> real \<Rightarrow> 'x world \<Rightarrow> completion outcome \<times> 'x world" where
  "try_call E n q dl attempts timeout w =
     (case ro_retry (wd_router w) of
        Some m \<Rightarrow>
          (if cf_enable_retry (ro_config (wd_router w))
           then retry_execute (re_env E) on_retry_manager (rm_config m) (Some dl) (Some attempts)
                  (one_call E n q dl timeout) w
           else one_call E n q dl timeout w)
      | None \<Rightarrow> one_call E n q dl timeout w)"

definition call_provider ::
  "'x renv \<Rightarrow> string \<Rightarrow> request \<Rightarrow> deadline \<Rightarrow> int \<Rightarrow> 'x world \<Rightarrow> completion outcome \<times> 'x world" where
  "call_provider E n q dl attempts w =
     (let timeout = timeout_for (wd_router w) n in
      case deadline_check dl (now_of E w) of
        Inl e \<Rightarrow> (Exc e, on_breaker n release w)
      | Inr _ \<Rightarrow>
          (case admit_call E n q dl w of
             (Exc e, w) \<Rightarrow> (Exc e, w)
           | (Cancel, w) \<Rightarrow> (Cancel, w)
           | (Ret _, w) \<Rightarrow>
               (case try_call E n q dl attempts timeout w of
                  (res, w) \<Rightarrow> (res, release_slot n (settle E n res w)))))"

section \<open>Routing\<close>

definition cache_options :: "request \<Rightarrow> string option \<times> real \<times> int \<times> pyval" where
  "cache_options q = (rq_system_prompt q, rq_temperature q, rq_max_tokens q, rq_response_format q)"

definition cache_key :: "'x renv \<Rightarrow> string \<Rightarrow> string option \<Rightarrow> request \<Rightarrow> string" where
  "cache_key E n model q =
     make_key (re_digest E) n (if or_empty model = [] then ''*'' else or_empty model)
       (map (\<lambda>m. (ms_role m, ms_content m)) (rq_messages q)) (cache_options q)"

definition may_cache :: "router \<Rightarrow> request \<Rightarrow> bool" where
  "may_cache r q \<longleftrightarrow> ro_cache r \<noteq> None \<and> \<not> rq_stream q \<and> cacheable q"

definition cache_response :: "'x renv \<Rightarrow> string \<Rightarrow> request \<Rightarrow> completion \<Rightarrow> 'x world \<Rightarrow> 'x world" where
  "cache_response E n q resp w =
     (if \<not> may_cache (wd_router w) q then w
      else on_router (\<lambda>r. r\<lparr>ro_cache := map_option (\<lambda>rc.
             case response_set (now_of E w) (cache_key E n (rq_model q) q) resp
                    (PInt (cf_cache_ttl_seconds (ro_config r))) rc of Inl _ \<Rightarrow> rc | Inr rc \<Rightarrow> rc) (ro_cache r)\<rparr>) w)"

text \<open>A cache hit is reported with no spend, keeping the original cost for reference.\<close>

definition cached_answer :: "completion \<Rightarrow> completion" where
  "cached_answer c =
     c\<lparr>co_cached := True, co_original_cost_usd := Some (co_cost_usd c), co_cost_usd := 0, co_latency_ms := 0\<rparr>"

definition cache_lookup :: "'x renv \<Rightarrow> string \<Rightarrow> request \<Rightarrow> request \<Rightarrow> 'x world \<Rightarrow> completion option \<times> 'x world" where
  "cache_lookup E n q req w =
     (case ro_cache (wd_router w) of
        None \<Rightarrow> (None, w)
      | Some rc \<Rightarrow>
          (if rq_stream q \<or> \<not> cacheable q then (None, w)
           else case response_get (\<lambda>_. True) (now_of E w) (cache_key E n (rq_model req) q) rc of
               (hit, rc) \<Rightarrow>
                 (map_option cached_answer hit, on_router (\<lambda>r. r\<lparr>ro_cache := Some rc\<rparr>) w)))"

datatype route_result =
    Answer completion "(string \<times> error_kind) list"
  | Raised exn
  | Unavailable "(string \<times> error_kind) list" "real option"
  | NotPlanned plan_error
  | Cancelled
  | Hedging real "(string \<times> request) list"

text \<open>\<open>_hedge_delay\<close>: never for a pinned provider, a stream or a named model.\<close>

definition hedge_delay ::
  "policy_set option \<Rightarrow> request \<Rightarrow> string option \<Rightarrow> router \<Rightarrow> plan_error + real option" where
  "hedge_delay pset q preferred r =
     (if preferred \<noteq> None \<or> rq_stream q \<or> rq_model q \<noteq> None then Inr None
      else case policy_for pset q None of
          Inl e \<Rightarrow> Inl e
        | Inr p \<Rightarrow>
            (case Option.bind p po_hedge_after_ms of
               Some ms \<Rightarrow> Inr (Some (ms / 1000))
             | None \<Rightarrow> Inr (cf_hedge_after_seconds (ro_config r))))"

definition attempts_for :: "router \<Rightarrow> bool \<Rightarrow> int" where
  "attempts_for r is_last =
     (if is_last then cf_max_retry_attempts (ro_config r)
      else min (cf_max_retry_attempts (ro_config r)) (cf_max_attempts_before_failover (ro_config r)))"

definition count_failover :: "bool \<Rightarrow> 'x world \<Rightarrow> 'x world" where
  "count_failover is_last w =
     (if is_last then w else on_router (\<lambda>r. r\<lparr>ro_failover_count := ro_failover_count r + 1\<rparr>) w)"

text \<open>
  The loop over the candidates. \<open>failures\<close> and \<open>lst\<close> are the code's accumulators, \<open>single\<close> whether
  there is only one candidate.
\<close>

fun route_loop ::
  "'x renv \<Rightarrow> deadline \<Rightarrow> bool \<Rightarrow> (string \<times> request) list \<Rightarrow> (string \<times> error_kind) list \<Rightarrow> exn option \<Rightarrow>
     'x world \<Rightarrow> route_result \<times> 'x world" where
  "route_loop E dl single [] failures lst w =
     (case (single, lst) of
        (True, Some e) \<Rightarrow> (Raised e, w)
      | _ \<Rightarrow> (Unavailable failures (soonest_retry_after (now_of E w) (wd_router w)), w))"
| "route_loop E dl single ((n, req) # rest) failures lst w =
     (case enter_breaker E n w of
        (False, w) \<Rightarrow>
          route_loop E dl single rest (failures @ [(n, CIRCUIT_OPEN)])
            (Some (CircuitOpenError n (breaker_retry_after E n w))) w
      | (True, w) \<Rightarrow>
          (case call_provider E n req dl (attempts_for (wd_router w) (rest = [])) w of
             (Cancel, w) \<Rightarrow> (Cancelled, w)
           | (Exc e, w) \<Rightarrow>
               (let info = classify (wall_of E w) e; failures = failures @ [(n, ei_kind info)]
                in if ei_kind info = DEADLINE \<or> \<not> (cf_enable_failover (ro_config (wd_router w)) \<and> failover info)
                   then (Raised e, w)
                   else route_loop E dl single rest failures (Some e) (count_failover (rest = []) w))
           | (Ret resp, w) \<Rightarrow>
               (let w = cache_response E n req resp w;
                    resp = (if failures \<noteq> [] then resp\<lparr>co_failed_over_from := Some (map fst failures)\<rparr> else resp);
                    w = on_router (note_success (now_of E w) n (co_cost_usd resp) (co_latency_ms resp)) w;
                    w = on_router (record_usage n (co_model resp) (Some (co_latency_ms resp))
                          (co_input_tokens resp) (co_output_tokens resp)) w
                in (Answer resp failures, w))))"

definition route_planned ::
  "'x renv \<Rightarrow> request \<Rightarrow> string option \<Rightarrow> real option \<Rightarrow> policy_set option \<Rightarrow> 'x world \<Rightarrow>
     route_result \<times> 'x world" where
  "route_planned E q preferred deadline_seconds pset w =
     (case validate_conversation (rq_messages q) of
        Inl e \<Rightarrow> (NotPlanned (BadConversation e), w)
      | Inr _ \<Rightarrow>
          (let dl = new_deadline (case deadline_seconds of Some s \<Rightarrow> Some s
                      | None \<Rightarrow> cf_deadline_seconds (ro_config (wd_router w))) (now_of E w)
           in case screen (now_of E w) pset (re_budget E w) q preferred (wd_router w) of
                (Inl e, r) \<Rightarrow> (NotPlanned e, w\<lparr>wd_router := r\<rparr>)
              | (Inr cands, r) \<Rightarrow>
                  (case cache_lookup E (fst (hd cands)) q (snd (hd cands)) (w\<lparr>wd_router := r\<rparr>) of
                     (Some hit, w) \<Rightarrow> (Answer hit [], w)
                   | (None, w) \<Rightarrow>
                       (case hedge_delay pset q preferred (wd_router w) of
                          Inl e \<Rightarrow> (NotPlanned e, w)
                        | Inr (Some s) \<Rightarrow>
                            (if length cands > 1 then (Hedging s cands, w)
                             else route_loop E dl True cands [] None w)
                        | Inr None \<Rightarrow> route_loop E dl (length cands = 1) cands [] None w))))"

definition route ::
  "'x renv \<Rightarrow> request \<Rightarrow> string option \<Rightarrow> real option \<Rightarrow> 'x world \<Rightarrow> route_result \<times> 'x world" where
  "route E q preferred deadline_seconds w =
     (let w = on_router (\<lambda>r. r\<lparr>ro_request_count := ro_request_count r + 1\<rparr>) w;
          pset = re_policies E w;
          q = resolve_alias pset (wd_router w) q
      in case preferred of
           Some n \<Rightarrow>
             (if \<not> od_has (ro_providers (wd_router w)) n then (NotPlanned (ProviderUnavailable n), w)
              else route_planned E q preferred deadline_seconds pset w)
         | None \<Rightarrow> route_planned E q preferred deadline_seconds pset w)"

section \<open>Embeddings\<close>

datatype embed_result =
    Embedded "real list list" int string string
  | EmbedRaised exn
  | EmbedUnavailable "(string \<times> error_kind) list" "real option"
  | EmbedUnknown string
  | NoEmbeddings
  | EmbedCancelled

text \<open>
  The loop of \<open>embed\<close>. A cancellation is not an \<open>Exception\<close>, so nothing here settles the breaker.
\<close>

fun embed_loop ::
  "'x renv \<Rightarrow> string list \<Rightarrow> (string \<times> error_kind) list \<Rightarrow> exn option \<Rightarrow> 'x world \<Rightarrow> embed_result \<times> 'x world" where
  "embed_loop E [] errors lst w =
     (case (lst, length errors = 1) of
        (Some e, True) \<Rightarrow> (EmbedRaised e, w)
      | _ \<Rightarrow> (if errors \<noteq> []
             then (EmbedUnavailable errors (soonest_retry_after (now_of E w) (wd_router w)), w)
             else (NoEmbeddings, w)))"
| "embed_loop E (n # ns) errors lst w =
     (case od_get (ro_providers (wd_router w)) n of
        None \<Rightarrow> (EmbedUnknown n, w)
      | Some p \<Rightarrow>
          (if \<not> pv_supports_embeddings p then embed_loop E ns errors lst w
           else case enter_breaker E n w of
               (False, w) \<Rightarrow> embed_loop E ns (errors @ [(n, CIRCUIT_OPEN)]) lst w
             | (True, w) \<Rightarrow>
                 (case re_embed E n (timeout_for (wd_router w) n) w of
                    (Cancel, w) \<Rightarrow> (EmbedCancelled, w)
                  | (Exc e, w) \<Rightarrow>
                      (let info = classify (wall_of E w) e; w = settle E n (Exc e :: unit outcome) w;
                           errors = errors @ [(n, ei_kind info)]
                       in if \<not> (cf_enable_failover (ro_config (wd_router w)) \<and> failover info)
                          then (EmbedRaised e, w) else embed_loop E ns errors (Some e) w)
                  | (Ret (vectors, tokens, used), w) \<Rightarrow>
                      (Embedded vectors tokens used n,
                       on_router (record_usage n used None tokens 0)
                         (on_breaker n (record_success (now_of E w)) w)))))"

definition embed :: "'x renv \<Rightarrow> string option \<Rightarrow> 'x world \<Rightarrow> embed_result \<times> 'x world" where
  "embed E preferred w =
     embed_loop E (if or_empty preferred \<noteq> [] then [or_empty preferred]
                   else od_keys (ro_providers (wd_router w))) [] None w"

section \<open>No leaks\<close>

text \<open>
  What a request may hold of the shared state: probe slots of breakers and slots of limiters.
  \<open>holds c a w\<close> says that the tables are well-formed, that the breaker of every name has at
  most \<open>c n\<close> probes out and that the limiter of every name has exactly \<open>a n\<close> active requests.
\<close>

definition probes_out :: "'x world \<Rightarrow> string \<Rightarrow> int" where
  "probes_out w n = (case od_get (ro_breakers (wd_router w)) n of None \<Rightarrow> 0 | Some b \<Rightarrow> held_probes b)"

definition active_of :: "'x world \<Rightarrow> string \<Rightarrow> int option" where
  "active_of w n = map_option lm_active_requests (od_get (ro_limiter (wd_router w)) n)"

definition tables_ok :: "'x world \<Rightarrow> bool" where
  "tables_ok w \<longleftrightarrow> (\<forall>n b. od_get (ro_breakers (wd_router w)) n = Some b \<longrightarrow> breaker_inv b)
     \<and> (\<forall>n k. active_of w n = Some k \<longrightarrow> 0 \<le> k)"

definition holds :: "(string \<Rightarrow> int) \<Rightarrow> (string \<Rightarrow> int option) \<Rightarrow> 'x world \<Rightarrow> bool" where
  "holds c a w \<longleftrightarrow> tables_ok w \<and> (\<forall>n. probes_out w n \<le> c n) \<and> active_of w = a"

text \<open>
  The other requests of the process are polite: over any await they give back what they take.
\<close>

definition polite :: "'x renv \<Rightarrow> bool" where
  "polite E \<longleftrightarrow>
     (\<forall>c a w n q t. holds c a w \<longrightarrow> holds c a (snd (re_complete E n q t w)))
   \<and> (\<forall>c a w t. holds c a w \<longrightarrow> holds c a (re_pass E t w))
   \<and> (\<forall>c a w t. holds c a w \<longrightarrow> holds c a (snd (slp (re_env E) t w)))
   \<and> (\<forall>c a w. holds c a w \<longrightarrow> holds c a (snd (rnd (re_env E) w)))
   \<and> (\<forall>n w t L. lm_active_requests (snd (snd (re_slot E n w t L))) = lm_active_requests L)
   \<and> (\<forall>n w t L. lm_active_requests (snd (snd (re_wait E n w t L))) = lm_active_requests L)"

lemma on_router_holds:
  assumes "ro_breakers (f (wd_router w)) = ro_breakers (wd_router w)"
    "ro_limiter (f (wd_router w)) = ro_limiter (wd_router w)"
  shows "holds c a (on_router f w) = holds c a w"
  using assms by (simp add: holds_def tables_ok_def probes_out_def active_of_def on_router_def fun_eq_iff)

lemma politeD:
  assumes "polite E"
  shows "holds c a w \<Longrightarrow> holds c a (snd (re_complete E n q t w))"
    "holds c a w \<Longrightarrow> holds c a (re_pass E t w)"
    "holds c a w \<Longrightarrow> holds c a (snd (slp (re_env E) t w))"
    "holds c a w \<Longrightarrow> holds c a (snd (rnd (re_env E) w))"
    "lm_active_requests (snd (snd (re_slot E n w mw L))) = lm_active_requests L"
    "lm_active_requests (snd (snd (re_wait E n w d L))) = lm_active_requests L"
  using assms by (simp_all add: polite_def)

text \<open>A step of one breaker changes the bound on its own probes only.\<close>

lemma on_breaker_holds:
  assumes "holds c a w" "\<And>b. breaker_inv b \<Longrightarrow> breaker_inv (f b)"
    and "\<And>b. breaker_inv b \<Longrightarrow> held_probes b \<le> c n \<Longrightarrow> held_probes (f b) \<le> k" "0 \<le> k"
  shows "holds (c(n := k)) a (on_breaker n f w)"
proof -
  have act: "active_of (on_breaker n f w) = active_of w"
    by (simp add: active_of_def on_breaker_def on_router_def fun_eq_iff)
  have "breaker_inv b" if "od_get (ro_breakers (wd_router (on_breaker n f w))) m = Some b" for m b
    using that assms(1,2) by (auto simp: on_breaker_def on_router_def holds_def tables_ok_def split: if_splits)
  moreover have "probes_out (on_breaker n f w) m \<le> (c(n := k)) m" for m
  proof (cases "m = n")
    case True
    show ?thesis
    proof (cases "od_get (ro_breakers (wd_router w)) n")
      case None
      then show ?thesis using True assms(4) by (simp add: probes_out_def on_breaker_def on_router_def)
    next
      case (Some b)
      then have "breaker_inv b" "held_probes b \<le> c n"
        using assms(1) by (auto simp: holds_def tables_ok_def probes_out_def dest: spec [of _ n])
      then show ?thesis using True Some assms(3) by (simp add: probes_out_def on_breaker_def on_router_def)
    qed
  next
    case False
    then show ?thesis using assms(1) by (simp add: holds_def probes_out_def on_breaker_def on_router_def)
  qed
  ultimately show ?thesis using assms(1) act unfolding holds_def tables_ok_def by simp
qed

text \<open>Every way to settle a call gives the probe back: the breaker's part of the \<open>gate\<close> contract.\<close>

lemma settle_step_holds:
  assumes "holds (c(n := c n + 1)) a w" "0 \<le> c n"
    and f: "f = record_success t \<or> f = record_failure t \<or> f = release"
  shows "holds c a (on_breaker n f w)"
proof -
  have inv: "breaker_inv b \<Longrightarrow> breaker_inv (f b)" for b
    using f breaker_gate.good_inv breaker_gate.bad_inv breaker_gate.handback_inv by blast
  have le: "breaker_inv b \<Longrightarrow> held_probes b \<le> (c(n := c n + 1)) n \<Longrightarrow> held_probes (f b) \<le> c n" for b
    using f breaker_gate.good_slots [of b t] breaker_gate.bad_slots [of b t] breaker_gate.handback_slots [of b]
      assms(2) by auto
  from on_breaker_holds [where f = f and n = n and k = "c n", OF assms(1) inv le assms(2)] show ?thesis
    by simp
qed

lemma enter_breaker_holds:
  assumes "holds c a w" "enter_breaker E n w = (ok, w')"
  shows "holds (if ok then c(n := c n + 1) else c) a w'"
proof (cases "od_get (ro_breakers (wd_router w)) n")
  case None
  then show ?thesis using assms by (simp add: enter_breaker_def)
next
  case (Some b)
  obtain ok' b' where al: "allow (now_of E w) b = (ok', b')" by (cases "allow (now_of E w) b")
  have w': "ok' = ok" "w' = on_breaker n (\<lambda>_. b') w" using assms(2) Some al by (simp_all add: enter_breaker_def)
  have b: "breaker_inv b" "held_probes b \<le> c n"
    using assms(1) Some by (auto simp: holds_def tables_ok_def probes_out_def dest: spec [of _ n])
  have inv: "breaker_inv b'" using breaker_gate.admit_inv [OF b(1), of "now_of E w"] al by simp
  have le: "held_probes b' \<le> (if ok then c n + 1 else c n)"
    using breaker_gate.admit_slots [OF b(1), of "now_of E w"]
      breaker_gate.refuse_slots [OF b(1), of "now_of E w"] al b(2) w'(1) by (cases ok) auto
  have "0 \<le> (if ok then c n + 1 else c n)" using breaker_gate.slots_nonneg [OF b(1)] b(2) by simp
  from on_breaker_holds [OF assms(1), where f = "\<lambda>_. b'" and n = n, OF inv le this] show ?thesis
    unfolding w' by (cases ok) simp_all
qed

lemma probes_bound_nonneg: "holds c a w \<Longrightarrow> 0 \<le> c n"
proof -
  assume h: "holds c a w"
  have "0 \<le> probes_out w n"
    using h breaker_gate.slots_nonneg by (auto simp: holds_def tables_ok_def probes_out_def split: option.split)
  then show "0 \<le> c n" using h by (auto simp: holds_def intro: order_trans)
qed

text \<open>The limiter's side: one more active request of a limited provider after admission.\<close>

definition admitted :: "(string \<Rightarrow> int option) \<Rightarrow> string \<Rightarrow> string \<Rightarrow> int option" where
  "admitted a n = a(n := map_option (\<lambda>k. k + 1) (a n))"

lemma on_limiter_holds:
  assumes "holds c a w" "map_option lm_active_requests \<circ> od_get G = a'" "\<And>n k. a' n = Some k \<Longrightarrow> 0 \<le> k"
  shows "holds c a' (on_router (\<lambda>r. r\<lparr>ro_limiter := G\<rparr>) w)"
  using assms by (auto simp: holds_def tables_ok_def probes_out_def active_of_def on_router_def o_def fun_eq_iff)

lemma admit_call_holds:
  assumes E: "polite E" and h: "holds (c(n := c n + 1)) a w" "0 \<le> c n"
    and adm: "admit_call E n q dl w = (res, w')"
  shows "if is_ret res then holds (c(n := c n + 1)) (admitted a n) w' else holds c a w'"
proof -
  let ?G = "ro_limiter (wd_router w)"
  obtain r now' G where g: "global_acquire (re_slot E n w) (re_wait E n w) (now_of E w) n (estimate_tokens q)
             (remaining dl (now_of E w)) ?G = (r, now', G)" by (metis prod_cases3)
  define a' where "a' = (if is_ret r then admitted a n else a)"
  have a: "a = map_option lm_active_requests \<circ> od_get ?G" "\<And>m k. a m = Some k \<Longrightarrow> 0 \<le> k"
    using h(1) by (auto simp: holds_def tables_ok_def active_of_def o_def)
  have "map_option lm_active_requests \<circ> od_get G = a'"
  proof (cases "od_get ?G n")
    case None
    then have "G = ?G" "is_ret r" using g by (auto simp: global_acquire_def get_limiter_def)
    then show ?thesis using None by (simp add: a'_def admitted_def a(1) fun_eq_iff)
  next
    case (Some L)
    obtain r' t L' where l: "limiter_acquire (re_slot E n w) (re_wait E n w) (now_of E w) (estimate_tokens q)
        (remaining dl (now_of E w)) L = (r', t, L')" by (metis prod_cases3)
    have gr: "r = r'" "G = od_set n L' ?G" using g Some l by (simp_all add: global_acquire_def get_limiter_def)
    have "lm_active_requests L' = lm_active_requests L + (if is_ret r then 1 else 0)"
      using limiter_acquire_active [of "re_slot E n w" "re_wait E n w" L "now_of E w" "estimate_tokens q"
          "remaining dl (now_of E w)"] politeD(5,6) [OF E] l gr by (simp add: counts_one_def)
    then show ?thesis using Some by (simp add: gr a'_def admitted_def a(1) fun_eq_iff)
  qed
  moreover have "0 \<le> k" if "a' m = Some k" for m k
    using that a(2) by (auto simp: a'_def admitted_def split: if_splits dest: a(2))
  ultimately have "holds (c(n := c n + 1)) a' (on_router (\<lambda>r. r\<lparr>ro_limiter := G\<rparr>) w)"
    by (rule on_limiter_holds [OF h(1)])
  then have h2: "holds (c(n := c n + 1)) a' (re_pass E now' (on_router (\<lambda>r. r\<lparr>ro_limiter := G\<rparr>) w))"
    by (rule politeD(2) [OF E])
  have cnt: "holds c1 a1 (on_router (count_local_rate_limit n) v) = holds c1 a1 v" for c1 a1 and v :: "'a world"
    by (rule on_router_holds) (simp_all add: count_local_rate_limit_def)
  show ?thesis
  proof (cases r)
    case (Ret x)
    then show ?thesis using adm g h2 by (auto simp: admit_call_def a'_def Let_def)
  next
    case (Exc e)
    define v where "v = re_pass E now' (on_router (\<lambda>r. r\<lparr>ro_limiter := G\<rparr>) w)"
    have "holds (c(n := c n + 1)) a (if is_rate_limited e then on_router (count_local_rate_limit n) v else v)"
      using h2 Exc cnt by (simp add: v_def a'_def)
    from settle_step_holds [OF this h(2)] show ?thesis
      using adm g Exc by (auto simp: admit_call_def Let_def v_def)
  next
    case Cancel
    then have "holds (c(n := c n + 1)) a (re_pass E now' (on_router (\<lambda>r. r\<lparr>ro_limiter := G\<rparr>) w))"
      using h2 by (simp add: a'_def)
    from settle_step_holds [OF this h(2)] show ?thesis
      using adm g Cancel by (auto simp: admit_call_def Let_def)
  qed
qed

lemma one_call_holds: "polite E \<Longrightarrow> holds c a w \<Longrightarrow> holds c a (snd (one_call E n q dl t w))"
  using politeD(1) [of E c a w n q]
  by (auto simp: one_call_def Let_def split: option.split outcome.split prod.split)
     (metis snd_conv)+

lemma settle_holds:
  assumes "holds (c(n := c n + 1)) a w" "0 \<le> c n"
  shows "holds c a (settle E n res w)"
proof -
  have ne: "holds (c(n := c n + 1)) a (on_router (note_error t n k st) w)" for t k st
    using assms(1) by (subst on_router_holds) (simp_all add: note_error_def)
  show ?thesis
  proof (cases res)
    case (Ret x)
    then show ?thesis using settle_step_holds [OF assms, of "record_success (now_of E w)" "now_of E w"]
      by (simp add: settle_def)
  next
    case (Exc e)
    define k where "k = classify (wall_of E w) e"
    have "holds c a (on_breaker n (record_failure (now_of E w))
        (on_router (note_error (now_of E w) n (ei_kind k) (status_of e)) w))"
      by (rule settle_step_holds [OF ne assms(2)]) blast
    moreover have "holds c a (on_breaker n release
        (on_router (note_error (now_of E w) n (ei_kind k) (status_of e)) w))"
      by (rule settle_step_holds [OF ne assms(2)]) blast
    ultimately show ?thesis using Exc by (simp add: settle_def Let_def k_def)
  next
    case Cancel
    then show ?thesis using settle_step_holds [OF assms, of release] by (simp add: settle_def)
  qed
qed

lemma release_slot_holds:
  assumes h: "holds c (admitted a n) w" and a: "\<And>m k. a m = Some k \<Longrightarrow> 0 \<le> k"
  shows "holds c a (release_slot n w)"
proof -
  have act: "active_of w m = admitted a n m" for m using h by (simp add: holds_def)
  have "map_option lm_active_requests (od_get (global_release n (ro_limiter (wd_router w))) m) = a m" for m
  proof (cases "m = n")
    case False
    then show ?thesis using act [of m] by (simp add: global_release_def active_of_def admitted_def)
  next
    case True
    show ?thesis
    proof (cases "a n")
      case None
      then show ?thesis using act [of n] True by (simp add: global_release_def active_of_def admitted_def)
    next
      case (Some k)
      then obtain L where L: "od_get (ro_limiter (wd_router w)) n = Some L" "lm_active_requests L = k + 1"
        using act [of n] by (auto simp: active_of_def admitted_def)
      then show ?thesis using True Some a [OF Some]
        by (simp add: global_release_def limiter_release_def free_slot_def)
    qed
  qed
  then have "map_option lm_active_requests \<circ> od_get (global_release n (ro_limiter (wd_router w))) = a"
    by (simp add: fun_eq_iff)
  from on_limiter_holds [OF h this a] show ?thesis by (simp add: release_slot_def on_router_def)
qed

lemma holds_nonneg: "holds c a w \<Longrightarrow> a m = Some k \<Longrightarrow> 0 \<le> k"
  by (auto simp: holds_def tables_ok_def)

lemma on_retry_manager_holds: "holds c a w \<Longrightarrow> holds c a (on_retry_manager f w)"
  unfolding on_retry_manager_def by (subst on_router_holds) simp_all

lemma call_provider_holds:
  assumes E: "polite E" and h: "holds (c(n := c n + 1)) a w" "0 \<le> c n"
  shows "holds c a (snd (call_provider E n q dl attempts w))"
proof -
  define t where "t = timeout_for (wd_router w) n"
  have nn: "a m = Some k \<Longrightarrow> 0 \<le> k" for m k using holds_nonneg [OF h(1)] .
  show ?thesis
  proof (cases "deadline_check dl (now_of E w)")
    case (Inl e)
    have "holds c a (on_breaker n release w)" by (rule settle_step_holds [OF h]) simp
    then show ?thesis using Inl by (simp add: call_provider_def Let_def)
  next
    case (Inr u)
    obtain res w1 where adm: "admit_call E n q dl w = (res, w1)" by (cases "admit_call E n q dl w")
    note ah = admit_call_holds [OF E h adm]
    show ?thesis
    proof (cases res)
      case (Ret x)
      have h1: "holds (c(n := c n + 1)) (admitted a n) w1" using ah Ret by simp
      define call where "call = try_call E n q dl attempts t w1"
      have "holds (c(n := c n + 1)) (admitted a n) (snd (retry_execute (re_env E) on_retry_manager cfg
            (Some dl) (Some attempts) (one_call E n q dl t) w1))" for cfg
        by (rule retry_execute_keeps [where I = "holds (c(n := c n + 1)) (admitted a n)"])
          (use h1 in \<open>simp_all add: one_call_holds [OF E] politeD [OF E] on_retry_manager_holds\<close>)
      then have h2: "holds (c(n := c n + 1)) (admitted a n) (snd call)"
        using one_call_holds [OF E h1] by (simp add: call_def try_call_def split: option.split)
      have "holds c a (release_slot n (settle E n (fst call) (snd call)))"
        by (rule release_slot_holds [OF settle_holds [OF h2 h(2)] nn])
      moreover have "snd (call_provider E n q dl attempts w) = release_slot n (settle E n (fst call) (snd call))"
        using Inr adm Ret by (simp add: call_provider_def t_def [symmetric] call_def case_prod_unfold Let_def)
      ultimately show ?thesis by simp
    qed (use ah adm Inr in \<open>simp_all add: call_provider_def Let_def\<close>)
  qed
qed

lemma route_loop_holds:
  assumes E: "polite E"
  shows "holds c a w \<Longrightarrow> holds c a (snd (route_loop E dl single cands failures lst w))"
proof (induction cands arbitrary: failures lst w)
  case Nil
  then show ?case by (simp split: bool.split option.split)
next
  case (Cons cand rest)
  obtain n req where cand: "cand = (n, req)" by (cases cand)
  obtain ok w1 where en: "enter_breaker E n w = (ok, w1)" by (cases "enter_breaker E n w")
  note eh = enter_breaker_holds [OF Cons.prems en]
  show ?case
  proof (cases ok)
    case False
    then show ?thesis using eh Cons.IH en by (simp add: cand)
  next
    case True
    obtain res w2 where cp: "call_provider E n req dl (attempts_for (wd_router w1) (rest = [])) w1 = (res, w2)"
      by (cases "call_provider E n req dl (attempts_for (wd_router w1) (rest = [])) w1")
    have "holds (c(n := c n + 1)) a w1" using eh True by simp
    from call_provider_holds [OF E this probes_bound_nonneg [OF Cons.prems]] cp
    have h2: "holds c a w2" by (metis snd_conv)
    have cf: "holds c a (count_failover b w2)" for b
      using h2 by (simp add: count_failover_def on_router_holds)
    have cr: "holds c a (cache_response E n req resp w2)" for resp
      using h2 by (simp add: cache_response_def on_router_holds)
    have ns: "holds c a v \<Longrightarrow> holds c a (on_router (note_success t n k l) v)" for v t k l
      by (subst on_router_holds) (simp_all add: note_success_def)
    have ru: "holds c a v \<Longrightarrow> holds c a (on_router (record_usage n m l i out) v)" for v m l i out
      by (subst on_router_holds) (simp_all add: record_usage_def split: prod.split)
    show ?thesis
      using Cons.IH cp en True cf h2 by (cases res) (simp_all add: cand Let_def ns ru cr)
  qed
qed

lemma refresh_gate: "breaker_inv b \<Longrightarrow> breaker_inv (refresh now b) \<and> held_probes (refresh now b) \<le> held_probes b"
  by (auto simp: refresh_def breaker_inv_def held_probes_def split: circuit_state.splits)

lemma planned_holds:
  assumes "holds c a w" "planned_from now (wd_router w) r"
  shows "holds c a (w\<lparr>wd_router := r\<rparr>)"
proof -
  note f = planned_fields(6,7) [OF assms(2)]
  have act: "active_of (w\<lparr>wd_router := r\<rparr>) = active_of w" by (simp add: active_of_def f(1) fun_eq_iff)
  have each: "(case od_get (ro_breakers r) n of None \<Rightarrow> True | Some b \<Rightarrow> breaker_inv b)
      \<and> probes_out (w\<lparr>wd_router := r\<rparr>) n \<le> c n" for n
  proof -
    have "od_get (ro_breakers r) n = od_get (ro_breakers (wd_router w)) n
        \<or> od_get (ro_breakers r) n = map_option (refresh now) (od_get (ro_breakers (wd_router w)) n)"
      using f(2) by (simp add: refreshed_def)
    moreover have "probes_out w n \<le> c n" using assms(1) by (simp add: holds_def)
    ultimately show ?thesis
    proof (cases "od_get (ro_breakers (wd_router w)) n")
      case (Some b)
      then have b: "breaker_inv b" using assms(1) by (auto simp: holds_def tables_ok_def)
      show ?thesis using refresh_gate [OF b, of now] b Some f(2) \<open>probes_out w n \<le> c n\<close>
          \<open>od_get (ro_breakers r) n = _ \<or> _\<close>
        by (auto simp: probes_out_def)
    qed (auto simp: probes_out_def)
  qed
  have "breaker_inv b" if "od_get (ro_breakers r) n = Some b" for n b
    using each [of n] that by simp
  then show ?thesis using assms(1) act each unfolding holds_def tables_ok_def by simp
qed

lemma cache_lookup_holds: "holds c a w \<Longrightarrow> holds c a (snd (cache_lookup E n q req w))"
  by (simp add: cache_lookup_def on_router_holds split: option.split prod.split)

lemma route_planned_holds:
  assumes E: "polite E" and h: "holds c a w"
  shows "holds c a (snd (route_planned E q preferred ds pset w))"
proof (cases "validate_conversation (rq_messages q)")
  case (Inl e)
  then show ?thesis using h by (simp add: route_planned_def)
next
  case (Inr u)
  obtain res r where s: "screen (now_of E w) pset (re_budget E w) q preferred (wd_router w) = (res, r)"
    by (cases "screen (now_of E w) pset (re_budget E w) q preferred (wd_router w)")
  have h1: "holds c a (w\<lparr>wd_router := r\<rparr>)" by (rule planned_holds [OF h screen_planned [OF s]])
  show ?thesis
  proof (cases res)
    case (Inl e)
    then show ?thesis using h1 s Inr by (simp add: route_planned_def Let_def)
  next
    case cands: (Inr cands)
    obtain hit w1 where l: "cache_lookup E (fst (hd cands)) q (snd (hd cands)) (w\<lparr>wd_router := r\<rparr>) = (hit, w1)"
      by (cases "cache_lookup E (fst (hd cands)) q (snd (hd cands)) (w\<lparr>wd_router := r\<rparr>)")
    have h2: "holds c a w1" using cache_lookup_holds [OF h1] l by (metis snd_conv)
    note rl = route_loop_holds [OF E h2]
    show ?thesis
    proof (cases hit)
      case None
      then show ?thesis using rl h2 s Inr cands l
        by (cases "hedge_delay pset q preferred (wd_router w1)")
          (simp_all add: route_planned_def Let_def split: option.split)
    qed (use h2 s Inr cands l in \<open>simp_all add: route_planned_def Let_def\<close>)
  qed
qed

section \<open>The order of failover\<close>

definition failed_over :: "(string \<times> error_kind) list \<Rightarrow> (string \<times> request) list \<Rightarrow> bool" where
  "failed_over fs cands \<longleftrightarrow> map fst fs = map fst cands \<and> list_all (\<lambda>f. snd f \<in> FAILOVER) fs"

definition loop_outcome ::
  "(string \<times> request) list \<Rightarrow> (string \<times> error_kind) list \<Rightarrow> route_result \<Rightarrow> bool" where
  "loop_outcome cands failures res \<longleftrightarrow>
     (case res of
        Answer resp fs \<Rightarrow>
          (\<exists>pre n req post new. cands = pre @ (n, req) # post \<and> fs = failures @ new \<and> failed_over new pre
             \<and> (fs \<noteq> [] \<longrightarrow> co_failed_over_from resp = Some (map fst fs)))
      | Unavailable fs ra \<Rightarrow> (\<exists>new. fs = failures @ new \<and> failed_over new cands)
      | Raised e \<Rightarrow> True
      | NotPlanned e \<Rightarrow> False
      | Cancelled \<Rightarrow> cands \<noteq> []
      | Hedging s cs \<Rightarrow> False)"

lemma loop_outcome_step:
  assumes "loop_outcome rest (failures @ [(n, k)]) res" "k \<in> FAILOVER"
  shows "loop_outcome ((n, req) # rest) failures res"
proof (cases res)
  case (Answer resp fs)
  from assms(1) Answer obtain pre m r post new where "rest = pre @ (m, r) # post"
    "fs = (failures @ [(n, k)]) @ new" "failed_over new pre"
    "fs \<noteq> [] \<longrightarrow> co_failed_over_from resp = Some (map fst fs)"
    unfolding loop_outcome_def by (simp only: route_result.case) blast
  then show ?thesis using assms(2) unfolding loop_outcome_def Answer route_result.case
    by (intro exI [of _ "(n, req) # pre"] exI [of _ m] exI [of _ r] exI [of _ post] exI [of _ "(n, k) # new"])
      (simp add: failed_over_def)
next
  case (Unavailable fs ra)
  from assms(1) Unavailable obtain new where "fs = (failures @ [(n, k)]) @ new" "failed_over new rest"
    unfolding loop_outcome_def by (simp only: route_result.case) blast
  then show ?thesis using assms(2) unfolding loop_outcome_def Unavailable route_result.case
    by (intro exI [of _ "(n, k) # new"]) (simp add: failed_over_def)
qed (use assms in \<open>simp_all add: loop_outcome_def\<close>)

lemma route_loop_outcome:
  "route_loop E dl single cands failures lst w = (res, w') \<Longrightarrow> loop_outcome cands failures res"
proof (induction cands arbitrary: failures lst w)
  case Nil
  then show ?case by (auto simp: loop_outcome_def failed_over_def split: bool.splits option.splits)
next
  case (Cons cand rest)
  obtain n req where cand: "cand = (n, req)" by (cases cand)
  obtain ok w1 where en: "enter_breaker E n w = (ok, w1)" by (cases "enter_breaker E n w")
  show ?case
  proof (cases ok)
    case False
    then have "route_loop E dl single rest (failures @ [(n, CIRCUIT_OPEN)])
        (Some (CircuitOpenError n (breaker_retry_after E n w1))) w1 = (res, w')"
      using Cons.prems en by (simp add: cand)
    from loop_outcome_step [OF Cons.IH [OF this]] show ?thesis by (simp add: cand FAILOVER_def)
  next
    case True
    obtain r w2 where cp: "call_provider E n req dl (attempts_for (wd_router w1) (rest = [])) w1 = (r, w2)"
      by (cases "call_provider E n req dl (attempts_for (wd_router w1) (rest = [])) w1")
    show ?thesis
    proof (cases r)
      case (Ret resp)
      define resp' where "resp' = (if failures \<noteq> [] then resp\<lparr>co_failed_over_from := Some (map fst failures)\<rparr> else resp)"
      have "res = Answer resp' failures"
        using Cons.prems en True cp Ret by (simp add: cand Let_def resp'_def)
      then show ?thesis unfolding loop_outcome_def cand
        by (auto simp: failed_over_def resp'_def intro!: exI [of _ "[] :: (string \<times> request) list"])
    next
      case Cancel
      then show ?thesis using Cons.prems en True cp by (auto simp: cand loop_outcome_def)
    next
      case (Exc e)
      define info where "info = classify (wall_of E w2) e"
      show ?thesis
      proof (cases "ei_kind info = DEADLINE \<or> \<not> (cf_enable_failover (ro_config (wd_router w2)) \<and> failover info)")
        case True
        then have "res = Raised e"
          using Cons.prems en \<open>ok\<close> cp Exc by (simp add: cand Let_def info_def split: if_splits)
        then show ?thesis by (simp add: loop_outcome_def)
      next
        case False
        then have "route_loop E dl single rest (failures @ [(n, ei_kind info)]) (Some e)
            (count_failover (rest = []) w2) = (res, w')"
          using Cons.prems en \<open>ok\<close> cp Exc by (simp add: cand Let_def info_def split: if_splits)
        from loop_outcome_step [OF Cons.IH [OF this]] show ?thesis
          using False by (simp add: cand failover_def)
      qed
    qed
  qed
qed

section \<open>Properties\<close>

text \<open>
  C26. A request never leaks a slot. If the other requests give back what they take, then a
  request routed without hedging, however it ends (answer, error of any kind, deadline, refusal by the rate
  limiter, cancellation in the middle of any await) and however often it retries and fails over,
  leaves no half-open probe taken and no active request behind on any provider.
\<close>

theorem route_leaks_nothing:
  assumes "polite E" "holds c a w"
  shows "holds c a (snd (route E q preferred ds w))"
proof -
  define w1 where "w1 = on_router (\<lambda>r. r\<lparr>ro_request_count := ro_request_count r + 1\<rparr>) w"
  have "holds c a w1" using assms(2) by (simp add: w1_def on_router_holds)
  then show ?thesis
    using route_planned_holds [OF assms(1), where w = w1 and c = c and a = a]
    unfolding route_def w1_def [symmetric] Let_def by (cases preferred) simp_all
qed

definition sample_answer :: completion where
  "sample_answer = \<lparr>co_content = ''ok'', co_model = ''m'', co_provider = ''box'', co_input_tokens = 3,
     co_output_tokens = 5, co_cost_usd = 0, co_latency_ms = 40, co_cached = False,
     co_failed_over_from = None, co_hedged = False, co_original_cost_usd = None,
     co_tool_calls = []\<rparr>"

definition quiet_env :: "unit renv" where
  "quiet_env = \<lparr>re_env = \<lparr>clk = (\<lambda>w. 1), wall = (\<lambda>w. 1), slp = (\<lambda>d w. (Ret (), w)), rnd = (\<lambda>w. (1 / 2, w))\<rparr>,
     re_complete = (\<lambda>n q t w. (if n = ''box'' then Ret sample_answer else Exc (ProviderTimeout n t), w)),
     re_embed = (\<lambda>n t w. (Cancel, w)),
     re_slot = (\<lambda>n w t L. (Ret True, 1, L)), re_wait = (\<lambda>n w t L. (Ret (), 1, L)),
     re_pass = (\<lambda>t w. w), re_policies = (\<lambda>w. None), re_budget = (\<lambda>w. None), re_digest = (\<lambda>m x. ''d'')\<rparr>"

lemma quiet_env_polite: "polite quiet_env"
  by (simp add: polite_def quiet_env_def)

definition two_world :: "unit world" where
  "two_world = \<lparr>wd_router = two_providers, wd_ext = ()\<rparr>"

lemma two_world_holds: "holds (\<lambda>n. 0) (\<lambda>n. None) two_world"
  by (auto simp: holds_def tables_ok_def probes_out_def active_of_def two_world_def two_providers_def
      fresh_router_def closed_breaker_def breaker_inv_def held_probes_def fun_eq_iff split: if_splits)

theorem route_leaks_nothing_witness:
  "holds (\<lambda>n. 0) (\<lambda>n. None) (snd (route quiet_env plain_request None None two_world))"
  by (rule route_leaks_nothing [OF quiet_env_polite two_world_holds])

text \<open>
  C27. Failover skips nothing and hides nothing: when the loop answers, the candidates before the
  one that answered are exactly the reported failures, in plan order, each with an error kind that
  permits failover (or an open circuit), and the answer names them; when it reports that all
  providers are unavailable, every candidate is listed with such a kind.
\<close>

theorem failover_is_complete:
  assumes "route_loop E dl single cands [] None w = (res, w')"
  shows "(\<forall>resp fs. res = Answer resp fs \<longrightarrow>
      (\<exists>pre n req post. cands = pre @ (n, req) # post \<and> map fst fs = map fst pre
         \<and> (\<forall>(m, k)\<in>set fs. k \<in> FAILOVER)
         \<and> (fs \<noteq> [] \<longrightarrow> co_failed_over_from resp = Some (map fst fs))))
    \<and> (\<forall>fs ra. res = Unavailable fs ra \<longrightarrow> map fst fs = map fst cands \<and> (\<forall>(m, k)\<in>set fs. k \<in> FAILOVER))"
  using route_loop_outcome [OF assms]
  by (fastforce simp: loop_outcome_def failed_over_def list_all_iff)

definition failover_world :: "unit world" where
  "failover_world = \<lparr>wd_router = two_providers\<lparr>ro_breakers :=
     [(''cloud'', closed_breaker\<lparr>cb_state := OPEN, cb_opened_at := 0, cb_failures := 5, cb_total_opened := 1\<rparr>),
      (''box'', closed_breaker)]\<rparr>, wd_ext = ()\<rparr>"

definition both_candidates :: "(string \<times> request) list" where
  "both_candidates = [(''cloud'', plain_request), (''box'', plain_request)]"

lemma failover_run:
  "\<exists>resp w'. route_loop quiet_env None False both_candidates [] None failover_world
     = (Answer resp [(''cloud'', CIRCUIT_OPEN)], w')"
  by (simp add: both_candidates_def failover_world_def sample_defs quiet_env_def enter_breaker_def
      breaker_defs now_of_def wall_of_def on_breaker_def on_router_def call_provider_def admit_call_def
      global_acquire_def get_limiter_def try_call_def one_call_def timeout_for_def deadline_check_def
      expired_def clamp_def remaining_def settle_def release_slot_def global_release_def od_map_at_def)

theorem failover_is_complete_witness:
  "\<exists>resp w'. route_loop quiet_env None False both_candidates [] None failover_world
      = (Answer resp [(''cloud'', CIRCUIT_OPEN)], w')
    \<and> co_failed_over_from resp = Some [''cloud'']"
proof -
  obtain resp w' where r: "route_loop quiet_env None False both_candidates [] None failover_world
     = (Answer resp [(''cloud'', CIRCUIT_OPEN)], w')" using failover_run by blast
  from failover_is_complete [OF r] r show ?thesis by fastforce
qed

text \<open>
  C28. Cancelling an embedding call can lock a provider out for good: if the call was admitted as
  the only probe of a half-open breaker, nothing gives the probe back, and from then on the
  breaker refuses every call at every later instant.
\<close>

theorem embed_cancel_locks_out:
  assumes "od_get (ro_providers (wd_router w)) n = Some p" "pv_supports_embeddings p" "n \<noteq> []"
    and "od_get (ro_breakers (wd_router w)) n = Some b"
    and "cb_state b = HALF_OPEN" "cb_probes b = 0" "cb_half_open_max b = 1"
    and "\<And>t w. re_embed E n t w = (Cancel, w)"
  shows "\<exists>w' b'. embed E (Some n) w = (EmbedCancelled, w')
      \<and> od_get (ro_breakers (wd_router w')) n = Some b'
      \<and> (\<forall>t. \<not> fst (allow t b') \<and> \<not> fst (would_allow t b'))"
  using assms
  by (simp add: embed_def or_empty_def enter_breaker_def breaker_defs on_breaker_def on_router_def)

definition probing_world :: "unit world" where
  "probing_world = \<lparr>wd_router = two_providers\<lparr>
     ro_providers := [(''box'', (sample_provider True)\<lparr>pv_supports_embeddings := True\<rparr>)],
     ro_breakers := [(''box'', closed_breaker\<lparr>cb_state := HALF_OPEN\<rparr>)]\<rparr>, wd_ext = ()\<rparr>"

theorem embed_cancel_locks_out_witness:
  "\<exists>w' b'. embed quiet_env (Some ''box'') probing_world = (EmbedCancelled, w')
      \<and> od_get (ro_breakers (wd_router w')) ''box'' = Some b' \<and> \<not> fst (allow 1000000 b')"
  using embed_cancel_locks_out [of probing_world "''box''" "(sample_provider True)\<lparr>pv_supports_embeddings := True\<rparr>"
      "closed_breaker\<lparr>cb_state := HALF_OPEN\<rparr>" quiet_env]
  by (auto simp: probing_world_def closed_breaker_def quiet_env_def)

end
