(* ===== verification/Router_Stream.thy ===== *)
theory Router_Stream
  imports Router_Call
begin

text \<open>
  \<open>src/coreai/router.py\<close>, fourth part: streaming. Opening a stream is treated like a call (breaker, limits, retries,
  failover before the first chunk); afterwards chunks are passed on until the provider ends or fails, or the
  client leaves. Providers are not registered or dropped while one of their streams runs.
\<close>

section \<open>The environment\<close>

text \<open>
  Generators have handles. \<open>sv_open n q\<close> is \<open>provider.stream(q)\<close>, \<open>sv_next g t\<close> is \<open>wait_for(g.__anext__(), t)\<close> with
  \<open>None\<close> for the end of the stream, \<open>sv_close g\<close> is \<open>g.aclose()\<close>, \<open>sv_yield c\<close> hands a chunk to the client and
  ends in \<open>Cancel\<close> when the client leaves or is cancelled, and \<open>sv_reports n\<close> are the calls of
  \<open>StreamUsage.report\<close> made for the current candidate.
\<close>

record 'x stream_env =
  sv_open :: "string \<Rightarrow> request \<Rightarrow> 'x world \<Rightarrow> nat \<times> 'x world"
  sv_next :: "nat \<Rightarrow> real \<Rightarrow> 'x world \<Rightarrow> string option outcome \<times> 'x world"
  sv_close :: "nat \<Rightarrow> 'x world \<Rightarrow> unit outcome \<times> 'x world"
  sv_yield :: "string \<Rightarrow> 'x world \<Rightarrow> unit outcome \<times> 'x world"
  sv_reports :: "string \<Rightarrow> 'x world \<Rightarrow> (pyval \<times> pyval \<times> pyval) list"

section \<open>Opening\<close>

text \<open>\<open>_close_stream\<close>: an exception is dropped, a cancellation is not.\<close>

definition close_stream :: "'x stream_env \<Rightarrow> nat \<Rightarrow> 'x world \<Rightarrow> bool \<times> 'x world" where
  "close_stream S g w = (case sv_close S g w of (Cancel, w) \<Rightarrow> (True, w) | (_, w) \<Rightarrow> (False, w))"

definition open_attempt ::
  "'x renv \<Rightarrow> 'x stream_env \<Rightarrow> string \<Rightarrow> request \<Rightarrow> deadline \<Rightarrow> real \<Rightarrow> 'x world \<Rightarrow> (nat \<times> string option) outcome \<times> 'x world" where
  "open_attempt E S n q dl timeout w =
     (let seconds = (case clamp dl (now_of E w) (Some timeout) of Some s \<Rightarrow> s | None \<Rightarrow> timeout)
      in if seconds \<le> 0 then (Exc DeadlineExceeded, w)
         else case sv_open S n q w of
           (g, w) \<Rightarrow>
             (case sv_next S g seconds w of
                (Ret first, w) \<Rightarrow> (Ret (g, first), w)
              | (Cancel, w) \<Rightarrow> (case close_stream S g w of (_, w) \<Rightarrow> (Cancel, w))
              | (Exc e, w) \<Rightarrow>
                  (case close_stream S g w of
                     (True, w) \<Rightarrow> (Cancel, w)
                   | (False, w) \<Rightarrow>
                       (if is_timeout e
                        then (if expired dl (now_of E w) then (Exc DeadlineExceeded, w)
                              else (Exc (ProviderTimeout n seconds), w))
                        else (Exc e, w)))))"

definition try_open ::
  "'x renv \<Rightarrow> 'x stream_env \<Rightarrow> string \<Rightarrow> request \<Rightarrow> deadline \<Rightarrow> int \<Rightarrow> real \<Rightarrow> 'x world \<Rightarrow> (nat \<times> string option) outcome \<times> 'x world" where
  "try_open E S n q dl attempts timeout w =
     (case ro_retry (wd_router w) of
        Some m \<Rightarrow>
          (if cf_enable_retry (ro_config (wd_router w))
           then retry_execute (re_env E) on_retry_manager (rm_config m) (Some dl) (Some attempts)
                  (open_attempt E S n q dl timeout) w
           else open_attempt E S n q dl timeout w)
      | None \<Rightarrow> open_attempt E S n q dl timeout w)"

text \<open>\<open>_open_stream\<close>: on success the probe and the slot stay taken, on failure both are given back here.\<close>

definition open_stream ::
  "'x renv \<Rightarrow> 'x stream_env \<Rightarrow> string \<Rightarrow> request \<Rightarrow> deadline \<Rightarrow> int \<Rightarrow> 'x world \<Rightarrow> (nat \<times> string option) outcome \<times> 'x world" where
  "open_stream E S n q dl attempts w =
     (let timeout = timeout_for (wd_router w) n in
      case deadline_check dl (now_of E w) of
        Inl e \<Rightarrow> (Exc e, on_breaker n release w)
      | Inr _ \<Rightarrow>
          (case admit_call E n q dl w of
             (Exc e, w) \<Rightarrow> (Exc e, w)
           | (Cancel, w) \<Rightarrow> (Cancel, w)
           | (Ret _, w) \<Rightarrow>
               (case try_open E S n q dl attempts timeout w of
                  (Ret gf, w) \<Rightarrow> (Ret gf, w)
                | (res, w) \<Rightarrow> (res, release_slot n (settle E n res w)))))"

section \<open>Passing chunks on\<close>

text \<open>
  The loop after the first chunk, for at most \<open>k\<close> more rounds: the chunks delivered so far, and how it ended,
  \<open>None\<close> if the stream is still open. A provider may stream for ever.
\<close>

fun pass_chunks ::
  "'x stream_env \<Rightarrow> string \<Rightarrow> nat \<Rightarrow> real \<Rightarrow> nat \<Rightarrow> string list \<Rightarrow> 'x world \<Rightarrow> string list \<times> unit outcome option \<times> 'x world" where
  "pass_chunks S n g timeout 0 out w = (out, None, w)"
| "pass_chunks S n g timeout (Suc k) out w =
     (case sv_next S g timeout w of
        (Ret None, w) \<Rightarrow> (out, Some (Ret ()), w)
      | (Exc e, w) \<Rightarrow> (out, Some (Exc (if is_timeout e then ProviderTimeout n timeout else e)), w)
      | (Cancel, w) \<Rightarrow> (out, Some Cancel, w)
      | (Ret (Some c), w) \<Rightarrow>
          (case sv_yield S c w of
             (Ret _, w) \<Rightarrow> pass_chunks S n g timeout k (out @ [c]) w
           | (res, w) \<Rightarrow> (out @ [c], Some res, w)))"

definition deliver_stream ::
  "'x stream_env \<Rightarrow> string \<Rightarrow> nat \<Rightarrow> string option \<Rightarrow> real \<Rightarrow> nat \<Rightarrow> 'x world \<Rightarrow> string list \<times> unit outcome option \<times> 'x world" where
  "deliver_stream S n g first timeout k w =
     (case first of
        None \<Rightarrow> ([], Some (Ret ()), w)
      | Some c \<Rightarrow>
          (case sv_yield S c w of
             (Ret _, w) \<Rightarrow> pass_chunks S n g timeout k [c] w
           | (res, w) \<Rightarrow> ([c], Some res, w)))"

section \<open>Accounting\<close>

text \<open>\<open>_settle_stream\<close>, where the usage has been reported by the given calls.\<close>

definition stream_reports :: "(pyval \<times> pyval \<times> pyval) list \<Rightarrow> stream_usage" where
  "stream_reports rs = fold (\<lambda>(i, out, m). report i out m) rs stream_usage_new"

definition estimate_usage :: "request \<Rightarrow> string list \<Rightarrow> stream_usage \<Rightarrow> stream_usage" where
  "estimate_usage q out u =
     (let prompt = sum_list (map (\<lambda>m. int (length (ms_content m))) (rq_messages q)) + int (length (or_empty (rq_system_prompt q)));
          chars = sum_list (map (\<lambda>c. int (length c)) out)
      in u\<lparr>su_input_tokens := max 1 (prompt div 4), su_output_tokens := max 1 (chars div 4), su_estimated := True\<rparr>)"

definition settle_stream ::
  "string \<Rightarrow> request \<Rightarrow> stream_usage \<Rightarrow> string list \<Rightarrow> bool \<Rightarrow> router \<Rightarrow> stream_usage \<times> router" where
  "settle_stream n q u out completed r =
     (case od_get (ro_providers r) n of
        None \<Rightarrow> (u, r)
      | Some p \<Rightarrow>
          (if out = [] then (u, r)
           else let model = (if su_model u \<noteq> [] then su_model u
                             else if or_empty (rq_model q) \<noteq> [] then or_empty (rq_model q) else pv_default_model p);
                    u = u\<lparr>su_provider := n, su_completed := completed, su_model := model\<rparr>;
                    (u, r) = (if su_reported u then (u, r)
                      else (estimate_usage q out u,
                            r\<lparr>ro_streams_estimated := bump n (ro_streams_estimated r)\<rparr>));
                    u = u\<lparr>su_cost_usd := pv_estimate_cost p (su_input_tokens u) (su_output_tokens u) (su_model u)\<rparr>;
                    r = r\<lparr>ro_provider_stats := od_map_at n (\<lambda>s. s\<lparr>st_total_cost := st_total_cost s + su_cost_usd u\<rparr>) (ro_provider_stats r)\<rparr>
                in (u, record_usage n model None (su_input_tokens u) (su_output_tokens u) r)))"

section \<open>Streaming\<close>

datatype stream_end =
    Finished
  | Broken exn
  | NoProvider "(string \<times> error_kind) list" "real option"
  | Rejected plan_error
  | ClientGone
  | StillOpen

record stream_result =
  sr_chunks :: "string list"
  sr_provider :: "string option"
  sr_failures :: "(string \<times> error_kind) list"
  sr_usage :: "stream_usage option"
  sr_end :: stream_end

definition no_stream :: "(string \<times> error_kind) list \<Rightarrow> stream_end \<Rightarrow> stream_result" where
  "no_stream failures e = \<lparr>sr_chunks = [], sr_provider = None, sr_failures = failures, sr_usage = None, sr_end = e\<rparr>"

fun end_of :: "unit outcome \<Rightarrow> stream_end" where
  "end_of (Ret _) = Finished"
| "end_of (Exc e) = Broken e"
| "end_of Cancel = ClientGone"

text \<open>The end of an opened stream: breaker, counters, usage, the limiter's slot, and the generator, in this order.\<close>

definition finish_stream ::
  "'x renv \<Rightarrow> 'x stream_env \<Rightarrow> string \<Rightarrow> request \<Rightarrow> nat \<Rightarrow> (string \<times> error_kind) list \<Rightarrow> string list \<Rightarrow> unit outcome \<Rightarrow>
    'x world \<Rightarrow> stream_result \<times> 'x world" where
  "finish_stream E S n q g failures out res w =
     (let usage = (stream_reports (sv_reports S n w))
            \<lparr>su_opened_model := (if or_empty (rq_model q) \<noteq> [] then or_empty (rq_model q)
               else case od_get (ro_providers (wd_router w)) n of None \<Rightarrow> [] | Some p \<Rightarrow> pv_default_model p)\<rparr>;
          w = settle E n res w;
          w = (if is_ret res
               then on_router (\<lambda>r. r\<lparr>ro_provider_stats := od_map_at n (\<lambda>s. s\<lparr>st_requests := st_requests s + 1\<rparr>) (ro_provider_stats r)\<rparr>) w
               else w);
          (usage, r) = settle_stream n q usage out (is_ret res) (wd_router w);
          w = release_slot n (w\<lparr>wd_router := r\<rparr>)
      in case close_stream S g w of
           (gone, w) \<Rightarrow> (\<lparr>sr_chunks = out, sr_provider = Some n, sr_failures = failures, sr_usage = Some usage,
              sr_end = (if gone then ClientGone else end_of res)\<rparr>, w))"

text \<open>The loop of \<open>_stream\<close>, with at most \<open>k\<close> rounds of its inner loop.\<close>

fun stream_loop ::
  "'x renv \<Rightarrow> 'x stream_env \<Rightarrow> nat \<Rightarrow> deadline \<Rightarrow> bool \<Rightarrow> (string \<times> request) list \<Rightarrow> (string \<times> error_kind) list \<Rightarrow> exn option \<Rightarrow>
     'x world \<Rightarrow> stream_result \<times> 'x world" where
  "stream_loop E S k dl single [] failures lst w =
     (case (single, lst) of
        (True, Some e) \<Rightarrow> (no_stream failures (Broken e), w)
      | _ \<Rightarrow> (no_stream failures (NoProvider failures (soonest_retry_after (now_of E w) (wd_router w))), w))"
| "stream_loop E S k dl single ((n, req) # rest) failures lst w =
     (case enter_breaker E n w of
        (False, w) \<Rightarrow>
          stream_loop E S k dl single rest (failures @ [(n, CIRCUIT_OPEN)])
            (Some (CircuitOpenError n (breaker_retry_after E n w))) w
      | (True, w) \<Rightarrow>
          (let timeout = timeout_for (wd_router w) n in
           case open_stream E S n req dl (attempts_for (wd_router w) (rest = [])) w of
             (Cancel, w) \<Rightarrow> (no_stream failures ClientGone, w)
           | (Exc e, w) \<Rightarrow>
               (let info = classify (wall_of E w) e; failures = failures @ [(n, ei_kind info)]
                in if ei_kind info = DEADLINE \<or> \<not> (cf_enable_failover (ro_config (wd_router w)) \<and> failover info)
                   then (no_stream failures (Broken e), w)
                   else stream_loop E S k dl single rest failures (Some e) (count_failover (rest = []) w))
           | (Ret (g, first), w) \<Rightarrow>
               (case deliver_stream S n g first timeout k w of
                  (out, None, w) \<Rightarrow> (\<lparr>sr_chunks = out, sr_provider = Some n, sr_failures = failures, sr_usage = None, sr_end = StillOpen\<rparr>, w)
                | (out, Some res, w) \<Rightarrow> finish_stream E S n req g failures out res w)))"

definition stream_planned ::
  "'x renv \<Rightarrow> 'x stream_env \<Rightarrow> nat \<Rightarrow> request \<Rightarrow> string option \<Rightarrow> real option \<Rightarrow> policy_set option \<Rightarrow> 'x world \<Rightarrow>
     stream_result \<times> 'x world" where
  "stream_planned E S k q preferred deadline_seconds pset w =
     (case validate_conversation (rq_messages q) of
        Inl e \<Rightarrow> (no_stream [] (Rejected (BadConversation e)), w)
      | Inr _ \<Rightarrow>
          (let dl = new_deadline (case deadline_seconds of Some s \<Rightarrow> Some s
                      | None \<Rightarrow> cf_deadline_seconds (ro_config (wd_router w))) (now_of E w)
           in case screen (now_of E w) pset (re_budget E w) q preferred (wd_router w) of
                (Inl e, r) \<Rightarrow> (no_stream [] (Rejected e), w\<lparr>wd_router := r\<rparr>)
              | (Inr cands, r) \<Rightarrow> stream_loop E S k dl (length cands = 1) cands [] None (w\<lparr>wd_router := r\<rparr>)))"

definition stream ::
  "'x renv \<Rightarrow> 'x stream_env \<Rightarrow> nat \<Rightarrow> request \<Rightarrow> string option \<Rightarrow> real option \<Rightarrow> 'x world \<Rightarrow> stream_result \<times> 'x world" where
  "stream E S k q preferred deadline_seconds w =
     (let w = on_router (\<lambda>r. r\<lparr>ro_request_count := ro_request_count r + 1\<rparr>) w;
          pset = re_policies E w;
          q = resolve_alias pset (wd_router w) q
      in case preferred of
           Some n \<Rightarrow>
             (if \<not> od_has (ro_providers (wd_router w)) n then (no_stream [] (Rejected (ProviderUnavailable n)), w)
              else stream_planned E S k q preferred deadline_seconds pset w)
         | None \<Rightarrow> stream_planned E S k q preferred deadline_seconds pset w)"

section \<open>No leaks\<close>

text \<open>Whatever happens while a stream is waited for, others give back what they take.\<close>

definition polite_stream :: "'x stream_env \<Rightarrow> bool" where
  "polite_stream S \<longleftrightarrow>
     (\<forall>c a w n q. holds c a w \<longrightarrow> holds c a (snd (sv_open S n q w)))
   \<and> (\<forall>c a w g t. holds c a w \<longrightarrow> holds c a (snd (sv_next S g t w)))
   \<and> (\<forall>c a w g. holds c a w \<longrightarrow> holds c a (snd (sv_close S g w)))
   \<and> (\<forall>c a w x. holds c a w \<longrightarrow> holds c a (snd (sv_yield S x w)))"

lemma polite_streamD:
  assumes "polite_stream S" "holds c a w"
  shows "holds c a (snd (sv_open S n q w))" "holds c a (snd (sv_next S g t w))"
    "holds c a (snd (sv_close S g w))" "holds c a (snd (sv_yield S x w))"
  using assms by (simp_all add: polite_stream_def)

lemma close_stream_holds: "polite_stream S \<Longrightarrow> holds c a w \<Longrightarrow> holds c a (snd (close_stream S g w))"
  using polite_streamD(3) [of S c a w g] by (auto simp: close_stream_def split: prod.split outcome.split)

lemma open_attempt_holds:
  assumes "polite_stream S" "holds c a w"
  shows "holds c a (snd (open_attempt E S n q dl t w))"
proof -
  obtain g w1 where o: "sv_open S n q w = (g, w1)" by (cases "sv_open S n q w")
  have w1: "holds c a w1" using polite_streamD(1) [OF assms, of n q] o by simp
  have w2: "holds c a w2" if "sv_next S g u w1 = (r, w2)" for u r w2 using polite_streamD(2) [OF assms(1) w1, of g u] that by simp
  have w3: "holds c a w3" if "holds c a v" "close_stream S g v = (b, w3)" for v b w3
    using close_stream_holds [OF assms(1) that(1), of g] that(2) by simp
  define u where "u = (case clamp dl (now_of E w) (Some t) of Some s \<Rightarrow> s | None \<Rightarrow> t)"
  obtain r v where n: "sv_next S g u w1 = (r, v)" by (cases "sv_next S g u w1")
  obtain b v' where c: "close_stream S g v = (b, v')" by (cases "close_stream S g v")
  have h: "holds c a v" "holds c a v'" using w2 [OF n] w3 [OF _ c] by simp_all
  show ?thesis
    unfolding open_attempt_def u_def [symmetric] Let_def using assms(2) h by (cases r; cases b) (simp_all add: o n c)
qed

lemma open_stream_holds:
  assumes E: "polite E" and S: "polite_stream S" and h: "holds (c(n := c n + 1)) a w" "0 \<le> c n"
    and op: "open_stream E S n q dl attempts w = (res, w')"
  shows "if is_ret res then holds (c(n := c n + 1)) (admitted a n) w' else holds c a w'"
proof -
  define t where "t = timeout_for (wd_router w) n"
  have nn: "a m = Some k \<Longrightarrow> 0 \<le> k" for m k using holds_nonneg [OF h(1)] .
  show ?thesis
  proof (cases "deadline_check dl (now_of E w)")
    case (Inl e)
    have "holds c a (on_breaker n release w)" by (rule settle_step_holds [OF h]) simp
    then show ?thesis using Inl op by (auto simp: open_stream_def Let_def)
  next
    case (Inr u)
    obtain r w1 where adm: "admit_call E n q dl w = (r, w1)" by (cases "admit_call E n q dl w")
    note ah = admit_call_holds [OF E h adm]
    show ?thesis
    proof (cases r)
      case (Ret x)
      have h1: "holds (c(n := c n + 1)) (admitted a n) w1" using ah Ret by simp
      have "holds (c(n := c n + 1)) (admitted a n) (snd (retry_execute (re_env E) on_retry_manager cfg
            (Some dl) (Some attempts) (open_attempt E S n q dl t) w1))" for cfg
        by (rule retry_execute_keeps [where I = "holds (c(n := c n + 1)) (admitted a n)"])
          (use h1 in \<open>simp_all add: open_attempt_holds [OF S] politeD [OF E] on_retry_manager_holds\<close>)
      then have h2: "holds (c(n := c n + 1)) (admitted a n) (snd (try_open E S n q dl attempts t w1))"
        using open_attempt_holds [OF S h1] by (simp add: try_open_def split: option.split)
      obtain r2 w2 where tr: "try_open E S n q dl attempts t w1 = (r2, w2)" by (cases "try_open E S n q dl attempts t w1")
      have "holds c a (release_slot n (settle E n r2 w2))"
        by (rule release_slot_holds [OF settle_holds nn]) (use h2 tr h(2) in simp_all)
      then show ?thesis
        using Inr adm Ret op tr h2 by (cases r2) (auto simp: open_stream_def t_def [symmetric] Let_def)
    qed (use ah adm Inr op in \<open>auto simp: open_stream_def Let_def\<close>)
  qed
qed

lemma pass_chunks_holds:
  "polite_stream S \<Longrightarrow> holds c a w \<Longrightarrow> holds c a (snd (snd (pass_chunks S n g t k out w)))"
proof (induction k arbitrary: out w)
  case 0
  then show ?case by simp
next
  case (Suc k)
  obtain r w1 where n: "sv_next S g t w = (r, w1)" by (cases "sv_next S g t w")
  have w1: "holds c a w1" using polite_streamD(2) [OF Suc.prems, of g t] n by simp
  have "holds c a w2" if "sv_yield S x w1 = (r2, w2)" for x r2 w2 using polite_streamD(4) [OF Suc.prems(1) w1, of x] that by simp
  then show ?case using Suc.IH [OF Suc.prems(1)] w1 n by (auto split: outcome.split option.split prod.split)
qed

lemma deliver_stream_holds:
  assumes "polite_stream S" "holds c a w"
  shows "holds c a (snd (snd (deliver_stream S n g first t k w)))"
proof (cases first)
  case (Some x)
  obtain r w1 where y: "sv_yield S x w = (r, w1)" by (cases "sv_yield S x w")
  have "holds c a w1" using polite_streamD(4) [OF assms, of x] y by simp
  then show ?thesis using Some y pass_chunks_holds [OF assms(1)] by (auto simp: deliver_stream_def split: outcome.split)
qed (use assms(2) in \<open>simp add: deliver_stream_def\<close>)

lemma settle_stream_tables:
  "ro_breakers (snd (settle_stream n q u out done r)) = ro_breakers r"
  "ro_limiter (snd (settle_stream n q u out done r)) = ro_limiter r"
  by (auto simp: settle_stream_def Let_def record_usage_def split: option.split prod.split)

lemma finish_stream_holds:
  assumes S: "polite_stream S" and h: "holds (c(n := c n + 1)) (admitted a n) w" "0 \<le> c n"
    and nn: "\<And>m k. a m = Some k \<Longrightarrow> 0 \<le> k"
  shows "holds c a (snd (finish_stream E S n q g fs out res w))"
proof -
  define w1 where "w1 = settle E n res w"
  define w2 where "w2 = (if is_ret res
    then on_router (\<lambda>r. r\<lparr>ro_provider_stats := od_map_at n (\<lambda>s. s\<lparr>st_requests := st_requests s + 1\<rparr>) (ro_provider_stats r)\<rparr>) w1 else w1)"
  have "holds c (admitted a n) w1" unfolding w1_def by (rule settle_holds [OF h])
  then have w2: "holds c (admitted a n) w2" by (simp add: w2_def on_router_holds)
  have "holds c (admitted a n) (w2\<lparr>wd_router := snd (settle_stream n q u out d (wd_router w2))\<rparr>)" for u d
  proof -
    have "w2\<lparr>wd_router := snd (settle_stream n q u out d (wd_router w2))\<rparr> = on_router (\<lambda>r. snd (settle_stream n q u out d r)) w2"
      by (simp add: on_router_def)
    then show ?thesis using w2 by (simp add: on_router_holds settle_stream_tables)
  qed
  from close_stream_holds [where g = g, OF S release_slot_holds [OF this nn]]
  have "holds c a (snd (close_stream S g (release_slot n (w2\<lparr>wd_router := snd (settle_stream n q u out d (wd_router w2))\<rparr>))))" for u d .
  then show ?thesis
    unfolding finish_stream_def Let_def w1_def [symmetric] w2_def [symmetric] by (simp add: case_prod_unfold)
qed

text \<open>What may be held after a stream: nothing, or the probe and the slot of its provider while it is open.\<close>

definition stream_holds :: "(string \<Rightarrow> int) \<Rightarrow> (string \<Rightarrow> int option) \<Rightarrow> stream_result \<times> 'x world \<Rightarrow> bool" where
  "stream_holds c a = (\<lambda>(res, w).
     (if sr_end res = StillOpen
      then \<exists>n. sr_provider res = Some n \<and> holds (c(n := c n + 1)) (admitted a n) w else holds c a w))"

lemma end_of_closed [simp]: "end_of res \<noteq> StillOpen"
  by (cases res) simp_all

lemma finish_closed: "sr_end (fst (finish_stream E S n q g fs out res w)) \<noteq> StillOpen"
  by (simp add: finish_stream_def Let_def case_prod_unfold)

lemma stream_loop_holds:
  assumes E: "polite E" and S: "polite_stream S"
  shows "holds c a w \<Longrightarrow> stream_holds c a (stream_loop E S k dl single cands failures lst w)"
proof (induction cands arbitrary: failures lst w)
  case Nil
  then show ?case by (simp add: stream_holds_def no_stream_def split: bool.split option.split)
next
  case (Cons cand rest)
  obtain n req where cand: "cand = (n, req)" by (cases cand)
  obtain ok w1 where en: "enter_breaker E n w = (ok, w1)" by (cases "enter_breaker E n w")
  note eh = enter_breaker_holds [OF Cons.prems en]
  have nn: "a m = Some j \<Longrightarrow> 0 \<le> j" for m j using holds_nonneg [OF Cons.prems] .
  note cn = probes_bound_nonneg [OF Cons.prems, of n]
  show ?case
  proof (cases ok)
    case False
    then show ?thesis using eh Cons.IH en by (simp add: cand)
  next
    case True
    have h1: "holds (c(n := c n + 1)) a w1" using eh True by simp
    obtain res w2 where op: "open_stream E S n req dl (attempts_for (wd_router w1) (rest = [])) w1 = (res, w2)"
      by (cases "open_stream E S n req dl (attempts_for (wd_router w1) (rest = [])) w1")
    note oh = open_stream_holds [OF E S h1 cn op]
    show ?thesis
    proof (cases res)
      case (Ret gf)
      obtain g first where gf: "gf = (g, first)" by (cases gf)
      define t where "t = timeout_for (wd_router w1) n"
      obtain out r w3 where d: "deliver_stream S n g first t k w2 = (out, r, w3)" by (metis prod_cases3)
      have h3: "holds (c(n := c n + 1)) (admitted a n) w3"
        using deliver_stream_holds [OF S, of _ _ w2 n g first t k] oh Ret d by (metis is_ret.simps(1) snd_conv)
      show ?thesis
      proof (cases r)
        case None
        then show ?thesis using en True op Ret gf d h3 by (simp add: cand stream_holds_def t_def)
      next
        case (Some r)
        have "holds c a (snd (finish_stream E S n req g failures out r w3))"
          by (rule finish_stream_holds [OF S h3 cn nn])
        then show ?thesis using en True op Ret gf d Some finish_closed [of E S n req g failures out r w3]
          by (simp add: cand stream_holds_def t_def case_prod_unfold)
      qed
    next
      case (Exc e)
      then have h2: "holds c a w2" using oh by simp
      then have "holds c a (count_failover b w2)" for b by (simp add: count_failover_def on_router_holds)
      then show ?thesis using Cons.IH h2 en True op Exc by (simp add: cand Let_def stream_holds_def no_stream_def)
    next
      case Cancel
      then show ?thesis using oh en True op by (simp add: cand stream_holds_def no_stream_def)
    qed
  qed
qed

text \<open>
  C2. Streaming never leaks a slot. The hypothesis is that every other activity during the awaits of the stream gives
  back what it takes (\<open>polite\<close>, \<open>polite_stream\<close>), relative to a baseline of active requests \<open>a\<close> and of bounds \<open>c\<close> on
  the half-open probes taken. Then a stream, however it ends (the provider finishes, fails or is silent for too
  long, the client leaves after any chunk, a task is cancelled at any await, every provider fails to
  open) and for any number of rounds, leaves exactly the active requests of the baseline and no probe above its
  bounds; while it is open it holds exactly one active request and at most one probe more, both at its provider (a
  stream on a closed breaker holds no probe).
\<close>

theorem stream_leaks_nothing:
  assumes "polite E" and "polite_stream S" and "holds c a w" and "stream E S k q preferred ds w = (res, w')"
  shows "if sr_end res = StillOpen
    then \<exists>n. sr_provider res = Some n \<and> holds (c(n := c n + 1)) (admitted a n) w' else holds c a w'"
proof -
  define w1 where "w1 = on_router (\<lambda>r. r\<lparr>ro_request_count := ro_request_count r + 1\<rparr>) w"
  have h1: "holds c a w1" using assms(3) by (simp add: w1_def on_router_holds)
  have p: "stream_holds c a (stream_planned E S k q' preferred ds pset w1)" for q' pset
  proof (cases "validate_conversation (rq_messages q')")
    case (Inl e)
    then show ?thesis using h1 by (simp add: stream_planned_def stream_holds_def no_stream_def)
  next
    case (Inr u)
    obtain r1 r where s: "screen (now_of E w1) pset (re_budget E w1) q' preferred (wd_router w1) = (r1, r)"
      by (cases "screen (now_of E w1) pset (re_budget E w1) q' preferred (wd_router w1)")
    have "holds c a (w1\<lparr>wd_router := r\<rparr>)" by (rule planned_holds [OF h1 screen_planned [OF s]])
    then show ?thesis using s Inr stream_loop_holds [OF assms(1,2)]
      by (cases r1) (simp_all add: stream_planned_def Let_def stream_holds_def no_stream_def)
  qed
  have "stream_holds c a (stream E S k q preferred ds w)"
    using p h1 unfolding stream_def w1_def [symmetric] Let_def
    by (cases preferred) (simp_all add: stream_holds_def no_stream_def)
  then show ?thesis using assms(4) by (simp add: stream_holds_def)
qed

text \<open>A provider that streams three chunks, and a client that leaves after the second.\<close>

definition three_chunks :: "nat \<Rightarrow> nat stream_env" where
  "three_chunks patience = \<lparr>sv_open = (\<lambda>n q w. (7, w\<lparr>wd_ext := 0\<rparr>)),
     sv_next = (\<lambda>g t w. (Ret (if wd_ext w < 3 then Some ''abcd'' else None), w\<lparr>wd_ext := Suc (wd_ext w)\<rparr>)),
     sv_close = (\<lambda>g w. (Ret (), w)),
     sv_yield = (\<lambda>x w. (if wd_ext w < patience then Ret () else Cancel, w)), sv_reports = (\<lambda>n w. [])\<rparr>"

lemma ext_holds [simp]: "holds c a (w\<lparr>wd_ext := x\<rparr>) = holds c a w"
  by (simp add: holds_def tables_ok_def probes_out_def active_of_def fun_eq_iff)

lemma three_chunks_polite: "polite_stream (three_chunks p)"
  by (simp add: polite_stream_def three_chunks_def)

definition still_env :: "nat renv" where
  "still_env = \<lparr>re_env = \<lparr>clk = (\<lambda>w. 1), wall = (\<lambda>w. 1), slp = (\<lambda>d w. (Ret (), w)), rnd = (\<lambda>w. (1 / 2, w))\<rparr>,
     re_complete = (\<lambda>n q t w. (Cancel, w)), re_embed = (\<lambda>n t w. (Cancel, w)),
     re_slot = (\<lambda>n w t L. (Ret True, 1, L)), re_wait = (\<lambda>n w t L. (Ret (), 1, L)),
     re_pass = (\<lambda>t w. w), re_policies = (\<lambda>w. None), re_budget = (\<lambda>w. None), re_digest = (\<lambda>m x. ''d'')\<rparr>"

lemma still_env_polite: "polite still_env"
  by (simp add: polite_def still_env_def)

definition stream_world :: "nat world" where
  "stream_world = \<lparr>wd_router = two_providers, wd_ext = 0\<rparr>"

lemma stream_world_holds: "holds (\<lambda>n. 0) (\<lambda>n. None) stream_world"
  using two_world_holds
  by (simp add: holds_def tables_ok_def probes_out_def active_of_def two_world_def stream_world_def fun_eq_iff)

theorem stream_leaks_nothing_witness:
  "case stream still_env (three_chunks 2) 9 plain_request None None stream_world of
     (res, w') \<Rightarrow> if sr_end res = StillOpen
       then \<exists>n. sr_provider res = Some n \<and> holds ((\<lambda>n. 0)(n := 1)) (admitted (\<lambda>n. None) n) w' else holds (\<lambda>n. 0) (\<lambda>n. None) w'"
  using stream_leaks_nothing [OF still_env_polite three_chunks_polite stream_world_holds]
  by (cases "stream still_env (three_chunks 2) 9 plain_request None None stream_world") fastforce

section \<open>One provider per stream\<close>

text \<open>
  What one opened generator hands to the client, read off the environment alone: starting from the item it has
  produced, each chunk is yielded before the next one is asked for, until the generator ends, fails or is
  cancelled, the client leaves, or (\<open>None\<close>) the stream is still open. \<open>t\<close> is the patience with a silent provider.
\<close>

inductive handed ::
  "'x stream_env \<Rightarrow> string \<Rightarrow> nat \<Rightarrow> real \<Rightarrow> string option \<Rightarrow> 'x world \<Rightarrow> string list \<Rightarrow> unit outcome option \<Rightarrow> 'x world \<Rightarrow> bool"
  for S n g t where
  handed_end: "handed S n g t None w [] (Some (Ret ())) w"
| handed_left: "sv_yield S x w = (r, w1) \<Longrightarrow> \<not> is_ret r \<Longrightarrow> handed S n g t (Some x) w [x] (Some r) w1"
| handed_open: "sv_yield S x w = (Ret u, w1) \<Longrightarrow> handed S n g t (Some x) w [x] None w1"
| handed_failed: "sv_yield S x w = (Ret u, w1) \<Longrightarrow> sv_next S g t w1 = (Exc e, w2) \<Longrightarrow>
    handed S n g t (Some x) w [x] (Some (Exc (if is_timeout e then ProviderTimeout n t else e))) w2"
| handed_cancelled: "sv_yield S x w = (Ret u, w1) \<Longrightarrow> sv_next S g t w1 = (Cancel, w2) \<Longrightarrow>
    handed S n g t (Some x) w [x] (Some Cancel) w2"
| handed_next: "sv_yield S x w = (Ret u, w1) \<Longrightarrow> sv_next S g t w1 = (Ret item, w2) \<Longrightarrow>
    handed S n g t item w2 xs e w3 \<Longrightarrow> handed S n g t (Some x) w (x # xs) e w3"

lemma pass_chunks_handed:
  "pass_chunks S n g t k out w1 = (out', e, w3) \<Longrightarrow> sv_yield S x w = (Ret u, w1) \<Longrightarrow>
   \<exists>xs. out' = out @ xs \<and> handed S n g t (Some x) w (x # xs) e w3"
proof (induction k arbitrary: out x w w1 u)
  case 0
  then show ?case by (auto intro: handed_open)
next
  case (Suc k)
  obtain r w2 where nx: "sv_next S g t w1 = (r, w2)" by (cases "sv_next S g t w1")
  show ?case
  proof (cases r)
    case (Ret item)
    show ?thesis
    proof (cases item)
      case None
      have "handed S n g t (Some x) w [x] (Some (Ret ())) w2"
        by (rule handed_next [OF Suc.prems(2) _ handed_end]) (simp add: nx Ret None)
      then show ?thesis using Suc.prems(1) nx Ret None by simp
    next
      case (Some y)
      obtain r2 w4 where y: "sv_yield S y w2 = (r2, w4)" by (cases "sv_yield S y w2")
      note step = handed_next [OF Suc.prems(2) nx [unfolded Ret Some]]
      show ?thesis
      proof (cases r2)
        case (Ret u2)
        then have "pass_chunks S n g t k (out @ [y]) w4 = (out', e, w3)"
          using Suc.prems(1) nx \<open>r = Ret item\<close> Some y by simp
        from Suc.IH [OF this y [unfolded Ret]] step show ?thesis by fastforce
      qed (use Suc.prems(1) nx \<open>r = Ret item\<close> Some y step handed_left [OF y] in auto)
    qed
  next
    case (Exc ex)
    then show ?thesis using Suc.prems(1) nx handed_failed [OF Suc.prems(2) nx [unfolded Exc]] by auto
  next
    case Cancel
    then show ?thesis using Suc.prems(1) nx handed_cancelled [OF Suc.prems(2) nx [unfolded Cancel]] by auto
  qed
qed

lemma deliver_stream_handed:
  assumes "deliver_stream S n g first t k w = (out, e, w3)"
  shows "handed S n g t first w out e w3"
proof (cases first)
  case None
  then show ?thesis using assms by (auto simp: deliver_stream_def intro: handed_end)
next
  case (Some x)
  obtain r w1 where y: "sv_yield S x w = (r, w1)" by (cases "sv_yield S x w")
  show ?thesis
  proof (cases r)
    case (Ret u)
    then have "pass_chunks S n g t k [x] w1 = (out, e, w3)" using assms Some y by (simp add: deliver_stream_def)
    from pass_chunks_handed [OF this y [unfolded Ret]] Some show ?thesis by auto
  qed (use assms Some y handed_left [OF y] in \<open>auto simp: deliver_stream_def\<close>)
qed

text \<open>What a retried call returns, one of its calls returned.\<close>

lemma retry_loop_ret:
  "retry_loop E P dl on_retry func n w = (Ret x, w1) \<Longrightarrow> \<exists>w0. func w0 = (Ret x, w1)"
proof (induction n w rule: attempt_induct [where k = "rp_max_attempts P"])
  case (1 n w)
  obtain r w2 where f: "func w = (r, w2)" by (cases "func w")
  show ?case
  proof (cases r)
    case (Exc e)
    note f = f [unfolded Exc]
    obtain wt w3 where wt: "compute_wait E P n (classify (wall E w2) e) w2 = (wt, w3)"
      by (cases "compute_wait E P n (classify (wall E w2) e) w2")
    show ?thesis
    proof (cases "goes_on E P dl n e w2 (wt, w3)")
      case False
      from retry_loop_stop [where on_retry = on_retry and func = func and w = w, OF f wt this] "1.prems" show ?thesis by auto
    next
      case go: True
      then obtain d where d: "wt = Some d" by (auto simp: goes_on_def)
      note wt = wt [unfolded d] and go = go [unfolded d]
      define w4 where "w4 = (case on_retry of None \<Rightarrow> w3 | Some f \<Rightarrow> f n e (classify (wall E w2) e) d w3)"
      obtain s w5 where s: "slp E d w4 = (s, w5)" by (cases "slp E d w4")
      have n: "n < rp_max_attempts P" using go by (simp add: goes_on_def)
      show ?thesis
        using "1.IH" [OF n] "1.prems" unfolding retry_loop_go [where func = func and w = w, OF f wt go w4_def s]
        by (cases s) auto
    qed
  qed (use "1.prems" f in \<open>auto simp: retry_loop_done\<close>)
qed

lemma retry_execute_ret:
  "retry_execute E upd cfg dl attempts func w = (Ret x, w1) \<Longrightarrow> \<exists>w0. func w0 = (Ret x, w1)"
  unfolding retry_execute_def run_with_retry_def Let_def
  by (auto split: prod.splits outcome.splits dest!: retry_loop_ret)

lemma open_stream_ret:
  assumes "open_stream E S n q dl attempts w = (Ret (g, first), w2)"
  obtains v v1 u where "sv_open S n q v = (g, v1)" "sv_next S g u v1 = (Ret first, w2)"
proof -
  have "\<exists>w1. try_open E S n q dl attempts (timeout_for (wd_router w) n) w1 = (Ret (g, first), w2)"
    using assms by (auto simp: open_stream_def Let_def split: prod.splits outcome.splits sum.splits)
  then obtain w0 where "open_attempt E S n q dl (timeout_for (wd_router w) n) w0 = (Ret (g, first), w2)"
    by (auto simp: try_open_def split: option.splits if_splits dest: retry_execute_ret)
  then have "\<exists>v v1 u. sv_open S n q v = (g, v1) \<and> sv_next S g u v1 = (Ret first, w2)"
    by (fastforce simp: open_attempt_def Let_def split: prod.splits outcome.splits if_splits bool.splits)
  then show thesis using that by blast
qed

text \<open>
  The output of a stream is that of one candidate: its provider was opened with its request, produced a first
  item, and all chunks are what this one generator handed out from then on, until the stated end (a client that
  leaves while the generator is closed counts as gone).
\<close>

definition delivered_by :: "'x stream_env \<Rightarrow> string \<Rightarrow> request \<Rightarrow> stream_result \<Rightarrow> bool" where
  "delivered_by S n q res \<longleftrightarrow>
     (\<exists>g v v1 u first w1 t e w2. sv_open S n q v = (g, v1) \<and> sv_next S g u v1 = (Ret first, w1)
        \<and> handed S n g t first w1 (sr_chunks res) e w2
        \<and> (case e of None \<Rightarrow> sr_end res = StillOpen | Some r \<Rightarrow> sr_end res \<in> {end_of r, ClientGone}))"

text \<open>
  What a stream shows: nothing, or the output of one candidate after all candidates before it have failed without
  any output.
\<close>

definition one_provider :: "'x stream_env \<Rightarrow> (string \<times> request) list \<Rightarrow> (string \<times> error_kind) list \<Rightarrow> stream_result \<Rightarrow> bool" where
  "one_provider S cands failures res \<longleftrightarrow>
     (case sr_provider res of
        None \<Rightarrow> sr_chunks res = [] \<and> sr_usage res = None \<and> sr_end res \<noteq> Finished \<and> sr_end res \<noteq> StillOpen
          \<and> (\<forall>fs ra. sr_end res = NoProvider fs ra \<longrightarrow> (\<exists>more. fs = failures @ more \<and> failed_over more cands))
      | Some n \<Rightarrow> (\<forall>fs ra. sr_end res \<noteq> NoProvider fs ra)
          \<and> (\<exists>pre req post more. cands = pre @ (n, req) # post \<and> sr_failures res = failures @ more
               \<and> failed_over more pre \<and> delivered_by S n req res))"

lemma one_provider_step:
  assumes "one_provider S rest (failures @ [(n, k)]) res" "k \<in> FAILOVER"
  shows "one_provider S ((n, req) # rest) failures res"
proof (cases "sr_provider res")
  case None
  then show ?thesis using assms unfolding one_provider_def failed_over_def by auto
next
  case (Some m)
  then obtain pre req' post more where "rest = pre @ (m, req') # post" "sr_failures res = (failures @ [(n, k)]) @ more" "failed_over more pre"
    and d: "delivered_by S m req' res"
    and e: "\<forall>fs ra. sr_end res \<noteq> NoProvider fs ra" using assms(1) unfolding one_provider_def by auto
  then have "(n, req) # rest = ((n, req) # pre) @ (m, req') # post" "sr_failures res = failures @ ((n, k) # more)"
    "failed_over ((n, k) # more) ((n, req) # pre)" using assms(2) by (simp_all add: failed_over_def)
  then have "\<exists>pre req' post more. (n, req) # rest = pre @ (m, req') # post \<and> sr_failures res = failures @ more
      \<and> failed_over more pre \<and> delivered_by S m req' res"
    using d by blast
  then show ?thesis using Some e by (simp add: one_provider_def)
qed

lemma end_of_provider [simp]: "end_of res \<noteq> NoProvider fs ra"
  by (cases res) simp_all

lemma finish_fields:
  "sr_provider (fst (finish_stream E S n q g fs out res w)) = Some n" "sr_failures (fst (finish_stream E S n q g fs out res w)) = fs"
  "sr_chunks (fst (finish_stream E S n q g fs out res w)) = out" "sr_end (fst (finish_stream E S n q g fs out res w)) \<noteq> NoProvider f ra"
  "sr_end (fst (finish_stream E S n q g fs out res w)) \<in> {end_of res, ClientGone}"
  by (simp_all add: finish_stream_def Let_def case_prod_unfold)

lemma here_one_provider:
  "sr_provider res = Some n \<Longrightarrow> sr_failures res = failures \<Longrightarrow> (\<And>fs ra. sr_end res \<noteq> NoProvider fs ra) \<Longrightarrow>
   delivered_by S n req res \<Longrightarrow> one_provider S ((n, req) # rest) failures res"
  unfolding one_provider_def by (auto simp: failed_over_def intro!: exI [of _ "[]"])

lemma none_one_provider: "\<forall>fs ra. e \<noteq> NoProvider fs ra \<Longrightarrow> e \<noteq> Finished \<Longrightarrow> e \<noteq> StillOpen \<Longrightarrow> one_provider S cands failures (no_stream f e)"
  by (simp add: one_provider_def no_stream_def)

lemma stream_loop_one_provider:
  "one_provider S cands failures (fst (stream_loop E S k dl single cands failures lst w))"
proof (induction cands arbitrary: failures lst w)
  case Nil
  then show ?case by (simp add: one_provider_def no_stream_def failed_over_def split: bool.split option.split)
next
  case (Cons cand rest)
  obtain n req where cand: "cand = (n, req)" by (cases cand)
  obtain ok w1 where en: "enter_breaker E n w = (ok, w1)" by (cases "enter_breaker E n w")
  show ?case
  proof (cases ok)
    case False
    then show ?thesis using one_provider_step [where n = n and k = CIRCUIT_OPEN, OF Cons.IH] en by (simp add: cand FAILOVER_def)
  next
    case True
    obtain res w2 where op: "open_stream E S n req dl (attempts_for (wd_router w1) (rest = [])) w1 = (res, w2)"
      by (cases "open_stream E S n req dl (attempts_for (wd_router w1) (rest = [])) w1")
    show ?thesis
    proof (cases res)
      case (Ret gf)
      obtain g first where gf: "gf = (g, first)" by (cases gf)
      define t where "t = timeout_for (wd_router w1) n"
      obtain out r w3 where d: "deliver_stream S n g first t k w2 = (out, r, w3)" by (metis prod_cases3)
      have by_this: "delivered_by S n req x"
        if "sr_chunks x = out" "case r of None \<Rightarrow> sr_end x = StillOpen | Some r \<Rightarrow> sr_end x \<in> {end_of r, ClientGone}" for x
        using open_stream_ret [OF op [unfolded Ret gf]] deliver_stream_handed [OF d] that
        unfolding delivered_by_def by metis
      show ?thesis
      proof (cases r)
        case None
        then show ?thesis using en True op Ret gf d
          by (simp add: cand t_def [symmetric]) (rule here_one_provider, simp_all add: by_this)
      next
        case (Some x)
        have "delivered_by S n req (fst (finish_stream E S n req g failures out x w3))"
          by (rule by_this, simp add: finish_fields(3))
            (use finish_fields(5) [of E S n req g failures out x w3] Some in simp)
        then show ?thesis using en True op Ret gf d Some
          by (simp add: cand t_def [symmetric] here_one_provider finish_fields)
      qed
    next
      case (Exc e)
      define info where "info = classify (wall_of E w2) e"
      show ?thesis
      proof (cases "ei_kind info = DEADLINE \<or> \<not> (cf_enable_failover (ro_config (wd_router w2)) \<and> failover info)")
        case True': True
        then show ?thesis using en True op Exc by (simp add: cand info_def Let_def none_one_provider)
      next
        case False
        then have "ei_kind info \<in> FAILOVER" by (simp add: failover_def)
        from one_provider_step [OF Cons.IH this] show ?thesis
          using False en True op Exc by (simp add: cand info_def Let_def)
      qed
    next
      case Cancel
      then show ?thesis using en True op by (simp add: cand none_one_provider)
    qed
  qed
qed

text \<open>
  C8. A client never sees the output of two providers: all chunks of a stream are what a single generator of one
  candidate, opened with that candidate's request, handed out one after the other from its first item until the end the
  result states; every candidate before it failed to open for a reason that permits failover and is listed, and once a
  candidate has opened there is no failover any more. Without a provider nothing was delivered and nothing is
  accounted, and when all are reported unavailable, every candidate is listed.
\<close>

theorem stream_never_mixes_providers:
  assumes "stream_loop E S k dl single cands [] None w = (res, w')"
  shows "case sr_provider res of
      None \<Rightarrow> sr_chunks res = [] \<and> sr_usage res = None \<and> sr_end res \<noteq> Finished \<and> sr_end res \<noteq> StillOpen
        \<and> (\<forall>fs ra. sr_end res = NoProvider fs ra \<longrightarrow> failed_over fs cands)
    | Some n \<Rightarrow> (\<forall>fs ra. sr_end res \<noteq> NoProvider fs ra)
        \<and> (\<exists>pre req post. cands = pre @ (n, req) # post \<and> failed_over (sr_failures res) pre \<and> delivered_by S n req res)"
proof -
  have "one_provider S cands [] res" using stream_loop_one_provider [of S cands "[]" E k dl single None w] assms by simp
  then show ?thesis by (cases "sr_provider res") (auto simp: one_provider_def)
qed

definition stream_candidates :: "(string \<times> request) list" where
  "stream_candidates = [(''cloud'', plain_request), (''box'', plain_request)]"

definition open_circuit_world :: "nat world" where
  "open_circuit_world = \<lparr>wd_router = wd_router failover_world, wd_ext = 0\<rparr>"

lemma second_streams:
  "\<exists>res w'. stream_loop still_env (three_chunks 9) 5 None False stream_candidates [] None open_circuit_world = (res, w')
    \<and> sr_provider res = Some ''box'' \<and> sr_chunks res = [''abcd'', ''abcd'', ''abcd''] \<and> sr_failures res = [(''cloud'', CIRCUIT_OPEN)]
    \<and> sr_end res = Finished"
  by (simp add: stream_candidates_def open_circuit_world_def failover_world_def sample_defs still_env_def enter_breaker_def
      breaker_defs now_of_def wall_of_def on_breaker_def on_router_def open_stream_def open_attempt_def admit_call_def
      global_acquire_def get_limiter_def try_open_def timeout_for_def deadline_check_def deliver_stream_def three_chunks_def
      expired_def clamp_def remaining_def settle_def release_slot_def global_release_def od_map_at_def finish_stream_def
      close_stream_def eval_nat_numeral case_prod_unfold Let_def)

theorem stream_never_mixes_providers_witness:
  "\<exists>res w'. stream_loop still_env (three_chunks 9) 5 None False stream_candidates [] None open_circuit_world = (res, w')
    \<and> sr_chunks res = [''abcd'', ''abcd'', ''abcd'']
    \<and> (\<exists>pre req post. stream_candidates = pre @ (''box'', req) # post \<and> failed_over (sr_failures res) pre
         \<and> delivered_by (three_chunks 9) ''box'' req res)"
proof -
  obtain res w' where r: "stream_loop still_env (three_chunks 9) 5 None False stream_candidates [] None open_circuit_world = (res, w')"
    and f: "sr_provider res = Some ''box''" "sr_chunks res = [''abcd'', ''abcd'', ''abcd'']" using second_streams by blast
  from stream_never_mixes_providers [OF r] r f show ?thesis by auto
qed

text \<open>What is booked for a stream that delivered output: the tokens reported or estimated, once, at their price.\<close>

lemma stream_booked:
  assumes "od_get (ro_providers r) n = Some p" "out \<noteq> []" "settle_stream n q u out completed r = (v, r')"
  shows "su_provider v = n" "su_completed v = completed"
    "su_cost_usd v = pv_estimate_cost p (su_input_tokens v) (su_output_tokens v) (su_model v)"
    "su_reported u \<Longrightarrow> su_input_tokens v = su_input_tokens u \<and> su_output_tokens v = su_output_tokens u"
    "\<not> su_reported u \<Longrightarrow> su_estimated v \<and> 1 \<le> su_input_tokens v \<and> 1 \<le> su_output_tokens v"
    "od_get (ro_provider_stats r') n = map_option (\<lambda>s. s\<lparr>st_total_cost := st_total_cost s + su_cost_usd v\<rparr>) (od_get (ro_provider_stats r) n)"
  using assms by (auto simp: settle_stream_def Let_def estimate_usage_def record_usage_def split: if_splits prod.splits)

end
