(* ===== verification/Registry.thy ===== *)
theory Registry
  imports Policy
begin

text \<open>
  \<open>src/tools/registry.py\<close>: tools with a schema, a permission level, a timeout and a rate limit, and
  the checks every call goes through. Running a handler is an await on the world; JSON schema
  validation, JSON rendering and the texts of exceptions are parameters.
\<close>

section \<open>Tools\<close>

datatype permission = READ_ONLY | WRITE | DESTRUCTIVE

fun permission_value :: "permission \<Rightarrow> nat" where
  "permission_value READ_ONLY = 0"
| "permission_value WRITE = 1"
| "permission_value DESTRUCTIVE = 2"

lemma permission_value_inj [simp]: "permission_value a = permission_value b \<longleftrightarrow> a = b"
  by (cases a; cases b) auto

text \<open>\<open>IntEnum\<close>: permissions are ordered by their values.\<close>

instantiation permission :: linorder
begin

definition less_eq_permission :: "permission \<Rightarrow> permission \<Rightarrow> bool" where
  "less_eq_permission a b \<longleftrightarrow> permission_value a \<le> permission_value b"

definition less_permission :: "permission \<Rightarrow> permission \<Rightarrow> bool" where
  "less_permission a b \<longleftrightarrow> permission_value a < permission_value b"

instance
  by standard (auto simp: less_eq_permission_def less_permission_def)

end

record tool =
  tl_name :: string
  tl_description :: string
  tl_parameters :: pyval
  tl_version :: string
  tl_owner :: string
  tl_timeout_s :: real
  tl_permission :: permission
  tl_rate_per_minute :: int

text \<open>\<open>Tool.__post_init__\<close> on the timeout and the rate as given.\<close>

definition tool_new ::
  "string \<Rightarrow> string \<Rightarrow> pyval \<Rightarrow> string \<Rightarrow> string \<Rightarrow> pyval \<Rightarrow> permission \<Rightarrow> pyval \<Rightarrow> string + tool" where
  "tool_new name descr params version owner timeout perm rate =
     (case finite_positive timeout of
        None \<Rightarrow> Inl ''tool timeout_s must be a finite positive number''
      | Some t \<Rightarrow>
          (case rate of
             PInt n \<Rightarrow>
               (if n < 0 then Inl ''tool rate_per_minute must be a non-negative integer''
                else Inr \<lparr>tl_name = name, tl_description = descr, tl_parameters = params,
                  tl_version = version, tl_owner = owner, tl_timeout_s = t, tl_permission = perm,
                  tl_rate_per_minute = n\<rparr>)
           | _ \<Rightarrow> Inl ''tool rate_per_minute must be a non-negative integer''))"

definition openai_spec :: "tool \<Rightarrow> pyval" where
  "openai_spec t = PDict [(''type'', PStr ''function''), (''function'', PDict
     [(''name'', PStr (tl_name t)), (''description'', PStr (tl_description t)),
      (''parameters'', tl_parameters t)])]"

text \<open>
  \<open>ToolError\<close>, one constructor per place that raises it; \<open>HandlerError\<close> is one raised by a handler
  with its own code and message. \<open>error_code\<close> is the machine-readable \<open>code\<close>.
\<close>

datatype tool_error =
    UnknownTool string
  | NotAllowed string
  | PermissionDenied string permission
  | NotAnObject
  | InvalidArguments string
  | RateLimitCapacity
  | RateExceeded string int
  | ToolTimeout string real
  | HandlerError string string
  | ToolFailed string
  | ApprovalRequired string

fun error_code :: "tool_error \<Rightarrow> string" where
  "error_code (UnknownTool n) = ''unknown_tool''"
| "error_code (NotAllowed n) = ''not_allowed''"
| "error_code (PermissionDenied n p) = ''permission_denied''"
| "error_code NotAnObject = ''invalid_arguments''"
| "error_code (InvalidArguments m) = ''invalid_arguments''"
| "error_code RateLimitCapacity = ''rate_limit_capacity''"
| "error_code (RateExceeded n r) = ''rate_limited''"
| "error_code (ToolTimeout n t) = ''timeout''"
| "error_code (HandlerError c m) = c"
| "error_code (ToolFailed m) = ''tool_failed''"
| "error_code (ApprovalRequired n) = ''approval_required''"

record tool_result =
  tr_tool :: string
  tr_content :: string
  tr_duration_ms :: real
  tr_truncated :: bool

section \<open>The registry\<close>

datatype call_outcome = CallOk tool_result | CallErr tool_error | CallCancelled

text \<open>\<open>on_call\<close> is recorded as the list of audited calls: caller, tool, arguments and outcome.\<close>

record registry =
  rg_tools :: "(string, tool) odict"
  rg_hits :: "(string \<times> string, time list) odict"
  rg_has_on_call :: bool
  rg_calls :: "(string \<times> string \<times> pyval \<times> call_outcome) list"

definition MAX_OUTPUT_CHARS :: nat where "MAX_OUTPUT_CHARS = 20000"
definition MAX_RATE_LIMIT_KEYS :: nat where "MAX_RATE_LIMIT_KEYS = 10000"

definition valid_tool_name :: "string \<Rightarrow> bool" where
  "valid_tool_name n \<longleftrightarrow>
     (let core = filter (\<lambda>c. c \<noteq> CHR ''_'' \<and> c \<noteq> CHR ''-'') n in core \<noteq> [] \<and> list_all alnum core)"

definition register :: "(pyval \<Rightarrow> bool) \<Rightarrow> tool \<Rightarrow> bool \<Rightarrow> registry \<Rightarrow> string + registry" where
  "register check_schema t replace R =
     (if \<not> valid_tool_name (tl_name t) then Inl ''invalid tool name''
      else if \<not> check_schema (tl_parameters t) then Inl ''invalid schema''
      else if od_has (rg_tools R) (tl_name t) \<and> \<not> replace then Inl ''already registered''
      else Inr (R\<lparr>rg_tools := od_set (tl_name t) t (rg_tools R)\<rparr>))"

definition unregister :: "string \<Rightarrow> registry \<Rightarrow> registry" where
  "unregister n R = R\<lparr>rg_tools := od_pop n (rg_tools R)\<rparr>"

text \<open>\<open>set(allowed or [])\<close>; the star allows every tool.\<close>

definition allows :: "string list option \<Rightarrow> string \<Rightarrow> bool" where
  "allows allowed n \<longleftrightarrow>
     (case allowed of None \<Rightarrow> False | Some xs \<Rightarrow> ''*'' \<in> set xs \<or> n \<in> set xs)"

definition visible :: "string list option \<Rightarrow> registry \<Rightarrow> tool list" where
  "visible allowed R = map snd (filter (\<lambda>(n, t). allows allowed n) (sort_key fst (rg_tools R)))"

definition specs :: "string list option \<Rightarrow> registry \<Rightarrow> pyval list" where
  "specs allowed R = map openai_spec (visible allowed R)"

section \<open>The rate limit\<close>

definition stale :: "time \<Rightarrow> time list \<Rightarrow> bool" where
  "stale now h \<longleftrightarrow> h = [] \<or> now - last h \<ge> 60"

text \<open>A full table is swept once; without room for a new key the call is refused.\<close>

definition hits_with_room :: "time \<Rightarrow> string \<times> string \<Rightarrow> registry \<Rightarrow> (string \<times> string, time list) odict" where
  "hits_with_room now key R =
     (if \<not> od_has (rg_hits R) key \<and> length (rg_hits R) \<ge> MAX_RATE_LIMIT_KEYS
      then od_drop_where (\<lambda>_ h. stale now h) (rg_hits R) else rg_hits R)"

definition check_rate :: "tool \<Rightarrow> string \<Rightarrow> time \<Rightarrow> registry \<Rightarrow> tool_error option \<times> registry" where
  "check_rate t caller now R =
     (if tl_rate_per_minute t = 0 then (None, R)
      else (let key = (caller, tl_name t); table = hits_with_room now key R in
        if \<not> od_has (rg_hits R) key \<and> length table \<ge> MAX_RATE_LIMIT_KEYS
        then (Some RateLimitCapacity, R\<lparr>rg_hits := table\<rparr>)
        else (let hits = dropWhile (\<lambda>x. now - x \<ge> 60) (case od_get table key of None \<Rightarrow> [] | Some h \<Rightarrow> h) in
          if int (length hits) \<ge> tl_rate_per_minute t
          then (Some (RateExceeded (tl_name t) (tl_rate_per_minute t)), R\<lparr>rg_hits := od_set key hits table\<rparr>)
          else (None, R\<lparr>rg_hits := od_set key (hits @ [now]) table\<rparr>))))"

section \<open>Calls\<close>

text \<open>
  What awaiting a handler gives: a string, another value, \<open>asyncio.TimeoutError\<close>, a \<open>ToolError\<close>,
  another exception with its text, or cancellation.
\<close>

datatype handled =
    HText string | HValue pyval | HTimeout | HToolError tool_error | HFailed string | HCancelled

record 'x tool_world =
  tw_registry :: registry
  tw_ext :: 'x

record 'x tool_env =
  te_clock :: "'x tool_world \<Rightarrow> time"
  te_handler :: "tool \<Rightarrow> pyval \<Rightarrow> 'x tool_world \<Rightarrow> handled \<times> 'x tool_world"
  te_schema :: "pyval \<Rightarrow> pyval \<Rightarrow> string option"
  te_dumps :: "pyval \<Rightarrow> string"

text \<open>The checks of \<open>_call\<close> that read no clock, in their order.\<close>

definition screen_call ::
  "'x tool_env \<Rightarrow> string \<Rightarrow> pyval \<Rightarrow> string list option \<Rightarrow> bool \<Rightarrow> permission \<Rightarrow> registry \<Rightarrow>
     tool_error + tool" where
  "screen_call E name args allowed approved max_permission R =
     (case od_get (rg_tools R) name of
        None \<Rightarrow> Inl (UnknownTool name)
      | Some t \<Rightarrow>
          (if \<not> allows allowed name then Inl (NotAllowed name)
           else if tl_permission t > max_permission then Inl (PermissionDenied name (tl_permission t))
           else case args of
               PDict d \<Rightarrow>
                 (case te_schema E args (tl_parameters t) of
                    Some m \<Rightarrow> Inl (InvalidArguments m)
                  | None \<Rightarrow>
                      (if tl_permission t = DESTRUCTIVE \<and> \<not> approved then Inl (ApprovalRequired name)
                       else Inr t))
             | _ \<Rightarrow> Inl NotAnObject))"

definition tool_output :: "string \<Rightarrow> string \<Rightarrow> time \<Rightarrow> time \<Rightarrow> tool_result" where
  "tool_output name txt start now =
     (let truncated = length txt > MAX_OUTPUT_CHARS
      in \<lparr>tr_tool = name,
          tr_content = (if truncated then take MAX_OUTPUT_CHARS txt @ CHR 0x0A # ''[output truncated]'' else txt),
          tr_duration_ms = (now - start) * 1000, tr_truncated = truncated\<rparr>)"

definition run_handler ::
  "'x tool_env \<Rightarrow> tool \<Rightarrow> string \<Rightarrow> pyval \<Rightarrow> time \<Rightarrow> 'x tool_world \<Rightarrow> call_outcome \<times> 'x tool_world" where
  "run_handler E t name args start w =
     (case te_handler E t args w of
        (HTimeout, w) \<Rightarrow> (CallErr (ToolTimeout name (tl_timeout_s t)), w)
      | (HToolError e, w) \<Rightarrow> (CallErr e, w)
      | (HFailed m, w) \<Rightarrow> (CallErr (ToolFailed m), w)
      | (HCancelled, w) \<Rightarrow> (CallCancelled, w)
      | (HText s, w) \<Rightarrow> (CallOk (tool_output name s start (te_clock E w)), w)
      | (HValue v, w) \<Rightarrow> (CallOk (tool_output name (te_dumps E v) start (te_clock E w)), w))"

definition on_registry :: "(registry \<Rightarrow> registry) \<Rightarrow> 'x tool_world \<Rightarrow> 'x tool_world" where
  "on_registry f w = w\<lparr>tw_registry := f (tw_registry w)\<rparr>"

definition checked_call ::
  "'x tool_env \<Rightarrow> string \<Rightarrow> pyval \<Rightarrow> string list option \<Rightarrow> bool \<Rightarrow> permission \<Rightarrow> time \<Rightarrow> string \<Rightarrow>
     'x tool_world \<Rightarrow> call_outcome \<times> 'x tool_world" where
  "checked_call E name args allowed approved max_permission start caller w =
     (case screen_call E name args allowed approved max_permission (tw_registry w) of
        Inl e \<Rightarrow> (CallErr e, w)
      | Inr t \<Rightarrow>
          (case check_rate t caller (te_clock E w) (tw_registry w) of
             (Some e, R) \<Rightarrow> (CallErr e, on_registry (\<lambda>_. R) w)
           | (None, R) \<Rightarrow> run_handler E t name args start (on_registry (\<lambda>_. R) w)))"

text \<open>\<open>_audit\<close>: every call that ends with a result or an \<open>Exception\<close> is reported, also a refused one.\<close>

definition audit :: "string \<Rightarrow> string \<Rightarrow> pyval \<Rightarrow> call_outcome \<Rightarrow> registry \<Rightarrow> registry" where
  "audit caller name args out R =
     (if rg_has_on_call R \<and> out \<noteq> CallCancelled
      then R\<lparr>rg_calls := rg_calls R @ [(caller, name, args, out)]\<rparr> else R)"

definition call_tool ::
  "'x tool_env \<Rightarrow> string \<Rightarrow> pyval \<Rightarrow> string list option \<Rightarrow> string \<Rightarrow> bool \<Rightarrow> permission \<Rightarrow>
     'x tool_world \<Rightarrow> call_outcome \<times> 'x tool_world" where
  "call_tool E name args allowed caller approved max_permission w =
     (case checked_call E name args allowed approved max_permission (te_clock E w) caller w of
        (out, w) \<Rightarrow> (out, on_registry (audit caller name args out) w))"

section \<open>What a call needs\<close>

definition may_run ::
  "'x tool_env \<Rightarrow> string \<Rightarrow> pyval \<Rightarrow> string list option \<Rightarrow> bool \<Rightarrow> permission \<Rightarrow> registry \<Rightarrow> bool" where
  "may_run E name args allowed approved max_permission R \<longleftrightarrow>
     (\<exists>t d. od_get (rg_tools R) name = Some t \<and> allows allowed name \<and> tl_permission t \<le> max_permission
        \<and> args = PDict d \<and> te_schema E args (tl_parameters t) = None
        \<and> (tl_permission t = DESTRUCTIVE \<longrightarrow> approved))"

lemma screen_call_refuses:
  assumes "\<not> may_run E name args allowed approved max_permission R"
  shows "\<exists>e. screen_call E name args allowed approved max_permission R = Inl e
     \<and> error_code e \<in> {''unknown_tool'', ''not_allowed'', ''permission_denied'', ''invalid_arguments'', ''approval_required''}"
proof (cases "od_get (rg_tools R) name")
  case None
  then show ?thesis by (simp add: screen_call_def)
next
  case (Some t)
  then show ?thesis using assms
    by (cases args) (auto simp: screen_call_def may_run_def split: option.splits)
qed

lemma screen_call_admits:
  "may_run E name args allowed approved max_permission R \<Longrightarrow>
     \<exists>t. screen_call E name args allowed approved max_permission R = Inr t \<and> od_get (rg_tools R) name = Some t"
  by (auto simp: may_run_def screen_call_def not_less)

lemma check_rate_tools: "check_rate t caller now R = (res, R') \<Longrightarrow> rg_tools R' = rg_tools R"
  by (auto simp: check_rate_def Let_def split: if_splits)

text \<open>A call of the registry depends on the handler only where the checks let it through.\<close>

lemma call_tool_handler:
  assumes "\<And>t w'. od_get (rg_tools (tw_registry w)) name = Some t \<Longrightarrow> rg_tools (tw_registry w') = rg_tools (tw_registry w) \<Longrightarrow>
      tl_permission t = DESTRUCTIVE \<longrightarrow> approved \<Longrightarrow> h t args w' = te_handler X t args w'"
  shows "call_tool (X\<lparr>te_handler := h\<rparr>) name args allowed caller approved mp w
       = call_tool X name args allowed caller approved mp w"
proof -
  have sc: "screen_call (X\<lparr>te_handler := h\<rparr>) name args allowed approved mp R = screen_call X name args allowed approved mp R" for R
  proof -
    have sel: "te_schema (X\<lparr>te_handler := h\<rparr>) = te_schema X" by simp
    show ?thesis unfolding screen_call_def sel by (rule refl)
  qed
  have "checked_call (X\<lparr>te_handler := h\<rparr>) name args allowed approved mp start caller w
      = checked_call X name args allowed approved mp start caller w" for start
  proof (cases "screen_call X name args allowed approved mp (tw_registry w)")
    case (Inl e)
    then show ?thesis by (simp add: checked_call_def sc)
  next
    case (Inr t)
    then have t: "od_get (rg_tools (tw_registry w)) name = Some t" "tl_permission t = DESTRUCTIVE \<longrightarrow> approved"
      by (auto simp: screen_call_def split: option.splits if_splits pyval.splits)
    obtain res R where cr: "check_rate t caller (te_clock X w) (tw_registry w) = (res, R)" by fastforce
    have hq: "h t args (on_registry (\<lambda>_. R) w) = te_handler X t args (on_registry (\<lambda>_. R) w)"
      using assms [OF t(1) _ t(2)] check_rate_tools [OF cr] by (simp add: on_registry_def)
    have sel: "te_handler (X\<lparr>te_handler := h\<rparr>) = h" "te_clock (X\<lparr>te_handler := h\<rparr>) = te_clock X"
      "te_dumps (X\<lparr>te_handler := h\<rparr>) = te_dumps X" by simp_all
    have "run_handler (X\<lparr>te_handler := h\<rparr>) t name args start (on_registry (\<lambda>_. R) w)
        = run_handler X t name args start (on_registry (\<lambda>_. R) w)"
      unfolding run_handler_def sel hq by (rule refl)
    then show ?thesis by (simp add: checked_call_def sc Inr cr split: option.split)
  qed
  then show ?thesis by (simp add: call_tool_def)
qed

section \<open>Hits of one key\<close>

text \<open>What is stored for a key, and the part of a list of instants that is less than a minute old.\<close>

definition hits_of :: "string \<times> string \<Rightarrow> registry \<Rightarrow> time list" where
  "hits_of key R = (case od_get (rg_hits R) key of None \<Rightarrow> [] | Some h \<Rightarrow> h)"

abbreviation recent :: "time \<Rightarrow> time list \<Rightarrow> time list" where
  "recent now xs \<equiv> filter (\<lambda>x. now - x < 60) xs"

lemma recent_later: "now \<le> now' \<Longrightarrow> recent now' (recent now xs) = recent now' xs"
  by (induction xs) auto

lemma dropWhile_recent: "sorted h \<Longrightarrow> dropWhile (\<lambda>x. now - x \<ge> 60) h = recent now h"
proof (induction h)
  case Nil
  then show ?case by simp
next
  case (Cons x h)
  show ?case
  proof (cases "now - x \<ge> 60")
    case True
    then show ?thesis using Cons by simp
  next
    case False
    then have "\<forall>y\<in>set h. now - y < 60" using Cons.prems by fastforce
    then show ?thesis using False by simp
  qed
qed

lemma stale_not_recent: "sorted h \<Longrightarrow> stale now h \<Longrightarrow> recent now h = []"
proof (cases h rule: rev_cases)
  case (snoc ys y)
  assume "sorted h" "stale now h"
  then have "\<forall>x\<in>set h. now - x \<ge> 60" using snoc by (fastforce simp: stale_def sorted_append)
  then show ?thesis by (auto simp: filter_empty_conv)
qed simp

definition table_sorted :: "registry \<Rightarrow> bool" where
  "table_sorted R \<longleftrightarrow> od_wf (rg_hits R) \<and> (\<forall>key. sorted (hits_of key R))"

definition kept :: "time \<Rightarrow> string \<times> string \<Rightarrow> registry \<Rightarrow> string \<times> string \<Rightarrow> time list" where
  "kept now key R k = (case od_get (hits_with_room now key R) k of None \<Rightarrow> [] | Some h \<Rightarrow> h)"

lemma sorted_hits: "table_sorted R \<Longrightarrow> sorted (hits_of k R)"
  unfolding table_sorted_def by blast

lemma kept_hits:
  assumes "table_sorted R"
  shows "kept now key R k = hits_of k R \<or> kept now key R k = [] \<and> recent now (hits_of k R) = []"
proof -
  have wf: "od_wf (rg_hits R)" and so: "sorted (hits_of k R)" using assms unfolding table_sorted_def by blast+
  have g: "od_get (od_drop_where (\<lambda>_ h. stale now h) (rg_hits R)) k
      = (case od_get (rg_hits R) k of None \<Rightarrow> None | Some h \<Rightarrow> if stale now h then None else Some h)"
    by (rule od_get_drop_where [OF wf])
  show ?thesis
  proof (cases "od_get (rg_hits R) k")
    case None
    then show ?thesis using g by (simp add: kept_def hits_with_room_def hits_of_def)
  next
    case (Some h)
    then have "stale now h \<Longrightarrow> recent now h = []" using so stale_not_recent by (simp add: hits_of_def)
    then show ?thesis using Some g by (simp add: kept_def hits_with_room_def hits_of_def)
  qed
qed

lemma room_wf: "table_sorted R \<Longrightarrow> od_wf (hits_with_room now key R)"
  unfolding hits_with_room_def table_sorted_def using od_wf_drop_where by (auto split: if_splits)

lemma hits_of_table: "hits_of k (R\<lparr>rg_hits := hits_with_room now key R\<rparr>) = kept now key R k"
  by (simp add: hits_of_def kept_def)

lemma hits_of_set: "hits_of k (R\<lparr>rg_hits := od_set key h (hits_with_room now key R)\<rparr>)
    = (if k = key then h else kept now key R k)"
  by (simp add: hits_of_def kept_def)

text \<open>One check, seen from a key: no recent hit of any key is lost, and an admitted call is added.\<close>

lemma check_rate_step:
  assumes R: "table_sorted R" and c: "check_rate t caller now R = (res, R')"
    and past: "\<forall>k. \<forall>x\<in>set (hits_of k R). x \<le> now"
  shows "table_sorted R'" "\<forall>x\<in>set (hits_of k R'). x \<le> now"
    "recent now (hits_of k R') = recent now (hits_of k R)
       @ (if k = (caller, tl_name t) \<and> res = None \<and> tl_rate_per_minute t \<noteq> 0 then [now] else [])"
    "res = None \<Longrightarrow> tl_rate_per_minute t \<noteq> 0 \<Longrightarrow>
         int (length (recent now (hits_of (caller, tl_name t) R))) < tl_rate_per_minute t"
proof -
  define key where "key = (caller, tl_name t)"
  define h where "h = dropWhile (\<lambda>x. now - x \<ge> 60) (kept now key R key)"
  have so: "sorted (kept now key R j)" "\<forall>x\<in>set (kept now key R j). x \<le> now"
    "recent now (kept now key R j) = recent now (hits_of j R)" for j
    using kept_hits [OF R, of now key j] sorted_hits [OF R, of j] spec [OF past, of j] by auto
  have h: "h = recent now (hits_of key R)" "sorted h" "\<forall>x\<in>set h. x \<le> now" "recent now h = h"
  proof -
    have e: "h = recent now (kept now key R key)" unfolding h_def by (rule dropWhile_recent [OF so(1)])
    then show "h = recent now (hits_of key R)" by (simp only: so(3))
    show "sorted h" "\<forall>x\<in>set h. x \<le> now" "recent now h = h"
      unfolding e using so(1,2) [of key] by (simp_all add: sorted_wrt_filter)
  qed
  have hn: "sorted (h @ [now])" "\<forall>x\<in>set (h @ [now]). x \<le> now" "recent now (h @ [now]) = h @ [now]"
    using h by (simp_all add: sorted_append)
  have wf: "od_wf (od_set key z (hits_with_room now key R))" for z using room_wf [OF R] by (rule od_wf_set)
  have ts: "table_sorted (R\<lparr>rg_hits := od_set key z (hits_with_room now key R)\<rparr>)" if "sorted z" for z
    using that wf so(1) by (simp add: table_sorted_def hits_of_set)
  have ts0: "table_sorted (R\<lparr>rg_hits := hits_with_room now key R\<rparr>)"
    using room_wf [OF R] so(1) by (simp add: table_sorted_def hits_of_table)
  consider (free) "tl_rate_per_minute t = 0" "res = None" "R' = R"
    | (full) "tl_rate_per_minute t \<noteq> 0" "res = Some RateLimitCapacity" "R' = R\<lparr>rg_hits := hits_with_room now key R\<rparr>"
    | (limit) e where "tl_rate_per_minute t \<noteq> 0" "res = Some e" "R' = R\<lparr>rg_hits := od_set key h (hits_with_room now key R)\<rparr>"
    | (ok) "tl_rate_per_minute t \<noteq> 0" "res = None" "int (length h) < tl_rate_per_minute t"
        "R' = R\<lparr>rg_hits := od_set key (h @ [now]) (hits_with_room now key R)\<rparr>"
    using c unfolding check_rate_def Let_def key_def [symmetric] kept_def [symmetric] h_def [symmetric]
    by (auto split: if_splits simp del: od_has_iff)
  then have "table_sorted R' \<and> (\<forall>x\<in>set (hits_of k R'). x \<le> now)
    \<and> recent now (hits_of k R') = recent now (hits_of k R)
       @ (if k = key \<and> res = None \<and> tl_rate_per_minute t \<noteq> 0 then [now] else [])
    \<and> (res = None \<longrightarrow> tl_rate_per_minute t \<noteq> 0 \<longrightarrow>
         int (length (recent now (hits_of key R))) < tl_rate_per_minute t)"
  proof cases
    case free
    then show ?thesis using R spec [OF past, of k] by simp
  next
    case full
    then show ?thesis using ts0 so(2,3) [of k] by (simp add: hits_of_table)
  next
    case limit
    show ?thesis using limit(2) ts [OF h(2)] so(2,3) [of k] h
      unfolding limit(3) hits_of_set by (cases "k = key") simp_all
  next
    case ok
    show ?thesis using ok(1-3) ts [OF hn(1)] so(2,3) [of k] h hn
      unfolding ok(4) hits_of_set by (cases "k = key") simp_all
  qed
  then show "table_sorted R'" "\<forall>x\<in>set (hits_of k R'). x \<le> now"
    "recent now (hits_of k R') = recent now (hits_of k R)
       @ (if k = (caller, tl_name t) \<and> res = None \<and> tl_rate_per_minute t \<noteq> 0 then [now] else [])"
    "res = None \<Longrightarrow> tl_rate_per_minute t \<noteq> 0 \<Longrightarrow>
         int (length (recent now (hits_of (caller, tl_name t) R))) < tl_rate_per_minute t"
    unfolding key_def by blast+
qed

section \<open>The limit over a run\<close>

text \<open>The admitted calls of a run of checks, as instant, caller and tool.\<close>

fun admitted_calls :: "(time \<times> string \<times> tool) list \<Rightarrow> registry \<Rightarrow> (time \<times> string \<times> string) list" where
  "admitted_calls [] R = []"
| "admitted_calls ((now, caller, t) # reqs) R =
     (case check_rate t caller now R of
        (None, R) \<Rightarrow> (now, caller, tl_name t) # admitted_calls reqs R
      | (Some _, R) \<Rightarrow> admitted_calls reqs R)"

definition times_of :: "string \<times> string \<Rightarrow> (time \<times> string \<times> string) list \<Rightarrow> time list" where
  "times_of key evs = map fst (filter (\<lambda>e. snd e = key) evs)"

definition in_minute :: "time \<Rightarrow> time list \<Rightarrow> int" where
  "in_minute T xs = int (length (filter (\<lambda>s. T - 60 < s \<and> s \<le> T) xs))"

lemma in_minute_snoc:
  assumes "\<forall>x\<in>set a. x \<le> now" "int (length (recent now a)) < r" "in_minute T a \<le> r"
  shows "in_minute T (a @ [now]) \<le> r"
proof (cases "now \<le> T")
  case True
  have "filter (\<lambda>s. T - 60 < s \<and> s \<le> T) a = filter (\<lambda>s. T - 60 < s \<and> s \<le> T) (recent now a)"
    using True assms(1) by (auto intro!: filter_cong)
  then have "length (filter (\<lambda>s. T - 60 < s \<and> s \<le> T) a) \<le> length (recent now a)"
    by (metis length_filter_le)
  then show ?thesis using assms(2) by (simp add: in_minute_def)
next
  case False
  then show ?thesis using assms(3) by (simp add: in_minute_def)
qed

lemma admitted_bound:
  assumes "table_sorted R" "\<forall>k. \<forall>x\<in>set (hits_of k R). x \<le> now0" "\<forall>x\<in>set a. x \<le> now0"
    and "recent now0 (hits_of (caller, n) R) = recent now0 a" "\<forall>T. in_minute T a \<le> r"
    and "sorted (now0 # map fst reqs)" "list_all (\<lambda>(_, _, t). tl_name t = n \<longrightarrow> tl_rate_per_minute t = r) reqs" "0 < r"
  shows "in_minute T (a @ times_of (caller, n) (admitted_calls reqs R)) \<le> r"
  using assms
proof (induction reqs arbitrary: R now0 a)
  case Nil
  then show ?case by (simp add: times_of_def)
next
  case (Cons req reqs)
  obtain now c t where req: "req = (now, c, t)" by (cases req)
  obtain res R' where cr: "check_rate t c now R = (res, R')" by (cases "check_rate t c now R")
  have le: "now0 \<le> now" and so: "sorted (now # map fst reqs)" using Cons.prems(6) by (auto simp: req)
  have past: "\<forall>k. \<forall>x\<in>set (hits_of k R). x \<le> now" "\<forall>x\<in>set a. x \<le> now"
    using Cons.prems(2,3) le by fastforce+
  note st = check_rate_step [OF Cons.prems(1) cr past(1)]
  define new where "new = (if (caller, n) = (c, tl_name t) \<and> res = None then [now] else [])"
  have rate: "tl_name t = n \<Longrightarrow> tl_rate_per_minute t = r" using Cons.prems(7) by (simp add: req)
  have "recent now (hits_of (caller, n) R) = recent now (recent now0 (hits_of (caller, n) R))"
    using recent_later [OF le] by simp
  also have "\<dots> = recent now a" unfolding Cons.prems(4) by (rule recent_later [OF le])
  finally have ra: "recent now (hits_of (caller, n) R) = recent now a" .
  have rec: "recent now (hits_of (caller, n) R') = recent now (a @ new)"
    using st(3) [of "(caller, n)"] ra rate Cons.prems(8) by (auto simp: new_def)
  have win: "\<forall>T. in_minute T (a @ new) \<le> r"
  proof (cases "(caller, n) = (c, tl_name t) \<and> res = None")
    case True
    then have "int (length (recent now a)) < r" using st(4) ra rate Cons.prems(8) by auto
    then show ?thesis using True in_minute_snoc [OF past(2)] Cons.prems(5) by (simp add: new_def)
  qed (use Cons.prems(5) in \<open>auto simp: new_def\<close>)
  have "in_minute T ((a @ new) @ times_of (caller, n) (admitted_calls reqs R')) \<le> r"
  proof (rule Cons.IH [OF st(1) _ _ rec win so])
    show "\<forall>k. \<forall>x\<in>set (hits_of k R'). x \<le> now" using st(2) by blast
    show "\<forall>x\<in>set (a @ new). x \<le> now" using past(2) by (auto simp: new_def)
  qed (use Cons.prems(7,8) in simp_all)
  then show ?case using cr by (cases res) (auto simp: req times_of_def new_def)
qed

section \<open>Properties\<close>

text \<open>
  C30. A call without the right to run does nothing: unless the tool is registered, on the caller's
  allow list (no list means no tool), within the caller's permission level, given an object that
  matches its schema and, when it is destructive, approved, the call ends in one of the five
  refusals, and all that changes in the world is one entry of the audit log.
\<close>

theorem refused_call_does_nothing:
  assumes "\<not> may_run E name args allowed approved max_permission (tw_registry w)"
  shows "\<exists>e. call_tool E name args allowed caller approved max_permission w
        = (CallErr e, on_registry (audit caller name args (CallErr e)) w)
      \<and> error_code e \<in> {''unknown_tool'', ''not_allowed'', ''permission_denied'', ''invalid_arguments'',
           ''approval_required''}"
  using screen_call_refuses [OF assms] by (auto simp: call_tool_def checked_call_def)

definition drop_table :: tool where
  "drop_table = \<lparr>tl_name = ''drop'', tl_description = [], tl_parameters = PNone, tl_version = ''1'',
     tl_owner = ''ops'', tl_timeout_s = 30, tl_permission = DESTRUCTIVE, tl_rate_per_minute = 2\<rparr>"

definition one_tool :: registry where
  "one_tool = \<lparr>rg_tools = [(''drop'', drop_table)], rg_hits = [], rg_has_on_call = True, rg_calls = []\<rparr>"

definition tool_env0 :: "int tool_env" where
  "tool_env0 = \<lparr>te_clock = (\<lambda>w. 0), te_handler = (\<lambda>t a w. (HText ''done'', w\<lparr>tw_ext := tw_ext w + 1\<rparr>)),
     te_schema = (\<lambda>a s. None), te_dumps = (\<lambda>v. [])\<rparr>"

theorem refused_call_does_nothing_witness:
  "\<exists>e. call_tool tool_env0 ''drop'' (PDict []) (Some [''*'']) ''bot'' False DESTRUCTIVE
       \<lparr>tw_registry = one_tool, tw_ext = 0\<rparr>
     = (CallErr e, \<lparr>tw_registry = one_tool\<lparr>rg_calls := [(''bot'', ''drop'', PDict [], CallErr e)]\<rparr>, tw_ext = 0\<rparr>)"
  using refused_call_does_nothing [of tool_env0 "''drop''" "PDict []" "Some [''*'']" False DESTRUCTIVE
      "\<lparr>tw_registry = one_tool, tw_ext = 0\<rparr>" "''bot''"]
  by (auto simp: may_run_def one_tool_def drop_table_def audit_def on_registry_def)

text \<open>
  C31. The rate limit of a tool holds in every window: whatever callers and tools are checked in
  between, however full the table gets and whatever it evicts, in any sixty seconds no caller is
  admitted to a limited tool more often than its rate per minute.
\<close>

theorem tool_rate_bound:
  assumes "rg_hits R = []" "sorted (map fst reqs)" "0 < r"
    and "list_all (\<lambda>(_, _, t). tl_name t = n \<longrightarrow> tl_rate_per_minute t = r) reqs"
  shows "in_minute T (times_of (caller, n) (admitted_calls reqs R)) \<le> r"
proof (cases reqs)
  case Nil
  then show ?thesis using assms(3) by (simp add: times_of_def in_minute_def)
next
  case (Cons q qs)
  have "in_minute T ([] @ times_of (caller, n) (admitted_calls reqs R)) \<le> r"
    by (rule admitted_bound [where ?now0.0 = "fst q"])
      (use assms Cons in \<open>simp_all add: table_sorted_def hits_of_def in_minute_def\<close>)
  then show ?thesis by simp
qed

theorem tool_rate_bound_witness:
  "in_minute 70 (times_of (''bot'', ''drop'')
     (admitted_calls [(0, ''bot'', drop_table), (1, ''bot'', drop_table), (2, ''bot'', drop_table),
        (61, ''bot'', drop_table)] one_tool)) \<le> 2"
  by (rule tool_rate_bound) (simp_all add: one_tool_def drop_table_def)

end
