(* ===== verification/Context.thy ===== *)
theory Context
  imports Messages Async
begin

text \<open>
  \<open>src/harness/context.py\<close> with the token estimate of \<open>src/utils/tokens.py\<close>: keeping a conversation
  inside the context window without separating a tool result from the message that called for it.
\<close>

section \<open>Counting\<close>

text \<open>\<open>estimate_tokens\<close> for the default provider, four characters to a token.\<close>

definition text_tokens :: "string \<Rightarrow> nat" where
  "text_tokens s = (if s = [] then 0 else max 1 (length s div 4))"

definition call_tokens :: "tool_call \<Rightarrow> nat" where
  "call_tokens c = text_tokens (case tc_arguments c of None \<Rightarrow> [] | Some a \<Rightarrow> a) + 8"

definition message_tokens :: "message \<Rightarrow> nat" where
  "message_tokens m = text_tokens (ms_content m) + 4 + sum_list (map call_tokens (ms_tool_calls m))"

definition count_tokens :: "message list \<Rightarrow> string \<Rightarrow> nat" where
  "count_tokens ms system = text_tokens system + sum_list (map message_tokens ms)"

section \<open>Turns\<close>

definition is_tool :: "message \<Rightarrow> bool" where
  "is_tool m \<longleftrightarrow> ms_role m = ''tool''"

text \<open>The loop of \<open>_turns\<close>: a tool message joins the last turn, any other message opens one.\<close>

definition add_to_turns :: "message \<Rightarrow> message list list \<Rightarrow> message list list" where
  "add_to_turns m ts = (if is_tool m \<and> ts \<noteq> [] then butlast ts @ [last ts @ [m]] else ts @ [[m]])"

definition turns :: "message list \<Rightarrow> message list list" where
  "turns ms = fold add_to_turns ms []"

section \<open>Compaction\<close>

definition OLD_TOOL_OUTPUT_CHARS :: nat where "OLD_TOOL_OUTPUT_CHARS = 300"

definition SUMMARY_PREFIX :: string where "SUMMARY_PREFIX = ''[Earlier steps, condensed] ''"

text \<open>The ellipsis is one character in the code too; here it is that of code page 1252.\<close>

definition TRUNCATED :: string where "TRUNCATED = CHR 0x20 # CHR 0x85 # ''[truncated]''"

definition shrink :: "message \<Rightarrow> message" where
  "shrink m = (if is_tool m \<and> length (ms_content m) > OLD_TOOL_OUTPUT_CHARS
     then m\<lparr>ms_content := take OLD_TOOL_OUTPUT_CHARS (ms_content m) @ TRUNCATED\<rparr> else m)"

definition shrink_old :: "nat \<Rightarrow> message list \<Rightarrow> message list" where
  "shrink_old keep rest =
     (let cut = length rest - keep in map shrink (take cut rest) @ drop cut rest)"

text \<open>\<open>dict.fromkeys\<close> keeps the first of equal names.\<close>

definition first_names :: "string list \<Rightarrow> string list" where
  "first_names xs = rev (remdups (rev xs))"

definition digest :: "message list \<Rightarrow> string" where
  "digest dropped =
     (let tools = map tc_name (concat (map ms_tool_calls dropped))
      in SUMMARY_PREFIX @ intercalate ''; '' ((show_nat (length dropped) @ '' messages removed'') #
           (if tools = [] then [] else [''tools used: '' @ intercalate '', '' (first_names tools)])) @ ''.'')"

definition user_note :: "string \<Rightarrow> message" where
  "user_note s = \<lparr>ms_role = ''user'', ms_content = s, ms_tool_calls = [], ms_tool_call_id = None, ms_images = []\<rparr>"

text \<open>\<open>_over\<close>: whether the turns are too long, with a placeholder for the note.\<close>

definition too_long :: "message list \<Rightarrow> string \<Rightarrow> nat \<Rightarrow> message list list \<Rightarrow> bool" where
  "too_long pinned system max_tokens ts \<longleftrightarrow>
     count_tokens (pinned @ [user_note (SUMMARY_PREFIX @ replicate 80 (CHR ''x''))] @ concat ts) system > max_tokens"

text \<open>The loop that drops whole turns from the front: the dropped messages and the turns that stay.\<close>

fun drop_turns :: "(message list list \<Rightarrow> bool) \<Rightarrow> nat \<Rightarrow> message list list \<Rightarrow> message list \<times> message list list" where
  "drop_turns over keep [] = ([], [])"
| "drop_turns over keep (t # ts) =
     (if ts \<noteq> [] \<and> sum_list (map length ts) \<ge> min keep 1 \<and> over (t # ts)
      then (case drop_turns over keep ts of (dropped, left) \<Rightarrow> (t @ dropped, left))
      else ([], t # ts))"

type_synonym 'w summarizer = "(message list \<Rightarrow> 'w \<Rightarrow> string outcome \<times> 'w) option"

definition condensed_note :: "'w summarizer \<Rightarrow> message list \<Rightarrow> 'w \<Rightarrow> string outcome \<times> 'w" where
  "condensed_note summarizer dropped w =
     (case summarizer of
        None \<Rightarrow> (Ret (digest dropped), w)
      | Some f \<Rightarrow>
          (case f dropped w of
             (Ret s, w) \<Rightarrow> (Ret (SUMMARY_PREFIX @ strip s), w)
           | (Exc e, w) \<Rightarrow> (Ret (digest dropped), w)
           | (Cancel, w) \<Rightarrow> (Cancel, w)))"

definition compact ::
  "'w summarizer \<Rightarrow> string \<Rightarrow> nat \<Rightarrow> nat \<Rightarrow> message list \<Rightarrow> 'w \<Rightarrow> (message list \<times> bool) outcome \<times> 'w" where
  "compact summarizer system max_tokens keep ms w =
     (if count_tokens ms system \<le> max_tokens then (Ret (ms, False), w)
      else (let pinned = take 1 ms; rest = shrink_old keep (drop 1 ms) in
        if count_tokens (pinned @ rest) system \<le> max_tokens then (Ret (pinned @ rest, True), w)
        else (case drop_turns (too_long pinned system max_tokens) keep (turns rest) of
            (dropped, left) \<Rightarrow>
              (if dropped = [] then (Ret (pinned @ dropWhile is_tool (concat left), True), w)
               else case condensed_note summarizer dropped w of
                   (Ret note, w) \<Rightarrow> (Ret (pinned @ dropWhile is_tool (user_note note # concat left), True), w)
                 | (Exc e, w) \<Rightarrow> (Exc e, w)
                 | (Cancel, w) \<Rightarrow> (Cancel, w)))))"

section \<open>Conversations in which every tool call is answered\<close>

text \<open>
  A turn is complete when it opens with a message that is not a tool result and goes on with the
  results of exactly its tool calls, in their order. A conversation is paired when all its turns are.
\<close>

definition answers :: "tool_call list \<Rightarrow> message list \<Rightarrow> bool" where
  "answers cs ms \<longleftrightarrow> map (\<lambda>m. (ms_role m, ms_tool_call_id m)) ms = map (\<lambda>c. (''tool'', Some (tc_id c))) cs"

fun complete_turn :: "message list \<Rightarrow> bool" where
  "complete_turn [] = False"
| "complete_turn (m # ms) = (\<not> is_tool m \<and> answers (ms_tool_calls m) ms)"

definition paired :: "message list \<Rightarrow> bool" where
  "paired ms \<longleftrightarrow> list_all complete_turn (turns ms)"

lemma answers_Nil [simp]: "answers [] ms \<longleftrightarrow> ms = []" "answers cs [] \<longleftrightarrow> cs = []"
  by (auto simp: answers_def)

lemma answers_tools: "answers cs ms \<Longrightarrow> list_all is_tool ms"
  unfolding answers_def by (induction cs arbitrary: ms) (auto simp: is_tool_def Cons_eq_map_conv map_eq_Cons_conv)

lemma fold_tools: "list_all is_tool rs \<Longrightarrow> fold add_to_turns rs (ts @ [t]) = ts @ [t @ rs]"
  by (induction rs arbitrary: t) (auto simp: add_to_turns_def)

lemma fold_turn:
  assumes "complete_turn t"
  shows "fold add_to_turns t ts = ts @ [t]"
proof (cases t)
  case (Cons m rs)
  then show ?thesis using assms answers_tools [of "ms_tool_calls m" rs] fold_tools [of rs ts "[m]"]
    by (simp add: add_to_turns_def)
qed (use assms in simp)

lemma fold_turns: "list_all complete_turn us \<Longrightarrow> fold add_to_turns (concat us) ts = ts @ us"
  by (induction us arbitrary: ts) (simp_all add: fold_turn)

lemma turns_concat: "list_all complete_turn us \<Longrightarrow> turns (concat us) = us"
  by (simp add: turns_def fold_turns)

lemma concat_fold: "concat (fold add_to_turns ms ts) = concat ts @ ms"
proof (induction ms arbitrary: ts)
  case (Cons m ms)
  have "concat (add_to_turns m ts) = concat ts @ [m]"
    by (cases ts rule: rev_cases) (auto simp: add_to_turns_def)
  then show ?case using Cons by simp
qed simp

lemma concat_turns: "concat (turns ms) = ms"
  by (simp add: turns_def concat_fold)

text \<open>Being paired, without the loop: a concatenation of complete turns.\<close>

lemma paired_iff: "paired ms \<longleftrightarrow> (\<exists>us. ms = concat us \<and> list_all complete_turn us)"
proof
  assume "paired ms"
  then show "\<exists>us. ms = concat us \<and> list_all complete_turn us"
    by (intro exI [of _ "turns ms"]) (simp add: concat_turns paired_def)
qed (auto simp: paired_def turns_concat)

lemma paired_Nil [simp]: "paired []"
  by (simp add: paired_def turns_def)

lemma paired_append: "paired xs \<Longrightarrow> paired ys \<Longrightarrow> paired (xs @ ys)"
  unfolding paired_iff by (metis concat_append list_all_append)

lemma paired_turn: "complete_turn t \<Longrightarrow> paired t"
  unfolding paired_iff by (intro exI [of _ "[t]"]) simp

lemma paired_snoc: "paired ms \<Longrightarrow> \<not> is_tool m \<Longrightarrow> ms_tool_calls m = [] \<Longrightarrow> paired (ms @ [m])"
  by (rule paired_append) (simp_all add: paired_turn)

lemma paired_snoc_turn:
  "paired ms \<Longrightarrow> \<not> is_tool m \<Longrightarrow> answers (ms_tool_calls m) rs \<Longrightarrow> paired (ms @ m # rs)"
  by (rule paired_append) (simp_all add: paired_turn)

lemma paired_starts: "paired ms \<Longrightarrow> dropWhile is_tool ms = ms"
proof (cases ms)
  case (Cons m rest)
  assume "paired ms"
  then obtain us where us: "ms = concat us" "list_all complete_turn us" unfolding paired_iff by blast
  then obtain t vs where "us = t # vs" using Cons by (cases us) auto
  moreover then obtain m' rs where "t = m' # rs" "\<not> is_tool m'" using us(2) by (cases t) auto
  ultimately show ?thesis using us(1) Cons by simp
qed simp

section \<open>What compaction keeps\<close>

text \<open>Shrinking touches neither roles nor calls, so it keeps a conversation paired.\<close>

lemma shrink_fields [simp]:
  "ms_role (shrink m) = ms_role m" "ms_tool_calls (shrink m) = ms_tool_calls m"
  "ms_tool_call_id (shrink m) = ms_tool_call_id m" "is_tool (shrink m) = is_tool m"
  by (simp_all add: shrink_def is_tool_def)

definition same_shape :: "message \<Rightarrow> message \<Rightarrow> bool" where
  "same_shape m m' \<longleftrightarrow> ms_role m = ms_role m' \<and> ms_tool_calls m = ms_tool_calls m' \<and> ms_tool_call_id m = ms_tool_call_id m'"

lemma shape_turn: "list_all2 same_shape t t' \<Longrightarrow> complete_turn t = complete_turn t'"
proof (cases t)
  case (Cons m rs)
  assume a: "list_all2 same_shape t t'"
  then obtain m' rs' where t': "t' = m' # rs'" "same_shape m m'" "list_all2 same_shape rs rs'"
    using Cons by (auto simp: list_all2_Cons1)
  have "map (\<lambda>m. (ms_role m, ms_tool_call_id m)) rs = map (\<lambda>m. (ms_role m, ms_tool_call_id m)) rs'"
    using t'(3) by (induction rs rs' rule: list_all2_induct) (simp_all add: same_shape_def)
  then show ?thesis using t'(2) by (simp add: Cons t'(1) answers_def same_shape_def is_tool_def)
qed simp

lemma shape_fold:
  "list_all2 same_shape ms ms' \<Longrightarrow> list_all2 (list_all2 same_shape) ts ts' \<Longrightarrow>
     list_all2 (list_all2 same_shape) (fold add_to_turns ms ts) (fold add_to_turns ms' ts')"
proof (induction ms ms' arbitrary: ts ts' rule: list_all2_induct)
  case (Cons m ms m' ms')
  have tool: "is_tool m = is_tool m'" using Cons.hyps(1) by (simp add: same_shape_def is_tool_def)
  have "list_all2 (list_all2 same_shape) (add_to_turns m ts) (add_to_turns m' ts')"
  proof (cases ts rule: rev_cases)
    case Nil
    then show ?thesis using Cons.prems Cons.hyps(1) by (simp add: add_to_turns_def)
  next
    case (snoc us u)
    then obtain us' u' where ts': "ts' = us' @ [u']" "list_all2 (list_all2 same_shape) us us'" "list_all2 same_shape u u'"
      using Cons.prems by (auto simp: list_all2_append1 list_all2_Cons1)
    have "list_all2 same_shape (u @ [m]) (u' @ [m'])"
      using ts'(3) Cons.hyps(1) by (simp add: list_all2_appendI)
    then show ?thesis using ts' Cons.prems Cons.hyps(1) tool
      by (simp add: snoc add_to_turns_def list_all2_appendI)
  qed
  then show ?case using Cons.IH by simp
qed simp

lemma shape_paired: "list_all2 same_shape ms ms' \<Longrightarrow> paired ms = paired ms'"
proof -
  assume "list_all2 same_shape ms ms'"
  from shape_fold [OF this, of "[]" "[]"] have "list_all2 (list_all2 same_shape) (turns ms) (turns ms')"
    by (simp add: turns_def)
  then show ?thesis unfolding paired_def
    by (induction rule: list_all2_induct) (simp_all add: shape_turn)
qed

lemma shape_shrink_old: "list_all2 same_shape ms (shrink_old keep ms)"
proof -
  have "list_all2 same_shape xs (map shrink xs)" "list_all2 same_shape xs xs" for xs
    by (induction xs) (simp_all add: same_shape_def)
  then have "list_all2 same_shape (take n ms @ drop n ms) (map shrink (take n ms) @ drop n ms)" for n
    by (intro list_all2_appendI)
  then show ?thesis by (simp add: shrink_old_def Let_def)
qed

lemma drop_turns_split:
  "drop_turns over keep us = (dropped, left) \<Longrightarrow> list_all (\<lambda>t. t \<noteq> []) us \<Longrightarrow>
     \<exists>vs. us = vs @ left \<and> dropped = concat vs \<and> (us \<noteq> [] \<longrightarrow> left \<noteq> []) \<and> (length left \<le> 1 \<or> \<not> over left)"
proof (induction us arbitrary: dropped)
  case (Cons t ts)
  obtain d l where dl: "drop_turns over keep ts = (d, l)" by (cases "drop_turns over keep ts")
  have pos: "ts \<noteq> [] \<Longrightarrow> sum_list (map length ts) \<ge> 1" using Cons.prems(2) by (cases ts) (auto simp: Suc_le_eq)
  show ?case
  proof (cases "ts \<noteq> [] \<and> over (t # ts)")
    case True
    then have step: "dropped = t @ d" "left = l" using Cons.prems(1) dl pos by (auto split: if_splits)
    with Cons.IH [of d] dl Cons.prems(2) obtain vs where "ts = vs @ left" "d = concat vs"
      "ts \<noteq> [] \<longrightarrow> left \<noteq> []" "length left \<le> 1 \<or> \<not> over left" by auto
    then show ?thesis using True step by (intro exI [of _ "t # vs"]) simp
  next
    case False
    then have "dropped = []" "left = t # ts" using Cons.prems(1) by (auto split: if_splits)
    then show ?thesis using False by (intro exI [of _ "[]"]) auto
  qed
qed simp

lemma complete_nonempty: "list_all complete_turn us \<Longrightarrow> list_all (\<lambda>t. t \<noteq> []) us"
  by (induction us) (auto simp: list_all_iff)

text \<open>
  What compaction may do to a conversation: the first message stays, then comes at most one note of
  the user, then a suffix of the rest whose old tool outputs may be shortened; it is empty only if
  there was no rest.
\<close>

definition compacted :: "nat \<Rightarrow> message list \<Rightarrow> message list \<Rightarrow> message list \<Rightarrow> message list \<Rightarrow> bool" where
  "compacted keep ms note kept ms' \<longleftrightarrow>
     ms' = take 1 ms @ note @ kept \<and> length note \<le> 1 \<and> list_all (\<lambda>m. ms_role m = ''user'' \<and> ms_tool_calls m = []) note
     \<and> (\<exists>n. kept = drop n (shrink_old keep (tl ms))) \<and> (tl ms \<noteq> [] \<longrightarrow> kept \<noteq> [])"

definition within_window :: "string \<Rightarrow> nat \<Rightarrow> message list \<Rightarrow> message list \<Rightarrow> bool" where
  "within_window system max_tokens pinned kept \<longleftrightarrow>
     count_tokens (pinned @ kept) system \<le> max_tokens \<or> \<not> too_long pinned system max_tokens (turns kept)
     \<or> length (turns kept) \<le> 1"

lemma compact_changed:
  assumes p: "paired (tl ms)" and c: "compact summarizer system max_tokens keep ms w = (Ret (ms', changed), w')"
    and long: "count_tokens ms system > max_tokens"
  shows "\<exists>note kept. compacted keep ms note kept ms' \<and> paired kept \<and> within_window system max_tokens (take 1 ms) kept"
proof -
  define rest where "rest = shrink_old keep (tl ms)"
  have rest: "paired rest" using p shape_paired [OF shape_shrink_old] by (simp add: rest_def)
  have ne: "tl ms \<noteq> [] \<Longrightarrow> rest \<noteq> []"
    using list_all2_lengthD [OF shape_shrink_old [of "tl ms" keep]] by (cases ms) (auto simp: rest_def)
  have d1: "drop (Suc 0) ms = tl ms" by (simp add: drop_Suc)
  show ?thesis
  proof (cases "count_tokens (take 1 ms @ rest) system \<le> max_tokens")
    case True
    then have "ms' = take 1 ms @ rest" using c long by (simp add: compact_def Let_def rest_def d1)
    then show ?thesis using True rest ne
      by (intro exI [of _ "[]"] exI [of _ rest])
        (auto simp: compacted_def within_window_def rest_def intro: exI [of _ "0 :: nat"])
  next
    case False
    obtain dropped left where dt: "drop_turns (too_long (take 1 ms) system max_tokens) keep (turns rest) = (dropped, left)"
      by (cases "drop_turns (too_long (take 1 ms) system max_tokens) keep (turns rest)")
    have ct: "list_all complete_turn (turns rest)" using rest by (simp add: paired_def)
    from drop_turns_split [OF dt complete_nonempty [OF ct]] obtain vs where
      vs: "turns rest = vs @ left" "dropped = concat vs" "turns rest \<noteq> [] \<longrightarrow> left \<noteq> []"
        "length left \<le> 1 \<or> \<not> too_long (take 1 ms) system max_tokens left" by blast
    have cl: "list_all complete_turn left" using ct vs(1) by simp
    have r: "rest = concat vs @ concat left" using concat_turns [of rest] vs(1) by simp
    have kept: "paired (concat left)" "turns (concat left) = left" using cl by (auto simp: paired_iff turns_concat)
    have "left \<noteq> [] \<Longrightarrow> concat left \<noteq> []" using complete_nonempty [OF cl] by (cases left) auto
    then have kne: "tl ms \<noteq> [] \<Longrightarrow> concat left \<noteq> []"
      using ne vs(3) concat_turns [of rest] by (cases "turns rest") auto
    have suffix: "concat left = drop (length (concat vs)) (shrink_old keep (tl ms))"
      using r by (simp add: rest_def)
    have win: "within_window system max_tokens (take 1 ms) (concat left)"
      using vs(4) kept(2) by (auto simp: within_window_def)
    have dw: "dropWhile is_tool (concat left) = concat left" by (rule paired_starts [OF kept(1)])
    have "\<exists>note. ms' = take 1 ms @ note @ concat left \<and> length note \<le> 1
        \<and> list_all (\<lambda>m. ms_role m = ''user'' \<and> ms_tool_calls m = []) note"
    proof (cases "dropped = []")
      case True
      then show ?thesis using c long False dt dw
        by (intro exI [of _ "[]"]) (simp add: compact_def Let_def rest_def d1)
    next
      case d: False
      obtain nt where "ms' = take 1 ms @ dropWhile is_tool (user_note nt # concat left)"
        using c long False dt d by (auto simp: compact_def Let_def rest_def d1 split: prod.splits outcome.splits)
      then show ?thesis by (intro exI [of _ "[user_note nt]"]) (simp add: user_note_def is_tool_def)
    qed
    then show ?thesis using suffix kne kept(1) win unfolding compacted_def by blast
  qed
qed

text \<open>A conversation opens with a plain message, the task, and answers every tool call.\<close>

definition conversation :: "message list \<Rightarrow> bool" where
  "conversation ms \<longleftrightarrow> paired ms \<and> ms \<noteq> [] \<and> ms_tool_calls (hd ms) = []"

lemma compact_pairs:
  assumes "paired ms" "ms \<noteq> []" "ms_tool_calls (hd ms) = []"
    and "compact summarizer system max_tokens keep ms w = (Ret (ms', changed), w')"
  shows "paired ms' \<and> hd ms' = hd ms
    \<and> (if count_tokens ms system \<le> max_tokens then ms' = ms \<and> \<not> changed
       else \<exists>note kept. compacted keep ms note kept ms' \<and> within_window system max_tokens [hd ms] kept)"
proof (cases "count_tokens ms system \<le> max_tokens")
  case True
  then show ?thesis using assms by (simp add: compact_def)
next
  case long: False
  obtain m rest where ms: "ms = m # rest" using assms(2) by (cases ms) auto
  have plain: "ms_tool_calls m = []" using assms(3) by (simp add: ms)
  obtain us where us: "ms = concat us" "list_all complete_turn us" using assms(1) unfolding paired_iff by blast
  then obtain t vs where t: "us = t # vs" "complete_turn t" using ms by (cases us) auto
  then obtain rs where rs: "t = m # rs" using us(1) ms by (cases t) auto
  then have m: "\<not> is_tool m" "rs = []" using t(2) plain by simp_all
  with rs have "t = [m]" by simp
  then have "paired rest" using us t ms by (auto simp: paired_iff)
  from compact_changed [OF _ assms(4)] this long obtain nt kept where
    nk: "compacted keep ms nt kept ms'" "paired kept" "within_window system max_tokens (take 1 ms) kept"
    by (auto simp: ms)
  have "paired nt"
    using nk(1) by (cases nt) (auto simp: compacted_def is_tool_def intro: paired_turn)
  moreover have "paired [m]" using plain m by (simp add: paired_turn)
  ultimately have "paired ([m] @ nt @ kept)" using nk(2) by (blast intro: paired_append)
  then have "paired ms' \<and> hd ms' = hd ms" using nk(1) by (simp add: compacted_def ms)
  moreover have "\<exists>note kept. compacted keep ms note kept ms' \<and> within_window system max_tokens [hd ms] kept"
    using nk by (auto simp: ms)
  ultimately show ?thesis using long by simp
qed

lemma compact_conversation:
  "compact summarizer system max_tokens keep ms w = (Ret (ms', changed), w') \<Longrightarrow> conversation ms \<Longrightarrow> conversation ms'"
proof -
  assume c: "compact summarizer system max_tokens keep ms w = (Ret (ms', changed), w')" and ms: "conversation ms"
  then have k: "paired ms'" "hd ms' = hd ms" using compact_pairs [OF _ _ _ c] by (auto simp: conversation_def)
  have "ms' \<noteq> []" using c ms by (auto simp: compact_def Let_def conversation_def split: if_splits prod.splits outcome.splits)
  with k ms show ?thesis by (simp add: conversation_def)
qed

section \<open>Properties\<close>

text \<open>
  C32. Compaction never separates a tool result from its call. For a conversation that opens with a
  plain message and answers every tool call, the result keeps that first message and a suffix of
  the rest and is again a conversation that answers every tool call. It is the input if that
  fits; otherwise what is kept fits the window (counting the placeholder of the note), or no
  more than one turn is left of it.
\<close>

theorem compaction_keeps_pairs:
  assumes "paired ms" "ms \<noteq> []" "ms_tool_calls (hd ms) = []"
    and "compact summarizer system max_tokens keep ms w = (Ret (ms', changed), w')"
  shows "paired ms' \<and> hd ms' = hd ms
    \<and> (if count_tokens ms system \<le> max_tokens then ms' = ms \<and> \<not> changed
       else \<exists>note kept. compacted keep ms note kept ms' \<and> within_window system max_tokens [hd ms] kept)"
  by (rule compact_pairs [OF assms])

lemma compact_returns: "\<exists>ms' changed. compact None system max_tokens keep ms w = (Ret (ms', changed), w)"
  by (auto simp: compact_def Let_def condensed_note_def split: prod.splits)

definition sample_task :: "message list" where
  "sample_task = [user_note ''task'',
     (user_note ''look'')\<lparr>ms_role := ''assistant'',
        ms_tool_calls := [\<lparr>tc_id = ''c1'', tc_name = ''fetch'', tc_arguments = None\<rparr>]\<rparr>,
     (user_note (replicate 900 (CHR ''a'')))\<lparr>ms_role := ''tool'', ms_tool_call_id := Some ''c1''\<rparr>,
     user_note ''go on'']"

lemma sample_task_paired: "paired sample_task"
  by (simp add: sample_task_def paired_def turns_def add_to_turns_def is_tool_def user_note_def answers_def)

theorem compaction_keeps_pairs_witness:
  "\<exists>ms' changed. compact None [] 60 6 sample_task () = (Ret (ms', changed), ()) \<and> paired ms'
     \<and> hd ms' = user_note ''task''"
proof -
  obtain ms' changed where c: "compact None [] 60 6 sample_task () = (Ret (ms', changed), ())"
    using compact_returns [of "[]" 60 6 sample_task "()"] by blast
  have "sample_task \<noteq> []" "ms_tool_calls (hd sample_task) = []" "hd sample_task = user_note ''task''"
    by (simp_all add: sample_task_def user_note_def)
  with compaction_keeps_pairs [OF sample_task_paired _ _ c] c show ?thesis by auto
qed

text \<open>
  \<open>keep_recent\<close> is documented as the number of messages that are never compacted, but the loop that
  drops turns only looks at its minimum with one: here two of the last six messages are dropped.
\<close>

lemma recent_messages_are_dropped:
  "fst (drop_turns (\<lambda>ts. length ts > 1) 6 (turns (drop 1 sample_task))) = take 2 (drop 1 sample_task)"
  by (simp add: sample_task_def turns_def add_to_turns_def is_tool_def user_note_def)

end
