(* ===== verification/Approvals.thy ===== *)
theory Approvals
  imports Prelude
begin

text \<open>
  \<open>src/tools/approvals.py\<close>: human approval of single tool calls. The clock reading and the fresh id
  are arguments; \<open>json.dumps\<close> of the arguments is the parameter \<open>dumps\<close>. The \<open>on_request\<close> hook is
  recorded as the list of ids it was called with.
\<close>

section \<open>The store\<close>

datatype approval_status = PENDING | APPROVED | DENIED | USED

record approval =
  ap_id :: string
  ap_caller :: string
  ap_tool :: string
  ap_arguments :: pyval
  ap_created :: time
  ap_status :: approval_status
  ap_decided_by :: "string option"

definition fingerprint :: "(pyval \<Rightarrow> string) \<Rightarrow> string \<Rightarrow> string \<Rightarrow> pyval \<Rightarrow> string" where
  "fingerprint dumps caller tool args = caller @ ''|'' @ tool @ ''|'' @ dumps args"

definition print_of :: "(pyval \<Rightarrow> string) \<Rightarrow> approval \<Rightarrow> string" where
  "print_of dumps a = fingerprint dumps (ap_caller a) (ap_tool a) (ap_arguments a)"

record approval_store =
  as_ttl :: real
  as_max_items :: int
  as_items :: "(string, approval) odict"
  as_has_hook :: bool
  as_requested :: "string list"

definition approval_store_new :: "pyval \<Rightarrow> pyval \<Rightarrow> bool \<Rightarrow> string + approval_store" where
  "approval_store_new ttl max_items hook =
     (case finite_positive ttl of
        None \<Rightarrow> Inl ''ttl_s must be a finite positive number''
      | Some t \<Rightarrow>
          (case max_items of
             PInt n \<Rightarrow>
               (if n < 1 then Inl ''max_items must be a positive integer''
                else Inr \<lparr>as_ttl = t, as_max_items = n, as_items = [], as_has_hook = hook, as_requested = []\<rparr>)
           | _ \<Rightarrow> Inl ''max_items must be a positive integer''))"

definition sweep :: "time \<Rightarrow> approval_store \<Rightarrow> approval_store" where
  "sweep now s = s\<lparr>as_items := od_drop_where (\<lambda>_ a. now - ap_created a \<ge> as_ttl s) (as_items s)\<rparr>"

section \<open>Operations\<close>

definition same_call :: "(pyval \<Rightarrow> string) \<Rightarrow> approval_status set \<Rightarrow> string \<Rightarrow> approval \<Rightarrow> bool" where
  "same_call dumps st fp a \<longleftrightarrow> ap_status a \<in> st \<and> print_of dumps a = fp"

definition find_call ::
  "(pyval \<Rightarrow> string) \<Rightarrow> approval_status set \<Rightarrow> string \<Rightarrow> (string, approval) odict \<Rightarrow> (string \<times> approval) option" where
  "find_call dumps st fp d = find (\<lambda>(i, a). same_call dumps st fp a) d"

text \<open>The loop that makes room: decided and spent approvals go, oldest first, until one fits.\<close>

fun evict_done :: "int \<Rightarrow> (string \<times> approval) list \<Rightarrow> (string, approval) odict \<Rightarrow> (string, approval) odict" where
  "evict_done n [] d = d"
| "evict_done n ((i, a) # rest) d =
     (if ap_status a \<in> {DENIED, USED}
      then (let d = od_pop i d in if int (length d) < n then d else evict_done n rest d)
      else evict_done n rest d)"

definition make_room :: "approval_store \<Rightarrow> approval_store" where
  "make_room s =
     (if int (length (as_items s)) \<ge> as_max_items s
      then s\<lparr>as_items := evict_done (as_max_items s) (as_items s) (as_items s)\<rparr> else s)"

definition request_approval ::
  "(pyval \<Rightarrow> string) \<Rightarrow> time \<Rightarrow> string \<Rightarrow> string \<Rightarrow> string \<Rightarrow> pyval \<Rightarrow> approval_store \<Rightarrow>
     (string + approval) \<times> approval_store" where
  "request_approval dumps now new_id caller tool args s =
     (let s = sweep now s in
      case find_call dumps {PENDING, APPROVED} (fingerprint dumps caller tool args) (as_items s) of
        Some (_, a) \<Rightarrow> (Inr a, s)
      | None \<Rightarrow>
          (let s = make_room s in
           if int (length (as_items s)) \<ge> as_max_items s then (Inl ''too many pending approvals'', s)
           else (let a = \<lparr>ap_id = new_id, ap_caller = caller, ap_tool = tool, ap_arguments = args,
                       ap_created = now, ap_status = PENDING, ap_decided_by = None\<rparr>
                 in (Inr a, s\<lparr>as_items := od_set new_id a (as_items s),
                      as_requested := (if as_has_hook s then as_requested s @ [new_id] else as_requested s)\<rparr>))))"

definition get_approval :: "time \<Rightarrow> string \<Rightarrow> approval_store \<Rightarrow> approval option \<times> approval_store" where
  "get_approval now i s = (let s = sweep now s in (od_get (as_items s) i, s))"

definition pending_approvals :: "time \<Rightarrow> approval_store \<Rightarrow> approval list \<times> approval_store" where
  "pending_approvals now s =
     (let s = sweep now s in (filter (\<lambda>a. ap_status a = PENDING) (map snd (as_items s)), s))"

datatype decide_error = UnknownApproval string | AlreadyDecided approval_status

definition decide :: "time \<Rightarrow> string \<Rightarrow> bool \<Rightarrow> string \<Rightarrow> approval_store \<Rightarrow> (decide_error + approval) \<times> approval_store" where
  "decide now i approve who s =
     (case get_approval now i s of
        (None, s) \<Rightarrow> (Inl (UnknownApproval i), s)
      | (Some a, s) \<Rightarrow>
          (if ap_status a \<noteq> PENDING then (Inl (AlreadyDecided (ap_status a)), s)
           else (let a = a\<lparr>ap_status := (if approve then APPROVED else DENIED), ap_decided_by := Some who\<rparr>
                 in (Inr a, s\<lparr>as_items := od_set i a (as_items s)\<rparr>))))"

definition consume_approval :: "(pyval \<Rightarrow> string) \<Rightarrow> time \<Rightarrow> string \<Rightarrow> string \<Rightarrow> pyval \<Rightarrow> approval_store \<Rightarrow> bool \<times> approval_store" where
  "consume_approval dumps now caller tool args s =
     (let s = sweep now s in
      case find_call dumps {APPROVED} (fingerprint dumps caller tool args) (as_items s) of
        None \<Rightarrow> (False, s)
      | Some (i, _) \<Rightarrow> (True, s\<lparr>as_items := od_map_at i (\<lambda>a. a\<lparr>ap_status := USED\<rparr>) (as_items s)\<rparr>))"

section \<open>Runs\<close>

datatype approval_op =
    AskFor string string string pyval
  | DecideOn string bool string
  | SpendFor string string pyval
  | Look

fun approval_step :: "(pyval \<Rightarrow> string) \<Rightarrow> time \<times> approval_op \<Rightarrow> approval_store \<Rightarrow> approval_store" where
  "approval_step dumps (now, AskFor i c t a) s = snd (request_approval dumps now i c t a s)"
| "approval_step dumps (now, DecideOn i b who) s = snd (decide now i b who s)"
| "approval_step dumps (now, SpendFor c t a) s = snd (consume_approval dumps now c t a s)"
| "approval_step dumps (now, Look) s = sweep now s"

text \<open>Whether an operation grants, or spends, an approval of the call with a given fingerprint.\<close>

fun grants :: "(pyval \<Rightarrow> string) \<Rightarrow> string \<Rightarrow> time \<times> approval_op \<Rightarrow> approval_store \<Rightarrow> bool" where
  "grants dumps fp (now, DecideOn i b who) s =
     (case fst (decide now i b who s) of Inr a \<Rightarrow> ap_status a = APPROVED \<and> print_of dumps a = fp | _ \<Rightarrow> False)"
| "grants dumps fp _ s = False"

fun spends :: "(pyval \<Rightarrow> string) \<Rightarrow> string \<Rightarrow> time \<times> approval_op \<Rightarrow> approval_store \<Rightarrow> bool" where
  "spends dumps fp (now, SpendFor c t a) s =
     (fingerprint dumps c t a = fp \<and> fst (consume_approval dumps now c t a s))"
| "spends dumps fp _ s = False"

fun count_ops ::
  "(pyval \<Rightarrow> string) \<Rightarrow> (time \<times> approval_op \<Rightarrow> approval_store \<Rightarrow> bool) \<Rightarrow> (time \<times> approval_op) list \<Rightarrow>
     approval_store \<Rightarrow> nat" where
  "count_ops dumps p [] s = 0"
| "count_ops dumps p (op # ops) s = (if p op s then 1 else 0) + count_ops dumps p ops (approval_step dumps op s)"

text \<open>The approvals of a call that are granted and not spent.\<close>

definition unspent :: "(pyval \<Rightarrow> string) \<Rightarrow> string \<Rightarrow> (string, approval) odict \<Rightarrow> nat" where
  "unspent dumps fp d = length (filter (\<lambda>(i, a). same_call dumps {APPROVED} fp a) d)"

lemma unspent_drop: "unspent dumps fp (od_drop_where p d) \<le> unspent dumps fp d"
proof -
  have "filter P (filter Q d) = filter Q (filter P d)" for P Q :: "string \<times> approval \<Rightarrow> bool"
    by (simp add: conj_commute)
  then show ?thesis unfolding unspent_def od_drop_where_def by (metis length_filter_le)
qed

lemma od_pop_filter: "od_pop i d = od_drop_where (\<lambda>j _. j = i) d"
  unfolding od_pop_def od_drop_where_def by (induction d) auto

lemma unspent_pop: "unspent dumps fp (od_pop i d) \<le> unspent dumps fp d"
  unfolding od_pop_filter by (rule unspent_drop)

lemma unspent_set:
  "od_wf d \<Longrightarrow> unspent dumps fp (od_set i a d) + (case od_get d i of None \<Rightarrow> 0 | Some b \<Rightarrow> of_bool (same_call dumps {APPROVED} fp b))
     = unspent dumps fp d + of_bool (same_call dumps {APPROVED} fp a)"
proof (induction d)
  case Nil
  then show ?case by (simp add: unspent_def od_set_def)
next
  case (Cons x d)
  obtain j b where x: "x = (j, b)" by (cases x)
  show ?case
  proof (cases "j = i")
    case True
    then show ?thesis by (simp add: x unspent_def od_set_def)
  next
    case False
    then have "od_set i a (x # d) = x # od_set i a d" by (simp add: x od_set_def)
    then show ?thesis using Cons False by (simp add: x unspent_def split: option.splits)
  qed
qed

lemma evict_done_keeps: "od_wf d \<Longrightarrow> od_wf (evict_done n xs d)
    \<and> unspent dumps fp (evict_done n xs d) \<le> unspent dumps fp d \<and> length (evict_done n xs d) \<le> length d"
proof (induction xs arbitrary: d)
  case (Cons x xs)
  obtain i a where x: "x = (i, a)" by (cases x)
  show ?case using Cons.IH [of d] Cons.IH [of "od_pop i d"] Cons.prems unspent_pop [of dumps fp i d] length_od_pop_le [of i d]
    by (auto simp: x Let_def intro: le_trans)
qed simp

lemma find_callD:
  "find_call dumps st fp d = Some (i, a) \<Longrightarrow> od_wf d \<Longrightarrow> od_get d i = Some a \<and> same_call dumps st fp a"
  unfolding find_call_def find_Some_iff by (metis (mono_tags, lifting) case_prodD map_of_is_SomeI nth_mem)

definition store_ok :: "approval_store \<Rightarrow> bool" where
  "store_ok s \<longleftrightarrow> od_wf (as_items s) \<and> int (length (as_items s)) \<le> as_max_items s"

lemma sweep_ok:
  assumes "store_ok s"
  shows "store_ok (sweep now s) \<and> unspent dumps fp (as_items (sweep now s)) \<le> unspent dumps fp (as_items s)"
proof

  have "length (as_items (sweep now s)) \<le> length (as_items s)"
    unfolding sweep_def by (simp add: length_od_drop_where_le)
  moreover have "od_wf (as_items (sweep now s))"
    unfolding sweep_def using od_wf_drop_where assms by (simp add: store_ok_def)
  ultimately show "store_ok (sweep now s)" using assms by (simp add: store_ok_def sweep_def)
  show "unspent dumps fp (as_items (sweep now s)) \<le> unspent dumps fp (as_items s)"
    by (simp add: sweep_def unspent_drop)
qed

lemma make_room_ok:
  "store_ok s \<Longrightarrow> store_ok (make_room s) \<and> unspent dumps fp (as_items (make_room s)) \<le> unspent dumps fp (as_items s)
     \<and> as_max_items (make_room s) = as_max_items s"
  using evict_done_keeps [of "as_items s" "as_max_items s" "as_items s" dumps fp]
  by (auto simp: make_room_def store_ok_def)

lemma request_ok:
  assumes "store_ok s"
  shows "store_ok (snd (request_approval dumps now i c t args s))
    \<and> unspent dumps fp (as_items (snd (request_approval dumps now i c t args s))) \<le> unspent dumps fp (as_items s)"
proof -
  define s1 where "s1 = sweep now s"
  have s1: "store_ok s1" "unspent dumps fp (as_items s1) \<le> unspent dumps fp (as_items s)"
    using sweep_ok [OF assms, of now dumps fp] by (simp_all add: s1_def)
  define s2 where "s2 = make_room s1"
  have s2: "store_ok s2" "unspent dumps fp (as_items s2) \<le> unspent dumps fp (as_items s)"
    using make_room_ok [OF s1(1), of dumps fp] s1(2) by (auto simp: s2_def intro: le_trans)
  have new: "unspent dumps fp (od_set i a (as_items s2)) \<le> unspent dumps fp (as_items s2)"
    if "ap_status a = PENDING" for a
    using unspent_set [of "as_items s2" dumps fp i a] that s2(1)
    by (simp add: store_ok_def same_call_def split: option.splits)
  have "store_ok (s2\<lparr>as_items := od_set i a (as_items s2), as_requested := r\<rparr>)"
    if "int (length (as_items s2)) < as_max_items s2" for a r
    using that s2(1) by (simp add: store_ok_def length_od_set)
  moreover have "store_ok (s2\<lparr>as_items := od_set i a (as_items s2)\<rparr>)"
    if "int (length (as_items s2)) < as_max_items s2" for a
    using that s2(1) by (simp add: store_ok_def length_od_set)
  ultimately show ?thesis
    using s1 s2 le_trans [OF new s2(2)] unfolding request_approval_def Let_def s1_def [symmetric] s2_def [symmetric]
    by (auto split: option.split)
qed

lemma decide_ok:
  assumes "store_ok s"
  shows "store_ok (snd (decide now i approve who s))
    \<and> unspent dumps fp (as_items (snd (decide now i approve who s)))
        \<le> unspent dumps fp (as_items s) + of_bool (grants dumps fp (now, DecideOn i approve who) s)"
proof (cases "od_get (as_items (sweep now s)) i")
  case None
  then show ?thesis using sweep_ok [OF assms, of now dumps fp] by (simp add: decide_def get_approval_def Let_def)
next
  case (Some a)
  define a' where "a' = a\<lparr>ap_status := (if approve then APPROVED else DENIED), ap_decided_by := Some who\<rparr>"
  note so = conjunct1 [OF sweep_ok [OF assms]] conjunct2 [OF sweep_ok [OF assms, of now dumps fp]]
  have "i \<in> set (od_keys (as_items (sweep now s)))" using map_of_SomeD [OF Some] by force
  then have ok: "store_ok ((sweep now s)\<lparr>as_items := od_set i a' (as_items (sweep now s))\<rparr>)"
    using so(1) [of now] by (simp add: store_ok_def length_od_set)
  have "unspent dumps fp (od_set i a' (as_items (sweep now s)))
      \<le> unspent dumps fp (as_items (sweep now s)) + of_bool (same_call dumps {APPROVED} fp a')"
    using unspent_set [of "as_items (sweep now s)" dumps fp i a'] so(1) [of now] Some by (simp add: store_ok_def)
  then show ?thesis using so(1) [of now] so(2) ok Some
    by (auto simp: decide_def get_approval_def Let_def a'_def same_call_def print_of_def)
qed

lemma consume_ok:
  assumes "store_ok s"
  shows "store_ok (snd (consume_approval dumps now c t args s))
    \<and> unspent dumps fp (as_items (snd (consume_approval dumps now c t args s))) + of_bool (spends dumps fp (now, SpendFor c t args) s)
        \<le> unspent dumps fp (as_items s)"
proof (cases "find_call dumps {APPROVED} (fingerprint dumps c t args) (as_items (sweep now s))")
  case None
  then show ?thesis using sweep_ok [OF assms, of now dumps fp] by (simp add: consume_approval_def Let_def)
next
  case (Some p)
  obtain i a where p: "p = (i, a)" by (cases p)
  define d where "d = as_items (sweep now s)"
  note so = conjunct1 [OF sweep_ok [OF assms]] conjunct2 [OF sweep_ok [OF assms, of now dumps fp]]
  have wf: "od_wf d" using so(1) [of now] by (simp add: store_ok_def d_def)
  have f: "od_get d i = Some a" "same_call dumps {APPROVED} (fingerprint dumps c t args) a"
    using find_callD [OF Some [unfolded p] wf [unfolded d_def]] by (simp_all add: d_def)
  have set: "od_map_at i (\<lambda>a. a\<lparr>ap_status := USED\<rparr>) d = od_set i (a\<lparr>ap_status := USED\<rparr>) d"
    using f(1) by (simp add: od_map_at_def od_set_def)
  have "unspent dumps fp (od_set i (a\<lparr>ap_status := USED\<rparr>) d) + of_bool (same_call dumps {APPROVED} fp a)
      = unspent dumps fp d"
    using unspent_set [OF wf, of dumps fp i "a\<lparr>ap_status := USED\<rparr>"] f(1) by (simp add: same_call_def)
  moreover have "same_call dumps {APPROVED} fp a" if "fingerprint dumps c t args = fp"
    using f(2) that by simp
  moreover have "store_ok ((sweep now s)\<lparr>as_items := od_map_at i (\<lambda>a. a\<lparr>ap_status := USED\<rparr>) d\<rparr>)"
    using so(1) [of now] by (simp add: store_ok_def d_def)
  ultimately show ?thesis using so(2) Some
    by (auto simp: consume_approval_def Let_def p d_def [symmetric] set)
qed

lemma approval_step_ok:
  assumes "store_ok s"
  shows "store_ok (approval_step dumps op s)
    \<and> unspent dumps fp (as_items (approval_step dumps op s)) + of_bool (spends dumps fp op s)
        \<le> unspent dumps fp (as_items s) + of_bool (grants dumps fp op s)"
proof (cases "(dumps, op, s)" rule: approval_step.cases)
  case (1 dumps now i c t a s)
  then show ?thesis using request_ok [of s dumps now i c t a fp] assms by simp
next
  case (2 dumps now i b who s)
  then show ?thesis using decide_ok [of s now i b who dumps fp] assms by simp
next
  case (3 dumps now c t a s)
  then show ?thesis using consume_ok [of s dumps now c t a fp] assms by simp
next
  case (4 dumps now s)
  then show ?thesis using sweep_ok [of s now dumps fp] assms by simp
qed

interpretation approvals: op_system "approval_step dumps" "\<lambda>_. True" store_ok
  by unfold_locales (use approval_step_ok in blast)

lemma spent_le_granted:
  "store_ok s \<Longrightarrow> count_ops dumps (spends dumps fp) ops s + unspent dumps fp (as_items (fold (approval_step dumps) ops s))
     \<le> count_ops dumps (grants dumps fp) ops s + unspent dumps fp (as_items s)"
proof (induction ops arbitrary: s)
  case (Cons op ops)
  note st = approval_step_ok [OF Cons.prems, of dumps op fp]
  show ?case using Cons.IH [OF conjunct1 [OF st]] conjunct2 [OF st] by (simp add: of_bool_def split: if_splits)
qed simp

text \<open>The fingerprint tells calls apart when neither the caller nor the tool contains a bar.\<close>

lemma split_at_bar: "CHR ''|'' \<notin> set a \<Longrightarrow> CHR ''|'' \<notin> set a' \<Longrightarrow> a @ CHR ''|'' # r = a' @ CHR ''|'' # r' \<Longrightarrow> a = a' \<and> r = r'"
  by (induction a arbitrary: a') (auto simp: Cons_eq_append_conv)

lemma fingerprint_exact:
  assumes "fingerprint dumps c t a = fingerprint dumps c' t' a'"
    and "CHR ''|'' \<notin> set c" "CHR ''|'' \<notin> set c'" "CHR ''|'' \<notin> set t" "CHR ''|'' \<notin> set t'"
  shows "c = c' \<and> t = t' \<and> dumps a = dumps a'"
proof -
  have "c @ CHR ''|'' # (t @ CHR ''|'' # dumps a) = c' @ CHR ''|'' # (t' @ CHR ''|'' # dumps a')"
    using assms(1) by (simp add: fingerprint_def)
  from split_at_bar [OF assms(2,3) this] have c: "c = c'" and r: "t @ CHR ''|'' # dumps a = t' @ CHR ''|'' # dumps a'"
    by blast+
  from split_at_bar [OF assms(4,5) r] c show ?thesis by blast
qed

section \<open>Properties\<close>

text \<open>
  C33. An approval is good for one call. In every run of requests, decisions, lookups and uses from
  an empty store, at any instants, a call is let through no more often than a human approved a
  request for the same caller, tool and arguments, and at no point does the store hold more
  entries than its bound.
\<close>

theorem approvals_spent_once:
  assumes "as_items s = []" "1 \<le> as_max_items s"
  shows "count_ops dumps (spends dumps fp) ops s \<le> count_ops dumps (grants dumps fp) ops s
    \<and> int (length (as_items (fold (approval_step dumps) ops s))) \<le> as_max_items (fold (approval_step dumps) ops s)"
proof
  have ok: "store_ok s" using assms by (simp add: store_ok_def)
  show "count_ops dumps (spends dumps fp) ops s \<le> count_ops dumps (grants dumps fp) ops s"
    using spent_le_granted [OF ok, of dumps fp ops] assms(1) by (simp add: unspent_def)
  have "store_ok (fold (approval_step dumps) ops s)"
    by (rule approvals.inv_run_all) (use ok in simp_all)
  then show "int (length (as_items (fold (approval_step dumps) ops s))) \<le> as_max_items (fold (approval_step dumps) ops s)"
    by (simp add: store_ok_def)
qed

definition asking_twice :: "(time \<times> approval_op) list" where
  "asking_twice = [(0, AskFor ''1'' ''bot'' ''drop'' PNone), (1, DecideOn ''1'' True ''ann''),
     (2, SpendFor ''bot'' ''drop'' PNone), (3, SpendFor ''bot'' ''drop'' PNone)]"

definition no_approvals :: approval_store where
  "no_approvals = \<lparr>as_ttl = 900, as_max_items = 10, as_items = [], as_has_hook = False, as_requested = []\<rparr>"

lemma asking_twice_run:
  "count_ops (\<lambda>v. []) (spends (\<lambda>v. []) ''bot|drop|'') asking_twice no_approvals = 1"
  by (simp add: asking_twice_def no_approvals_def request_approval_def sweep_def od_drop_where_def find_call_def
      same_call_def print_of_def fingerprint_def make_room_def decide_def get_approval_def consume_approval_def
      Let_def od_set_def od_map_at_def)

theorem approvals_spent_once_witness:
  "1 \<le> count_ops (\<lambda>v. []) (grants (\<lambda>v. []) ''bot|drop|'') asking_twice no_approvals"
  using approvals_spent_once [of no_approvals "\<lambda>v. []" "''bot|drop|''" asking_twice] asking_twice_run
  by (simp add: no_approvals_def)

end
