(* ===== verification/Executor.thy ===== *)
theory Executor
  imports Registry Untrusted Approvals Context
begin

text \<open>
  \<open>src/tools/executor.py\<close> and the call path of \<open>src/tools/mcp.py\<close>: running the tool calls of a model
  through the registry. \<open>route\<close>, the approval decision, the JSON parser and the texts of exceptions
  are parameters; \<open>route\<close> and the handlers act on the world.
\<close>

section \<open>One call\<close>

record tool_step =
  ts_call_id :: string
  ts_tool :: string
  ts_arguments :: pyval
  ts_ok :: bool
  ts_output :: string
  ts_duration_ms :: real
  ts_error_code :: "string option"

text \<open>
  \<open>xe_loads\<close> is \<open>json.loads\<close>, with the text of the \<open>ValueError\<close>; \<open>xe_str\<close> is \<open>str\<close> of a tool error;
  \<open>xe_scan\<close> is the injection heuristic.
\<close>

record 'x exec_env =
  xe_tools :: "'x tool_env"
  xe_loads :: "string \<Rightarrow> string + pyval"
  xe_str :: "tool_error \<Rightarrow> string"
  xe_scan :: "string \<Rightarrow> string list"

type_synonym 'x approver = "string \<Rightarrow> string \<Rightarrow> pyval \<Rightarrow> 'x tool_world \<Rightarrow> bool \<times> 'x tool_world"

definition call_arguments :: "'x exec_env \<Rightarrow> tool_call \<Rightarrow> string + pyval" where
  "call_arguments X c =
     (let raw = (case tc_arguments c of None \<Rightarrow> [] | Some a \<Rightarrow> a)
      in case xe_loads X (if raw = [] then ''{}'' else raw) of
           Inl m \<Rightarrow> Inl m
         | Inr (PDict d) \<Rightarrow> Inr (PDict d)
         | Inr _ \<Rightarrow> Inl ''arguments must be an object'')"

definition refused_step :: "tool_call \<Rightarrow> pyval \<Rightarrow> string \<Rightarrow> string \<Rightarrow> tool_step" where
  "refused_step c args out code =
     \<lparr>ts_call_id = tc_id c, ts_tool = tc_name c, ts_arguments = args, ts_ok = False, ts_output = out,
      ts_duration_ms = 0, ts_error_code = Some code\<rparr>"

definition as_untrusted :: "'x exec_env \<Rightarrow> tool_result \<Rightarrow> string" where
  "as_untrusted X r = wrap_untrusted (xe_scan X) (tr_content r) (tr_tool r) ''tool_output'' 20000"

text \<open>The step a call ends in; \<open>None\<close> is a cancellation, which propagates.\<close>

fun step_of :: "'x exec_env \<Rightarrow> tool_call \<Rightarrow> pyval \<Rightarrow> call_outcome \<Rightarrow> tool_step option" where
  "step_of X c args (CallOk r) = Some
     \<lparr>ts_call_id = tc_id c, ts_tool = tc_name c, ts_arguments = args, ts_ok = True,
      ts_output = as_untrusted X r, ts_duration_ms = tr_duration_ms r, ts_error_code = None\<rparr>"
| "step_of X c args (CallErr (ApprovalRequired n)) =
     Some (refused_step c args (xe_str X (ApprovalRequired n)) ''approval_required'')"
| "step_of X c args (CallErr e) =
     Some (refused_step c args (''Tool error ('' @ error_code e @ ''): '' @ xe_str X e) (error_code e))"
| "step_of X c args CallCancelled = None"

fun needs_approval :: "call_outcome \<Rightarrow> bool" where
  "needs_approval (CallErr (ApprovalRequired n)) = True"
| "needs_approval _ = False"

definition run_one ::
  "'x exec_env \<Rightarrow> string list option \<Rightarrow> string \<Rightarrow> 'x approver \<Rightarrow> permission \<Rightarrow> tool_call \<Rightarrow> 'x tool_world \<Rightarrow>
     tool_step option \<times> 'x tool_world" where
  "run_one X allowed caller approved max_permission c w =
     (case call_arguments X c of
        Inl m \<Rightarrow> (Some (refused_step c (PDict []) (''Invalid arguments: '' @ m) ''invalid_arguments''), w)
      | Inr args \<Rightarrow>
          (case call_tool (xe_tools X) (tc_name c) args allowed caller False max_permission w of
             (out, w) \<Rightarrow>
               (if \<not> needs_approval out then (step_of X c args out, w)
                else case approved caller (tc_name c) args w of
                    (False, w) \<Rightarrow> (step_of X c args out, w)
                  | (True, w) \<Rightarrow>
                      (case call_tool (xe_tools X) (tc_name c) args allowed caller True max_permission w of
                         (out, w) \<Rightarrow> (step_of X c args out, w)))))"

section \<open>The loop\<close>

datatype stop_reason = Answered | MaxSteps | NeedsApproval | CostLimit

record loop_result =
  lr_response :: "completion option"
  lr_steps :: "tool_step list"
  lr_stop_reason :: stop_reason
  lr_pending :: "tool_step option"
  lr_tools_skipped :: bool
  lr_total_cost_usd :: real
  lr_input_tokens :: int
  lr_output_tokens :: int

definition result_new :: "bool \<Rightarrow> loop_result" where
  "result_new skipped = \<lparr>lr_response = None, lr_steps = [], lr_stop_reason = Answered, lr_pending = None,
     lr_tools_skipped = skipped, lr_total_cost_usd = 0, lr_input_tokens = 0, lr_output_tokens = 0\<rparr>"

definition assistant_message :: "completion \<Rightarrow> message" where
  "assistant_message resp = \<lparr>ms_role = ''assistant'', ms_content = co_content resp,
     ms_tool_calls = co_tool_calls resp, ms_tool_call_id = None, ms_images = []\<rparr>"

definition tool_message :: "string \<Rightarrow> string \<Rightarrow> message" where
  "tool_message i out = \<lparr>ms_role = ''tool'', ms_content = out, ms_tool_calls = [],
     ms_tool_call_id = Some i, ms_images = []\<rparr>"

datatype calls_end = AllDone | Blocked tool_step | CallsCancelled

text \<open>The calls of one answer in their order; one that needs approval ends them.\<close>

fun run_calls ::
  "(tool_call \<Rightarrow> 'w \<Rightarrow> tool_step option \<times> 'w) \<Rightarrow> tool_call list \<Rightarrow> 'w \<Rightarrow> (tool_step list \<times> calls_end) \<times> 'w" where
  "run_calls f [] w = (([], AllDone), w)"
| "run_calls f (c # cs) w =
     (case f c w of
        (None, w) \<Rightarrow> (([], CallsCancelled), w)
      | (Some s, w) \<Rightarrow>
          (if ts_error_code s = Some ''approval_required'' then (([s], Blocked s), w)
           else case run_calls f cs w of ((ss, e), w) \<Rightarrow> ((s # ss, e), w)))"

definition book_answer :: "completion \<Rightarrow> loop_result \<Rightarrow> loop_result" where
  "book_answer resp r = r\<lparr>lr_response := Some resp,
     lr_total_cost_usd := lr_total_cost_usd r + co_cost_usd resp,
     lr_input_tokens := lr_input_tokens r + co_input_tokens resp,
     lr_output_tokens := lr_output_tokens r + co_output_tokens resp\<rparr>"

definition over_cost :: "real option \<Rightarrow> loop_result \<Rightarrow> bool" where
  "over_cost limit r = (case limit of None \<Rightarrow> False | Some m \<Rightarrow> lr_total_cost_usd r \<ge> m)"

text \<open>\<open>for _ in range(max_steps + 1)\<close>, as recursion on the turns left.\<close>

fun tool_turns ::
  "(request \<Rightarrow> 'w \<Rightarrow> completion outcome \<times> 'w) \<Rightarrow> (tool_call \<Rightarrow> 'w \<Rightarrow> tool_step option \<times> 'w) \<Rightarrow> int \<Rightarrow>
     real option \<Rightarrow> nat \<Rightarrow> request \<Rightarrow> loop_result \<Rightarrow> 'w \<Rightarrow> loop_result outcome \<times> 'w" where
  "tool_turns route f max_steps limit 0 q r w = (Ret (r\<lparr>lr_stop_reason := MaxSteps\<rparr>), w)"
| "tool_turns route f max_steps limit (Suc k) q r w =
     (case route q w of
        (Exc e, w) \<Rightarrow> (Exc e, w)
      | (Cancel, w) \<Rightarrow> (Cancel, w)
      | (Ret resp, w) \<Rightarrow>
          (let r = book_answer resp r in
           if co_tool_calls resp = [] then (Ret r, w)
           else if int (length (lr_steps r)) \<ge> max_steps then (Ret (r\<lparr>lr_stop_reason := MaxSteps\<rparr>), w)
           else if over_cost limit r then (Ret (r\<lparr>lr_stop_reason := CostLimit\<rparr>), w)
           else case run_calls f (co_tool_calls resp) w of
               ((ss, CallsCancelled), w) \<Rightarrow> (Cancel, w)
             | ((ss, Blocked s), w) \<Rightarrow>
                 (Ret (r\<lparr>lr_steps := lr_steps r @ ss, lr_stop_reason := NeedsApproval, lr_pending := Some s\<rparr>), w)
             | ((ss, AllDone), w) \<Rightarrow>
                 tool_turns route f max_steps limit k
                   (q\<lparr>rq_messages := rq_messages q @ assistant_message resp #
                       map (\<lambda>s. tool_message (ts_call_id s) (ts_output s)) ss\<rparr>)
                   (r\<lparr>lr_steps := lr_steps r @ ss\<rparr>) w))"

text \<open>The tools that are offered: none when no candidate model can call tools.\<close>

definition offered :: "(request \<Rightarrow> bool) option \<Rightarrow> registry \<Rightarrow> string list option \<Rightarrow> request \<Rightarrow> pyval list \<times> bool" where
  "offered tools_ok R allowed q =
     (let sp = specs allowed R in
      case tools_ok of
        None \<Rightarrow> (sp, False)
      | Some ok \<Rightarrow> (if sp \<noteq> [] \<and> \<not> ok q then ([], True) else (sp, False)))"

definition run_tool_loop ::
  "(request \<Rightarrow> 'x tool_world \<Rightarrow> completion outcome \<times> 'x tool_world) \<Rightarrow> 'x exec_env \<Rightarrow> request \<Rightarrow>
     string list option \<Rightarrow> string \<Rightarrow> int \<Rightarrow> real option \<Rightarrow> 'x approver \<Rightarrow> permission \<Rightarrow>
     (request \<Rightarrow> bool) option \<Rightarrow> 'x tool_world \<Rightarrow> loop_result outcome \<times> 'x tool_world" where
  "run_tool_loop route X q allowed caller max_steps limit approved max_permission tools_ok w =
     (let allow = Some (case allowed of None \<Rightarrow> [] | Some xs \<Rightarrow> xs) in
      case offered tools_ok (tw_registry w) allow q of
        (sp, skipped) \<Rightarrow>
          tool_turns route (run_one X allow caller approved max_permission) max_steps limit (nat (max_steps + 1))
            (q\<lparr>rq_tools := (if sp \<noteq> [] then rq_tools q @ sp else rq_tools q), rq_stream := False\<rparr>)
            (result_new skipped) w)"

section \<open>Lemmas\<close>

lemma step_of_id: "step_of X c args out = Some s \<Longrightarrow> ts_call_id s = tc_id c"
  by (cases "(X, c, args, out)" rule: step_of.cases) (auto simp: refused_step_def)

lemma run_one_id: "run_one X allowed caller approved mp c w = (Some s, w') \<Longrightarrow> ts_call_id s = tc_id c"
  unfolding run_one_def
  by (auto split: sum.splits prod.splits if_splits bool.splits dest: step_of_id simp: refused_step_def)

text \<open>All the calls of an answer, once done, are answered in their order.\<close>

lemma run_calls_ids:
  assumes "\<And>c w s w'. f c w = (Some s, w') \<Longrightarrow> ts_call_id s = tc_id c"
  shows "run_calls f cs w = ((ss, AllDone), w') \<Longrightarrow> map ts_call_id ss = map tc_id cs"
  by (induction cs arbitrary: w ss)
    (auto split: prod.splits option.splits if_splits dest: assms)

lemma steps_answer:
  "map ts_call_id ss = map tc_id cs \<Longrightarrow> answers cs (map (\<lambda>s. tool_message (ts_call_id s) (out s)) ss)"
proof (induction ss arbitrary: cs)
  case (Cons s ss)
  then obtain c cs' where "cs = c # cs'" by (cases cs) auto
  with Cons show ?case by (simp add: answers_def tool_message_def)
qed (simp add: answers_def)

text \<open>The loop asks only paired conversations: two routes that agree on those give equal runs.\<close>

lemma tool_turns_cong:
  assumes f: "\<And>c w s w'. f c w = (Some s, w') \<Longrightarrow> ts_call_id s = tc_id c"
    and agree: "\<And>q w. paired (rq_messages q) \<Longrightarrow> route q w = route' q w"
  shows "paired (rq_messages q) \<Longrightarrow> tool_turns route f n limit k q r w = tool_turns route' f n limit k q r w"
proof (induction k arbitrary: q r w)
  case (Suc k)
  show ?case
  proof (cases "route q w")
    case (Pair out w1)
    have r': "route' q w = (out, w1)" using agree [OF Suc.prems] Pair by simp
    show ?thesis
    proof (cases out)
      case (Ret resp)
      have next_turn: "tool_turns route f n limit k (q\<lparr>rq_messages := rq_messages q @ assistant_message resp #
            map (\<lambda>s. tool_message (ts_call_id s) (ts_output s)) ss\<rparr>) r2 w2
          = tool_turns route' f n limit k (q\<lparr>rq_messages := rq_messages q @ assistant_message resp #
            map (\<lambda>s. tool_message (ts_call_id s) (ts_output s)) ss\<rparr>) r2 w2"
        if rc: "run_calls f (co_tool_calls resp) w1 = ((ss, AllDone), w2)" for ss w2 r2
      proof (rule Suc.IH)
        have "answers (ms_tool_calls (assistant_message resp)) (map (\<lambda>s. tool_message (ts_call_id s) (ts_output s)) ss)"
          using steps_answer [OF run_calls_ids [OF f rc]] by (simp add: assistant_message_def)
        then show "paired (rq_messages (q\<lparr>rq_messages := rq_messages q @ assistant_message resp #
            map (\<lambda>s. tool_message (ts_call_id s) (ts_output s)) ss\<rparr>))"
          using paired_snoc_turn [OF Suc.prems] by (simp add: is_tool_def assistant_message_def)
      qed
      show ?thesis
      proof (cases "run_calls f (co_tool_calls resp) w1")
        case rc: (Pair x w2)
        obtain ss e where x: "x = (ss, e)" by (cases x)
        show ?thesis using next_turn rc by (cases e) (simp_all add: Pair r' Ret x Let_def)
      qed
    qed (simp_all add: Pair r')
  qed
qed simp

section \<open>Properties\<close>

text \<open>
  C34. The model is only ever shown a conversation in which every tool call has its result: starting
  from such a conversation, whatever the model answers, the tools do and the approver decides, the
  loop's run depends on \<open>route\<close> only through its answers to such conversations.
\<close>

theorem tool_loop_asks_paired:
  assumes "paired (rq_messages q)" and "\<And>q w. paired (rq_messages q) \<Longrightarrow> route q w = route' q w"
  shows "run_tool_loop route X q allowed caller max_steps limit approved mp tools_ok w
       = run_tool_loop route' X q allowed caller max_steps limit approved mp tools_ok w"
proof -
  have "tool_turns route (run_one X al caller approved mp) max_steps limit k (q\<lparr>rq_tools := ts, rq_stream := False\<rparr>) r w
     = tool_turns route' (run_one X al caller approved mp) max_steps limit k (q\<lparr>rq_tools := ts, rq_stream := False\<rparr>) r w"
    for al k ts r
    by (rule tool_turns_cong) (use assms run_one_id in auto)
  then show ?thesis unfolding run_tool_loop_def Let_def by (simp split: prod.split)
qed

definition exec_env0 :: "int exec_env" where
  "exec_env0 = \<lparr>xe_tools = tool_env0, xe_loads = (\<lambda>s. Inr (PDict [])), xe_str = (\<lambda>e. []), xe_scan = (\<lambda>t. [])\<rparr>"

text \<open>A model that calls a tool once, and then answers; and one that fails on unpaired conversations.\<close>

definition chatty :: "request \<Rightarrow> int tool_world \<Rightarrow> completion outcome \<times> int tool_world" where
  "chatty q w = (Ret \<lparr>co_content = [], co_model = ''m'', co_provider = ''p'', co_input_tokens = 1,
     co_output_tokens = 1, co_cost_usd = 1, co_latency_ms = 1, co_cached = False, co_failed_over_from = None,
     co_hedged = False, co_original_cost_usd = None,
     co_tool_calls = (if length (rq_messages q) = 1
        then [\<lparr>tc_id = ''c1'', tc_name = ''drop'', tc_arguments = None\<rparr>] else [])\<rparr>, w)"

definition picky :: "request \<Rightarrow> int tool_world \<Rightarrow> completion outcome \<times> int tool_world" where
  "picky q w = (if paired (rq_messages q) then chatty q w else (Cancel, w))"

theorem tool_loop_asks_paired_witness:
  "run_tool_loop picky exec_env0 plain_request (Some [''*'']) ''bot'' 5 None (\<lambda>c n a w. (True, w)) DESTRUCTIVE None
       \<lparr>tw_registry = one_tool, tw_ext = 0\<rparr>
   = run_tool_loop chatty exec_env0 plain_request (Some [''*'']) ''bot'' 5 None (\<lambda>c n a w. (True, w)) DESTRUCTIVE None
       \<lparr>tw_registry = one_tool, tw_ext = 0\<rparr>"
  by (rule tool_loop_asks_paired)
    (simp_all add: picky_def plain_request_def plain_message_def paired_def turns_def add_to_turns_def is_tool_def)

end
