(* ===== verification/Mcp.thy ===== *)
theory Mcp
  imports Executor
begin

text \<open>
  \<open>src/tools/mcp.py\<close>: the MCP server over the tool registry. The approval store is the first part of
  the world's extension. The stdio loop and the JSON texts of the replies are not modelled.
\<close>

section \<open>The server\<close>

type_synonym 'y mcp_world = "(approval_store \<times> 'y) tool_world"

text \<open>\<open>uuid\<close> and \<open>json.dumps\<close> are parameters.\<close>

record 'y mcp_server =
  mc_tools :: "(approval_store \<times> 'y) tool_env"
  mc_allowed_for :: "string \<Rightarrow> string list"
  mc_has_approvals :: bool
  mc_max_permission :: permission
  mc_new_id :: "'y mcp_world \<Rightarrow> string"
  mc_dumps :: "pyval \<Rightarrow> string"

datatype mcp_reply =
    RpcError int
  | Initialized
  | Pong
  | ToolList "tool list"
  | ToolText string
  | ToolFailure tool_error
  | NoApprovals string
  | NeedsHuman string
  | McpRaises
  | McpCancelled

definition on_approvals :: "(approval_store \<Rightarrow> 'r \<times> approval_store) \<Rightarrow> 'y mcp_world \<Rightarrow> 'r \<times> 'y mcp_world" where
  "on_approvals f w =
     (case f (fst (tw_ext w)) of (r, s) \<Rightarrow> (r, w\<lparr>tw_ext := (s, snd (tw_ext w))\<rparr>))"

definition spend_approval :: "'y mcp_server \<Rightarrow> string \<Rightarrow> string \<Rightarrow> pyval \<Rightarrow> 'y mcp_world \<Rightarrow> bool \<times> 'y mcp_world" where
  "spend_approval M caller name args w =
     (if mc_has_approvals M
      then on_approvals (consume_approval (mc_dumps M) (te_clock (mc_tools M) w) caller name args) w else (False, w))"

text \<open>\<open>_call\<close>: the approval, if there is one, is spent before the registry looks at the call.\<close>

definition mcp_call :: "'y mcp_server \<Rightarrow> string \<Rightarrow> string \<Rightarrow> pyval \<Rightarrow> 'y mcp_world \<Rightarrow> mcp_reply \<times> 'y mcp_world" where
  "mcp_call M caller name args w =
     (case spend_approval M caller name args w of (approved, w) \<Rightarrow>
        (case call_tool (mc_tools M) name args (Some (mc_allowed_for M caller)) caller approved
                (mc_max_permission M) w of
           (CallOk r, w) \<Rightarrow> (ToolText (tr_content r), w)
         | (CallCancelled, w) \<Rightarrow> (McpCancelled, w)
         | (CallErr (ApprovalRequired n), w) \<Rightarrow>
             (if \<not> mc_has_approvals M then (NoApprovals n, w)
              else case on_approvals (request_approval (mc_dumps M) (te_clock (mc_tools M) w) (mc_new_id M w)
                          caller name args) w of
                  (Inl e, w) \<Rightarrow> (McpRaises, w)
                | (Inr a, w) \<Rightarrow> (NeedsHuman (ap_id a), w))
         | (CallErr e, w) \<Rightarrow> (ToolFailure e, w)))"

fun is_dict :: "pyval \<Rightarrow> bool" where
  "is_dict (PDict d) = True"
| "is_dict _ = False"

definition call_params :: "'y mcp_server \<Rightarrow> string \<Rightarrow> pyval \<Rightarrow> 'y mcp_world \<Rightarrow> mcp_reply \<times> 'y mcp_world" where
  "call_params M caller params w =
     (if \<not> is_dict params then (McpRaises, w)
      else case dict_get params ''name'' of
          PStr name \<Rightarrow> mcp_call M caller name (or_else (dict_get params ''arguments'') (PDict [])) w
        | _ \<Rightarrow> (RpcError (- 32602), w))"

text \<open>One message: the id of the reply and the reply, or nothing for a notification.\<close>

definition handle :: "'y mcp_server \<Rightarrow> string \<Rightarrow> pyval \<Rightarrow> 'y mcp_world \<Rightarrow> (pyval \<times> mcp_reply) option \<times> 'y mcp_world" where
  "handle M caller message w =
     (case message of
        PDict d \<Rightarrow>
          (if dict_get message ''jsonrpc'' \<noteq> PStr ''2.0'' then (Some (PNone, RpcError (- 32600)), w)
           else (let meth = dict_get message ''method''; mid = dict_get message ''id'';
                     params = or_else (dict_get message ''params'') (PDict [])
                 in if meth = PStr ''initialize'' then (Some (mid, Initialized), w)
                    else if meth = PStr ''ping'' then (Some (mid, Pong), w)
                    else if \<not> od_has d ''id'' then (None, w)
                    else if meth = PStr ''tools/list''
                    then (Some (mid, ToolList (visible (Some (mc_allowed_for M caller)) (tw_registry w))), w)
                    else if meth = PStr ''tools/call''
                    then (case call_params M caller params w of (r, w) \<Rightarrow> (Some (mid, r), w))
                    else (Some (mid, RpcError (- 32601)), w)))
      | _ \<Rightarrow> (Some (PNone, RpcError (- 32600)), w))"

section \<open>No destructive call without an approval\<close>

lemma refused_destructive:
  assumes "od_get (rg_tools (tw_registry w)) name = Some t" "tl_permission t = DESTRUCTIVE"
  shows "\<exists>e. call_tool E name args allowed caller False mp w
      = (CallErr e, on_registry (audit caller name args (CallErr e)) w)"
proof -
  have "\<not> may_run E name args allowed False mp (tw_registry w)" using assms by (simp add: may_run_def)
  from screen_call_refuses [OF this] show ?thesis by (auto simp: call_tool_def checked_call_def)
qed

text \<open>The tool call a message asks for, if it is one that is carried out.\<close>

definition message_call :: "pyval \<Rightarrow> (string \<times> pyval) option" where
  "message_call message =
     (case message of
        PDict d \<Rightarrow>
          (if dict_get message ''jsonrpc'' = PStr ''2.0'' \<and> dict_get message ''method'' = PStr ''tools/call'' \<and> od_has d ''id''
           then (let params = or_else (dict_get message ''params'') (PDict [])
                 in case (params, dict_get params ''name'') of
                      (PDict _, PStr name) \<Rightarrow> Some (name, or_else (dict_get params ''arguments'') (PDict []))
                    | _ \<Rightarrow> None)
           else None)
      | _ \<Rightarrow> None)"

lemma handle_call:
  assumes "message_call message = Some (name, args)"
  shows "handle M caller message w
     = (Some (dict_get message ''id'', fst (mcp_call M caller name args w)), snd (mcp_call M caller name args w))"
proof (cases message)
  case (PDict d)
  define params where "params = or_else (dict_get message ''params'') (PDict [])"
  have m: "dict_get message ''jsonrpc'' = PStr ''2.0''" "dict_get message ''method'' = PStr ''tools/call''" "od_has d ''id''"
    and p: "(case (params, dict_get params ''name'') of
                      (PDict _, PStr name) \<Rightarrow> Some (name, or_else (dict_get params ''arguments'') (PDict []))
                    | _ \<Rightarrow> None) = Some (name, args)"
    using assms unfolding message_call_def PDict params_def Let_def by (auto split: if_splits)
  have "call_params M caller params w = mcp_call M caller name args w"
    using p by (cases params; cases "dict_get params ''name''") (simp_all add: call_params_def)
  then have "handle M caller (PDict d) w = (case mcp_call M caller name args w of
      (r, w) \<Rightarrow> (Some (dict_get (PDict d) ''id'', r), w))"
    using m unfolding handle_def params_def PDict by (simp add: Let_def del: od_has_iff)
  then show ?thesis by (simp add: PDict case_prod_unfold)
qed (use assms in \<open>simp_all add: message_call_def\<close>)

text \<open>Any other message changes nothing and runs nothing.\<close>

lemma handle_other:
  assumes "message_call message = None"
  shows "\<exists>reply. (\<forall>i txt. reply \<noteq> Some (i, ToolText txt))
     \<and> handle M caller message w = (reply, w) \<and> handle (M\<lparr>mc_tools := (mc_tools M)\<lparr>te_handler := h\<rparr>\<rparr>) caller message w = (reply, w)"
proof (cases message)
  case (PDict d)
  define params where "params = or_else (dict_get (PDict d) ''params'') (PDict [])"
  have "call_params N caller params w = (if is_dict params then RpcError (- 32602) else McpRaises, w)"
    if "dict_get (PDict d) ''jsonrpc'' = PStr ''2.0''" "dict_get (PDict d) ''method'' = PStr ''tools/call''" "od_has d ''id''" for N :: "'a mcp_server"
    using assms that by (cases params; cases "dict_get params ''name''")
      (simp_all add: call_params_def message_call_def PDict params_def [symmetric] Let_def del: od_has_iff)
  then show ?thesis
    unfolding handle_def PDict pyval.case Let_def params_def [symmetric]
    by (cases "dict_get (PDict d) ''jsonrpc'' = PStr ''2.0''"; cases "od_has d ''id''";
        cases "dict_get (PDict d) ''method'' = PStr ''tools/call''") (auto simp del: od_has_iff)
qed (simp_all add: handle_def)

text \<open>The approval of a call is spent: afterwards there is one unspent approval of exactly this call less.\<close>

definition approval_spent :: "'y mcp_server \<Rightarrow> string \<Rightarrow> string \<Rightarrow> pyval \<Rightarrow> 'y mcp_world \<Rightarrow> 'y mcp_world \<Rightarrow> bool" where
  "approval_spent M caller name args w w1 \<longleftrightarrow>
     mc_has_approvals M
   \<and> w1 = w\<lparr>tw_ext := (fst (tw_ext w1), snd (tw_ext w))\<rparr>
   \<and> unspent (mc_dumps M) (fingerprint (mc_dumps M) caller name args) (as_items (fst (tw_ext w1))) + 1
       \<le> unspent (mc_dumps M) (fingerprint (mc_dumps M) caller name args) (as_items (fst (tw_ext w)))"

lemma spend_keeps_registry: "tw_registry (snd (spend_approval M caller name args w)) = tw_registry w"
  by (simp add: spend_approval_def on_approvals_def case_prod_unfold)

lemma spend_cases:
  assumes "store_ok (fst (tw_ext w))"
  obtains (no) s where "spend_approval M caller name args w = (False, w\<lparr>tw_ext := (s, snd (tw_ext w))\<rparr>)"
  | (yes) w1 where "spend_approval M caller name args w = (True, w1)" "approval_spent M caller name args w w1"
proof (cases "mc_has_approvals M")
  case False
  then show thesis using no [of "fst (tw_ext w)"] by (simp add: spend_approval_def)
next
  case True
  obtain ok s where c: "consume_approval (mc_dumps M) (te_clock (mc_tools M) w) caller name args (fst (tw_ext w)) = (ok, s)"
    by fastforce
  have sp: "spend_approval M caller name args w = (ok, w\<lparr>tw_ext := (s, snd (tw_ext w))\<rparr>)"
    using True c by (simp add: spend_approval_def on_approvals_def)
  show thesis
  proof (cases ok)
    case False
    then show thesis using no sp by simp
  next
    case ok: True
    have "unspent (mc_dumps M) (fingerprint (mc_dumps M) caller name args) (as_items s) + 1
        \<le> unspent (mc_dumps M) (fingerprint (mc_dumps M) caller name args) (as_items (fst (tw_ext w)))"
      using conjunct2 [OF consume_ok [OF assms, of "mc_dumps M" "te_clock (mc_tools M) w" caller name args
            "fingerprint (mc_dumps M) caller name args"]] c ok by simp
    then show thesis using yes [of "w\<lparr>tw_ext := (s, snd (tw_ext w))\<rparr>"] sp ok True by (simp add: approval_spent_def)
  qed
qed

text \<open>What a call that runs without an approval leaves: the audit log and the approvals apart, the old world.\<close>

lemma mcp_call_kept:
  assumes t: "od_get (rg_tools (tw_registry w)) name = Some t" "tl_permission t = DESTRUCTIVE"
    and sp: "spend_approval M caller name args w = (False, w\<lparr>tw_ext := (s, snd (tw_ext w))\<rparr>)"
  shows "\<exists>reply log s. mcp_call M caller name args w
      = (reply, w\<lparr>tw_registry := (tw_registry w)\<lparr>rg_calls := log\<rparr>, tw_ext := (s, snd (tw_ext w))\<rparr>)
      \<and> (\<forall>txt. reply \<noteq> ToolText txt)"
proof -
  define w1 where "w1 = w\<lparr>tw_ext := (s, snd (tw_ext w))\<rparr>"
  from refused_destructive [of w1 name t "mc_tools M" args "Some (mc_allowed_for M caller)" caller "mc_max_permission M"] t
  obtain e where e: "call_tool (mc_tools M) name args (Some (mc_allowed_for M caller)) caller False (mc_max_permission M) w1
      = (CallErr e, on_registry (audit caller name args (CallErr e)) w1)"
    by (auto simp: w1_def)
  obtain log where log: "on_registry (audit caller name args (CallErr e)) w1
      = w\<lparr>tw_registry := (tw_registry w)\<lparr>rg_calls := log\<rparr>, tw_ext := (s, snd (tw_ext w))\<rparr>"
  proof (cases "rg_has_on_call (tw_registry w)")
    case True
    then show ?thesis using that [of "rg_calls (tw_registry w) @ [(caller, name, args, CallErr e)]"]
      by (simp add: on_registry_def audit_def w1_def)
  next
    case False
    then show ?thesis using that [of "rg_calls (tw_registry w)"] by (simp add: on_registry_def audit_def w1_def)
  qed
  show ?thesis
    unfolding mcp_call_def sp [folded w1_def] prod.case e call_outcome.case log
    by (cases e) (auto simp: on_approvals_def split: prod.split sum.split)
qed

text \<open>A call does not depend on the handlers of destructive tools unless it is of one and has an approval.\<close>

lemma mcp_call_no_handler:
  assumes harmless: "\<And>t a w. tl_permission t \<noteq> DESTRUCTIVE \<Longrightarrow> h t a w = te_handler (mc_tools M) t a w"
    and sp: "spend_approval M caller name args w = (ok, w1)" "tw_registry w1 = tw_registry w"
    and t: "\<And>t. ok \<Longrightarrow> od_get (rg_tools (tw_registry w)) name = Some t \<Longrightarrow> tl_permission t \<noteq> DESTRUCTIVE"
  shows "mcp_call (M\<lparr>mc_tools := (mc_tools M)\<lparr>te_handler := h\<rparr>\<rparr>) caller name args w = mcp_call M caller name args w"
proof -
  define M' where "M' = M\<lparr>mc_tools := (mc_tools M)\<lparr>te_handler := h\<rparr>\<rparr>"
  have same: "mc_has_approvals M' = mc_has_approvals M" "mc_dumps M' = mc_dumps M" "mc_new_id M' = mc_new_id M"
    "mc_allowed_for M' = mc_allowed_for M" "mc_max_permission M' = mc_max_permission M"
    "te_clock (mc_tools M') = te_clock (mc_tools M)" by (simp_all add: M'_def)
  have tools: "mc_tools M' = (mc_tools M)\<lparr>te_handler := h\<rparr>" by (simp add: M'_def)
  have sp': "spend_approval M' caller name args w = (ok, w1)"
    using sp(1) unfolding spend_approval_def same .
  have ct: "call_tool (mc_tools M') name args al caller ok mp w1 = call_tool (mc_tools M) name args al caller ok mp w1" for al mp
    unfolding tools
    by (rule call_tool_handler) (use harmless t sp(2) in auto)
  have "mcp_call M' caller name args w = mcp_call M caller name args w"
    unfolding mcp_call_def sp' sp(1) prod.case same ct by (rule refl)
  then show ?thesis by (simp only: M'_def)
qed

section \<open>Properties\<close>


definition mcp0 :: "int mcp_server" where
  "mcp0 = \<lparr>mc_tools = \<lparr>te_clock = (\<lambda>w. 10), te_handler = (\<lambda>t a w. (HText ''done'', w)), te_schema = (\<lambda>a s. None),
     te_dumps = (\<lambda>v. [])\<rparr>, mc_allowed_for = (\<lambda>c. [''*'']), mc_has_approvals = True,
     mc_max_permission = DESTRUCTIVE, mc_new_id = (\<lambda>w. ''1''), mc_dumps = (\<lambda>v. [])\<rparr>"

definition mcp_world0 :: "int mcp_world" where
  "mcp_world0 = \<lparr>tw_registry = one_tool, tw_ext = (no_approvals, 0)\<rparr>"

text \<open>A call without an approval, and one with the approval of a human.\<close>

definition drop_message :: pyval where
  "drop_message = PDict [(''jsonrpc'', PStr ''2.0''), (''id'', PInt 1), (''method'', PStr ''tools/call''),
     (''params'', PDict [(''name'', PStr ''drop'')])]"

lemma drop_message_call: "message_call drop_message = Some (''drop'', PDict [])"
  by (simp add: drop_message_def message_call_def dict_get_def or_else_def)


text \<open>
  A call that the registry refuses for another reason spends the approval all the same: here an
  approved call over the rate limit of its tool, which then has to be approved again.
\<close>

definition approved_once :: approval_store where
  "approved_once = no_approvals\<lparr>as_items := [(''1'', \<lparr>ap_id = ''1'', ap_caller = ''bot'', ap_tool = ''drop'',
     ap_arguments = PDict [], ap_created = 0, ap_status = APPROVED, ap_decided_by = Some ''ann''\<rparr>)]\<rparr>"

definition busy_world :: "int mcp_world" where
  "busy_world = \<lparr>tw_registry = one_tool\<lparr>rg_hits := [((''bot'', ''drop''), [1, 2])]\<rparr>, tw_ext = (approved_once, 0)\<rparr>"

lemma refused_call_spends_approval:
  "\<exists>w'. mcp_call mcp0 ''bot'' ''drop'' (PDict []) busy_world = (ToolFailure (RateExceeded ''drop'' 2), w')
     \<and> unspent (\<lambda>v. []) ''bot|drop|'' (as_items (fst (tw_ext w'))) = 0"
  by (simp add: mcp_call_def spend_approval_def on_approvals_def mcp0_def busy_world_def approved_once_def
      no_approvals_def consume_approval_def sweep_def od_drop_where_def find_call_def same_call_def print_of_def
      fingerprint_def Let_def od_map_at_def call_tool_def checked_call_def screen_call_def one_tool_def
      drop_table_def allows_def check_rate_def hits_with_room_def MAX_RATE_LIMIT_KEYS_def on_registry_def
      audit_def unspent_def)

end
