(* ===== verification/Run_Store.thy ===== *)
theory Run_Store
  imports Executor
begin

text \<open>
  \<open>src/harness/store.py\<close> and \<open>src/harness/config.py\<close>: agent definitions, the table of runs with their
  checkpoints, and the trace of events. A row of the table is a record; SQL statements on it are
  functions, and a transaction is one of them. The JSON text of a history is read as the value it
  encodes. Workflow history is not modelled.
\<close>

section \<open>Agent definitions\<close>

record agent_def =
  ag_name :: string
  ag_system_prompt :: string
  ag_model :: "string option"
  ag_allowed_tools :: "string list"
  ag_max_steps :: int
  ag_max_cost_usd :: "real option"
  ag_max_total_tokens :: "int option"
  ag_deadline_s :: "real option"
  ag_context_tokens :: nat
  ag_keep_recent :: nat
  ag_max_tokens :: int
  ag_temperature :: real
  ag_stall_repeats :: nat
  ag_approval_tools :: "string list"
  ag_local :: bool
  ag_summarize :: bool
  ag_plan :: bool
  ag_plan_max_steps :: nat
  ag_ask_when_uncertain :: bool
  ag_memory_ns :: "string option"
  ag_memory_recall :: nat

text \<open>\<open>effective\<close>: the caps of a small local model only ever lower limits.\<close>

definition effective :: "agent_def \<Rightarrow> agent_def" where
  "effective a =
     (if \<not> ag_local a then a
      else a\<lparr>ag_max_steps := min (ag_max_steps a) 8, ag_context_tokens := min (ag_context_tokens a) 6000,
             ag_max_tokens := min (ag_max_tokens a) 512\<rparr>)"

section \<open>Histories as stored\<close>

definition dump_call :: "tool_call \<Rightarrow> pyval" where
  "dump_call c = PDict ([(''id'', PStr (tc_id c)), (''name'', PStr (tc_name c))] @
     (case tc_arguments c of None \<Rightarrow> [] | Some a \<Rightarrow> [(''arguments'', PStr a)]))"

text \<open>\<open>dump\<close>: images and absent fields are left out.\<close>

definition dump_message :: "message \<Rightarrow> pyval" where
  "dump_message m = PDict ([(''role'', PStr (ms_role m)), (''content'', PStr (ms_content m))] @
     (if ms_tool_calls m = [] then [] else [(''tool_calls'', PList (map dump_call (ms_tool_calls m)))]) @
     (case ms_tool_call_id m of None \<Rightarrow> [] | Some i \<Rightarrow> [(''tool_call_id'', PStr i)]))"

definition dump_messages :: "message list \<Rightarrow> pyval" where
  "dump_messages ms = PList (map dump_message ms)"

definition load_call :: "pyval \<Rightarrow> tool_call option" where
  "load_call v =
     (case (dict_get v ''id'', dict_get v ''name'', dict_get v ''arguments'') of
        (PStr i, PStr n, PStr a) \<Rightarrow> Some \<lparr>tc_id = i, tc_name = n, tc_arguments = Some a\<rparr>
      | (PStr i, PStr n, PNone) \<Rightarrow> Some \<lparr>tc_id = i, tc_name = n, tc_arguments = None\<rparr>
      | _ \<Rightarrow> None)"

definition load_calls :: "pyval \<Rightarrow> tool_call list option" where
  "load_calls v = (case v of PNone \<Rightarrow> Some [] | PList cs \<Rightarrow> all_some (map load_call cs) | _ \<Rightarrow> None)"

text \<open>\<open>Message(**d)\<close>: \<open>role\<close> and \<open>content\<close> are required, an unknown key is an error.\<close>

definition MESSAGE_FIELDS :: "string list" where
  "MESSAGE_FIELDS = [''role'', ''content'', ''tool_calls'', ''tool_call_id'', ''images'']"

definition load_message :: "pyval \<Rightarrow> message option" where
  "load_message v =
     (case v of
        PDict d \<Rightarrow>
          (if \<not> set (od_keys d) \<subseteq> set MESSAGE_FIELDS then None
           else case (dict_get v ''role'', dict_get v ''content'', load_calls (dict_get v ''tool_calls'')) of
               (PStr r, PStr c, Some cs) \<Rightarrow>
                 (case dict_get v ''tool_call_id'' of
                    PStr i \<Rightarrow> Some \<lparr>ms_role = r, ms_content = c, ms_tool_calls = cs, ms_tool_call_id = Some i, ms_images = []\<rparr>
                  | PNone \<Rightarrow> Some \<lparr>ms_role = r, ms_content = c, ms_tool_calls = cs, ms_tool_call_id = None, ms_images = []\<rparr>
                  | _ \<Rightarrow> None)
             | _ \<Rightarrow> None)
      | _ \<Rightarrow> None)"

definition load_messages :: "pyval \<Rightarrow> message list option" where
  "load_messages v = (case v of PList xs \<Rightarrow> all_some (map load_message xs) | _ \<Rightarrow> None)"

definition without_images :: "message \<Rightarrow> message" where
  "without_images m = m\<lparr>ms_images := []\<rparr>"

section \<open>Runs and traces\<close>

datatype run_status = RUNNING | PAUSED | WAITING_APPROVAL | COMPLETED | CANCELLED | FAILED

definition ACTIVE :: "run_status set" where
  "ACTIVE = {RUNNING, PAUSED, WAITING_APPROVAL}"

datatype trace_event =
    RunStarted string string
  | Started int
  | Resumed int
  | PlanMade nat real
  | ContextCompacted nat nat
  | ModelCalled int string string real nat
  | HumanDecision string bool
  | ToolRan int string bool "string option"
  | ApprovalAsked string string
  | Checkpointed int
  | PausedAt int
  | RunFailed exn
  | RunFinished string "int option"

record run_row =
  rr_agent :: string
  rr_owner :: string
  rr_status :: run_status
  rr_stop_reason :: "string option"
  rr_step :: int
  rr_cost_usd :: real
  rr_input_tokens :: int
  rr_output_tokens :: int
  rr_control :: string
  rr_pending :: "tool_call list option"
  rr_messages :: pyval
  rr_result :: "string option"
  rr_created :: time
  rr_updated :: time
  rr_deadline :: "time option"

text \<open>\<open>rs_bus\<close> records what \<open>run.finished\<close> notifications went to the event bus.\<close>

record run_store =
  rs_runs :: "(string, run_row) odict"
  rs_events :: "(string \<times> nat \<times> trace_event) list"
  rs_bus :: "(string \<times> run_status \<times> string) list"

definition create_run ::
  "string \<Rightarrow> time \<Rightarrow> string \<Rightarrow> string \<Rightarrow> message list \<Rightarrow> time option \<Rightarrow> run_store \<Rightarrow> run_store" where
  "create_run rid now agent owner ms deadline s =
     s\<lparr>rs_runs := od_set rid
        \<lparr>rr_agent = agent, rr_owner = owner, rr_status = RUNNING, rr_stop_reason = None, rr_step = 0,
         rr_cost_usd = 0, rr_input_tokens = 0, rr_output_tokens = 0, rr_control = [], rr_pending = None,
         rr_messages = dump_messages ms, rr_result = None, rr_created = now, rr_updated = now,
         rr_deadline = deadline\<rparr> (rs_runs s)\<rparr>"

definition get_run :: "run_store \<Rightarrow> string \<Rightarrow> run_row option" where
  "get_run s rid = od_get (rs_runs s) rid"

text \<open>\<open>store.messages\<close>: \<open>None\<close> is the exception of a stored history that does not load.\<close>

definition messages_of :: "run_row \<Rightarrow> message list option" where
  "messages_of r = load_messages (rr_messages r)"

text \<open>\<open>UPDATE runs SET .. WHERE id = ..\<close>.\<close>

definition update_run :: "string \<Rightarrow> time \<Rightarrow> (run_row \<Rightarrow> run_row) \<Rightarrow> run_store \<Rightarrow> run_store" where
  "update_run rid now f s =
     s\<lparr>rs_runs := od_map_at rid (\<lambda>r. (f r)\<lparr>rr_updated := now\<rparr>) (rs_runs s)\<rparr>"

definition request_control :: "string \<Rightarrow> string \<Rightarrow> run_store \<Rightarrow> bool \<times> run_store" where
  "request_control rid control s =
     (case get_run s rid of
        None \<Rightarrow> (False, s)
      | Some r \<Rightarrow>
          (if rr_status r \<in> ACTIVE
           then (True, s\<lparr>rs_runs := od_map_at rid (\<lambda>r. r\<lparr>rr_control := control\<rparr>) (rs_runs s)\<rparr>)
           else (False, s)))"

definition owned_by :: "string option \<Rightarrow> run_row \<Rightarrow> bool" where
  "owned_by owner r \<longleftrightarrow> (case owner of None \<Rightarrow> True | Some n \<Rightarrow> n = [] \<or> rr_owner r = n)"

definition kill_runs :: "string option \<Rightarrow> run_store \<Rightarrow> nat \<times> run_store" where
  "kill_runs owner s =
     (let hit = (\<lambda>r. rr_status r \<in> ACTIVE \<and> owned_by owner r)
      in (length (filter hit (map snd (rs_runs s))),
          s\<lparr>rs_runs := map (\<lambda>(i, r). (i, if hit r then r\<lparr>rr_control := ''kill''\<rparr> else r)) (rs_runs s)\<rparr>))"

definition interrupted :: "run_store \<Rightarrow> string list" where
  "interrupted s = map fst (filter (\<lambda>(i, r). rr_status r = RUNNING) (rs_runs s))"

text \<open>\<open>SELECT COALESCE(MAX(seq), 0) + 1\<close>.\<close>

definition next_seq :: "string \<Rightarrow> run_store \<Rightarrow> nat" where
  "next_seq rid s = Suc (fold max (map (fst \<circ> snd) (filter (\<lambda>e. fst e = rid) (rs_events s))) 0)"

definition add_event :: "string \<Rightarrow> trace_event \<Rightarrow> run_store \<Rightarrow> run_store" where
  "add_event rid ev s = s\<lparr>rs_events := rs_events s @ [(rid, next_seq rid s, ev)]\<rparr>"

definition events_after :: "string \<Rightarrow> nat \<Rightarrow> run_store \<Rightarrow> (nat \<times> trace_event) list" where
  "events_after rid n s = sort_key fst (map snd (filter (\<lambda>e. fst e = rid \<and> fst (snd e) > n) (rs_events s)))"

section \<open>Comparing traces\<close>

text \<open>\<open>diff_traces\<close>: type, tool or model, success and reason of an event, checkpoints left out.\<close>

fun event_sig :: "trace_event \<Rightarrow> string \<times> string option \<times> bool option \<times> string option" where
  "event_sig (RunStarted a n) = (''run_started'', None, None, None)"
| "event_sig (Started n) = (''started'', None, None, None)"
| "event_sig (Resumed n) = (''resumed'', None, None, None)"
| "event_sig (PlanMade n c) = (''plan'', None, None, None)"
| "event_sig (ContextCompacted n k) = (''context_compacted'', None, None, None)"
| "event_sig (ModelCalled n m p c k) = (''model_call'', Some m, None, None)"
| "event_sig (HumanDecision t b) = (''approval'', Some t, None, None)"
| "event_sig (ToolRan n t b e) = (''tool_call'', Some t, Some b, None)"
| "event_sig (ApprovalAsked t i) = (''approval_requested'', Some t, None, None)"
| "event_sig (Checkpointed n) = (''checkpoint'', None, None, None)"
| "event_sig (PausedAt n) = (''paused'', None, None, None)"
| "event_sig (RunFailed e) = (''error'', None, None, None)"
| "event_sig (RunFinished r n) = (''run_finished'', None, None, Some r)"

definition trace_sigs :: "trace_event list \<Rightarrow> (string \<times> string option \<times> bool option \<times> string option) list" where
  "trace_sigs evs = filter (\<lambda>s. fst s \<noteq> ''checkpoint'') (map event_sig evs)"

fun diff_sigs :: "nat \<Rightarrow> 'a list \<Rightarrow> 'a list \<Rightarrow> (nat \<times> 'a option \<times> 'a option) list" where
  "diff_sigs i [] [] = []"
| "diff_sigs i (x # xs) [] = (i, Some x, None) # diff_sigs (Suc i) xs []"
| "diff_sigs i [] (y # ys) = (i, None, Some y) # diff_sigs (Suc i) [] ys"
| "diff_sigs i (x # xs) (y # ys) = (if x = y then [] else [(i, Some x, Some y)]) @ diff_sigs (Suc i) xs ys"

definition diff_traces :: "trace_event list \<Rightarrow> trace_event list \<Rightarrow>
    (nat \<times> (string \<times> string option \<times> bool option \<times> string option) option
       \<times> (string \<times> string option \<times> bool option \<times> string option) option) list" where
  "diff_traces a b = diff_sigs 0 (trace_sigs a) (trace_sigs b)"

lemma diff_sigs_empty: "diff_sigs i xs ys = [] \<longleftrightarrow> xs = ys"
  by (induction i xs ys rule: diff_sigs.induct) auto

section \<open>Lemmas\<close>

lemma effective_lowers: "ag_max_steps (effective a) \<le> ag_max_steps a"
  "ag_context_tokens (effective a) \<le> ag_context_tokens a" "ag_max_tokens (effective a) \<le> ag_max_tokens a"
  by (simp_all add: effective_def)

lemma all_some_map: "(\<And>x. x \<in> set xs \<Longrightarrow> f (g x) = Some (h x)) \<Longrightarrow> all_some (map f (map g xs)) = Some (map h xs)"
  by (induction xs) simp_all

lemma load_dump_call: "load_call (dump_call c) = Some c"
  by (simp add: load_call_def dump_call_def dict_get_def split: option.split)

lemma load_dump_calls: "all_some (map load_call (map dump_call cs)) = Some cs"
  using all_some_map [of cs load_call dump_call "\<lambda>c. c"] load_dump_call by simp

lemma load_dump_message: "load_message (dump_message m) = Some (without_images m)"
proof -
  have calls: "load_calls (PList (map dump_call cs)) = Some cs" for cs
    using load_dump_calls by (simp add: load_calls_def)
  show ?thesis
    by (cases "ms_tool_calls m"; cases "ms_tool_call_id m")
      (simp_all add: load_message_def dump_message_def dict_get_def MESSAGE_FIELDS_def without_images_def
        calls calls [of "_ # _", simplified] load_calls_def [of PNone])
qed

lemma load_dump_messages: "load_messages (dump_messages ms) = Some (map without_images ms)"
  using all_some_map [of ms load_message dump_message without_images] load_dump_message
  by (simp add: load_messages_def dump_messages_def)

lemma without_images_paired: "paired (map without_images ms) = paired ms"
proof -
  have "list_all2 same_shape ms (map without_images ms)"
    by (induction ms) (simp_all add: same_shape_def without_images_def)
  from shape_paired [OF this] show ?thesis by simp
qed

text \<open>The trace of a run is numbered from one without gaps, whoever writes in between.\<close>

definition seqs_of :: "string \<Rightarrow> run_store \<Rightarrow> nat list" where
  "seqs_of rid s = map (fst \<circ> snd) (filter (\<lambda>e. fst e = rid) (rs_events s))"

lemma fold_max_upt: "fold max [1..<Suc n] (0 :: nat) = n"
  by (induction n) simp_all

lemma seqs_add_event:
  assumes "seqs_of rid s = [1..<Suc n]"
  shows "seqs_of rid (add_event i ev s) = [1..<Suc (if i = rid then Suc n else n)]"
proof -
  have "next_seq rid s = Suc n" using assms fold_max_upt [of n] by (simp only: next_seq_def seqs_of_def)
  then show ?thesis using assms by (simp add: seqs_of_def add_event_def)
qed

section \<open>Properties\<close>

text \<open>
  C36. Histories survive a checkpoint: loading what was dumped gives back every message with its
  role, content, tool calls and the call it answers, in order; only images are lost, and whether
  every tool call is answered does not change.
\<close>

theorem checkpoint_roundtrip:
  "load_messages (dump_messages ms) = Some (map without_images ms)
   \<and> paired (map without_images ms) = paired ms"
  by (simp add: load_dump_messages without_images_paired)

end
