(* ===== verification/Runner.thy ===== *)
theory Runner
  imports Run_Store
begin

text \<open>
  \<open>src/harness/runner.py\<close>: the tool-use loop of an agent run, with limits, pause and kill, human
  decisions, checkpoints and resumption. The run store is the first part of the world's extension;
  model calls, tool handlers and the memory search act on or read the world. Spans, streaming of
  events and the timing fields of events are not modelled.
\<close>

section \<open>World and environment\<close>

type_synonym 'y run_world = "(run_store \<times> 'y) tool_world"

text \<open>
  \<open>rn_route q t\<close> is \<open>wait_for(route(q), t)\<close>; \<open>rn_memory\<close> is the search of the memory store, giving keys
  and values; \<open>rn_raise\<close> names the exceptions Python itself raises.
\<close>

record 'y run_env =
  rn_exec :: "(run_store \<times> 'y) exec_env"
  rn_route :: "request \<Rightarrow> real option \<Rightarrow> 'y run_world \<Rightarrow> completion outcome \<times> 'y run_world"
  rn_time :: "'y run_world \<Rightarrow> time"
  rn_agents :: "(string, agent_def) odict"
  rn_caller :: string
  rn_max_permission :: permission
  rn_memory :: "(string \<Rightarrow> string \<Rightarrow> string \<Rightarrow> nat \<Rightarrow> 'y run_world \<Rightarrow> (string \<times> string) list) option"
  rn_raise :: "string \<Rightarrow> exn"

text \<open>What \<open>_execute\<close> keeps in local variables: the messages and \<open>state\<close>.\<close>

record progress =
  pg_msgs :: "message list"
  pg_step :: int
  pg_cost_usd :: real
  pg_input_tokens :: int
  pg_output_tokens :: int

definition run_store_of :: "'y run_world \<Rightarrow> run_store" where
  "run_store_of w = fst (tw_ext w)"

definition on_store :: "(run_store \<Rightarrow> run_store) \<Rightarrow> 'y run_world \<Rightarrow> 'y run_world" where
  "on_store f w = w\<lparr>tw_ext := (f (fst (tw_ext w)), snd (tw_ext w))\<rparr>"

definition row_of :: "string \<Rightarrow> 'y run_world \<Rightarrow> run_row option" where
  "row_of rid w = get_run (run_store_of w) rid"

definition log_event :: "string \<Rightarrow> trace_event \<Rightarrow> 'y run_world \<Rightarrow> 'y run_world" where
  "log_event rid ev = on_store (add_event rid ev)"

definition set_run :: "'y run_env \<Rightarrow> string \<Rightarrow> (run_row \<Rightarrow> run_row) \<Rightarrow> 'y run_world \<Rightarrow> 'y run_world" where
  "set_run E rid f w = on_store (update_run rid (rn_time E w) f) w"

text \<open>\<open>_checkpoint\<close>: history, state and extra fields in one update, then an event.\<close>

definition book_progress :: "progress \<Rightarrow> run_row \<Rightarrow> run_row" where
  "book_progress pg r = r\<lparr>rr_messages := dump_messages (pg_msgs pg), rr_step := pg_step pg,
     rr_cost_usd := pg_cost_usd pg, rr_input_tokens := pg_input_tokens pg,
     rr_output_tokens := pg_output_tokens pg\<rparr>"

definition save :: "'y run_env \<Rightarrow> string \<Rightarrow> progress \<Rightarrow> (run_row \<Rightarrow> run_row) \<Rightarrow> 'y run_world \<Rightarrow> 'y run_world" where
  "save E rid pg f w = log_event rid (Checkpointed (pg_step pg)) (set_run E rid (\<lambda>r. f (book_progress pg r)) w)"

definition notify_finished :: "string \<Rightarrow> run_status \<Rightarrow> string \<Rightarrow> 'y run_world \<Rightarrow> 'y run_world" where
  "notify_finished rid st reason = on_store (\<lambda>s. s\<lparr>rs_bus := rs_bus s @ [(rid, st, reason)]\<rparr>)"

section \<open>Limits\<close>

definition pause_reason :: "string \<Rightarrow> string option" where
  "pause_reason control = od_get [(''pause'', ''paused''), (''cancel'', ''cancelled''), (''kill'', ''killed'')] control"

definition past_deadline :: "run_row \<Rightarrow> time \<Rightarrow> bool" where
  "past_deadline r now \<longleftrightarrow> (case rr_deadline r of None \<Rightarrow> False | Some d \<Rightarrow> d \<noteq> 0 \<and> now \<ge> d)"

definition over_run_cost :: "agent_def \<Rightarrow> progress \<Rightarrow> bool" where
  "over_run_cost a pg \<longleftrightarrow> (case ag_max_cost_usd a of None \<Rightarrow> False | Some m \<Rightarrow> pg_cost_usd pg \<ge> m)"

definition over_run_tokens :: "agent_def \<Rightarrow> progress \<Rightarrow> bool" where
  "over_run_tokens a pg \<longleftrightarrow>
     (case ag_max_total_tokens a of None \<Rightarrow> False
      | Some m \<Rightarrow> m \<noteq> 0 \<and> pg_input_tokens pg + pg_output_tokens pg \<ge> m)"

definition limit_reason :: "agent_def \<Rightarrow> run_row \<Rightarrow> time \<Rightarrow> progress \<Rightarrow> string option" where
  "limit_reason a r now pg =
     (case pause_reason (rr_control r) of
        Some x \<Rightarrow> Some x
      | None \<Rightarrow>
          (if past_deadline r now then Some ''deadline''
           else if pg_step pg \<ge> ag_max_steps a then Some ''max_steps''
           else if over_run_cost a pg then Some ''cost_limit''
           else if over_run_tokens a pg then Some ''token_limit'' else None))"

definition call_sig :: "message \<Rightarrow> (string \<times> string option) list" where
  "call_sig m = map (\<lambda>c. (tc_name c, tc_arguments c)) (ms_tool_calls m)"

definition stalled :: "message list \<Rightarrow> agent_def \<Rightarrow> bool" where
  "stalled ms a \<longleftrightarrow>
     (let n = ag_stall_repeats a;
          sigs = map call_sig (filter (\<lambda>m. ms_role m = ''assistant'' \<and> ms_tool_calls m \<noteq> []) ms);
          recent = drop (length sigs - n) sigs
      in n > 1 \<and> length sigs \<ge> n \<and> length (remdups recent) = 1)"

section \<open>Ending a run\<close>

definition status_for :: "string \<Rightarrow> run_status" where
  "status_for reason =
     (if reason = ''completed'' then COMPLETED
      else if reason = ''cancelled'' \<or> reason = ''killed'' then CANCELLED else FAILED)"

definition end_run :: "'y run_env \<Rightarrow> string \<Rightarrow> progress \<Rightarrow> string \<Rightarrow> string option \<Rightarrow> 'y run_world \<Rightarrow> 'y run_world" where
  "end_run E rid pg reason result w =
     (if reason = ''paused''
      then log_event rid (PausedAt (pg_step pg))
             (save E rid pg (\<lambda>r. r\<lparr>rr_status := PAUSED, rr_control := [], rr_stop_reason := Some ''paused''\<rparr>) w)
      else notify_finished rid (status_for reason) reason
             (log_event rid (RunFinished reason (Some (pg_step pg)))
               (save E rid pg (\<lambda>r. r\<lparr>rr_status := status_for reason, rr_stop_reason := Some reason,
                  rr_control := [], rr_result := result\<rparr>) w)))"

definition finish_run :: "'y run_env \<Rightarrow> string \<Rightarrow> run_status \<Rightarrow> string \<Rightarrow> 'y run_world \<Rightarrow> 'y run_world" where
  "finish_run E rid st reason w =
     notify_finished rid st reason
       (log_event rid (RunFinished reason None)
         (set_run E rid (\<lambda>r. r\<lparr>rr_status := st, rr_stop_reason := Some reason, rr_control := []\<rparr>) w))"

text \<open>\<open>_wait\<close>: the calls that are left are stored with the run.\<close>

definition wait_for_human :: "'y run_env \<Rightarrow> string \<Rightarrow> progress \<Rightarrow> tool_call list \<Rightarrow> 'y run_world \<Rightarrow> 'y run_world" where
  "wait_for_human E rid pg calls w =
     log_event rid (ApprovalAsked (tc_name (hd calls)) (tc_id (hd calls)))
       (save E rid pg (\<lambda>r. r\<lparr>rr_status := WAITING_APPROVAL, rr_pending := Some calls\<rparr>) w)"

section \<open>Running tools\<close>

definition REVIEW_TOOL :: string where "REVIEW_TOOL = ''request_human_review''"

definition REVIEW_SPEC :: pyval where
  "REVIEW_SPEC = PDict [(''type'', PStr ''function''), (''function'', PDict
     [(''name'', PStr REVIEW_TOOL),
      (''description'', PStr (''Pause and ask a human before continuing. Use when you are unsure '' @
          ''or an action is risky. Give your question and what you would do.'')),
      (''parameters'', PDict
         [(''type'', PStr ''object''),
          (''properties'', PDict [(''question'', PDict [(''type'', PStr ''string'')]),
              (''proposed_action'', PDict [(''type'', PStr ''string'')])]),
          (''required'', PList [PStr ''question''])])])]"

definition say :: "message \<Rightarrow> progress \<Rightarrow> progress" where
  "say m pg = pg\<lparr>pg_msgs := pg_msgs pg @ [m]\<rparr>"

definition review_answer :: "bool \<Rightarrow> string" where
  "review_answer d = (if d then ''Human reviewer approved: proceed.''
     else ''Human reviewer declined; choose another approach.'')"

definition DENIED_TEXT :: string where
  "DENIED_TEXT = ''Denied by human reviewer; do not retry this call.''"

text \<open>
  \<open>_tools\<close>: the calls in order. A decision is about the first call only; the result says whether the
  run now waits for a human.
\<close>

fun run_tools ::
  "'y run_env \<Rightarrow> string \<Rightarrow> agent_def \<Rightarrow> tool_call list \<Rightarrow> bool option \<Rightarrow> progress \<Rightarrow> 'y run_world \<Rightarrow>
     bool outcome \<times> progress \<times> 'y run_world" where
  "run_tools E rid a [] dec pg w = (Ret False, pg, w)"
| "run_tools E rid a (c # cs) dec pg w =
     (if tc_name c = REVIEW_TOOL \<and> ag_ask_when_uncertain a then
        (case dec of
           None \<Rightarrow> (Ret True, pg, wait_for_human E rid pg (c # cs) w)
         | Some d \<Rightarrow> run_tools E rid a cs None (say (tool_message (tc_id c) (review_answer d)) pg)
             (log_event rid (HumanDecision (tc_name c) d) w))
      else if tc_name c \<in> set (ag_approval_tools a) \<and> dec = None then
        (Ret True, pg, wait_for_human E rid pg (c # cs) w)
      else if dec = Some False then
        run_tools E rid a cs None (say (tool_message (tc_id c) DENIED_TEXT) pg)
          (log_event rid (ToolRan (pg_step pg) (tc_name c) False (Some ''denied''))
            (log_event rid (HumanDecision (tc_name c) False) w))
      else
        (case run_one (rn_exec E) (Some (ag_allowed_tools a)) (rn_caller E) (\<lambda>_ _ _ w. (dec = Some True, w))
                (rn_max_permission E) c w of
           (None, w) \<Rightarrow> (Cancel, pg, w)
         | (Some s, w) \<Rightarrow>
             (if ts_error_code s = Some ''approval_required''
              then (Ret True, pg, wait_for_human E rid pg (c # cs) w)
              else run_tools E rid a cs None (say (tool_message (tc_id c) (ts_output s)) pg)
                     (log_event rid (ToolRan (pg_step pg) (tc_name c) (ts_ok s) (ts_error_code s))
                       (if dec = Some True then log_event rid (HumanDecision (tc_name c) True) w else w)))))"

section \<open>Model calls\<close>

definition plain_user :: "string \<Rightarrow> message" where
  "plain_user s = user_note s"

definition agent_request ::
  "agent_def \<Rightarrow> message list \<Rightarrow> string \<Rightarrow> (string \<times> pyval) list \<Rightarrow> pyval list \<Rightarrow> request" where
  "agent_request a ms system meta tools =
     \<lparr>rq_messages = ms, rq_model = ag_model a, rq_max_tokens = ag_max_tokens a, rq_temperature = ag_temperature a,
      rq_stream = False, rq_system_prompt = Some system, rq_metadata = meta, rq_tools = tools,
      rq_tool_choice = PNone, rq_response_format = PNone\<rparr>"

text \<open>\<open>_summarizer\<close>: a request of its own, with neither a timeout nor a place in the run's cost.\<close>

definition summary_request :: "agent_def \<Rightarrow> message list \<Rightarrow> request" where
  "summary_request a dropped =
     \<lparr>rq_messages = [plain_user (''Summarize these earlier agent steps in under 120 words, '' @
          ''keeping facts needed to finish the task:'' @ NL @
          intercalate NL (map (\<lambda>m. ms_role m @ '': '' @ take 400 (ms_content m)) dropped))],
      rq_model = ag_model a, rq_max_tokens = 200, rq_temperature = 0, rq_stream = False,
      rq_system_prompt = None, rq_metadata = [], rq_tools = [], rq_tool_choice = PNone,
      rq_response_format = PNone\<rparr>"

definition summarize :: "'y run_env \<Rightarrow> agent_def \<Rightarrow> message list \<Rightarrow> 'y run_world \<Rightarrow> string outcome \<times> 'y run_world" where
  "summarize E a dropped w =
     (case rn_route E (summary_request a dropped) None w of
        (Ret resp, w) \<Rightarrow> (Ret (co_content resp), w)
      | (Exc e, w) \<Rightarrow> (Exc e, w)
      | (Cancel, w) \<Rightarrow> (Cancel, w))"

definition first_task :: "message list \<Rightarrow> string" where
  "first_task ms = (case find (\<lambda>m. ms_role m = ''user'' \<and> ms_content m \<noteq> []) ms of None \<Rightarrow> [] | Some m \<Rightarrow> ms_content m)"

text \<open>\<open>_system\<close>: recalled memories are appended as untrusted text of the kind \<open>memory\<close>.\<close>

definition system_prompt :: "'y run_env \<Rightarrow> agent_def \<Rightarrow> run_row \<Rightarrow> message list \<Rightarrow> 'y run_world \<Rightarrow> string" where
  "system_prompt E a row ms w =
     (case (rn_memory E, ag_memory_ns a) of
        (Some search, Some ns) \<Rightarrow>
          (if ns = [] \<or> ag_memory_recall a = 0 then ag_system_prompt a
           else let found = search (rr_owner row) (first_task ms) ns (ag_memory_recall a) w in
             if found = [] then ag_system_prompt a
             else ag_system_prompt a @ NL @ NL @ ''Relevant stored memories:'' @ NL @
               wrap_untrusted (xe_scan (rn_exec E))
                 (intercalate NL (map (\<lambda>(k, v). ''- '' @ k @ '': '' @ v) found)) (''memory:'' @ ns) ''memory'' 20000)
      | _ \<Rightarrow> ag_system_prompt a)"

definition call_timeout :: "run_row \<Rightarrow> time \<Rightarrow> real option" where
  "call_timeout r now =
     (case rr_deadline r of None \<Rightarrow> None | Some d \<Rightarrow> if d = 0 then None else Some (max (1 / 10) (d - now)))"

definition book_model_call :: "completion \<Rightarrow> progress \<Rightarrow> progress" where
  "book_model_call resp pg = pg\<lparr>pg_cost_usd := pg_cost_usd pg + co_cost_usd resp,
     pg_input_tokens := pg_input_tokens pg + co_input_tokens resp,
     pg_output_tokens := pg_output_tokens pg + co_output_tokens resp\<rparr>"

definition base_meta :: "string \<Rightarrow> agent_def \<Rightarrow> run_row \<Rightarrow> (string \<times> pyval) list" where
  "base_meta rid a row = [(''run_id'', PStr rid), (''agent'', PStr (ag_name a)), (''owner'', PStr (rr_owner row))]"

definition PLAN_MARK :: string where "PLAN_MARK = NL @ NL @ ''[Plan]'' @ NL"

definition plan_prompt :: "nat \<Rightarrow> string \<Rightarrow> string" where
  "plan_prompt n task =
     ''Before acting, write a short numbered plan (at most '' @ show_nat n @ '' steps) for the task '' @
     ''below. Name the tools you expect to use. Do not carry out the task yet and '' @
     ''do not call tools.'' @ NL @ NL @ ''Task:'' @ NL @ task"

text \<open>
  The awaits of the loop: each gives an outcome with the progress and the world at that point,
  because an exception or a cancellation leaves what was done so far.
\<close>

definition make_plan ::
  "'y run_env \<Rightarrow> string \<Rightarrow> agent_def \<Rightarrow> progress \<Rightarrow> 'y run_world \<Rightarrow> unit outcome \<times> progress \<times> 'y run_world" where
  "make_plan E rid a pg w =
     (case (pg_msgs pg, row_of rid w) of
        ([], _) \<Rightarrow> (Exc (rn_raise E ''IndexError''), pg, w)
      | (first # rest, None) \<Rightarrow>
          (if str_in PLAN_MARK (ms_content first) then (Ret (), pg, w) else (Exc (rn_raise E ''KeyError''), pg, w))
      | (first # rest, Some row) \<Rightarrow>
          (if str_in PLAN_MARK (ms_content first) then (Ret (), pg, w)
           else case rn_route E
               (agent_request a [plain_user (plan_prompt (ag_plan_max_steps a) (ms_content first))]
                  (system_prompt E a row (pg_msgs pg) w) (base_meta rid a row @ [(''purpose'', PStr ''plan'')]) [])
               (call_timeout row (rn_time E w)) w of
             (Exc e, w) \<Rightarrow> (Exc e, pg, w)
           | (Cancel, w) \<Rightarrow> (Cancel, pg, w)
           | (Ret resp, w) \<Rightarrow>
               (let plan = strip (co_content resp);
                    w = log_event rid (PlanMade (length plan) (co_cost_usd resp)) w;
                    pg = book_model_call resp pg;
                    pg = (if plan = [] then pg
                          else pg\<lparr>pg_msgs := (plain_user (ms_content first @ PLAN_MARK @ plan @ NL @ NL @
                            ''Follow the plan; revise it if a step fails.''))\<lparr>ms_role := ms_role first\<rparr> # rest\<rparr>)
                in (Ret (), pg, save E rid pg id w))))"

definition ask_model ::
  "'y run_env \<Rightarrow> string \<Rightarrow> agent_def \<Rightarrow> progress \<Rightarrow> 'y run_world \<Rightarrow> completion outcome \<times> progress \<times> 'y run_world" where
  "ask_model E rid a pg w =
     (case row_of rid w of
        None \<Rightarrow> (Exc (rn_raise E ''KeyError''), pg, w)
      | Some row \<Rightarrow>
          (let system = system_prompt E a row (pg_msgs pg) w in
           case compact (if ag_summarize a then Some (summarize E a) else None) system (ag_context_tokens a)
                  (ag_keep_recent a) (pg_msgs pg) w of
             (Exc e, w) \<Rightarrow> (Exc e, pg, w)
           | (Cancel, w) \<Rightarrow> (Cancel, pg, w)
           | (Ret (ctx, changed), w) \<Rightarrow>
               (let pg = (if changed then pg\<lparr>pg_msgs := ctx\<rparr> else pg);
                    w = (if changed then log_event rid (ContextCompacted (length ctx) (count_tokens ctx system)) w else w);
                    meta = base_meta rid a row @
                      (case ag_max_cost_usd a of None \<Rightarrow> []
                       | Some m \<Rightarrow> [(''budget_remaining_usd'', PFloat (max 0 (m - pg_cost_usd pg)))]);
                    tools = specs (Some (ag_allowed_tools a)) (tw_registry w) @
                      (if ag_ask_when_uncertain a then [REVIEW_SPEC] else [])
                in case rn_route E (agent_request a ctx system meta tools) (call_timeout row (rn_time E w)) w of
                     (Exc e, w) \<Rightarrow> (Exc e, pg, w)
                   | (Cancel, w) \<Rightarrow> (Cancel, pg, w)
                   | (Ret resp, w) \<Rightarrow>
                       (Ret resp, book_model_call resp pg,
                        log_event rid (ModelCalled (pg_step pg + 1) (co_model resp) (co_provider resp)
                          (co_cost_usd resp) (length (co_tool_calls resp))) w))))"

section \<open>The loop\<close>

datatype turn_end = NextTurn | Ended | Failing exn | Interrupted

text \<open>One round of \<open>while True\<close>.\<close>

definition one_turn ::
  "'y run_env \<Rightarrow> string \<Rightarrow> agent_def \<Rightarrow> progress \<Rightarrow> 'y run_world \<Rightarrow> turn_end \<times> progress \<times> 'y run_world" where
  "one_turn E rid a pg w =
     (case row_of rid w of
        None \<Rightarrow> (Failing (rn_raise E ''KeyError''), pg, w)
      | Some row \<Rightarrow>
          (case limit_reason a row (rn_time E w) pg of
             Some reason \<Rightarrow> (Ended, pg, end_run E rid pg reason None w)
           | None \<Rightarrow>
               (case ask_model E rid a pg w of
                  (Exc e, pg, w) \<Rightarrow> (Failing e, pg, w)
                | (Cancel, pg, w) \<Rightarrow> (Interrupted, pg, w)
                | (Ret resp, pg, w) \<Rightarrow>
                    (let pg = pg\<lparr>pg_step := pg_step pg + 1\<rparr>;
                         pg = say (assistant_message resp) pg
                     in if co_tool_calls resp = [] then
                          (Ended, pg, end_run E rid pg ''completed'' (Some (co_content resp))
                             (save E rid pg (\<lambda>r. r\<lparr>rr_result := Some (co_content resp)\<rparr>) w))
                        else case run_tools E rid a (co_tool_calls resp) None pg w of
                            (Exc e, pg, w) \<Rightarrow> (Failing e, pg, w)
                          | (Cancel, pg, w) \<Rightarrow> (Interrupted, pg, w)
                          | (Ret waiting, pg, w) \<Rightarrow>
                              (if waiting then (Ended, pg, w)
                               else if stalled (pg_msgs pg) a
                               then (Ended, pg, end_run E rid pg ''stalled'' None (save E rid pg id w))
                               else (NextTurn, pg, save E rid pg id w))))))"

lemma run_tools_step: "run_tools E rid a cs dec pg w = (out, pg', w') \<Longrightarrow> pg_step pg' = pg_step pg"
proof (induction cs arbitrary: dec pg w)
  case (Cons c cs)
  show ?case using Cons.prems
    by (auto simp: say_def split: if_splits option.splits prod.splits dest!: Cons.IH)
qed simp

lemma ask_model_step: "ask_model E rid a pg w = (out, pg', w') \<Longrightarrow> pg_step pg' = pg_step pg"
  by (auto simp: ask_model_def Let_def book_model_call_def split: option.splits prod.splits outcome.splits if_splits)

lemma one_turn_next:
  assumes "one_turn E rid a pg w = (NextTurn, pg', w')"
  shows "pg_step pg' = pg_step pg + 1" "pg_step pg < ag_max_steps a"
proof -
  obtain row where row: "row_of rid w = Some row" using assms by (auto simp: one_turn_def split: option.splits)
  have lim: "limit_reason a row (rn_time E w) pg = None"
    using assms row by (auto simp: one_turn_def split: option.splits)
  then show "pg_step pg < ag_max_steps a" by (simp add: limit_reason_def split: option.splits if_splits)
  obtain resp pg1 w1 where am: "ask_model E rid a pg w = (Ret resp, pg1, w1)"
    using assms row lim by (auto simp: one_turn_def split: prod.splits outcome.splits)
  define pg2 where "pg2 = say (assistant_message resp) (pg1\<lparr>pg_step := pg_step pg1 + 1\<rparr>)"
  obtain b pg3 w3 where rt: "run_tools E rid a (co_tool_calls resp) None pg2 w1 = (Ret b, pg3, w3)" "pg' = pg3"
    using assms row lim am
    by (auto simp: one_turn_def Let_def pg2_def split: prod.splits outcome.splits if_splits)
  show "pg_step pg' = pg_step pg + 1"
    using run_tools_step [OF rt(1)] ask_model_step [OF am] rt(2) by (simp add: pg2_def say_def)
qed

lemma one_turn_measure:
  assumes "(NextTurn, pg', w') = one_turn E rid a pg w"
  shows "nat (ag_max_steps a - pg_step pg') < nat (ag_max_steps a - pg_step pg)"
  using one_turn_next [OF assms [symmetric]] by simp

text \<open>Every round counts a step and the step limit is checked first, so the loop ends.\<close>

function run_loop ::
  "'y run_env \<Rightarrow> string \<Rightarrow> agent_def \<Rightarrow> progress \<Rightarrow> 'y run_world \<Rightarrow> turn_end \<times> progress \<times> 'y run_world" where
  "run_loop E rid a pg w =
     (case one_turn E rid a pg w of
        (NextTurn, pg', w') \<Rightarrow> run_loop E rid a pg' w'
      | res \<Rightarrow> res)"
  by pat_completeness auto

termination
  by (relation "measure (\<lambda>(E, rid, a, pg, w). nat (ag_max_steps a - pg_step pg))")
    (auto intro: one_turn_measure)

declare run_loop.simps [simp del]

section \<open>Runs\<close>

datatype run_result = RunAt "run_row option" | UnknownRun | UnknownAgent string | BadHistory | RunInterrupted | StillWaiting

definition run_finished :: "run_row \<Rightarrow> bool" where
  "run_finished r \<longleftrightarrow> rr_status r \<in> {COMPLETED, CANCELLED}
     \<or> (rr_status r = FAILED \<and> rr_stop_reason r \<noteq> Some ''error'')"

definition interrupt_run :: "'y run_env \<Rightarrow> string \<Rightarrow> progress \<Rightarrow> 'y run_world \<Rightarrow> 'y run_world" where
  "interrupt_run E rid pg w =
     save E rid pg (\<lambda>r. r\<lparr>rr_status := PAUSED, rr_stop_reason := Some ''shutdown''\<rparr>) w"

definition fail_run :: "'y run_env \<Rightarrow> string \<Rightarrow> exn \<Rightarrow> progress \<Rightarrow> 'y run_world \<Rightarrow> 'y run_world" where
  "fail_run E rid e pg w =
     log_event rid (RunFinished ''error'' (Some (pg_step pg)))
       (set_run E rid (\<lambda>r. r\<lparr>rr_status := FAILED, rr_stop_reason := Some ''error''\<rparr>)
         (save E rid pg id (log_event rid (RunFailed e) w)))"

text \<open>The calls a human was asked about are run first.\<close>

definition run_pending ::
  "'y run_env \<Rightarrow> string \<Rightarrow> agent_def \<Rightarrow> tool_call list option \<Rightarrow> bool option \<Rightarrow> progress \<Rightarrow> 'y run_world \<Rightarrow>
     turn_end \<times> progress \<times> 'y run_world" where
  "run_pending E rid a pending dec pg w =
     (case pending of
        None \<Rightarrow> (NextTurn, pg, w)
      | Some calls \<Rightarrow>
          (case run_tools E rid a calls dec pg w of
             (Ret waiting, pg, w) \<Rightarrow> (if waiting then Ended else NextTurn, pg, w)
           | (Exc e, pg, w) \<Rightarrow> (Failing e, pg, w)
           | (Cancel, pg, w) \<Rightarrow> (Interrupted, pg, w)))"

definition run_planning ::
  "'y run_env \<Rightarrow> string \<Rightarrow> agent_def \<Rightarrow> tool_call list option \<Rightarrow> progress \<Rightarrow> 'y run_world \<Rightarrow>
     turn_end \<times> progress \<times> 'y run_world" where
  "run_planning E rid a pending pg w =
     (if \<not> (ag_plan a \<and> pg_step pg = 0 \<and> pending = None) then (NextTurn, pg, w)
      else case row_of rid w of
          None \<Rightarrow> (Failing (rn_raise E ''KeyError''), pg, w)
        | Some row \<Rightarrow>
            (case limit_reason a row (rn_time E w) pg of
               Some reason \<Rightarrow> (Ended, pg, end_run E rid pg reason None w)
             | None \<Rightarrow>
                 (case make_plan E rid a pg w of
                    (Ret _, pg, w) \<Rightarrow> (NextTurn, pg, w)
                  | (Exc e, pg, w) \<Rightarrow> (Failing e, pg, w)
                  | (Cancel, pg, w) \<Rightarrow> (Interrupted, pg, w))))"

definition run_body ::
  "'y run_env \<Rightarrow> string \<Rightarrow> agent_def \<Rightarrow> tool_call list option \<Rightarrow> bool option \<Rightarrow> progress \<Rightarrow> 'y run_world \<Rightarrow>
     turn_end \<times> progress \<times> 'y run_world" where
  "run_body E rid a pending dec pg w =
     (case run_pending E rid a pending dec pg w of
        (NextTurn, pg, w) \<Rightarrow>
          (case run_planning E rid a pending pg w of
             (NextTurn, pg, w) \<Rightarrow> run_loop E rid a pg w
           | res \<Rightarrow> res)
      | res \<Rightarrow> res)"

definition close_run :: "'y run_env \<Rightarrow> string \<Rightarrow> turn_end \<times> progress \<times> 'y run_world \<Rightarrow> run_result \<times> 'y run_world" where
  "close_run E rid res =
     (case res of
        (Interrupted, pg, w) \<Rightarrow> (RunInterrupted, interrupt_run E rid pg w)
      | (Failing e, pg, w) \<Rightarrow> (let w = fail_run E rid e pg w in (RunAt (row_of rid w), w))
      | (_, pg, w) \<Rightarrow> (RunAt (row_of rid w), w))"

definition progress_of :: "run_row \<Rightarrow> message list \<Rightarrow> progress" where
  "progress_of r ms = \<lparr>pg_msgs = ms, pg_step = rr_step r, pg_cost_usd = rr_cost_usd r,
     pg_input_tokens = rr_input_tokens r, pg_output_tokens = rr_output_tokens r\<rparr>"

definition execute :: "'y run_env \<Rightarrow> string \<Rightarrow> bool option \<Rightarrow> 'y run_world \<Rightarrow> run_result \<times> 'y run_world" where
  "execute E rid dec w =
     (case row_of rid w of
        None \<Rightarrow> (UnknownRun, w)
      | Some r \<Rightarrow>
          (if run_finished r then (RunAt (Some r), w)
           else case od_get (rn_agents E) (rr_agent r) of
               None \<Rightarrow> (UnknownAgent (rr_agent r), w)
             | Some a \<Rightarrow>
                 (case messages_of r of
                    None \<Rightarrow> (BadHistory, w)
                  | Some ms \<Rightarrow>
                      close_run E rid
                        (run_body E rid (effective a) (rr_pending r) dec (progress_of r ms)
                          (log_event rid (if rr_step r \<noteq> 0 \<or> rr_pending r \<noteq> None then Resumed (rr_step r) else Started (rr_step r))
                            (set_run E rid (\<lambda>r. r\<lparr>rr_status := RUNNING, rr_pending := None\<rparr>) w))))))"

section \<open>The run API\<close>

definition create_agent_run ::
  "'y run_env \<Rightarrow> string \<Rightarrow> string \<Rightarrow> string \<Rightarrow> string \<Rightarrow> 'y run_world \<Rightarrow> bool \<times> 'y run_world" where
  "create_agent_run E rid agent task owner w =
     (case od_get (rn_agents E) agent of
        None \<Rightarrow> (False, w)
      | Some a \<Rightarrow>
          (let now = rn_time E w;
               deadline = (case ag_deadline_s a of None \<Rightarrow> None | Some d \<Rightarrow> if d = 0 then None else Some (now + d))
           in (True, log_event rid (RunStarted agent owner)
                 (on_store (create_run rid now agent owner [plain_user task] deadline) w))))"

definition run_agent ::
  "'y run_env \<Rightarrow> string \<Rightarrow> string \<Rightarrow> string \<Rightarrow> string \<Rightarrow> 'y run_world \<Rightarrow> run_result \<times> 'y run_world" where
  "run_agent E rid agent task owner w =
     (case create_agent_run E rid agent task owner w of
        (False, w) \<Rightarrow> (UnknownAgent agent, w)
      | (True, w) \<Rightarrow> execute E rid None w)"

definition resume_run :: "'y run_env \<Rightarrow> string \<Rightarrow> bool option \<Rightarrow> 'y run_world \<Rightarrow> run_result \<times> 'y run_world" where
  "resume_run E rid approve w =
     (case row_of rid w of
        None \<Rightarrow> (UnknownRun, w)
      | Some r \<Rightarrow>
          (if rr_status r = WAITING_APPROVAL \<and> approve = None then (StillWaiting, w)
           else execute E rid approve w))"

definition request_run :: "string \<Rightarrow> string \<Rightarrow> 'y run_world \<Rightarrow> bool \<times> 'y run_world" where
  "request_run rid control w =
     (case request_control rid control (run_store_of w) of (b, s) \<Rightarrow> (b, on_store (\<lambda>_. s) w))"

definition cancel_run :: "'y run_env \<Rightarrow> string \<Rightarrow> 'y run_world \<Rightarrow> bool \<times> 'y run_world" where
  "cancel_run E rid w =
     (case row_of rid w of
        Some r \<Rightarrow>
          (if rr_status r \<in> {PAUSED, WAITING_APPROVAL} then (True, finish_run E rid CANCELLED ''cancelled'' w)
           else request_run rid ''cancel'' w)
      | None \<Rightarrow> request_run rid ''cancel'' w)"

definition pause_run :: "string \<Rightarrow> 'y run_world \<Rightarrow> bool \<times> 'y run_world" where
  "pause_run rid = request_run rid ''pause''"

text \<open>The kill switch: active runs get the control, idle ones end now, newest first.\<close>

definition idle_runs :: "string option \<Rightarrow> run_store \<Rightarrow> string list" where
  "idle_runs owner s = map fst (filter (\<lambda>(i, r). rr_status r \<in> {PAUSED, WAITING_APPROVAL} \<and> owned_by owner r)
     (sort_key (\<lambda>(i, r). - rr_created r) (rs_runs s)))"

definition kill_all :: "'y run_env \<Rightarrow> string option \<Rightarrow> 'y run_world \<Rightarrow> nat \<times> 'y run_world" where
  "kill_all E owner w =
     (case kill_runs owner (run_store_of w) of
        (n, s) \<Rightarrow>
          (let w = on_store (\<lambda>_. s) w
           in (n, fold (\<lambda>i. finish_run E i CANCELLED ''killed'') (idle_runs owner s) w)))"


section \<open>What is stored when a run stops\<close>

named_theorems run_ends

text \<open>\<open>stopped_at n w\<close>: whatever row the run has, it is at step \<open>n\<close> and no longer running.\<close>

definition stopped_at :: "string \<Rightarrow> int \<Rightarrow> 'y run_world \<Rightarrow> bool" where
  "stopped_at rid n w \<longleftrightarrow> (case row_of rid w of None \<Rightarrow> True | Some r \<Rightarrow> rr_step r = n \<and> rr_status r \<noteq> RUNNING)"

lemma row_log_event [simp]: "row_of rid (log_event i ev w) = row_of rid w"
  by (simp add: row_of_def run_store_of_def log_event_def on_store_def get_run_def add_event_def)

lemma row_notify [simp]: "row_of rid (notify_finished i st reason w) = row_of rid w"
  by (simp add: row_of_def run_store_of_def notify_finished_def on_store_def get_run_def)

lemma row_set_run [simp]:
  "row_of rid (set_run E rid f w) = map_option (\<lambda>r. (f r)\<lparr>rr_updated := rn_time E w\<rparr>) (row_of rid w)"
  by (simp add: row_of_def run_store_of_def set_run_def on_store_def get_run_def update_run_def od_get_map_at)

lemma row_save [simp]:
  "row_of rid (save E rid pg f w) = map_option (\<lambda>r. (f (book_progress pg r))\<lparr>rr_updated := rn_time E w\<rparr>) (row_of rid w)"
  by (simp add: save_def)

lemma row_on_registry [simp]: "row_of rid (on_registry f w) = row_of rid w"
  by (simp add: row_of_def run_store_of_def on_registry_def)

lemma registry_on_store [simp]: "tw_registry (on_store f w) = tw_registry w"
  by (simp add: on_store_def)

lemma registry_saves [simp]: "tw_registry (log_event i ev w) = tw_registry w"
  "tw_registry (set_run E i f w) = tw_registry w" "tw_registry (save E i pg f w) = tw_registry w"
  by (simp_all add: log_event_def set_run_def save_def)

lemma end_run_stops [run_ends]: "stopped_at rid (pg_step pg) (end_run E rid pg reason res w)"
  by (simp add: stopped_at_def end_run_def book_progress_def status_for_def split: option.split)

lemma end_run_stops_at: "pg_step pg = n \<Longrightarrow> stopped_at rid n (end_run E rid pg reason res w)"
  using end_run_stops by blast

lemma wait_stops [run_ends]: "stopped_at rid (pg_step pg) (wait_for_human E rid pg calls w)"
  by (simp add: stopped_at_def wait_for_human_def book_progress_def split: option.split)

lemma interrupt_stops [run_ends]: "stopped_at rid (pg_step pg) (interrupt_run E rid pg w)"
  by (simp add: stopped_at_def interrupt_run_def book_progress_def split: option.split)

lemma fail_stops [run_ends]: "stopped_at rid (pg_step pg) (fail_run E rid e pg w)"
  by (simp add: stopped_at_def fail_run_def book_progress_def split: option.split)

lemma run_tools_waits: "run_tools E rid a cs dec pg w = (Ret True, pg', w') \<Longrightarrow> stopped_at rid (pg_step pg') w'"
proof (induction cs arbitrary: dec pg w)
  case (Cons c cs)
  show ?case using Cons.prems
    by (auto simp: wait_stops split: if_splits option.splits prod.splits dest!: Cons.IH)
qed simp

text \<open>A turn keeps the count below the limit, and a turn that ends the run has stored it.\<close>

lemma one_turn_ends:
  assumes "one_turn E rid a pg w = (res, pg', w')"
  shows "pg_step pg \<le> pg_step pg' \<and> pg_step pg' \<le> max (pg_step pg) (ag_max_steps a)
     \<and> (res = Ended \<longrightarrow> stopped_at rid (pg_step pg') w')"
proof (cases "row_of rid w")
  case None
  then show ?thesis using assms by (auto simp: one_turn_def)
next
  case (Some row)
  show ?thesis
  proof (cases "limit_reason a row (rn_time E w) pg")
    case (Some reason)
    then show ?thesis using assms \<open>row_of rid w = Some row\<close> by (auto simp: one_turn_def run_ends)
  next
    case None
    then have room: "pg_step pg + 1 \<le> ag_max_steps a" by (simp add: limit_reason_def split: option.splits if_splits)
    obtain out pg1 w1 where am: "ask_model E rid a pg w = (out, pg1, w1)" by (metis prod_cases3)
    have s1: "pg_step pg1 = pg_step pg" by (rule ask_model_step [OF am])
    show ?thesis
    proof (cases out)
      case (Ret resp)
      define pg2 where "pg2 = say (assistant_message resp) (pg1\<lparr>pg_step := pg_step pg1 + 1\<rparr>)"
      have s2: "pg_step pg2 = pg_step pg + 1" using s1 by (simp add: pg2_def say_def)
      obtain o2 pg3 w3 where rt: "run_tools E rid a (co_tool_calls resp) None pg2 w1 = (o2, pg3, w3)"
        by (metis prod_cases3)
      have s3: "pg_step pg3 = pg_step pg + 1" using run_tools_step [OF rt] s2 by simp
      have "pg_step pg' = pg_step pg + 1" "res = Ended \<longrightarrow> stopped_at rid (pg_step pg') w'"
        using assms \<open>row_of rid w = Some row\<close> None am Ret rt s2 s3 end_run_stops [of rid pg2] end_run_stops [of rid pg3]
        by (auto simp: one_turn_def Let_def pg2_def [symmetric] split: outcome.splits if_splits
            dest!: run_tools_waits)
      then show ?thesis using room by simp
    qed (use assms \<open>row_of rid w = Some row\<close> None am s1 in \<open>auto simp: one_turn_def\<close>)
  qed
qed

definition ends_well :: "string \<Rightarrow> int \<Rightarrow> int \<Rightarrow> turn_end \<times> progress \<times> 'y run_world \<Rightarrow> bool" where
  "ends_well rid n m res \<longleftrightarrow> (case res of (e, pg, w) \<Rightarrow>
     n \<le> pg_step pg \<and> pg_step pg \<le> max n m \<and> (e = Ended \<longrightarrow> stopped_at rid (pg_step pg) w))"

lemma run_loop_ends: "ends_well rid (pg_step pg) (ag_max_steps a) (run_loop E rid a pg w)
    \<and> fst (run_loop E rid a pg w) \<noteq> NextTurn"
proof (induction E rid a pg w rule: run_loop.induct)
  case (1 E rid a pg w)
  obtain res pg' w' where ot: "one_turn E rid a pg w = (res, pg', w')" by (metis prod_cases3)
  note st = one_turn_ends [OF ot]
  show ?case
  proof (cases res)
    case NextTurn
    then have "ends_well rid (pg_step pg') (ag_max_steps a) (run_loop E rid a pg' w')
        \<and> fst (run_loop E rid a pg' w') \<noteq> NextTurn"
      using "1.IH" [OF ot [symmetric]] ot by simp
    then show ?thesis using st NextTurn ot
      by (subst (1 2) run_loop.simps) (auto simp: ends_well_def split: prod.splits)
  qed (use st ot in \<open>subst (1 2) run_loop.simps, simp add: ends_well_def\<close>)+
qed

lemma make_plan_step: "make_plan E rid a pg w = (out, pg', w') \<Longrightarrow> pg_step pg' = pg_step pg"
  by (auto simp: make_plan_def Let_def book_model_call_def
      split: option.splits prod.splits outcome.splits if_splits list.splits)

lemma run_pending_ends:
  "run_pending E rid a pending dec pg w = (res, pg', w') \<Longrightarrow>
     pg_step pg' = pg_step pg \<and> (res = Ended \<longrightarrow> stopped_at rid (pg_step pg') w')"
  by (auto simp: run_pending_def split: option.splits prod.splits outcome.splits if_splits
      dest: run_tools_step run_tools_waits)

lemma run_planning_ends:
  "run_planning E rid a pending pg w = (res, pg', w') \<Longrightarrow>
     pg_step pg' = pg_step pg \<and> (res = Ended \<longrightarrow> stopped_at rid (pg_step pg') w')"
  by (auto simp: run_planning_def split: option.splits prod.splits outcome.splits if_splits
      dest: make_plan_step intro: end_run_stops_at)

lemma run_body_ends: "ends_well rid (pg_step pg) (ag_max_steps a) (run_body E rid a pending dec pg w)
    \<and> fst (run_body E rid a pending dec pg w) \<noteq> NextTurn"
proof -
  obtain r1 pg1 w1 where p: "run_pending E rid a pending dec pg w = (r1, pg1, w1)" by (metis prod_cases3)
  obtain r2 pg2 w2 where q: "run_planning E rid a pending pg1 w1 = (r2, pg2, w2)" by (metis prod_cases3)
  note s = run_pending_ends [OF p] run_planning_ends [OF q] run_loop_ends [of rid pg2 a E w2]
  show ?thesis
    using s by (cases r1; cases r2) (simp_all add: run_body_def p q ends_well_def split: prod.splits)
qed

lemma close_run_stops:
  assumes "ends_well rid n m res" "fst res \<noteq> NextTurn" "row_of rid (snd (close_run E rid res)) = Some r"
  shows "n \<le> rr_step r \<and> rr_step r \<le> max n m \<and> rr_status r \<noteq> RUNNING"
proof -
  obtain e pg w where res: "res = (e, pg, w)" by (metis prod_cases3)
  have "stopped_at rid (pg_step pg) (snd (close_run E rid res))"
    using assms(1,2) by (cases e) (simp_all add: res ends_well_def close_run_def Let_def run_ends)
  then show ?thesis using assms(1,3) by (simp add: res ends_well_def stopped_at_def)
qed
end
