(* ===== verification/Runner_Safety.thy ===== *)
theory Runner_Safety
  imports Runner
begin

text \<open>
  What \<open>src/harness/runner.py\<close> guarantees of a run: it stops within its step limit, and no tool that
  needs approval runs without a human's approval.
\<close>

section \<open>Runs stop\<close>


definition helper :: agent_def where
  "helper = \<lparr>ag_name = ''h'', ag_system_prompt = [], ag_model = None, ag_allowed_tools = [''*''], ag_max_steps = 3,
     ag_max_cost_usd = None, ag_max_total_tokens = None, ag_deadline_s = None, ag_context_tokens = 1000,
     ag_keep_recent = 6, ag_max_tokens = 100, ag_temperature = 0, ag_stall_repeats = 3, ag_approval_tools = [],
     ag_local = False, ag_summarize = False, ag_plan = False, ag_plan_max_steps = 6, ag_ask_when_uncertain = False,
     ag_memory_ns = None, ag_memory_recall = 0\<rparr>"

definition call_drop :: completion where
  "call_drop = \<lparr>co_content = [], co_model = ''m'', co_provider = ''p'', co_input_tokens = 1,
     co_output_tokens = 1, co_cost_usd = 1, co_latency_ms = 1, co_cached = False, co_failed_over_from = None,
     co_hedged = False, co_original_cost_usd = None,
     co_tool_calls = [\<lparr>tc_id = ''c1'', tc_name = ''drop'', tc_arguments = None\<rparr>]\<rparr>"

text \<open>A model that always wants to drop the table, which counts how often that happened.\<close>

definition drop_env :: "int run_env" where
  "drop_env = \<lparr>rn_exec = \<lparr>xe_tools = \<lparr>te_clock = (\<lambda>w. 0),
        te_handler = (\<lambda>t a w. (HText ''done'', w\<lparr>tw_ext := (fst (tw_ext w), snd (tw_ext w) + 1)\<rparr>)),
        te_schema = (\<lambda>a s. None), te_dumps = (\<lambda>v. [])\<rparr>,
       xe_loads = (\<lambda>s. Inr (PDict [])), xe_str = (\<lambda>e. []), xe_scan = (\<lambda>t. [])\<rparr>,
     rn_route = (\<lambda>q t w. (Ret call_drop, w)), rn_time = (\<lambda>w. 0), rn_agents = [(''h'', helper)],
     rn_caller = ''bot'', rn_max_permission = DESTRUCTIVE, rn_memory = None, rn_raise = (\<lambda>s. DeadlineExceeded)\<rparr>"

definition fresh_world :: "int run_world" where
  "fresh_world = \<lparr>tw_registry = one_tool, tw_ext =
     (create_run ''r1'' 0 ''h'' ''ann'' [plain_user ''tidy''] None \<lparr>rs_runs = [], rs_events = [], rs_bus = []\<rparr>, 0)\<rparr>"

lemma fresh_row: "row_of ''r1'' fresh_world =
    Some \<lparr>rr_agent = ''h'', rr_owner = ''ann'', rr_status = RUNNING, rr_stop_reason = None, rr_step = 0,
         rr_cost_usd = 0, rr_input_tokens = 0, rr_output_tokens = 0, rr_control = [], rr_pending = None,
         rr_messages = dump_messages [plain_user ''tidy''], rr_result = None, rr_created = 0, rr_updated = 0,
         rr_deadline = None\<rparr>"
  by (simp add: fresh_world_def row_of_def run_store_of_def create_run_def get_run_def od_get_set)

lemma fresh_registry [simp]: "tw_registry fresh_world = one_tool"
  by (simp add: fresh_world_def)

lemmas run_eval = execute_def fresh_row run_finished_def effective_def helper_def close_run_def run_body_def
  run_pending_def run_planning_def run_loop.simps limit_reason_def pause_reason_def past_deadline_def
  over_run_cost_def over_run_tokens_def one_turn_def ask_model_def progress_of_def messages_of_def
  load_dump_messages system_prompt_def compact_def count_tokens_def message_tokens_def text_tokens_def
  call_drop_def book_model_call_def plain_user_def user_note_def without_images_def
  say_def assistant_message_def REVIEW_TOOL_def run_one_def call_arguments_def call_tool_def checked_call_def
  screen_call_def allows_def one_tool_def drop_table_def step_of.simps refused_step_def wait_for_human_def


section \<open>Approval\<close>

text \<open>The environment with other handlers, and the call a decision is about.\<close>

definition with_handlers ::
  "(tool \<Rightarrow> pyval \<Rightarrow> 'y run_world \<Rightarrow> handled \<times> 'y run_world) \<Rightarrow> 'y run_env \<Rightarrow> 'y run_env" where
  "with_handlers h E = E\<lparr>rn_exec := (rn_exec E)\<lparr>xe_tools := (xe_tools (rn_exec E))\<lparr>te_handler := h\<rparr>\<rparr>\<rparr>"

definition approved_call ::
  "'y run_env \<Rightarrow> tool_call list option \<Rightarrow> bool option \<Rightarrow> tool \<Rightarrow> pyval \<Rightarrow> registry \<Rightarrow> bool" where
  "approved_call E pending dec t args R \<longleftrightarrow> dec = Some True \<and>
     (\<exists>c cs. pending = Some (c # cs) \<and> call_arguments (rn_exec E) c = Inr args
        \<and> od_get (rg_tools R) (tc_name c) = Some t)"

definition same_elsewhere ::
  "'y run_env \<Rightarrow> (tool \<Rightarrow> pyval \<Rightarrow> 'y run_world \<Rightarrow> handled \<times> 'y run_world) \<Rightarrow> tool_call list option \<Rightarrow>
     bool option \<Rightarrow> bool" where
  "same_elsewhere E h pending dec \<longleftrightarrow>
     (\<forall>t args w. tl_permission t \<noteq> DESTRUCTIVE \<or> approved_call E pending dec t args (tw_registry w) \<longrightarrow>
        h t args w = te_handler (xe_tools (rn_exec E)) t args w)"

lemma with_handlers_sel [simp]:
  "rn_route (with_handlers h E) = rn_route E" "rn_time (with_handlers h E) = rn_time E"
  "rn_agents (with_handlers h E) = rn_agents E" "rn_caller (with_handlers h E) = rn_caller E"
  "rn_max_permission (with_handlers h E) = rn_max_permission E" "rn_memory (with_handlers h E) = rn_memory E"
  "rn_raise (with_handlers h E) = rn_raise E" "xe_scan (rn_exec (with_handlers h E)) = xe_scan (rn_exec E)"
  by (simp_all add: with_handlers_def)

lemma with_handlers_set_run: "set_run (with_handlers h E) = set_run E"
  by (intro ext) (simp add: set_run_def)

lemma with_handlers_save: "save (with_handlers h E) = save E"
  by (intro ext) (simp add: save_def with_handlers_set_run)

lemma with_handlers_ends:
  "end_run (with_handlers h E) = end_run E" "wait_for_human (with_handlers h E) = wait_for_human E"
  "interrupt_run (with_handlers h E) = interrupt_run E" "fail_run (with_handlers h E) = fail_run E"
  unfolding end_run_def [abs_def] wait_for_human_def [abs_def] interrupt_run_def [abs_def] fail_run_def [abs_def]
    with_handlers_save with_handlers_set_run by (rule refl)+

lemma with_handlers_summarize: "summarize (with_handlers h E) = summarize E"
  unfolding summarize_def [abs_def] with_handlers_sel by (rule refl)

lemma with_handlers_system: "system_prompt (with_handlers h E) = system_prompt E"
  unfolding system_prompt_def [abs_def] with_handlers_sel by (rule refl)

lemma with_handlers_asks:
  "ask_model (with_handlers h E) = ask_model E" "make_plan (with_handlers h E) = make_plan E"
  unfolding ask_model_def [abs_def] make_plan_def [abs_def] with_handlers_summarize with_handlers_system
    with_handlers_save with_handlers_sel by (rule refl)+

lemma with_handlers_close: "close_run (with_handlers h E) = close_run E"
  unfolding close_run_def [abs_def] with_handlers_ends by (rule refl)

lemma run_one_handler:
  assumes "\<And>t args w'. call_arguments X c = Inr args \<Longrightarrow> od_get (rg_tools (tw_registry w')) (tc_name c) = Some t \<Longrightarrow>
      tl_permission t = DESTRUCTIVE \<longrightarrow> ok \<Longrightarrow> h t args w' = te_handler (xe_tools X) t args w'"
  shows "run_one (X\<lparr>xe_tools := (xe_tools X)\<lparr>te_handler := h\<rparr>\<rparr>) allowed caller (\<lambda>_ _ _ w. (ok, w)) mp c w
       = run_one X allowed caller (\<lambda>_ _ _ w. (ok, w)) mp c w"
proof -
  let ?Y = "X\<lparr>xe_tools := (xe_tools X)\<lparr>te_handler := h\<rparr>\<rparr>"
  have ca: "call_arguments ?Y c = call_arguments X c" by (simp add: call_arguments_def)
  have st: "step_of ?Y c args out = step_of X c args out" for args out
    by (cases "(X, c, args, out)" rule: step_of.cases) (simp_all add: as_untrusted_def)
  show ?thesis
  proof (cases "call_arguments X c")
    case (Inl m)
    then show ?thesis by (simp add: run_one_def ca)
  next
    case (Inr args)
    have ct: "call_tool ((xe_tools X)\<lparr>te_handler := h\<rparr>) (tc_name c) args allowed caller b mp w
        = call_tool (xe_tools X) (tc_name c) args allowed caller b mp w" if "b \<longrightarrow> ok" for b w
    proof (rule call_tool_handler)
      fix t and w' :: "'a tool_world"
      assume "od_get (rg_tools (tw_registry w)) (tc_name c) = Some t" "rg_tools (tw_registry w') = rg_tools (tw_registry w)"
        "tl_permission t = DESTRUCTIVE \<longrightarrow> b"
      with that show "h t args w' = te_handler (xe_tools X) t args w'" by (intro assms [OF Inr]) auto
    qed
    obtain out w1 where c1: "call_tool (xe_tools X) (tc_name c) args allowed caller False mp w = (out, w1)" by fastforce
    show ?thesis
    proof (cases ok)
      case True
      then show ?thesis
        by (simp add: run_one_def ca Inr ct c1 st)
    next
      case False
      then show ?thesis by (simp add: run_one_def ca Inr ct c1 st)
    qed
  qed
qed

lemma run_tools_handler:
  assumes h: "same_elsewhere E h pending d"
    and dec: "dec = Some True \<longrightarrow> d = Some True \<and> pending = Some cs"
  shows "run_tools (with_handlers h E) rid a cs dec pg w = run_tools E rid a cs dec pg w"
  using dec
proof (induction cs arbitrary: dec pg w)
  case (Cons c cs)
  have one: "run_one (rn_exec (with_handlers h E)) al cl (\<lambda>_ _ _ w. (dec = Some True, w)) mp c w
      = run_one (rn_exec E) al cl (\<lambda>_ _ _ w. (dec = Some True, w)) mp c w" for al cl mp w
    unfolding with_handlers_def run_env.select_convs run_env.update_convs
  proof (simp, rule run_one_handler)
    fix t args and w' :: "'a run_world"
    assume "call_arguments (rn_exec E) c = Inr args" "od_get (rg_tools (tw_registry w')) (tc_name c) = Some t"
      "tl_permission t = DESTRUCTIVE \<longrightarrow> dec = Some True"
    then show "h t args w' = te_handler (xe_tools (rn_exec E)) t args w'"
      using h Cons.prems by (auto simp: same_elsewhere_def approved_call_def)
  qed
  have IH: "run_tools (with_handlers h E) rid a cs None pg w = run_tools E rid a cs None pg w" for pg w
    by (rule Cons.IH) simp
  show ?case
    unfolding run_tools.simps with_handlers_ends with_handlers_sel one IH by (rule refl)
qed simp

lemma run_loop_handler:
  assumes h: "same_elsewhere E h pending d"
  shows "run_loop (with_handlers h E) rid a pg w = run_loop E rid a pg w"
proof -
  have rt: "run_tools (with_handlers h E) rid a cs None pg w = run_tools E rid a cs None pg w" for cs pg w
    by (rule run_tools_handler [OF h]) simp
  have ot: "one_turn (with_handlers h E) rid a pg w = one_turn E rid a pg w" for pg w
    unfolding one_turn_def with_handlers_asks with_handlers_ends with_handlers_save with_handlers_sel rt by (rule refl)
  show ?thesis
  proof (induction "nat (ag_max_steps a - pg_step pg)" arbitrary: pg w rule: less_induct)
    case less
    obtain res pg' w' where t: "one_turn E rid a pg w = (res, pg', w')" by (metis prod_cases3)
    have next_turn: "run_loop (with_handlers h E) rid a pg' w' = run_loop E rid a pg' w'" if "res = NextTurn"
      using that t one_turn_measure [of pg' w' E rid a pg w] by (simp add: less)
    show ?case
      using next_turn t by (subst (1 2) run_loop.simps) (cases res; simp add: ot)
  qed
qed

lemma run_body_handler:
  assumes h: "same_elsewhere E h pending d"
  shows "run_body (with_handlers h E) rid a pending d pg w = run_body E rid a pending d pg w"
proof -
  have "run_tools (with_handlers h E) rid a cs d pg w = run_tools E rid a cs d pg w" if "pending = Some cs" for cs
    by (rule run_tools_handler [OF h]) (simp add: that)
  then have p: "run_pending (with_handlers h E) rid a pending d pg w = run_pending E rid a pending d pg w"
    by (simp add: run_pending_def split: option.split)
  have q: "run_planning (with_handlers h E) rid a pending pg w = run_planning E rid a pending pg w" for pg w
    unfolding run_planning_def with_handlers_asks with_handlers_ends with_handlers_sel by (rule refl)
  show ?thesis unfolding run_body_def p q run_loop_handler [OF h] by (rule refl)
qed

text \<open>
  C38. In a run a destructive tool is only ever called as a human approved it: executing a run does
  not depend on what the handlers of destructive tools do, except for the tool and the arguments of
  the first pending call when the decision is an approval. Without an approval none of them runs.
\<close>

theorem destructive_needs_decision:
  assumes "row_of rid w = Some r" "same_elsewhere E h (rr_pending r) dec"
  shows "execute (with_handlers h E) rid dec w = execute E rid dec w"
proof (cases "run_finished r")
  case False
  show ?thesis
    unfolding execute_def with_handlers_set_run with_handlers_close with_handlers_sel assms(1) option.case
      run_body_handler [OF assms(2)] by (rule refl)
qed (simp add: execute_def assms(1))

definition waiting_world :: "int run_world" where
  "waiting_world = set_run drop_env ''r1''
     (\<lambda>r. r\<lparr>rr_status := WAITING_APPROVAL, rr_pending := Some (co_tool_calls call_drop)\<rparr>) fresh_world"

text \<open>Handlers that work for the approved call and for harmless tools only.\<close>

definition careful :: "tool \<Rightarrow> pyval \<Rightarrow> int run_world \<Rightarrow> handled \<times> int run_world" where
  "careful t args w =
     (if tl_permission t \<noteq> DESTRUCTIVE \<or> args = PDict [] \<and> od_get (rg_tools (tw_registry w)) ''drop'' = Some t
      then te_handler (xe_tools (rn_exec drop_env)) t args w else (HCancelled, w))"

theorem destructive_needs_decision_witness:
  "execute (with_handlers careful drop_env) ''r1'' (Some True) waiting_world = execute drop_env ''r1'' (Some True) waiting_world"
proof (rule destructive_needs_decision)
  show "row_of ''r1'' waiting_world = Some ((the (row_of ''r1'' fresh_world))\<lparr>rr_status := WAITING_APPROVAL,
      rr_pending := Some (co_tool_calls call_drop)\<rparr>)"
    by (simp add: waiting_world_def fresh_row drop_env_def)
  show "same_elsewhere drop_env careful
     (rr_pending ((the (row_of ''r1'' fresh_world))\<lparr>rr_status := WAITING_APPROVAL, rr_pending := Some (co_tool_calls call_drop)\<rparr>))
     (Some True)"
    by (auto simp: same_elsewhere_def approved_call_def careful_def call_drop_def drop_env_def call_arguments_def)
qed

end
