(* ===== verification/Runner_Pairing.thy ===== *)
theory Runner_Pairing
  imports Runner_Safety
begin

text \<open>
  Conversations of runs of \<open>src/harness/runner.py\<close>: what is stored with a run can be resumed, and the
  model is only asked conversations in which every tool call has its result.
\<close>

section \<open>Conversations with an open turn\<close>

text \<open>The last assistant message has the calls \<open>cs\<close> still to be answered.\<close>

definition open_turn :: "tool_call list \<Rightarrow> message list \<Rightarrow> bool" where
  "open_turn cs ms \<longleftrightarrow> (\<exists>ms0 m done rs. ms = ms0 @ m # rs \<and> conversation ms0 \<and> \<not> is_tool m
     \<and> ms_tool_calls m = done @ cs \<and> answers done rs)"

lemma conversation_snoc:
  "conversation ms \<Longrightarrow> \<not> is_tool m \<Longrightarrow> answers (ms_tool_calls m) rs \<Longrightarrow> conversation (ms @ m # rs)"
  by (simp add: conversation_def paired_snoc_turn)

lemma open_turn_closed: "open_turn [] ms \<Longrightarrow> conversation ms"
  by (auto simp: open_turn_def intro: conversation_snoc)

lemma answers_snoc: "answers cs rs \<Longrightarrow> answers (cs @ [c]) (rs @ [tool_message (tc_id c) out])"
  by (simp add: answers_def tool_message_def)

lemma open_turn_answer: "open_turn (c # cs) ms \<Longrightarrow> open_turn cs (ms @ [tool_message (tc_id c) out])"
proof -
  assume "open_turn (c # cs) ms"
  then obtain ms0 m d rs where o: "ms = ms0 @ m # rs" "conversation ms0" "\<not> is_tool m"
    "ms_tool_calls m = d @ c # cs" "answers d rs" unfolding open_turn_def by blast
  then show ?thesis unfolding open_turn_def
    by (intro exI [of _ ms0] exI [of _ m] exI [of _ "d @ [c]"] exI [of _ "rs @ [tool_message (tc_id c) out]"])
      (simp add: answers_snoc)
qed

lemma open_turn_start: "conversation ms \<Longrightarrow> open_turn (co_tool_calls resp) (ms @ [assistant_message resp])"
  unfolding open_turn_def
  by (intro exI [of _ ms] exI [of _ "assistant_message resp"] exI [of _ "[]"])
    (simp add: assistant_message_def is_tool_def)

lemma without_images_fields [simp]: "is_tool (without_images m) = is_tool m"
  "ms_tool_calls (without_images m) = ms_tool_calls m" "ms_role (without_images m) = ms_role m"
  "ms_tool_call_id (without_images m) = ms_tool_call_id m"
  by (simp_all add: without_images_def is_tool_def)

lemma conversation_stored: "conversation ms \<Longrightarrow> conversation (map without_images ms)"
  by (cases ms) (simp_all add: conversation_def without_images_paired [of "_ # _", simplified])

lemma open_turn_stored: "open_turn cs ms \<Longrightarrow> open_turn cs (map without_images ms)"
proof -
  assume "open_turn cs ms"
  then obtain ms0 m d rs where o: "ms = ms0 @ m # rs" "conversation ms0" "\<not> is_tool m"
    "ms_tool_calls m = d @ cs" "answers d rs" unfolding open_turn_def by blast
  have "answers d (map without_images rs)" using o(5) by (simp add: answers_def comp_def)
  with o show ?thesis unfolding open_turn_def
    by (intro exI [of _ "map without_images ms0"] exI [of _ "without_images m"] exI [of _ d]
        exI [of _ "map without_images rs"]) (simp add: conversation_stored)
qed

section \<open>Rows that can be resumed\<close>

definition resumable :: "run_row \<Rightarrow> bool" where
  "resumable r \<longleftrightarrow>
     (case messages_of r of
        None \<Rightarrow> False
      | Some ms \<Rightarrow> (case rr_pending r of None \<Rightarrow> conversation ms | Some cs \<Rightarrow> open_turn cs ms))"

definition resumable_at :: "string \<Rightarrow> 'y run_world \<Rightarrow> bool" where
  "resumable_at rid w \<longleftrightarrow> (case row_of rid w of None \<Rightarrow> True | Some r \<Rightarrow> resumable r)"

definition pending_in :: "string \<Rightarrow> 'y run_world \<Rightarrow> tool_call list option" where
  "pending_in rid w = (case row_of rid w of None \<Rightarrow> None | Some r \<Rightarrow> rr_pending r)"

text \<open>Nobody else writes the pending calls of a run while it executes.\<close>

definition leaves_pending :: "string \<Rightarrow> 'y run_env \<Rightarrow> bool" where
  "leaves_pending rid E \<longleftrightarrow>
     (\<forall>q t w. pending_in rid (snd (rn_route E q t w)) = pending_in rid w)
     \<and> (\<forall>t args w. pending_in rid (snd (te_handler (xe_tools (rn_exec E)) t args w)) = pending_in rid w)"

lemma messages_of_booked [simp]:
  "rr_messages r = dump_messages ms \<Longrightarrow> messages_of r = Some (map without_images ms)"
  by (simp add: messages_of_def load_dump_messages)

lemma pending_writes [simp]:
  "pending_in rid (log_event i ev w) = pending_in rid w"
  "pending_in rid (on_registry f w) = pending_in rid w"
  by (simp_all add: pending_in_def)

lemma pending_save: "(\<And>r. rr_pending (f r) = rr_pending r) \<Longrightarrow> pending_in rid (save E rid pg f w) = pending_in rid w"
  by (simp add: pending_in_def book_progress_def split: option.split)

lemma save_resumable:
  assumes "conversation (pg_msgs pg)" "pending_in rid w = None"
    and "\<And>r. rr_pending (f r) = rr_pending r" "\<And>r. rr_messages (f r) = rr_messages r"
  shows "resumable_at rid (save E rid pg f w)"
  using assms conversation_stored [OF assms(1)]
  by (cases "row_of rid w") (simp_all add: resumable_at_def resumable_def pending_in_def book_progress_def)

lemma resumable_log [simp]: "resumable_at rid (log_event i ev w) = resumable_at rid w"
  "resumable_at rid (notify_finished i st reason w) = resumable_at rid w"
  by (simp_all add: resumable_at_def)

lemma end_run_resumable:
  "conversation (pg_msgs pg) \<Longrightarrow> pending_in rid w = None \<Longrightarrow> resumable_at rid (end_run E rid pg reason res w)"
  by (simp add: end_run_def save_resumable)

lemma wait_resumable: "open_turn cs (pg_msgs pg) \<Longrightarrow> resumable_at rid (wait_for_human E rid pg cs w)"
  using open_turn_stored [of cs "pg_msgs pg"]
  by (simp add: wait_for_human_def resumable_at_def resumable_def book_progress_def split: option.split)

lemma fail_resumable:
  assumes "conversation (pg_msgs pg)" "pending_in rid w = None"
  shows "resumable_at rid (fail_run E rid e pg w)"
  using assms conversation_stored [OF assms(1)]
  by (cases "row_of rid w") (simp_all add: fail_run_def resumable_at_def resumable_def pending_in_def book_progress_def)

section \<open>A run keeps its conversation\<close>

lemma call_tool_pending:
  assumes "\<And>t args w. pending_in rid (snd (te_handler X t args w)) = pending_in rid w"
    and "call_tool X name args allowed caller ok mp w = (out, w')"
  shows "pending_in rid w' = pending_in rid w"
proof -
  have rh: "pending_in rid (snd (run_handler X t n args s w)) = pending_in rid w" for t n s w
    using assms(1) [of t args w] by (auto simp: run_handler_def split: prod.splits handled.splits)
  have "pending_in rid (snd (checked_call X name args allowed ok mp s caller w)) = pending_in rid w" for s
    by (auto simp: checked_call_def rh split: sum.splits prod.splits option.splits)
  then show ?thesis using assms(2) by (auto simp: call_tool_def split: prod.splits dest!: arg_cong [where f = snd])
qed

lemma run_one_pending:
  assumes "\<And>t args w. pending_in rid (snd (te_handler (xe_tools X) t args w)) = pending_in rid w"
    and "run_one X allowed caller (\<lambda>_ _ _ w. (ok, w)) mp c w = (s, w')"
  shows "pending_in rid w' = pending_in rid w"
  using assms(2) by (auto simp: run_one_def split: sum.splits prod.splits if_splits bool.splits
      dest!: call_tool_pending [OF assms(1)])

lemma run_tools_keeps:
  assumes E: "leaves_pending rid E" and o: "open_turn cs (pg_msgs pg)"
    and r: "run_tools E rid a cs dec pg w = (out, pg', w')"
  shows "(\<forall>e. out \<noteq> Exc e) \<and> (out = Ret True \<longrightarrow> resumable_at rid w')
     \<and> (out = Ret False \<longrightarrow> conversation (pg_msgs pg') \<and> pending_in rid w' = pending_in rid w)"
  using o r
proof (induction cs arbitrary: dec pg w)
  case Nil
  then show ?case by (auto dest: open_turn_closed)
next
  case (Cons c cs)
  have th: "pending_in rid (snd (te_handler (xe_tools (rn_exec E)) t args w)) = pending_in rid w" for t args w
    using E by (simp add: leaves_pending_def)
  have said: "open_turn cs (pg_msgs (say (tool_message (tc_id c) s) pg))" for s
    using open_turn_answer [OF Cons.prems(1)] by (simp add: say_def)
  note IH = Cons.IH [OF said]
  show ?case using Cons.prems(2) wait_resumable [OF Cons.prems(1)]
    by (auto split: if_splits option.splits prod.splits dest!: IH run_one_pending [OF th])
qed

text \<open>\<open>at_ease\<close>: the state between two awaits of a run that goes on.\<close>

definition at_ease :: "string \<Rightarrow> progress \<Rightarrow> 'y run_world \<Rightarrow> bool" where
  "at_ease rid pg w \<longleftrightarrow> conversation (pg_msgs pg) \<and> pending_in rid w = None"

lemma route_pending:
  "leaves_pending rid E \<Longrightarrow> rn_route E q t w = (out, w') \<Longrightarrow> pending_in rid w' = pending_in rid w"
  unfolding leaves_pending_def by (metis snd_conv)

lemma summarize_pending:
  "leaves_pending rid E \<Longrightarrow> summarize E a d w = (out, w') \<Longrightarrow> pending_in rid w' = pending_in rid w"
  by (auto simp: summarize_def split: prod.splits outcome.splits dest!: route_pending)

lemma compact_pending:
  assumes "\<And>f d w out w'. s = Some f \<Longrightarrow> f d w = (out, w') \<Longrightarrow> pending_in rid w' = pending_in rid w"
    and "compact s system n keep ms w = (out, w')"
  shows "pending_in rid w' = pending_in rid w"
  using assms(2)
  by (auto simp: compact_def Let_def condensed_note_def split: if_splits prod.splits outcome.splits option.splits
      dest: assms(1))

lemma ask_model_conversation:
  "ask_model E rid a pg w = (out, pg', w') \<Longrightarrow> conversation (pg_msgs pg) \<Longrightarrow> conversation (pg_msgs pg')"
  by (auto simp: ask_model_def Let_def book_model_call_def split: option.splits prod.splits outcome.splits if_splits
      dest: compact_conversation)

lemma ask_model_pending:
  assumes E: "leaves_pending rid E" and r: "ask_model E rid a pg w = (out, pg', w')"
  shows "pending_in rid w' = pending_in rid w"
proof (cases "row_of rid w")
  case None
  then show ?thesis using r by (auto simp: ask_model_def)
next
  case (Some row)
  define s where "s = (if ag_summarize a then Some (summarize E a) else None)"
  have s: "s = Some f \<Longrightarrow> f d v = (o1, v') \<Longrightarrow> pending_in rid v' = pending_in rid v" for f d v o1 v'
    using summarize_pending [OF E] by (auto simp: s_def split: if_splits)
  note rt = route_pending [OF E]
  obtain o1 w1 where c: "compact s (system_prompt E a row (pg_msgs pg) w) (ag_context_tokens a) (ag_keep_recent a)
      (pg_msgs pg) w = (o1, w1)" by fastforce
  have "pending_in rid w1 = pending_in rid w" by (rule compact_pending [OF s c])
  then show ?thesis using r Some c unfolding ask_model_def s_def [symmetric]
    by (auto simp: Let_def split: prod.splits outcome.splits if_splits dest!: rt)
qed

lemma make_plan_conversation:
  assumes r: "make_plan E rid a pg w = (out, pg', w')" and c: "conversation (pg_msgs pg)"
  shows "conversation (pg_msgs pg')"
proof -
  obtain m ms where ms: "pg_msgs pg = m # ms" using c by (cases "pg_msgs pg") (auto simp: conversation_def)
  have planned: "conversation (m' # ms)" if m': "ms_role m' = ms_role m" "ms_tool_calls m' = []" for m'
  proof -
    obtain us where us: "m # ms = concat us" "list_all complete_turn us" using c ms by (auto simp: conversation_def paired_iff)
    then obtain t vs where t: "us = t # vs" "complete_turn t" by (cases us) auto
    then obtain rs where "t = m # rs" using us(1) by (cases t) auto
    with t us c ms have "paired ms" "\<not> is_tool m" by (auto simp: paired_iff conversation_def)
    then have "paired ([m'] @ ms)"
      using m' by (intro paired_append) (simp_all add: paired_turn is_tool_def)
    then show ?thesis using m' by (simp add: conversation_def)
  qed
  show ?thesis using r c ms
    by (auto simp: make_plan_def Let_def book_model_call_def plain_user_def user_note_def
        split: option.splits prod.splits outcome.splits if_splits intro!: planned)
qed

lemma make_plan_pending:
  "leaves_pending rid E \<Longrightarrow> make_plan E rid a pg w = (out, pg', w') \<Longrightarrow> pending_in rid w' = pending_in rid w"
  by (auto simp: make_plan_def Let_def pending_save
      split: option.splits prod.splits outcome.splits if_splits list.splits dest!: route_pending)


definition keeps :: "string \<Rightarrow> turn_end \<times> progress \<times> 'y run_world \<Rightarrow> bool" where
  "keeps rid res \<longleftrightarrow>
     (case res of (e, pg, w) \<Rightarrow>
        (case e of NextTurn \<Rightarrow> at_ease rid pg w | Failing _ \<Rightarrow> at_ease rid pg w
         | Ended \<Rightarrow> resumable_at rid w | Interrupted \<Rightarrow> True))"

lemma end_run_keeps [simp]: "at_ease rid pg w \<Longrightarrow> resumable_at rid (end_run E rid pg reason res w)"
  by (simp add: at_ease_def end_run_resumable)

lemma one_turn_keeps:
  assumes E: "leaves_pending rid E" and ease: "at_ease rid pg w"
  shows "keeps rid (one_turn E rid a pg w)"
proof (cases "row_of rid w")
  case None
  then show ?thesis using ease by (simp add: one_turn_def keeps_def)
next
  case row: (Some row)
  show ?thesis
  proof (cases "limit_reason a row (rn_time E w) pg")
    case (Some reason)
    then show ?thesis using row ease by (simp add: one_turn_def keeps_def)
  next
    case None
    obtain out pg1 w1 where am: "ask_model E rid a pg w = (out, pg1, w1)" by (metis prod_cases3)
    have e1: "at_ease rid pg1 w1"
      using ease ask_model_conversation [OF am] ask_model_pending [OF E am] by (simp add: at_ease_def)
    show ?thesis
    proof (cases out)
      case (Ret resp)
      define pg2 where "pg2 = say (assistant_message resp) (pg1\<lparr>pg_step := pg_step pg1 + 1\<rparr>)"
      have o2: "open_turn (co_tool_calls resp) (pg_msgs pg2)"
        using e1 open_turn_start by (simp add: pg2_def say_def at_ease_def)
      show ?thesis
      proof (cases "co_tool_calls resp = []")
        case True
        then have "at_ease rid pg2 (save E rid pg2 (\<lambda>r. r\<lparr>rr_result := Some (co_content resp)\<rparr>) w1)"
          using o2 e1 by (simp add: at_ease_def open_turn_closed pending_save)
        then show ?thesis using True row None am Ret by (simp add: one_turn_def keeps_def pg2_def Let_def)
      next
        case False
        obtain o3 pg3 w3 where rt: "run_tools E rid a (co_tool_calls resp) None pg2 w1 = (o3, pg3, w3)"
          by (metis prod_cases3)
        note k = run_tools_keeps [OF E o2 rt]
        have e3: "o3 = Ret False \<Longrightarrow> at_ease rid pg3 (save E rid pg3 id w3)"
          using k e1 by (simp add: at_ease_def pending_save)
        show ?thesis using False row None am Ret rt k e3
          by (cases o3) (auto simp: one_turn_def keeps_def pg2_def [symmetric] Let_def)
      qed
    qed (use row None am e1 in \<open>simp_all add: one_turn_def keeps_def\<close>)
  qed
qed

lemma run_loop_keeps: "leaves_pending rid E \<Longrightarrow> at_ease rid pg w \<Longrightarrow> keeps rid (run_loop E rid a pg w)"
proof (induction E rid a pg w rule: run_loop.induct)
  case (1 E rid a pg w)
  obtain e pg' w' where t: "one_turn E rid a pg w = (e, pg', w')" by (metis prod_cases3)
  have "keeps rid (e, pg', w')" using one_turn_keeps [OF "1.prems"] t by metis
  then show ?case using "1.IH" [OF t [symmetric]] "1.prems" t
    by (subst run_loop.simps) (cases e; simp add: keeps_def)
qed

lemma run_body_keeps:
  assumes E: "leaves_pending rid E" and none: "pending_in rid w = None"
    and start: "case pending of None \<Rightarrow> conversation (pg_msgs pg) | Some cs \<Rightarrow> open_turn cs (pg_msgs pg)"
  shows "keeps rid (run_body E rid a pending dec pg w)"
proof -
  have p: "keeps rid (run_pending E rid a pending dec pg w)"
  proof (cases pending)
    case None
    then show ?thesis using start none by (simp add: run_pending_def keeps_def at_ease_def)
  next
    case (Some cs)
    obtain o1 pg1 w1 where rt: "run_tools E rid a cs dec pg w = (o1, pg1, w1)" by (metis prod_cases3)
    show ?thesis using Some rt start none run_tools_keeps [OF E _ rt]
      by (cases o1) (auto simp: run_pending_def keeps_def at_ease_def)
  qed
  have q: "keeps rid (run_planning E rid a pending pg w)" if "at_ease rid pg w" for pg w
    using that
    by (auto simp: run_planning_def keeps_def at_ease_def end_run_resumable split: option.splits prod.splits outcome.splits
        dest: make_plan_conversation make_plan_pending [OF E])
  obtain e1 pg1 w1 where r1: "run_pending E rid a pending dec pg w = (e1, pg1, w1)" by (metis prod_cases3)
  show ?thesis
  proof (cases "e1 = NextTurn")
    case True
    then have e: "at_ease rid pg1 w1" using p r1 by (simp add: keeps_def)
    obtain e2 pg2 w2 where r2: "run_planning E rid a pending pg1 w1 = (e2, pg2, w2)" by (metis prod_cases3)
    show ?thesis using q [OF e] run_loop_keeps [OF E, of pg2 w2 a] r1 r2 True
      by (cases e2) (simp_all add: run_body_def keeps_def)
  next
    case False
    then show ?thesis using p r1 by (cases e1) (simp_all add: run_body_def)
  qed
qed

lemma close_run_keeps:
  assumes "keeps rid res" "fst res \<noteq> NextTurn" "fst (close_run E rid res) \<noteq> RunInterrupted"
  shows "resumable_at rid (snd (close_run E rid res))"
proof -
  obtain e pg w where res: "res = (e, pg, w)" by (metis prod_cases3)
  show ?thesis using assms
    by (cases e) (simp_all add: res keeps_def close_run_def Let_def at_ease_def fail_resumable)
qed

section \<open>What the model is asked\<close>

definition with_route ::
  "(request \<Rightarrow> real option \<Rightarrow> 'y run_world \<Rightarrow> completion outcome \<times> 'y run_world) \<Rightarrow> 'y run_env \<Rightarrow> 'y run_env" where
  "with_route g E = E\<lparr>rn_route := g\<rparr>"

definition agrees_on_paired ::
  "(request \<Rightarrow> real option \<Rightarrow> 'y run_world \<Rightarrow> completion outcome \<times> 'y run_world) \<Rightarrow> 'y run_env \<Rightarrow> bool" where
  "agrees_on_paired g E \<longleftrightarrow> (\<forall>q t w. paired (rq_messages q) \<longrightarrow> g q t w = rn_route E q t w)"

lemma with_route_sel [simp]:
  "rn_route (with_route g E) = g" "rn_time (with_route g E) = rn_time E" "rn_exec (with_route g E) = rn_exec E"
  "rn_agents (with_route g E) = rn_agents E" "rn_caller (with_route g E) = rn_caller E"
  "rn_max_permission (with_route g E) = rn_max_permission E" "rn_memory (with_route g E) = rn_memory E"
  "rn_raise (with_route g E) = rn_raise E"
  by (simp_all add: with_route_def)

lemma with_route_set_run: "set_run (with_route g E) = set_run E"
  by (intro ext) (simp add: set_run_def)

lemma with_route_save: "save (with_route g E) = save E"
  by (intro ext) (simp add: save_def with_route_set_run)

lemma with_route_ends:
  "end_run (with_route g E) = end_run E" "wait_for_human (with_route g E) = wait_for_human E"
  "interrupt_run (with_route g E) = interrupt_run E" "fail_run (with_route g E) = fail_run E"
  unfolding end_run_def [abs_def] wait_for_human_def [abs_def] interrupt_run_def [abs_def] fail_run_def [abs_def]
    with_route_save with_route_set_run by (rule refl)+

lemma with_route_close: "close_run (with_route g E) = close_run E"
  unfolding close_run_def [abs_def] with_route_ends by (rule refl)

lemma with_route_system: "system_prompt (with_route g E) = system_prompt E"
  unfolding system_prompt_def [abs_def] with_route_sel by (rule refl)

lemma with_route_tools: "run_tools (with_route g E) rid a cs dec pg w = run_tools E rid a cs dec pg w"
proof (induction cs arbitrary: dec pg w)
  case (Cons c cs)
  show ?case unfolding run_tools.simps with_route_ends with_route_sel Cons.IH by (rule refl)
qed simp

lemma plain_user_paired: "paired [plain_user s]"
  by (simp add: paired_turn plain_user_def user_note_def is_tool_def)

lemma with_route_summarize: "agrees_on_paired g E \<Longrightarrow> summarize (with_route g E) = summarize E"
  by (intro ext) (simp add: summarize_def agrees_on_paired_def summary_request_def plain_user_paired)

lemma with_route_plan: "agrees_on_paired g E \<Longrightarrow> make_plan (with_route g E) rid a pg w = make_plan E rid a pg w"
proof -
  assume g: "agrees_on_paired g E"
  have asked: "g (agent_request a [plain_user s] system meta tools) t w
      = rn_route E (agent_request a [plain_user s] system meta tools) t w" for s system meta tools t w
    using g by (simp add: agrees_on_paired_def agent_request_def plain_user_paired)
  show ?thesis
    unfolding make_plan_def with_route_system with_route_save with_route_sel asked by (rule refl)
qed

lemma with_route_ask:
  assumes g: "agrees_on_paired g E" and c: "conversation (pg_msgs pg)"
  shows "ask_model (with_route g E) rid a pg w = ask_model E rid a pg w"
proof (cases "row_of rid w")
  case None
  then show ?thesis by (simp add: ask_model_def)
next
  case (Some row)
  obtain o1 w1 where k: "compact (if ag_summarize a then Some (summarize E a) else None)
      (system_prompt E a row (pg_msgs pg) w) (ag_context_tokens a) (ag_keep_recent a) (pg_msgs pg) w = (o1, w1)"
    by fastforce
  have asked: "g (agent_request a ctx system meta tools) t v = rn_route E (agent_request a ctx system meta tools) t v"
    if "o1 = Ret (ctx, ch)" for ctx ch system meta tools t v
    using g compact_conversation [OF k [unfolded that] c]
    by (simp add: agrees_on_paired_def agent_request_def conversation_def)
  show ?thesis
  proof (cases o1)
    case (Ret x)
    then obtain ctx ch where x: "o1 = Ret (ctx, ch)" by (cases x) auto
    show ?thesis
      unfolding ask_model_def with_route_summarize [OF g] with_route_system with_route_sel Some option.case k x Let_def
        outcome.case prod.case asked [OF x]
      by (rule refl)
  next
    case (Exc e)
    show ?thesis
      unfolding ask_model_def with_route_summarize [OF g] with_route_system with_route_sel Some option.case k Exc Let_def
        outcome.case prod.case by (rule refl)
  next
    case Cancel
    show ?thesis
      unfolding ask_model_def with_route_summarize [OF g] with_route_system with_route_sel Some option.case k Cancel Let_def
        outcome.case prod.case by (rule refl)
  qed
qed

lemma with_route_turn:
  assumes "agrees_on_paired g E" "conversation (pg_msgs pg)"
  shows "one_turn (with_route g E) rid a pg w = one_turn E rid a pg w"
  unfolding one_turn_def with_route_ask [OF assms] with_route_ends with_route_save with_route_sel with_route_tools
  by (rule refl)

text \<open>That a turn keeps the conversation does not depend on what else writes the row.\<close>

lemma run_tools_conversation:
  "open_turn cs (pg_msgs pg) \<Longrightarrow> run_tools E rid a cs dec pg w = (Ret False, pg', w') \<Longrightarrow> conversation (pg_msgs pg')"
proof (induction cs arbitrary: dec pg w)
  case Nil
  then show ?case by (auto dest: open_turn_closed)
next
  case (Cons c cs)
  have said: "open_turn cs (pg_msgs (say (tool_message (tc_id c) s) pg))" for s
    using open_turn_answer [OF Cons.prems(1)] by (simp add: say_def)
  show ?case using Cons.prems(2)
    by (auto split: if_splits option.splits prod.splits dest!: Cons.IH [OF said])
qed

lemma one_turn_conversation:
  assumes c: "conversation (pg_msgs pg)" and t: "one_turn E rid a pg w = (NextTurn, pg', w')"
  shows "conversation (pg_msgs pg')"
proof -
  obtain row where row: "row_of rid w = Some row" using t by (auto simp: one_turn_def split: option.splits)
  have lim: "limit_reason a row (rn_time E w) pg = None"
    using t row by (auto simp: one_turn_def split: option.splits)
  obtain resp pg1 w1 where am: "ask_model E rid a pg w = (Ret resp, pg1, w1)"
    using t row lim by (auto simp: one_turn_def split: prod.splits outcome.splits)
  define pg2 where "pg2 = say (assistant_message resp) (pg1\<lparr>pg_step := pg_step pg1 + 1\<rparr>)"
  have o2: "open_turn (co_tool_calls resp) (pg_msgs pg2)"
    using ask_model_conversation [OF am c] open_turn_start by (simp add: pg2_def say_def)
  obtain pg3 w3 where "run_tools E rid a (co_tool_calls resp) None pg2 w1 = (Ret False, pg3, w3)" "pg' = pg3"
    using t row lim am
    by (auto simp: one_turn_def Let_def pg2_def split: prod.splits outcome.splits if_splits)
  then show ?thesis using run_tools_conversation [OF o2] by blast
qed

lemma with_route_loop:
  assumes g: "agrees_on_paired g E"
  shows "conversation (pg_msgs pg) \<Longrightarrow> run_loop (with_route g E) rid a pg w = run_loop E rid a pg w"
proof (induction "nat (ag_max_steps a - pg_step pg)" arbitrary: pg w rule: less_induct)
  case less
  obtain res pg' w' where t: "one_turn E rid a pg w = (res, pg', w')" by (metis prod_cases3)
  have next_turn: "run_loop (with_route g E) rid a pg' w' = run_loop E rid a pg' w'" if "res = NextTurn"
    using that t one_turn_measure [of pg' w' E rid a pg w] one_turn_conversation [OF less.prems, of E rid a w pg' w']
    by (simp add: less)
  show ?case
    using next_turn t by (subst (1 2) run_loop.simps) (cases res; simp add: with_route_turn [OF g less.prems])
qed

lemma with_route_body:
  assumes g: "agrees_on_paired g E"
    and start: "case pending of None \<Rightarrow> conversation (pg_msgs pg) | Some cs \<Rightarrow> open_turn cs (pg_msgs pg)"
  shows "run_body (with_route g E) rid a pending dec pg w = run_body E rid a pending dec pg w"
proof -
  have p: "run_pending (with_route g E) rid a pending dec pg w = run_pending E rid a pending dec pg w"
    unfolding run_pending_def with_route_tools by (rule refl)
  have q: "run_planning (with_route g E) rid a pending pg v = run_planning E rid a pending pg v" for pg v
    unfolding run_planning_def with_route_plan [OF g] with_route_ends with_route_sel by (rule refl)
  obtain e1 pg1 w1 where r1: "run_pending E rid a pending dec pg w = (e1, pg1, w1)" by (metis prod_cases3)
  have c1: "conversation (pg_msgs pg1)" if "e1 = NextTurn"
    using r1 that start
    by (auto simp: run_pending_def split: option.splits prod.splits outcome.splits if_splits dest: run_tools_conversation)
  obtain e2 pg2 w2 where r2: "run_planning E rid a pending pg1 w1 = (e2, pg2, w2)" by (metis prod_cases3)
  have c2: "conversation (pg_msgs pg2)" if "e1 = NextTurn" "e2 = NextTurn"
    using r2 c1 [OF that(1)] that(2)
    by (auto simp: run_planning_def split: option.splits prod.splits outcome.splits if_splits dest: make_plan_conversation)
  show ?thesis using c2 with_route_loop [OF g, of pg2 rid a w2]
    by (cases e1; cases e2) (simp_all add: run_body_def p q r1 r2)
qed

section \<open>Properties\<close>

text \<open>
  C39. A run that can be resumed stays so, and asks only whole conversations. A stored run is
  resumable when its history opens with a task and every tool call in it has its result, except the
  pending calls of the last turn. Executing it shows the model only conversations in which every
  tool call is answered (the run depends on \<open>route\<close> only through its answers to those), and unless
  it is cancelled the run that is stored at the end is resumable again.
\<close>

theorem runs_stay_resumable:
  assumes "row_of rid w = Some r" "resumable r" "agrees_on_paired g E" "leaves_pending rid E"
  shows "execute (with_route g E) rid dec w = execute E rid dec w
    \<and> (fst (execute E rid dec w) \<noteq> RunInterrupted \<longrightarrow> resumable_at rid (snd (execute E rid dec w)))"
proof (cases "run_finished r \<or> od_get (rn_agents E) (rr_agent r) = None")
  case True
  then show ?thesis using assms(1,2) by (auto simp: execute_def resumable_at_def)
next
  case False
  then obtain a where a: "od_get (rn_agents E) (rr_agent r) = Some a" "\<not> run_finished r" by auto
  obtain ms where ms: "messages_of r = Some ms" using assms(2) by (auto simp: resumable_def split: option.splits)
  define w1 where "w1 = log_event rid (if rr_step r \<noteq> 0 \<or> rr_pending r \<noteq> None then Resumed (rr_step r) else Started (rr_step r))
    (set_run E rid (\<lambda>r. r\<lparr>rr_status := RUNNING, rr_pending := None\<rparr>) w)"
  have start: "case rr_pending r of None \<Rightarrow> conversation (pg_msgs (progress_of r ms))
      | Some cs \<Rightarrow> open_turn cs (pg_msgs (progress_of r ms))"
    using assms(2) ms by (simp add: resumable_def progress_of_def split: option.splits)
  have none: "pending_in rid w1 = None" using assms(1) by (simp add: w1_def pending_in_def)
  have ex: "execute F rid dec w = close_run F rid (run_body F rid (effective a) (rr_pending r) dec (progress_of r ms) w1)"
    if "rn_agents F = rn_agents E" "set_run F = set_run E" for F
    using assms(1) a ms that by (simp add: execute_def w1_def)
  define res where "res = run_body E rid (effective a) (rr_pending r) dec (progress_of r ms) w1"
  have "keeps rid res" unfolding res_def by (rule run_body_keeps [OF assms(4) none start])
  moreover have "fst res \<noteq> NextTurn"
    using run_body_ends [of rid "progress_of r ms" "effective a" E "rr_pending r" dec w1] by (simp add: res_def)
  ultimately show ?thesis
    using close_run_keeps [of rid res E] ex [of E] ex [of "with_route g E"]
    by (simp add: with_route_set_run with_route_close with_route_body [OF assms(3) start] res_def)
qed

text \<open>A model that insists on whole conversations.\<close>

definition strict_route :: "request \<Rightarrow> real option \<Rightarrow> int run_world \<Rightarrow> completion outcome \<times> int run_world" where
  "strict_route q t w = (if paired (rq_messages q) then (Ret call_drop, w) else (Cancel, w))"

theorem runs_stay_resumable_witness:
  "resumable_at ''r1'' (snd (execute (with_route strict_route drop_env) ''r1'' None fresh_world))
   \<and> fst (execute drop_env ''r1'' None fresh_world) \<noteq> RunInterrupted"
proof -
  have r: "resumable (the (row_of ''r1'' fresh_world))"
    by (simp add: fresh_row resumable_def conversation_def without_images_def paired_turn plain_user_def
        user_note_def is_tool_def)
  have g: "agrees_on_paired strict_route drop_env"
    by (simp add: agrees_on_paired_def strict_route_def drop_env_def)
  have l: "leaves_pending ''r1'' drop_env"
    by (simp add: leaves_pending_def drop_env_def pending_in_def row_of_def run_store_of_def)
  have n: "fst (execute drop_env ''r1'' None fresh_world) \<noteq> RunInterrupted"
    by (simp add: run_eval drop_env_def Let_def)
  show ?thesis
    using runs_stay_resumable [OF fresh_row _ g l, of None] r n by (simp add: fresh_row)
qed

text \<open>
  A cancellation breaks this: a tool call that is cancelled leaves a history in which the calls of
  the last assistant message have no results, and it is stored so, without pending calls.
\<close>

lemma answers_length: "answers cs rs \<Longrightarrow> length rs = length cs"
  unfolding answers_def by (drule arg_cong [where f = length]) simp

lemma open_turn_unpaired:
  assumes "open_turn (c # cs) ms"
  shows "\<not> paired ms"
proof
  assume p: "paired ms"
  obtain ms0 m d rs where o: "ms = ms0 @ m # rs" "conversation ms0" "\<not> is_tool m"
    "ms_tool_calls m = d @ c # cs" "answers d rs" using assms unfolding open_turn_def by blast
  have "turns ms = fold add_to_turns (m # rs) (turns ms0)" by (simp add: o(1) turns_def)
  also have "\<dots> = turns ms0 @ [m # rs]"
    using o(3) fold_tools [OF answers_tools [OF o(5)], of "turns ms0" "[m]"] by (simp add: add_to_turns_def)
  finally have "complete_turn (m # rs)" using p by (simp add: paired_def)
  then have "length rs = length (d @ c # cs)" using answers_length [of "d @ c # cs" rs] by (simp add: o(4))
  then show False using answers_length [OF o(5)] by simp
qed

lemma cancelled_calls_dangle:
  "open_turn cs (pg_msgs pg) \<Longrightarrow> run_tools E rid a cs dec pg w = (Cancel, pg', w') \<Longrightarrow> \<not> paired (pg_msgs pg')"
proof (induction cs arbitrary: dec pg w)
  case (Cons c cs)
  have said: "open_turn cs (pg_msgs (say (tool_message (tc_id c) s) pg))" for s
    using open_turn_answer [OF Cons.prems(1)] by (simp add: say_def)
  show ?case using Cons.prems(2) open_turn_unpaired [OF Cons.prems(1)]
    by (auto split: if_splits option.splits prod.splits dest!: Cons.IH [OF said])
qed simp

end
