(* ===== verification/Calendar.thy ===== *)
theory Calendar
  imports Prelude
begin

text \<open>
  The calendar of Python's \<open>datetime\<close>, as \<open>src/harness/cron.py\<close> uses it: dates are years, months and
  days of the proleptic Gregorian calendar, and days are counted from the first of January 1970.
\<close>

section \<open>Years and months\<close>

definition leap :: "int \<Rightarrow> bool" where
  "leap y \<longleftrightarrow> y mod 4 = 0 \<and> (y mod 100 \<noteq> 0 \<or> y mod 400 = 0)"

definition year_len :: "int \<Rightarrow> int" where
  "year_len y = (if leap y then 366 else 365)"

definition month_len :: "int \<Rightarrow> int \<Rightarrow> int" where
  "month_len y m = (if m = 2 then (if leap y then 29 else 28) else if m \<in> set [4, 6, 9, 11] then 30 else 31)"

definition before_month :: "int \<Rightarrow> int \<Rightarrow> int" where
  "before_month y m =
     [0, 31, 59, 90, 120, 151, 181, 212, 243, 273, 304, 334] ! nat (m - 1) + (if m > 2 \<and> leap y then 1 else 0)"

definition jan1 :: "int \<Rightarrow> int" where
  "jan1 y = 365 * (y - 1970) + ((y - 1) div 4 - (y - 1) div 100 + (y - 1) div 400) - 477"

definition day_no :: "int \<Rightarrow> int \<Rightarrow> int \<Rightarrow> int" where
  "day_no y m d = jan1 y + before_month y m + d - 1"

definition valid_date :: "int \<Rightarrow> int \<Rightarrow> int \<Rightarrow> bool" where
  "valid_date y m d \<longleftrightarrow> 1 \<le> m \<and> m \<le> 12 \<and> 1 \<le> d \<and> d \<le> month_len y m"

lemma months12: "1 \<le> m \<Longrightarrow> m \<le> 12 \<Longrightarrow>
    m = 1 \<or> m = 2 \<or> m = 3 \<or> m = 4 \<or> m = 5 \<or> m = 6 \<or> m = 7 \<or> m = 8 \<or> m = 9 \<or> m = 10 \<or> m = 11 \<or> m = (12 :: int)"
  by presburger

lemma month_len_bounds: "28 \<le> month_len y m" "month_len y m \<le> 31"
  by (simp_all add: month_len_def)

lemma year_len_bounds: "365 \<le> year_len y" "year_len y \<le> 366"
  by (simp_all add: year_len_def)

lemma before_month_next: "1 \<le> m \<Longrightarrow> m \<le> 11 \<Longrightarrow> before_month y (m + 1) = before_month y m + month_len y m"
  using months12 [of m] by (auto simp: before_month_def month_len_def)

lemma before_month_1 [simp]: "before_month y 1 = 0"
  by (simp add: before_month_def)

lemma before_month_12: "before_month y 12 + 31 = year_len y"
  by (simp add: before_month_def year_len_def)

lemma jan1_next: "jan1 (y + 1) = jan1 y + year_len y"
proof -
  have q: "y div k - (y - 1) div k = (if y mod k = 0 then 1 else 0)" if "k > 0" for k :: int
  proof (cases "y mod k = 0")
    case True
    then have "y - 1 = k * (y div k - 1) + (k - 1)" using mult_div_mod_eq [of k y] by (simp add: algebra_simps)
    then have "(y - 1) div k = y div k - 1" using that by (intro int_div_pos_eq [where r = "k - 1"]) auto
    then show ?thesis using True by simp
  next
    case False
    have "y - 1 = k * (y div k) + (y mod k - 1)" by simp
    moreover have "0 < y mod k" "y mod k < k" using False that pos_mod_sign [of k y] pos_mod_bound [of k y] by linarith+
    ultimately have "(y - 1) div k = y div k" by (intro int_div_pos_eq [where r = "y mod k - 1"]) auto
    then show ?thesis using False by simp
  qed
  have m: "y mod 400 = 0 \<Longrightarrow> y mod 100 = 0" "y mod 100 = 0 \<Longrightarrow> y mod 4 = 0"
    using dvd_trans [of "100 :: int" 400 y] dvd_trans [of "4 :: int" 100 y] by (simp_all add: mod_eq_0_iff_dvd)
  have "jan1 (y + 1) - jan1 y = 365 + (y div 4 - (y - 1) div 4) - (y div 100 - (y - 1) div 100) + (y div 400 - (y - 1) div 400)"
  proof -
    have "365 * (y + 1 - 1970) + (a - b + c) - 477 - (365 * (y - 1970) + (a' - b' + c') - 477)
        = 365 + (a - a') - (b - b') + (c - c')" for a b c a' b' c' :: int by simp
    then show ?thesis unfolding jan1_def add_diff_cancel_right' .
  qed
  also have "\<dots> = 365 + (if y mod 4 = 0 then 1 else 0) - (if y mod 100 = 0 then 1 else 0) + (if y mod 400 = 0 then 1 else 0)"
    by (simp only: q zero_less_numeral)
  also have "\<dots> = year_len y"
  proof (cases "y mod 4 = 0")
    case True
    then show ?thesis using m by (cases "y mod 100 = 0"; cases "y mod 400 = 0") (simp_all only: year_len_def leap_def, simp_all)
  next
    case False
    then have n100: "y mod 100 \<noteq> 0" using m(2) by metis
    then have "y mod 400 \<noteq> 0" using m(1) by metis
    with False n100 show ?thesis by (simp only: year_len_def leap_def) simp
  qed
  finally show ?thesis by (simp only: diff_eq_eq add.commute)
qed

lemma jan1_mono: "y \<le> y' \<Longrightarrow> jan1 y + 365 * (y' - y) \<le> jan1 y'"
proof (induction "nat (y' - y)" arbitrary: y')
  case (Suc n)
  have "jan1 y + 365 * (y' - 1 - y) \<le> jan1 (y' - 1)" using Suc.hyps(2) by (intro Suc.hyps(1)) auto
  then show ?case using jan1_next [of "y' - 1"] year_len_bounds(1) [of "y' - 1"] by simp
qed simp

section \<open>Dates of days\<close>

function split_years :: "int \<Rightarrow> int \<Rightarrow> int \<times> int" where
  "split_years n y = (if n < year_len y then (y, n) else split_years (n - year_len y) (y + 1))"
  by pat_completeness auto
termination
proof (relation "measure (\<lambda>(n, y). nat n)")
  fix n y :: int
  assume "\<not> n < year_len y"
  then show "((n - year_len y, y + 1), (n, y)) \<in> measure (\<lambda>(n, y). nat n)"
    using year_len_bounds(1) [of y] by simp
qed simp

function split_months :: "int \<Rightarrow> int \<Rightarrow> int \<Rightarrow> int \<times> int" where
  "split_months y m n = (if 12 \<le> m \<or> n < month_len y m then (m, n) else split_months y (m + 1) (n - month_len y m))"
  by pat_completeness auto
termination
  by (relation "measure (\<lambda>(y, m, n). nat (12 - m))") auto

declare split_years.simps [simp del] split_months.simps [simp del]

text \<open>The calendar repeats every 400 years, which have 146097 days.\<close>

definition civil :: "int \<Rightarrow> int \<times> int \<times> int" where
  "civil z =
     (case split_years (z mod 146097) (1970 + 400 * (z div 146097)) of
        (y, n) \<Rightarrow> (case split_months y 1 n of (m, k) \<Rightarrow> (y, m, k + 1)))"

text \<open>\<open>isoweekday() % 7\<close>: Sunday is 0.\<close>

definition weekday :: "int \<Rightarrow> int" where
  "weekday z = (z + 4) mod 7"

lemma split_years_inv:
  "split_years n y = (y', n') \<Longrightarrow> 0 \<le> n \<Longrightarrow> 0 \<le> n' \<and> n' < year_len y' \<and> jan1 y' + n' = jan1 y + n"
proof (induction n y arbitrary: y' n' rule: split_years.induct)
  case (1 n y)
  show ?case
  proof (cases "n < year_len y")
    case True
    then show ?thesis using "1.prems" by (simp add: split_years.simps [of n y])
  next
    case False
    then show ?thesis using "1.IH" [of y' n'] "1.prems" by (simp add: split_years.simps [of n y] jan1_next)
  qed
qed

lemma split_months_inv:
  "split_months y m n = (m', k) \<Longrightarrow> 0 \<le> n \<Longrightarrow> 1 \<le> m \<Longrightarrow> m \<le> 12 \<Longrightarrow> before_month y m + n < year_len y \<Longrightarrow>
     1 \<le> m' \<and> m' \<le> 12 \<and> 0 \<le> k \<and> k < month_len y m' \<and> before_month y m' + k = before_month y m + n"
proof (induction y m n arbitrary: m' k rule: split_months.induct)
  case (1 y m n)
  show ?case
  proof (cases "12 \<le> m \<or> n < month_len y m")
    case True
    then have "m' = m \<and> k = n" using "1.prems"(1) by (simp add: split_months.simps [of y m n])
    moreover have "n < month_len y m" using True "1.prems" before_month_12 [of y] by (cases "m = 12") (auto simp: month_len_def)
    ultimately show ?thesis using "1.prems" by simp
  next
    case False
    then show ?thesis using "1.IH" [of m' k] "1.prems" before_month_next [of m y]
      by (simp add: split_months.simps [of y m n])
  qed
qed

lemma jan1_era: "jan1 (1970 + 400 * e) = 146097 * e"
proof -
  have "(1969 + 400 * e) div 4 = 492 + 100 * e" by (rule int_div_pos_eq [where r = 1]) simp_all
  moreover have "(1969 + 400 * e) div 100 = 19 + 4 * e" by (rule int_div_pos_eq [where r = 69]) simp_all
  moreover have "(1969 + 400 * e) div 400 = 4 + e" by (rule int_div_pos_eq [where r = 369]) simp_all
  ultimately show ?thesis by (simp add: jan1_def)
qed

lemma civil_date:
  assumes "civil z = (y, m, d)"
  shows "valid_date y m d \<and> day_no y m d = z"
proof -
  obtain y' n where sy: "split_years (z mod 146097) (1970 + 400 * (z div 146097)) = (y', n)" by fastforce
  obtain m' k where sm: "split_months y' 1 n = (m', k)" by fastforce
  have eq: "y = y'" "m = m'" "d = k + 1" using assms by (simp_all add: civil_def sy sm)
  have i: "0 \<le> n" "n < year_len y'" "jan1 y' + n = jan1 (1970 + 400 * (z div 146097)) + z mod 146097"
    using split_years_inv [OF sy] by simp_all
  have j: "1 \<le> m'" "m' \<le> 12" "0 \<le> k" "k < month_len y' m'" "before_month y' m' + k = n"
    using split_months_inv [OF sm] i by simp_all
  show ?thesis using i(3) j mult_div_mod_eq [of 146097 z] by (simp add: eq valid_date_def day_no_def jan1_era)
qed

lemma before_month_room: "1 \<le> m \<Longrightarrow> m \<le> 12 \<Longrightarrow> 0 \<le> before_month y m \<and> before_month y m + month_len y m \<le> year_len y"
  using months12 [of m] by (auto simp: before_month_def month_len_def year_len_def)

lemma before_month_mono: "1 \<le> m \<Longrightarrow> m < m' \<Longrightarrow> m' \<le> 12 \<Longrightarrow> before_month y m + month_len y m \<le> before_month y m'"
proof (induction "nat (m' - m)" arbitrary: m')
  case (Suc n)
  show ?case
  proof (cases "m' = m + 1")
    case True
    then show ?thesis using before_month_next [of m y] Suc.prems by simp
  next
    case False
    then have "before_month y m + month_len y m \<le> before_month y (m' - 1)"
      using Suc.hyps(2) Suc.prems by (intro Suc.hyps(1)) auto
    then show ?thesis
      using before_month_next [of "m' - 1" y] month_len_bounds(1) [of y "m' - 1"] Suc.prems by simp
  qed
qed simp

lemma day_no_in_year: "valid_date y m d \<Longrightarrow> jan1 y \<le> day_no y m d \<and> day_no y m d < jan1 (y + 1)"
  using before_month_room [of m y] by (auto simp: valid_date_def day_no_def jan1_next)

lemma day_no_inj:
  assumes "valid_date y m d" "valid_date y' m' d'" "day_no y m d = day_no y' m' d'"
  shows "y = y' \<and> m = m' \<and> d = d'"
proof -
  have "\<not> y < y'" "\<not> y' < y"
    using day_no_in_year [OF assms(1)] day_no_in_year [OF assms(2)] assms(3)
      jan1_mono [of "y + 1" y'] jan1_mono [of "y' + 1" y] by auto
  then have y: "y = y'" by simp
  have "\<not> m < m'" "\<not> m' < m"
    using assms before_month_mono [of m m' y] before_month_mono [of m' m y]
    by (auto simp: valid_date_def day_no_def y)
  then have "m = m'" by simp
  then show ?thesis using assms(3) y by (simp add: day_no_def)
qed

lemma civil_day_no: "valid_date y m d \<Longrightarrow> civil (day_no y m d) = (y, m, d)"
proof -
  assume v: "valid_date y m d"
  obtain y' m' d' where c: "civil (day_no y m d) = (y', m', d')" by (metis prod_cases3)
  from civil_date [OF c] day_no_inj [of y' m' d' y m d] v c show ?thesis by simp
qed

text \<open>The days of a month follow each other, and after the last one the next month begins.\<close>

lemma civil_month:
  assumes "civil z = (y, m, d)" "1 \<le> d + k" "d + k \<le> month_len y m"
  shows "civil (z + k) = (y, m, d + k)"
proof -
  have v: "valid_date y m (d + k)" using civil_date [OF assms(1)] assms(2,3) by (simp add: valid_date_def)
  have "z + k = day_no y m (d + k)" using civil_date [OF assms(1)] by (simp add: day_no_def)
  then show ?thesis using civil_day_no [OF v] by simp
qed

definition next_month :: "int \<Rightarrow> int \<Rightarrow> int \<times> int" where
  "next_month y m = (if m = 12 then (y + 1, 1) else (y, m + 1))"

lemma civil_next_month:
  assumes "civil z = (y, m, d)"
  shows "civil (z - d + month_len y m + 1) = (fst (next_month y m), snd (next_month y m), 1)"
proof -
  have v: "valid_date y m d" "day_no y m d = z" using civil_date [OF assms] by simp_all
  have nv: "valid_date (fst (next_month y m)) (snd (next_month y m)) 1"
    using v(1) month_len_bounds(1) [of "fst (next_month y m)" "snd (next_month y m)"]
    by (auto simp: valid_date_def next_month_def)
  have "z - d + month_len y m + 1 = day_no (fst (next_month y m)) (snd (next_month y m)) 1"
  proof (cases "m = 12")
    case True
    then show ?thesis using v(2) jan1_next [of y] before_month_12 [of y]
      by (simp add: day_no_def next_month_def month_len_def)
  next
    case False
    then show ?thesis using v before_month_next [of m y]
      by (simp add: day_no_def next_month_def valid_date_def)
  qed
  then show ?thesis using civil_day_no [OF nv] by simp
qed

end
