(* ===== verification/Cron.thy ===== *)
theory Cron
  imports Calendar
begin

text \<open>
  \<open>src/harness/cron.py\<close>: five-field cron expressions in UTC. A \<open>datetime\<close> without seconds is the
  number of minutes since the start of 1970; the fields of its date come from the calendar.
\<close>

section \<open>Expressions\<close>

text \<open>A part of a field: \<open>*\<close>, a value or a range, and a step. \<open>None\<close> is a \<open>ValueError\<close>.\<close>

definition part_range :: "int \<Rightarrow> int \<Rightarrow> string \<Rightarrow> string \<Rightarrow> (int \<times> int) option" where
  "part_range lo hi rng step =
     (if rng = ''*'' then Some (lo, hi)
      else if CHR ''-'' \<in> set rng then
        (case partition_on (CHR ''-'') rng of (a, b) \<Rightarrow>
           (case (py_int a, py_int b) of (Some x, Some y) \<Rightarrow> Some (x, y) | _ \<Rightarrow> None))
      else (case py_int rng of None \<Rightarrow> None | Some a \<Rightarrow> Some (a, if step \<noteq> [] then hi else a)))"

definition cron_part :: "int \<Rightarrow> int \<Rightarrow> string \<Rightarrow> int list option" where
  "cron_part lo hi part =
     (case partition_on (CHR ''/'') part of (rng, step) \<Rightarrow>
        (case (if step \<noteq> [] then py_int step else Some 1) of
           None \<Rightarrow> None
         | Some n \<Rightarrow>
             (if n < 1 then None
              else case part_range lo hi rng step of
                  None \<Rightarrow> None
                | Some (a, b) \<Rightarrow>
                    (if lo \<le> a \<and> a \<le> b \<and> b \<le> hi then Some (filter (\<lambda>x. (x - a) mod n = 0) [a..b]) else None))))"

definition cron_field :: "int \<Rightarrow> int \<Rightarrow> string \<Rightarrow> int list option" where
  "cron_field lo hi txt = map_option concat (all_some (map (cron_part lo hi) (split_on (CHR '','') txt)))"

record cron =
  cr_minute :: "int list"
  cr_hour :: "int list"
  cr_dom :: "int list"
  cr_month :: "int list"
  cr_dow :: "int list"
  cr_dom_any :: bool
  cr_dow_any :: bool

datatype cron_error = BadCron | NeverMatches | DateOverflow | BadTimestamp

definition cron_new :: "string \<Rightarrow> cron_error + cron" where
  "cron_new expr =
     (case str_words expr of
        [mi, ho, dm, mo, dw] \<Rightarrow>
          (case (cron_field 0 59 mi, cron_field 0 23 ho, cron_field 1 31 dm, cron_field 1 12 mo, cron_field 0 7 dw) of
             (Some a, Some b, Some c, Some d, Some e) \<Rightarrow>
               Inr \<lparr>cr_minute = a, cr_hour = b, cr_dom = c, cr_month = d, cr_dow = map (\<lambda>x. x mod 7) e,
                 cr_dom_any = (dm = ''*''), cr_dow_any = (dw = ''*'')\<rparr>
           | _ \<Rightarrow> Inl BadCron)
      | _ \<Rightarrow> Inl BadCron)"

section \<open>The next time\<close>

definition day_ok :: "cron \<Rightarrow> int \<Rightarrow> bool" where
  "day_ok c z =
     (case civil z of (y, m, d) \<Rightarrow>
        (let in_dom = d \<in> set (cr_dom c); in_dow = weekday z \<in> set (cr_dow c)
         in if cr_dom_any c \<or> cr_dow_any c then in_dom \<and> in_dow else in_dom \<or> in_dow))"

text \<open>\<open>datetime.min\<close> and \<open>datetime.max\<close> in minutes; arithmetic past them raises \<open>OverflowError\<close>.\<close>

definition MIN_MINUTE :: int where "MIN_MINUTE = day_no 1 1 1 * 1440"
definition MAX_MINUTE :: int where "MAX_MINUTE = day_no 9999 12 31 * 1440 + 1439"

datatype cron_move = Hit | PastEnd | MoveTo int

definition move_to :: "int \<Rightarrow> cron_move" where
  "move_to n = (if n > MAX_MINUTE then PastEnd else MoveTo n)"

text \<open>One round of the loop: a wrong month skips to the next one, and so on downwards.\<close>

definition cron_step :: "cron \<Rightarrow> int \<Rightarrow> cron_move" where
  "cron_step c n =
     (case civil (n div 1440) of (y, m, d) \<Rightarrow>
        (if m \<notin> set (cr_month c) then
           (let f = n div 1440 - (d - 1) + 32
            in if f * 1440 > MAX_MINUTE then PastEnd
               else case civil f of (y', m', d') \<Rightarrow> MoveTo ((f - (d' - 1)) * 1440))
         else if \<not> day_ok c (n div 1440) then move_to ((n div 1440 + 1) * 1440)
         else if n mod 1440 div 60 \<notin> set (cr_hour c) then move_to ((n div 60 + 1) * 60)
         else if n mod 60 \<notin> set (cr_minute c) then move_to (n + 1)
         else Hit))"

fun cron_search :: "cron \<Rightarrow> nat \<Rightarrow> int \<Rightarrow> cron_error + int" where
  "cron_search c 0 n = Inl NeverMatches"
| "cron_search c (Suc k) n =
     (case cron_step c n of Hit \<Rightarrow> Inr n | PastEnd \<Rightarrow> Inl DateOverflow | MoveTo n' \<Rightarrow> cron_search c k n')"

definition CRON_ROUNDS :: nat where "CRON_ROUNDS = 366 * 24 * 60 * 5"

definition next_after :: "cron \<Rightarrow> real \<Rightarrow> cron_error + real" where
  "next_after c ts =
     (let n = \<lfloor>ts / 60\<rfloor> in
      if n < MIN_MINUTE \<or> n > MAX_MINUTE then Inl BadTimestamp
      else if n + 1 > MAX_MINUTE then Inl DateOverflow
      else case cron_search c CRON_ROUNDS (n + 1) of Inl e \<Rightarrow> Inl e | Inr k \<Rightarrow> Inr (of_int (60 * k)))"

section \<open>What a cron expression means\<close>

definition cron_matches :: "cron \<Rightarrow> int \<Rightarrow> bool" where
  "cron_matches c n \<longleftrightarrow>
     fst (snd (civil (n div 1440))) \<in> set (cr_month c) \<and> day_ok c (n div 1440)
     \<and> n mod 1440 div 60 \<in> set (cr_hour c) \<and> n mod 60 \<in> set (cr_minute c)"

text \<open>What the constructor guarantees: fields with values in their ranges, and all of them for a star.\<close>

definition cron_ok :: "cron \<Rightarrow> bool" where
  "cron_ok c \<longleftrightarrow>
     cr_minute c \<noteq> [] \<and> set (cr_minute c) \<subseteq> {0..59} \<and> cr_hour c \<noteq> [] \<and> set (cr_hour c) \<subseteq> {0..23}
     \<and> cr_dom c \<noteq> [] \<and> set (cr_dom c) \<subseteq> {1..31} \<and> cr_month c \<noteq> [] \<and> set (cr_month c) \<subseteq> {1..12}
     \<and> cr_dow c \<noteq> [] \<and> set (cr_dow c) \<subseteq> {0..6}
     \<and> (cr_dom_any c \<longrightarrow> {1..31} \<subseteq> set (cr_dom c)) \<and> (cr_dow_any c \<longrightarrow> {0..6} \<subseteq> set (cr_dow c))"

lemma steps_nonempty: "a \<le> b \<Longrightarrow> filter (\<lambda>x. (x - a) mod n = 0) [a..b] \<noteq> []" for a :: int
  unfolding filter_empty_conv by (auto intro!: bexI [of _ a])

lemma cron_part_ok: "cron_part lo hi part = Some xs \<Longrightarrow> xs \<noteq> [] \<and> set xs \<subseteq> {lo..hi}"
  by (auto simp: cron_part_def steps_nonempty split: prod.splits option.splits if_splits)

lemma split_on_ne: "split_on c s \<noteq> []"
  by (induction c s rule: split_on.induct) (auto split: list.split)

lemma cron_field_ok:
  assumes "cron_field lo hi txt = Some xs"
  shows "xs \<noteq> [] \<and> set xs \<subseteq> {lo..hi}"
proof -
  obtain yss where y: "map (cron_part lo hi) (split_on (CHR '','') txt) = map Some yss" "xs = concat yss"
    using assms by (auto simp: cron_field_def dest: all_some_Some)
  have ok: "ys \<noteq> [] \<and> set ys \<subseteq> {lo..hi}" if m: "ys \<in> set yss" for ys
  proof -
    have "Some ys \<in> set (map (cron_part lo hi) (split_on (CHR '','') txt))" using m by (simp add: y(1))
    then obtain x where "cron_part lo hi x = Some ys" by auto
    then show ?thesis by (rule cron_part_ok)
  qed
  have "yss \<noteq> []" using y(1) split_on_ne [of "CHR '',''" "txt"] by auto
  then show ?thesis using ok by (cases yss) (auto simp: y(2))
qed

lemma cron_star: "lo \<le> hi \<Longrightarrow> cron_field lo hi ''*'' = Some [lo..hi]"
  by (simp add: cron_field_def cron_part_def part_range_def)

lemma cron_new_ok: "cron_new expr = Inr c \<Longrightarrow> cron_ok c"
proof -
  assume "cron_new expr = Inr c"
  then obtain mi ho dm mo dw a b e d w where f: "cron_field 0 59 mi = Some a" "cron_field 0 23 ho = Some b"
    "cron_field 1 31 dm = Some e" "cron_field 1 12 mo = Some d" "cron_field 0 7 dw = Some w"
    and c: "c = \<lparr>cr_minute = a, cr_hour = b, cr_dom = e, cr_month = d, cr_dow = map (\<lambda>x. x mod 7) w,
                 cr_dom_any = (dm = ''*''), cr_dow_any = (dw = ''*'')\<rparr>"
    by (auto simp: cron_new_def split: list.splits option.splits)
  have "dw = ''*'' \<Longrightarrow> {0..6} \<subseteq> set (map (\<lambda>x. x mod 7) w)"
    using f(5) cron_star [of 0 7] by (force simp: image_iff)
  moreover have "dm = ''*'' \<Longrightarrow> {1..31} \<subseteq> set e"
    using f(3) cron_star [of 1 31] by auto
  moreover have "set (map (\<lambda>x. x mod 7) w) \<subseteq> {0..6}" by auto
  ultimately show ?thesis
    using cron_field_ok [OF f(1)] cron_field_ok [OF f(2)] cron_field_ok [OF f(3)] cron_field_ok [OF f(4)]
      cron_field_ok [OF f(5)]
    by (auto simp: cron_ok_def c)
qed

section \<open>The loop skips nothing\<close>

abbreviation month_of :: "int \<Rightarrow> int" where
  "month_of z \<equiv> fst (snd (civil z))"

definition month_end :: "int \<Rightarrow> int" where
  "month_end z = (case civil z of (y, m, d) \<Rightarrow> z - d + month_len y m + 1)"

lemma month_end_later: "z < month_end z"
proof -
  obtain y m d where c: "civil z = (y, m, d)" by (metis prod_cases3)
  from civil_date [OF c] show ?thesis by (simp add: month_end_def c valid_date_def)
qed

lemma month_of_until: "z \<le> k \<Longrightarrow> k < month_end z \<Longrightarrow> month_of k = month_of z"
proof -
  assume k: "z \<le> k" "k < month_end z"
  obtain y m d where c: "civil z = (y, m, d)" by (metis prod_cases3)
  have "civil (z + (k - z)) = (y, m, d + (k - z))"
    using k civil_date [OF c] by (intro civil_month [OF c]) (simp_all add: month_end_def c valid_date_def)
  then show ?thesis by (simp add: c)
qed

text \<open>The first of the month and 32 days is in the next month, whose first day it then goes back to.\<close>

lemma month_jump:
  assumes c: "civil z = (y, m, d)"
  shows "\<exists>y' m'. civil (z - (d - 1) + 32) = (y', m', 33 - month_len y m) \<and> civil (month_end z) = (y', m', 1)"
    "z - (d - 1) + 32 - (33 - month_len y m - 1) = month_end z"
proof -
  obtain y' m' where nm: "civil (month_end z) = (y', m', 1)"
    using civil_next_month [OF c] by (simp add: month_end_def c)
  have "civil (month_end z + (32 - month_len y m)) = (y', m', 1 + (32 - month_len y m))"
    using month_len_bounds [of y m] month_len_bounds [of y' m'] by (intro civil_month [OF nm]) simp_all
  moreover have "month_end z + (32 - month_len y m) = z - (d - 1) + 32" by (simp add: month_end_def c)
  ultimately show "\<exists>y' m'. civil (z - (d - 1) + 32) = (y', m', 33 - month_len y m) \<and> civil (month_end z) = (y', m', 1)"
    using nm by simp
  show "z - (d - 1) + 32 - (33 - month_len y m - 1) = month_end z" by (simp add: month_end_def c)
qed

definition LAST_DAY :: int where "LAST_DAY = day_no 9999 12 31"

lemma last_day: "civil LAST_DAY = (9999, 12, 31)"
  unfolding LAST_DAY_def by (rule civil_day_no) (simp add: valid_date_def month_len_def)

lemma MAX_MINUTE_day: "MAX_MINUTE = LAST_DAY * 1440 + 1439"
  by (simp only: MAX_MINUTE_def LAST_DAY_def)

lemma past_max: "z * 1440 > MAX_MINUTE \<longleftrightarrow> LAST_DAY < z"
  unfolding MAX_MINUTE_day by linarith

lemma max_day: "n \<le> MAX_MINUTE \<longleftrightarrow> n div 1440 \<le> LAST_DAY"
proof -
  have "n = 1440 * (n div 1440) + n mod 1440" "0 \<le> n mod 1440" "n mod 1440 < 1440" by simp_all
  then show ?thesis unfolding MAX_MINUTE_day by linarith
qed

lemma jump_past_end:
  assumes c: "civil z = (y, m, d)" and p: "LAST_DAY < z - (d - 1) + 32"
  shows "LAST_DAY < month_end z"
proof (rule ccontr)
  assume "\<not> LAST_DAY < month_end z"
  then have k: "0 \<le> LAST_DAY - month_end z" by simp
  obtain y' m' where nm: "civil (month_end z) = (y', m', 1)" using month_jump(1) [OF c] by blast
  have "LAST_DAY - month_end z \<le> 3" using p c month_len_bounds [of y m] by (simp add: month_end_def)
  then have "civil (month_end z + (LAST_DAY - month_end z)) = (y', m', 1 + (LAST_DAY - month_end z))"
    using k month_len_bounds [of y' m'] by (intro civil_month [OF nm]) simp_all
  then show False using last_day \<open>LAST_DAY - month_end z \<le> 3\<close> by simp
qed

text \<open>What a round does, by its four cases.\<close>

lemma cron_step_cases:
  obtains (month) "month_of (n div 1440) \<notin> set (cr_month c)"
      "cron_step c n = (if LAST_DAY < month_end (n div 1440) then PastEnd else MoveTo (month_end (n div 1440) * 1440))"
  | (day) "month_of (n div 1440) \<in> set (cr_month c)" "\<not> day_ok c (n div 1440)"
      "cron_step c n = move_to ((n div 1440 + 1) * 1440)"
  | (hour) "month_of (n div 1440) \<in> set (cr_month c)" "day_ok c (n div 1440)" "n mod 1440 div 60 \<notin> set (cr_hour c)"
      "cron_step c n = move_to ((n div 60 + 1) * 60)"
  | (minute) "month_of (n div 1440) \<in> set (cr_month c)" "day_ok c (n div 1440)" "n mod 1440 div 60 \<in> set (cr_hour c)"
      "n mod 60 \<notin> set (cr_minute c)" "cron_step c n = move_to (n + 1)"
  | (hit) "cron_matches c n" "cron_step c n = Hit"
proof -
  obtain y m d where c: "civil (n div 1440) = (y, m, d)" by (metis prod_cases3)
  have mo: "month_of (n div 1440) = m" by (simp add: c)
  show thesis
  proof (cases "m \<in> set (cr_month c)")
    case False
    define f where "f = n div 1440 - (d - 1) + 32"
    obtain y' m' where f: "civil f = (y', m', 33 - month_len y m)" using month_jump(1) [OF c] by (auto simp: f_def)
    have bk: "f - (33 - month_len y m - 1) = month_end (n div 1440)" using month_jump(2) [OF c] by (simp add: f_def)
    have st: "cron_step c n = (if f * 1440 > MAX_MINUTE then PastEnd else MoveTo (month_end (n div 1440) * 1440))"
      unfolding cron_step_def c prod.case Let_def f_def [symmetric] f bk by (rule if_P [OF False])
    have le: "month_end (n div 1440) \<le> f" using bk month_len_bounds [of y m] by linarith
    show thesis
    proof (rule month)
      show "month_of (n div 1440) \<notin> set (cr_month c)" using False mo by simp
      show "cron_step c n = (if LAST_DAY < month_end (n div 1440) then PastEnd else MoveTo (month_end (n div 1440) * 1440))"
        unfolding st past_max using le jump_past_end [OF c, folded f_def] by auto
    qed
  next
    case True
    then show thesis using mo day hour minute hit
      by (auto simp: cron_step_def c cron_matches_def Let_def split: if_splits)
  qed
qed

lemma hour_alt: "(n :: int) mod 1440 div 60 = n div 60 mod 24"
proof -
  have "n mod 1440 = 60 * (n div 60 mod 24) + n mod 60" using zmod_zmult2_eq [of 24 n 60] by simp
  then show ?thesis by simp
qed

lemma day_alt: "(n :: int) div 1440 = n div 60 div 24"
  using zdiv_zmult2_eq [of 24 n 60] by simp

lemma div_below: "0 < k \<Longrightarrow> m div k < b \<longleftrightarrow> m < b * k" for m b k :: int
proof
  assume k: "0 < k"
  show "m < b * k" if "m div k < b"
  proof (rule ccontr)
    assume "\<not> m < b * k"
    then show False using that k zdiv_mono1 [of "b * k" m k] by simp
  qed
  show "m div k < b" if "m < b * k"
  proof (rule ccontr)
    assume "\<not> m div k < b"
    then have "b * k \<le> m div k * k" using k by simp
    also have "\<dots> \<le> m" using k pos_mod_sign [of k m] minus_mod_eq_div_mult [of m k] by linarith
    finally show False using that by simp
  qed
qed

text \<open>A round either hits, or moves to a later minute with no match in between.\<close>

lemma cron_step_skips:
  obtains (hit) "cron_matches c n" "cron_step c n = Hit"
  | (skip) b where "n < b" "\<And>m. n \<le> m \<Longrightarrow> m < b \<Longrightarrow> \<not> cron_matches c m" "cron_step c n = move_to b"
proof (cases c n rule: cron_step_cases)
  case month
  define b where "b = month_end (n div 1440) * 1440"
  have late: "m div 1440 < month_end (n div 1440) \<longleftrightarrow> m < b" for m
    unfolding b_def by (rule div_below) simp
  show thesis
  proof (rule skip)
    show "n < b" using month_end_later [of "n div 1440"] late by blast
    show "\<not> cron_matches c m" if "n \<le> m" "m < b" for m
      using month(1) that late [of m] month_of_until [of "n div 1440" "m div 1440"]
      by (simp add: cron_matches_def zdiv_mono1)
    show "cron_step c n = move_to b" using month(2) by (simp add: move_to_def b_def past_max)
  qed
next
  case day
  have late: "m div 1440 < n div 1440 + 1 \<longleftrightarrow> m < (n div 1440 + 1) * 1440" for m by (rule div_below) simp
  show thesis
  proof (rule skip)
    show "n < (n div 1440 + 1) * 1440" using late [of n] by simp
    show "\<not> cron_matches c m" if "n \<le> m" "m < (n div 1440 + 1) * 1440" for m
    proof -
      have "m div 1440 = n div 1440" using that late [of m] zdiv_mono1 [of n m 1440] by linarith
      then show ?thesis using day(2) by (simp add: cron_matches_def)
    qed
  qed (rule day(3))
next
  case hour
  have late: "m div 60 < n div 60 + 1 \<longleftrightarrow> m < (n div 60 + 1) * 60" for m by (rule div_below) simp
  show thesis
  proof (rule skip)
    show "n < (n div 60 + 1) * 60" using late [of n] by simp
    show "\<not> cron_matches c m" if "n \<le> m" "m < (n div 60 + 1) * 60" for m
    proof -
      have "m div 60 = n div 60" using that late [of m] zdiv_mono1 [of n m 60] by linarith
      then show ?thesis using hour(3) by (simp add: cron_matches_def hour_alt)
    qed
  qed (rule hour(4))
next
  case minute
  show thesis
  proof (rule skip)
    show "\<not> cron_matches c m" if "n \<le> m" "m < n + 1" for m
      using that minute(4) by (cases "m = n") (simp_all add: cron_matches_def)
  qed (use minute(5) in simp_all)
next
  case hit
  then show thesis by (rule that(1))
qed

lemma cron_search_least:
  "n \<le> MAX_MINUTE \<Longrightarrow>
     (case cron_search c k n of
        Inr r \<Rightarrow> n \<le> r \<and> r \<le> MAX_MINUTE \<and> cron_matches c r \<and> (\<forall>m. n \<le> m \<and> m < r \<longrightarrow> \<not> cron_matches c m)
      | Inl e \<Rightarrow> e = NeverMatches \<or> e = DateOverflow \<and> (\<forall>m. n \<le> m \<and> m \<le> MAX_MINUTE \<longrightarrow> \<not> cron_matches c m))"
proof (induction k arbitrary: n)
  case (Suc k)
  show ?case
  proof (cases c n rule: cron_step_skips)
    case hit
    then show ?thesis using Suc.prems by auto
  next
    case (skip b)
    show ?thesis
    proof (cases "b > MAX_MINUTE")
      case True
      then show ?thesis using skip by (simp add: move_to_def)
    next
      case False
      then have b: "cron_step c n = MoveTo b" "b \<le> MAX_MINUTE" using skip(3) by (simp_all add: move_to_def)
      show ?thesis using Suc.IH [OF b(2)] skip(1,2) b
        by (auto split: sum.splits) (metis le_less_linear)+
    qed
  qed
qed simp

section \<open>The rounds suffice\<close>

text \<open>
  A weight of days that falls with every round bounds the rounds: a day that matches needs at most
  its 1440 minutes when it is entered at midnight, because it has a matching minute.
\<close>

definition cron_day :: "cron \<Rightarrow> int \<Rightarrow> bool" where
  "cron_day c z \<longleftrightarrow> month_of z \<in> set (cr_month c) \<and> day_ok c z"

definition still_today :: "cron \<Rightarrow> int \<Rightarrow> bool" where
  "still_today c n \<longleftrightarrow> (\<exists>m. n \<le> m \<and> m div 1440 = n div 1440 \<and> cron_matches c m)"

lemma midnight_today:
  assumes "cron_ok c" "cron_day c z"
  shows "still_today c (z * 1440)"
proof -
  obtain h mi where hm: "h \<in> set (cr_hour c)" "mi \<in> set (cr_minute c)"
    using assms(1) by (cases "cr_hour c"; cases "cr_minute c") (auto simp: cron_ok_def)
  then have r: "0 \<le> h" "h \<le> 23" "0 \<le> mi" "mi \<le> 59" using assms(1) by (auto simp: cron_ok_def)
  define m where "m = z * 1440 + (h * 60 + mi)"
  have "m div 1440 = z" using r unfolding m_def by (intro int_div_pos_eq [where r = "h * 60 + mi"]) auto
  moreover have "m div 60 = z * 24 + h" using r unfolding m_def by (intro int_div_pos_eq [where r = mi]) auto
  moreover then have "m mod 60 = mi" using r unfolding m_def by (simp add: minus_mult_div_eq_mod [symmetric])
  ultimately have "cron_matches c m" "m div 1440 = z * 1440 div 1440" "z * 1440 \<le> m"
    using assms(2) hm r by (simp_all add: cron_matches_def cron_day_def hour_alt m_def)
  then show ?thesis unfolding still_today_def by blast
qed

definition rounds_left :: "cron \<Rightarrow> (int \<Rightarrow> int) \<Rightarrow> int \<Rightarrow> int" where
  "rounds_left c F n =
     (if cron_day c (n div 1440) then 1440 - n mod 1440 + (if still_today c n then 0 else F (n div 1440 + 1))
      else F (n div 1440))"

text \<open>A weight up to the day \<open>L\<close>, which is the last one or has a match.\<close>

definition cron_weight :: "cron \<Rightarrow> int \<Rightarrow> (int \<Rightarrow> int) \<Rightarrow> bool" where
  "cron_weight c L F \<longleftrightarrow> L \<le> LAST_DAY \<and> (L = LAST_DAY \<or> cron_day c L) \<and> (\<forall>z \<le> L + 1. 1440 \<le> F z)
     \<and> (\<forall>z < L. month_of z \<in> set (cr_month c) \<and> \<not> day_ok c z \<longrightarrow> F (z + 1) < F z)
     \<and> (\<forall>z < L. month_of z \<notin> set (cr_month c) \<and> month_end z \<le> L \<longrightarrow> F (month_end z) < F z)"

lemma rounds_midnight: "cron_ok c \<Longrightarrow> 1440 \<le> F z \<Longrightarrow> rounds_left c F (z * 1440) \<le> F z"
  by (simp add: rounds_left_def midnight_today)

lemma rounds_positive: "cron_weight c L F \<Longrightarrow> n div 1440 \<le> L \<Longrightarrow> 0 < rounds_left c F n"
proof -
  assume "cron_weight c L F" "n div 1440 \<le> L"
  then have "1440 \<le> F (n div 1440)" "1440 \<le> F (n div 1440 + 1)" by (simp_all add: cron_weight_def)
  moreover have "n mod 1440 < 1440" by simp
  ultimately show ?thesis unfolding rounds_left_def by (simp split: if_split) linarith
qed

text \<open>A move keeps within the day \<open>L\<close> and lowers what is left.\<close>

definition on_track :: "cron \<Rightarrow> int \<Rightarrow> int \<Rightarrow> bool" where
  "on_track c L n \<longleftrightarrow> n div 1440 \<le> L \<and> (n div 1440 = L \<longrightarrow> L \<noteq> LAST_DAY \<longrightarrow> still_today c n)"

lemma on_track_midnight:
  assumes "cron_ok c" "cron_weight c L F" "z \<le> L"
  shows "on_track c L (z * 1440)"
  using assms midnight_today [OF assms(1), of z] by (auto simp: on_track_def cron_weight_def)

lemma move_within_day:
  assumes ok: "cron_ok c" and F: "cron_weight c L F" and t: "on_track c L n" and d: "cron_day c (n div 1440)"
    and b: "n < b" "b \<le> (n div 1440 + 1) * 1440" "b \<le> MAX_MINUTE"
    and none: "\<And>m. n \<le> m \<Longrightarrow> m < b \<Longrightarrow> \<not> cron_matches c m"
  shows "on_track c L b \<and> rounds_left c F b < rounds_left c F n"
proof (cases "b = (n div 1440 + 1) * 1440")
  case True
  have late: "\<not> still_today c n"
  proof
    assume "still_today c n"
    then obtain m where m: "n \<le> m" "m div 1440 = n div 1440" "cron_matches c m" unfolding still_today_def by blast
    then have "m < b" using div_below [of 1440 m "n div 1440 + 1"] True by simp
    with none m show False by blast
  qed
  have "n div 1440 < L"
    using t late b(3) True past_max [of "n div 1440 + 1"] by (auto simp: on_track_def not_le order_less_le)
  then have z: "n div 1440 + 1 \<le> L" by simp
  have F1: "1440 \<le> F (n div 1440 + 1)" using F z by (simp add: cron_weight_def)
  have "rounds_left c F n = 1440 - n mod 1440 + F (n div 1440 + 1)" using d late by (simp add: rounds_left_def)
  moreover have "n mod 1440 < 1440" by simp
  ultimately show ?thesis
    using on_track_midnight [OF ok F z] rounds_midnight [of c F "n div 1440 + 1", OF ok F1] True by simp
next
  case False
  then have "b div 1440 < n div 1440 + 1" using b(2) by (simp add: div_below)
  then have bd: "b div 1440 = n div 1440" using zdiv_mono1 [of n b 1440] b(1) by simp
  then have bm: "n mod 1440 < b mod 1440" using b(1) by (simp add: minus_div_mult_eq_mod [symmetric])
  have st: "still_today c b = still_today c n"
  proof
    show "still_today c n \<Longrightarrow> still_today c b" using none bd unfolding still_today_def by (metis not_le)
    show "still_today c b \<Longrightarrow> still_today c n" using b(1) bd unfolding still_today_def by (metis order_less_imp_le order_trans)
  qed
  show ?thesis using t bm d by (simp add: on_track_def rounds_left_def bd st)
qed

lemma cron_move_lowers:
  assumes ok: "cron_ok c" and F: "cron_weight c L F" and t: "on_track c L n"
    and s: "cron_step c n = MoveTo b"
  shows "b \<le> MAX_MINUTE \<and> on_track c L b \<and> rounds_left c F b < rounds_left c F n"
proof -
  define z where "z = n div 1440"
  have zL: "z \<le> L" using t by (simp add: on_track_def z_def)
  have Ld: "L = LAST_DAY \<or> cron_day c L" using F by (simp add: cron_weight_def)
  have midnight: "on_track c L (g * 1440) \<and> rounds_left c F (g * 1440) < rounds_left c F n"
    if "g \<le> L" "F g < F z" "\<not> cron_day c z" for g
  proof -
    have "1440 \<le> F g" using F that(1) by (simp add: cron_weight_def)
    from rounds_midnight [of c F g, OF ok this] on_track_midnight [OF ok F that(1)] that
    show ?thesis by (simp add: rounds_left_def [of c F n] z_def)
  qed
  show ?thesis
  proof (cases c n rule: cron_step_cases)
    case month
    then have b: "b = month_end z * 1440" "month_end z \<le> LAST_DAY" using s by (auto simp: z_def split: if_splits)
    have "month_end z \<le> L"
    proof (cases "L = LAST_DAY")
      case False
      then have "month_of L \<in> set (cr_month c)" using Ld by (simp add: cron_day_def)
      then show ?thesis using month(1) month_of_until [of z L] zL by (auto simp: z_def not_less [symmetric])
    qed (use b in simp)
    moreover then have "F (month_end z) < F z"
      using F month(1) month_end_later [of z] by (simp add: cron_weight_def z_def)
    ultimately show ?thesis using midnight month(1) b past_max [of "month_end z"] by (simp add: cron_day_def z_def)
  next
    case day
    then have b: "b = (z + 1) * 1440" "\<not> (z + 1) * 1440 > MAX_MINUTE" using s by (auto simp: z_def move_to_def split: if_splits)
    have "z + 1 \<le> LAST_DAY" using b(2) unfolding past_max by simp
    then have "z \<noteq> L" using day(2) Ld by (auto simp: cron_day_def z_def)
    then have "z + 1 \<le> L" "F (z + 1) < F z" using zL F day(1,2) by (simp_all add: cron_weight_def z_def)
    then show ?thesis using midnight [of "z + 1"] day(2) b by (simp add: cron_day_def z_def)
  next
    case hour
    have b: "b = (n div 60 + 1) * 60" "b \<le> MAX_MINUTE" using s hour(4) by (auto simp: move_to_def split: if_splits)
    have "n div 60 div 24 < z + 1" by (simp add: z_def day_alt)
    then have "n div 60 + 1 \<le> (z + 1) * 24" by (simp add: div_below)
    then have "b \<le> (z + 1) * 1440" using b(1) by simp
    moreover have "n < b" using div_below [of 60 n "n div 60 + 1"] b(1) by simp
    moreover have "\<not> cron_matches c m" if "n \<le> m" "m < b" for m
    proof -
      have "m div 60 = n div 60" using that div_below [of 60 m "n div 60 + 1"] zdiv_mono1 [of n m 60] b(1) by linarith
      then show ?thesis using hour(3) by (simp add: cron_matches_def hour_alt)
    qed
    ultimately show ?thesis using move_within_day [OF ok F t] hour(1,2) b(2) by (simp add: cron_day_def z_def)
  next
    case minute
    have b: "b = n + 1" "b \<le> MAX_MINUTE" using s minute(5) by (auto simp: move_to_def split: if_splits)
    have "n < (z + 1) * 1440" using div_below [of 1440 n "z + 1"] by (simp add: z_def)
    then have "b \<le> (z + 1) * 1440" using b(1) by simp
    moreover have "n < b" using b(1) by simp
    moreover have "\<not> cron_matches c m" if "n \<le> m" "m < b" for m
      using that minute(4) b(1) by (cases "m = n") (simp_all add: cron_matches_def)
    ultimately show ?thesis using move_within_day [OF ok F t] minute(1,2) b(2) by (simp add: cron_day_def z_def)
  next
    case hit
    then show ?thesis using s by simp
  qed
qed

lemma rounds_suffice:
  assumes "cron_ok c" "cron_weight c L F"
  shows "on_track c L n \<Longrightarrow> rounds_left c F n \<le> int k \<Longrightarrow> cron_search c k n \<noteq> Inl NeverMatches"
proof (induction k arbitrary: n)
  case 0
  then show ?case using rounds_positive [OF assms(2), of n] by (simp add: on_track_def)
next
  case (Suc k)
  show ?case
  proof (cases "cron_step c n")
    case (MoveTo b)
    then show ?thesis using cron_move_lowers [OF assms Suc.prems(1) MoveTo] Suc.IH [of b] Suc.prems(2) by simp
  qed simp_all
qed

subsection \<open>A month of 31 days among the months\<close>

lemma weight_line:
  "L \<le> LAST_DAY \<Longrightarrow> L = LAST_DAY \<or> cron_day c L \<Longrightarrow> cron_weight c L (\<lambda>z. L - z + 1441)"
  using month_end_later by (auto simp: cron_weight_def)

lemma rounds_line: "n div 1440 \<le> L \<Longrightarrow> rounds_left c (\<lambda>z. L - z + 1441) n \<le> L - n div 1440 + 2881"
proof -
  define q where "q = n mod 1440"
  have "0 \<le> q" by (simp add: q_def)
  moreover assume "n div 1440 \<le> L"
  ultimately show ?thesis unfolding rounds_left_def q_def [symmetric] by simp
qed

definition LONG_MONTHS :: "int set" where "LONG_MONTHS = {1, 3, 5, 7, 8, 10, 12}"

lemma long_month_day:
  assumes "p \<in> LONG_MONTHS" "0 \<le> j" "j \<le> 30"
  shows "civil (day_no y p 1 + j) = (y, p, 1 + j)"
proof -
  have len: "month_len y p = 31" and p: "1 \<le> p" "p \<le> 12" using assms(1) by (auto simp: LONG_MONTHS_def month_len_def)
  have "civil (day_no y p 1) = (y, p, 1)" by (rule civil_day_no) (simp add: valid_date_def p len)
  from civil_month [OF this, of j] show ?thesis using assms(2,3) len by simp
qed

lemma weekday_in_week: "0 \<le> w \<Longrightarrow> w \<le> 6 \<Longrightarrow> \<exists>j. 0 \<le> j \<and> j \<le> 6 \<and> weekday (z + j) = w"
proof -
  assume w: "0 \<le> w" "w \<le> 6"
  have "weekday (z + (w - (z + 4)) mod 7) = ((z + 4) + (w - (z + 4)) mod 7) mod 7"
    by (simp add: weekday_def ac_simps)
  also have "\<dots> = ((z + 4) + (w - (z + 4))) mod 7" by (rule mod_add_right_eq)
  also have "\<dots> = w" using w by simp
  finally have e: "weekday (z + (w - (z + 4)) mod 7) = w" .
  define q where "q = (w - (z + 4)) mod 7"
  have "0 \<le> q" "q < 7" unfolding q_def by simp_all
  then have "0 \<le> q \<and> q \<le> 6" by linarith
  then show ?thesis using e unfolding q_def [symmetric] by blast
qed

lemma long_month_has_day:
  assumes ok: "cron_ok c" and p: "p \<in> LONG_MONTHS" "p \<in> set (cr_month c)"
  shows "\<exists>j. 0 \<le> j \<and> j \<le> 30 \<and> cron_day c (day_no y p 1 + j)"
proof -
  have day: "cron_day c (day_no y p 1 + j) \<longleftrightarrow>
      (let in_dom = 1 + j \<in> set (cr_dom c); in_dow = weekday (day_no y p 1 + j) \<in> set (cr_dow c)
       in if cr_dom_any c \<or> cr_dow_any c then in_dom \<and> in_dow else in_dom \<or> in_dow)" if "0 \<le> j" "j \<le> 30" for j
    using p(2) by (simp add: cron_day_def day_ok_def long_month_day [OF p(1) that])
  have wd: "0 \<le> weekday z" "weekday z \<le> 6" for z using pos_mod_bound [of 7 "z + 4"] by (simp_all add: weekday_def)
  show ?thesis
  proof (cases "cr_dom_any c")
    case True
    obtain w where "w \<in> set (cr_dow c)" "0 \<le> w" "w \<le> 6" using ok by (cases "cr_dow c") (auto simp: cron_ok_def)
    moreover then obtain j where "0 \<le> j" "j \<le> 6" "weekday (day_no y p 1 + j) = w" using weekday_in_week by blast
    moreover have "1 + j \<in> set (cr_dom c)" using ok True calculation by (auto simp: cron_ok_def)
    ultimately show ?thesis by (intro exI [of _ j]) (simp add: day Let_def)
  next
    case False
    obtain d where d: "d \<in> set (cr_dom c)" "1 \<le> d" "d \<le> 31" using ok by (cases "cr_dom c") (auto simp: cron_ok_def)
    have "cr_dow_any c \<Longrightarrow> weekday z \<in> set (cr_dow c)" for z using ok wd by (auto simp: cron_ok_def)
    then show ?thesis using d day [of "d - 1"] False by (intro exI [of _ "d - 1"]) (auto simp: Let_def)
  qed
qed

lemma civil_year: "civil z = (y, m, d) \<Longrightarrow> jan1 y \<le> z \<and> z < jan1 (y + 1)"
  using civil_date [of z y m d] day_no_in_year [of y m d] by auto

lemma year_9999: "civil z = (y, m, d) \<Longrightarrow> z \<le> LAST_DAY \<Longrightarrow> y \<le> 9999"
proof (rule ccontr)
  assume c: "civil z = (y, m, d)" "z \<le> LAST_DAY" "\<not> y \<le> 9999"
  then have "jan1 10000 \<le> jan1 y" using jan1_mono [of 10000 y] by simp
  moreover have "LAST_DAY < jan1 10000" using civil_year [OF last_day] by simp
  ultimately show False using civil_year [OF c(1)] c(2) by simp
qed

lemma rounds_long:
  assumes ok: "cron_ok c" and p: "p \<in> LONG_MONTHS" "p \<in> set (cr_month c)" and n: "n \<le> MAX_MINUTE"
  shows "\<exists>L F. cron_weight c L F \<and> on_track c L n \<and> rounds_left c F n \<le> 4000"
proof -
  define z where "z = n div 1440"
  have zl: "z \<le> LAST_DAY" using n max_day by (simp add: z_def)
  obtain y m d where c: "civil z = (y, m, d)" by (metis prod_cases3)
  note zy = civil_year [OF c]
  have one: "\<exists>L F. cron_weight c L F \<and> on_track c L n \<and> rounds_left c F n \<le> 4000"
    if L: "L \<le> LAST_DAY" "L = LAST_DAY \<or> z < L \<and> cron_day c L" "L - z \<le> 732" "z \<le> L" for L
  proof (intro exI conjI)
    show "cron_weight c L (\<lambda>z. L - z + 1441)" using L by (intro weight_line) auto
    show "on_track c L n" using L by (auto simp: on_track_def z_def)
    show "rounds_left c (\<lambda>z. L - z + 1441) n \<le> 4000" using rounds_line [of n L c] L(3,4) by (simp add: z_def)
  qed
  show ?thesis
  proof (cases "y = 9999")
    case True
    then show ?thesis using one [of LAST_DAY] zl zy civil_year [OF last_day] jan1_next [of 9999] year_len_bounds(2) [of 9999]
      by simp
  next
    case False
    then have y: "y + 1 \<le> 9999" using year_9999 [OF c zl] by simp
    obtain j where j: "0 \<le> j" "j \<le> 30" "cron_day c (day_no (y + 1) p 1 + j)" using long_month_has_day [OF ok p] by blast
    define L where "L = day_no (y + 1) p 1 + j"
    have y2: "y + 1 + 1 = y + 2" by simp
    note Ly = civil_year [OF long_month_day [OF p(1) j(1,2), of "y + 1"], unfolded y2]
    have "L < jan1 10000" using Ly jan1_mono [of "y + 2" 10000] y by (simp add: L_def)
    moreover have "LAST_DAY + 1 = jan1 10000"
      using jan1_next [of 9999] before_month_12 [of 9999] by (simp add: LAST_DAY_def day_no_def)
    moreover have "L - z \<le> 732" "z < L" using Ly zy jan1_next [of y] jan1_next [of "y + 1", unfolded y2] year_len_bounds(2) [of y]
      year_len_bounds(2) [of "y + 1"] by (simp_all add: L_def)
    ultimately show ?thesis using one [of L] j(3) by (simp add: L_def [symmetric])
  qed
qed

subsection \<open>Only shorter months\<close>

text \<open>In a year without long months at most 157 days are looked at and seven months skipped.\<close>

definition month_weight :: "cron \<Rightarrow> int \<Rightarrow> int" where
  "month_weight c m = (if m \<in> set (cr_month c) then 31 else 1)"

definition months_after :: "cron \<Rightarrow> int \<Rightarrow> int" where
  "months_after c m = sum (month_weight c) {m<..12}"

definition short_weight :: "cron \<Rightarrow> int \<Rightarrow> int" where
  "short_weight c z =
     (if z \<le> LAST_DAY then
        (case civil z of (y, m, d) \<Rightarrow> (9999 - y) * months_after c 0 + months_after c m
           + (if m \<in> set (cr_month c) then 32 - d else 1) + 1440)
      else 1440)"

lemma months_after_next: "0 \<le> m \<Longrightarrow> m < 12 \<Longrightarrow> months_after c m = month_weight c (m + 1) + months_after c (m + 1)"
proof -
  assume "0 \<le> m" "m < 12"
  then have "{m<..12} = insert (m + 1) {m + 1<..12}" by auto
  then show ?thesis by (simp add: months_after_def)
qed

lemma months_after_12 [simp]: "months_after c 12 = 0"
  by (simp add: months_after_def)

lemma months_after_nonneg: "0 \<le> months_after c m"
  unfolding months_after_def by (rule sum_nonneg) (simp add: month_weight_def)

lemma months_in_year:
  assumes "set (cr_month c) \<inter> LONG_MONTHS = {}"
  shows "months_after c 0 \<le> 162"
proof -
  have w: "month_weight c m = 1" if "m \<in> LONG_MONTHS" for m using assms that by (auto simp: month_weight_def)
  have v: "month_weight c m \<le> 31" for m by (simp add: month_weight_def)
  have n: "months_after c 0 = month_weight c 1 + months_after c 1" "months_after c 1 = month_weight c 2 + months_after c 2"
    "months_after c 2 = month_weight c 3 + months_after c 3" "months_after c 3 = month_weight c 4 + months_after c 4"
    "months_after c 4 = month_weight c 5 + months_after c 5" "months_after c 5 = month_weight c 6 + months_after c 6"
    "months_after c 6 = month_weight c 7 + months_after c 7" "months_after c 7 = month_weight c 8 + months_after c 8"
    "months_after c 8 = month_weight c 9 + months_after c 9" "months_after c 9 = month_weight c 10 + months_after c 10"
    "months_after c 10 = month_weight c 11 + months_after c 11" "months_after c 11 = month_weight c 12"
    by (simp_all add: months_after_next)
  have one: "month_weight c 1 = 1" "month_weight c 3 = 1" "month_weight c 5 = 1" "month_weight c 7 = 1"
    "month_weight c 8 = 1" "month_weight c 10 = 1" "month_weight c 12 = 1"
    by (rule w, simp add: LONG_MONTHS_def)+
  show ?thesis using n one v [of 2] v [of 4] v [of 6] v [of 9] v [of 11] by linarith
qed

lemma short_weight_room: "z \<le> LAST_DAY \<Longrightarrow> civil z = (y, m, d) \<Longrightarrow>
    short_weight c z \<ge> (9999 - y) * months_after c 0 + months_after c m + 1441"
  using civil_date [of z y m d] month_len_bounds(2) [of y m] by (simp add: short_weight_def valid_date_def)

lemma short_weight_positive: "1440 \<le> short_weight c z"
proof (cases "z \<le> LAST_DAY")
  case True
  obtain y m d where c: "civil z = (y, m, d)" by (metis prod_cases3)
  have "0 \<le> (9999 - y) * months_after c 0" using year_9999 [OF c True] months_after_nonneg [of c 0] by simp
  then show ?thesis using short_weight_room [OF True c, of c] months_after_nonneg [of c m] by simp
qed (simp add: short_weight_def)

text \<open>The first of the next month weighs as much as all the months that are left.\<close>

lemma short_weight_month_end:
  assumes c: "civil z = (y, m, d)" and e: "month_end z \<le> LAST_DAY"
  shows "short_weight c (month_end z) = (9999 - y) * months_after c 0 + months_after c m + 1440"
proof -
  have m: "1 \<le> m" "m \<le> 12" using civil_date [OF c] by (simp_all add: valid_date_def)
  have ce: "civil (month_end z) = (fst (next_month y m), snd (next_month y m), 1)"
    using civil_next_month [OF c] by (simp add: month_end_def c)
  show ?thesis
  proof (cases "m = 12")
    case True
    then have "civil (month_end z) = (y + 1, 1, 1)" using ce by (simp add: next_month_def)
    then show ?thesis using e True months_after_next [of 0 c]
      by (simp add: short_weight_def month_weight_def algebra_simps)
  next
    case False
    then have "civil (month_end z) = (y, m + 1, 1)" using ce by (simp add: next_month_def)
    then show ?thesis using e m False months_after_next [of m c]
      by (simp add: short_weight_def month_weight_def)
  qed
qed

lemma weight_short: "cron_weight c LAST_DAY (short_weight c)"
  unfolding cron_weight_def
proof (intro conjI allI impI)
  show "short_weight c (z + 1) < short_weight c z"
    if zl: "z < LAST_DAY" and day: "month_of z \<in> set (cr_month c) \<and> \<not> day_ok c z" for z
  proof -
    obtain y m d where c: "civil z = (y, m, d)" by (metis prod_cases3)
    have v: "1 \<le> d" "d \<le> month_len y m" using civil_date [OF c] by (simp_all add: valid_date_def)
    show ?thesis
    proof (cases "d = month_len y m")
      case True
      then have "month_end z = z + 1" by (simp add: month_end_def c)
      then show ?thesis using short_weight_month_end [OF c, of c] short_weight_room [OF _ c, of c] zl by simp
    next
      case False
      then have "civil (z + 1) = (y, m, d + 1)" using v by (intro civil_month [OF c]) simp_all
      then show ?thesis using zl day by (simp add: short_weight_def c)
    qed
  qed
  show "short_weight c (month_end z) < short_weight c z" if "z < LAST_DAY" "month_of z \<notin> set (cr_month c) \<and> month_end z \<le> LAST_DAY" for z
  proof -
    obtain y m d where c: "civil z = (y, m, d)" by (metis prod_cases3)
    show ?thesis using short_weight_month_end [OF c, of c] short_weight_room [OF _ c, of c] that by simp
  qed
qed (simp_all add: short_weight_positive)

lemma short_weight_bound:
  assumes "set (cr_month c) \<inter> LONG_MONTHS = {}" "day_no 1 1 1 \<le> z"
  shows "short_weight c z \<le> 1622000"
proof (cases "z \<le> LAST_DAY")
  case True
  obtain y m d where c: "civil z = (y, m, d)" by (metis prod_cases3)
  have m: "1 \<le> m" "m \<le> 12" "1 \<le> d" using civil_date [OF c] by (simp_all add: valid_date_def)
  have "1 \<le> y"
  proof (rule ccontr)
    assume "\<not> 1 \<le> y"
    then have "jan1 (y + 1) \<le> jan1 1" using jan1_mono [of "y + 1" 1] by simp
    then show False using civil_year [OF c] assms(2) by (simp add: day_no_def)
  qed
  then have y: "9999 - y \<le> 9998" "0 \<le> 9999 - y" using year_9999 [OF c True] by simp_all
  have "(9999 - y) * months_after c 0 \<le> 9998 * 162"
    using y months_in_year [OF assms(1)] months_after_nonneg [of c 0] by (intro mult_mono) simp_all
  moreover have "months_after c m \<le> months_after c 0"
    unfolding months_after_def using m by (intro sum_mono2) (auto simp: month_weight_def)
  ultimately show ?thesis using months_in_year [OF assms(1)] True m(3) by (simp add: short_weight_def c)
qed (simp add: short_weight_def)

lemma rounds_short:
  assumes "set (cr_month c) \<inter> LONG_MONTHS = {}" "MIN_MINUTE \<le> n" "n \<le> MAX_MINUTE"
  shows "rounds_left c (short_weight c) n \<le> 1623440 \<and> on_track c LAST_DAY n"
proof -
  have "day_no 1 1 1 \<le> n div 1440" using assms(2) zdiv_mono1 [of MIN_MINUTE n 1440] by (simp add: MIN_MINUTE_def)
  then have "short_weight c (n div 1440) \<le> 1622000" "short_weight c (n div 1440 + 1) \<le> 1622000"
    using short_weight_bound [OF assms(1)] by simp_all
  moreover define q where "q = n mod 1440"
  moreover have "0 \<le> q" by (simp add: q_def)
  ultimately have "rounds_left c (short_weight c) n \<le> 1623440"
    unfolding rounds_left_def q_def [symmetric] by simp
  then show ?thesis using assms(3) max_day by (simp add: on_track_def)
qed

text \<open>No expression that parses runs out of rounds.\<close>

lemma cron_search_ends:
  assumes ok: "cron_ok c" and n: "MIN_MINUTE \<le> n" "n \<le> MAX_MINUTE"
  shows "cron_search c CRON_ROUNDS n \<noteq> Inl NeverMatches"
proof -
  obtain L F where LF: "cron_weight c L F" "on_track c L n" "rounds_left c F n \<le> 1623440"
  proof (cases "set (cr_month c) \<inter> LONG_MONTHS = {}")
    case True
    then show thesis using that weight_short rounds_short [OF True n] by blast
  next
    case False
    then show thesis using that rounds_long [OF ok _ _ n(2)] by fastforce
  qed
  then show ?thesis by (intro rounds_suffice [OF ok LF(1,2)]) (simp add: CRON_ROUNDS_def)
qed

section \<open>Properties\<close>

text \<open>
  C40. \<open>next_after\<close> always finds the next match or proves there is none: for an expression that
  parses and a time of the calendar, the result is the first matching minute strictly after it, or,
  when no minute up to the end of the year 9999 matches, the overflow of the date arithmetic. The
  five years of rounds never run out, so \<open>never matches\<close> is never raised.
\<close>

theorem next_after_is_next:
  assumes "cron_new expr = Inr c" "MIN_MINUTE \<le> \<lfloor>ts / 60\<rfloor>" "\<lfloor>ts / 60\<rfloor> \<le> MAX_MINUTE"
  shows "case next_after c ts of
      Inr t \<Rightarrow> (\<exists>n. t = of_int (60 * n) \<and> \<lfloor>ts / 60\<rfloor> < n \<and> n \<le> MAX_MINUTE \<and> cron_matches c n
          \<and> (\<forall>m. \<lfloor>ts / 60\<rfloor> < m \<and> m < n \<longrightarrow> \<not> cron_matches c m))
    | Inl e \<Rightarrow> e = DateOverflow \<and> (\<forall>m. \<lfloor>ts / 60\<rfloor> < m \<and> m \<le> MAX_MINUTE \<longrightarrow> \<not> cron_matches c m)"
proof (cases "\<lfloor>ts / 60\<rfloor> + 1 > MAX_MINUTE")
  case True
  then show ?thesis using assms(2,3) by (auto simp: next_after_def)
next
  case False
  define n where "n = \<lfloor>ts / 60\<rfloor> + 1"
  have n: "MIN_MINUTE \<le> n" "n \<le> MAX_MINUTE" using assms(2) False by (simp_all add: n_def)
  have na: "next_after c ts = (case cron_search c CRON_ROUNDS n of Inl e \<Rightarrow> Inl e | Inr k \<Rightarrow> Inr (of_int (60 * k)))"
    using assms(2,3) False by (simp add: next_after_def n_def Let_def)
  have lt: "\<lfloor>ts / 60\<rfloor> < m \<longleftrightarrow> n \<le> m" for m by (auto simp: n_def)
  show ?thesis
  proof (cases "cron_search c CRON_ROUNDS n")
    case (Inl e)
    then show ?thesis
      using cron_search_least [OF n(2), of c CRON_ROUNDS] cron_search_ends [OF cron_new_ok [OF assms(1)] n]
      by (auto simp: na lt)
  next
    case (Inr r)
    then show ?thesis using cron_search_least [OF n(2), of c CRON_ROUNDS] by (auto simp: na lt)
  qed
qed

definition mondays_at_nine :: cron where
  "mondays_at_nine = \<lparr>cr_minute = [0], cr_hour = [9], cr_dom = [1..31], cr_month = [1..12], cr_dow = [1],
     cr_dom_any = True, cr_dow_any = False\<rparr>"

lemma mondays_at_nine_parses: "cron_new ''0 9 * * 1'' = Inr mondays_at_nine"
  by (simp add: cron_new_def str_words_def is_space_def cron_field_def cron_part_def part_range_def py_int_def strip_def
      digit_value_def mondays_at_nine_def)

text \<open>Asked on Thursday the first of January 1970, the next one is at the latest on the fifth.\<close>

theorem next_after_is_next_witness:
  "\<exists>n. next_after mondays_at_nine 0 = Inr (of_int (60 * n)) \<and> 0 < n \<and> n \<le> 6300 \<and> cron_matches mondays_at_nine n"
proof -
  have lims: "MIN_MINUTE \<le> 0" "6300 \<le> MAX_MINUTE"
    by (simp_all add: MIN_MINUTE_def MAX_MINUTE_def day_no_def jan1_def before_month_def leap_def)
  have "civil 4 = (1970, 1, 5)" using civil_day_no [of 1970 1 5]
    by (simp add: day_no_def jan1_def valid_date_def month_len_def)
  then have m: "cron_matches mondays_at_nine 6300"
    by (simp add: cron_matches_def day_ok_def weekday_def mondays_at_nine_def)
  note least = next_after_is_next [OF mondays_at_nine_parses, of 0]
  show ?thesis
  proof (cases "next_after mondays_at_nine 0")
    case (Inl e)
    then show ?thesis using least m lims by auto
  next
    case (Inr t)
    then obtain n where n: "t = of_int (60 * n)" "0 < n" "cron_matches mondays_at_nine n"
      "\<forall>m. 0 < m \<and> m < n \<longrightarrow> \<not> cron_matches mondays_at_nine m" using least lims by auto
    have "n \<le> 6300" using n(4) [rule_format, of 6300] m by linarith
    then show ?thesis using Inr n by blast
  qed
qed

end
