(* ===== verification/Templates.thy ===== *)
theory Templates
  imports Policy
begin

text \<open>
  \<open>string.Template.safe_substitute\<close> of Python's library, which \<open>src/harness/workflow.py\<close> and
  \<open>src/harness/triggers.py\<close> fill their templates with.
\<close>

definition ident_start :: "char \<Rightarrow> bool" where
  "ident_start c \<longleftrightarrow> c = CHR ''_'' \<or> (alnum c \<and> digit_value c = None)"

definition ident_char :: "char \<Rightarrow> bool" where
  "ident_char c \<longleftrightarrow> c = CHR ''_'' \<or> alnum c"

text \<open>The identifier a text begins with, empty if there is none.\<close>

definition ident :: "string \<Rightarrow> string" where
  "ident s = (case s of [] \<Rightarrow> [] | c # cs \<Rightarrow> if ident_start c then c # takeWhile ident_char cs else [])"

lemma ident_prefix: "\<exists>r. s = ident s @ r"
  by (cases s) (auto simp: ident_def intro: exI [of _ "dropWhile ident_char (tl s)"] simp: takeWhile_dropWhile_id)

text \<open>\<open>$$\<close> is a dollar, \<open>$name\<close> and \<open>${name}\<close> are replaced when there is a value, all else stays.\<close>

function fill_template :: "(string \<Rightarrow> string option) \<Rightarrow> string \<Rightarrow> string" where
  "fill_template f [] = []"
| "fill_template f (c # cs) =
     (if c \<noteq> CHR ''$'' then c # fill_template f cs
      else if cs \<noteq> [] \<and> hd cs = CHR ''$'' then CHR ''$'' # fill_template f (tl cs)
      else if cs \<noteq> [] \<and> hd cs = CHR ''{'' then
        (let n = ident (tl cs); r = drop (length n) (tl cs) in
         if n \<noteq> [] \<and> r \<noteq> [] \<and> hd r = CHR ''}''
         then (case f n of Some v \<Rightarrow> v | None \<Rightarrow> ''${'' @ n @ ''}'') @ fill_template f (tl r)
         else CHR ''$'' # fill_template f cs)
      else
        (let n = ident cs in
         if n \<noteq> [] then (case f n of Some v \<Rightarrow> v | None \<Rightarrow> CHR ''$'' # n) @ fill_template f (drop (length n) cs)
         else CHR ''$'' # fill_template f cs))"
  by pat_completeness auto
termination
  by (relation "measure (\<lambda>(f, s). length s)") auto

declare fill_template.simps(2) [simp del]

text \<open>A template without a dollar is its own text.\<close>

lemma fill_plain: "CHR ''$'' \<notin> set s \<Longrightarrow> fill_template f s = s"
  by (induction s) (auto simp: fill_template.simps(2))

end
