(* ===== verification/Workflow.thy ===== *)
theory Workflow
  imports Executor Templates
begin

text \<open>
  \<open>src/harness/workflow.py\<close>: workflows of fixed steps. A raw step is a mapping of the document with
  its known keys (ids are compared as values, so Python's \<open>1 == True\<close> is not reflected). A step calls a
  tool through the registry or asks the model once.
\<close>

section \<open>Steps\<close>

record raw_step =
  rw_id :: pyval
  rw_tool :: "string option"
  rw_args :: pyval
  rw_prompt :: "string option"
  rw_model :: "string option"

datatype step_kind = ToolStep string pyval | ModelStep string "string option"

record wf_step =
  ws_id :: pyval
  ws_kind :: step_kind

datatype wf_problem = BadStepId nat | NoStepKind nat | NoSteps

definition step_kind_of :: "raw_step \<Rightarrow> step_kind option" where
  "step_kind_of d =
     (case rw_tool d of
        Some t \<Rightarrow> Some (ToolStep t (if falsy (rw_args d) then PDict [] else rw_args d))
      | None \<Rightarrow> map_option (\<lambda>p. ModelStep p (rw_model d)) (rw_prompt d))"

fun scan_steps :: "nat \<Rightarrow> pyval list \<Rightarrow> raw_step list \<Rightarrow> wf_problem list \<times> wf_step list" where
  "scan_steps i seen [] = ([], [])"
| "scan_steps i seen (d # ds) =
     (let bad = (if falsy (rw_id d) \<or> rw_id d \<in> set seen \<or> rw_id d = PStr ''input'' then [BadStepId i] else []) in
      case scan_steps (Suc i) (rw_id d # seen) ds of
        (ps, ss) \<Rightarrow>
          (case step_kind_of d of
             None \<Rightarrow> (bad @ NoStepKind i # ps, ss)
           | Some k \<Rightarrow> (bad @ ps, \<lparr>ws_id = rw_id d, ws_kind = k\<rparr> # ss)))"

definition parse_steps :: "raw_step list \<Rightarrow> wf_problem list + wf_step list" where
  "parse_steps raw =
     (case scan_steps 0 [] raw of
        (ps, ss) \<Rightarrow> (let ps = ps @ (if ss = [] then [NoSteps] else []) in if ps \<noteq> [] then Inl ps else Inr ss))"

section \<open>Templates\<close>

type_synonym wf_values = "(pyval, string) odict"

definition wf_lookup :: "wf_values \<Rightarrow> string \<Rightarrow> string option" where
  "wf_lookup vals n = od_get vals (PStr n)"

fun fill_values :: "wf_values \<Rightarrow> pyval \<Rightarrow> pyval" where
  "fill_values vals (PStr s) = PStr (fill_template (wf_lookup vals) s)"
| "fill_values vals (PDict d) = PDict (map (\<lambda>(k, v). (k, fill_values vals v)) d)"
| "fill_values vals (PList xs) = PList (map (fill_values vals) xs)"
| "fill_values vals v = v"

section \<open>Running\<close>

datatype wf_status = WfCompleted | WfCostLimit | WfNeedsApproval | WfFailed

definition kind_name :: "step_kind \<Rightarrow> string" where
  "kind_name k = (case k of ToolStep t args \<Rightarrow> ''tool'' | ModelStep p m \<Rightarrow> ''model'')"

record wf_record =
  wr_id :: pyval
  wr_kind :: string
  wr_ok :: bool
  wr_error :: "string option"
  wr_output :: "string option"

record wf_out =
  wo_status :: wf_status
  wo_steps :: "wf_record list"
  wo_failed :: "pyval option"
  wo_cost_usd :: real
  wo_result :: "string option"

record 'x wf_env =
  we_exec :: "'x exec_env"
  we_route :: "request \<Rightarrow> 'x tool_world \<Rightarrow> completion outcome \<times> 'x tool_world"
  we_exn_name :: "exn \<Rightarrow> string"
  we_allowed :: "string list option"
  we_caller :: string
  we_approved :: "pyval list"
  we_max_permission :: permission
  we_max_cost_usd :: "real option"

definition wf_request :: "wf_values \<Rightarrow> pyval \<Rightarrow> string \<Rightarrow> string option \<Rightarrow> request" where
  "wf_request safe sid prompt model =
     \<lparr>rq_messages = [user_note (fill_template (wf_lookup safe) prompt)], rq_model = model, rq_max_tokens = 1024,
      rq_temperature = 0, rq_stream = False, rq_system_prompt = None, rq_metadata = [(''workflow_step'', sid)],
      rq_tools = [], rq_tool_choice = PNone, rq_response_format = PNone\<rparr>"

text \<open>What a step gives: the raw and the safe text of its output and its cost, or why it failed.\<close>

datatype step_end = StepDone string string real | StepNeedsApproval | StepFailed string | StepCancelled

definition run_step :: "'x wf_env \<Rightarrow> wf_values \<Rightarrow> wf_values \<Rightarrow> wf_step \<Rightarrow> 'x tool_world \<Rightarrow> step_end \<times> 'x tool_world" where
  "run_step E raw safe st w =
     (case ws_kind st of
        ToolStep t args \<Rightarrow>
          (case call_tool (xe_tools (we_exec E)) t (fill_values raw args) (we_allowed E) (we_caller E)
                  (ws_id st \<in> set (we_approved E)) (we_max_permission E) w of
             (CallOk r, w) \<Rightarrow> (StepDone (tr_content r) (as_untrusted (we_exec E) r) 0, w)
           | (CallErr (ApprovalRequired n), w) \<Rightarrow> (StepNeedsApproval, w)
           | (CallErr e, w) \<Rightarrow> (StepFailed (error_code e), w)
           | (CallCancelled, w) \<Rightarrow> (StepCancelled, w))
      | ModelStep prompt model \<Rightarrow>
          (case we_route E (wf_request safe (ws_id st) prompt model) w of
             (Ret resp, w) \<Rightarrow> (StepDone (co_content resp) (co_content resp) (co_cost_usd resp), w)
           | (Exc e, w) \<Rightarrow> (StepFailed (we_exn_name E e), w)
           | (Cancel, w) \<Rightarrow> (StepCancelled, w)))"

text \<open>\<open>round(x, 6)\<close>, ties to even.\<close>

definition round6 :: "real \<Rightarrow> real" where
  "round6 x =
     (let y = x * 10 ^ 6; f = \<lfloor>y\<rfloor>; d = y - of_int f;
          n = (if d < 1 / 2 then f else if d > 1 / 2 then f + 1 else if even f then f else f + 1)
      in of_int n / 10 ^ 6)"

definition wf_stop :: "wf_status \<Rightarrow> wf_step \<Rightarrow> string option \<Rightarrow> wf_out \<Rightarrow> wf_out" where
  "wf_stop status st err out =
     out\<lparr>wo_status := status, wo_failed := Some (ws_id st),
       wo_steps := wo_steps out @ (case err of None \<Rightarrow> [] | Some e \<Rightarrow>
         [\<lparr>wr_id = ws_id st, wr_kind = kind_name (ws_kind st), wr_ok = False, wr_error = Some e, wr_output = None\<rparr>])\<rparr>"

definition wf_done :: "wf_step \<Rightarrow> string \<Rightarrow> real \<Rightarrow> wf_out \<Rightarrow> wf_out" where
  "wf_done st raw_out cost out =
     out\<lparr>wo_cost_usd := wo_cost_usd out + cost,
       wo_steps := wo_steps out @ 
         [\<lparr>wr_id = ws_id st, wr_kind = kind_name (ws_kind st), wr_ok = True, wr_error = None,
           wr_output = Some (take 2000 raw_out)\<rparr>],
       wo_result := Some raw_out\<rparr>"

definition wf_over_cost :: "'x wf_env \<Rightarrow> wf_out \<Rightarrow> bool" where
  "wf_over_cost E out = (case we_max_cost_usd E of None \<Rightarrow> False | Some m \<Rightarrow> wo_cost_usd out \<ge> m)"

text \<open>The loop over the steps; \<open>wo_result\<close> follows the last output and is reported on completion only.\<close>

fun run_steps :: "'x wf_env \<Rightarrow> wf_step list \<Rightarrow> wf_values \<Rightarrow> wf_values \<Rightarrow> wf_out \<Rightarrow> 'x tool_world \<Rightarrow> wf_out outcome \<times> 'x tool_world" where
  "run_steps E [] raw safe out w = (Ret (out\<lparr>wo_cost_usd := round6 (wo_cost_usd out)\<rparr>), w)"
| "run_steps E (st # sts) raw safe out w =
     (if wf_over_cost E out then (Ret ((wf_stop WfCostLimit st None out)\<lparr>wo_result := None\<rparr>), w)
      else case run_step E raw safe st w of
          (StepDone raw_out safe_out cost, w) \<Rightarrow>
            run_steps E sts (od_set (ws_id st) raw_out raw) (od_set (ws_id st) safe_out safe) (wf_done st raw_out cost out) w
        | (StepNeedsApproval, w) \<Rightarrow>
            (Ret ((wf_stop WfNeedsApproval st (Some ''approval_required'') out)\<lparr>wo_result := None\<rparr>), w)
        | (StepFailed e, w) \<Rightarrow> (Ret ((wf_stop WfFailed st (Some e) out)\<lparr>wo_result := None\<rparr>), w)
        | (StepCancelled, w) \<Rightarrow> (Cancel, w))"

text \<open>A list of no steps, which \<open>parse_steps\<close> refuses, ends in an \<open>IndexError\<close> at \<open>steps[-1]\<close>.\<close>

definition index_error :: exn where
  "index_error = ProviderError \<lparr>se_mro = [''IndexError'', ''LookupError'', ''Exception''], se_is_timeout = False,
     se_is_connection = False, se_attrs = [], se_response = None, se_message = ''list index out of range''\<rparr>"

definition run_workflow :: "'x wf_env \<Rightarrow> wf_step list \<Rightarrow> string \<Rightarrow> 'x tool_world \<Rightarrow> wf_out outcome \<times> 'x tool_world" where
  "run_workflow E sts input w =
     (if sts = [] then (Exc index_error, w)
      else run_steps E sts [(PStr ''input'', input)] [(PStr ''input'', input)]
       \<lparr>wo_status = WfCompleted, wo_steps = [], wo_failed = None, wo_cost_usd = 0, wo_result = None\<rparr> w)"

section \<open>The order is fixed\<close>

text \<open>
  \<open>k\<close> steps ran with the records \<open>recs\<close>; then either all have run, or the next one is reported as
  the failed one, with a record unless the cost limit stopped the workflow before it.
\<close>

definition wf_reports :: "wf_step list \<Rightarrow> wf_out \<Rightarrow> bool" where
  "wf_reports sts out \<longleftrightarrow>
     (\<exists>k recs. list_all wr_ok recs \<and> map wr_id recs = map ws_id (take k sts) \<and>
        (k = length sts \<and> wo_failed out = None \<and> wo_status out = WfCompleted \<and> wo_steps out = recs
         \<or> k < length sts \<and> wo_failed out = Some (ws_id (sts ! k)) \<and> wo_result out = None \<and>
           (wo_status out = WfCostLimit \<and> wo_steps out = recs
            \<or> wo_status out \<in> {WfNeedsApproval, WfFailed} \<and>
              (\<exists>e. wo_steps out = recs @ [\<lparr>wr_id = ws_id (sts ! k), wr_kind = kind_name (ws_kind (sts ! k)), wr_ok = False, wr_error = Some e, wr_output = None\<rparr>]))))"

lemma run_steps_reports:
  assumes "run_steps E sts raw safe out w = (Ret out', w')"
    and "list_all wr_ok (wo_steps out)" "map wr_id (wo_steps out) = map ws_id pre"
    and "wo_failed out = None" "wo_status out = WfCompleted"
  shows "wf_reports (pre @ sts) out'"
  using assms
proof (induction sts arbitrary: pre raw safe out w)
  case Nil
  then show ?case by (auto simp: wf_reports_def intro!: exI [of _ "length pre"] exI [of _ "wo_steps out"])
next
  case (Cons st sts)
  have stop: "wf_reports (pre @ st # sts) ((wf_stop s st e out)\<lparr>wo_result := None\<rparr>)"
    if "s = WfCostLimit \<and> e = None \<or> s \<in> {WfNeedsApproval, WfFailed} \<and> e \<noteq> None" for s e
    unfolding wf_reports_def using that Cons.prems(2,3)
    by (intro exI [of _ "length pre"] exI [of _ "wo_steps out"]) (auto simp: wf_stop_def nth_append)
  show ?case
  proof (cases "wf_over_cost E out")
    case True
    then show ?thesis using Cons.prems(1) stop [of WfCostLimit None] by simp
  next
    case False
    obtain res w1 where rs: "run_step E raw safe st w = (res, w1)" by fastforce
    show ?thesis
    proof (cases res)
      case (StepDone raw_out safe_out cost)
      have "wf_reports ((pre @ [st]) @ sts) out'"
        by (rule Cons.IH [where out = "wf_done st raw_out cost out"])
          (use Cons.prems False rs StepDone in \<open>auto simp: wf_done_def\<close>)
      then show ?thesis by simp
    next
      case StepNeedsApproval
      then show ?thesis using Cons.prems(1) False rs stop [of WfNeedsApproval "Some ''approval_required''"] by simp
    next
      case (StepFailed e)
      then show ?thesis using Cons.prems(1) False rs stop [of WfFailed "Some e"] by simp
    next
      case StepCancelled
      then show ?thesis using Cons.prems(1) False rs by simp
    qed
  qed
qed

section \<open>What models and handlers see\<close>

text \<open>The texts that may stand in a prompt: the input, wrapped tool output and answers of the model.\<close>

definition prompt_text :: "'x wf_env \<Rightarrow> string \<Rightarrow> string \<Rightarrow> bool" where
  "prompt_text E input s \<longleftrightarrow> s = input \<or> (\<exists>r. s = as_untrusted (we_exec E) r)
     \<or> (\<exists>q w resp w'. we_route E q w = (Ret resp, w') \<and> s = co_content resp)"

definition safe_request :: "'x wf_env \<Rightarrow> string \<Rightarrow> request \<Rightarrow> bool" where
  "safe_request E input q \<longleftrightarrow>
     (\<exists>safe sid prompt model. q = wf_request safe sid prompt model \<and> (\<forall>n s. od_get safe n = Some s \<longrightarrow> prompt_text E input s))"

definition wf_with_route ::
  "(request \<Rightarrow> 'x tool_world \<Rightarrow> completion outcome \<times> 'x tool_world) \<Rightarrow> 'x wf_env \<Rightarrow> 'x wf_env" where
  "wf_with_route g E = E\<lparr>we_route := g\<rparr>"

lemma wf_with_route_sel [simp]:
  "we_exec (wf_with_route g E) = we_exec E" "we_route (wf_with_route g E) = g"
  "we_exn_name (wf_with_route g E) = we_exn_name E" "we_allowed (wf_with_route g E) = we_allowed E"
  "we_caller (wf_with_route g E) = we_caller E" "we_approved (wf_with_route g E) = we_approved E"
  "we_max_permission (wf_with_route g E) = we_max_permission E" "we_max_cost_usd (wf_with_route g E) = we_max_cost_usd E"
  by (simp_all add: wf_with_route_def)

lemma run_steps_route:
  assumes g: "\<And>q w. safe_request E input q \<Longrightarrow> g q w = we_route E q w"
    and "\<forall>n s. od_get safe n = Some s \<longrightarrow> prompt_text E input s"
  shows "run_steps (wf_with_route g E) sts raw safe out w = run_steps E sts raw safe out w"
  using assms(2)
proof (induction sts arbitrary: raw safe out w)
  case (Cons st sts)
  have oc: "wf_over_cost (wf_with_route g E) out = wf_over_cost E out" by (simp add: wf_over_cost_def wf_with_route_def)
  have asked: "g (wf_request safe sid p m) v = we_route E (wf_request safe sid p m) v" for sid p m v
    by (rule g) (use Cons.prems in \<open>auto simp: safe_request_def\<close>)
  have step: "run_step (wf_with_route g E) raw safe st w = run_step E raw safe st w"
    unfolding run_step_def wf_with_route_sel asked by (rule refl)
  show ?case
  proof (cases "run_step E raw safe st w")
    case (Pair res w1)
    show ?thesis
    proof (cases res)
      case (StepDone raw_out safe_out cost)
      have "prompt_text E input safe_out"
        using Pair StepDone
        by (auto simp: run_step_def prompt_text_def split: step_kind.splits prod.splits call_outcome.splits
            tool_error.splits outcome.splits) blast
      then have "\<forall>n s. od_get (od_set (ws_id st) safe_out safe) n = Some s \<longrightarrow> prompt_text E input s"
        using Cons.prems by simp
      from Cons.IH [OF this] show ?thesis by (simp add: oc step Pair StepDone)
    qed (simp_all add: oc step Pair)
  qed
qed simp

text \<open>Handlers of destructive tools matter only for the steps that are approved.\<close>

definition wf_with_handlers ::
  "(tool \<Rightarrow> pyval \<Rightarrow> 'x tool_world \<Rightarrow> handled \<times> 'x tool_world) \<Rightarrow> 'x wf_env \<Rightarrow> 'x wf_env" where
  "wf_with_handlers h E = E\<lparr>we_exec := (we_exec E)\<lparr>xe_tools := (xe_tools (we_exec E))\<lparr>te_handler := h\<rparr>\<rparr>\<rparr>"

lemma wf_with_handlers_sel [simp]:
  "we_route (wf_with_handlers h E) = we_route E"
  "we_exn_name (wf_with_handlers h E) = we_exn_name E" "we_allowed (wf_with_handlers h E) = we_allowed E"
  "we_caller (wf_with_handlers h E) = we_caller E" "we_approved (wf_with_handlers h E) = we_approved E"
  "we_max_permission (wf_with_handlers h E) = we_max_permission E" "we_max_cost_usd (wf_with_handlers h E) = we_max_cost_usd E"
  "xe_tools (we_exec (wf_with_handlers h E)) = (xe_tools (we_exec E))\<lparr>te_handler := h\<rparr>"
  "as_untrusted (we_exec (wf_with_handlers h E)) r = as_untrusted (we_exec E) r"
  by (simp_all add: wf_with_handlers_def as_untrusted_def)

lemma run_steps_handlers:
  assumes h: "\<And>t args w. tl_permission t \<noteq> DESTRUCTIVE \<Longrightarrow> h t args w = te_handler (xe_tools (we_exec E)) t args w"
    and none: "list_all (\<lambda>st. ws_id st \<notin> set (we_approved E)) sts"
  shows "run_steps (wf_with_handlers h E) sts raw safe out w = run_steps E sts raw safe out w"
  using none
proof (induction sts arbitrary: raw safe out w)
  case (Cons st sts)
  have oc: "wf_over_cost (wf_with_handlers h E) out = wf_over_cost E out" by (simp add: wf_over_cost_def)
  have ct: "call_tool ((xe_tools (we_exec E))\<lparr>te_handler := h\<rparr>) t args al cl (ws_id st \<in> set (we_approved E)) mp w
      = call_tool (xe_tools (we_exec E)) t args al cl (ws_id st \<in> set (we_approved E)) mp w" for t args al cl mp w
    by (rule call_tool_handler) (use h Cons.prems in auto)
  have step: "run_step (wf_with_handlers h E) raw safe st w = run_step E raw safe st w"
    unfolding run_step_def wf_with_handlers_sel ct by (rule refl)
  have IH: "run_steps (wf_with_handlers h E) sts raw safe out w = run_steps E sts raw safe out w" for raw safe out w
    by (rule Cons.IH) (use Cons.prems in simp)
  show ?case unfolding run_steps.simps oc step IH by (rule refl)
qed simp

section \<open>Properties\<close>

text \<open>
  The order of a workflow is fixed: whatever tools and models answer, the steps that ran are a prefix of
  the list, each with its record and in order; either all of them ran and the workflow completed, or the
  next one is named as the failed one, with a record of its own unless the cost limit stopped it, and no
  result is reported.
\<close>

theorem workflow_order_fixed:
  assumes "run_workflow E sts input w = (Ret out, w')"
  shows "wf_reports sts out"
  using run_steps_reports [of E sts _ _ _ w out w' "[]"] assms by (auto simp: run_workflow_def split: if_splits)

definition wf_env0 :: "int wf_env" where
  "wf_env0 = \<lparr>we_exec = exec_env0, we_route = chatty, we_exn_name = (\<lambda>e. []), we_allowed = Some [''*''],
     we_caller = ''workflow'', we_approved = [], we_max_permission = DESTRUCTIVE, we_max_cost_usd = Some 1\<rparr>"

definition ask_then_drop :: "wf_step list" where
  "ask_then_drop = [\<lparr>ws_id = PStr ''ask'', ws_kind = ModelStep ''about ${input}'' None\<rparr>,
     \<lparr>ws_id = PStr ''act'', ws_kind = ToolStep ''drop'' (PDict [])\<rparr>]"

definition wf_world0 :: "int tool_world" where
  "wf_world0 = \<lparr>tw_registry = one_tool, tw_ext = 0\<rparr>"

lemmas wf_eval = wf_env0_def ask_then_drop_def wf_world0_def run_workflow_def wf_over_cost_def run_step_def chatty_def
  wf_request_def user_note_def wf_stop_def wf_done_def kind_name_def

theorem workflow_order_fixed_witness:
  "\<exists>out w'. run_workflow wf_env0 ask_then_drop ''x'' wf_world0 = (Ret out, w') \<and> wo_status out = WfCostLimit
     \<and> wo_failed out = Some (PStr ''act'') \<and> wf_reports ask_then_drop out"
proof -
  obtain out w' where "run_workflow wf_env0 ask_then_drop ''x'' wf_world0 = (Ret out, w')" "wo_status out = WfCostLimit"
    "wo_failed out = Some (PStr ''act'')"
    by (simp add: wf_eval)
  with workflow_order_fixed show ?thesis by blast
qed

text \<open>
  Models see tool output only as labelled untrusted data: a workflow's run depends on \<open>route\<close> only
  through its answers to requests whose prompt is a template filled with the input, with wrapped tool
  results and with earlier answers of the model.
\<close>

theorem workflow_prompts_safe:
  assumes "\<And>q w. safe_request E input q \<Longrightarrow> g q w = we_route E q w"
  shows "run_workflow (wf_with_route g E) sts input w = run_workflow E sts input w"
  unfolding run_workflow_def
  by (simp add: run_steps_route [where E = E and g = g and input = input] assms prompt_text_def)

definition safe_only :: "request \<Rightarrow> int tool_world \<Rightarrow> completion outcome \<times> int tool_world" where
  "safe_only q w = (if safe_request (wf_env0\<lparr>we_max_cost_usd := None\<rparr>) ''x'' q then chatty q w else (Cancel, w))"

theorem workflow_prompts_safe_witness:
  "run_workflow (wf_with_route safe_only (wf_env0\<lparr>we_max_cost_usd := None\<rparr>)) ask_then_drop ''x'' wf_world0
   = run_workflow (wf_env0\<lparr>we_max_cost_usd := None\<rparr>) ask_then_drop ''x'' wf_world0"
  by (rule workflow_prompts_safe) (simp add: safe_only_def wf_env0_def)

text \<open>
  No step of a workflow runs a destructive tool without a human: when none of its steps is named as
  approved, the run does not depend on what the handlers of destructive tools would do.
\<close>

theorem workflow_destructive_needs_approval:
  assumes "\<And>t args w. tl_permission t \<noteq> DESTRUCTIVE \<Longrightarrow> h t args w = te_handler (xe_tools (we_exec E)) t args w"
    and "list_all (\<lambda>st. ws_id st \<notin> set (we_approved E)) sts"
  shows "run_workflow (wf_with_handlers h E) sts input w = run_workflow E sts input w"
  unfolding run_workflow_def using run_steps_handlers [OF assms] by simp

theorem workflow_destructive_needs_approval_witness:
  "run_workflow (wf_with_handlers (\<lambda>t a w. if tl_permission t = DESTRUCTIVE then (HCancelled, w)
        else te_handler tool_env0 t a w) (wf_env0\<lparr>we_max_cost_usd := None\<rparr>)) ask_then_drop ''x'' wf_world0
   = run_workflow (wf_env0\<lparr>we_max_cost_usd := None\<rparr>) ask_then_drop ''x'' wf_world0"
  by (rule workflow_destructive_needs_approval) (simp_all add: wf_env0_def exec_env0_def ask_then_drop_def)

end
