(* ===== verification/Tasks.thy ===== *)
theory Tasks
  imports Prelude
begin

text \<open>
  \<open>src/coreai/orchestrator.py\<close>: the task store, which keeps every unfinished task and a bounded
  number of finished ones, and the orchestrator's table of agents and active tasks. A task id is a
  \<open>uuid4\<close>, taken to be fresh; ids are numbered in the order of their creation. The fields a task
  only carries around (its metadata) are left out.
\<close>

section \<open>Tasks and their store\<close>

datatype task_status = PENDING | RUNNING | COMPLETED | FAILED | CANCELLED

definition terminal :: "task_status \<Rightarrow> bool" where
  "terminal st \<longleftrightarrow> st = COMPLETED \<or> st = FAILED \<or> st = CANCELLED"

lemma terminal_simps [simp]:
  "\<not> terminal PENDING" "\<not> terminal RUNNING" "terminal COMPLETED" "terminal FAILED" "terminal CANCELLED"
  by (simp_all add: terminal_def)

lemma not_terminal: "\<not> terminal st \<longleftrightarrow> st = PENDING \<or> st = RUNNING"
  by (cases st) simp_all

record agent_task =
  at_id :: nat
  at_agent :: string
  at_objective :: string
  at_context :: pyval
  at_status :: task_status
  at_result :: "string option"
  at_error :: "string option"
  at_created :: time
  at_started :: "time option"
  at_completed :: "time option"
  at_iterations :: int
  at_max_iterations :: int
  at_priority :: int

definition duration_seconds :: "time \<Rightarrow> agent_task \<Rightarrow> real option" where
  "duration_seconds now t =
     map_option (\<lambda>s. (case at_completed t of Some e \<Rightarrow> e | None \<Rightarrow> now) - s) (at_started t)"

record task_store =
  ts_tasks :: "(nat, agent_task) odict"
  ts_finished :: "nat list"
  ts_max_finished :: nat
  ts_next :: nat

definition task_store_new :: "nat \<Rightarrow> task_store" where
  "task_store_new m = \<lparr>ts_tasks = [], ts_finished = [], ts_max_finished = m, ts_next = 0\<rparr>"

text \<open>\<open>_finished\<close> is an ordered dictionary of \<open>None\<close>, here the list of its keys.\<close>

definition prune :: "agent_task \<Rightarrow> task_store \<Rightarrow> task_store" where
  "prune t S =
     (if \<not> terminal (at_status t) then S
      else let fin = removeAll (at_id t) (ts_finished S) @ [at_id t]; n = length fin - ts_max_finished S
           in S\<lparr>ts_finished := drop n fin, ts_tasks := fold od_pop (take n fin) (ts_tasks S)\<rparr>)"

definition store_create :: "time \<Rightarrow> string \<Rightarrow> string \<Rightarrow> pyval \<Rightarrow> int \<Rightarrow> task_store \<Rightarrow> agent_task \<times> task_store" where
  "store_create now a objective ctx prio S =
     (let t = \<lparr>at_id = ts_next S, at_agent = a, at_objective = objective,
                at_context = (if falsy ctx then PDict [] else ctx), at_status = PENDING, at_result = None,
                at_error = None, at_created = now, at_started = None, at_completed = None, at_iterations = 0,
                at_max_iterations = 10, at_priority = prio\<rparr>
      in (t, S\<lparr>ts_tasks := od_set (at_id t) t (ts_tasks S), ts_next := Suc (ts_next S)\<rparr>))"

abbreviation store_get :: "nat \<Rightarrow> task_store \<Rightarrow> agent_task option" where
  "store_get i S \<equiv> od_get (ts_tasks S) i"

definition store_update :: "agent_task \<Rightarrow> task_store \<Rightarrow> task_store" where
  "store_update t S = prune t (S\<lparr>ts_tasks := od_set (at_id t) t (ts_tasks S)\<rparr>)"

definition list_by_agent :: "string \<Rightarrow> task_store \<Rightarrow> agent_task list" where
  "list_by_agent a S = filter (\<lambda>t. at_agent t = a) (map snd (ts_tasks S))"

text \<open>Sorting by the pair \<open>(-priority, created_at)\<close>, as two stable sorts.\<close>

definition list_by_status :: "task_status \<Rightarrow> task_store \<Rightarrow> agent_task list" where
  "list_by_status st S =
     sort_key (\<lambda>t. - at_priority t) (sort_key at_created (filter (\<lambda>t. at_status t = st) (map snd (ts_tasks S))))"

definition store_delete :: "nat \<Rightarrow> task_store \<Rightarrow> task_store" where
  "store_delete i S = S\<lparr>ts_tasks := od_pop i (ts_tasks S), ts_finished := removeAll i (ts_finished S)\<rparr>"

section \<open>The orchestrator\<close>

record agent_entry =
  ae_config :: pyval
  ae_created :: time
  ae_total :: nat
  ae_completed :: nat
  ae_failed :: nat

record orchestrator =
  or_store :: task_store
  or_agents :: "(string, agent_entry) odict"
  or_active :: "(nat, string) odict"

datatype task_error = TaskNotFound nat | NotRegistered string | NoAgentEntry string

definition orch_new :: "nat \<Rightarrow> orchestrator" where
  "orch_new m = \<lparr>or_store = task_store_new m, or_agents = [], or_active = []\<rparr>"

definition register_agent :: "time \<Rightarrow> string \<Rightarrow> pyval \<Rightarrow> orchestrator \<Rightarrow> orchestrator" where
  "register_agent now a config orch =
     orch\<lparr>or_agents := od_set a \<lparr>ae_config = (if falsy config then PDict [] else config), ae_created = now,
       ae_total = 0, ae_completed = 0, ae_failed = 0\<rparr> (or_agents orch)\<rparr>"

definition assign_task ::
  "time \<Rightarrow> string \<Rightarrow> string \<Rightarrow> pyval \<Rightarrow> int \<Rightarrow> orchestrator \<Rightarrow> (task_error + agent_task) \<times> orchestrator" where
  "assign_task now a objective ctx prio orch =
     (if \<not> od_has (or_agents orch) a then (Inl (NotRegistered a), orch)
      else case store_create now a objective ctx prio (or_store orch) of
        (t, S) \<Rightarrow> (Inr t, orch\<lparr>or_store := S, or_active := od_set (at_id t) a (or_active orch),
                     or_agents := od_map_at a (\<lambda>e. e\<lparr>ae_total := Suc (ae_total e)\<rparr>) (or_agents orch)\<rparr>))"

definition start_task :: "time \<Rightarrow> nat \<Rightarrow> orchestrator \<Rightarrow> task_error option \<times> orchestrator" where
  "start_task now i orch =
     (case store_get i (or_store orch) of
        None \<Rightarrow> (Some (TaskNotFound i), orch)
      | Some t \<Rightarrow> (None, orch\<lparr>or_store :=
          store_update (t\<lparr>at_status := RUNNING, at_started := Some now\<rparr>) (or_store orch)\<rparr>))"

text \<open>The end of \<open>complete_task\<close> and \<open>fail_task\<close>: the task leaves the active table and its agent counts it.\<close>

definition count_end :: "nat \<Rightarrow> (agent_entry \<Rightarrow> agent_entry) \<Rightarrow> orchestrator \<Rightarrow> task_error option \<times> orchestrator" where
  "count_end i bump orch =
     (let rest = orch\<lparr>or_active := od_pop i (or_active orch)\<rparr>
      in case od_get (or_active orch) i of
           None \<Rightarrow> (None, rest)
         | Some a \<Rightarrow>
             (if a = [] then (None, rest)
              else if od_has (or_agents orch) a then (None, rest\<lparr>or_agents := od_map_at a bump (or_agents orch)\<rparr>)
              else (Some (NoAgentEntry a), rest)))"

definition complete_task :: "time \<Rightarrow> nat \<Rightarrow> string \<Rightarrow> orchestrator \<Rightarrow> task_error option \<times> orchestrator" where
  "complete_task now i result orch =
     (case store_get i (or_store orch) of
        None \<Rightarrow> (Some (TaskNotFound i), orch)
      | Some t \<Rightarrow> count_end i (\<lambda>e. e\<lparr>ae_completed := Suc (ae_completed e)\<rparr>) (orch\<lparr>or_store :=
          store_update (t\<lparr>at_status := COMPLETED, at_result := Some result, at_completed := Some now\<rparr>) (or_store orch)\<rparr>))"

definition fail_task :: "time \<Rightarrow> nat \<Rightarrow> string \<Rightarrow> orchestrator \<Rightarrow> task_error option \<times> orchestrator" where
  "fail_task now i error orch =
     (case store_get i (or_store orch) of
        None \<Rightarrow> (Some (TaskNotFound i), orch)
      | Some t \<Rightarrow> count_end i (\<lambda>e. e\<lparr>ae_failed := Suc (ae_failed e)\<rparr>) (orch\<lparr>or_store :=
          store_update (t\<lparr>at_status := FAILED, at_error := Some error, at_completed := Some now\<rparr>) (or_store orch)\<rparr>))"

definition cancel_task :: "time \<Rightarrow> nat \<Rightarrow> orchestrator \<Rightarrow> orchestrator" where
  "cancel_task now i orch =
     (case store_get i (or_store orch) of
        None \<Rightarrow> orch
      | Some t \<Rightarrow> orch\<lparr>or_store := store_update (t\<lparr>at_status := CANCELLED, at_completed := Some now\<rparr>) (or_store orch),
                       or_active := od_pop i (or_active orch)\<rparr>)"

definition unregister_agent :: "time \<Rightarrow> string \<Rightarrow> orchestrator \<Rightarrow> orchestrator" where
  "unregister_agent now a orch =
     (let o1 = fold (\<lambda>(i, b) r. if b = a then cancel_task now i r else r) (or_active orch) orch
      in o1\<lparr>or_agents := od_pop a (or_agents o1)\<rparr>)"

abbreviation get_task :: "nat \<Rightarrow> orchestrator \<Rightarrow> agent_task option" where
  "get_task i orch \<equiv> store_get i (or_store orch)"

definition get_pending_tasks :: "orchestrator \<Rightarrow> agent_task list" where
  "get_pending_tasks orch = list_by_status PENDING (or_store orch)"

definition get_active_tasks :: "orchestrator \<Rightarrow> agent_task list" where
  "get_active_tasks orch = list_by_status RUNNING (or_store orch)"

section \<open>Well-formed orchestrators\<close>

text \<open>
  Ids are those of the tasks and below the next one; the finished list holds exactly the finished
  tasks of the store and respects the bound; the active table holds exactly the unfinished ones, under
  their agents, all of which are registered.
\<close>

definition task_store_ok :: "task_store \<Rightarrow> bool" where
  "task_store_ok S \<longleftrightarrow> od_wf (ts_tasks S) \<and> distinct (ts_finished S) \<and> length (ts_finished S) \<le> ts_max_finished S
     \<and> (\<forall>i t. store_get i S = Some t \<longrightarrow> at_id t = i \<and> i < ts_next S)
     \<and> (\<forall>i. i \<in> set (ts_finished S) \<longleftrightarrow> (\<exists>t. store_get i S = Some t \<and> terminal (at_status t)))"

definition orch_ok :: "orchestrator \<Rightarrow> bool" where
  "orch_ok orch \<longleftrightarrow> task_store_ok (or_store orch) \<and> od_wf (or_active orch)
     \<and> (\<forall>i a. od_get (or_active orch) i = Some a \<longleftrightarrow>
          (\<exists>t. get_task i orch = Some t \<and> \<not> terminal (at_status t) \<and> at_agent t = a))
     \<and> (\<forall>i a. od_get (or_active orch) i = Some a \<longrightarrow> od_has (or_agents orch) a)"

declare map_of_eq_Some_iff [simp del]

lemma od_get_fold_pop: "map_of (fold od_pop ks d) = (\<lambda>k. if k \<in> set ks then None else map_of d k)"
  by (induction ks arbitrary: d) (auto simp: fun_eq_iff)

lemma od_wf_fold_pop [simp]: "od_wf d \<Longrightarrow> od_wf (fold od_pop ks d)"
  by (induction ks arbitrary: d) auto

text \<open>What an update does to the tasks: the written one is there unless it was pruned at once; pruned tasks are finished.\<close>

lemma store_update_next [simp]: "ts_next (store_update t S) = ts_next S"
  by (simp add: store_update_def prune_def Let_def)

lemma store_update_max [simp]: "ts_max_finished (store_update t S) = ts_max_finished S"
  by (simp add: store_update_def prune_def Let_def)

lemma store_update_unfinished:
  "\<not> terminal (at_status t) \<Longrightarrow> store_get i (store_update t S) = (if i = at_id t then Some t else store_get i S)"
  by (simp add: store_update_def prune_def)

lemma store_update_get:
  assumes "store_get i (store_update t S) = Some u"
  shows "u = (if i = at_id t then t else u) \<and> (i \<noteq> at_id t \<longrightarrow> store_get i S = Some u)"
  using assms
  by (auto simp: store_update_def prune_def Let_def od_get_fold_pop split: if_splits)

lemma store_update_keeps:
  assumes "task_store_ok S" "i \<noteq> at_id t" "store_get i S = Some u" "\<not> terminal (at_status u)"
  shows "store_get i (store_update t S) = Some u"
proof -
  have "i \<notin> set (ts_finished S)" using assms by (auto simp: task_store_ok_def)
  then show ?thesis using assms(2,3)
    by (auto simp: store_update_def prune_def Let_def od_get_fold_pop dest: in_set_takeD)
qed

lemma store_update_ok:
  assumes ok: "task_store_ok S" and old: "store_get (at_id t) S = Some u" and open_task: "\<not> terminal (at_status u)"
  shows "task_store_ok (store_update t S)"
proof (cases "terminal (at_status t)")
  case False
  have "at_id t \<notin> set (ts_finished S)" using ok old open_task by (auto simp: task_store_ok_def)
  with False ok old show ?thesis by (auto simp: task_store_ok_def store_update_def prune_def)
next
  case True
  define fin where "fin = removeAll (at_id t) (ts_finished S) @ [at_id t]"
  define n where "n = length fin - ts_max_finished S"
  have dist: "distinct fin" using ok by (simp add: fin_def task_store_ok_def)
  have parts: "i \<in> set fin \<longleftrightarrow> i \<in> set (take n fin) \<or> i \<in> set (drop n fin)"
    "\<not> (i \<in> set (take n fin) \<and> i \<in> set (drop n fin))" for i
    using dist by (metis append_take_drop_id set_append Un_iff) (metis dist append_take_drop_id distinct_append disjoint_iff)
  have upd: "store_update t S = S\<lparr>ts_finished := drop n fin,
      ts_tasks := fold od_pop (take n fin) (od_set (at_id t) t (ts_tasks S))\<rparr>"
    using True by (simp add: store_update_def prune_def fin_def n_def Let_def)
  have memb: "i \<in> set fin \<longleftrightarrow> i = at_id t \<or> i \<in> set (ts_finished S)" for i by (auto simp: fin_def)
  have fin_iff: "i \<in> set fin \<longleftrightarrow>
      (\<exists>v. map_of (od_set (at_id t) t (ts_tasks S)) i = Some v \<and> terminal (at_status v))" for i
    using ok True unfolding memb by (auto simp: task_store_ok_def)
  have "i \<in> set (drop n fin) \<longleftrightarrow>
      (\<exists>v. map_of (fold od_pop (take n fin) (od_set (at_id t) t (ts_tasks S))) i = Some v \<and> terminal (at_status v))" for i
    using parts [of i] fin_iff [of i] by (auto simp: od_get_fold_pop)
  moreover have "length (drop n fin) \<le> ts_max_finished S" by (simp add: n_def)
  ultimately show ?thesis
    using ok old dist unfolding upd by (auto simp: task_store_ok_def od_get_fold_pop split: if_splits)
qed

section \<open>What the operations do to a well-formed orchestrator\<close>

text \<open>Every operation touches one task; of the others, finished ones may be pruned and nothing else happens.\<close>

definition others_kept :: "nat \<Rightarrow> orchestrator \<Rightarrow> orchestrator \<Rightarrow> bool" where
  "others_kept i orch orch' \<longleftrightarrow>
     (\<forall>j u. j \<noteq> i \<longrightarrow> (get_task j orch = Some u \<and> \<not> terminal (at_status u) \<longrightarrow> get_task j orch' = Some u)
        \<and> (get_task j orch' = Some u \<longrightarrow> get_task j orch = Some u))"

lemma others_keptD:
  "others_kept i orch orch' \<Longrightarrow> j \<noteq> i \<Longrightarrow> get_task j orch = Some u \<Longrightarrow> \<not> terminal (at_status u) \<Longrightarrow> get_task j orch' = Some u"
  "others_kept i orch orch' \<Longrightarrow> j \<noteq> i \<Longrightarrow> get_task j orch' = Some u \<Longrightarrow> get_task j orch = Some u"
  unfolding others_kept_def by meson+

lemma others_kept_open:
  assumes "others_kept i orch orch'" "j \<noteq> i"
  shows "get_task j orch' = Some u \<and> \<not> terminal (at_status u) \<longleftrightarrow> get_task j orch = Some u \<and> \<not> terminal (at_status u)"
  using others_keptD(1) [OF assms, of u] others_keptD(2) [OF assms, of u] by argo

lemma others_kept_store:
  assumes "task_store_ok (or_store orch)" "at_id t = i" "or_store orch' = store_update t (or_store orch)"
  shows "others_kept i orch orch'"
  unfolding others_kept_def
proof (intro allI impI conjI)
  fix j u assume j: "j \<noteq> i"
  show "get_task j orch' = Some u" if "get_task j orch = Some u \<and> \<not> terminal (at_status u)"
    using store_update_keeps [OF assms(1), of j t u] that j assms(2,3) by simp
  show "get_task j orch = Some u" if "get_task j orch' = Some u"
    using store_update_get [of t "or_store orch" j u] that j assms(2,3) by simp
qed

lemma orch_ok_store: "orch_ok orch \<Longrightarrow> task_store_ok (or_store orch)"
  by (simp add: orch_ok_def)

lemma orch_ok_id: "orch_ok orch \<Longrightarrow> get_task i orch = Some t \<Longrightarrow> at_id t = i"
  by (auto simp: orch_ok_def task_store_ok_def)

lemma orch_ok_active:
  "orch_ok orch \<Longrightarrow> od_get (or_active orch) i = Some a \<longleftrightarrow>
     (\<exists>t. get_task i orch = Some t \<and> \<not> terminal (at_status t) \<and> at_agent t = a)"
  by (simp add: orch_ok_def)

text \<open>Writing an unfinished task back, where it leaves the active table if it is finished now.\<close>

lemma orch_write:
  assumes ok: "orch_ok orch" and u: "get_task i orch = Some u" "\<not> terminal (at_status u)"
    and t: "at_id t = i" "at_agent t = at_agent u"
    and store: "or_store orch' = store_update t (or_store orch)"
    and active: "or_active orch' = (if terminal (at_status t) then od_pop i (or_active orch) else or_active orch)"
    and agents: "fst ` set (or_agents orch') = fst ` set (or_agents orch)"
  shows "orch_ok orch'"
proof -
  have others: "others_kept i orch orch'" by (rule others_kept_store [OF orch_ok_store [OF ok] t(1) store])
  have "task_store_ok (or_store orch')" unfolding store
    by (rule store_update_ok [OF orch_ok_store [OF ok], of t u]) (use u t in auto)
  moreover have "od_wf (or_active orch')" using ok by (simp add: active orch_ok_def)
  moreover have "od_get (or_active orch') j = Some a \<longleftrightarrow>
      (\<exists>v. get_task j orch' = Some v \<and> \<not> terminal (at_status v) \<and> at_agent v = a)" for j a
  proof (cases "j = i")
    case False
    then have "od_get (or_active orch') j = od_get (or_active orch) j" by (simp add: active)
    then have "od_get (or_active orch') j = Some a \<longleftrightarrow> (\<exists>v. (get_task j orch = Some v \<and> \<not> terminal (at_status v)) \<and> at_agent v = a)"
      using orch_ok_active [OF ok, of j a] by simp
    then show ?thesis by (simp only: others_kept_open [OF others False, symmetric] conj_assoc)
  next
    case True
    show ?thesis
    proof (cases "terminal (at_status t)")
      case fin: True
      have "\<not> (get_task i orch' = Some v \<and> \<not> terminal (at_status v))" for v
        using store_update_get [of t "or_store orch" i v] fin t(1) by (auto simp: store)
      then show ?thesis using True fin by (auto simp: active)
    next
      case False
      then have "get_task i orch' = Some t" using store_update_unfinished [OF False] t(1) by (simp add: store)
      then show ?thesis using True False u t orch_ok_active [OF ok, of i] by (auto simp: active)
    qed
  qed
  moreover have "od_has (or_agents orch') a" if "od_get (or_active orch') j = Some a" for j a
    using ok that agents by (auto simp: orch_ok_def active split: if_splits)
  ultimately show ?thesis by (simp add: orch_ok_def)
qed

lemma count_end_state:
  "\<exists>ags err. count_end i bump orch = (err, orch\<lparr>or_active := od_pop i (or_active orch), or_agents := ags\<rparr>)
     \<and> fst ` set ags = fst ` set (or_agents orch)"
  by (cases orch) (auto simp: count_end_def Let_def split: option.splits)

lemma count_end_fine:
  "od_get (or_active orch) i = Some a \<Longrightarrow> od_has (or_agents orch) a \<Longrightarrow> fst (count_end i bump orch) = None"
  by (simp add: count_end_def Let_def)

text \<open>The four ways in which an unfinished task changes: none raises, each keeps the other tasks.\<close>

lemma start_task_open:
  assumes ok: "orch_ok orch" and u: "get_task i orch = Some u" "\<not> terminal (at_status u)"
    and st: "start_task now i orch = (err, orch')"
  shows "err = None" "orch_ok orch'" "others_kept i orch orch'"
    "get_task i orch' = Some (u\<lparr>at_status := RUNNING, at_started := Some now\<rparr>)" "or_agents orch' = or_agents orch"
proof -
  define t where "t = u\<lparr>at_status := RUNNING, at_started := Some now\<rparr>"
  have t: "at_id t = i" "at_agent t = at_agent u" "\<not> terminal (at_status t)" using orch_ok_id [OF ok u(1)] by (simp_all add: t_def)
  have e: "err = None" and o': "orch' = orch\<lparr>or_store := store_update t (or_store orch)\<rparr>"
    using st u(1) by (auto simp: start_task_def t_def)
  show "err = None" by (rule e)
  show "orch_ok orch'" by (rule orch_write [OF ok u t(1,2)]) (simp_all add: o' t)
  show "others_kept i orch orch'" by (rule others_kept_store [OF orch_ok_store [OF ok] t(1)]) (simp add: o')
  show "get_task i orch' = Some (u\<lparr>at_status := RUNNING, at_started := Some now\<rparr>)"
    unfolding t_def [symmetric] using store_update_unfinished [OF t(3)] t(1) by (simp add: o')
  show "or_agents orch' = or_agents orch" by (simp add: o')
qed

lemma settled_open:
  assumes ok: "orch_ok orch" and u: "get_task i orch = Some u" "\<not> terminal (at_status u)"
    and t: "at_id t = i" "at_agent t = at_agent u" "terminal (at_status t)"
    and st: "count_end i bump (orch\<lparr>or_store := store_update t (or_store orch)\<rparr>) = (err, orch')"
  shows "err = None" "orch_ok orch'" "others_kept i orch orch'" "get_task i orch' = Some v \<Longrightarrow> v = t"
    "fst ` set (or_agents orch') = fst ` set (or_agents orch)"
proof -
  have act: "od_get (or_active orch) i = Some (at_agent u)" using orch_ok_active [OF ok] u by blast
  moreover have "od_has (or_agents orch) (at_agent u)" using ok act unfolding orch_ok_def by blast
  ultimately show "err = None" using count_end_fine [of "orch\<lparr>or_store := store_update t (or_store orch)\<rparr>" i "at_agent u" bump] st
    by simp
  from count_end_state [of i bump "orch\<lparr>or_store := store_update t (or_store orch)\<rparr>"] st
  obtain ags where o': "orch' = orch\<lparr>or_store := store_update t (or_store orch), or_active := od_pop i (or_active orch), or_agents := ags\<rparr>"
    and ags: "fst ` set ags = fst ` set (or_agents orch)" by auto
  show "orch_ok orch'" by (rule orch_write [OF ok u t(1,2)]) (simp_all add: o' t ags)
  show "others_kept i orch orch'" by (rule others_kept_store [OF orch_ok_store [OF ok] t(1)]) (simp add: o')
  show "v = t" if "get_task i orch' = Some v"
    using store_update_get [of t "or_store orch" i v] that t(1) by (simp add: o')
  show "fst ` set (or_agents orch') = fst ` set (or_agents orch)" by (simp add: o' ags)
qed

lemma complete_task_open:
  assumes ok: "orch_ok orch" and u: "get_task i orch = Some u" "\<not> terminal (at_status u)"
    and st: "complete_task now i r orch = (err, orch')"
  shows "err = None \<and> orch_ok orch' \<and> others_kept i orch orch'
    \<and> (\<forall>v. get_task i orch' = Some v \<longrightarrow> v = u\<lparr>at_status := COMPLETED, at_result := Some r, at_completed := Some now\<rparr>)
    \<and> fst ` set (or_agents orch') = fst ` set (or_agents orch)"
  using settled_open [OF ok u, of "u\<lparr>at_status := COMPLETED, at_result := Some r, at_completed := Some now\<rparr>"]
    orch_ok_id [OF ok u(1)] st u(1) by (auto simp: complete_task_def)

lemma fail_task_open:
  assumes ok: "orch_ok orch" and u: "get_task i orch = Some u" "\<not> terminal (at_status u)"
    and st: "fail_task now i e orch = (err, orch')"
  shows "err = None \<and> orch_ok orch' \<and> others_kept i orch orch'
    \<and> (\<forall>v. get_task i orch' = Some v \<longrightarrow> v = u\<lparr>at_status := FAILED, at_error := Some e, at_completed := Some now\<rparr>)
    \<and> fst ` set (or_agents orch') = fst ` set (or_agents orch)"
  using settled_open [OF ok u, of "u\<lparr>at_status := FAILED, at_error := Some e, at_completed := Some now\<rparr>"]
    orch_ok_id [OF ok u(1)] st u(1) by (auto simp: fail_task_def)

lemma cancel_task_open:
  assumes ok: "orch_ok orch" and u: "get_task i orch = Some u" "\<not> terminal (at_status u)"
  shows "orch_ok (cancel_task now i orch) \<and> others_kept i orch (cancel_task now i orch)
    \<and> (\<forall>v. get_task i (cancel_task now i orch) = Some v \<longrightarrow> v = u\<lparr>at_status := CANCELLED, at_completed := Some now\<rparr>)
    \<and> or_agents (cancel_task now i orch) = or_agents orch"
proof -
  define t where "t = u\<lparr>at_status := CANCELLED, at_completed := Some now\<rparr>"
  have t: "at_id t = i" "at_agent t = at_agent u" "terminal (at_status t)" using orch_ok_id [OF ok u(1)] by (simp_all add: t_def)
  have o': "cancel_task now i orch = orch\<lparr>or_store := store_update t (or_store orch), or_active := od_pop i (or_active orch)\<rparr>"
    using u by (simp add: cancel_task_def t_def)
  have "orch_ok (cancel_task now i orch)" by (rule orch_write [OF ok u t(1,2)]) (simp_all add: o' t)
  moreover have "others_kept i orch (cancel_task now i orch)"
    by (rule others_kept_store [OF orch_ok_store [OF ok] t(1)]) (simp add: o')
  moreover have "v = t" if "get_task i (cancel_task now i orch) = Some v" for v
    using store_update_get [of t "or_store orch" i v] that t(1) by (simp add: o')
  ultimately show ?thesis by (simp add: o' t_def)
qed

text \<open>The task is finished, or already pruned, and nothing else has changed.\<close>

definition closes :: "nat \<Rightarrow> orchestrator \<Rightarrow> orchestrator \<Rightarrow> bool" where
  "closes i orch orch' \<longleftrightarrow> orch_ok orch' \<and> others_kept i orch orch'
     \<and> ts_next (or_store orch') = ts_next (or_store orch) \<and> ts_max_finished (or_store orch') = ts_max_finished (or_store orch)
     \<and> fst ` set (or_agents orch') = fst ` set (or_agents orch)
     \<and> (\<forall>t'. get_task i orch' = Some t' \<longrightarrow> terminal (at_status t') \<and>
          (\<exists>t. get_task i orch = Some t \<and> \<not> terminal (at_status t) \<and> at_agent t' = at_agent t))"

lemma count_end_next:
  "count_end i bump orch = (err, orch') \<Longrightarrow> or_store orch' = or_store orch"
  using count_end_state [of i bump orch] by auto

lemma complete_closes:
  assumes "orch_ok orch" "get_task i orch = Some u" "\<not> terminal (at_status u)"
  obtains orch' where "complete_task now i r orch = (None, orch')" "closes i orch orch'"
proof -
  obtain err orch' where c: "complete_task now i r orch = (err, orch')" by fastforce
  then have "ts_next (or_store orch') = ts_next (or_store orch) \<and> ts_max_finished (or_store orch') = ts_max_finished (or_store orch)"
    using assms(2) by (auto simp: complete_task_def dest!: count_end_next)
  with complete_task_open [OF assms c] assms(2,3) have "err = None" "closes i orch orch'" by (auto simp: closes_def)
  with c that show thesis by blast
qed

lemma fail_closes:
  assumes "orch_ok orch" "get_task i orch = Some u" "\<not> terminal (at_status u)"
  obtains orch' where "fail_task now i e orch = (None, orch')" "closes i orch orch'"
proof -
  obtain err orch' where c: "fail_task now i e orch = (err, orch')" by fastforce
  then have "ts_next (or_store orch') = ts_next (or_store orch) \<and> ts_max_finished (or_store orch') = ts_max_finished (or_store orch)"
    using assms(2) by (auto simp: fail_task_def dest!: count_end_next)
  with fail_task_open [OF assms c] assms(2,3) have "err = None" "closes i orch orch'" by (auto simp: closes_def)
  with c that show thesis by blast
qed

lemma cancel_closes:
  assumes "orch_ok orch" "get_task i orch = Some u" "\<not> terminal (at_status u)"
  shows "closes i orch (cancel_task now i orch)"
proof -
  have "ts_next (or_store (cancel_task now i orch)) = ts_next (or_store orch)
      \<and> ts_max_finished (or_store (cancel_task now i orch)) = ts_max_finished (or_store orch)"
    using assms(2) by (auto simp: cancel_task_def)
  with cancel_task_open [OF assms, of now] assms(2,3) show ?thesis by (auto simp: closes_def)
qed

text \<open>Progress of a task changes its step count only.\<close>

lemma progress_ok:
  assumes ok: "orch_ok orch"
    and orch': "orch' = orch\<lparr>or_store := (or_store orch)\<lparr>ts_tasks :=
      od_map_at i (\<lambda>t. t\<lparr>at_iterations := n\<rparr>) (ts_tasks (or_store orch))\<rparr>\<rparr>"
  shows "orch_ok orch'" "get_task j orch' = map_option (\<lambda>t. if j = i then t\<lparr>at_iterations := n\<rparr> else t) (get_task j orch)"
proof -
  have get: "get_task j orch' = map_option (\<lambda>t. if j = i then t\<lparr>at_iterations := n\<rparr> else t) (get_task j orch)" for j
    by (cases "get_task j orch") (auto simp: orch')
  then show "get_task j orch' = map_option (\<lambda>t. if j = i then t\<lparr>at_iterations := n\<rparr> else t) (get_task j orch)" .
  have "(\<exists>t. get_task j orch' = Some t \<and> P (at_status t) (at_agent t)) \<longleftrightarrow>
      (\<exists>t. get_task j orch = Some t \<and> P (at_status t) (at_agent t))" for j P
    unfolding get by (cases "get_task j orch") auto
  from this [of _ "\<lambda>st a. terminal st"] this [of _ "\<lambda>st a. \<not> terminal st \<and> a = _"]
  have same: "(\<exists>t. get_task j orch' = Some t \<and> terminal (at_status t)) \<longleftrightarrow> (\<exists>t. get_task j orch = Some t \<and> terminal (at_status t))"
    "(\<exists>t. get_task j orch' = Some t \<and> \<not> terminal (at_status t) \<and> at_agent t = a) \<longleftrightarrow>
     (\<exists>t. get_task j orch = Some t \<and> \<not> terminal (at_status t) \<and> at_agent t = a)" for j a by blast+
  have ids: "at_id t = j \<and> j < ts_next (or_store orch)" if t: "get_task j orch' = Some t" for j t
  proof -
    obtain u where "get_task j orch = Some u" "at_id t = at_id u" using t unfolding get by (auto split: if_splits)
    then show ?thesis using ok by (auto simp: orch_ok_def task_store_ok_def)
  qed
  have wf: "od_wf (ts_tasks (or_store orch'))" using ok by (simp add: orch' orch_ok_def task_store_ok_def)
  have rest: "ts_finished (or_store orch') = ts_finished (or_store orch)" "ts_max_finished (or_store orch') = ts_max_finished (or_store orch)"
    "ts_next (or_store orch') = ts_next (or_store orch)" "or_active orch' = or_active orch" "or_agents orch' = or_agents orch"
    by (simp_all add: orch')
  show "orch_ok orch'"
    using ok unfolding orch_ok_def task_store_ok_def rest same using ids wf by blast
qed

text \<open>A new task is pending, registering an agent changes no task, and unregistering one without unfinished tasks neither.\<close>

lemma register_ok:
  assumes "orch_ok orch" shows "orch_ok (register_agent now a c orch)" "or_store (register_agent now a c orch) = or_store orch"
    "or_active (register_agent now a c orch) = or_active orch"
  using assms by (auto simp: register_agent_def orch_ok_def)

lemma assign_ok:
  assumes ok: "orch_ok orch" and reg: "od_has (or_agents orch) a"
  obtains t orch' where "assign_task now a obj ctx prio orch = (Inr t, orch')" "at_id t = ts_next (or_store orch)" "at_agent t = a"
    "at_status t = PENDING" "at_priority t = prio" "orch_ok orch'" "ts_next (or_store orch') = Suc (ts_next (or_store orch))"
    "\<And>j. get_task j orch' = (if j = at_id t then Some t else get_task j orch)"
    "ts_max_finished (or_store orch') = ts_max_finished (or_store orch)"
proof -
  obtain t S where c: "store_create now a obj ctx prio (or_store orch) = (t, S)" by fastforce
  have t: "at_id t = ts_next (or_store orch)" "at_agent t = a" "at_status t = PENDING" "at_priority t = prio"
    using c by (auto simp: store_create_def Let_def)
  have S: "S = (or_store orch)\<lparr>ts_tasks := od_set (at_id t) t (ts_tasks (or_store orch)), ts_next := Suc (ts_next (or_store orch))\<rparr>"
    using c by (auto simp: store_create_def Let_def)
  define orch' where "orch' = orch\<lparr>or_store := S, or_active := od_set (at_id t) a (or_active orch),
      or_agents := od_map_at a (\<lambda>e. e\<lparr>ae_total := Suc (ae_total e)\<rparr>) (or_agents orch)\<rparr>"
  have new: "get_task (at_id t) orch = None" "at_id t \<notin> set (ts_finished (or_store orch))"
  proof -
    show none: "get_task (at_id t) orch = None"
    proof (rule ccontr)
      assume "get_task (at_id t) orch \<noteq> None"
      then obtain u where "get_task (at_id t) orch = Some u" by auto
      then have "at_id t < ts_next (or_store orch)" using ok by (auto simp: orch_ok_def task_store_ok_def)
      then show False by (simp add: t)
    qed
    then show "at_id t \<notin> set (ts_finished (or_store orch))" using ok by (auto simp: orch_ok_def task_store_ok_def)
  qed
  have get: "get_task j orch' = (if j = at_id t then Some t else get_task j orch)" for j
    by (simp add: orch'_def S)
  have sok: "task_store_ok (or_store orch')"
  proof -
    have "i \<in> set (ts_finished (or_store orch')) \<longleftrightarrow> (\<exists>u. get_task i orch' = Some u \<and> terminal (at_status u))" for i
      using ok new t(3) unfolding get by (auto simp: orch'_def S orch_ok_def task_store_ok_def)
    moreover have "at_id u = i \<and> i < ts_next (or_store orch')" if "get_task i orch' = Some u" for i u
    proof (cases "i = at_id t")
      case True
      then show ?thesis using that t(1) unfolding get by (simp add: orch'_def S)
    next
      case False
      then have "get_task i orch = Some u" using that unfolding get by simp
      then have "at_id u = i \<and> i < ts_next (or_store orch)" using ok by (auto simp: orch_ok_def task_store_ok_def)
      then show ?thesis by (simp add: orch'_def S)
    qed
    moreover have "od_wf (ts_tasks (or_store orch'))" "distinct (ts_finished (or_store orch'))"
      "length (ts_finished (or_store orch')) \<le> ts_max_finished (or_store orch')"
      using ok by (auto simp: orch'_def S orch_ok_def task_store_ok_def)
    ultimately show ?thesis unfolding task_store_ok_def by blast
  qed
  have "od_get (or_active orch') i = Some b \<longleftrightarrow> (\<exists>u. get_task i orch' = Some u \<and> \<not> terminal (at_status u) \<and> at_agent u = b)" for i b
    using orch_ok_active [OF ok, of i b] t(2,3) unfolding get by (auto simp: orch'_def)
  moreover have "od_has (or_agents orch') b" if "od_get (or_active orch') i = Some b" for i b
    using ok reg that unfolding orch_ok_def by (auto simp: orch'_def split: if_splits)
  moreover have "od_wf (or_active orch')" using ok by (simp add: orch'_def orch_ok_def)
  ultimately have "orch_ok orch'" using sok unfolding orch_ok_def by blast
  moreover have "assign_task now a obj ctx prio orch = (Inr t, orch')"
    unfolding assign_task_def using reg c by (simp add: orch'_def)
  ultimately show thesis using that t get by (simp add: orch'_def S)
qed

lemma rewrite_ok:
  assumes ok: "orch_ok orch" and u: "get_task (at_id t) orch = Some u" "\<not> terminal (at_status u)"
    and t: "at_agent t = at_agent u" "\<not> terminal (at_status t)"
  shows "orch_ok (orch\<lparr>or_store := store_update t (or_store orch)\<rparr>)"
    "get_task j (orch\<lparr>or_store := store_update t (or_store orch)\<rparr>) = (if j = at_id t then Some t else get_task j orch)"
proof -
  show "orch_ok (orch\<lparr>or_store := store_update t (or_store orch)\<rparr>)"
    by (rule orch_write [OF ok u refl t(1)]) (simp_all add: t)
  show "get_task j (orch\<lparr>or_store := store_update t (or_store orch)\<rparr>) = (if j = at_id t then Some t else get_task j orch)"
    using store_update_unfinished [OF t(2)] by simp
qed

lemma unregister_idle:
  assumes ok: "orch_ok orch" and idle: "\<And>i t. get_task i orch = Some t \<Longrightarrow> at_agent t = a \<Longrightarrow> terminal (at_status t)"
  shows "orch_ok (unregister_agent now a orch)" "or_store (unregister_agent now a orch) = or_store orch"
proof -
  have none: "(i, b) \<in> set (or_active orch) \<Longrightarrow> b \<noteq> a" for i b
  proof
    assume "(i, b) \<in> set (or_active orch)" "b = a"
    then have "od_get (or_active orch) i = Some a" using ok by (simp add: orch_ok_def)
    then show False using idle orch_ok_active [OF ok] by blast
  qed
  have skip: "fold (\<lambda>(i, b) r. if b = a then cancel_task now i r else r) xs orch = orch" if "\<forall>(i, b)\<in>set xs. b \<noteq> a" for xs
    using that by (induction xs) auto
  then have "unregister_agent now a orch = orch\<lparr>or_agents := od_pop a (or_agents orch)\<rparr>"
    unfolding unregister_agent_def using skip [of "or_active orch"] none by fastforce
  moreover have "b \<noteq> a" if "od_get (or_active orch) i = Some b" for i b
    using none [of i b] that by (auto dest: map_of_SomeD)
  ultimately show "orch_ok (unregister_agent now a orch)" "or_store (unregister_agent now a orch) = or_store orch"
    using ok by (auto simp: orch_ok_def)
qed

end
