(* ===== verification/Task_Runner.thy ===== *)
theory Task_Runner
  imports Tasks
begin

text \<open>
  \<open>src/coreai/task_runner.py\<close> with the handlers of \<open>src/api/routes.py\<close> that feed it: one priority queue and
  one worker per agent, and the runs that workers start. Queues, workers and runs are objects that several
  tables refer to, so they have references; every stretch of code between two awaits is a function,
  and an event says which coroutine goes on.
\<close>

section \<open>State\<close>

text \<open>An entry of a queue is \<open>(-priority, sequence number, task)\<close>; sequence numbers differ, so entries are ordered by the first two.\<close>

type_synonym queue_item = "int \<times> nat \<times> nat"

fun put_item :: "queue_item \<Rightarrow> queue_item list \<Rightarrow> queue_item list" where
  "put_item x [] = [x]"
| "put_item (p, n, i) ((p', n', i') # q) =
     (if p < p' \<or> p = p' \<and> n < n' then (p, n, i) # (p', n', i') # q else (p', n', i') # put_item (p, n, i) q)"

text \<open>
  A worker waits for its queue, for a run (\<open>Busy\<close>), or, cancelled itself, for the run it has cancelled
  (\<open>Stopping\<close>). A run is created, waits for the agent, or is over.
\<close>

datatype worker_phase = Waiting | Busy nat | Stopping nat | Ended

record worker =
  wk_agent :: string
  wk_queue :: nat
  wk_phase :: worker_phase
  wk_cancelled :: bool

datatype run_phase = Created | Dispatched | Over

record task_run =
  tr_task :: nat
  tr_agent :: string
  tr_phase :: run_phase
  tr_cancelled :: bool

text \<open>A suspended \<open>drop_agent\<close>: the worker it waits for, and the agents \<open>shutdown\<close> drops after it.\<close>

record agent_drop =
  dr_agent :: string
  dr_worker :: nat
  dr_rest :: "string list"

record task_runner =
  tn_orch :: orchestrator
  tn_queues :: "(string, nat) odict"
  tn_workers :: "(string, nat) odict"
  tn_current :: "(string, nat \<times> nat) odict"
  tn_seq :: nat
  tn_queue_of :: "nat \<Rightarrow> queue_item list"
  tn_worker_of :: "nat \<Rightarrow> worker option"
  tn_run_of :: "nat \<Rightarrow> task_run option"
  tn_refs :: nat
  tn_drops :: "agent_drop list"

definition runner_new :: "nat \<Rightarrow> task_runner" where
  "runner_new m = \<lparr>tn_orch = orch_new m, tn_queues = [], tn_workers = [], tn_current = [], tn_seq = 0,
     tn_queue_of = (\<lambda>_. []), tn_worker_of = (\<lambda>_. None), tn_run_of = (\<lambda>_. None), tn_refs = 0, tn_drops = []\<rparr>"

definition on_orch :: "(orchestrator \<Rightarrow> orchestrator) \<Rightarrow> task_runner \<Rightarrow> task_runner" where
  "on_orch f s = s\<lparr>tn_orch := f (tn_orch s)\<rparr>"

definition set_worker :: "nat \<Rightarrow> (worker \<Rightarrow> worker) \<Rightarrow> task_runner \<Rightarrow> task_runner" where
  "set_worker w f s = s\<lparr>tn_worker_of := (tn_worker_of s)(w := map_option f (tn_worker_of s w))\<rparr>"

definition set_task_run :: "nat \<Rightarrow> (task_run \<Rightarrow> task_run) \<Rightarrow> task_runner \<Rightarrow> task_runner" where
  "set_task_run r f s = s\<lparr>tn_run_of := (tn_run_of s)(r := map_option f (tn_run_of s r))\<rparr>"

section \<open>Submitting\<close>

definition queue_for :: "string \<Rightarrow> task_runner \<Rightarrow> nat \<times> task_runner" where
  "queue_for a s =
     (case od_get (tn_queues s) a of
        Some q \<Rightarrow> (q, s)
      | None \<Rightarrow> (tn_refs s, s\<lparr>tn_queues := od_set a (tn_refs s) (tn_queues s), tn_refs := Suc (tn_refs s),
                              tn_queue_of := (tn_queue_of s)(tn_refs s := [])\<rparr>))"

definition worker_done :: "nat \<Rightarrow> task_runner \<Rightarrow> bool" where
  "worker_done w s = (case tn_worker_of s w of None \<Rightarrow> True | Some k \<Rightarrow> wk_phase k = Ended)"

definition ensure_worker :: "string \<Rightarrow> nat \<Rightarrow> task_runner \<Rightarrow> task_runner" where
  "ensure_worker a q s =
     (let fresh = s\<lparr>tn_workers := od_set a (tn_refs s) (tn_workers s), tn_refs := Suc (tn_refs s),
                    tn_worker_of := (tn_worker_of s)(tn_refs s \<mapsto>
                      \<lparr>wk_agent = a, wk_queue = q, wk_phase = Waiting, wk_cancelled = False\<rparr>)\<rparr>
      in case od_get (tn_workers s) a of
           None \<Rightarrow> fresh
         | Some w \<Rightarrow> if worker_done w s then fresh else s)"

text \<open>\<open>None\<close> is the \<open>KeyError\<close>.\<close>

definition submit_task :: "nat \<Rightarrow> task_runner \<Rightarrow> task_runner option" where
  "submit_task i s =
     (case get_task i (tn_orch s) of
        None \<Rightarrow> None
      | Some t \<Rightarrow>
          (case queue_for (at_agent t) s of
             (q, s) \<Rightarrow> Some (ensure_worker (at_agent t) q
               (s\<lparr>tn_queue_of := (tn_queue_of s)(q := put_item (- at_priority t, tn_seq s, i) (tn_queue_of s q)),
                  tn_seq := Suc (tn_seq s)\<rparr>))))"

text \<open>
  The handler of \<open>POST /tasks\<close>; \<open>known\<close> says whether the agent manager has the agent. The result is the id,
  \<open>None\<close> for an agent that is not found.
\<close>

definition create_task ::
  "time \<Rightarrow> bool \<Rightarrow> string \<Rightarrow> string \<Rightarrow> pyval \<Rightarrow> int \<Rightarrow> int \<Rightarrow> task_runner \<Rightarrow> nat option \<times> task_runner" where
  "create_task now known a objective ctx prio max_iterations s =
     (if \<not> known then (None, s)
      else let s = (if od_has (or_agents (tn_orch s)) a then s else on_orch (register_agent now a PNone) s)
      in case assign_task now a objective ctx prio (tn_orch s) of
           (Inl e, orch) \<Rightarrow> (None, s\<lparr>tn_orch := orch\<rparr>)
         | (Inr t, orch) \<Rightarrow>
             (let s = s\<lparr>tn_orch := orch\<lparr>or_store := store_update (t\<lparr>at_max_iterations := max_iterations\<rparr>) (or_store orch)\<rparr>\<rparr>
              in (Some (at_id t), case submit_task (at_id t) s of None \<Rightarrow> s | Some s' \<Rightarrow> s')))"

section \<open>Workers\<close>

text \<open>The next entry of a queue whose task is still pending; entries before it are dropped.\<close>

fun next_pending :: "orchestrator \<Rightarrow> queue_item list \<Rightarrow> nat option \<times> queue_item list" where
  "next_pending orch [] = (None, [])"
| "next_pending orch ((p, n, i) # q) =
     (case get_task i orch of
        None \<Rightarrow> next_pending orch q
      | Some t \<Rightarrow> if at_status t \<noteq> PENDING then next_pending orch q else (Some i, q))"

text \<open>The head of the loop of \<open>_work\<close>, up to its next await.\<close>

definition work_on :: "nat \<Rightarrow> worker \<Rightarrow> task_runner \<Rightarrow> task_runner" where
  "work_on w k s =
     (case next_pending (tn_orch s) (tn_queue_of s (wk_queue k)) of
        (None, q) \<Rightarrow> set_worker w (\<lambda>k. k\<lparr>wk_phase := Waiting\<rparr>) (s\<lparr>tn_queue_of := (tn_queue_of s)(wk_queue k := q)\<rparr>)
      | (Some i, q) \<Rightarrow>
          set_worker w (\<lambda>k. k\<lparr>wk_phase := Busy (tn_refs s)\<rparr>)
            (s\<lparr>tn_queue_of := (tn_queue_of s)(wk_queue k := q), tn_refs := Suc (tn_refs s),
               tn_run_of := (tn_run_of s)(tn_refs s \<mapsto>
                 \<lparr>tr_task = i, tr_agent = wk_agent k, tr_phase = Created, tr_cancelled = False\<rparr>),
               tn_current := od_set (wk_agent k) (i, tn_refs s) (tn_current s)\<rparr>))"

definition run_over :: "nat \<Rightarrow> task_runner \<Rightarrow> bool" where
  "run_over r s = (case tn_run_of s r of None \<Rightarrow> True | Some n \<Rightarrow> tr_phase n = Over)"

definition cancel_task_run :: "nat \<Rightarrow> task_runner \<Rightarrow> task_runner" where
  "cancel_task_run r s = (if run_over r s then s else set_task_run r (\<lambda>n. n\<lparr>tr_cancelled := True\<rparr>) s)"

definition worker_step :: "nat \<Rightarrow> task_runner \<Rightarrow> task_runner" where
  "worker_step w s =
     (case tn_worker_of s w of
        None \<Rightarrow> s
      | Some k \<Rightarrow>
          (case wk_phase k of
             Waiting \<Rightarrow> if wk_cancelled k then set_worker w (\<lambda>k. k\<lparr>wk_phase := Ended\<rparr>) s else work_on w k s
           | Busy r \<Rightarrow>
               (if wk_cancelled k then set_worker w (\<lambda>k. k\<lparr>wk_phase := Stopping r\<rparr>) (cancel_task_run r s)
                else if run_over r s then work_on w k (s\<lparr>tn_current := od_pop (wk_agent k) (tn_current s)\<rparr>)
                else s)
           | Stopping r \<Rightarrow>
               (if run_over r s
                then set_worker w (\<lambda>k. k\<lparr>wk_phase := Ended\<rparr>) (s\<lparr>tn_current := od_pop (wk_agent k) (tn_current s)\<rparr>)
                else s)
           | Ended \<Rightarrow> s))"

section \<open>Runs\<close>

definition status_is :: "(task_status \<Rightarrow> bool) \<Rightarrow> nat \<Rightarrow> orchestrator \<Rightarrow> bool" where
  "status_is P i orch = (case get_task i orch of None \<Rightarrow> False | Some t \<Rightarrow> P (at_status t))"

definition fail_open :: "time \<Rightarrow> nat \<Rightarrow> string \<Rightarrow> orchestrator \<Rightarrow> orchestrator" where
  "fail_open now i error orch =
     (if status_is (\<lambda>st. st = RUNNING) i orch \<or> status_is (\<lambda>st. st = PENDING) i orch
      then snd (fail_task now i error orch) else orch)"

text \<open>The first stretch of \<open>_run\<close>, up to the call of the agent; \<open>available\<close> says whether the manager still has
  the agent. An error of \<open>start_task\<close> or \<open>complete_task\<close> needs a task that is gone from the store or an active task of an agent
  without an entry; its text is cut to the type of the exception.\<close>

definition run_start :: "time \<Rightarrow> nat \<Rightarrow> bool \<Rightarrow> task_runner \<Rightarrow> task_runner" where
  "run_start now r available s =
     (case tn_run_of s r of
        None \<Rightarrow> s
      | Some n \<Rightarrow>
          (let end_run = set_task_run r (\<lambda>n. n\<lparr>tr_phase := Over\<rparr>)
           in if tr_phase n \<noteq> Created then s
              else if tr_cancelled n \<or> get_task (tr_task n) (tn_orch s) = None then end_run s
              else if \<not> available
              then end_run (on_orch (fail_open now (tr_task n)
                     (''RuntimeError: Agent '' @ tr_agent n @ '' is no longer available'')) s)
              else case start_task now (tr_task n) (tn_orch s) of
                  (None, orch) \<Rightarrow> set_task_run r (\<lambda>n. n\<lparr>tr_phase := Dispatched\<rparr>) (s\<lparr>tn_orch := orch\<rparr>)
                | (Some e, orch) \<Rightarrow> end_run (s\<lparr>tn_orch := fail_open now (tr_task n) ''ValueError'' orch\<rparr>)))"

definition run_progress :: "nat \<Rightarrow> int \<Rightarrow> task_runner \<Rightarrow> task_runner" where
  "run_progress r steps s =
     (case tn_run_of s r of
        None \<Rightarrow> s
      | Some n \<Rightarrow>
          (if tr_phase n \<noteq> Dispatched then s
           else on_orch (\<lambda>orch. orch\<lparr>or_store := (or_store orch)\<lparr>ts_tasks :=
                  od_map_at (tr_task n) (\<lambda>t. t\<lparr>at_iterations := steps\<rparr>) (ts_tasks (or_store orch))\<rparr>\<rparr>) s))"

text \<open>
  What the awaited call of the agent ends in: an answer or none, an exception or the timeout (with the text
  of the failure), or a cancellation, which only a run that was cancelled sees.
\<close>

datatype run_outcome = Answer "string option" | RunFailed string | Interrupted

definition run_end :: "time \<Rightarrow> nat \<Rightarrow> run_outcome \<Rightarrow> task_runner \<Rightarrow> task_runner" where
  "run_end now r result s =
     (case tn_run_of s r of
        None \<Rightarrow> s
      | Some n \<Rightarrow>
          (let i = tr_task n; end_run = set_task_run r (\<lambda>n. n\<lparr>tr_phase := Over\<rparr>)
           in if tr_phase n \<noteq> Dispatched then s
              else case result of
                  Interrupted \<Rightarrow> if tr_cancelled n then end_run s else s
                | RunFailed error \<Rightarrow> end_run (on_orch (fail_open now i error) s)
                | Answer None \<Rightarrow> end_run (on_orch (fail_open now i ''RuntimeError: Agent finished without a final result'') s)
                | Answer (Some text) \<Rightarrow>
                    (if \<not> status_is (\<lambda>st. st = RUNNING) i (tn_orch s) then end_run s
                     else case complete_task now i text (tn_orch s) of
                         (None, orch) \<Rightarrow> end_run (s\<lparr>tn_orch := orch\<rparr>)
                       | (Some e, orch) \<Rightarrow> end_run (s\<lparr>tn_orch := fail_open now i ''KeyError'' orch\<rparr>))))"

section \<open>Cancelling and dropping\<close>

definition cancel_open :: "time \<Rightarrow> nat \<Rightarrow> task_runner \<Rightarrow> bool \<times> task_runner" where
  "cancel_open now i s =
     (case get_task i (tn_orch s) of
        None \<Rightarrow> (False, s)
      | Some t \<Rightarrow>
          (if at_status t \<noteq> PENDING \<and> at_status t \<noteq> RUNNING then (False, s)
           else let s' = on_orch (cancel_task now i) s
                in (True, case od_get (tn_current s) (at_agent t) of
                            Some (j, r) \<Rightarrow> if j = i then cancel_task_run r s' else s'
                          | None \<Rightarrow> s')))"

definition cancel_all :: "time \<Rightarrow> nat list \<Rightarrow> task_runner \<Rightarrow> task_runner" where
  "cancel_all now is s = fold (\<lambda>i s. snd (cancel_open now i s)) is s"

text \<open>The second stretch of \<open>drop_agent\<close>.\<close>

definition drop_finish :: "time \<Rightarrow> string \<Rightarrow> task_runner \<Rightarrow> task_runner" where
  "drop_finish now a s = on_orch (unregister_agent now a) (s\<lparr>tn_queues := od_pop a (tn_queues s)\<rparr>)"

text \<open>\<open>drop_agent\<close> for each agent of a list, up to the first that has a worker to wait for.\<close>

fun drop_agents :: "time \<Rightarrow> string list \<Rightarrow> task_runner \<Rightarrow> task_runner" where
  "drop_agents now [] s = s"
| "drop_agents now (a # as) s =
     (let s1 = cancel_all now (map at_id (list_by_agent a (or_store (tn_orch s)))) s
      in case od_get (tn_workers s1) a of
           None \<Rightarrow> drop_agents now as (drop_finish now a s1)
         | Some w \<Rightarrow> (set_worker w (\<lambda>k. k\<lparr>wk_cancelled := True\<rparr>) s1)\<lparr>tn_workers := od_pop a (tn_workers s1),
                       tn_drops := \<lparr>dr_agent = a, dr_worker = w, dr_rest = as\<rparr> # tn_drops s1\<rparr>)"

definition drop_resume :: "time \<Rightarrow> nat \<Rightarrow> task_runner \<Rightarrow> task_runner" where
  "drop_resume now n s =
     (if n < length (tn_drops s) \<and> worker_done (dr_worker (tn_drops s ! n)) s
      then let d = tn_drops s ! n
           in drop_agents now (dr_rest d) (drop_finish now (dr_agent d)
                (s\<lparr>tn_drops := take n (tn_drops s) @ drop (Suc n) (tn_drops s)\<rparr>))
      else s)"

definition shutdown :: "time \<Rightarrow> task_runner \<Rightarrow> task_runner" where
  "shutdown now s = drop_agents now (od_keys (tn_workers s)) s"

section \<open>Events\<close>

datatype runner_event =
    CreateTask time bool string string pyval int int
  | WorkerStep nat
  | RunStart time nat bool
  | RunProgress nat int
  | RunEnd time nat run_outcome
  | CancelTask time nat
  | DropAgent time string
  | DropResume time nat
  | Shutdown time

fun runner_step :: "runner_event \<Rightarrow> task_runner \<Rightarrow> task_runner" where
  "runner_step (CreateTask now known a obj ctx prio its) s = snd (create_task now known a obj ctx prio its s)"
| "runner_step (WorkerStep w) s = worker_step w s"
| "runner_step (RunStart now r available) s = run_start now r available s"
| "runner_step (RunProgress r n) s = run_progress r n s"
| "runner_step (RunEnd now r result) s = run_end now r result s"
| "runner_step (CancelTask now i) s = snd (cancel_open now i s)"
| "runner_step (DropAgent now a) s = drop_agents now [a] s"
| "runner_step (DropResume now n) s = drop_resume now n s"
| "runner_step (Shutdown now) s = shutdown now s"

definition run_events :: "runner_event list \<Rightarrow> task_runner \<Rightarrow> task_runner" where
  "run_events es s = fold runner_step es s"

text \<open>No task is created for an agent that is being dropped.\<close>

definition dropping :: "string \<Rightarrow> task_runner \<Rightarrow> bool" where
  "dropping a s = list_ex (\<lambda>d. dr_agent d = a) (tn_drops s)"

fun calm :: "runner_event \<Rightarrow> task_runner \<Rightarrow> bool" where
  "calm (CreateTask now known a obj ctx prio its) s = (\<not> dropping a s)"
| "calm e s = True"

fun calm_run :: "runner_event list \<Rightarrow> task_runner \<Rightarrow> bool" where
  "calm_run [] s = True"
| "calm_run (e # es) s = (calm e s \<and> calm_run es (runner_step e s))"

end
