(* ===== verification/Task_Invariant.thy ===== *)
theory Task_Invariant
  imports Task_Runner
begin

text \<open>
  What holds of the task runner between any two of its events: how workers, runs, queues and the tables of
  \<open>src/coreai/task_runner.py\<close> fit together, and how they fit the tasks of the orchestrator.
\<close>

section \<open>The invariant\<close>

text \<open>
  Workers, runs and the tables that refer to them. A worker that has not ended is the one in the table of its
  agent, or it has been cancelled and a drop waits for it; a busy worker's run is the current one of its
  agent, and a run that is not over has a worker that waits for it.
\<close>

definition live_worker :: "task_runner \<Rightarrow> nat \<Rightarrow> worker \<Rightarrow> bool" where
  "live_worker s w k \<longleftrightarrow> tn_worker_of s w = Some k \<and> wk_phase k \<noteq> Ended"

definition live_run :: "task_runner \<Rightarrow> nat \<Rightarrow> task_run \<Rightarrow> bool" where
  "live_run s r n \<longleftrightarrow> tn_run_of s r = Some n \<and> tr_phase n \<noteq> Over"

definition waits_for :: "worker \<Rightarrow> nat \<Rightarrow> bool" where
  "waits_for k r \<longleftrightarrow> wk_phase k = Busy r \<or> wk_phase k = Stopping r"

definition refs_ok :: "task_runner \<Rightarrow> bool" where
  "refs_ok s \<longleftrightarrow> (\<forall>w k. tn_worker_of s w = Some k \<longrightarrow> w < tn_refs s)
     \<and> (\<forall>r n. tn_run_of s r = Some n \<longrightarrow> r < tn_refs s)
     \<and> (\<forall>a q. od_get (tn_queues s) a = Some q \<longrightarrow> q < tn_refs s)
     \<and> (\<forall>a i r. od_get (tn_current s) a = Some (i, r) \<longrightarrow> r < tn_refs s)
     \<and> (\<forall>a b q. od_get (tn_queues s) a = Some q \<longrightarrow> od_get (tn_queues s) b = Some q \<longrightarrow> a = b)"

definition workers_ok :: "task_runner \<Rightarrow> bool" where
  "workers_ok s \<longleftrightarrow>
     (\<forall>a w. od_get (tn_workers s) a = Some w \<longrightarrow>
        (\<exists>k. live_worker s w k \<and> wk_agent k = a \<and> \<not> wk_cancelled k \<and> od_get (tn_queues s) a = Some (wk_queue k)))
     \<and> (\<forall>w k. live_worker s w k \<longrightarrow> od_get (tn_workers s) (wk_agent k) \<noteq> Some w \<longrightarrow>
        wk_cancelled k \<and> (\<exists>d\<in>set (tn_drops s). dr_agent d = wk_agent k \<and> dr_worker d = w))
     \<and> (\<forall>w k r. tn_worker_of s w = Some k \<longrightarrow> wk_phase k = Stopping r \<longrightarrow> wk_cancelled k)
     \<and> distinct (map dr_agent (tn_drops s))
     \<and> (\<forall>d\<in>set (tn_drops s). od_get (tn_workers s) (dr_agent d) = None)"

definition runs_ok :: "task_runner \<Rightarrow> bool" where
  "runs_ok s \<longleftrightarrow>
     (\<forall>w k r. tn_worker_of s w = Some k \<longrightarrow> waits_for k r \<longrightarrow>
        (\<exists>n. tn_run_of s r = Some n \<and> tr_agent n = wk_agent k \<and> od_get (tn_current s) (wk_agent k) = Some (tr_task n, r)))
     \<and> (\<forall>r n. live_run s r n \<longrightarrow> (\<exists>w k. tn_worker_of s w = Some k \<and> wk_agent k = tr_agent n \<and> waits_for k r))
     \<and> (\<forall>a i r n. od_get (tn_current s) a = Some (i, r) \<longrightarrow> tn_run_of s r = Some n \<longrightarrow> tr_task n = i)"

text \<open>
  Tasks: an uncancelled run that is not over has its task, pending before the dispatch and running after it, and
  a cancelled one has none that is unfinished; every running task is being run, and every pending one is
  about to be run or in the queue of a worker.
\<close>

definition open_task :: "task_runner \<Rightarrow> nat \<Rightarrow> agent_task \<Rightarrow> bool" where
  "open_task s i t \<longleftrightarrow> get_task i (tn_orch s) = Some t \<and> \<not> terminal (at_status t)"

definition phase_status :: "run_phase \<Rightarrow> task_status" where
  "phase_status p = (if p = Created then PENDING else RUNNING)"

definition queued :: "task_runner \<Rightarrow> string \<Rightarrow> nat \<Rightarrow> bool" where
  "queued s a i \<longleftrightarrow> od_get (tn_workers s) a \<noteq> None \<and>
     (\<exists>q p m. od_get (tn_queues s) a = Some q \<and> (p, m, i) \<in> set (tn_queue_of s q))"

definition tasks_ok :: "task_runner \<Rightarrow> bool" where
  "tasks_ok s \<longleftrightarrow> orch_ok (tn_orch s)
     \<and> (\<forall>d\<in>set (tn_drops s). \<forall>i t. open_task s i t \<longrightarrow> at_agent t \<noteq> dr_agent d)
     \<and> (\<forall>r n. tn_run_of s r = Some n \<longrightarrow> tr_task n < ts_next (or_store (tn_orch s)))
     \<and> (\<forall>a q p m i. od_get (tn_queues s) a = Some q \<longrightarrow> (p, m, i) \<in> set (tn_queue_of s q) \<longrightarrow>
          i < ts_next (or_store (tn_orch s)) \<and> (\<forall>t. get_task i (tn_orch s) = Some t \<longrightarrow> at_agent t = a))
     \<and> (\<forall>r n. live_run s r n \<longrightarrow> \<not> tr_cancelled n \<longrightarrow>
          (\<exists>t. get_task (tr_task n) (tn_orch s) = Some t \<and> at_agent t = tr_agent n \<and> at_status t = phase_status (tr_phase n)))
     \<and> (\<forall>r n t. live_run s r n \<longrightarrow> tr_cancelled n \<longrightarrow> \<not> open_task s (tr_task n) t)
     \<and> (\<forall>i t. get_task i (tn_orch s) = Some t \<longrightarrow> at_status t = RUNNING \<longrightarrow>
          (\<exists>r n. live_run s r n \<and> tr_task n = i \<and> tr_phase n = Dispatched \<and> \<not> tr_cancelled n))
     \<and> (\<forall>i t. get_task i (tn_orch s) = Some t \<longrightarrow> at_status t = PENDING \<longrightarrow>
          (\<exists>r n. live_run s r n \<and> tr_task n = i \<and> tr_phase n = Created \<and> \<not> tr_cancelled n)
          \<or> queued s (at_agent t) i)"

definition runner_ok :: "task_runner \<Rightarrow> bool" where
  "runner_ok s \<longleftrightarrow> refs_ok s \<and> workers_ok s \<and> runs_ok s \<and> tasks_ok s"

lemma workers_okD:
  assumes "workers_ok s"
  shows workers_table: "od_get (tn_workers s) a = Some w \<Longrightarrow>
      \<exists>k. live_worker s w k \<and> wk_agent k = a \<and> \<not> wk_cancelled k \<and> od_get (tn_queues s) a = Some (wk_queue k)"
    and workers_stray: "live_worker s w k \<Longrightarrow> od_get (tn_workers s) (wk_agent k) \<noteq> Some w \<Longrightarrow>
      wk_cancelled k \<and> (\<exists>d\<in>set (tn_drops s). dr_agent d = wk_agent k \<and> dr_worker d = w)"
    and workers_stopping: "tn_worker_of s w = Some k \<Longrightarrow> wk_phase k = Stopping r \<Longrightarrow> wk_cancelled k"
    and drops_distinct: "distinct (map dr_agent (tn_drops s))"
    and drops_gone: "d \<in> set (tn_drops s) \<Longrightarrow> od_get (tn_workers s) (dr_agent d) = None"
  using assms unfolding workers_ok_def by blast+

lemma workers_okI:
  assumes "\<And>a w. od_get (tn_workers s) a = Some w \<Longrightarrow>
      \<exists>k. live_worker s w k \<and> wk_agent k = a \<and> \<not> wk_cancelled k \<and> od_get (tn_queues s) a = Some (wk_queue k)"
    and "\<And>w k. live_worker s w k \<Longrightarrow> od_get (tn_workers s) (wk_agent k) \<noteq> Some w \<Longrightarrow>
      wk_cancelled k \<and> (\<exists>d\<in>set (tn_drops s). dr_agent d = wk_agent k \<and> dr_worker d = w)"
    and "\<And>w k r. tn_worker_of s w = Some k \<Longrightarrow> wk_phase k = Stopping r \<Longrightarrow> wk_cancelled k"
    and "distinct (map dr_agent (tn_drops s))"
    and "\<And>d. d \<in> set (tn_drops s) \<Longrightarrow> od_get (tn_workers s) (dr_agent d) = None"
  shows "workers_ok s"
  unfolding workers_ok_def using assms by meson

text \<open>An agent has one live worker, and so one live run.\<close>

lemma live_worker_unique:
  assumes ok: "workers_ok s" and k: "live_worker s w k" "live_worker s w' k'" "wk_agent k = wk_agent k'"
  shows "w = w'"
proof (rule ccontr)
  assume ne: "w \<noteq> w'"
  have stray: "\<exists>d\<in>set (tn_drops s). dr_agent d = wk_agent k \<and> dr_worker d = v" if
    "od_get (tn_workers s) (wk_agent k) \<noteq> Some v" "live_worker s v j" "wk_agent j = wk_agent k" for v j
    using workers_stray [OF ok that(2)] that(1,3) by auto
  note stray1 = stray [OF _ k(1) refl] and stray2 = stray [OF _ k(2) k(3) [symmetric]]
  from ne have "od_get (tn_workers s) (wk_agent k) \<noteq> Some w \<or> od_get (tn_workers s) (wk_agent k) \<noteq> Some w'" by auto
  then obtain d where d: "d \<in> set (tn_drops s)" "dr_agent d = wk_agent k"
    using stray1 stray2 by blast
  from drops_gone [OF ok d(1)] d(2) have none: "od_get (tn_workers s) (wk_agent k) = None" by simp
  obtain d1 d2 where d12: "d1 \<in> set (tn_drops s)" "dr_agent d1 = wk_agent k" "dr_worker d1 = w"
    "d2 \<in> set (tn_drops s)" "dr_agent d2 = wk_agent k" "dr_worker d2 = w'"
    using stray1 stray2 none by auto
  have "inj_on dr_agent (set (tn_drops s))" using drops_distinct [OF ok] by (simp add: distinct_map)
  then have "d1 = d2" by (rule inj_onD) (simp_all add: d12)
  with d12 ne show False by simp
qed

lemma waits_live: "tn_worker_of s w = Some k \<Longrightarrow> waits_for k r \<Longrightarrow> live_worker s w k"
  by (auto simp: waits_for_def live_worker_def)

lemma live_run_current:
  assumes "runs_ok s" "live_run s r n"
  shows "od_get (tn_current s) (tr_agent n) = Some (tr_task n, r)"
proof -
  obtain w k where k: "tn_worker_of s w = Some k" "wk_agent k = tr_agent n" "waits_for k r"
    using assms unfolding runs_ok_def by blast
  then obtain m where "tn_run_of s r = Some m" "od_get (tn_current s) (wk_agent k) = Some (tr_task m, r)"
    using assms(1) unfolding runs_ok_def by blast
  then show ?thesis using assms(2) k(2) by (simp add: live_run_def)
qed

lemma live_run_unique:
  assumes "runs_ok s" "live_run s r n" "live_run s r' n'" "tr_agent n = tr_agent n'"
  shows "r = r'"
  using live_run_current [OF assms(1,2)] live_run_current [OF assms(1,3)] assms(4) by simp

section \<open>Frames\<close>

lemma orch_id [simp]: "(s :: task_runner)\<lparr>tn_orch := tn_orch s\<rparr> = s"
  by (cases s) simp

lemma live_run_unfold: "live_run s r n \<longleftrightarrow> tn_run_of s r = Some n \<and> tr_phase n \<noteq> Over"
  by (simp add: live_run_def)

lemma frame_orch [simp]:
  "refs_ok (s\<lparr>tn_orch := orch\<rparr>) = refs_ok s" "workers_ok (s\<lparr>tn_orch := orch\<rparr>) = workers_ok s"
  "runs_ok (s\<lparr>tn_orch := orch\<rparr>) = runs_ok s" "refs_ok (on_orch f s) = refs_ok s"
  "workers_ok (on_orch f s) = workers_ok s" "runs_ok (on_orch f s) = runs_ok s"
  by (simp_all add: refs_ok_def workers_ok_def runs_ok_def on_orch_def live_worker_def live_run_def)

lemma frame_queue [simp]:
  "refs_ok (s\<lparr>tn_queue_of := f\<rparr>) = refs_ok s" "workers_ok (s\<lparr>tn_queue_of := f\<rparr>) = workers_ok s"
  "runs_ok (s\<lparr>tn_queue_of := f\<rparr>) = runs_ok s" "refs_ok (s\<lparr>tn_seq := n\<rparr>) = refs_ok s"
  "workers_ok (s\<lparr>tn_current := c\<rparr>) = workers_ok s" "workers_ok (s\<lparr>tn_refs := n\<rparr>) = workers_ok s"
  "workers_ok (s\<lparr>tn_run_of := g\<rparr>) = workers_ok s"
  "workers_ok (s\<lparr>tn_seq := n\<rparr>) = workers_ok s" "runs_ok (s\<lparr>tn_seq := n\<rparr>) = runs_ok s"
  by (simp_all add: refs_ok_def workers_ok_def runs_ok_def live_worker_def live_run_def)

lemma frame_run [simp]:
  "refs_ok (set_task_run r f s) = refs_ok s" "workers_ok (set_task_run r f s) = workers_ok s"
  by (auto simp: refs_ok_def workers_ok_def set_task_run_def live_worker_def split: if_splits)

lemma runs_ok_set:
  assumes ok: "runs_ok s" and f: "\<And>n. tr_agent (f n) = tr_agent n \<and> tr_task (f n) = tr_task n"
    "\<And>n. tn_run_of s r = Some n \<Longrightarrow> tr_phase n = Over \<Longrightarrow> tr_phase (f n) = Over"
  shows "runs_ok (set_task_run r f s)"
proof -
  have run: "tn_run_of (set_task_run r f s) r' = (if r' = r then map_option f (tn_run_of s r) else tn_run_of s r')" for r'
    by (simp add: set_task_run_def)
  have same: "tn_worker_of (set_task_run r f s) = tn_worker_of s" "tn_current (set_task_run r f s) = tn_current s"
    by (simp_all add: set_task_run_def)
  have "\<exists>n. tn_run_of (set_task_run r f s) r' = Some n \<and> tr_agent n = wk_agent k \<and>
      od_get (tn_current s) (wk_agent k) = Some (tr_task n, r')" if wk: "tn_worker_of s w = Some k" "waits_for k r'" for w k r'
  proof -
    obtain n where "tn_run_of s r' = Some n" "tr_agent n = wk_agent k" "od_get (tn_current s) (wk_agent k) = Some (tr_task n, r')"
      using ok wk unfolding runs_ok_def by blast
    then show ?thesis using f(1) unfolding run by auto
  qed
  moreover have "\<exists>w k. tn_worker_of s w = Some k \<and> wk_agent k = tr_agent n \<and> waits_for k r'"
    if "live_run (set_task_run r f s) r' n" for r' n
  proof -
    have "\<exists>m. live_run s r' m \<and> tr_agent m = tr_agent n"
      using that f unfolding live_run_def run by (auto split: if_splits)
    then show ?thesis using ok unfolding runs_ok_def by metis
  qed
  moreover have "tr_task n = i" if cur: "od_get (tn_current s) a = Some (i, r')" "tn_run_of (set_task_run r f s) r' = Some n" for a i r' n
  proof -
    obtain m where "tn_run_of s r' = Some m" "tr_task n = tr_task m"
      using cur(2) f(1) unfolding run by (auto split: if_splits)
    then show ?thesis using ok cur(1) unfolding runs_ok_def by metis
  qed
  ultimately show ?thesis unfolding runs_ok_def same by blast
qed

section \<open>A task that ends\<close>

lemma tasks_okD:
  assumes "tasks_ok s"
  shows tasks_orch: "orch_ok (tn_orch s)"
    and tasks_dropped: "d \<in> set (tn_drops s) \<Longrightarrow> open_task s i t \<Longrightarrow> at_agent t \<noteq> dr_agent d"
    and tasks_run_ids: "tn_run_of s r = Some n \<Longrightarrow> tr_task n < ts_next (or_store (tn_orch s))"
    and tasks_queue: "od_get (tn_queues s) a = Some q \<Longrightarrow> (p, m, i) \<in> set (tn_queue_of s q) \<Longrightarrow>
      i < ts_next (or_store (tn_orch s)) \<and> (\<forall>t. get_task i (tn_orch s) = Some t \<longrightarrow> at_agent t = a)"
    and tasks_live: "live_run s r n \<Longrightarrow> \<not> tr_cancelled n \<Longrightarrow>
      \<exists>t. get_task (tr_task n) (tn_orch s) = Some t \<and> at_agent t = tr_agent n \<and> at_status t = phase_status (tr_phase n)"
    and tasks_cancelled: "live_run s r n \<Longrightarrow> tr_cancelled n \<Longrightarrow> \<not> open_task s (tr_task n) t"
    and tasks_running: "get_task i (tn_orch s) = Some t \<Longrightarrow> at_status t = RUNNING \<Longrightarrow>
      \<exists>r n. live_run s r n \<and> tr_task n = i \<and> tr_phase n = Dispatched \<and> \<not> tr_cancelled n"
    and tasks_pending: "get_task i (tn_orch s) = Some t \<Longrightarrow> at_status t = PENDING \<Longrightarrow>
      (\<exists>r n. live_run s r n \<and> tr_task n = i \<and> tr_phase n = Created \<and> \<not> tr_cancelled n) \<or> queued s (at_agent t) i"
  using assms unfolding tasks_ok_def by blast+

lemma tasks_okI:
  assumes "orch_ok (tn_orch s)"
    and "\<And>d i t. d \<in> set (tn_drops s) \<Longrightarrow> open_task s i t \<Longrightarrow> at_agent t \<noteq> dr_agent d"
    and "\<And>r n. tn_run_of s r = Some n \<Longrightarrow> tr_task n < ts_next (or_store (tn_orch s))"
    and "\<And>a q p m i. od_get (tn_queues s) a = Some q \<Longrightarrow> (p, m, i) \<in> set (tn_queue_of s q) \<Longrightarrow>
      i < ts_next (or_store (tn_orch s)) \<and> (\<forall>t. get_task i (tn_orch s) = Some t \<longrightarrow> at_agent t = a)"
    and "\<And>r n. live_run s r n \<Longrightarrow> \<not> tr_cancelled n \<Longrightarrow>
      \<exists>t. get_task (tr_task n) (tn_orch s) = Some t \<and> at_agent t = tr_agent n \<and> at_status t = phase_status (tr_phase n)"
    and "\<And>r n t. live_run s r n \<Longrightarrow> tr_cancelled n \<Longrightarrow> \<not> open_task s (tr_task n) t"
    and "\<And>i t. get_task i (tn_orch s) = Some t \<Longrightarrow> at_status t = RUNNING \<Longrightarrow>
      \<exists>r n. live_run s r n \<and> tr_task n = i \<and> tr_phase n = Dispatched \<and> \<not> tr_cancelled n"
    and "\<And>i t. get_task i (tn_orch s) = Some t \<Longrightarrow> at_status t = PENDING \<Longrightarrow>
      (\<exists>r n. live_run s r n \<and> tr_task n = i \<and> tr_phase n = Created \<and> \<not> tr_cancelled n) \<or> queued s (at_agent t) i"
  shows "tasks_ok s"
  unfolding tasks_ok_def using assms by meson

lemma run_status_open: "\<not> terminal (phase_status p)"
  by (simp add: phase_status_def)

text \<open>
  The orchestrator closes task \<open>i\<close> and leaves the others alone, and the runs of \<open>i\<close>, and only they, are
  cancelled or over.
\<close>

lemma tasks_close:
  assumes ok: "tasks_ok s"
    and cl: "closes i (tn_orch s) (tn_orch s')"
    and same: "tn_queues s' = tn_queues s" "tn_queue_of s' = tn_queue_of s" "tn_workers s' = tn_workers s" "tn_drops s' = tn_drops s"
    and runs: "\<And>r n'. tn_run_of s' r = Some n' \<Longrightarrow> \<exists>n. tn_run_of s r = Some n \<and> tr_task n' = tr_task n"
      "\<And>r n'. live_run s' r n' \<Longrightarrow> tr_task n' \<noteq> i \<Longrightarrow> live_run s r n'"
      "\<And>r n. live_run s r n \<Longrightarrow> tr_task n \<noteq> i \<Longrightarrow> live_run s' r n"
      "\<And>r n. live_run s' r n \<Longrightarrow> tr_task n = i \<Longrightarrow> tr_cancelled n"
  shows "tasks_ok s'"
proof -
  have orch: "orch_ok (tn_orch s')" "others_kept i (tn_orch s) (tn_orch s')"
    "ts_next (or_store (tn_orch s')) = ts_next (or_store (tn_orch s))"
    using cl by (simp_all add: closes_def)
  have fin: "terminal (at_status t)" if "get_task i (tn_orch s') = Some t" for t
    using cl that unfolding closes_def by blast
  have closed: "\<not> open_task s' i t" for t using fin by (auto simp: open_task_def)
  have agent: "\<exists>t. get_task i (tn_orch s) = Some t \<and> at_agent t' = at_agent t" if "get_task i (tn_orch s') = Some t'" for t'
    using cl that unfolding closes_def by blast
  note others = others_keptD [OF orch(2)]
  have opens: "open_task s j t" if "open_task s' j t" for j t
    using that closed others(2) [of j t] by (cases "j = i") (auto simp: open_task_def)
  have opens': "open_task s' j t" if "open_task s j t" "j \<noteq> i" for j t
    using that others(1) [of j t] by (auto simp: open_task_def)
  have "at_agent t \<noteq> dr_agent d" if "d \<in> set (tn_drops s')" "open_task s' j t" for d j t
    using tasks_dropped [OF ok _ opens [OF that(2)]] that(1) same(4) by simp
  moreover have "tr_task n < ts_next (or_store (tn_orch s'))" if "tn_run_of s' r = Some n" for r n
    using runs(1) [OF that] tasks_run_ids [OF ok] orch(3) by auto
  moreover have "j < ts_next (or_store (tn_orch s')) \<and> (\<forall>t. get_task j (tn_orch s') = Some t \<longrightarrow> at_agent t = a)"
    if "od_get (tn_queues s') a = Some q" "(p, m, j) \<in> set (tn_queue_of s' q)" for a q p m j
  proof -
    have q: "j < ts_next (or_store (tn_orch s))" "\<And>t. get_task j (tn_orch s) = Some t \<Longrightarrow> at_agent t = a"
      using tasks_queue [OF ok, of a q p m j] that same by auto
    have "at_agent t = a" if "get_task j (tn_orch s') = Some t" for t
    proof (cases "j = i")
      case True
      with agent [of t] that obtain u where "get_task j (tn_orch s) = Some u" "at_agent t = at_agent u" by auto
      with q(2) [of u] show ?thesis by simp
    next
      case False
      from q(2) [OF others(2) [OF False that]] show ?thesis .
    qed
    then show ?thesis using q(1) orch(3) by simp
  qed
  moreover have "\<exists>t. get_task (tr_task n) (tn_orch s') = Some t \<and> at_agent t = tr_agent n \<and> at_status t = phase_status (tr_phase n)"
    if n: "live_run s' r n" "\<not> tr_cancelled n" for r n
  proof -
    have ne: "tr_task n \<noteq> i" using runs(4) n by blast
    obtain t where t: "get_task (tr_task n) (tn_orch s) = Some t" "at_agent t = tr_agent n" "at_status t = phase_status (tr_phase n)"
      using tasks_live [OF ok runs(2) [OF n(1) ne] n(2)] by blast
    then show ?thesis using others(1) [OF ne t(1)] run_status_open by simp
  qed
  moreover have "\<not> open_task s' (tr_task n) t" if n: "live_run s' r n" "tr_cancelled n" for r n t
    using tasks_cancelled [OF ok runs(2) [OF n(1)] n(2), of t] opens closed by blast
  moreover have "\<exists>r n. live_run s' r n \<and> tr_task n = j \<and> tr_phase n = Dispatched \<and> \<not> tr_cancelled n"
    if t: "get_task j (tn_orch s') = Some t" "at_status t = RUNNING" for j t
  proof -
    have ne: "j \<noteq> i" using fin [of t] t by auto
    from tasks_running [OF ok others(2) [OF ne t(1)] t(2)] runs(3) ne show ?thesis by blast
  qed
  moreover have "(\<exists>r n. live_run s' r n \<and> tr_task n = j \<and> tr_phase n = Created \<and> \<not> tr_cancelled n) \<or> queued s' (at_agent t) j"
    if t: "get_task j (tn_orch s') = Some t" "at_status t = PENDING" for j t
  proof -
    have ne: "j \<noteq> i" using fin [of t] t by auto
    have "queued s' a j = queued s a j" for a using same by (simp add: queued_def)
    with tasks_pending [OF ok others(2) [OF ne t(1)] t(2)] runs(3) ne show ?thesis by blast
  qed
  ultimately show ?thesis using orch(1) unfolding tasks_ok_def by blast
qed

text \<open>A cancelled run may end, and runs may take notice of a cancellation.\<close>

lemma tasks_fewer_runs:
  assumes ok: "tasks_ok s"
    and same: "tn_orch s' = tn_orch s" "tn_queues s' = tn_queues s" "tn_queue_of s' = tn_queue_of s"
      "tn_workers s' = tn_workers s" "tn_drops s' = tn_drops s"
    and runs: "\<And>r n'. tn_run_of s' r = Some n' \<Longrightarrow> \<exists>n. tn_run_of s r = Some n \<and> tr_task n' = tr_task n"
      "\<And>r n. \<not> tr_cancelled n \<Longrightarrow> live_run s' r n \<longleftrightarrow> live_run s r n"
      "\<And>r n. tr_cancelled n \<Longrightarrow> live_run s' r n \<Longrightarrow> live_run s r n"
  shows "tasks_ok s'"
proof -
  have op: "open_task s' = open_task s" "queued s' = queued s"
    by (simp_all add: fun_eq_iff open_task_def queued_def same)
  have ids: "tr_task n < ts_next (or_store (tn_orch s))" if "tn_run_of s' r = Some n" for r n
    using runs(1) [OF that] tasks_run_ids [OF ok] by auto
  have "\<exists>t. get_task (tr_task n) (tn_orch s) = Some t \<and> at_agent t = tr_agent n \<and> at_status t = phase_status (tr_phase n)"
    if "live_run s' r n" "\<not> tr_cancelled n" for r n
    using tasks_live [OF ok _ that(2), of r] runs(2) [OF that(2), of r] that(1) by blast
  moreover have "\<not> open_task s (tr_task n) t" if "live_run s' r n" "tr_cancelled n" for r n t
    using tasks_cancelled [OF ok runs(3) [OF that(2,1)] that(2)] .
  moreover have "\<exists>r n. live_run s' r n \<and> tr_task n = i \<and> tr_phase n = Dispatched \<and> \<not> tr_cancelled n"
    if "get_task i (tn_orch s) = Some t" "at_status t = RUNNING" for i t
    using tasks_running [OF ok that] runs(2) by blast
  moreover have "(\<exists>r n. live_run s' r n \<and> tr_task n = i \<and> tr_phase n = Created \<and> \<not> tr_cancelled n) \<or> queued s (at_agent t) i"
    if "get_task i (tn_orch s) = Some t" "at_status t = PENDING" for i t
    using tasks_pending [OF ok that] runs(2) by blast
  ultimately show ?thesis
    using ids tasks_orch [OF ok] tasks_dropped [OF ok] tasks_queue [OF ok] unfolding tasks_ok_def op same by blast
qed

lemma cancelled_run_over:
  assumes ok: "runner_ok s" and n: "live_run s r n" "tr_cancelled n"
  shows "runner_ok (set_task_run r (\<lambda>n. n\<lparr>tr_phase := Over\<rparr>) s)"
proof -
  let ?s = "set_task_run r (\<lambda>n. n\<lparr>tr_phase := Over\<rparr>) s"
  have run: "tn_run_of ?s = (tn_run_of s)(r \<mapsto> n\<lparr>tr_phase := Over\<rparr>)"
    using n by (simp add: set_task_run_def live_run_def)
  have "tasks_ok ?s"
    by (rule tasks_fewer_runs [of s])
      (use ok n in \<open>auto simp: runner_ok_def set_task_run_def run live_run_def split: if_splits\<close>)
  then show ?thesis using ok by (simp add: runner_ok_def runs_ok_set)
qed

lemma run_closes:
  assumes ok: "runner_ok s" and n: "live_run s r n" "\<not> tr_cancelled n"
    and cl: "closes (tr_task n) (tn_orch s) orch'"
  shows "runner_ok (set_task_run r (\<lambda>n. n\<lparr>tr_phase := Over\<rparr>) (s\<lparr>tn_orch := orch'\<rparr>))"
proof -
  let ?s = "set_task_run r (\<lambda>n. n\<lparr>tr_phase := Over\<rparr>) (s\<lparr>tn_orch := orch'\<rparr>)"
  have oks: "refs_ok s" "workers_ok s" "runs_ok s" "tasks_ok s" using ok by (simp_all add: runner_ok_def)
  have run: "tn_run_of ?s = (tn_run_of s)(r \<mapsto> n\<lparr>tr_phase := Over\<rparr>)"
    using n by (simp add: set_task_run_def live_run_def)
  have live: "live_run ?s r' n' \<longleftrightarrow> r' \<noteq> r \<and> live_run s r' n'" for r' n'
    by (auto simp: live_run_def run)
  have sole: "tr_cancelled n'" if "live_run s r' n'" "r' \<noteq> r" "tr_task n' = tr_task n" for r' n'
  proof (rule ccontr)
    assume "\<not> tr_cancelled n'"
    with tasks_live [OF oks(4) that(1)] tasks_live [OF oks(4) n] that(3) have "tr_agent n' = tr_agent n" by auto
    with live_run_unique [OF oks(3) that(1) n(1)] that(2) show False by simp
  qed
  have "tasks_ok ?s"
  proof (rule tasks_close [OF oks(4), of "tr_task n"])
    show "closes (tr_task n) (tn_orch s) (tn_orch ?s)" using cl by (simp add: set_task_run_def)
    show "\<exists>m. tn_run_of s r' = Some m \<and> tr_task n' = tr_task m" if "tn_run_of ?s r' = Some n'" for r' n'
      using that n unfolding run by (auto simp: live_run_def split: if_splits)
    show "live_run ?s r' n'" if "live_run s r' n'" "tr_task n' \<noteq> tr_task n" for r' n'
      unfolding live using that n by (auto simp: live_run_def)
    show "tr_cancelled n'" if "live_run ?s r' n'" "tr_task n' = tr_task n" for r' n'
      using that unfolding live by (blast intro: sole)
  qed (simp_all add: live, simp_all add: set_task_run_def)
  then show ?thesis using oks by (simp add: runner_ok_def runs_ok_set)
qed

end
