(* ===== verification/Task_Steps.thy ===== *)
theory Task_Steps
  imports Task_Invariant
begin

text \<open>Every event of the task runner keeps its invariant, as long as no task is created for an agent being dropped.\<close>

section \<open>Each event keeps the invariant\<close>

lemma run_dispatched:
  assumes ok: "runner_ok s" and n: "live_run s r n" "\<not> tr_cancelled n" "tr_phase n = Created"
    and st: "start_task now (tr_task n) (tn_orch s) = (err, orch')"
  shows "runner_ok (set_task_run r (\<lambda>n. n\<lparr>tr_phase := Dispatched\<rparr>) (s\<lparr>tn_orch := orch'\<rparr>))" and "err = None"
proof -
  let ?s = "set_task_run r (\<lambda>n. n\<lparr>tr_phase := Dispatched\<rparr>) (s\<lparr>tn_orch := orch'\<rparr>)"
  define i where "i = tr_task n"
  have oks: "refs_ok s" "workers_ok s" "runs_ok s" "tasks_ok s" using ok by (simp_all add: runner_ok_def)
  have "phase_status (tr_phase n) = PENDING" by (simp add: n phase_status_def)
  with tasks_live [OF oks(4) n(1,2)] obtain u where
    u: "get_task i (tn_orch s) = Some u" "at_agent u = tr_agent n" "at_status u = PENDING" by (auto simp: i_def)
  have u_open: "\<not> terminal (at_status u)" by (simp add: u)
  note start = start_task_open [OF tasks_orch [OF oks(4)] u(1) u_open st [folded i_def]]
  show "err = None" by (rule start(1))
  note others = others_keptD [OF start(3)]
  have nxt: "ts_next (or_store orch') = ts_next (or_store (tn_orch s))"
    using st u(1) by (auto simp: start_task_def i_def)
  have orch: "tn_orch ?s = orch'" by (simp add: set_task_run_def)
  have same: "tn_queues ?s = tn_queues s" "tn_queue_of ?s = tn_queue_of s" "tn_workers ?s = tn_workers s"
    "tn_drops ?s = tn_drops s" by (simp_all add: set_task_run_def)
  have run: "tn_run_of ?s = (tn_run_of s)(r \<mapsto> n\<lparr>tr_phase := Dispatched\<rparr>)"
    using n by (simp add: set_task_run_def live_run_def)
  have live: "live_run ?s r' n' \<longleftrightarrow> (if r' = r then n' = n\<lparr>tr_phase := Dispatched\<rparr> else live_run s r' n')" for r' n'
    by (auto simp: live_run_def run)
  have keep: "live_run ?s r' n'" if "live_run s r' n'" "tr_task n' \<noteq> i" for r' n'
    unfolding live using that n(1) by (auto simp: i_def live_run_def)
  have get: "\<exists>v. get_task j (tn_orch s) = Some v \<and> at_agent t = at_agent v \<and> (j \<noteq> i \<longrightarrow> t = v)"
    if "get_task j orch' = Some t" for j t
    using start(4) that others(2) [of j t] u by (cases "j = i") auto
  have opens: "\<exists>v. open_task s j v \<and> at_agent t = at_agent v" if "open_task ?s j t" for j t
    using get [of j t] that u by (cases "j = i") (auto simp: open_task_def orch)
  have "at_agent t \<noteq> dr_agent d" if "d \<in> set (tn_drops s)" "open_task ?s j t" for d j t
    using opens [OF that(2)] tasks_dropped [OF oks(4) that(1)] by metis
  moreover have "tr_task n' < ts_next (or_store orch')" if "tn_run_of ?s r' = Some n'" for r' n'
    using that n tasks_run_ids [OF oks(4)] unfolding run nxt by (auto simp: live_run_def split: if_splits)
  moreover have "j < ts_next (or_store orch') \<and> (\<forall>t. get_task j orch' = Some t \<longrightarrow> at_agent t = a)"
    if "od_get (tn_queues s) a = Some q" "(p, m, j) \<in> set (tn_queue_of s q)" for a q p m j
    using tasks_queue [OF oks(4) that] get [of j] nxt by fastforce
  moreover have "\<exists>t. get_task (tr_task n') orch' = Some t \<and> at_agent t = tr_agent n' \<and> at_status t = phase_status (tr_phase n')"
    if n': "live_run ?s r' n'" "\<not> tr_cancelled n'" for r' n'
  proof (cases "r' = r")
    case True
    then show ?thesis using n'(1) start(4) u by (simp add: live i_def phase_status_def)
  next
    case False
    then have l: "live_run s r' n'" using n'(1) by (simp add: live)
    obtain t where t: "get_task (tr_task n') (tn_orch s) = Some t" "at_agent t = tr_agent n'" "at_status t = phase_status (tr_phase n')"
      using tasks_live [OF oks(4) l n'(2)] by blast
    have "tr_task n' \<noteq> i" using live_run_unique [OF oks(3) l n(1)] False t u by auto
    with others(1) [OF this t(1)] t run_status_open show ?thesis by auto
  qed
  moreover have "\<not> open_task ?s (tr_task n') t" if n': "live_run ?s r' n'" "tr_cancelled n'" for r' n' t
  proof -
    have "r' \<noteq> r" using n' n by (auto simp: live split: if_splits)
    then have "\<not> open_task s (tr_task n') v" for v using n' tasks_cancelled [OF oks(4)] by (simp add: live)
    then show ?thesis using opens by blast
  qed
  moreover have "\<exists>r n. live_run ?s r n \<and> tr_task n = j \<and> tr_phase n = Dispatched \<and> \<not> tr_cancelled n"
    if t: "get_task j orch' = Some t" "at_status t = RUNNING" for j t
  proof (cases "j = i")
    case True
    then show ?thesis using n by (intro exI [of _ r]) (simp add: live i_def)
  next
    case False
    from tasks_running [OF oks(4) others(2) [OF False t(1)] t(2)] keep False show ?thesis by blast
  qed
  moreover have "(\<exists>r n. live_run ?s r n \<and> tr_task n = j \<and> tr_phase n = Created \<and> \<not> tr_cancelled n) \<or> queued ?s (at_agent t) j"
    if t: "get_task j orch' = Some t" "at_status t = PENDING" for j t
  proof -
    have ne: "j \<noteq> i" using t start(4) by auto
    have "queued ?s (at_agent t) j = queued s (at_agent t) j" by (simp add: queued_def same)
    then show ?thesis using tasks_pending [OF oks(4) others(2) [OF ne t(1)] t(2)] keep ne by blast
  qed
  ultimately have "tasks_ok ?s" using start(2) unfolding tasks_ok_def orch same by blast
  moreover have "runs_ok ?s" by (rule runs_ok_set) (use oks n in \<open>auto simp: live_run_def\<close>)
  ultimately show "runner_ok ?s" using oks by (simp add: runner_ok_def)
qed

lemma fail_open_closes:
  assumes "orch_ok orch" "get_task i orch = Some u" "\<not> terminal (at_status u)"
  shows "closes i orch (fail_open now i e orch)"
proof -
  obtain orch' where f: "fail_task now i e orch = (None, orch')" "closes i orch orch'" by (rule fail_closes [OF assms])
  have "at_status u = RUNNING \<or> at_status u = PENDING" using assms(3) not_terminal by blast
  with f assms(2) show ?thesis by (simp add: fail_open_def status_is_def)
qed

lemma fail_open_closed:
  "(\<And>t. get_task i orch = Some t \<Longrightarrow> terminal (at_status t)) \<Longrightarrow> fail_open now i e orch = orch"
  by (auto simp: fail_open_def status_is_def split: option.splits)

lemma live_task:
  assumes "runner_ok s" "live_run s r n" "\<not> tr_cancelled n"
  obtains u where "get_task (tr_task n) (tn_orch s) = Some u" "\<not> terminal (at_status u)" "at_status u = phase_status (tr_phase n)"
proof -
  have "tasks_ok s" using assms(1) by (simp add: runner_ok_def)
  from tasks_live [OF this assms(2,3)] show thesis using that run_status_open by auto
qed

lemma run_start_ok: "runner_ok s \<Longrightarrow> runner_ok (run_start now r available s)"
proof -
  assume ok: "runner_ok s"
  have tok: "tasks_ok s" using ok by (simp add: runner_ok_def)
  show ?thesis
  proof (cases "\<exists>n. tn_run_of s r = Some n \<and> tr_phase n = Created")
    case False
    then show ?thesis using ok by (auto simp: run_start_def split: option.splits)
  next
    case True
    then obtain n where n: "tn_run_of s r = Some n" "tr_phase n = Created" by blast
    then have l: "live_run s r n" by (simp add: live_run_def)
    show ?thesis
    proof (cases "tr_cancelled n")
      case True
      then show ?thesis using cancelled_run_over [OF ok l] n by (simp add: run_start_def Let_def)
    next
      case False
      obtain u where u: "get_task (tr_task n) (tn_orch s) = Some u" "\<not> terminal (at_status u)" by (rule live_task [OF ok l False])
      obtain err orch' where st: "start_task now (tr_task n) (tn_orch s) = (err, orch')" by fastforce
      show ?thesis
        using run_closes [OF ok l False fail_open_closes [OF tasks_orch [OF tok] u]]
          run_dispatched [OF ok l False n(2) st] n False u st
        by (simp add: run_start_def on_orch_def Let_def)
    qed
  qed
qed

lemma run_end_ok: "runner_ok s \<Longrightarrow> runner_ok (run_end now r result s)"
proof -
  assume ok: "runner_ok s"
  have tok: "tasks_ok s" using ok by (simp add: runner_ok_def)
  show ?thesis
  proof (cases "\<exists>n. tn_run_of s r = Some n \<and> tr_phase n = Dispatched")
    case False
    then show ?thesis using ok by (auto simp: run_end_def split: option.splits)
  next
    case True
    then obtain n where n: "tn_run_of s r = Some n" "tr_phase n = Dispatched" by blast
    then have l: "live_run s r n" by (simp add: live_run_def)
    show ?thesis
    proof (cases "tr_cancelled n")
      case True
      have "terminal (at_status t)" if "get_task (tr_task n) (tn_orch s) = Some t" for t
        using tasks_cancelled [OF tok l True, of t] that by (simp add: open_task_def)
      then have "fail_open now (tr_task n) e (tn_orch s) = tn_orch s"
        "\<not> status_is (\<lambda>st. st = RUNNING) (tr_task n) (tn_orch s)" for e
        using fail_open_closed by (auto simp: status_is_def split: option.splits)
      then show ?thesis using cancelled_run_over [OF ok l True] n True
        by (simp add: run_end_def on_orch_def Let_def split: run_outcome.splits option.splits)
    next
      case False
      obtain u where u: "get_task (tr_task n) (tn_orch s) = Some u" "\<not> terminal (at_status u)"
        "at_status u = phase_status (tr_phase n)" by (rule live_task [OF ok l False])
      then have running: "status_is (\<lambda>st. st = RUNNING) (tr_task n) (tn_orch s)"
        by (simp add: status_is_def phase_status_def n)
      have fails: "runner_ok (set_task_run r (tr_phase_update (\<lambda>_. Over)) (on_orch (fail_open now (tr_task n) e) s))" for e
        using run_closes [OF ok l False fail_open_closes [OF tasks_orch [OF tok] u(1,2)]] by (simp add: on_orch_def)
      have completes: "\<exists>orch'. complete_task now (tr_task n) out (tn_orch s) = (None, orch') \<and>
          runner_ok (set_task_run r (tr_phase_update (\<lambda>_. Over)) (s\<lparr>tn_orch := orch'\<rparr>))" for out
      proof -
        obtain orch' where "complete_task now (tr_task n) out (tn_orch s) = (None, orch')" "closes (tr_task n) (tn_orch s) orch'"
          by (rule complete_closes [OF tasks_orch [OF tok] u(1,2)])
        then show ?thesis using run_closes [OF ok l False] by blast
      qed
      show ?thesis using fails completes n False ok running
        by (auto simp: run_end_def Let_def split: run_outcome.splits option.splits) (metis old.prod.case option.simps(4))
    qed
  qed
qed

lemma tasks_same_view:
  assumes ok: "tasks_ok s" and orch: "orch_ok orch'" "ts_next (or_store orch') = ts_next (or_store (tn_orch s))"
    and view: "\<And>j. map_option (\<lambda>t. (at_status t, at_agent t)) (get_task j orch')
      = map_option (\<lambda>t. (at_status t, at_agent t)) (get_task j (tn_orch s))"
  shows "tasks_ok (s\<lparr>tn_orch := orch'\<rparr>)"
proof -
  let ?s = "s\<lparr>tn_orch := orch'\<rparr>"
  have old: "\<exists>u. get_task j (tn_orch s) = Some u \<and> at_status u = at_status t \<and> at_agent u = at_agent t"
    if "get_task j orch' = Some t" for j t
    using view [of j] that by (cases "get_task j (tn_orch s)") auto
  have forth: "\<exists>u. get_task j orch' = Some u \<and> at_status u = at_status t \<and> at_agent u = at_agent t"
    if "get_task j (tn_orch s) = Some t" for j t
    using view [of j] that by (cases "get_task j orch'") auto
  have live: "live_run ?s = live_run s" "queued ?s = queued s" by (simp_all add: fun_eq_iff live_run_def queued_def)
  have "at_agent t \<noteq> dr_agent d" if "d \<in> set (tn_drops s)" "open_task ?s j t" for d j t
    using tasks_dropped [OF ok that(1), of j] old [of j t] that(2) by (auto simp: open_task_def)
  moreover have "j < ts_next (or_store orch') \<and> (\<forall>t. get_task j orch' = Some t \<longrightarrow> at_agent t = a)"
    if "od_get (tn_queues s) a = Some q" "(p, m, j) \<in> set (tn_queue_of s q)" for a q p m j
    using tasks_queue [OF ok that] old [of j] orch(2) by fastforce
  moreover have "\<exists>t. get_task (tr_task n) orch' = Some t \<and> at_agent t = tr_agent n \<and> at_status t = phase_status (tr_phase n)"
    if "live_run s r n" "\<not> tr_cancelled n" for r n
    using tasks_live [OF ok that] forth [of "tr_task n"] by metis
  moreover have "\<not> open_task ?s (tr_task n) t" if "live_run s r n" "tr_cancelled n" for r n t
  proof
    assume "open_task ?s (tr_task n) t"
    then have t: "get_task (tr_task n) orch' = Some t" "\<not> terminal (at_status t)" by (simp_all add: open_task_def)
    from old [OF t(1)] t(2) obtain u where "open_task s (tr_task n) u" by (auto simp: open_task_def)
    with tasks_cancelled [OF ok that] show False by blast
  qed
  moreover have "\<exists>r n. live_run s r n \<and> tr_task n = j \<and> tr_phase n = Dispatched \<and> \<not> tr_cancelled n"
    if "get_task j orch' = Some t" "at_status t = RUNNING" for j t
    using old [OF that(1)] that(2) tasks_running [OF ok, of j] by metis
  moreover have "(\<exists>r n. live_run s r n \<and> tr_task n = j \<and> tr_phase n = Created \<and> \<not> tr_cancelled n) \<or> queued s (at_agent t) j"
    if "get_task j orch' = Some t" "at_status t = PENDING" for j t
    using old [OF that(1)] that(2) tasks_pending [OF ok, of j] by metis
  ultimately show ?thesis
    using orch(1) tasks_run_ids [OF ok] orch(2) unfolding tasks_ok_def live by simp
qed

lemma run_progress_ok: "runner_ok s \<Longrightarrow> runner_ok (run_progress r n s)"
proof -
  assume ok: "runner_ok s"
  define orch' where "orch' i = (tn_orch s)\<lparr>or_store := (or_store (tn_orch s))\<lparr>ts_tasks :=
      od_map_at i (\<lambda>t. t\<lparr>at_iterations := n\<rparr>) (ts_tasks (or_store (tn_orch s)))\<rparr>\<rparr>" for i
  have "tasks_ok (s\<lparr>tn_orch := orch' i\<rparr>)" for i
  proof (rule tasks_same_view)
    show "tasks_ok s" using ok by (simp add: runner_ok_def)
    note orch = tasks_orch [OF this]
    show "orch_ok (orch' i)" by (rule progress_ok [OF orch orch'_def])
    show "ts_next (or_store (orch' i)) = ts_next (or_store (tn_orch s))" by (simp add: orch'_def)
    show "map_option (\<lambda>t. (at_status t, at_agent t)) (get_task j (orch' i))
        = map_option (\<lambda>t. (at_status t, at_agent t)) (get_task j (tn_orch s))" for j
      unfolding progress_ok(2) [OF orch orch'_def] by (cases "get_task j (tn_orch s)") auto
  qed
  then have "runner_ok (s\<lparr>tn_orch := orch' i\<rparr>)" for i using ok by (simp add: runner_ok_def)
  then show ?thesis using ok by (auto simp: run_progress_def on_orch_def orch'_def split: option.splits)
qed

text \<open>Cancelling a task touches the task and its run.\<close>

lemma cancel_run_same [simp]:
  "tn_orch (cancel_task_run r s) = tn_orch s" "tn_queues (cancel_task_run r s) = tn_queues s" "tn_workers (cancel_task_run r s) = tn_workers s"
  "tn_queue_of (cancel_task_run r s) = tn_queue_of s" "tn_worker_of (cancel_task_run r s) = tn_worker_of s"
  "tn_drops (cancel_task_run r s) = tn_drops s" "tn_current (cancel_task_run r s) = tn_current s" "tn_refs (cancel_task_run r s) = tn_refs s"
  by (simp_all add: cancel_task_run_def set_task_run_def)

lemma cancel_run_runs:
  "tn_run_of (cancel_task_run r s) r' =
     (if r' = r \<and> \<not> run_over r s then map_option (\<lambda>n. n\<lparr>tr_cancelled := True\<rparr>) (tn_run_of s r) else tn_run_of s r')"
  by (simp add: cancel_task_run_def set_task_run_def)

lemma cancel_run_frame [simp]:
  "refs_ok (cancel_task_run r s) = refs_ok s" "workers_ok (cancel_task_run r s) = workers_ok s"
  by (simp_all add: cancel_task_run_def)

lemma cancel_run_ok: "runs_ok s \<Longrightarrow> runs_ok (cancel_task_run r s)"
  by (auto simp: cancel_task_run_def intro: runs_ok_set)

lemma live_cancel_run:
  "live_run (cancel_task_run r s) r' n' \<longleftrightarrow>
     (if r' = r then \<exists>n. live_run s r n \<and> n' = n\<lparr>tr_cancelled := True\<rparr> else live_run s r' n')"
  by (auto simp: live_run_def cancel_run_runs run_over_def split: option.splits)

lemma cancel_open_cases:
  assumes ok: "runner_ok s"
  shows "runner_ok (snd (cancel_open now i s))"
    and "open_task (snd (cancel_open now i s)) j t \<longleftrightarrow> j \<noteq> i \<and> open_task s j t"
    and "tn_workers (snd (cancel_open now i s)) = tn_workers s" "tn_queues (snd (cancel_open now i s)) = tn_queues s"
      "tn_drops (snd (cancel_open now i s)) = tn_drops s" "tn_worker_of (snd (cancel_open now i s)) = tn_worker_of s"
proof -
  have oks: "refs_ok s" "workers_ok s" "runs_ok s" "tasks_ok s" using ok by (simp_all add: runner_ok_def)
  have res: "runner_ok (snd (cancel_open now i s))
    \<and> (open_task (snd (cancel_open now i s)) j t \<longleftrightarrow> j \<noteq> i \<and> open_task s j t)
    \<and> tn_workers (snd (cancel_open now i s)) = tn_workers s \<and> tn_queues (snd (cancel_open now i s)) = tn_queues s
    \<and> tn_drops (snd (cancel_open now i s)) = tn_drops s \<and> tn_worker_of (snd (cancel_open now i s)) = tn_worker_of s" for j t
  proof (cases "\<exists>u. open_task s i u")
    case False
    then have "snd (cancel_open now i s) = s"
      by (auto simp: cancel_open_def open_task_def terminal_def split: option.splits)
    then show ?thesis using ok False by auto
  next
    case True
    then obtain u where u: "get_task i (tn_orch s) = Some u" "\<not> terminal (at_status u)" by (auto simp: open_task_def)
    note cl = cancel_closes [OF tasks_orch [OF oks(4)] u, of now]
    define s1 where "s1 = on_orch (cancel_task now i) s"
    define s2 where "s2 = snd (cancel_open now i s)"
    have s2: "s2 = (case od_get (tn_current s) (at_agent u) of Some (j, r) \<Rightarrow> if j = i then cancel_task_run r s1 else s1 | None \<Rightarrow> s1)"
      using u by (auto simp: s2_def s1_def cancel_open_def not_terminal Let_def split: option.split)
    have same: "tn_orch s2 = cancel_task now i (tn_orch s)" "tn_queues s2 = tn_queues s" "tn_queue_of s2 = tn_queue_of s"
      "tn_workers s2 = tn_workers s" "tn_drops s2 = tn_drops s" "tn_worker_of s2 = tn_worker_of s"
      by (simp_all add: s2 s1_def on_orch_def split: option.split)
    have s1: "refs_ok s1" "workers_ok s1" "runs_ok s1" "live_run s1 = live_run s" "tn_run_of s1 = tn_run_of s"
      "tn_current s1 = tn_current s"
      using oks by (simp_all add: s1_def fun_eq_iff live_run_def on_orch_def)
    have struct: "refs_ok s2" "workers_ok s2" "runs_ok s2"
      using s1 by (auto simp: s2 intro: cancel_run_ok split: option.split)
    have mine: "tr_task n = i" if "od_get (tn_current s) (at_agent u) = Some (i, r)" "live_run s r n" for r n
      using oks(3) that unfolding runs_ok_def live_run_def by blast
    have "tasks_ok s2"
    proof (rule tasks_close [OF oks(4), of i])
      show "closes i (tn_orch s) (tn_orch s2)" using cl by (simp add: same)
      show "\<exists>n. tn_run_of s r = Some n \<and> tr_task n' = tr_task n" if "tn_run_of s2 r = Some n'" for r n'
        using that by (auto simp: s2 s1 cancel_run_runs split: option.splits if_splits)
      show "live_run s r n'" if "live_run s2 r n'" "tr_task n' \<noteq> i" for r n'
        using that mine by (auto simp: s2 s1 live_cancel_run split: option.splits if_splits)
      show "live_run s2 r n" if "live_run s r n" "tr_task n \<noteq> i" for r n
        using that mine by (auto simp: s2 s1 live_cancel_run split: option.splits if_splits)
      show "tr_cancelled n" if n: "live_run s2 r n" "tr_task n = i" for r n
      proof (rule ccontr)
        assume nc: "\<not> tr_cancelled n"
        have l: "live_run s r n" using n nc by (auto simp: s2 s1 live_cancel_run split: option.splits if_splits)
        from tasks_live [OF oks(4) l nc] n(2) u have "tr_agent n = at_agent u" by auto
        with live_run_current [OF oks(3) l] n have "s2 = cancel_task_run r s1" by (simp add: s2)
        with n(1) nc show False by (auto simp: live_cancel_run)
      qed
    qed (simp_all add: same)
    then have "runner_ok s2" using struct by (simp add: runner_ok_def)
    moreover have "open_task s2 j t \<longleftrightarrow> j \<noteq> i \<and> open_task s j t"
    proof (cases "j = i")
      case True
      have "terminal (at_status t)" if "get_task i (cancel_task now i (tn_orch s)) = Some t" using cl that unfolding closes_def by blast
      then show ?thesis using True by (auto simp: open_task_def same)
    next
      case False
      have "others_kept i (tn_orch s) (cancel_task now i (tn_orch s))" using cl by (simp add: closes_def)
      from others_kept_open [OF this False, of t] False show ?thesis by (simp add: open_task_def same)
    qed
    ultimately show ?thesis using same by (simp add: s2_def [symmetric])
  qed
  show "runner_ok (snd (cancel_open now i s))" using res by blast
  show "open_task (snd (cancel_open now i s)) j t \<longleftrightarrow> j \<noteq> i \<and> open_task s j t" using res by blast
  show "tn_workers (snd (cancel_open now i s)) = tn_workers s" "tn_queues (snd (cancel_open now i s)) = tn_queues s"
    "tn_drops (snd (cancel_open now i s)) = tn_drops s" "tn_worker_of (snd (cancel_open now i s)) = tn_worker_of s"
    using res by blast+
qed

lemma cancel_all_ok:
  assumes "runner_ok s"
  shows "runner_ok (cancel_all now is s)
    \<and> (\<forall>j t. open_task (cancel_all now is s) j t \<longleftrightarrow> j \<notin> set is \<and> open_task s j t)
    \<and> tn_workers (cancel_all now is s) = tn_workers s \<and> tn_queues (cancel_all now is s) = tn_queues s
    \<and> tn_drops (cancel_all now is s) = tn_drops s \<and> tn_worker_of (cancel_all now is s) = tn_worker_of s"
  using assms
proof (induction "is" arbitrary: s)
  case Nil
  then show ?case by (simp add: cancel_all_def)
next
  case (Cons i "is")
  have "cancel_all now (i # is) s = cancel_all now is (snd (cancel_open now i s))" by (simp add: cancel_all_def)
  with Cons.IH [OF cancel_open_cases(1) [OF Cons.prems, of now i]] cancel_open_cases(2-) [OF Cons.prems, of now i]
  show ?case by auto
qed

text \<open>Workers. A worker whose run is over goes back to its queue, or ends if it was cancelled.\<close>

lemma tasks_ok_frame [simp]:
  "tasks_ok (s\<lparr>tn_current := c\<rparr>) = tasks_ok s" "tasks_ok (s\<lparr>tn_refs := n\<rparr>) = tasks_ok s"
  "tasks_ok (set_worker w f s) = tasks_ok s" "tasks_ok (s\<lparr>tn_worker_of := g\<rparr>) = tasks_ok s"
  "tasks_ok (s\<lparr>tn_seq := n\<rparr>) = tasks_ok s"
  by (simp_all add: tasks_ok_def live_run_def open_task_def queued_def set_worker_def)

lemma live_set_worker:
  "tn_worker_of s w = Some k \<Longrightarrow> live_worker (set_worker w f s) w' k' \<longleftrightarrow>
     (if w' = w then k' = f k \<and> wk_phase (f k) \<noteq> Ended else live_worker s w' k')"
  by (auto simp: live_worker_def set_worker_def)

lemma worker_of_set: "tn_worker_of (set_worker w f s) w' = (if w' = w then map_option f (tn_worker_of s w) else tn_worker_of s w')"
  by (simp add: set_worker_def)

lemma set_worker_same [simp]:
  "tn_queues (set_worker w f s) = tn_queues s" "tn_workers (set_worker w f s) = tn_workers s"
  "tn_drops (set_worker w f s) = tn_drops s" "tn_current (set_worker w f s) = tn_current s"
  "tn_run_of (set_worker w f s) = tn_run_of s" "tn_refs (set_worker w f s) = tn_refs s"
  "tn_orch (set_worker w f s) = tn_orch s" "tn_queue_of (set_worker w f s) = tn_queue_of s"
  by (simp_all add: set_worker_def)

lemma refs_ok_set_worker:
  "refs_ok s \<Longrightarrow> refs_ok (set_worker w f s)"
  by (auto simp: refs_ok_def worker_of_set split: if_splits)

text \<open>A live worker may change its phase; it may end, or be about to, only when cancelled.\<close>

lemma workers_ok_phase:
  assumes ok: "workers_ok s" and k: "live_worker s w k"
    and f: "wk_agent (f k) = wk_agent k" "wk_queue (f k) = wk_queue k" "wk_cancelled (f k) = wk_cancelled k"
    and p: "\<not> wk_cancelled k \<Longrightarrow> wk_phase (f k) = Waiting \<or> (\<exists>r. wk_phase (f k) = Busy r)"
  shows "workers_ok (set_worker w f s)"
proof -
  have kw: "tn_worker_of s w = Some k" using k by (simp add: live_worker_def)
  note live = live_set_worker [OF kw, of f]
  have table: "\<exists>k'. live_worker (set_worker w f s) w' k' \<and> wk_agent k' = a \<and> \<not> wk_cancelled k' \<and> od_get (tn_queues s) a = Some (wk_queue k')"
    if tab: "od_get (tn_workers s) a = Some w'" for a w'
  proof -
    obtain j where j: "live_worker s w' j" "wk_agent j = a" "\<not> wk_cancelled j" "od_get (tn_queues s) a = Some (wk_queue j)"
      using workers_table [OF ok tab] by blast
    show ?thesis
    proof (cases "w' = w")
      case True
      with j kw have "j = k" by (simp add: live_worker_def)
      with j f p True show ?thesis unfolding live by auto
    qed (use j live in auto)
  qed
  have stray: "wk_cancelled k' \<and> (\<exists>d\<in>set (tn_drops s). dr_agent d = wk_agent k' \<and> dr_worker d = w')"
    if k': "live_worker (set_worker w f s) w' k'" "od_get (tn_workers s) (wk_agent k') \<noteq> Some w'" for w' k'
  proof (cases "w' = w")
    case True
    with k' have "k' = f k" by (simp add: live)
    with workers_stray [OF ok k] k'(2) f True show ?thesis by simp
  next
    case False
    with k' workers_stray [OF ok, of w' k'] show ?thesis by (simp add: live)
  qed
  have stopping: "wk_cancelled k'" if "tn_worker_of (set_worker w f s) w' = Some k'" "wk_phase k' = Stopping r" for w' k' r
  proof (cases "w' = w")
    case True
    then have "k' = f k" using that(1) kw by (simp add: worker_of_set)
    then show ?thesis using p f(3) that(2) by (cases "wk_cancelled k") auto
  next
    case False
    then show ?thesis using that workers_stopping [OF ok, of w' k' r] by (simp add: worker_of_set)
  qed
  show ?thesis
    by (rule workers_okI, unfold set_worker_same, erule table, erule (1) stray, erule (1) stopping,
        rule drops_distinct [OF ok], erule drops_gone [OF ok])
qed

lemma refs_bounds:
  assumes "refs_ok s"
  shows refs_worker: "tn_worker_of s w = Some k \<Longrightarrow> w < tn_refs s"
    and refs_run: "tn_run_of s r = Some n \<Longrightarrow> r < tn_refs s"
    and refs_queue: "od_get (tn_queues s) a = Some q \<Longrightarrow> q < tn_refs s"
    and refs_current: "od_get (tn_current s) a = Some (i, r) \<Longrightarrow> r < tn_refs s"
    and refs_queue_inj: "od_get (tn_queues s) a = Some q \<Longrightarrow> od_get (tn_queues s) b = Some q \<Longrightarrow> a = b"
  using assms unfolding refs_ok_def by blast+

lemma runs_okD:
  assumes "runs_ok s"
  shows runs_waited: "tn_worker_of s w = Some k \<Longrightarrow> waits_for k r \<Longrightarrow>
      \<exists>n. tn_run_of s r = Some n \<and> tr_agent n = wk_agent k \<and> od_get (tn_current s) (wk_agent k) = Some (tr_task n, r)"
    and runs_worker: "live_run s r n \<Longrightarrow> \<exists>w k. tn_worker_of s w = Some k \<and> wk_agent k = tr_agent n \<and> waits_for k r"
    and runs_current: "od_get (tn_current s) a = Some (i, r) \<Longrightarrow> tn_run_of s r = Some n \<Longrightarrow> tr_task n = i"
  using assms unfolding runs_ok_def by blast+

text \<open>A worker that keeps its agent and the run it waits for leaves the runs in order.\<close>

lemma runs_ok_repoint:
  assumes ok: "runs_ok s" and k: "tn_worker_of s w = Some k"
    and f: "wk_agent (f k) = wk_agent k" "\<And>r. waits_for (f k) r \<longleftrightarrow> waits_for k r"
  shows "runs_ok (set_worker w f s)"
  unfolding runs_ok_def
proof (intro conjI allI impI)
  fix w' k' r assume k': "tn_worker_of (set_worker w f s) w' = Some k'" "waits_for k' r"
  have "\<exists>j. tn_worker_of s w' = Some j \<and> wk_agent j = wk_agent k' \<and> waits_for j r"
    using k' k f by (auto simp: worker_of_set split: if_splits)
  then show "\<exists>n. tn_run_of (set_worker w f s) r = Some n \<and> tr_agent n = wk_agent k' \<and>
      od_get (tn_current (set_worker w f s)) (wk_agent k') = Some (tr_task n, r)"
    using runs_waited [OF ok] by fastforce
next
  fix r n assume "live_run (set_worker w f s) r n"
  then have "live_run s r n" by (simp add: live_run_def)
  from runs_worker [OF ok this] obtain w' k' where k': "tn_worker_of s w' = Some k'" "wk_agent k' = tr_agent n" "waits_for k' r"
    by blast
  show "\<exists>w' k'. tn_worker_of (set_worker w f s) w' = Some k' \<and> wk_agent k' = tr_agent n \<and> waits_for k' r"
  proof (cases "w' = w")
    case True
    then show ?thesis using k k' f by (intro exI [of _ w] exI [of _ "f k"]) (simp add: worker_of_set)
  next
    case False
    then show ?thesis using k' by (intro exI [of _ w'] exI [of _ k']) (simp add: worker_of_set)
  qed
next
  fix a i r n assume "od_get (tn_current (set_worker w f s)) a = Some (i, r)" "tn_run_of (set_worker w f s) r = Some n"
  then show "tr_task n = i" using runs_current [OF ok] by simp
qed

lemma worker_released:
  assumes ok: "runner_ok s" and k: "tn_worker_of s w = Some k" "waits_for k r" "run_over r s"
    and p: "p = Waiting \<or> p = Ended \<and> wk_cancelled k"
  shows "runner_ok (set_worker w (\<lambda>k. k\<lparr>wk_phase := p\<rparr>) (s\<lparr>tn_current := od_pop (wk_agent k) (tn_current s)\<rparr>))"
proof -
  let ?base = "s\<lparr>tn_current := od_pop (wk_agent k) (tn_current s)\<rparr>"
  let ?s = "set_worker w (\<lambda>k. k\<lparr>wk_phase := p\<rparr>) ?base"
  have oks: "refs_ok s" "workers_ok s" "runs_ok s" "tasks_ok s" using ok by (simp_all add: runner_ok_def)
  have k0: "live_worker s w k" by (rule waits_live [OF k(1,2)])
  have lw: "live_worker ?base = live_worker s" by (simp add: fun_eq_iff live_worker_def)
  have w0: "workers_ok ?base" using oks(2) by simp
  have r0: "refs_ok ?base" using oks(1) by (auto simp: refs_ok_def)
  have "workers_ok ?s" by (rule workers_ok_phase [OF w0]) (use k0 p in \<open>auto simp: lw\<close>)
  moreover have "refs_ok ?s" by (rule refs_ok_set_worker [OF r0])
  moreover have "runs_ok ?s"
    unfolding runs_ok_def
  proof (intro conjI allI impI)
    fix w' k' r' assume k': "tn_worker_of ?s w' = Some k'" "waits_for k' r'"
    have ne: "w' \<noteq> w" using k' k(1) p by (auto simp: worker_of_set waits_for_def)
    with k'(1) have "tn_worker_of s w' = Some k'" by (simp add: worker_of_set)
    moreover from this have "wk_agent k' \<noteq> wk_agent k"
      using live_worker_unique [OF oks(2) k0 waits_live [OF _ k'(2)]] ne by auto
    ultimately show "\<exists>n. tn_run_of ?s r' = Some n \<and> tr_agent n = wk_agent k' \<and> od_get (tn_current ?s) (wk_agent k') = Some (tr_task n, r')"
      using runs_waited [OF oks(3) _ k'(2)] by simp
  next
    fix r' n assume "live_run ?s r' n"
    then have l: "live_run s r' n" by (simp add: live_run_def)
    then obtain w' k' where k': "tn_worker_of s w' = Some k'" "wk_agent k' = tr_agent n" "waits_for k' r'"
      using runs_worker [OF oks(3)] by blast
    have "w' \<noteq> w"
    proof
      assume "w' = w"
      with k k' have "r' = r" by (auto simp: waits_for_def)
      with l k(3) show False by (simp add: live_run_def run_over_def)
    qed
    then show "\<exists>w k. tn_worker_of ?s w = Some k \<and> wk_agent k = tr_agent n \<and> waits_for k r'"
      using k' by (intro exI [of _ w'] exI [of _ k']) (simp add: worker_of_set)
  next
    fix a i r' n assume "od_get (tn_current ?s) a = Some (i, r')" "tn_run_of ?s r' = Some n"
    then show "tr_task n = i" using runs_current [OF oks(3)] by (auto split: if_splits)
  qed
  ultimately show ?thesis using oks(4) by (simp add: runner_ok_def)
qed

lemma next_pending_None:
  "next_pending orch q = (None, q') \<Longrightarrow> q' = [] \<and>
     (\<forall>p m i t. (p, m, i) \<in> set q \<longrightarrow> get_task i orch = Some t \<longrightarrow> at_status t \<noteq> PENDING)"
  by (induction orch q rule: next_pending.induct) (auto split: option.splits if_splits)

lemma next_pending_Some:
  "next_pending orch q = (Some i, q') \<Longrightarrow> set q' \<subseteq> set q \<and> (\<exists>p m. (p, m, i) \<in> set q)
     \<and> (\<exists>t. get_task i orch = Some t \<and> at_status t = PENDING)
     \<and> (\<forall>p m j t. (p, m, j) \<in> set q \<longrightarrow> get_task j orch = Some t \<longrightarrow> at_status t = PENDING \<longrightarrow> j = i \<or> (p, m, j) \<in> set q')"
  by (induction orch q rule: next_pending.induct) (auto split: option.splits if_splits)

lemma work_on_ok:
  assumes ok: "runner_ok s" and k: "tn_worker_of s w = Some k" "wk_phase k = Waiting" "\<not> wk_cancelled k"
  shows "runner_ok (work_on w k s)"
proof -
  have oks: "refs_ok s" "workers_ok s" "runs_ok s" "tasks_ok s" using ok by (simp_all add: runner_ok_def)
  have k0: "live_worker s w k" using k by (simp add: live_worker_def)
  have tab: "od_get (tn_workers s) (wk_agent k) = Some w" using workers_stray [OF oks(2) k0] k(3) by blast
  have queue: "od_get (tn_queues s) (wk_agent k) = Some (wk_queue k)"
    using workers_table [OF oks(2) tab] k0 by (auto simp: live_worker_def)
  obtain res q' where np: "next_pending (tn_orch s) (tn_queue_of s (wk_queue k)) = (res, q')" by fastforce
  define s1 where "s1 = s\<lparr>tn_queue_of := (tn_queue_of s)(wk_queue k := q')\<rparr>"
  have s1: "refs_ok s1" "workers_ok s1" "runs_ok s1" "live_run s1 = live_run s" "open_task s1 = open_task s"
    using oks by (simp_all add: s1_def fun_eq_iff live_run_def open_task_def)
  have sub: "set (tn_queue_of s1 q) \<subseteq> set (tn_queue_of s q)" for q
    using next_pending_None [of "tn_orch s" "tn_queue_of s (wk_queue k)" q']
      next_pending_Some [of "tn_orch s" "tn_queue_of s (wk_queue k)" _ q'] np by (cases res) (auto simp: s1_def)
  have ids: "j < ts_next (or_store (tn_orch s)) \<and> (\<forall>t. get_task j (tn_orch s) = Some t \<longrightarrow> at_agent t = a)"
    if "od_get (tn_queues s) a = Some q" "(p, m, j) \<in> set (tn_queue_of s1 q)" for a q p m j
    using tasks_queue [OF oks(4) that(1), of p m j] that(2) sub by blast
  show ?thesis
  proof (cases res)
    case None
    note none = next_pending_None [OF np [unfolded None]]
    have queued: "queued s1 (at_agent t) j" if qd: "queued s (at_agent t) j" and t: "get_task j (tn_orch s) = Some t" "at_status t = PENDING" for j t
    proof -
      obtain q p m where q: "od_get (tn_workers s) (at_agent t) \<noteq> None" "od_get (tn_queues s) (at_agent t) = Some q"
        "(p, m, j) \<in> set (tn_queue_of s q)" using qd unfolding queued_def by blast
      have "q \<noteq> wk_queue k" using none t q(3) by blast
      with q show ?thesis unfolding queued_def by (auto simp: s1_def)
    qed
    have same: "tn_orch s1 = tn_orch s" "tn_drops s1 = tn_drops s" "tn_queues s1 = tn_queues s" "tn_run_of s1 = tn_run_of s"
      by (simp_all add: s1_def)
    have "tasks_ok s1"
      by (rule tasks_okI, unfold same s1(4,5), rule tasks_orch [OF oks(4)], erule (1) tasks_dropped [OF oks(4)],
          erule tasks_run_ids [OF oks(4)], erule (1) ids, erule (1) tasks_live [OF oks(4)],
          erule (1) tasks_cancelled [OF oks(4)], erule (1) tasks_running [OF oks(4)])
        (use tasks_pending [OF oks(4)] queued in blast)
    then have "runner_ok s1" using s1 by (simp add: runner_ok_def)
    moreover have "work_on w k s = set_worker w (\<lambda>k. k\<lparr>wk_phase := Waiting\<rparr>) s1"
      by (simp add: work_on_def np None s1_def)
    moreover have "set_worker w (\<lambda>k. k\<lparr>wk_phase := Waiting\<rparr>) s1 = s1"
      using k by (auto simp: set_worker_def s1_def fun_eq_iff intro!: task_runner.equality)
    ultimately show ?thesis by simp
  next
    case (Some i)
    note some = next_pending_Some [OF np [unfolded Some]]
    define R where "R = tn_refs s"
    define n where "n = \<lparr>tr_task = i, tr_agent = wk_agent k, tr_phase = Created, tr_cancelled = False\<rparr>"
    define s2 where "s2 = s1\<lparr>tn_refs := Suc R, tn_run_of := (tn_run_of s)(R \<mapsto> n), tn_current := od_set (wk_agent k) (i, R) (tn_current s)\<rparr>"
    define s3 where "s3 = set_worker w (\<lambda>k. k\<lparr>wk_phase := Busy R\<rparr>) s2"
    have s3: "work_on w k s = s3" by (simp add: work_on_def np Some s3_def s2_def s1_def R_def n_def)
    have fresh: "tn_run_of s R = None" using refs_run [OF oks(1)] by (fastforce simp: R_def)
    have run: "tn_run_of s3 = (tn_run_of s)(R \<mapsto> n)" by (simp add: s3_def s2_def)
    have live: "live_run s3 r m \<longleftrightarrow> (if r = R then m = n else live_run s r m)" for r m
      by (auto simp: live_run_def run n_def)
    have "refs_ok s3"
      using oks(1) unfolding s3_def by (intro refs_ok_set_worker) (auto simp: refs_ok_def s2_def s1_def R_def split: if_splits intro: less_SucI)
    moreover have "workers_ok s3" unfolding s3_def
      by (rule workers_ok_phase [of _ _ k]) (use oks(2) k0 in \<open>simp_all add: live_worker_def s2_def s1_def\<close>)
    moreover have "runs_ok s3"
      unfolding runs_ok_def
    proof (intro conjI allI impI)
      fix w' k' r' assume k': "tn_worker_of s3 w' = Some k'" "waits_for k' r'"
      show "\<exists>n. tn_run_of s3 r' = Some n \<and> tr_agent n = wk_agent k' \<and> od_get (tn_current s3) (wk_agent k') = Some (tr_task n, r')"
      proof (cases "w' = w")
        case True
        with k' k(1) have "k' = k\<lparr>wk_phase := Busy R\<rparr>" by (simp add: s3_def worker_of_set s2_def s1_def)
        moreover from this k'(2) have "r' = R" by (simp add: waits_for_def)
        ultimately show ?thesis by (simp add: run n_def) (simp add: s3_def s2_def)
      next
        case False
        with k'(1) have k's: "tn_worker_of s w' = Some k'" by (simp add: s3_def worker_of_set s2_def s1_def)
        then obtain m where m: "tn_run_of s r' = Some m" "tr_agent m = wk_agent k'" "od_get (tn_current s) (wk_agent k') = Some (tr_task m, r')"
          using runs_waited [OF oks(3) _ k'(2)] by blast
        have "wk_agent k' \<noteq> wk_agent k"
          using live_worker_unique [OF oks(2) k0 waits_live [OF k's k'(2)]] False by auto
        moreover have "r' \<noteq> R" using m fresh by auto
        ultimately show ?thesis using m by (simp add: run) (simp add: s3_def s2_def)
      qed
    next
      fix r' m assume l: "live_run s3 r' m"
      show "\<exists>w k. tn_worker_of s3 w = Some k \<and> wk_agent k = tr_agent m \<and> waits_for k r'"
      proof (cases "r' = R")
        case True
        then show ?thesis using l k(1) unfolding live
          by (intro exI [of _ w] exI [of _ "k\<lparr>wk_phase := Busy R\<rparr>"]) (simp add: n_def s3_def worker_of_set s2_def s1_def waits_for_def)
      next
        case False
        then have "live_run s r' m" using l unfolding live by simp
        then obtain w' k' where k': "tn_worker_of s w' = Some k'" "wk_agent k' = tr_agent m" "waits_for k' r'"
          using runs_worker [OF oks(3)] by blast
        then have "w' \<noteq> w" using k by (auto simp: waits_for_def)
        then show ?thesis using k' by (intro exI [of _ w'] exI [of _ k']) (simp add: s3_def worker_of_set s2_def s1_def)
      qed
    next
      fix a j r' m assume c: "od_get (tn_current s3) a = Some (j, r')" and m: "tn_run_of s3 r' = Some m"
      show "tr_task m = j"
      proof (cases "a = wk_agent k")
        case True
        then have "j = i" "r' = R" using c by (simp_all add: s3_def s2_def)
        then show ?thesis using m by (auto simp: run n_def)
      next
        case False
        then have c': "od_get (tn_current s) a = Some (j, r')" using c by (simp add: s3_def s2_def)
        have "r' \<noteq> R" using refs_current [OF oks(1) c'] by (auto simp: R_def)
        then show ?thesis using m runs_current [OF oks(3) c'] by (simp add: run)
      qed
    qed
    moreover have "tasks_ok s3"
    proof -
      have same: "tn_orch s3 = tn_orch s" "tn_drops s3 = tn_drops s" "tn_queues s3 = tn_queues s" "tn_queue_of s3 = tn_queue_of s1"
        "tn_workers s3 = tn_workers s" by (simp_all add: s3_def s2_def s1_def)
      have op: "open_task s3 = open_task s" by (simp add: fun_eq_iff open_task_def same)
      obtain p m t where i: "(p, m, i) \<in> set (tn_queue_of s (wk_queue k))" "get_task i (tn_orch s) = Some t" "at_status t = PENDING"
        using some by blast
      note it = tasks_queue [OF oks(4) queue i(1)]
      have bound: "tr_task n' < ts_next (or_store (tn_orch s))" if "tn_run_of s3 r = Some n'" for r n'
        using that tasks_run_ids [OF oks(4)] it unfolding run by (auto simp: n_def split: if_splits)
      have lives: "\<exists>t. get_task (tr_task n') (tn_orch s) = Some t \<and> at_agent t = tr_agent n' \<and> at_status t = phase_status (tr_phase n')"
        if "live_run s3 r n'" "\<not> tr_cancelled n'" for r n'
        using that tasks_live [OF oks(4), of r n'] it i unfolding live by (auto simp: n_def phase_status_def split: if_splits)
      have closed: "\<not> open_task s (tr_task n') t" if "live_run s3 r n'" "tr_cancelled n'" for r n' t
        using that tasks_cancelled [OF oks(4), of r n'] unfolding live by (auto simp: n_def split: if_splits)
      have keep: "live_run s3 r n'" if "live_run s r n'" for r n'
        unfolding live using that fresh by (auto simp: live_run_def)
      have running: "\<exists>r n. live_run s3 r n \<and> tr_task n = j \<and> tr_phase n = Dispatched \<and> \<not> tr_cancelled n"
        if "get_task j (tn_orch s) = Some t" "at_status t = RUNNING" for j t
        using tasks_running [OF oks(4) that] keep by blast
      have pending: "(\<exists>r n. live_run s3 r n \<and> tr_task n = j \<and> tr_phase n = Created \<and> \<not> tr_cancelled n) \<or> queued s3 (at_agent t) j"
        if j: "get_task j (tn_orch s) = Some t" "at_status t = PENDING" for j t
      proof (cases "j = i")
        case True
        then show ?thesis by (intro disjI1 exI [of _ R] exI [of _ n]) (simp add: live n_def)
      next
        case False
        then have "queued s (at_agent t) j \<Longrightarrow> queued s3 (at_agent t) j"
          using some j unfolding queued_def same by (fastforce simp: s1_def)
        with tasks_pending [OF oks(4) j] keep show ?thesis by blast
      qed
      show ?thesis
        by (rule tasks_okI, unfold same op, rule tasks_orch [OF oks(4)], erule (1) tasks_dropped [OF oks(4)],
            erule bound, erule (1) ids, erule (1) lives, erule (1) closed, erule (1) running, erule (1) pending)
    qed
    ultimately show ?thesis by (simp add: runner_ok_def s3)
  qed
qed


lemma worker_step_ok:
  assumes ok: "runner_ok s" shows "runner_ok (worker_step w s)"
proof (cases "tn_worker_of s w")
  case None
  then show ?thesis using ok by (simp add: worker_step_def)
next
  case (Some k)
  have oks: "refs_ok s" "workers_ok s" "runs_ok s" "tasks_ok s" using ok by (simp_all add: runner_ok_def)
  show ?thesis
  proof (cases "wk_phase k")
    case Waiting
    have "runner_ok (set_worker w (\<lambda>k. k\<lparr>wk_phase := Ended\<rparr>) s)" if c: "wk_cancelled k"
    proof -
      have "live_worker s w k" using Some Waiting by (simp add: live_worker_def)
      then have "workers_ok (set_worker w (\<lambda>k. k\<lparr>wk_phase := Ended\<rparr>) s)"
        by (rule workers_ok_phase [OF oks(2)]) (simp_all add: c)
      moreover have "runs_ok (set_worker w (\<lambda>k. k\<lparr>wk_phase := Ended\<rparr>) s)"
        by (rule runs_ok_repoint [OF oks(3) Some]) (simp_all add: waits_for_def Waiting)
      ultimately show ?thesis using refs_ok_set_worker [OF oks(1)] oks(4) by (simp add: runner_ok_def)
    qed
    with work_on_ok [OF ok Some Waiting] Some Waiting show ?thesis by (simp add: worker_step_def)
  next
    case (Busy r)
    then have waits: "waits_for k r" by (simp add: waits_for_def)
    show ?thesis
    proof (cases "wk_cancelled k")
      case True
      define s1 where "s1 = cancel_task_run r s"
      have l: "live_worker s w k" using Some Busy by (simp add: live_worker_def)
      have none: "od_get (tn_workers s) (wk_agent k) \<noteq> Some w"
        using workers_table [OF oks(2), of "wk_agent k" w] l True by (auto simp: live_worker_def)
      obtain d where d: "d \<in> set (tn_drops s)" "dr_agent d = wk_agent k" using workers_stray [OF oks(2) l none] by blast
      have idle: "tr_cancelled n" if n: "live_run s r n" for n
      proof (rule ccontr)
        assume nc: "\<not> tr_cancelled n"
        obtain t where t: "get_task (tr_task n) (tn_orch s) = Some t" "at_agent t = tr_agent n" "at_status t = phase_status (tr_phase n)"
          using tasks_live [OF oks(4) n nc] by blast
        have "tr_agent n = wk_agent k" using runs_waited [OF oks(3) Some waits] n by (auto simp: live_run_def)
        with tasks_dropped [OF oks(4) d(1), of "tr_task n" t] t d(2) run_status_open show False by (simp add: open_task_def)
      qed
      have "s1 = s"
      proof (cases "run_over r s")
        case False
        then obtain n where n: "tn_run_of s r = Some n" "live_run s r n" by (auto simp: run_over_def live_run_def split: option.splits)
        have "(tn_run_of s)(r := map_option (\<lambda>n. n\<lparr>tr_cancelled := True\<rparr>) (tn_run_of s r)) = tn_run_of s"
          using n idle [OF n(2)] by (cases n) (auto simp: fun_eq_iff)
        with False show ?thesis by (simp add: s1_def cancel_task_run_def set_task_run_def)
      qed (simp add: s1_def cancel_task_run_def)
      have same_wait: "waits_for (k\<lparr>wk_phase := Stopping r\<rparr>) r' \<longleftrightarrow> waits_for k r'" for r'
        using Busy by (simp add: waits_for_def)
      have "workers_ok (set_worker w (\<lambda>k. k\<lparr>wk_phase := Stopping r\<rparr>) s)"
        by (rule workers_ok_phase [OF oks(2) l]) (simp_all add: True)
      moreover have "runs_ok (set_worker w (\<lambda>k. k\<lparr>wk_phase := Stopping r\<rparr>) s)"
        by (rule runs_ok_repoint [OF oks(3) Some]) (simp_all add: same_wait)
      ultimately have "runner_ok (set_worker w (\<lambda>k. k\<lparr>wk_phase := Stopping r\<rparr>) s)"
        using refs_ok_set_worker [OF oks(1)] oks(4) by (simp add: runner_ok_def)
      then show ?thesis using Some Busy True \<open>s1 = s\<close> by (simp add: worker_step_def s1_def)
    next
      case False
      show ?thesis
      proof (cases "run_over r s")
        case True
        let ?t = "set_worker w (\<lambda>k. k\<lparr>wk_phase := Waiting\<rparr>) (s\<lparr>tn_current := od_pop (wk_agent k) (tn_current s)\<rparr>)"
        have t: "runner_ok ?t" by (rule worker_released [OF ok Some waits True]) simp
        have k: "tn_worker_of ?t w = Some (k\<lparr>wk_phase := Waiting\<rparr>)" using Some by (simp add: worker_of_set)
        have "work_on w k (s\<lparr>tn_current := od_pop (wk_agent k) (tn_current s)\<rparr>) = work_on w (k\<lparr>wk_phase := Waiting\<rparr>) ?t"
          using Some by (simp add: work_on_def set_worker_def comp_def split: prod.split option.split)
        with work_on_ok [OF t k] False True Some Busy show ?thesis by (simp add: worker_step_def)
      next
        case no: False
        then show ?thesis using ok Some Busy False by (simp add: worker_step_def)
      qed
    qed
  next
    case (Stopping r)
    then have "waits_for k r" by (simp add: waits_for_def)
    with worker_released [OF ok Some this, of Ended] workers_stopping [OF oks(2) Some Stopping] Some Stopping ok
    show ?thesis by (simp add: worker_step_def)
  next
    case Ended
    then show ?thesis using ok Some by (simp add: worker_step_def)
  qed
qed

text \<open>Dropping an agent.\<close>

lemma drop_finish_ok:
  assumes ok: "runner_ok s" and idle: "\<And>i t. open_task s i t \<Longrightarrow> at_agent t \<noteq> a" and gone: "od_get (tn_workers s) a = None"
  shows "runner_ok (drop_finish now a s)"
    and "open_task (drop_finish now a s) i t = open_task s i t"
    and "tn_drops (drop_finish now a s) = tn_drops s" "tn_workers (drop_finish now a s) = tn_workers s"
      "tn_worker_of (drop_finish now a s) = tn_worker_of s"
proof -
  let ?q = "s\<lparr>tn_queues := od_pop a (tn_queues s)\<rparr>"
  have oks: "refs_ok s" "workers_ok s" "runs_ok s" "tasks_ok s" using ok by (simp_all add: runner_ok_def)
  have "terminal (at_status t)" if "get_task i (tn_orch s) = Some t" "at_agent t = a" for i t
    using idle [of i t] that by (auto simp: open_task_def)
  note un = unregister_idle [where now = now, OF tasks_orch [OF oks(4)] this]
  have fin: "drop_finish now a s = ?q\<lparr>tn_orch := unregister_agent now a (tn_orch s)\<rparr>" by (simp add: drop_finish_def on_orch_def)
  show "open_task (drop_finish now a s) i t = open_task s i t" by (simp add: fin open_task_def un(2))
  show "tn_drops (drop_finish now a s) = tn_drops s" "tn_workers (drop_finish now a s) = tn_workers s"
    "tn_worker_of (drop_finish now a s) = tn_worker_of s" by (simp_all add: fin)
  have lw: "live_worker ?q = live_worker s" "live_run ?q = live_run s" "open_task ?q = open_task s"
    by (simp_all add: fun_eq_iff live_worker_def live_run_def open_task_def)
  have "refs_ok ?q" using oks(1) by (auto simp: refs_ok_def split: if_splits)
  moreover have "workers_ok ?q"
  proof (rule workers_okI, unfold lw)
    fix b w assume "od_get (tn_workers ?q) b = Some w"
    then have b: "od_get (tn_workers s) b = Some w" by simp
    then have "b \<noteq> a" using gone by auto
    then show "\<exists>k. live_worker s w k \<and> wk_agent k = b \<and> \<not> wk_cancelled k \<and> od_get (tn_queues ?q) b = Some (wk_queue k)"
      using workers_table [OF oks(2) b] by simp
  qed (use workers_stray [OF oks(2)] workers_stopping [OF oks(2)] drops_distinct [OF oks(2)] drops_gone [OF oks(2)] in simp_all)
  moreover have "runs_ok ?q" using oks(3) by (simp add: runs_ok_def lw)
  moreover have "tasks_ok ?q"
  proof (rule tasks_okI, unfold lw)
    fix b q p m i assume "od_get (tn_queues ?q) b = Some q" "(p, m, i) \<in> set (tn_queue_of ?q q)"
    then show "i < ts_next (or_store (tn_orch ?q)) \<and> (\<forall>t. get_task i (tn_orch ?q) = Some t \<longrightarrow> at_agent t = b)"
      using tasks_queue [OF oks(4), of b q p m i] by (simp split: if_splits)
  next
    fix i t assume t: "get_task i (tn_orch ?q) = Some t" "at_status t = PENDING"
    have "at_agent t \<noteq> a" using idle [of i t] t by (simp add: open_task_def)
    then have "queued ?q (at_agent t) i = queued s (at_agent t) i" by (simp add: queued_def)
    with tasks_pending [OF oks(4), of i t] t
    show "(\<exists>r n. live_run s r n \<and> tr_task n = i \<and> tr_phase n = Created \<and> \<not> tr_cancelled n) \<or> queued ?q (at_agent t) i"
      by simp
  qed (use tasks_orch [OF oks(4)] tasks_dropped [OF oks(4)] tasks_run_ids [OF oks(4)] tasks_live [OF oks(4)]
      tasks_cancelled [OF oks(4)] tasks_running [OF oks(4)] in simp_all)
  ultimately have "runner_ok ?q" by (simp add: runner_ok_def)
  moreover from this have "tasks_ok (?q\<lparr>tn_orch := unregister_agent now a (tn_orch s)\<rparr>)"
    by (intro tasks_same_view) (simp_all add: runner_ok_def un)
  ultimately show "runner_ok (drop_finish now a s)" unfolding fin by (simp add: runner_ok_def)
qed

lemma drop_suspend_ok:
  assumes ok: "runner_ok s" and idle: "\<And>i t. open_task s i t \<Longrightarrow> at_agent t \<noteq> a" and w: "od_get (tn_workers s) a = Some w"
  shows "runner_ok ((set_worker w (\<lambda>k. k\<lparr>wk_cancelled := True\<rparr>) s)\<lparr>tn_workers := od_pop a (tn_workers s),
                       tn_drops := \<lparr>dr_agent = a, dr_worker = w, dr_rest = as\<rparr> # tn_drops s\<rparr>)" (is "runner_ok ?s")
proof -
  have oks: "refs_ok s" "workers_ok s" "runs_ok s" "tasks_ok s" using ok by (simp_all add: runner_ok_def)
  obtain k where k: "live_worker s w k" "wk_agent k = a" using workers_table [OF oks(2) w] by blast
  then have kw: "tn_worker_of s w = Some k" by (simp add: live_worker_def)
  have live: "live_worker ?s w' k' \<longleftrightarrow> (if w' = w then k' = k\<lparr>wk_cancelled := True\<rparr> else live_worker s w' k')" for w' k'
    using k by (auto simp: live_worker_def set_worker_def)
  have lr: "live_run ?s = live_run s" "open_task ?s = open_task s" by (simp_all add: fun_eq_iff live_run_def open_task_def)
  have new: "a \<notin> dr_agent ` set (tn_drops s)" using drops_gone [OF oks(2)] w by force
  have "refs_ok ?s" using oks(1) by (auto simp: refs_ok_def worker_of_set split: if_splits)
  moreover have "runs_ok ?s"
    using runs_ok_repoint [OF oks(3) kw, of "\<lambda>k. k\<lparr>wk_cancelled := True\<rparr>"] by (simp add: runs_ok_def waits_for_def live_run_def)
  moreover have "workers_ok ?s"
  proof (rule workers_okI)
    fix b w' assume "od_get (tn_workers ?s) b = Some w'"
    then have b: "b \<noteq> a" "od_get (tn_workers s) b = Some w'" by (auto split: if_splits)
    obtain j where j: "live_worker s w' j" "wk_agent j = b" "\<not> wk_cancelled j" "od_get (tn_queues s) b = Some (wk_queue j)"
      using workers_table [OF oks(2) b(2)] by blast
    have "w' \<noteq> w" using j k b(1) by (auto simp: live_worker_def)
    then show "\<exists>k. live_worker ?s w' k \<and> wk_agent k = b \<and> \<not> wk_cancelled k \<and> od_get (tn_queues ?s) b = Some (wk_queue k)"
      using j by (intro exI [of _ j]) (simp add: live)
  next
    fix w' k' assume k': "live_worker ?s w' k'" "od_get (tn_workers ?s) (wk_agent k') \<noteq> Some w'"
    show "wk_cancelled k' \<and> (\<exists>d\<in>set (tn_drops ?s). dr_agent d = wk_agent k' \<and> dr_worker d = w')"
    proof (cases "w' = w")
      case True
      then show ?thesis using k' k by (simp add: live)
    next
      case False
      then have l: "live_worker s w' k'" using k'(1) by (simp add: live)
      have "od_get (tn_workers s) (wk_agent k') \<noteq> Some w'"
      proof
        assume "od_get (tn_workers s) (wk_agent k') = Some w'"
        with k'(2) have "wk_agent k' = a" by (auto split: if_splits)
        with live_worker_unique [OF oks(2) l k(1)] k(2) False show False by simp
      qed
      from workers_stray [OF oks(2) l this] show ?thesis by auto
    qed
  next
    fix w' k' r assume "tn_worker_of ?s w' = Some k'" "wk_phase k' = Stopping r"
    then show "wk_cancelled k'" using workers_stopping [OF oks(2), of w' k' r] by (auto simp: worker_of_set split: if_splits)
  next
    show "distinct (map dr_agent (tn_drops ?s))" using drops_distinct [OF oks(2)] new by simp
  next
    fix d assume "d \<in> set (tn_drops ?s)"
    then show "od_get (tn_workers ?s) (dr_agent d) = None" using drops_gone [OF oks(2)] by auto
  qed
  moreover have "tasks_ok ?s"
  proof (rule tasks_okI, unfold lr)
    fix d i t assume "d \<in> set (tn_drops ?s)" "open_task s i t"
    then show "at_agent t \<noteq> dr_agent d" using tasks_dropped [OF oks(4)] idle by auto
  next
    fix i t assume t: "get_task i (tn_orch ?s) = Some t" "at_status t = PENDING"
    have "at_agent t \<noteq> a" using idle [of i t] t by (simp add: open_task_def)
    then have "queued ?s (at_agent t) i = queued s (at_agent t) i" by (simp add: queued_def)
    with tasks_pending [OF oks(4), of i t] t
    show "(\<exists>r n. live_run s r n \<and> tr_task n = i \<and> tr_phase n = Created \<and> \<not> tr_cancelled n) \<or> queued ?s (at_agent t) i"
      by simp
  qed (use tasks_orch [OF oks(4)] tasks_queue [OF oks(4)] tasks_run_ids [OF oks(4)] tasks_live [OF oks(4)]
      tasks_cancelled [OF oks(4)] tasks_running [OF oks(4)] in simp_all)
  ultimately show ?thesis by (simp add: runner_ok_def)
qed

lemma all_of_agent_cancelled:
  assumes ok: "runner_ok s" and s1: "s1 = cancel_all now (map at_id (list_by_agent a (or_store (tn_orch s)))) s"
  shows "open_task s1 i t \<Longrightarrow> at_agent t \<noteq> a"
proof
  assume t: "open_task s1 i t" "at_agent t = a"
  note c = cancel_all_ok [OF ok, of now "map at_id (list_by_agent a (or_store (tn_orch s)))", folded s1]
  from c t have o: "open_task s i t" "i \<notin> set (map at_id (list_by_agent a (or_store (tn_orch s))))" by blast+
  have "tasks_ok s" using ok by (simp add: runner_ok_def)
  then have "at_id t = i" using orch_ok_id [OF tasks_orch] o(1) by (auto simp: open_task_def)
  moreover have "t \<in> set (list_by_agent a (or_store (tn_orch s)))"
    using o(1) t(2) map_of_SomeD [of "ts_tasks (or_store (tn_orch s))" i t] by (force simp: open_task_def list_by_agent_def)
  ultimately show False using o(2) by auto
qed

lemma drop_agents_ok: "runner_ok s \<Longrightarrow> runner_ok (drop_agents now as s)"
proof (induction now as s rule: drop_agents.induct)
  case (2 now a as s)
  define s1 where "s1 = cancel_all now (map at_id (list_by_agent a (or_store (tn_orch s)))) s"
  have ok: "runner_ok s1" using cancel_all_ok [OF 2(2)] by (simp add: s1_def)
  note idle = all_of_agent_cancelled [OF 2(2) s1_def]
  show ?case
  proof (cases "od_get (tn_workers s1) a")
    case None
    from 2(1) [OF s1_def None drop_finish_ok(1) [OF ok idle None]] None show ?thesis by (simp add: s1_def Let_def)
  next
    case (Some w)
    from drop_suspend_ok [OF ok idle Some] Some show ?thesis by (simp add: s1_def Let_def)
  qed
qed simp

lemma drop_removed:
  assumes ok: "runner_ok s" and True: "n < length (tn_drops s) \<and> worker_done (dr_worker (tn_drops s ! n)) s"
    and d_def: "d = tn_drops s ! n" and s1_def: "s1 = s\<lparr>tn_drops := take n (tn_drops s) @ drop (Suc n) (tn_drops s)\<rparr>"
  shows "runner_ok s1" "od_get (tn_workers s1) (dr_agent d) = None" "open_task s1 i t \<Longrightarrow> at_agent t \<noteq> dr_agent d"
proof -
  have oks: "refs_ok s" "workers_ok s" "runs_ok s" "tasks_ok s" using ok by (simp_all add: runner_ok_def)
  have drops: "tn_drops s = take n (tn_drops s) @ d # drop (Suc n) (tn_drops s)" using True by (simp add: d_def id_take_nth_drop)
  have sub: "set (tn_drops s1) = set (tn_drops s) - {d}"
  proof -
    have "distinct (tn_drops s)" using drops_distinct [OF oks(2)] by (simp add: distinct_map)
    then have "distinct (take n (tn_drops s) @ d # drop (Suc n) (tn_drops s))" using drops by simp
    then show ?thesis by (subst drops) (auto simp: s1_def)
  qed
  have dm: "d \<in> set (tn_drops s)" using True by (simp add: d_def)
  have lw: "live_worker s1 = live_worker s" "live_run s1 = live_run s" "open_task s1 = open_task s" "queued s1 = queued s"
    by (simp_all add: s1_def fun_eq_iff live_worker_def live_run_def open_task_def queued_def)
  have "workers_ok s1"
  proof (rule workers_okI, unfold lw)
    fix w k assume k: "live_worker s w k" "od_get (tn_workers s1) (wk_agent k) \<noteq> Some w"
    then have "wk_cancelled k" and "\<exists>e\<in>set (tn_drops s). dr_agent e = wk_agent k \<and> dr_worker e = w"
      using workers_stray [OF oks(2) k(1)] by (simp_all add: s1_def)
    then obtain e where e: "e \<in> set (tn_drops s)" "dr_agent e = wk_agent k" "dr_worker e = w" by blast
    have "e \<noteq> d" using True k(1) e(3) by (auto simp: d_def worker_done_def live_worker_def)
    with e sub \<open>wk_cancelled k\<close> show "wk_cancelled k \<and> (\<exists>d\<in>set (tn_drops s1). dr_agent d = wk_agent k \<and> dr_worker d = w)" by blast
  next
    have "distinct (map dr_agent (take n (tn_drops s) @ d # drop (Suc n) (tn_drops s)))" using drops_distinct [OF oks(2)] drops by simp
    then show "distinct (map dr_agent (tn_drops s1))" by (auto simp: s1_def)
  next
    fix e assume "e \<in> set (tn_drops s1)"
    then show "od_get (tn_workers s1) (dr_agent e) = None" using drops_gone [OF oks(2)] sub by (auto simp: s1_def)
  qed (use workers_table [OF oks(2)] workers_stopping [OF oks(2)] in \<open>simp_all add: s1_def\<close>)
  moreover have "refs_ok s1" using oks(1) by (simp add: s1_def refs_ok_def)
  moreover have "runs_ok s1" using oks(3) by (simp add: runs_ok_def lw) (simp add: s1_def)
  moreover have "tasks_ok s1"
  proof (rule tasks_okI, unfold lw)
    fix e i t assume "e \<in> set (tn_drops s1)" "open_task s i t"
    then show "at_agent t \<noteq> dr_agent e" using tasks_dropped [OF oks(4)] sub by auto
  qed (use tasks_orch [OF oks(4)] tasks_queue [OF oks(4)] tasks_run_ids [OF oks(4)] tasks_live [OF oks(4)]
      tasks_cancelled [OF oks(4)] tasks_running [OF oks(4)] tasks_pending [OF oks(4)] in \<open>simp_all add: s1_def\<close>)
  ultimately show "runner_ok s1" by (simp add: runner_ok_def)
  show "od_get (tn_workers s1) (dr_agent d) = None" using drops_gone [OF oks(2) dm] by (simp add: s1_def)
  show "at_agent t \<noteq> dr_agent d" if "open_task s1 i t" using tasks_dropped [OF oks(4) dm] that by (simp add: lw)
qed

lemma drop_resume_ok:
  assumes ok: "runner_ok s" shows "runner_ok (drop_resume now n s)"
proof (cases "n < length (tn_drops s) \<and> worker_done (dr_worker (tn_drops s ! n)) s")
  case False
  then show ?thesis using ok by (auto simp: drop_resume_def)
next
  case True
  note r = drop_removed [OF ok True refl refl]
  from drop_agents_ok [OF drop_finish_ok(1) [OF r(1,3,2)]] True show ?thesis by (simp add: drop_resume_def Let_def)
qed

text \<open>Creating a task.\<close>

lemma set_put_item [simp]: "set (put_item x q) = insert x (set q)"
  by (induction x q rule: put_item.induct) auto

lemma queue_for_ok:
  assumes ok: "refs_ok s" "workers_ok s" "runs_ok s" and q: "queue_for a s = (q, s')"
  shows "refs_ok s'" "workers_ok s'" "runs_ok s'" "od_get (tn_queues s') b = (if b = a then Some q else od_get (tn_queues s) b)"
    "od_get (tn_queues s) b = Some p \<Longrightarrow> tn_queue_of s' p = tn_queue_of s p"
    "od_get (tn_queues s) a = None \<Longrightarrow> tn_queue_of s' q = []" "od_get (tn_queues s) a = None \<or> od_get (tn_queues s) a = Some q"
    "tn_workers s' = tn_workers s" "tn_drops s' = tn_drops s" "tn_run_of s' = tn_run_of s" "tn_orch s' = tn_orch s" "tn_seq s' = tn_seq s"
proof -
  have res: "refs_ok s' \<and> workers_ok s' \<and> runs_ok s' \<and> (\<forall>b. od_get (tn_queues s') b = (if b = a then Some q else od_get (tn_queues s) b))
    \<and> (\<forall>b p. od_get (tn_queues s) b = Some p \<longrightarrow> tn_queue_of s' p = tn_queue_of s p)
    \<and> (od_get (tn_queues s) a = None \<longrightarrow> tn_queue_of s' q = [])
    \<and> (od_get (tn_queues s) a = None \<or> od_get (tn_queues s) a = Some q) \<and>
    tn_workers s' = tn_workers s \<and> tn_drops s' = tn_drops s \<and> tn_run_of s' = tn_run_of s \<and> tn_orch s' = tn_orch s \<and> tn_seq s' = tn_seq s"
  proof (cases "od_get (tn_queues s) a")
    case (Some p)
    then show ?thesis using ok q by (auto simp: queue_for_def)
  next
    case None
    then have q': "q = tn_refs s" and s': "s' = s\<lparr>tn_queues := od_set a (tn_refs s) (tn_queues s), tn_refs := Suc (tn_refs s),
        tn_queue_of := (tn_queue_of s)(tn_refs s := [])\<rparr>" using q by (auto simp: queue_for_def)
    have lw: "live_worker s' = live_worker s" "live_run s' = live_run s" by (simp_all add: s' fun_eq_iff live_worker_def live_run_def)
    have "refs_ok s'"
      using ok(1) unfolding refs_ok_def s' by (auto split: if_splits intro: less_SucI)
    moreover have "workers_ok s'"
    proof (rule workers_okI, unfold lw)
      fix b w assume "od_get (tn_workers s') b = Some w"
      then have b: "od_get (tn_workers s) b = Some w" by (simp add: s')
      from workers_table [OF ok(2) this] None
      show "\<exists>k. live_worker s w k \<and> wk_agent k = b \<and> \<not> wk_cancelled k \<and> od_get (tn_queues s') b = Some (wk_queue k)"
        by (cases "b = a") (auto simp: s')
    qed (use workers_stray [OF ok(2)] workers_stopping [OF ok(2)] drops_distinct [OF ok(2)] drops_gone [OF ok(2)] in \<open>simp_all add: s'\<close>)
    moreover have "runs_ok s'" using ok(3) by (simp add: runs_ok_def lw) (simp add: s')
    moreover have "tn_queue_of s' p = tn_queue_of s p" if "od_get (tn_queues s) b = Some p" for b p
      using refs_queue [OF ok(1) that] by (simp add: s')
    ultimately show ?thesis using None by (simp add: q' s')
  qed
  then show "refs_ok s'" "workers_ok s'" "runs_ok s'" "od_get (tn_queues s') b = (if b = a then Some q else od_get (tn_queues s) b)"
    "od_get (tn_queues s) b = Some p \<Longrightarrow> tn_queue_of s' p = tn_queue_of s p"
    "od_get (tn_queues s) a = None \<Longrightarrow> tn_queue_of s' q = []" "od_get (tn_queues s) a = None \<or> od_get (tn_queues s) a = Some q"
    "tn_workers s' = tn_workers s" "tn_drops s' = tn_drops s" "tn_run_of s' = tn_run_of s" "tn_orch s' = tn_orch s" "tn_seq s' = tn_seq s"
    by blast+
qed

lemma ensure_worker_ok:
  assumes ok: "refs_ok s" "workers_ok s" "runs_ok s" and q: "od_get (tn_queues s) a = Some q"
    and calm: "\<not> dropping a s"
  shows "refs_ok (ensure_worker a q s)" "workers_ok (ensure_worker a q s)" "runs_ok (ensure_worker a q s)"
    "od_get (tn_workers (ensure_worker a q s)) a \<noteq> None"
    "b \<noteq> a \<Longrightarrow> od_get (tn_workers (ensure_worker a q s)) b = od_get (tn_workers s) b"
    "tn_queues (ensure_worker a q s) = tn_queues s" "tn_queue_of (ensure_worker a q s) = tn_queue_of s"
    "tn_drops (ensure_worker a q s) = tn_drops s" "tn_run_of (ensure_worker a q s) = tn_run_of s" "tn_orch (ensure_worker a q s) = tn_orch s"
proof -
  let ?s = "ensure_worker a q s"
  have res: "refs_ok ?s \<and> workers_ok ?s \<and> runs_ok ?s \<and> od_get (tn_workers ?s) a \<noteq> None
    \<and> (\<forall>b. b \<noteq> a \<longrightarrow> od_get (tn_workers ?s) b = od_get (tn_workers s) b) \<and> tn_queues ?s = tn_queues s
    \<and> tn_queue_of ?s = tn_queue_of s \<and> tn_drops ?s = tn_drops s \<and> tn_run_of ?s = tn_run_of s \<and> tn_orch ?s = tn_orch s"
  proof (cases "od_get (tn_workers s) a")
    case (Some w)
    then have "\<not> worker_done w s" using workers_table [OF ok(2) Some] by (auto simp: worker_done_def live_worker_def)
    then show ?thesis using Some ok by (simp add: ensure_worker_def)
  next
    case None
    define k where "k = \<lparr>wk_agent = a, wk_queue = q, wk_phase = Waiting, wk_cancelled = False\<rparr>"
    have s': "?s = s\<lparr>tn_workers := od_set a (tn_refs s) (tn_workers s), tn_refs := Suc (tn_refs s),
        tn_worker_of := (tn_worker_of s)(tn_refs s \<mapsto> k)\<rparr>" by (simp add: ensure_worker_def None k_def)
    have fresh: "tn_worker_of s (tn_refs s) = None" using refs_worker [OF ok(1)] by (cases "tn_worker_of s (tn_refs s)") auto
    have live: "live_worker ?s w' k' \<longleftrightarrow> (if w' = tn_refs s then k' = k else live_worker s w' k')" for w' k'
      by (auto simp: s' live_worker_def k_def)
    have lr: "live_run ?s = live_run s" by (simp add: s' fun_eq_iff live_run_def)
    have old_live: "w' < tn_refs s" if "live_worker s w' k'" for w' k'
      using refs_worker [OF ok(1)] that by (simp add: live_worker_def)
    have "refs_ok ?s" using ok(1) unfolding refs_ok_def s' by (auto split: if_splits intro: less_SucI)
    moreover have "workers_ok ?s"
    proof (rule workers_okI)
      fix b w assume w: "od_get (tn_workers ?s) b = Some w"
      show "\<exists>k. live_worker ?s w k \<and> wk_agent k = b \<and> \<not> wk_cancelled k \<and> od_get (tn_queues ?s) b = Some (wk_queue k)"
      proof (cases "b = a")
        case True
        then have "w = tn_refs s" using w by (simp add: s')
        then show ?thesis using q True by (intro exI [of _ k]) (simp add: live, simp add: k_def s')
      next
        case False
        then have "od_get (tn_workers s) b = Some w" using w by (simp add: s')
        from workers_table [OF ok(2) this] obtain j where
          j: "live_worker s w j" "wk_agent j = b" "\<not> wk_cancelled j" "od_get (tn_queues s) b = Some (wk_queue j)" by blast
        then show ?thesis using old_live [OF j(1)] by (intro exI [of _ j]) (simp add: live, simp add: s')
      qed
    next
      fix w' k' assume k': "live_worker ?s w' k'" "od_get (tn_workers ?s) (wk_agent k') \<noteq> Some w'"
      have ne: "w' \<noteq> tn_refs s" using k' by (auto simp: live) (simp add: s' k_def)
      then have l: "live_worker s w' k'" using k'(1) by (simp add: live)
      show "wk_cancelled k' \<and> (\<exists>d\<in>set (tn_drops ?s). dr_agent d = wk_agent k' \<and> dr_worker d = w')"
        using workers_stray [OF ok(2) l] k'(2) None by (cases "wk_agent k' = a") (auto simp: s')
    next
      fix w' k' r assume "tn_worker_of ?s w' = Some k'" "wk_phase k' = Stopping r"
      then show "wk_cancelled k'" using workers_stopping [OF ok(2), of w' k' r] by (auto simp: s' k_def split: if_splits)
    next
      show "distinct (map dr_agent (tn_drops ?s))" using drops_distinct [OF ok(2)] by (simp add: s')
    next
      fix d assume "d \<in> set (tn_drops ?s)"
      then have d: "d \<in> set (tn_drops s)" by (simp add: s')
      then have "dr_agent d \<noteq> a" using calm by (auto simp: dropping_def list_ex_iff)
      then show "od_get (tn_workers ?s) (dr_agent d) = None" using drops_gone [OF ok(2) d] by (simp add: s')
    qed
    moreover have "runs_ok ?s"
      unfolding runs_ok_def lr
    proof (intro conjI allI impI)
      fix w' k' r assume k': "tn_worker_of ?s w' = Some k'" "waits_for k' r"
      then have "tn_worker_of s w' = Some k'" by (auto simp: s' k_def waits_for_def split: if_splits)
      from runs_waited [OF ok(3) this k'(2)]
      show "\<exists>n. tn_run_of ?s r = Some n \<and> tr_agent n = wk_agent k' \<and> od_get (tn_current ?s) (wk_agent k') = Some (tr_task n, r)"
        by (simp add: s')
    next
      fix r n assume "live_run s r n"
      from runs_worker [OF ok(3) this] obtain w' k' where k': "tn_worker_of s w' = Some k'" "wk_agent k' = tr_agent n" "waits_for k' r" by blast
      then have "w' \<noteq> tn_refs s" using fresh by auto
      then show "\<exists>w k. tn_worker_of ?s w = Some k \<and> wk_agent k = tr_agent n \<and> waits_for k r"
        using k' by (intro exI [of _ w'] exI [of _ k']) (simp add: s')
    next
      fix b i r n assume "od_get (tn_current ?s) b = Some (i, r)" "tn_run_of ?s r = Some n"
      then show "tr_task n = i" using runs_current [OF ok(3)] by (simp add: s')
    qed
    ultimately show ?thesis by (simp add: s')
  qed
  then show "refs_ok ?s" "workers_ok ?s" "runs_ok ?s" "od_get (tn_workers ?s) a \<noteq> None"
    "b \<noteq> a \<Longrightarrow> od_get (tn_workers ?s) b = od_get (tn_workers s) b" "tn_queues ?s = tn_queues s" "tn_queue_of ?s = tn_queue_of s"
    "tn_drops ?s = tn_drops s" "tn_run_of ?s = tn_run_of s" "tn_orch ?s = tn_orch s" by blast+
qed

text \<open>A new pending task in the queue of its agent's worker.\<close>

lemma tasks_new:
  assumes ok: "tasks_ok s"
    and orch: "orch_ok (tn_orch s')" "ts_next (or_store (tn_orch s')) = Suc I" "I = ts_next (or_store (tn_orch s))"
      "\<And>j. get_task j (tn_orch s') = (if j = I then Some t else get_task j (tn_orch s))" "at_status t = PENDING" "at_agent t = a"
    and queues: "\<And>b q p m i. od_get (tn_queues s') b = Some q \<Longrightarrow> (p, m, i) \<in> set (tn_queue_of s' q) \<Longrightarrow>
        b = a \<and> i = I \<or> od_get (tn_queues s) b = Some q \<and> (p, m, i) \<in> set (tn_queue_of s q)"
      "\<And>b i. queued s b i \<Longrightarrow> queued s' b i" "queued s' a I"
    and same: "tn_run_of s' = tn_run_of s" "tn_drops s' = tn_drops s" and calm: "\<not> dropping a s"
  shows "tasks_ok s'"
proof -
  have live: "live_run s' = live_run s" by (simp add: fun_eq_iff live_run_def same)
  have op: "open_task s' i u \<longleftrightarrow> (if i = I then u = t else open_task s i u)" for i u
    using orch(5) by (auto simp: open_task_def orch(4))
  have old: "tr_task n < I" if "tn_run_of s r = Some n" for r n using tasks_run_ids [OF ok that] orch(3) by simp
  show ?thesis
  proof (rule tasks_okI, unfold live same)
    show "orch_ok (tn_orch s')" by (rule orch(1))
  next
    fix d i u assume "d \<in> set (tn_drops s)" "open_task s' i u"
    then show "at_agent u \<noteq> dr_agent d"
      using tasks_dropped [OF ok] calm orch(6) by (auto simp: op dropping_def list_ex_iff split: if_splits)
  next
    fix r n assume "tn_run_of s r = Some n"
    then show "tr_task n < ts_next (or_store (tn_orch s'))" using old orch(2) by fastforce
  next
    fix b q p m i assume q: "od_get (tn_queues s') b = Some q" "(p, m, i) \<in> set (tn_queue_of s' q)"
    show "i < ts_next (or_store (tn_orch s')) \<and> (\<forall>u. get_task i (tn_orch s') = Some u \<longrightarrow> at_agent u = b)"
    proof (cases "b = a \<and> i = I")
      case True
      then show ?thesis using orch by simp
    next
      case False
      with queues(1) [OF q] have "od_get (tn_queues s) b = Some q" "(p, m, i) \<in> set (tn_queue_of s q)" by auto
      from tasks_queue [OF ok this] show ?thesis using orch(2,3,4) by auto
    qed
  next
    fix r n assume n: "live_run s r n" "\<not> tr_cancelled n"
    then have "tr_task n \<noteq> I" using old by (auto simp: live_run_def)
    then show "\<exists>u. get_task (tr_task n) (tn_orch s') = Some u \<and> at_agent u = tr_agent n \<and> at_status u = phase_status (tr_phase n)"
      using tasks_live [OF ok n] by (simp add: orch(4))
  next
    fix r n u assume n: "live_run s r n" "tr_cancelled n"
    then have "tr_task n \<noteq> I" using old by (auto simp: live_run_def)
    then show "\<not> open_task s' (tr_task n) u" using tasks_cancelled [OF ok n] by (simp add: op)
  next
    fix i u assume "get_task i (tn_orch s') = Some u" "at_status u = RUNNING"
    then show "\<exists>r n. live_run s r n \<and> tr_task n = i \<and> tr_phase n = Dispatched \<and> \<not> tr_cancelled n"
      using tasks_running [OF ok, of i u] orch(4,5) by (simp split: if_splits)
  next
    fix i u assume u: "get_task i (tn_orch s') = Some u" "at_status u = PENDING"
    show "(\<exists>r n. live_run s r n \<and> tr_task n = i \<and> tr_phase n = Created \<and> \<not> tr_cancelled n) \<or> queued s' (at_agent u) i"
    proof (cases "i = I")
      case True
      then show ?thesis using u queues(3) orch(4,6) by auto
    next
      case False
      then have "get_task i (tn_orch s) = Some u" using u(1) by (simp add: orch(4))
      from tasks_pending [OF ok this u(2)] queues(2) show ?thesis by blast
    qed
  qed
qed

lemma create_task_ok:
  assumes ok: "runner_ok s" and calm: "\<not> dropping a s"
  shows "runner_ok (snd (create_task now known a obj ctx prio its s))"
proof (cases known)
  case False
  then show ?thesis using ok by (simp add: create_task_def)
next
  case True
  define s1 where "s1 = (if od_has (or_agents (tn_orch s)) a then s else on_orch (register_agent now a PNone) s)"
  have tok: "tasks_ok s" using ok by (simp add: runner_ok_def)
  have ok1: "runner_ok s1"
  proof -
    have "tasks_ok (on_orch (register_agent now a PNone) s)"
      unfolding on_orch_def by (rule tasks_same_view [OF tok]) (simp_all add: register_ok tasks_orch [OF tok])
    then show ?thesis using ok by (simp add: s1_def runner_ok_def)
  qed
  then have oks: "refs_ok s1" "workers_ok s1" "runs_ok s1" "tasks_ok s1" by (simp_all add: runner_ok_def)
  have reg: "od_has (or_agents (tn_orch s1)) a" by (simp add: s1_def on_orch_def register_agent_def)
  obtain t orch1 where as: "assign_task now a obj ctx prio (tn_orch s1) = (Inr t, orch1)" "at_id t = ts_next (or_store (tn_orch s1))"
    "at_agent t = a" "at_status t = PENDING" "at_priority t = prio" "orch_ok orch1"
    "ts_next (or_store orch1) = Suc (ts_next (or_store (tn_orch s1)))"
    "\<And>j. get_task j orch1 = (if j = at_id t then Some t else get_task j (tn_orch s1))"
    "ts_max_finished (or_store orch1) = ts_max_finished (or_store (tn_orch s1))"
    by (rule assign_ok [OF tasks_orch [OF oks(4)] reg, of now obj ctx prio]) (rule that)
  define t' where "t' = t\<lparr>at_max_iterations := its\<rparr>"
  define orch2 where "orch2 = orch1\<lparr>or_store := store_update t' (or_store orch1)\<rparr>"
  have t': "at_id t' = at_id t" "at_agent t' = a" "at_status t' = PENDING" by (simp_all add: t'_def as)
  have get1: "get_task (at_id t') orch1 = Some t" by (simp add: as t')
  have open1: "\<not> terminal (at_status t)" "at_agent t' = at_agent t" "\<not> terminal (at_status t')" by (simp_all add: as t')
  note rw = rewrite_ok [OF as(6) get1 open1, folded orch2_def]
  have orch2: "orch_ok orch2" "get_task j orch2 = (if j = at_id t then Some t' else get_task j (tn_orch s1))" for j
    using rw(1) rw(2) [of j] as(8) [of j] t'(1) by simp_all
  have next2: "ts_next (or_store orch2) = Suc (ts_next (or_store (tn_orch s1)))" by (simp add: orch2_def as(7))
  define s2 where "s2 = s1\<lparr>tn_orch := orch2\<rparr>"
  obtain q s3 where q: "queue_for a s2 = (q, s3)" by fastforce
  define s4 where "s4 = s3\<lparr>tn_queue_of := (tn_queue_of s3)(q := put_item (- at_priority t', tn_seq s3, at_id t) (tn_queue_of s3 q)),
      tn_seq := Suc (tn_seq s3)\<rparr>"
  define s5 where "s5 = ensure_worker a q s4"
  have "get_task (at_id t) (tn_orch s2) = Some t'" by (simp add: s2_def orch2)
  then have "submit_task (at_id t) s2 = Some s5" by (simp add: submit_task_def q t' s4_def s5_def)
  then have final: "snd (create_task now known a obj ctx prio its s) = s5"
    unfolding create_task_def s1_def [symmetric]
    using True as(1) by (simp add: t'_def [symmetric] orch2_def [symmetric] s2_def [symmetric] Let_def)
  have s2: "refs_ok s2" "workers_ok s2" "runs_ok s2" using oks by (simp_all add: s2_def)
  note q3 = queue_for_ok [OF s2 q]
  have s4: "refs_ok s4" "workers_ok s4" "runs_ok s4" using q3(1,2,3) by (simp_all add: s4_def)
  have drops: "tn_drops s4 = tn_drops s" by (simp add: s4_def q3 s2_def) (simp add: s1_def on_orch_def)
  then have calm4: "\<not> dropping a s4" using calm by (simp add: dropping_def)
  have qa: "od_get (tn_queues s4) a = Some q" by (simp add: s4_def q3(4))
  note e5 = ensure_worker_ok [OF s4 qa calm4, folded s5_def]
  have queues5: "od_get (tn_queues s5) b = (if b = a then Some q else od_get (tn_queues s1) b)" for b
    by (simp add: e5(6) s4_def q3(4)) (simp add: s2_def)
  have same: "tn_run_of s5 = tn_run_of s1" "tn_drops s5 = tn_drops s1" "tn_orch s5 = orch2"
    by (simp_all add: e5 s4_def q3 s2_def)
  have "tasks_ok s5"
  proof (rule tasks_new [OF oks(4), of s5 "ts_next (or_store (tn_orch s1))" t' a])
    fix b p x m i assume p: "od_get (tn_queues s5) b = Some p" "(x, m, i) \<in> set (tn_queue_of s5 p)"
    show "b = a \<and> i = ts_next (or_store (tn_orch s1)) \<or> od_get (tn_queues s1) b = Some p \<and> (x, m, i) \<in> set (tn_queue_of s1 p)"
    proof (cases "b = a")
      case True
      then have "p = q" using p(1) by (simp add: queues5)
      then have "(x, m, i) \<in> insert (- at_priority t', tn_seq s3, at_id t) (set (tn_queue_of s3 q))"
        using p(2) by (simp add: e5(7) s4_def)
      then have "i = at_id t \<or> (x, m, i) \<in> set (tn_queue_of s3 q)" by auto
      moreover have "od_get (tn_queues s1) a = Some q \<and> (x, m, i) \<in> set (tn_queue_of s1 q)" if "(x, m, i) \<in> set (tn_queue_of s3 q)"
        using that q3(5) [of a q] q3(6,7) by (auto simp: s2_def)
      ultimately show ?thesis using True \<open>p = q\<close> as(2) by auto
    next
      case False
      then have b: "od_get (tn_queues s1) b = Some p" using p(1) by (simp add: queues5)
      have "p \<noteq> q" using refs_queue_inj [OF q3(1), of b p a] q3(4) [of b] q3(4) [of a] b False by (auto simp: s2_def)
      then have "(x, m, i) \<in> set (tn_queue_of s3 p)" using p(2) by (simp add: e5(7) s4_def)
      then show ?thesis using b q3(5) [of b p] by (simp add: s2_def)
    qed
  next
    fix b i assume "queued s1 b i"
    then obtain p x m where b: "od_get (tn_workers s1) b \<noteq> None" "od_get (tn_queues s1) b = Some p" "(x, m, i) \<in> set (tn_queue_of s1 p)"
      unfolding queued_def by blast
    have "od_get (tn_workers s5) b \<noteq> None"
      using b(1) e5(4) e5(5) [of b] by (cases "b = a") (auto simp: s4_def q3 s2_def)
    moreover have "od_get (tn_queues s5) b = Some p" using b(2) q3(7) by (auto simp: queues5 s2_def)
    moreover have "(x, m, i) \<in> set (tn_queue_of s5 p)"
      using b(3) q3(5) [of b p] b(2) by (auto simp: e5(7) s4_def s2_def)
    ultimately show "queued s5 b i" unfolding queued_def by blast
  next
    show "queued s5 a (ts_next (or_store (tn_orch s1)))"
      unfolding queued_def using e5(4) queues5 [of a] as(2) by (auto simp: e5(7) s4_def)
  next
    show "\<not> dropping a s1" using calm by (simp add: s1_def on_orch_def dropping_def)
  qed (use orch2 next2 t' as(2) in \<open>simp_all add: same\<close>)
  then show ?thesis using e5(1,2,3) by (simp add: final runner_ok_def)
qed

lemma runner_step_ok: "runner_ok s \<Longrightarrow> calm e s \<Longrightarrow> runner_ok (runner_step e s)"
  by (cases e) (simp_all add: create_task_ok worker_step_ok run_start_ok run_progress_ok run_end_ok cancel_open_cases(1)
      drop_agents_ok drop_resume_ok shutdown_def del: drop_agents.simps)

lemma runner_new_ok: "runner_ok (runner_new m)"
  by (auto simp: runner_new_def runner_ok_def refs_ok_def workers_ok_def runs_ok_def tasks_ok_def live_worker_def
      live_run_def open_task_def orch_new_def orch_ok_def task_store_ok_def task_store_new_def)

lemma run_events_ok: "runner_ok s \<Longrightarrow> calm_run es s \<Longrightarrow> runner_ok (run_events es s)"
  by (induction es arbitrary: s) (simp_all add: run_events_def runner_step_ok)

end
