(* ===== verification/Task_Progress.thy ===== *)
theory Task_Progress
  imports Task_Steps
begin

text \<open>
  What the task runner of \<open>src/coreai/task_runner.py\<close> promises: one run at a time for each agent, finished tasks
  that stay finished, a bounded store, and no task that is lost.
\<close>

section \<open>What a step does to tasks\<close>

text \<open>Tasks known before are the tasks known after, and a finished one has not changed but for its step count.\<close>

definition tasks_evolve :: "orchestrator \<Rightarrow> orchestrator \<Rightarrow> bool" where
  "tasks_evolve orch orch' \<longleftrightarrow> ts_next (or_store orch) \<le> ts_next (or_store orch')
     \<and> ts_max_finished (or_store orch') = ts_max_finished (or_store orch)
     \<and> (\<forall>i t'. i < ts_next (or_store orch) \<longrightarrow> get_task i orch' = Some t' \<longrightarrow>
          (\<exists>t. get_task i orch = Some t \<and> (terminal (at_status t) \<longrightarrow> t' = t\<lparr>at_iterations := at_iterations t'\<rparr>)))"

lemma evolve_refl [simp]: "tasks_evolve orch orch"
  by (auto simp: tasks_evolve_def)

lemma evolve_trans:
  assumes "tasks_evolve o1 o2" "tasks_evolve o2 o3" shows "tasks_evolve o1 o3"
proof -
  have "\<exists>t. get_task i o1 = Some t \<and> (terminal (at_status t) \<longrightarrow> u = t\<lparr>at_iterations := at_iterations u\<rparr>)"
    if i: "i < ts_next (or_store o1)" "get_task i o3 = Some u" for i u
  proof -
    have "i < ts_next (or_store o2)" using assms(1) i(1) by (simp add: tasks_evolve_def)
    then obtain v where v: "get_task i o2 = Some v" "terminal (at_status v) \<longrightarrow> u = v\<lparr>at_iterations := at_iterations u\<rparr>"
      using assms(2) i(2) unfolding tasks_evolve_def by blast
    obtain t where t: "get_task i o1 = Some t" "terminal (at_status t) \<longrightarrow> v = t\<lparr>at_iterations := at_iterations v\<rparr>"
      using assms(1) i(1) v(1) unfolding tasks_evolve_def by blast
    have "u = t\<lparr>at_iterations := at_iterations u\<rparr>" if f: "terminal (at_status t)"
    proof -
      have vt: "v = t\<lparr>at_iterations := at_iterations v\<rparr>" using t(2) f by blast
      then have "at_status v = at_status t" by (metis agent_task.select_convs(5) agent_task.surjective agent_task.update_convs(11))
      with v(2) f have "u = v\<lparr>at_iterations := at_iterations u\<rparr>" by simp
      with vt show ?thesis by (metis agent_task.surjective agent_task.update_convs(11))
    qed
    with t(1) show ?thesis by blast
  qed
  with assms show ?thesis unfolding tasks_evolve_def by auto
qed

lemma closes_evolve: "closes i orch orch' \<Longrightarrow> tasks_evolve orch orch'"
proof -
  assume cl: "closes i orch orch'"
  then have o: "others_kept i orch orch'" by (simp add: closes_def)
  have "\<exists>t. get_task j orch = Some t \<and> (terminal (at_status t) \<longrightarrow> t' = t\<lparr>at_iterations := at_iterations t'\<rparr>)"
    if "get_task j orch' = Some t'" for j t'
  proof (cases "j = i")
    case True
    then show ?thesis using cl that unfolding closes_def by blast
  next
    case False
    from others_keptD(2) [OF o False that] show ?thesis by simp
  qed
  then show ?thesis using cl by (auto simp: tasks_evolve_def closes_def)
qed

lemma start_evolve:
  assumes "orch_ok orch" "get_task i orch = Some u" "\<not> terminal (at_status u)" "start_task now i orch = (err, orch')"
  shows "tasks_evolve orch orch'"
proof -
  note st = start_task_open [OF assms]
  have sz: "ts_next (or_store orch') = ts_next (or_store orch)" "ts_max_finished (or_store orch') = ts_max_finished (or_store orch)"
    using assms(2,4) by (auto simp: start_task_def)
  have "\<exists>t. get_task j orch = Some t \<and> (terminal (at_status t) \<longrightarrow> t' = t\<lparr>at_iterations := at_iterations t'\<rparr>)"
    if "get_task j orch' = Some t'" for j t'
  proof (cases "j = i")
    case True
    then show ?thesis using assms(2,3) by blast
  next
    case False
    from others_keptD(2) [OF st(3) False that] show ?thesis by simp
  qed
  then show ?thesis by (auto simp: tasks_evolve_def sz)
qed

lemma fail_open_evolve: "orch_ok orch \<Longrightarrow> tasks_evolve orch (fail_open now i e orch)"
proof (cases "\<exists>u. get_task i orch = Some u \<and> \<not> terminal (at_status u)")
  case True
  moreover assume "orch_ok orch"
  ultimately show ?thesis using closes_evolve fail_open_closes by blast
next
  case False
  then have "fail_open now i e orch = orch" by (intro fail_open_closed) auto
  then show ?thesis by simp
qed

lemma run_start_evolve:
  assumes ok: "runner_ok s" shows "tasks_evolve (tn_orch s) (tn_orch (run_start now r available s))"
proof (cases "\<exists>n. live_run s r n \<and> tr_phase n = Created \<and> \<not> tr_cancelled n")
  case False
  have "tn_orch (run_start now r available s) = tn_orch s"
    using False ok by (auto simp: run_start_def live_run_def set_task_run_def Let_def runner_ok_def split: option.splits dest: tasks_live)
  then show ?thesis by simp
next
  case True
  then obtain n where n: "live_run s r n" "tr_phase n = Created" "\<not> tr_cancelled n" by blast
  obtain u where u: "get_task (tr_task n) (tn_orch s) = Some u" "\<not> terminal (at_status u)" by (rule live_task [OF ok n(1,3)])
  have o: "orch_ok (tn_orch s)" using ok by (simp add: runner_ok_def tasks_orch)
  obtain err orch' where st: "start_task now (tr_task n) (tn_orch s) = (err, orch')" by fastforce
  have "err = None" by (rule start_task_open(1) [OF o u st])
  then show ?thesis using start_evolve [OF o u st] fail_open_evolve [OF o] n u st
    by (simp add: run_start_def live_run_def on_orch_def set_task_run_def Let_def)
qed

lemma run_end_evolve:
  assumes ok: "runner_ok s" shows "tasks_evolve (tn_orch s) (tn_orch (run_end now r result s))"
proof -
  have o: "orch_ok (tn_orch s)" using ok by (simp add: runner_ok_def tasks_orch)
  have "tasks_evolve (tn_orch s) (snd (complete_task now i out (tn_orch s))) \<and> fst (complete_task now i out (tn_orch s)) = None"
    if running: "status_is (\<lambda>st. st = RUNNING) i (tn_orch s)" for i out
  proof -
    obtain u where u: "get_task i (tn_orch s) = Some u" "\<not> terminal (at_status u)"
      using running by (auto simp: status_is_def split: option.splits)
    obtain orch' where "complete_task now i out (tn_orch s) = (None, orch')" "closes i (tn_orch s) orch'" by (rule complete_closes [OF o u])
    then show ?thesis using closes_evolve by simp
  qed
  then show ?thesis using fail_open_evolve [OF o]
    by (auto simp: run_end_def on_orch_def set_task_run_def Let_def split: option.splits run_outcome.splits prod.splits) (metis fst_conv option.distinct(1) snd_conv)+
qed

lemma run_progress_evolve:
  assumes ok: "runner_ok s" shows "tasks_evolve (tn_orch s) (tn_orch (run_progress r n s))"
proof -
  define orch' where "orch' i = (tn_orch s)\<lparr>or_store := (or_store (tn_orch s))\<lparr>ts_tasks :=
      od_map_at i (\<lambda>t. t\<lparr>at_iterations := n\<rparr>) (ts_tasks (or_store (tn_orch s)))\<rparr>\<rparr>" for i
  have o: "orch_ok (tn_orch s)" using ok by (simp add: runner_ok_def tasks_orch)
  have "tasks_evolve (tn_orch s) (orch' i)" for i
    unfolding tasks_evolve_def using progress_ok(2) [OF o orch'_def [of i]]
    by (auto simp: orch'_def split: if_splits)
  then show ?thesis by (auto simp: run_progress_def on_orch_def orch'_def split: option.split)
qed

lemma cancel_open_evolve:
  assumes ok: "runner_ok s" shows "tasks_evolve (tn_orch s) (tn_orch (snd (cancel_open now i s)))"
proof -
  have o: "orch_ok (tn_orch s)" using ok by (simp add: runner_ok_def tasks_orch)
  show ?thesis
  proof (cases "\<exists>u. get_task i (tn_orch s) = Some u \<and> \<not> terminal (at_status u)")
    case True
    then obtain u where "get_task i (tn_orch s) = Some u" "\<not> terminal (at_status u)" by blast
    from closes_evolve [OF cancel_closes [OF o this, of now]]
    show ?thesis by (auto simp: cancel_open_def on_orch_def Let_def split: option.split)
  next
    case False
    then show ?thesis by (auto simp: cancel_open_def terminal_def split: option.split)
  qed
qed

lemma cancel_all_evolve: "runner_ok s \<Longrightarrow> tasks_evolve (tn_orch s) (tn_orch (cancel_all now is s))"
proof (induction "is" arbitrary: s)
  case (Cons i "is")
  have "tasks_evolve (tn_orch (snd (cancel_open now i s))) (tn_orch (cancel_all now is (snd (cancel_open now i s))))"
    by (rule Cons.IH [OF cancel_open_cases(1) [OF Cons.prems]])
  with cancel_open_evolve [OF Cons.prems] show ?case by (simp add: cancel_all_def) (blast intro: evolve_trans)
qed (simp add: cancel_all_def)

lemma drop_finish_evolve:
  assumes ok: "runner_ok s" and idle: "\<And>i t. open_task s i t \<Longrightarrow> at_agent t \<noteq> a"
  shows "tasks_evolve (tn_orch s) (tn_orch (drop_finish now a s))"
proof -
  have o: "orch_ok (tn_orch s)" using ok by (simp add: runner_ok_def tasks_orch)
  have "terminal (at_status t)" if "get_task i (tn_orch s) = Some t" "at_agent t = a" for i t
    using idle [of i t] that by (auto simp: open_task_def)
  from unregister_idle(2) [where now = now, OF o this]
  show ?thesis by (auto simp: drop_finish_def on_orch_def tasks_evolve_def)
qed

lemma drop_agents_evolve: "runner_ok s \<Longrightarrow> tasks_evolve (tn_orch s) (tn_orch (drop_agents now as s))"
proof (induction now as s rule: drop_agents.induct)
  case (2 now a as s)
  define s1 where "s1 = cancel_all now (map at_id (list_by_agent a (or_store (tn_orch s)))) s"
  have ok: "runner_ok s1" using cancel_all_ok [OF 2(2)] by (simp add: s1_def)
  have e1: "tasks_evolve (tn_orch s) (tn_orch s1)" unfolding s1_def by (rule cancel_all_evolve [OF 2(2)])
  note idle = all_of_agent_cancelled [OF 2(2) s1_def]
  show ?case
  proof (cases "od_get (tn_workers s1) a")
    case None
    have e2: "tasks_evolve (tn_orch s1) (tn_orch (drop_finish now a s1))" by (rule drop_finish_evolve [OF ok idle])
    have "tasks_evolve (tn_orch (drop_finish now a s1)) (tn_orch (drop_agents now as (drop_finish now a s1)))"
      by (rule 2(1) [OF s1_def None drop_finish_ok(1) [OF ok idle None]])
    from evolve_trans [OF e1 evolve_trans [OF e2 this]] None show ?thesis by (simp add: s1_def Let_def)
  next
    case (Some w)
    then show ?thesis using e1 by (simp add: s1_def Let_def)
  qed
qed simp

lemma drop_resume_evolve:
  assumes ok: "runner_ok s" shows "tasks_evolve (tn_orch s) (tn_orch (drop_resume now n s))"
proof (cases "n < length (tn_drops s) \<and> worker_done (dr_worker (tn_drops s ! n)) s")
  case False
  then show ?thesis by (auto simp: drop_resume_def)
next
  case True
  note r = drop_removed [OF ok True refl refl]
  from evolve_trans [OF drop_finish_evolve [OF r(1,3)] drop_agents_evolve [OF drop_finish_ok(1) [OF r(1,3,2)]]] True
  show ?thesis by (simp add: drop_resume_def Let_def)
qed

lemma submit_orch: "submit_task i s = Some s' \<Longrightarrow> tn_orch s' = tn_orch s"
  by (auto simp: submit_task_def queue_for_def ensure_worker_def Let_def split: option.splits if_splits prod.splits)

lemma create_task_evolve:
  assumes ok: "runner_ok s" shows "tasks_evolve (tn_orch s) (tn_orch (snd (create_task now known a obj ctx prio its s)))"
proof (cases known)
  case False
  then show ?thesis by (simp add: create_task_def)
next
  case True
  define s1 where "s1 = (if od_has (or_agents (tn_orch s)) a then s else on_orch (register_agent now a PNone) s)"
  have o: "orch_ok (tn_orch s)" using ok by (simp add: runner_ok_def tasks_orch)
  have o1: "orch_ok (tn_orch s1)" "or_store (tn_orch s1) = or_store (tn_orch s)" by (simp_all add: s1_def on_orch_def register_ok o)
  have reg: "od_has (or_agents (tn_orch s1)) a" by (simp add: s1_def on_orch_def register_agent_def)
  obtain t orch1 where as: "assign_task now a obj ctx prio (tn_orch s1) = (Inr t, orch1)" "at_id t = ts_next (or_store (tn_orch s1))"
    "at_agent t = a" "at_status t = PENDING" "at_priority t = prio" "orch_ok orch1"
    "ts_next (or_store orch1) = Suc (ts_next (or_store (tn_orch s1)))"
    "\<And>j. get_task j orch1 = (if j = at_id t then Some t else get_task j (tn_orch s1))"
    "ts_max_finished (or_store orch1) = ts_max_finished (or_store (tn_orch s1))"
    by (rule assign_ok [OF o1(1) reg, of now obj ctx prio]) (rule that)
  define orch2 where "orch2 = orch1\<lparr>or_store := store_update (t\<lparr>at_max_iterations := its\<rparr>) (or_store orch1)\<rparr>"
  have get1: "get_task (at_id (t\<lparr>at_max_iterations := its\<rparr>)) orch1 = Some t" by (simp add: as)
  have "tn_orch (snd (create_task now known a obj ctx prio its s)) = orch2"
    unfolding create_task_def s1_def [symmetric]
    using True as(1) by (auto simp: orch2_def Let_def submit_orch split: option.split)
  moreover have "tasks_evolve (tn_orch s) orch2"
  proof -
    have "get_task j orch2 = (if j = at_id t then Some (t\<lparr>at_max_iterations := its\<rparr>) else get_task j orch1)" for j
      using rewrite_ok(2) [OF as(6) get1, of j] as(4) by (simp add: orch2_def)
    then show ?thesis using as(2,7,8,9) o1(2) by (auto simp: tasks_evolve_def orch2_def split: if_splits)
  qed
  ultimately show ?thesis by simp
qed

lemma worker_step_orch [simp]: "tn_orch (worker_step w s) = tn_orch s"
  by (auto simp: worker_step_def work_on_def split: option.split worker_phase.split prod.split)

lemma runner_step_evolve: "runner_ok s \<Longrightarrow> tasks_evolve (tn_orch s) (tn_orch (runner_step e s))"
  by (cases e) (simp_all add: create_task_evolve run_start_evolve run_progress_evolve run_end_evolve cancel_open_evolve
      drop_agents_evolve drop_resume_evolve shutdown_def del: drop_agents.simps)

lemma run_events_evolve: "runner_ok s \<Longrightarrow> calm_run es s \<Longrightarrow> tasks_evolve (tn_orch s) (tn_orch (run_events es s))"
proof (induction es arbitrary: s)
  case (Cons e es)
  have "runner_ok (runner_step e s)" using Cons.prems by (simp add: runner_step_ok)
  with Cons.IH [OF this] Cons.prems runner_step_evolve [OF Cons.prems(1), of e] show ?case
    by (auto simp: run_events_def intro: evolve_trans)
qed (simp add: run_events_def)

section \<open>No task is lost\<close>

definition open_ids :: "task_runner \<Rightarrow> nat set" where
  "open_ids s = {i. \<exists>t. open_task s i t}"

text \<open>The coroutines of the runner itself go on; every call of an agent ends in \<open>result\<close>.\<close>

fun own_step :: "time \<Rightarrow> bool \<Rightarrow> run_outcome \<Rightarrow> runner_event \<Rightarrow> bool" where
  "own_step now available result (WorkerStep w) = True"
| "own_step now available result (RunStart t r av) = (t = now \<and> av = available)"
| "own_step now available result (RunEnd t r res) = (t = now \<and> res = result)"
| "own_step now available result e = False"

lemma own_step_calm: "own_step now av res e \<Longrightarrow> calm e s"
  by (cases e) simp_all

lemma own_step_drops: "own_step now av res e \<Longrightarrow> tn_drops (runner_step e s) = tn_drops s"
  by (cases e) (auto simp: worker_step_def work_on_def cancel_task_run_def set_task_run_def run_start_def run_end_def on_orch_def Let_def
      split: option.splits worker_phase.splits prod.splits run_outcome.splits)

lemma finite_open: "finite (open_ids s)"
proof (rule finite_subset)
  show "open_ids s \<subseteq> fst ` set (ts_tasks (or_store (tn_orch s)))"
    by (auto simp: open_ids_def open_task_def dest!: map_of_SomeD) force
qed simp

lemma closes_open_ids: "closes i (tn_orch s) (tn_orch s') \<Longrightarrow> open_ids s' = open_ids s - {i}"
proof -
  assume cl: "closes i (tn_orch s) (tn_orch s')"
  then have o: "others_kept i (tn_orch s) (tn_orch s')" by (simp add: closes_def)
  have "open_task s' j = open_task s j" if "j \<noteq> i" for j
    using others_kept_open [OF o that] by (simp add: fun_eq_iff open_task_def)
  moreover have "\<not> open_task s' i t" for t using cl by (auto simp: closes_def open_task_def)
  ultimately have "j \<in> open_ids s' \<longleftrightarrow> j \<in> open_ids s \<and> j \<noteq> i" for j
    by (cases "j = i") (simp_all add: open_ids_def)
  then show ?thesis by blast
qed

text \<open>What is reached by the runner's own steps.\<close>

definition reaches :: "time \<Rightarrow> bool \<Rightarrow> run_outcome \<Rightarrow> task_runner \<Rightarrow> task_runner \<Rightarrow> bool" where
  "reaches now av res s s' \<longleftrightarrow> (\<exists>es. list_all (own_step now av res) es \<and> s' = run_events es s)"

lemma reaches_refl [simp]: "reaches now av res s s"
  unfolding reaches_def by (rule exI [of _ "[]"]) (simp add: run_events_def)

lemma reaches_step: "own_step now av res e \<Longrightarrow> reaches now av res (runner_step e s) s' \<Longrightarrow> reaches now av res s s'"
  unfolding reaches_def by (elim exE conjE) (rule_tac x = "e # es" in exI, simp add: run_events_def)

text \<open>A run that is dispatched can end; one that is created can be dispatched and end.\<close>

lemma dispatched_ends:
  assumes answered: "res \<noteq> Interrupted" and ok: "runner_ok s" and n: "live_run s r n" "tr_phase n = Dispatched" "\<not> tr_cancelled n"
  shows "open_ids (runner_step (RunEnd now r res) s) = open_ids s - {tr_task n}" "tr_task n \<in> open_ids s"
proof -
  have o: "orch_ok (tn_orch s)" using ok by (simp add: runner_ok_def tasks_orch)
  obtain u where u: "get_task (tr_task n) (tn_orch s) = Some u" "\<not> terminal (at_status u)"
    "at_status u = phase_status (tr_phase n)" by (rule live_task [OF ok n(1,3)])
  then show "tr_task n \<in> open_ids s" by (auto simp: open_ids_def open_task_def)
  have run: "status_is (\<lambda>st. st = RUNNING) (tr_task n) (tn_orch s)" using u n(2) by (simp add: status_is_def phase_status_def)
  have "closes (tr_task n) (tn_orch s) (tn_orch (run_end now r res s))"
  proof (cases "\<exists>out. res = Answer (Some out)")
    case True
    then obtain out where r: "res = Answer (Some out)" by blast
    obtain orch' where "complete_task now (tr_task n) out (tn_orch s) = (None, orch')" "closes (tr_task n) (tn_orch s) orch'"
      by (rule complete_closes [OF o u(1,2)])
    then show ?thesis using n run r by (simp add: run_end_def live_run_def set_task_run_def Let_def)
  next
    case False
    then show ?thesis using fail_open_closes [OF o u(1,2)] n answered
      by (auto simp: run_end_def live_run_def set_task_run_def on_orch_def Let_def split: run_outcome.splits option.splits)
  qed
  from closes_open_ids [OF this] show "open_ids (runner_step (RunEnd now r res) s) = open_ids s - {tr_task n}" by simp
qed

lemma created_ends:
  assumes answered: "res \<noteq> Interrupted" and ok: "runner_ok s" and n: "live_run s r n" "tr_phase n = Created" "\<not> tr_cancelled n"
  shows "\<exists>s'. reaches now av res s s' \<and> open_ids s' \<subset> open_ids s"
proof -
  have o: "orch_ok (tn_orch s)" using ok by (simp add: runner_ok_def tasks_orch)
  obtain u where u: "get_task (tr_task n) (tn_orch s) = Some u" "\<not> terminal (at_status u)" by (rule live_task [OF ok n(1,3)])
  have mem: "tr_task n \<in> open_ids s" using u by (auto simp: open_ids_def open_task_def)
  let ?s = "runner_step (RunStart now r av) s"
  obtain err orch' where st: "start_task now (tr_task n) (tn_orch s) = (err, orch')" by fastforce
  note start = start_task_open [OF o u st]
  show ?thesis
  proof (cases av)
    case False
    then have "tn_orch ?s = fail_open now (tr_task n) (''RuntimeError: Agent '' @ tr_agent n @ '' is no longer available'') (tn_orch s)"
      using n u by (simp add: run_start_def live_run_def set_task_run_def on_orch_def Let_def)
    then have "open_ids ?s = open_ids s - {tr_task n}" using closes_open_ids fail_open_closes [OF o u] by simp
    then have "open_ids ?s \<subset> open_ids s" using mem by auto
    moreover have "reaches now av res s ?s" by (rule reaches_step [OF _ reaches_refl]) simp
    ultimately show ?thesis by blast
  next
    case True
    then have s: "?s = set_task_run r (\<lambda>n. n\<lparr>tr_phase := Dispatched\<rparr>) (s\<lparr>tn_orch := orch'\<rparr>)"
      using n u st start(1) by (simp add: run_start_def live_run_def Let_def)
    have l: "live_run ?s r (n\<lparr>tr_phase := Dispatched\<rparr>)"
      unfolding s using n by (simp add: set_task_run_def live_run_def)
    have ok': "runner_ok ?s" using run_start_ok [OF ok] by simp
    have orch: "tn_orch ?s = orch'" unfolding s by (simp add: set_task_run_def)
    have "open_ids ?s = open_ids s"
    proof -
      have "j \<in> open_ids ?s \<longleftrightarrow> j \<in> open_ids s" for j
        using others_kept_open [OF start(3), of j] start(4) u unfolding open_ids_def open_task_def orch
        by (cases "j = tr_task n") auto
      then show ?thesis by blast
    qed
    with dispatched_ends [OF answered ok' l] n mem
    have "open_ids (runner_step (RunEnd now r res) ?s) \<subset> open_ids s" by auto
    moreover have "reaches now av res s (runner_step (RunEnd now r res) ?s)"
      by (rule reaches_step [OF _ reaches_step [OF _ reaches_refl]]) simp_all
    ultimately show ?thesis by blast
  qed
qed

text \<open>A free worker with a pending task in its queue starts a run.\<close>

lemma work_on_starts:
  assumes k: "tn_worker_of s w = Some k" and i: "(p, m, i) \<in> set (tn_queue_of s (wk_queue k))"
    and t: "get_task i (tn_orch s) = Some t" "at_status t = PENDING"
  shows "\<exists>r n. live_run (work_on w k s) r n \<and> tr_phase n = Created \<and> \<not> tr_cancelled n"
proof -
  obtain q' j where "next_pending (tn_orch s) (tn_queue_of s (wk_queue k)) = (Some j, q')"
    using next_pending_None [of "tn_orch s" "tn_queue_of s (wk_queue k)"] i t
    by (cases "next_pending (tn_orch s) (tn_queue_of s (wk_queue k))"; cases "fst (next_pending (tn_orch s) (tn_queue_of s (wk_queue k)))") auto
  then show ?thesis by (auto simp: work_on_def live_run_def)
qed

lemma open_ids_orch: "tn_orch s' = tn_orch s \<Longrightarrow> open_ids s' = open_ids s"
  by (simp add: open_ids_def open_task_def)

lemma free_worker_ends:
  assumes answered: "res \<noteq> Interrupted" and ok: "runner_ok s" and k: "tn_worker_of s w = Some k" "\<not> wk_cancelled k"
    and free: "wk_phase k = Waiting \<or> wk_phase k = Busy r \<and> run_over r s"
    and i: "(p, m, i) \<in> set (tn_queue_of s (wk_queue k))" "get_task i (tn_orch s) = Some t" "at_status t = PENDING"
  shows "\<exists>s'. reaches now av res s s' \<and> open_ids s' \<subset> open_ids s"
proof -
  let ?s = "runner_step (WorkerStep w) s"
  have "\<exists>r n. live_run ?s r n \<and> tr_phase n = Created \<and> \<not> tr_cancelled n"
    using free
  proof
    assume "wk_phase k = Waiting"
    then show ?thesis using work_on_starts [OF k(1) i] k by (simp add: worker_step_def)
  next
    assume b: "wk_phase k = Busy r \<and> run_over r s"
    have "\<exists>r n. live_run (work_on w k (s\<lparr>tn_current := od_pop (wk_agent k) (tn_current s)\<rparr>)) r n \<and> tr_phase n = Created \<and> \<not> tr_cancelled n"
      by (rule work_on_starts) (use k i in simp_all)
    then show ?thesis using b k by (simp add: worker_step_def)
  qed
  then obtain r' n where n: "live_run ?s r' n" "tr_phase n = Created" "\<not> tr_cancelled n" by blast
  have "runner_ok ?s" using worker_step_ok [OF ok] by simp
  from created_ends [OF answered this n] obtain s' where "reaches now av res ?s s'" "open_ids s' \<subset> open_ids ?s" by blast
  moreover have "open_ids ?s = open_ids s" by (rule open_ids_orch) simp
  ultimately show ?thesis using reaches_step [of now av res "WorkerStep w" s s'] by auto
qed

text \<open>A cancelled run ends, and its task stays as it is.\<close>

lemma cancelled_ends:
  assumes ok: "runner_ok s" and n: "live_run s r n" "tr_cancelled n"
  shows "\<exists>e. own_step now av res e \<and> run_over r (runner_step e s) \<and> tn_orch (runner_step e s) = tn_orch s
     \<and> tn_worker_of (runner_step e s) = tn_worker_of s \<and> tn_queue_of (runner_step e s) = tn_queue_of s"
proof (cases "tr_phase n")
  case Created
  then show ?thesis using n
    by (intro exI [of _ "RunStart now r av"]) (simp add: run_start_def live_run_def run_over_def set_task_run_def Let_def)
next
  case Dispatched
  have "terminal (at_status t)" if "get_task (tr_task n) (tn_orch s) = Some t" for t
    using tasks_cancelled [of s r n t] ok n that by (simp add: open_task_def runner_ok_def)
  then have "fail_open now (tr_task n) e (tn_orch s) = tn_orch s" "\<not> status_is (\<lambda>st. st = RUNNING) (tr_task n) (tn_orch s)" for e
    using fail_open_closed by (auto simp: status_is_def split: option.splits)
  then show ?thesis using n Dispatched
    by (intro exI [of _ "RunEnd now r res"])
      (auto simp: run_end_def live_run_def run_over_def set_task_run_def on_orch_def Let_def split: run_outcome.split option.split)
next
  case Over
  then show ?thesis using n by (simp add: live_run_def)
qed

lemma some_task_ends:
  assumes answered: "res \<noteq> Interrupted" and ok: "runner_ok s" and i: "i \<in> open_ids s"
  shows "\<exists>s'. reaches now av res s s' \<and> open_ids s' \<subset> open_ids s"
proof -
  have oks: "refs_ok s" "workers_ok s" "runs_ok s" "tasks_ok s" using ok by (simp_all add: runner_ok_def)
  have dispatched: ?thesis if "live_run s r n" "tr_phase n = Dispatched" "\<not> tr_cancelled n" for r n
  proof -
    from dispatched_ends [OF answered ok that] have "open_ids (runner_step (RunEnd now r res) s) \<subset> open_ids s" by auto
    moreover have "reaches now av res s (runner_step (RunEnd now r res) s)" by (rule reaches_step [OF _ reaches_refl]) simp
    ultimately show ?thesis by blast
  qed
  obtain t where t: "get_task i (tn_orch s) = Some t" "\<not> terminal (at_status t)" using i by (auto simp: open_ids_def open_task_def)
  show ?thesis
  proof (cases "at_status t = RUNNING")
    case True
    from tasks_running [OF oks(4) t(1) True] dispatched show ?thesis by blast
  next
    case False
    then have p: "at_status t = PENDING" using t(2) not_terminal by blast
    from tasks_pending [OF oks(4) t(1) p] show ?thesis
    proof
      assume "\<exists>r n. live_run s r n \<and> tr_task n = i \<and> tr_phase n = Created \<and> \<not> tr_cancelled n"
      then show ?thesis using created_ends [OF answered ok] by blast
    next
      assume "queued s (at_agent t) i"
      then obtain w q x m where w: "od_get (tn_workers s) (at_agent t) = Some w" "od_get (tn_queues s) (at_agent t) = Some q"
        "(x, m, i) \<in> set (tn_queue_of s q)" by (auto simp: queued_def)
      obtain k where k: "live_worker s w k" "wk_agent k = at_agent t" "\<not> wk_cancelled k" "od_get (tn_queues s) (at_agent t) = Some (wk_queue k)"
        using workers_table [OF oks(2) w(1)] by blast
      have kw: "tn_worker_of s w = Some k" using k(1) by (simp add: live_worker_def)
      have item: "(x, m, i) \<in> set (tn_queue_of s (wk_queue k))" using w(2,3) k(4) by simp
      show ?thesis
      proof (cases "wk_phase k")
        case Waiting
        then show ?thesis using free_worker_ends [OF answered ok kw k(3) _ item t(1) p] by blast
      next
        case (Busy r)
        show ?thesis
        proof (cases "run_over r s")
          case True
          then show ?thesis using free_worker_ends [OF answered ok kw k(3) _ item t(1) p] Busy by blast
        next
          case False
          then obtain n where n: "live_run s r n" by (auto simp: run_over_def live_run_def split: option.splits)
          show ?thesis
          proof (cases "tr_cancelled n")
            case True
            from cancelled_ends [OF ok n True] obtain e where e: "own_step now av res e" "run_over r (runner_step e s)"
              "tn_orch (runner_step e s) = tn_orch s" "tn_worker_of (runner_step e s) = tn_worker_of s"
              "tn_queue_of (runner_step e s) = tn_queue_of s" by blast
            have ok': "runner_ok (runner_step e s)" by (rule runner_step_ok [OF ok own_step_calm [OF e(1)]])
            have "\<exists>s'. reaches now av res (runner_step e s) s' \<and> open_ids s' \<subset> open_ids (runner_step e s)"
              by (rule free_worker_ends [OF answered ok', of w k r x m i t])
                (simp_all only: e kw k(3) item t(1) p Busy not_False_eq_True simp_thms)
            then obtain s' where s': "reaches now av res (runner_step e s) s'" "open_ids s' \<subset> open_ids s"
              unfolding open_ids_orch [OF e(3)] by blast
            from reaches_step [OF e(1) s'(1)] s'(2) show ?thesis by blast
          next
            case nc: False
            show ?thesis
            proof (cases "tr_phase n")
              case Over
              then show ?thesis using n by (simp add: live_run_def)
            qed (use created_ends [OF answered ok n] dispatched [OF n] nc in blast)+
          qed
        qed
      next
        case (Stopping r)
        then show ?thesis using workers_stopping [OF oks(2) kw] k(3) by blast
      next
        case Ended
        then show ?thesis using k(1) by (simp add: live_worker_def)
      qed
    qed
  qed
qed

lemma reaches_ok: "runner_ok s \<Longrightarrow> reaches now av res s s' \<Longrightarrow> runner_ok s'"
proof -
  have "runner_ok s \<Longrightarrow> list_all (own_step now av res) es \<Longrightarrow> runner_ok (run_events es s)" for es s
    by (induction es arbitrary: s) (auto simp: run_events_def intro: runner_step_ok own_step_calm)
  then show "runner_ok s \<Longrightarrow> reaches now av res s s' \<Longrightarrow> runner_ok s'" unfolding reaches_def by blast
qed

lemma reaches_trans: "reaches now av res s s' \<Longrightarrow> reaches now av res s' s'' \<Longrightarrow> reaches now av res s s''"
proof -
  assume "reaches now av res s s'" "reaches now av res s' s''"
  then obtain es es' where "list_all (own_step now av res) es" "s' = run_events es s"
    "list_all (own_step now av res) es'" "s'' = run_events es' s'" unfolding reaches_def by blast
  then show ?thesis unfolding reaches_def by (intro exI [of _ "es @ es'"]) (simp add: run_events_def)
qed

lemma all_tasks_end:
  assumes answered: "res \<noteq> Interrupted"
  shows "runner_ok s \<Longrightarrow> \<exists>s'. reaches now av res s s' \<and> open_ids s' = {}"
proof (induction "card (open_ids s)" arbitrary: s rule: less_induct)
  case less
  show ?case
  proof (cases "open_ids s = {}")
    case True
    then show ?thesis using reaches_refl by blast
  next
    case False
    then obtain s1 where s1: "reaches now av res s s1" "open_ids s1 \<subset> open_ids s" using some_task_ends [OF answered less.prems] by blast
    have "card (open_ids s1) < card (open_ids s)" using s1(2) finite_open by (simp add: psubset_card_mono)
    from less.hyps [OF this reaches_ok [OF less.prems s1(1)]] s1(1) show ?thesis using reaches_trans by blast
  qed
qed

section \<open>Properties\<close>

text \<open>
  C10. An agent runs one task at a time. After any events in which no task is created for an agent while it is
  being dropped, two runs of one agent that are not over are the same run; a task is recorded as running
  exactly while an uncancelled run of it waits for the agent; and the store keeps at most its bound of
  finished tasks.
\<close>

theorem one_run_per_agent:
  assumes "calm_run es (runner_new m)" and "s = run_events es (runner_new m)"
  shows "(\<forall>r n r' n'. live_run s r n \<longrightarrow> live_run s r' n' \<longrightarrow> tr_agent n = tr_agent n' \<longrightarrow> r = r')
    \<and> (\<forall>i. status_is (\<lambda>st. st = RUNNING) i (tn_orch s) \<longleftrightarrow>
          (\<exists>r n. live_run s r n \<and> tr_task n = i \<and> tr_phase n = Dispatched \<and> \<not> tr_cancelled n))
    \<and> card {i. \<exists>t. get_task i (tn_orch s) = Some t \<and> terminal (at_status t)} \<le> m"
proof -
  have ok: "runner_ok s" using run_events_ok [OF runner_new_ok assms(1)] assms(2) by simp
  then have oks: "runs_ok s" "tasks_ok s" by (simp_all add: runner_ok_def)
  have sok: "task_store_ok (or_store (tn_orch s))" using tasks_orch [OF oks(2)] by (simp add: orch_ok_def)
  have "status_is (\<lambda>st. st = RUNNING) i (tn_orch s) \<longleftrightarrow>
      (\<exists>r n. live_run s r n \<and> tr_task n = i \<and> tr_phase n = Dispatched \<and> \<not> tr_cancelled n)" for i
  proof
    assume "status_is (\<lambda>st. st = RUNNING) i (tn_orch s)"
    then obtain t where "get_task i (tn_orch s) = Some t" "at_status t = RUNNING" by (auto simp: status_is_def split: option.splits)
    from tasks_running [OF oks(2) this] show "\<exists>r n. live_run s r n \<and> tr_task n = i \<and> tr_phase n = Dispatched \<and> \<not> tr_cancelled n" .
  next
    assume "\<exists>r n. live_run s r n \<and> tr_task n = i \<and> tr_phase n = Dispatched \<and> \<not> tr_cancelled n"
    then obtain r n where n: "live_run s r n" "tr_task n = i" "tr_phase n = Dispatched" "\<not> tr_cancelled n" by blast
    from tasks_live [OF oks(2) n(1,4)] n show "status_is (\<lambda>st. st = RUNNING) i (tn_orch s)"
      by (auto simp: status_is_def phase_status_def)
  qed
  moreover have "ts_max_finished (or_store (tn_orch s)) = m"
    using run_events_evolve [OF runner_new_ok assms(1)] assms(2)
    by (simp add: tasks_evolve_def runner_new_def orch_new_def task_store_new_def)
  moreover have "{i. \<exists>t. get_task i (tn_orch s) = Some t \<and> terminal (at_status t)} = set (ts_finished (or_store (tn_orch s)))"
    using sok by (auto simp: task_store_ok_def)
  ultimately show ?thesis
    using live_run_unique [OF oks(1)] sok by (auto simp: task_store_ok_def distinct_card)
qed

definition two_tasks :: "runner_event list" where
  "two_tasks = [CreateTask 1 True ''a'' ''sum'' PNone 2 10, CreateTask 1 True ''a'' ''mail'' PNone 3 10, WorkerStep 1, RunStart 2 2 True]"

theorem one_run_per_agent_witness:
  "calm_run two_tasks (runner_new 5)
   \<and> (\<exists>r n. live_run (run_events two_tasks (runner_new 5)) r n \<and> tr_task n = 1 \<and> tr_phase n = Dispatched)"
proof -
  have c: "calm_run two_tasks (runner_new 5)" by code_simp
  have "status_is (\<lambda>st. st = RUNNING) 1 (tn_orch (run_events two_tasks (runner_new 5)))" by code_simp
  with one_run_per_agent [OF c refl] c show ?thesis by blast
qed

text \<open>
  A finished task stays finished: once it is completed, failed or cancelled, whatever happens later (late
  answers, cancellations, timeouts, dropped agents, shutdown), a task that is still in the store has the
  same status, result, error and times; at most its step count may change.
\<close>

theorem finished_tasks_stay:
  assumes "calm_run (es @ es') (runner_new m)"
    and "get_task i (tn_orch (run_events es (runner_new m))) = Some t" and "terminal (at_status t)"
    and "get_task i (tn_orch (run_events (es @ es') (runner_new m))) = Some t'"
  shows "t' = t\<lparr>at_iterations := at_iterations t'\<rparr>"
proof -
  define s where "s = run_events es (runner_new m)"
  have split: "calm_run es u \<and> calm_run es' (run_events es u)" if "calm_run (es @ es') u" for u
    using that by (induction es arbitrary: u) (simp_all add: run_events_def)
  have ok: "runner_ok s" unfolding s_def by (rule run_events_ok [OF runner_new_ok]) (use split assms(1) in blast)
  have "i < ts_next (or_store (tn_orch s))"
    using ok assms(2) by (auto simp: runner_ok_def tasks_ok_def orch_ok_def task_store_ok_def s_def)
  moreover have "tasks_evolve (tn_orch s) (tn_orch (run_events es' s))"
    by (rule run_events_evolve [OF ok]) (use split assms(1) s_def in blast)
  moreover have "run_events (es @ es') (runner_new m) = run_events es' s" by (simp add: run_events_def s_def)
  ultimately show ?thesis using assms(2-4) by (auto simp: tasks_evolve_def s_def)
qed

theorem finished_tasks_stay_witness:
  "\<exists>t. get_task 1 (tn_orch (run_events (two_tasks @ [RunEnd 3 2 (Answer (Some ''sent'')), CancelTask 4 1, WorkerStep 1])
        (runner_new 5))) = Some t \<and> at_status t = COMPLETED \<and> at_result t = Some ''sent''"
proof -
  let ?es = "two_tasks @ [RunEnd 3 2 (Answer (Some ''sent''))]" and ?more = "[CancelTask 4 1, WorkerStep 1]"
  have c: "calm_run (?es @ ?more) (runner_new 5)" by code_simp
  have "map_option at_status (get_task 1 (tn_orch (run_events ?es (runner_new 5)))) = Some COMPLETED"
    "map_option at_result (get_task 1 (tn_orch (run_events ?es (runner_new 5)))) = Some (Some ''sent'')" by code_simp+
  then obtain t where t: "get_task 1 (tn_orch (run_events ?es (runner_new 5))) = Some t" "at_status t = COMPLETED" "at_result t = Some ''sent''"
    by auto
  have "get_task 1 (tn_orch (run_events (?es @ ?more) (runner_new 5))) \<noteq> None" by code_simp
  then obtain t' where t': "get_task 1 (tn_orch (run_events (?es @ ?more) (runner_new 5))) = Some t'" by blast
  have "t' = t\<lparr>at_iterations := at_iterations t'\<rparr>" by (rule finished_tasks_stay [OF c t(1) _ t']) (simp add: t)
  then have "at_status t' = COMPLETED" "at_result t' = Some ''sent''"
    using t by (metis agent_task.select_convs(5,6) agent_task.surjective agent_task.update_convs(11))+
  with t' show ?thesis by simp
qed

text \<open>
  C1. No task is lost: whatever events came before, the runner's own coroutines can always go on until every task
  is finished, without further requests and whatever (but one and the same) end the calls of the agents come to.
\<close>

theorem no_task_lost:
  assumes "calm_run es (runner_new m)" and "result \<noteq> Interrupted"
  shows "\<exists>es'. list_all (own_step now available result) es'
    \<and> (\<forall>i t. get_task i (tn_orch (run_events (es @ es') (runner_new m))) = Some t \<longrightarrow> terminal (at_status t))"
proof -
  have "runner_ok (run_events es (runner_new m))" by (rule run_events_ok [OF runner_new_ok assms(1)])
  from all_tasks_end [OF assms(2) this] obtain es' where es': "list_all (own_step now available result) es'"
    "open_ids (run_events es' (run_events es (runner_new m))) = {}" unfolding reaches_def by blast
  then show ?thesis by (intro exI [of _ es']) (auto simp: run_events_def open_ids_def open_task_def)
qed

theorem no_task_lost_witness:
  "\<exists>es'. list_all (own_step 9 True (RunFailed ''boom'')) es'
    \<and> (\<forall>t. get_task 0 (tn_orch (run_events (two_tasks @ es') (runner_new 5))) = Some t \<longrightarrow> terminal (at_status t))"
proof -
  have c: "calm_run two_tasks (runner_new 5)" by code_simp
  show ?thesis using no_task_lost [OF c, of "RunFailed ''boom''" 9 True] by blast
qed

text \<open>
  The condition on dropped agents is needed: \<open>drop_agent\<close> waits for the worker while the agent is still
  registered, so a task created meanwhile gets a second worker, its run is not cancelled with the task, and a
  cancelled task runs and completes.
\<close>

definition drop_race :: "runner_event list" where
  "drop_race = [CreateTask 1 True ''a'' ''sum'' PNone 2 10, WorkerStep 1, RunStart 2 2 True, DropAgent 3 ''a'',
     CreateTask 3 True ''a'' ''mail'' PNone 2 10, WorkerStep 3, WorkerStep 1, RunEnd 4 2 Interrupted, WorkerStep 1, DropResume 4 0]"

lemma dropped_task_revives:
  "map_option at_status (get_task 1 (tn_orch (run_events drop_race (runner_new 5)))) = Some CANCELLED"
  "map_option at_status (get_task 1 (tn_orch (run_events (drop_race @ [RunStart 5 4 True, RunEnd 6 4 (Answer (Some ''sent''))])
     (runner_new 5)))) = Some COMPLETED"
  by code_simp+

end
