(* ===== verification/Triggers.thy ===== *)
theory Triggers
  imports Cron Templates
begin

text \<open>
  \<open>src/harness/triggers.py\<close>: interval, cron, webhook and event triggers that start agent runs. Trigger
  objects and the tasks that run them have references (positions in two lists), because a trigger that is
  removed while its run goes on is still the object the run writes to.
\<close>

section \<open>Values\<close>

text \<open>Python's \<open>==\<close> on parsed values; numbers and booleans compare by value, dictionaries without their order.\<close>

fun num_value :: "pyval \<Rightarrow> real option" where
  "num_value (PBool b) = Some (if b then 1 else 0)"
| "num_value (PInt n) = Some (of_int n)"
| "num_value (PFloat r) = Some r"
| "num_value _ = None"

fun py_eq :: "pyval \<Rightarrow> pyval \<Rightarrow> bool"
  and py_eqs :: "pyval list \<Rightarrow> pyval list \<Rightarrow> bool"
  and py_sub :: "(string \<times> pyval) list \<Rightarrow> (string \<times> pyval) list \<Rightarrow> bool" where
  "py_eq PNone w = (w = PNone)"
| "py_eq PNonFinite w = False"
| "py_eq (PStr s) w = (w = PStr s)"
| "py_eq (PBool b) w = (num_value w = num_value (PBool b))"
| "py_eq (PInt n) w = (num_value w = num_value (PInt n))"
| "py_eq (PFloat r) w = (num_value w = num_value (PFloat r))"
| "py_eq (PList xs) w = (case w of PList ys \<Rightarrow> py_eqs xs ys | _ \<Rightarrow> False)"
| "py_eq (PDict d) w = (case w of PDict e \<Rightarrow> length d = length e \<and> py_sub d e | _ \<Rightarrow> False)"
| "py_eqs [] ys = (ys = [])"
| "py_eqs (x # xs) ys = (case ys of [] \<Rightarrow> False | y # ys \<Rightarrow> py_eq x y \<and> py_eqs xs ys)"
| "py_sub [] e = True"
| "py_sub ((k, v) # d) e = ((case map_of e k of None \<Rightarrow> False | Some w \<Rightarrow> py_eq v w) \<and> py_sub d e)"

text \<open>\<open>str\<close>; how floats (and containers, which the callers exclude) are written is an argument.\<close>

fun py_str :: "(pyval \<Rightarrow> string) \<Rightarrow> pyval \<Rightarrow> string" where
  "py_str fl PNone = ''None''"
| "py_str fl (PBool b) = (if b then ''True'' else ''False'')"
| "py_str fl (PInt n) = (if n < 0 then CHR ''-'' # show_nat (nat (- n)) else show_nat (nat n))"
| "py_str fl (PStr s) = s"
| "py_str fl v = fl v"

section \<open>State\<close>

record trigger =
  tg_name :: string
  tg_agent :: string
  tg_goal :: string
  tg_owner :: string
  tg_interval :: real
  tg_cron :: "cron option"
  tg_secret :: string
  tg_event :: string
  tg_match :: "(string, pyval) odict"
  tg_max_per_hour :: int
  tg_next_at :: time
  tg_fired :: "time list"
  tg_skipped :: nat
  tg_last_run :: "string option"
  tg_run :: "nat option"

text \<open>The task of \<open>_go\<close>: the trigger it belongs to and the arguments of \<open>runner.run\<close>.\<close>

record trigger_run =
  gr_trigger :: nat
  gr_agent :: string
  gr_text :: string
  gr_owner :: string
  gr_started :: time
  gr_done :: bool

record trigger_manager =
  gm_names :: "(string, nat) odict"
  gm_objects :: "trigger list"
  gm_runs :: "trigger_run list"

definition triggers_new :: trigger_manager where
  "triggers_new = \<lparr>gm_names = [], gm_objects = [], gm_runs = []\<rparr>"

text \<open>The agents of the runner, \<open>str\<close> of a float, HMAC-SHA256 in hexadecimal, and \<open>json.loads\<close>.\<close>

record trigger_env =
  te_agent :: "string \<Rightarrow> bool"
  te_float :: "pyval \<Rightarrow> string"
  te_hmac :: "string \<Rightarrow> string \<Rightarrow> string"
  te_json :: "string \<Rightarrow> pyval option"

datatype trigger_error =
    BadInterval | BadExpression cron_error | NoSecret | NameTaken string | UnknownAgent string
  | NoSuchTrigger string | BadSignature

section \<open>Registering\<close>

definition new_trigger :: "string \<Rightarrow> string \<Rightarrow> string \<Rightarrow> string \<Rightarrow> int \<Rightarrow> trigger" where
  "new_trigger name agent task owner cap =
     \<lparr>tg_name = name, tg_agent = agent, tg_goal = task, tg_owner = owner, tg_interval = 0, tg_cron = None,
      tg_secret = [], tg_event = [], tg_match = [], tg_max_per_hour = cap, tg_next_at = 0, tg_fired = [],
      tg_skipped = 0, tg_last_run = None, tg_run = None\<rparr>"

definition add_trigger :: "trigger_env \<Rightarrow> trigger \<Rightarrow> trigger_manager \<Rightarrow> trigger_error option \<times> trigger_manager" where
  "add_trigger E t m =
     (if od_has (gm_names m) (tg_name t) then (Some (NameTaken (tg_name t)), m)
      else if \<not> te_agent E (tg_agent t) then (Some (UnknownAgent (tg_agent t)), m)
      else (None, m\<lparr>gm_names := od_set (tg_name t) (length (gm_objects m)) (gm_names m),
                    gm_objects := gm_objects m @ [t]\<rparr>))"

definition every ::
  "trigger_env \<Rightarrow> time \<Rightarrow> string \<Rightarrow> real \<Rightarrow> string \<Rightarrow> string \<Rightarrow> string \<Rightarrow> int \<Rightarrow> trigger_manager
    \<Rightarrow> trigger_error option \<times> trigger_manager" where
  "every E now name seconds agent task owner cap m =
     (if seconds \<le> 0 then (Some BadInterval, m)
      else add_trigger E ((new_trigger name agent task owner cap)\<lparr>tg_interval := seconds, tg_next_at := now + seconds\<rparr>) m)"

definition on_cron ::
  "trigger_env \<Rightarrow> time \<Rightarrow> string \<Rightarrow> string \<Rightarrow> string \<Rightarrow> string \<Rightarrow> string \<Rightarrow> int \<Rightarrow> trigger_manager
    \<Rightarrow> trigger_error option \<times> trigger_manager" where
  "on_cron E now name expr agent task owner cap m =
     (case cron_new expr of
        Inl e \<Rightarrow> (Some (BadExpression e), m)
      | Inr c \<Rightarrow>
          (case next_after c now of
             Inl e \<Rightarrow> (Some (BadExpression e), m)
           | Inr n \<Rightarrow> add_trigger E ((new_trigger name agent task owner cap)\<lparr>tg_cron := Some c, tg_next_at := n\<rparr>) m))"

definition on_webhook ::
  "trigger_env \<Rightarrow> string \<Rightarrow> string \<Rightarrow> string \<Rightarrow> string \<Rightarrow> string \<Rightarrow> int \<Rightarrow> trigger_manager
    \<Rightarrow> trigger_error option \<times> trigger_manager" where
  "on_webhook E name secret agent task owner cap m =
     (if secret = [] then (Some NoSecret, m)
      else add_trigger E ((new_trigger name agent task owner cap)\<lparr>tg_secret := secret\<rparr>) m)"

definition on_event ::
  "trigger_env \<Rightarrow> string \<Rightarrow> string \<Rightarrow> (string, pyval) odict \<Rightarrow> string \<Rightarrow> string \<Rightarrow> string \<Rightarrow> int \<Rightarrow> trigger_manager
    \<Rightarrow> trigger_error option \<times> trigger_manager" where
  "on_event E name event vals agent task owner cap m =
     add_trigger E ((new_trigger name agent task owner cap)\<lparr>tg_event := event, tg_match := vals\<rparr>) m"

definition remove_trigger :: "string \<Rightarrow> trigger_manager \<Rightarrow> bool \<times> trigger_manager" where
  "remove_trigger name m = (od_has (gm_names m) name, m\<lparr>gm_names := od_pop name (gm_names m)\<rparr>)"

section \<open>Firing\<close>

text \<open>\<open>_plain\<close>.\<close>

definition plain :: "trigger_env \<Rightarrow> pyval \<Rightarrow> string" where
  "plain E v = take 200 (map (\<lambda>c. if c = CHR 0x0A then CHR '' '' else c) (py_str (te_float E) v))"

fun is_container :: "pyval \<Rightarrow> bool" where
  "is_container (PList xs) = True"
| "is_container (PDict d) = True"
| "is_container _ = False"

definition event_field :: "trigger_env \<Rightarrow> (string, pyval) odict \<Rightarrow> string \<Rightarrow> string option" where
  "event_field E event k =
     (case od_get event k of None \<Rightarrow> None | Some v \<Rightarrow> if is_container v then None else Some (plain E v))"

definition run_going :: "trigger_manager \<Rightarrow> trigger \<Rightarrow> bool" where
  "run_going m t = (case tg_run t of None \<Rightarrow> False | Some r \<Rightarrow> \<not> gr_done (gm_runs m ! r))"

definition fire :: "trigger_env \<Rightarrow> time \<Rightarrow> (string, pyval) odict \<Rightarrow> nat \<Rightarrow> trigger_manager \<Rightarrow> bool \<times> trigger_manager" where
  "fire E now event g m =
     (let t = gm_objects m ! g; recent = filter (\<lambda>x. now - x < 3600) (tg_fired t)
      in if run_going m t \<or> int (length recent) \<ge> tg_max_per_hour t
         then (False, m\<lparr>gm_objects := (gm_objects m)[g := t\<lparr>tg_fired := recent, tg_skipped := Suc (tg_skipped t)\<rparr>]\<rparr>)
         else (True, m\<lparr>gm_objects := (gm_objects m)[g := t\<lparr>tg_fired := recent @ [now], tg_run := Some (length (gm_runs m))\<rparr>],
                       gm_runs := gm_runs m @ [\<lparr>gr_trigger = g, gr_agent = tg_agent t,
                         gr_text = fill_template (event_field E event) (tg_goal t), gr_owner = tg_owner t,
                         gr_started = now, gr_done = False\<rparr>]\<rparr>))"

text \<open>The end of \<open>_go\<close>: the id of the run, or \<open>None\<close> for an exception.\<close>

definition go_end :: "nat \<Rightarrow> string option \<Rightarrow> trigger_manager \<Rightarrow> trigger_manager" where
  "go_end r result m =
     (if r < length (gm_runs m) \<and> \<not> gr_done (gm_runs m ! r)
      then let n = gm_runs m ! r; m = m\<lparr>gm_runs := (gm_runs m)[r := n\<lparr>gr_done := True\<rparr>]\<rparr>
           in (case result of
                 None \<Rightarrow> m
               | Some i \<Rightarrow> m\<lparr>gm_objects := (gm_objects m)[gr_trigger n := (gm_objects m ! gr_trigger n)\<lparr>tg_last_run := Some i\<rparr>]\<rparr>)
      else m)"

definition fire_webhook ::
  "trigger_env \<Rightarrow> time \<Rightarrow> string \<Rightarrow> string \<Rightarrow> string \<Rightarrow> string \<Rightarrow> trigger_manager \<Rightarrow> (trigger_error + bool) \<times> trigger_manager" where
  "fire_webhook E now name body timestamp signature m =
     (case od_get (gm_names m) name of
        None \<Rightarrow> (Inl (NoSuchTrigger name), m)
      | Some g \<Rightarrow>
          (let t = gm_objects m ! g;
               fresh = (case py_int timestamp of None \<Rightarrow> False | Some n \<Rightarrow> \<bar>now - of_int n\<bar> \<le> 300);
               good = te_hmac E (tg_secret t) (timestamp @ ''.'' @ body)
           in if tg_secret t = [] then (Inl (NoSuchTrigger name), m)
              else if \<not> (fresh \<and> good = signature) then (Inl BadSignature, m)
              else let vals = (case te_json E (if body = [] then ''{}'' else body) of Some (PDict d) \<Rightarrow> d | _ \<Rightarrow> [])
                   in case fire E now vals g m of (ok, m) \<Rightarrow> (Inr ok, m)))"

definition due :: "time \<Rightarrow> trigger \<Rightarrow> bool" where
  "due now t \<longleftrightarrow> (tg_interval t \<noteq> 0 \<or> tg_cron t \<noteq> None) \<and> now \<ge> tg_next_at t"

definition next_time :: "time \<Rightarrow> trigger \<Rightarrow> cron_error + time" where
  "next_time now t = (case tg_cron t of Some c \<Rightarrow> next_after c now | None \<Rightarrow> Inr (now + tg_interval t))"

fun tick_each :: "trigger_env \<Rightarrow> time \<Rightarrow> nat list \<Rightarrow> string list \<Rightarrow> trigger_manager \<Rightarrow> (cron_error + string list) \<times> trigger_manager" where
  "tick_each E now [] started m = (Inr started, m)"
| "tick_each E now (g # gs) started m =
     (let t = gm_objects m ! g
      in if \<not> due now t then tick_each E now gs started m
         else case next_time now t of
             Inl e \<Rightarrow> (Inl e, m)
           | Inr n \<Rightarrow>
               (case fire E now [] g (m\<lparr>gm_objects := (gm_objects m)[g := t\<lparr>tg_next_at := n\<rparr>]\<rparr>) of
                  (ok, m) \<Rightarrow> tick_each E now gs (if ok then started @ [tg_name t] else started) m))"

definition tick :: "trigger_env \<Rightarrow> time \<Rightarrow> trigger_manager \<Rightarrow> (cron_error + string list) \<times> trigger_manager" where
  "tick E now m = tick_each E now (map snd (gm_names m)) [] m"

definition listens :: "(string, pyval) odict \<Rightarrow> trigger \<Rightarrow> bool" where
  "listens event t \<longleftrightarrow> get_or event ''type'' PNone = PStr (tg_event t)
     \<and> list_all (\<lambda>(k, v). py_eq (get_or event k PNone) v) (tg_match t)"

definition on_bus_event :: "trigger_env \<Rightarrow> time \<Rightarrow> (string, pyval) odict \<Rightarrow> trigger_manager \<Rightarrow> trigger_manager" where
  "on_bus_event E now event m =
     fold (\<lambda>g m. if listens event (gm_objects m ! g) then snd (fire E now event g m) else m) (map snd (gm_names m)) m"

section \<open>Histories\<close>

datatype trigger_op =
    Every string real string string string int
  | OnCron string string string string string int
  | OnWebhook string string string string string int
  | OnEvent string string "(string, pyval) odict" string string string int
  | Remove string
  | Webhook string string string string
  | Tick
  | BusEvent "(string, pyval) odict"
  | RunEnds nat "string option"

fun trigger_step :: "trigger_env \<Rightarrow> time \<Rightarrow> trigger_op \<Rightarrow> trigger_manager \<Rightarrow> trigger_manager" where
  "trigger_step E now (Every name seconds agent task owner cap) m = snd (every E now name seconds agent task owner cap m)"
| "trigger_step E now (OnCron name expr agent task owner cap) m = snd (on_cron E now name expr agent task owner cap m)"
| "trigger_step E now (OnWebhook name secret agent task owner cap) m = snd (on_webhook E name secret agent task owner cap m)"
| "trigger_step E now (OnEvent name event vals agent task owner cap) m = snd (on_event E name event vals agent task owner cap m)"
| "trigger_step E now (Remove name) m = snd (remove_trigger name m)"
| "trigger_step E now (Webhook name body ts sig) m = snd (fire_webhook E now name body ts sig m)"
| "trigger_step E now Tick m = snd (tick E now m)"
| "trigger_step E now (BusEvent event) m = on_bus_event E now event m"
| "trigger_step E now (RunEnds r result) m = go_end r result m"

fun trigger_history :: "trigger_env \<Rightarrow> (time \<times> trigger_op) list \<Rightarrow> trigger_manager \<Rightarrow> trigger_manager" where
  "trigger_history E [] m = m"
| "trigger_history E ((now, ev) # es) m = trigger_history E es (trigger_step E now ev m)"

end
