(* ===== verification/Trigger_Bounds.thy ===== *)
theory Trigger_Bounds
  imports Triggers
begin

text \<open>
  What triggers promise: their runs never overlap and stay within the hourly limit, a tick starts each due
  trigger at most once, and webhook triggers only run on signed requests.
\<close>

section \<open>Invariants of the manager\<close>

text \<open>What may fire a trigger while an operation runs.\<close>

fun may_fire :: "trigger_env \<Rightarrow> time \<Rightarrow> trigger_op \<Rightarrow> trigger \<Rightarrow> bool" where
  "may_fire E now Tick t \<longleftrightarrow> tg_interval t \<noteq> 0 \<or> tg_cron t \<noteq> None"
| "may_fire E now (BusEvent event) t \<longleftrightarrow> listens event t"
| "may_fire E now (Webhook name body ts sig) t \<longleftrightarrow> tg_secret t \<noteq> [] \<and> sig = te_hmac E (tg_secret t) (ts @ ''.'' @ body)
     \<and> (\<exists>n. py_int ts = Some n \<and> \<bar>now - of_int n\<bar> \<le> 300)"
| "may_fire E now _ t \<longleftrightarrow> False"

text \<open>What a constructor builds.\<close>

definition kind_ok :: "trigger \<Rightarrow> bool" where
  "kind_ok t \<longleftrightarrow> 0 \<le> tg_interval t \<and> (\<forall>c. tg_cron t = Some c \<longrightarrow> (\<exists>expr. cron_new expr = Inr c))
     \<and> (tg_secret t \<noteq> [] \<longrightarrow> tg_interval t = 0 \<and> tg_cron t = None \<and> tg_event t = [])"

definition built :: "trigger \<Rightarrow> bool" where
  "built t \<longleftrightarrow> kind_ok t \<and> tg_fired t = [] \<and> tg_run t = None \<and> tg_skipped t = 0"

definition set_next :: "nat \<Rightarrow> time \<Rightarrow> trigger_manager \<Rightarrow> trigger_manager" where
  "set_next g n m = m\<lparr>gm_objects := (gm_objects m)[g := (gm_objects m ! g)\<lparr>tg_next_at := n\<rparr>]\<rparr>"

locale trigger_invariant =
  fixes E :: trigger_env and now :: time and ev :: trigger_op and inv :: "trigger_manager \<Rightarrow> bool"
  assumes inv_ref: "inv m \<Longrightarrow> (k, g) \<in> set (gm_names m) \<Longrightarrow> g < length (gm_objects m)"
    and inv_add: "inv m \<Longrightarrow> built t \<Longrightarrow> inv (snd (add_trigger E t m))"
    and inv_remove: "inv m \<Longrightarrow> inv (snd (remove_trigger k m))"
    and inv_next: "inv m \<Longrightarrow> g < length (gm_objects m) \<Longrightarrow> inv (set_next g n m)"
    and inv_fire: "inv m \<Longrightarrow> g < length (gm_objects m) \<Longrightarrow> may_fire E now ev (gm_objects m ! g)
      \<Longrightarrow> inv (snd (fire E now event g m))"
    and inv_end: "inv m \<Longrightarrow> inv (go_end r result m)"
begin

lemma inv_tick_each:
  "ev = Tick \<Longrightarrow> inv m \<Longrightarrow> \<forall>g \<in> set gs. g < length (gm_objects m) \<Longrightarrow> inv (snd (tick_each E now gs started m))"
proof (induction gs arbitrary: started m)
  case Nil
  then show ?case by simp
next
  case (Cons g gs)
  show ?case
  proof (cases "due now (gm_objects m ! g)")
    case False
    then show ?thesis using Cons by simp
  next
    case True
    show ?thesis
    proof (cases "next_time now (gm_objects m ! g)")
      case (Inl e)
      then show ?thesis using True Cons.prems by simp
    next
      case (Inr n)
      have g: "g < length (gm_objects m)" using Cons.prems by simp
      obtain ok m1 where m1: "fire E now [] g (set_next g n m) = (ok, m1)" by (cases "fire E now [] g (set_next g n m)")
      have "inv (snd (fire E now [] g (set_next g n m)))"
        by (rule inv_fire [OF inv_next [OF Cons.prems(2) g]])
          (use Cons.prems(1) g True in \<open>auto simp: set_next_def due_def\<close>)
      moreover have "length (gm_objects m1) = length (gm_objects m)"
        using m1 by (auto simp: fire_def set_next_def Let_def split: if_splits)
      ultimately show ?thesis
        using Cons.prems True Inr m1 by (auto simp: set_next_def intro!: Cons.IH)
    qed
  qed
qed

lemma inv_bus:
  assumes "ev = BusEvent event"
  shows "inv m \<Longrightarrow> \<forall>g \<in> set gs. g < length (gm_objects m) \<Longrightarrow>
    inv (fold (\<lambda>g m. if listens event (gm_objects m ! g) then snd (fire E now event g m) else m) gs m)"
proof (induction gs arbitrary: m)
  case Nil
  then show ?case by simp
next
  case (Cons g gs)
  have "inv (snd (fire E now event g m))" if "listens event (gm_objects m ! g)"
    by (rule inv_fire) (use Cons.prems that assms in auto)
  moreover have "length (gm_objects (snd (fire E now event g m))) = length (gm_objects m)"
    by (simp add: fire_def Let_def)
  ultimately show ?case using Cons by simp
qed

lemma inv_webhook:
  assumes "ev = Webhook name body ts sig" "inv m"
  shows "inv (snd (fire_webhook E now name body ts sig m))"
proof (cases "od_get (gm_names m) name")
  case None
  then show ?thesis using assms by (simp add: fire_webhook_def)
next
  case (Some g)
  then have g: "g < length (gm_objects m)" using inv_ref [OF assms(2)] map_of_SomeD by fast
  show ?thesis
    using assms inv_fire [OF assms(2) g] Some
    by (auto simp: fire_webhook_def Let_def split: option.splits prod.splits) (metis snd_conv)+
qed

lemma inv_step:
  assumes "inv m"
  shows "inv (trigger_step E now ev m)"
proof (cases ev)
  case (Every name seconds agent task owner cap)
  have "built ((new_trigger name agent task owner cap)\<lparr>tg_interval := seconds, tg_next_at := now + seconds\<rparr>)" if "0 < seconds"
    using that by (simp add: built_def kind_ok_def new_trigger_def)
  then show ?thesis using inv_add [OF assms] assms by (simp add: Every every_def not_le)
next
  case (OnCron name expr agent task owner cap)
  have "built ((new_trigger name agent task owner cap)\<lparr>tg_cron := Some c, tg_next_at := n\<rparr>)" if "cron_new expr = Inr c" for c n
    using that by (auto simp: built_def kind_ok_def new_trigger_def)
  then show ?thesis using inv_add [OF assms] assms by (auto simp: OnCron on_cron_def split: sum.split)
next
  case (OnWebhook name secret agent task owner cap)
  have "built ((new_trigger name agent task owner cap)\<lparr>tg_secret := secret\<rparr>)"
    by (simp add: built_def kind_ok_def new_trigger_def)
  then show ?thesis using inv_add [OF assms] assms by (simp add: OnWebhook on_webhook_def)
next
  case (OnEvent name event vals agent task owner cap)
  have "built ((new_trigger name agent task owner cap)\<lparr>tg_event := event, tg_match := vals\<rparr>)"
    by (simp add: built_def kind_ok_def new_trigger_def)
  then show ?thesis using inv_add [OF assms] assms by (simp add: OnEvent on_event_def)
next
  case (Remove name)
  then show ?thesis using inv_remove [OF assms] by simp
next
  case (Webhook name body ts sig)
  then show ?thesis using inv_webhook [OF Webhook assms] by simp
next
  case Tick
  have "\<forall>g \<in> set (map snd (gm_names m)). g < length (gm_objects m)" using inv_ref [OF assms] by auto
  then show ?thesis using inv_tick_each [OF Tick assms] by (simp add: Tick tick_def)
next
  case (BusEvent event)
  have "\<forall>g \<in> set (map snd (gm_names m)). g < length (gm_objects m)" using inv_ref [OF assms] by auto
  then show ?thesis using inv_bus [OF BusEvent assms] by (simp add: BusEvent on_bus_event_def)
next
  case (RunEnds r result)
  then show ?thesis using inv_end [OF assms] by simp
qed

end

section \<open>References and kinds\<close>

definition links_ok :: "trigger_manager \<Rightarrow> bool" where
  "links_ok m \<longleftrightarrow> distinct (map snd (gm_names m)) \<and> (\<forall>g \<in> snd ` set (gm_names m). g < length (gm_objects m))
     \<and> list_all kind_ok (gm_objects m) \<and> list_all (\<lambda>n. gr_trigger n < length (gm_objects m)) (gm_runs m)"

lemma kind_ok_updates [simp]:
  "kind_ok (t\<lparr>tg_next_at := n\<rparr>) = kind_ok t" "kind_ok (t\<lparr>tg_last_run := l\<rparr>) = kind_ok t"
  "kind_ok (t\<lparr>tg_fired := f\<rparr>) = kind_ok t" "kind_ok (t\<lparr>tg_skipped := k\<rparr>) = kind_ok t"
  "kind_ok (t\<lparr>tg_run := r\<rparr>) = kind_ok t"
  by (simp_all add: kind_ok_def)

lemma list_all_update: "list_all P xs \<Longrightarrow> P x \<Longrightarrow> list_all P (xs[i := x])"
  by (auto simp: list_all_iff dest!: set_update_subset_insert [THEN subsetD])

lemma list_all_at: "list_all P xs \<Longrightarrow> i < length xs \<Longrightarrow> P (xs ! i)"
  by (simp add: list_all_length)

lemma distinct_values_pop: "distinct (map snd d) \<Longrightarrow> distinct (map snd (od_pop k d))"
  by (simp add: od_pop_def AList.delete_eq distinct_map_filter)

lemma in_pop: "p \<in> set (od_pop k d) \<Longrightarrow> p \<in> set d"
  by (auto simp: od_pop_def AList.delete_eq)

lemma values_new: "\<not> od_has d k \<Longrightarrow> od_set k v d = d @ [(k, v)]"
  unfolding od_has_def by (simp only: not_not od_set_new)

lemma links_add: "links_ok m \<Longrightarrow> built t \<Longrightarrow> links_ok (snd (add_trigger E t m))"
  by (fastforce simp: links_ok_def add_trigger_def values_new built_def list_all_iff)

lemma links_remove: "links_ok m \<Longrightarrow> links_ok (snd (remove_trigger k m))"
  by (auto simp: links_ok_def remove_trigger_def distinct_values_pop dest!: in_pop)

lemma links_set_next: "links_ok m \<Longrightarrow> g < length (gm_objects m) \<Longrightarrow> links_ok (set_next g n m)"
  by (simp add: links_ok_def set_next_def list_all_update list_all_at)

lemma links_fire: "links_ok m \<Longrightarrow> g < length (gm_objects m) \<Longrightarrow> links_ok (snd (fire E now event g m))"
  by (simp add: links_ok_def fire_def Let_def list_all_update list_all_at)

lemma go_end_objects:
  "gm_objects (go_end r result m) = gm_objects m \<or> (\<exists>g l. gm_objects (go_end r result m) =
     (gm_objects m)[g := (gm_objects m ! g)\<lparr>tg_last_run := l\<rparr>] \<and> r < length (gm_runs m) \<and> g = gr_trigger (gm_runs m ! r))"
  by (auto simp: go_end_def Let_def split: option.split)

lemma go_end_runs:
  "gm_runs (go_end r result m) = (if r < length (gm_runs m) \<and> \<not> gr_done (gm_runs m ! r)
     then (gm_runs m)[r := (gm_runs m ! r)\<lparr>gr_done := True\<rparr>] else gm_runs m)"
  "gm_names (go_end r result m) = gm_names m" "length (gm_objects (go_end r result m)) = length (gm_objects m)"
  by (auto simp: go_end_def Let_def split: option.split)

lemma run_trigger: "links_ok m \<Longrightarrow> r < length (gm_runs m) \<Longrightarrow> gr_trigger (gm_runs m ! r) < length (gm_objects m)"
  by (simp add: links_ok_def list_all_length)

lemma links_end:
  assumes "links_ok m"
  shows "links_ok (go_end r result m)"
proof -
  have k: "list_all kind_ok (gm_objects m)" using assms by (simp add: links_ok_def)
  have "list_all kind_ok ((gm_objects m)[g := (gm_objects m ! g)\<lparr>tg_last_run := l\<rparr>])" if "g < length (gm_objects m)" for g l
    by (rule list_all_update [OF k]) (use list_all_at [OF k that] in simp)
  then have "list_all kind_ok (gm_objects (go_end r result m))"
    using go_end_objects [of r result m] run_trigger [OF assms] k by metis
  moreover have "list_all (\<lambda>n. gr_trigger n < length (gm_objects m)) ((gm_runs m)[r := (gm_runs m ! r)\<lparr>gr_done := True\<rparr>])"
    if "r < length (gm_runs m)"
    by (rule list_all_update) (use assms run_trigger [OF assms that] in \<open>simp_all add: links_ok_def\<close>)
  ultimately show ?thesis using assms by (simp add: links_ok_def go_end_runs)
qed

lemma links_ref: "links_ok m \<Longrightarrow> (k, g) \<in> set (gm_names m) \<Longrightarrow> g < length (gm_objects m)"
  by (force simp: links_ok_def)

interpretation links: trigger_invariant E now ev links_ok
  by unfold_locales (blast intro: links_ref links_add links_remove links_set_next links_fire links_end)+

section \<open>Bounds\<close>

definition starts :: "nat \<Rightarrow> trigger_run list \<Rightarrow> time list" where
  "starts g ns = map snd (filter (\<lambda>p. fst p = g) (map (\<lambda>n. (gr_trigger n, gr_started n)) ns))"

definition run_link :: "trigger_run list \<Rightarrow> nat \<Rightarrow> trigger \<Rightarrow> bool" where
  "run_link ns g t \<longleftrightarrow> (\<forall>r. tg_run t = Some r \<longrightarrow> r < length ns)
     \<and> (\<forall>r < length ns. gr_trigger (ns ! r) = g \<longrightarrow> \<not> gr_done (ns ! r) \<longrightarrow> tg_run t = Some r)"

lemma run_linkI:
  "(\<And>r. tg_run t = Some r \<Longrightarrow> r < length ns) \<Longrightarrow>
   (\<And>r. r < length ns \<Longrightarrow> gr_trigger (ns ! r) = g \<Longrightarrow> \<not> gr_done (ns ! r) \<Longrightarrow> tg_run t = Some r) \<Longrightarrow> run_link ns g t"
  unfolding run_link_def by blast

lemma run_link_range: "run_link ns g t \<Longrightarrow> tg_run t = Some r \<Longrightarrow> r < length ns"
  unfolding run_link_def by blast

lemma run_link_skip [simp]: "run_link ns g (t\<lparr>tg_fired := f, tg_skipped := k\<rparr>) = run_link ns g t"
  unfolding run_link_def by simp

lemma run_link_live:
  "run_link ns g t \<Longrightarrow> r < length ns \<Longrightarrow> gr_trigger (ns ! r) = g \<Longrightarrow> \<not> gr_done (ns ! r) \<Longrightarrow> tg_run t = Some r"
  unfolding run_link_def by blast

definition rate_ok :: "time \<Rightarrow> time list \<Rightarrow> trigger \<Rightarrow> bool" where
  "rate_ok now ss t \<longleftrightarrow> list_all (\<lambda>s. s \<le> now) ss
     \<and> filter (\<lambda>s. now - s < 3600) (tg_fired t) = filter (\<lambda>s. now - s < 3600) ss
     \<and> (\<forall>x. length (filter (\<lambda>s. x \<le> s \<and> s < x + 3600) ss) \<le> nat (tg_max_per_hour t))"

definition object_ok :: "time \<Rightarrow> trigger_run list \<Rightarrow> nat \<Rightarrow> trigger \<Rightarrow> bool" where
  "object_ok now ns g t \<longleftrightarrow> run_link ns g t \<and> rate_ok now (starts g ns) t"

lemma object_ok_updates [simp]:
  "object_ok now ns g (t\<lparr>tg_next_at := n\<rparr>) = object_ok now ns g t"
  "object_ok now ns g (t\<lparr>tg_last_run := l\<rparr>) = object_ok now ns g t"
  by (simp_all add: object_ok_def run_link_def rate_ok_def)

definition trig_bounds :: "time \<Rightarrow> trigger_manager \<Rightarrow> bool" where
  "trig_bounds now m \<longleftrightarrow> links_ok m \<and> (\<forall>g < length (gm_objects m). object_ok now (gm_runs m) g (gm_objects m ! g))"

lemma filter_recent:
  fixes now now' :: real
  assumes "now \<le> now'" "filter (\<lambda>s. now - s < 3600) xs = filter (\<lambda>s. now - s < 3600) ys"
  shows "filter (\<lambda>s. now' - s < 3600) xs = filter (\<lambda>s. now' - s < 3600) ys"
proof -
  have "filter (\<lambda>s. now' - s < 3600) zs = filter (\<lambda>s. now' - s < 3600) (filter (\<lambda>s. now - s < 3600) zs)" for zs
    using assms(1) by (auto simp: intro!: filter_cong)
  with assms(2) show ?thesis by metis
qed

lemma rate_later:
  assumes "now \<le> now'" "rate_ok now ss t"
  shows "rate_ok now' ss t"
proof -
  have "list_all (\<lambda>s. s \<le> now') ss" using assms by (auto simp: rate_ok_def list_all_iff)
  with filter_recent [OF assms(1)] assms(2) show ?thesis unfolding rate_ok_def by blast
qed

lemma bounds_later: "now \<le> now' \<Longrightarrow> trig_bounds now m \<Longrightarrow> trig_bounds now' m"
  unfolding trig_bounds_def object_ok_def by (blast intro: rate_later)

lemma no_runs:
  assumes "links_ok m"
  shows "starts (length (gm_objects m)) (gm_runs m) = []"
  using assms by (auto simp: links_ok_def list_all_iff starts_def filter_empty_conv)

lemma bounds_add:
  assumes "trig_bounds now m" "built t"
  shows "trig_bounds now (snd (add_trigger E t m))"
proof -
  have l: "links_ok m" using assms(1) by (simp add: trig_bounds_def)
  have "run_link (gm_runs m) (length (gm_objects m)) t"
  proof (rule run_linkI)
    show "r < length (gm_runs m)" if "tg_run t = Some r" for r using that assms(2) by (simp add: built_def)
    show "tg_run t = Some r" if "r < length (gm_runs m)" "gr_trigger (gm_runs m ! r) = length (gm_objects m)" for r
      using run_trigger [OF l that(1)] that(2) by simp
  qed
  then have "object_ok now (gm_runs m) (length (gm_objects m)) t"
    using assms(2) no_runs [OF l] by (simp add: object_ok_def rate_ok_def built_def)
  then show ?thesis
    using assms links_add [OF l assms(2), of E] by (auto simp: trig_bounds_def add_trigger_def nth_append less_Suc_eq)
qed

lemma bounds_remove: "trig_bounds now m \<Longrightarrow> trig_bounds now (snd (remove_trigger k m))"
  using links_remove [of m k] by (simp add: trig_bounds_def remove_trigger_def)

lemma bounds_next: "trig_bounds now m \<Longrightarrow> g < length (gm_objects m) \<Longrightarrow> trig_bounds now (set_next g n m)"
  using links_set_next [of m g n] by (simp add: trig_bounds_def set_next_def nth_list_update)

lemma starts_done: "r < length ns \<Longrightarrow> starts g (ns[r := (ns ! r)\<lparr>gr_done := d\<rparr>]) = starts g ns"
proof -
  assume "r < length ns"
  then have "map (\<lambda>n. (gr_trigger n, gr_started n)) (ns[r := (ns ! r)\<lparr>gr_done := d\<rparr>]) = map (\<lambda>n. (gr_trigger n, gr_started n)) ns"
    by (intro nth_equalityI) (auto simp: nth_list_update)
  then show ?thesis by (simp add: starts_def del: map_map)
qed

lemma run_link_done:
  assumes "run_link ns g t"
  shows "run_link (ns[r := (ns ! r)\<lparr>gr_done := True\<rparr>]) g t"
proof (rule run_linkI)
  show "k < length (ns[r := (ns ! r)\<lparr>gr_done := True\<rparr>])" if "tg_run t = Some k" for k
    using run_link_range [OF assms that] by simp
  fix k assume k: "k < length (ns[r := (ns ! r)\<lparr>gr_done := True\<rparr>])"
    "gr_trigger (ns[r := (ns ! r)\<lparr>gr_done := True\<rparr>] ! k) = g" "\<not> gr_done (ns[r := (ns ! r)\<lparr>gr_done := True\<rparr>] ! k)"
  then have "k \<noteq> r" by auto
  with k show "tg_run t = Some k" by (intro run_link_live [OF assms]) simp_all
qed

lemma object_done:
  "r < length ns \<Longrightarrow> object_ok now ns g t \<Longrightarrow> object_ok now (ns[r := (ns ! r)\<lparr>gr_done := True\<rparr>]) g t"
  unfolding object_ok_def by (simp add: starts_done run_link_done)

lemma bounds_end:
  assumes "trig_bounds now m"
  shows "trig_bounds now (go_end r result m)"
proof -
  have "object_ok now (gm_runs m) g (gm_objects (go_end r result m) ! g)" if "g < length (gm_objects m)" for g
  proof -
    have o: "object_ok now (gm_runs m) g (gm_objects m ! g)" using assms that by (simp add: trig_bounds_def)
    show ?thesis
      using go_end_objects [of r result m]
    proof (elim disjE exE conjE)
      fix h l assume "gm_objects (go_end r result m) = (gm_objects m)[h := (gm_objects m ! h)\<lparr>tg_last_run := l\<rparr>]"
      then show ?thesis using o that by (cases "h = g") simp_all
    qed (use o in simp)
  qed
  then show ?thesis
    using assms links_end [of m r result] by (simp add: trig_bounds_def go_end_runs object_done)
qed

lemma starts_snoc: "starts g (ns @ [n]) = starts g ns @ (if gr_trigger n = g then [gr_started n] else [])"
  by (simp add: starts_def)

text \<open>A start that finds fewer than the limit in the last hour.\<close>

lemma rate_start:
  assumes "rate_ok now ss t" and few: "int (length (filter (\<lambda>x. now - x < 3600) (tg_fired t))) < tg_max_per_hour t"
  shows "rate_ok now (ss @ [now]) (t\<lparr>tg_fired := filter (\<lambda>x. now - x < 3600) (tg_fired t) @ [now], tg_run := r\<rparr>)"
proof -
  have "length (filter (\<lambda>s. x \<le> s \<and> s < x + 3600) (ss @ [now])) \<le> nat (tg_max_per_hour t)" for x
  proof (cases "x \<le> now \<and> now < x + 3600")
    case False
    then show ?thesis using assms(1) by (auto simp: rate_ok_def)
  next
    case True
    have "filter (\<lambda>s. x \<le> s \<and> s < x + 3600) ss = filter (\<lambda>s. x \<le> s \<and> s < x + 3600) (filter (\<lambda>s. now - s < 3600) ss)"
      using True by (auto intro!: filter_cong)
    also have "length \<dots> \<le> length (filter (\<lambda>s. now - s < 3600) ss)" by (rule length_filter_le)
    finally have "length (filter (\<lambda>s. x \<le> s \<and> s < x + 3600) ss) \<le> length (filter (\<lambda>x. now - x < 3600) (tg_fired t))"
      using assms(1) by (simp add: rate_ok_def)
    then show ?thesis using few True by simp
  qed
  moreover have "filter (\<lambda>s. now - s < 3600) (filter (\<lambda>x. now - x < 3600) (tg_fired t) @ [now]) = filter (\<lambda>s. now - s < 3600) (ss @ [now])"
    using assms(1) by (simp add: rate_ok_def)
  ultimately show ?thesis using assms(1) by (simp add: rate_ok_def)
qed

lemma run_link_start:
  assumes "run_link (gm_runs m) g t" "\<not> run_going m t" "tg_run t' = Some (length (gm_runs m))"
  shows "run_link (gm_runs m @ [n]) g t'"
proof (rule run_linkI)
  show "k < length (gm_runs m @ [n])" if "tg_run t' = Some k" for k using that assms(3) by simp
  fix k assume k: "k < length (gm_runs m @ [n])" "gr_trigger ((gm_runs m @ [n]) ! k) = g" "\<not> gr_done ((gm_runs m @ [n]) ! k)"
  have "\<not> k < length (gm_runs m)"
  proof
    assume less: "k < length (gm_runs m)"
    with k have "tg_run t = Some k" by (intro run_link_live [OF assms(1)]) (simp_all add: nth_append)
    with k less assms(2) show False by (simp add: run_going_def nth_append)
  qed
  with k(1) assms(3) show "tg_run t' = Some k" by simp
qed

lemma run_link_other:
  assumes "run_link ns g t" "gr_trigger n \<noteq> g"
  shows "run_link (ns @ [n]) g t"
proof (rule run_linkI)
  show "k < length (ns @ [n])" if "tg_run t = Some k" for k using run_link_range [OF assms(1) that] by simp
  fix k assume k: "k < length (ns @ [n])" "gr_trigger ((ns @ [n]) ! k) = g" "\<not> gr_done ((ns @ [n]) ! k)"
  then have "k \<noteq> length ns" using assms(2) by auto
  with k have "k < length ns" by simp
  with k show "tg_run t = Some k" by (intro run_link_live [OF assms(1)]) (simp_all add: nth_append)
qed

lemma bounds_fire:
  assumes ok: "trig_bounds now m" and g: "g < length (gm_objects m)"
  shows "trig_bounds now (snd (fire E now event g m))"
proof -
  let ?t = "gm_objects m ! g"
  let ?recent = "filter (\<lambda>x. now - x < 3600) (tg_fired ?t)"
  have o: "object_ok now (gm_runs m) h (gm_objects m ! h)" if "h < length (gm_objects m)" for h
    using ok that by (simp add: trig_bounds_def)
  have t: "run_link (gm_runs m) g ?t" "rate_ok now (starts g (gm_runs m)) ?t" using o [OF g] by (simp_all add: object_ok_def)
  have l: "links_ok (snd (fire E now event g m))" using ok g by (simp add: trig_bounds_def links_fire)
  show ?thesis
  proof (cases "run_going m ?t \<or> int (length ?recent) \<ge> tg_max_per_hour ?t")
    case True
    have "rate_ok now (starts g (gm_runs m)) (?t\<lparr>tg_fired := ?recent, tg_skipped := Suc (tg_skipped ?t)\<rparr>)"
      using t(2) by (simp add: rate_ok_def)
    then have "object_ok now (gm_runs m) g (?t\<lparr>tg_fired := ?recent, tg_skipped := Suc (tg_skipped ?t)\<rparr>)"
      using t(1) by (simp add: object_ok_def)
    then show ?thesis using True o l g by (auto simp: trig_bounds_def fire_def Let_def nth_list_update)
  next
    case False
    let ?n = "\<lparr>gr_trigger = g, gr_agent = tg_agent ?t, gr_text = fill_template (event_field E event) (tg_goal ?t),
      gr_owner = tg_owner ?t, gr_started = now, gr_done = False\<rparr>"
    let ?t' = "?t\<lparr>tg_fired := ?recent @ [now], tg_run := Some (length (gm_runs m))\<rparr>"
    have "run_link (gm_runs m @ [?n]) g ?t'"
      by (rule run_link_start [OF t(1)]) (use False in \<open>blast, simp\<close>)
    moreover have "rate_ok now (starts g (gm_runs m @ [?n])) ?t'"
      using rate_start [OF t(2)] False by (simp add: starts_snoc)
    ultimately have "object_ok now (gm_runs m @ [?n]) g ?t'" by (simp add: object_ok_def)
    moreover have "object_ok now (gm_runs m @ [?n]) h (gm_objects m ! h)" if "h < length (gm_objects m)" "h \<noteq> g" for h
      using o [OF that(1)] that(2) unfolding object_ok_def by (simp add: starts_snoc run_link_other)
    ultimately show ?thesis using False l g by (auto simp: trig_bounds_def fire_def Let_def nth_list_update)
  qed
qed

lemma bounds_ref: "trig_bounds now m \<Longrightarrow> (k, g) \<in> set (gm_names m) \<Longrightarrow> g < length (gm_objects m)"
  by (simp add: trig_bounds_def links_ref)

interpretation bounds: trigger_invariant E now ev "trig_bounds now"
  by unfold_locales (blast intro: bounds_ref bounds_add bounds_remove bounds_next bounds_fire bounds_end)+

lemma triggers_new_bounds: "trig_bounds now triggers_new"
  by (simp add: trig_bounds_def links_ok_def triggers_new_def)

lemma history_bounds:
  "sorted (now # map fst es) \<Longrightarrow> trig_bounds now m \<Longrightarrow> \<exists>now' \<ge> now. trig_bounds now' (trigger_history E es m)
     \<and> (\<forall>e \<in> set es. fst e \<le> now')"
proof (induction es arbitrary: now m)
  case Nil
  then show ?case by auto
next
  case (Cons e es)
  obtain t ev where e: "e = (t, ev)" by (cases e)
  have "trig_bounds t (trigger_step E t ev m)"
    by (rule bounds.inv_step, rule bounds_later [OF _ Cons.prems(2)]) (use Cons.prems(1) e in simp)
  moreover have "sorted (t # map fst es)" using Cons.prems(1) e by simp
  ultimately obtain u where "t \<le> u" "trig_bounds u (trigger_history E es (trigger_step E t ev m))" "\<forall>e \<in> set es. fst e \<le> u"
    using Cons.IH by blast
  moreover have "now \<le> t" using Cons.prems(1) e by simp
  ultimately show ?case by (intro exI [of _ u]) (simp add: e)
qed

text \<open>
  C7. Triggers never overlap themselves and never exceed their rate: after any history of registrations,
  removals, ticks, webhooks, bus events and ends of runs with a clock that does not go back, every
  trigger has at most one run that has not ended, and in no hour more starts than \<open>max_per_hour\<close>.
\<close>

lemma starts_window:
  "length (filter (\<lambda>s. x \<le> s \<and> s < y) (starts g ns)) =
   length (filter (\<lambda>n. gr_trigger n = g \<and> x \<le> gr_started n \<and> gr_started n < y) ns)"
  by (induction ns) (auto simp: starts_def)

theorem triggers_bounded:
  assumes "sorted (map fst es)" and "m = trigger_history E es triggers_new" and "g < length (gm_objects m)"
  shows "card {r. r < length (gm_runs m) \<and> gr_trigger (gm_runs m ! r) = g \<and> \<not> gr_done (gm_runs m ! r)} \<le> 1
    \<and> length (filter (\<lambda>n. gr_trigger n = g \<and> x \<le> gr_started n \<and> gr_started n < x + 3600) (gm_runs m))
        \<le> nat (tg_max_per_hour (gm_objects m ! g))"
proof -
  define t0 where "t0 = (case es of [] \<Rightarrow> 0 | e # _ \<Rightarrow> fst e)"
  have "sorted (t0 # map fst es)" using assms(1) by (cases es) (auto simp: t0_def)
  from history_bounds [OF this triggers_new_bounds] obtain u where "trig_bounds u m" using assms(2) by blast
  then have ok: "run_link (gm_runs m) g (gm_objects m ! g)" "rate_ok u (starts g (gm_runs m)) (gm_objects m ! g)"
    using assms(3) by (simp_all add: trig_bounds_def object_ok_def)
  have "{r. r < length (gm_runs m) \<and> gr_trigger (gm_runs m ! r) = g \<and> \<not> gr_done (gm_runs m ! r)}
      \<subseteq> set_option (tg_run (gm_objects m ! g))" using run_link_live [OF ok(1)] by auto
  then have "card {r. r < length (gm_runs m) \<and> gr_trigger (gm_runs m ! r) = g \<and> \<not> gr_done (gm_runs m ! r)}
      \<le> card (set_option (tg_run (gm_objects m ! g)))" by (rule card_mono [rotated]) simp
  also have "\<dots> \<le> 1" by (cases "tg_run (gm_objects m ! g)") simp_all
  finally show ?thesis using ok(2) by (simp add: rate_ok_def starts_window)
qed

definition env0 :: trigger_env where
  "env0 = \<lparr>te_agent = (\<lambda>a. a = ''ops''), te_float = (\<lambda>_. ''?''), te_hmac = (\<lambda>k msg. k @ '':'' @ msg),
     te_json = (\<lambda>s. if s = ''{}'' then Some (PDict []) else Some (PDict [(''who'', PStr s)]))\<rparr>"

definition busy_hour :: "(time \<times> trigger_op) list" where
  "busy_hour = [(0, Every ''poll'' 60 ''ops'' ''look'' ''local'' 2), (60, Tick), (61, RunEnds 0 (Some ''r1'')),
     (120, Tick), (180, Tick), (181, RunEnds 1 None), (240, Tick), (3720, Tick)]"

theorem triggers_bounded_witness:
  "(let m = trigger_history env0 busy_hour triggers_new in map gr_started (gm_runs m) = [60, 120, 3720]
     \<and> length (filter (\<lambda>n. gr_trigger n = 0 \<and> 0 \<le> gr_started n \<and> gr_started n < 0 + 3600) (gm_runs m)) \<le> 2)"
proof -
  have s: "sorted (map fst busy_hour)" by (simp add: busy_hour_def)
  have m: "map gr_started (gm_runs (trigger_history env0 busy_hour triggers_new)) = [60, 120, 3720]"
    "length (gm_objects (trigger_history env0 busy_hour triggers_new)) = 1"
    "tg_max_per_hour (gm_objects (trigger_history env0 busy_hour triggers_new) ! 0) = 2" by code_simp+
  show ?thesis using triggers_bounded [OF s refl, of 0 env0 0] m by (simp add: Let_def)
qed

section \<open>Ticks\<close>

definition runs_of :: "nat \<Rightarrow> trigger_manager \<Rightarrow> nat" where
  "runs_of g m = length (filter (\<lambda>n. gr_trigger n = g) (gm_runs m))"

text \<open>What one tick does to a trigger: a due one gets a time in the future and one start or one skip.\<close>

definition ticked :: "time \<Rightarrow> trigger_manager \<Rightarrow> nat \<Rightarrow> trigger_manager \<Rightarrow> bool" where
  "ticked now m g m' \<longleftrightarrow>
     (let t = gm_objects m ! g; t' = gm_objects m' ! g
      in if due now t
         then next_time now t = Inr (tg_next_at t') \<and> now < tg_next_at t' \<and>
           (if runs_of g m' = Suc (runs_of g m) then tg_skipped t' = tg_skipped t
            else runs_of g m' = runs_of g m \<and> tg_skipped t' = Suc (tg_skipped t))
         else t' = t \<and> runs_of g m' = runs_of g m)"

lemma next_time_later:
  assumes "kind_ok t" "due now t" "MIN_MINUTE \<le> \<lfloor>now / 60\<rfloor>" "\<lfloor>now / 60\<rfloor> \<le> MAX_MINUTE"
  shows "case next_time now t of Inr n \<Rightarrow> now < n | Inl e \<Rightarrow> e = DateOverflow \<and> tg_cron t \<noteq> None"
proof (cases "tg_cron t")
  case None
  then have "0 < tg_interval t" using assms(1,2) by (auto simp: due_def kind_ok_def)
  then show ?thesis using None by (simp add: next_time_def)
next
  case (Some c)
  then obtain expr where c: "cron_new expr = Inr c" using assms(1) by (auto simp: kind_ok_def)
  define n where "n = \<lfloor>now / 60\<rfloor> + 1"
  show ?thesis
  proof (cases "n > MAX_MINUTE")
    case True
    then show ?thesis using assms(3,4) Some by (simp add: next_time_def next_after_def n_def Let_def)
  next
    case False
    have n: "MIN_MINUTE \<le> n" "n \<le> MAX_MINUTE" using assms(3) False by (simp_all add: n_def)
    have na: "next_after c now = (case cron_search c CRON_ROUNDS n of Inl e \<Rightarrow> Inl e | Inr k \<Rightarrow> Inr (of_int (60 * k)))"
      using assms(3,4) False by (simp add: next_after_def n_def Let_def)
    have "now < of_int (60 * k)" if "n \<le> k" for k
    proof -
      have "\<lfloor>now / 60\<rfloor> < k" using that by (simp add: n_def)
      then have "now / 60 < of_int k" by linarith
      then show ?thesis by simp
    qed
    then show ?thesis
      using cron_search_least [OF n(2), of c CRON_ROUNDS] cron_search_ends [OF cron_new_ok [OF c] n] Some
      by (auto simp: next_time_def na split: sum.splits)
  qed
qed

lemma fire_effect:
  assumes "fire E now event g m = (ok, m')" "g < length (gm_objects m)"
  shows "gm_names m' = gm_names m" "length (gm_objects m') = length (gm_objects m)"
    "\<And>h. h \<noteq> g \<Longrightarrow> gm_objects m' ! h = gm_objects m ! h \<and> runs_of h m' = runs_of h m"
    "tg_next_at (gm_objects m' ! g) = tg_next_at (gm_objects m ! g)"
    "tg_interval (gm_objects m' ! g) = tg_interval (gm_objects m ! g)"
    "tg_cron (gm_objects m' ! g) = tg_cron (gm_objects m ! g)"
    "tg_skipped (gm_objects m' ! g) = tg_skipped (gm_objects m ! g) + (if ok then 0 else 1)"
    "runs_of g m' = runs_of g m + (if ok then 1 else 0)"
    "length (gm_runs m') = length (gm_runs m) + (if ok then 1 else 0)"
    "list_all kind_ok (gm_objects m) \<Longrightarrow> list_all kind_ok (gm_objects m')"
  using assms by (auto simp: fire_def Let_def runs_of_def list_all_update list_all_at split: if_splits)

lemma tick_each_handled:
  assumes lim: "MIN_MINUTE \<le> \<lfloor>now / 60\<rfloor>" "\<lfloor>now / 60\<rfloor> \<le> MAX_MINUTE"
  shows "distinct gs \<Longrightarrow> \<forall>g \<in> set gs. g < length (gm_objects m) \<Longrightarrow> list_all kind_ok (gm_objects m) \<Longrightarrow>
    tick_each E now gs started m = (res, m') \<Longrightarrow>
    gm_names m' = gm_names m \<and>
    (case res of
       Inl e \<Rightarrow> e = DateOverflow \<and> (\<exists>g \<in> set gs. next_time now (gm_objects m ! g) = Inl e)
     | Inr st \<Rightarrow> (\<forall>g \<in> set gs. ticked now m g m')
         \<and> (\<forall>g. g \<notin> set gs \<longrightarrow> gm_objects m' ! g = gm_objects m ! g \<and> runs_of g m' = runs_of g m)
         \<and> (\<exists>more. st = started @ more \<and> length (gm_runs m') = length (gm_runs m) + length more))"
proof (induction gs arbitrary: started m)
  case Nil
  then show ?case by auto
next
  case (Cons g gs)
  let ?t = "gm_objects m ! g"
  have g: "g < length (gm_objects m)" "kind_ok ?t" using Cons.prems list_all_at by auto
  show ?case
  proof (cases "due now ?t")
    case False
    have "tick_each E now gs started m = (res, m')" using Cons.prems(4) False by simp
    from Cons.IH [OF _ _ Cons.prems(3) this] Cons.prems(1,2)
    have IH: "gm_names m' = gm_names m \<and>
      (case res of
         Inl e \<Rightarrow> e = DateOverflow \<and> (\<exists>g \<in> set gs. next_time now (gm_objects m ! g) = Inl e)
       | Inr st \<Rightarrow> (\<forall>g \<in> set gs. ticked now m g m')
           \<and> (\<forall>g. g \<notin> set gs \<longrightarrow> gm_objects m' ! g = gm_objects m ! g \<and> runs_of g m' = runs_of g m)
           \<and> (\<exists>more. st = started @ more \<and> length (gm_runs m') = length (gm_runs m) + length more))" by simp
    have "g \<notin> set gs" using Cons.prems(1) by simp
    then have "ticked now m g m'" if "res = Inr st" for st using IH False that by (simp add: ticked_def)
    then show ?thesis using IH by (auto split: sum.splits)
  next
    case True
    show ?thesis
    proof (cases "next_time now ?t")
      case (Inl e)
      then show ?thesis using Cons.prems(4) True next_time_later [OF g(2) True lim] by auto
    next
      case (Inr n)
      obtain ok m1 where f: "fire E now [] g (set_next g n m) = (ok, m1)" by (cases "fire E now [] g (set_next g n m)")
      have l: "length (gm_objects (set_next g n m)) = length (gm_objects m)" by (simp add: set_next_def)
      note fe = fire_effect [OF f, unfolded l, OF g(1)]
      have k: "list_all kind_ok (gm_objects m1)"
        by (rule fe(10)) (use Cons.prems(3) g in \<open>simp add: set_next_def list_all_update\<close>)
      have n: "now < n" using next_time_later [OF g(2) True lim] Inr by simp
      have at_g: "tg_next_at (gm_objects m1 ! g) = n" "tg_skipped (gm_objects m1 ! g) = tg_skipped ?t + (if ok then 0 else 1)"
        "runs_of g m1 = runs_of g m + (if ok then 1 else 0)" "length (gm_runs m1) = length (gm_runs m) + (if ok then 1 else 0)"
        using fe g(1) by (simp_all add: set_next_def runs_of_def)
      have other: "gm_objects m1 ! h = gm_objects m ! h \<and> runs_of h m1 = runs_of h m" if "h \<noteq> g" for h
        using fe(3) [OF that] that by (simp add: set_next_def runs_of_def)
      let ?st = "if ok then started @ [tg_name ?t] else started"
      have "tick_each E now gs ?st m1 = (res, m')"
        using Cons.prems(4) True Inr f by (simp add: set_next_def)
      from Cons.IH [OF _ _ k this] Cons.prems(1,2) fe(2)
      have IH: "gm_names m' = gm_names m1 \<and>
        (case res of
           Inl e \<Rightarrow> e = DateOverflow \<and> (\<exists>g \<in> set gs. next_time now (gm_objects m1 ! g) = Inl e)
         | Inr st \<Rightarrow> (\<forall>g \<in> set gs. ticked now m1 g m')
             \<and> (\<forall>g. g \<notin> set gs \<longrightarrow> gm_objects m' ! g = gm_objects m1 ! g \<and> runs_of g m' = runs_of g m1)
             \<and> (\<exists>more. st = ?st @ more \<and> length (gm_runs m') = length (gm_runs m1) + length more))" by simp
      have gn: "g \<notin> set gs" using Cons.prems(1) by simp
      have names: "gm_names m1 = gm_names m" using fe(1) by (simp add: set_next_def)
      show ?thesis
      proof (cases res)
        case Inl': (Inl e)
        then obtain h where "h \<in> set gs" "next_time now (gm_objects m1 ! h) = Inl e" using IH by auto
        moreover from this gn have "h \<noteq> g" by blast
        ultimately show ?thesis using IH Inl' other names by auto
      next
        case Inr': (Inr st)
        have "ticked now m h m'" if "h \<in> set gs" for h
        proof -
          have "h \<noteq> g" using that gn by blast
          moreover have "ticked now m1 h m'" using IH Inr' that by simp
          moreover have "gm_objects m1 ! h = gm_objects m ! h" "runs_of h m1 = runs_of h m"
            using other [OF \<open>h \<noteq> g\<close>] by simp_all
          ultimately show ?thesis by (simp only: ticked_def)
        qed
        moreover have "ticked now m g m'"
          using IH Inr' gn True Inr n at_g by (simp add: ticked_def)
        moreover have "\<exists>more. st = started @ more \<and> length (gm_runs m') = length (gm_runs m) + length more"
          using IH Inr' at_g(4) by (auto intro: exI [of _ "tg_name ?t # more" for more])
        ultimately show ?thesis using IH Inr' other names by auto
      qed
    qed
  qed
qed

lemma tick_each_idle: "\<forall>g \<in> set gs. \<not> due now (gm_objects m ! g) \<Longrightarrow> tick_each E now gs started m = (Inr started, m)"
  by (induction gs) auto

text \<open>
  C12. A tick handles every registered trigger exactly once, however long the loop was down: a due one gets
  its next time strictly in the future and either one start or one counted skip, the others are
  untouched, as many names are returned as runs were started, and a second tick at the same time does
  nothing. It raises only when a cron trigger has no further match before the end of the calendar.
\<close>

theorem tick_no_catch_up:
  assumes "sorted (map fst es)" and "m = trigger_history E es triggers_new"
    and "MIN_MINUTE \<le> \<lfloor>now / 60\<rfloor>" "\<lfloor>now / 60\<rfloor> \<le> MAX_MINUTE"
  shows "case tick E now m of
      (Inl e, m') \<Rightarrow> e = DateOverflow \<and> (\<exists>g \<in> snd ` set (gm_names m). next_time now (gm_objects m ! g) = Inl e)
    | (Inr started, m') \<Rightarrow> (\<forall>g \<in> snd ` set (gm_names m). ticked now m g m')
        \<and> (\<forall>g. g \<notin> snd ` set (gm_names m) \<longrightarrow> gm_objects m' ! g = gm_objects m ! g \<and> runs_of g m' = runs_of g m)
        \<and> length (gm_runs m') = length (gm_runs m) + length started \<and> tick E now m' = (Inr [], m')"
proof -
  define t0 where "t0 = (case es of [] \<Rightarrow> 0 | e # _ \<Rightarrow> fst e)"
  have "sorted (t0 # map fst es)" using assms(1) by (cases es) (auto simp: t0_def)
  from history_bounds [OF this triggers_new_bounds] have l: "links_ok m" using assms(2) by (auto simp: trig_bounds_def)
  let ?gs = "map snd (gm_names m)"
  obtain res m' where r: "tick_each E now ?gs [] m = (res, m')" by (cases "tick_each E now ?gs [] m")
  note h = tick_each_handled [OF assms(3,4) _ _ _ r]
  have "distinct ?gs" "\<forall>g \<in> set ?gs. g < length (gm_objects m)" "list_all kind_ok (gm_objects m)"
    using l by (simp_all add: links_ok_def)
  note h = h [OF this]
  show ?thesis
  proof (cases res)
    case (Inl e)
    then show ?thesis using h r by (auto simp: tick_def)
  next
    case (Inr st)
    have "\<not> due now (gm_objects m' ! g)" if "g \<in> set ?gs" for g
      using h Inr that by (auto simp: ticked_def Let_def due_def split: if_splits)
    then have "tick E now m' = (Inr [], m')" using h Inr by (auto simp: tick_def intro: tick_each_idle)
    then show ?thesis using h r Inr by (auto simp: tick_def)
  qed
qed

definition hourly :: "(time \<times> trigger_op) list" where
  "hourly = [(0, Every ''poll'' 60 ''ops'' ''look'' ''local'' 2), (0, Every ''sweep'' 600 ''ops'' ''clean'' ''local'' 6)]"

theorem tick_no_catch_up_witness:
  "case tick env0 500 (trigger_history env0 hourly triggers_new) of
     (Inl e, m') \<Rightarrow> False | (Inr started, m') \<Rightarrow> started = [''poll''] \<and> tick env0 500 m' = (Inr [], m')"
proof -
  let ?m = "trigger_history env0 hourly triggers_new"
  have s: "sorted (map fst hourly)" by (simp add: hourly_def)
  have lim: "MIN_MINUTE \<le> \<lfloor>500 / 60 :: real\<rfloor>" "\<lfloor>500 / 60 :: real\<rfloor> \<le> MAX_MINUTE"
    by (simp_all add: MIN_MINUTE_def MAX_MINUTE_def day_no_def jan1_def before_month_def leap_def)
  have "(case fst (tick env0 500 ?m) of Inl e \<Rightarrow> False | Inr started \<Rightarrow> started = [''poll''])" by code_simp
  then show ?thesis using tick_no_catch_up [OF s refl lim, of env0] by (auto split: prod.splits sum.splits)
qed

section \<open>Webhooks\<close>

text \<open>A request among the operations, made at the given time, that carries the right signature of a fresh timestamp.\<close>

definition signed :: "trigger_env \<Rightarrow> (time \<times> trigger_op) list \<Rightarrow> string \<Rightarrow> time \<Rightarrow> bool" where
  "signed E es secret now \<longleftrightarrow> (\<exists>name body ts n.
     (now, Webhook name body ts (te_hmac E secret (ts @ ''.'' @ body))) \<in> set es \<and> py_int ts = Some n \<and> \<bar>now - of_int n\<bar> \<le> 300)"

definition short_texts :: "(string \<Rightarrow> string option) \<Rightarrow> bool" where
  "short_texts f \<longleftrightarrow> (\<forall>k v. f k = Some v \<longrightarrow> length v \<le> 200 \<and> CHR 0x0A \<notin> set v)"

definition tg_spec :: "trigger \<Rightarrow> string \<times> string \<times> string \<times> string" where
  "tg_spec t = (tg_secret t, tg_agent t, tg_owner t, tg_goal t)"

fun run_proper :: "trigger_env \<Rightarrow> (time \<times> trigger_op) list \<Rightarrow> string \<times> string \<times> string \<times> string \<Rightarrow> trigger_run \<Rightarrow> bool" where
  "run_proper E es (secret, agent, owner, task) n \<longleftrightarrow> (secret \<noteq> [] \<longrightarrow> signed E es secret (gr_started n))
     \<and> gr_agent n = agent \<and> gr_owner n = owner \<and> (\<exists>f. gr_text n = fill_template f task \<and> short_texts f)"

definition runs_proper :: "trigger_env \<Rightarrow> (time \<times> trigger_op) list \<Rightarrow> trigger_manager \<Rightarrow> bool" where
  "runs_proper E es m \<longleftrightarrow> links_ok m
     \<and> list_all (\<lambda>n. run_proper E es (map tg_spec (gm_objects m) ! gr_trigger n) n) (gm_runs m)"

fun proper_event :: "trigger_op \<Rightarrow> bool" where
  "proper_event (BusEvent event) = (get_or event ''type'' PNone \<noteq> PStr [])"
| "proper_event _ = True"

lemma event_fields_short: "short_texts (event_field E event)"
  by (auto simp: short_texts_def event_field_def plain_def dest!: in_set_takeD split: option.splits if_splits)

lemma spec_update: "g < length ts \<Longrightarrow> tg_spec t = tg_spec (ts ! g) \<Longrightarrow> map tg_spec (ts[g := t]) = map tg_spec ts"
  by (metis list_update_id map_update)

lemma proper_add:
  assumes "runs_proper E es m" "built t"
  shows "runs_proper E es (snd (add_trigger E t m))"
proof -
  have "list_all (\<lambda>n. run_proper E es (map tg_spec (gm_objects m @ [t]) ! gr_trigger n) n) (gm_runs m)"
    using assms(1) by (auto simp: runs_proper_def links_ok_def list_all_iff nth_append)
  then show ?thesis using assms links_add [of m t E] by (auto simp: runs_proper_def add_trigger_def)
qed

lemma proper_next: "runs_proper E es m \<Longrightarrow> g < length (gm_objects m) \<Longrightarrow> runs_proper E es (set_next g n m)"
  using links_set_next [of m g n] by (simp add: runs_proper_def set_next_def spec_update tg_spec_def del: map_update)

lemma proper_fire:
  assumes ok: "runs_proper E es m" and g: "g < length (gm_objects m)"
    and may: "may_fire E now ev (gm_objects m ! g)" and ev: "(now, ev) \<in> set es" "proper_event ev"
  shows "runs_proper E es (snd (fire E now event g m))"
proof -
  let ?t = "gm_objects m ! g"
  have k: "kind_ok ?t" using ok g by (simp add: runs_proper_def links_ok_def list_all_at)
  have "signed E es (tg_secret ?t) now" if s: "tg_secret ?t \<noteq> []"
  proof (cases ev)
    case (Webhook name body ts sig)
    then show ?thesis using may ev(1) by (auto simp: signed_def)
  qed (use may s k ev(2) in \<open>auto simp: kind_ok_def listens_def\<close>)
  then have new: "run_proper E es (tg_spec ?t) \<lparr>gr_trigger = g, gr_agent = tg_agent ?t,
      gr_text = fill_template (event_field E event) (tg_goal ?t), gr_owner = tg_owner ?t, gr_started = now, gr_done = False\<rparr>"
    using event_fields_short by (auto simp: tg_spec_def)
  have specs: "map tg_spec (gm_objects (snd (fire E now event g m))) = map tg_spec (gm_objects m)"
    using g by (simp add: fire_def Let_def spec_update tg_spec_def del: map_update)
  have "gm_runs (snd (fire E now event g m)) = gm_runs m \<or> gm_runs (snd (fire E now event g m)) = gm_runs m @
      [\<lparr>gr_trigger = g, gr_agent = tg_agent ?t, gr_text = fill_template (event_field E event) (tg_goal ?t),
        gr_owner = tg_owner ?t, gr_started = now, gr_done = False\<rparr>]" by (simp add: fire_def Let_def)
  then show ?thesis
    unfolding runs_proper_def specs using ok new g links_fire [of m g E now event] by (auto simp: runs_proper_def)
qed

lemma proper_end:
  assumes "runs_proper E es m"
  shows "runs_proper E es (go_end r result m)"
proof -
  have "map tg_spec ((gm_objects m)[g := (gm_objects m ! g)\<lparr>tg_last_run := l\<rparr>]) = map tg_spec (gm_objects m)"
    if "g < length (gm_objects m)" for g l using that by (simp add: spec_update tg_spec_def del: map_update)
  then have specs: "map tg_spec (gm_objects (go_end r result m)) = map tg_spec (gm_objects m)"
    using go_end_objects [of r result m] run_trigger [of m r] assms unfolding runs_proper_def by metis
  have keep: "list_all P (gm_runs (go_end r result m))"
    if "list_all P (gm_runs m)" "\<And>n. P (n\<lparr>gr_done := True\<rparr>) = P n" for P
    using that by (simp add: go_end_runs list_all_update list_all_at)
  have same: "run_proper E es x (n\<lparr>gr_done := True\<rparr>) = run_proper E es x n" for x n by (cases x) simp
  show ?thesis
    unfolding runs_proper_def specs using assms links_end [of m r result] by (auto simp: runs_proper_def same intro!: keep)
qed

lemma proper_remove: "runs_proper E es m \<Longrightarrow> runs_proper E es (snd (remove_trigger k m))"
  using links_remove [of m k] by (simp add: runs_proper_def remove_trigger_def)

lemma proper_ref: "runs_proper E es m \<Longrightarrow> (k, g) \<in> set (gm_names m) \<Longrightarrow> g < length (gm_objects m)"
  by (simp add: runs_proper_def links_ref)

interpretation proper: trigger_invariant E now ev
  "\<lambda>m. links_ok m \<and> ((now, ev) \<in> set es \<and> proper_event ev \<longrightarrow> runs_proper E es m)"
  by unfold_locales (meson links_ref links_add links_remove links_set_next links_fire links_end
    proper_add proper_remove proper_next proper_fire proper_end)+

lemma history_proper:
  "set es' \<subseteq> set es \<Longrightarrow> list_all (\<lambda>e. proper_event (snd e)) es' \<Longrightarrow> runs_proper E es m \<Longrightarrow>
   runs_proper E es (trigger_history E es' m)"
proof (induction es' arbitrary: m)
  case Nil
  then show ?case by simp
next
  case (Cons e es')
  obtain now ev where e: "e = (now, ev)" by (cases e)
  have "links_ok m" using Cons.prems(3) by (simp add: runs_proper_def)
  then have "runs_proper E es (trigger_step E now ev m)"
    using proper.inv_step [of m now ev es E] Cons.prems e by simp
  then show ?case using Cons e by simp
qed

text \<open>
  C15. Runs of webhook triggers are authentic: if no bus event has the empty type, each of their runs was
  started by a request whose signature is the HMAC of its timestamp and body under the trigger's secret and
  whose timestamp is within five minutes. Every run, of any trigger, has the agent and the owner of its trigger,
  and its text is the trigger's template filled with texts of at most 200 characters without a newline.
\<close>

theorem trigger_runs_authentic:
  assumes "list_all (\<lambda>e. proper_event (snd e)) es" and "m = trigger_history E es triggers_new"
    and "n \<in> set (gm_runs m)" and "t = gm_objects m ! gr_trigger n"
  shows "(tg_secret t \<noteq> [] \<longrightarrow> signed E es (tg_secret t) (gr_started n))
    \<and> gr_agent n = tg_agent t \<and> gr_owner n = tg_owner t \<and> (\<exists>f. gr_text n = fill_template f (tg_goal t) \<and> short_texts f)"
proof -
  have "runs_proper E es triggers_new" by (simp add: runs_proper_def links_ok_def triggers_new_def)
  from history_proper [OF subset_refl assms(1) this] have r: "runs_proper E es m" by (simp add: assms(2))
  then have "gr_trigger n < length (gm_objects m)" using assms(3) by (auto simp: runs_proper_def links_ok_def list_all_iff)
  moreover have "run_proper E es (map tg_spec (gm_objects m) ! gr_trigger n) n"
    using r assms(3) by (simp add: runs_proper_def list_all_iff)
  ultimately have "run_proper E es (tg_spec t) n" by (simp only: nth_map assms(4))
  then show ?thesis by (simp add: tg_spec_def)
qed

definition hooked :: "(time \<times> trigger_op) list" where
  "hooked = [(0, OnWebhook ''deploy'' ''k'' ''ops'' ''check $who'' ''local'' 6), (1000, Webhook ''deploy'' ''web'' ''900'' ''k:900.web''),
     (1001, Webhook ''deploy'' ''db'' ''900'' ''forged'')]"

theorem trigger_runs_authentic_witness:
  "map gr_text (gm_runs (trigger_history env0 hooked triggers_new)) = [''check web'']
   \<and> list_all (\<lambda>n. signed env0 hooked ''k'' (gr_started n)) (gm_runs (trigger_history env0 hooked triggers_new))"
proof -
  let ?m = "trigger_history env0 hooked triggers_new"
  have p: "list_all (\<lambda>e. proper_event (snd e)) hooked" by (simp add: hooked_def)
  have m: "map gr_text (gm_runs ?m) = [''check web'']" "map gr_trigger (gm_runs ?m) = [0]" "tg_secret (gm_objects ?m ! 0) = ''k''"
    by code_simp+
  have "signed env0 hooked ''k'' (gr_started n)" if "n \<in> set (gm_runs ?m)" for n
  proof -
    have "gr_trigger n \<in> set (map gr_trigger (gm_runs ?m))" using that by simp
    then show ?thesis using trigger_runs_authentic [OF p refl that refl] m by simp
  qed
  then show ?thesis using m(1) by (simp add: list_all_iff)
qed

text \<open>The condition is needed: triggers of the other kinds listen to the empty type, so such an event starts all of them.\<close>

lemma empty_type_fires_all:
  "map gr_started (gm_runs (trigger_history env0 [(0, OnWebhook ''deploy'' ''k'' ''ops'' ''check'' ''local'' 6),
     (0, Every ''poll'' 60 ''ops'' ''look'' ''local'' 2), (5, BusEvent [(''type'', PStr [])])] triggers_new)) = [5, 5]"
  by code_simp

end
