(* ===== verification/Key_Pool.thy ===== *)
theory Key_Pool
  imports Async
begin

text \<open>
  \<open>src/providers/pool.py\<close>: several API keys behind one provider. Requests rotate over the keys; a key with an
  authentication, quota or rate-limit error is parked and the request goes on with the next one.
\<close>

section \<open>State\<close>

record key_pool =
  kp_parked :: "(nat, time) odict"
  kp_next :: nat

text \<open>
  Calls of members act on a world that contains the pool: while one request waits for a member, others use
  the same pool.
\<close>

record 'x pool_world =
  pw_pool :: key_pool
  pw_rest :: 'x

text \<open>One label per key, the cooldown, the monotonic clock, and the wall clock the classifier reads.\<close>

record 'x pool_env =
  ke_labels :: "string list"
  ke_cooldown :: real
  ke_clock :: "'x \<Rightarrow> time"
  ke_wall :: "'x \<Rightarrow> time"

text \<open>The constructor; \<open>None\<close> is its \<open>ValueError\<close>.\<close>

definition key_pool_new :: "'m list \<Rightarrow> string list \<Rightarrow> key_pool option" where
  "key_pool_new members labels =
     (if members = [] \<or> length members \<noteq> length labels then None else Some \<lparr>kp_parked = [], kp_next = 0\<rparr>)"

definition KEY_ERRORS :: "error_kind set" where
  "KEY_ERRORS = {AUTH, QUOTA, RATE_LIMIT}"

definition key_error :: "'x pool_env \<Rightarrow> 'x pool_world \<Rightarrow> exn \<Rightarrow> bool" where
  "key_error E w e \<longleftrightarrow> ei_kind (classify (ke_wall E (pw_rest w)) e) \<in> KEY_ERRORS"

definition parked_until :: "nat \<Rightarrow> key_pool \<Rightarrow> time" where
  "parked_until i p = (case od_get (kp_parked p) i of None \<Rightarrow> 0 | Some t \<Rightarrow> t)"

definition key_states :: "'x pool_env \<Rightarrow> 'x pool_world \<Rightarrow> (string \<times> bool) list" where
  "key_states E w =
     map (\<lambda>(i, label). (label, parked_until i (pw_pool w) > ke_clock E (pw_rest w))) (enumerate 0 (ke_labels E))"

section \<open>Rotation and parking\<close>

definition rotation :: "nat \<Rightarrow> nat \<Rightarrow> nat list" where
  "rotation n start = map (\<lambda>i. (start + i) mod n) [0..<n]"

text \<open>\<open>_order\<close>.\<close>

definition key_order :: "'x pool_env \<Rightarrow> 'x pool_world \<Rightarrow> nat list \<times> 'x pool_world" where
  "key_order E w =
     (let n = length (ke_labels E); p = pw_pool w; order = rotation n (kp_next p mod n);
          live = filter (\<lambda>i. parked_until i p \<le> ke_clock E (pw_rest w)) order
      in (if live \<noteq> [] then live else order, w\<lparr>pw_pool := p\<lparr>kp_next := (kp_next p + 1) mod n\<rparr>\<rparr>))"

definition park :: "'x pool_env \<Rightarrow> nat \<Rightarrow> 'x pool_world \<Rightarrow> 'x pool_world" where
  "park E i w = w\<lparr>pw_pool := (pw_pool w)\<lparr>kp_parked := od_set i (ke_clock E (pw_rest w) + ke_cooldown E) (kp_parked (pw_pool w))\<rparr>\<rparr>"

section \<open>Requests\<close>

definition assertion_error :: exn where
  "assertion_error = ProviderError \<lparr>se_mro = [''AssertionError'', ''Exception''], se_is_timeout = False,
     se_is_connection = False, se_attrs = [], se_response = None, se_message = []\<rparr>"

text \<open>The loop of \<open>complete\<close> and \<open>embed\<close>; \<open>latest\<close> is the variable \<open>last\<close>.\<close>

fun try_keys :: "'x pool_env \<Rightarrow> (nat \<Rightarrow> 'x pool_world \<Rightarrow> 'a outcome \<times> 'x pool_world) \<Rightarrow> nat list \<Rightarrow> exn option \<Rightarrow>
    'x pool_world \<Rightarrow> 'a outcome \<times> 'x pool_world" where
  "try_keys E call [] latest w = (Exc (case latest of Some e \<Rightarrow> e | None \<Rightarrow> assertion_error), w)"
| "try_keys E call (i # is) latest w =
     (case call i w of
        (Exc e, w) \<Rightarrow> if \<not> key_error E w e then (Exc e, w) else try_keys E call is (Some e) (park E i w)
      | (r, w) \<Rightarrow> (r, w))"

definition pool_complete ::
  "'x pool_env \<Rightarrow> (nat \<Rightarrow> 'r \<Rightarrow> 'x pool_world \<Rightarrow> 'a outcome \<times> 'x pool_world) \<Rightarrow> 'r \<Rightarrow> 'x pool_world \<Rightarrow> 'a outcome \<times> 'x pool_world" where
  "pool_complete E member req w = (case key_order E w of (order, w) \<Rightarrow> try_keys E (\<lambda>i. member i req) order None w)"

definition pool_embed ::
  "'x pool_env \<Rightarrow> (nat \<Rightarrow> 't \<Rightarrow> string option \<Rightarrow> 'x pool_world \<Rightarrow> 'a outcome \<times> 'x pool_world) \<Rightarrow> 't \<Rightarrow> string option \<Rightarrow>
    'x pool_world \<Rightarrow> 'a outcome \<times> 'x pool_world" where
  "pool_embed E member texts model w =
     (case key_order E w of (order, w) \<Rightarrow> try_keys E (\<lambda>i. member i texts model) order None w)"

text \<open>
  The stream of a member: the chunks the consumer gets and how it ends (\<open>Cancel\<close> is also the consumer closing it).
\<close>

fun try_streams :: "'x pool_env \<Rightarrow> (nat \<Rightarrow> 'x pool_world \<Rightarrow> string list \<times> unit outcome \<times> 'x pool_world) \<Rightarrow> nat list \<Rightarrow> exn option \<Rightarrow>
    'x pool_world \<Rightarrow> string list \<times> unit outcome \<times> 'x pool_world" where
  "try_streams E gen [] latest w = ([], Exc (case latest of Some e \<Rightarrow> e | None \<Rightarrow> assertion_error), w)"
| "try_streams E gen (i # is) latest w =
     (case gen i w of
        (chunks, Exc e, w) \<Rightarrow>
          (if chunks \<noteq> [] \<or> \<not> key_error E w e then (chunks, Exc e, w)
           else try_streams E gen is (Some e) (park E i w))
      | (chunks, r, w) \<Rightarrow> (chunks, r, w))"

definition pool_stream ::
  "'x pool_env \<Rightarrow> (nat \<Rightarrow> 'r \<Rightarrow> 'x pool_world \<Rightarrow> string list \<times> unit outcome \<times> 'x pool_world) \<Rightarrow> 'r \<Rightarrow> 'x pool_world \<Rightarrow>
    string list \<times> unit outcome \<times> 'x pool_world" where
  "pool_stream E member req w = (case key_order E w of (order, w) \<Rightarrow> try_streams E (\<lambda>i. member i req) order None w)"

section \<open>What a pool guarantees\<close>

text \<open>The world after the given keys, in order, have all ended in key errors and been parked; \<open>None\<close> if one did not.\<close>

fun all_refused :: "'x pool_env \<Rightarrow> (nat \<Rightarrow> 'x pool_world \<Rightarrow> 'a outcome \<times> 'x pool_world) \<Rightarrow> nat list \<Rightarrow> 'x pool_world \<Rightarrow> 'x pool_world option" where
  "all_refused E call [] w = Some w"
| "all_refused E call (i # is) w =
     (case call i w of
        (Exc e, w) \<Rightarrow> if key_error E w e then all_refused E call is (park E i w) else None
      | _ \<Rightarrow> None)"

definition key_refusal :: "'x pool_env \<Rightarrow> 'a outcome \<times> 'x pool_world \<Rightarrow> bool" where
  "key_refusal E r \<longleftrightarrow> (case r of (Exc e, w) \<Rightarrow> key_error E w e | _ \<Rightarrow> False)"

lemma try_keys_refused:
  assumes "try_keys E call is latest w = r"
  shows "(\<exists>fails i rest w1. is = fails @ i # rest \<and> all_refused E call fails w = Some w1 \<and> \<not> key_refusal E (call i w1) \<and> r = call i w1)
    \<or> (\<exists>w1. all_refused E call is w = Some w1 \<and> snd r = w1
        \<and> fst r = Exc (case latest of Some e \<Rightarrow> e | None \<Rightarrow> assertion_error) \<and> is = [])
    \<or> (\<exists>fails i e w1 w2. is = fails @ [i] \<and> all_refused E call fails w = Some w1 \<and> call i w1 = (Exc e, w2)
        \<and> key_error E w2 e \<and> r = (Exc e, park E i w2))"
  using assms
proof (induction "is" arbitrary: latest w)
  case Nil
  then show ?case by auto
next
  case (Cons i "is")
  obtain o1 w1 where c: "call i w = (o1, w1)" by (cases "call i w")
  show ?case
  proof (cases "key_refusal E (call i w)")
    case False
    then have "r = call i w" using Cons.prems c by (auto simp: key_refusal_def split: outcome.splits)
    then show ?thesis using False by (intro disjI1 exI [of _ "[]"]) auto
  next
    case True
    then obtain e where e: "o1 = Exc e" "key_error E w1 e" using c by (auto simp: key_refusal_def split: outcome.splits)
    then have r: "try_keys E call is (Some e) (park E i w1) = r" using Cons.prems c by simp
    have step: "all_refused E call (i # fs) w = all_refused E call fs (park E i w1)" for fs using c e by simp
    from Cons.IH [OF r] show ?thesis
    proof (elim disjE exE conjE)
      fix fails j rest u assume "is = fails @ j # rest" "all_refused E call fails (park E i w1) = Some u"
        "\<not> key_refusal E (call j u)" "r = call j u"
      then show ?thesis by (intro disjI1 exI [of _ "i # fails"]) (auto simp: step simp del: all_refused.simps)
    next
      fix u assume "is = []"
      then show ?thesis using r c e by (intro disjI2 exI [of _ "[]"]) auto
    next
      fix fails j e' u u2 assume "is = fails @ [j]" "all_refused E call fails (park E i w1) = Some u"
        "call j u = (Exc e', u2)" "key_error E u2 e'" "r = (Exc e', park E j u2)"
      then show ?thesis by (intro disjI2 exI [of _ "i # fails"]) (auto simp: step simp del: all_refused.simps)
    qed
  qed
qed

lemma rotation_distinct: "distinct (rotation n start)"
proof -
  have less: False if "i < j" "j < n" "(start + i) mod n = (start + j) mod n" for i j
  proof -
    have "n dvd (start + j) - (start + i)" using that mod_eq_dvd_iff_nat [of "start + i" "start + j" n] by simp
    then have "n dvd j - i" by simp
    with that(1,2) show False using dvd_imp_le [of n "j - i"] by simp
  qed
  have "inj_on (\<lambda>i. (start + i) mod n) {0..<n}"
  proof (rule inj_onI)
    fix i j assume "i \<in> {0..<n}" "j \<in> {0..<n}" "(start + i) mod n = (start + j) mod n"
    then show "i = j" using less [of i j] less [of j i] by (metis atLeastLessThan_iff linorder_neqE_nat)
  qed
  then show ?thesis by (simp add: rotation_def distinct_map)
qed

lemma rotation_set: "0 < n \<Longrightarrow> set (rotation n start) = {..<n}"
proof -
  assume "0 < n"
  then have "set (rotation n start) \<subseteq> {..<n}" by (auto simp: rotation_def)
  moreover have "card (set (rotation n start)) = n" using distinct_card [OF rotation_distinct] by (simp add: rotation_def)
  ultimately show ?thesis by (intro card_subset_eq) auto
qed

lemma all_refused_snoc:
  "all_refused E call fails w = Some w1 \<Longrightarrow> call i w1 = (Exc e, w2) \<Longrightarrow> key_error E w2 e \<Longrightarrow>
   all_refused E call (fails @ [i]) w = Some (park E i w2)"
proof (induction fails arbitrary: w)
  case Nil
  then show ?case by simp
next
  case (Cons j fails)
  then show ?case by (auto split: prod.splits outcome.splits if_splits)
qed

lemma try_keys_result:
  assumes "try_keys E call is None w = (res, w')" "is \<noteq> []"
  shows "(\<exists>fails i rest w1. is = fails @ i # rest \<and> all_refused E call fails w = Some w1
        \<and> call i w1 = (res, w') \<and> \<not> key_refusal E (res, w'))
    \<or> all_refused E call is w = Some w' \<and> (\<exists>e. res = Exc e)"
  using try_keys_refused [OF assms(1)]
proof (elim disjE exE conjE)
  fix fails i rest w1 assume "is = fails @ i # rest" "all_refused E call fails w = Some w1" "\<not> key_refusal E (call i w1)" "(res, w') = call i w1"
  then show ?thesis by (metis (no_types))
next
  fix fails i e w1 w2
  assume f: "is = fails @ [i]" "all_refused E call fails w = Some w1" "call i w1 = (Exc e, w2)" "key_error E w2 e"
    "(res, w') = (Exc e, park E i w2)"
  then show ?thesis using all_refused_snoc [OF f(2-4)] by simp
qed (use assms(2) in simp)

definition live_keys :: "'x pool_env \<Rightarrow> 'x pool_world \<Rightarrow> nat set" where
  "live_keys E w = {i. i < length (ke_labels E) \<and> parked_until i (pw_pool w) \<le> ke_clock E (pw_rest w)}"

lemma filter_in_filter: "filter (\<lambda>i. i \<in> set (filter P xs)) xs = filter P xs"
  by (rule filter_cong) auto

lemma key_order_facts:
  assumes "ke_labels E \<noteq> []" "key_order E w = (order, w0)"
  shows "distinct order" "order \<noteq> []" "set order = (if live_keys E w = {} then {..<length (ke_labels E)} else live_keys E w)"
    "order = filter (\<lambda>i. i \<in> set order) (rotation (length (ke_labels E)) (kp_next (pw_pool w) mod length (ke_labels E)))"
    "kp_next (pw_pool w0) = (kp_next (pw_pool w) + 1) mod length (ke_labels E)"
    "kp_parked (pw_pool w0) = kp_parked (pw_pool w)" "pw_rest w0 = pw_rest w"
proof -
  let ?n = "length (ke_labels E)"
  let ?r = "rotation ?n (kp_next (pw_pool w) mod ?n)"
  let ?live = "filter (\<lambda>i. parked_until i (pw_pool w) \<le> ke_clock E (pw_rest w)) ?r"
  have r: "set ?r = {..<?n}" using assms(1) by (simp add: rotation_set)
  have o: "order = (if ?live \<noteq> [] then ?live else ?r)"
    "w0 = w\<lparr>pw_pool := (pw_pool w)\<lparr>kp_next := (kp_next (pw_pool w) + 1) mod ?n\<rparr>\<rparr>"
    using assms(2) by (auto simp: key_order_def Let_def)
  have l: "set ?live = live_keys E w" using r by (auto simp: live_keys_def)
  then have e: "?live = [] \<longleftrightarrow> live_keys E w = {}" by (metis set_empty)
  show "distinct order" using o(1) rotation_distinct by simp
  have "0 \<in> set ?r" unfolding r using assms(1) by simp
  then have ne: "?r \<noteq> []" by (metis empty_iff empty_set)
  show "order \<noteq> []" unfolding o(1) using ne by (simp only: simp_thms split: if_split)
  show set: "set order = (if live_keys E w = {} then {..<?n} else live_keys E w)" using o(1) e l r by simp
  show "order = filter (\<lambda>i. i \<in> set order) ?r"
  proof (cases "?live = []")
    case True
    then have "order = ?r" using o(1) by (simp only: simp_thms if_True if_False)
    moreover have "filter (\<lambda>i. i \<in> set ?r) ?r = ?r" by (rule filter_True) blast
    ultimately show ?thesis by (simp only:)
  next
    case False
    then have "order = ?live" using o(1) by (simp only: simp_thms if_True if_False)
    then show ?thesis by (simp only: filter_in_filter)
  qed
  show "kp_next (pw_pool w0) = (kp_next (pw_pool w) + 1) mod ?n" "kp_parked (pw_pool w0) = kp_parked (pw_pool w)" "pw_rest w0 = pw_rest w"
    using o(2) by simp_all
qed

text \<open>
  C22. A pool fails a request for want of a key only when no key works: it tries, in rotation order, every key that
  is not parked (all of them if all are), each at most once; it stops at the first that does not end in a
  key error, whose answer, error or cancellation is the result unchanged; otherwise every one of them has
  been refused and parked. The next request starts one key later. Whatever other requests do to the pool meanwhile.
\<close>

theorem pool_tries_every_key:
  assumes "ke_labels E \<noteq> []" and "key_order E w = (order, w0)" and "pool_complete E member req w = (res, w')"
  shows "distinct order \<and> set order = (if live_keys E w = {} then {..<length (ke_labels E)} else live_keys E w)
    \<and> order = filter (\<lambda>i. i \<in> set order) (rotation (length (ke_labels E)) (kp_next (pw_pool w) mod length (ke_labels E)))
    \<and> kp_next (pw_pool w0) = (kp_next (pw_pool w) + 1) mod length (ke_labels E)
    \<and> ((\<exists>fails i rest w1. order = fails @ i # rest \<and> all_refused E (\<lambda>i. member i req) fails w0 = Some w1
          \<and> member i req w1 = (res, w') \<and> \<not> key_refusal E (res, w'))
      \<or> all_refused E (\<lambda>i. member i req) order w0 = Some w' \<and> (\<exists>e. res = Exc e))"
  using key_order_facts [OF assms(1,2)] try_keys_result [of E "\<lambda>i. member i req" order w0 res w'] assms(2,3)
  by (simp add: pool_complete_def)

definition pool0 :: "unit pool_env" where
  "pool0 = \<lparr>ke_labels = [''a'', ''b'', ''c''], ke_cooldown = 60, ke_clock = (\<lambda>_. 100), ke_wall = (\<lambda>_. 100)\<rparr>"

definition two_exhausted :: "nat \<Rightarrow> string \<Rightarrow> unit pool_world \<Rightarrow> string outcome \<times> unit pool_world" where
  "two_exhausted i req w = (if i = 2 then Ret (''from c: '' @ req) else Exc (RateLimited ''p'' None), w)"

theorem pool_tries_every_key_witness:
  "\<exists>w'. pool_complete pool0 two_exhausted ''hi'' \<lparr>pw_pool = \<lparr>kp_parked = [], kp_next = 0\<rparr>, pw_rest = ()\<rparr> = (Ret ''from c: hi'', w')
     \<and> (\<exists>fails i rest w1. [0, 1, 2] = fails @ i # rest \<and> two_exhausted i ''hi'' w1 = (Ret ''from c: hi'', w'))"
proof -
  let ?w = "\<lparr>pw_pool = \<lparr>kp_parked = [], kp_next = 0\<rparr>, pw_rest = ()\<rparr>"
  have l: "ke_labels pool0 \<noteq> []" by (simp add: pool0_def)
  have "fst (key_order pool0 ?w) = [0, 1, 2]" "fst (pool_complete pool0 two_exhausted ''hi'' ?w) = Ret ''from c: hi''" by code_simp+
  then obtain w0 w' where o: "key_order pool0 ?w = ([0, 1, 2], w0)" "pool_complete pool0 two_exhausted ''hi'' ?w = (Ret ''from c: hi'', w')"
    by (metis prod.collapse)
  from pool_tries_every_key [OF l o]
  have "(\<exists>fails i rest w1. [0, 1, 2] = fails @ i # rest \<and> two_exhausted i ''hi'' w1 = (Ret ''from c: hi'', w'))
      \<or> (\<exists>e. Ret ''from c: hi'' = (Exc e :: string outcome))" by (elim conjE disjE) (blast, blast)
  then show ?thesis using o(2) by blast
qed

text \<open>A stream delivers the chunks of one key only: every key before it failed before its first chunk.\<close>

lemma stream_of_one_key:
  "try_streams E gen is latest w = (chunks, r, w') \<Longrightarrow> chunks \<noteq> [] \<Longrightarrow> \<exists>i \<in> set is. \<exists>w1. gen i w1 = (chunks, r, w')"
proof (induction "is" arbitrary: latest w)
  case Nil
  then show ?case by simp
next
  case (Cons i "is")
  obtain cs o1 w1 where g: "gen i w = (cs, o1, w1)" by (cases "gen i w")
  show ?case
  proof (cases o1)
    case (Exc e)
    then show ?thesis using Cons g by (auto split: if_splits)
  qed (use Cons.prems g in auto)
qed

end
