(* ===== verification/Audit_Log.thy ===== *)
theory Audit_Log
  imports Prelude
begin

text \<open>
  \<open>src/coreai/audit.py\<close>: the bounded audit log. Details are cleaned before they are stored: values under keys that
  look like secrets are redacted, and depth, number of items and characters are bounded.
\<close>

section \<open>Cleaning\<close>

definition SECRET_HINTS :: "string list" where
  "SECRET_HINTS = [''key'', ''token'', ''secret'', ''password'', ''authorization'', ''credential'']"

definition MAX_VALUE_CHARS :: nat where "MAX_VALUE_CHARS = 500"
definition MAX_CONTAINER_ITEMS :: nat where "MAX_CONTAINER_ITEMS = 50"
definition MAX_CLEAN_CHARS :: nat where "MAX_CLEAN_CHARS = 50000"
definition MAX_EVENT_BYTES :: nat where "MAX_EVENT_BYTES = 64000"

definition secret_key :: "string \<Rightarrow> bool" where
  "secret_key k \<longleftrightarrow> list_ex (\<lambda>h. str_in h (str_lower k)) SECRET_HINTS"

text \<open>\<open>_clip_text\<close>, with the budget of characters that is left.\<close>

definition clip_text :: "string \<Rightarrow> nat \<Rightarrow> string \<times> nat" where
  "clip_text s b =
     (let size = min MAX_VALUE_CHARS b; marker = (if size \<ge> 3 then ''...'' else []);
          clipped = (if length s \<le> size then s else take (size - length marker) s @ marker)
      in (clipped, b - length clipped))"

text \<open>\<open>_clean\<close>; the budget, a list of one number in the code, is an argument and a result.\<close>

fun clean :: "nat \<Rightarrow> nat \<Rightarrow> pyval \<Rightarrow> pyval \<times> nat"
  and clean_dict :: "nat \<Rightarrow> nat \<Rightarrow> nat \<Rightarrow> (string \<times> pyval) list \<Rightarrow> (string, pyval) odict \<Rightarrow> (string, pyval) odict \<times> nat"
  and clean_list :: "nat \<Rightarrow> nat \<Rightarrow> nat \<Rightarrow> pyval list \<Rightarrow> pyval list \<times> nat" where
  "clean d b (PDict es) =
     (if b = 0 then (PStr ''[truncated]'', b)
      else if d \<ge> 3 then (PStr ''[nested data truncated]'', b)
      else case clean_dict d 0 b es [] of (out, b) \<Rightarrow> (PDict out, b))"
| "clean d b (PList vs) =
     (if b = 0 then (PStr ''[truncated]'', b)
      else if d \<ge> 3 then (PStr ''[nested data truncated]'', b)
      else case clean_list d MAX_CONTAINER_ITEMS b vs of
        (items, b) \<Rightarrow> (PList (if length vs > MAX_CONTAINER_ITEMS \<and> b > 0 then items @ [PStr ''[truncated]''] else items), b))"
| "clean d b (PBool v) = (if b = 0 then PStr ''[truncated]'' else PBool v, b)"
| "clean d b PNone = (if b = 0 then PStr ''[truncated]'' else PNone, b)"
| "clean d b (PInt n) = (if b = 0 then PStr ''[truncated]'' else if \<bar>n\<bar> < 2 ^ 1024 then PInt n else PStr ''[number truncated]'', b)"
| "clean d b (PFloat r) = (if b = 0 then PStr ''[truncated]'' else PFloat r, b)"
| "clean d b PNonFinite = (if b = 0 then PStr ''[truncated]'' else PNone, b)"
| "clean d b (PStr s) = (if b = 0 then (PStr ''[truncated]'', b) else case clip_text s b of (s, b) \<Rightarrow> (PStr s, b))"
| "clean_dict d index b [] out = (out, b)"
| "clean_dict d index b ((k, v) # es) out =
     (if index \<ge> MAX_CONTAINER_ITEMS \<or> b = 0 then (od_set ''_truncated'' (PBool True) out, b)
      else case clip_text k b of
        (safe, b) \<Rightarrow>
          (if secret_key k then clean_dict d (Suc index) (b - length ''[redacted]'') es (od_set safe (PStr ''[redacted]'') out)
           else case clean (Suc d) b v of (v, b) \<Rightarrow> clean_dict d (Suc index) b es (od_set safe v out)))"
| "clean_list d n b [] = ([], b)"
| "clean_list d n b (v # vs) =
     (if n = 0 then ([], b)
      else case clean (Suc d) b v of (v, b) \<Rightarrow> (case clean_list d (n - 1) b vs of (items, b) \<Rightarrow> (v # items, b)))"

text \<open>A call of \<open>_clean\<close> without a budget.\<close>

definition clean_value :: "pyval \<Rightarrow> pyval" where
  "clean_value v = fst (clean 0 MAX_CLEAN_CHARS v)"

section \<open>The log\<close>

record audit_event =
  au_id :: nat
  au_ts :: time
  au_action :: pyval
  au_actor :: pyval
  au_target :: pyval
  au_outcome :: pyval
  au_details :: pyval

text \<open>The file holds lines; \<open>None\<close> is a file that does not exist.\<close>

record audit_log =
  al_path :: "string option"
  al_max_events :: nat
  al_max_bytes :: nat
  al_events :: "audit_event list"
  al_seq :: nat
  al_write_errors :: nat
  al_file :: "audit_event list option"
  al_backup :: "audit_event list option"

definition audit_new :: "string option \<Rightarrow> nat \<Rightarrow> nat \<Rightarrow> audit_log" where
  "audit_new path max_events max_bytes =
     \<lparr>al_path = path, al_max_events = max_events, al_max_bytes = max_bytes, al_events = [], al_seq = 0,
      al_write_errors = 0, al_file = None, al_backup = None\<rparr>"

text \<open>The length in bytes of an event's JSON, \<open>round(x, 3)\<close>, and the clock.\<close>

record audit_env =
  au_bytes :: "audit_event \<Rightarrow> nat"
  au_round :: "real \<Rightarrow> real"

definition file_size :: "audit_env \<Rightarrow> audit_event list \<Rightarrow> nat" where
  "file_size E ls = sum_list (map (\<lambda>e. Suc (au_bytes E e)) ls)"

text \<open>\<open>_append_to_file\<close>; \<open>works\<close> says whether the file operations succeed.\<close>

definition append_to_file :: "audit_env \<Rightarrow> bool \<Rightarrow> audit_event \<Rightarrow> audit_log \<Rightarrow> audit_log" where
  "append_to_file E works e a =
     (if al_path a = None \<or> al_path a = Some [] then a
      else if \<not> works then a\<lparr>al_write_errors := Suc (al_write_errors a)\<rparr>
      else case al_file a of
          None \<Rightarrow> a\<lparr>al_file := Some [e]\<rparr>
        | Some ls \<Rightarrow> (if file_size E ls \<ge> al_max_bytes a then a\<lparr>al_backup := Some ls, al_file := Some [e]\<rparr>
                     else a\<lparr>al_file := Some (ls @ [e])\<rparr>))"

definition ring_add :: "nat \<Rightarrow> 'a \<Rightarrow> 'a list \<Rightarrow> 'a list" where
  "ring_add m x xs = drop (Suc (length xs) - m) (xs @ [x])"

definition audit_record ::
  "audit_env \<Rightarrow> time \<Rightarrow> bool \<Rightarrow> string \<Rightarrow> string \<Rightarrow> string option \<Rightarrow> string \<Rightarrow> pyval \<Rightarrow> audit_log \<Rightarrow> audit_event \<times> audit_log" where
  "audit_record E now works action actor target outcome details a =
     (let seq = Suc (al_seq a);
          event = \<lparr>au_id = seq, au_ts = au_round E now, au_action = clean_value (PStr action), au_actor = clean_value (PStr actor),
            au_target = clean_value (case target of None \<Rightarrow> PNone | Some t \<Rightarrow> PStr t), au_outcome = clean_value (PStr outcome),
            au_details = clean_value (if falsy details then PDict [] else details)\<rparr>;
          event = (if au_bytes E event > MAX_EVENT_BYTES
                   then event\<lparr>au_details := PDict [(''_truncated'', PStr ''event exceeded size limit'')]\<rparr> else event)
      in (event, append_to_file E works event
            (a\<lparr>al_seq := seq, al_events := ring_add (al_max_events a) event (al_events a)\<rparr>)))"

fun str_starts :: "string \<Rightarrow> pyval \<Rightarrow> bool" where
  "str_starts p (PStr s) = (take (length p) s = p)"
| "str_starts p _ = False"

definition wanted :: "string option \<Rightarrow> string option \<Rightarrow> audit_event \<Rightarrow> bool" where
  "wanted action actor e \<longleftrightarrow>
     (case action of None \<Rightarrow> True | Some s \<Rightarrow> s = [] \<or> au_action e = PStr s \<or> str_starts (s @ ''.'') (au_action e))
     \<and> (case actor of None \<Rightarrow> True | Some s \<Rightarrow> s = [] \<or> au_actor e = PStr s)"

text \<open>The loop stops after an append, so a limit below one still yields one event.\<close>

definition audit_events :: "int \<Rightarrow> string option \<Rightarrow> string option \<Rightarrow> audit_log \<Rightarrow> audit_event list" where
  "audit_events limit action actor a = take (max 1 (nat limit)) (filter (wanted action actor) (rev (al_events a)))"

section \<open>Secrets\<close>

text \<open>A value with everything under a key that looks like a secret taken out.\<close>

fun mask :: "pyval \<Rightarrow> pyval" and mask_dict :: "(string \<times> pyval) list \<Rightarrow> (string \<times> pyval) list" and mask_list :: "pyval list \<Rightarrow> pyval list" where
  "mask (PDict es) = PDict (mask_dict es)"
| "mask (PList vs) = PList (mask_list vs)"
| "mask (PBool b) = PBool b"
| "mask PNone = PNone"
| "mask (PInt n) = PInt n"
| "mask (PFloat r) = PFloat r"
| "mask PNonFinite = PNonFinite"
| "mask (PStr s) = PStr s"
| "mask_dict [] = []"
| "mask_dict ((k, v) # es) = (k, if secret_key k then PNone else mask v) # mask_dict es"
| "mask_list [] = []"
| "mask_list (v # vs) = mask v # mask_list vs"

lemma length_mask_list [simp]: "length (mask_list vs) = length vs"
  by (induction vs) auto

lemma clean_mask:
  "clean d b (mask v) = clean d b v"
  "clean_dict d index b (mask_dict es) out = clean_dict d index b es out"
  "clean_list d n b (mask_list vs) = clean_list d n b vs"
  by (induction d b v and d index b es out and d n b vs rule: clean_clean_dict_clean_list.induct)
    (auto split: prod.split)

text \<open>A recorded action with its time, whether its file operations succeed, and the arguments of \<open>record\<close>.\<close>

datatype audit_op = Record time bool string string "string option" string pyval

fun audit_step :: "audit_env \<Rightarrow> audit_op \<Rightarrow> audit_log \<Rightarrow> audit_log" where
  "audit_step E (Record now works action actor target outcome details) a =
     snd (audit_record E now works action actor target outcome details a)"

definition audit_history :: "audit_env \<Rightarrow> audit_op list \<Rightarrow> audit_log \<Rightarrow> audit_log" where
  "audit_history E ops a = fold (audit_step E) ops a"

fun mask_op :: "audit_op \<Rightarrow> audit_op" where
  "mask_op (Record now works action actor target outcome details) = Record now works action actor target outcome (mask details)"

lemma falsy_mask [simp]: "falsy (mask v) = falsy v"
proof (cases v)
  case (PList vs)
  then show ?thesis by (cases vs) simp_all
next
  case (PDict es)
  then show ?thesis by (cases es) auto
qed simp_all

lemma step_mask: "audit_step E (mask_op op) a = audit_step E op a"
proof (cases op)
  case (Record now works action actor target outcome details)
  have "clean_value (if falsy (mask details) then PDict [] else mask details) = clean_value (if falsy details then PDict [] else details)"
    by (simp add: clean_value_def clean_mask)
  then show ?thesis by (simp add: Record audit_record_def)
qed

section \<open>Bounds\<close>

text \<open>A value of bounded depth, with short strings and small containers.\<close>

fun small :: "nat \<Rightarrow> pyval \<Rightarrow> bool" where
  "small n (PStr s) = (length s \<le> 500)"
| "small n (PList vs) = (length vs \<le> 51 \<and> (case n of 0 \<Rightarrow> False | Suc n \<Rightarrow> list_all (small n) vs))"
| "small n (PDict es) = (length es \<le> 51 \<and> (case n of 0 \<Rightarrow> False | Suc n \<Rightarrow> list_all (\<lambda>(k, v). length k \<le> 500 \<and> small n v) es))"
| "small n _ = True"

definition small_dict :: "nat \<Rightarrow> (string, pyval) odict \<Rightarrow> bool" where
  "small_dict n es \<longleftrightarrow> list_all (\<lambda>(k, v). length k \<le> 500 \<and> small n v) es"

lemma clip_length: "clip_text s b = (t, b') \<Longrightarrow> length t \<le> 500 \<and> length t \<le> b \<and> b' = b - length t"
  by (auto simp: clip_text_def Let_def MAX_VALUE_CHARS_def split: if_splits)

lemma small_dict_set: "small_dict n es \<Longrightarrow> length k \<le> 500 \<Longrightarrow> small n v \<Longrightarrow> small_dict n (od_set k v es)"
  unfolding small_dict_def od_set_def by (induction es) (auto split: if_splits)

lemma length_set_le: "length (od_set k v d) \<le> Suc (length d)"
  by (simp add: length_od_set)

lemma clean_small:
  "small (3 - d) (fst (clean d b v))"
  "d < 3 \<Longrightarrow> small_dict (2 - d) out \<Longrightarrow> length out \<le> index \<Longrightarrow> index \<le> 50 \<Longrightarrow>
     small_dict (2 - d) (fst (clean_dict d index b es out)) \<and> length (fst (clean_dict d index b es out)) \<le> 51"
  "d < 3 \<Longrightarrow> list_all (small (2 - d)) (fst (clean_list d n b vs)) \<and> length (fst (clean_list d n b vs)) \<le> n"
proof (induction d b v and d index b es out and d n b vs rule: clean_clean_dict_clean_list.induct)
  case (1 d b es)
  show ?case
  proof (cases "b = 0 \<or> d \<ge> 3")
    case False
    then have s: "small_dict (2 - d) (fst (clean_dict d 0 b es [])) \<and> length (fst (clean_dict d 0 b es [])) \<le> 51"
      using 1 by (simp add: small_dict_def)
    moreover have "3 - d = Suc (2 - d)" using False by arith
    ultimately show ?thesis using False by (cases "clean_dict d 0 b es []") (simp add: small_dict_def)
  qed auto
next
  case (2 d b vs)
  show ?case
  proof (cases "b = 0 \<or> d \<ge> 3")
    case False
    then have "list_all (small (2 - d)) (fst (clean_list d MAX_CONTAINER_ITEMS b vs)) \<and> length (fst (clean_list d MAX_CONTAINER_ITEMS b vs)) \<le> 50"
      using 2 by (simp add: MAX_CONTAINER_ITEMS_def)
    moreover have "3 - d = Suc (2 - d)" using False by arith
    ultimately show ?thesis using False by (auto split: prod.split)
  qed auto
next
  case (8 d b s)
  then show ?case using clip_length [of s b] by (auto split: prod.split)
next
  case (10 d index b k v es out)
  show ?case
  proof (cases "index \<ge> MAX_CONTAINER_ITEMS \<or> b = 0")
    case True
    then show ?thesis using 10(4-7) length_set_le [of "''_truncated''" "PBool True" out] by (auto intro: small_dict_set)
  next
    case False
    obtain safe b1 where c: "clip_text k b = (safe, b1)" by (cases "clip_text k b")
    have safe: "length safe \<le> 500" using clip_length [OF c] by simp
    have i: "Suc index \<le> 50" using False by (simp add: MAX_CONTAINER_ITEMS_def)
    have l: "length (od_set safe x out) \<le> Suc index" for x using length_set_le [of safe x out] 10(6) by simp
    show ?thesis
    proof (cases "secret_key k")
      case True
      have "small_dict (2 - d) (od_set safe (PStr ''[redacted]'') out)" using 10(5) safe by (simp add: small_dict_set)
      then show ?thesis using 10(1) [OF False c [symmetric] True 10(4) _ l i] False c True by simp
    next
      case sec: False
      obtain v' b2 where v: "clean (Suc d) b1 v = (v', b2)" by (cases "clean (Suc d) b1 v")
      have "small (3 - Suc d) (fst (clean (Suc d) b1 v))" by (rule 10(2) [OF False c [symmetric] sec])
      moreover have "3 - Suc d = 2 - d" by simp
      ultimately have "small (2 - d) v'" using v by (simp only: fst_conv)
      then have "small_dict (2 - d) (od_set safe v' out)" using 10(5) safe by (simp add: small_dict_set)
      then show ?thesis using 10(3) [OF False c [symmetric] sec v [symmetric] 10(4) _ l i] False c sec v by simp
    qed
  qed
next
  case (12 d n b v vs)
  show ?case
  proof (cases "n = 0")
    case False
    obtain v' b1 where v: "clean (Suc d) b v = (v', b1)" by (cases "clean (Suc d) b v")
    have "small (3 - Suc d) (fst (clean (Suc d) b v))" by (rule 12(1) [OF False])
    moreover have "3 - Suc d = 2 - d" by simp
      ultimately have "small (2 - d) v'" using v by (simp only: fst_conv)
    then show ?thesis using 12(2) [OF False v [symmetric] 12(3)] False v by (auto split: prod.split)
  qed simp
qed (auto split: prod.split)

definition event_small :: "audit_env \<Rightarrow> audit_event \<Rightarrow> bool" where
  "event_small E e \<longleftrightarrow> list_all (small 3) [au_action e, au_actor e, au_target e, au_outcome e, au_details e]
     \<and> (au_bytes E e \<le> MAX_EVENT_BYTES \<or> au_details e = PDict [(''_truncated'', PStr ''event exceeded size limit'')])"

definition audit_ok :: "audit_env \<Rightarrow> audit_log \<Rightarrow> bool" where
  "audit_ok E a \<longleftrightarrow> length (al_events a) = min (al_max_events a) (al_seq a)
     \<and> map au_id (al_events a) = map Suc [al_seq a - length (al_events a)..<al_seq a] \<and> list_all (event_small E) (al_events a)"

lemma clean_value_small: "small 3 (clean_value v)"
  using clean_small(1) [of 0 MAX_CLEAN_CHARS v] by (simp add: clean_value_def)

lemma record_small: "event_small E (fst (audit_record E now works action actor target outcome details a))"
proof -
  have "small 3 (PDict [(''_truncated'', PStr ''event exceeded size limit'')])" by (simp add: numeral_3_eq_3)
  then show ?thesis by (auto simp: audit_record_def Let_def event_small_def clean_value_small simp del: small.simps)
qed

lemma append_keeps [simp]:
  "al_events (append_to_file E works e a) = al_events a" "al_seq (append_to_file E works e a) = al_seq a"
  "al_max_events (append_to_file E works e a) = al_max_events a"
  by (simp_all add: append_to_file_def split: option.split)

lemma ring_ids:
  assumes "length xs = min m n" "map f xs = map Suc [n - length xs..<n]" "f x = Suc n"
  shows "length (ring_add m x xs) = min m (Suc n)" "map f (ring_add m x xs) = map Suc [Suc n - length (ring_add m x xs)..<Suc n]"
proof -
  show l: "length (ring_add m x xs) = min m (Suc n)" using assms(1) by (auto simp: ring_add_def)
  have "map f (xs @ [x]) = map Suc [n - length xs..<Suc n]" using assms(2,3) by simp
  then have "map f (ring_add m x xs) = map Suc (drop (Suc (length xs) - m) [n - length xs..<Suc n])"
    by (simp only: ring_add_def drop_map [symmetric])
  also have "drop (Suc (length xs) - m) [n - length xs..<Suc n] = [Suc n - length (ring_add m x xs)..<Suc n]"
  proof -
    have "n - length xs + (Suc (length xs) - m) = Suc n - length (ring_add m x xs)" using l assms(1) by arith
    then show ?thesis by (simp only: drop_upt)
  qed
  finally show "map f (ring_add m x xs) = map Suc [Suc n - length (ring_add m x xs)..<Suc n]" .
qed

lemma record_ok: "audit_ok E a \<Longrightarrow> audit_ok E (audit_step E op a)"
proof -
  assume ok: "audit_ok E a"
  obtain now works action actor target outcome details where op: "op = Record now works action actor target outcome details" by (cases op)
  obtain e a' where r: "audit_record E now works action actor target outcome details a = (e, a')"
    by (cases "audit_record E now works action actor target outcome details a")
  have e: "au_id e = Suc (al_seq a)" "al_seq a' = Suc (al_seq a)" "al_max_events a' = al_max_events a"
    "al_events a' = ring_add (al_max_events a) e (al_events a)"
    using r by (auto simp: audit_record_def Let_def split: if_splits)
  have s: "event_small E e" using record_small [of E now works action actor target outcome details a] r by simp
  have "list_all (event_small E) (ring_add (al_max_events a) e (al_events a))"
    using ok s by (auto simp: audit_ok_def ring_add_def list_all_iff dest!: in_set_dropD)
  then show ?thesis
    using ring_ids [of "al_events a" "al_max_events a" "al_seq a" au_id e] ok e r op by (simp add: audit_ok_def)
qed

interpretation audit: op_system "audit_step E" "\<lambda>_. True" "audit_ok E"
  by unfold_locales (rule record_ok)

text \<open>
  C19. The audit log holds no secret and stays bounded: whatever is recorded, the whole log (ring, file and backup)
  would be the same if everything stored under a key that looks like a secret, at any depth, were missing; the
  ring holds the last \<open>max_events\<close> events with consecutive ids, each of bounded depth, item count and string
  length, and each either below the size limit or with its details replaced.
\<close>

theorem audit_hides_secrets:
  "audit_history E (map mask_op ops) a = audit_history E ops a
   \<and> audit_ok E (audit_history E ops (audit_new path max_events max_bytes))"
proof
  show "audit_history E (map mask_op ops) a = audit_history E ops a"
    unfolding audit_history_def by (induction ops arbitrary: a) (simp_all add: step_mask)
  have "audit_ok E (audit_new path max_events max_bytes)" by (simp add: audit_ok_def audit_new_def)
  then show "audit_ok E (audit_history E ops (audit_new path max_events max_bytes))"
    unfolding audit_history_def by (rule audit.inv_run_all [OF TrueI])
qed

text \<open>The file is replaced when it has reached its limit, so it exceeds it by at most one line.\<close>

lemma audit_file_bounded:
  assumes bytes: "\<And>e. au_bytes E e < M" and old: "\<forall>ls. al_file a = Some ls \<longrightarrow> file_size E ls < al_max_bytes a + M"
    and "0 < al_max_bytes a"
  shows "\<forall>ls. al_file (append_to_file E works e a) = Some ls \<longrightarrow> file_size E ls < al_max_bytes a + M"
proof -
  have b: "Suc (au_bytes E e) \<le> M" using bytes [of e] by simp
  then have one: "file_size E [e] < al_max_bytes a + M" using assms(3) by (simp add: file_size_def)
  have more: "file_size E (ls @ [e]) < al_max_bytes a + M" if "file_size E ls < al_max_bytes a" for ls
    using b that by (simp add: file_size_def)
  show ?thesis
  proof (cases "al_file a")
    case None
    then show ?thesis using one by (simp add: append_to_file_def)
  next
    case (Some ls)
    then show ?thesis using one more [of ls] old by (simp add: append_to_file_def)
  qed
qed

end
