(* ===== verification/Agent_Memory.thy ===== *)
theory Agent_Memory
  imports Prelude
begin

text \<open>
  \<open>src/coreai/memory_manager.py\<close>: one window of messages per agent, trimmed from the oldest side when its token
  estimate exceeds a soft limit.
\<close>

section \<open>State\<close>

record mem_message =
  mm_role :: string
  mm_content :: string
  mm_timestamp :: time
  mm_tokens :: int

text \<open>\<open>max(1, len(text) // 4)\<close>, the estimate of messages and of the system prompt.\<close>

definition estimate :: "string \<Rightarrow> int" where
  "estimate s = max 1 (int (length s) div 4)"

definition mem_message_new :: "time \<Rightarrow> string \<Rightarrow> string \<Rightarrow> mem_message" where
  "mem_message_new now role content =
     \<lparr>mm_role = role, mm_content = content, mm_timestamp = now, mm_tokens = estimate content\<rparr>"

record context_window =
  cw_messages :: "mem_message list"
  cw_max_tokens :: int
  cw_system_prompt :: "string option"
  cw_created_at :: time
  cw_last_updated :: time

definition prompt_tokens :: "context_window \<Rightarrow> int" where
  "prompt_tokens w = (case cw_system_prompt w of None \<Rightarrow> 0 | Some s \<Rightarrow> if s = [] then 0 else estimate s)"

definition window_tokens :: "context_window \<Rightarrow> int" where
  "window_tokens w = sum_list (map mm_tokens (cw_messages w)) + prompt_tokens w"

definition is_over_limit :: "context_window \<Rightarrow> bool" where
  "is_over_limit w \<longleftrightarrow> window_tokens w > cw_max_tokens w"

definition to_list :: "context_window \<Rightarrow> (string \<times> string) list" where
  "to_list w = (case cw_system_prompt w of Some s \<Rightarrow> if s = [] then [] else [(''system'', s)] | None \<Rightarrow> [])
     @ map (\<lambda>m. (mm_role m, mm_content m)) (cw_messages w)"

record memory_manager =
  my_default_max_tokens :: int
  my_windows :: "(string, context_window) odict"
  my_added :: nat
  my_trims :: nat

definition memory_manager_new :: "int \<Rightarrow> memory_manager" where
  "memory_manager_new max_tokens = \<lparr>my_default_max_tokens = max_tokens, my_windows = [], my_added = 0, my_trims = 0\<rparr>"

section \<open>Operations\<close>

definition get_or_create :: "time \<Rightarrow> string \<Rightarrow> string option \<Rightarrow> memory_manager \<Rightarrow> context_window \<times> memory_manager" where
  "get_or_create now a prompt y =
     (case od_get (my_windows y) a of
        Some w \<Rightarrow> (w, y)
      | None \<Rightarrow>
          (let w = \<lparr>cw_messages = [], cw_max_tokens = my_default_max_tokens y, cw_system_prompt = prompt,
                    cw_created_at = now, cw_last_updated = now\<rparr>
           in (w, y\<lparr>my_windows := od_set a w (my_windows y)\<rparr>)))"

definition MIN_KEEP :: nat where "MIN_KEEP = 4"

text \<open>The loop of \<open>_trim\<close>; every round removes the first message.\<close>

fun trim_messages :: "context_window \<Rightarrow> mem_message list \<Rightarrow> mem_message list" where
  "trim_messages w [] = []"
| "trim_messages w (m # ms) =
     (if is_over_limit (w\<lparr>cw_messages := m # ms\<rparr>) \<and> length (m # ms) > MIN_KEEP then trim_messages w ms else m # ms)"

definition trim :: "context_window \<Rightarrow> memory_manager \<Rightarrow> context_window \<times> memory_manager" where
  "trim w y =
     (let ms = trim_messages w (cw_messages w)
      in (w\<lparr>cw_messages := ms\<rparr>, y\<lparr>my_trims := my_trims y + (length (cw_messages w) - length ms)\<rparr>))"

definition add_message :: "time \<Rightarrow> string \<Rightarrow> string \<Rightarrow> string \<Rightarrow> memory_manager \<Rightarrow> memory_manager" where
  "add_message now a role content y =
     (case get_or_create now a None y of
        (w, y) \<Rightarrow>
          (let w = w\<lparr>cw_messages := cw_messages w @ [mem_message_new now role content], cw_last_updated := now\<rparr>;
               y = y\<lparr>my_added := Suc (my_added y)\<rparr>
           in case (if is_over_limit w then trim w y else (w, y)) of
                (w, y) \<Rightarrow> y\<lparr>my_windows := od_set a w (my_windows y)\<rparr>))"

definition get_context :: "string \<Rightarrow> memory_manager \<Rightarrow> (string \<times> string) list" where
  "get_context a y = (case od_get (my_windows y) a of None \<Rightarrow> [] | Some w \<Rightarrow> to_list w)"

definition set_system_prompt :: "time \<Rightarrow> string \<Rightarrow> string \<Rightarrow> memory_manager \<Rightarrow> memory_manager" where
  "set_system_prompt now a prompt y =
     (case get_or_create now a None y of
        (w, y) \<Rightarrow> y\<lparr>my_windows := od_set a (w\<lparr>cw_system_prompt := Some prompt\<rparr>) (my_windows y)\<rparr>)"

definition clear_window :: "string \<Rightarrow> memory_manager \<Rightarrow> memory_manager" where
  "clear_window a y = y\<lparr>my_windows := od_map_at a (\<lambda>w. w\<lparr>cw_messages := []\<rparr>) (my_windows y)\<rparr>"

definition drop_window :: "string \<Rightarrow> memory_manager \<Rightarrow> memory_manager" where
  "drop_window a y = y\<lparr>my_windows := od_pop a (my_windows y)\<rparr>"

text \<open>\<open>xs[-n:]\<close>: all of \<open>xs\<close> for zero, and without the first \<open>-n\<close> for a negative \<open>n\<close>.\<close>

definition from_end :: "int \<Rightarrow> 'a list \<Rightarrow> 'a list" where
  "from_end n xs = (if 0 < n then drop (length xs - nat n) xs else drop (nat (- n)) xs)"

definition recall :: "string \<Rightarrow> int \<Rightarrow> memory_manager \<Rightarrow> (string \<times> string) list" where
  "recall a limit y =
     (case od_get (my_windows y) a of
        None \<Rightarrow> []
      | Some w \<Rightarrow> map (\<lambda>m. (mm_role m, mm_content m)) (from_end limit (filter (\<lambda>m. mm_role m \<noteq> ''system'') (cw_messages w))))"

definition store_memory :: "time \<Rightarrow> string \<Rightarrow> string \<Rightarrow> memory_manager \<Rightarrow> memory_manager" where
  "store_memory now a content y = add_message now a ''assistant'' content y"

section \<open>Trimming\<close>

lemma over_limit_messages:
  "is_over_limit (w\<lparr>cw_messages := ms\<rparr>) \<longleftrightarrow> sum_list (map mm_tokens ms) + prompt_tokens w > cw_max_tokens w"
  by (simp add: is_over_limit_def window_tokens_def prompt_tokens_def)

text \<open>
  What is kept is the longest suffix that is within the limit or has no more than four messages: one more
  message would be over the limit.
\<close>

lemma trim_messages_longest:
  obtains old where "ms = old @ trim_messages w ms"
    and "length (trim_messages w ms) \<le> MIN_KEEP \<or> \<not> is_over_limit (w\<lparr>cw_messages := trim_messages w ms\<rparr>)"
    and "old \<noteq> [] \<Longrightarrow> is_over_limit (w\<lparr>cw_messages := last old # trim_messages w ms\<rparr>) \<and> MIN_KEEP \<le> length (trim_messages w ms)"
proof (induction ms arbitrary: thesis)
  case Nil
  then show ?case by (simp add: MIN_KEEP_def)
next
  case (Cons m ms)
  show ?case
  proof (cases "is_over_limit (w\<lparr>cw_messages := m # ms\<rparr>) \<and> length (m # ms) > MIN_KEEP")
    case False
    then show ?thesis using Cons.prems [of "[]"] by auto
  next
    case True
    from Cons.IH obtain old where old: "ms = old @ trim_messages w ms"
      "length (trim_messages w ms) \<le> MIN_KEEP \<or> \<not> is_over_limit (w\<lparr>cw_messages := trim_messages w ms\<rparr>)"
      "old \<noteq> [] \<Longrightarrow> is_over_limit (w\<lparr>cw_messages := last old # trim_messages w ms\<rparr>) \<and> MIN_KEEP \<le> length (trim_messages w ms)" by blast
    have t: "trim_messages w (m # ms) = trim_messages w ms" using True by simp
    show ?thesis
    proof (rule Cons.prems [of "m # old"])
      show "m # ms = (m # old) @ trim_messages w (m # ms)" using old(1) t by simp
      show "length (trim_messages w (m # ms)) \<le> MIN_KEEP \<or> \<not> is_over_limit (w\<lparr>cw_messages := trim_messages w (m # ms)\<rparr>)"
        using old(2) t by simp
      show "is_over_limit (w\<lparr>cw_messages := last (m # old) # trim_messages w (m # ms)\<rparr>) \<and> MIN_KEEP \<le> length (trim_messages w (m # ms))"
      proof (cases "old = []")
        case True': True
        then have "trim_messages w ms = ms" using old(1) by simp
        then show ?thesis using True True' t by simp
      next
        case False
        then show ?thesis using old(3) t by simp
      qed
    qed
  qed
qed

lemma trim_messages_same [simp]: "trim_messages (w\<lparr>cw_messages := ms, cw_last_updated := now\<rparr>) xs = trim_messages w xs"
  by (induction xs) (auto simp: is_over_limit_def window_tokens_def prompt_tokens_def)

lemma trim_within:
  "\<not> is_over_limit (w\<lparr>cw_messages := ms, cw_last_updated := now\<rparr>) \<Longrightarrow> trim_messages w ms = ms"
  by (cases ms) (auto simp: is_over_limit_def window_tokens_def prompt_tokens_def)

lemma add_message_window:
  assumes "od_get (my_windows y) a = Some w"
  shows "od_get (my_windows (add_message now a role content y)) a = Some (w\<lparr>
      cw_messages := trim_messages w (cw_messages w @ [mem_message_new now role content]), cw_last_updated := now\<rparr>)"
    and "b \<noteq> a \<Longrightarrow> od_get (my_windows (add_message now a role content y)) b = od_get (my_windows y) b"
  using assms by (auto simp: add_message_def get_or_create_def Let_def trim_def dest: trim_within)

text \<open>A message stored under the role \<open>system\<close> is trimmed like any other, and a recall of none recalls all.\<close>

lemma system_message_trimmed:
  "get_context ''a'' (fold (\<lambda>r. add_message 0 ''a'' r ''abcdefgh'') [''system'', ''user'', ''user'', ''user'', ''user''] (memory_manager_new 8))
   = replicate 4 (''user'', ''abcdefgh'')"
  by code_simp

lemma recall_zero_is_all: "recall ''a'' 0 (add_message 0 ''a'' ''user'' ''hi'' (memory_manager_new 8)) = [(''user'', ''hi'')]"
  by code_simp

end
