(* ===== verification/Events.thy ===== *)
theory Events
  imports Budgets Triggers
begin

text \<open>
  \<open>src/utils/events.py\<close>: the event bus, which events its sinks take and how they word them, and the
  budget alerts made from the budget manager's status. What a sink sends over the network is left out.
\<close>

section \<open>Sinks\<close>

type_synonym bus_event = "(string, pyval) odict"

definition EVENT_TYPES :: "string list" where
  "EVENT_TYPES = [''run.finished'', ''budget.warning'', ''budget.exceeded'', ''provider.outage'', ''provider.recovered'']"

definition ALERT_EVENTS :: "string list" where
  "ALERT_EVENTS = [''budget.warning'', ''budget.exceeded'', ''provider.outage'', ''provider.recovered'']"

definition type_in :: "bus_event \<Rightarrow> string list \<Rightarrow> bool" where
  "type_in event ts \<longleftrightarrow> get_or event ''type'' PNone \<in> set (map PStr ts)"

definition is_alert :: "bus_event \<Rightarrow> bool" where
  "is_alert event \<longleftrightarrow> type_in event ALERT_EVENTS
     \<or> (get_or event ''type'' PNone = PStr ''run.finished'' \<and> get_or event ''status'' PNone = PStr ''failed'')"

datatype sink_kind = WebhookSink | SlackSink | EmailSink

record sink =
  sk_kind :: sink_kind
  sk_events :: "string list option"

text \<open>The constructors: an empty choice of events is none, and a webhook needs a secret.\<close>

definition sink_new :: "sink_kind \<Rightarrow> string \<Rightarrow> string list \<Rightarrow> sink option" where
  "sink_new k secret events =
     (if k = WebhookSink \<and> secret = [] then None
      else Some \<lparr>sk_kind = k, sk_events = (if events = [] then None else Some events)\<rparr>)"

text \<open>The guards at the head of the three \<open>__call__\<close> methods.\<close>

definition takes :: "sink \<Rightarrow> bus_event \<Rightarrow> bool" where
  "takes k event \<longleftrightarrow>
     (case sk_events k of Some ts \<Rightarrow> type_in event ts | None \<Rightarrow> sk_kind k = WebhookSink \<or> is_alert event)"

section \<open>Wording\<close>

definition field_text :: "(pyval \<Rightarrow> string) \<Rightarrow> bus_event \<Rightarrow> string \<Rightarrow> string" where
  "field_text fl event k = py_str fl (get_or event k PNone)"

text \<open>\<open>format_event\<close> for an event whose type is a text; the second part of a dotted type, and the body line by line.\<close>

definition after_dot :: "string \<Rightarrow> string" where
  "after_dot t = split_on (CHR ''.'') t ! 1"

definition event_subject :: "(pyval \<Rightarrow> string) \<Rightarrow> string \<Rightarrow> bus_event \<Rightarrow> string" where
  "event_subject fl t event =
     (if t = ''run.finished''
      then ''Run '' @ field_text fl event ''run_id'' @ '' '' @ field_text fl event ''status'' @ '' ('' @ field_text fl event ''reason'' @ '')''
      else if take 7 t = ''budget.''
      then ''Budget '' @ after_dot t @ '': '' @ field_text fl event ''subject'' @ '' at '' @
        ''$'' @ field_text fl event ''used_usd'' @ '' of $'' @ field_text fl event ''cap_usd'' @
        ''Budget '' @ after_dot t @ '': '' @ field_text fl event ''subject'' @ '' '' @
        ''at $'' @ field_text fl event ''used_usd'' @ '' of $'' @ field_text fl event ''cap_usd''
      else if take 9 t = ''provider.''
      then ''Provider '' @ field_text fl event ''provider'' @ '': '' @ after_dot t
      else t)"

definition event_body :: "(pyval \<Rightarrow> string) \<Rightarrow> bus_event \<Rightarrow> string" where
  "event_body fl event =
     intercalate [CHR 0x0A] (map (\<lambda>(k, v). k @ '': '' @ py_str fl v) (filter (\<lambda>(k, v). k \<noteq> ''id'') event))"

section \<open>The bus\<close>

text \<open>
  What a sink does when it is called: it returns nothing to wait for, returns something to wait for, or raises a
  \<open>RuntimeError\<close> or another exception. Sinks have names here; the tasks are the sinks being waited for.
\<close>

datatype sink_reply = Done | Awaitable | RaisesRuntime | RaisesOther

record event_bus =
  eb_sinks :: "nat list"
  eb_tasks :: "nat list"

definition bus_new :: event_bus where
  "bus_new = \<lparr>eb_sinks = [], eb_tasks = []\<rparr>"

definition subscribe :: "nat \<Rightarrow> event_bus \<Rightarrow> event_bus" where
  "subscribe k b = b\<lparr>eb_sinks := eb_sinks b @ [k]\<rparr>"

definition clear_sinks :: "event_bus \<Rightarrow> event_bus" where
  "clear_sinks b = b\<lparr>eb_sinks := []\<rparr>"

text \<open>
  \<open>_deliver\<close>; the first result says whether \<open>UnboundLocalError\<close> escapes, because the handler of
  \<open>RuntimeError\<close> reads the result of a call that did not return.
\<close>

definition deliver :: "bool \<Rightarrow> (nat \<Rightarrow> sink_reply) \<Rightarrow> nat \<Rightarrow> event_bus \<Rightarrow> bool \<times> event_bus" where
  "deliver loop_runs reply k b =
     (case reply k of
        Done \<Rightarrow> (False, b)
      | Awaitable \<Rightarrow> (False, if loop_runs then b\<lparr>eb_tasks := eb_tasks b @ [k]\<rparr> else b)
      | RaisesRuntime \<Rightarrow> (True, b)
      | RaisesOther \<Rightarrow> (False, b))"

fun deliver_all :: "bool \<Rightarrow> (nat \<Rightarrow> sink_reply) \<Rightarrow> nat list \<Rightarrow> event_bus \<Rightarrow> bool \<times> event_bus" where
  "deliver_all loop_runs reply [] b = (False, b)"
| "deliver_all loop_runs reply (k # ks) b =
     (case deliver loop_runs reply k b of
        (escaped, b) \<Rightarrow> if escaped then (True, b) else deliver_all loop_runs reply ks b)"

text \<open>\<open>emit\<close>: \<open>Inl\<close> is an escaping exception. The data may override the three fields of the bus, as \<open>**data\<close> does.\<close>

definition emit ::
  "time \<Rightarrow> string \<Rightarrow> bool \<Rightarrow> (bus_event \<Rightarrow> nat \<Rightarrow> sink_reply) \<Rightarrow> string \<Rightarrow> bus_event \<Rightarrow> event_bus \<Rightarrow>
    (unit + bus_event option) \<times> event_bus" where
  "emit now fresh_id loop_runs reply t vals b =
     (if eb_sinks b = [] then (Inr None, b)
      else let event = od_update [(''id'', PStr fresh_id), (''type'', PStr t), (''ts'', PFloat now)] vals
      in case deliver_all loop_runs (reply event) (eb_sinks b) b of
           (escaped, b) \<Rightarrow> (if escaped then Inl () else Inr (Some event), b))"

definition sink_done :: "nat \<Rightarrow> event_bus \<Rightarrow> event_bus" where
  "sink_done k b = b\<lparr>eb_tasks := remove1 k (eb_tasks b)\<rparr>"

text \<open>An event reaches every sink and \<open>emit\<close> returns it, unless a sink itself raises \<open>RuntimeError\<close>.\<close>

lemma emit_reaches_all:
  assumes "\<forall>k \<in> set (eb_sinks b). \<forall>event. reply event k \<noteq> RaisesRuntime" "eb_sinks b \<noteq> []" "od_wf vals"
  obtains event where "fst (emit now i loop_runs reply t vals b) = Inr (Some event)"
    and "\<And>k v. od_get vals k = Some v \<Longrightarrow> od_get event k = Some v"
    and "loop_runs \<Longrightarrow> eb_tasks (snd (emit now i loop_runs reply t vals b)) =
      eb_tasks b @ filter (\<lambda>k. reply event k = Awaitable) (eb_sinks b)"
proof -
  define event where "event = od_update [(''id'', PStr i), (''type'', PStr t), (''ts'', PFloat now)] vals"
  have d: "\<forall>k \<in> set ks. reply event k \<noteq> RaisesRuntime \<Longrightarrow>
    fst (deliver_all loop_runs (reply event) ks b') = False \<and> (loop_runs \<longrightarrow>
      eb_tasks (snd (deliver_all loop_runs (reply event) ks b')) = eb_tasks b' @ filter (\<lambda>k. reply event k = Awaitable) ks)" for ks b'
    by (induction ks arbitrary: b') (auto simp: deliver_def split: sink_reply.splits prod.splits)
  have "fst (emit now i loop_runs reply t vals b) = Inr (Some event)"
    using assms(1,2) d [of "eb_sinks b" b] by (auto simp: emit_def event_def [symmetric] split: prod.split)
  moreover have "od_get event k = Some v" if "od_get vals k = Some v" for k v
    using that assms(3) by (simp add: event_def od_get_update)
  moreover have "eb_tasks (snd (emit now i loop_runs reply t vals b)) =
      eb_tasks b @ filter (\<lambda>k. reply event k = Awaitable) (eb_sinks b)" if loop_runs
    using assms(1,2) that d [of "eb_sinks b" b] by (auto simp: emit_def event_def [symmetric] split: prod.split)
  ultimately show ?thesis using that by blast
qed

text \<open>\<open>TriggerManager.on_bus_event\<close> raises \<open>RuntimeError\<close> when no loop runs: then \<open>emit\<close> raises and later sinks get nothing.\<close>

lemma emit_can_raise:
  "emit 0 ''i'' False (\<lambda>_ k. if k = 0 then RaisesRuntime else Done) ''run.finished'' [] (subscribe 1 (subscribe 0 bus_new))
   = (Inl (), subscribe 1 (subscribe 0 bus_new))"
  by code_simp

section \<open>Budget alerts\<close>

text \<open>\<open>watch_budgets\<close>: per subject the last cost seen and the kinds alerted, and the alerts emitted.\<close>

record budget_watch =
  bw_seen :: "(string, real \<times> string list) odict"
  bw_emitted :: "(string \<times> string \<times> real \<times> real option) list"

definition alert_kinds :: "budget_status \<Rightarrow> string list \<Rightarrow> string list" where
  "alert_kinds st fired =
     (let cost = fst (bs_used st) in
      (if bs_warning st \<and> ''warning'' \<notin> set fired then [''warning''] else [])
      @ (case fst (bs_limits st) of None \<Rightarrow> [] | Some cap \<Rightarrow> if cost \<ge> cap \<and> ''exceeded'' \<notin> set fired then [''exceeded''] else []))"

definition watch_check :: "string \<Rightarrow> budget_status option \<Rightarrow> budget_watch \<Rightarrow> budget_watch" where
  "watch_check subject st s =
     (case st of
        None \<Rightarrow> s
      | Some st \<Rightarrow>
          (let cost = fst (bs_used st);
               (latest, fired) = (case od_get (bw_seen s) subject of None \<Rightarrow> (0, []) | Some p \<Rightarrow> p);
               fired = (if cost < latest then [] else fired);
               kinds = alert_kinds st fired
           in s\<lparr>bw_emitted := bw_emitted s @ map (\<lambda>k. (k, subject, cost, fst (bs_limits st))) kinds,
                bw_seen := od_set subject (cost, fired @ kinds) (bw_seen s)\<rparr>))"

text \<open>The wrapped \<open>record\<close> and \<open>add_usage\<close>.\<close>

definition watched ::
  "(budget_manager \<Rightarrow> budget_manager) \<Rightarrow> time \<Rightarrow> string \<Rightarrow> budget_manager \<times> budget_watch \<Rightarrow> budget_manager \<times> budget_watch" where
  "watched original now subject = (\<lambda>(bm, s).
     case budget_status_of now subject (original bm) of (st, bm) \<Rightarrow> (bm, watch_check subject st s))"

definition watched_record :: "time \<Rightarrow> string \<Rightarrow> real \<Rightarrow> int \<Rightarrow> budget_manager \<times> budget_watch \<Rightarrow> budget_manager \<times> budget_watch" where
  "watched_record now subject cost tokens = watched (budget_record now subject cost tokens) now subject"

definition watched_add_usage :: "time \<Rightarrow> string \<Rightarrow> real \<Rightarrow> int \<Rightarrow> budget_manager \<times> budget_watch \<Rightarrow> budget_manager \<times> budget_watch" where
  "watched_add_usage now subject cost tokens = watched (add_usage now subject cost tokens) now subject"

text \<open>As long as the cost does not fall, each kind of alert is emitted at most once, and as soon as it holds.\<close>

definition kind_holds :: "string \<Rightarrow> budget_status \<Rightarrow> bool" where
  "kind_holds k st \<longleftrightarrow> k = ''warning'' \<and> bs_warning st
     \<or> k = ''exceeded'' \<and> (case fst (bs_limits st) of None \<Rightarrow> False | Some cap \<Rightarrow> fst (bs_used st) \<ge> cap)"

lemma alert_kinds_set: "set (alert_kinds st fired) = {k. kind_holds k st \<and> k \<notin> set fired}" "distinct (alert_kinds st fired)"
  by (auto simp: alert_kinds_def kind_holds_def Let_def split: option.splits)

lemma alerts_once:
  assumes "sorted (latest # map (\<lambda>st. fst (bs_used st)) sts)" "od_get (bw_seen s) subject = Some (latest, fired)" "distinct fired"
  shows "\<exists>kinds. map fst (bw_emitted (fold (\<lambda>st. watch_check subject (Some st)) sts s)) = map fst (bw_emitted s) @ kinds
    \<and> distinct kinds \<and> set kinds = {k. k \<notin> set fired \<and> (\<exists>st \<in> set sts. kind_holds k st)}"
  using assms
proof (induction sts arbitrary: s latest fired)
  case Nil
  then show ?case by simp
next
  case (Cons st sts)
  let ?kinds = "alert_kinds st fired" and ?cost = "fst (bs_used st)"
  let ?s = "watch_check subject (Some st) s"
  have s: "map fst (bw_emitted ?s) = map fst (bw_emitted s) @ ?kinds" "od_get (bw_seen ?s) subject = Some (?cost, fired @ ?kinds)"
    using Cons.prems(1,2) by (auto simp: watch_check_def Let_def comp_def)
  have "\<exists>kinds. map fst (bw_emitted (fold (\<lambda>st. watch_check subject (Some st)) sts ?s)) = map fst (bw_emitted ?s) @ kinds
    \<and> distinct kinds \<and> set kinds = {k. k \<notin> set (fired @ ?kinds) \<and> (\<exists>st \<in> set sts. kind_holds k st)}"
    by (rule Cons.IH [OF _ s(2)]) (use Cons.prems(1,3) alert_kinds_set [of st fired] in auto)
  then obtain kinds where "map fst (bw_emitted (fold (\<lambda>st. watch_check subject (Some st)) sts ?s)) = map fst (bw_emitted ?s) @ kinds"
    "distinct kinds" "set kinds = {k. k \<notin> set (fired @ ?kinds) \<and> (\<exists>st \<in> set sts. kind_holds k st)}" by blast
  then show ?case using s(1) alert_kinds_set [of st fired] by (intro exI [of _ "?kinds @ kinds"]) auto
qed

text \<open>
  A new window is only noticed when its cost is below the last one seen: a first spend that is not, is over the
  warning again and alerts nobody.
\<close>

definition warn_at_one :: budget_manager where
  "warn_at_one = \<lparr>bm_default = Some \<lparr>bl_max_cost = None, bl_warn_cost = Some 1, bl_max_requests = None, bl_max_tokens = None, bl_window = 60\<rparr>,
     bm_subjects = [], bm_models = [], bm_max_subjects = 10, bm_usage = [], bm_rejections = 0, bm_has_on_alert = False, bm_alerts = []\<rparr>"

lemma new_window_unannounced:
  "bw_emitted (snd (watched_record 70 ''u'' 6 1 (watched_record 10 ''u'' 5 1 (warn_at_one, \<lparr>bw_seen = [], bw_emitted = []\<rparr>))))
   = [(''warning'', ''u'', 5, None)]"
  by code_simp

end
