(* ===== verification/Secure_Frames.thy ===== *)
theory Secure_Frames
  imports Prelude "HOL-Library.Word"
begin

text \<open>
  The frame format of \<open>protocols/secure_protocol.py\<close>: the fixed header packed by \<open>struct\<close>, the
  parser that reads it back, and the codec that puts an HMAC over header and body. A byte is an
  \<open>8 word\<close>; a Python \<open>float\<close> on the wire is its IEEE 754 bit pattern, a \<open>64 word\<close>, whose value
  \<open>double_of\<close> gives. HMAC-SHA256 is a parameter \<open>mac\<close> of two byte strings. Text is encoded as ASCII.
\<close>

section \<open>Bytes and doubles\<close>

type_synonym byte = "8 word"
type_synonym bytes = "byte list"

text \<open>Big-endian fields of \<open>n\<close> bytes, as \<open>struct.pack\<close> lays them out.\<close>

fun be_bytes :: "nat \<Rightarrow> nat \<Rightarrow> bytes" where
  "be_bytes 0 k = []"
| "be_bytes (Suc n) k = be_bytes n (k div 256) @ [word_of_nat k]"

definition be_val :: "bytes \<Rightarrow> nat" where
  "be_val bs = foldl (\<lambda>a b. a * 256 + unat b) 0 bs"

lemma be_bytes_length [simp]: "length (be_bytes n k) = n"
  by (induction n arbitrary: k) auto

lemma be_val_snoc: "be_val (bs @ [b]) = be_val bs * 256 + unat b"
  by (simp add: be_val_def)

lemma be_val_bytes: "be_val (be_bytes n k) = k mod 256 ^ n"
proof (induction n arbitrary: k)
  case 0
  then show ?case by (simp add: be_val_def)
next
  case (Suc n)
  have "k mod (256 * 256 ^ n) = 256 * (k div 256 mod 256 ^ n) + k mod 256"
    by (rule mod_mult2_eq)
  with Suc show ?case by (simp add: be_val_snoc unat_of_nat)
qed

lemma be_val_bytes_small [simp]: "k < 256 ^ n \<Longrightarrow> be_val (be_bytes n k) = k"
  by (simp add: be_val_bytes)

lemma be_bytes_val [simp]: "length bs = n \<Longrightarrow> be_bytes n (be_val bs) = bs"
proof (induction bs arbitrary: n rule: rev_induct)
  case Nil
  then show ?case by (simp add: be_val_def)
next
  case (snoc b bs)
  have "unat b < 256" using unsigned_less [of b, where ?'a = nat] by simp
  moreover have "(word_of_nat (256 * k + unat b) :: byte) = b" for k
  proof -
    have "(256 :: byte) = 0" by simp
    then show ?thesis by (simp only: of_nat_add of_nat_mult of_nat_numeral) simp
  qed
  ultimately show ?case using snoc by (auto simp: be_val_snoc mult.commute)
qed

lemma be_val_less: "be_val bs < 256 ^ length bs"
proof -
  have "be_val bs = be_val (be_bytes (length bs) (be_val bs))" by simp
  also have "\<dots> < 256 ^ length bs" by (simp only: be_val_bytes) simp
  finally show ?thesis .
qed

datatype xfloat = Fin real | Infinite | NaN

text \<open>The value of a double: sign, eleven bits of exponent, fifty-two of fraction.\<close>

definition double_of :: "64 word \<Rightarrow> xfloat" where
  "double_of w =
     (let n = unat w; e = n div 2 ^ 52 mod 2 ^ 11; m = n mod 2 ^ 52;
          s = (if n < 2 ^ 63 then 1 else - 1)
      in if e = 2047 then (if m = 0 then Infinite else NaN)
         else if e = 0 then Fin (s * real m / 2 ^ 1074)
         else Fin (s * real (2 ^ 52 + m) * 2 ^ e / 2 ^ 1075))"

text \<open>\<open>str.encode()\<close> of ASCII text.\<close>

definition encode :: "string \<Rightarrow> bytes" where
  "encode s = map of_char s"

section \<open>Constants and errors\<close>

definition STP_VERSION :: int where "STP_VERSION = 2"
definition FRAME_MAGIC :: bytes where "FRAME_MAGIC = [0xca, 0xfe, 0xc0, 0xde]"
definition NONCE_SIZE :: nat where "NONCE_SIZE = 16"
definition SESSION_KEY_SIZE :: nat where "SESSION_KEY_SIZE = 32"
definition MAC_SIZE :: nat where "MAC_SIZE = 32"
definition MAX_FRAME_BODY_BYTES :: nat where "MAX_FRAME_BODY_BYTES = 4 * 1024 * 1024"
definition REPLAY_WINDOW_S :: real where "REPLAY_WINDOW_S = 30"
definition FRAME_HEADER_SIZE :: nat where "FRAME_HEADER_SIZE = 4 + 1 + 1 + 2 + 8 + 4 + 16 + 4"

definition FLAG_NONE :: int where "FLAG_NONE = 0"
definition FLAG_ENCRYPTED :: int where "FLAG_ENCRYPTED = 1"

datatype stp_error =
    StructError | FrameTooLarge | FrameTooShort | InvalidMagic | TruncatedFrame
  | MacVerification | ReplayAttack | SessionNotEstablished | HandshakeFailed

section \<open>Frames\<close>

record stp_frame =
  sf_version :: int
  sf_flags :: int
  sf_timestamp :: "64 word"
  sf_sequence_no :: int
  sf_nonce :: bytes
  sf_body :: bytes
  sf_mac :: bytes

text \<open>\<open>struct.pack\<close> of an unsigned field of \<open>n\<close> bytes raises when the value does not fit.\<close>

definition pack_uint :: "nat \<Rightarrow> int \<Rightarrow> stp_error + bytes" where
  "pack_uint n k = (if 0 \<le> k \<and> k < 256 ^ n then Inr (be_bytes n (nat k)) else Inl StructError)"

definition header_bytes :: "stp_frame \<Rightarrow> stp_error + bytes" where
  "header_bytes f =
     (case (pack_uint 1 (sf_version f), pack_uint 1 (sf_flags f)) of
        (Inr v, Inr fl) \<Rightarrow>
          (case pack_uint 4 (sf_sequence_no f) of
             Inl e \<Rightarrow> Inl e
           | Inr s \<Rightarrow>
               (case pack_uint 4 (int (length (sf_body f))) of
                  Inl e \<Rightarrow> Inl e
                | Inr l \<Rightarrow> Inr (FRAME_MAGIC @ v @ fl @ [0, 0] @ be_bytes 8 (unat (sf_timestamp f))
                             @ s @ sf_nonce f @ l)))
      | _ \<Rightarrow> Inl StructError)"

definition to_bytes :: "stp_frame \<Rightarrow> stp_error + bytes" where
  "to_bytes f =
     (if length (sf_body f) > MAX_FRAME_BODY_BYTES then Inl FrameTooLarge
      else case header_bytes f of Inl e \<Rightarrow> Inl e | Inr h \<Rightarrow> Inr (h @ sf_body f @ sf_mac f))"

text \<open>Python's bslice \<open>data[a:b]\<close> for \<open>0 \<le> a \<le> b\<close>.\<close>

definition bslice :: "nat \<Rightarrow> nat \<Rightarrow> 'a list \<Rightarrow> 'a list" where
  "bslice a b xs = take (b - a) (drop a xs)"

definition from_bytes :: "bytes \<Rightarrow> stp_error + stp_frame" where
  "from_bytes data =
     (if length data < FRAME_HEADER_SIZE + MAC_SIZE then Inl FrameTooShort
      else if take 4 data \<noteq> FRAME_MAGIC then Inl InvalidMagic
      else
        let body_len = be_val (bslice 36 40 data);
            expected_total = FRAME_HEADER_SIZE + body_len + MAC_SIZE
        in if length data < expected_total then Inl TruncatedFrame
           else Inr
            \<lparr> sf_version = int (be_val (bslice 4 5 data)), sf_flags = int (be_val (bslice 5 6 data)),
              sf_timestamp = word_of_nat (be_val (bslice 8 16 data)),
              sf_sequence_no = int (be_val (bslice 16 20 data)), sf_nonce = bslice 20 36 data,
              sf_body = bslice FRAME_HEADER_SIZE (FRAME_HEADER_SIZE + body_len) data,
              sf_mac = bslice (FRAME_HEADER_SIZE + body_len) expected_total data \<rparr>)"

section \<open>The codec\<close>

text \<open>
  \<open>FrameCodec.encode\<close>: \<open>ts\<close> is the clock reading and \<open>nonce\<close> the random bytes the new frame takes by
  default. \<open>k\<close> is the MAC key of the codec's session keys.
\<close>

definition codec_encode ::
  "(bytes \<Rightarrow> bytes \<Rightarrow> bytes) \<Rightarrow> bytes \<Rightarrow> 64 word \<Rightarrow> bytes \<Rightarrow> bytes \<Rightarrow> int \<Rightarrow> int \<Rightarrow> stp_error + bytes" where
  "codec_encode mac k ts nonce body flags sqn =
     (let f = \<lparr> sf_version = STP_VERSION, sf_flags = flags, sf_timestamp = ts, sf_sequence_no = sqn,
                sf_nonce = nonce, sf_body = body, sf_mac = [] \<rparr>
      in case header_bytes f of
           Inl e \<Rightarrow> Inl e
         | Inr header \<Rightarrow> to_bytes (f\<lparr>sf_mac := mac k (header @ body)\<rparr>))"

definition codec_decode :: "(bytes \<Rightarrow> bytes \<Rightarrow> bytes) \<Rightarrow> bytes \<Rightarrow> bytes \<Rightarrow> stp_error + stp_frame" where
  "codec_decode mac k data =
     (case from_bytes data of
        Inl e \<Rightarrow> Inl e
      | Inr f \<Rightarrow>
          (case header_bytes f of
             Inl e \<Rightarrow> Inl e
           | Inr header \<Rightarrow>
               if mac k (header @ sf_body f) = sf_mac f then Inr f else Inl MacVerification))"

section \<open>What the format guarantees\<close>

text \<open>All that is assumed of HMAC-SHA256 here: a digest has thirty-two bytes.\<close>

definition mac_ok :: "(bytes \<Rightarrow> bytes \<Rightarrow> bytes) \<Rightarrow> bool" where
  "mac_ok mac \<longleftrightarrow> (\<forall>k m. length (mac k m) = 32)"

lemma mac_okD: "mac_ok mac \<Longrightarrow> length (mac k m) = 32"
  by (simp add: mac_ok_def)

definition frame_ok :: "stp_frame \<Rightarrow> bool" where
  "frame_ok f \<longleftrightarrow>
     0 \<le> sf_version f \<and> sf_version f < 256 \<and> 0 \<le> sf_flags f \<and> sf_flags f < 256 \<and>
     0 \<le> sf_sequence_no f \<and> sf_sequence_no f < 2 ^ 32 \<and> length (sf_nonce f) = 16 \<and>
     length (sf_body f) < 2 ^ 32 \<and> length (sf_mac f) = 32"

definition header_of :: "stp_frame \<Rightarrow> bytes" where
  "header_of f =
     FRAME_MAGIC @ be_bytes 1 (nat (sf_version f)) @ be_bytes 1 (nat (sf_flags f)) @ [0, 0]
     @ be_bytes 8 (unat (sf_timestamp f)) @ be_bytes 4 (nat (sf_sequence_no f)) @ sf_nonce f
     @ be_bytes 4 (length (sf_body f))"

lemma header_bytes_ok: "frame_ok f \<Longrightarrow> header_bytes f = Inr (header_of f)"
  by (simp add: frame_ok_def header_bytes_def header_of_def pack_uint_def)

lemma header_of_length [simp]: "length (sf_nonce f) = 16 \<Longrightarrow> length (header_of f) = 40"
  by (simp add: header_of_def FRAME_MAGIC_def)

text \<open>Every parsed frame is one that could have been packed.\<close>

lemma bslice_length: "b \<le> length xs \<Longrightarrow> length (bslice a b xs) = b - a"
  by (simp add: bslice_def)

lemma be_val_bslice: "a \<le> b \<Longrightarrow> b \<le> length xs \<Longrightarrow> be_val (bslice a b xs) < 256 ^ (b - a)"
  using be_val_less [of "bslice a b xs"] by (simp add: bslice_length)

lemma from_bytes_ok:
  assumes "from_bytes data = Inr f"
  shows "frame_ok f \<and> length data \<ge> 72 + length (sf_body f)"
proof -
  have len: "72 \<le> length data"
    using assms by (auto simp: from_bytes_def FRAME_HEADER_SIZE_def MAC_SIZE_def split: if_splits)
  have tot: "72 + be_val (bslice 36 40 data) \<le> length data"
    using assms by (auto simp: from_bytes_def FRAME_HEADER_SIZE_def MAC_SIZE_def Let_def split: if_splits)
  have b: "be_val (bslice 4 5 data) < 256" "be_val (bslice 5 6 data) < 256"
    "be_val (bslice 16 20 data) < 4294967296" "be_val (bslice 36 40 data) < 4294967296"
    using len be_val_bslice [of 4 5 data] be_val_bslice [of 5 6 data]
      be_val_bslice [of 16 20 data] be_val_bslice [of 36 40 data] by simp_all
  have "f = \<lparr> sf_version = int (be_val (bslice 4 5 data)), sf_flags = int (be_val (bslice 5 6 data)),
              sf_timestamp = word_of_nat (be_val (bslice 8 16 data)),
              sf_sequence_no = int (be_val (bslice 16 20 data)), sf_nonce = bslice 20 36 data,
              sf_body = bslice 40 (40 + be_val (bslice 36 40 data)) data,
              sf_mac = bslice (40 + be_val (bslice 36 40 data)) (72 + be_val (bslice 36 40 data)) data \<rparr>"
    using assms by (auto simp: from_bytes_def FRAME_HEADER_SIZE_def MAC_SIZE_def Let_def split: if_splits)
  with len tot b show ?thesis by (simp add: frame_ok_def bslice_length)
qed

lemma bslice_append:
  "bslice a b (xs @ ys) =
     (if b \<le> length xs then bslice a b xs
      else if length xs \<le> a then bslice (a - length xs) (b - length xs) ys
      else drop a xs @ take (b - length xs) ys)"
  by (auto simp: bslice_def)

text \<open>The fields of a packed header, at their offsets, whatever follows.\<close>

lemma header_fields:
  assumes "frame_ok f"
  shows "take 4 (header_of f) = FRAME_MAGIC"
    and "bslice 4 5 (header_of f @ r) = be_bytes 1 (nat (sf_version f))"
    and "bslice 5 6 (header_of f @ r) = be_bytes 1 (nat (sf_flags f))"
    and "bslice 8 16 (header_of f @ r) = be_bytes 8 (unat (sf_timestamp f))"
    and "bslice 16 20 (header_of f @ r) = be_bytes 4 (nat (sf_sequence_no f))"
    and "bslice 20 36 (header_of f @ r) = sf_nonce f"
    and "bslice 36 40 (header_of f @ r) = be_bytes 4 (length (sf_body f))"
  using assms by (simp_all add: header_of_def FRAME_MAGIC_def frame_ok_def bslice_def del: be_bytes.simps)

lemma from_bytes_header:
  assumes "frame_ok f"
  shows "from_bytes (header_of f @ sf_body f @ sf_mac f @ rest) = Inr f"
proof -
  let ?d = "header_of f @ sf_body f @ sf_mac f @ rest"
  have n: "length (header_of f) = 40" "length (sf_mac f) = 32"
    using assms by (simp_all add: frame_ok_def)
  have l: "be_val (bslice 36 40 ?d) = length (sf_body f)"
    using assms by (simp add: header_fields frame_ok_def del: be_bytes.simps)
  have body: "bslice 40 (40 + length (sf_body f)) ?d = sf_body f"
    and tag: "bslice (40 + length (sf_body f)) (72 + length (sf_body f)) ?d = sf_mac f"
    using n by (simp_all add: bslice_def)
  have "unat (sf_timestamp f) < 256 ^ 8"
    using unsigned_less [of "sf_timestamp f", where ?'a = nat] by simp
  then have "(word_of_nat (be_val (be_bytes 8 (unat (sf_timestamp f)))) :: 64 word) = sf_timestamp f"
    by (simp only: be_val_bytes_small) simp
  moreover have "nat (sf_version f) < 256 ^ 1" "nat (sf_flags f) < 256 ^ 1" "nat (sf_sequence_no f) < 256 ^ 4"
    "0 \<le> sf_version f" "0 \<le> sf_flags f" "0 \<le> sf_sequence_no f"
    using assms by (auto simp: frame_ok_def nat_less_iff)
  ultimately show ?thesis using assms n l body tag
    by (simp add: from_bytes_def FRAME_HEADER_SIZE_def MAC_SIZE_def Let_def header_fields
        del: be_bytes.simps)
qed

lemma bslice_join: "a \<le> b \<Longrightarrow> b \<le> c \<Longrightarrow> bslice a b xs @ bslice b c xs = bslice a c xs"
proof -
  assume "a \<le> b" "b \<le> c"
  then have "c - a = (b - a) + (c - b)" "drop b xs = drop (b - a) (drop a xs)" by simp_all
  then show ?thesis by (simp only: bslice_def take_add)
qed

text \<open>
  Packing a parsed header again gives the bytes it came from, except the two reserved bytes, which
  are skipped when reading and zero when writing.
\<close>

lemma parsed_header:
  assumes "from_bytes data = Inr f"
  shows "header_of f = take 6 data @ [0, 0] @ bslice 8 40 data"
proof -
  have len: "72 \<le> length data" and magic: "take 4 data = FRAME_MAGIC"
    and f: "sf_version f = int (be_val (bslice 4 5 data))" "sf_flags f = int (be_val (bslice 5 6 data))"
      "sf_timestamp f = word_of_nat (be_val (bslice 8 16 data))"
      "sf_sequence_no f = int (be_val (bslice 16 20 data))" "sf_nonce f = bslice 20 36 data"
      "sf_body f = bslice 40 (40 + be_val (bslice 36 40 data)) data"
    and tot: "72 + be_val (bslice 36 40 data) \<le> length data"
    using assms by (auto simp: from_bytes_def FRAME_HEADER_SIZE_def MAC_SIZE_def Let_def split: if_splits)
  have "be_val (bslice 8 16 data) < 2 ^ 64" using len be_val_bslice [of 8 16 data] by simp
  then have ts: "unat (sf_timestamp f) = be_val (bslice 8 16 data)"
    using f by (simp add: unat_of_nat)
  have body: "length (sf_body f) = be_val (bslice 36 40 data)"
    using f tot by (simp add: bslice_length)
  have "header_of f = take 4 data @ bslice 4 5 data @ bslice 5 6 data @ [0, 0] @ bslice 8 16 data
      @ bslice 16 20 data @ bslice 20 36 data @ bslice 36 40 data"
    unfolding header_of_def ts body f(1,2,4,5) nat_int magic
    using len by (simp only: be_bytes_val bslice_length)
  also have "\<dots> = (take 4 data @ bslice 4 5 data @ bslice 5 6 data) @ [0, 0]
      @ (bslice 8 16 data @ bslice 16 20 data @ bslice 20 36 data @ bslice 36 40 data)"
    by simp
  also have "take 4 data @ bslice 4 5 data @ bslice 5 6 data = take 6 data"
    using bslice_join [of 0 4 5 data] bslice_join [of 0 5 6 data] by (simp add: bslice_def flip: append_assoc)
  also have "bslice 8 16 data @ bslice 16 20 data @ bslice 20 36 data @ bslice 36 40 data = bslice 8 40 data"
    by (simp add: bslice_join)
  finally show ?thesis .
qed

end
