(* ===== verification/Secure_Session.thy ===== *)
theory Secure_Session
  imports Secure_Frames
begin

text \<open>
  The rest of \<open>protocols/secure_protocol.py\<close>: key derivation, the replay guard, the handshake and the
  established session. \<open>mac\<close> stands for HMAC-SHA256 and \<open>sha\<close> for the hexadecimal SHA-256 of the
  library; what a default factory draws (an id, random bytes, the clock) is an argument.
\<close>

section \<open>Keys\<close>

record session_keys =
  sk_session_id :: string
  sk_send_key :: bytes
  sk_recv_key :: bytes
  sk_mac_key :: bytes
  sk_created_at :: time
  sk_rekey_after_s :: real

definition should_rekey :: "session_keys \<Rightarrow> time \<Rightarrow> bool" where
  "should_rekey ks now \<longleftrightarrow> now - sk_created_at ks > sk_rekey_after_s ks"

definition key_fingerprint :: "(bytes \<Rightarrow> string) \<Rightarrow> session_keys \<Rightarrow> string" where
  "key_fingerprint sha ks = take 16 (sha (sk_send_key ks @ sk_recv_key ks @ sk_mac_key ks))"

text \<open>
  The loop of \<open>hkdf_expand\<close>: with digests of no bytes it would not end, and \<open>bytes([i])\<close> raises once
  the counter exceeds 255.
\<close>

partial_function (option) hkdf_loop ::
  "(bytes \<Rightarrow> bytes \<Rightarrow> bytes) \<Rightarrow> bytes \<Rightarrow> bytes \<Rightarrow> nat \<Rightarrow> bytes \<Rightarrow> bytes \<Rightarrow> nat \<Rightarrow> (stp_error + bytes) option"
where
  "hkdf_loop mac prk info n okm t i =
     (if length okm < n then
        (if i > 255 then Some (Inl StructError)
         else hkdf_loop mac prk info n (okm @ mac prk (t @ info @ [word_of_nat i]))
                (mac prk (t @ info @ [word_of_nat i])) (i + 1))
      else Some (Inr (take n okm)))"

definition hkdf_expand ::
  "(bytes \<Rightarrow> bytes \<Rightarrow> bytes) \<Rightarrow> bytes \<Rightarrow> bytes \<Rightarrow> nat \<Rightarrow> (stp_error + bytes) option" where
  "hkdf_expand mac prk info n = hkdf_loop mac prk info n [] [] 1"

text \<open>An error of one expansion ends the derivation, and so does one that never returns.\<close>

definition hk_bind ::
  "(stp_error + bytes) option \<Rightarrow> (bytes \<Rightarrow> (stp_error + 'a) option) \<Rightarrow> (stp_error + 'a) option" where
  "hk_bind x k = (case x of None \<Rightarrow> None | Some (Inl e) \<Rightarrow> Some (Inl e) | Some (Inr b) \<Rightarrow> k b)"

definition derive_session_keys ::
  "(bytes \<Rightarrow> bytes \<Rightarrow> bytes) \<Rightarrow> string \<Rightarrow> time \<Rightarrow> bytes \<Rightarrow> bytes \<Rightarrow> bytes
     \<Rightarrow> (stp_error + session_keys) option" where
  "derive_session_keys mac sid now shared initiator_nonce responder_nonce =
     (let prk = mac (initiator_nonce @ responder_nonce) shared in
      hk_bind (hkdf_expand mac prk (encode ''coreai-stp-send'') SESSION_KEY_SIZE) (\<lambda>s.
      hk_bind (hkdf_expand mac prk (encode ''coreai-stp-recv'') SESSION_KEY_SIZE) (\<lambda>r.
      hk_bind (hkdf_expand mac prk (encode ''coreai-stp-mac'') SESSION_KEY_SIZE) (\<lambda>m.
        Some (Inr \<lparr> sk_session_id = sid, sk_send_key = s, sk_recv_key = r, sk_mac_key = m,
                    sk_created_at = now, sk_rekey_after_s = 3600 \<rparr>)))))"

section \<open>The replay guard\<close>

record replay_guard =
  rg_window_s :: real
  rg_seen :: "(int, xfloat) odict"

definition outside_window :: "real \<Rightarrow> time \<Rightarrow> xfloat \<Rightarrow> bool" where
  "outside_window w now ts =
     (case ts of Fin t \<Rightarrow> \<bar>now - t\<bar> > w | Infinite \<Rightarrow> True | NaN \<Rightarrow> False)"

text \<open>
  A remembered timestamp is dropped unless it is after the cutoff; no NaN is. An infinite one is
  never remembered.
\<close>

definition after_cutoff :: "real \<Rightarrow> xfloat \<Rightarrow> bool" where
  "after_cutoff c ts = (case ts of Fin t \<Rightarrow> t > c | _ \<Rightarrow> False)"

definition guard_check :: "replay_guard \<Rightarrow> time \<Rightarrow> int \<Rightarrow> xfloat \<Rightarrow> stp_error + replay_guard" where
  "guard_check g now sqn ts =
     (if outside_window (rg_window_s g) now ts then Inl ReplayAttack
      else if od_has (rg_seen g) sqn then Inl ReplayAttack
      else
        let cutoff = now - rg_window_s g;
            seen = filter (\<lambda>(k, v). after_cutoff cutoff v) (rg_seen g)
        in Inr (g\<lparr>rg_seen := od_set sqn ts seen\<rparr>))"

definition guard_reset :: "replay_guard \<Rightarrow> replay_guard" where
  "guard_reset g = g\<lparr>rg_seen := []\<rparr>"

definition new_guard :: "replay_guard" where
  "new_guard = \<lparr> rg_window_s = REPLAY_WINDOW_S, rg_seen = [] \<rparr>"

section \<open>The handshake\<close>

datatype handshake_role = INITIATOR | RESPONDER

record handshake_hello =
  hh_node_id :: string
  hh_nonce :: bytes
  hh_protocol_version :: int
  hh_timestamp :: time
  hh_supported_ciphers :: "string list"

record handshake_finish =
  hf_node_id :: string
  hf_session_id :: string
  hf_key_fingerprint :: string
  hf_timestamp :: time
  hf_verification_tag :: bytes

record stp_handshake =
  hs_node_id :: string
  hs_role :: handshake_role
  hs_local_hello :: "handshake_hello option"
  hs_remote_hello :: "handshake_hello option"
  hs_session_keys :: "session_keys option"

definition new_handshake :: "string \<Rightarrow> handshake_role \<Rightarrow> stp_handshake" where
  "new_handshake nid role =
     \<lparr> hs_node_id = nid, hs_role = role, hs_local_hello = None, hs_remote_hello = None,
       hs_session_keys = None \<rparr>"

definition build_hello :: "stp_handshake \<Rightarrow> bytes \<Rightarrow> time \<Rightarrow> handshake_hello \<times> stp_handshake" where
  "build_hello h nonce now =
     (let hello = \<lparr> hh_node_id = hs_node_id h, hh_nonce = nonce, hh_protocol_version = STP_VERSION,
                    hh_timestamp = now, hh_supported_ciphers = [''HMAC-SHA256'', ''AES-256-GCM''] \<rparr>
      in (hello, h\<lparr>hs_local_hello := Some hello\<rparr>))"

definition receive_hello :: "stp_handshake \<Rightarrow> handshake_hello \<Rightarrow> time \<Rightarrow> stp_error + stp_handshake" where
  "receive_hello h remote now =
     (if \<bar>now - hh_timestamp remote\<bar> > REPLAY_WINDOW_S then Inl HandshakeFailed
      else Inr (h\<lparr>hs_remote_hello := Some remote\<rparr>))"

definition derive_keys ::
  "(bytes \<Rightarrow> bytes \<Rightarrow> bytes) \<Rightarrow> stp_handshake \<Rightarrow> bytes \<Rightarrow> string \<Rightarrow> time
     \<Rightarrow> (stp_error + session_keys \<times> stp_handshake) option" where
  "derive_keys mac h shared sid now =
     (case (hs_local_hello h, hs_remote_hello h) of
        (Some l, Some r) \<Rightarrow>
          (let (ni, nr) = (if hs_role h = INITIATOR then (hh_nonce l, hh_nonce r) else (hh_nonce r, hh_nonce l))
           in case derive_session_keys mac sid now shared ni nr of
                None \<Rightarrow> None
              | Some (Inl e) \<Rightarrow> Some (Inl e)
              | Some (Inr ks) \<Rightarrow> Some (Inr (ks, h\<lparr>hs_session_keys := Some ks\<rparr>)))
      | _ \<Rightarrow> Some (Inl HandshakeFailed))"

definition finish_tag :: "(bytes \<Rightarrow> bytes \<Rightarrow> bytes) \<Rightarrow> session_keys \<Rightarrow> string \<Rightarrow> bytes" where
  "finish_tag mac ks nid = take 16 (mac (sk_mac_key ks) (encode nid @ encode (sk_session_id ks)))"

definition build_finish ::
  "(bytes \<Rightarrow> bytes \<Rightarrow> bytes) \<Rightarrow> (bytes \<Rightarrow> string) \<Rightarrow> stp_handshake \<Rightarrow> time \<Rightarrow> stp_error + handshake_finish" where
  "build_finish mac sha h now =
     (case hs_session_keys h of
        None \<Rightarrow> Inl HandshakeFailed
      | Some ks \<Rightarrow> Inr
          \<lparr> hf_node_id = hs_node_id h, hf_session_id = sk_session_id ks,
            hf_key_fingerprint = key_fingerprint sha ks, hf_timestamp = now,
            hf_verification_tag = finish_tag mac ks (hs_node_id h) \<rparr>)"

definition verify_finish :: "(bytes \<Rightarrow> bytes \<Rightarrow> bytes) \<Rightarrow> stp_handshake \<Rightarrow> handshake_finish \<Rightarrow> bool" where
  "verify_finish mac h remote =
     (case hs_session_keys h of
        None \<Rightarrow> False
      | Some ks \<Rightarrow> finish_tag mac ks (hf_node_id remote) = hf_verification_tag remote)"

section \<open>The session\<close>

datatype session_state = S_NEW | S_HANDSHAKING | S_ESTABLISHED | S_REKEYING | S_CLOSED | S_ERROR

record secure_session =
  ss_session_id :: string
  ss_node_id :: string
  ss_keys :: session_keys
  ss_guard :: replay_guard
  ss_send_seq :: int
  ss_state :: session_state
  ss_established_at :: time
  ss_bytes_sent :: int
  ss_bytes_received :: int

definition new_session :: "string \<Rightarrow> session_keys \<Rightarrow> time \<Rightarrow> secure_session" where
  "new_session nid ks now =
     \<lparr> ss_session_id = sk_session_id ks, ss_node_id = nid, ss_keys = ks, ss_guard = new_guard,
       ss_send_seq = 0, ss_state = S_ESTABLISHED, ss_established_at = now, ss_bytes_sent = 0,
       ss_bytes_received = 0 \<rparr>"

text \<open>The sequence number is taken before the frame is built, so a failed send uses it up.\<close>

definition session_send ::
  "(bytes \<Rightarrow> bytes \<Rightarrow> bytes) \<Rightarrow> secure_session \<Rightarrow> 64 word \<Rightarrow> bytes \<Rightarrow> bytes \<Rightarrow> int
     \<Rightarrow> (stp_error + bytes) \<times> secure_session" where
  "session_send mac s ts nonce payload flags =
     (if ss_state s \<noteq> S_ESTABLISHED then (Inl SessionNotEstablished, s)
      else
        let s = s\<lparr>ss_send_seq := ss_send_seq s + 1\<rparr>
        in case codec_encode mac (sk_mac_key (ss_keys s)) ts nonce payload flags (ss_send_seq s) of
             Inl e \<Rightarrow> (Inl e, s)
           | Inr data \<Rightarrow> (Inr data, s\<lparr>ss_bytes_sent := ss_bytes_sent s + int (length data)\<rparr>))"

definition session_receive ::
  "(bytes \<Rightarrow> bytes \<Rightarrow> bytes) \<Rightarrow> secure_session \<Rightarrow> time \<Rightarrow> bytes \<Rightarrow> (stp_error + bytes) \<times> secure_session" where
  "session_receive mac s now data =
     (if ss_state s \<noteq> S_ESTABLISHED then (Inl SessionNotEstablished, s)
      else case codec_decode mac (sk_mac_key (ss_keys s)) data of
             Inl e \<Rightarrow> (Inl e, s)
           | Inr f \<Rightarrow>
               (case guard_check (ss_guard s) now (sf_sequence_no f) (double_of (sf_timestamp f)) of
                  Inl e \<Rightarrow> (Inl e, s)
                | Inr g \<Rightarrow> (Inr (sf_body f),
                            s\<lparr>ss_guard := g, ss_bytes_received := ss_bytes_received s + int (length data)\<rparr>)))"

definition session_close :: "secure_session \<Rightarrow> secure_session" where
  "session_close s = s\<lparr>ss_state := S_CLOSED\<rparr>"

section \<open>Keys and the handshake\<close>

text \<open>With digests of thirty-two bytes the loop runs once: each key is the first HKDF block.\<close>

lemma hkdf_expand_once:
  assumes "mac_ok mac"
  shows "hkdf_expand mac prk info 32 = Some (Inr (mac prk (info @ [1])))"
  unfolding hkdf_expand_def using mac_okD [OF assms] by (subst hkdf_loop.simps, subst hkdf_loop.simps) simp

definition key_block :: "(bytes \<Rightarrow> bytes \<Rightarrow> bytes) \<Rightarrow> bytes \<Rightarrow> bytes \<Rightarrow> bytes \<Rightarrow> string \<Rightarrow> bytes" where
  "key_block mac shared ni nr label = mac (mac (ni @ nr) shared) (encode label @ [1])"

lemma derive_session_keys_eq:
  assumes "mac_ok mac"
  shows "derive_session_keys mac sid now shared ni nr =
    Some (Inr \<lparr> sk_session_id = sid, sk_send_key = key_block mac shared ni nr ''coreai-stp-send'',
      sk_recv_key = key_block mac shared ni nr ''coreai-stp-recv'',
      sk_mac_key = key_block mac shared ni nr ''coreai-stp-mac'',
      sk_created_at = now, sk_rekey_after_s = 3600 \<rparr>)"
proof -
  have "hkdf_expand mac prk info 32 = Some (Inr (mac prk (info @ [1])))" for prk info
    using assms by (rule hkdf_expand_once)
  then show ?thesis
    by (simp add: derive_session_keys_def hk_bind_def SESSION_KEY_SIZE_def key_block_def Let_def)
qed

text \<open>
  A whole handshake between two nodes: both hellos built and received, both sides derive their keys,
  each with the session id its own key object draws.
\<close>

definition hello_exchange ::
  "string \<Rightarrow> string \<Rightarrow> bytes \<Rightarrow> bytes \<Rightarrow> time \<Rightarrow> time \<Rightarrow> stp_error + stp_handshake \<times> stp_handshake" where
  "hello_exchange a b na nb now now' =
     (let (ha, ia) = build_hello (new_handshake a INITIATOR) na now;
          (hb, ib) = build_hello (new_handshake b RESPONDER) nb now
      in case (receive_hello ia hb now', receive_hello ib ha now') of
           (Inr ia, Inr ib) \<Rightarrow> Inr (ia, ib)
         | _ \<Rightarrow> Inl HandshakeFailed)"

definition handshake ::
  "(bytes \<Rightarrow> bytes \<Rightarrow> bytes) \<Rightarrow> string \<Rightarrow> string \<Rightarrow> bytes \<Rightarrow> bytes \<Rightarrow> bytes \<Rightarrow> string \<Rightarrow> string \<Rightarrow> time \<Rightarrow> time
     \<Rightarrow> (stp_handshake \<times> stp_handshake) option" where
  "handshake mac a b na nb shared sa sb now now' =
     (case hello_exchange a b na nb now now' of
        Inl e \<Rightarrow> None
      | Inr (ia, ib) \<Rightarrow>
          (case (derive_keys mac ia shared sa now', derive_keys mac ib shared sb now') of
             (Some (Inr (ka, ia)), Some (Inr (kb, ib))) \<Rightarrow> Some (ia, ib)
           | _ \<Rightarrow> None))"

lemma handshake_result:
  assumes "mac_ok mac" "\<bar>now' - now\<bar> \<le> 30"
  shows "\<exists>ia ib ka kb. handshake mac a b na nb shared sa sb now now' = Some (ia, ib)
    \<and> hs_session_keys ia = Some ka \<and> hs_session_keys ib = Some kb
    \<and> hs_node_id ia = a \<and> hs_node_id ib = b \<and> sk_session_id ka = sa \<and> sk_session_id kb = sb
    \<and> sk_send_key ka = sk_send_key kb \<and> sk_recv_key ka = sk_recv_key kb \<and> sk_mac_key ka = sk_mac_key kb"
  using assms(2)
  by (simp add: handshake_def hello_exchange_def build_hello_def receive_hello_def new_handshake_def
      REPLAY_WINDOW_S_def derive_keys_def derive_session_keys_eq [OF assms(1)] Let_def)

lemma encode_inj [simp]: "encode s = encode t \<longleftrightarrow> s = t"
proof
  have inj: "inj (of_char :: char \<Rightarrow> byte)"
  proof (rule injI)
    fix x y assume "(of_char x :: byte) = of_char y"
    then have "(word_of_nat (of_char x) :: byte) = word_of_nat (of_char y)"
      by (simp only: of_nat_of_char)
    then have "(of_char x :: nat) mod 256 = of_char y mod 256"
      by (simp add: word_of_nat_eq_iff take_bit_eq_mod)
    then have "(of_char x :: nat) = of_char y" by simp
    then show "x = y" by simp
  qed
  assume "encode s = encode t"
  then show "s = t" unfolding encode_def by (simp add: inj_map_eq_map [OF inj])
qed simp

section \<open>What a session promises\<close>

lemma codec_decode_iff:
  "codec_decode mac k data = Inr f \<longleftrightarrow>
     from_bytes data = Inr f \<and>
     mac k (take 6 data @ [0, 0] @ bslice 8 (40 + length (sf_body f)) data) = sf_mac f"
proof (cases "from_bytes data")
  case (Inl e)
  then show ?thesis by (simp add: codec_decode_def)
next
  case (Inr g)
  have b: "sf_body g = bslice 40 (40 + length (sf_body g)) data"
    using Inr by (auto simp: from_bytes_def FRAME_HEADER_SIZE_def MAC_SIZE_def Let_def bslice_length
        split: if_splits)
  have "header_bytes g = Inr (take 6 data @ [0, 0] @ bslice 8 40 data)"
    using from_bytes_ok [OF Inr] header_bytes_ok [of g] parsed_header [OF Inr] by simp
  moreover have "bslice 8 40 data @ sf_body g = bslice 8 (40 + length (sf_body g)) data"
    using bslice_join [of 8 40 "40 + length (sf_body g)" data] b by simp
  ultimately show ?thesis using Inr by (auto simp: codec_decode_def)
qed

lemma codec_decode_encode:
  assumes mac: "mac_ok mac"
    and ok: "0 \<le> flags" "flags < 256" "0 \<le> sqn" "sqn < 2 ^ 32" "length nonce = 16"
      "length body \<le> MAX_FRAME_BODY_BYTES"
  shows "\<exists>data f. codec_encode mac k ts nonce body flags sqn = Inr data \<and> codec_decode mac k data = Inr f
    \<and> sf_body f = body \<and> sf_sequence_no f = sqn \<and> sf_timestamp f = ts
    \<and> length data = 72 + length body"
proof -
  let ?f = "\<lparr> sf_version = STP_VERSION, sf_flags = flags, sf_timestamp = ts, sf_sequence_no = sqn,
    sf_nonce = nonce, sf_body = body, sf_mac = [] \<rparr>"
  let ?h = "header_of ?f" and ?g = "?f\<lparr>sf_mac := mac k (header_of ?f @ body)\<rparr>"
  have len: "length body \<le> 4194304" using ok by (simp add: MAX_FRAME_BODY_BYTES_def)
  have g: "frame_ok ?g" using ok len by (simp add: frame_ok_def STP_VERSION_def mac_okD [OF mac])
  have same: "header_of ?g = ?h" by (simp add: header_of_def)
  have hg: "header_bytes ?g = Inr ?h" using header_bytes_ok [OF g] same by simp
  moreover have "header_bytes ?f = header_bytes ?g"
    by (simp add: header_bytes_def split: sum.splits)
  ultimately have enc: "codec_encode mac k ts nonce body flags sqn = Inr (?h @ body @ mac k (?h @ body))"
    using len by (simp add: codec_encode_def to_bytes_def MAX_FRAME_BODY_BYTES_def Let_def)
  have "from_bytes (?h @ body @ mac k (?h @ body)) = Inr ?g"
    using from_bytes_header [OF g, of "[]"] same by simp
  with hg have "codec_decode mac k (?h @ body @ mac k (?h @ body)) = Inr ?g"
    by (simp add: codec_decode_def)
  with enc ok show ?thesis by (auto simp: mac_okD [OF mac])
qed

text \<open>
  Acceptance means authenticity: the tag is the HMAC, under the session's key, of the version, the
  flags, the timestamp, the sequence number, the nonce, the length and the body as they stand in the data.
\<close>

lemma received_is_authentic:
  assumes "session_receive mac s now data = (Inr body, s')"
  shows "ss_state s = S_ESTABLISHED \<and> 72 + length body \<le> length data
    \<and> body = bslice 40 (40 + length body) data
    \<and> bslice (40 + length body) (72 + length body) data =
        mac (sk_mac_key (ss_keys s)) (take 6 data @ [0, 0] @ bslice 8 (40 + length body) data)"
proof -
  obtain f where st: "ss_state s = S_ESTABLISHED" and d: "codec_decode mac (sk_mac_key (ss_keys s)) data = Inr f"
    and b: "body = sf_body f"
    using assms by (auto simp: session_receive_def split: if_splits sum.splits)
  then have fb: "from_bytes data = Inr f"
    and m: "mac (sk_mac_key (ss_keys s)) (take 6 data @ [0, 0] @ bslice 8 (40 + length (sf_body f)) data) = sf_mac f"
    by (simp_all add: codec_decode_iff)
  have l: "72 + length (sf_body f) \<le> length data" using from_bytes_ok [OF fb] by simp
  have "sf_body f = bslice 40 (40 + length (sf_body f)) data
    \<and> sf_mac f = bslice (40 + length (sf_body f)) (72 + length (sf_body f)) data"
    using fb by (auto simp: from_bytes_def FRAME_HEADER_SIZE_def MAC_SIZE_def Let_def bslice_length
        split: if_splits)
  with st b m l show ?thesis by simp
qed

text \<open>What a session seals, a session with the same MAC key opens, and opens once.\<close>

lemma guard_check_seen:
  "guard_check g now sqn ts = Inr g' \<Longrightarrow> guard_check g' now' sqn ts' = Inl ReplayAttack"
  by (auto simp: guard_check_def od_has_def Let_def split: if_splits)

lemma session_delivers:
  assumes mac: "mac_ok mac"
    and open_ends: "ss_state s = S_ESTABLISHED" "ss_state r = S_ESTABLISHED"
    and key: "sk_mac_key (ss_keys r) = sk_mac_key (ss_keys s)"
    and seq: "0 \<le> ss_send_seq s" "ss_send_seq s < 2 ^ 32 - 1"
    and frame: "0 \<le> flags" "flags < 256" "length nonce = 16" "length payload \<le> MAX_FRAME_BODY_BYTES"
    and fresh: "\<not> outside_window (rg_window_s (ss_guard r)) now (double_of ts)"
      "\<not> od_has (rg_seen (ss_guard r)) (ss_send_seq s + 1)"
  shows "\<exists>data s' r'. session_send mac s ts nonce payload flags = (Inr data, s')
    \<and> ss_send_seq s' = ss_send_seq s + 1
    \<and> session_receive mac r now data = (Inr payload, r')
    \<and> (\<forall>now'. session_receive mac r' now' data = (Inl ReplayAttack, r'))"
proof -
  let ?k = "sk_mac_key (ss_keys s)" and ?n = "ss_send_seq s + 1"
  obtain data f where e: "codec_encode mac ?k ts nonce payload flags ?n = Inr data"
    and d: "codec_decode mac ?k data = Inr f"
    and f: "sf_body f = payload" "sf_sequence_no f = ?n" "sf_timestamp f = ts"
    using codec_decode_encode [OF mac, where flags = flags and sqn = ?n and nonce = nonce and body = payload and k = ?k and ts = ts] frame seq by auto
  obtain g where g: "guard_check (ss_guard r) now ?n (double_of ts) = Inr g"
    using fresh by (simp add: guard_check_def Let_def)
  have "session_send mac s ts nonce payload flags =
      (Inr data, s\<lparr>ss_send_seq := ?n, ss_bytes_sent := ss_bytes_sent s + int (length data)\<rparr>)"
    using open_ends e by (simp add: session_send_def)
  moreover have "session_receive mac r now data =
      (Inr payload, r\<lparr>ss_guard := g, ss_bytes_received := ss_bytes_received r + int (length data)\<rparr>)"
    using open_ends key d f g by (simp add: session_receive_def)
  ultimately show ?thesis
    using open_ends key d f guard_check_seen [OF g] by (simp add: session_receive_def)
qed

section \<open>Histories of a session\<close>

datatype session_op = OpSend "64 word" bytes bytes int | OpReceive time bytes | OpClose

text \<open>The frames a session accepts in a history of its operations, each with the time it was accepted.\<close>

fun accepted ::
  "(bytes \<Rightarrow> bytes \<Rightarrow> bytes) \<Rightarrow> secure_session \<Rightarrow> session_op list \<Rightarrow> (time \<times> stp_frame) list" where
  "accepted mac s [] = []"
| "accepted mac s (OpSend ts nonce payload flags # ops) =
     accepted mac (snd (session_send mac s ts nonce payload flags)) ops"
| "accepted mac s (OpClose # ops) = accepted mac (session_close s) ops"
| "accepted mac s (OpReceive now data # ops) =
     (case session_receive mac s now data of
        (Inl e, s') \<Rightarrow> accepted mac s' ops
      | (Inr body, s') \<Rightarrow>
          (case from_bytes data of Inl e \<Rightarrow> [] | Inr f \<Rightarrow> [(now, f)]) @ accepted mac s' ops)"

fun receive_times :: "session_op list \<Rightarrow> time list" where
  "receive_times [] = []"
| "receive_times (OpReceive now data # ops) = now # receive_times ops"
| "receive_times (OpSend ts nonce payload flags # ops) = receive_times ops"
| "receive_times (OpClose # ops) = receive_times ops"

text \<open>
  At time \<open>T\<close> a frame is accounted for if the guard still remembers it or its window has passed.
\<close>

definition accounted :: "replay_guard \<Rightarrow> time \<Rightarrow> stp_frame \<Rightarrow> bool" where
  "accounted g T f \<longleftrightarrow>
     (\<forall>t. double_of (sf_timestamp f) = Fin t \<longrightarrow>
        od_get (rg_seen g) (sf_sequence_no f) = Some (Fin t) \<or> t + rg_window_s g \<le> T)"

lemma guard_check_accepts:
  assumes "guard_check g now sqn ts = Inr g'"
  shows "\<not> outside_window (rg_window_s g) now ts" "od_get (rg_seen g) sqn = None"
    "rg_window_s g' = rg_window_s g" "od_get (rg_seen g') sqn = Some ts"
    "od_get (rg_seen g) k = Some (Fin t) \<Longrightarrow> k \<noteq> sqn \<Longrightarrow>
       od_get (rg_seen g') k = Some (Fin t) \<or> t + rg_window_s g \<le> now"
proof -
  show "\<not> outside_window (rg_window_s g) now ts" "od_get (rg_seen g) sqn = None"
    "rg_window_s g' = rg_window_s g" "od_get (rg_seen g') sqn = Some ts"
    using assms
    by (auto simp: guard_check_def od_has_def Let_def map_of_eq_None_iff split: if_splits)
  have gen: "map_of d k = Some (Fin t) \<Longrightarrow> t > c \<Longrightarrow>
      map_of (filter (\<lambda>(k, v). after_cutoff c v) d) k = Some (Fin t)" for d c
    by (induction d) (auto simp: after_cutoff_def split: if_splits)
  assume k: "od_get (rg_seen g) k = Some (Fin t)" "k \<noteq> sqn"
  show "od_get (rg_seen g') k = Some (Fin t) \<or> t + rg_window_s g \<le> now"
    using assms k gen [OF k(1), of "now - rg_window_s g"]
    by (auto simp: guard_check_def Let_def split: if_splits)
qed

lemma session_receive_accepts:
  assumes "session_receive mac s now data = (Inr body, s')"
  obtains f g where "from_bytes data = Inr f"
    "guard_check (ss_guard s) now (sf_sequence_no f) (double_of (sf_timestamp f)) = Inr g" "ss_guard s' = g"
  using assms by (auto simp: session_receive_def codec_decode_iff split: if_splits sum.splits)

lemma session_receive_refuses: "session_receive mac s now data = (Inl e, s') \<Longrightarrow> s' = s"
  by (auto simp: session_receive_def split: if_splits sum.splits)

lemma session_send_guard [simp]: "ss_guard (snd (session_send mac s ts nonce payload flags)) = ss_guard s"
  by (simp add: session_send_def Let_def split: sum.splits)

lemma session_close_guard [simp]: "ss_guard (session_close s) = ss_guard s"
  by (simp add: session_close_def)

lemma accounted_step:
  assumes g: "guard_check g now (sf_sequence_no f') (double_of (sf_timestamp f')) = Inr g'"
    and a: "accounted g T f" and later: "T < now"
  shows "accounted g' now f"
    and "sf_sequence_no f' = sf_sequence_no f \<Longrightarrow> double_of (sf_timestamp f) = Fin t \<Longrightarrow> t + rg_window_s g < now"
proof -
  note c = guard_check_accepts [OF g]
  show "accounted g' now f" unfolding accounted_def
  proof (intro allI impI)
    fix t assume t: "double_of (sf_timestamp f) = Fin t"
    from a t consider "od_get (rg_seen g) (sf_sequence_no f) = Some (Fin t)" | "t + rg_window_s g \<le> T"
      by (auto simp: accounted_def)
    then show "od_get (rg_seen g') (sf_sequence_no f) = Some (Fin t) \<or> t + rg_window_s g' \<le> now"
    proof cases
      case 1
      then have "sf_sequence_no f \<noteq> sf_sequence_no f'" using c(2) by auto
      with 1 show ?thesis using c(5) [of "sf_sequence_no f" t] c(3) by auto
    next
      case 2
      then show ?thesis using later c(3) by simp
    qed
  qed
  assume s: "sf_sequence_no f' = sf_sequence_no f" and t: "double_of (sf_timestamp f) = Fin t"
  have "od_get (rg_seen g) (sf_sequence_no f) = None" using c(2) s by simp
  with a t have "t + rg_window_s g \<le> T" by (auto simp: accounted_def)
  with later show "t + rg_window_s g < now" by simp
qed

lemma accepted_after_window:
  assumes "accounted (ss_guard s) T f" "\<forall>n \<in> set (receive_times ops). T < n"
    "sorted_wrt (<) (receive_times ops)" "(n, f') \<in> set (accepted mac s ops)"
    "sf_sequence_no f' = sf_sequence_no f" "double_of (sf_timestamp f) = Fin t"
  shows "t + rg_window_s (ss_guard s) < n"
  using assms
proof (induction mac s ops arbitrary: T rule: accepted.induct)
  case (4 mac s now data ops)
  show ?case
  proof (cases "session_receive mac s now data")
    case (Pair r s')
    show ?thesis
    proof (cases r)
      case (Inl e)
      with Pair have s': "s' = s" using session_receive_refuses by metis
      show ?thesis using 4(1) [OF Pair [symmetric] Inl] 4(3-8) Pair Inl by (simp add: s')
    next
      case (Inr body)
      obtain fr g where fr: "from_bytes data = Inr fr"
        and g: "guard_check (ss_guard s) now (sf_sequence_no fr) (double_of (sf_timestamp fr)) = Inr g"
        and s': "ss_guard s' = g"
        using session_receive_accepts [of mac s now data body s'] Pair Inr by metis
      have later: "T < now" using 4(4) by simp
      note st = accounted_step [OF g 4(3) later]
      have "(n, f') = (now, fr) \<or> (n, f') \<in> set (accepted mac s' ops)"
        using 4(6) Pair Inr fr by auto
      then show ?thesis
      proof
        assume "(n, f') = (now, fr)"
        then show ?thesis using st(2) 4(7,8) by auto
      next
        assume mem: "(n, f') \<in> set (accepted mac s' ops)"
        have "t + rg_window_s (ss_guard s') < n"
          using 4(2) [OF Pair [symmetric] Inr, of now] st(1) s' 4(5,7,8) mem by simp
        then show ?thesis using s' guard_check_accepts(3) [OF g] by simp
      qed
    qed
  qed
qed auto

lemma accepted_in_window:
  "(n, f) \<in> set (accepted mac s ops) \<Longrightarrow>
     \<not> outside_window (rg_window_s (ss_guard s)) n (double_of (sf_timestamp f))"
proof (induction mac s ops rule: accepted.induct)
  case (4 mac s now data ops)
  show ?case
  proof (cases "session_receive mac s now data")
    case (Pair r s')
    show ?thesis
    proof (cases r)
      case (Inl e)
      with Pair have s': "s' = s" using session_receive_refuses by metis
      show ?thesis using 4(1) [OF Pair [symmetric] Inl, unfolded s'] 4(3) Pair Inl by (simp add: s')
    next
      case (Inr body)
      obtain fr g where fr: "from_bytes data = Inr fr"
        and g: "guard_check (ss_guard s) now (sf_sequence_no fr) (double_of (sf_timestamp fr)) = Inr g"
        and s': "ss_guard s' = g"
        using session_receive_accepts [of mac s now data body s'] Pair Inr by metis
      show ?thesis
        using 4(2) [OF Pair [symmetric] Inr] 4(3) Pair Inr fr s' guard_check_accepts(1,3) [OF g] by auto
    qed
  qed
qed auto

text \<open>
  Of two frames accepted one after the other, the second, if it has the first one's sequence number,
  came after the window of the first one's timestamp and carries another timestamp.
\<close>

definition finite_replay_free :: "real \<Rightarrow> time \<times> stp_frame \<Rightarrow> time \<times> stp_frame \<Rightarrow> bool" where
  "finite_replay_free w a b \<longleftrightarrow>
     (sf_sequence_no (snd b) = sf_sequence_no (snd a) \<longrightarrow>
        (case double_of (sf_timestamp (snd a)) of
           Fin t \<Rightarrow> t + w < fst b \<and> sf_timestamp (snd b) \<noteq> sf_timestamp (snd a)
         | Infinite \<Rightarrow> False
         | NaN \<Rightarrow> True))"

definition no_replay :: "real \<Rightarrow> time \<times> stp_frame \<Rightarrow> time \<times> stp_frame \<Rightarrow> bool" where
  "no_replay w a b \<longleftrightarrow>
     (sf_sequence_no (snd b) = sf_sequence_no (snd a) \<longrightarrow>
        (case double_of (sf_timestamp (snd a)) of
           Fin t \<Rightarrow> t + w < fst b \<and> sf_timestamp (snd b) \<noteq> sf_timestamp (snd a)
         | _ \<Rightarrow> False))"

lemma no_finite_replays:
  assumes "sorted_wrt (<) (receive_times ops)"
  shows "sorted_wrt (finite_replay_free (rg_window_s (ss_guard s))) (accepted mac s ops)"
  using assms
proof (induction mac s ops rule: accepted.induct)
  case (4 mac s now data ops)
  show ?case
  proof (cases "session_receive mac s now data")
    case (Pair r s')
    show ?thesis
    proof (cases r)
      case (Inl e)
      with Pair have s': "s' = s" using session_receive_refuses by metis
      show ?thesis using 4(1) [OF Pair [symmetric] Inl, unfolded s'] 4(3) Pair Inl by (simp add: s')
    next
      case (Inr body)
      obtain fr g where fr: "from_bytes data = Inr fr"
        and g: "guard_check (ss_guard s) now (sf_sequence_no fr) (double_of (sf_timestamp fr)) = Inr g"
        and s': "ss_guard s' = g"
        using session_receive_accepts [of mac s now data body s'] Pair Inr by metis
      have w: "rg_window_s (ss_guard s') = rg_window_s (ss_guard s)"
        using s' guard_check_accepts(3) [OF g] by simp
      have acc: "accounted (ss_guard s') now fr"
        using s' guard_check_accepts(4) [OF g] by (simp add: accounted_def)
      have later: "t + rg_window_s (ss_guard s) < n'"
        if "(n', f') \<in> set (accepted mac s' ops)" "sf_sequence_no f' = sf_sequence_no fr"
          "double_of (sf_timestamp fr) = Fin t" for n' f' t
        using accepted_after_window [OF acc _ _ that] 4(3) w by simp
      have other: "sf_timestamp f' \<noteq> sf_timestamp fr"
        if "(n', f') \<in> set (accepted mac s' ops)" "sf_sequence_no f' = sf_sequence_no fr"
          "double_of (sf_timestamp fr) = Fin t" for n' f' t
        using later [OF that] accepted_in_window [OF that(1)] that(3) w
        by (auto simp: outside_window_def)
      have fin: "double_of (sf_timestamp fr) \<noteq> Infinite"
        using guard_check_accepts(1) [OF g] by (auto simp: outside_window_def)
      have "finite_replay_free (rg_window_s (ss_guard s)) (now, fr) b" if "b \<in> set (accepted mac s' ops)" for b
        using later [of "fst b" "snd b"] other [of "fst b" "snd b"] that fin
        by (simp add: finite_replay_free_def split: xfloat.split)
      then show ?thesis
        using 4(2) [OF Pair [symmetric] Inr] 4(3) Pair Inr fr w by simp
    qed
  qed
qed auto

text \<open>A timestamp that is a number, which the guard does not ask for: it lets a NaN pass.\<close>

definition numeric_stamp :: "time \<times> stp_frame \<Rightarrow> bool" where
  "numeric_stamp a \<longleftrightarrow> double_of (sf_timestamp (snd a)) \<noteq> NaN"

text \<open>
  C20. A session accepts no frame twice, as long as frames are received at strictly increasing times and no
  accepted frame has a NaN as its timestamp: over any history of sends, receives of arbitrary
  data and closing, a sequence number that was accepted is accepted again only once the replay window of the
  first timestamp has passed, and then only under another timestamp. Both conditions are needed: see the two
  lemmas after the witness.
\<close>

theorem no_frame_twice:
  assumes "sorted_wrt (<) (receive_times ops)" and "list_all numeric_stamp (accepted mac s ops)"
  shows "sorted_wrt (no_replay (rg_window_s (ss_guard s))) (accepted mac s ops)"
proof (rule sorted_wrt_mono_rel [OF _ no_finite_replays [OF assms(1)]])
  fix a b
  assume "a \<in> set (accepted mac s ops)" "finite_replay_free (rg_window_s (ss_guard s)) a b"
  then show "no_replay (rg_window_s (ss_guard s)) a b"
    using assms(2) by (auto simp: list_all_iff numeric_stamp_def finite_replay_free_def no_replay_def split: xfloat.splits)
qed

text \<open>
  A history to try the theorem on: a tag that is constant, a frame sent at time zero, delivered,
  delivered again, and followed by the next one.
\<close>

definition demo_mac :: "bytes \<Rightarrow> bytes \<Rightarrow> bytes" where
  "demo_mac k m = replicate 32 7"

definition demo_session :: "secure_session" where
  "demo_session = new_session ''node''
     \<lparr> sk_session_id = ''s'', sk_send_key = [], sk_recv_key = [], sk_mac_key = [1], sk_created_at = 0,
       sk_rekey_after_s = 3600 \<rparr> 0"

definition demo_frame :: "nat \<Rightarrow> bytes" where
  "demo_frame n = FRAME_MAGIC @ [2, 1, 0, 0, 0, 0, 0, 0, 0, 0, 0, 0, 0, 0, 0, word_of_nat n]
     @ replicate 16 9 @ [0, 0, 0, 1, 42] @ replicate 32 7"

lemma double_of_zero: "double_of 0 = Fin 0"
  by (simp add: double_of_def)

lemma demo_from_bytes:
  "from_bytes (demo_frame n) = Inr \<lparr> sf_version = 2, sf_flags = 1, sf_timestamp = 0,
     sf_sequence_no = int (n mod 256), sf_nonce = replicate 16 9, sf_body = [42], sf_mac = replicate 32 7 \<rparr>"
  by (simp add: from_bytes_def demo_frame_def FRAME_HEADER_SIZE_def MAC_SIZE_def FRAME_MAGIC_def bslice_def
      be_val_def unat_of_nat Let_def)

lemma demo_decode:
  "codec_decode demo_mac k (demo_frame n) = from_bytes (demo_frame n)"
  by (simp add: codec_decode_def demo_from_bytes header_bytes_def pack_uint_def demo_mac_def
      nat_less_iff del: be_bytes.simps)

theorem no_frame_twice_witness:
  "length (accepted demo_mac demo_session
       [OpReceive 1 (demo_frame 1), OpReceive 2 (demo_frame 1), OpReceive 3 (demo_frame 2)]) = 2
   \<and> sorted_wrt (no_replay (rg_window_s (ss_guard demo_session))) (accepted demo_mac demo_session
       [OpReceive 1 (demo_frame 1), OpReceive 2 (demo_frame 1), OpReceive 3 (demo_frame 2)])"
proof
  let ?ops = "[OpReceive 1 (demo_frame 1), OpReceive 2 (demo_frame 1), OpReceive 3 (demo_frame 2)]"
  have "length (accepted demo_mac demo_session ?ops) = 2 \<and> list_all numeric_stamp (accepted demo_mac demo_session ?ops)"
    by (simp add: demo_session_def new_session_def new_guard_def REPLAY_WINDOW_S_def Let_def numeric_stamp_def
        session_receive_def demo_decode demo_from_bytes guard_check_def outside_window_def
        od_has_def double_of_zero after_cutoff_def)
  then show "length (accepted demo_mac demo_session ?ops) = 2" and
    "sorted_wrt (no_replay (rg_window_s (ss_guard demo_session))) (accepted demo_mac demo_session ?ops)"
    using no_frame_twice [of ?ops demo_mac demo_session] by (simp_all del: accepted.simps)
qed

text \<open>A frame whose timestamp is a NaN is always in time, and forgotten when the next frame is accepted.\<close>

definition nan_frame :: bytes where
  "nan_frame = FRAME_MAGIC @ [2, 1, 0, 0] @ [127, 248, 0, 0, 0, 0, 0, 0] @ [0, 0, 0, 1]
     @ replicate 16 9 @ [0, 0, 0, 1, 42] @ replicate 32 7"

lemma nan_from_bytes:
  "from_bytes nan_frame = Inr \<lparr> sf_version = 2, sf_flags = 1, sf_timestamp = 0x7FF8000000000000,
     sf_sequence_no = 1, sf_nonce = replicate 16 9, sf_body = [42], sf_mac = replicate 32 7 \<rparr>"
  by (simp add: from_bytes_def nan_frame_def FRAME_HEADER_SIZE_def MAC_SIZE_def FRAME_MAGIC_def bslice_def
      be_val_def unat_of_nat Let_def)

lemma nan_frame_accepted_again:
  "map fst (accepted demo_mac demo_session [OpReceive 1 nan_frame, OpReceive 2 (demo_frame 2), OpReceive 3 nan_frame]) = [1, 2, 3]"
proof -
  have "codec_decode demo_mac k nan_frame = from_bytes nan_frame" for k
    by (simp add: codec_decode_def nan_from_bytes header_bytes_def pack_uint_def demo_mac_def del: be_bytes.simps)
  moreover have "double_of 0x7FF8000000000000 = NaN" by (simp add: double_of_def)
  ultimately show ?thesis
    by (simp add: demo_session_def new_session_def new_guard_def REPLAY_WINDOW_S_def Let_def
        session_receive_def demo_decode demo_from_bytes nan_from_bytes guard_check_def outside_window_def
        od_has_def od_set_def double_of_zero after_cutoff_def)
qed

text \<open>
  The guard forgets a frame one instant too early: at the end of its window a frame is still in time,
  but once another frame has been accepted at that instant it is no longer remembered.
\<close>

lemma replay_at_the_edge:
  "map fst (accepted demo_mac demo_session
     [OpReceive 1 (demo_frame 1), OpReceive 30 (demo_frame 2), OpReceive 30 (demo_frame 1)]) = [1, 30, 30]"
  by (simp add: demo_session_def new_session_def new_guard_def REPLAY_WINDOW_S_def Let_def
        session_receive_def demo_decode demo_from_bytes guard_check_def outside_window_def
        od_has_def od_set_def double_of_zero after_cutoff_def)

text \<open>
  Both directions use one MAC key and frames do not say who sent them, so a session accepts what it
  sent itself when it is reflected to it.
\<close>

lemma own_frames_accepted:
  assumes "mac_ok mac" "ss_state s = S_ESTABLISHED" "0 \<le> ss_send_seq s" "ss_send_seq s < 2 ^ 32 - 1"
    "0 \<le> flags" "flags < 256" "length nonce = 16" "length payload \<le> MAX_FRAME_BODY_BYTES"
    "\<not> outside_window (rg_window_s (ss_guard s)) now (double_of ts)"
    "\<not> od_has (rg_seen (ss_guard s)) (ss_send_seq s + 1)"
  shows "\<exists>data s' r. session_send mac s ts nonce payload flags = (Inr data, s')
    \<and> session_receive mac s' now data = (Inr payload, r)"
proof -
  obtain data s' where send: "session_send mac s ts nonce payload flags = (Inr data, s')"
    using session_delivers [OF assms(1,2,2) refl assms(3-10)] by blast
  have "ss_state s' = S_ESTABLISHED" "ss_keys s' = ss_keys s" "ss_guard s' = ss_guard s"
    using send assms(2) by (auto simp: session_send_def Let_def split: if_splits sum.splits)
  with send show ?thesis
    using session_delivers [OF assms(1,2), of s' flags nonce payload now ts] assms by auto
qed

text \<open>
  The two sides of a handshake derive the same keys, but the finish message of one never convinces
  the other: each tag covers a session id that the side drew for itself, so it is accepted only if the
  shortened HMACs of two different messages collide.
\<close>

lemma handshake_finish_rejected:
  assumes "mac_ok mac" "\<bar>now' - now\<bar> \<le> 30" "sa \<noteq> sb"
  shows "\<exists>ia ib fin. handshake mac a b na nb shared sa sb now now' = Some (ia, ib)
    \<and> build_finish mac sha ia now' = Inr fin
    \<and> (verify_finish mac ib fin \<longleftrightarrow>
        take 16 (mac (key_block mac shared na nb ''coreai-stp-mac'') (encode a @ encode sb)) =
        take 16 (mac (key_block mac shared na nb ''coreai-stp-mac'') (encode a @ encode sa)))
    \<and> encode a @ encode sb \<noteq> encode a @ encode sa"
  using assms(2,3)
  by (simp add: handshake_def hello_exchange_def build_hello_def receive_hello_def new_handshake_def
      REPLAY_WINDOW_S_def derive_keys_def derive_session_keys_eq [OF assms(1)] Let_def build_finish_def
      verify_finish_def finish_tag_def)

end
