(* ===== verification/Agent_Protocol.thy ===== *)
theory Agent_Protocol
  imports Secure_Session "HOL-Library.Monad_Syntax"
begin

text \<open>
  \<open>protocols/distributed_agent.py\<close>: envelopes, the in-process message router with its sealed queues,
  the registry of capabilities and the protocol object over both. JSON and SHA-256 are parameters.
  A send is a coroutine that may suspend twice, for a place in a full queue and for the
  acknowledgement, so the router is a step function on events in any order, one event for each stretch
  between two suspensions. A receive with a timeout is the event at which an item is there (or the
  result \<open>NoMessage\<close>); a receiver that still waits on the queue of an agent that was deregistered
  meanwhile is left out.
\<close>

section \<open>Envelopes\<close>

datatype message_type =
    TASK_ASSIGN | TASK_RESULT | TASK_CANCEL | HEARTBEAT | CAPABILITY_ANNOUNCE | CAPABILITY_QUERY
  | STATE_SYNC | ERROR | ACK

datatype delivery_mode = AT_MOST_ONCE | AT_LEAST_ONCE | EXACTLY_ONCE

definition message_types :: "(string \<times> message_type) list" where
  "message_types =
     [(''task.assign'', TASK_ASSIGN), (''task.result'', TASK_RESULT), (''task.cancel'', TASK_CANCEL),
      (''heartbeat'', HEARTBEAT), (''capability.announce'', CAPABILITY_ANNOUNCE),
      (''capability.query'', CAPABILITY_QUERY), (''state.sync'', STATE_SYNC), (''error'', ERROR), (''ack'', ACK)]"

definition delivery_modes :: "(string \<times> delivery_mode) list" where
  "delivery_modes =
     [(''at_most_once'', AT_MOST_ONCE), (''at_least_once'', AT_LEAST_ONCE), (''exactly_once'', EXACTLY_ONCE)]"

text \<open>\<open>.value\<close> of a member of an enumeration given by its table.\<close>

definition enum_value :: "(string \<times> 'a) list \<Rightarrow> 'a \<Rightarrow> string" where
  "enum_value tab x = (case find (\<lambda>(s, y). y = x) tab of Some (s, y) \<Rightarrow> s | None \<Rightarrow> [])"

definition PROTOCOL_VERSION :: string where "PROTOCOL_VERSION = ''dap/1.2''"
definition MAX_ROUTING_HOPS :: int where "MAX_ROUTING_HOPS = 8"
definition QUEUE_SIZE :: nat where "QUEUE_SIZE = 512"

record envelope =
  en_msg_id :: string
  en_protocol_version :: string
  en_msg_type :: message_type
  en_sender_id :: string
  en_recipient_id :: string
  en_correlation_id :: "string option"
  en_delivery_mode :: delivery_mode
  en_created_at :: time
  en_ttl_s :: real
  en_hop_count :: int
  en_payload :: "(string \<times> pyval) list"
  en_checksum :: string

text \<open>
  What the code takes from libraries: HMAC-SHA256, \<open>json.dumps(...).encode()\<close>, \<open>json.loads\<close> and the
  first sixteen hexadecimal digits of the SHA-256 of a payload.
\<close>

record protocol_lib =
  pl_mac :: "bytes \<Rightarrow> bytes \<Rightarrow> bytes"
  pl_dumps :: "pyval \<Rightarrow> bytes"
  pl_loads :: "bytes \<Rightarrow> pyval option"
  pl_digest :: "(string \<times> pyval) list \<Rightarrow> string"

text \<open>\<open>__post_init__\<close>.\<close>

definition with_checksum :: "protocol_lib \<Rightarrow> envelope \<Rightarrow> envelope" where
  "with_checksum L e = (if en_checksum e = [] then e\<lparr>en_checksum := pl_digest L (en_payload e)\<rparr> else e)"

definition is_expired :: "time \<Rightarrow> envelope \<Rightarrow> bool" where
  "is_expired now e \<longleftrightarrow> now - en_created_at e > en_ttl_s e"

definition is_broadcast :: "envelope \<Rightarrow> bool" where
  "is_broadcast e \<longleftrightarrow> en_recipient_id e = []"

definition opt_str :: "string option \<Rightarrow> pyval" where
  "opt_str x = (case x of None \<Rightarrow> PNone | Some s \<Rightarrow> PStr s)"

definition to_dict :: "envelope \<Rightarrow> pyval" where
  "to_dict e = PDict
     [(''msg_id'', PStr (en_msg_id e)), (''protocol_version'', PStr (en_protocol_version e)),
      (''msg_type'', PStr (enum_value message_types (en_msg_type e))),
      (''sender_id'', PStr (en_sender_id e)), (''recipient_id'', PStr (en_recipient_id e)),
      (''correlation_id'', opt_str (en_correlation_id e)),
      (''delivery_mode'', PStr (enum_value delivery_modes (en_delivery_mode e))),
      (''created_at'', PFloat (en_created_at e)), (''ttl_s'', PFloat (en_ttl_s e)),
      (''hop_count'', PInt (en_hop_count e)), (''payload'', PDict (en_payload e)),
      (''checksum'', PStr (en_checksum e))]"

text \<open>
  Reading a field: the default when it is missing. A value of a type that the field is not declared
  with, which Python would store unchecked, makes the whole result \<open>None\<close>, as the exceptions do.
\<close>

definition str_field :: "(string \<times> pyval) list \<Rightarrow> string \<Rightarrow> string \<Rightarrow> string option" where
  "str_field d k dflt = (case map_of d k of None \<Rightarrow> Some dflt | Some (PStr s) \<Rightarrow> Some s | _ \<Rightarrow> None)"

definition num_field :: "(string \<times> pyval) list \<Rightarrow> string \<Rightarrow> real \<Rightarrow> real option" where
  "num_field d k dflt =
     (case map_of d k of
        None \<Rightarrow> Some dflt | Some (PFloat r) \<Rightarrow> Some r | Some (PInt n) \<Rightarrow> Some (of_int n) | _ \<Rightarrow> None)"

definition int_field :: "(string \<times> pyval) list \<Rightarrow> string \<Rightarrow> int \<Rightarrow> int option" where
  "int_field d k dflt = (case map_of d k of None \<Rightarrow> Some dflt | Some (PInt n) \<Rightarrow> Some n | _ \<Rightarrow> None)"

definition optional_field :: "(string \<times> pyval) list \<Rightarrow> string \<Rightarrow> string option option" where
  "optional_field d k =
     (case map_of d k of None \<Rightarrow> Some None | Some PNone \<Rightarrow> Some None | Some (PStr s) \<Rightarrow> Some (Some s) | _ \<Rightarrow> None)"

definition dict_field :: "(string \<times> pyval) list \<Rightarrow> string \<Rightarrow> (string \<times> pyval) list option" where
  "dict_field d k = (case map_of d k of None \<Rightarrow> Some [] | Some (PDict p) \<Rightarrow> Some p | _ \<Rightarrow> None)"

text \<open>\<open>MessageType(data[k])\<close>: the key must be there and its value one of the table.\<close>

definition enum_field :: "(string \<times> 'a) list \<Rightarrow> (string \<times> pyval) list \<Rightarrow> string \<Rightarrow> 'a option" where
  "enum_field tab d k = (case map_of d k of Some (PStr s) \<Rightarrow> map_of tab s | _ \<Rightarrow> None)"

definition envelope_fields :: "string list" where
  "envelope_fields =
     [''msg_id'', ''protocol_version'', ''msg_type'', ''sender_id'', ''recipient_id'', ''correlation_id'',
      ''delivery_mode'', ''created_at'', ''ttl_s'', ''hop_count'', ''payload'', ''checksum'']"

text \<open>\<open>from_dict\<close>; \<open>mid\<close> and \<open>now\<close> are what the default factories would draw.\<close>

fun from_dict :: "protocol_lib \<Rightarrow> string \<Rightarrow> time \<Rightarrow> pyval \<Rightarrow> envelope option" where
  "from_dict L mid now (PDict d) =
     do {
       ty \<leftarrow> enum_field message_types d ''msg_type'';
       mode \<leftarrow> enum_field delivery_modes d ''delivery_mode'';
       (if list_all (\<lambda>k. k \<in> set envelope_fields) (od_keys d) then Some () else None);
       i \<leftarrow> str_field d ''msg_id'' mid;
       pv \<leftarrow> str_field d ''protocol_version'' PROTOCOL_VERSION;
       s \<leftarrow> str_field d ''sender_id'' [];
       r \<leftarrow> str_field d ''recipient_id'' [];
       c \<leftarrow> optional_field d ''correlation_id'';
       cr \<leftarrow> num_field d ''created_at'' now;
       ttl \<leftarrow> num_field d ''ttl_s'' 60;
       h \<leftarrow> int_field d ''hop_count'' 0;
       p \<leftarrow> dict_field d ''payload'';
       ck \<leftarrow> str_field d ''checksum'' [];
       Some (with_checksum L
         \<lparr> en_msg_id = i, en_protocol_version = pv, en_msg_type = ty, en_sender_id = s,
           en_recipient_id = r, en_correlation_id = c, en_delivery_mode = mode, en_created_at = cr,
           en_ttl_s = ttl, en_hop_count = h, en_payload = p, en_checksum = ck \<rparr>)
     }"
| "from_dict L mid now _ = None"

text \<open>A new envelope with the defaults of the class, and a reply.\<close>

definition new_envelope ::
  "protocol_lib \<Rightarrow> string \<Rightarrow> time \<Rightarrow> message_type \<Rightarrow> string \<Rightarrow> string \<Rightarrow> string option \<Rightarrow> delivery_mode \<Rightarrow> real
     \<Rightarrow> (string \<times> pyval) list \<Rightarrow> envelope" where
  "new_envelope L mid now ty s r c mode ttl p = with_checksum L
     \<lparr> en_msg_id = mid, en_protocol_version = PROTOCOL_VERSION, en_msg_type = ty, en_sender_id = s,
       en_recipient_id = r, en_correlation_id = c, en_delivery_mode = mode, en_created_at = now,
       en_ttl_s = ttl, en_hop_count = 0, en_payload = p, en_checksum = [] \<rparr>"

definition make_reply ::
  "protocol_lib \<Rightarrow> string \<Rightarrow> time \<Rightarrow> envelope \<Rightarrow> message_type \<Rightarrow> (string \<times> pyval) list \<Rightarrow> envelope" where
  "make_reply L mid now e ty p =
     new_envelope L mid now ty (en_recipient_id e) (en_sender_id e) (Some (en_msg_id e))
       (en_delivery_mode e) 60 p"

section \<open>The router\<close>

text \<open>
  A queue is told from its successor under the same agent id by its number. A coroutine that sends is
  in one of two phases; when it is done its result is logged. \<open>after\<close> is what the caller does once the
  send has returned normally: acknowledge a message, for \<open>send_result\<close>.
\<close>

record mailbox =
  mb_number :: nat
  mb_items :: "bytes list"

datatype send_phase =
    PutWait "string option" envelope nat bytes
  | AckWait "string option" envelope

datatype send_result =
    Sent | DroppedExpired | DroppedDuplicate | DroppedNoRecipient
  | RoutingLoop | AckTimedOut | SealFailed stp_error | SendCancelled

record agent_router =
  ar_boxes :: "(string, mailbox) odict"
  ar_sessions :: "(string, secure_session) odict"
  ar_numbers :: nat
  ar_pending :: "(string, nat) odict"
  ar_acked :: "nat list"
  ar_delivered :: "string list"
  ar_sending :: "(nat, send_phase) odict"
  ar_results :: "(nat \<times> envelope \<times> send_result) list"

definition empty_router :: "agent_router" where
  "empty_router =
     \<lparr> ar_boxes = [], ar_sessions = [], ar_numbers = 0, ar_pending = [], ar_acked = [], ar_delivered = [],
       ar_sending = [], ar_results = [] \<rparr>"

definition router_register :: "string \<Rightarrow> session_keys \<Rightarrow> time \<Rightarrow> agent_router \<Rightarrow> agent_router" where
  "router_register a ks now st =
     (if od_has (ar_boxes st) a then st
      else st\<lparr> ar_boxes := od_set a \<lparr> mb_number = ar_numbers st, mb_items = [] \<rparr> (ar_boxes st),
               ar_sessions := od_set a (new_session a ks now) (ar_sessions st),
               ar_numbers := ar_numbers st + 1 \<rparr>)"

definition router_deregister :: "string \<Rightarrow> agent_router \<Rightarrow> agent_router" where
  "router_deregister a st =
     st\<lparr> ar_boxes := od_pop a (ar_boxes st), ar_sessions := od_pop a (ar_sessions st) \<rparr>"

text \<open>\<open>fut\<close> is done as soon as its result is set; setting it twice is guarded against.\<close>

definition acknowledge :: "string \<Rightarrow> agent_router \<Rightarrow> agent_router" where
  "acknowledge mid st =
     (case od_get (ar_pending st) mid of
        None \<Rightarrow> st
      | Some c \<Rightarrow> st\<lparr> ar_pending := od_pop mid (ar_pending st),
                      ar_acked := (if c \<in> set (ar_acked st) then ar_acked st else c # ar_acked st) \<rparr>)"

fun returned :: "send_result \<Rightarrow> bool" where
  "returned Sent = True"
| "returned DroppedExpired = True"
| "returned DroppedDuplicate = True"
| "returned DroppedNoRecipient = True"
| "returned _ = False"

definition finish :: "nat \<Rightarrow> string option \<Rightarrow> envelope \<Rightarrow> send_result \<Rightarrow> agent_router \<Rightarrow> agent_router" where
  "finish c after e r st =
     (let st = st\<lparr> ar_sending := od_pop c (ar_sending st), ar_results := (c, e, r) # ar_results st \<rparr>
      in case after of
           Some mid \<Rightarrow> if returned r then acknowledge mid st else st
         | None \<Rightarrow> st)"

text \<open>After the item is in the queue: \<open>_await_ack\<close> for \<open>AT_LEAST_ONCE\<close>, done otherwise.\<close>

definition after_put :: "nat \<Rightarrow> string option \<Rightarrow> envelope \<Rightarrow> agent_router \<Rightarrow> agent_router" where
  "after_put c after e st =
     (if en_delivery_mode e = AT_LEAST_ONCE then
        st\<lparr> ar_pending := od_set (en_msg_id e) c (ar_pending st),
            ar_sending := od_set c (AckWait after e) (ar_sending st) \<rparr>
      else finish c after e Sent st)"

definition enqueue_item :: "string \<Rightarrow> mailbox \<Rightarrow> bytes \<Rightarrow> agent_router \<Rightarrow> agent_router" where
  "enqueue_item a mb x st =
     st\<lparr> ar_boxes := od_set a (mb\<lparr>mb_items := mb_items mb @ [x]\<rparr>) (ar_boxes st) \<rparr>"

text \<open>
  A sealed frame takes a clock reading \<open>ts\<close> and sixteen random bytes \<open>rnd a\<close>; \<open>seal\<close> is
  \<open>self._sessions[a].send(payload)\<close>.
\<close>

definition seal ::
  "protocol_lib \<Rightarrow> 64 word \<Rightarrow> bytes \<Rightarrow> bytes \<Rightarrow> string \<Rightarrow> secure_session \<Rightarrow> agent_router
     \<Rightarrow> (stp_error + bytes) \<times> agent_router" where
  "seal L ts nonce payload a s st =
     (let (r, s') = session_send (pl_mac L) s ts nonce payload FLAG_ENCRYPTED
      in (r, st\<lparr> ar_sessions := od_set a s' (ar_sessions st) \<rparr>))"

definition serialize :: "protocol_lib \<Rightarrow> envelope \<Rightarrow> bytes" where
  "serialize L e = pl_dumps L (to_dict e)"

definition unicast ::
  "protocol_lib \<Rightarrow> 64 word \<Rightarrow> (string \<Rightarrow> bytes) \<Rightarrow> nat \<Rightarrow> string option \<Rightarrow> envelope \<Rightarrow> agent_router \<Rightarrow> agent_router"
where
  "unicast L ts rnd c after e st =
     (let a = en_recipient_id e in
      case (od_get (ar_boxes st) a, od_get (ar_sessions st) a) of
        (Some mb, Some s) \<Rightarrow>
          (case seal L ts (rnd a) (serialize L e) a s st of
             (Inl err, st) \<Rightarrow> finish c after e (SealFailed err) st
           | (Inr x, st) \<Rightarrow>
               if length (mb_items mb) < QUEUE_SIZE then after_put c after e (enqueue_item a mb x st)
               else st\<lparr> ar_sending := od_set c (PutWait after e (mb_number mb) x) (ar_sending st) \<rparr>)
      | _ \<Rightarrow> finish c after e DroppedNoRecipient st)"

text \<open>The loop over the queues; a full one loses the message, an error ends the loop.\<close>

fun broadcast_loop ::
  "protocol_lib \<Rightarrow> 64 word \<Rightarrow> (string \<Rightarrow> bytes) \<Rightarrow> envelope \<Rightarrow> (string \<times> mailbox) list \<Rightarrow> agent_router
     \<Rightarrow> send_result \<times> agent_router" where
  "broadcast_loop L ts rnd e [] st = (Sent, st)"
| "broadcast_loop L ts rnd e ((a, mb) # qs) st =
     (if a = en_sender_id e then broadcast_loop L ts rnd e qs st
      else case od_get (ar_sessions st) a of
             None \<Rightarrow> (SealFailed SessionNotEstablished, st)
           | Some s \<Rightarrow>
               (case seal L ts (rnd a) (serialize L e) a s st of
                  (Inl err, st) \<Rightarrow> (SealFailed err, st)
                | (Inr x, st) \<Rightarrow>
                    broadcast_loop L ts rnd e qs
                      (if length (mb_items mb) < QUEUE_SIZE then enqueue_item a mb x st else st)))"

definition router_send ::
  "protocol_lib \<Rightarrow> time \<Rightarrow> 64 word \<Rightarrow> (string \<Rightarrow> bytes) \<Rightarrow> nat \<Rightarrow> string option \<Rightarrow> envelope \<Rightarrow> agent_router
     \<Rightarrow> agent_router" where
  "router_send L now ts rnd c after e st =
     (if is_expired now e then finish c after e DroppedExpired st
      else if en_hop_count e \<ge> MAX_ROUTING_HOPS then finish c after e RoutingLoop st
      else
        let e = e\<lparr>en_hop_count := en_hop_count e + 1\<rparr> in
        if en_delivery_mode e = EXACTLY_ONCE \<and> en_msg_id e \<in> set (ar_delivered st)
        then finish c after e DroppedDuplicate st
        else
          let st = (if en_delivery_mode e = EXACTLY_ONCE
                    then st\<lparr>ar_delivered := en_msg_id e # ar_delivered st\<rparr> else st)
          in if is_broadcast e then
               (case broadcast_loop L ts rnd e (ar_boxes st) st of (r, st) \<Rightarrow> finish c after e r st)
             else unicast L ts rnd c after e st)"

section \<open>Receiving\<close>

datatype received = NoMessage | Message envelope | ReceiveFailed

text \<open>
  A frame that fails authentication or the replay check is dropped; other errors, of the frame format,
  of JSON or of the envelope, are raised to the caller.
\<close>

definition unseal ::
  "protocol_lib \<Rightarrow> string \<Rightarrow> time \<Rightarrow> string \<Rightarrow> bytes \<Rightarrow> agent_router \<Rightarrow> received \<times> agent_router" where
  "unseal L mid now a x st =
     (case od_get (ar_sessions st) a of
        None \<Rightarrow> (NoMessage, st)
      | Some s \<Rightarrow>
          (let (r, s') = session_receive (pl_mac L) s now x;
               st = st\<lparr> ar_sessions := od_set a s' (ar_sessions st) \<rparr>
           in case r of
                Inl err \<Rightarrow> (if err = MacVerification \<or> err = ReplayAttack then NoMessage else ReceiveFailed, st)
              | Inr raw \<Rightarrow>
                  (case pl_loads L raw of
                     None \<Rightarrow> (ReceiveFailed, st)
                   | Some v \<Rightarrow> (case from_dict L mid now v of
                                 None \<Rightarrow> (ReceiveFailed, st)
                               | Some e \<Rightarrow> (Message e, st)))))"

definition protocol_receive ::
  "protocol_lib \<Rightarrow> string \<Rightarrow> time \<Rightarrow> string \<Rightarrow> agent_router \<Rightarrow> received \<times> agent_router" where
  "protocol_receive L mid now a st =
     (case od_get (ar_boxes st) a of
        None \<Rightarrow> (NoMessage, st)
      | Some mb \<Rightarrow>
          (case mb_items mb of
             [] \<Rightarrow> (NoMessage, st)
           | x # xs \<Rightarrow> unseal L mid now a x
               (st\<lparr> ar_boxes := od_set a (mb\<lparr>mb_items := xs\<rparr>) (ar_boxes st) \<rparr>)))"

section \<open>Resuming a send\<close>

text \<open>A sender that waits for a place puts its item when its queue has one.\<close>

definition put_resume :: "nat \<Rightarrow> agent_router \<Rightarrow> agent_router" where
  "put_resume c st =
     (case od_get (ar_sending st) c of
        Some (PutWait after e n x) \<Rightarrow>
          (case od_get (ar_boxes st) (en_recipient_id e) of
             Some mb \<Rightarrow>
               if mb_number mb = n \<and> length (mb_items mb) < QUEUE_SIZE
               then after_put c after e (enqueue_item (en_recipient_id e) mb x st) else st
           | None \<Rightarrow> st)
      | _ \<Rightarrow> st)"

definition ack_resume :: "nat \<Rightarrow> agent_router \<Rightarrow> agent_router" where
  "ack_resume c st =
     (case od_get (ar_sending st) c of
        Some (AckWait after e) \<Rightarrow> if c \<in> set (ar_acked st) then finish c after e Sent st else st
      | _ \<Rightarrow> st)"

text \<open>The timeout of \<open>_await_ack\<close>: whatever future stands under the message id is removed.\<close>

definition ack_timeout :: "nat \<Rightarrow> agent_router \<Rightarrow> agent_router" where
  "ack_timeout c st =
     (case od_get (ar_sending st) c of
        Some (AckWait after e) \<Rightarrow>
          if c \<in> set (ar_acked st) then st
          else finish c after e AckTimedOut (st\<lparr> ar_pending := od_pop (en_msg_id e) (ar_pending st) \<rparr>)
      | _ \<Rightarrow> st)"

definition send_cancel :: "nat \<Rightarrow> agent_router \<Rightarrow> agent_router" where
  "send_cancel c st =
     (case od_get (ar_sending st) c of
        Some (PutWait after e n x) \<Rightarrow> finish c after e SendCancelled st
      | Some (AckWait after e) \<Rightarrow> finish c after e SendCancelled st
      | None \<Rightarrow> st)"

datatype router_event =
    Register string session_keys time
  | Deregister string
  | Send time "64 word" "string \<Rightarrow> bytes" nat "string option" envelope
  | PutResume nat
  | Acknowledge string
  | AckResume nat
  | AckTimeout nat
  | CancelSend nat
  | Receive string time string

text \<open>One event; a receive also delivers. A coroutine id is used for one send only.\<close>

fun router_step :: "protocol_lib \<Rightarrow> router_event \<Rightarrow> agent_router \<Rightarrow> received \<times> agent_router" where
  "router_step L (Register a ks now) st = (NoMessage, router_register a ks now st)"
| "router_step L (Deregister a) st = (NoMessage, router_deregister a st)"
| "router_step L (Send now ts rnd c after e) st =
     (NoMessage,
      if od_has (ar_sending st) c \<or> c \<in> set (ar_acked st) \<or> c \<in> fst ` set (ar_results st) then st
      else router_send L now ts rnd c after e st)"
| "router_step L (PutResume c) st = (NoMessage, put_resume c st)"
| "router_step L (Acknowledge m) st = (NoMessage, acknowledge m st)"
| "router_step L (AckResume c) st = (NoMessage, ack_resume c st)"
| "router_step L (AckTimeout c) st = (NoMessage, ack_timeout c st)"
| "router_step L (CancelSend c) st = (NoMessage, send_cancel c st)"
| "router_step L (Receive mid now a) st = protocol_receive L mid now a st"

section \<open>Capabilities\<close>

datatype agent_capability =
    TEXT_COMPLETION | CODE_EXECUTION | WEB_SEARCH | DATA_ANALYSIS | MEMORY_READ | MEMORY_WRITE | TOOL_USE

record capability_record =
  cr_agent_id :: string
  cr_capabilities :: "agent_capability list"
  cr_model :: string
  cr_max_concurrent_tasks :: int
  cr_announced_at :: time
  cr_region :: string

type_synonym capability_registry = "(string, capability_record) odict"

definition announce :: "capability_record \<Rightarrow> capability_registry \<Rightarrow> capability_registry" where
  "announce r reg = od_set (cr_agent_id r) r reg"

text \<open>Sorting with \<open>reverse=True\<close> keeps the order of records with equal keys.\<close>

definition find_capable ::
  "agent_capability \<Rightarrow> string option \<Rightarrow> capability_registry \<Rightarrow> capability_record list" where
  "find_capable cap region reg =
     (let rs = filter (\<lambda>r. cap \<in> set (cr_capabilities r)) (map snd reg);
          rs = (case region of
                  None \<Rightarrow> rs | Some rg \<Rightarrow> if rg = [] then rs else filter (\<lambda>r. cr_region r = rg) rs)
      in sort_key (\<lambda>r. - cr_max_concurrent_tasks r) rs)"

definition remove_agent :: "string \<Rightarrow> capability_registry \<Rightarrow> capability_registry" where
  "remove_agent a reg = od_pop a reg"

lemma find_capable_correct:
  "sorted_wrt (\<lambda>x y. cr_max_concurrent_tasks x \<ge> cr_max_concurrent_tasks y) (find_capable cap region reg)"
  "set (find_capable cap region reg) =
     {r \<in> snd ` set reg. cap \<in> set (cr_capabilities r) \<and>
        (case region of None \<Rightarrow> True | Some rg \<Rightarrow> rg = [] \<or> cr_region r = rg)}"
proof -
  have "sorted (map (\<lambda>r. - cr_max_concurrent_tasks r) (find_capable cap region reg))"
    by (simp add: find_capable_def Let_def)
  then show "sorted_wrt (\<lambda>x y. cr_max_concurrent_tasks x \<ge> cr_max_concurrent_tasks y)
      (find_capable cap region reg)"
    by (simp add: sorted_map)
  show "set (find_capable cap region reg) =
     {r \<in> snd ` set reg. cap \<in> set (cr_capabilities r) \<and>
        (case region of None \<Rightarrow> True | Some rg \<Rightarrow> rg = [] \<or> cr_region r = rg)}"
    unfolding find_capable_def Let_def
    by (cases region) (auto intro: rev_image_eqI)
qed

section \<open>The protocol object\<close>

record agent_protocol =
  ap_router :: agent_router
  ap_registry :: capability_registry

definition protocol_register ::
  "string \<Rightarrow> agent_capability list \<Rightarrow> string \<Rightarrow> string \<Rightarrow> session_keys \<Rightarrow> time \<Rightarrow> agent_protocol \<Rightarrow> agent_protocol"
where
  "protocol_register a caps model region ks now p =
     p\<lparr> ap_registry := announce \<lparr> cr_agent_id = a, cr_capabilities = caps, cr_model = model,
          cr_max_concurrent_tasks = 4, cr_announced_at = now, cr_region = region \<rparr> (ap_registry p),
        ap_router := router_register a ks now (ap_router p) \<rparr>"

definition protocol_deregister :: "string \<Rightarrow> agent_protocol \<Rightarrow> agent_protocol" where
  "protocol_deregister a p =
     p\<lparr> ap_registry := remove_agent a (ap_registry p), ap_router := router_deregister a (ap_router p) \<rparr>"

text \<open>\<open>send_task\<close>, \<open>send_result\<close> and \<open>broadcast_heartbeat\<close>, as the send each of them starts.\<close>

definition send_task ::
  "protocol_lib \<Rightarrow> string \<Rightarrow> time \<Rightarrow> 64 word \<Rightarrow> (string \<Rightarrow> bytes) \<Rightarrow> nat \<Rightarrow> string \<Rightarrow> string
     \<Rightarrow> (string \<times> pyval) list \<Rightarrow> delivery_mode \<Rightarrow> router_event" where
  "send_task L mid now ts rnd c s r p mode =
     Send now ts rnd c None (new_envelope L mid now TASK_ASSIGN s r None mode 60 p)"

definition send_result_event ::
  "protocol_lib \<Rightarrow> string \<Rightarrow> time \<Rightarrow> 64 word \<Rightarrow> (string \<Rightarrow> bytes) \<Rightarrow> nat \<Rightarrow> envelope \<Rightarrow> pyval \<Rightarrow> string option
     \<Rightarrow> router_event" where
  "send_result_event L mid now ts rnd c original res err =
     Send now ts rnd c (Some (en_msg_id original))
       (make_reply L mid now original TASK_RESULT [(''result'', res), (''error'', opt_str err)])"

definition broadcast_heartbeat ::
  "protocol_lib \<Rightarrow> string \<Rightarrow> time \<Rightarrow> 64 word \<Rightarrow> (string \<Rightarrow> bytes) \<Rightarrow> nat \<Rightarrow> string \<Rightarrow> (string \<times> pyval) list
     \<Rightarrow> router_event" where
  "broadcast_heartbeat L mid now ts rnd c a status =
     Send now ts rnd c None (new_envelope L mid now HEARTBEAT a [] None AT_MOST_ONCE 10
       [(''agent_id'', PStr a), (''status'', PDict status), (''ts'', PFloat now)])"

section \<open>Envelopes survive the wire\<close>

lemma enum_values:
  "map_of message_types (enum_value message_types ty) = Some ty"
  "map_of delivery_modes (enum_value delivery_modes m) = Some m"
  by (cases ty; simp add: message_types_def enum_value_def)
     (cases m; simp add: delivery_modes_def enum_value_def)

lemma envelope_roundtrip:
  assumes "en_checksum e \<noteq> []"
  shows "from_dict L mid now (to_dict e) = Some e"
  using assms
  by (cases "en_correlation_id e")
     (simp_all add: to_dict_def enum_field_def str_field_def num_field_def int_field_def optional_field_def
      dict_field_def envelope_fields_def enum_values opt_str_def with_checksum_def)

section \<open>What is received was sent\<close>

text \<open>A sealed item carries an envelope if the body of its frame is the envelope's JSON.\<close>

definition carries :: "protocol_lib \<Rightarrow> bytes \<Rightarrow> envelope \<Rightarrow> bool" where
  "carries L x e \<longleftrightarrow> (\<exists>f. from_bytes x = Inr f \<and> sf_body f = serialize L e)"

text \<open>The envelopes that the sends of a history address to each agent, with the hop they take.\<close>

fun addressed_by :: "router_event \<Rightarrow> (string \<times> envelope) set" where
  "addressed_by (Send now ts rnd c after e) =
     {(a, e\<lparr>en_hop_count := en_hop_count e + 1\<rparr>) | a.
        if is_broadcast e then a \<noteq> en_sender_id e else a = en_recipient_id e}"
| "addressed_by _ = {}"

definition addressed :: "router_event list \<Rightarrow> (string \<times> envelope) set" where
  "addressed evs = (\<Union>ev \<in> set evs. addressed_by ev)"

definition phase_carries :: "protocol_lib \<Rightarrow> (string \<times> envelope) set \<Rightarrow> send_phase \<Rightarrow> bool" where
  "phase_carries L S ph =
     (case ph of PutWait after e n x \<Rightarrow> (en_recipient_id e, e) \<in> S \<and> carries L x e | AckWait after e \<Rightarrow> True)"

definition box_carries :: "protocol_lib \<Rightarrow> (string \<times> envelope) set \<Rightarrow> string \<Rightarrow> mailbox \<Rightarrow> bool" where
  "box_carries L S a mb \<longleftrightarrow> (\<forall>x \<in> set (mb_items mb). \<exists>e. (a, e) \<in> S \<and> carries L x e)"

definition all_carried :: "protocol_lib \<Rightarrow> (string \<times> envelope) set \<Rightarrow> agent_router \<Rightarrow> bool" where
  "all_carried L S st \<longleftrightarrow>
     (\<forall>(a, mb) \<in> set (ar_boxes st). box_carries L S a mb) \<and>
     (\<forall>(c, ph) \<in> set (ar_sending st). phase_carries L S ph)"

named_theorems carried_intros

lemma all_carriedD:
  "all_carried L S st \<Longrightarrow> od_get (ar_boxes st) a = Some mb \<Longrightarrow> box_carries L S a mb"
  "all_carried L S st \<Longrightarrow> od_get (ar_sending st) c = Some ph \<Longrightarrow> phase_carries L S ph"
  by (auto simp: all_carried_def dest: map_of_SomeD)

text \<open>Only the queues and the waiting senders matter.\<close>

lemma all_carried_cong:
  "all_carried L S st \<Longrightarrow> set (ar_boxes st') \<subseteq> set (ar_boxes st) \<Longrightarrow>
   set (ar_sending st') \<subseteq> set (ar_sending st) \<Longrightarrow> all_carried L S st'"
  by (auto simp: all_carried_def)

lemma all_carried_mono: "all_carried L S st \<Longrightarrow> S \<subseteq> S' \<Longrightarrow> all_carried L S' st"
  unfolding all_carried_def box_carries_def phase_carries_def
  by (fastforce split: send_phase.splits)

lemma carried_acknowledge [carried_intros]: "all_carried L S st \<Longrightarrow> all_carried L S (acknowledge m st)"
  by (rule all_carried_cong) (auto simp: acknowledge_def split: option.splits)

lemma carried_finish [carried_intros]: "all_carried L S st \<Longrightarrow> all_carried L S (finish c after e r st)"
proof -
  assume a: "all_carried L S st"
  have b: "all_carried L S (st\<lparr>ar_sending := od_pop c (ar_sending st), ar_results := (c, e, r) # ar_results st\<rparr>)"
    by (rule all_carried_cong [OF a]) (auto dest: set_od_popD)
  then show ?thesis
    using carried_acknowledge [OF b] by (simp add: finish_def Let_def split: option.split)
qed

lemma carried_wait:
  "all_carried L S st \<Longrightarrow> phase_carries L S ph \<Longrightarrow>
   all_carried L S (st\<lparr>ar_sending := od_set c ph (ar_sending st)\<rparr>)"
  by (auto simp: all_carried_def dest!: set_od_setD)

lemma carried_after_put [carried_intros]: "all_carried L S st \<Longrightarrow> all_carried L S (after_put c after e st)"
proof -
  assume a: "all_carried L S st"
  have "all_carried L S (st\<lparr>ar_pending := od_set (en_msg_id e) c (ar_pending st)\<rparr>)"
    by (rule all_carried_cong [OF a]) auto
  from carried_wait [OF this, of "AckWait after e" c] carried_finish [OF a]
  show ?thesis by (simp add: after_put_def phase_carries_def)
qed

lemma carried_box:
  "all_carried L S st \<Longrightarrow> box_carries L S a mb \<Longrightarrow>
   all_carried L S (st\<lparr>ar_boxes := od_set a mb (ar_boxes st)\<rparr>)"
  by (auto simp: all_carried_def dest!: set_od_setD)

lemma carried_put:
  "all_carried L S st \<Longrightarrow> box_carries L S a mb \<Longrightarrow> (a, e) \<in> S \<Longrightarrow> carries L x e \<Longrightarrow>
   all_carried L S (enqueue_item a mb x st)"
  unfolding enqueue_item_def by (rule carried_box) (auto simp: box_carries_def)

lemma sealed_carries:
  assumes "mac_ok (pl_mac L)" "length nonce = 16"
    and "seal L ts nonce (serialize L e) a s st = (Inr x, st')"
  shows "carries L x e"
proof -
  let ?k = "sk_mac_key (ss_keys s)" and ?n = "ss_send_seq s + 1"
  have enc: "codec_encode (pl_mac L) ?k ts nonce (serialize L e) FLAG_ENCRYPTED ?n = Inr x"
    using assms(3) by (auto simp: seal_def session_send_def Let_def split: if_splits sum.splits prod.splits)
  have len: "length (serialize L e) \<le> MAX_FRAME_BODY_BYTES" and seq: "0 \<le> ?n" "?n < 2 ^ 32"
    using enc by (auto simp: codec_encode_def to_bytes_def header_bytes_def pack_uint_def Let_def
        split: sum.splits if_splits)
  obtain f where "codec_decode (pl_mac L) ?k x = Inr f" "sf_body f = serialize L e"
    using codec_decode_encode [OF assms(1) _ _ seq assms(2) len, of FLAG_ENCRYPTED ?k ts] enc
    by (auto simp: FLAG_ENCRYPTED_def)
  then show ?thesis by (auto simp: carries_def codec_decode_iff)
qed

lemma carried_seal:
  "all_carried L S st \<Longrightarrow> seal L ts nonce p a s st = (r, st') \<Longrightarrow> all_carried L S st'"
  by (auto simp: seal_def intro: all_carried_cong split: prod.splits)

text \<open>The nonces a send draws have sixteen bytes.\<close>

fun nonces_ok :: "router_event \<Rightarrow> bool" where
  "nonces_ok (Send now ts rnd c after e) \<longleftrightarrow> (\<forall>a. length (rnd a) = 16)"
| "nonces_ok _ \<longleftrightarrow> True"

lemma carried_broadcast:
  assumes "mac_ok (pl_mac L)" "\<And>a. length (rnd a) = 16"
    and "\<And>a. a \<noteq> en_sender_id e \<Longrightarrow> (a, e) \<in> S"
  shows "all_carried L S st \<Longrightarrow> (\<forall>(a, mb) \<in> set qs. box_carries L S a mb) \<Longrightarrow>
    broadcast_loop L ts rnd e qs st = (r, st') \<Longrightarrow> all_carried L S st'"
proof (induction qs arbitrary: st)
  case Nil
  then show ?case by simp
next
  case (Cons q qs)
  obtain a mb where q: "q = (a, mb)" by (cases q)
  show ?case
  proof (cases "a = en_sender_id e")
    case True
    then show ?thesis using Cons q by simp
  next
    case False
    show ?thesis
    proof (cases "od_get (ar_sessions st) a")
      case None
      then show ?thesis using False Cons.prems q by simp
    next
      case (Some s)
      obtain r1 st1 where sl: "seal L ts (rnd a) (serialize L e) a s st = (r1, st1)" by fastforce
      have c1: "all_carried L S st1" using carried_seal [OF Cons.prems(1) sl] .
      show ?thesis
      proof (cases r1)
        case (Inl err)
        then show ?thesis using False Some sl c1 Cons.prems(3) q by simp
      next
        case (Inr x)
        have "carries L x e" using sealed_carries [OF assms(1,2) sl [unfolded Inr]] .
        then have "all_carried L S (if length (mb_items mb) < QUEUE_SIZE then enqueue_item a mb x st1 else st1)"
          using carried_put [OF c1 _ assms(3) [OF False]] Cons.prems(2) c1 q by simp
        then show ?thesis using Cons.IH False Some sl Inr Cons.prems(2,3) q by simp
      qed
    qed
  qed
qed

lemma carried_unicast:
  assumes "mac_ok (pl_mac L)" "\<And>a. length (rnd a) = 16" "(en_recipient_id e, e) \<in> S" "all_carried L S st"
  shows "all_carried L S (unicast L ts rnd c after e st)"
proof (cases "od_get (ar_boxes st) (en_recipient_id e)")
  case None
  then show ?thesis using assms(4) by (simp add: unicast_def carried_finish)
next
  case (Some mb)
  note box = Some
  let ?a = "en_recipient_id e"
  show ?thesis
  proof (cases "od_get (ar_sessions st) ?a")
    case None
    then show ?thesis using assms(4) box by (simp add: unicast_def carried_finish)
  next
    case (Some s)
    obtain r st1 where sl: "seal L ts (rnd ?a) (serialize L e) ?a s st = (r, st1)" by fastforce
    have c1: "all_carried L S st1" using carried_seal [OF assms(4) sl] .
    show ?thesis
    proof (cases r)
      case (Inl err)
      then show ?thesis using box Some sl c1 by (simp add: unicast_def carried_finish)
    next
      case (Inr x)
      have x: "carries L x e" using sealed_carries [OF assms(1,2) sl [unfolded Inr]] .
      have "all_carried L S (enqueue_item ?a mb x st1)"
        using carried_put [OF c1 all_carriedD(1) [OF assms(4) box] assms(3) x] .
      moreover have "all_carried L S
          (st1\<lparr>ar_sending := od_set c (PutWait after e (mb_number mb) x) (ar_sending st1)\<rparr>)"
        by (rule carried_wait [OF c1]) (simp add: phase_carries_def assms(3) x)
      ultimately show ?thesis
        using box Some sl Inr by (simp add: unicast_def carried_after_put)
    qed
  qed
qed

lemma carried_send:
  assumes "mac_ok (pl_mac L)" "\<And>a. length (rnd a) = 16" "all_carried L S st"
    and "addressed [Send now ts rnd c after e] \<subseteq> S"
  shows "all_carried L S (router_send L now' ts rnd c after e st)"
proof -
  let ?e = "e\<lparr>en_hop_count := en_hop_count e + 1\<rparr>"
  have b: "is_broadcast e \<Longrightarrow> a \<noteq> en_sender_id ?e \<Longrightarrow> (a, ?e) \<in> S" for a
    using assms(4) by (auto simp: addressed_def)
  have u: "\<not> is_broadcast e \<Longrightarrow> (en_recipient_id ?e, ?e) \<in> S"
    using assms(4) by (auto simp: addressed_def)
  define st1 where "st1 = (if en_delivery_mode ?e = EXACTLY_ONCE
    then st\<lparr>ar_delivered := en_msg_id ?e # ar_delivered st\<rparr> else st)"
  have c1: "all_carried L S st1"
    by (rule all_carried_cong [OF assms(3)]) (auto simp: st1_def)
  obtain r st2 where bl: "broadcast_loop L ts rnd ?e (ar_boxes st1) st1 = (r, st2)" by fastforce
  have boxes: "\<forall>(a, mb) \<in> set (ar_boxes st1). box_carries L S a mb"
    using c1 by (simp add: all_carried_def)
  have "all_carried L S st2" if "is_broadcast e"
    by (rule carried_broadcast [OF assms(1,2) b [OF that] c1 boxes bl])
  moreover have "all_carried L S (unicast L ts rnd c after ?e st1)" if "\<not> is_broadcast e"
    using carried_unicast [OF assms(1,2) u [OF that] c1] .
  moreover have "is_broadcast ?e = is_broadcast e" by (simp add: is_broadcast_def)
  ultimately show ?thesis
    using assms(3) bl unfolding router_send_def Let_def st1_def [symmetric]
    by (simp add: carried_finish)
qed

lemma carried_receive:
  assumes "all_carried L S st" "protocol_receive L mid now a st = (r, st')"
  shows "all_carried L S st'"
proof (cases "od_get (ar_boxes st) a")
  case None
  then show ?thesis using assms by (simp add: protocol_receive_def)
next
  case (Some mb)
  show ?thesis
  proof (cases "mb_items mb")
    case Nil
    then show ?thesis using assms Some by (simp add: protocol_receive_def)
  next
    case (Cons x xs)
    let ?st = "st\<lparr>ar_boxes := od_set a (mb\<lparr>mb_items := xs\<rparr>) (ar_boxes st)\<rparr>"
    have "all_carried L S ?st"
      using all_carriedD(1) [OF assms(1) Some] Cons
      by (intro carried_box [OF assms(1)]) (simp add: box_carries_def)
    moreover have "ar_boxes st' = ar_boxes ?st" "ar_sending st' = ar_sending ?st"
      using assms(2) Some Cons
      by (auto simp: protocol_receive_def unseal_def Let_def split: option.splits prod.splits sum.splits)
    ultimately show ?thesis by (auto intro: all_carried_cong)
  qed
qed

lemma carried_step:
  assumes "mac_ok (pl_mac L)" "nonces_ok ev" "addressed [ev] \<subseteq> S" "all_carried L S st"
  shows "all_carried L S (snd (router_step L ev st))"
proof (cases ev)
  case (Register a ks now)
  have "all_carried L S (st\<lparr>ar_boxes := od_set a \<lparr>mb_number = ar_numbers st, mb_items = []\<rparr> (ar_boxes st)\<rparr>)"
    by (rule carried_box [OF assms(4)]) (simp add: box_carries_def)
  from all_carried_cong [OF this] show ?thesis
    using Register assms(4) by (simp add: router_register_def)
next
  case (Deregister a)
  then show ?thesis
    using assms(4) by (auto simp: router_deregister_def all_carried_def dest!: set_od_popD)
next
  case (Send now ts rnd c after e)
  then show ?thesis using carried_send [OF assms(1) _ assms(4), of rnd now ts c after e now] assms by simp
next
  case (PutResume c)
  have ph: "(en_recipient_id e, e) \<in> S \<and> carries L x e"
    if "od_get (ar_sending st) c = Some (PutWait after e n x)" for after e n x
    using all_carriedD(2) [OF assms(4) that] by (simp add: phase_carries_def)
  then show ?thesis
    using PutResume assms(4) carried_put [OF assms(4) all_carriedD(1) [OF assms(4)]]
    by (auto simp: put_resume_def carried_after_put split: option.splits send_phase.splits if_splits)
next
  case (AckTimeout c)
  have "all_carried L S (st\<lparr>ar_pending := p\<rparr>)" for p by (rule all_carried_cong [OF assms(4)]) auto
  then show ?thesis
    using AckTimeout assms(4) by (simp add: ack_timeout_def carried_finish split: option.split send_phase.split)
next
  case (Receive mid now a)
  then show ?thesis using carried_receive [OF assms(4)] by (metis prod.collapse router_step.simps(9))
qed (use assms(4) in \<open>simp_all add: carried_acknowledge ack_resume_def send_cancel_def carried_finish
       split: option.split send_phase.split\<close>)

definition router_run :: "protocol_lib \<Rightarrow> router_event list \<Rightarrow> agent_router \<Rightarrow> agent_router" where
  "router_run L evs st = fold (\<lambda>ev st. snd (router_step L ev st)) evs st"

interpretation carried: op_system "\<lambda>ev st. snd (router_step L ev st)"
  "\<lambda>ev. mac_ok (pl_mac L) \<and> nonces_ok ev \<and> addressed [ev] \<subseteq> S" "all_carried L S" for L S
  by unfold_locales (simp add: carried_step)

lemma carried_run:
  assumes "mac_ok (pl_mac L)" "list_all nonces_ok evs" "addressed evs \<subseteq> S" "all_carried L S st"
  shows "all_carried L S (router_run L evs st)"
  unfolding router_run_def
proof (rule carried.inv_run [OF _ assms(4)])
  show "list_all (\<lambda>ev. mac_ok (pl_mac L) \<and> nonces_ok ev \<and> addressed [ev] \<subseteq> S) evs"
    using assms(1-3) by (auto simp: list_all_iff addressed_def)
qed

text \<open>
  What is asked of JSON: the dictionaries of the envelopes that are sent can be read back. Their
  checksums are filled in when they are built.
\<close>

fun json_ok :: "protocol_lib \<Rightarrow> router_event \<Rightarrow> bool" where
  "json_ok L (Send now ts rnd c after e) \<longleftrightarrow>
     en_checksum e \<noteq> [] \<and>
     pl_loads L (serialize L (e\<lparr>en_hop_count := en_hop_count e + 1\<rparr>)) =
       Some (to_dict (e\<lparr>en_hop_count := en_hop_count e + 1\<rparr>))"
| "json_ok L _ \<longleftrightarrow> True"

lemma addressed_json:
  assumes "list_all (json_ok L) evs" "(a, e) \<in> addressed evs"
  shows "en_checksum e \<noteq> [] \<and> pl_loads L (serialize L e) = Some (to_dict e)"
proof -
  obtain ev where ev: "ev \<in> set evs" "(a, e) \<in> addressed_by ev"
    using assms(2) by (auto simp: addressed_def)
  then have "json_ok L ev" using assms(1) by (simp add: list_all_iff)
  with ev(2) show ?thesis by (cases ev) auto
qed

section \<open>Delivery\<close>

lemma acknowledge_same [simp]:
  "ar_boxes (acknowledge m st) = ar_boxes st" "ar_sessions (acknowledge m st) = ar_sessions st"
  by (simp_all add: acknowledge_def split: option.split)

lemma finish_same [simp]:
  "ar_boxes (finish c after e r st) = ar_boxes st" "ar_sessions (finish c after e r st) = ar_sessions st"
  by (simp_all add: finish_def Let_def split: option.split)

lemma after_put_same [simp]:
  "ar_boxes (after_put c after e st) = ar_boxes st" "ar_sessions (after_put c after e st) = ar_sessions st"
  by (simp_all add: after_put_def)

text \<open>
  The session of an agent is ready for a frame with clock \<open>ts\<close> opened at \<open>now\<close>: established, with
  sequence numbers left, the next one not seen, and the clock inside the window.
\<close>

definition session_ready :: "secure_session \<Rightarrow> 64 word \<Rightarrow> time \<Rightarrow> bool" where
  "session_ready s ts now \<longleftrightarrow>
     ss_state s = S_ESTABLISHED \<and> 0 \<le> ss_send_seq s \<and> ss_send_seq s < 2 ^ 32 - 1 \<and>
     \<not> od_has (rg_seen (ss_guard s)) (ss_send_seq s + 1) \<and>
     \<not> outside_window (rg_window_s (ss_guard s)) now (double_of ts)"

text \<open>A send to one agent that passes the checks of \<open>send\<close>.\<close>

definition sendable :: "protocol_lib \<Rightarrow> time \<Rightarrow> envelope \<Rightarrow> agent_router \<Rightarrow> bool" where
  "sendable L now e st \<longleftrightarrow>
     \<not> is_expired now e \<and> en_hop_count e < MAX_ROUTING_HOPS \<and> \<not> is_broadcast e \<and>
     (en_delivery_mode e = EXACTLY_ONCE \<longrightarrow> en_msg_id e \<notin> set (ar_delivered st)) \<and>
     length (serialize L (e\<lparr>en_hop_count := en_hop_count e + 1\<rparr>)) \<le> MAX_FRAME_BODY_BYTES"

text \<open>What stands in the queue afterwards: a frame of the session that carries the envelope.\<close>

definition queued_frame ::
  "protocol_lib \<Rightarrow> secure_session \<Rightarrow> 64 word \<Rightarrow> envelope \<Rightarrow> secure_session \<Rightarrow> bytes \<Rightarrow> bool" where
  "queued_frame L s ts e s' x \<longleftrightarrow>
     ss_state s' = S_ESTABLISHED \<and> ss_guard s' = ss_guard s \<and>
     (\<exists>f. codec_decode (pl_mac L) (sk_mac_key (ss_keys s')) x = Inr f \<and> sf_body f = serialize L e \<and>
          sf_sequence_no f = ss_send_seq s + 1 \<and> sf_timestamp f = ts)"

lemma unicast_puts:
  assumes "mac_ok (pl_mac L)" "\<And>a. length (rnd a) = 16"
    and "od_get (ar_boxes st) (en_recipient_id e) = Some mb" "length (mb_items mb) < QUEUE_SIZE"
    and "od_get (ar_sessions st) (en_recipient_id e) = Some s"
    and "ss_state s = S_ESTABLISHED" "0 \<le> ss_send_seq s" "ss_send_seq s < 2 ^ 32 - 1"
    and "length (serialize L e) \<le> MAX_FRAME_BODY_BYTES"
  shows "\<exists>x s' st1. queued_frame L s ts e s' x
    \<and> unicast L ts rnd c after e st = after_put c after e st1
    \<and> od_get (ar_boxes st1) (en_recipient_id e) = Some (mb\<lparr>mb_items := mb_items mb @ [x]\<rparr>)
    \<and> od_get (ar_sessions st1) (en_recipient_id e) = Some s'"
proof -
  let ?a = "en_recipient_id e" and ?k = "sk_mac_key (ss_keys s)" and ?n = "ss_send_seq s + 1"
  obtain x f where x: "codec_encode (pl_mac L) ?k ts (rnd ?a) (serialize L e) FLAG_ENCRYPTED ?n = Inr x"
    and f: "codec_decode (pl_mac L) ?k x = Inr f" "sf_body f = serialize L e" "sf_sequence_no f = ?n"
      "sf_timestamp f = ts"
    using codec_decode_encode [OF assms(1), where flags = FLAG_ENCRYPTED and sqn = ?n and nonce = "rnd ?a"
        and body = "serialize L e" and k = ?k and ts = ts] assms(2,7-9)
    by (auto simp: FLAG_ENCRYPTED_def)
  let ?s = "s\<lparr>ss_send_seq := ?n, ss_bytes_sent := ss_bytes_sent s + int (length x)\<rparr>"
  have "session_send (pl_mac L) s ts (rnd ?a) (serialize L e) FLAG_ENCRYPTED = (Inr x, ?s)"
    using assms(6) x by (simp add: session_send_def)
  moreover have "queued_frame L s ts e ?s x" using f assms(6) by (simp add: queued_frame_def)
  ultimately show ?thesis
    using assms(3-5) by (auto simp: unicast_def seal_def enqueue_item_def Let_def intro!: exI)
qed

text \<open>A send to an agent with an empty queue, and then a receive at \<open>now'\<close>.\<close>

lemma send_then_receive:
  assumes "mac_ok (pl_mac L)" "nonces_ok (Send now ts rnd c after e)" "sendable L now e st"
    and "od_get (ar_boxes st) (en_recipient_id e) = Some mb" "mb_items mb = []"
    and "od_get (ar_sessions st) (en_recipient_id e) = Some s"
    and "ss_state s = S_ESTABLISHED" "0 \<le> ss_send_seq s" "ss_send_seq s < 2 ^ 32 - 1"
  shows "\<exists>x s' st1. queued_frame L s ts (e\<lparr>en_hop_count := en_hop_count e + 1\<rparr>) s' x
    \<and> od_get (ar_sessions st1) (en_recipient_id e) = Some s'
    \<and> protocol_receive L mid now' (en_recipient_id e) (router_send L now ts rnd c after e st) =
      unseal L mid now' (en_recipient_id e) x st1"
proof -
  let ?e = "e\<lparr>en_hop_count := en_hop_count e + 1\<rparr>" and ?a = "en_recipient_id e"
  define st1 where "st1 = (if en_delivery_mode ?e = EXACTLY_ONCE
    then st\<lparr>ar_delivered := en_msg_id ?e # ar_delivered st\<rparr> else st)"
  have boxes: "od_get (ar_boxes st1) (en_recipient_id ?e) = Some mb"
    "od_get (ar_sessions st1) (en_recipient_id ?e) = Some s"
    using assms(4,6) by (simp_all add: st1_def)
  have send: "router_send L now ts rnd c after e st = unicast L ts rnd c after ?e st1"
    using assms(3) by (auto simp: router_send_def sendable_def st1_def is_broadcast_def Let_def)
  obtain x s' st2 where u: "queued_frame L s ts ?e s' x"
      "unicast L ts rnd c after ?e st1 = after_put c after ?e st2"
      "od_get (ar_boxes st2) ?a = Some (mb\<lparr>mb_items := mb_items mb @ [x]\<rparr>)"
      "od_get (ar_sessions st2) ?a = Some s'"
    using unicast_puts [OF assms(1) _ boxes(1) _ boxes(2) assms(7-9), of rnd ts c after]
      assms(2,3,5) by (auto simp: sendable_def QUEUE_SIZE_def)
  have "protocol_receive L mid now' ?a (router_send L now ts rnd c after e st) =
      unseal L mid now' ?a x ((after_put c after ?e st2)\<lparr>ar_boxes := od_set ?a (mb\<lparr>mb_items := []\<rparr>) (ar_boxes st2)\<rparr>)"
    using assms(5) send u(2-4) by (simp add: protocol_receive_def)
  moreover have "od_get (ar_sessions ((after_put c after ?e st2)
      \<lparr>ar_boxes := od_set ?a (mb\<lparr>mb_items := []\<rparr>) (ar_boxes st2)\<rparr>)) ?a = Some s'"
    using u(4) by simp
  ultimately show ?thesis using u(1) by blast
qed

text \<open>
  Sent to a registered agent whose queue is empty, and received before the window of the frame's
  clock has passed, a message arrives as it was sent, whatever its delivery mode.
\<close>

lemma sent_is_received:
  assumes "mac_ok (pl_mac L)" "json_ok L (Send now ts rnd c after e)" "nonces_ok (Send now ts rnd c after e)"
    and "sendable L now e st"
    and "od_get (ar_boxes st) (en_recipient_id e) = Some mb" "mb_items mb = []"
    and "od_get (ar_sessions st) (en_recipient_id e) = Some s" "session_ready s ts now'"
  shows "fst (protocol_receive L mid now' (en_recipient_id e) (router_send L now ts rnd c after e st)) =
    Message (e\<lparr>en_hop_count := en_hop_count e + 1\<rparr>)"
proof -
  let ?e = "e\<lparr>en_hop_count := en_hop_count e + 1\<rparr>" and ?a = "en_recipient_id e"
  have ready: "ss_state s = S_ESTABLISHED" "0 \<le> ss_send_seq s" "ss_send_seq s < 2 ^ 32 - 1"
    using assms(8) by (auto simp: session_ready_def)
  obtain x s' st1 where q: "queued_frame L s ts ?e s' x" and s': "od_get (ar_sessions st1) ?a = Some s'"
    and r: "protocol_receive L mid now' ?a (router_send L now ts rnd c after e st) = unseal L mid now' ?a x st1"
    using send_then_receive [OF assms(1,3-7) ready, of mid now'] by blast
  obtain g where "guard_check (ss_guard s) now' (ss_send_seq s + 1) (double_of ts) = Inr g"
    using assms(8) by (simp add: session_ready_def guard_check_def Let_def)
  then obtain s2 where "session_receive (pl_mac L) s' now' x = (Inr (serialize L ?e), s2)"
    using q by (auto simp: queued_frame_def session_receive_def)
  then show ?thesis
    using r s' assms(2) envelope_roundtrip [of ?e L mid now'] by (simp add: unseal_def Let_def)
qed

text \<open>
  A message may wait in a queue for its time to live, sixty seconds unless set otherwise, but after
  thirty the replay guard takes it for a replay: it is lost without an error.
\<close>

lemma late_message_lost:
  assumes "mac_ok (pl_mac L)" "nonces_ok (Send now ts rnd c after e)" "sendable L now e st"
    and "od_get (ar_boxes st) (en_recipient_id e) = Some mb" "mb_items mb = []"
    and "od_get (ar_sessions st) (en_recipient_id e) = Some s"
    and "ss_state s = S_ESTABLISHED" "0 \<le> ss_send_seq s" "ss_send_seq s < 2 ^ 32 - 1"
    and "outside_window (rg_window_s (ss_guard s)) now' (double_of ts)"
  shows "fst (protocol_receive L mid now' (en_recipient_id e) (router_send L now ts rnd c after e st)) = NoMessage"
proof -
  obtain x s' st1 where q: "queued_frame L s ts (e\<lparr>en_hop_count := en_hop_count e + 1\<rparr>) s' x"
    and s': "od_get (ar_sessions st1) (en_recipient_id e) = Some s'"
    and r: "protocol_receive L mid now' (en_recipient_id e) (router_send L now ts rnd c after e st) =
      unseal L mid now' (en_recipient_id e) x st1"
    using send_then_receive [OF assms(1-9), of mid now'] by blast
  have "guard_check (ss_guard s) now' (ss_send_seq s + 1) (double_of ts) = Inl ReplayAttack"
    using assms(10) by (simp add: guard_check_def)
  then have "session_receive (pl_mac L) s' now' x = (Inl ReplayAttack, s')"
    using q by (auto simp: queued_frame_def session_receive_def)
  then show ?thesis
    using r s' by (simp add: unseal_def Let_def)
qed

text \<open>
  A message to be delivered exactly once is marked as delivered before it is: sent to an agent that is
  not there yet it is dropped, and sent again once the agent is there it is dropped as a duplicate.
\<close>

lemma exactly_once_lost:
  assumes "sendable L now e st" "\<not> is_expired now' e" "en_delivery_mode e = EXACTLY_ONCE"
    and "od_get (ar_boxes st) (en_recipient_id e) = None"
  shows "map (snd \<circ> snd) (ar_results
      (router_send L now' ts' rnd c' None e
        (router_register (en_recipient_id e) ks t (router_send L now ts rnd c None e st)))) =
    DroppedDuplicate # DroppedNoRecipient # map (snd \<circ> snd) (ar_results st)"
  using assms
  by (simp add: router_send_def sendable_def is_broadcast_def unicast_def finish_def router_register_def Let_def)

text \<open>
  \<open>send_result\<close> acknowledges the request only after its reply was acknowledged: when the reply times
  out, the sender of the request is not told either.
\<close>

lemma result_unacknowledged:
  assumes "od_get (ar_sending st) c = Some (AckWait (Some m) e)" "c \<notin> set (ar_acked st)" "m \<noteq> en_msg_id e"
  shows "od_get (ar_pending (ack_timeout c st)) m = od_get (ar_pending st) m
    \<and> ar_acked (ack_timeout c st) = ar_acked st
    \<and> hd (ar_results (ack_timeout c st)) = (c, e, AckTimedOut)"
  using assms by (simp add: ack_timeout_def finish_def Let_def)

text \<open>A cancelled sender leaves its entry among the pending acknowledgements.\<close>

lemma cancelled_stays_pending:
  assumes "od_get (ar_sending st) c = Some (AckWait after e)" "od_get (ar_pending st) (en_msg_id e) = Some c"
  shows "od_get (ar_pending (send_cancel c st)) (en_msg_id e) = Some c"
  using assms by (simp add: send_cancel_def finish_def Let_def split: option.split)

section \<open>Nothing else is received\<close>

text \<open>
  C13. Whatever agents come and go, however sends, acknowledgements, timeouts and cancellations
  interleave, a message that an agent receives is one that was sent to it, or broadcast by another
  agent, unchanged but for its hop count.
\<close>

theorem received_was_sent:
  assumes "mac_ok (pl_mac L)" "list_all nonces_ok evs" "list_all (json_ok L) evs"
    and "protocol_receive L mid now a (router_run L evs empty_router) = (Message e, st')"
  shows "(a, e) \<in> addressed evs"
proof -
  let ?st = "router_run L evs empty_router"
  have "all_carried L (addressed evs) empty_router" by (simp add: all_carried_def empty_router_def)
  then have inv: "all_carried L (addressed evs) ?st" using carried_run assms(1,2) by blast
  obtain mb x xs where box: "od_get (ar_boxes ?st) a = Some mb" "mb_items mb = x # xs"
    using assms(4) by (auto simp: protocol_receive_def split: option.splits list.splits)
  then obtain e0 f where e0: "(a, e0) \<in> addressed evs" "from_bytes x = Inr f" "sf_body f = serialize L e0"
    using all_carriedD(1) [OF inv box(1)] by (auto simp: box_carries_def carries_def)
  have js: "en_checksum e0 \<noteq> []" "pl_loads L (serialize L e0) = Some (to_dict e0)"
    using addressed_json [OF assms(3) e0(1)] by auto
  let ?st1 = "?st\<lparr>ar_boxes := od_set a (mb\<lparr>mb_items := xs\<rparr>) (ar_boxes ?st)\<rparr>"
  obtain s where s: "od_get (ar_sessions ?st) a = Some s"
    using assms(4) box by (auto simp: protocol_receive_def unseal_def split: option.splits)
  obtain r s' where r: "session_receive (pl_mac L) s now x = (r, s')" by fastforce
  from assms(4) box s r obtain raw where raw: "r = Inr raw"
    by (auto simp: protocol_receive_def unseal_def Let_def split: sum.splits if_splits)
  then have "raw = serialize L e0"
    using r e0(2,3) by (auto simp: session_receive_def codec_decode_iff split: if_splits sum.splits)
  then have "e = e0"
    using assms(4) box s r raw js envelope_roundtrip [OF js(1)]
    by (simp add: protocol_receive_def unseal_def Let_def)
  with e0(1) show ?thesis by simp
qed

definition demo_envelope :: "envelope" where
  "demo_envelope =
     \<lparr> en_msg_id = ''m1'', en_protocol_version = PROTOCOL_VERSION, en_msg_type = TASK_ASSIGN,
       en_sender_id = ''a'', en_recipient_id = ''b'', en_correlation_id = None,
       en_delivery_mode = AT_MOST_ONCE, en_created_at = 0, en_ttl_s = 60, en_hop_count = 0,
       en_payload = [], en_checksum = ''ck'' \<rparr>"

definition demo_lib :: "protocol_lib" where
  "demo_lib =
     \<lparr> pl_mac = demo_mac, pl_dumps = (\<lambda>v. [1]),
       pl_loads = (\<lambda>x. Some (to_dict (demo_envelope\<lparr>en_hop_count := 1\<rparr>))), pl_digest = (\<lambda>p. ''ck'') \<rparr>"

definition demo_events :: "router_event list" where
  "demo_events =
     [Register ''b'' (ss_keys demo_session) 0, Send 0 0 (\<lambda>a. replicate 16 9) 1 None demo_envelope]"

lemma demo_receives:
  "fst (protocol_receive demo_lib ''m2'' 1 ''b'' (router_run demo_lib demo_events empty_router)) =
     Message (demo_envelope\<lparr>en_hop_count := 1\<rparr>)"
proof -
  let ?st = "router_register ''b'' (ss_keys demo_session) 0 empty_router"
  let ?s = "new_session ''b'' (ss_keys demo_session) 0"
  have "router_run demo_lib demo_events empty_router =
      router_send demo_lib 0 0 (\<lambda>a. replicate 16 9) 1 None demo_envelope ?st"
    by (simp add: router_run_def demo_events_def router_register_def empty_router_def od_has_def)
  moreover have "mac_ok (pl_mac demo_lib)" by (simp add: demo_lib_def mac_ok_def demo_mac_def)
  moreover have "json_ok demo_lib (Send 0 0 (\<lambda>a. replicate 16 9) 1 None demo_envelope)"
    by (simp add: demo_lib_def demo_envelope_def)
  moreover have "sendable demo_lib 0 demo_envelope ?st"
    by (simp add: sendable_def is_expired_def is_broadcast_def demo_envelope_def MAX_ROUTING_HOPS_def
        serialize_def demo_lib_def MAX_FRAME_BODY_BYTES_def)
  moreover have "od_get (ar_boxes ?st) ''b'' = Some \<lparr>mb_number = 0, mb_items = []\<rparr>"
    "od_get (ar_sessions ?st) ''b'' = Some ?s"
    by (simp_all add: router_register_def empty_router_def od_has_def)
  moreover have "session_ready ?s 0 1"
    by (simp add: session_ready_def new_session_def new_guard_def od_has_def outside_window_def
        double_of_zero REPLAY_WINDOW_S_def)
  moreover have "en_recipient_id demo_envelope = ''b''" "en_hop_count demo_envelope = 0"
    by (simp_all add: demo_envelope_def)
  ultimately show ?thesis
    using sent_is_received [of demo_lib 0 0 "\<lambda>a. replicate 16 9" 1 None demo_envelope ?st
        "\<lparr>mb_number = 0, mb_items = []\<rparr>" ?s 1 "''m2''"]
    by simp
qed

lemma received_was_sent_witness:
  "(''b'', demo_envelope\<lparr>en_hop_count := 1\<rparr>) \<in> addressed demo_events"
proof -
  obtain st' where r: "protocol_receive demo_lib ''m2'' 1 ''b'' (router_run demo_lib demo_events empty_router) =
      (Message (demo_envelope\<lparr>en_hop_count := 1\<rparr>), st')"
    using demo_receives by (metis prod.collapse)
  show ?thesis
  proof (rule received_was_sent [OF _ _ _ r])
    show "mac_ok (pl_mac demo_lib)" by (simp add: demo_lib_def mac_ok_def demo_mac_def)
    show "list_all nonces_ok demo_events" by (simp add: demo_events_def)
    show "list_all (json_ok demo_lib) demo_events"
      by (simp add: demo_events_def demo_lib_def demo_envelope_def)
  qed
qed

end
