(* ===== verification/Router_Hedge.thy ===== *)
theory Router_Hedge
  imports Router_Call
begin

text \<open>
  \<open>src/coreai/router.py\<close>, fifth part: hedged calls. After a delay the next candidate is called beside the first and the
  first answer wins. The two calls are asyncio tasks that run in the world; the environment says when they finish.
\<close>

section \<open>Two legs\<close>

datatype wake = DelayOver | Woken "(string \<times> completion outcome) list" | WaitCancelled

text \<open>
  \<open>hv_start n q dl a\<close> is \<open>ensure_future(self._call_provider(n, q, dl, a))\<close>; \<open>hv_first n t\<close> is
  \<open>asyncio.wait({t1}, timeout=t)\<close> for leg \<open>n\<close>; \<open>hv_wait ns\<close> is \<open>asyncio.wait(pending, FIRST_COMPLETED)\<close> with the finished
  legs and how they ended; \<open>hv_await n\<close> is \<open>await t1\<close>, which cancels the leg when the waiter is cancelled;
  \<open>hv_drop ns\<close> cancels the losers and gathers them, and says whether the request itself was cancelled meanwhile;
  \<open>hv_cancel ns\<close> is the same in the \<open>except\<close> branch, where a further cancellation is not considered. \<open>hv_alive n w\<close> says
  that the leg is running.
\<close>

record 'x hedge_env =
  hv_start :: "string \<Rightarrow> request \<Rightarrow> deadline \<Rightarrow> int \<Rightarrow> 'x world \<Rightarrow> 'x world"
  hv_first :: "string \<Rightarrow> real \<Rightarrow> 'x world \<Rightarrow> wake \<times> 'x world"
  hv_wait :: "string list \<Rightarrow> 'x world \<Rightarrow> (string \<times> completion outcome) list option \<times> 'x world"
  hv_await :: "string \<Rightarrow> 'x world \<Rightarrow> completion outcome \<times> 'x world"
  hv_drop :: "string list \<Rightarrow> 'x world \<Rightarrow> bool \<times> 'x world"
  hv_cancel :: "string list \<Rightarrow> 'x world \<Rightarrow> 'x world"
  hv_alive :: "string \<Rightarrow> 'x world \<Rightarrow> bool"

datatype hedge_end =
    HedgeWon string completion
  | LegRaised exn
  | BothFailed "(string \<times> exn) list"
  | HedgeCancelled
  | StillRacing

datatype scan = Winner string completion | LegWasCancelled | NoneYet "(string \<times> exn) list"

text \<open>\<open>for t in done\<close>: the first leg that answered, or the errors so far.\<close>

fun scan_done :: "(string \<times> completion outcome) list \<Rightarrow> (string \<times> exn) list \<Rightarrow> scan" where
  "scan_done [] errors = NoneYet errors"
| "scan_done ((n, Ret resp) # ds) errors = Winner n resp"
| "scan_done ((n, Cancel) # ds) errors = LegWasCancelled"
| "scan_done ((n, Exc e) # ds) errors = scan_done ds (errors @ [(n, e)])"

text \<open>The loop \<open>while pending\<close> for at most \<open>k\<close> rounds: there are two legs and each round ends one.\<close>

fun hedge_race ::
  "'x hedge_env \<Rightarrow> string \<Rightarrow> string \<Rightarrow> nat \<Rightarrow> string list \<Rightarrow> (string \<times> exn) list \<Rightarrow> 'x world \<Rightarrow> hedge_end \<times> 'x world" where
  "hedge_race H p q k [] errors w = (BothFailed errors, w)"
| "hedge_race H p q 0 (n # ns) errors w = (StillRacing, w)"
| "hedge_race H p q (Suc k) (n # ns) errors w =
     (case hv_wait H (n # ns) w of
        (None, w) \<Rightarrow> (HedgeCancelled, hv_cancel H [p, q] w)
      | (Some ds, w) \<Rightarrow>
          (let rest = filter (\<lambda>m. m \<notin> set (map fst ds)) (n # ns) in
           case scan_done ds errors of
             Winner m resp \<Rightarrow>
               (case hv_drop H rest w of
                  (True, w) \<Rightarrow> (HedgeCancelled, hv_cancel H [p, q] w)
                | (False, w) \<Rightarrow>
                    (HedgeWon m resp,
                     (if m = q then on_router (\<lambda>r. r\<lparr>ro_hedge_wins := ro_hedge_wins r + 1\<rparr>) else id) w))
           | LegWasCancelled \<Rightarrow> (HedgeCancelled, hv_cancel H [p, q] w)
           | NoneYet errors \<Rightarrow> hedge_race H p q k rest errors w))"

definition leg_end :: "string \<Rightarrow> completion outcome \<Rightarrow> hedge_end" where
  "leg_end n r = (case r of Ret resp \<Rightarrow> HedgeWon n resp | Exc e \<Rightarrow> LegRaised e | Cancel \<Rightarrow> HedgeCancelled)"

text \<open>\<open>_call_hedged\<close>; the flag says whether the partner was called, which is when the caller skips it later.\<close>

definition call_hedged ::
  "'x renv \<Rightarrow> 'x hedge_env \<Rightarrow> string \<Rightarrow> request \<Rightarrow> int \<Rightarrow> string \<Rightarrow> request \<Rightarrow> int \<Rightarrow> deadline \<Rightarrow> real \<Rightarrow> 'x world
     \<Rightarrow> (hedge_end \<times> bool) \<times> 'x world" where
  "call_hedged E H p preq pattempts q qreq qattempts dl delay w =
     (case hv_first H p delay (hv_start H p preq dl pattempts w) of
        (WaitCancelled, w) \<Rightarrow> ((HedgeCancelled, False), w)
      | (Woken ds, w) \<Rightarrow>
          ((case ds of [] \<Rightarrow> HedgeCancelled | (n, r) # _ \<Rightarrow> leg_end p r, False), w)
      | (DelayOver, w) \<Rightarrow>
          (case enter_breaker E q w of
             (False, w) \<Rightarrow> (case hv_await H p w of (r, w) \<Rightarrow> ((leg_end p r, False), w))
           | (True, w) \<Rightarrow>
               (let w = hv_start H q qreq dl qattempts w;
                    w = on_router (\<lambda>r. r\<lparr>ro_hedge_count := ro_hedge_count r + 1\<rparr>) w
                in case hedge_race H p q 2 [p, q] [] w of (e, w) \<Rightarrow> ((e, True), w))))"

section \<open>The loop with hedging\<close>

definition count_failover_to :: "(string \<times> request) list \<Rightarrow> 'x world \<Rightarrow> 'x world" where
  "count_failover_to rest w = count_failover (rest = []) w"

text \<open>An answer: cached, marked with the failures before it and whether a hedge was started, and recorded.\<close>

definition answered_by ::
  "'x renv \<Rightarrow> string \<Rightarrow> request \<Rightarrow> completion \<Rightarrow> (string \<times> error_kind) list \<Rightarrow> bool \<Rightarrow> 'x world \<Rightarrow> route_result \<times> 'x world" where
  "answered_by E n req resp failures hedged w =
     (let w = cache_response E n req resp w;
          resp = (if failures \<noteq> [] then resp\<lparr>co_failed_over_from := Some (map fst failures)\<rparr> else resp);
          resp = (if hedged then resp\<lparr>co_hedged := True\<rparr> else resp);
          w = on_router (note_success (now_of E w) n (co_cost_usd resp) (co_latency_ms resp)) w;
          w = on_router (record_usage n (co_model resp) (Some (co_latency_ms resp))
                (co_input_tokens resp) (co_output_tokens resp)) w
      in (Answer resp failures, w))"

definition gives_up :: "'x renv \<Rightarrow> exn \<Rightarrow> 'x world \<Rightarrow> bool" where
  "gives_up E e w \<longleftrightarrow>
     ei_kind (classify (wall_of E w) e) = DEADLINE
     \<or> \<not> (cf_enable_failover (ro_config (wd_router w)) \<and> failover (classify (wall_of E w) e))"

definition kinds_of_errors :: "'x renv \<Rightarrow> (string \<times> exn) list \<Rightarrow> 'x world \<Rightarrow> (string \<times> error_kind) list" where
  "kinds_of_errors E errors w = map (\<lambda>(n, e). (n, ei_kind (classify (wall_of E w) e))) errors"

text \<open>
  The loop of \<open>route\<close> over the candidates that are left. \<open>delay\<close> is the hedge delay, if any; the partner is the next
  candidate. Its request is used when it wins.
\<close>

fun hedged_loop ::
  "'x renv \<Rightarrow> 'x hedge_env \<Rightarrow> deadline \<Rightarrow> real option \<Rightarrow> bool \<Rightarrow> (string \<times> request) list \<Rightarrow> (string \<times> error_kind) list \<Rightarrow>
     exn option \<Rightarrow> string list \<Rightarrow> 'x world \<Rightarrow> route_result \<times> 'x world" where
  "hedged_loop E H dl delay single [] failures lst skp w =
     (case (single, lst) of
        (True, Some e) \<Rightarrow> (Raised e, w)
      | _ \<Rightarrow> (Unavailable failures (soonest_retry_after (now_of E w) (wd_router w)), w))"
| "hedged_loop E H dl delay single ((n, req) # rest) failures lst skp w =
     (if n \<in> set skp then hedged_loop E H dl delay single rest failures lst skp w
      else case enter_breaker E n w of
        (False, w) \<Rightarrow>
          hedged_loop E H dl delay single rest (failures @ [(n, CIRCUIT_OPEN)])
            (Some (CircuitOpenError n (breaker_retry_after E n w))) skp w
      | (True, w) \<Rightarrow>
          (let attempts = attempts_for (wd_router w) (rest = []);
               failed = (\<lambda>e w. let failures = failures @ [(n, ei_kind (classify (wall_of E w) e))]
                               in if gives_up E e w then (Raised e, w)
                                  else hedged_loop E H dl delay single rest failures (Some e) skp (count_failover_to rest w))
           in case (delay, rest) of
                (Some d, (q, qreq) # rest2) \<Rightarrow>
                  (if q \<in> set skp \<or> q = n
                   then (case call_provider E n req dl attempts w of
                           (Cancel, w) \<Rightarrow> (Cancelled, w)
                         | (Exc e, w) \<Rightarrow> failed e w
                         | (Ret resp, w) \<Rightarrow> answered_by E n req resp failures (skp \<noteq> []) w)
                   else case call_hedged E H n req attempts q qreq (attempts_for (wd_router w) (rest2 = [])) dl d w of
                       ((HedgeWon m resp, h), w) \<Rightarrow>
                         answered_by E m (if m = q then qreq else req) resp failures (h \<or> skp \<noteq> []) w
                     | ((LegRaised e, h), w) \<Rightarrow> failed e w
                     | ((BothFailed errors, h), w) \<Rightarrow>
                         (let failures = failures @ kinds_of_errors E errors w in
                          case map_of errors n of
                            None \<Rightarrow> (Hedging d ((n, req) # rest), w)
                          | Some e \<Rightarrow>
                              (if list_ex (\<lambda>(m, x). ei_kind (classify (wall_of E w) x) = DEADLINE) errors \<or> gives_up E e w
                               then (Raised e, w)
                               else hedged_loop E H dl delay single rest failures (Some e) (q # skp) (count_failover_to rest w)))
                     | ((HedgeCancelled, h), w) \<Rightarrow> (Cancelled, w)
                     | ((StillRacing, h), w) \<Rightarrow> (Hedging d ((n, req) # rest), w))
              | _ \<Rightarrow>
                  (case call_provider E n req dl attempts w of
                     (Cancel, w) \<Rightarrow> (Cancelled, w)
                   | (Exc e, w) \<Rightarrow> failed e w
                   | (Ret resp, w) \<Rightarrow> answered_by E n req resp failures (skp \<noteq> []) w)))"

definition route_planned_hedging ::
  "'x renv \<Rightarrow> 'x hedge_env \<Rightarrow> request \<Rightarrow> string option \<Rightarrow> real option \<Rightarrow> policy_set option \<Rightarrow> 'x world \<Rightarrow>
     route_result \<times> 'x world" where
  "route_planned_hedging E H q preferred deadline_seconds pset w =
     (case validate_conversation (rq_messages q) of
        Inl e \<Rightarrow> (NotPlanned (BadConversation e), w)
      | Inr _ \<Rightarrow>
          (let dl = new_deadline (case deadline_seconds of Some s \<Rightarrow> Some s
                      | None \<Rightarrow> cf_deadline_seconds (ro_config (wd_router w))) (now_of E w)
           in case screen (now_of E w) pset (re_budget E w) q preferred (wd_router w) of
                (Inl e, r) \<Rightarrow> (NotPlanned e, w\<lparr>wd_router := r\<rparr>)
              | (Inr cands, r) \<Rightarrow>
                  (case cache_lookup E (fst (hd cands)) q (snd (hd cands)) (w\<lparr>wd_router := r\<rparr>) of
                     (Some hit, w) \<Rightarrow> (Answer hit [], w)
                   | (None, w) \<Rightarrow>
                       (case hedge_delay pset q preferred (wd_router w) of
                          Inl e \<Rightarrow> (NotPlanned e, w)
                        | Inr delay \<Rightarrow> hedged_loop E H dl delay (length cands = 1) cands [] None [] w))))"

definition route_hedging ::
  "'x renv \<Rightarrow> 'x hedge_env \<Rightarrow> request \<Rightarrow> string option \<Rightarrow> real option \<Rightarrow> 'x world \<Rightarrow> route_result \<times> 'x world" where
  "route_hedging E H q preferred deadline_seconds w =
     (let w = on_router (\<lambda>r. r\<lparr>ro_request_count := ro_request_count r + 1\<rparr>) w;
          pset = re_policies E w;
          q = resolve_alias pset (wd_router w) q
      in case preferred of
           Some n \<Rightarrow>
             (if \<not> od_has (ro_providers (wd_router w)) n then (NotPlanned (ProviderUnavailable n), w)
              else route_planned_hedging E H q preferred deadline_seconds pset w)
         | None \<Rightarrow> route_planned_hedging E H q preferred deadline_seconds pset w)"

section \<open>Without a partner hedging changes nothing\<close>

lemma hedged_loop_plain:
  assumes "delay = None \<or> length cands \<le> 1"
  shows "hedged_loop E H dl delay single cands failures lst [] w = route_loop E dl single cands failures lst w"
  using assms
proof (induction cands arbitrary: failures lst w)
  case (Cons c rest)
  obtain n req where c: "c = (n, req)" by (cases c)
  have IH: "hedged_loop E H dl delay single rest fs l [] v = route_loop E dl single rest fs l v" for fs l v
    using Cons.IH [of fs l v] Cons.prems by auto
  show ?case
  proof (cases delay)
    case None
    show ?thesis
      unfolding c hedged_loop.simps(2) route_loop.simps(2) IH None
      by (auto simp: IH [unfolded None] answered_by_def gives_up_def count_failover_to_def Let_def
          simp del: hedged_loop.simps route_loop.simps split: prod.split bool.split outcome.split)
  next
    case (Some d)
    then have "rest = []" using Cons.prems by simp
    then show ?thesis
      by (auto simp: c Some answered_by_def gives_up_def count_failover_to_def Let_def
          split: prod.split bool.split outcome.split)
  qed
qed simp

lemma route_hedging_plain:
  assumes "\<And>s cs. fst (route E q preferred ds w) \<noteq> Hedging s cs"
  shows "route_hedging E H q preferred ds w = route E q preferred ds w"
proof -
  have "route_planned_hedging E H q preferred ds pset w = route_planned E q preferred ds pset w"
    if no: "\<And>s cs. fst (route_planned E q preferred ds pset w) \<noteq> Hedging s cs" for q pset w
  proof -
    let ?dl = "new_deadline (case ds of Some s \<Rightarrow> Some s | None \<Rightarrow> cf_deadline_seconds (ro_config (wd_router w))) (now_of E w)"
    show ?thesis
    proof (cases "validate_conversation (rq_messages q)")
      case (Inr u)
      obtain x r where sc: "screen (now_of E w) pset (re_budget E w) q preferred (wd_router w) = (x, r)" by fastforce
      show ?thesis
      proof (cases x)
        case (Inr cands)
        obtain hit w1 where cl: "cache_lookup E (fst (hd cands)) q (snd (hd cands)) (w\<lparr>wd_router := r\<rparr>) = (hit, w1)" by fastforce
        note here = \<open>validate_conversation (rq_messages q) = Inr u\<close> sc Inr cl
        show ?thesis
        proof (cases hit)
          case None
          show ?thesis
          proof (cases "hedge_delay pset q preferred (wd_router w1)")
            case hd: (Inr delay)
            have "delay = None \<or> length cands \<le> 1"
            proof (cases delay)
              case (Some d)
              then show ?thesis
                using no [of d cands] here None hd by (cases "Suc 0 < length cands") (auto simp: route_planned_def Let_def)
            qed simp
            moreover have "cands \<noteq> []" using screen_facts [OF sc [unfolded Inr]] by blast
            then have "length cands \<le> 1 \<Longrightarrow> length cands = 1" by (cases cands) auto
            ultimately show ?thesis
              using here None hd hedged_loop_plain [of delay cands E H ?dl "length cands = 1" "[]" None w1]
              by (cases delay) (auto simp: route_planned_def route_planned_hedging_def Let_def)
          qed (use here None in \<open>simp add: route_planned_def route_planned_hedging_def Let_def\<close>)
        qed (use here in \<open>simp add: route_planned_def route_planned_hedging_def Let_def\<close>)
      qed (use \<open>validate_conversation (rq_messages q) = Inr u\<close> sc in \<open>simp add: route_planned_def route_planned_hedging_def Let_def\<close>)
    qed (simp add: route_planned_def route_planned_hedging_def)
  qed
  note plain = this
  define w0 where "w0 = on_router (\<lambda>r. r\<lparr>ro_request_count := ro_request_count r + 1\<rparr>) w"
  define q0 where "q0 = resolve_alias (re_policies E w0) (wd_router w0) q"
  have r: "route E q preferred ds w =
      (case preferred of Some n \<Rightarrow> if \<not> od_has (ro_providers (wd_router w0)) n then (NotPlanned (ProviderUnavailable n), w0)
         else route_planned E q0 preferred ds (re_policies E w0) w0
       | None \<Rightarrow> route_planned E q0 preferred ds (re_policies E w0) w0)"
    by (cases preferred) (simp_all add: route_def w0_def q0_def Let_def)
  have h: "route_hedging E H q preferred ds w =
      (case preferred of Some n \<Rightarrow> if \<not> od_has (ro_providers (wd_router w0)) n then (NotPlanned (ProviderUnavailable n), w0)
         else route_planned_hedging E H q0 preferred ds (re_policies E w0) w0
       | None \<Rightarrow> route_planned_hedging E H q0 preferred ds (re_policies E w0) w0)"
    by (cases preferred) (simp_all add: route_hedging_def w0_def q0_def Let_def)
  show ?thesis
  proof (cases preferred)
    case None
    then show ?thesis using assms plain [of q0 "re_policies E w0" w0] unfolding r h by simp
  next
    case (Some a)
    show ?thesis
    proof (cases "od_has (ro_providers (wd_router w0)) a")
      case True
      then have "route E q preferred ds w = route_planned E q0 preferred ds (re_policies E w0) w0"
        "route_hedging E H q preferred ds w = route_planned_hedging E H q0 preferred ds (re_policies E w0) w0"
        unfolding r h by (simp_all add: Some)
      then show ?thesis using assms plain [of q0 "re_policies E w0" w0] by simp
    next
      case False
      then show ?thesis unfolding r h by (simp add: Some)
    qed
  qed
qed

section \<open>No leg is left running\<close>

text \<open>What asyncio promises of the two tasks: a finished, awaited or cancelled one no longer runs, and none starts by itself.\<close>

definition orderly :: "'x hedge_env \<Rightarrow> bool" where
  "orderly H \<longleftrightarrow>
     (\<forall>n q dl a w m. hv_alive H m (hv_start H n q dl a w) \<longrightarrow> m = n \<or> hv_alive H m w)
   \<and> (\<forall>n t w m. hv_alive H m (snd (hv_first H n t w)) \<longrightarrow> hv_alive H m w)
   \<and> (\<forall>n t w ds. fst (hv_first H n t w) = Woken ds \<longrightarrow> \<not> hv_alive H n (snd (hv_first H n t w)))
   \<and> (\<forall>ns w m. hv_alive H m (snd (hv_wait H ns w)) \<longrightarrow> hv_alive H m w)
   \<and> (\<forall>ns w ds. ns \<noteq> [] \<longrightarrow> fst (hv_wait H ns w) = Some ds \<longrightarrow>
        ds \<noteq> [] \<and> set (map fst ds) \<subseteq> set ns \<and> distinct (map fst ds)
        \<and> (\<forall>m \<in> set (map fst ds). \<not> hv_alive H m (snd (hv_wait H ns w))))
   \<and> (\<forall>n w m. hv_alive H m (snd (hv_await H n w)) \<longrightarrow> m \<noteq> n \<and> hv_alive H m w)
   \<and> (\<forall>ns w m. hv_alive H m (hv_cancel H ns w) \<longrightarrow> m \<notin> set ns \<and> hv_alive H m w)
   \<and> (\<forall>ns w m. \<not> fst (hv_drop H ns w) \<longrightarrow> hv_alive H m (snd (hv_drop H ns w)) \<longrightarrow> m \<notin> set ns \<and> hv_alive H m w)
   \<and> (\<forall>m w r. hv_alive H m (w\<lparr>wd_router := r\<rparr>) = hv_alive H m w)"

lemma orderlyD:
  assumes "orderly H"
  shows "hv_alive H m (hv_start H n q dl a w) \<Longrightarrow> m = n \<or> hv_alive H m w"
    and "hv_first H n t w = (x, w') \<Longrightarrow> hv_alive H m w' \<Longrightarrow> hv_alive H m w"
    and "hv_first H n t w = (Woken ds, w') \<Longrightarrow> \<not> hv_alive H n w'"
    and "hv_wait H ns w = (y, w') \<Longrightarrow> hv_alive H m w' \<Longrightarrow> hv_alive H m w"
    and "hv_wait H ns w = (Some es, w') \<Longrightarrow> ns \<noteq> [] \<Longrightarrow> es \<noteq> [] \<and> set (map fst es) \<subseteq> set ns \<and> distinct (map fst es)"
    and "hv_wait H ns w = (Some es, w') \<Longrightarrow> ns \<noteq> [] \<Longrightarrow> m \<in> set (map fst es) \<Longrightarrow> \<not> hv_alive H m w'"
    and "hv_await H n w = (r, w') \<Longrightarrow> hv_alive H m w' \<Longrightarrow> m \<noteq> n \<and> hv_alive H m w"
    and "hv_alive H m (hv_cancel H ns w) \<Longrightarrow> m \<notin> set ns \<and> hv_alive H m w"
    and "hv_alive H m (w\<lparr>wd_router := rr\<rparr>) = hv_alive H m w"
    and "hv_drop H ns w = (False, w') \<Longrightarrow> hv_alive H m w' \<Longrightarrow> m \<notin> set ns \<and> hv_alive H m w"
  using assms unfolding orderly_def by (metis fst_conv snd_conv)+

lemma alive_on_router [simp]:
  assumes "orderly H"
  shows "hv_alive H m (on_router f w) = hv_alive H m w"
  unfolding on_router_def by (rule orderlyD(9) [OF assms])

lemma scan_done_cases:
  "scan_done ds errors = Winner n resp \<Longrightarrow> (n, Ret resp) \<in> set ds"
  "scan_done ds errors = NoneYet errors' \<Longrightarrow> map fst errors' = map fst errors @ map fst ds"
proof (induction ds arbitrary: errors)
  case (Cons d ds)
  { case 1 then show ?case using Cons.IH(1) by (cases d; cases "snd d") auto }
  { case 2 then show ?case using Cons.IH(2) by (cases d; cases "snd d") auto }
qed simp_all

lemma race_ends:
  assumes H: "orderly H" and "hedge_race H p q k pending errors w = (e, w')"
    and "length pending \<le> k" "set pending \<subseteq> {p, q}"
    and "\<And>m. m \<in> {p, q} \<Longrightarrow> hv_alive H m w \<Longrightarrow> m \<in> set pending"
    and "set (map fst errors) \<union> set pending = {p, q}"
  shows "e \<noteq> StillRacing \<and> \<not> hv_alive H p w' \<and> \<not> hv_alive H q w'
    \<and> (\<forall>es. e = BothFailed es \<longrightarrow> set (map fst es) = {p, q}) \<and> (\<forall>m resp. e = HedgeWon m resp \<longrightarrow> m \<in> {p, q})"
  using assms(2-)
proof (induction k arbitrary: pending errors w)
  case 0
  then have "pending = []" by simp
  with 0 show ?case by auto
next
  case (Suc k)
  show ?case
  proof (cases pending)
    case Nil
    with Suc.prems show ?thesis by auto
  next
    case (Cons n ns)
    obtain y w1 where y: "hv_wait H (n # ns) w = (y, w1)" by fastforce
    show ?thesis
    proof (cases y)
      case None
      then have "e = HedgeCancelled" "w' = hv_cancel H [p, q] w1" using Suc.prems(1) Cons y by auto
      then show ?thesis using orderlyD(8) [OF H, of _ "[p, q]" w1] by auto
    next
      case (Some ds)
      let ?rest = "filter (\<lambda>m. m \<notin> set (map fst ds)) pending"
      have d: "ds \<noteq> []" "set (map fst ds) \<subseteq> set pending" "distinct (map fst ds)"
        using orderlyD(5) [OF H y [unfolded Some]] Cons by auto
      have dead: "m \<in> {p, q} \<Longrightarrow> hv_alive H m w1 \<Longrightarrow> m \<in> set ?rest" for m
        using orderlyD(4) [OF H y] orderlyD(6) [OF H y [unfolded Some]] Suc.prems(4) by auto
      show ?thesis
      proof (cases "scan_done ds errors")
        case (Winner m resp)
        have m: "m \<in> {p, q}" using scan_done_cases(1) [OF Winner] d(2) Suc.prems(3) by force
        obtain gone w2 where drop: "hv_drop H ?rest w1 = (gone, w2)" by fastforce
        show ?thesis
        proof (cases gone)
          case True
          then have "e = HedgeCancelled" "w' = hv_cancel H [p, q] w2"
            using Suc.prems(1) Cons y Some Winner drop by (auto simp: Let_def)
          then show ?thesis using orderlyD(8) [OF H, of _ "[p, q]" w2] by auto
        next
          case False
          have "\<not> hv_alive H x w2" if "x \<in> {p, q}" for x
            using orderlyD(10) [OF H, of ?rest w1 w2 x] drop dead [OF that] False by auto
          then show ?thesis using m Suc.prems(1) Cons y Some Winner H drop False
            by (auto simp: Let_def split: if_splits)
        qed
      next
        case LegWasCancelled
        then have "e = HedgeCancelled" "w' = hv_cancel H [p, q] w1" using Suc.prems(1) Cons y Some by (auto simp: Let_def)
        then show ?thesis using orderlyD(8) [OF H, of _ "[p, q]" w1] by auto
      next
        case (NoneYet errors')
        have shorter: "length ?rest < length pending"
          using d(1,2) by (cases ds) (auto intro!: length_filter_less)
        show ?thesis
        proof (rule Suc.IH)
          show "hedge_race H p q k ?rest errors' w1 = (e, w')"
            using Suc.prems(1) Cons y Some NoneYet by (simp add: Let_def)
          show "length ?rest \<le> k" using shorter Suc.prems(2) by simp
          show "set ?rest \<subseteq> {p, q}" using Suc.prems(3) by auto
          show "m \<in> set ?rest" if "m \<in> {p, q}" "hv_alive H m w1" for m using dead [OF that] .
          show "set (map fst errors') \<union> set ?rest = {p, q}"
            using scan_done_cases(2) [OF NoneYet] d(2) Suc.prems(5) by auto
        qed
      qed
    qed
  qed
qed

text \<open>
  C16. \<^bold>\<open>Hedging leaves no call behind.\<close> Once both legs may run, a hedged call returns with neither of them running: the loser of the race is cancelled, and so
  are both when the request is, also when that happens while the loser is being waited for. Only a request that is cancelled while it waits for the delay leaves a leg behind, the
  first call, which nobody awaits or cancels.
\<close>

theorem hedge_leaves_no_leg:
  assumes "orderly H" "p \<noteq> q" "\<not> hv_alive H p w" "\<not> hv_alive H q w"
    and "call_hedged E H p preq pattempts q qreq qattempts dl delay w = ((e, started), w')"
  shows "e \<noteq> StillRacing \<and> \<not> hv_alive H q w'
    \<and> (hv_alive H p w' \<longrightarrow> e = HedgeCancelled \<and> \<not> started)
    \<and> (case e of HedgeWon m resp \<Rightarrow> m = p \<or> (m = q \<and> started)
               | BothFailed es \<Rightarrow> set (map fst es) = {p, q} \<and> started | _ \<Rightarrow> True)"
proof -
  note H = assms(1)
  let ?w0 = "hv_start H p preq dl pattempts w"
  obtain x w1 where x: "hv_first H p delay ?w0 = (x, w1)" by fastforce
  have q0: "\<not> hv_alive H q ?w0" using orderlyD(1) [OF H] assms(2,4) by blast
  have q1: "\<not> hv_alive H q w1" using orderlyD(2) [OF H x] q0 by blast
  have le: "leg_end p r = HedgeWon m resp \<Longrightarrow> m = p" "leg_end p r \<noteq> BothFailed es" "leg_end p r \<noteq> StillRacing" for r m resp es
    by (cases r; simp add: leg_end_def)+
  show ?thesis
  proof (cases x)
    case WaitCancelled
    then show ?thesis using assms(5) x q1 by (auto simp: call_hedged_def)
  next
    case (Woken ds)
    then have "\<not> hv_alive H p w1" using orderlyD(3) [OF H x [unfolded Woken]] by simp
    then show ?thesis using assms(5) x q1 Woken
      by (auto simp: call_hedged_def le dest: le(1) split: list.splits prod.splits hedge_end.splits)
  next
    case DelayOver
    obtain ok w2 where ok: "enter_breaker E q w1 = (ok, w2)" by fastforce
    have same: "hv_alive H m w2 = hv_alive H m w1" for m
      using ok H by (auto simp: enter_breaker_def on_breaker_def split: option.splits prod.splits)
    show ?thesis
    proof (cases ok)
      case False
      obtain r w3 where r: "hv_await H p w2 = (r, w3)" by fastforce
      then have "\<not> hv_alive H p w3" "\<not> hv_alive H q w3" using orderlyD(7) [OF H r] q1 same by blast+
      then show ?thesis using assms(5) x DelayOver ok False r
        by (auto simp: call_hedged_def le dest: le(1) split: hedge_end.splits)
    next
      case True
      let ?w3 = "on_router (\<lambda>r. r\<lparr>ro_hedge_count := ro_hedge_count r + 1\<rparr>) (hv_start H q qreq dl qattempts w2)"
      obtain f w4 where race: "hedge_race H p q 2 [p, q] [] ?w3 = (f, w4)" by fastforce
      have e: "e = f" "started" "w' = w4"
        using assms(5) x DelayOver ok True race by (auto simp: call_hedged_def Let_def)
      have "f \<noteq> StillRacing \<and> \<not> hv_alive H p w4 \<and> \<not> hv_alive H q w4
          \<and> (\<forall>es. f = BothFailed es \<longrightarrow> set (map fst es) = {p, q}) \<and> (\<forall>m resp. f = HedgeWon m resp \<longrightarrow> m \<in> {p, q})"
        by (rule race_ends [OF H race]) auto
      then show ?thesis using e by (cases f) auto
    qed
  qed
qed

text \<open>A world whose rest is the list of running legs, where the delay passes or the request is cancelled during it.\<close>

definition legs_env :: "bool \<Rightarrow> string list hedge_env" where
  "legs_env patient =
     \<lparr> hv_start = (\<lambda>n q dl a w. w\<lparr>wd_ext := n # wd_ext w\<rparr>),
       hv_first = (\<lambda>n t w. (if patient then DelayOver else WaitCancelled, w)),
       hv_wait = (\<lambda>ns w. (Some [(hd ns, Ret sample_answer)], w\<lparr>wd_ext := filter (\<lambda>m. m \<noteq> hd ns) (wd_ext w)\<rparr>)),
       hv_await = (\<lambda>n w. (Ret sample_answer, w\<lparr>wd_ext := filter (\<lambda>m. m \<noteq> n) (wd_ext w)\<rparr>)),
       hv_drop = (\<lambda>ns w. (False, w\<lparr>wd_ext := filter (\<lambda>m. m \<notin> set ns) (wd_ext w)\<rparr>)),
       hv_cancel = (\<lambda>ns w. w\<lparr>wd_ext := filter (\<lambda>m. m \<notin> set ns) (wd_ext w)\<rparr>),
       hv_alive = (\<lambda>n w. n \<in> set (wd_ext w)) \<rparr>"

definition hedging_env :: "string list renv" where
  "hedging_env = \<lparr>re_env = \<lparr>clk = (\<lambda>w. 1), wall = (\<lambda>w. 1), slp = (\<lambda>d w. (Ret (), w)), rnd = (\<lambda>w. (1 / 2, w))\<rparr>,
     re_complete = (\<lambda>n q t w. (Ret sample_answer, w)), re_embed = (\<lambda>n t w. (Cancel, w)),
     re_slot = (\<lambda>n w t L. (Ret True, 1, L)), re_wait = (\<lambda>n w t L. (Ret (), 1, L)),
     re_pass = (\<lambda>t w. w), re_policies = (\<lambda>w. None), re_budget = (\<lambda>w. None), re_digest = (\<lambda>m x. ''d'')\<rparr>"

definition legs_world :: "string list world" where
  "legs_world = \<lparr>wd_router = two_providers, wd_ext = []\<rparr>"

lemma legs_orderly: "orderly (legs_env patient)"
  by (auto simp: orderly_def legs_env_def)

theorem hedge_leaves_no_leg_witness:
  "\<exists>e w'. call_hedged hedging_env (legs_env True) ''cloud'' plain_request 1 ''box'' plain_request 1 None 2 legs_world = ((e, True), w')
    \<and> e = HedgeWon ''cloud'' sample_answer \<and> \<not> hv_alive (legs_env True) ''cloud'' w' \<and> \<not> hv_alive (legs_env True) ''box'' w'"
proof -
  obtain w' where r: "call_hedged hedging_env (legs_env True) ''cloud'' plain_request 1 ''box'' plain_request 1 None 2 legs_world
      = ((HedgeWon ''cloud'' sample_answer, True), w')"
    by (simp add: call_hedged_def legs_env_def hedging_env_def legs_world_def enter_breaker_def sample_defs breaker_defs
        now_of_def on_breaker_def on_router_def od_map_at_def eval_nat_numeral Let_def)
  have "\<not> hv_alive (legs_env True) n legs_world" for n by (simp add: legs_env_def legs_world_def)
  then show ?thesis using hedge_leaves_no_leg [OF legs_orderly _ _ _ r] r by auto
qed

text \<open>
  The first call outlives a request that is cancelled during the delay: it goes on at the provider, holding its slot, and
  its answer is dropped.
\<close>

lemma cancelled_hedge_orphans_call:
  "\<exists>w'. call_hedged hedging_env (legs_env False) ''cloud'' plain_request 1 ''box'' plain_request 1 None 2 legs_world
     = ((HedgeCancelled, False), w') \<and> hv_alive (legs_env False) ''cloud'' w'"
  by (simp add: call_hedged_def legs_env_def)

end
