(* ===== verification/Guardrails.thy ===== *)
theory Guardrails
  imports Triggers
begin

text \<open>
  \<open>guardrails/pii.py\<close>, \<open>guardrails/filters.py\<close> and \<open>guardrails/config.py\<close>: finding and redacting personal
  data and secrets, the filter of one text, and the policies of one caller. What the regular expressions
  of the rules match in a text (\<open>finditer\<close>, in its order) is the parameter \<open>gl_matches\<close>, and so are
  \<open>re.search\<close> without regard to case, whether a pattern compiles, and \<open>fnmatch.fnmatchcase\<close>.
\<close>

section \<open>Findings\<close>

record guard_lib =
  gl_matches :: "string \<Rightarrow> string \<Rightarrow> (nat \<times> nat) list"
  gl_search :: "string \<Rightarrow> string \<Rightarrow> bool"
  gl_compiles :: "string \<Rightarrow> bool"
  gl_fnmatch :: "string \<Rightarrow> string \<Rightarrow> bool"
  gl_repr :: "pyval \<Rightarrow> string"

record finding =
  fi_kind :: string
  fi_start :: nat
  fi_end :: nat

definition RULE_KINDS :: "string list" where
  "RULE_KINDS =
     [''private_key'', ''api_key'', ''aws_key'', ''github_token'', ''bearer'', ''jwt'', ''email'', ''ssn'',
      ''credit_card'', ''phone'', ''ipv4'']"

definition DEFAULT_KINDS :: "string list" where
  "DEFAULT_KINDS = filter (\<lambda>k. k \<noteq> ''ipv4'') RULE_KINDS"

text \<open>The Luhn sum from the right: every second digit is doubled, less nine when that exceeds nine.\<close>

fun luhn_sum :: "int list \<Rightarrow> bool \<Rightarrow> int" where
  "luhn_sum [] alt = 0"
| "luhn_sum (d # ds) alt =
     (if alt then (if d > 4 then d * 2 - 9 else d * 2) else d) + luhn_sum ds (\<not> alt)"

definition luhn :: "string \<Rightarrow> bool" where
  "luhn digits = (luhn_sum (map (\<lambda>c. the (digit_value c)) (rev digits)) False mod 10 = 0)"

definition is_card :: "string \<Rightarrow> bool" where
  "is_card s =
     (let d = filter (\<lambda>c. digit_value c \<noteq> None) s
      in 13 \<le> length d \<and> length d \<le> 19 \<and> luhn d)"

definition cut :: "nat \<Rightarrow> nat \<Rightarrow> string \<Rightarrow> string" where
  "cut a b s = take (b - a) (drop a s)"

text \<open>The validator of a rule: only card numbers have one.\<close>

definition rule_check :: "string \<Rightarrow> string \<Rightarrow> nat \<times> nat \<Rightarrow> bool" where
  "rule_check kind s m = (if kind = ''credit_card'' then is_card (cut (fst m) (snd m) s) else True)"

definition overlaps :: "nat \<times> nat \<Rightarrow> finding \<Rightarrow> bool" where
  "overlaps m f \<longleftrightarrow> fst m < fi_end f \<and> fi_start f < snd m"

text \<open>The matches of one rule: those that pass its validator and overlap no earlier finding.\<close>

definition add_match :: "string \<Rightarrow> string \<Rightarrow> nat \<times> nat \<Rightarrow> finding list \<Rightarrow> finding list" where
  "add_match s kind m found =
     (if \<not> rule_check kind s m \<or> list_ex (overlaps m) found then found
      else found @ [\<lparr> fi_kind = kind, fi_start = fst m, fi_end = snd m \<rparr>])"

fun add_matches :: "string \<Rightarrow> string \<Rightarrow> (nat \<times> nat) list \<Rightarrow> finding list \<Rightarrow> finding list" where
  "add_matches s kind [] found = found"
| "add_matches s kind (m # ms) found = add_matches s kind ms (add_match s kind m found)"

fun apply_rules :: "guard_lib \<Rightarrow> string \<Rightarrow> string list \<Rightarrow> string list \<Rightarrow> finding list \<Rightarrow> finding list" where
  "apply_rules G s kinds [] found = found"
| "apply_rules G s kinds (k # ks) found =
     apply_rules G s kinds ks (if k \<in> set kinds then add_matches s k (gl_matches G k s) found else found)"

definition detect :: "guard_lib \<Rightarrow> string \<Rightarrow> string list \<Rightarrow> finding list" where
  "detect G s kinds = sort_key fi_start (apply_rules G s kinds RULE_KINDS [])"

definition redaction_mark :: "string \<Rightarrow> string" where
  "redaction_mark kind = ''[REDACTED:'' @ kind @ '']''"

fun redact_loop :: "string \<Rightarrow> nat \<Rightarrow> finding list \<Rightarrow> string" where
  "redact_loop s pos [] = drop pos s"
| "redact_loop s pos (f # fs) = cut pos (fi_start f) s @ redaction_mark (fi_kind f) @ redact_loop s (fi_end f) fs"

definition redact :: "guard_lib \<Rightarrow> string \<Rightarrow> string list \<Rightarrow> string" where
  "redact G s kinds = (if s = [] then s else redact_loop s 0 (detect G s kinds))"

section \<open>Filters\<close>

definition SECRET_KINDS :: "string list" where
  "SECRET_KINDS = [''private_key'', ''api_key'', ''aws_key'', ''github_token'', ''bearer'', ''jwt'']"

record filter_policy =
  fp_redact_pii :: bool
  fp_block_secrets :: bool
  fp_blocked_topics :: "string list"
  fp_max_chars :: int

definition is_regex_topic :: "string \<Rightarrow> bool" where
  "is_regex_topic t \<longleftrightarrow> take 3 t = ''re:''"

text \<open>\<open>raw.get(k, default)\<close>.\<close>

definition opt_get :: "(string \<times> pyval) list \<Rightarrow> string \<Rightarrow> pyval \<Rightarrow> pyval" where
  "opt_get d k dflt = (case map_of d k of None \<Rightarrow> dflt | Some v \<Rightarrow> v)"

fun as_strings :: "pyval list \<Rightarrow> string list option" where
  "as_strings [] = Some []"
| "as_strings (PStr s # vs) = map_option ((#) s) (as_strings vs)"
| "as_strings (v # vs) = None"

text \<open>\<open>int(v)\<close>; \<open>None\<close> is the exception it raises.\<close>

fun int_of_pyval :: "pyval \<Rightarrow> int option" where
  "int_of_pyval (PInt n) = Some n"
| "int_of_pyval (PBool b) = Some (if b then 1 else 0)"
| "int_of_pyval (PFloat r) = Some (if r \<ge> 0 then \<lfloor>r\<rfloor> else \<lceil>r\<rceil>)"
| "int_of_pyval (PStr s) = py_int s"
| "int_of_pyval _ = None"

text \<open>\<open>FilterPolicy.from_dict\<close>; \<open>None\<close> stands for the exceptions of a malformed section.\<close>

definition policy_from_dict :: "guard_lib \<Rightarrow> pyval \<Rightarrow> filter_policy option" where
  "policy_from_dict G raw =
     (case (if falsy raw then PDict [] else raw) of
        PDict d \<Rightarrow>
          (let topics = opt_get d ''blocked_topics'' PNone;
               ts = (if falsy topics then Some []
                     else case topics of PList vs \<Rightarrow> as_strings vs | _ \<Rightarrow> None);
               mc = opt_get d ''max_chars'' (PInt 0)
           in case (ts, int_of_pyval (if falsy mc then PInt 0 else mc)) of
                (Some ts, Some n) \<Rightarrow>
                  (if list_all (\<lambda>t. is_regex_topic t \<longrightarrow> gl_compiles G (drop 3 t)) ts
                   then Some \<lparr> fp_redact_pii = \<not> falsy (opt_get d ''redact_pii'' (PBool True)),
                               fp_block_secrets = \<not> falsy (opt_get d ''block_secrets'' (PBool True)),
                               fp_blocked_topics = ts, fp_max_chars = n \<rparr>
                   else None)
              | _ \<Rightarrow> None)
      | _ \<Rightarrow> None)"

record filter_result =
  fr_allowed :: bool
  fr_text :: string
  fr_reasons :: "string list"

definition topic_hit :: "guard_lib \<Rightarrow> string \<Rightarrow> string \<Rightarrow> bool" where
  "topic_hit G s topic =
     (if is_regex_topic topic then gl_search G (drop 3 topic) s
      else str_in (str_lower topic) (str_lower s))"

text \<open>\<open>sorted({f.kind for f in ...})\<close>.\<close>

definition kinds_of :: "finding list \<Rightarrow> string list" where
  "kinds_of fs = sort (remdups (map fi_kind fs))"

definition show_int :: "int \<Rightarrow> string" where
  "show_int n = (if n < 0 then CHR ''-'' # show_nat (nat (- n)) else show_nat (nat n))"

definition apply_filter :: "guard_lib \<Rightarrow> string \<Rightarrow> filter_policy \<Rightarrow> filter_result" where
  "apply_filter G s p =
     (if fp_max_chars p \<noteq> 0 \<and> int (length s) > fp_max_chars p
      then \<lparr> fr_allowed = False, fr_text = s, fr_reasons = [''too_long:'' @ show_int (fp_max_chars p)] \<rparr>
      else
        let reasons = map (\<lambda>t. ''topic:'' @ t) (filter (topic_hit G s) (fp_blocked_topics p))
              @ (if fp_block_secrets p
                 then map (\<lambda>k. ''secret:'' @ k) (kinds_of (detect G s SECRET_KINDS)) else [])
        in if reasons \<noteq> [] then \<lparr> fr_allowed = False, fr_text = s, fr_reasons = reasons \<rparr>
           else if fp_redact_pii p \<and> detect G s DEFAULT_KINDS \<noteq> []
           then \<lparr> fr_allowed = True, fr_text = redact G s DEFAULT_KINDS,
                  fr_reasons = map (\<lambda>k. ''redacted:'' @ k) (kinds_of (detect G s DEFAULT_KINDS)) \<rparr>
           else \<lparr> fr_allowed = True, fr_text = s, fr_reasons = [] \<rparr>)"

section \<open>The policies of a caller\<close>

text \<open>
  \<open>raw\<close> is the parsed file, an empty mapping when there is none; it is read once and kept. The
  outer \<open>None\<close> is an exception, the inner one says that there is no policy.
\<close>

definition global_policy :: "guard_lib \<Rightarrow> (string \<times> pyval) list \<Rightarrow> string \<Rightarrow> filter_policy option option" where
  "global_policy G raw sec =
     (case map_of raw sec of None \<Rightarrow> Some None | Some v \<Rightarrow> map_option Some (policy_from_dict G v))"

text \<open>\<open>(raw.get("subjects") or {}).get(subject or "") or {}\<close>.\<close>

definition subject_section :: "(string \<times> pyval) list \<Rightarrow> string \<Rightarrow> pyval option" where
  "subject_section raw subject =
     (let subs = opt_get raw ''subjects'' PNone
      in case (if falsy subs then PDict [] else subs) of
           PDict d \<Rightarrow> (let v = opt_get d subject PNone in Some (if falsy v then PDict [] else v))
         | _ \<Rightarrow> None)"

text \<open>
  A section of the caller's own block replaces the global one. A block that is a list or a text is
  searched by \<open>in\<close> and cannot be indexed by a name.
\<close>

definition subject_policy ::
  "guard_lib \<Rightarrow> (string \<times> pyval) list \<Rightarrow> string \<Rightarrow> string \<Rightarrow> filter_policy option option" where
  "subject_policy G raw subject sec =
     (case (global_policy G raw ''input'', global_policy G raw ''output'', subject_section raw subject) of
        (Some i, Some ou, Some over) \<Rightarrow>
          (let base = (if sec = ''input'' then i else ou)
           in case over of
                PDict d \<Rightarrow> (case map_of d sec of
                             None \<Rightarrow> Some base | Some v \<Rightarrow> map_option Some (policy_from_dict G v))
              | PList vs \<Rightarrow> if PStr sec \<in> set vs then None else Some base
              | PStr t \<Rightarrow> if str_in sec t then None else Some base
              | _ \<Rightarrow> None)
      | _ \<Rightarrow> None)"

text \<open>\<open>for_subject\<close>: both policies, the input one first.\<close>

definition for_subject ::
  "guard_lib \<Rightarrow> (string \<times> pyval) list \<Rightarrow> string \<Rightarrow> (filter_policy option \<times> filter_policy option) option" where
  "for_subject G raw subject =
     (case subject_policy G raw subject ''input'' of
        None \<Rightarrow> None
      | Some i \<Rightarrow> (case subject_policy G raw subject ''output'' of None \<Rightarrow> None | Some ou \<Rightarrow> Some (i, ou)))"

text \<open>\<open>model_allowed\<close>: iterating a text gives its characters, iterating a mapping its keys.\<close>

definition model_allowed :: "guard_lib \<Rightarrow> (string \<times> pyval) list \<Rightarrow> string \<Rightarrow> string \<Rightarrow> bool option" where
  "model_allowed G raw subject model =
     (case subject_section raw subject of
        Some (PDict d) \<Rightarrow>
          (case opt_get d ''allowed_models'' PNone of
             PNone \<Rightarrow> Some True
           | PList ps \<Rightarrow> Some (list_ex (\<lambda>p. gl_fnmatch G model (py_str (gl_repr G) p)) ps)
           | PStr s \<Rightarrow> Some (list_ex (\<lambda>c. gl_fnmatch G model [c]) s)
           | PDict e \<Rightarrow> Some (list_ex (gl_fnmatch G model) (map fst e))
           | _ \<Rightarrow> None)
      | _ \<Rightarrow> None)"

section \<open>What detection finds\<close>

text \<open>The regular expressions match non-empty parts of the text.\<close>

definition spans_ok :: "guard_lib \<Rightarrow> string \<Rightarrow> bool" where
  "spans_ok G s \<longleftrightarrow> list_all (\<lambda>k. list_all (\<lambda>(a, b). a < b \<and> b \<le> length s) (gl_matches G k s)) RULE_KINDS"

definition apart :: "finding \<Rightarrow> finding \<Rightarrow> bool" where
  "apart f g \<longleftrightarrow> fi_end f \<le> fi_start g \<or> fi_end g \<le> fi_start f"

text \<open>What holds of the findings while the rules run.\<close>

definition findings_ok :: "string \<Rightarrow> finding list \<Rightarrow> bool" where
  "findings_ok s fs \<longleftrightarrow> sorted_wrt apart fs \<and> list_all (\<lambda>f. fi_start f < fi_end f \<and> fi_end f \<le> length s) fs"

lemma add_matches_ok:
  assumes "findings_ok s found" "list_all (\<lambda>(a, b). a < b \<and> b \<le> length s) ms"
  shows "findings_ok s (add_matches s k ms found)"
  using assms
proof (induction ms arbitrary: found)
  case Nil
  then show ?case by simp
next
  case (Cons m ms)
  have "findings_ok s (add_match s k m found)"
    using Cons.prems
    by (auto simp: add_match_def findings_ok_def sorted_wrt_append list_ex_iff overlaps_def apart_def
        split: prod.splits)
  then show ?case using Cons by simp
qed

lemma add_match_keeps: "set found \<subseteq> set (add_match s k m found)"
  by (auto simp: add_match_def)

lemma add_matches_keeps: "set found \<subseteq> set (add_matches s k ms found)"
proof (induction ms arbitrary: found)
  case (Cons m ms)
  show ?case using add_match_keeps [of found s k m] Cons [of "add_match s k m found"] by auto
qed simp

lemma add_matches_covers:
  "m \<in> set ms \<Longrightarrow> fst m < snd m \<Longrightarrow> rule_check k s m \<Longrightarrow> list_ex (overlaps m) (add_matches s k ms found)"
proof (induction ms arbitrary: found)
  case (Cons x ms)
  show ?case
  proof (cases "x = m")
    case True
    then have "list_ex (overlaps m) (add_match s k x found)"
      using Cons.prems by (auto simp: overlaps_def add_match_def)
    then show ?thesis
      using add_matches_keeps [of "add_match s k x found" s k ms] by (auto simp: list_ex_iff)
  next
    case False
    then show ?thesis using Cons by simp
  qed
qed simp

lemma apply_rules_ok:
  assumes "list_all (\<lambda>k. list_all (\<lambda>(a, b). a < b \<and> b \<le> length s) (gl_matches G k s)) ks" "findings_ok s found"
  shows "findings_ok s (apply_rules G s kinds ks found)"
  using assms by (induction ks arbitrary: found) (simp_all add: add_matches_ok)

lemma apply_rules_keeps: "set found \<subseteq> set (apply_rules G s kinds ks found)"
proof (induction ks arbitrary: found)
  case (Cons k ks)
  show ?case
    using Cons [of found] Cons [of "add_matches s k (gl_matches G k s) found"]
      add_matches_keeps [of found s k "gl_matches G k s"] by auto
qed simp

lemma apply_rules_covers:
  "k \<in> set ks \<Longrightarrow> k \<in> set kinds \<Longrightarrow> m \<in> set (gl_matches G k s) \<Longrightarrow> fst m < snd m \<Longrightarrow> rule_check k s m \<Longrightarrow>
   list_ex (overlaps m) (apply_rules G s kinds ks found)"
proof (induction ks arbitrary: found)
  case (Cons k' ks)
  show ?case
  proof (cases "k' = k")
    case True
    then show ?thesis
      using Cons.prems add_matches_covers [of m "gl_matches G k s" k s found]
        apply_rules_keeps [of "add_matches s k (gl_matches G k s) found" G s kinds ks]
      by (auto simp: list_ex_iff)
  next
    case False
    then show ?thesis using Cons by simp
  qed
qed simp

text \<open>Sorted by their starts, findings that are apart follow one another.\<close>

lemma apart_sym: "apart f g \<Longrightarrow> apart g f"
  by (auto simp: apart_def)

lemma sorted_wrt_apart_insort:
  "sorted_wrt apart (insort_key k x xs) \<longleftrightarrow> (\<forall>y \<in> set xs. apart x y) \<and> sorted_wrt apart xs"
  by (induction xs) (auto simp: set_insort_key dest: apart_sym)

lemma sorted_wrt_apart_sort: "sorted_wrt apart (sort_key k xs) \<longleftrightarrow> sorted_wrt apart xs"
  by (induction xs) (simp_all add: sorted_wrt_apart_insort)

lemma apart_in_order:
  "sorted (map fi_start fs) \<Longrightarrow> sorted_wrt apart fs \<Longrightarrow> \<forall>f \<in> set fs. fi_start f < fi_end f \<Longrightarrow>
   sorted_wrt (\<lambda>f g. fi_end f \<le> fi_start g) fs"
proof (induction fs)
  case (Cons f fs)
  have "fi_end f \<le> fi_start g" if "g \<in> set fs" for g
  proof -
    have "apart f g" "fi_start f \<le> fi_start g" "fi_start g < fi_end g" using Cons.prems that by auto
    then show ?thesis by (auto simp: apart_def)
  qed
  then show ?case using Cons by simp
qed simp

lemma detect_findings_ok:
  assumes "spans_ok G s"
  shows "findings_ok s (apply_rules G s kinds RULE_KINDS [])"
  using apply_rules_ok [of s G RULE_KINDS "[]"] assms by (simp add: spans_ok_def findings_ok_def)

lemma detect_inside:
  assumes "spans_ok G s"
  shows "\<forall>f \<in> set (detect G s kinds). fi_start f < fi_end f \<and> fi_end f \<le> length s"
  using detect_findings_ok [OF assms, of kinds] by (simp add: findings_ok_def list_all_iff detect_def)

lemma detect_ordered:
  assumes "spans_ok G s"
  shows "sorted_wrt (\<lambda>f g. fi_end f \<le> fi_start g) (detect G s kinds)"
proof (rule apart_in_order)
  show "sorted (map fi_start (detect G s kinds))" by (simp add: detect_def)
  show "sorted_wrt apart (detect G s kinds)"
    using detect_findings_ok [OF assms, of kinds] by (simp add: detect_def sorted_wrt_apart_sort findings_ok_def)
  show "\<forall>f \<in> set (detect G s kinds). fi_start f < fi_end f" using detect_inside [OF assms] by simp
qed

text \<open>Every match of an enabled rule that its validator accepts is covered or touched by a finding.\<close>

lemma detect_covers:
  assumes "spans_ok G s" "k \<in> set RULE_KINDS" "k \<in> set kinds" "m \<in> set (gl_matches G k s)" "rule_check k s m"
  shows "\<exists>f \<in> set (detect G s kinds). overlaps m f"
proof -
  have "fst m < snd m" using assms(1,2,4) by (auto simp: spans_ok_def list_all_iff split: prod.splits)
  then show ?thesis
    using apply_rules_covers [OF assms(2,3,4) _ assms(5), of "[]"] by (auto simp: detect_def list_ex_iff)
qed

section \<open>Redaction hides what was found\<close>

text \<open>Two texts agree outside the findings.\<close>

definition same_outside :: "finding list \<Rightarrow> string \<Rightarrow> string \<Rightarrow> bool" where
  "same_outside fs s t \<longleftrightarrow>
     length s = length t \<and>
     (\<forall>i < length s. (\<forall>f \<in> set fs. \<not> (fi_start f \<le> i \<and> i < fi_end f)) \<longrightarrow> s ! i = t ! i)"

lemma cut_eqI:
  assumes "length s = length t" "b \<le> length s" "\<And>i. a \<le> i \<Longrightarrow> i < b \<Longrightarrow> s ! i = t ! i"
  shows "cut a b s = cut a b t"
  using assms by (intro nth_equalityI) (auto simp: cut_def)

lemma redact_loop_same:
  assumes "length s = length t"
    and "sorted_wrt (\<lambda>f g. fi_end f \<le> fi_start g) fs" "\<forall>f \<in> set fs. fi_start f < fi_end f \<and> fi_end f \<le> length s"
    and "\<forall>f \<in> set fs. pos \<le> fi_start f" "pos \<le> length s"
    and "\<And>i. pos \<le> i \<Longrightarrow> i < length s \<Longrightarrow> \<forall>f \<in> set fs. \<not> (fi_start f \<le> i \<and> i < fi_end f) \<Longrightarrow> s ! i = t ! i"
  shows "redact_loop s pos fs = redact_loop t pos fs"
  using assms(2-)
proof (induction fs arbitrary: pos)
  case Nil
  have "drop pos s = drop pos t"
    using Nil assms(1) by (intro nth_equalityI) auto
  then show ?case by simp
next
  case (Cons f fs)
  have "cut pos (fi_start f) s = cut pos (fi_start f) t"
  proof (rule cut_eqI [OF assms(1)])
    show "fi_start f \<le> length s" using Cons.prems(2) by auto
    fix i assume i: "pos \<le> i" "i < fi_start f"
    have "\<not> (fi_start g \<le> i \<and> i < fi_end g)" if "g \<in> set (f # fs)" for g
      using that i Cons.prems(1,2) by fastforce
    moreover have "i < length s" using i Cons.prems(2) by auto
    ultimately show "s ! i = t ! i" using Cons.prems(5) i(1) by blast
  qed
  moreover have "redact_loop s (fi_end f) fs = redact_loop t (fi_end f) fs"
  proof (rule Cons.IH)
    fix i assume i: "fi_end f \<le> i" "i < length s" "\<forall>g \<in> set fs. \<not> (fi_start g \<le> i \<and> i < fi_end g)"
    then have "\<forall>g \<in> set (f # fs). \<not> (fi_start g \<le> i \<and> i < fi_end g)" by auto
    moreover have "pos \<le> i" using Cons.prems(2,3) i(1) by auto
    ultimately show "s ! i = t ! i" using Cons.prems(5) i(2) by blast
  qed (use Cons.prems in auto)
  ultimately show ?case by simp
qed

lemma redact_hides_found:
  assumes "spans_ok G s" "detect G s kinds = detect G t kinds" "same_outside (detect G s kinds) s t"
  shows "redact G s kinds = redact G t kinds"
proof -
  have "redact_loop s 0 (detect G s kinds) = redact_loop t 0 (detect G s kinds)"
    using assms(3) detect_ordered [OF assms(1)] detect_inside [OF assms(1)]
    by (intro redact_loop_same) (auto simp: same_outside_def)
  moreover have "s = [] \<longleftrightarrow> t = []" using assms(3) by (auto simp: same_outside_def)
  ultimately show ?thesis using assms(2) by (simp add: redact_def)
qed

section \<open>What a filter lets through\<close>

lemma kinds_of_empty: "kinds_of fs = [] \<longleftrightarrow> fs = []"
proof -
  have "set (kinds_of fs) = set (map fi_kind fs)" by (simp add: kinds_of_def)
  then have "kinds_of fs = [] \<longleftrightarrow> map fi_kind fs = []" by (metis set_empty)
  then show ?thesis by simp
qed

lemma secret_rules: "k \<in> set SECRET_KINDS \<Longrightarrow> k \<in> set RULE_KINDS \<and> rule_check k s m"
  by (auto simp: SECRET_KINDS_def RULE_KINDS_def rule_check_def)

lemma detect_nothing:
  assumes "spans_ok G s" "detect G s SECRET_KINDS = []" "k \<in> set SECRET_KINDS"
  shows "gl_matches G k s = []"
proof (rule ccontr)
  assume "gl_matches G k s \<noteq> []"
  then obtain m where "m \<in> set (gl_matches G k s)" by (cases "gl_matches G k s") auto
  then have "\<exists>f \<in> set (detect G s SECRET_KINDS). overlaps m f"
    by (intro detect_covers [OF assms(1) _ assms(3)]) (use secret_rules [OF assms(3)] in auto)
  with assms(2) show False by simp
qed

lemma redact_nothing: "detect G s kinds = [] \<Longrightarrow> redact G s kinds = s"
  by (simp add: redact_def)

text \<open>
  A text that a filter lets through is within the length limit, hits no blocked topic and, when secrets
  are blocked, matches no rule for secrets; when personal data is redacted, what is passed on is the
  redacted text, and nothing is changed otherwise. A text that is refused comes with a reason.
\<close>

lemma filter_enforced:
  assumes "spans_ok G s"
  shows "if fr_allowed (apply_filter G s p)
    then (fp_max_chars p = 0 \<or> int (length s) \<le> fp_max_chars p)
       \<and> (\<forall>t \<in> set (fp_blocked_topics p). \<not> topic_hit G s t)
       \<and> (fp_block_secrets p \<longrightarrow> (\<forall>k \<in> set SECRET_KINDS. gl_matches G k s = []))
       \<and> fr_text (apply_filter G s p) = (if fp_redact_pii p then redact G s DEFAULT_KINDS else s)
    else fr_reasons (apply_filter G s p) \<noteq> []"
  using detect_nothing [OF assms] redact_nothing [of G s DEFAULT_KINDS]
  by (auto simp: apply_filter_def Let_def kinds_of_empty filter_empty_conv)

end
