(* ===== verification/Usage_Ledger.thy ===== *)
theory Usage_Ledger
  imports Policy "HOL-Library.Multiset"
begin

text \<open>
  \<open>coreai/usage.py\<close>: spend and traffic rolled into hourly rows per subject, provider and model, with
  bounded retention, and the reports made from them. Rounding of the reported cost is an argument.
\<close>

section \<open>Rows\<close>

type_synonym row_key = "time \<times> string \<times> string \<times> string"

record usage_row =
  ur_requests :: int
  ur_input_tokens :: int
  ur_output_tokens :: int
  ur_cost_usd :: real

definition empty_row :: "usage_row" where
  "empty_row = \<lparr> ur_requests = 0, ur_input_tokens = 0, ur_output_tokens = 0, ur_cost_usd = 0 \<rparr>"

record usage_ledger =
  ul_retention_seconds :: int
  ul_max_rows :: nat
  ul_rows :: "(row_key, usage_row) odict"

text \<open>The constructor refuses anything but two positive integers; a boolean is none.\<close>

definition new_ledger :: "pyval \<Rightarrow> pyval \<Rightarrow> string + usage_ledger" where
  "new_ledger retention max_rows =
     (case (retention, max_rows) of
        (PInt r, PInt m) \<Rightarrow>
          (if r < 1 then Inl ''retention_seconds must be a positive integer''
           else if m < 1 then Inl ''max_rows must be a positive integer''
           else Inr \<lparr> ul_retention_seconds = r, ul_max_rows = nat m, ul_rows = [] \<rparr>)
      | (PInt r, _) \<Rightarrow>
          (if r < 1 then Inl ''retention_seconds must be a positive integer''
           else Inl ''max_rows must be a positive integer'')
      | _ \<Rightarrow> Inl ''retention_seconds must be a positive integer'')"

text \<open>The loop of \<open>_prune\<close>: the oldest row goes while it is too old or there are too many.\<close>

fun prune_rows :: "real \<Rightarrow> nat \<Rightarrow> (row_key, usage_row) odict \<Rightarrow> (row_key, usage_row) odict" where
  "prune_rows cutoff n [] = []"
| "prune_rows cutoff n ((k, v) # rows) =
     (if fst k < cutoff \<or> length ((k, v) # rows) > n then prune_rows cutoff n rows else (k, v) # rows)"

definition prune_ledger :: "time \<Rightarrow> usage_ledger \<Rightarrow> usage_ledger" where
  "prune_ledger now l =
     l\<lparr>ul_rows := prune_rows (now - of_int (ul_retention_seconds l)) (ul_max_rows l) (ul_rows l)\<rparr>"

definition hour_of :: "time \<Rightarrow> time" where
  "hour_of now = 3600 * of_int \<lfloor>now / 3600\<rfloor>"

text \<open>A new row goes to the end, or to its place among the hours when the clock went backwards.\<close>

definition add_row :: "row_key \<Rightarrow> (row_key, usage_row) odict \<Rightarrow> (row_key, usage_row) odict" where
  "add_row k rows =
     (if od_has rows k then rows
      else if rows \<noteq> [] \<and> fst k < fst (fst (last rows))
      then sort_key (\<lambda>item. fst (fst item)) (rows @ [(k, empty_row)])
      else rows @ [(k, empty_row)])"

definition book_row :: "int \<Rightarrow> int \<Rightarrow> int \<Rightarrow> real \<Rightarrow> usage_row \<Rightarrow> usage_row" where
  "book_row n i ou c r =
     \<lparr> ur_requests = ur_requests r + n, ur_input_tokens = ur_input_tokens r + max 0 i,
       ur_output_tokens = ur_output_tokens r + max 0 ou, ur_cost_usd = ur_cost_usd r + max 0 c \<rparr>"

definition ledger_record ::
  "time \<Rightarrow> string \<Rightarrow> string \<Rightarrow> string \<Rightarrow> int \<Rightarrow> int \<Rightarrow> real \<Rightarrow> int \<Rightarrow> usage_ledger \<Rightarrow> usage_ledger" where
  "ledger_record now subject provider model i ou c n l =
     (let k = (hour_of now, subject, provider, model)
      in prune_ledger now (l\<lparr>ul_rows := od_map_at k (book_row n i ou c) (add_row k (ul_rows l))\<rparr>))"

section \<open>Reports\<close>

definition bucket_seconds :: "string \<Rightarrow> int option" where
  "bucket_seconds b = (if b = ''hour'' then Some 3600 else if b = ''day'' then Some 86400 else None)"

definition GROUP_BY :: "string list" where
  "GROUP_BY = [''subject'', ''provider'', ''model'']"

datatype usage_query_error = BadBucket | BadGroup | EmptyRange | UnalignedBound string

definition dimension :: "row_key \<Rightarrow> string \<Rightarrow> string" where
  "dimension k g =
     (case k of (h, s, p, m) \<Rightarrow> if g = ''subject'' then s else if g = ''provider'' then p else m)"

definition period_of :: "int \<Rightarrow> time \<Rightarrow> time" where
  "period_of secs hour = of_int secs * of_int \<lfloor>hour / of_int secs\<rfloor>"

definition add_usage_rows :: "usage_row \<Rightarrow> usage_row \<Rightarrow> usage_row" where
  "add_usage_rows a b =
     \<lparr> ur_requests = ur_requests a + ur_requests b, ur_input_tokens = ur_input_tokens a + ur_input_tokens b,
       ur_output_tokens = ur_output_tokens a + ur_output_tokens b, ur_cost_usd = ur_cost_usd a + ur_cost_usd b \<rparr>"

definition row_selected :: "string option \<Rightarrow> time option \<Rightarrow> time option \<Rightarrow> row_key \<Rightarrow> bool" where
  "row_selected subject since until k \<longleftrightarrow>
     (case subject of None \<Rightarrow> True | Some s \<Rightarrow> fst (snd k) = s) \<and>
     (case since of None \<Rightarrow> True | Some t \<Rightarrow> fst k \<ge> t) \<and>
     (case until of None \<Rightarrow> True | Some t \<Rightarrow> fst k < t)"

type_synonym group_key = "time \<times> string list"

fun aggregate ::
  "int \<Rightarrow> string list \<Rightarrow> (row_key \<times> usage_row) list \<Rightarrow> (group_key, usage_row) odict \<Rightarrow> (group_key, usage_row) odict"
where
  "aggregate secs groups [] agg = agg"
| "aggregate secs groups ((k, r) # rows) agg =
     (let gk = (period_of secs (fst k), map (dimension k) groups);
          agg = (if od_has agg gk then agg else agg @ [(gk, empty_row)])
      in aggregate secs groups rows (od_map_at gk (\<lambda>a. add_usage_rows a r) agg))"

text \<open>Tuples compare by their components: sorting by the period keeps the order of the names.\<close>

definition sorted_groups :: "(group_key, usage_row) odict \<Rightarrow> (group_key \<times> usage_row) list" where
  "sorted_groups agg = sort_key (fst \<circ> fst) (sort_key (snd \<circ> fst) agg)"

definition aligned :: "time option \<Rightarrow> bool" where
  "aligned b \<longleftrightarrow> (case b of None \<Rightarrow> True | Some t \<Rightarrow> hour_of t = t)"

text \<open>One line of a report: the period, the values of the groups, and the totals.\<close>

definition usage_report ::
  "(real \<Rightarrow> real) \<Rightarrow> string option \<Rightarrow> time option \<Rightarrow> time option \<Rightarrow> string \<Rightarrow> string list \<Rightarrow> usage_ledger
     \<Rightarrow> usage_query_error + (int \<times> (string \<times> string) list \<times> usage_row) list" where
  "usage_report rd subject since until bucket groups l =
     (case bucket_seconds bucket of
        None \<Rightarrow> Inl BadBucket
      | Some secs \<Rightarrow>
          if \<not> list_all (\<lambda>g. g \<in> set GROUP_BY) groups then Inl BadGroup
          else if (case (since, until) of (Some a, Some b) \<Rightarrow> a \<ge> b | _ \<Rightarrow> False) then Inl EmptyRange
          else if \<not> aligned since then Inl (UnalignedBound ''since'')
          else if \<not> aligned until then Inl (UnalignedBound ''until'')
          else Inr (map (\<lambda>((p, vs), r). (\<lfloor>p\<rfloor>, zip groups vs, r\<lparr>ur_cost_usd := rd (ur_cost_usd r)\<rparr>))
                 (sorted_groups (aggregate secs groups
                    (filter (\<lambda>(k, r). row_selected subject since until k) (ul_rows l)) []))))"

text \<open>Cells that a spreadsheet would take for a formula get an apostrophe.\<close>

definition safe_cell :: "string \<Rightarrow> string" where
  "safe_cell s =
     (case s of
        [] \<Rightarrow> []
      | c # cs \<Rightarrow> if c \<in> {CHR ''='', CHR ''+'', CHR ''-'', CHR ''@'', CHR 0x09, CHR 0x0D}
                 then CHR 0x27 # s else s)"

section \<open>Rows stay in order and bounded\<close>

definition ledger_ok :: "usage_ledger \<Rightarrow> bool" where
  "ledger_ok l \<longleftrightarrow>
     od_wf (ul_rows l) \<and> sorted (map (\<lambda>item. fst (fst item)) (ul_rows l)) \<and>
     length (ul_rows l) \<le> ul_max_rows l"

lemma prune_rows_suffix: "\<exists>n. prune_rows c m rows = drop n rows"
proof (induction rows)
  case (Cons x rows)
  obtain k v where x: "x = (k, v)" by (cases x)
  from Cons obtain n where "prune_rows c m rows = drop n rows" by blast
  then have "prune_rows c m (x # rows) = drop (Suc n) (x # rows) \<or> prune_rows c m (x # rows) = drop 0 (x # rows)"
    by (simp add: x)
  then show ?case by blast
qed simp

lemma prune_rows_length: "length (prune_rows c m rows) \<le> m"
  by (induction rows) auto

lemma add_row_wf: "od_wf rows \<Longrightarrow> od_wf (add_row k rows)"
proof -
  assume wf: "od_wf rows"
  have new: "od_wf (rows @ [(k, empty_row)])" if "\<not> od_has rows k"
    using wf that by (auto simp: od_has_def map_of_eq_None_iff)
  have "mset (map fst (sort_key f xs)) = mset (map fst xs)" for f :: "row_key \<times> usage_row \<Rightarrow> real" and xs
    by (metis mset_map mset_sort)
  then have "od_wf (sort_key f xs) \<longleftrightarrow> od_wf xs" for f :: "row_key \<times> usage_row \<Rightarrow> real" and xs
    using mset_eq_imp_distinct_iff by blast
  then show ?thesis using wf new by (simp add: add_row_def)
qed

lemma add_row_sorted:
  assumes "sorted (map (\<lambda>item. fst (fst item)) rows)"
  shows "sorted (map (\<lambda>item. fst (fst item)) (add_row k rows))"
proof -
  have "sorted (map (\<lambda>item. fst (fst item)) (rows @ [(k, empty_row)]))"
    if "rows = [] \<or> \<not> fst k < fst (fst (last rows))"
  proof (cases rows rule: rev_cases)
    case (snoc rs r)
    then show ?thesis using assms that by (fastforce simp: sorted_append)
  qed simp
  then show ?thesis using assms by (auto simp: add_row_def)
qed

lemma ledger_record_ok:
  assumes "ledger_ok l"
  shows "ledger_ok (ledger_record now s p m i ou c n l)"
proof -
  let ?k = "(hour_of now, s, p, m)"
  let ?rows = "od_map_at ?k (book_row n i ou c) (add_row ?k (ul_rows l))"
  have wf: "od_wf ?rows" using assms add_row_wf by (simp add: ledger_ok_def)
  have hours: "map (\<lambda>item. fst (fst item)) ?rows = map (\<lambda>item. fst (fst item)) (add_row ?k (ul_rows l))"
  proof -
    have "map (\<lambda>item. fst (fst item)) xs = map fst (od_keys xs)" for xs :: "(row_key, usage_row) odict"
      by simp
    then show ?thesis by (simp only: od_keys_map_at)
  qed
  have sorted: "sorted (map (\<lambda>item. fst (fst item)) ?rows)"
    unfolding hours using add_row_sorted assms by (simp add: ledger_ok_def)
  obtain d where "prune_rows (now - of_int (ul_retention_seconds l)) (ul_max_rows l) ?rows = drop d ?rows"
    using prune_rows_suffix by blast
  moreover have "length (prune_rows (now - of_int (ul_retention_seconds l)) (ul_max_rows l) ?rows) \<le> ul_max_rows l"
    by (rule prune_rows_length)
  ultimately show ?thesis
    using wf sorted by (simp add: ledger_ok_def ledger_record_def prune_ledger_def Let_def drop_map [symmetric] sorted_wrt_drop)
qed

section \<open>Reports add up\<close>

definition rows_total :: "(usage_row \<Rightarrow> 'n::ab_group_add) \<Rightarrow> ('k \<times> usage_row) list \<Rightarrow> 'n" where
  "rows_total f rows = sum_list (map (\<lambda>x. f (snd x)) rows)"

text \<open>The quantities a row counts: what is zero in an empty row and added by adding rows.\<close>

definition counts :: "(usage_row \<Rightarrow> 'n::ab_group_add) \<Rightarrow> bool" where
  "counts f \<longleftrightarrow> f empty_row = 0 \<and> (\<forall>a b. f (add_usage_rows a b) = f a + f b)"

lemma counted: "counts ur_requests" "counts ur_input_tokens" "counts ur_output_tokens" "counts ur_cost_usd"
  by (simp_all add: counts_def empty_row_def add_usage_rows_def)

lemma total_map_at:
  "map_of d k = Some v \<Longrightarrow> rows_total f (od_map_at k g d) = rows_total f d + (f (g v) - f v)"
  unfolding rows_total_def using sum_od_map_at [where h = "\<lambda>x. f (snd x)"] by simp

lemma aggregate_total:
  assumes "counts f"
  shows "rows_total f (aggregate secs groups rows agg) = rows_total f agg + rows_total f rows"
proof (induction rows arbitrary: agg)
  case Nil
  then show ?case by (simp add: rows_total_def)
next
  case (Cons x rows)
  obtain k r where x: "x = (k, r)" by (cases x)
  let ?gk = "(period_of secs (fst k), map (dimension k) groups)"
  let ?agg = "if od_has agg ?gk then agg else agg @ [(?gk, empty_row)]"
  have t: "rows_total f ?agg = rows_total f agg" using assms by (simp add: rows_total_def counts_def)
  obtain v where v: "map_of ?agg ?gk = Some v"
  proof (cases "map_of agg ?gk")
    case None
    then have "map_of (agg @ [(?gk, empty_row)]) ?gk = Some empty_row" by (simp add: map_add_def)
    moreover have "?agg = agg @ [(?gk, empty_row)]" using None by (simp add: od_has_def map_of_eq_None_iff)
    ultimately show ?thesis using that by (simp only:)
  next
    case (Some w)
    then have "od_has agg ?gk" by (simp only: od_has_def) simp
    then have "?agg = agg" by (simp only: if_True)
    with Some show ?thesis using that by (simp only:)
  qed
  have "rows_total f (od_map_at ?gk (\<lambda>a. add_usage_rows a r) ?agg) = rows_total f agg + f r"
    using total_map_at [OF v, of f "\<lambda>a. add_usage_rows a r"] assms t by (simp add: counts_def)
  then have "rows_total f (aggregate secs groups rows (od_map_at ?gk (\<lambda>a. add_usage_rows a r) ?agg)) =
      rows_total f agg + f r + rows_total f rows"
    using Cons by simp
  then show ?case by (simp add: x rows_total_def Let_def add.assoc)
qed

lemma total_sort: "rows_total f (sort_key g rows) = rows_total f rows"
proof -
  have "mset (map (\<lambda>x. f (snd x)) (sort_key g rows)) = mset (map (\<lambda>x. f (snd x)) rows)" by simp
  then show ?thesis unfolding rows_total_def by (metis sum_mset_sum_list)
qed

text \<open>
  However it is grouped, the lines of a report add up to the rows it selects, so no usage is counted
  twice or left out.
\<close>

lemma report_adds_up:
  assumes "usage_report rd subject since until bucket groups l = Inr lines"
  shows "sum_list (map (\<lambda>x. ur_requests (snd (snd x))) lines) =
      rows_total ur_requests (filter (\<lambda>(k, r). row_selected subject since until k) (ul_rows l))"
    and "rd = id \<Longrightarrow> sum_list (map (\<lambda>x. ur_cost_usd (snd (snd x))) lines) =
      rows_total ur_cost_usd (filter (\<lambda>(k, r). row_selected subject since until k) (ul_rows l))"
proof -
  let ?sel = "filter (\<lambda>(k, r). row_selected subject since until k) (ul_rows l)"
  obtain secs where lines: "lines = map (\<lambda>((p, vs), r). (\<lfloor>p\<rfloor>, zip groups vs, r\<lparr>ur_cost_usd := rd (ur_cost_usd r)\<rparr>))
      (sorted_groups (aggregate secs groups ?sel []))"
    using assms by (auto simp: usage_report_def split: option.splits if_splits)
  have t: "rows_total f (sorted_groups (aggregate secs groups ?sel [])) = rows_total f ?sel" if "counts f"
    for f :: "usage_row \<Rightarrow> 'n::ab_group_add"
    using that by (simp add: sorted_groups_def total_sort aggregate_total) (simp add: rows_total_def)
  show "sum_list (map (\<lambda>x. ur_requests (snd (snd x))) lines) = rows_total ur_requests ?sel"
    using t [OF counted(1)] by (simp add: lines rows_total_def o_def case_prod_unfold)
  show "sum_list (map (\<lambda>x. ur_cost_usd (snd (snd x))) lines) = rows_total ur_cost_usd ?sel" if "rd = id"
    using t [OF counted(4)] that by (simp add: lines rows_total_def o_def case_prod_unfold)
qed

end
