(* ===== verification/Openai_Convert.thy ===== *)
theory Openai_Convert
  imports Messages Guardrails Executor
begin

text \<open>
  The conversion half of \<open>api/openai_compat.py\<close>: an OpenAI chat request becomes a request of the
  router or is refused, and an answer becomes an OpenAI message. Pydantic has checked the types of the
  declared fields; a message is a mapping with arbitrary values. \<open>fl\<close> writes floats and containers for
  \<open>str\<close>, \<open>dumps\<close> is \<open>json.dumps\<close>. An exception other than \<open>CompatError\<close> is \<open>Crash\<close>. A function
  name or an argument that is no text is represented by its text.
\<close>

section \<open>Requests and errors\<close>

record chat_request =
  cq_model :: "string option"
  cq_messages :: "(string \<times> pyval) list list"
  cq_max_tokens :: "int option"
  cq_max_completion_tokens :: "int option"
  cq_temperature :: "real option"
  cq_stream :: bool
  cq_stream_options :: "(string \<times> pyval) list"
  cq_n :: "int option"
  cq_response_format :: "(string \<times> pyval) list option"
  cq_tools :: "(string \<times> pyval) list list"
  cq_tool_choice :: pyval
  cq_provider :: "string option"
  cq_metadata :: "(string \<times> pyval) list"
  cq_policy :: "string option"
  cq_run_tools :: bool
  cq_extra :: "string list"

record compat_error =
  ce_status :: int
  ce_message :: string
  ce_type :: string
  ce_code :: "string option"
  ce_param :: "string option"
  ce_headers :: "(string \<times> string) list"

datatype convert_error = Compat compat_error | Crash

definition bad_code :: "string \<Rightarrow> string \<Rightarrow> string \<Rightarrow> convert_error" where
  "bad_code message param code = Compat
     \<lparr> ce_status = 400, ce_message = message, ce_type = ''invalid_request_error'', ce_code = Some code,
       ce_param = Some param, ce_headers = [] \<rparr>"

definition bad :: "string \<Rightarrow> string \<Rightarrow> convert_error" where
  "bad message param = bad_code message param ''invalid_value''"

definition unsupported :: "string \<Rightarrow> string \<Rightarrow> convert_error" where
  "unsupported message param = bad_code message param ''unsupported_parameter''"

text \<open>The envelope of an error: its message, type, parameter and code.\<close>

definition error_envelope :: "compat_error \<Rightarrow> pyval" where
  "error_envelope e =
     (let opt = (\<lambda>x. case x of None \<Rightarrow> PNone | Some s \<Rightarrow> PStr s)
      in PDict [(''error'', PDict [(''message'', PStr (ce_message e)), (''type'', PStr (ce_type e)),
           (''param'', opt (ce_param e)), (''code'', opt (ce_code e))])])"

definition REFUSED :: "(string \<times> string) list" where
  "REFUSED =
     [(''functions'', ''function calling''), (''function_call'', ''function calling''),
      (''stop'', ''stop sequences''), (''logprobs'', ''logprobs''), (''top_logprobs'', ''logprobs''),
      (''modalities'', ''audio and other modalities''), (''audio'', ''audio''),
      (''prediction'', ''predicted outputs'')]"

definition upper_char :: "char \<Rightarrow> char" where
  "upper_char c = (let n = (of_char c :: nat) in if 97 \<le> n \<and> n \<le> 122 then char_of (n - 32) else c)"

definition capitalize :: "string \<Rightarrow> string" where
  "capitalize s = (case s of [] \<Rightarrow> [] | c # cs \<Rightarrow> upper_char c # str_lower cs)"

definition squoted :: "string \<Rightarrow> string" where
  "squoted s = [CHR 0x27] @ s @ [CHR 0x27]"

definition message_param :: "nat \<Rightarrow> string \<Rightarrow> string" where
  "message_param i field = ''messages['' @ show_nat i @ '']'' @ field"

section \<open>Content\<close>

fun text_parts :: "(pyval \<Rightarrow> string) \<Rightarrow> nat \<Rightarrow> pyval list \<Rightarrow> convert_error + string" where
  "text_parts fl i [] = Inr []"
| "text_parts fl i (p # ps) =
     (case p of
        PDict d \<Rightarrow>
          (if opt_get d ''type'' PNone = PStr ''text'' then
             (case text_parts fl i ps of
                Inl e \<Rightarrow> Inl e | Inr t \<Rightarrow> Inr (py_str fl (opt_get d ''text'' (PStr [])) @ t))
           else Inl (unsupported (''Content part type '' @ squoted (py_str fl (opt_get d ''type'' PNone)) @ '' is not supported yet (text only).'') (message_param i ''.content'')))
      | _ \<Rightarrow> Inl (unsupported (''Content part type '' @ squoted ''unknown'' @ '' is not supported yet (text only).'') (message_param i ''.content'')))"

fun text_of :: "(pyval \<Rightarrow> string) \<Rightarrow> nat \<Rightarrow> pyval \<Rightarrow> convert_error + string" where
  "text_of fl i PNone = Inr []"
| "text_of fl i (PStr s) = Inr s"
| "text_of fl i (PList ps) = text_parts fl i ps"
| "text_of fl i _ =
     Inl (bad ''Message content must be a string or a list of text parts.'' (message_param i ''.content''))"

definition IMAGE_TYPES :: "string list" where
  "IMAGE_TYPES = [''image/jpeg'', ''image/png'', ''image/gif'', ''image/webp'']"

definition media_char :: "char \<Rightarrow> bool" where
  "media_char c \<longleftrightarrow> alnum c \<or> c \<in> set ''_.+-''"

definition has_prefix :: "string \<Rightarrow> string \<Rightarrow> bool" where
  "has_prefix p s \<longleftrightarrow> take (length p) s = p"

text \<open>\<open>parse_data_url\<close>: \<open>data:\<close>, two names around a slash, \<open>;base64,\<close> and at least one character.\<close>

definition parse_data_url :: "string \<Rightarrow> (string \<times> string) option" where
  "parse_data_url url =
     (let s = drop 5 url; a = takeWhile media_char s; s1 = drop (length a) s;
          b = takeWhile media_char (drop 1 s1); s2 = drop (1 + length b) s1; data = drop 8 s2
      in if has_prefix ''data:'' url \<and> a \<noteq> [] \<and> has_prefix ''/'' s1 \<and> b \<noteq> [] \<and>
            has_prefix '';base64,'' s2 \<and> data \<noteq> []
         then Some (str_lower (a @ ''/'' @ b), data) else None)"

definition chat_image :: "nat \<Rightarrow> pyval \<Rightarrow> convert_error + image" where
  "chat_image i obj =
     (let param = message_param i ''.content'' in
      case (case obj of PDict d \<Rightarrow> opt_get d ''url'' PNone | v \<Rightarrow> v) of
        PStr url \<Rightarrow>
          (if url = [] then Inl (bad ''image_url.url must be a string.'' param)
           else if has_prefix ''data:'' url then
             (case parse_data_url url of
                Some (media, data) \<Rightarrow>
                  if media \<in> set IMAGE_TYPES
                  then Inr \<lparr> im_url = None, im_media_type = media, im_data = data \<rparr>
                  else Inl (bad (''Images must be base64 data URLs of type '' @ intercalate '', '' IMAGE_TYPES @ ''.'') param)
              | None \<Rightarrow> Inl (bad (''Images must be base64 data URLs of type '' @ intercalate '', '' IMAGE_TYPES @ ''.'') param))
           else if has_prefix ''http://'' url \<or> has_prefix ''https://'' url
           then Inr \<lparr> im_url = Some url, im_media_type = [], im_data = [] \<rparr>
           else Inl (bad ''image_url.url must be an http(s) or data URL.'' param))
      | _ \<Rightarrow> Inl (bad ''image_url.url must be a string.'' param))"

definition is_image_part :: "pyval \<Rightarrow> bool" where
  "is_image_part p \<longleftrightarrow> (case p of PDict d \<Rightarrow> opt_get d ''type'' PNone = PStr ''image_url'' | _ \<Rightarrow> False)"

definition part_image :: "pyval \<Rightarrow> pyval" where
  "part_image p = (case p of PDict d \<Rightarrow> opt_get d ''image_url'' PNone | _ \<Rightarrow> PNone)"

fun mixed_parts :: "(pyval \<Rightarrow> string) \<Rightarrow> nat \<Rightarrow> pyval list \<Rightarrow> convert_error + string \<times> image list" where
  "mixed_parts fl i [] = Inr ([], [])"
| "mixed_parts fl i (p # ps) =
     (case (if is_image_part p then map_sum id (\<lambda>im. ([], [im])) (chat_image i (part_image p))
            else map_sum id (\<lambda>t. (t, [])) (text_parts fl i [p])) of
        Inl e \<Rightarrow> Inl e
      | Inr (t, im) \<Rightarrow>
          (case mixed_parts fl i ps of Inl e \<Rightarrow> Inl e | Inr (t', ims) \<Rightarrow> Inr (t @ t', im @ ims)))"

definition chat_content ::
  "(pyval \<Rightarrow> string) \<Rightarrow> nat \<Rightarrow> bool \<Rightarrow> pyval \<Rightarrow> convert_error + string \<times> image list" where
  "chat_content fl i allow_images content =
     (case content of
        PList ps \<Rightarrow> if allow_images then mixed_parts fl i ps
                    else map_sum id (\<lambda>t. (t, [])) (text_of fl i content)
      | _ \<Rightarrow> map_sum id (\<lambda>t. (t, [])) (text_of fl i content))"

section \<open>Tools and formats\<close>

definition tool_function :: "(string \<times> pyval) list \<Rightarrow> pyval" where
  "tool_function t = opt_get t ''function'' PNone"

definition tool_ok :: "(string \<times> pyval) list \<Rightarrow> bool" where
  "tool_ok t \<longleftrightarrow>
     (case tool_function t of
        PDict fn \<Rightarrow> opt_get t ''type'' PNone = PStr ''function'' \<and> \<not> falsy (opt_get fn ''name'' PNone)
      | _ \<Rightarrow> False)"

fun first_bad_tool :: "nat \<Rightarrow> (string \<times> pyval) list list \<Rightarrow> nat option" where
  "first_bad_tool i [] = None"
| "first_bad_tool i (t # ts) = (if tool_ok t then first_bad_tool (i + 1) ts else Some i)"

definition hashable :: "pyval \<Rightarrow> bool" where
  "hashable v \<longleftrightarrow> (case v of PList xs \<Rightarrow> False | PDict d \<Rightarrow> False | _ \<Rightarrow> True)"

definition tool_names :: "(string \<times> pyval) list list \<Rightarrow> pyval list" where
  "tool_names ts = map (\<lambda>t. dict_get (tool_function t) ''name'') ts"

text \<open>\<open>name not in {...}\<close> raises for a name, or a tool's name, that cannot be hashed.\<close>

definition check_choice :: "pyval \<Rightarrow> (string \<times> pyval) list list \<Rightarrow> convert_error + unit" where
  "check_choice choice ts =
     (case choice of
        PNone \<Rightarrow> Inr ()
      | _ \<Rightarrow>
          if ts = [] then Inl (bad ''tool_choice needs tools.'' ''tool_choice'')
          else (case choice of
             PStr s \<Rightarrow>
               if s \<in> set [''auto'', ''none'', ''required''] then Inr ()
               else Inl (bad ''tool_choice must be auto, none, required or a function.'' ''tool_choice'')
           | PDict d \<Rightarrow>
               (let fn = opt_get d ''function'' PNone
                in case (if falsy fn then PDict [] else fn) of
                     PDict f \<Rightarrow>
                       (let name = opt_get f ''name'' PNone
                        in if opt_get d ''type'' PNone \<noteq> PStr ''function''
                           then Inl (bad ''tool_choice must name one of the given tools.'' ''tool_choice'')
                           else if \<not> list_all hashable (tool_names ts) \<or> \<not> hashable name then Inl Crash
                           else if list_ex (py_eq name) (tool_names ts) then Inr ()
                           else Inl (bad ''tool_choice must name one of the given tools.'' ''tool_choice''))
                   | _ \<Rightarrow> Inl Crash)
           | _ \<Rightarrow> Inl (bad ''tool_choice must be a string or an object.'' ''tool_choice'')))"

definition check_tools :: "chat_request \<Rightarrow> convert_error + unit" where
  "check_tools body =
     (case first_bad_tool 0 (cq_tools body) of
        Some i \<Rightarrow> Inl (bad (''Each tool must be {'' @ squoted ''type'' @ '': '' @ squoted ''function'' @ '', '' @
                  squoted ''function'' @ '': {'' @ squoted ''name'' @ '': ...}}.'')
                        (''tools['' @ show_nat i @ '']''))
      | None \<Rightarrow> check_choice (cq_tool_choice body) (cq_tools body))"

text \<open>\<open>body.response_format or {}\<close>.\<close>

definition format_of :: "chat_request \<Rightarrow> (string \<times> pyval) list" where
  "format_of body = (case cq_response_format body of None \<Rightarrow> [] | Some d \<Rightarrow> d)"

definition check_response_format :: "(pyval \<Rightarrow> string) \<Rightarrow> (string \<times> pyval) list \<Rightarrow> convert_error + unit" where
  "check_response_format fl rf =
     (let kind = opt_get rf ''type'' PNone in
      if rf = [] \<or> kind = PNone \<or> kind = PStr ''text'' \<or> kind = PStr ''json_object'' then Inr ()
      else if kind = PStr ''json_schema'' then
        (case opt_get rf ''json_schema'' PNone of
           PDict js \<Rightarrow>
             (case opt_get js ''schema'' PNone of
                PDict s \<Rightarrow> Inr ()
              | _ \<Rightarrow> Inl (bad ''response_format.json_schema.schema must be an object.'' ''response_format''))
         | _ \<Rightarrow> Inl (bad ''response_format.json_schema.schema must be an object.'' ''response_format''))
      else Inl (unsupported (''response_format type '' @ squoted (py_str fl kind) @ '' is not supported.'') ''response_format''))"

section \<open>Messages\<close>

fun request_calls ::
  "(pyval \<Rightarrow> string) \<Rightarrow> (pyval \<Rightarrow> string) \<Rightarrow> nat \<Rightarrow> pyval list \<Rightarrow> convert_error + tool_call list" where
  "request_calls fl dumps i [] = Inr []"
| "request_calls fl dumps i (c # cs) =
     (let cid = dict_get c ''id''; fn = dict_get c ''function''; name = dict_get fn ''name'';
          args = dict_get fn ''arguments''
      in case fn of
           PDict f \<Rightarrow>
             (if falsy cid \<or> falsy name
              then Inl (bad ''Each tool call needs an id and a function name.'' (message_param i ''.tool_calls''))
              else case request_calls fl dumps i cs of
                     Inl e \<Rightarrow> Inl e
                   | Inr calls \<Rightarrow> Inr
                      (\<lparr> tc_id = py_str fl cid, tc_name = py_str fl name,
                         tc_arguments = Some (case args of PStr a \<Rightarrow> a
                                              | _ \<Rightarrow> dumps (if falsy args then PDict [] else args)) \<rparr> # calls))
         | _ \<Rightarrow> Inl (bad ''Each tool call needs an id and a function name.'' (message_param i ''.tool_calls'')))"

definition raw_calls :: "(pyval \<Rightarrow> string) \<Rightarrow> (pyval \<Rightarrow> string) \<Rightarrow> nat \<Rightarrow> pyval \<Rightarrow> convert_error + tool_call list" where
  "raw_calls fl dumps i raw =
     (case raw of
        PList cs \<Rightarrow> request_calls fl dumps i cs
      | _ \<Rightarrow> Inl (bad ''tool_calls must be a list.'' (message_param i ''.tool_calls'')))"

datatype converted = SystemText string | Turn message

definition turn :: "string \<Rightarrow> string \<Rightarrow> tool_call list \<Rightarrow> string option \<Rightarrow> image list \<Rightarrow> converted" where
  "turn role text calls call_id images = Turn
     \<lparr> ms_role = role, ms_content = text, ms_tool_calls = calls, ms_tool_call_id = call_id,
       ms_images = images \<rparr>"

text \<open>One message: a piece of the system prompt or a turn of the conversation.\<close>

definition convert_message ::
  "(pyval \<Rightarrow> string) \<Rightarrow> (pyval \<Rightarrow> string) \<Rightarrow> nat \<Rightarrow> (string \<times> pyval) list \<Rightarrow> convert_error + converted" where
  "convert_message fl dumps i m =
     (let role = opt_get m ''role'' PNone; calls = opt_get m ''tool_calls'' PNone;
          cid = opt_get m ''tool_call_id'' PNone in
      case chat_content fl i (role = PStr ''user'') (opt_get m ''content'' PNone) of
        Inl e \<Rightarrow> Inl e
      | Inr (text, images) \<Rightarrow>
          (if role = PStr ''system'' \<or> role = PStr ''developer'' then Inr (SystemText text)
           else if role = PStr ''tool'' then
             (if falsy cid then Inl (bad ''A tool message needs tool_call_id.'' (message_param i ''.tool_call_id''))
              else Inr (turn ''tool'' text [] (Some (py_str fl cid)) []))
           else if role = PStr ''assistant'' \<and> \<not> falsy calls then
             (case raw_calls fl dumps i calls of
                Inl e \<Rightarrow> Inl e | Inr cs \<Rightarrow> Inr (turn ''assistant'' text cs None []))
           else if role = PStr ''user'' then Inr (turn ''user'' text [] None images)
           else if role = PStr ''assistant'' then Inr (turn ''assistant'' text [] None images)
           else Inl (bad (''Unsupported message role '' @ squoted (py_str fl role) @ ''.'')
                  (message_param i ''.role''))))"

fun convert_messages ::
  "(pyval \<Rightarrow> string) \<Rightarrow> (pyval \<Rightarrow> string) \<Rightarrow> nat \<Rightarrow> (string \<times> pyval) list list
     \<Rightarrow> convert_error + string list \<times> message list" where
  "convert_messages fl dumps i [] = Inr ([], [])"
| "convert_messages fl dumps i (m # ms) =
     (case convert_message fl dumps i m of
        Inl e \<Rightarrow> Inl e
      | Inr c \<Rightarrow>
          (case convert_messages fl dumps (i + 1) ms of
             Inl e \<Rightarrow> Inl e
           | Inr (sys, msgs) \<Rightarrow>
               (case c of SystemText t \<Rightarrow> Inr (t # sys, msgs) | Turn m' \<Rightarrow> Inr (sys, m' # msgs))))"

section \<open>The request\<close>

definition MAX_IMAGE_BYTES :: nat where
  "MAX_IMAGE_BYTES = 20000000"

definition inline_bytes :: "message list \<Rightarrow> nat" where
  "inline_bytes ms = sum_list (map (\<lambda>im. length (im_data im)) (concat (map ms_images ms)))"

definition policy_metadata :: "chat_request \<Rightarrow> (string \<times> pyval) list" where
  "policy_metadata body =
     (let raw = cq_metadata body; named = opt_get raw ''policy'' PNone;
          name = (if falsy named then (case cq_policy body of None \<Rightarrow> PNone | Some p \<Rightarrow> PStr p) else named)
      in (case name of PStr p \<Rightarrow> if p \<noteq> [] then [(''policy'', PStr p)] else [] | _ \<Rightarrow> [])
         @ (if opt_get raw ''private'' PNone = PBool True then [(''private'', PBool True)] else [])
         @ (let d = opt_get raw ''difficulty'' PNone
            in if d = PStr ''easy'' \<or> d = PStr ''hard'' then [(''difficulty'', d)] else []))"

fun or_int :: "int option list \<Rightarrow> int \<Rightarrow> int" where
  "or_int [] dflt = dflt"
| "or_int (Some n # xs) dflt = (if n \<noteq> 0 then n else or_int xs dflt)"
| "or_int (None # xs) dflt = or_int xs dflt"

definition build_request :: "chat_request \<Rightarrow> string list \<Rightarrow> message list \<Rightarrow> request" where
  "build_request body sys msgs =
     \<lparr> rq_messages = msgs, rq_model = cq_model body,
       rq_max_tokens = or_int [cq_max_completion_tokens body, cq_max_tokens body] 1024,
       rq_temperature = (case cq_temperature body of None \<Rightarrow> 7 / 10 | Some t \<Rightarrow> t),
       rq_stream = cq_stream body, rq_system_prompt = text_or_none (joined sys),
       rq_metadata = policy_metadata body, rq_tools = map PDict (cq_tools body),
       rq_tool_choice = cq_tool_choice body,
       rq_response_format =
         (if opt_get (format_of body) ''type'' PNone = PStr ''text'' then PNone
          else case cq_response_format body of None \<Rightarrow> PNone | Some d \<Rightarrow> PDict d) \<rparr>"

definition convert_chat ::
  "(pyval \<Rightarrow> string) \<Rightarrow> (pyval \<Rightarrow> string) \<Rightarrow> chat_request \<Rightarrow> convert_error + request" where
  "convert_chat fl dumps body =
     (case find (\<lambda>(k, what). k \<in> set (cq_extra body)) REFUSED of
        Some (k, what) \<Rightarrow> Inl (unsupported (capitalize what @ '' is not supported yet.'') k)
      | None \<Rightarrow>
          if cq_n body \<noteq> None \<and> cq_n body \<noteq> Some 1 then Inl (unsupported ''Only n=1 is supported.'' ''n'')
          else case check_response_format fl (format_of body) of
            Inl e \<Rightarrow> Inl e
          | Inr _ \<Rightarrow>
              (case check_tools body of
                 Inl e \<Rightarrow> Inl e
               | Inr _ \<Rightarrow>
                   (case convert_messages fl dumps 0 (cq_messages body) of
                      Inl e \<Rightarrow> Inl e
                    | Inr (sys, msgs) \<Rightarrow>
                        if msgs = []
                        then Inl (bad ''At least one user or assistant message is required.'' ''messages'')
                        else if inline_bytes msgs > MAX_IMAGE_BYTES
                        then Inl (bad_code ''Inline images are too large for one request.'' ''messages''
                               ''request_too_large'')
                        else Inr (build_request body sys msgs))))"

section \<open>Answers\<close>

definition answer_call :: "tool_call \<Rightarrow> pyval" where
  "answer_call c = PDict
     [(''id'', PStr (tc_id c)), (''type'', PStr ''function''),
      (''function'', PDict [(''name'', PStr (tc_name c)),
         (''arguments'', case tc_arguments c of None \<Rightarrow> PNone | Some a \<Rightarrow> PStr a)])]"

definition assistant_answer :: "completion \<Rightarrow> (string \<times> pyval) list" where
  "assistant_answer resp =
     (if co_tool_calls resp = []
      then [(''role'', PStr ''assistant''), (''content'', PStr (co_content resp))]
      else [(''role'', PStr ''assistant''),
            (''content'', if co_content resp = [] then PNone else PStr (co_content resp)),
            (''tool_calls'', PList (map answer_call (co_tool_calls resp)))])"

text \<open>The schema a \<open>json_schema\<close> format asks for.\<close>

definition schema_of :: "(string \<times> pyval) list \<Rightarrow> pyval option" where
  "schema_of rf =
     (if opt_get rf ''type'' PNone = PStr ''json_schema''
      then Some (dict_get (opt_get rf ''json_schema'' PNone) ''schema'') else None)"

section \<open>What a conversion keeps\<close>

definition system_texts :: "converted list \<Rightarrow> string list" where
  "system_texts cs = concat (map (\<lambda>c. case c of SystemText t \<Rightarrow> [t] | Turn m \<Rightarrow> []) cs)"

definition turns_of :: "converted list \<Rightarrow> message list" where
  "turns_of cs = concat (map (\<lambda>c. case c of SystemText t \<Rightarrow> [] | Turn m \<Rightarrow> [m]) cs)"

text \<open>Message \<open>i\<close> is converted on its own, and nothing is dropped, added or reordered.\<close>

lemma convert_messages_each:
  "convert_messages fl dumps i ms = Inr (sys, msgs) \<Longrightarrow>
   \<exists>cs. list_all2 (\<lambda>(k, m) c. convert_message fl dumps k m = Inr c) (zip [i..<i + length ms] ms) cs
     \<and> sys = system_texts cs \<and> msgs = turns_of cs"
proof (induction ms arbitrary: i sys msgs)
  case Nil
  then show ?case by (auto simp: system_texts_def turns_of_def)
next
  case (Cons m ms)
  then obtain c sys' msgs' where c: "convert_message fl dumps i m = Inr c"
    and r: "convert_messages fl dumps (i + 1) ms = Inr (sys', msgs')"
    and e: "(sys, msgs) = (case c of SystemText t \<Rightarrow> (t # sys', msgs') | Turn m' \<Rightarrow> (sys', m' # msgs'))"
    by (auto split: sum.splits prod.splits converted.splits)
  from Cons.IH [OF r] obtain cs where
    cs: "list_all2 (\<lambda>(k, m) c. convert_message fl dumps k m = Inr c) (zip [Suc i..<Suc i + length ms] ms) cs"
    and s: "sys' = system_texts cs" "msgs' = turns_of cs"
    by auto
  have "[i..<i + length (m # ms)] = i # [Suc i..<Suc i + length ms]" by (simp add: upt_rec)
  then have "list_all2 (\<lambda>(k, m) c. convert_message fl dumps k m = Inr c) (zip [i..<i + length (m # ms)] (m # ms)) (c # cs)"
    using c cs by simp
  moreover have "sys = system_texts (c # cs) \<and> msgs = turns_of (c # cs)"
    using e s by (cases c) (simp_all add: system_texts_def turns_of_def)
  ultimately show ?case by blast
qed

lemma find_NoneD: "find P xs = None \<Longrightarrow> x \<in> set xs \<Longrightarrow> \<not> P x"
  by (auto simp: find_None_iff)

lemma convert_chat_inv:
  assumes "convert_chat fl dumps body = Inr q"
  obtains sys where
    "find (\<lambda>(k, what). k \<in> set (cq_extra body)) REFUSED = None" "cq_n body = None \<or> cq_n body = Some 1"
    "check_response_format fl (format_of body) = Inr ()" "check_tools body = Inr ()"
    "convert_messages fl dumps 0 (cq_messages body) = Inr (sys, rq_messages q)"
    "rq_messages q \<noteq> []" "inline_bytes (rq_messages q) \<le> MAX_IMAGE_BYTES"
    "rq_system_prompt q = text_or_none (joined sys)" "rq_model q = cq_model body" "rq_stream q = cq_stream body"
    "rq_tools q = map PDict (cq_tools body)" "rq_tool_choice q = cq_tool_choice body"
  using assms by (auto simp: convert_chat_def build_request_def split: option.splits if_splits sum.splits prod.splits)

text \<open>
  A request is passed on only when it asks for nothing the gateway would have to drop; each of its
  messages is then in the router's request, converted on its own and in order.
\<close>

lemma conversion_drops_nothing:
  assumes "convert_chat fl dumps body = Inr q"
  shows "\<exists>cs. list_all2 (\<lambda>(k, m) c. convert_message fl dumps k m = Inr c)
            (zip [0..<length (cq_messages body)] (cq_messages body)) cs
     \<and> rq_messages q = turns_of cs \<and> rq_system_prompt q = text_or_none (joined (system_texts cs))
     \<and> (\<forall>(k, what) \<in> set REFUSED. k \<notin> set (cq_extra body)) \<and> cq_n body \<in> {None, Some 1}
     \<and> rq_tools q = map PDict (cq_tools body) \<and> rq_tool_choice q = cq_tool_choice body"
proof -
  obtain sys where c: "find (\<lambda>(k, what). k \<in> set (cq_extra body)) REFUSED = None"
      "cq_n body = None \<or> cq_n body = Some 1"
      "convert_messages fl dumps 0 (cq_messages body) = Inr (sys, rq_messages q)"
      "rq_system_prompt q = text_or_none (joined sys)"
      "rq_tools q = map PDict (cq_tools body)" "rq_tool_choice q = cq_tool_choice body"
    by (rule convert_chat_inv [OF assms])
  have "\<forall>(k, what) \<in> set REFUSED. k \<notin> set (cq_extra body)"
    using find_NoneD [OF c(1)] by auto
  moreover obtain cs where "list_all2 (\<lambda>(k, m) c. convert_message fl dumps k m = Inr c)
        (zip [0..<0 + length (cq_messages body)] (cq_messages body)) cs"
      "sys = system_texts cs" "rq_messages q = turns_of cs"
    using convert_messages_each [OF c(3)] by blast
  ultimately show ?thesis using c(2,4,5,6) by (intro exI [of _ cs]) auto
qed

section \<open>Answers come back as they went\<close>

definition named_calls :: "tool_call list \<Rightarrow> bool" where
  "named_calls cs = list_all (\<lambda>c. tc_id c \<noteq> [] \<and> tc_name c \<noteq> [] \<and> tc_arguments c \<noteq> None) cs"

lemma request_calls_answer:
  "named_calls cs \<Longrightarrow> request_calls fl dumps i (map answer_call cs) = Inr cs"
proof (induction cs)
  case (Cons c cs)
  then show ?case
    by (cases c) (auto simp: named_calls_def answer_call_def dict_get_def Let_def)
qed (simp add: named_calls_def)

lemma answer_comes_back:
  assumes "named_calls (co_tool_calls resp)"
  shows "convert_message fl dumps i (assistant_answer resp) = Inr (Turn (assistant_message resp))"
  using request_calls_answer [OF assms, of fl dumps i]
  by (auto simp: convert_message_def assistant_answer_def assistant_message_def opt_get_def chat_content_def
      raw_calls_def turn_def Let_def)

end
