(* ===== verification/Gateway.thy ===== *)
theory Gateway
  imports Router_Stream Router_Hedge Usage_Ledger Executor Approvals
begin

text \<open>
  The part of \<open>api/routes.py\<close> that every endpoint shares (errors as HTTP answers, budgets before a request,
  bookings after it) and its own completion endpoints. A request runs in the router's world, whose rest holds
  the budgets, the usage ledger and the tools.
\<close>

section \<open>The world of the gateway\<close>

record tools_runtime =
  trt_enabled :: bool
  trt_grants :: "(string \<times> string list) list"
  trt_registry :: registry
  trt_approvals :: approval_store
  trt_max_permission :: permission

text \<open>
  \<open>gw_begun\<close> are the responses whose stream has given its first chunk; \<open>gw_raised\<close> is the exception in
  flight while the tool loop passes it on.
\<close>

datatype raised = RaisedExn exn | RaisedPlan plan_error

record 'y gateway =
  gw_ready :: bool
  gw_budgets :: "budget_manager option"
  gw_ledger :: usage_ledger
  gw_tools :: "tools_runtime option"
  gw_begun :: "string list"
  gw_raised :: "raised option"
  gw_rest :: 'y

type_synonym 'y gw = "'y gateway world"

definition on_gw :: "('y gateway \<Rightarrow> 'y gateway) \<Rightarrow> 'y gw \<Rightarrow> 'y gw" where
  "on_gw f w = w\<lparr>wd_ext := f (wd_ext w)\<rparr>"

datatype sse = Data pyval | ErrorEvent pyval | DoneMark

datatype asked = Got completion | Failed raised | Gone

text \<open>
  \<open>ge_router\<close>, \<open>ge_stream\<close> and \<open>ge_hedge\<close> are the environments of the router's calls, streams and hedged calls,
  \<open>ge_send\<close> hands the next frame to the client, which may have left; \<open>ge_text\<close> and
  \<open>ge_plan_text\<close> are \<open>str\<close> of an exception.
\<close>

record 'y gateway_env =
  ge_router :: "'y gateway renv"
  ge_stream :: "'y gateway stream_env"
  ge_hedge :: "'y gateway hedge_env"
  ge_clock :: "'y gw \<Rightarrow> time"
  ge_send :: "'y gw \<Rightarrow> unit outcome \<times> 'y gw"
  ge_text :: "exn \<Rightarrow> string"
  ge_plan_text :: "plan_error \<Rightarrow> string"

section \<open>Errors as HTTP answers\<close>

record http_exc =
  he_status :: int
  he_detail :: pyval
  he_headers :: "(string \<times> string) list"

definition plain_http :: "int \<Rightarrow> string \<Rightarrow> http_exc" where
  "plain_http status detail = \<lparr> he_status = status, he_detail = PStr detail, he_headers = [] \<rparr>"

definition ERROR_RESPONSES :: "(error_kind \<times> int \<times> string) list" where
  "ERROR_RESPONSES =
     [(RATE_LIMIT, 429, ''Provider rate limit reached; retry later.''),
      (OVERLOADED, 503, ''Provider is overloaded; retry later.''),
      (TIMEOUT, 504, ''Provider timed out.''),
      (DEADLINE, 504, ''Request deadline exceeded.''),
      (CONNECTION, 502, ''Could not reach the provider.''),
      (SERVER_ERROR, 502, ''Provider returned an error.''),
      (AUTH, 502, ''Provider rejected the gateway'' @ [CHR 0x27] @ ''s credentials.''),
      (QUOTA, 502, ''Provider quota is exhausted.''),
      (CIRCUIT_OPEN, 503, ''Provider temporarily unavailable.'')]"

definition int_text :: "int \<Rightarrow> string" where
  "int_text n = (if n < 0 then CHR ''-'' # show_nat (nat (- n)) else show_nat (nat n))"

definition retry_after_header :: "real option \<Rightarrow> (string \<times> string) list" where
  "retry_after_header seconds =
     (case seconds of None \<Rightarrow> [] | Some s \<Rightarrow> [(''Retry-After'', int_text (max 1 \<lceil>s\<rceil>))])"

definition budget_error :: "budget_exceeded \<Rightarrow> http_exc" where
  "budget_error x =
     \<lparr> he_status = 429,
       he_detail = PDict [(''error'', PStr ''budget_exceeded''), (''limit'', PStr (be_limit x)),
                          (''used'', PFloat (be_used x)), (''cap'', PFloat (be_cap x))],
       he_headers = [(''Retry-After'', int_text \<lceil>be_retry_after x\<rceil>)] \<rparr>"

text \<open>A \<open>ValueError\<close>: the validation of the gateway, or one that a provider's adapter raised.\<close>

fun is_value_error :: "raised \<Rightarrow> bool" where
  "is_value_error (RaisedPlan (AllProvidersUnavailable fs ra)) = False"
| "is_value_error (RaisedPlan (OverBudget x)) = False"
| "is_value_error (RaisedPlan e) = True"
| "is_value_error (RaisedExn (ProviderError e)) = (''ValueError'' \<in> set (se_mro e))"
| "is_value_error (RaisedExn e) = False"

definition raised_text :: "'y gateway_env \<Rightarrow> raised \<Rightarrow> string" where
  "raised_text E r = (case r of RaisedExn e \<Rightarrow> ge_text E e | RaisedPlan e \<Rightarrow> ge_plan_text E e)"

definition classified_error :: "'y gateway_env \<Rightarrow> time \<Rightarrow> exn \<Rightarrow> http_exc" where
  "classified_error E now e =
     (let info = classify now e in
      if ei_kind info = BAD_REQUEST
      then plain_http 400 (''Provider rejected the request: '' @ take 300 (ge_text E e))
      else case map_of ERROR_RESPONSES (ei_kind info) of
             Some (code, message) \<Rightarrow>
               \<lparr> he_status = code, he_detail = PStr message, he_headers = retry_after_header (ei_retry_after info) \<rparr>
           | None \<Rightarrow> plain_http 500 ''Internal error.'')"

definition http_error :: "'y gateway_env \<Rightarrow> time \<Rightarrow> raised \<Rightarrow> http_exc" where
  "http_error E now r =
     (if is_value_error r then plain_http 400 (raised_text E r)
      else case r of
          RaisedPlan (OverBudget x) \<Rightarrow> budget_error x
        | RaisedPlan (AllProvidersUnavailable fs ra) \<Rightarrow>
            \<lparr> he_status = 503,
              he_detail = PDict [(''error'', PStr ''all_providers_unavailable''),
                (''failures'', PList (map (\<lambda>(n, k). PDict [(''provider'', PStr n), (''reason'', PStr (kind_value k))]) fs))],
              he_headers = retry_after_header ra \<rparr>
        | RaisedPlan e \<Rightarrow> plain_http 500 ''Internal error.''
        | RaisedExn e \<Rightarrow> classified_error E now e)"

section \<open>Budgets and bookings\<close>

text \<open>\<open>_budget_check\<close>: the caller's budget, then the cap of the model that was asked for.\<close>

definition budget_gate_check ::
  "'y gateway_env \<Rightarrow> string \<Rightarrow> string option \<Rightarrow> 'y gw \<Rightarrow> budget_exceeded option \<times> 'y gw" where
  "budget_gate_check E subject model w =
     (case gw_budgets (wd_ext w) of
        None \<Rightarrow> (None, w)
      | Some b \<Rightarrow>
          (case budget_check (ge_clock E w) subject 0 b of
             (Inl x, b) \<Rightarrow> (Some x, on_gw (\<lambda>g. g\<lparr>gw_budgets := Some b\<rparr>) w)
           | (Inr _, b) \<Rightarrow>
               (case check_model (ge_clock E w) (or_empty model) b of
                  (Inl x, b) \<Rightarrow> (Some x, on_gw (\<lambda>g. g\<lparr>gw_budgets := Some b\<rparr>) w)
                | (Inr _, b) \<Rightarrow> (None, on_gw (\<lambda>g. g\<lparr>gw_budgets := Some b\<rparr>) w))))"

text \<open>\<open>_bind_model_gate\<close>: the router asks the budgets about the model it picks.\<close>

definition model_gate :: "'y gateway_env \<Rightarrow> 'y gw \<Rightarrow> budget_gate" where
  "model_gate E w =
     (case gw_budgets (wd_ext w) of
        None \<Rightarrow> None
      | Some b \<Rightarrow> Some (\<lambda>m. case fst (check_model (ge_clock E w) m b) of Inl x \<Rightarrow> Some x | Inr _ \<Rightarrow> None))"

definition bind_model_gate :: "'y gateway_env \<Rightarrow> 'y gateway renv" where
  "bind_model_gate E = (ge_router E)\<lparr>re_budget := model_gate E\<rparr>"

definition budget_book ::
  "'y gateway_env \<Rightarrow> string \<Rightarrow> real \<Rightarrow> int \<Rightarrow> string option \<Rightarrow> 'y gw \<Rightarrow> 'y gw" where
  "budget_book E subject cost tokens model w =
     on_gw (\<lambda>g. g\<lparr>gw_budgets := map_option (\<lambda>b. record_model (ge_clock E w) (or_empty model) cost tokens 1
                    (budget_record (ge_clock E w) subject cost tokens b)) (gw_budgets g)\<rparr>) w"

definition ledger_book ::
  "'y gateway_env \<Rightarrow> string \<Rightarrow> string \<Rightarrow> string \<Rightarrow> int \<Rightarrow> int \<Rightarrow> real \<Rightarrow> 'y gw \<Rightarrow> 'y gw" where
  "ledger_book E subject provider model i ou cost w =
     on_gw (\<lambda>g. g\<lparr>gw_ledger := ledger_record (ge_clock E w) subject provider model i ou cost 1 (gw_ledger g)\<rparr>) w"

text \<open>\<open>_budget_record\<close> and \<open>_ledger_record\<close> of an answer.\<close>

definition book_answered :: "'y gateway_env \<Rightarrow> string \<Rightarrow> completion \<Rightarrow> 'y gw \<Rightarrow> 'y gw" where
  "book_answered E subject resp w =
     ledger_book E subject (co_provider resp) (co_model resp) (co_input_tokens resp) (co_output_tokens resp) (co_cost_usd resp)
       (budget_book E subject (co_cost_usd resp) (co_input_tokens resp + co_output_tokens resp) (Some (co_model resp)) w)"

text \<open>\<open>_budget_record_stream\<close>: a row for every stream, its cost for those that gave output.\<close>

definition book_stream :: "'y gateway_env \<Rightarrow> string \<Rightarrow> stream_usage option \<Rightarrow> 'y gw \<Rightarrow> 'y gw" where
  "book_stream E subject u w =
     (case u of
        None \<Rightarrow> ledger_book E subject [] [] 0 0 0 w
      | Some u \<Rightarrow>
          (let w = ledger_book E subject (su_provider u) (su_model u) (su_input_tokens u) (su_output_tokens u) (su_cost_usd u) w;
               tokens = su_input_tokens u + su_output_tokens u
           in if su_provider u = [] then w
              else on_gw (\<lambda>g. g\<lparr>gw_budgets := map_option (\<lambda>b.
                     record_model (ge_clock E w) (su_model u) (su_cost_usd u) tokens 1
                       (add_usage (ge_clock E w) subject (su_cost_usd u) tokens b)) (gw_budgets g)\<rparr>) w))"

section \<open>Asking the router\<close>

text \<open>\<open>Hedging\<close> would be a race that goes on after both legs have ended; there is none (\<open>race_ends\<close>).\<close>

definition ask_router ::
  "'y gateway_env \<Rightarrow> request \<Rightarrow> string option \<Rightarrow> 'y gw \<Rightarrow> asked \<times> 'y gw" where
  "ask_router E q preferred w =
     (case route_hedging (bind_model_gate E) (ge_hedge E) q preferred None w of
        (Answer resp fs, w) \<Rightarrow> (Got resp, w)
      | (Raised e, w) \<Rightarrow> (Failed (RaisedExn e), w)
      | (Unavailable fs ra, w) \<Rightarrow> (Failed (RaisedPlan (AllProvidersUnavailable fs ra)), w)
      | (NotPlanned e, w) \<Rightarrow> (Failed (RaisedPlan e), w)
      | (Cancelled, w) \<Rightarrow> (Gone, w)
      | (Hedging s cands, w) \<Rightarrow> (Gone, w))"

text \<open>
  A handler takes the first chunk, counts the request (\<open>_budget_record\<close>), sends \<open>extra\<close> frames of its own and
  then a frame for each chunk; a client that leaves cancels the stream. \<open>cid\<close> names the response.
\<close>

fun send_frames :: "'y gateway_env \<Rightarrow> nat \<Rightarrow> 'y gw \<Rightarrow> unit outcome \<times> 'y gw" where
  "send_frames E 0 w = (Ret (), w)"
| "send_frames E (Suc n) w =
     (case ge_send E w of (Ret _, w) \<Rightarrow> send_frames E n w | (r, w) \<Rightarrow> (r, w))"

definition begin_response :: "'y gateway_env \<Rightarrow> string \<Rightarrow> string \<Rightarrow> 'y gw \<Rightarrow> 'y gw" where
  "begin_response E subject cid w =
     on_gw (\<lambda>g. g\<lparr>gw_begun := cid # gw_begun g\<rparr>) (budget_book E subject 0 0 None w)"

definition on_chunk ::
  "'y gateway_env \<Rightarrow> string \<Rightarrow> string \<Rightarrow> nat \<Rightarrow> string \<Rightarrow> 'y gw \<Rightarrow> unit outcome \<times> 'y gw" where
  "on_chunk E subject cid extra c w =
     (if cid \<in> set (gw_begun (wd_ext w)) then send_frames E 1 w
      else send_frames E (Suc extra) (begin_response E subject cid w))"

definition chunk_sink :: "'y gateway_env \<Rightarrow> string \<Rightarrow> string \<Rightarrow> nat \<Rightarrow> 'y gateway stream_env" where
  "chunk_sink E subject cid extra = (ge_stream E)\<lparr>sv_yield := on_chunk E subject cid extra\<rparr>"

datatype stream_reply = Refusal raised | Frames stream_result | LeftEarly

text \<open>
  Opening: a failure before the first chunk is raised, one after it is part of the response. When the response
  has ended, its usage is booked.
\<close>

definition run_stream ::
  "'y gateway_env \<Rightarrow> nat \<Rightarrow> string \<Rightarrow> string \<Rightarrow> nat \<Rightarrow> request \<Rightarrow> string option \<Rightarrow> 'y gw
     \<Rightarrow> stream_reply \<times> 'y gw" where
  "run_stream E k subject cid extra q preferred w =
     (case stream (bind_model_gate E) (chunk_sink E subject cid extra) k q preferred None w of
        (res, w) \<Rightarrow>
          (if sr_chunks res = [] then
             (case sr_end res of
                Finished \<Rightarrow> (Frames res, book_stream E subject (sr_usage res) (begin_response E subject cid w))
              | Broken e \<Rightarrow> (Refusal (RaisedExn e), w)
              | NoProvider fs ra \<Rightarrow> (Refusal (RaisedPlan (AllProvidersUnavailable fs ra)), w)
              | Rejected e \<Rightarrow> (Refusal (RaisedPlan e), w)
              | ClientGone \<Rightarrow> (LeftEarly, w)
              | StillOpen \<Rightarrow> (Frames res, w))
           else if sr_end res = StillOpen then (Frames res, w)
           else (Frames res, book_stream E subject (sr_usage res) w)))"

section \<open>The gateway's own completions\<close>

record native_request =
  nr_messages :: "(string \<times> string) list"
  nr_policy :: "string option"
  nr_model :: "string option"
  nr_max_tokens :: int
  nr_temperature :: real
  nr_system_prompt :: "string option"
  nr_provider :: "string option"
  nr_stream :: bool

definition native_convert :: "bool \<Rightarrow> native_request \<Rightarrow> request" where
  "native_convert streaming body =
     \<lparr> rq_messages = map (\<lambda>(role, text). \<lparr> ms_role = role, ms_content = text, ms_tool_calls = [],
           ms_tool_call_id = None, ms_images = [] \<rparr>) (nr_messages body),
       rq_model = nr_model body, rq_max_tokens = nr_max_tokens body, rq_temperature = nr_temperature body,
       rq_stream = streaming, rq_system_prompt = nr_system_prompt body,
       rq_metadata = (if or_empty (nr_policy body) \<noteq> [] then [(''policy'', PStr (or_empty (nr_policy body)))] else []),
       rq_tools = [], rq_tool_choice = PNone, rq_response_format = PNone \<rparr>"

datatype native_reply =
    NativeAnswer completion
  | NativeFrames "sse list"
  | NativeRefused http_exc
  | NativeGone

definition native_frame :: "string \<Rightarrow> sse" where
  "native_frame c = Data (PDict [(''content'', PStr c)])"

text \<open>The frames of a stream that has given its first chunk: an error is an event and no end mark follows.\<close>

definition native_frames :: "time \<Rightarrow> stream_result \<Rightarrow> sse list" where
  "native_frames now res =
     map native_frame (sr_chunks res) @
     (case sr_end res of
        Finished \<Rightarrow> [DoneMark]
      | Broken e \<Rightarrow> [ErrorEvent (PDict [(''error'', PStr (kind_value (ei_kind (classify now e))))])]
      | _ \<Rightarrow> [])"

definition completions_stream ::
  "'y gateway_env \<Rightarrow> nat \<Rightarrow> string \<Rightarrow> string \<Rightarrow> native_request \<Rightarrow> 'y gw \<Rightarrow> native_reply \<times> 'y gw" where
  "completions_stream E k subject cid body w =
     (case budget_gate_check E subject (nr_model body) w of
        (Some x, w) \<Rightarrow> (NativeRefused (budget_error x), w)
      | (None, w) \<Rightarrow>
          (if \<not> gw_ready (wd_ext w) then (NativeRefused (plain_http 503 ''Router not initialized''), w)
           else case run_stream E k subject cid 0 (native_convert True body) (nr_provider body) w of
               (Refusal r, w) \<Rightarrow> (NativeRefused (http_error E (wall_of (ge_router E) w) r), w)
             | (LeftEarly, w) \<Rightarrow> (NativeGone, w)
             | (Frames res, w) \<Rightarrow> (NativeFrames (native_frames (wall_of (ge_router E) w) res), w)))"

definition completions ::
  "'y gateway_env \<Rightarrow> nat \<Rightarrow> string \<Rightarrow> string \<Rightarrow> native_request \<Rightarrow> 'y gw \<Rightarrow> native_reply \<times> 'y gw" where
  "completions E k subject cid body w =
     (if nr_stream body then completions_stream E k subject cid body w
      else case budget_gate_check E subject (nr_model body) w of
          (Some x, w) \<Rightarrow> (NativeRefused (budget_error x), w)
        | (None, w) \<Rightarrow>
            (if \<not> gw_ready (wd_ext w) then (NativeRefused (plain_http 503 ''Router not initialized''), w)
             else case ask_router E (native_convert False body) (nr_provider body) w of
                 (Got resp, w) \<Rightarrow> (NativeAnswer resp, book_answered E subject resp w)
               | (Failed r, w) \<Rightarrow> (NativeRefused (http_error E (wall_of (ge_router E) w) r), w)
               | (Gone, w) \<Rightarrow> (NativeGone, w)))"

end
