(* ===== verification/Chat_Gateway.thy ===== *)
theory Chat_Gateway
  imports Openai_Convert Gateway
begin

text \<open>
  The handlers of \<open>api/openai_compat.py\<close>: \<open>/v1/chat/completions\<close> plain, streamed and with the gateway's own
  tools, and \<open>/v1/embeddings\<close>.
\<close>

section \<open>The environment\<close>

text \<open>
  \<open>ch_rules\<close> is the parsed guardrails file; \<open>ch_schema_error\<close> is \<open>_schema_error\<close> (JSON and \<open>jsonschema\<close>);
  \<open>ch_finish\<close> and \<open>ch_stream_finish\<close> are the \<open>finish_reason\<close> a provider left in the metadata of an answer, if
  the key is there, and in the usage of a stream; \<open>ch_cost_text\<close> and \<open>ch_round\<close> write and round numbers;
  \<open>ch_embed texts model\<close> is \<open>wait_for(p.embed(texts, model), t)\<close> and \<open>ch_bill\<close> the price of a call.
\<close>

record 'y chat_env =
  ch_gate :: "'y gateway_env"
  ch_guard :: guard_lib
  ch_rules :: "(string \<times> pyval) list"
  ch_float :: "pyval \<Rightarrow> string"
  ch_dumps :: "pyval \<Rightarrow> string"
  ch_schema_error :: "string \<Rightarrow> pyval \<Rightarrow> string option"
  ch_finish :: "completion \<Rightarrow> pyval option"
  ch_stream_finish :: "stream_usage \<Rightarrow> pyval"
  ch_exec :: "'y gw exec_env"
  ch_approval_dumps :: "pyval \<Rightarrow> string"
  ch_cost_text :: "real \<Rightarrow> string"
  ch_round :: "real \<Rightarrow> real"
  ch_embed :: "string list \<Rightarrow> string option \<Rightarrow> string \<Rightarrow> real \<Rightarrow> 'y gw \<Rightarrow> (real list list \<times> int \<times> string) outcome \<times> 'y gw"
  ch_bill :: "string \<Rightarrow> string \<Rightarrow> int \<Rightarrow> int \<Rightarrow> real"

definition from_http :: "(pyval \<Rightarrow> string) \<Rightarrow> http_exc \<Rightarrow> compat_error" where
  "from_http fl h =
     (let code = dict_get (he_detail h) ''error''; s = he_status h in
      \<lparr> ce_status = s,
        ce_message = (case he_detail h of
           PDict d \<Rightarrow> py_str fl (or_else (or_else (opt_get d ''message'' PNone) code) (PStr ''request failed''))
         | v \<Rightarrow> py_str fl v),
        ce_type = (if s = 429 then ''rate_limit_error'' else if s = 401 \<or> s = 403 then ''authentication_error''
                   else if s < 500 then ''invalid_request_error'' else ''server_error''),
        ce_code = (case code of PStr c \<Rightarrow> Some c | _ \<Rightarrow> None), ce_param = None, ce_headers = he_headers h \<rparr>)"

section \<open>Filters\<close>

definition blocked :: "int \<Rightarrow> string \<Rightarrow> string \<Rightarrow> string option \<Rightarrow> string list \<Rightarrow> convert_error" where
  "blocked status what etype param reasons = Compat
     \<lparr> ce_status = status, ce_message = what @ '' blocked by content policy: '' @ intercalate '', '' reasons,
       ce_type = etype, ce_code = Some ''content_filter'', ce_param = param, ce_headers = [] \<rparr>"

definition input_blocked :: "string list \<Rightarrow> convert_error" where
  "input_blocked = blocked 400 ''Request'' ''invalid_request_error'' (Some ''messages'')"

text \<open>One text of a request; an empty one is not looked at.\<close>

definition filter_text :: "guard_lib \<Rightarrow> filter_policy \<Rightarrow> string \<Rightarrow> convert_error + string" where
  "filter_text G p s =
     (if s = [] then Inr s
      else let r = apply_filter G s p in if fr_allowed r then Inr (fr_text r) else Inl (input_blocked (fr_reasons r)))"

fun filter_messages :: "guard_lib \<Rightarrow> filter_policy \<Rightarrow> message list \<Rightarrow> convert_error + message list" where
  "filter_messages G p [] = Inr []"
| "filter_messages G p (m # ms) =
     (case filter_text G p (ms_content m) of
        Inl e \<Rightarrow> Inl e
      | Inr t \<Rightarrow> (case filter_messages G p ms of
                   Inl e \<Rightarrow> Inl e | Inr ms \<Rightarrow> Inr (m\<lparr>ms_content := t\<rparr> # ms)))"

definition filter_request :: "guard_lib \<Rightarrow> filter_policy \<Rightarrow> request \<Rightarrow> convert_error + request" where
  "filter_request G p q =
     (case filter_messages G p (rq_messages q) of
        Inl e \<Rightarrow> Inl e
      | Inr ms \<Rightarrow>
          (case rq_system_prompt q of
             None \<Rightarrow> Inr (q\<lparr>rq_messages := ms\<rparr>)
           | Some s \<Rightarrow> (case filter_text G p s of
                          Inl e \<Rightarrow> Inl e | Inr t \<Rightarrow> Inr (q\<lparr>rq_messages := ms, rq_system_prompt := Some t\<rparr>))))"

definition filter_input :: "'y chat_env \<Rightarrow> string \<Rightarrow> request \<Rightarrow> convert_error + request" where
  "filter_input E subject q =
     (case for_subject (ch_guard E) (ch_rules E) subject of
        None \<Rightarrow> Inl Crash
      | Some (None, out) \<Rightarrow> Inr q
      | Some (Some p, out) \<Rightarrow> filter_request (ch_guard E) p q)"

definition filter_output :: "'y chat_env \<Rightarrow> string \<Rightarrow> completion \<Rightarrow> convert_error + completion" where
  "filter_output E subject resp =
     (case for_subject (ch_guard E) (ch_rules E) subject of
        None \<Rightarrow> Inl Crash
      | Some (i, None) \<Rightarrow> Inr resp
      | Some (i, Some p) \<Rightarrow>
          (if co_content resp = [] then Inr resp
           else let r = apply_filter (ch_guard E) (co_content resp) p
                in if fr_allowed r then Inr (resp\<lparr>co_content := fr_text r\<rparr>)
                   else Inl (blocked 502 ''Response'' ''api_error'' None (fr_reasons r))))"

section \<open>Asking the router\<close>

datatype answered =
    Answered completion "pyval option" "tool_step list option"
  | Declined convert_error
  | Failing raised
  | ClientLeft

text \<open>\<open>metadata\<close> of the second answer over that of the first, which has no tool calls.\<close>

definition merged :: "'a option \<Rightarrow> 'a option \<Rightarrow> 'a option" where
  "merged first second = (case second of None \<Rightarrow> first | Some x \<Rightarrow> Some x)"

definition retry_message :: "string \<Rightarrow> message" where
  "retry_message err =
     \<lparr> ms_role = ''user'',
       ms_content = ''Your last reply did not match the JSON schema: '' @ err @
         ''. Reply again with only JSON that matches the schema.'',
       ms_tool_calls = [], ms_tool_call_id = None, ms_images = [] \<rparr>"

definition schema_failed :: "string \<Rightarrow> convert_error" where
  "schema_failed err = Compat
     \<lparr> ce_status = 502, ce_message = ''Model output did not match response_format schema: '' @ err,
       ce_type = ''server_error'', ce_code = Some ''schema_validation_failed'',
       ce_param = Some ''response_format'', ce_headers = [] \<rparr>"

text \<open>The second request is converted from the body again, so it is not the filtered one.\<close>

definition retry_request :: "'y chat_env \<Rightarrow> chat_request \<Rightarrow> completion \<Rightarrow> string \<Rightarrow> convert_error + request" where
  "retry_request E body resp err =
     (case convert_chat (ch_float E) (ch_dumps E) body of
        Inl e \<Rightarrow> Inl e
      | Inr q \<Rightarrow> Inr (q\<lparr>rq_stream := False,
            rq_messages := rq_messages q @
              [\<lparr> ms_role = ''assistant'', ms_content = co_content resp, ms_tool_calls = [], ms_tool_call_id = None,
                 ms_images = [] \<rparr>, retry_message err]\<rparr>))"

definition add_answers :: "completion \<Rightarrow> completion \<Rightarrow> completion" where
  "add_answers first second =
     second\<lparr>co_cost_usd := co_cost_usd second + co_cost_usd first,
            co_input_tokens := co_input_tokens second + co_input_tokens first,
            co_output_tokens := co_output_tokens second + co_output_tokens first\<rparr>"

definition route_validated ::
  "'y chat_env \<Rightarrow> request \<Rightarrow> chat_request \<Rightarrow> 'y gw \<Rightarrow> answered \<times> 'y gw" where
  "route_validated E q body w =
     (case ask_router (ch_gate E) (q\<lparr>rq_stream := False\<rparr>) (cq_provider body) w of
        (Failed r, w) \<Rightarrow> (Failing r, w)
      | (Gone, w) \<Rightarrow> (ClientLeft, w)
      | (Got resp, w) \<Rightarrow>
          (case schema_of (format_of body) of
             None \<Rightarrow> (Answered resp (ch_finish E resp) None, w)
           | Some schema \<Rightarrow>
               (if co_tool_calls resp \<noteq> [] then (Answered resp (ch_finish E resp) None, w)
                else case ch_schema_error E (co_content resp) schema of
                    None \<Rightarrow> (Answered resp (ch_finish E resp) None, w)
                  | Some err \<Rightarrow>
                      (case retry_request E body resp err of
                         Inl e \<Rightarrow> (Declined e, w)
                       | Inr q2 \<Rightarrow>
                           (case ask_router (ch_gate E) q2 (cq_provider body) w of
                              (Failed r, w) \<Rightarrow> (Failing r, w)
                            | (Gone, w) \<Rightarrow> (ClientLeft, w)
                            | (Got resp2, w) \<Rightarrow>
                                (case ch_schema_error E (co_content resp2) schema of
                                   Some err2 \<Rightarrow> (Declined (schema_failed err2), w)
                                 | None \<Rightarrow> (Answered (add_answers resp resp2)
                                             (merged (ch_finish E resp) (ch_finish E resp2)) None, w)))))))"

section \<open>The gateway's own tools\<close>

text \<open>The tool loop runs in a world whose registry is taken out of the gateway's and put back.\<close>

definition on_tools :: "(tools_runtime \<Rightarrow> tools_runtime) \<Rightarrow> 'y gw \<Rightarrow> 'y gw" where
  "on_tools f = on_gw (\<lambda>g. g\<lparr>gw_tools := map_option f (gw_tools g)\<rparr>)"

definition allowed_tools :: "string \<Rightarrow> tools_runtime \<Rightarrow> string list" where
  "allowed_tools subject rt =
     (case map_of (trt_grants rt) subject of
        Some ts \<Rightarrow> ts
      | None \<Rightarrow> (case map_of (trt_grants rt) ''default'' of Some ts \<Rightarrow> ts | None \<Rightarrow> []))"

text \<open>The loop passes an exception on as it is; it is kept in \<open>gw_raised\<close>.\<close>

definition loop_route ::
  "'y chat_env \<Rightarrow> chat_request \<Rightarrow> request \<Rightarrow> 'y gw tool_world \<Rightarrow> completion outcome \<times> 'y gw tool_world" where
  "loop_route E body q tw =
     (case ask_router (ch_gate E) q (cq_provider body) (tw_ext tw) of
        (Got resp, w) \<Rightarrow> (Ret resp, tw\<lparr>tw_ext := w\<rparr>)
      | (Gone, w) \<Rightarrow> (Cancel, tw\<lparr>tw_ext := w\<rparr>)
      | (Failed r, w) \<Rightarrow> (Exc (case r of RaisedExn e \<Rightarrow> e | RaisedPlan p \<Rightarrow> DeadlineExceeded),
            tw\<lparr>tw_ext := on_gw (\<lambda>g. g\<lparr>gw_raised := Some r\<rparr>) w\<rparr>))"

definition consume_in_world :: "'y chat_env \<Rightarrow> 'y gw approver" where
  "consume_in_world E caller tool args tw =
     (let w = tw_ext tw in
      case gw_tools (wd_ext w) of
        None \<Rightarrow> (False, tw)
      | Some rt \<Rightarrow>
          (case consume_approval (ch_approval_dumps E) (ge_clock (ch_gate E) w) caller tool args (trt_approvals rt) of
             (ok, store) \<Rightarrow> (ok, tw\<lparr>tw_ext := on_tools (\<lambda>rt. rt\<lparr>trt_approvals := store\<rparr>) w\<rparr>)))"

definition python_error :: "string \<Rightarrow> string \<Rightarrow> exn" where
  "python_error name message = ProviderError
     \<lparr> se_mro = [name, ''Exception'', ''BaseException'', ''object''], se_is_timeout = False, se_is_connection = False,
       se_attrs = [], se_response = None, se_message = message \<rparr>"

definition tools_not_enabled :: convert_error where
  "tools_not_enabled = bad_code ''Tool execution is not enabled for this key.'' ''run_tools'' ''tools_not_enabled''"

definition approval_needed :: "tool_step \<Rightarrow> approval \<Rightarrow> convert_error" where
  "approval_needed step a = Compat
     \<lparr> ce_status = 409,
       ce_message = ''Tool '' @ squoted (ts_tool step) @ '' needs approval (id '' @ ap_id a @
         ''). Approve it, then repeat the request.'',
       ce_type = ''invalid_request_error'', ce_code = Some ''approval_required'', ce_param = Some ''run_tools'',
       ce_headers = [] \<rparr>"

definition DEFAULT_MAX_STEPS :: int where
  "DEFAULT_MAX_STEPS = 5"

text \<open>What the handler makes of the end of the loop.\<close>

definition loop_ended ::
  "'y chat_env \<Rightarrow> string \<Rightarrow> string \<Rightarrow> loop_result outcome \<Rightarrow> 'y gw \<Rightarrow> answered \<times> 'y gw" where
  "loop_ended E subject new_id res w =
     (case res of
        Cancel \<Rightarrow> (ClientLeft, w)
      | Exc e \<Rightarrow> (Failing (case gw_raised (wd_ext w) of Some r \<Rightarrow> r | None \<Rightarrow> RaisedExn e),
                  on_gw (\<lambda>g. g\<lparr>gw_raised := None\<rparr>) w)
      | Ret out \<Rightarrow>
          (case (lr_stop_reason out, lr_pending out, gw_tools (wd_ext w)) of
             (NeedsApproval, Some step, Some rt) \<Rightarrow>
               (case request_approval (ch_approval_dumps E) (ge_clock (ch_gate E) w) new_id subject (ts_tool step)
                       (ts_arguments step) (trt_approvals rt) of
                  (Inl m, store) \<Rightarrow> (Failing (RaisedExn (python_error ''RuntimeError'' m)),
                      on_tools (\<lambda>rt. rt\<lparr>trt_approvals := store\<rparr>) w)
                | (Inr a, store) \<Rightarrow> (Declined (approval_needed step a),
                      on_tools (\<lambda>rt. rt\<lparr>trt_approvals := store\<rparr>) w))
           | (NeedsApproval, _, _) \<Rightarrow> (Failing (RaisedExn (python_error ''AttributeError'' [])), w)
           | _ \<Rightarrow>
               (case lr_response out of
                  None \<Rightarrow> (Failing (RaisedExn (python_error ''AttributeError'' [])), w)
                | Some resp \<Rightarrow>
                    (Answered (resp\<lparr>co_cost_usd := lr_total_cost_usd out, co_input_tokens := lr_input_tokens out,
                                    co_output_tokens := lr_output_tokens out\<rparr>)
                       (ch_finish E resp) (Some (lr_steps out)), w))))"

definition route_with_tools ::
  "'y chat_env \<Rightarrow> string \<Rightarrow> string \<Rightarrow> request \<Rightarrow> chat_request \<Rightarrow> 'y gw \<Rightarrow> answered \<times> 'y gw" where
  "route_with_tools E subject new_id q body w =
     (case gw_tools (wd_ext w) of
        None \<Rightarrow> (Declined tools_not_enabled, w)
      | Some rt \<Rightarrow>
          (let allow = (if trt_enabled rt then allowed_tools subject rt else []);
               R = ge_router (ch_gate E);
               (ok, r) = can_offer_tools (now_of R w) (re_policies R w) q (cq_provider body) (wd_router w)
           in if allow = [] then (Declined tools_not_enabled, w)
              else case run_tool_loop (loop_route E body) (ch_exec E) q (Some allow) subject DEFAULT_MAX_STEPS None
                     (consume_in_world E) (trt_max_permission rt) (Some (\<lambda>_. ok))
                     \<lparr> tw_registry = trt_registry rt,
                       tw_ext = (if specs (Some allow) (trt_registry rt) \<noteq> [] then w\<lparr>wd_router := r\<rparr> else w) \<rparr> of
                (res, tw) \<Rightarrow>
                  loop_ended E subject new_id res (on_tools (\<lambda>rt. rt\<lparr>trt_registry := tw_registry tw\<rparr>) (tw_ext tw))))"

section \<open>Streams of frames\<close>

text \<open>\<open>_chunk\<close>: a frame with a delta, or one with the usage and no choice.\<close>

definition chunk_frame ::
  "string \<Rightarrow> int \<Rightarrow> string \<Rightarrow> (string \<times> pyval) list \<Rightarrow> pyval \<Rightarrow> pyval option \<Rightarrow> sse" where
  "chunk_frame cid created model delta finish usage = Data (PDict
     ([(''id'', PStr cid), (''object'', PStr ''chat.completion.chunk''), (''created'', PInt created),
       (''model'', PStr model),
       (''choices'', PList (if usage \<noteq> None then []
          else [PDict [(''index'', PInt 0), (''delta'', PDict delta), (''finish_reason'', finish)]]))] @
      (case usage of None \<Rightarrow> [] | Some u \<Rightarrow> [(''usage'', u)])))"

definition usage_value :: "int \<Rightarrow> int \<Rightarrow> int \<Rightarrow> pyval" where
  "usage_value i ou t = PDict
     [(''prompt_tokens'', PInt i), (''completion_tokens'', PInt ou), (''total_tokens'', PInt t)]"

definition include_usage :: "chat_request \<Rightarrow> bool" where
  "include_usage body \<longleftrightarrow> \<not> falsy (opt_get (cq_stream_options body) ''include_usage'' PNone)"

definition call_arguments_of :: "tool_call \<Rightarrow> pyval" where
  "call_arguments_of c = (case tc_arguments c of None \<Rightarrow> PNone | Some a \<Rightarrow> PStr a)"

text \<open>The two frames of tool call \<open>i\<close>: its head, then its arguments.\<close>

definition call_deltas :: "nat \<Rightarrow> tool_call \<Rightarrow> (string \<times> pyval) list list" where
  "call_deltas i c =
     [[(''tool_calls'', PList [PDict [(''index'', PInt (int i)), (''id'', PStr (tc_id c)), (''type'', PStr ''function''),
          (''function'', PDict [(''name'', PStr (tc_name c)), (''arguments'', PStr [])])]])],
      [(''tool_calls'', PList [PDict [(''index'', PInt (int i)),
          (''function'', PDict [(''arguments'', call_arguments_of c)])]])]]"

fun calls_deltas :: "nat \<Rightarrow> tool_call list \<Rightarrow> (string \<times> pyval) list list" where
  "calls_deltas i [] = []"
| "calls_deltas i (c # cs) = call_deltas i c @ calls_deltas (i + 1) cs"

definition role_delta :: "(string \<times> pyval) list" where
  "role_delta = [(''role'', PStr ''assistant''), (''content'', PStr [])]"

definition answer_deltas :: "completion \<Rightarrow> (string \<times> pyval) list list" where
  "answer_deltas resp =
     [role_delta] @ calls_deltas 0 (co_tool_calls resp) @
     (if co_content resp = [] then [] else [[(''content'', PStr (co_content resp))]])"

definition buffered_frames ::
  "string \<Rightarrow> int \<Rightarrow> completion \<Rightarrow> pyval \<Rightarrow> chat_request \<Rightarrow> sse list" where
  "buffered_frames cid created resp finish body =
     map (\<lambda>d. chunk_frame cid created (co_model resp) d PNone None) (answer_deltas resp) @
     [chunk_frame cid created (co_model resp) [] finish None] @
     (if include_usage body
      then [chunk_frame cid created (co_model resp) [] PNone (Some (usage_value (co_input_tokens resp)
              (co_output_tokens resp) (co_input_tokens resp + co_output_tokens resp)))] else []) @
     [DoneMark]"

definition or_stop :: "pyval option \<Rightarrow> pyval" where
  "or_stop v = (case v of None \<Rightarrow> PStr ''stop'' | Some f \<Rightarrow> or_else f (PStr ''stop''))"

text \<open>
  The frames of a live stream: the role, the chunks, and then either the finish and the usage or an error. A client
  that leaves gets no more.
\<close>

definition stream_model :: "chat_request \<Rightarrow> stream_usage option \<Rightarrow> string" where
  "stream_model body u =
     (let opened = (case u of None \<Rightarrow> [] | Some u \<Rightarrow> su_opened_model u)
      in if opened \<noteq> [] then opened
         else if or_empty (cq_model body) \<noteq> [] then or_empty (cq_model body) else ''auto'')"

definition broken_frame :: "error_kind \<Rightarrow> sse" where
  "broken_frame k = Data (error_envelope
     \<lparr> ce_status = 200, ce_message = ''The upstream provider failed mid-stream ('' @ kind_value k @ '').'',
       ce_type = ''server_error'', ce_code = Some (''stream_'' @ kind_value k), ce_param = None, ce_headers = [] \<rparr>)"

definition live_frames ::
  "'y chat_env \<Rightarrow> string \<Rightarrow> int \<Rightarrow> chat_request \<Rightarrow> time \<Rightarrow> stream_result \<Rightarrow> sse list" where
  "live_frames E cid created body now res =
     (let model = stream_model body (sr_usage res);
          frame = (\<lambda>d f u. chunk_frame cid created model d f u)
      in frame role_delta PNone None #
         map (\<lambda>c. frame [(''content'', PStr c)] PNone None) (sr_chunks res) @
         (case sr_end res of
            Finished \<Rightarrow>
              frame [] (or_stop (map_option (ch_stream_finish E) (sr_usage res))) None #
              (case sr_usage res of
                 None \<Rightarrow> []
               | Some u \<Rightarrow>
                   if include_usage body
                   then [frame [] PNone (Some (usage_value (su_input_tokens u) (su_output_tokens u)
                           (su_input_tokens u + su_output_tokens u)))] else []) @ [DoneMark]
          | Broken e \<Rightarrow> [broken_frame (ei_kind (classify now e)), DoneMark]
          | _ \<Rightarrow> []))"

section \<open>Chat completions\<close>

datatype chat_reply =
    ChatJson pyval "(string \<times> string) list"
  | ChatFrames "sse list" "(string \<times> string) list"
  | ChatError compat_error
  | ChatCrash
  | ChatGone

definition reply_of :: "convert_error \<Rightarrow> chat_reply" where
  "reply_of e = (case e of Compat c \<Rightarrow> ChatError c | Crash \<Rightarrow> ChatCrash)"

definition http_reply :: "'y chat_env \<Rightarrow> http_exc \<Rightarrow> chat_reply" where
  "http_reply E h = ChatError (from_http (ch_float E) h)"

definition raised_reply :: "'y chat_env \<Rightarrow> raised \<Rightarrow> 'y gw \<Rightarrow> chat_reply" where
  "raised_reply E r w = http_reply E (http_error (ch_gate E) (wall_of (ge_router (ch_gate E)) w) r)"

definition step_value :: "'y chat_env \<Rightarrow> tool_step \<Rightarrow> pyval" where
  "step_value E st = PDict
     [(''tool'', PStr (ts_tool st)), (''ok'', PBool (ts_ok st)),
      (''error'', case ts_error_code st of None \<Rightarrow> PNone | Some c \<Rightarrow> PStr c),
      (''duration_ms'', PFloat (ch_round E (ts_duration_ms st)))]"

definition answer_body ::
  "'y chat_env \<Rightarrow> string \<Rightarrow> int \<Rightarrow> completion \<Rightarrow> pyval \<Rightarrow> tool_step list option \<Rightarrow> pyval" where
  "answer_body E cid created resp finish steps = PDict
     ((case steps of None \<Rightarrow> [] | Some ss \<Rightarrow> [(''caips_tool_steps'', PList (map (step_value E) ss))]) @
      [(''id'', PStr cid), (''object'', PStr ''chat.completion''), (''created'', PInt created),
       (''model'', PStr (co_model resp)),
       (''choices'', PList [PDict [(''index'', PInt 0), (''message'', PDict (assistant_answer resp)),
          (''finish_reason'', finish)]]),
       (''usage'', usage_value (co_input_tokens resp) (co_output_tokens resp)
          (co_input_tokens resp + co_output_tokens resp))])"

definition buffers :: "chat_request \<Rightarrow> bool" where
  "buffers body \<longleftrightarrow> cq_tools body \<noteq> [] \<or> cq_run_tools body \<or> schema_of (format_of body) \<noteq> None"

text \<open>An answer is filtered, then booked, then sent.\<close>

definition deliver_answer ::
  "'y chat_env \<Rightarrow> string \<Rightarrow> string \<Rightarrow> int \<Rightarrow> chat_request \<Rightarrow> answered \<Rightarrow> 'y gw \<Rightarrow> chat_reply \<times> 'y gw" where
  "deliver_answer E subject cid created body a w =
     (case a of
        Declined e \<Rightarrow> (reply_of e, w)
      | Failing r \<Rightarrow> (raised_reply E r w, w)
      | ClientLeft \<Rightarrow> (ChatGone, w)
      | Answered resp fin steps \<Rightarrow>
          (case filter_output E subject resp of
             Inl e \<Rightarrow> (reply_of e, w)
           | Inr resp \<Rightarrow>
               (let w = book_answered (ch_gate E) subject resp w; finish = or_stop fin in
                if cq_stream body
                then (ChatFrames (buffered_frames cid created resp finish body)
                        [(''X-CaiPS-Provider'', co_provider resp)], w)
                else (ChatJson (answer_body E cid created resp finish steps)
                        [(''X-CaiPS-Provider'', co_provider resp),
                         (''X-CaiPS-Cost-USD'', ch_cost_text E (co_cost_usd resp))], w))))"

definition chat_live ::
  "'y chat_env \<Rightarrow> nat \<Rightarrow> string \<Rightarrow> string \<Rightarrow> int \<Rightarrow> request \<Rightarrow> chat_request \<Rightarrow> 'y gw \<Rightarrow> chat_reply \<times> 'y gw" where
  "chat_live E k subject cid created q body w =
     (case run_stream (ch_gate E) k subject cid 1 q (cq_provider body) w of
        (Refusal r, w) \<Rightarrow> (raised_reply E r w, w)
      | (LeftEarly, w) \<Rightarrow> (ChatGone, w)
      | (Frames res, w) \<Rightarrow>
          (ChatFrames (live_frames E cid created body (wall_of (ge_router (ch_gate E)) w) res) [], w))"

text \<open>What a request has to pass before the router sees it: conversion, the caller's models, the input filter.\<close>

definition cleared :: "'y chat_env \<Rightarrow> string \<Rightarrow> chat_request \<Rightarrow> convert_error + request" where
  "cleared E subject body =
     (case convert_chat (ch_float E) (ch_dumps E) body of
        Inl e \<Rightarrow> Inl e
      | Inr q \<Rightarrow>
          (case model_allowed (ch_guard E) (ch_rules E) subject (or_empty (cq_model body)) of
             None \<Rightarrow> Inl Crash
           | Some False \<Rightarrow> Inl (Compat
               \<lparr> ce_status = 403,
                 ce_message = ''Model '' @ gl_repr (ch_guard E)
                   (case cq_model body of None \<Rightarrow> PNone | Some m \<Rightarrow> PStr m) @ '' is not allowed for this key'',
                 ce_type = ''invalid_request_error'', ce_code = Some ''model_not_allowed'',
                 ce_param = Some ''model'', ce_headers = [] \<rparr>)
           | Some True \<Rightarrow> filter_input E subject q))"

definition chat_completions ::
  "'y chat_env \<Rightarrow> nat \<Rightarrow> string \<Rightarrow> string \<Rightarrow> int \<Rightarrow> string \<Rightarrow> chat_request \<Rightarrow> 'y gw \<Rightarrow> chat_reply \<times> 'y gw" where
  "chat_completions E k subject cid created new_id body w =
     (case cleared E subject body of
        Inl e \<Rightarrow> (reply_of e, w)
      | Inr q \<Rightarrow>
          (case budget_gate_check (ch_gate E) subject (cq_model body) w of
             (Some x, w) \<Rightarrow> (http_reply E (budget_error x), w)
           | (None, w) \<Rightarrow>
               (if \<not> gw_ready (wd_ext w) then (http_reply E (plain_http 503 ''Router not initialized''), w)
                else if cq_stream body \<and> \<not> buffers body then chat_live E k subject cid created q body w
                else case (if cq_run_tools body then route_with_tools E subject new_id q body w
                           else route_validated E q body w) of
                    (a, w) \<Rightarrow> deliver_answer E subject cid created body a w)))"

section \<open>Embeddings\<close>

datatype embed_reply = EmbedAnswer pyval | EmbedError compat_error | EmbedGone

definition embed_refused :: "string \<Rightarrow> string \<Rightarrow> string \<Rightarrow> embed_reply" where
  "embed_refused message code param = EmbedError
     \<lparr> ce_status = 400, ce_message = message, ce_type = ''invalid_request_error'', ce_code = Some code,
       ce_param = Some param, ce_headers = [] \<rparr>"

definition embed_texts :: "pyval \<Rightarrow> string list option" where
  "embed_texts raw =
     (case raw of
        PStr s \<Rightarrow> if s = [] then None else Some [s]
      | PList vs \<Rightarrow> (case as_strings vs of
                      Some ts \<Rightarrow> if ts = [] \<or> [] \<in> set ts then None else Some ts | None \<Rightarrow> None)
      | _ \<Rightarrow> None)"

text \<open>
  A \<open>ValueError\<close> is the caller's fault, anything else the provider's; its kind is read from the exception,
  which for several providers is from the text of \<open>AllProvidersUnavailable\<close>.
\<close>

definition embed_failed :: "'y chat_env \<Rightarrow> time \<Rightarrow> raised \<Rightarrow> embed_reply" where
  "embed_failed E now r =
     (if is_value_error r
      then EmbedError \<lparr> ce_status = 400, ce_message = raised_text (ch_gate E) r, ce_type = ''invalid_request_error'',
             ce_code = Some ''invalid_value'', ce_param = None, ce_headers = [] \<rparr>
      else let k = ei_kind (classify now (case r of RaisedExn e \<Rightarrow> e
                    | RaisedPlan p \<Rightarrow> python_error ''RuntimeError'' (raised_text (ch_gate E) r)))
           in EmbedError \<lparr> ce_status = 502, ce_message = ''The upstream provider failed ('' @ kind_value k @ '').'',
                ce_type = ''server_error'', ce_code = Some (kind_value k), ce_param = None, ce_headers = [] \<rparr>)"

definition embed_body :: "real list list \<Rightarrow> int \<Rightarrow> string \<Rightarrow> pyval" where
  "embed_body vectors tokens used = PDict
     [(''object'', PStr ''list''), (''model'', PStr used),
      (''data'', PList (map (\<lambda>(i, v). PDict [(''object'', PStr ''embedding''), (''index'', PInt (int i)),
          (''embedding'', PList (map PFloat v))]) (enumerate 0 vectors))),
      (''usage'', PDict [(''prompt_tokens'', PInt tokens), (''total_tokens'', PInt tokens)])]"

record embed_request =
  eq_model :: "string option"
  eq_input :: pyval
  eq_encoding :: "string option"
  eq_provider :: "string option"

definition embed_answer ::
  "'y chat_env \<Rightarrow> string \<Rightarrow> embed_result \<Rightarrow> 'y gw \<Rightarrow> embed_reply \<times> 'y gw" where
  "embed_answer E subject res w =
     (let now = wall_of (ge_router (ch_gate E)) w in
      case res of
        EmbedRaised e \<Rightarrow> (embed_failed E now (RaisedExn e), w)
      | EmbedUnavailable fs ra \<Rightarrow> (embed_failed E now (RaisedPlan (AllProvidersUnavailable fs ra)), w)
      | EmbedUnknown n \<Rightarrow> (embed_failed E now (RaisedPlan (ProviderUnavailable n)), w)
      | NoEmbeddings \<Rightarrow> (embed_failed E now (RaisedPlan NothingCanServe), w)
      | EmbedCancelled \<Rightarrow> (EmbedGone, w)
      | Embedded vectors tokens used provider \<Rightarrow>
          (let cost = ch_bill E provider used tokens 0
           in (EmbedAnswer (embed_body vectors tokens used),
               ledger_book (ch_gate E) subject provider used tokens 0 cost
                 (budget_book (ch_gate E) subject cost tokens (Some used) w))))"

definition create_embeddings ::
  "'y chat_env \<Rightarrow> string \<Rightarrow> embed_request \<Rightarrow> 'y gw \<Rightarrow> embed_reply \<times> 'y gw" where
  "create_embeddings E subject body w =
     (case embed_texts (eq_input body) of
        None \<Rightarrow> (embed_refused ''input must be a non-empty string or list of non-empty strings.'' ''invalid_value'' ''input'', w)
      | Some texts \<Rightarrow>
          (if eq_encoding body \<noteq> None \<and> eq_encoding body \<noteq> Some ''float''
           then (embed_refused (''Only encoding_format '' @ squoted ''float'' @ '' is supported.'') ''unsupported_parameter'' ''encoding_format'', w)
           else if \<not> gw_ready (wd_ext w)
           then (EmbedError (from_http (ch_float E) (plain_http 503 ''Router not initialized'')), w)
           else case budget_gate_check (ch_gate E) subject (eq_model body) w of
               (Some x, w) \<Rightarrow> (EmbedError (from_http (ch_float E) (budget_error x)), w)
             | (None, w) \<Rightarrow>
                 (case embed ((ge_router (ch_gate E))\<lparr>re_embed := ch_embed E texts (eq_model body)\<rparr>) (eq_provider body) w of
                    (res, w) \<Rightarrow> embed_answer E subject res w)))"

text \<open>
  \<open>/v1/models\<close>: the catalogued models of the active providers, then their default models, then the names
  that stand for a policy. The catalogue gives pairs of provider and model.
\<close>

fun default_models :: "(string \<times> string) list \<Rightarrow> (string, string) odict \<Rightarrow> (string, string) odict" where
  "default_models [] seen = seen"
| "default_models ((n, m) # ds) seen =
     default_models ds (if m = [] \<or> od_has seen m then seen else od_set m n seen)"

definition models_seen :: "(string \<times> string) list \<Rightarrow> (string \<times> string) list \<Rightarrow> (string, string) odict" where
  "models_seen catalogue defaults =
     default_models defaults
       (fold (\<lambda>(p, m) seen. if p \<in> set (map fst defaults) then od_set m p seen else seen) catalogue [])"

definition listed_model :: "string \<Rightarrow> string \<Rightarrow> pyval" where
  "listed_model m owner = PDict
     [(''id'', PStr m), (''object'', PStr ''model''), (''created'', PInt 0), (''owned_by'', PStr owner)]"

definition list_models_openai ::
  "(string \<times> string) list \<Rightarrow> (string \<times> string) list \<Rightarrow> string list \<Rightarrow> (string \<Rightarrow> bool) \<Rightarrow> pyval list" where
  "list_models_openai catalogue defaults aliases has_policy =
     map (\<lambda>(m, owner). listed_model m owner) (sort_key fst (models_seen catalogue defaults)) @
     map (\<lambda>a. listed_model a ''caips'') (filter has_policy (sort aliases))"

end
