(* ===== verification/Chat_Sample.thy ===== *)
theory Chat_Sample
  imports Chat_Gateway
begin

text \<open>A small gateway on which the properties of the chat endpoint are applied.\<close>

definition chat_router :: "unit gateway renv" where
  "chat_router = \<lparr>re_env = \<lparr>clk = (\<lambda>w. 1), wall = (\<lambda>w. 1), slp = (\<lambda>d w. (Ret (), w)), rnd = (\<lambda>w. (1 / 2, w))\<rparr>,
     re_complete = (\<lambda>n q t w. (Ret (sample_answer\<lparr>co_content := ''{}''\<rparr>), w)),
     re_embed = (\<lambda>n t w. (Cancel, w)),
     re_slot = (\<lambda>n w t L. (Ret True, 1, L)), re_wait = (\<lambda>n w t L. (Ret (), 1, L)),
     re_pass = (\<lambda>t w. w), re_policies = (\<lambda>w. None), re_budget = (\<lambda>w. None), re_digest = (\<lambda>m x. ''d'')\<rparr>"

definition chat_streams :: "unit gateway stream_env" where
  "chat_streams = \<lparr>sv_open = (\<lambda>n q w. (7, w)), sv_next = (\<lambda>g t w. (Ret None, w)), sv_close = (\<lambda>g w. (Ret (), w)),
     sv_yield = (\<lambda>x w. (Ret (), w)), sv_reports = (\<lambda>n w. [])\<rparr>"

definition chat_legs :: "unit gateway hedge_env" where
  "chat_legs = \<lparr>hv_start = (\<lambda>n q dl a w. w), hv_first = (\<lambda>n t w. (WaitCancelled, w)), hv_wait = (\<lambda>ns w. (None, w)),
     hv_await = (\<lambda>n w. (Cancel, w)), hv_drop = (\<lambda>ns w. (False, w)), hv_cancel = (\<lambda>ns w. w), hv_alive = (\<lambda>n w. False)\<rparr>"

definition plain_guard :: guard_lib where
  "plain_guard = \<lparr> gl_matches = (\<lambda>k s. if k = ''api_key'' \<and> s = ''sk-1'' then [(0, 4)] else []),
     gl_search = (\<lambda>p s. False), gl_compiles = (\<lambda>p. True), gl_fnmatch = (=), gl_repr = (\<lambda>v. []) \<rparr>"

definition chat_env0 :: "unit chat_env" where
  "chat_env0 =
     \<lparr> ch_gate = \<lparr> ge_router = chat_router, ge_stream = chat_streams, ge_hedge = chat_legs, ge_clock = (\<lambda>w. 1),
                    ge_send = (\<lambda>w. (Ret (), w)), ge_text = (\<lambda>e. []), ge_plan_text = (\<lambda>e. []) \<rparr>,
       ch_guard = plain_guard, ch_rules = [(''input'', PDict [(''block_secrets'', PBool True)])],
       ch_float = (\<lambda>v. []), ch_dumps = (\<lambda>v. []),
       ch_schema_error = (\<lambda>s v. if s = ''{}'' then None else Some ''not an object''), ch_finish = (\<lambda>r. None),
       ch_stream_finish = (\<lambda>u. PNone),
       ch_exec = \<lparr> xe_tools = \<lparr> te_clock = (\<lambda>w. 1), te_handler = (\<lambda>t a w. (HText [], w)), te_schema = (\<lambda>a s. None),
                                te_dumps = (\<lambda>v. []) \<rparr>,
                   xe_loads = (\<lambda>s. Inr (PDict [])), xe_str = (\<lambda>e. []), xe_scan = (\<lambda>t. []) \<rparr>,
       ch_approval_dumps = (\<lambda>v. []), ch_cost_text = (\<lambda>r. []), ch_round = (\<lambda>r. r),
       ch_embed = (\<lambda>ts m n t w. (Cancel, w)), ch_bill = (\<lambda>p m i ou. 0) \<rparr>"

definition chat_world :: "unit gw" where
  "chat_world = \<lparr> wd_router = two_providers,
     wd_ext = \<lparr> gw_ready = True, gw_budgets = None,
       gw_ledger = \<lparr> ul_retention_seconds = 86400, ul_max_rows = 10, ul_rows = [] \<rparr>, gw_tools = None, gw_begun = [],
       gw_raised = None, gw_rest = () \<rparr> \<rparr>"

definition chat_body :: "string \<Rightarrow> bool \<Rightarrow> chat_request" where
  "chat_body t streamed =
     \<lparr> cq_model = None, cq_messages = [[(''role'', PStr ''user''), (''content'', PStr t)]], cq_max_tokens = None,
       cq_max_completion_tokens = None, cq_temperature = None, cq_stream = streamed, cq_stream_options = [], cq_n = None,
       cq_response_format = Some [(''type'', PStr ''json_schema''), (''json_schema'', PDict [(''schema'', PDict [])])],
       cq_tools = [], cq_tool_choice = PNone, cq_provider = Some ''box'', cq_metadata = [], cq_policy = None,
       cq_run_tools = False, cq_extra = [] \<rparr>"

lemmas chat_sample_defs = chat_env0_def chat_router_def chat_world_def

definition chat_request0 :: "string \<Rightarrow> bool \<Rightarrow> request" where
  "chat_request0 t streamed =
     \<lparr> rq_messages = [\<lparr> ms_role = ''user'', ms_content = t, ms_tool_calls = [], ms_tool_call_id = None, ms_images = [] \<rparr>],
       rq_model = None, rq_max_tokens = 1024, rq_temperature = 7 / 10, rq_stream = streamed, rq_system_prompt = None,
       rq_metadata = [], rq_tools = [], rq_tool_choice = PNone,
       rq_response_format = PDict [(''type'', PStr ''json_schema''), (''json_schema'', PDict [(''schema'', PDict [])])] \<rparr>"

lemma chat_body_converts: "convert_chat fl dumps (chat_body t streamed) = Inr (chat_request0 t streamed)"
  by (simp add: convert_chat_def chat_body_def chat_request0_def REFUSED_def check_response_format_def opt_get_def
      format_of_def check_tools_def check_choice_def convert_message_def chat_content_def turn_def inline_bytes_def
      MAX_IMAGE_BYTES_def build_request_def policy_metadata_def text_or_none_def Let_def)

lemma sample_filter: "filter_input chat_env0 subject (chat_request0 ''hi'' streamed) = Inr (chat_request0 ''hi'' streamed)"
  by (simp add: filter_input_def chat_env0_def chat_request0_def for_subject_def subject_policy_def global_policy_def
      subject_section_def policy_from_dict_def opt_get_def filter_request_def filter_text_def apply_filter_def detect_def
      SECRET_KINDS_def DEFAULT_KINDS_def RULE_KINDS_def plain_guard_def kinds_of_def Let_def)

lemma sample_cleared: "cleared chat_env0 subject (chat_body ''hi'' streamed) = Inr (chat_request0 ''hi'' streamed)"
proof -
  have "model_allowed (ch_guard chat_env0) (ch_rules chat_env0) subject m = Some True" for m
    by (simp add: chat_env0_def model_allowed_def subject_section_def opt_get_def)
  then show ?thesis by (simp add: cleared_def chat_body_converts sample_filter)
qed

lemma sample_answers:
  "\<exists>w2. ask_router (ch_gate chat_env0) ((chat_request0 ''hi'' streamed)\<lparr>rq_stream := False\<rparr>) (Some ''box'') chat_world
     = (Got (sample_answer\<lparr>co_content := ''{}''\<rparr>), w2)"
  by (simp add: ask_router_def bind_model_gate_def model_gate_def chat_env0_def chat_router_def chat_world_def chat_request0_def
      route_hedging_def route_planned_hedging_def answered_by_def resolve_alias_def alias_policy_def validate_conversation_def is_role_def non_system_def blank_def VALID_ROLES_def planning_defs sample_defs
      cache_lookup_def may_cache_def hedge_delay_def on_router_def new_deadline_def
      enter_breaker_def breaker_defs now_of_def wall_of_def on_breaker_def call_provider_def one_call_def admit_call_def
      global_acquire_def get_limiter_def try_call_def timeout_for_def deadline_check_def
      expired_def clamp_def remaining_def settle_def release_slot_def global_release_def od_map_at_def attempts_for_def
      cache_response_def sample_answer_def eval_nat_numeral case_prod_unfold Let_def)

text \<open>The whole endpoint on it, plain and streamed, with an answer that is valid at once.\<close>

lemma sample_budget: "budget_gate_check E subject m chat_world = (None, chat_world)"
  by (simp add: budget_gate_check_def chat_world_def)

lemma sample_output: "filter_output chat_env0 subject resp = Inr resp"
  by (simp add: filter_output_def chat_env0_def for_subject_def subject_policy_def global_policy_def
      subject_section_def policy_from_dict_def opt_get_def)

lemma sample_validated:
  "\<exists>w2. route_validated chat_env0 (chat_request0 ''hi'' streamed) (chat_body ''hi'' streamed) chat_world
     = (Answered (sample_answer\<lparr>co_content := ''{}''\<rparr>) None None, w2)"
proof -
  obtain w2 where a: "ask_router (ch_gate chat_env0) ((chat_request0 ''hi'' streamed)\<lparr>rq_stream := False\<rparr>) (Some ''box'') chat_world
     = (Got (sample_answer\<lparr>co_content := ''{}''\<rparr>), w2)" using sample_answers by blast
  have "cq_provider (chat_body ''hi'' streamed) = Some ''box''"
    "schema_of (format_of (chat_body ''hi'' streamed)) = Some (PDict [])"
    by (simp_all add: chat_body_def schema_of_def format_of_def opt_get_def dict_get_def)
  moreover have "ch_schema_error chat_env0 ''{}'' v = None" "ch_finish chat_env0 r = None" for v r
    by (simp_all add: chat_env0_def)
  ultimately show ?thesis using a by (simp add: route_validated_def sample_answer_def)
qed

lemma sample_chat:
  "\<exists>w'. chat_completions chat_env0 0 ''ann'' ''c1'' 0 ''a1'' (chat_body ''hi'' False) chat_world
     = (ChatJson (answer_body chat_env0 ''c1'' 0 (sample_answer\<lparr>co_content := ''{}''\<rparr>) (PStr ''stop'') None)
         [(''X-CaiPS-Provider'', ''box''), (''X-CaiPS-Cost-USD'', [])], w')"
    and sample_chat_streamed:
  "\<exists>w'. chat_completions chat_env0 0 ''ann'' ''c1'' 0 ''a1'' (chat_body ''hi'' True) chat_world
     = (ChatFrames (buffered_frames ''c1'' 0 (sample_answer\<lparr>co_content := ''{}''\<rparr>) (PStr ''stop'') (chat_body ''hi'' True))
         [(''X-CaiPS-Provider'', ''box'')], w')"
proof -
  have ready: "gw_ready (wd_ext chat_world)" by (simp add: chat_world_def)
  have b: "buffers (chat_body ''hi'' s)" "\<not> cq_run_tools (chat_body ''hi'' s)" "cq_stream (chat_body ''hi'' s) = s" for s
    by (simp_all add: buffers_def chat_body_def schema_of_def format_of_def opt_get_def)
  have more: "ch_cost_text chat_env0 c = []" "or_stop None = PStr ''stop''" "co_provider sample_answer = ''box''" for c
    by (simp_all add: chat_env0_def or_stop_def sample_answer_def)
  note run = chat_completions_def sample_cleared sample_budget ready b deliver_answer_def sample_output more Let_def
  show "\<exists>w'. chat_completions chat_env0 0 ''ann'' ''c1'' 0 ''a1'' (chat_body ''hi'' False) chat_world
     = (ChatJson (answer_body chat_env0 ''c1'' 0 (sample_answer\<lparr>co_content := ''{}''\<rparr>) (PStr ''stop'') None)
         [(''X-CaiPS-Provider'', ''box''), (''X-CaiPS-Cost-USD'', [])], w')"
    using sample_validated [of False] by (auto simp: run)
  show "\<exists>w'. chat_completions chat_env0 0 ''ann'' ''c1'' 0 ''a1'' (chat_body ''hi'' True) chat_world
     = (ChatFrames (buffered_frames ''c1'' 0 (sample_answer\<lparr>co_content := ''{}''\<rparr>) (PStr ''stop'') (chat_body ''hi'' True))
         [(''X-CaiPS-Provider'', ''box'')], w')"
    using sample_validated [of True] by (auto simp: run)
qed

text \<open>A request that carries a key is refused.\<close>

lemma sample_refused:
  "chat_completions chat_env0 0 ''ann'' ''c1'' 0 ''a1'' (chat_body ''sk-1'' False) chat_world
     = (reply_of (input_blocked [''secret:api_key'']), chat_world)"
proof -
  have "model_allowed (ch_guard chat_env0) (ch_rules chat_env0) subject m = Some True" for subject m
    by (simp add: chat_env0_def model_allowed_def subject_section_def opt_get_def)
  moreover have "filter_input chat_env0 subject (chat_request0 ''sk-1'' False) = Inl (input_blocked [''secret:api_key''])"
    for subject
    by (simp add: filter_input_def chat_env0_def chat_request0_def for_subject_def subject_policy_def global_policy_def
        subject_section_def policy_from_dict_def opt_get_def filter_request_def filter_text_def apply_filter_def detect_def
        SECRET_KINDS_def DEFAULT_KINDS_def RULE_KINDS_def plain_guard_def kinds_of_def add_match_def rule_check_def Let_def)
  ultimately show ?thesis by (simp add: chat_completions_def cleared_def chat_body_converts)
qed

lemma plain_guard_spans: "spans_ok plain_guard s"
  by (auto simp: spans_ok_def plain_guard_def RULE_KINDS_def)

end
