(* ===== verification/Chat_Properties.thy ===== *)
theory Chat_Properties
  imports Chat_Sample
begin

text \<open>
  What the chat endpoint promises: which requests reach the router, that an answer keeps the schema it was asked for,
  that a buffered stream says what the plain answer says, and that a truncated stream can be told from a whole one.
\<close>

section \<open>What passes the filter\<close>

text \<open>A text that the policy lets through: short enough, no blocked topic, no secret.\<close>

definition passes :: "guard_lib \<Rightarrow> filter_policy \<Rightarrow> string \<Rightarrow> bool" where
  "passes G p s \<longleftrightarrow>
     (fp_max_chars p = 0 \<or> int (length s) \<le> fp_max_chars p)
     \<and> list_all (\<lambda>t. \<not> topic_hit G s t) (fp_blocked_topics p)
     \<and> (fp_block_secrets p \<longrightarrow> list_all (\<lambda>k. gl_matches G k s = []) SECRET_KINDS)"

definition shown :: "guard_lib \<Rightarrow> filter_policy \<Rightarrow> string \<Rightarrow> string" where
  "shown G p s = (if fp_redact_pii p then redact G s DEFAULT_KINDS else s)"

definition request_texts :: "request \<Rightarrow> string list" where
  "request_texts q = filter (\<lambda>s. s \<noteq> []) (map ms_content (rq_messages q) @ [or_empty (rq_system_prompt q)])"

definition spans_right :: "guard_lib \<Rightarrow> bool" where
  "spans_right G \<longleftrightarrow> (\<forall>s. spans_ok G s)"

lemma filter_text_passes:
  assumes "spans_right G" "filter_text G p s = Inr t"
  shows "t = (if s = [] then s else shown G p s)" "s \<noteq> [] \<Longrightarrow> passes G p s"
  using filter_enforced [of G s p] assms
  by (auto simp: filter_text_def Let_def passes_def shown_def spans_right_def list_all_iff split: if_splits)

lemma redact_empty [simp]: "redact G [] kinds = []"
  by (simp add: redact_def)

lemma shown_empty [simp]: "shown G p [] = []"
  by (simp add: shown_def)

lemma filter_messages_passes:
  assumes "spans_right G" "filter_messages G p ms = Inr ms'"
  shows "map ms_content ms' = map (\<lambda>m. shown G p (ms_content m)) ms
    \<and> (\<forall>m \<in> set ms. ms_content m \<noteq> [] \<longrightarrow> passes G p (ms_content m))"
  using assms(2)
proof (induction ms arbitrary: ms')
  case (Cons m ms)
  then show ?case
    using filter_text_passes [OF assms(1), of p "ms_content m"] by (auto split: sum.splits if_splits)
qed simp

lemma filter_request_passes:
  assumes "spans_right G" "filter_request G p q = Inr q'"
  shows "map ms_content (rq_messages q') = map (\<lambda>m. shown G p (ms_content m)) (rq_messages q)
    \<and> rq_system_prompt q' = map_option (shown G p) (rq_system_prompt q)
    \<and> list_all (passes G p) (request_texts q)"
proof -
  obtain ms where m: "filter_messages G p (rq_messages q) = Inr ms"
    using assms(2) by (auto simp: filter_request_def split: sum.splits)
  have f: "map ms_content ms = map (\<lambda>m. shown G p (ms_content m)) (rq_messages q)"
      "\<forall>m \<in> set (rq_messages q). ms_content m \<noteq> [] \<longrightarrow> passes G p (ms_content m)"
    using filter_messages_passes [OF assms(1) m] by auto
  show ?thesis
  proof (cases "rq_system_prompt q")
    case None
    then show ?thesis using assms(2) m f by (auto simp: filter_request_def request_texts_def list_all_iff or_empty_def)
  next
    case (Some s)
    then obtain t where t: "filter_text G p s = Inr t"
      using assms(2) m by (auto simp: filter_request_def split: sum.splits)
    then show ?thesis
      using assms(2) m f Some filter_text_passes [OF assms(1) t]
      by (auto simp: filter_request_def request_texts_def list_all_iff or_empty_def split: if_splits)
  qed
qed

section \<open>The budgets' answer leaves the router alone\<close>

lemma budget_gate_keeps:
  "wd_router (snd (budget_gate_check E s m w)) = wd_router w"
  "gw_ledger (wd_ext (snd (budget_gate_check E s m w))) = gw_ledger (wd_ext w)"
  by (auto simp: budget_gate_check_def on_gw_def split: option.splits prod.splits sum.splits)

text \<open>
  C14. \<^bold>\<open>What the router sees has been cleared.\<close> Either a chat request changes nothing in the router and the ledger and is
  answered with an error, or it is one the gateway can carry out in full, its model is among those allowed to the caller, every
  message content and the system prompt pass the caller's input policy (not too long, no blocked topic, and no secret where
  secrets are blocked), and neither the caller's budget nor the cap of its model is used up. The arguments of tool calls in
  the history and the descriptions of tools are not filtered by the code.
\<close>

theorem router_sees_cleared_requests:
  assumes "spans_right (ch_guard E)"
    and "chat_completions E k subject cid created new_id body w = (reply, w')"
  shows "(wd_router w' = wd_router w \<and> gw_ledger (wd_ext w') = gw_ledger (wd_ext w)
          \<and> (case reply of ChatError e \<Rightarrow> True | ChatCrash \<Rightarrow> True | _ \<Rightarrow> False))
    \<or> (\<exists>q ip op. convert_chat (ch_float E) (ch_dumps E) body = Inr q
         \<and> model_allowed (ch_guard E) (ch_rules E) subject (or_empty (cq_model body)) = Some True
         \<and> for_subject (ch_guard E) (ch_rules E) subject = Some (ip, op)
         \<and> (case ip of None \<Rightarrow> True | Some p \<Rightarrow> list_all (passes (ch_guard E) p) (request_texts q))
         \<and> fst (budget_gate_check (ch_gate E) subject (cq_model body) w) = None)"
proof (cases "cleared E subject body")
  case (Inl e)
  then show ?thesis using assms(2) by (auto simp: chat_completions_def reply_of_def split: convert_error.splits)
next
  case (Inr q')
  obtain x w1 where b: "budget_gate_check (ch_gate E) subject (cq_model body) w = (x, w1)" by fastforce
  have keeps: "wd_router w1 = wd_router w" "gw_ledger (wd_ext w1) = gw_ledger (wd_ext w)"
    using budget_gate_keeps [of "ch_gate E" subject "cq_model body" w] b by simp_all
  show ?thesis
  proof (cases x)
    case (Some y)
    then show ?thesis using assms(2) Inr b keeps by (auto simp: chat_completions_def http_reply_def)
  next
    case None
    obtain q where q: "convert_chat (ch_float E) (ch_dumps E) body = Inr q"
        "model_allowed (ch_guard E) (ch_rules E) subject (or_empty (cq_model body)) = Some True"
        "filter_input E subject q = Inr q'"
      using Inr by (auto simp: cleared_def split: sum.splits option.splits bool.splits)
    obtain ip op where f: "for_subject (ch_guard E) (ch_rules E) subject = Some (ip, op)"
      using q(3) by (auto simp: filter_input_def split: option.splits prod.splits)
    have "case ip of None \<Rightarrow> True | Some p \<Rightarrow> list_all (passes (ch_guard E) p) (request_texts q)"
      using q(3) f filter_request_passes [OF assms(1)] by (auto simp: filter_input_def split: option.splits)
    then show ?thesis using q f b None by (intro disjI2 exI [of _ q] exI [of _ ip] exI [of _ op]) simp
  qed
qed

lemma sample_policy: "for_subject (ch_guard chat_env0) (ch_rules chat_env0) subject =
    Some (Some \<lparr> fp_redact_pii = True, fp_block_secrets = True, fp_blocked_topics = [], fp_max_chars = 0 \<rparr>, None)"
  by (simp add: chat_env0_def for_subject_def subject_policy_def global_policy_def subject_section_def
      policy_from_dict_def opt_get_def)

theorem router_sees_cleared_requests_witness:
  "\<exists>reply w'. chat_completions chat_env0 0 ''ann'' ''c1'' 0 ''a1'' (chat_body ''sk-1'' False) chat_world = (reply, w')
    \<and> wd_router w' = wd_router chat_world \<and> gw_ledger (wd_ext w') = gw_ledger (wd_ext chat_world)"
proof -
  have g: "spans_right (ch_guard chat_env0)"
    by (simp add: spans_right_def chat_env0_def plain_guard_spans)
  have "\<not> passes (ch_guard chat_env0)
      \<lparr> fp_redact_pii = True, fp_block_secrets = True, fp_blocked_topics = [], fp_max_chars = 0 \<rparr> ''sk-1''"
    by (simp add: passes_def chat_env0_def plain_guard_def SECRET_KINDS_def)
  moreover have "request_texts (chat_request0 ''sk-1'' False) = [''sk-1'']"
    by (simp add: request_texts_def chat_request0_def or_empty_def)
  ultimately show ?thesis
    using router_sees_cleared_requests [OF g sample_refused] sample_refused
    by (auto simp: chat_body_converts sample_policy)
qed

section \<open>Schemas\<close>

text \<open>How a request with a schema comes to its answer: at once, or by one more attempt whose tokens and cost are added up.\<close>

lemma validated_answer:
  assumes "route_validated E q body w = (Answered resp fin steps, w')" "schema_of (format_of body) = Some schema"
  shows "\<exists>r1 w2. ask_router (ch_gate E) (q\<lparr>rq_stream := False\<rparr>) (cq_provider body) w = (Got r1, w2) \<and> steps = None
    \<and> (if co_tool_calls r1 \<noteq> [] \<or> ch_schema_error E (co_content r1) schema = None then resp = r1 \<and> w' = w2
       else \<exists>err q0 r2. ch_schema_error E (co_content r1) schema = Some err
         \<and> convert_chat (ch_float E) (ch_dumps E) body = Inr q0
         \<and> ask_router (ch_gate E) (q0\<lparr>rq_stream := False, rq_messages := rq_messages q0 @
              [\<lparr> ms_role = ''assistant'', ms_content = co_content r1, ms_tool_calls = [], ms_tool_call_id = None,
                 ms_images = [] \<rparr>, retry_message err]\<rparr>) (cq_provider body) w2 = (Got r2, w')
         \<and> ch_schema_error E (co_content r2) schema = None
         \<and> resp = r2\<lparr>co_cost_usd := co_cost_usd r1 + co_cost_usd r2,
              co_input_tokens := co_input_tokens r1 + co_input_tokens r2,
              co_output_tokens := co_output_tokens r1 + co_output_tokens r2\<rparr>)"
proof -
  obtain a1 w2 where a1: "ask_router (ch_gate E) (q\<lparr>rq_stream := False\<rparr>) (cq_provider body) w = (a1, w2)" by fastforce
  then obtain r1 where r1: "a1 = Got r1"
    using assms(1) by (cases a1) (simp_all add: route_validated_def)
  show ?thesis
  proof (cases "co_tool_calls r1 \<noteq> [] \<or> ch_schema_error E (co_content r1) schema = None")
    case True
    then show ?thesis using assms a1 r1 by (auto simp: route_validated_def split: if_splits)
  next
    case False
    then obtain err where err: "ch_schema_error E (co_content r1) schema = Some err" "co_tool_calls r1 = []" by auto
    then obtain q0 where q0: "convert_chat (ch_float E) (ch_dumps E) body = Inr q0"
      using assms a1 r1 by (auto simp: route_validated_def retry_request_def split: sum.splits)
    define q2 where "q2 = q0\<lparr>rq_stream := False, rq_messages := rq_messages q0 @
              [\<lparr> ms_role = ''assistant'', ms_content = co_content r1, ms_tool_calls = [], ms_tool_call_id = None,
                 ms_images = [] \<rparr>, retry_message err]\<rparr>"
    have q2: "retry_request E body r1 err = Inr q2" using q0 by (simp add: retry_request_def q2_def)
    obtain a2 w3 where a2: "ask_router (ch_gate E) q2 (cq_provider body) w2 = (a2, w3)" by fastforce
    obtain r2 where r2: "a2 = Got r2"
      using assms a1 r1 err q2 a2 by (cases a2) (simp_all add: route_validated_def)
    have "ch_schema_error E (co_content r2) schema = None \<and> resp = add_answers r1 r2 \<and> w' = w3 \<and> steps = None"
      using assms a1 r1 err q2 a2 r2 by (auto simp: route_validated_def split: option.splits)
    then show ?thesis using a1 r1 err q0 a2 r2 by (auto simp: q2_def add_answers_def ac_simps)
  qed
qed

lemma answer_by:
  assumes "chat_completions E k subject cid created new_id body w = (ChatJson out hs, w')"
  obtains q w1 resp0 resp fin steps w2 where
    "cleared E subject body = Inr q" "budget_gate_check (ch_gate E) subject (cq_model body) w = (None, w1)"
    "(if cq_run_tools body then route_with_tools E subject new_id q body w1 else route_validated E q body w1)
       = (Answered resp0 fin steps, w2)"
    "filter_output E subject resp0 = Inr resp" "out = answer_body E cid created resp (or_stop fin) steps"
    "w' = book_answered (ch_gate E) subject resp w2"
proof -
  obtain q where q: "cleared E subject body = Inr q"
    using assms by (auto simp: chat_completions_def reply_of_def split: sum.splits convert_error.splits)
  obtain x w1 where b: "budget_gate_check (ch_gate E) subject (cq_model body) w = (x, w1)" by fastforce
  have x: "x = None" "gw_ready (wd_ext w1)" "\<not> (cq_stream body \<and> \<not> buffers body)"
    using assms q b by (auto simp: chat_completions_def http_reply_def chat_live_def raised_reply_def
        split: option.splits if_splits prod.splits stream_reply.splits)
  obtain a w2 where a: "(if cq_run_tools body then route_with_tools E subject new_id q body w1
      else route_validated E q body w1) = (a, w2)" by fastforce
  have d: "deliver_answer E subject cid created body a w2 = (ChatJson out hs, w')"
    using assms q b x a by (auto simp: chat_completions_def split: if_splits)
  then obtain resp0 fin steps where a': "a = Answered resp0 fin steps"
    by (cases a) (auto simp: deliver_answer_def reply_of_def raised_reply_def http_reply_def split: convert_error.splits)
  with d obtain resp where "filter_output E subject resp0 = Inr resp"
      "out = answer_body E cid created resp (or_stop fin) steps" "w' = book_answered (ch_gate E) subject resp w2"
    by (auto simp: deliver_answer_def reply_of_def Let_def split: sum.splits convert_error.splits if_splits)
  then show ?thesis using that q a a' b x(1) by blast
qed

text \<open>One booking of an answer: its cost and tokens, once to the subject and its model, and one request in the ledger.\<close>

definition booked_once :: "'y gateway_env \<Rightarrow> string \<Rightarrow> completion \<Rightarrow> 'y gw \<Rightarrow> 'y gw \<Rightarrow> bool" where
  "booked_once E subject resp w w' \<longleftrightarrow>
     wd_router w' = wd_router w
   \<and> gw_budgets (wd_ext w') = map_option (\<lambda>b.
       record_model (ge_clock E w) (co_model resp) (co_cost_usd resp) (co_input_tokens resp + co_output_tokens resp) 1
         (budget_record (ge_clock E w) subject (co_cost_usd resp) (co_input_tokens resp + co_output_tokens resp) b))
       (gw_budgets (wd_ext w))
   \<and> (\<exists>t. gw_ledger (wd_ext w') = ledger_record t subject (co_provider resp) (co_model resp) (co_input_tokens resp)
       (co_output_tokens resp) (co_cost_usd resp) 1 (gw_ledger (wd_ext w)))"

lemma book_answered_once: "booked_once E subject resp w (book_answered E subject resp w)"
  by (auto simp: booked_once_def book_answered_def ledger_book_def budget_book_def on_gw_def or_empty_def)

text \<open>
  C6. \<^bold>\<open>Answers keep the schema they were asked for.\<close> A request for JSON of a schema, that does not use the gateway's own tools
  and whose caller has no output policy, is answered in one of two ways: by the first answer of the router, if that calls
  tools or satisfies the schema; otherwise by the answer to one more request, which quotes the first answer and its schema
  error, and which satisfies the schema, with the cost and the tokens of both attempts added up. There is no third attempt, and
  what is answered is booked once, to the subject and the model and in the ledger.
\<close>

theorem answers_keep_schema:
  assumes "chat_completions E k subject cid created new_id body w = (ChatJson out hs, w')"
    and "\<not> cq_run_tools body" "schema_of (format_of body) = Some schema"
    and "for_subject (ch_guard E) (ch_rules E) subject = Some (ip, None)"
  shows "\<exists>q w1 r1 w2 resp fin w3. cleared E subject body = Inr q
    \<and> budget_gate_check (ch_gate E) subject (cq_model body) w = (None, w1)
    \<and> ask_router (ch_gate E) (q\<lparr>rq_stream := False\<rparr>) (cq_provider body) w1 = (Got r1, w2)
    \<and> (if co_tool_calls r1 \<noteq> [] \<or> ch_schema_error E (co_content r1) schema = None then resp = r1 \<and> w3 = w2
       else \<exists>err q0 r2. ch_schema_error E (co_content r1) schema = Some err
         \<and> convert_chat (ch_float E) (ch_dumps E) body = Inr q0
         \<and> ask_router (ch_gate E) (q0\<lparr>rq_stream := False, rq_messages := rq_messages q0 @
              [\<lparr> ms_role = ''assistant'', ms_content = co_content r1, ms_tool_calls = [], ms_tool_call_id = None,
                 ms_images = [] \<rparr>, retry_message err]\<rparr>) (cq_provider body) w2 = (Got r2, w3)
         \<and> ch_schema_error E (co_content r2) schema = None
         \<and> resp = r2\<lparr>co_cost_usd := co_cost_usd r1 + co_cost_usd r2,
              co_input_tokens := co_input_tokens r1 + co_input_tokens r2,
              co_output_tokens := co_output_tokens r1 + co_output_tokens r2\<rparr>)
    \<and> out = answer_body E cid created resp fin None
    \<and> booked_once (ch_gate E) subject resp w3 w'"
proof -
  obtain q w1 resp0 resp fin steps w3 where
    q: "cleared E subject body = Inr q" "budget_gate_check (ch_gate E) subject (cq_model body) w = (None, w1)"
    and a: "(if cq_run_tools body then route_with_tools E subject new_id q body w1 else route_validated E q body w1)
       = (Answered resp0 fin steps, w3)"
    and f: "filter_output E subject resp0 = Inr resp" and o: "out = answer_body E cid created resp (or_stop fin) steps"
    and b: "w' = book_answered (ch_gate E) subject resp w3"
    using answer_by [OF assms(1)] by metis
  have same: "resp = resp0" using f assms(4) by (simp add: filter_output_def)
  have "route_validated E q body w1 = (Answered resp0 fin steps, w3)" using a assms(2) by simp
  from validated_answer [OF this assms(3)] q o b same book_answered_once show ?thesis by metis
qed

theorem answers_keep_schema_witness:
  "\<exists>resp w'. chat_completions chat_env0 0 ''ann'' ''c1'' 0 ''a1'' (chat_body ''hi'' False) chat_world
      = (ChatJson (answer_body chat_env0 ''c1'' 0 resp (PStr ''stop'') None)
           [(''X-CaiPS-Provider'', ''box''), (''X-CaiPS-Cost-USD'', [])], w')
    \<and> ch_schema_error chat_env0 (co_content resp) (PDict []) = None"
proof -
  let ?resp = "sample_answer\<lparr>co_content := ''{}''\<rparr>"
  obtain w' where r: "chat_completions chat_env0 0 ''ann'' ''c1'' 0 ''a1'' (chat_body ''hi'' False) chat_world
      = (ChatJson (answer_body chat_env0 ''c1'' 0 ?resp (PStr ''stop'') None)
           [(''X-CaiPS-Provider'', ''box''), (''X-CaiPS-Cost-USD'', [])], w')"
    using sample_chat by blast
  have "\<not> cq_run_tools (chat_body ''hi'' False)" "schema_of (format_of (chat_body ''hi'' False)) = Some (PDict [])"
    by (simp_all add: chat_body_def schema_of_def format_of_def opt_get_def dict_get_def)
  from answers_keep_schema [OF r this sample_policy]
  obtain resp fin where o: "answer_body chat_env0 ''c1'' 0 ?resp (PStr ''stop'') None = answer_body chat_env0 ''c1'' 0 resp fin None"
      "co_tool_calls resp = [] \<longrightarrow> ch_schema_error chat_env0 (co_content resp) (PDict []) = None"
    by (elim exE conjE) (auto split: if_splits)
  have "assistant_answer ?resp = assistant_answer resp" "fin = PStr ''stop''" using o(1) by (simp_all add: answer_body_def)
  moreover from this(1) have "co_tool_calls resp = []"
    by (auto simp: assistant_answer_def sample_answer_def split: if_splits)
  ultimately show ?thesis using r o by (intro exI [of _ resp] exI [of _ w']) simp
qed

section \<open>A buffered stream is the plain answer\<close>

text \<open>What a client makes of the frames: texts are joined, and the parts of a tool call belong to its index.\<close>

record accumulated =
  ac_role :: string
  ac_content :: string
  ac_calls :: "tool_call list"
  ac_finish :: "pyval list"

definition text_field :: "pyval \<Rightarrow> string \<Rightarrow> string" where
  "text_field v k = (case dict_get v k of PStr s \<Rightarrow> s | _ \<Rightarrow> [])"

definition add_part :: "pyval \<Rightarrow> tool_call list \<Rightarrow> tool_call list" where
  "add_part p cs =
     (let fn = dict_get p ''function'' in
      case dict_get p ''index'' of
        PInt n \<Rightarrow>
          (if nat n = length cs
           then cs @ [\<lparr> tc_id = text_field p ''id'', tc_name = text_field fn ''name'',
                        tc_arguments = Some (text_field fn ''arguments'') \<rparr>]
           else if nat n < length cs
           then cs[nat n := (cs ! nat n)\<lparr>tc_arguments :=
                  Some (or_empty (tc_arguments (cs ! nat n)) @ text_field fn ''arguments'')\<rparr>]
           else cs)
      | _ \<Rightarrow> cs)"

definition add_delta :: "pyval \<Rightarrow> accumulated \<Rightarrow> accumulated" where
  "add_delta d a =
     a\<lparr>ac_role := ac_role a @ text_field d ''role'', ac_content := ac_content a @ text_field d ''content'',
       ac_calls := (case dict_get d ''tool_calls'' of PList ps \<Rightarrow> fold add_part ps (ac_calls a) | _ \<Rightarrow> ac_calls a)\<rparr>"

definition add_frame :: "sse \<Rightarrow> accumulated \<Rightarrow> accumulated" where
  "add_frame f a =
     (case f of
        Data v \<Rightarrow>
          (case dict_get v ''choices'' of
             PList [c] \<Rightarrow>
               (let a = add_delta (dict_get c ''delta'') a; fin = dict_get c ''finish_reason''
                in if fin = PNone then a else a\<lparr>ac_finish := ac_finish a @ [fin]\<rparr>)
           | _ \<Rightarrow> a)
      | _ \<Rightarrow> a)"

definition nothing_yet :: accumulated where
  "nothing_yet = \<lparr> ac_role = [], ac_content = [], ac_calls = [], ac_finish = [] \<rparr>"

definition read_frames :: "sse list \<Rightarrow> accumulated" where
  "read_frames fs = fold add_frame fs nothing_yet"

lemmas frame_defs = add_frame_def chunk_frame_def dict_get_def add_delta_def text_field_def Let_def

lemma add_frame_delta:
  "add_frame (chunk_frame cid created m d PNone None) a = add_delta (PDict d) a"
  by (simp add: frame_defs)

lemma add_frame_finish:
  "add_frame (chunk_frame cid created m [] f None) a = (if f = PNone then a else a\<lparr>ac_finish := ac_finish a @ [f]\<rparr>)"
  by (simp add: frame_defs)

lemma add_frame_other:
  "add_frame (chunk_frame cid created m d f (Some u)) a = a" "add_frame DoneMark a = a"
  "add_frame (broken_frame kd) a = a"
  by (simp_all add: frame_defs broken_frame_def error_envelope_def)

lemma add_calls:
  "named_calls cs \<Longrightarrow> length (ac_calls a) = i \<Longrightarrow>
   fold add_delta (map PDict (calls_deltas i cs)) a = a\<lparr>ac_calls := ac_calls a @ cs\<rparr>"
proof (induction cs arbitrary: i a)
  case (Cons c cs)
  obtain args where args: "tc_arguments c = Some args" using Cons.prems by (auto simp: named_calls_def)
  have "fold add_delta (map PDict (call_deltas i c)) a = a\<lparr>ac_calls := ac_calls a @ [c]\<rparr>"
    using Cons.prems args
    by (cases c) (simp add: call_deltas_def add_delta_def text_field_def dict_get_def add_part_def call_arguments_of_def
        nth_append list_update_append or_empty_def)
  moreover have "named_calls cs" using Cons.prems by (simp add: named_calls_def)
  ultimately show ?case using Cons.IH [of "a\<lparr>ac_calls := ac_calls a @ [c]\<rparr>" "i + 1"] Cons.prems by simp
qed simp

lemma fold_frames:
  "fold add_frame (map (\<lambda>d. chunk_frame cid created m d PNone None) ds) a = fold add_delta (map PDict ds) a"
  by (induction ds arbitrary: a) (simp_all add: add_frame_delta)

lemma read_buffered:
  assumes "named_calls (co_tool_calls resp)"
  shows "read_frames (buffered_frames cid created resp finish body) =
    \<lparr> ac_role = ''assistant'', ac_content = co_content resp, ac_calls = co_tool_calls resp,
      ac_finish = (if finish = PNone then [] else [finish]) \<rparr>"
proof -
  have role: "add_delta (PDict role_delta) nothing_yet = nothing_yet\<lparr>ac_role := ''assistant''\<rparr>"
    by (simp add: add_delta_def role_delta_def text_field_def dict_get_def nothing_yet_def)
  have content: "fold add_delta (map PDict (if co_content resp = [] then [] else [[(''content'', PStr (co_content resp))]])) a
      = a\<lparr>ac_content := ac_content a @ co_content resp\<rparr>" for a
    by (simp add: add_delta_def text_field_def dict_get_def)
  have "fold add_delta (map PDict (answer_deltas resp)) nothing_yet =
      \<lparr> ac_role = ''assistant'', ac_content = co_content resp, ac_calls = co_tool_calls resp, ac_finish = [] \<rparr>"
    using add_calls [OF assms, of "nothing_yet\<lparr>ac_role := ''assistant''\<rparr>" 0]
    unfolding answer_deltas_def map_append fold_append o_apply content
    by (simp add: role) (simp add: nothing_yet_def)
  then show ?thesis
    by (simp add: read_frames_def buffered_frames_def fold_frames add_frame_finish add_frame_other)
qed

abbreviation unstreamed :: "chat_request \<Rightarrow> chat_request" where
  "unstreamed body \<equiv> body\<lparr>cq_stream := False\<rparr>"

abbreviation at_once :: "request \<Rightarrow> request" where
  "at_once q \<equiv> q\<lparr>rq_stream := False\<rparr>"

lemmas under_cases = prod.case_cong option.case_cong sum.case_cong asked.case_cong if_cong

lemma format_unstreamed [simp]: "format_of (unstreamed body) = format_of body"
  by (simp add: format_of_def)

lemma build_unstreamed: "build_request (unstreamed body) sys msgs = at_once (build_request body sys msgs)"
proof -
  have "policy_metadata (unstreamed body) = policy_metadata body"
    by (simp add: policy_metadata_def Let_def cong: under_cases)
  then show ?thesis by (simp add: build_request_def)
qed

lemma convert_unstreamed:
  "convert_chat fl dumps (unstreamed body) = map_sum id at_once (convert_chat fl dumps body)"
proof -
  have "check_tools (unstreamed body) = check_tools body" by (simp add: check_tools_def cong: under_cases)
  then show ?thesis
    by (auto simp: convert_chat_def build_unstreamed split: option.split sum.split)
qed

lemma filter_plain: "filter_request G p (at_once q) = map_sum id at_once (filter_request G p q)"
  by (auto simp: filter_request_def split: sum.split option.split)

lemma cleared_unstreamed: "cleared E subject (unstreamed body) = map_sum id at_once (cleared E subject body)"
  by (auto simp: cleared_def convert_unstreamed filter_input_def filter_plain
      split: sum.split option.split bool.split prod.split)

lemma retry_unstreamed: "retry_request E (unstreamed body) resp err = retry_request E body resp err"
  by (auto simp: retry_request_def convert_unstreamed split: sum.split)

lemma validated_unstreamed: "route_validated E (at_once q) (unstreamed body) w = route_validated E q body w"
  by (simp add: route_validated_def retry_unstreamed cong: under_cases)

lemma loop_plain:
  "run_tool_loop rt X (at_once q) al c n limit approved mp (Some (\<lambda>_. ok)) tw =
   run_tool_loop rt X q al c n limit approved mp (Some (\<lambda>_. ok)) tw"
  by (simp add: run_tool_loop_def offered_def Let_def cong: under_cases)

lemma tools_unstreamed:
  "route_with_tools E subject new_id (at_once q) (unstreamed body) w = route_with_tools E subject new_id q body w"
proof -
  have "loop_route E (unstreamed body) = loop_route E body" by (simp add: loop_route_def fun_eq_iff cong: under_cases)
  moreover have "can_offer_tools now pset (at_once q) preferred r = can_offer_tools now pset q preferred r"
    for now pset preferred r by (simp add: can_offer_tools_def)
  ultimately show ?thesis by (simp add: route_with_tools_def Let_def loop_plain cong: under_cases)
qed

lemma or_stop_some: "or_stop fin \<noteq> PNone"
  by (cases fin) (auto simp: or_stop_def or_else_def)

text \<open>
  C5. \<^bold>\<open>A buffered stream is the plain answer.\<close> When an answer must be complete before it is sent (tools or a schema), asking for
  it as a stream does exactly what asking for it without one does, in the router, the budgets and the ledger, and a client
  that puts the frames together has the same message: its text, its tool calls in order and the reason it ended.
\<close>

theorem buffered_stream_is_the_answer:
  assumes "chat_completions E k subject cid created new_id body w = (ChatFrames fs hs, w')"
    and "cq_stream body" "buffers body"
  shows "\<exists>resp fin steps hs'.
      chat_completions E k subject cid created new_id (body\<lparr>cq_stream := False\<rparr>) w
        = (ChatJson (answer_body E cid created resp fin steps) hs', w')
    \<and> (named_calls (co_tool_calls resp) \<longrightarrow>
         read_frames fs = \<lparr> ac_role = ''assistant'', ac_content = co_content resp, ac_calls = co_tool_calls resp,
                            ac_finish = [fin] \<rparr>)"
proof -
  obtain q where q: "cleared E subject body = Inr q"
    using assms(1) by (auto simp: chat_completions_def reply_of_def split: sum.splits convert_error.splits)
  obtain x w1 where b: "budget_gate_check (ch_gate E) subject (cq_model body) w = (x, w1)" by fastforce
  have x: "x = None" "gw_ready (wd_ext w1)"
    using assms q b by (auto simp: chat_completions_def http_reply_def split: option.splits if_splits)
  obtain a w2 where a: "(if cq_run_tools body then route_with_tools E subject new_id q body w1
      else route_validated E q body w1) = (a, w2)" by fastforce
  have d: "deliver_answer E subject cid created body a w2 = (ChatFrames fs hs, w')"
    using assms q b x a by (auto simp: chat_completions_def split: if_splits)
  then obtain resp0 fin steps where a': "a = Answered resp0 fin steps"
    by (cases a) (auto simp: deliver_answer_def reply_of_def raised_reply_def http_reply_def split: convert_error.splits)
  with d obtain resp where f: "filter_output E subject resp0 = Inr resp"
      "fs = buffered_frames cid created resp (or_stop fin) body" "w' = book_answered (ch_gate E) subject resp w2"
    by (auto simp: deliver_answer_def reply_of_def Let_def split: sum.splits convert_error.splits if_splits)
  have plain: "(if cq_run_tools (unstreamed body) then route_with_tools E subject new_id (at_once q) (unstreamed body) w1
      else route_validated E (at_once q) (unstreamed body) w1) = (a, w2)"
    using a by (auto simp: tools_unstreamed validated_unstreamed split: if_splits)
  have "buffers (unstreamed body) \<longleftrightarrow> buffers body" by (simp add: buffers_def)
  then have "chat_completions E k subject cid created new_id (unstreamed body) w =
      deliver_answer E subject cid created (unstreamed body) a w2"
    using q b x plain by (simp add: chat_completions_def cleared_unstreamed)
  also have "\<dots> = (ChatJson (answer_body E cid created resp (or_stop fin) steps)
      [(''X-CaiPS-Provider'', co_provider resp), (''X-CaiPS-Cost-USD'', ch_cost_text E (co_cost_usd resp))], w')"
    using a' f by (simp add: deliver_answer_def Let_def)
  finally show ?thesis
    using read_buffered [of resp cid created "or_stop fin" body] f or_stop_some [of fin] by fastforce
qed

theorem buffered_stream_is_the_answer_witness:
  "\<exists>fs hs w' resp fin steps hs'.
      chat_completions chat_env0 0 ''ann'' ''c1'' 0 ''a1'' (chat_body ''hi'' True) chat_world = (ChatFrames fs hs, w')
    \<and> chat_completions chat_env0 0 ''ann'' ''c1'' 0 ''a1'' (chat_body ''hi'' False) chat_world
        = (ChatJson (answer_body chat_env0 ''c1'' 0 resp fin steps) hs', w')"
proof -
  obtain fs hs w' where r: "chat_completions chat_env0 0 ''ann'' ''c1'' 0 ''a1'' (chat_body ''hi'' True) chat_world
      = (ChatFrames fs hs, w')"
    using sample_chat_streamed by blast
  have b: "cq_stream (chat_body ''hi'' True)" "buffers (chat_body ''hi'' True)"
    by (simp_all add: chat_body_def buffers_def schema_of_def format_of_def opt_get_def)
  have "(chat_body ''hi'' True)\<lparr>cq_stream := False\<rparr> = chat_body ''hi'' False" by (simp add: chat_body_def)
  then show ?thesis using buffered_stream_is_the_answer [OF r b] r by auto
qed

section \<open>A truncated stream shows\<close>

lemma fold_live:
  "fold add_frame (map (\<lambda>c. chunk_frame cid created m [(''content'', PStr c)] PNone None) cs) a
     = a\<lparr>ac_content := ac_content a @ concat cs\<rparr>"
  by (induction cs arbitrary: a) (simp_all add: add_frame_delta add_delta_def text_field_def dict_get_def)

lemma read_live:
  "read_frames (live_frames E cid created body now res) =
    \<lparr> ac_role = ''assistant'', ac_content = concat (sr_chunks res), ac_calls = [],
      ac_finish = (if sr_end res = Finished then [or_stop (map_option (ch_stream_finish E) (sr_usage res))] else []) \<rparr>"
proof -
  have role: "add_frame (chunk_frame cid created m role_delta PNone None) nothing_yet =
      nothing_yet\<lparr>ac_role := ''assistant''\<rparr>" for m
    by (simp add: add_frame_delta add_delta_def role_delta_def text_field_def dict_get_def nothing_yet_def)
  show ?thesis
    by (cases "sr_end res"; cases "sr_usage res")
      (simp_all add: read_frames_def live_frames_def Let_def role fold_live add_frame_finish add_frame_other or_stop_some,
       simp_all add: nothing_yet_def)
qed

text \<open>
  A request streamed live shows a client the text its provider gave, and gives a reason for having ended only when the
  provider ended: a stream that broke ends with an error and the end mark.
\<close>

lemma truncated_stream_shows:
  assumes "chat_completions E k subject cid created new_id body w = (ChatFrames fs hs, w')"
    and "cq_stream body" "\<not> buffers body"
  obtains res q w1 where
    "run_stream (ch_gate E) k subject cid 1 q (cq_provider body) w1 = (Frames res, w')"
    "ac_content (read_frames fs) = concat (sr_chunks res)"
    "ac_finish (read_frames fs) \<noteq> [] \<longleftrightarrow> sr_end res = Finished"
    "\<And>e. sr_end res = Broken e \<Longrightarrow> \<exists>kd. last fs = DoneMark \<and> last (butlast fs) = broken_frame kd"
proof -
  obtain q where q: "cleared E subject body = Inr q"
    using assms(1) by (auto simp: chat_completions_def reply_of_def split: sum.splits convert_error.splits)
  obtain x w1 where b: "budget_gate_check (ch_gate E) subject (cq_model body) w = (x, w1)" by fastforce
  have x: "x = None" "gw_ready (wd_ext w1)"
    using assms q b by (auto simp: chat_completions_def http_reply_def split: option.splits if_splits)
  have "chat_live E k subject cid created q body w1 = (ChatFrames fs hs, w')"
    using assms q b x by (auto simp: chat_completions_def)
  then obtain res where r: "run_stream (ch_gate E) k subject cid 1 q (cq_provider body) w1 = (Frames res, w')"
      "fs = live_frames E cid created body (wall_of (ge_router (ch_gate E)) w') res"
    by (auto simp: chat_live_def raised_reply_def http_reply_def split: prod.splits stream_reply.splits)
  have "\<exists>kd. last fs = DoneMark \<and> last (butlast fs) = broken_frame kd" if "sr_end res = Broken e" for e
    unfolding r(2) by (simp add: live_frames_def Let_def that butlast_append) blast
  then show ?thesis using r by (intro that [of q w1 res]) (simp_all add: read_live)
qed

end
