(* ===== verification/Anthropic_Gateway.thy ===== *)
theory Anthropic_Gateway
  imports Chat_Gateway
begin

text \<open>
  \<open>api/anthropic_compat.py\<close>: Anthropic's messages become requests of the router, answers become blocks and events.
  It shares the errors, bookings and streams of \<open>Gateway\<close>; neither filters nor lists of models are asked. A block's
  field that should be text and is not is represented by its text.
\<close>

section \<open>Conversion\<close>

record messages_request =
  mq_model :: "string option"
  mq_max_tokens :: int
  mq_messages :: "(string \<times> pyval) list list"
  mq_system :: pyval
  mq_temperature :: "real option"
  mq_stream :: bool
  mq_tools :: "(string \<times> pyval) list list"
  mq_tool_choice :: "(string \<times> pyval) list option"
  mq_provider :: "string option"
  mq_extra :: "string list"

definition is_text_block :: "pyval \<Rightarrow> bool" where
  "is_text_block b \<longleftrightarrow> (case b of PDict d \<Rightarrow> opt_get d ''type'' PNone = PStr ''text'' | _ \<Rightarrow> False)"

definition block_text :: "(pyval \<Rightarrow> string) \<Rightarrow> pyval \<Rightarrow> string" where
  "block_text fl b = py_str fl (has_key b ''text'' (PStr []))"

text \<open>\<open>_text\<close>: the text of a system prompt or of a tool's result.\<close>

definition plain_text_of :: "(pyval \<Rightarrow> string) \<Rightarrow> pyval \<Rightarrow> string \<Rightarrow> convert_error + string" where
  "plain_text_of fl content whr =
     (case content of
        PNone \<Rightarrow> Inr []
      | PStr s \<Rightarrow> Inr s
      | PList bs \<Rightarrow> if list_all is_text_block bs then Inr (concat (map (block_text fl) bs))
                   else Inl (bad (whr @ '' must be a string or a list of text blocks.'') whr)
      | _ \<Rightarrow> Inl (bad (whr @ '' must be a string or a list of text blocks.'') whr))"

definition block_image :: "(pyval \<Rightarrow> string) \<Rightarrow> pyval \<Rightarrow> string \<Rightarrow> convert_error + image" where
  "block_image fl block whr =
     (case dict_get block ''source'' of
        PDict src \<Rightarrow>
          (let kind = opt_get src ''type'' PNone; url = py_str fl (opt_get src ''url'' (PStr [])) in
           if kind = PStr ''base64'' then
             (let media = str_lower (py_str fl (opt_get src ''media_type'' (PStr [])));
                  data = opt_get src ''data'' PNone
              in if media \<notin> set IMAGE_TYPES \<or> falsy data
                 then Inl (bad (''Images must be base64 of type '' @ intercalate '', '' IMAGE_TYPES @ ''.'') whr)
                 else Inr \<lparr> im_url = None, im_media_type = media, im_data = py_str fl data \<rparr>)
           else if kind = PStr ''url'' \<and> (has_prefix ''http://'' url \<or> has_prefix ''https://'' url)
           then Inr \<lparr> im_url = Some url, im_media_type = [], im_data = [] \<rparr>
           else Inl (bad ''Image source must be base64 or an http(s) url.'' whr))
      | _ \<Rightarrow> Inl (bad ''An image block needs a source.'' whr))"

text \<open>What the blocks of one message amount to.\<close>

record turn_parts =
  tp_texts :: "string list"
  tp_images :: "image list"
  tp_calls :: "tool_call list"
  tp_results :: "message list"

definition no_parts :: turn_parts where
  "no_parts = \<lparr> tp_texts = [], tp_images = [], tp_calls = [], tp_results = [] \<rparr>"

definition join_parts :: "turn_parts \<Rightarrow> turn_parts \<Rightarrow> turn_parts" where
  "join_parts p q =
     \<lparr> tp_texts = tp_texts p @ tp_texts q, tp_images = tp_images p @ tp_images q, tp_calls = tp_calls p @ tp_calls q,
       tp_results = tp_results p @ tp_results q \<rparr>"

definition one_block ::
  "(pyval \<Rightarrow> string) \<Rightarrow> (pyval \<Rightarrow> string) \<Rightarrow> string \<Rightarrow> string \<Rightarrow> pyval \<Rightarrow> convert_error + turn_parts" where
  "one_block fl dumps role whr b =
     (let kind = dict_get b ''type'' in
      if kind = PStr ''text'' then Inr (no_parts\<lparr>tp_texts := [block_text fl b]\<rparr>)
      else if kind = PStr ''image'' \<and> role = ''user'' then
        map_sum id (\<lambda>im. no_parts\<lparr>tp_images := [im]\<rparr>) (block_image fl b whr)
      else if kind = PStr ''tool_use'' \<and> role = ''assistant'' then
        (if falsy (dict_get b ''id'') \<or> falsy (dict_get b ''name'')
         then Inl (bad ''A tool_use block needs id and name.'' whr)
         else Inr (no_parts\<lparr>tp_calls :=
                [\<lparr> tc_id = py_str fl (dict_get b ''id''), tc_name = py_str fl (dict_get b ''name''),
                   tc_arguments = Some (dumps (or_else (dict_get b ''input'') (PDict []))) \<rparr>]\<rparr>))
      else if kind = PStr ''tool_result'' \<and> role = ''user'' then
        (if falsy (dict_get b ''tool_use_id'')
         then Inl (bad ''A tool_result block needs tool_use_id.'' whr)
         else map_sum id (\<lambda>t. no_parts\<lparr>tp_results := [tool_message (py_str fl (dict_get b ''tool_use_id'')) t]\<rparr>)
                (plain_text_of fl (dict_get b ''content'') whr))
      else Inl (unsupported (''Content block type '' @ squoted (py_str fl kind) @ '' is not supported for '' @ role @
                  '' messages.'') whr))"

fun turn_blocks ::
  "(pyval \<Rightarrow> string) \<Rightarrow> (pyval \<Rightarrow> string) \<Rightarrow> string \<Rightarrow> string \<Rightarrow> pyval list \<Rightarrow> convert_error + turn_parts" where
  "turn_blocks fl dumps role whr [] = Inr no_parts"
| "turn_blocks fl dumps role whr (b # bs) =
     (case one_block fl dumps role whr b of
        Inl e \<Rightarrow> Inl e
      | Inr p \<Rightarrow> (case turn_blocks fl dumps role whr bs of Inl e \<Rightarrow> Inl e | Inr q \<Rightarrow> Inr (join_parts p q)))"

text \<open>Results come first; a turn without anything else gives no further message.\<close>

definition parts_messages :: "string \<Rightarrow> turn_parts \<Rightarrow> message list" where
  "parts_messages role p =
     tp_results p @
     (if tp_texts p = [] \<and> tp_images p = [] \<and> tp_calls p = [] then []
      else [\<lparr> ms_role = role, ms_content = concat (tp_texts p), ms_tool_calls = tp_calls p, ms_tool_call_id = None,
              ms_images = tp_images p \<rparr>])"

definition convert_turn ::
  "(pyval \<Rightarrow> string) \<Rightarrow> (pyval \<Rightarrow> string) \<Rightarrow> nat \<Rightarrow> (string \<times> pyval) list \<Rightarrow> convert_error + message list" where
  "convert_turn fl dumps i m =
     (let role = opt_get m ''role'' PNone; whr = message_param i ''.content'' in
      if role \<noteq> PStr ''user'' \<and> role \<noteq> PStr ''assistant''
      then Inl (bad (''Unsupported message role '' @ squoted (py_str fl role) @ ''.'') (message_param i ''.role''))
      else let r = py_str fl role in
           case opt_get m ''content'' PNone of
             PStr s \<Rightarrow> Inr [\<lparr> ms_role = r, ms_content = s, ms_tool_calls = [], ms_tool_call_id = None, ms_images = [] \<rparr>]
           | PList bs \<Rightarrow> map_sum id (parts_messages r) (turn_blocks fl dumps r whr bs)
           | _ \<Rightarrow> Inl (bad ''Message content must be a string or a list of blocks.'' whr))"

fun convert_turns ::
  "(pyval \<Rightarrow> string) \<Rightarrow> (pyval \<Rightarrow> string) \<Rightarrow> nat \<Rightarrow> (string \<times> pyval) list list \<Rightarrow> convert_error + message list" where
  "convert_turns fl dumps i [] = Inr []"
| "convert_turns fl dumps i (m # ms) =
     (case convert_turn fl dumps i m of
        Inl e \<Rightarrow> Inl e
      | Inr xs \<Rightarrow> (case convert_turns fl dumps (i + 1) ms of Inl e \<Rightarrow> Inl e | Inr ys \<Rightarrow> Inr (xs @ ys)))"

definition given_tool :: "(string \<times> pyval) list \<Rightarrow> pyval" where
  "given_tool t = PDict
     [(''type'', PStr ''function''),
      (''function'', PDict
        [(''name'', opt_get t ''name'' PNone), (''description'', opt_get t ''description'' (PStr [])),
         (''parameters'', or_else (opt_get t ''input_schema'' PNone)
            (PDict [(''type'', PStr ''object''), (''properties'', PDict [])]))])]"

fun given_tools :: "nat \<Rightarrow> (string \<times> pyval) list list \<Rightarrow> convert_error + pyval list" where
  "given_tools i [] = Inr []"
| "given_tools i (t # ts) =
     (if falsy (opt_get t ''name'' PNone) \<or> opt_get t ''type'' (PStr ''custom'') \<noteq> PStr ''custom''
      then Inl (bad ''Each tool needs a name and an input_schema (server tools are not supported).''
                 (''tools['' @ show_nat i @ '']''))
      else map_sum id ((#) (given_tool t)) (given_tools (i + 1) ts))"

definition given_choice ::
  "(string \<times> pyval) list option \<Rightarrow> (string \<times> pyval) list list \<Rightarrow> convert_error + pyval" where
  "given_choice choice ts =
     (case choice of
        None \<Rightarrow> Inr PNone
      | Some c \<Rightarrow>
          if ts = [] then Inl (bad ''tool_choice needs tools.'' ''tool_choice'')
          else let kind = opt_get c ''type'' PNone; name = opt_get c ''name'' PNone;
                   names = map (\<lambda>t. opt_get t ''name'' PNone) ts
               in if kind = PStr ''tool'' then
                    (if \<not> list_all hashable names \<or> \<not> hashable name then Inl Crash
                     else if \<not> list_ex (py_eq name) names
                     then Inl (bad ''tool_choice must name one of the given tools.'' ''tool_choice'')
                     else if map_of c ''name'' = None then Inl Crash
                     else Inr (PDict [(''type'', PStr ''function''), (''function'', PDict [(''name'', name)])]))
                  else if kind = PStr ''auto'' then Inr (PStr ''auto'')
                  else if kind = PStr ''any'' then Inr (PStr ''required'')
                  else if kind = PStr ''none'' then Inr (PStr ''none'')
                  else if \<not> hashable kind \<and> \<not> falsy kind then Inl Crash
                  else Inl (bad ''tool_choice type must be auto, any, none or tool.'' ''tool_choice''))"

definition given_system :: "(pyval \<Rightarrow> string) \<Rightarrow> pyval \<Rightarrow> convert_error + string" where
  "given_system fl v = plain_text_of fl v ''system''"

definition messages_build ::
  "messages_request \<Rightarrow> message list \<Rightarrow> string \<Rightarrow> pyval list \<Rightarrow> pyval \<Rightarrow> request" where
  "messages_build body msgs sys ts choice =
     \<lparr> rq_messages = msgs, rq_model = mq_model body, rq_max_tokens = mq_max_tokens body,
       rq_temperature = (case mq_temperature body of None \<Rightarrow> 7 / 10 | Some t \<Rightarrow> t), rq_stream = mq_stream body,
       rq_system_prompt = text_or_none sys, rq_metadata = [], rq_tools = ts, rq_tool_choice = choice,
       rq_response_format = PNone \<rparr>"

definition messages_convert ::
  "(pyval \<Rightarrow> string) \<Rightarrow> (pyval \<Rightarrow> string) \<Rightarrow> messages_request \<Rightarrow> convert_error + request" where
  "messages_convert fl dumps body =
     (if ''stop_sequences'' \<in> set (mq_extra body)
      then Inl (unsupported ''Stop sequences are not supported yet.'' ''stop_sequences'')
      else if mq_tools body \<noteq> [] \<and> mq_stream body
      then Inl (unsupported ''Tool use with stream=true is not supported yet.'' ''tools'')
      else case convert_turns fl dumps 0 (mq_messages body) of
          Inl e \<Rightarrow> Inl e
        | Inr msgs \<Rightarrow>
            (if inline_bytes msgs > MAX_IMAGE_BYTES
             then Inl (bad ''Inline images are too large for one request.'' ''messages'')
             else case given_system fl (mq_system body) of
                 Inl e \<Rightarrow> Inl e
               | Inr sys \<Rightarrow>
                   (case given_tools 0 (mq_tools body) of
                      Inl e \<Rightarrow> Inl e
                    | Inr ts \<Rightarrow>
                        (case given_choice (mq_tool_choice body) (mq_tools body) of
                           Inl e \<Rightarrow> Inl e
                         | Inr choice \<Rightarrow> Inr (messages_build body msgs sys ts choice)))))"

section \<open>Answers\<close>

definition ERROR_TYPES :: "(string \<times> string) list" where
  "ERROR_TYPES =
     [(''invalid_request_error'', ''invalid_request_error''), (''authentication_error'', ''authentication_error''),
      (''rate_limit_error'', ''rate_limit_error''), (''server_error'', ''api_error'')]"

definition STOP_REASONS :: "(string \<times> string) list" where
  "STOP_REASONS =
     [(''stop'', ''end_turn''), (''length'', ''max_tokens''), (''tool_calls'', ''tool_use''),
      (''content_filter'', ''refusal'')]"

text \<open>\<open>_error\<close>: the envelope of an error, with its status and headers kept in the error itself.\<close>

definition anthropic_envelope :: "compat_error \<Rightarrow> pyval" where
  "anthropic_envelope e = PDict
     [(''type'', PStr ''error''),
      (''error'', PDict [(''type'', PStr (case map_of ERROR_TYPES (ce_type e) of Some k \<Rightarrow> k | None \<Rightarrow> ''api_error'')),
                         (''message'', PStr (ce_message e))])]"

text \<open>\<open>loads\<close> is \<open>json.loads\<close>, with \<open>None\<close> for a \<open>ValueError\<close>.\<close>

definition call_input :: "(string \<Rightarrow> pyval option) \<Rightarrow> tool_call \<Rightarrow> pyval" where
  "call_input loads c =
     (let a = or_empty (tc_arguments c)
      in case loads (if a = [] then ''{}'' else a) of Some v \<Rightarrow> v | None \<Rightarrow> PDict [])"

definition text_block :: "string \<Rightarrow> pyval" where
  "text_block t = PDict [(''type'', PStr ''text''), (''text'', PStr t)]"

definition tool_use_block :: "(string \<Rightarrow> pyval option) \<Rightarrow> tool_call \<Rightarrow> pyval" where
  "tool_use_block loads c = PDict
     [(''type'', PStr ''tool_use''), (''id'', PStr (tc_id c)), (''name'', PStr (tc_name c)), (''input'', call_input loads c)]"

definition answer_blocks :: "(string \<Rightarrow> pyval option) \<Rightarrow> completion \<Rightarrow> pyval list" where
  "answer_blocks loads resp =
     (let bs = (if co_content resp = [] then [] else [text_block (co_content resp)]) @
               map (tool_use_block loads) (co_tool_calls resp)
      in if bs = [] then [text_block []] else bs)"

text \<open>\<open>_STOP_REASONS.get(reason, "end_turn")\<close>; a reason that cannot be hashed would raise.\<close>

definition stop_reason_of :: "pyval \<Rightarrow> string" where
  "stop_reason_of r =
     (case r of PStr k \<Rightarrow> (case map_of STOP_REASONS k of Some x \<Rightarrow> x | None \<Rightarrow> ''end_turn'') | _ \<Rightarrow> ''end_turn'')"

section \<open>The endpoint\<close>

datatype messages_reply =
    MsgJson pyval "(string \<times> string) list"
  | MsgEvents "(string \<times> pyval) list"
  | MsgError compat_error
  | MsgCrash
  | MsgGone

definition msg_reply :: "convert_error \<Rightarrow> messages_reply" where
  "msg_reply e = (case e of Compat c \<Rightarrow> MsgError c | Crash \<Rightarrow> MsgCrash)"

definition msg_refused :: "'y chat_env \<Rightarrow> http_exc \<Rightarrow> messages_reply" where
  "msg_refused E h = MsgError (from_http (ch_float E) h)"

definition msg_raised :: "'y chat_env \<Rightarrow> raised \<Rightarrow> 'y gw \<Rightarrow> messages_reply" where
  "msg_raised E r w = msg_refused E (http_error (ch_gate E) (wall_of (ge_router (ch_gate E)) w) r)"

definition message_value ::
  "string \<Rightarrow> string \<Rightarrow> pyval list \<Rightarrow> pyval \<Rightarrow> int \<Rightarrow> int \<Rightarrow> pyval" where
  "message_value mid model blocks reason i ou = PDict
     [(''id'', PStr mid), (''type'', PStr ''message''), (''role'', PStr ''assistant''), (''model'', PStr model),
      (''content'', PList blocks), (''stop_reason'', reason), (''stop_sequence'', PNone),
      (''usage'', PDict [(''input_tokens'', PInt i), (''output_tokens'', PInt ou)])]"

definition delta_event :: "string \<Rightarrow> string \<times> pyval" where
  "delta_event t = (''content_block_delta'', PDict
     [(''type'', PStr ''content_block_delta''), (''index'', PInt 0),
      (''delta'', PDict [(''type'', PStr ''text_delta''), (''text'', PStr t)])])"

definition opening_events :: "string \<Rightarrow> string \<Rightarrow> (string \<times> pyval) list" where
  "opening_events mid model =
     [(''message_start'', PDict [(''type'', PStr ''message_start''), (''message'', message_value mid model [] PNone 0 0)]),
      (''content_block_start'', PDict [(''type'', PStr ''content_block_start''), (''index'', PInt 0),
         (''content_block'', text_block [])])]"

definition closing_events :: "pyval \<Rightarrow> int \<Rightarrow> (string \<times> pyval) list" where
  "closing_events reason ou =
     [(''content_block_stop'', PDict [(''type'', PStr ''content_block_stop''), (''index'', PInt 0)]),
      (''message_delta'', PDict [(''type'', PStr ''message_delta''),
         (''delta'', PDict [(''stop_reason'', PStr (stop_reason_of reason)), (''stop_sequence'', PNone)]),
         (''usage'', PDict [(''output_tokens'', PInt ou)])]),
      (''message_stop'', PDict [(''type'', PStr ''message_stop'')])]"

definition failed_event :: "error_kind \<Rightarrow> string \<times> pyval" where
  "failed_event k = (''error'', PDict [(''type'', PStr ''error''),
     (''error'', PDict [(''type'', PStr ''api_error''),
        (''message'', PStr (''The upstream provider failed mid-stream ('' @ kind_value k @ '').''))])])"

definition message_model :: "messages_request \<Rightarrow> stream_usage option \<Rightarrow> string" where
  "message_model body u =
     (let opened = (case u of None \<Rightarrow> [] | Some u \<Rightarrow> su_opened_model u)
      in if opened \<noteq> [] then opened
         else if or_empty (mq_model body) \<noteq> [] then or_empty (mq_model body) else ''auto'')"

definition message_events ::
  "'y chat_env \<Rightarrow> string \<Rightarrow> messages_request \<Rightarrow> time \<Rightarrow> stream_result \<Rightarrow> (string \<times> pyval) list" where
  "message_events E mid body now res =
     opening_events mid (message_model body (sr_usage res)) @ map delta_event (sr_chunks res) @
     (case sr_end res of
        Finished \<Rightarrow> closing_events (or_stop (map_option (ch_stream_finish E) (sr_usage res)))
                     (case sr_usage res of None \<Rightarrow> 0 | Some u \<Rightarrow> su_output_tokens u)
      | Broken e \<Rightarrow> [failed_event (ei_kind (classify now e))]
      | _ \<Rightarrow> [])"

definition create_message ::
  "'y chat_env \<Rightarrow> (string \<Rightarrow> pyval option) \<Rightarrow> nat \<Rightarrow> string \<Rightarrow> string \<Rightarrow> messages_request \<Rightarrow> 'y gw
     \<Rightarrow> messages_reply \<times> 'y gw" where
  "create_message E loads k subject mid body w =
     (case messages_convert (ch_float E) (ch_dumps E) body of
        Inl e \<Rightarrow> (msg_reply e, w)
      | Inr q \<Rightarrow>
          (case budget_gate_check (ch_gate E) subject (mq_model body) w of
             (Some x, w) \<Rightarrow> (msg_refused E (budget_error x), w)
           | (None, w) \<Rightarrow>
               (if \<not> gw_ready (wd_ext w) then (msg_refused E (plain_http 503 ''Router not initialized''), w)
                else if mq_stream body then
                  (case run_stream (ch_gate E) k subject mid 2 q (mq_provider body) w of
                     (Refusal r, w) \<Rightarrow> (msg_raised E r w, w)
                   | (LeftEarly, w) \<Rightarrow> (MsgGone, w)
                   | (Frames res, w) \<Rightarrow> (MsgEvents (message_events E mid body (wall_of (ge_router (ch_gate E)) w) res), w))
                else
                  (case ask_router (ch_gate E) q (mq_provider body) w of
                     (Failed r, w) \<Rightarrow> (msg_raised E r w, w)
                   | (Gone, w) \<Rightarrow> (MsgGone, w)
                   | (Got resp, w) \<Rightarrow>
                       (MsgJson (message_value mid (co_model resp) (answer_blocks loads resp)
                           (PStr (stop_reason_of (or_stop (ch_finish E resp)))) (co_input_tokens resp) (co_output_tokens resp))
                          [(''X-CaiPS-Provider'', co_provider resp),
                           (''X-CaiPS-Cost-USD'', ch_cost_text E (co_cost_usd resp))],
                        book_answered (ch_gate E) subject resp w)))))"

section \<open>Counting tokens\<close>

text \<open>\<open>dumps_sorted\<close> is \<open>json.dumps(.., sort_keys=True)\<close>; \<open>counter n t m\<close> asks provider \<open>n\<close>, \<open>None\<close> if it raises.\<close>

definition count_text :: "(pyval \<Rightarrow> string) \<Rightarrow> request \<Rightarrow> string" where
  "count_text dumps_sorted q =
     intercalate [CHR 0x0A] (filter (\<lambda>p. p \<noteq> [])
       ([or_empty (rq_system_prompt q)] @
        concat (map (\<lambda>m. ms_content m # map (\<lambda>c. tc_name c @ '' '' @ or_empty (tc_arguments c)) (ms_tool_calls m))
          (rq_messages q)) @
        (if rq_tools q = [] then [] else [dumps_sorted (PList (rq_tools q))])))"

definition count_server_error :: "int \<Rightarrow> string \<Rightarrow> convert_error" where
  "count_server_error status message = Compat
     \<lparr> ce_status = status, ce_message = message, ce_type = ''server_error'', ce_code = None, ce_param = None,
       ce_headers = [] \<rparr>"

text \<open>The pinned provider, or the first by name.\<close>

definition count_provider :: "string option \<Rightarrow> (string, provider) odict \<Rightarrow> convert_error + string" where
  "count_provider pinned providers =
     (case pinned of
        Some n \<Rightarrow>
          (if \<not> od_has providers n then Inl (bad (''Unknown provider '' @ squoted n @ ''.'') ''provider'')
           else Inr (if n = [] then hd (sort (od_keys providers)) else n))
      | None \<Rightarrow> (if providers = [] then Inl (count_server_error 503 ''No providers configured.'')
                 else Inr (hd (sort (od_keys providers)))))"

definition count_message_tokens ::
  "(pyval \<Rightarrow> string) \<Rightarrow> (pyval \<Rightarrow> string) \<Rightarrow> (pyval \<Rightarrow> string) \<Rightarrow> (string \<Rightarrow> string \<Rightarrow> string \<Rightarrow> int option) \<Rightarrow>
     messages_request \<Rightarrow> (string, provider) odict \<Rightarrow> convert_error + int \<times> string" where
  "count_message_tokens fl dumps dumps_sorted counter body providers =
     (case messages_convert fl dumps body of
        Inl e \<Rightarrow> Inl e
      | Inr q \<Rightarrow>
          (case count_provider (mq_provider body) providers of
             Inl e \<Rightarrow> Inl e
           | Inr n \<Rightarrow>
               (let model = (if or_empty (mq_model body) \<noteq> [] then or_empty (mq_model body)
                             else case od_get providers n of None \<Rightarrow> [] | Some p \<Rightarrow> pv_default_model p)
                in case counter n (count_text dumps_sorted q) model of
                     None \<Rightarrow> Inl (count_server_error 500 ''Token counting failed.'')
                   | Some t \<Rightarrow> Inr (t, n))))"

section \<open>Answers come back as they went\<close>

definition canonical_call :: "(pyval \<Rightarrow> string) \<Rightarrow> (string \<Rightarrow> pyval option) \<Rightarrow> tool_call \<Rightarrow> tool_call" where
  "canonical_call dumps loads c = c\<lparr>tc_arguments := Some (dumps (or_else (call_input loads c) (PDict [])))\<rparr>"

lemma has_key_dict [simp]: "has_key (PDict d) k dflt = (case map_of d k of Some x \<Rightarrow> x | None \<Rightarrow> dflt)"
  by (simp add: has_key_def)

lemma dict_get_dict [simp]: "dict_get (PDict d) k = (case map_of d k of Some x \<Rightarrow> x | None \<Rightarrow> PNone)"
  by (simp add: dict_get_def)

lemma turn_tool_uses:
  "named_calls cs \<Longrightarrow> turn_blocks fl dumps ''assistant'' whr (map (tool_use_block loads) cs) =
     Inr (no_parts\<lparr>tp_calls := map (canonical_call dumps loads) cs\<rparr>)"
proof (induction cs)
  case (Cons c cs)
  then show ?case
    by (cases c) (auto simp: named_calls_def tool_use_block_def one_block_def canonical_call_def no_parts_def join_parts_def)
qed (simp add: no_parts_def)

lemma one_text: "one_block fl dumps role whr (text_block t) = Inr (no_parts\<lparr>tp_texts := [t]\<rparr>)"
  by (simp add: one_block_def text_block_def block_text_def)

text \<open>
  An assistant's answer sent back by the client is the message the gateway would have kept: its text, and its tool
  calls in order with their names and ids, their arguments written out again.
\<close>

lemma blocks_come_back:
  assumes "named_calls (co_tool_calls resp)"
  shows "convert_turn fl dumps i [(''role'', PStr ''assistant''), (''content'', PList (answer_blocks loads resp))] =
    Inr [(assistant_message resp)\<lparr>ms_tool_calls := map (canonical_call dumps loads) (co_tool_calls resp)\<rparr>]"
proof -
  have "turn_blocks fl dumps ''assistant'' whr (answer_blocks loads resp) =
      Inr \<lparr> tp_texts = (if co_content resp = [] \<and> co_tool_calls resp \<noteq> [] then [] else [co_content resp]), tp_images = [],
            tp_calls = map (canonical_call dumps loads) (co_tool_calls resp), tp_results = [] \<rparr>" for whr
    using turn_tool_uses [OF assms, of fl dumps whr loads]
    by (auto simp: answer_blocks_def one_text Let_def join_parts_def no_parts_def)
  then show ?thesis
    by (auto simp: convert_turn_def opt_get_def parts_messages_def assistant_message_def Let_def)
qed

text \<open>The results in a user's message come right after the calls they answer, before anything else it says.\<close>

lemma results_come_first:
  assumes "convert_turn fl dumps i m = Inr ms"
  shows "\<exists>rs rest. ms = rs @ rest \<and> list_all (is_role ''tool'') rs \<and> length rest \<le> 1 \<and> list_all (\<lambda>m. \<not> is_role ''tool'' m) rest"
proof -
  have one: "one_block fl dumps role whr b = Inr p \<Longrightarrow> list_all (is_role ''tool'') (tp_results p)" for role whr b p
    by (auto simp: one_block_def no_parts_def tool_message_def is_role_def Let_def map_sum_def split: if_splits sum.splits)
  have results: "turn_blocks fl dumps role whr bs = Inr p \<Longrightarrow> list_all (is_role ''tool'') (tp_results p)" for role whr bs p
  proof (induction bs arbitrary: p)
    case (Cons b bs)
    then show ?case using one by (fastforce simp: join_parts_def split: sum.splits)
  qed (simp add: no_parts_def)
  have parts: "list_all (is_role ''tool'') (tp_results p) \<Longrightarrow> r \<noteq> ''tool'' \<Longrightarrow> parts_messages r p = ms \<Longrightarrow> ?thesis" for r p
    by (intro exI [of _ "tp_results p"] exI [of _ "drop (length (tp_results p)) (parts_messages r p)"])
      (auto simp: parts_messages_def is_role_def)
  show ?thesis
  proof (cases "opt_get m ''content'' PNone")
    case (PStr t)
    then show ?thesis using assms
      by (intro exI [of _ "[]"] exI [of _ ms]) (auto simp: convert_turn_def is_role_def Let_def split: if_splits)
  next
    case (PList bs)
    then have "\<exists>r p. turn_blocks fl dumps r (message_param i ''.content'') bs = Inr p \<and> parts_messages r p = ms \<and> r \<noteq> ''tool''"
      using assms by (fastforce simp: convert_turn_def Let_def map_sum_def split: if_splits sum.splits)
    then show ?thesis using parts results by blast
  qed (use assms in \<open>auto simp: convert_turn_def Let_def split: if_splits\<close>)
qed

section \<open>Events\<close>

text \<open>A client of the events: the text it has seen, whether the message has stopped, and how many errors came.\<close>

definition events_text :: "(string \<times> pyval) list \<Rightarrow> string" where
  "events_text evs = concat (map (\<lambda>(n, v). if n = ''content_block_delta''
     then (case dict_get (dict_get v ''delta'') ''text'' of PStr s \<Rightarrow> s | _ \<Rightarrow> []) else []) evs)"

definition event_count :: "string \<Rightarrow> (string \<times> pyval) list \<Rightarrow> nat" where
  "event_count n evs = length (filter (\<lambda>e. fst e = n) evs)"

lemma events_show_truncation:
  "events_text (message_events E mid body now res) = concat (sr_chunks res)
   \<and> event_count ''message_stop'' (message_events E mid body now res) = (if sr_end res = Finished then 1 else 0)
   \<and> event_count ''error'' (message_events E mid body now res) = (case sr_end res of Broken e \<Rightarrow> 1 | _ \<Rightarrow> 0)"
proof -
  have t: "events_text (map delta_event cs) = concat cs" for cs
    by (induction cs) (simp_all add: events_text_def delta_event_def)
  have a: "events_text (xs @ ys) = events_text xs @ events_text ys" for xs ys
    by (simp add: events_text_def)
  have c: "event_count n (map delta_event cs) = (if n = ''content_block_delta'' then length cs else 0)" for n cs
    by (induction cs) (simp_all add: event_count_def delta_event_def)
  have e: "event_count n (xs @ ys) = event_count n xs + event_count n ys" for n xs ys
    by (simp add: event_count_def)
  have o: "events_text (opening_events mid m) = []" "event_count ''message_stop'' (opening_events mid m) = 0"
      "event_count ''error'' (opening_events mid m) = 0" for m
    by (simp_all add: opening_events_def events_text_def event_count_def)
  have f: "events_text [failed_event kd] = []" "event_count ''message_stop'' [failed_event kd] = 0"
      "event_count ''error'' [failed_event kd] = 1" for kd
    by (simp_all add: failed_event_def events_text_def event_count_def)
  have s: "events_text (closing_events r n) = []" "event_count ''message_stop'' (closing_events r n) = 1"
      "event_count ''error'' (closing_events r n) = 0" for r n
    by (simp_all add: closing_events_def events_text_def event_count_def)
  show ?thesis
    by (cases "sr_end res") (simp_all only: message_events_def a e t c o f s stream_end.case, simp_all add: events_text_def event_count_def)
qed

end
