(* ===== verification/Spec2Isabelle.thy ===== *)
theory Spec2Isabelle
  imports Prelude Errors Circuit_Breaker Async Deadlines Retry Limiter Health Drain Cache
    Budgets Policy Messages Router_State Router_Plan Router_Call Router_Stream Untrusted Registry
    Context Approvals Executor Mcp Run_Store Runner
    Runner_Safety Runner_Pairing Calendar Cron Templates Workflow
    Tasks Task_Runner Task_Invariant Task_Steps Task_Progress Triggers Trigger_Bounds
    Key_Pool Audit_Log Agent_Memory Events Secure_Frames Secure_Session Agent_Protocol
    Router_Hedge Guardrails Usage_Ledger Openai_Convert Gateway Chat_Gateway Chat_Sample Chat_Properties
    Anthropic_Gateway
begin

text \<open>
  CoreAI Protocol Suite: a self-hosted gateway for language models. This development models the
  decision-making core of its Python implementation under \<open>src/src\<close> (paths below leave that prefix out) and
  proves what each part promises to the parts that use it.

  \<^bold>\<open>The program.\<close> A request enters over HTTP and reaches the router (\<open>coreai/router.py\<close>). Before that the
  drain controller may refuse it and the budgets may refuse its subject. The router plans an order of
  providers from a strategy or a declarative policy, screens them by health, privacy, difficulty and
  capabilities, and calls them in turn: each call passes the provider's circuit breaker and limiter, is
  retried with backoff inside one deadline, and its error is classified to decide between retry, failover
  and giving up; answers may come from the response cache. On top of the router sit the tool loop
  (\<open>tools/executor.py\<close>), the MCP server (\<open>tools/mcp.py\<close>), the agent runner (\<open>harness/runner.py\<close>) and
  workflows (\<open>harness/workflow.py\<close>). All of them call tools through one registry, which checks allow lists,
  permissions, schemas, human approvals and rate limits, and show tool output to a model only wrapped
  as untrusted data. Runs are stored with checkpoints and can be paused, killed and resumed; cron
  expressions schedule them. Beside these stand a store of tasks run by one worker per agent, an authenticated
  session protocol and a message router between agents, a usage ledger, an audit log and an event bus. The
  HTTP endpoints (\<open>api/routes.py\<close>, \<open>api/openai_compat.py\<close>, \<open>api/anthropic_compat.py\<close>) convert a request, check
  guardrails and budgets, ask the router and book what the answer cost.

  \<^bold>\<open>Theories and what they model.\<close>

  \<^item> \<open>Prelude\<close>: Python's values (\<open>pyval\<close>), insertion-ordered dictionaries as association lists (\<open>od_get\<close>,
    \<open>od_set\<close>, \<open>od_pop\<close>, ...), string helpers, and the locales \<open>op_system\<close>, \<open>monotone_op_system\<close> and
    \<open>answering_refinement\<close>: an operation that keeps an invariant keeps it over every run, a counter that no
    operation lowers is not lowered by a run, and a run whose operations each give the answer of a specification
    and step as it does gives its answers (\<open>run_answers\<close>). The components interpret them with their own step functions.
  \<^item> \<open>Errors\<close>: \<open>coreai/errors.py\<close>. \<open>Circuit_Breaker\<close>: \<open>coreai/circuit_breaker.py\<close>, with the three-mode
    specification it refines and the locale \<open>gate\<close> of what the router needs of a breaker.
  \<^item> \<open>Async\<close>: how coroutines are read. \<open>Deadlines\<close>, \<open>Retry\<close>, \<open>Limiter\<close>, \<open>Health\<close>, \<open>Drain\<close>: the modules
    of these names in \<open>coreai/\<close>. \<open>Cache\<close>: \<open>coreai/cache.py\<close> with the locale \<open>cache_backend\<close>, interpreted on
    the in-memory cache.
  \<^item> \<open>Budgets\<close>: \<open>coreai/budgets.py\<close>. \<open>Policy\<close>: \<open>coreai/policy.py\<close>. \<open>Messages\<close>: \<open>providers/base.py\<close>.
  \<^item> \<open>Router_State\<close>, \<open>Router_Plan\<close>, \<open>Router_Call\<close>, \<open>Router_Stream\<close>, \<open>Router_Hedge\<close>: \<open>coreai/router.py\<close>, its
    configuration and tables, its planning and dry run, its calls, failover, cache and embeddings, its streams, and
    hedged calls.
  \<^item> \<open>Untrusted\<close>: \<open>guardrails/injection.py\<close>. \<open>Registry\<close>, \<open>Approvals\<close>, \<open>Executor\<close>, \<open>Mcp\<close>: \<open>tools/registry.py\<close>,
    \<open>tools/approvals.py\<close>, \<open>tools/executor.py\<close>, \<open>tools/mcp.py\<close>.
  \<^item> \<open>Context\<close>: \<open>harness/context.py\<close> and the token estimate of \<open>utils/tokens.py\<close>. \<open>Run_Store\<close>:
    \<open>harness/store.py\<close> and \<open>harness/config.py\<close>. \<open>Runner\<close>, \<open>Runner_Safety\<close>, \<open>Runner_Pairing\<close>:
    \<open>harness/runner.py\<close>, its definitions, its limits and human decisions, and its conversations.
  \<^item> \<open>Calendar\<close>, \<open>Cron\<close>: the dates of Python's \<open>datetime\<close> and \<open>harness/cron.py\<close>.
  \<^item> \<open>Templates\<close>, \<open>Workflow\<close>: \<open>string.Template\<close> and \<open>harness/workflow.py\<close>.
  \<^item> \<open>Tasks\<close>: \<open>coreai/orchestrator.py\<close>, tasks and their bounded store. \<open>Task_Runner\<close>: \<open>coreai/task_runner.py\<close> and
    the handler of \<open>POST /tasks\<close>, one event per stretch of a coroutine. \<open>Task_Invariant\<close>, \<open>Task_Steps\<close>,
    \<open>Task_Progress\<close>: its invariant, its preservation by every event, and what follows from it.
  \<^item> \<open>Triggers\<close>, \<open>Trigger_Bounds\<close>: \<open>harness/triggers.py\<close> and what histories of its operations guarantee; the locale
    \<open>trigger_invariant\<close> reduces an invariant of all operations to the few primitive changes. \<open>Key_Pool\<close>:
    \<open>providers/pool.py\<close>. \<open>Audit_Log\<close>: \<open>coreai/audit.py\<close>. \<open>Agent_Memory\<close>: \<open>coreai/memory_manager.py\<close>. \<open>Events\<close>:
    \<open>utils/events.py\<close>, the bus and the budget alerts made from the status of \<open>Budgets\<close>.
  \<^item> \<open>Secure_Frames\<close>, \<open>Secure_Session\<close>: \<open>protocols/secure_protocol.py\<close>, frames as bytes, codec, keys, replay
    guard, handshake and session. \<open>Agent_Protocol\<close>: \<open>protocols/distributed_agent.py\<close>, envelopes and the message
    router as a step function on events.
  \<^item> \<open>Guardrails\<close>: \<open>guardrails/pii.py\<close>, \<open>guardrails/filters.py\<close>, \<open>guardrails/config.py\<close>. \<open>Usage_Ledger\<close>:
    \<open>coreai/usage.py\<close>. \<open>Gateway\<close>: what the endpoints of \<open>api/routes.py\<close> share, and its completions.
    \<open>Openai_Convert\<close>, \<open>Chat_Gateway\<close>: \<open>api/openai_compat.py\<close>, its conversion and its handlers; \<open>Chat_Sample\<close> is a
    small gateway for the witnesses and \<open>Chat_Properties\<close> holds the properties. \<open>Anthropic_Gateway\<close>:
    \<open>api/anthropic_compat.py\<close>.
  \<^item> Interfaces. \<open>gate\<close> (what the router needs of a breaker) and \<open>cache_backend\<close> (what the response cache needs
    of its store) are locales interpreted on the breaker (\<open>breaker_gate\<close>) and on the in-memory cache
    (\<open>memory_backend\<close>); \<open>trigger_invariant\<close> is interpreted by \<open>links\<close>, \<open>bounds\<close> and \<open>proper\<close>; \<open>op_system\<close> by
    \<open>drain_runs\<close>, \<open>store_runs\<close>, \<open>approvals\<close>, \<open>audit\<close>, \<open>open_window\<close> and \<open>carried\<close>; \<open>monotone_op_system\<close> by
    \<open>breaker_runs\<close>; \<open>answering_refinement\<close> by \<open>breaker_refines\<close>.

  A definition has the name of the function or method it models, with its object as an explicit argument and
  result; classes are records whose fields carry a two-letter prefix; exceptions are the left side of a
  sum, an \<open>option\<close> or the \<open>outcome\<close> of \<open>Async\<close>.

  \<^bold>\<open>What the properties show.\<close> Each states its hypotheses in the text above it.

  \<^item> Tasks: C1 no task is lost, C10 one run per agent, both as long as no task is created for an agent that
    is being dropped.
  \<^item> Streams and hedged calls: C2 nothing leaks, C8 one provider per stream, C16 no leg is left running.
  \<^item> Breaker and limiter: C3 the breaker answers as the three-mode machine does, up to stale successes; C4 its window
    and its recovery; C9 the rate of a token bucket in every window; C11 the bound on concurrency.
  \<^item> Chat endpoint: C5 a buffered stream is the plain answer, C6 answers keep their schema and are booked once, C14
    what the router sees has been cleared.
  \<^item> Triggers: C7 their bounds, C12 ticks, C15 webhooks are authentic.
  \<^item> Protocols: C13 what an agent receives was sent to it, C20 no session accepts a frame twice.
  \<^item> Budgets and records: C17 limits are enforced exactly, C18 loading a budgets document, C19 the audit log
    hides secrets.
  \<^item> Providers: C21 the wire form keeps the conversation, C22 a key pool tries every key.
  \<^item> Router: C23 to C25 planning (privacy, policy, the dry run), C26 calls leak nothing, C27 failover is complete, C28
    the one path that does leak (an error of the code, proved as such).
  \<^item> Tools: C29 wrapping, C30 and C31 the registry's refusals and rates, C33 approvals, C34 the tool loop, C35 MCP.
  \<^item> Runs: C32 compaction, C36 checkpoints, C37 runs stop, C38 they need humans, C39 they stay resumable, C40 cron.

  Findings that contradict a comment or a document are listed with the development; several are lemmas beside
  the component they concern, and where a property needs a hypothesis because of one, a lemma shows what
  happens without it (\<open>dropped_task_revives\<close>, \<open>empty_type_fires_all\<close>, \<open>replay_at_the_edge\<close>, \<open>nan_frame_accepted_again\<close>,
  \<open>memory_wrapper_can_be_closed\<close>, \<open>cancelled_calls_dangle\<close>).

  \<^bold>\<open>Idealisations.\<close> A \<open>float\<close> is an exact real number; infinities and NaN appear only where the code tests
  for them, and on the wire of a session, where a double is its bit pattern. Integers are unbounded as in Python. Text is ASCII. A synchronous stretch reads the clock once,
  at an argument \<open>now\<close>. An await is a function on a world of any type, so whatever other coroutines do
  meanwhile is covered; where interleaving inside a component matters (\<open>Limiter\<close>, \<open>Task_Runner\<close>, \<open>Agent_Protocol\<close>) it is a step function on events in any order.
  Fresh ids (\<open>uuid4\<close>) are numbered. A run of a task ends by cancellation only if it was cancelled.
  The legs of a hedged call run in the environment, which tells when they end; a second cancellation during the
  last gather of a call that is being cancelled is not considered. The bound of C9 is for runs without the
  refund of a caller cancelled in its sleep. \<open>next_after\<close> ignores the rounding of the start time to microseconds.
  Libraries and services (JSON, JSON schema, SQL, SHA-256, HMAC, vendor SDKs, regular expressions) are
  parameters; the only facts assumed of them stand as hypotheses of the properties that use them. Log
  lines, spans and metrics are left out. SQL statements are functions on tables; rows are never deleted.

  \<^bold>\<open>Bounds and termination.\<close> No definition uses fuel that could run out unnoticed: the retry loop recurses
  up to \<open>max_attempts\<close>; the tool loop up to \<open>max_steps + 1\<close> turns, which the code's own check enforces;
  a stream is followed for any number of chunks, and its theorems hold for every such number; the
  loop of a run terminates because each turn uses up a step of the agent's limit (C37); the search of
  \<open>next_after\<close> runs the code's own bound of rounds, and C40 shows that it never runs out.

  \<^bold>\<open>Not modelled\<close>, with the reasons in the list of components: the Redis cache, provider adapters, tool
  handlers and the sandbox, databases, retrieval and long-term memory, the processes of local runtimes, training, evaluation
  and feedback, API keys and tokens (library cryptography), the price list, administrative endpoints, the terminal
  interface, the command line and the SDK, observability and backups: I/O and glue around the modelled core. The
  maintenance scheduler and the older agent loop of \<open>agents/\<close> are left out too: the modelled core calls neither.
\<close>

end
